(* ===== verification/Py_Prelude.thy ===== *)
theory Py_Prelude
  imports Main "HOL-Library.AList" "HOL-Library.Multiset"
begin

text \<open>
  The shared base of the development: how a Python method is written as a HOL function, and
  the facts about lists, dictionaries and loops that every component uses.

  A method that reads and writes an object becomes a function from the object's state to a
  pair: the outcome (\<open>Inl\<close> the exception raised, \<open>Inr\<close> the value returned) and the
  state it leaves behind. The state is kept on both outcomes, because Python keeps every
  assignment made before an exception, and the \<^verbatim>\<open>try / except\<close> blocks of the program
  (the roll-backs of the KV map and of the block manager) start from exactly that state.
\<close>

section \<open>Exceptions and methods\<close>

datatype py_error =
    ValueError string
  | RuntimeError string
  | NotImplementedError string
  | AssertionError
  | IndexError
  | KeyError
  | ZeroDivisionError
  | StopIteration
  | TypeError
  | AttributeError
  | NoFreeBlocksError
  | NonTermination

text \<open>\<open>NonTermination\<close> is no exception of Python: it stands for a call that never returns.\<close>

type_synonym ('s, 'a) pym = "'s \<Rightarrow> (py_error + 'a) \<times> 's"

definition ret :: "'a \<Rightarrow> ('s, 'a) pym" where
  "ret x = (\<lambda>s. (Inr x, s))"

definition throw :: "py_error \<Rightarrow> ('s, 'a) pym" where
  "throw e = (\<lambda>s. (Inl e, s))"

definition bnd :: "('s, 'a) pym \<Rightarrow> ('a \<Rightarrow> ('s, 'b) pym) \<Rightarrow> ('s, 'b) pym" where
  "bnd m k = (\<lambda>s. case m s of (Inl e, s') \<Rightarrow> (Inl e, s') | (Inr x, s') \<Rightarrow> k x s')"

definition sq :: "('s, 'a) pym \<Rightarrow> ('s, 'b) pym \<Rightarrow> ('s, 'b) pym" where
  "sq m k = bnd m (\<lambda>_. k)"

definition gets :: "('s \<Rightarrow> 'a) \<Rightarrow> ('s, 'a) pym" where
  "gets f = (\<lambda>s. (Inr (f s), s))"

definition modify :: "('s \<Rightarrow> 's) \<Rightarrow> ('s, unit) pym" where
  "modify f = (\<lambda>s. (Inr (), f s))"

text \<open>A value or exception that does not touch the state: an index or key lookup.\<close>

definition lift_err :: "('s \<Rightarrow> py_error + 'a) \<Rightarrow> ('s, 'a) pym" where
  "lift_err f = (\<lambda>s. (f s, s))"

text \<open>\<^verbatim>\<open>if not b: raise e\<close>\<close>

definition ensure :: "bool \<Rightarrow> py_error \<Rightarrow> ('s, unit) pym" where
  "ensure b e = (if b then ret () else throw e)"

text \<open>\<^verbatim>\<open>try: m finally: f\<close>: the clean-up runs on both outcomes; its own exception wins.\<close>

definition try_finally :: "('s, 'a) pym \<Rightarrow> ('s, unit) pym \<Rightarrow> ('s, 'a) pym" where
  "try_finally m f = (\<lambda>s. case m s of (r, s') \<Rightarrow>
     (case f s' of (Inl e, s'') \<Rightarrow> (Inl e, s'') | (Inr _, s'') \<Rightarrow> (r, s'')))"

definition try_except :: "('s, 'a) pym \<Rightarrow> (py_error \<Rightarrow> ('s, 'a) pym) \<Rightarrow> ('s, 'a) pym" where
  "try_except m h = (\<lambda>s. case m s of (Inl e, s') \<Rightarrow> h e s' | (Inr x, s') \<Rightarrow> (Inr x, s'))"

text \<open>
  A \<^verbatim>\<open>for\<close> loop over a list. \<open>acc\<close> holds the local variables the body updates. In
  \<open>fold_catch\<close> the loop stands inside a \<^verbatim>\<open>try\<close> block, whose handler reads the local
  variables as they were when the exception was raised.
\<close>

fun fold_each :: "'a list \<Rightarrow> 'b \<Rightarrow> ('b \<Rightarrow> 'a \<Rightarrow> ('s, 'b) pym) \<Rightarrow> ('s, 'b) pym" where
  "fold_each [] acc body = ret acc"
| "fold_each (x # xs) acc body = bnd (body acc x) (\<lambda>acc'. fold_each xs acc' body)"

definition for_each :: "'a list \<Rightarrow> ('a \<Rightarrow> ('s, unit) pym) \<Rightarrow> ('s, unit) pym" where
  "for_each xs body = fold_each xs () (\<lambda>_. body)"

fun fold_catch ::
  "'a list \<Rightarrow> 'b \<Rightarrow> ('b \<Rightarrow> 'a \<Rightarrow> ('s, 'b) pym) \<Rightarrow> ('b \<Rightarrow> py_error \<Rightarrow> ('s, 'b) pym) \<Rightarrow> ('s, 'b) pym"
where
  "fold_catch [] acc body h = ret acc"
| "fold_catch (x # xs) acc body h = (\<lambda>s. case body acc x s of
      (Inl e, s') \<Rightarrow> h acc e s'
    | (Inr acc', s') \<Rightarrow> fold_catch xs acc' body h s')"

text \<open>
  A list comprehension \<^verbatim>\<open>[f(x) for x in xs]\<close> and \<^verbatim>\<open>all(f(x) for x in xs)\<close>, which stops at the
  first false value.
\<close>

fun collect :: "'a list \<Rightarrow> ('a \<Rightarrow> ('s, 'b) pym) \<Rightarrow> ('s, 'b list) pym" where
  "collect [] f = ret []"
| "collect (x # xs) f = bnd (f x) (\<lambda>y. bnd (collect xs f) (\<lambda>ys. ret (y # ys)))"

fun all_each :: "'a list \<Rightarrow> ('a \<Rightarrow> ('s, bool) pym) \<Rightarrow> ('s, bool) pym" where
  "all_each [] f = ret True"
| "all_each (x # xs) f = bnd (f x) (\<lambda>b. if b then all_each xs f else ret False)"

text \<open>
  A \<^verbatim>\<open>try\<close> block whose body mutates local objects \<open>l\<close> (lists it appends to): the handler and the
  code behind the block read them as the body left them.
\<close>

definition try_local ::
  "'l \<Rightarrow> ('s \<times> 'l, 'a) pym \<Rightarrow> ('l \<Rightarrow> py_error \<Rightarrow> ('s, 'b) pym) \<Rightarrow> ('l \<Rightarrow> 'a \<Rightarrow> ('s, 'b) pym) \<Rightarrow>
   ('s, 'b) pym"
where
  "try_local l m h k = (\<lambda>s. case m (s, l) of
     (Inl e, (s', l')) \<Rightarrow> h l' e s' | (Inr x, (s', l')) \<Rightarrow> k l' x s')"

definition on_fst :: "('s, 'a) pym \<Rightarrow> ('s \<times> 'l, 'a) pym" where
  "on_fst m = (\<lambda>(s, l). case m s of (r, s') \<Rightarrow> (r, (s', l)))"

definition on_snd :: "('l, 'a) pym \<Rightarrow> ('s \<times> 'l, 'a) pym" where
  "on_snd m = (\<lambda>(s, l). case m l of (r, l') \<Rightarrow> (r, (s, l')))"

text \<open>Running the start of a method whose state reads and checks are known.\<close>

named_theorems run_simps \<open>evaluation of the method constructors\<close>

lemma run_basic [run_simps]:
  "bnd (gets f) k s = k (f s) s"
  "bnd (ret x) k s = k x s"
  "bnd (throw e) k s = (Inl e, s)"
  "sq (modify f) m s = m (f s)"
  "sq (ensure True e) m = m"
  "sq (ensure False e) m = throw e"
  by (simp_all add: bnd_def sq_def gets_def ret_def throw_def modify_def ensure_def fun_eq_iff)

lemma run_lift_Inr [run_simps]: "f s = Inr x \<Longrightarrow> bnd (lift_err f) k s = k x s"
  by (simp add: bnd_def lift_err_def)

lemma run_lift_Inl [run_simps]: "f s = Inl e \<Longrightarrow> bnd (lift_err f) k s = (Inl e, s)"
  by (simp add: bnd_def lift_err_def)

section \<open>Reasoning: weakest preconditions\<close>

text \<open>
  \<open>wp m Q E s\<close>: run from \<open>s\<close>, the method \<open>m\<close> either returns and \<open>Q\<close> holds of the value and
  the state, or raises and \<open>E\<close> holds of the exception and the state. Every method terminates,
  so this is total correctness. The equations turn a method body into its verification
  condition by rewriting.
\<close>

named_theorems wp_simps \<open>weakest preconditions of the method constructors\<close>

definition wp :: "('s, 'a) pym \<Rightarrow> ('a \<Rightarrow> 's \<Rightarrow> bool) \<Rightarrow> (py_error \<Rightarrow> 's \<Rightarrow> bool) \<Rightarrow> 's \<Rightarrow> bool" where
  "wp m Q E s = (case m s of (Inr x, s') \<Rightarrow> Q x s' | (Inl e, s') \<Rightarrow> E e s')"

lemma wp_ret [wp_simps]: "wp (ret x) Q E s = Q x s"
  by (simp add: wp_def ret_def)

lemma wp_throw [wp_simps]: "wp (throw e) Q E s = E e s"
  by (simp add: wp_def throw_def)

lemma wp_bnd [wp_simps]: "wp (bnd m k) Q E s = wp m (\<lambda>x. wp (k x) Q E) E s"
  by (simp add: wp_def bnd_def split: prod.splits sum.splits)

lemma wp_sq [wp_simps]: "wp (sq m k) Q E s = wp m (\<lambda>_. wp k Q E) E s"
  by (simp add: sq_def wp_bnd)

lemma wp_gets [wp_simps]: "wp (gets f) Q E s = Q (f s) s"
  by (simp add: wp_def gets_def)

lemma wp_modify [wp_simps]: "wp (modify f) Q E s = Q () (f s)"
  by (simp add: wp_def modify_def)

lemma wp_lift_err [wp_simps]:
  "wp (lift_err f) Q E s = (case f s of Inl e \<Rightarrow> E e s | Inr x \<Rightarrow> Q x s)"
  by (simp add: wp_def lift_err_def)

lemma wp_ensure [wp_simps]: "wp (ensure b e) Q E s = (if b then Q () s else E e s)"
  by (simp add: ensure_def wp_ret wp_throw)

lemma wp_if [wp_simps]: "wp (if b then m else n) Q E s = (if b then wp m Q E s else wp n Q E s)"
  by simp

lemma wp_Let [wp_simps]: "wp (Let x f) Q E s = (let y = x in wp (f y) Q E s)"
  by simp

lemma wp_try_except [wp_simps]:
  "wp (try_except m h) Q E s = wp m Q (\<lambda>e. wp (h e) Q E) s"
  by (simp add: wp_def try_except_def split: prod.splits sum.splits)

lemma wp_try_finally [wp_simps]:
  "wp (try_finally m f) Q E s =
     wp m (\<lambda>x. wp f (\<lambda>_. Q x) E) (\<lambda>e. wp f (\<lambda>_. E e) E) s"
  by (simp add: wp_def try_finally_def split: prod.splits sum.splits)

lemma wp_try_local [wp_simps]:
  "wp (try_local l m h k) Q E s =
     wp m (\<lambda>x (s', l'). wp (k l' x) Q E s') (\<lambda>e (s', l'). wp (h l' e) Q E s') (s, l)"
  by (simp add: wp_def try_local_def split: prod.splits sum.splits)

lemma wp_on_fst [wp_simps]:
  "wp (on_fst m) Q E sl = wp m (\<lambda>x s'. Q x (s', snd sl)) (\<lambda>e s'. E e (s', snd sl)) (fst sl)"
  by (simp add: wp_def on_fst_def split: prod.splits sum.splits)

lemma wp_on_snd [wp_simps]:
  "wp (on_snd m) Q E sl = wp m (\<lambda>x l'. Q x (fst sl, l')) (\<lambda>e l'. E e (fst sl, l')) (snd sl)"
  by (simp add: wp_def on_snd_def split: prod.splits sum.splits)

lemma wp_mono:
  assumes "wp m Q E s" "\<And>x t. Q x t \<Longrightarrow> Q' x t" "\<And>e t. E e t \<Longrightarrow> E' e t"
  shows "wp m Q' E' s"
  using assms by (auto simp: wp_def split: prod.splits sum.splits)

lemma wp_conj:
  "wp m Q E s \<Longrightarrow> wp m Q' E' s \<Longrightarrow> wp m (\<lambda>x t. Q x t \<and> Q' x t) (\<lambda>e t. E e t \<and> E' e t) s"
  by (auto simp: wp_def split: prod.splits sum.splits)

lemma wp_result: "wp m (\<lambda>x t. m s = (Inr x, t)) (\<lambda>e t. m s = (Inl e, t)) s"
  by (auto simp: wp_def split: prod.splits sum.splits)

lemma wp_Inr: "wp m Q E s \<Longrightarrow> m s = (Inr x, t) \<Longrightarrow> Q x t"
  by (simp add: wp_def)

lemma wp_Inl: "wp m Q E s \<Longrightarrow> m s = (Inl e, t) \<Longrightarrow> E e t"
  by (simp add: wp_def)

text \<open>Two methods that run alike from one state.\<close>

definition run_eq :: "'s \<Rightarrow> ('s, 'a) pym \<Rightarrow> ('s, 'a) pym \<Rightarrow> bool" where
  "run_eq s m m' \<longleftrightarrow> m s = m' s"

lemma wp_run_eq: "run_eq s m m' \<Longrightarrow> wp m Q E s = wp m' Q E s"
  by (simp add: wp_def run_eq_def)

lemma wp_snd: "wp m (\<lambda>_. P) (\<lambda>_. P) s \<Longrightarrow> P (snd (m s))"
  by (auto simp: wp_def split: prod.splits sum.splits)

lemma wp_ok_result:
  "wp m Q (\<lambda>_ _. False) s \<Longrightarrow> \<exists>x t. m s = (Inr x, t) \<and> Q x t"
  by (auto simp: wp_def split: prod.splits sum.splits)

text \<open>Two continuations that agree on every result of the method before them.\<close>

lemma bnd_cong_wp: "wp m (\<lambda>x t. k x t = k' x t) (\<lambda>_ _. True) s \<Longrightarrow> bnd m k s = bnd m k' s"
  by (auto simp: wp_def bnd_def split: prod.splits sum.splits)

text \<open>Loop rules: the invariant is indexed by the elements still to be visited.\<close>

lemma wp_fold_each:
  assumes "I xs acc s"
    and "\<And>x ys a t. I (x # ys) a t \<Longrightarrow> wp (body a x) (I ys) E t"
    and "\<And>a t. I [] a t \<Longrightarrow> Q a t"
  shows "wp (fold_each xs acc body) Q E s"
  using assms(1)
proof (induction xs arbitrary: acc s)
  case Nil
  then show ?case by (simp add: wp_ret assms(3))
next
  case (Cons x xs)
  show ?case
    unfolding fold_each.simps wp_bnd
    by (rule wp_mono [OF assms(2) [OF Cons.prems]]) (simp_all add: Cons.IH)
qed

lemma wp_for_each:
  assumes "I xs s"
    and "\<And>x ys t. I (x # ys) t \<Longrightarrow> wp (body x) (\<lambda>_. I ys) E t"
    and "\<And>t. I [] t \<Longrightarrow> Q () t"
  shows "wp (for_each xs body) Q E s"
  unfolding for_each_def
  by (rule wp_fold_each [where I = "\<lambda>ys _. I ys"]) (use assms in auto)

lemma wp_fold_catch:
  assumes "I xs acc s"
    and "\<And>x ys a t. I (x # ys) a t \<Longrightarrow> wp (body a x) (I ys) (\<lambda>e. wp (h a e) Q E) t"
    and "\<And>a t. I [] a t \<Longrightarrow> Q a t"
  shows "wp (fold_catch xs acc body h) Q E s"
  using assms(1)
proof (induction xs arbitrary: acc s)
  case Nil
  then show ?case by (simp add: wp_ret assms(3))
next
  case (Cons x xs)
  from assms(2) [OF Cons.prems] show ?case
    using Cons.IH by (fastforce simp: wp_def split: prod.splits sum.splits)
qed

lemma bnd_ret [simp]: "bnd m ret = m"
  by (auto simp: bnd_def ret_def fun_eq_iff split: prod.splits sum.splits)

lemma for_each_map: "for_each xs (\<lambda>x. f (h x)) = for_each (map h xs) f"
proof -
  have "fold_each xs () (\<lambda>_ x. f (h x)) = fold_each (map h xs) () (\<lambda>_. f)"
    by (induction xs) simp_all
  then show ?thesis by (simp add: for_each_def)
qed

text \<open>Queries that leave the state alone.\<close>

lemma collect_pure: "(\<And>x. x \<in> set xs \<Longrightarrow> f x s = (Inr (h x), s)) \<Longrightarrow> collect xs f s = (Inr (map h xs), s)"
  by (induction xs) (simp_all add: bnd_def ret_def)

lemma all_each_pure:
  "(\<And>x. x \<in> set xs \<Longrightarrow> f x s = (Inr (h x), s)) \<Longrightarrow> all_each xs f s = (Inr (\<forall>x \<in> set xs. h x), s)"
  by (induction xs) (simp_all add: bnd_def ret_def)

lemma fold_each_pure:
  "(\<And>acc x. x \<in> set xs \<Longrightarrow> body acc x s = (Inr (f acc x), s)) \<Longrightarrow>
     fold_each xs acc body s = (Inr (foldl f acc xs), s)"
  by (induction xs arbitrary: acc) (simp_all add: bnd_def ret_def)

text \<open>Loops over \<^verbatim>\<open>range(a, b)\<close>: the invariant is indexed by the loop variable.\<close>

lemma wp_fold_range:
  assumes "J a acc s" "a \<le> b"
    and "\<And>i acc t. a \<le> i \<Longrightarrow> i < b \<Longrightarrow> J i acc t \<Longrightarrow> wp (body acc i) (J (Suc i)) E t"
    and "\<And>acc t. J b acc t \<Longrightarrow> Q acc t"
  shows "wp (fold_each [a..<b] acc body) Q E s"
proof (rule wp_fold_each [where I = "\<lambda>ys acc t. \<exists>i. a \<le> i \<and> i \<le> b \<and> ys = [i..<b] \<and> J i acc t"])
  show "\<exists>i. a \<le> i \<and> i \<le> b \<and> [a..<b] = [i..<b] \<and> J i acc s"
    using assms(1,2) by auto
next
  fix x ys acc t
  assume "\<exists>i. a \<le> i \<and> i \<le> b \<and> x # ys = [i..<b] \<and> J i acc t"
  then obtain i where "a \<le> i" "i < b" "x = i" "ys = [Suc i..<b]" "J i acc t"
    by (metis upt_eq_Cons_conv Suc_eq_plus1)
  with assms(3) [of i acc t]
  show "wp (body acc x) (\<lambda>acc t. \<exists>i. a \<le> i \<and> i \<le> b \<and> ys = [i..<b] \<and> J i acc t) E t"
    by (auto elim!: wp_mono intro!: exI [where x = "Suc i"])
next
  fix acc t
  assume "\<exists>i. a \<le> i \<and> i \<le> b \<and> [] = [i..<b] \<and> J i acc t"
  then obtain i where "i = b" "J i acc t" by (metis le_antisym upt_eq_Nil_conv le_zero_eq)
  then show "Q acc t" using assms(4) by simp
qed

lemma wp_fold_catch_range:
  assumes "J a acc s" "a \<le> b"
    and "\<And>i acc t. a \<le> i \<Longrightarrow> i < b \<Longrightarrow> J i acc t \<Longrightarrow>
      wp (body acc i) (J (Suc i)) (\<lambda>e. wp (h acc e) Q E) t"
    and "\<And>acc t. J b acc t \<Longrightarrow> Q acc t"
  shows "wp (fold_catch [a..<b] acc body h) Q E s"
proof (rule wp_fold_catch [where I = "\<lambda>ys acc t. \<exists>i. a \<le> i \<and> i \<le> b \<and> ys = [i..<b] \<and> J i acc t"])
  show "\<exists>i. a \<le> i \<and> i \<le> b \<and> [a..<b] = [i..<b] \<and> J i acc s"
    using assms(1,2) by auto
next
  fix x ys acc t
  assume "\<exists>i. a \<le> i \<and> i \<le> b \<and> x # ys = [i..<b] \<and> J i acc t"
  then obtain i where "a \<le> i" "i < b" "x = i" "ys = [Suc i..<b]" "J i acc t"
    by (metis upt_eq_Cons_conv Suc_eq_plus1)
  with assms(3) [of i acc t]
  show "wp (body acc x) (\<lambda>acc t. \<exists>i. a \<le> i \<and> i \<le> b \<and> ys = [i..<b] \<and> J i acc t)
      (\<lambda>e. wp (h acc e) Q E) t"
    by (auto elim!: wp_mono intro!: exI [where x = "Suc i"])
next
  fix acc t
  assume "\<exists>i. a \<le> i \<and> i \<le> b \<and> [] = [i..<b] \<and> J i acc t"
  then obtain i where "i = b" "J i acc t" by (metis le_antisym upt_eq_Nil_conv le_zero_eq)
  then show "Q acc t" using assms(4) by simp
qed

section \<open>Methods that end\<close>

text \<open>
  A loop of the program that is modelled with fuel raises \<^const>\<open>NonTermination\<close> when the fuel is
  used up, and nothing else does. \<open>quiet m\<close>: this never happens in \<open>m\<close>.
\<close>

definition quiet :: "('s, 'a) pym \<Rightarrow> bool" where
  "quiet m \<longleftrightarrow> (\<forall>s. wp m (\<lambda>_ _. True) (\<lambda>e _. e \<noteq> NonTermination) s)"

named_theorems quiet_intros \<open>methods that end\<close>

lemma quietD: "quiet m \<Longrightarrow> wp m (\<lambda>_ _. True) (\<lambda>e _. e \<noteq> NonTermination) s"
  by (simp add: quiet_def)

lemma quiet_fst: "quiet m \<Longrightarrow> fst (m s) \<noteq> Inl NonTermination"
  by (drule quietD [of _ s]) (auto simp: wp_def split: prod.splits sum.splits)

lemma quiet_basic [quiet_intros]:
  "quiet (ret x)" "quiet (gets f)" "quiet (modify g)" "e \<noteq> NonTermination \<Longrightarrow> quiet (throw e)"
  "e \<noteq> NonTermination \<Longrightarrow> quiet (ensure b e)" "(\<And>s. h s \<noteq> Inl NonTermination) \<Longrightarrow> quiet (lift_err h)"
  by (auto simp: quiet_def wp_simps split: sum.split)

lemma quiet_bnd [quiet_intros]: "quiet m \<Longrightarrow> (\<And>x. quiet (k x)) \<Longrightarrow> quiet (bnd m k)"
  unfolding quiet_def wp_bnd by (blast intro: wp_mono)

lemma quiet_sq [quiet_intros]: "quiet m \<Longrightarrow> quiet k \<Longrightarrow> quiet (sq m k)"
  unfolding sq_def by (rule quiet_bnd)

lemma quiet_split [quiet_intros]:
  "(b \<Longrightarrow> quiet m) \<Longrightarrow> (\<not> b \<Longrightarrow> quiet n) \<Longrightarrow> quiet (if b then m else n)"
  "quiet (f y) \<Longrightarrow> quiet (Let y f)"
  by simp_all

lemma quiet_case_option [quiet_intros]:
  "quiet m \<Longrightarrow> (\<And>x. quiet (k x)) \<Longrightarrow> quiet (case z of None \<Rightarrow> m | Some x \<Rightarrow> k x)"
  by (cases z) simp_all

lemma quiet_case_prod [quiet_intros]: "(\<And>x y. quiet (k x y)) \<Longrightarrow> quiet (case p of (x, y) \<Rightarrow> k x y)"
  by (cases p) simp

lemma quiet_case_list [quiet_intros]:
  "quiet m \<Longrightarrow> (\<And>x ys. quiet (k x ys)) \<Longrightarrow> quiet (case xs of [] \<Rightarrow> m | x # ys \<Rightarrow> k x ys)"
  by (cases xs) simp_all

lemma quiet_fold_each [quiet_intros]: "(\<And>a x. quiet (body a x)) \<Longrightarrow> quiet (fold_each xs a body)"
proof (induction xs arbitrary: a)
  case (Cons x xs)
  then show ?case unfolding fold_each.simps by (intro quiet_bnd) auto
qed (simp add: quiet_intros)

lemma quiet_for_each [quiet_intros]: "(\<And>x. quiet (body x)) \<Longrightarrow> quiet (for_each xs body)"
  unfolding for_each_def by (rule quiet_fold_each)

lemma quiet_collect [quiet_intros]: "(\<And>x. quiet (f x)) \<Longrightarrow> quiet (collect xs f)"
proof (induction xs)
  case (Cons x xs)
  then show ?case unfolding collect.simps by (intro quiet_intros) auto
qed (simp add: quiet_intros)

lemma quiet_all_each [quiet_intros]: "(\<And>x. quiet (f x)) \<Longrightarrow> quiet (all_each xs f)"
proof (induction xs)
  case (Cons x xs)
  then show ?case unfolding all_each.simps by (intro quiet_intros) auto
qed (simp add: quiet_intros)

text \<open>A handler sees only the exceptions of its body.\<close>

lemma quiet_try_except [quiet_intros]: "quiet m \<Longrightarrow> (\<And>e. e \<noteq> NonTermination \<Longrightarrow> quiet (h e)) \<Longrightarrow> quiet (try_except m h)"
  unfolding quiet_def wp_try_except by (blast intro: wp_mono)

lemma quiet_try_finally [quiet_intros]: "quiet m \<Longrightarrow> quiet f \<Longrightarrow> quiet (try_finally m f)"
  unfolding quiet_def wp_try_finally by (blast intro: wp_mono)

lemma quiet_fold_catch [quiet_intros]:
  assumes "\<And>a x. quiet (body a x)" "\<And>a e. e \<noteq> NonTermination \<Longrightarrow> quiet (h a e)"
  shows "quiet (fold_catch xs acc body h)"
  unfolding quiet_def
proof
  fix s
  show "wp (fold_catch xs acc body h) (\<lambda>_ _. True) (\<lambda>e _. e \<noteq> NonTermination) s"
    by (rule wp_fold_catch [where I = "\<lambda>_ _ _. True"])
      (use assms in \<open>auto intro!: wp_mono [OF quietD [OF assms(1)]] quietD\<close>)
qed

lemma quiet_try_local [quiet_intros]:
  assumes "quiet m" "\<And>l e. e \<noteq> NonTermination \<Longrightarrow> quiet (h l e)" "\<And>l x. quiet (k l x)"
  shows "quiet (try_local l0 m h k)"
  unfolding quiet_def wp_try_local
  by (intro allI wp_mono [OF quietD [OF assms(1)]])
    (auto intro!: quietD [OF assms(2)] quietD [OF assms(3)] split: prod.splits)

lemma quiet_on [quiet_intros]: "quiet m \<Longrightarrow> quiet (on_fst m)" "quiet m' \<Longrightarrow> quiet (on_snd m')"
  unfolding quiet_def wp_on_fst wp_on_snd by auto

section \<open>Dictionaries in insertion order\<close>

text \<open>
  A Python dictionary iterates in insertion order, an assignment to a present key keeps its
  place, and a deleted key that is inserted again goes to the end. The association lists of
  the library behave in exactly this way (\<^const>\<open>AList.update\<close>, \<^const>\<open>AList.delete\<close>).
\<close>

type_synonym ('k, 'v) pydict = "('k \<times> 'v) list"

abbreviation dkeys :: "('k, 'v) pydict \<Rightarrow> 'k list" where
  "dkeys d \<equiv> map fst d"

abbreviation dset :: "'k \<Rightarrow> 'v \<Rightarrow> ('k, 'v) pydict \<Rightarrow> ('k, 'v) pydict" where
  "dset k v d \<equiv> AList.update k v d"

abbreviation ddel :: "'k \<Rightarrow> ('k, 'v) pydict \<Rightarrow> ('k, 'v) pydict" where
  "ddel k d \<equiv> AList.delete k d"

definition dget :: "('k, 'v) pydict \<Rightarrow> 'k \<Rightarrow> py_error + 'v" where
  "dget d k = (case map_of d k of None \<Rightarrow> Inl KeyError | Some v \<Rightarrow> Inr v)"

lemma dget_Inr [simp]: "map_of d k = Some v \<Longrightarrow> dget d k = Inr v"
  by (simp add: dget_def)

lemma dget_Inl [simp]: "map_of d k = None \<Longrightarrow> dget d k = Inl KeyError"
  by (simp add: dget_def)

lemma dget_Inr_iff: "dget d k = Inr v \<longleftrightarrow> map_of d k = Some v"
  by (simp add: dget_def split: option.splits)

lemma dkeys_iff: "k \<in> set (dkeys d) \<longleftrightarrow> map_of d k \<noteq> None"
  by (simp add: map_of_eq_None_iff)

lemma dkeys_image: "k \<in> fst ` set d \<longleftrightarrow> map_of d k \<noteq> None"
  by (simp add: map_of_eq_None_iff)

lemma map_of_dset [simp]: "map_of (dset k v d) = (map_of d)(k \<mapsto> v)"
  by (rule update_conv')

lemma map_of_ddel [simp]: "map_of (ddel k d) = (map_of d)(k := None)"
  by (rule delete_conv')

lemma dset_fresh: "k \<notin> set (dkeys d) \<Longrightarrow> dset k v d = d @ [(k, v)]"
  by (induction d) auto

lemma distinct_dset [simp]: "distinct (dkeys d) \<Longrightarrow> distinct (dkeys (dset k v d))"
  by (rule distinct_update)

lemma distinct_ddel [simp]: "distinct (dkeys d) \<Longrightarrow> distinct (dkeys (ddel k d))"
  by (rule distinct_delete)

lemma ddel_fresh: "k \<notin> set (dkeys d) \<Longrightarrow> ddel k d = d"
  by (induction d) auto

lemma ddel_dset [simp]: "ddel k (dset k v d) = ddel k d"
  by (induction d) (auto simp: ddel_fresh)

section \<open>Integers and lists\<close>

text \<open>
  \<^verbatim>\<open>math.ceil(a / b)\<close> on non-negative integers with \<open>b > 0\<close>. The quotient is taken in
  binary64 by the program; it is exact here, as there for \<open>a < 2 ^ 52\<close>.
\<close>

definition ceil_div :: "nat \<Rightarrow> nat \<Rightarrow> nat" where
  "ceil_div a b = (a + b - 1) div b"

lemma ceil_div_0 [simp]: "0 < b \<Longrightarrow> ceil_div 0 b = 0"
  by (simp add: ceil_div_def)

lemma ceil_div_Suc: "0 < b \<Longrightarrow> ceil_div (Suc n) b = Suc (n div b)"
  using div_add_self2 [of b n] by (simp add: ceil_div_def)

lemma ceil_div_pos: "0 < b \<Longrightarrow> 0 < n \<Longrightarrow> ceil_div n b = Suc ((n - 1) div b)"
  by (cases n) (simp_all add: ceil_div_Suc)

lemma ceil_div_le_iff: "0 < b \<Longrightarrow> ceil_div n b \<le> k \<longleftrightarrow> n \<le> k * b"
proof (cases n)
  case (Suc m)
  assume "0 < b"
  then show ?thesis
    by (simp add: Suc ceil_div_Suc Suc_le_eq div_less_iff_less_mult)
qed simp

lemma less_ceil_div_iff: "0 < b \<Longrightarrow> k < ceil_div n b \<longleftrightarrow> k * b < n"
  using ceil_div_le_iff [of b n k] by linarith

lemma ceil_div_bounds:
  "0 < b \<Longrightarrow> n \<le> ceil_div n b * b \<and> ceil_div n b * b < n + b"
  by (cases n)
    (auto simp: ceil_div_Suc less_Suc_eq_le dividend_less_div_times Suc_le_eq
      intro: div_times_less_eq_dividend)

lemma ceil_div_step:
  assumes "0 < b"
  shows "ceil_div (Suc n) b = (if n mod b = 0 then Suc (ceil_div n b) else ceil_div n b)"
proof (cases n)
  case 0
  with assms show ?thesis by (simp add: ceil_div_Suc)
next
  case (Suc m)
  with assms show ?thesis by (simp add: ceil_div_Suc div_Suc)
qed

lemma ceil_div_aligned: "0 < b \<Longrightarrow> n mod b = 0 \<Longrightarrow> ceil_div n b = n div b"
  using ceil_div_step [of b n] ceil_div_Suc [of b n] by simp

lemma ceil_div_unaligned: "0 < b \<Longrightarrow> n mod b \<noteq> 0 \<Longrightarrow> ceil_div n b = Suc (n div b)"
  using ceil_div_step [of b n] ceil_div_Suc [of b n] by simp

lemma div_le_ceil_div: "0 < b \<Longrightarrow> n div b \<le> ceil_div n b"
  by (cases n) (simp_all add: ceil_div_Suc div_Suc)

text \<open>Python's \<^verbatim>\<open>xs[i]\<close> for an index that is not negative.\<close>

definition nth_py :: "'a list \<Rightarrow> nat \<Rightarrow> py_error + 'a" where
  "nth_py xs i = (if i < length xs then Inr (xs ! i) else Inl IndexError)"

lemma nth_py_Inr [simp]: "i < length xs \<Longrightarrow> nth_py xs i = Inr (xs ! i)"
  by (simp add: nth_py_def)

end
