(* ===== verification/Sampling_Params.thy ===== *)
theory Sampling_Params
  imports Py_Prelude Complex_Main
begin

text \<open>
  \<^verbatim>\<open>vllm/sampling_params.py\<close> and \<^verbatim>\<open>vllm/lora/request.py\<close>: the per-request parameters and
  their validation. Floats are rationals; a logits processor is an opaque object, kept as an
  identity.
\<close>

section \<open>LoRA requests\<close>

record LoRARequest =
  lora_name :: string
  lora_int_id :: int
  lora_local_path :: string
  long_lora_max_len :: "nat option"

definition LoRARequest_init :: "string \<Rightarrow> int \<Rightarrow> string \<Rightarrow> nat option \<Rightarrow> py_error + LoRARequest" where
  "LoRARequest_init name int_id path max_len =
     (if int_id < 1 then Inl (ValueError ''lora_int_id must be > 0'')
      else Inr \<lparr>lora_name = name, lora_int_id = int_id, lora_local_path = path,
                long_lora_max_len = max_len\<rparr>)"

text \<open>Two requests are equal when their ids are, whatever their names and paths.\<close>

definition LoRARequest_eq :: "LoRARequest \<Rightarrow> LoRARequest \<Rightarrow> bool" where
  "LoRARequest_eq a b \<longleftrightarrow> lora_int_id a = lora_int_id b"

definition LoRARequest_hash :: "LoRARequest \<Rightarrow> int" where
  "LoRARequest_hash a = lora_int_id a"

section \<open>Sampling parameters\<close>

datatype SamplingType = GREEDY | RANDOM | RANDOM_SEED | BEAM

datatype early_stop = ES_bool bool | ES_str string

datatype stop_arg = StopStr string | StopList "string list"

definition SAMPLING_EPS :: rat where
  "SAMPLING_EPS = 1 / 100000"

record SamplingParams =
  sp_n :: int
  sp_best_of :: int
  sp_presence_penalty :: rat
  sp_frequency_penalty :: rat
  sp_repetition_penalty :: rat
  sp_temperature :: rat
  sp_top_p :: rat
  sp_top_k :: int
  sp_min_p :: rat
  sp_seed :: "int option"
  sp_use_beam_search :: bool
  sp_length_penalty :: rat
  sp_early_stopping :: early_stop
  sp_stop :: "string list"
  sp_stop_token_ids :: "int list"
  sp_ignore_eos :: bool
  sp_max_tokens :: "int option"
  sp_min_tokens :: int
  sp_logprobs :: "int option"
  sp_prompt_logprobs :: "int option"
  sp_detokenize :: bool
  sp_skip_special_tokens :: bool
  sp_spaces_between_special_tokens :: bool
  sp_logits_processors :: "nat list option"
  sp_include_stop_str_in_output :: bool
  sp_truncate_prompt_tokens :: "int option"
  sp_output_text_buffer_length :: int
  sp_all_stop_token_ids :: "int set"

definition verify_args :: "SamplingParams \<Rightarrow> py_error + unit" where
  "verify_args p =
     (if sp_n p < 1 then Inl (ValueError ''n must be at least 1'')
      else if sp_best_of p < sp_n p then
        Inl (ValueError ''best_of must be greater than or equal to n'')
      else if \<not> (-2 \<le> sp_presence_penalty p \<and> sp_presence_penalty p \<le> 2) then
        Inl (ValueError ''presence_penalty must be in [-2, 2]'')
      else if \<not> (-2 \<le> sp_frequency_penalty p \<and> sp_frequency_penalty p \<le> 2) then
        Inl (ValueError ''frequency_penalty must be in [-2, 2]'')
      else if \<not> (0 < sp_repetition_penalty p \<and> sp_repetition_penalty p \<le> 2) then
        Inl (ValueError ''repetition_penalty must be in (0, 2]'')
      else if sp_temperature p < 0 then
        Inl (ValueError ''temperature must be non-negative'')
      else if \<not> (0 < sp_top_p p \<and> sp_top_p p \<le> 1) then
        Inl (ValueError ''top_p must be in (0, 1]'')
      else if sp_top_k p < -1 \<or> sp_top_k p = 0 then
        Inl (ValueError ''top_k must be -1 (disable), or at least 1'')
      else if \<not> (0 \<le> sp_min_p p \<and> sp_min_p p \<le> 1) then
        Inl (ValueError ''min_p must be in [0, 1]'')
      else if (case sp_max_tokens p of Some k \<Rightarrow> k < 1 | None \<Rightarrow> False) then
        Inl (ValueError ''max_tokens must be at least 1'')
      else if sp_min_tokens p < 0 then
        Inl (ValueError ''min_tokens must be greater than or equal to 0'')
      else if (case sp_max_tokens p of Some k \<Rightarrow> sp_min_tokens p > k | None \<Rightarrow> False) then
        Inl (ValueError ''min_tokens must be less than or equal to max_tokens'')
      else if (case sp_logprobs p of Some k \<Rightarrow> k < 0 | None \<Rightarrow> False) then
        Inl (ValueError ''logprobs must be non-negative'')
      else if (case sp_prompt_logprobs p of Some k \<Rightarrow> k < 0 | None \<Rightarrow> False) then
        Inl (ValueError ''prompt_logprobs must be non-negative'')
      else if (case sp_truncate_prompt_tokens p of Some k \<Rightarrow> k < 1 | None \<Rightarrow> False) then
        Inl (ValueError ''truncate_prompt_tokens must be >= 1'')
      else if \<exists>s \<in> set (sp_stop p). s = [] then
        Inl (ValueError ''stop cannot contain an empty string.'')
      else if sp_stop p \<noteq> [] \<and> \<not> sp_detokenize p then
        Inl (ValueError ''stop strings are only supported when detokenize is True.'')
      else Inr ())"

definition verify_beam_search :: "SamplingParams \<Rightarrow> py_error + unit" where
  "verify_beam_search p =
     (if sp_best_of p = 1 then
        Inl (ValueError ''best_of must be greater than 1 when using beam search.'')
      else if sp_temperature p > SAMPLING_EPS then
        Inl (ValueError ''temperature must be 0 when using beam search.'')
      else if sp_top_p p < 1 - SAMPLING_EPS then
        Inl (ValueError ''top_p must be 1 when using beam search.'')
      else if sp_top_k p \<noteq> -1 then Inl (ValueError ''top_k must be -1 when using beam search.'')
      else if sp_early_stopping p \<notin> {ES_bool True, ES_bool False, ES_str ''never''} then
        Inl (ValueError ''early_stopping must be True, False, or never'')
      else Inr ())"

definition verify_non_beam_search :: "SamplingParams \<Rightarrow> py_error + unit" where
  "verify_non_beam_search p =
     (if sp_early_stopping p \<noteq> ES_bool False then
        Inl (ValueError ''early_stopping is not effective when not using beam search.'')
      else if sp_length_penalty p < 1 - SAMPLING_EPS \<or> sp_length_penalty p > 1 + SAMPLING_EPS then
        Inl (ValueError ''length_penalty is not effective when not using beam search.'')
      else Inr ())"

definition verify_greedy_sampling :: "SamplingParams \<Rightarrow> py_error + unit" where
  "verify_greedy_sampling p =
     (if sp_best_of p > 1 then Inl (ValueError ''best_of must be 1 when using greedy sampling.'')
      else Inr ())"

text \<open>
  The constructor takes the arguments as a record with \<open>best_of\<close> and \<open>stop\<close> still optional: the
  fields of \<open>a\<close> that the constructor computes (\<open>best_of\<close>, \<open>stop\<close>, the buffer length and
  \<open>all_stop_token_ids\<close>) are ignored.
\<close>

definition stop_list :: "stop_arg option \<Rightarrow> string list" where
  "stop_list stop = (case stop of None \<Rightarrow> [] | Some (StopStr s) \<Rightarrow> [s] | Some (StopList ss) \<Rightarrow> ss)"

definition SamplingParams_init ::
  "int option \<Rightarrow> stop_arg option \<Rightarrow> int list option \<Rightarrow> SamplingParams \<Rightarrow> py_error + SamplingParams"
where
  "SamplingParams_init best_of stop stop_token_ids a =
     (let p = a\<lparr>sp_best_of := (case best_of of Some k \<Rightarrow> k | None \<Rightarrow> sp_n a),
               sp_seed := (if sp_seed a = Some (-1) then None else sp_seed a),
               sp_stop := stop_list stop,
               sp_stop_token_ids := (case stop_token_ids of None \<Rightarrow> [] | Some ts \<Rightarrow> ts),
               sp_output_text_buffer_length :=
                 (if stop_list stop \<noteq> [] \<and> \<not> sp_include_stop_str_in_output a
                  then int (Max (length ` set (stop_list stop))) - 1 else 0)\<rparr>;
          finish = (\<lambda>q. q\<lparr>sp_all_stop_token_ids := set (sp_stop_token_ids q)\<rparr>) in
      case verify_args p of Inl e \<Rightarrow> Inl e
      | Inr _ \<Rightarrow>
        if sp_use_beam_search p then
          (case verify_beam_search p of Inl e \<Rightarrow> Inl e | Inr _ \<Rightarrow> Inr (finish p))
        else
          (case verify_non_beam_search p of Inl e \<Rightarrow> Inl e
           | Inr _ \<Rightarrow>
             if sp_temperature p < SAMPLING_EPS then
               let q = p\<lparr>sp_top_p := 1, sp_top_k := -1, sp_min_p := 0\<rparr> in
               (case verify_greedy_sampling q of Inl e \<Rightarrow> Inl e | Inr _ \<Rightarrow> Inr (finish q))
             else Inr (finish p)))"

text \<open>
  \<open>eos\<close> is \<^verbatim>\<open>generation_config.get("eos_token_id")\<close>: missing, one id or a list. Python's test
  \<^verbatim>\<open>(eos_ids := ...)\<close> is also false for the id 0 and for the empty list. The new list is the
  enumeration \<open>order\<close> of a set.
\<close>

datatype eos_arg = EosInt int | EosList "int list"

definition update_from_generation_config ::
  "(int set \<Rightarrow> int list) \<Rightarrow> eos_arg option \<Rightarrow> SamplingParams \<Rightarrow> SamplingParams"
where
  "update_from_generation_config order eos p =
     (if sp_ignore_eos p then p
      else case eos of
        None \<Rightarrow> p
      | Some (EosInt k) \<Rightarrow>
          if k = 0 then p
          else p\<lparr>sp_stop_token_ids := order (set (sp_stop_token_ids p) \<union> {k})\<rparr>
      | Some (EosList ks) \<Rightarrow>
          if ks = [] then p
          else p\<lparr>sp_stop_token_ids := order (set (sp_stop_token_ids p) \<union> set ks)\<rparr>)"

definition sampling_type :: "SamplingParams \<Rightarrow> SamplingType" where
  "sampling_type p =
     (if sp_use_beam_search p then BEAM
      else if sp_temperature p < SAMPLING_EPS then GREEDY
      else if sp_seed p \<noteq> None then RANDOM_SEED
      else RANDOM)"

text \<open>A deep copy that shares the logits processors; values have no identity here.\<close>

definition SamplingParams_clone :: "SamplingParams \<Rightarrow> SamplingParams" where
  "SamplingParams_clone p = p"

section \<open>What a constructed object satisfies\<close>

text \<open>The documented range of every field that the constructor checks.\<close>

definition params_in_range :: "SamplingParams \<Rightarrow> bool" where
  "params_in_range p \<longleftrightarrow>
     1 \<le> sp_n p \<and> sp_n p \<le> sp_best_of p \<and>
     - 2 \<le> sp_presence_penalty p \<and> sp_presence_penalty p \<le> 2 \<and>
     - 2 \<le> sp_frequency_penalty p \<and> sp_frequency_penalty p \<le> 2 \<and>
     0 < sp_repetition_penalty p \<and> sp_repetition_penalty p \<le> 2 \<and>
     0 \<le> sp_temperature p \<and> 0 < sp_top_p p \<and> sp_top_p p \<le> 1 \<and>
     (sp_top_k p = - 1 \<or> 1 \<le> sp_top_k p) \<and> 0 \<le> sp_min_p p \<and> sp_min_p p \<le> 1 \<and>
     0 \<le> sp_min_tokens p \<and> (\<forall>k. sp_max_tokens p = Some k \<longrightarrow> 1 \<le> k \<and> sp_min_tokens p \<le> k) \<and>
     (\<forall>k. sp_logprobs p = Some k \<longrightarrow> 0 \<le> k) \<and> (\<forall>k. sp_prompt_logprobs p = Some k \<longrightarrow> 0 \<le> k) \<and>
     (\<forall>k. sp_truncate_prompt_tokens p = Some k \<longrightarrow> 1 \<le> k) \<and>
     [] \<notin> set (sp_stop p) \<and> (sp_stop p \<noteq> [] \<longrightarrow> sp_detokenize p)"

text \<open>The settings of the three ways of sampling.\<close>

definition beam_settings :: "SamplingParams \<Rightarrow> bool" where
  "beam_settings p \<longleftrightarrow>
     sp_best_of p \<noteq> 1 \<and> sp_temperature p \<le> SAMPLING_EPS \<and> 1 - SAMPLING_EPS \<le> sp_top_p p \<and>
     sp_top_k p = - 1 \<and> sp_early_stopping p \<in> {ES_bool True, ES_bool False, ES_str ''never''}"

definition plain_settings :: "SamplingParams \<Rightarrow> bool" where
  "plain_settings p \<longleftrightarrow>
     sp_early_stopping p = ES_bool False \<and> \<bar>sp_length_penalty p - 1\<bar> \<le> SAMPLING_EPS \<and>
     (sp_temperature p < SAMPLING_EPS \<longrightarrow> sp_best_of p = 1)"

definition params_acceptable :: "SamplingParams \<Rightarrow> bool" where
  "params_acceptable p \<longleftrightarrow>
     params_in_range p \<and> (if sp_use_beam_search p then beam_settings p else plain_settings p)"

definition params_ok :: "SamplingParams \<Rightarrow> bool" where
  "params_ok p \<longleftrightarrow>
     params_acceptable p \<and> sp_seed p \<noteq> Some (-1) \<and>
     0 \<le> sp_output_text_buffer_length p \<and>
     (\<forall>s \<in> set (sp_stop p). \<not> sp_include_stop_str_in_output p \<longrightarrow>
        int (length s) \<le> sp_output_text_buffer_length p + 1) \<and>
     sp_all_stop_token_ids p = set (sp_stop_token_ids p) \<and>
     (sampling_type p = BEAM \<longrightarrow> 1 < sp_best_of p \<and> sp_top_k p = -1) \<and>
     (sampling_type p = GREEDY \<longrightarrow>
        sp_best_of p = 1 \<and> sp_n p = 1 \<and> sp_top_p p = 1 \<and> sp_top_k p = -1 \<and> sp_min_p p = 0)"

text \<open>The arguments, with \<open>best_of\<close> defaulting to \<open>n\<close> and the stop strings as a list.\<close>

definition requested_params :: "int option \<Rightarrow> stop_arg option \<Rightarrow> SamplingParams \<Rightarrow> SamplingParams" where
  "requested_params best_of stop a =
     a\<lparr>sp_best_of := (case best_of of Some k \<Rightarrow> k | None \<Rightarrow> sp_n a), sp_stop := stop_list stop\<rparr>"

lemma if_Inl_eq_Inr: "(if b then Inl e else r) = Inr u \<longleftrightarrow> \<not> b \<and> r = Inr u"
  by simp

lemma option_test_iff:
  "(case x of Some k \<Rightarrow> P k | None \<Rightarrow> False) \<longleftrightarrow> (\<exists>k. x = Some k \<and> P k)"
  by (cases x) auto

lemma verify_args_iff: "verify_args p = Inr () \<longleftrightarrow> params_in_range p"
  unfolding verify_args_def params_in_range_def if_Inl_eq_Inr option_test_iff
  by (cases "sp_max_tokens p"; cases "sp_logprobs p"; cases "sp_prompt_logprobs p";
      cases "sp_truncate_prompt_tokens p") (auto simp: not_less not_le)

lemma verify_beam_search_iff: "verify_beam_search p = Inr () \<longleftrightarrow> beam_settings p"
  unfolding verify_beam_search_def beam_settings_def if_Inl_eq_Inr by (auto simp: not_less)

lemma verify_non_beam_search_iff:
  "verify_non_beam_search p = Inr () \<longleftrightarrow>
     sp_early_stopping p = ES_bool False \<and> \<bar>sp_length_penalty p - 1\<bar> \<le> SAMPLING_EPS"
  unfolding verify_non_beam_search_def if_Inl_eq_Inr by (auto simp: abs_le_iff)

lemma verify_args_ok:
  assumes "verify_args p = Inr ()"
  shows "1 \<le> sp_n p" "sp_n p \<le> sp_best_of p" "0 \<le> sp_temperature p" "0 < sp_top_p p"
    "sp_top_p p \<le> 1" "sp_top_k p = -1 \<or> 1 \<le> sp_top_k p" "0 \<le> sp_min_p p" "sp_min_p p \<le> 1"
    "0 \<le> sp_min_tokens p" "\<forall>k. sp_max_tokens p = Some k \<longrightarrow> 1 \<le> k \<and> sp_min_tokens p \<le> k"
    "[] \<notin> set (sp_stop p)" "sp_stop p \<noteq> [] \<longrightarrow> sp_detokenize p"
  using assms unfolding verify_args_iff params_in_range_def by blast+

lemma buffer_length:
  fixes ss :: "string list"
  assumes "ss \<noteq> []" "[] \<notin> set ss"
  shows "0 \<le> int (Max (length ` set ss)) - 1"
    and "s \<in> set ss \<Longrightarrow> int (length s) \<le> int (Max (length ` set ss)) - 1 + 1"
proof -
  have "length s \<le> Max (length ` set ss)" if "s \<in> set ss" for s
    using that by simp
  moreover have "hd ss \<in> set ss" "hd ss \<noteq> []" using assms by (cases ss; auto)+
  ultimately have "1 \<le> Max (length ` set ss)"
    by (metis One_nat_def Suc_leI length_greater_0_conv order_trans)
  then show "0 \<le> int (Max (length ` set ss)) - 1" by simp
  show "s \<in> set ss \<Longrightarrow> int (length s) \<le> int (Max (length ` set ss)) - 1 + 1" by simp
qed

text \<open>
  The constructor unfolded: \<open>built\<close> is the object before the checks, \<open>greedy_built\<close> what greedy
  sampling makes of it.
\<close>

definition built_params ::
  "int option \<Rightarrow> stop_arg option \<Rightarrow> int list option \<Rightarrow> SamplingParams \<Rightarrow> SamplingParams"
where
  "built_params best_of stop toks a =
     (requested_params best_of stop a)\<lparr>sp_seed := (if sp_seed a = Some (-1) then None else sp_seed a),
        sp_stop_token_ids := (case toks of None \<Rightarrow> [] | Some ts \<Rightarrow> ts),
        sp_output_text_buffer_length :=
          (if stop_list stop \<noteq> [] \<and> \<not> sp_include_stop_str_in_output a
           then int (Max (length ` set (stop_list stop))) - 1 else 0)\<rparr>"

lemma built_params_flat:
  "built_params best_of stop toks a =
     a\<lparr>sp_best_of := (case best_of of Some k \<Rightarrow> k | None \<Rightarrow> sp_n a),
       sp_seed := (if sp_seed a = Some (-1) then None else sp_seed a),
       sp_stop := stop_list stop,
       sp_stop_token_ids := (case toks of None \<Rightarrow> [] | Some ts \<Rightarrow> ts),
       sp_output_text_buffer_length :=
         (if stop_list stop \<noteq> [] \<and> \<not> sp_include_stop_str_in_output a
          then int (Max (length ` set (stop_list stop))) - 1 else 0)\<rparr>"
  by (simp add: built_params_def requested_params_def)

definition greedy_built :: "SamplingParams \<Rightarrow> SamplingParams" where
  "greedy_built q =
     (if \<not> sp_use_beam_search q \<and> sp_temperature q < SAMPLING_EPS
      then q\<lparr>sp_top_p := 1, sp_top_k := -1, sp_min_p := 0\<rparr> else q)"

lemma params_acceptable_built:
  "params_acceptable (built_params best_of stop toks a) =
   params_acceptable (requested_params best_of stop a)"
  by (simp add: built_params_def params_acceptable_def params_in_range_def beam_settings_def plain_settings_def)

lemma params_acceptable_greedy:
  "params_acceptable q \<Longrightarrow> params_acceptable ((greedy_built q)\<lparr>sp_all_stop_token_ids := ids\<rparr>)"
  by (cases "\<not> sp_use_beam_search q \<and> sp_temperature q < SAMPLING_EPS")
    (auto simp: greedy_built_def params_acceptable_def params_in_range_def beam_settings_def plain_settings_def)

lemma sampling_type_settings:
  fixes q :: SamplingParams and ids :: "int set"
  assumes "params_acceptable q"
  defines "p \<equiv> (greedy_built q)\<lparr>sp_all_stop_token_ids := ids\<rparr>"
  shows "sampling_type p = BEAM \<Longrightarrow> 1 < sp_best_of p \<and> sp_top_k p = -1"
    "sampling_type p = GREEDY \<Longrightarrow>
       sp_best_of p = 1 \<and> sp_n p = 1 \<and> sp_top_p p = 1 \<and> sp_top_k p = -1 \<and> sp_min_p p = 0"
proof -
  have n: "1 \<le> sp_n q" "sp_n q \<le> sp_best_of q"
    using assms(1) by (simp_all add: params_acceptable_def params_in_range_def)
  {
    assume "sampling_type p = BEAM"
    then have "sp_use_beam_search q" by (auto simp: sampling_type_def p_def greedy_built_def split: if_splits)
    with assms(1) n show "1 < sp_best_of p \<and> sp_top_k p = -1"
      by (simp add: p_def greedy_built_def params_acceptable_def beam_settings_def)
  next
    assume "sampling_type p = GREEDY"
    then have "\<not> sp_use_beam_search q \<and> sp_temperature q < SAMPLING_EPS"
      by (auto simp: sampling_type_def p_def greedy_built_def split: if_splits)
    with assms(1) n show
      "sp_best_of p = 1 \<and> sp_n p = 1 \<and> sp_top_p p = 1 \<and> sp_top_k p = -1 \<and> sp_min_p p = 0"
      by (simp add: p_def greedy_built_def params_acceptable_def plain_settings_def)
  }
qed

lemma greedy_best_of: "params_in_range q \<Longrightarrow> sp_best_of q = 1 \<longleftrightarrow> \<not> 1 < sp_best_of q"
  by (auto simp: params_in_range_def)

lemma SamplingParams_init_cases:
  fixes best_of stop toks a
  defines "q \<equiv> built_params best_of stop toks a"
  shows "if params_acceptable q
    then SamplingParams_init best_of stop toks a =
      Inr ((greedy_built q)\<lparr>sp_all_stop_token_ids := set (sp_stop_token_ids q)\<rparr>)
    else isl (SamplingParams_init best_of stop toks a)"
proof -
  have init: "SamplingParams_init best_of stop toks a =
     (case verify_args q of Inl e \<Rightarrow> Inl e
      | Inr _ \<Rightarrow>
        if sp_use_beam_search q then
          (case verify_beam_search q of Inl e \<Rightarrow> Inl e
           | Inr _ \<Rightarrow> Inr (q\<lparr>sp_all_stop_token_ids := set (sp_stop_token_ids q)\<rparr>))
        else
          (case verify_non_beam_search q of Inl e \<Rightarrow> Inl e
           | Inr _ \<Rightarrow>
             if sp_temperature q < SAMPLING_EPS then
               (case verify_greedy_sampling (q\<lparr>sp_top_p := 1, sp_top_k := -1, sp_min_p := 0\<rparr>) of
                  Inl e \<Rightarrow> Inl e
                | Inr _ \<Rightarrow> Inr (q\<lparr>sp_top_p := 1, sp_top_k := -1, sp_min_p := 0,
                     sp_all_stop_token_ids := set (sp_stop_token_ids q)\<rparr>))
             else Inr (q\<lparr>sp_all_stop_token_ids := set (sp_stop_token_ids q)\<rparr>)))"
    unfolding SamplingParams_init_def built_params_flat [symmetric] q_def [symmetric] Let_def
    by (simp split: sum.split)
  show ?thesis
  proof (cases "params_in_range q")
    case False
    then have "verify_args q \<noteq> Inr ()" by (simp add: verify_args_iff)
    then obtain e where "verify_args q = Inl e" by (cases "verify_args q") auto
    with False show ?thesis unfolding init by (simp add: params_acceptable_def)
  next
    case True
    then have v: "verify_args q = Inr ()" by (simp add: verify_args_iff)
    note g = greedy_best_of [OF True]
    show ?thesis
    proof (cases "sp_use_beam_search q")
      case beam: True
      show ?thesis
        using verify_beam_search_iff [of q] v beam True unfolding init
        by (cases "verify_beam_search q") (auto simp: params_acceptable_def greedy_built_def)
    next
      case False
      then show ?thesis
        using verify_non_beam_search_iff [of q] v True g unfolding init
        by (cases "verify_non_beam_search q")
          (auto simp: params_acceptable_def plain_settings_def greedy_built_def verify_greedy_sampling_def)
    qed
  qed
qed

lemma built_params_buffer:
  assumes "params_in_range (built_params best_of stop toks a)"
  defines "q \<equiv> built_params best_of stop toks a"
  shows "0 \<le> sp_output_text_buffer_length q \<and>
      (\<forall>s \<in> set (sp_stop q). \<not> sp_include_stop_str_in_output q \<longrightarrow>
        int (length s) \<le> sp_output_text_buffer_length q + 1)"
proof -
  have "[] \<notin> set (stop_list stop)"
    using assms(1) by (simp add: params_in_range_def built_params_def requested_params_def)
  then show ?thesis
    using buffer_length [of "stop_list stop"]
    by (auto simp: q_def built_params_def requested_params_def)
qed

lemma SamplingParams_init_ok:
  assumes "SamplingParams_init best_of stop toks a = Inr p"
  shows "params_acceptable (requested_params best_of stop a)" "params_ok p"
    "sp_n p = sp_n a" "sp_best_of p = (case best_of of Some k \<Rightarrow> k | None \<Rightarrow> sp_n a)"
    "sp_stop p = stop_list stop"
proof -
  define q where "q = built_params best_of stop toks a"
  have ok: "params_acceptable q" and
    p: "p = (greedy_built q)\<lparr>sp_all_stop_token_ids := set (sp_stop_token_ids q)\<rparr>"
    using SamplingParams_init_cases [of best_of stop toks a] assms unfolding q_def
    by (auto split: if_splits)
  from ok show "params_acceptable (requested_params best_of stop a)"
    by (simp add: q_def params_acceptable_built)
  have range: "params_in_range q" using ok by (simp add: params_acceptable_def)
  note buf = built_params_buffer [OF range [unfolded q_def], folded q_def]
  have seed: "sp_seed q \<noteq> Some (-1)" by (simp add: q_def built_params_def)
  have kept: "sp_seed p = sp_seed q" "sp_output_text_buffer_length p = sp_output_text_buffer_length q"
    "sp_stop p = sp_stop q" "sp_include_stop_str_in_output p = sp_include_stop_str_in_output q"
    "sp_all_stop_token_ids p = set (sp_stop_token_ids p)"
    unfolding p by (simp_all add: greedy_built_def)
  show "params_ok p"
    unfolding params_ok_def kept
    using params_acceptable_greedy [OF ok, of "set (sp_stop_token_ids q)", folded p]
      sampling_type_settings [OF ok, of "set (sp_stop_token_ids q)", folded p] buf seed
    by blast
  show "sp_n p = sp_n a" "sp_best_of p = (case best_of of Some k \<Rightarrow> k | None \<Rightarrow> sp_n a)"
    "sp_stop p = stop_list stop"
    unfolding p by (simp_all add: greedy_built_def q_def built_params_def requested_params_def)
qed

lemma SamplingParams_init_refused:
  assumes "SamplingParams_init best_of stop toks a = Inl e"
  shows "\<not> params_acceptable (requested_params best_of stop a)"
  using SamplingParams_init_cases [of best_of stop toks a] assms
  by (auto simp: params_acceptable_built split: if_splits)

end
