(* ===== verification/Vllm_Sequence.thy ===== *)
theory Vllm_Sequence
  imports Sampling_Params
begin

text \<open>
  \<^verbatim>\<open>vllm/block.py\<close> and \<^verbatim>\<open>vllm/sequence.py\<close>: logical token blocks, the data of a sequence, the
  sequence itself, sequence groups and the metadata handed to the workers. An object is a
  record; a method that mutates it is a method on that record.
\<close>

section \<open>Logical token blocks\<close>

definition BLANK_TOKEN_ID :: int where
  "BLANK_TOKEN_ID = -1"

record LogicalTokenBlock =
  lb_block_number :: nat
  lb_block_size :: nat
  lb_token_ids :: "int list"
  lb_num_tokens :: nat

definition LogicalTokenBlock_init :: "nat \<Rightarrow> nat \<Rightarrow> LogicalTokenBlock" where
  "LogicalTokenBlock_init block_number block_size =
     \<lparr>lb_block_number = block_number, lb_block_size = block_size,
      lb_token_ids = replicate block_size BLANK_TOKEN_ID, lb_num_tokens = 0\<rparr>"

definition lb_is_empty :: "LogicalTokenBlock \<Rightarrow> bool" where
  "lb_is_empty b \<longleftrightarrow> lb_num_tokens b = 0"

definition lb_get_num_empty_slots :: "LogicalTokenBlock \<Rightarrow> nat" where
  "lb_get_num_empty_slots b = lb_block_size b - lb_num_tokens b"

definition lb_is_full :: "LogicalTokenBlock \<Rightarrow> bool" where
  "lb_is_full b \<longleftrightarrow> lb_num_tokens b = lb_block_size b"

definition lb_append_tokens :: "int list \<Rightarrow> LogicalTokenBlock \<Rightarrow> py_error + LogicalTokenBlock" where
  "lb_append_tokens toks b =
     (if length toks \<le> lb_get_num_empty_slots b then
        let curr = lb_num_tokens b in
        Inr (b\<lparr>lb_token_ids := take curr (lb_token_ids b) @ toks @ drop (curr + length toks) (lb_token_ids b),
               lb_num_tokens := curr + length toks\<rparr>)
      else Inl AssertionError)"

definition lb_get_token_ids :: "LogicalTokenBlock \<Rightarrow> int list" where
  "lb_get_token_ids b = take (lb_num_tokens b) (lb_token_ids b)"

definition lb_get_last_token_id :: "LogicalTokenBlock \<Rightarrow> py_error + int" where
  "lb_get_last_token_id b =
     (if 0 < lb_num_tokens b then nth_py (lb_token_ids b) (lb_num_tokens b - 1)
      else Inl AssertionError)"

section \<open>Status, metrics, log probabilities\<close>

record Logprob =
  logprob :: rat
  lp_rank :: "nat option"
  lp_decoded_token :: "string option"

type_synonym logprobs = "(int, Logprob) pydict"

datatype SequenceStatus =
    WAITING
  | RUNNING
  | SWAPPED
  | FINISHED_STOPPED
  | FINISHED_LENGTH_CAPPED
  | FINISHED_ABORTED
  | FINISHED_IGNORED

definition status_is_finished :: "SequenceStatus \<Rightarrow> bool" where
  "status_is_finished st \<longleftrightarrow>
     st \<in> {FINISHED_STOPPED, FINISHED_LENGTH_CAPPED, FINISHED_ABORTED, FINISHED_IGNORED}"

definition get_finished_reason :: "SequenceStatus \<Rightarrow> string option" where
  "get_finished_reason st = (case st of
     FINISHED_STOPPED \<Rightarrow> Some ''stop''
   | FINISHED_LENGTH_CAPPED \<Rightarrow> Some ''length''
   | FINISHED_ABORTED \<Rightarrow> Some ''abort''
   | FINISHED_IGNORED \<Rightarrow> Some ''length''
   | _ \<Rightarrow> None)"

datatype SequenceStage = PREFILL | DECODE

record RequestMetrics =
  arrival_time :: rat
  last_token_time :: rat
  first_scheduled_time :: "rat option"
  first_token_time :: "rat option"
  time_in_queue :: "rat option"
  finished_time :: "rat option"

section \<open>Sequence data\<close>

record SequenceData =
  sd_prompt_token_ids :: "int list"
  sd_prompt_token_ids_tuple :: "int list"
  sd_output_token_ids :: "int list"
  sd_cumulative_logprob :: rat
  sd_num_computed_tokens :: int
  sd_stage :: SequenceStage

definition SequenceData_init :: "int list \<Rightarrow> int list option \<Rightarrow> SequenceData" where
  "SequenceData_init prompt_token_ids output_token_ids =
     \<lparr>sd_prompt_token_ids = prompt_token_ids,
      sd_prompt_token_ids_tuple = prompt_token_ids,
      sd_output_token_ids = (case output_token_ids of None \<Rightarrow> [] | Some ts \<Rightarrow> ts),
      sd_cumulative_logprob = 0,
      sd_num_computed_tokens = 0,
      sd_stage = PREFILL\<rparr>"

definition sd_append_token_id :: "int \<Rightarrow> rat \<Rightarrow> SequenceData \<Rightarrow> SequenceData" where
  "sd_append_token_id token_id lp d =
     d\<lparr>sd_output_token_ids := sd_output_token_ids d @ [token_id],
       sd_cumulative_logprob := sd_cumulative_logprob d + lp\<rparr>"

definition sd_get_len :: "SequenceData \<Rightarrow> nat" where
  "sd_get_len d = length (sd_output_token_ids d) + length (sd_prompt_token_ids d)"

definition sd_get_prompt_len :: "SequenceData \<Rightarrow> nat" where
  "sd_get_prompt_len d = length (sd_prompt_token_ids d)"

definition sd_get_output_len :: "SequenceData \<Rightarrow> nat" where
  "sd_get_output_len d = length (sd_output_token_ids d)"

definition sd_get_token_ids :: "SequenceData \<Rightarrow> int list" where
  "sd_get_token_ids d = sd_prompt_token_ids d @ sd_output_token_ids d"

definition sd_get_prefix_token_ids :: "nat \<Rightarrow> SequenceData \<Rightarrow> int list \<times> int list option" where
  "sd_get_prefix_token_ids num_tokens d =
     (let prompt_length = length (sd_prompt_token_ids d) in
      if num_tokens > prompt_length then
        (sd_prompt_token_ids_tuple d, Some (take (num_tokens - prompt_length) (sd_output_token_ids d)))
      else (take num_tokens (sd_prompt_token_ids_tuple d), None))"

definition sd_get_num_uncomputed_tokens :: "SequenceData \<Rightarrow> int" where
  "sd_get_num_uncomputed_tokens d = int (sd_get_len d) - sd_num_computed_tokens d"

definition sd_update_num_computed_tokens :: "int \<Rightarrow> (SequenceData, unit) pym" where
  "sd_update_num_computed_tokens k =
     sq (modify (\<lambda>d. d\<lparr>sd_num_computed_tokens := sd_num_computed_tokens d + k\<rparr>))
    (bnd (gets id) (\<lambda>d.
     sq (ensure (sd_num_computed_tokens d \<le> int (sd_get_len d)) AssertionError)
    (if sd_get_num_uncomputed_tokens d = 0 then modify (\<lambda>d. d\<lparr>sd_stage := DECODE\<rparr>) else ret ())))"

definition sd_reset_state_for_recompute :: "SequenceData \<Rightarrow> SequenceData" where
  "sd_reset_state_for_recompute d = d\<lparr>sd_num_computed_tokens := 0, sd_stage := PREFILL\<rparr>"

text \<open>Python's \<^verbatim>\<open>xs[-1]\<close>.\<close>

definition last_py :: "'a list \<Rightarrow> py_error + 'a" where
  "last_py xs = (if xs = [] then Inl IndexError else Inr (last xs))"

definition sd_get_last_token_id :: "SequenceData \<Rightarrow> py_error + int" where
  "sd_get_last_token_id d =
     (if sd_output_token_ids d = [] then last_py (sd_prompt_token_ids d)
      else last_py (sd_output_token_ids d))"

section \<open>Sequences\<close>

datatype stop_reason = Stop_token int | Stop_string string

record Sequence =
  seq_id :: nat
  seq_prompt :: string
  seq_block_size :: nat
  seq_eos_token_id :: "int option"
  seq_lora_request :: "LoRARequest option"
  seq_data :: SequenceData
  seq_output_logprobs :: "logprobs list"
  seq_output_text :: string
  seq_logical_token_blocks :: "LogicalTokenBlock list"
  seq_status :: SequenceStatus
  seq_stop_reason :: "stop_reason option"
  seq_prefix_offset :: nat
  seq_read_offset :: nat
  seq_tokens :: "string list option"

definition append_logical_block :: "nat \<Rightarrow> LogicalTokenBlock list \<Rightarrow> LogicalTokenBlock list" where
  "append_logical_block block_size blocks =
     blocks @ [LogicalTokenBlock_init (length blocks) block_size]"

text \<open>
  The loop of \<^verbatim>\<open>_append_tokens_to_blocks\<close>, on the tokens from the cursor on. With block size 0
  the cursor never advances: the value \<^const>\<open>None\<close> stands for a loop that does not end.
\<close>

partial_function (option) append_tokens_to_blocks ::
  "nat \<Rightarrow> LogicalTokenBlock list \<Rightarrow> int list \<Rightarrow> LogicalTokenBlock list option"
where
  "append_tokens_to_blocks bs blocks toks =
     (if toks = [] then Some blocks
      else
        let b1 = (if blocks = [] then append_logical_block bs blocks else blocks);
            b2 = (if lb_is_full (last b1) then append_logical_block bs b1 else b1);
            slots = lb_get_num_empty_slots (last b2);
            chunk = take slots toks;
            blk = (last b2)\<lparr>lb_token_ids := take (lb_num_tokens (last b2)) (lb_token_ids (last b2)) @
                     chunk @ drop (lb_num_tokens (last b2) + length chunk) (lb_token_ids (last b2)),
                   lb_num_tokens := lb_num_tokens (last b2) + length chunk\<rparr>
        in append_tokens_to_blocks bs (butlast b2 @ [blk]) (drop slots toks))"

declare append_tokens_to_blocks.simps [code]

text \<open>The block update in the loop is \<^const>\<open>lb_append_tokens\<close>, whose assertion holds there.\<close>

lemma append_tokens_to_blocks_chunk:
  "lb_append_tokens (take (lb_get_num_empty_slots b) toks) b =
     Inr (b\<lparr>lb_token_ids := take (lb_num_tokens b) (lb_token_ids b) @
              take (lb_get_num_empty_slots b) toks @
              drop (lb_num_tokens b + length (take (lb_get_num_empty_slots b) toks)) (lb_token_ids b),
            lb_num_tokens := lb_num_tokens b + length (take (lb_get_num_empty_slots b) toks)\<rparr>)"
  by (simp add: lb_append_tokens_def Let_def)

definition seq_append_tokens :: "int list \<Rightarrow> (Sequence, unit) pym" where
  "seq_append_tokens toks =
     bnd (lift_err (\<lambda>s. case append_tokens_to_blocks (seq_block_size s) (seq_logical_token_blocks s) toks of
            None \<Rightarrow> Inl NonTermination | Some blocks \<Rightarrow> Inr blocks)) (\<lambda>blocks.
     modify (\<lambda>s. s\<lparr>seq_logical_token_blocks := blocks\<rparr>))"

definition Sequence_init ::
  "nat \<Rightarrow> string \<Rightarrow> int list \<Rightarrow> nat \<Rightarrow> int option \<Rightarrow> LoRARequest option \<Rightarrow> py_error + Sequence"
where
  "Sequence_init sid prompt prompt_token_ids block_size eos lora =
     (let s = \<lparr>seq_id = sid, seq_prompt = prompt, seq_block_size = block_size,
               seq_eos_token_id = eos, seq_lora_request = lora,
               seq_data = SequenceData_init prompt_token_ids None,
               seq_output_logprobs = [], seq_output_text = [], seq_logical_token_blocks = [],
               seq_status = WAITING, seq_stop_reason = None, seq_prefix_offset = 0,
               seq_read_offset = 0, seq_tokens = None\<rparr> in
      case seq_append_tokens prompt_token_ids s of (Inl e, _) \<Rightarrow> Inl e | (Inr _, t) \<Rightarrow> Inr t)"

definition lora_id_of :: "LoRARequest option \<Rightarrow> int" where
  "lora_id_of lora = (case lora of None \<Rightarrow> 0 | Some r \<Rightarrow> lora_int_id r)"

definition seq_lora_int_id :: "Sequence \<Rightarrow> int" where
  "seq_lora_int_id s = lora_id_of (seq_lora_request s)"

definition seq_is_finished :: "Sequence \<Rightarrow> bool" where
  "seq_is_finished s = status_is_finished (seq_status s)"

text \<open>\<^verbatim>\<open>text[:-k]\<close> for \<open>k > 0\<close> drops the last \<open>k\<close> characters.\<close>

definition get_output_text_to_return :: "nat \<Rightarrow> Sequence \<Rightarrow> string" where
  "get_output_text_to_return buffer_length s =
     (if buffer_length \<noteq> 0 \<and> \<not> seq_is_finished s then
        take (length (seq_output_text s) - buffer_length) (seq_output_text s)
      else seq_output_text s)"

definition num_hashed_tokens_of_block :: "nat \<Rightarrow> Sequence \<Rightarrow> nat" where
  "num_hashed_tokens_of_block logical_idx s = logical_idx * seq_block_size s + seq_block_size s"

text \<open>\<open>hash\<close> is Python's built-in hash function.\<close>

definition hash_of_block ::
  "((int list \<times> int list option) \<times> int \<Rightarrow> int) \<Rightarrow> nat \<Rightarrow> Sequence \<Rightarrow> int"
where
  "hash_of_block hash logical_idx s =
     (let num_tokens = num_hashed_tokens_of_block logical_idx s;
          hashed_tokens = sd_get_prefix_token_ids num_tokens (seq_data s) in
      hash (hashed_tokens, seq_lora_int_id s))"

definition seq_reset_state_for_recompute :: "Sequence \<Rightarrow> Sequence" where
  "seq_reset_state_for_recompute s = s\<lparr>seq_data := sd_reset_state_for_recompute (seq_data s)\<rparr>"

definition seq_append_token_id :: "int \<Rightarrow> logprobs \<Rightarrow> (Sequence, unit) pym" where
  "seq_append_token_id token_id lps =
     sq (ensure (token_id \<in> set (dkeys lps)) AssertionError)
    (sq (seq_append_tokens [token_id])
    (sq (modify (\<lambda>s. s\<lparr>seq_output_logprobs := seq_output_logprobs s @ [lps]\<rparr>))
    (bnd (lift_err (\<lambda>_. dget lps token_id)) (\<lambda>lp.
     modify (\<lambda>s. s\<lparr>seq_data := sd_append_token_id token_id (logprob lp) (seq_data s)\<rparr>)))))"

definition seq_get_len :: "Sequence \<Rightarrow> nat" where
  "seq_get_len s = sd_get_len (seq_data s)"

definition seq_get_prompt_len :: "Sequence \<Rightarrow> nat" where
  "seq_get_prompt_len s = sd_get_prompt_len (seq_data s)"

definition seq_get_output_len :: "Sequence \<Rightarrow> nat" where
  "seq_get_output_len s = sd_get_output_len (seq_data s)"

definition seq_get_token_ids :: "Sequence \<Rightarrow> int list" where
  "seq_get_token_ids s = sd_get_token_ids (seq_data s)"

definition seq_get_last_token_id :: "Sequence \<Rightarrow> py_error + int" where
  "seq_get_last_token_id s = sd_get_last_token_id (seq_data s)"

definition seq_get_cumulative_logprob :: "Sequence \<Rightarrow> rat" where
  "seq_get_cumulative_logprob s = sd_cumulative_logprob (seq_data s)"

text \<open>
  Python's \<^verbatim>\<open>a / (n ** p)\<close>: \<open>0 ** 0\<close> is 1, and 0 to another power ends in a division by zero.
\<close>

definition score_quotient :: "rat \<Rightarrow> int \<Rightarrow> rat \<Rightarrow> py_error + real" where
  "score_quotient a n p =
     (if n = 0 then (if p = 0 then Inr (of_rat a) else Inl ZeroDivisionError)
      else Inr (of_rat a / (of_int n powr of_rat p)))"

definition get_beam_search_score ::
  "rat \<Rightarrow> nat option \<Rightarrow> int option \<Rightarrow> Sequence \<Rightarrow> py_error + real"
where
  "get_beam_search_score length_penalty seq_len eos_token_id s =
     (case seq_len of
        Some n \<Rightarrow> score_quotient (seq_get_cumulative_logprob s) (int n) length_penalty
      | None \<Rightarrow>
          (case eos_token_id of
             None \<Rightarrow> score_quotient (seq_get_cumulative_logprob s) (int (seq_get_len s)) length_penalty
           | Some eos \<Rightarrow>
               (case seq_get_last_token_id s of
                  Inl e \<Rightarrow> Inl e
                | Inr t \<Rightarrow> score_quotient (seq_get_cumulative_logprob s)
                    (int (seq_get_len s) - (if t = eos then 1 else 0)) length_penalty)))"

text \<open>\<^verbatim>\<open>copy.deepcopy\<close> of a record is the record.\<close>

definition seq_fork :: "nat \<Rightarrow> Sequence \<Rightarrow> Sequence" where
  "seq_fork new_seq_id s = s\<lparr>seq_id := new_seq_id\<rparr>"

definition seq_is_prefill :: "Sequence \<Rightarrow> bool" where
  "seq_is_prefill s \<longleftrightarrow> sd_stage (seq_data s) = PREFILL"

definition seq_get_num_new_tokens :: "Sequence \<Rightarrow> int" where
  "seq_get_num_new_tokens s =
     (if sd_stage (seq_data s) = DECODE then 1 else sd_get_num_uncomputed_tokens (seq_data s))"

section \<open>Logical blocks hold the tokens, in order\<close>

text \<open>
  The reference: block \<open>i\<close> holds the tokens from \<open>i * bs\<close> on, as far as they go, and blanks
  behind them; there are as many blocks as the tokens need.
\<close>

definition logical_block :: "nat \<Rightarrow> int list \<Rightarrow> nat \<Rightarrow> LogicalTokenBlock" where
  "logical_block bs toks i =
     (let chunk = take bs (drop (i * bs) toks) in
      \<lparr>lb_block_number = i, lb_block_size = bs,
       lb_token_ids = chunk @ replicate (bs - length chunk) BLANK_TOKEN_ID,
       lb_num_tokens = length chunk\<rparr>)"

definition logical_blocks :: "nat \<Rightarrow> int list \<Rightarrow> LogicalTokenBlock list" where
  "logical_blocks bs toks = map (logical_block bs toks) [0..<ceil_div (length toks) bs]"

lemma logical_block_empty:
  "length toks \<le> i * bs \<Longrightarrow> logical_block bs toks i = LogicalTokenBlock_init i bs"
  by (simp add: logical_block_def LogicalTokenBlock_init_def Let_def)

lemma logical_block_prefix:
  assumes "Suc i * bs \<le> length xs"
  shows "logical_block bs (xs @ ys) i = logical_block bs xs i"
  using assms by (simp add: logical_block_def Let_def)

lemma logical_block_extend:
  assumes le: "i * bs \<le> length xs" and fit: "length xs - i * bs + length c \<le> bs"
  shows "(let b = logical_block bs xs i in
      b\<lparr>lb_token_ids := take (lb_num_tokens b) (lb_token_ids b) @ c @
           drop (lb_num_tokens b + length c) (lb_token_ids b),
         lb_num_tokens := lb_num_tokens b + length c\<rparr>) = logical_block bs (xs @ c) i"
  using assms by (simp add: logical_block_def Let_def)

lemma blocks_ready:
  assumes bs: "0 < bs"
  shows "(let blocks = logical_blocks bs xs;
          b1 = (if blocks = [] then append_logical_block bs blocks else blocks)
      in if lb_is_full (last b1) then append_logical_block bs b1 else b1) =
    map (logical_block bs xs) [0..<Suc (length xs div bs)]"
proof (cases "length xs mod bs = 0")
  case True
  let ?n = "length xs"
  have cl: "ceil_div ?n bs = ?n div bs" using bs True by (rule ceil_div_aligned)
  have n: "?n = ?n div bs * bs" using True by auto
  have new: "logical_block bs xs (?n div bs) = LogicalTokenBlock_init (?n div bs) bs"
    using n by (intro logical_block_empty) simp
  show ?thesis
  proof (cases "?n div bs")
    case 0
    then have "xs = []" using n by simp
    then show ?thesis
      using bs by (simp add: logical_blocks_def append_logical_block_def lb_is_full_def
          LogicalTokenBlock_init_def logical_block_def)
  next
    case (Suc k)
    then have last: "last (logical_blocks bs xs) = logical_block bs xs k"
      by (simp add: logical_blocks_def cl)
    have "Suc k * bs = ?n" using n Suc by simp
    then have "length (drop (k * bs) xs) = bs" by simp
    then have full: "lb_is_full (logical_block bs xs k)"
      by (simp add: lb_is_full_def logical_block_def Let_def)
    show ?thesis
      using full last new Suc by (simp add: logical_blocks_def cl append_logical_block_def)
  qed
next
  case False
  let ?n = "length xs"
  have cl: "ceil_div ?n bs = Suc (?n div bs)" using bs False by (rule ceil_div_unaligned)
  have "?n - ?n div bs * bs = ?n mod bs" by (simp add: minus_div_mult_eq_mod)
  moreover have "?n mod bs < bs" using bs by simp
  ultimately have "\<not> lb_is_full (logical_block bs xs (?n div bs))"
    by (simp add: lb_is_full_def logical_block_def Let_def)
  then show ?thesis by (simp add: logical_blocks_def cl)
qed

lemma append_tokens_to_blocks_ok:
  assumes bs: "0 < bs"
  shows "append_tokens_to_blocks bs (logical_blocks bs xs) ys = Some (logical_blocks bs (xs @ ys))"
proof (induction "length ys" arbitrary: xs ys rule: less_induct)
  case less
  show ?case
  proof (cases "ys = []")
    case True
    then show ?thesis by (simp add: append_tokens_to_blocks.simps)
  next
    case False
    let ?i = "length xs div bs"
    let ?b2 = "map (logical_block bs xs) [0..<Suc ?i]"
    have last: "last ?b2 = logical_block bs xs ?i" by simp
    have butlast: "butlast ?b2 = map (logical_block bs xs) [0..<?i]" by simp
    have mod: "length xs - ?i * bs = length xs mod bs" by (simp add: minus_div_mult_eq_mod)
    have lt: "length xs mod bs < bs" using bs by simp
    have slots: "lb_get_num_empty_slots (logical_block bs xs ?i) = bs - length xs mod bs"
      using lt by (simp add: lb_get_num_empty_slots_def logical_block_def Let_def mod)
    define c where "c = take (bs - length xs mod bs) ys"
    have c: "0 < length c" "length xs mod bs + length c \<le> bs" using False lt by (auto simp: c_def)
    have ext: "(let b = logical_block bs xs ?i in
      b\<lparr>lb_token_ids := take (lb_num_tokens b) (lb_token_ids b) @ c @
           drop (lb_num_tokens b + length c) (lb_token_ids b),
         lb_num_tokens := lb_num_tokens b + length c\<rparr>) = logical_block bs (xs @ c) ?i"
      by (rule logical_block_extend) (use c mod in auto)
    have old: "map (logical_block bs xs) [0..<?i] = map (logical_block bs (xs @ c)) [0..<?i]"
    proof (rule map_cong [OF refl])
      fix j
      assume "j \<in> set [0..<?i]"
      then have "Suc j * bs \<le> ?i * bs" by (intro mult_le_mono1) simp
      also have "\<dots> \<le> length xs" by simp
      finally show "logical_block bs xs j = logical_block bs (xs @ c) j"
        by (rule logical_block_prefix [symmetric])
    qed
    have "ceil_div (length (xs @ c)) bs = Suc ?i"
    proof -
      obtain k where k: "length c = Suc k" using c by (cases "length c") auto
      have "length (xs @ c) - 1 = length xs + k" using k by simp
      also have "\<dots> = ?i * bs + (length xs mod bs + k)"
        using div_mult_mod_eq [of "length xs" bs] by linarith
      finally have "length (xs @ c) - 1 = ?i * bs + (length xs mod bs + k)" .
      moreover have "(?i * bs + (length xs mod bs + k)) div bs = ?i + (length xs mod bs + k) div bs"
        using bs by (simp only: div_mult_self3)
      moreover have "(length xs mod bs + k) div bs = 0" using c k by simp
      moreover have "0 < length (xs @ c)" using c by simp
      ultimately show ?thesis using ceil_div_pos [OF bs, of "length (xs @ c)"] by presburger
    qed
    then have res: "map (logical_block bs xs) [0..<?i] @ [logical_block bs (xs @ c) ?i] =
        logical_blocks bs (xs @ c)"
      by (simp add: logical_blocks_def old)
    have "0 < length ys" using False by simp
    then have "length (drop (bs - length xs mod bs) ys) < length ys"
      using lt unfolding length_drop by linarith
    from less [OF this, of "xs @ c"]
    have rec: "append_tokens_to_blocks bs (logical_blocks bs (xs @ c)) (drop (bs - length xs mod bs) ys) =
        Some (logical_blocks bs (xs @ ys))"
      by (simp add: c_def)
    show ?thesis
      using False ext rec blocks_ready [OF bs, of xs]
      by (subst append_tokens_to_blocks.simps)
        (simp only: Let_def if_False last butlast slots c_def [symmetric] res)
  qed
qed

lemma logical_blocks_tokens:
  assumes bs: "0 < bs"
  shows "concat (map lb_get_token_ids (logical_blocks bs toks)) = toks"
proof -
  have tok: "lb_get_token_ids (logical_block bs toks i) = take bs (drop (i * bs) toks)" for i
    by (cases "bs \<le> length (drop (i * bs) toks)")
      (simp_all add: lb_get_token_ids_def logical_block_def Let_def)
  have "concat (map (\<lambda>i. take bs (drop (i * bs) toks)) [0..<k]) = take (k * bs) toks" for k
  proof (induction k)
    case (Suc k)
    have "take (k * bs) toks @ take bs (drop (k * bs) toks) = take (k * bs + bs) toks"
      by (simp add: take_add)
    with Suc show ?case by (simp add: add.commute)
  qed simp
  then have "concat (map lb_get_token_ids (logical_blocks bs toks)) =
      take (ceil_div (length toks) bs * bs) toks"
    by (simp add: logical_blocks_def tok comp_def)
  also have "\<dots> = toks" using ceil_div_bounds [OF bs, of "length toks"] by simp
  finally show ?thesis .
qed

text \<open>The invariant of a sequence.\<close>

definition seq_ok :: "Sequence \<Rightarrow> bool" where
  "seq_ok s \<longleftrightarrow> 0 < seq_block_size s \<and>
     seq_logical_token_blocks s = logical_blocks (seq_block_size s) (seq_get_token_ids s) \<and>
     length (seq_output_logprobs s) = seq_get_output_len s \<and>
     sd_prompt_token_ids_tuple (seq_data s) = sd_prompt_token_ids (seq_data s)"

lemma seq_append_tokens_ok:
  assumes "0 < seq_block_size s"
    and "seq_logical_token_blocks s = logical_blocks (seq_block_size s) xs"
  shows "seq_append_tokens toks s =
    (Inr (), s\<lparr>seq_logical_token_blocks := logical_blocks (seq_block_size s) (xs @ toks)\<rparr>)"
  using append_tokens_to_blocks_ok [OF assms(1), of xs toks] assms(2)
  by (simp add: seq_append_tokens_def run_simps modify_def)

lemma Sequence_init_eq:
  assumes "0 < bs"
  shows "Sequence_init sid prompt toks bs eos lora = Inr
    \<lparr>seq_id = sid, seq_prompt = prompt, seq_block_size = bs, seq_eos_token_id = eos,
     seq_lora_request = lora, seq_data = SequenceData_init toks None, seq_output_logprobs = [],
     seq_output_text = [], seq_logical_token_blocks = logical_blocks bs toks, seq_status = WAITING,
     seq_stop_reason = None, seq_prefix_offset = 0, seq_read_offset = 0, seq_tokens = None\<rparr>"
proof -
  have empty: "logical_blocks bs [] = []" using assms by (simp add: logical_blocks_def)
  have "append_tokens_to_blocks bs [] toks = Some (logical_blocks bs toks)"
    using append_tokens_to_blocks_ok [OF assms, of "[]" toks] by (simp add: empty)
  then show ?thesis
    by (simp add: Sequence_init_def seq_append_tokens_def run_simps modify_def Let_def)
qed

lemma Sequence_init_ok:
  assumes "0 < bs"
  obtains s where "Sequence_init sid prompt toks bs eos lora = Inr s" "seq_ok s" "seq_id s = sid"
    "seq_get_token_ids s = toks" "seq_status s = WAITING" "seq_get_len s = length toks"
  by (rule that [OF Sequence_init_eq [OF assms]])
    (use assms in \<open>simp_all add: seq_ok_def seq_get_token_ids_def sd_get_token_ids_def
      SequenceData_init_def seq_get_output_len_def sd_get_output_len_def seq_get_len_def
      sd_get_len_def\<close>)

lemma seq_append_token_id_run:
  assumes ok: "seq_ok s" and lp: "map_of lps tok = Some lp"
  shows "seq_append_token_id tok lps s =
    (Inr (), s\<lparr>seq_logical_token_blocks := logical_blocks (seq_block_size s) (seq_get_token_ids s @ [tok]),
       seq_output_logprobs := seq_output_logprobs s @ [lps],
       seq_data := sd_append_token_id tok (logprob lp) (seq_data s)\<rparr>)"
proof -
  have d: "dget lps tok = Inr lp" and mem: "(tok \<in> set (dkeys lps)) = True"
    using lp by (auto simp: dkeys_image)
  have "seq_append_tokens [tok] s = (Inr (),
      s\<lparr>seq_logical_token_blocks := logical_blocks (seq_block_size s) (seq_get_token_ids s @ [tok])\<rparr>)"
    using seq_append_tokens_ok [of s "seq_get_token_ids s" "[tok]"] ok by (simp add: seq_ok_def)
  with mem show ?thesis
    unfolding seq_append_token_id_def
    by (simp only:) (simp add: run_simps, simp add: sq_def bnd_def ret_def lift_err_def modify_def d)
qed

lemma seq_append_token_id_ok:
  assumes ok: "seq_ok s" and lp: "map_of lps tok = Some lp"
  obtains t where "seq_append_token_id tok lps s = (Inr (), t)" "seq_ok t"
    "seq_get_token_ids t = seq_get_token_ids s @ [tok]" "seq_get_len t = Suc (seq_get_len s)"
    "seq_get_cumulative_logprob t = seq_get_cumulative_logprob s + logprob lp"
    "seq_id t = seq_id s" "seq_status t = seq_status s" "seq_block_size t = seq_block_size s"
  by (rule that [OF seq_append_token_id_run [OF assms]])
    (use ok in \<open>auto simp: seq_ok_def seq_get_token_ids_def sd_get_token_ids_def sd_append_token_id_def
      seq_get_output_len_def sd_get_output_len_def seq_get_len_def sd_get_len_def
      seq_get_cumulative_logprob_def\<close>)

lemma seq_fork_ok: "seq_ok s \<Longrightarrow> seq_ok (seq_fork c s)"
  by (simp add: seq_ok_def seq_fork_def seq_get_token_ids_def seq_get_output_len_def)

end
