(* ===== verification/Seq_Group.thy ===== *)
theory Seq_Group
  imports Vllm_Sequence
begin

text \<open>
  \<^verbatim>\<open>vllm/sequence.py\<close>, second part: sequence groups, the metadata handed to the workers and the
  model's outputs. A group holds its sequences in a dictionary by sequence id; a mutation of a
  sequence through the group is an update of that dictionary. Objects the code only passes on
  (image data, a torch generator, pooling parameters) are references, numbers here.
\<close>

type_synonym obj_ref = nat

section \<open>Sequence groups\<close>

record SequenceGroupState =
  sgs_generator :: "obj_ref option"

record SequenceGroup =
  sg_request_id :: string
  sg_seqs_dict :: "(nat, Sequence) pydict"
  sg_sampling_params :: "SamplingParams option"
  sg_metrics :: RequestMetrics
  sg_lora_request :: "LoRARequest option"
  sg_prompt_logprobs :: "logprobs option list option"
  sg_state :: SequenceGroupState
  sg_multi_modal_data :: "obj_ref option"
  sg_embeddings :: "rat list option"
  sg_pooling_params :: "obj_ref option"
  sg_cache_layers :: int

definition SequenceGroup_init ::
  "string \<Rightarrow> Sequence list \<Rightarrow> rat \<Rightarrow> SamplingParams option \<Rightarrow> LoRARequest option \<Rightarrow> obj_ref option \<Rightarrow>
   rat list option \<Rightarrow> obj_ref option \<Rightarrow> int \<Rightarrow> SequenceGroup"
where
  "SequenceGroup_init request_id seqs arrival params lora multi_modal embeddings pooling cache_layers =
     \<lparr>sg_request_id = request_id,
      sg_seqs_dict = fold (\<lambda>s. dset (seq_id s) s) seqs [],
      sg_sampling_params = params,
      sg_metrics = \<lparr>arrival_time = arrival, last_token_time = arrival, first_scheduled_time = None,
                    first_token_time = None, time_in_queue = None, finished_time = None\<rparr>,
      sg_lora_request = lora,
      sg_prompt_logprobs = None,
      sg_state = \<lparr>sgs_generator = None\<rparr>,
      sg_multi_modal_data = multi_modal,
      sg_embeddings = embeddings,
      sg_pooling_params = pooling,
      sg_cache_layers = cache_layers\<rparr>"

text \<open>\<^verbatim>\<open>seq_group.get_seqs()\<close> and \<^verbatim>\<open>seq_group.get_seqs(status=st)\<close>\<close>

definition get_seqs :: "SequenceStatus option \<Rightarrow> SequenceGroup \<Rightarrow> Sequence list" where
  "get_seqs status g = (case status of
     None \<Rightarrow> map snd (sg_seqs_dict g)
   | Some st \<Rightarrow> filter (\<lambda>s. seq_status s = st) (map snd (sg_seqs_dict g)))"

text \<open>\<^verbatim>\<open>next(iter(self.seqs_dict.values()))\<close>\<close>

definition first_seq :: "SequenceGroup \<Rightarrow> py_error + Sequence" where
  "first_seq g = (case sg_seqs_dict g of [] \<Rightarrow> Inl StopIteration | (_, s) # _ \<Rightarrow> Inr s)"

definition sg_prompt :: "SequenceGroup \<Rightarrow> py_error + string" where
  "sg_prompt g = (case first_seq g of Inl e \<Rightarrow> Inl e | Inr s \<Rightarrow> Inr (seq_prompt s))"

definition sg_prompt_token_ids :: "SequenceGroup \<Rightarrow> py_error + int list" where
  "sg_prompt_token_ids g =
     (case first_seq g of Inl e \<Rightarrow> Inl e | Inr s \<Rightarrow> Inr (sd_prompt_token_ids (seq_data s)))"

definition sg_lora_int_id :: "SequenceGroup \<Rightarrow> int" where
  "sg_lora_int_id g = lora_id_of (sg_lora_request g)"

definition sg_is_prefill :: "SequenceGroup \<Rightarrow> py_error + bool" where
  "sg_is_prefill g = (case get_seqs None g of [] \<Rightarrow> Inl IndexError | s # _ \<Rightarrow> Inr (seq_is_prefill s))"

definition get_last_latency :: "rat \<Rightarrow> (SequenceGroup, rat) pym" where
  "get_last_latency now =
     bnd (lift_err sg_is_prefill) (\<lambda>prefill.
     sq (ensure (\<not> prefill) (ValueError ''get_last_latency called in prefill phase''))
    (bnd (gets sg_metrics) (\<lambda>m.
     sq (modify (\<lambda>g. g\<lparr>sg_metrics := m\<lparr>last_token_time := now\<rparr>\<rparr>))
    (ret (now - last_token_time m)))))"

definition maybe_set_first_token_time :: "rat \<Rightarrow> (SequenceGroup, unit) pym" where
  "maybe_set_first_token_time t =
     bnd (gets id) (\<lambda>g.
     if first_token_time (sg_metrics g) = None then
       (case get_seqs None g of
          [] \<Rightarrow> throw IndexError
        | s # _ \<Rightarrow>
            if seq_get_output_len s = 1 then
              modify (\<lambda>g. g\<lparr>sg_metrics := (sg_metrics g)\<lparr>first_token_time := Some t\<rparr>\<rparr>)
            else ret ())
     else ret ())"

definition maybe_set_first_scheduled_time :: "rat \<Rightarrow> SequenceGroup \<Rightarrow> SequenceGroup" where
  "maybe_set_first_scheduled_time t g =
     (if first_scheduled_time (sg_metrics g) = None then
        g\<lparr>sg_metrics := (sg_metrics g)\<lparr>first_scheduled_time := Some t,
            time_in_queue := Some (t - arrival_time (sg_metrics g))\<rparr>\<rparr>
      else g)"

definition set_finished_time :: "rat option \<Rightarrow> SequenceGroup \<Rightarrow> SequenceGroup" where
  "set_finished_time t g = g\<lparr>sg_metrics := (sg_metrics g)\<lparr>finished_time := t\<rparr>\<rparr>"

definition get_unfinished_seqs :: "SequenceGroup \<Rightarrow> Sequence list" where
  "get_unfinished_seqs g = filter (\<lambda>s. \<not> seq_is_finished s) (map snd (sg_seqs_dict g))"

definition get_finished_seqs :: "SequenceGroup \<Rightarrow> Sequence list" where
  "get_finished_seqs g = filter seq_is_finished (map snd (sg_seqs_dict g))"

definition num_seqs :: "SequenceStatus option \<Rightarrow> SequenceGroup \<Rightarrow> nat" where
  "num_seqs status g = (case status of
     None \<Rightarrow> length (sg_seqs_dict g)
   | Some st \<Rightarrow> length (get_seqs (Some st) g))"

definition num_unfinished_seqs :: "SequenceGroup \<Rightarrow> nat" where
  "num_unfinished_seqs g = length (get_unfinished_seqs g)"

definition num_finished_seqs :: "SequenceGroup \<Rightarrow> nat" where
  "num_finished_seqs g = length (get_finished_seqs g)"

definition get_max_num_running_seqs :: "SequenceGroup \<Rightarrow> int" where
  "get_max_num_running_seqs g = (case sg_sampling_params g of
     Some p \<Rightarrow>
       if sp_use_beam_search p then sp_best_of p
       else if sp_best_of p > int (num_seqs None g) then sp_best_of p
       else int (num_unfinished_seqs g)
   | None \<Rightarrow> int (num_unfinished_seqs g))"

text \<open>A statement on one sequence object of the group; its exception leaves the update made.\<close>

definition on_seq :: "nat \<Rightarrow> (Sequence, 'a) pym \<Rightarrow> (SequenceGroup, 'a) pym" where
  "on_seq k m = (\<lambda>g. case map_of (sg_seqs_dict g) k of
     None \<Rightarrow> (Inl KeyError, g)
   | Some s \<Rightarrow> (case m s of (r, s') \<Rightarrow> (r, g\<lparr>sg_seqs_dict := dset k s' (sg_seqs_dict g)\<rparr>)))"

text \<open>A statement on the data of a sequence.\<close>

definition on_data :: "(SequenceData, 'a) pym \<Rightarrow> (Sequence, 'a) pym" where
  "on_data m = (\<lambda>s. case m (seq_data s) of (r, d) \<Rightarrow> (r, s\<lparr>seq_data := d\<rparr>))"

definition update_num_computed_tokens :: "int \<Rightarrow> (SequenceGroup, unit) pym" where
  "update_num_computed_tokens num_new_computed_tokens =
     bnd (gets sg_seqs_dict) (\<lambda>d.
     for_each (dkeys d) (\<lambda>k.
       on_seq k (bnd (gets seq_is_finished) (\<lambda>fin.
         if fin then ret () else on_data (sd_update_num_computed_tokens num_new_computed_tokens)))))"

definition get_num_uncomputed_tokens :: "SequenceGroup \<Rightarrow> int" where
  "get_num_uncomputed_tokens g =
     sum_list (map (\<lambda>s. sd_get_num_uncomputed_tokens (seq_data s)) (get_unfinished_seqs g))"

definition sg_find :: "nat \<Rightarrow> SequenceGroup \<Rightarrow> py_error + Sequence" where
  "sg_find sid g = (case map_of (sg_seqs_dict g) sid of
     None \<Rightarrow> Inl (ValueError ''Sequence not found.'') | Some s \<Rightarrow> Inr s)"

definition sg_add :: "Sequence \<Rightarrow> (SequenceGroup, unit) pym" where
  "sg_add s =
     bnd (gets sg_seqs_dict) (\<lambda>d.
     sq (ensure (seq_id s \<notin> set (dkeys d)) (ValueError ''Sequence already exists.''))
    (modify (\<lambda>g. g\<lparr>sg_seqs_dict := dset (seq_id s) s (sg_seqs_dict g)\<rparr>)))"

definition sg_remove :: "nat \<Rightarrow> (SequenceGroup, unit) pym" where
  "sg_remove sid =
     bnd (gets sg_seqs_dict) (\<lambda>d.
     sq (ensure (sid \<in> set (dkeys d)) (ValueError ''Sequence not found.''))
    (modify (\<lambda>g. g\<lparr>sg_seqs_dict := ddel sid (sg_seqs_dict g)\<rparr>)))"

definition sg_is_finished :: "SequenceGroup \<Rightarrow> bool" where
  "sg_is_finished g \<longleftrightarrow> (\<forall>s \<in> set (get_seqs None g). seq_is_finished s)"

definition sg_update_cache_layers :: "int \<Rightarrow> SequenceGroup \<Rightarrow> SequenceGroup" where
  "sg_update_cache_layers layers g = g\<lparr>sg_cache_layers := layers\<rparr>"

definition sg_get_len :: "SequenceGroup \<Rightarrow> nat" where
  "sg_get_len g = sum_list (map seq_get_len (get_seqs None g))"

section \<open>Metadata and model outputs\<close>

text \<open>\<open>'p\<close> is the type of the layer-group plans of the eLLM block manager.\<close>

record 'p SequenceGroupMetadata =
  md_request_id :: string
  md_is_prompt :: bool
  md_seq_data :: "(nat, SequenceData) pydict"
  md_sampling_params :: "SamplingParams option"
  md_block_tables :: "(nat, nat list) pydict"
  md_pooling_params :: "obj_ref option"
  md_lora_request :: "LoRARequest option"
  md_computed_block_nums :: "nat list option"
  md_multi_modal_data :: "obj_ref option"
  md_state :: SequenceGroupState
  md_token_chunk_size :: "int option"
  md_do_sample :: bool
  md_num_speculative_tokens :: "nat option"
  md_cache_layers :: int
  md_layer_group_block_tables :: "(nat, nat list list) pydict option"
  md_ellm_layer_group_plans :: "'p list option"
  md_ellm_recompute_seq_lens :: "nat list option"

definition SequenceGroupMetadata_init ::
  "string \<Rightarrow> bool \<Rightarrow> (nat, SequenceData) pydict \<Rightarrow> SamplingParams option \<Rightarrow> (nat, nat list) pydict \<Rightarrow>
   bool \<Rightarrow> obj_ref option \<Rightarrow> int option \<Rightarrow> LoRARequest option \<Rightarrow> nat list option \<Rightarrow>
   SequenceGroupState option \<Rightarrow> obj_ref option \<Rightarrow> int \<Rightarrow> (nat, nat list list) pydict option \<Rightarrow>
   py_error + 'p SequenceGroupMetadata"
where
  "SequenceGroupMetadata_init request_id is_prompt data params tables sample pooling chunk lora
     computed state mm layers group_tables =
     (case (case chunk of
              Some c \<Rightarrow> Inr (Some c)
            | None \<Rightarrow>
                if is_prompt then
                  (case data of [] \<Rightarrow> Inl IndexError | (_, d) # _ \<Rightarrow> Inr (Some (int (sd_get_len d))))
                else Inr (Some 1)) of
        Inl e \<Rightarrow> Inl e
      | Inr c \<Rightarrow> Inr
          \<lparr>md_request_id = request_id, md_is_prompt = is_prompt, md_seq_data = data,
           md_sampling_params = params, md_block_tables = tables, md_pooling_params = pooling,
           md_lora_request = lora, md_computed_block_nums = computed, md_multi_modal_data = mm,
           md_state = (case state of None \<Rightarrow> \<lparr>sgs_generator = None\<rparr> | Some s \<Rightarrow> s),
           md_token_chunk_size = c, md_do_sample = sample, md_num_speculative_tokens = None,
           md_cache_layers = layers, md_layer_group_block_tables = group_tables,
           md_ellm_layer_group_plans = None, md_ellm_recompute_seq_lens = None\<rparr>)"

definition md_lora_int_id :: "'p SequenceGroupMetadata \<Rightarrow> int" where
  "md_lora_int_id m = lora_id_of (md_lora_request m)"

definition token_chunk_size :: "'p SequenceGroupMetadata \<Rightarrow> py_error + int" where
  "token_chunk_size m = (case md_token_chunk_size m of None \<Rightarrow> Inl AssertionError | Some c \<Rightarrow> Inr c)"

definition md_update_cache_layers ::
  "int \<Rightarrow> 'p SequenceGroupMetadata \<Rightarrow> 'p SequenceGroupMetadata"
where
  "md_update_cache_layers layers m = m\<lparr>md_cache_layers := layers\<rparr>"

record SequenceOutput =
  so_parent_seq_id :: nat
  so_output_token :: int
  so_logprobs :: logprobs

text \<open>Two dictionaries are equal when they map the same keys to equal values, in any order.\<close>

definition dict_eq :: "('k, 'v) pydict \<Rightarrow> ('k, 'v) pydict \<Rightarrow> bool" where
  "dict_eq d e \<longleftrightarrow>
     (\<forall>k \<in> set (dkeys d @ dkeys e). map_of d k = map_of e k)"

definition SequenceOutput_eq :: "SequenceOutput \<Rightarrow> SequenceOutput \<Rightarrow> bool" where
  "SequenceOutput_eq a b \<longleftrightarrow>
     so_parent_seq_id a = so_parent_seq_id b \<and> so_output_token a = so_output_token b \<and>
     dict_eq (so_logprobs b) (so_logprobs a)"

record CompletionSequenceGroupOutput =
  cso_samples :: "SequenceOutput list"
  cso_prompt_logprobs :: "logprobs option list option"

definition prompt_logprobs_eq :: "logprobs option list option \<Rightarrow> logprobs option list option \<Rightarrow> bool" where
  "prompt_logprobs_eq a b = rel_option (list_all2 (rel_option dict_eq)) a b"

definition CompletionSequenceGroupOutput_eq ::
  "CompletionSequenceGroupOutput \<Rightarrow> CompletionSequenceGroupOutput \<Rightarrow> bool"
where
  "CompletionSequenceGroupOutput_eq a b \<longleftrightarrow>
     list_all2 SequenceOutput_eq (cso_samples a) (cso_samples b) \<and>
     prompt_logprobs_eq (cso_prompt_logprobs a) (cso_prompt_logprobs b)"

text \<open>The model execution request; \<open>clone\<close> copies the lists of blocks, which are values here.\<close>

record 'p ExecuteModelRequest =
  emr_seq_group_metadata_list :: "'p SequenceGroupMetadata list"
  emr_blocks_to_swap_in :: "nat list list"
  emr_blocks_to_swap_out :: "nat list list"
  emr_blocks_to_copy :: "nat list list"
  emr_total_block_ids :: "nat list"
  emr_num_lookahead_slots :: nat
  emr_running_queue_size :: nat

definition ExecuteModelRequest_clone ::
  "'p SequenceGroupMetadata list \<Rightarrow> 'p ExecuteModelRequest \<Rightarrow> 'p ExecuteModelRequest"
where
  "ExecuteModelRequest_clone mds r = r\<lparr>emr_seq_group_metadata_list := mds\<rparr>"

section \<open>Concrete groups\<close>

text \<open>Sequences of \<open>n\<close> prompt tokens with blocks of two tokens, and groups of them, for examples.\<close>

definition demo_seq :: "nat \<Rightarrow> nat \<Rightarrow> SequenceStatus \<Rightarrow> Sequence" where
  "demo_seq sid n st =
     (projr (Sequence_init sid (replicate n CHR ''x'') (replicate n 7) 2 None None))\<lparr>seq_status := st\<rparr>"

definition demo_group :: "string \<Rightarrow> rat \<Rightarrow> Sequence list \<Rightarrow> SequenceGroup" where
  "demo_group request_id arrival seqs =
     SequenceGroup_init request_id seqs arrival None None None None None 0"

lemma demo_seq_facts [simp]:
  "seq_id (demo_seq sid n st) = sid" "seq_status (demo_seq sid n st) = st"
  "seq_get_len (demo_seq sid n st) = n" "seq_get_prompt_len (demo_seq sid n st) = n"
  "seq_data (demo_seq sid n st) = SequenceData_init (replicate n 7) None"
  "seq_prompt (demo_seq sid n st) = replicate n CHR ''x''"
  by (simp_all add: demo_seq_def Sequence_init_eq SequenceData_init_def seq_get_len_def
      sd_get_len_def seq_get_prompt_len_def sd_get_prompt_len_def)

lemma demo_group_facts [simp]:
  "sg_request_id (demo_group i t ss) = i" "arrival_time (sg_metrics (demo_group i t ss)) = t"
  "sg_seqs_dict (demo_group i t ss) = fold (\<lambda>s. dset (seq_id s) s) ss []"
  "sg_sampling_params (demo_group i t ss) = None" "sg_lora_request (demo_group i t ss) = None"
  by (simp_all add: demo_group_def SequenceGroup_init_def)

end
