(* ===== verification/Sequence_Claims.thy ===== *)
theory Sequence_Claims
  imports Seq_Group
begin

text \<open>
  Properties of the request data: constructed sampling parameters are well formed, and the logical
  blocks of a sequence hold its tokens after any history of appends, forks and recompute resets.
\<close>

section \<open>Sampling parameters\<close>

lemma verify_ValueError:
  "verify_args p = Inl e \<Longrightarrow> \<exists>msg. e = ValueError msg"
  "verify_beam_search p = Inl e \<Longrightarrow> \<exists>msg. e = ValueError msg"
  "verify_non_beam_search p = Inl e \<Longrightarrow> \<exists>msg. e = ValueError msg"
  "verify_greedy_sampling p = Inl e \<Longrightarrow> \<exists>msg. e = ValueError msg"
  by (auto simp: verify_args_def verify_beam_search_def verify_non_beam_search_def verify_greedy_sampling_def
      split: if_splits)

lemma SamplingParams_init_ValueError:
  "SamplingParams_init best_of stop toks a = Inl e \<Longrightarrow> \<exists>msg. e = ValueError msg"
  unfolding SamplingParams_init_def Let_def
  by (auto split: sum.splits if_splits dest: verify_ValueError)

text \<open>
  C25. Constructing sampling parameters succeeds exactly when the arguments are acceptable: every
  checked field is in its documented range (counts, the three penalties, temperature, top_p, top_k,
  min_p, the token limits, the log probability counts, the truncation, the stop strings), and beam
  search or the other ways of sampling have the settings that they need; otherwise a ValueError is
  raised. The object keeps n, best_of (by default n) and the stop strings, is acceptable itself, and
  is consistent: the output buffer is long enough to hold back a partial stop string, and greedy
  sampling has its forced settings.
\<close>

theorem sampling_params_well_formed:
  "case SamplingParams_init best_of stop toks a of
     Inr p \<Rightarrow> params_acceptable (requested_params best_of stop a) \<and> params_ok p \<and>
       sp_n p = sp_n a \<and> sp_best_of p = (case best_of of Some k \<Rightarrow> k | None \<Rightarrow> sp_n a) \<and>
       sp_stop p = stop_list stop
   | Inl e \<Rightarrow> \<not> params_acceptable (requested_params best_of stop a) \<and> (\<exists>msg. e = ValueError msg)"
proof (cases "SamplingParams_init best_of stop toks a")
  case (Inl e)
  with SamplingParams_init_refused [OF Inl] SamplingParams_init_ValueError [OF Inl] show ?thesis by simp
next
  case (Inr p)
  with SamplingParams_init_ok [OF Inr] show ?thesis by simp
qed

text \<open>
  Examples: the default arguments with two stop strings, and the same with a penalty that is too
  high, are accepted and refused.
\<close>

definition basic_params :: SamplingParams where
  "basic_params = \<lparr>sp_n = 1, sp_best_of = 1, sp_presence_penalty = 0, sp_frequency_penalty = 0,
     sp_repetition_penalty = 1, sp_temperature = 1, sp_top_p = 1, sp_top_k = -1, sp_min_p = 0,
     sp_seed = None, sp_use_beam_search = False, sp_length_penalty = 1,
     sp_early_stopping = ES_bool False, sp_stop = [], sp_stop_token_ids = [],
     sp_ignore_eos = False, sp_max_tokens = Some 16, sp_min_tokens = 0, sp_logprobs = None,
     sp_prompt_logprobs = None, sp_detokenize = True, sp_skip_special_tokens = True,
     sp_spaces_between_special_tokens = True, sp_logits_processors = None,
     sp_include_stop_str_in_output = False, sp_truncate_prompt_tokens = None,
     sp_output_text_buffer_length = 0, sp_all_stop_token_ids = {}\<rparr>"

theorem sampling_params_well_formed_witness:
  "(\<exists>p. SamplingParams_init None (Some (StopList [''ab'', ''c''])) None basic_params = Inr p \<and>
      params_ok p \<and> sp_best_of p = 1) \<and>
   \<not> params_acceptable (requested_params None None (basic_params\<lparr>sp_presence_penalty := 3\<rparr>))"
proof -
  have ok: "\<not> isl (SamplingParams_init None (Some (StopList [''ab'', ''c''])) None basic_params)"
    by (simp add: SamplingParams_init_def basic_params_def stop_list_def verify_args_def
        verify_non_beam_search_def SAMPLING_EPS_def Let_def)
  have bad: "SamplingParams_init None None None (basic_params\<lparr>sp_presence_penalty := 3\<rparr>) =
      Inl (ValueError ''presence_penalty must be in [-2, 2]'')"
    by (simp add: SamplingParams_init_def basic_params_def stop_list_def verify_args_def Let_def)
  obtain p where p: "SamplingParams_init None (Some (StopList [''ab'', ''c''])) None basic_params = Inr p"
    using ok by (cases "SamplingParams_init None (Some (StopList [''ab'', ''c''])) None basic_params") auto
  have "params_ok p \<and> sp_best_of p = 1"
    using sampling_params_well_formed [where best_of = None and stop = "Some (StopList [''ab'', ''c''])"
        and toks = None and a = basic_params]
    by (simp add: p) (simp add: basic_params_def)
  moreover have "\<not> params_acceptable (requested_params None None (basic_params\<lparr>sp_presence_penalty := 3\<rparr>))"
    using sampling_params_well_formed [where best_of = None and stop = None and toks = None
        and a = "basic_params\<lparr>sp_presence_penalty := 3\<rparr>"]
    by (simp add: bad)
  ultimately show ?thesis using p by blast
qed

section \<open>Histories of a sequence\<close>

datatype seq_op = AppendToken int logprobs | ForkTo nat | ResetForRecompute

definition seq_step :: "seq_op \<Rightarrow> (Sequence, unit) pym" where
  "seq_step op = (case op of
     AppendToken t lps \<Rightarrow> seq_append_token_id t lps
   | ForkTo k \<Rightarrow> modify (seq_fork k)
   | ResetForRecompute \<Rightarrow> modify seq_reset_state_for_recompute)"

definition appended_tokens :: "seq_op list \<Rightarrow> int list" where
  "appended_tokens ops = concat (map (\<lambda>op. case op of AppendToken t lps \<Rightarrow> [t] | _ \<Rightarrow> []) ops)"

text \<open>The logical blocks: in order, all but the last full, with the tokens as their contents.\<close>

definition blocks_hold :: "nat \<Rightarrow> int list \<Rightarrow> LogicalTokenBlock list \<Rightarrow> bool" where
  "blocks_hold bs toks blocks \<longleftrightarrow>
     concat (map lb_get_token_ids blocks) = toks \<and> length blocks = ceil_div (length toks) bs \<and>
     (\<forall>i < length blocks. lb_block_number (blocks ! i) = i \<and> (Suc i = length blocks \<or> lb_is_full (blocks ! i)))"

lemma logical_blocks_hold: "0 < bs \<Longrightarrow> blocks_hold bs toks (logical_blocks bs toks)"
proof -
  assume bs: "0 < bs"
  have "min (length toks - i * bs) bs = bs" if i: "Suc i < ceil_div (length toks) bs" for i
    using i less_ceil_div_iff [OF bs, of "Suc i" "length toks"] by simp
  then show ?thesis
    using logical_blocks_tokens [OF bs, of toks]
    by (auto simp: blocks_hold_def logical_blocks_def logical_block_def Let_def lb_is_full_def
        dest: Suc_lessI)
qed

lemma seq_reset_ok: "seq_ok s \<Longrightarrow> seq_ok (seq_reset_state_for_recompute s)"
  by (simp add: seq_ok_def seq_reset_state_for_recompute_def sd_reset_state_for_recompute_def
      seq_get_token_ids_def sd_get_token_ids_def seq_get_output_len_def sd_get_output_len_def)

definition seq_hist :: "nat \<Rightarrow> int list \<Rightarrow> Sequence \<Rightarrow> bool" where
  "seq_hist bs toks s \<longleftrightarrow> seq_ok s \<and> seq_block_size s = bs \<and> seq_get_token_ids s = toks"

lemma seq_step_ok:
  assumes "seq_hist bs toks s"
  shows "wp (seq_step op) (\<lambda>_. seq_hist bs (toks @ appended_tokens [op]))
    (\<lambda>e t. t = s \<and> e = AssertionError \<and> (\<exists>t lps. op = AppendToken t lps \<and> t \<notin> set (dkeys lps))) s"
proof (cases op)
  case (AppendToken t lps)
  show ?thesis
  proof (cases "map_of lps t")
    case None
    then have "t \<notin> set (dkeys lps)" by (simp add: map_of_eq_None_iff)
    with AppendToken show ?thesis
      by (simp add: seq_step_def seq_append_token_id_def wp_sq wp_ensure)
  next
    case (Some lp)
    have ok: "seq_ok s" using assms by (simp add: seq_hist_def)
    show ?thesis
      by (rule seq_append_token_id_ok [OF ok Some])
        (use assms AppendToken in \<open>simp add: seq_step_def wp_def seq_hist_def appended_tokens_def\<close>)
  qed
next
  case (ForkTo k)
  with assms show ?thesis
    using seq_fork_ok [of s k]
    by (simp add: seq_step_def wp_modify seq_hist_def appended_tokens_def) (simp add: seq_fork_def seq_get_token_ids_def)
next
  case ResetForRecompute
  with assms show ?thesis
    using seq_reset_ok [of s]
    by (simp add: seq_step_def wp_modify seq_hist_def appended_tokens_def)
      (simp add: seq_reset_state_for_recompute_def sd_reset_state_for_recompute_def seq_get_token_ids_def sd_get_token_ids_def)
qed

text \<open>
  C26. A sequence built from a prompt and changed by appending generated tokens, forking and
  resetting for recomputation holds in its logical blocks exactly the prompt followed by the
  appended tokens: the blocks are numbered from 0, all but the last are full, and there are as many
  as the tokens need. The only exception is the assertion on a token without log probability.
\<close>

theorem logical_blocks_hold_history:
  assumes "0 < bs" "Sequence_init sid prompt toks bs eos lora = Inr s"
  shows "wp (for_each ops seq_step)
    (\<lambda>_ t. seq_get_token_ids t = toks @ appended_tokens ops \<and>
       blocks_hold bs (toks @ appended_tokens ops) (seq_logical_token_blocks t))
    (\<lambda>e t. e = AssertionError \<and> blocks_hold bs (seq_get_token_ids t) (seq_logical_token_blocks t)) s"
proof -
  have hold: "blocks_hold bs (seq_get_token_ids t) (seq_logical_token_blocks t)" if "seq_hist bs xs t" for t xs
    using that logical_blocks_hold [OF assms(1)] by (auto simp: seq_hist_def seq_ok_def)
  have "seq_hist bs toks s"
  proof (rule Sequence_init_ok [OF assms(1)])
    fix s' assume "Sequence_init sid prompt toks bs eos lora = Inr s'" "seq_ok s'" "seq_get_token_ids s' = toks"
    moreover from assms have "seq_block_size s = bs" by (auto simp: Sequence_init_eq)
    ultimately show ?thesis using assms(2) by (simp add: seq_hist_def)
  qed
  then show ?thesis
  proof (intro wp_for_each [where I = "\<lambda>ys t. \<exists>xs. ops = xs @ ys \<and> seq_hist bs (toks @ appended_tokens xs) t"])
    fix op ys t
    assume "\<exists>xs. ops = xs @ op # ys \<and> seq_hist bs (toks @ appended_tokens xs) t"
    then obtain xs where xs: "ops = xs @ op # ys" "seq_hist bs (toks @ appended_tokens xs) t" by blast
    have "appended_tokens (xs @ [op]) = appended_tokens xs @ appended_tokens [op]"
      by (simp add: appended_tokens_def)
    then show "wp (seq_step op) (\<lambda>_ t. \<exists>xs. ops = xs @ ys \<and> seq_hist bs (toks @ appended_tokens xs) t)
      (\<lambda>e t. e = AssertionError \<and> blocks_hold bs (seq_get_token_ids t) (seq_logical_token_blocks t)) t"
      by (intro wp_mono [OF seq_step_ok [OF xs(2), of op]])
        (use xs hold in \<open>auto intro!: exI [where x = "xs @ [op]"]\<close>)
  next
    fix t assume "\<exists>xs. ops = xs @ [] \<and> seq_hist bs (toks @ appended_tokens xs) t"
    then have "seq_hist bs (toks @ appended_tokens ops) t" by simp
    with hold [OF this] show "seq_get_token_ids t = toks @ appended_tokens ops \<and>
       blocks_hold bs (toks @ appended_tokens ops) (seq_logical_token_blocks t)"
      by (simp add: seq_hist_def)
  qed (auto simp: appended_tokens_def)
qed

theorem logical_blocks_hold_history_witness:
  "wp (for_each [AppendToken 8 [(8, \<lparr>logprob = -1, lp_rank = None, lp_decoded_token = None\<rparr>)], ForkTo 5] seq_step)
    (\<lambda>_ t. blocks_hold 2 [7, 7, 7, 8] (seq_logical_token_blocks t)) (\<lambda>_ _. True) (demo_seq 1 3 WAITING)"
proof -
  have "Sequence_init 1 (replicate 3 CHR ''x'') (replicate 3 7) 2 None None = Inr (demo_seq 1 3 WAITING)"
    by code_simp
  from logical_blocks_hold_history [OF _ this] show ?thesis
    by (rule wp_mono) (simp_all add: appended_tokens_def numeral_3_eq_3)
qed

end
