(* ===== verification/Ellm_Cache.thy ===== *)
theory Ellm_Cache
  imports Py_Prelude "HOL-Library.Product_Lexorder"
begin

text \<open>
  \<^verbatim>\<open>vllm/core/ellm_cache.py\<close>: the token- and layer-aware map of KV-cache blocks.

  \<open>kv_map\<close> is the state of \<^verbatim>\<open>TokenLayerKVMap\<close>: per layer group a queue of free physical
  blocks and a table of reference counts, and dictionaries of the retained entries, of the
  temporary entries of an active recompute, of the sequence lengths and of the evicted
  prefixes. The first part has one definition per method; the second part proves them.
\<close>

section \<open>Data\<close>

definition DEFAULT_LAYER_GROUP_SIZE :: nat where
  "DEFAULT_LAYER_GROUP_SIZE = 4"

record KVMapEntry =
  ke_seq_id :: nat
  ke_token_start :: nat
  ke_layer_start :: nat
  ke_logical_block_id :: nat
  ke_physical_block_id :: nat
  ke_num_filled :: nat
  ke_temporary :: bool

record LayerGroupBlockPlan =
  recompute_slot_mapping :: "nat list"
  decode_slot_mapping :: "nat list"
  decode_block_tables :: "nat list list"

text \<open>A key of the entry dictionaries: sequence id, logical block id, layer group.\<close>

type_synonym kv_key = "nat \<times> nat \<times> nat"

abbreviation key_group :: "kv_key \<Rightarrow> nat" where
  "key_group k \<equiv> snd (snd k)"

record kv_map =
  kv_num_layers :: nat
  kv_block_size :: nat
  kv_num_physical_blocks :: nat
  kv_layer_group_size :: nat
  kv_num_layer_groups :: nat
  kv_free_blocks :: "nat list list"
  kv_block_ref_counts :: "nat list list"
  kv_entries :: "(kv_key, KVMapEntry) pydict"
  kv_temporary_entries :: "(kv_key, KVMapEntry) pydict"
  kv_sequence_lengths :: "(nat, nat) pydict"
  kv_evicted_prefix_blocks :: "(nat, nat) pydict"

type_synonym 'a kv = "(kv_map, 'a) pym"

definition TokenLayerKVMap_init :: "int \<Rightarrow> int \<Rightarrow> int \<Rightarrow> int \<Rightarrow> py_error + kv_map" where
  "TokenLayerKVMap_init num_layers block_size num_physical_blocks layer_group_size =
     (if num_layers \<le> 0 then Inl (ValueError ''num_layers must be positive'')
      else if block_size \<le> 0 then Inl (ValueError ''block_size must be positive'')
      else if num_physical_blocks \<le> 0 then
        Inl (ValueError ''num_physical_blocks must be positive'')
      else if layer_group_size \<le> 0 then Inl (ValueError ''layer_group_size must be positive'')
      else
        let groups = ceil_div (nat num_layers) (nat layer_group_size) in
        Inr \<lparr>kv_num_layers = nat num_layers,
             kv_block_size = nat block_size,
             kv_num_physical_blocks = nat num_physical_blocks,
             kv_layer_group_size = nat layer_group_size,
             kv_num_layer_groups = groups,
             kv_free_blocks = replicate groups [0..<nat num_physical_blocks],
             kv_block_ref_counts = replicate groups (replicate (nat num_physical_blocks) 0),
             kv_entries = [],
             kv_temporary_entries = [],
             kv_sequence_lengths = [],
             kv_evicted_prefix_blocks = []\<rparr>)"

section \<open>The physical pools: allocate, retain, free\<close>

definition get_block_ref_count :: "nat \<Rightarrow> nat \<Rightarrow> nat kv" where
  "get_block_ref_count layer_group physical_block_id = lift_err (\<lambda>m.
     case nth_py (kv_block_ref_counts m) layer_group of
       Inl e \<Rightarrow> Inl e
     | Inr ref_counts \<Rightarrow> nth_py ref_counts physical_block_id)"

text \<open>\<^verbatim>\<open>self._block_ref_counts[layer_group][physical_block_id] = v\<close>\<close>

definition set_ref :: "nat \<Rightarrow> nat \<Rightarrow> nat \<Rightarrow> unit kv" where
  "set_ref g b v = modify (\<lambda>m. m\<lparr>kv_block_ref_counts :=
     (kv_block_ref_counts m)[g := (kv_block_ref_counts m ! g)[b := v]]\<rparr>)"

definition set_free :: "nat \<Rightarrow> nat list \<Rightarrow> unit kv" where
  "set_free g bs = modify (\<lambda>m. m\<lparr>kv_free_blocks := (kv_free_blocks m)[g := bs]\<rparr>)"

definition pop_free :: "nat \<Rightarrow> nat kv" where
  "pop_free g = bnd (gets kv_free_blocks) (\<lambda>fs.
     case (if g < length fs then fs ! g else []) of
       [] \<Rightarrow> throw (RuntimeError ''No free KV blocks in layer group'')
     | b # bs \<Rightarrow> sq (set_free g bs) (ret b))"

definition allocate_block :: "nat \<Rightarrow> nat kv" where
  "allocate_block layer_group =
     bnd (pop_free layer_group) (\<lambda>physical_block_id.
     bnd (get_block_ref_count layer_group physical_block_id) (\<lambda>rc.
     sq (ensure (rc = 0) (RuntimeError ''Free KV block has a non-zero reference count''))
    (sq (set_ref layer_group physical_block_id 1)
    (ret physical_block_id))))"

definition retain_block :: "nat \<Rightarrow> nat \<Rightarrow> unit kv" where
  "retain_block layer_group physical_block_id =
     bnd (get_block_ref_count layer_group physical_block_id) (\<lambda>rc.
     sq (ensure (rc \<noteq> 0) (ValueError ''Cannot retain a free KV block''))
    (set_ref layer_group physical_block_id (rc + 1)))"

definition free_block :: "nat \<Rightarrow> nat \<Rightarrow> unit kv" where
  "free_block layer_group physical_block_id =
     bnd (get_block_ref_count layer_group physical_block_id) (\<lambda>rc.
     sq (ensure (rc \<noteq> 0) (ValueError ''KV physical block was freed twice''))
    (sq (set_ref layer_group physical_block_id (rc - 1))
    (if rc - 1 > 0 then ret ()
     else bnd (lift_err (\<lambda>m. nth_py (kv_free_blocks m) layer_group)) (\<lambda>free_blocks.
          set_free layer_group (free_blocks @ [physical_block_id])))))"

definition num_logical_blocks :: "kv_map \<Rightarrow> nat \<Rightarrow> nat" where
  "num_logical_blocks m num_tokens = ceil_div num_tokens (kv_block_size m)"

text \<open>\<open>max(remaining, 0)\<close> is the truncated subtraction of natural numbers.\<close>

definition num_filled :: "kv_map \<Rightarrow> nat \<Rightarrow> nat \<Rightarrow> nat" where
  "num_filled m num_tokens logical_block_id =
     min (kv_block_size m) (num_tokens - logical_block_id * kv_block_size m)"

section \<open>Entries\<close>

text \<open>The two dictionaries of entries; \<open>True\<close> selects the temporary one.\<close>

definition kv_dict :: "bool \<Rightarrow> kv_map \<Rightarrow> (kv_key, KVMapEntry) pydict" where
  "kv_dict tmp m = (if tmp then kv_temporary_entries m else kv_entries m)"

definition kv_dict_update ::
  "bool \<Rightarrow> ((kv_key, KVMapEntry) pydict \<Rightarrow> (kv_key, KVMapEntry) pydict) \<Rightarrow> kv_map \<Rightarrow> kv_map"
where
  "kv_dict_update tmp f m =
     (if tmp then m\<lparr>kv_temporary_entries := f (kv_temporary_entries m)\<rparr>
      else m\<lparr>kv_entries := f (kv_entries m)\<rparr>)"

definition put_entry :: "bool \<Rightarrow> kv_key \<Rightarrow> KVMapEntry \<Rightarrow> unit kv" where
  "put_entry tmp key entry = modify (kv_dict_update tmp (dset key entry))"

definition get_entry :: "bool \<Rightarrow> kv_key \<Rightarrow> KVMapEntry kv" where
  "get_entry tmp key = lift_err (\<lambda>m. dget (kv_dict tmp m) key)"

definition pop_entry :: "bool \<Rightarrow> kv_key \<Rightarrow> KVMapEntry kv" where
  "pop_entry tmp key = bnd (get_entry tmp key) (\<lambda>entry.
     sq (modify (kv_dict_update tmp (ddel key))) (ret entry))"

text \<open>\<^verbatim>\<open>entry = entries.pop(key); self._free_block(key[2], entry.physical_block_id)\<close>\<close>

definition pop_and_free :: "bool \<Rightarrow> kv_key \<Rightarrow> unit kv" where
  "pop_and_free tmp key = bnd (pop_entry tmp key) (\<lambda>entry.
     free_block (key_group key) (ke_physical_block_id entry))"

text \<open>The handler of the \<^verbatim>\<open>try\<close> blocks: undo the keys allocated so far, then re-raise.\<close>

definition rollback_keys :: "bool \<Rightarrow> kv_key list \<Rightarrow> py_error \<Rightarrow> 'a kv" where
  "rollback_keys tmp keys e = sq (for_each keys (pop_and_free tmp)) (throw e)"

definition get_length :: "nat \<Rightarrow> nat kv" where
  "get_length seq_id = lift_err (\<lambda>m. dget (kv_sequence_lengths m) seq_id)"

definition get_prefix_blocks :: "nat \<Rightarrow> nat kv" where
  "get_prefix_blocks seq_id = lift_err (\<lambda>m. dget (kv_evicted_prefix_blocks m) seq_id)"

definition set_length :: "nat \<Rightarrow> nat \<Rightarrow> unit kv" where
  "set_length seq_id n = modify (\<lambda>m. m\<lparr>kv_sequence_lengths := dset seq_id n (kv_sequence_lengths m)\<rparr>)"

definition set_prefix_blocks :: "nat \<Rightarrow> nat \<Rightarrow> unit kv" where
  "set_prefix_blocks seq_id n =
     modify (\<lambda>m. m\<lparr>kv_evicted_prefix_blocks := dset seq_id n (kv_evicted_prefix_blocks m)\<rparr>)"

section \<open>Sequences: allocate, append, fork, evict, free\<close>

definition allocate_sequence_with_evicted_prefix :: "nat \<Rightarrow> int \<Rightarrow> int \<Rightarrow> unit kv" where
  "allocate_sequence_with_evicted_prefix seq_id num_tokens num_evicted_tokens =
     bnd (gets id) (\<lambda>m.
     sq (ensure (seq_id \<notin> set (dkeys (kv_sequence_lengths m)))
          (ValueError ''Sequence is already allocated''))
    (sq (ensure (0 < num_tokens) (ValueError ''num_tokens must be positive''))
    (sq (ensure (0 \<le> num_evicted_tokens \<and> num_evicted_tokens mod int (kv_block_size m) = 0)
          (ValueError ''evicted tokens must be non-negative and aligned''))
    (let prefix_blocks = nat num_evicted_tokens div kv_block_size m;
         blocks = num_logical_blocks m (nat num_tokens) in
     sq (ensure (prefix_blocks \<le> blocks) (ValueError ''evicted prefix exceeds the sequence''))
    (bnd (fold_catch (List.product [0..<kv_num_layer_groups m] [prefix_blocks..<blocks]) []
            (\<lambda>allocated_keys (layer_group, logical_block_id).
               bnd (allocate_block layer_group) (\<lambda>physical_block_id.
               let key = (seq_id, logical_block_id, layer_group) in
               sq (put_entry False key
                    \<lparr>ke_seq_id = seq_id,
                     ke_token_start = logical_block_id * kv_block_size m,
                     ke_layer_start = layer_group * kv_layer_group_size m,
                     ke_logical_block_id = logical_block_id,
                     ke_physical_block_id = physical_block_id,
                     ke_num_filled = num_filled m (nat num_tokens) logical_block_id,
                     ke_temporary = False\<rparr>)
              (ret (allocated_keys @ [key]))))
            (\<lambda>allocated_keys e. rollback_keys False allocated_keys e)) (\<lambda>_.
     sq (set_length seq_id (nat num_tokens))
    (set_prefix_blocks seq_id prefix_blocks)))))))"

definition allocate_sequence :: "nat \<Rightarrow> int \<Rightarrow> unit kv" where
  "allocate_sequence seq_id num_tokens = allocate_sequence_with_evicted_prefix seq_id num_tokens 0"

text \<open>
  \<open>append_token\<close> has two branches. A token that opens a new logical block takes one fresh
  block in every layer group; a token that goes into the tail block first takes a fresh block
  in every group whose tail is shared, and only then switches the entries over.
\<close>

definition append_new_block :: "nat \<Rightarrow> nat \<Rightarrow> (nat \<times> nat \<times> nat) list kv" where
  "append_new_block seq_id logical_block_id =
     bnd (gets id) (\<lambda>m.
     sq (fold_catch [0..<kv_num_layer_groups m] []
           (\<lambda>allocated layer_group.
              bnd (allocate_block layer_group) (\<lambda>physical_block_id.
              let key = (seq_id, logical_block_id, layer_group) in
              sq (put_entry False key
                   \<lparr>ke_seq_id = seq_id,
                    ke_token_start = logical_block_id * kv_block_size m,
                    ke_layer_start = layer_group * kv_layer_group_size m,
                    ke_logical_block_id = logical_block_id,
                    ke_physical_block_id = physical_block_id,
                    ke_num_filled = 1,
                    ke_temporary = False\<rparr>)
             (ret (allocated @ [key]))))
           (\<lambda>allocated e. rollback_keys False allocated e))
    (ret []))"

definition append_cow_blocks :: "nat \<Rightarrow> nat \<Rightarrow> (nat, nat) pydict kv" where
  "append_cow_blocks seq_id logical_block_id =
     bnd (gets kv_num_layer_groups) (\<lambda>groups.
     fold_catch [0..<groups] []
       (\<lambda>cow_blocks layer_group.
          bnd (get_entry False (seq_id, logical_block_id, layer_group)) (\<lambda>entry.
          bnd (get_block_ref_count layer_group (ke_physical_block_id entry)) (\<lambda>ref_count.
          if ref_count > 1 then
            bnd (allocate_block layer_group) (\<lambda>b. ret (dset layer_group b cow_blocks))
          else ret cow_blocks)))
       (\<lambda>cow_blocks e.
          sq (for_each cow_blocks (\<lambda>(layer_group, physical_block_id).
                free_block layer_group physical_block_id))
         (throw e)))"

definition append_in_tail :: "nat \<Rightarrow> nat \<Rightarrow> (nat \<times> nat \<times> nat) list kv" where
  "append_in_tail seq_id logical_block_id =
     bnd (append_cow_blocks seq_id logical_block_id) (\<lambda>cow_blocks.
     bnd (gets kv_num_layer_groups) (\<lambda>groups.
     fold_each [0..<groups] []
       (\<lambda>copy_mappings layer_group.
          let key = (seq_id, logical_block_id, layer_group) in
          bnd (get_entry False key) (\<lambda>entry.
          case map_of cow_blocks layer_group of
            Some new_block_id \<Rightarrow>
              sq (free_block layer_group (ke_physical_block_id entry))
             (sq (put_entry False key
                   (entry\<lparr>ke_physical_block_id := new_block_id,
                          ke_num_filled := ke_num_filled entry + 1\<rparr>))
             (ret (copy_mappings @ [(layer_group, ke_physical_block_id entry, new_block_id)])))
          | None \<Rightarrow>
              sq (put_entry False key (entry\<lparr>ke_num_filled := ke_num_filled entry + 1\<rparr>))
             (ret copy_mappings)))))"

definition append_token :: "nat \<Rightarrow> (nat \<times> nat \<times> nat) list kv" where
  "append_token seq_id =
     bnd (get_length seq_id) (\<lambda>old_num_tokens.
     bnd (gets id) (\<lambda>m.
     let new_num_tokens = old_num_tokens + 1;
         old_num_blocks = num_logical_blocks m old_num_tokens;
         new_num_blocks = num_logical_blocks m new_num_tokens in
     bnd (if new_num_blocks > old_num_blocks then append_new_block seq_id (new_num_blocks - 1)
          else append_in_tail seq_id (new_num_blocks - 1)) (\<lambda>copy_mappings.
     sq (set_length seq_id new_num_tokens)
    (ret copy_mappings))))"

definition fork_sequence :: "nat \<Rightarrow> nat \<Rightarrow> unit kv" where
  "fork_sequence parent_seq_id child_seq_id =
     bnd (gets id) (\<lambda>m.
     sq (ensure (child_seq_id \<notin> set (dkeys (kv_sequence_lengths m)))
          (ValueError ''Sequence is already allocated''))
    (sq (ensure (\<forall>key \<in> set (dkeys (kv_temporary_entries m)). fst key \<noteq> parent_seq_id)
          (RuntimeError ''Cannot fork a sequence during recompute''))
    (let parent_entries = filter (\<lambda>(key, entry). fst key = parent_seq_id) (kv_entries m) in
     sq (for_each parent_entries (\<lambda>(key, entry).
           sq (retain_block (key_group key) (ke_physical_block_id entry))
          (put_entry False (child_seq_id, fst (snd key), key_group key)
             (entry\<lparr>ke_seq_id := child_seq_id\<rparr>))))
    (bnd (get_length parent_seq_id) (\<lambda>n.
     sq (set_length child_seq_id n)
    (bnd (get_prefix_blocks parent_seq_id) (\<lambda>p. set_prefix_blocks child_seq_id p)))))))"

definition sequence_needs_cow :: "nat \<Rightarrow> nat \<Rightarrow> bool kv" where
  "sequence_needs_cow seq_id layer_group =
     bnd (get_length seq_id) (\<lambda>num_tokens.
     bnd (gets kv_block_size) (\<lambda>bs.
     if num_tokens mod bs = 0 then ret False
     else
       bnd (get_entry False (seq_id, (num_tokens - 1) div bs, layer_group)) (\<lambda>entry.
       bnd (get_block_ref_count layer_group (ke_physical_block_id entry)) (\<lambda>rc.
       ret (rc > 1)))))"

definition evict_prefix :: "nat \<Rightarrow> int \<Rightarrow> nat kv" where
  "evict_prefix seq_id num_tokens0 =
     bnd (gets id) (\<lambda>m.
     sq (ensure (kv_temporary_entries m = [])
          (RuntimeError ''Cannot evict while recompute blocks are active''))
    (bnd (get_length seq_id) (\<lambda>sequence_length.
     let num_tokens = min (nat (max num_tokens0 0)) sequence_length;
         num_prefix_blocks = num_tokens div kv_block_size m in
     bnd (get_prefix_blocks seq_id) (\<lambda>old_prefix_blocks.
     sq (ensure (old_prefix_blocks \<le> num_prefix_blocks)
          (ValueError ''Growing the cached prefix is not supported''))
    (sq (for_each (List.product [old_prefix_blocks..<num_prefix_blocks]
                     [0..<kv_num_layer_groups m])
           (\<lambda>(logical_block_id, layer_group).
              pop_and_free False (seq_id, logical_block_id, layer_group)))
    (sq (set_prefix_blocks seq_id num_prefix_blocks)
    (ret (num_prefix_blocks * kv_block_size m))))))))"

definition free_sequence :: "nat \<Rightarrow> unit kv" where
  "free_sequence seq_id =
     sq (for_each [False, True] (\<lambda>tmp.
           bnd (gets (\<lambda>m. filter (\<lambda>key. fst key = seq_id) (dkeys (kv_dict tmp m)))) (\<lambda>keys.
           for_each keys (pop_and_free tmp))))
    (modify (\<lambda>m. m\<lparr>kv_sequence_lengths := ddel seq_id (kv_sequence_lengths m),
                   kv_evicted_prefix_blocks := ddel seq_id (kv_evicted_prefix_blocks m)\<rparr>))"

section \<open>Block tables and recompute plans\<close>

definition get_retained_block_table :: "nat \<Rightarrow> nat \<Rightarrow> nat list kv" where
  "get_retained_block_table seq_id layer_group = gets (\<lambda>m.
     map ke_physical_block_id (sort_key ke_logical_block_id
       (map snd (filter (\<lambda>(key, entry). fst key = seq_id \<and> key_group key = layer_group)
                  (kv_entries m)))))"

text \<open>\<^verbatim>\<open>table[entry.logical_block_id] = entry.physical_block_id\<close>\<close>

definition table_put :: "nat option list \<Rightarrow> KVMapEntry \<Rightarrow> nat option list kv" where
  "table_put table entry =
     sq (ensure (ke_logical_block_id entry < length table) IndexError)
    (ret (table[ke_logical_block_id entry := Some (ke_physical_block_id entry)]))"

definition get_decode_block_table :: "nat \<Rightarrow> nat \<Rightarrow> nat list kv" where
  "get_decode_block_table seq_id layer_group =
     bnd (get_length seq_id) (\<lambda>n.
     bnd (gets id) (\<lambda>m.
     bnd (fold_each (kv_entries m @ kv_temporary_entries m)
            (replicate (num_logical_blocks m n) None)
            (\<lambda>table (key, entry).
               if fst key = seq_id \<and> key_group key = layer_group then table_put table entry
               else ret table)) (\<lambda>table.
     sq (ensure (None \<notin> set table) (RuntimeError ''Decode block table has an uncached gap''))
    (ret (map the table)))))"

definition begin_recompute :: "nat \<Rightarrow> int \<Rightarrow> nat list kv" where
  "begin_recompute seq_id layer_group0 =
     bnd (gets id) (\<lambda>m.
     sq (ensure (0 \<le> layer_group0 \<and> layer_group0 < int (kv_num_layer_groups m))
          (ValueError ''layer_group is out of range''))
    (let layer_group = nat layer_group0 in
     bnd (get_prefix_blocks seq_id) (\<lambda>prefix_blocks.
     if prefix_blocks = 0 then get_retained_block_table seq_id layer_group
     else
       sq (ensure (\<forall>key \<in> set (dkeys (kv_temporary_entries m)). fst key \<noteq> seq_id)
            (RuntimeError ''Sequence already has active recompute blocks''))
      (sq (fold_catch [0..<prefix_blocks] []
             (\<lambda>allocated_keys logical_block_id.
                bnd (allocate_block layer_group) (\<lambda>physical_block_id.
                let key = (seq_id, logical_block_id, layer_group) in
                sq (put_entry True key
                     \<lparr>ke_seq_id = seq_id,
                      ke_token_start = logical_block_id * kv_block_size m,
                      ke_layer_start = layer_group * kv_layer_group_size m,
                      ke_logical_block_id = logical_block_id,
                      ke_physical_block_id = physical_block_id,
                      ke_num_filled = kv_block_size m,
                      ke_temporary = True\<rparr>)
               (ret (allocated_keys @ [key]))))
             (\<lambda>allocated_keys e. rollback_keys True allocated_keys e))
      (get_decode_block_table seq_id layer_group)))))"

definition end_recompute :: "nat \<Rightarrow> nat \<Rightarrow> unit kv" where
  "end_recompute seq_id layer_group =
     bnd (gets (\<lambda>m. filter (\<lambda>key. fst key = seq_id \<and> key_group key = layer_group)
                       (dkeys (kv_temporary_entries m)))) (\<lambda>keys.
     for_each keys (pop_and_free True))"

definition get_recompute_slot_mapping :: "nat \<Rightarrow> nat \<Rightarrow> nat list kv" where
  "get_recompute_slot_mapping seq_id layer_group =
     bnd (get_prefix_blocks seq_id) (\<lambda>prefix_blocks.
     bnd (gets id) (\<lambda>m.
     fold_each [0..<prefix_blocks] []
       (\<lambda>slots logical_block_id.
          case map_of (kv_temporary_entries m) (seq_id, logical_block_id, layer_group) of
            None \<Rightarrow> throw (RuntimeError ''Recompute blocks are not active'')
          | Some entry \<Rightarrow>
              let block_start = ke_physical_block_id entry * kv_block_size m in
              ret (slots @ [block_start..<block_start + kv_block_size m]))))"

definition get_decode_slot :: "nat \<Rightarrow> nat \<Rightarrow> nat kv" where
  "get_decode_slot seq_id layer_group =
     bnd (get_length seq_id) (\<lambda>num_tokens.
     bnd (gets kv_block_size) (\<lambda>bs.
     bnd (get_entry False (seq_id, (num_tokens - 1) div bs, layer_group)) (\<lambda>entry.
     ret (ke_physical_block_id entry * bs + (num_tokens - 1) mod bs))))"

definition get_layer_group :: "int \<Rightarrow> nat kv" where
  "get_layer_group layer_idx =
     bnd (gets id) (\<lambda>m.
     sq (ensure (0 \<le> layer_idx \<and> layer_idx < int (kv_num_layers m))
          (ValueError ''layer_idx is out of range''))
    (ret (nat layer_idx div kv_layer_group_size m)))"

definition get_num_evicted_tokens :: "nat \<Rightarrow> nat kv" where
  "get_num_evicted_tokens seq_id =
     bnd (get_prefix_blocks seq_id) (\<lambda>p. bnd (gets kv_block_size) (\<lambda>bs. ret (p * bs)))"

definition get_sequence_length :: "nat \<Rightarrow> nat kv" where
  "get_sequence_length seq_id = get_length seq_id"

text \<open>
  The loop over the requests that both plan builders run. Its local variables are the three
  address lists and the ids of the requests begun so far, in this order; an id counts as
  active as soon as its recompute has begun.
\<close>

type_synonym plan_acc = "nat list \<times> nat list \<times> nat list list \<times> nat list"

definition release_layer_group_plan :: "nat list \<Rightarrow> nat \<Rightarrow> unit kv" where
  "release_layer_group_plan seq_ids layer_group =
     for_each seq_ids (\<lambda>seq_id. end_recompute seq_id layer_group)"

fun plan_loop :: "nat \<Rightarrow> nat list \<Rightarrow> plan_acc \<Rightarrow> (nat list \<Rightarrow> unit kv) \<Rightarrow> plan_acc kv" where
  "plan_loop layer_group [] acc cleanup = ret acc"
| "plan_loop layer_group (seq_id # seq_ids) (recompute_slots, decode_slots, decode_tables, active)
     cleanup =
     bnd (try_except (begin_recompute seq_id (int layer_group))
            (\<lambda>e. sq (cleanup active) (throw e))) (\<lambda>table.
     bnd (try_except
            (bnd (get_recompute_slot_mapping seq_id layer_group) (\<lambda>rs.
             bnd (get_decode_slot seq_id layer_group) (\<lambda>ds. ret (rs, ds))))
            (\<lambda>e. sq (cleanup (active @ [seq_id])) (throw e))) (\<lambda>(rs, ds).
     plan_loop layer_group seq_ids
       (recompute_slots @ rs, decode_slots @ [ds], decode_tables @ [table], active @ [seq_id])
       cleanup))"

definition mk_plan :: "plan_acc \<Rightarrow> LayerGroupBlockPlan" where
  "mk_plan acc = (case acc of (recompute_slots, decode_slots, decode_tables, active) \<Rightarrow>
     \<lparr>recompute_slot_mapping = recompute_slots, decode_slot_mapping = decode_slots,
      decode_block_tables = decode_tables\<rparr>)"

definition acquire_layer_group_plan :: "nat list \<Rightarrow> nat \<Rightarrow> LayerGroupBlockPlan kv" where
  "acquire_layer_group_plan seq_ids layer_group =
     bnd (plan_loop layer_group seq_ids ([], [], [], [])
            (\<lambda>active. release_layer_group_plan active layer_group)) (\<lambda>acc.
     ret (mk_plan acc))"

text \<open>The \<^verbatim>\<open>finally\<close> block runs after an exception (the clean-up of the loop) and at the end.\<close>

definition build_layer_group_plan :: "nat list \<Rightarrow> nat \<Rightarrow> LayerGroupBlockPlan kv" where
  "build_layer_group_plan seq_ids layer_group =
     bnd (plan_loop layer_group seq_ids ([], [], [], [])
            (\<lambda>active. for_each active (\<lambda>seq_id. end_recompute seq_id layer_group))) (\<lambda>acc.
     sq (for_each (snd (snd (snd acc))) (\<lambda>seq_id. end_recompute seq_id layer_group))
    (ret (mk_plan acc)))"

definition build_layer_group_plans :: "nat list \<Rightarrow> LayerGroupBlockPlan list kv" where
  "build_layer_group_plans seq_ids =
     bnd (gets kv_num_layer_groups) (\<lambda>groups.
     fold_each [0..<groups] [] (\<lambda>plans layer_group.
       bnd (build_layer_group_plan seq_ids layer_group) (\<lambda>plan. ret (plans @ [plan]))))"

text \<open>\<^verbatim>\<open>with self.lease_layer_group_plan(...) as plan: body(plan)\<close>\<close>

definition lease_layer_group_plan ::
  "nat list \<Rightarrow> nat \<Rightarrow> (LayerGroupBlockPlan \<Rightarrow> 'a kv) \<Rightarrow> 'a kv"
where
  "lease_layer_group_plan seq_ids layer_group body =
     bnd (acquire_layer_group_plan seq_ids layer_group) (\<lambda>plan.
     try_finally (body plan) (release_layer_group_plan seq_ids layer_group))"

definition get_map_entries :: "nat option \<Rightarrow> KVMapEntry list kv" where
  "get_map_entries seq_id = gets (\<lambda>m.
     let entries = map snd (kv_entries m) @ map snd (kv_temporary_entries m) in
     sort_key (\<lambda>e. (ke_seq_id e, ke_layer_start e, ke_logical_block_id e, ke_temporary e))
       (case seq_id of None \<Rightarrow> entries | Some s \<Rightarrow> filter (\<lambda>e. ke_seq_id e = s) entries))"

definition get_num_free_blocks :: "nat option \<Rightarrow> nat kv" where
  "get_num_free_blocks layer_group =
     (case layer_group of
        Some g \<Rightarrow> bnd (lift_err (\<lambda>m. nth_py (kv_free_blocks m) g)) (\<lambda>bs. ret (length bs))
      | None \<Rightarrow> gets (\<lambda>m. sum_list (map length (kv_free_blocks m))))"

end
