(* ===== verification/Ref_Pool.thy ===== *)
theory Ref_Pool
  imports Py_Prelude
begin

text \<open>
  The contract of a pool of reference-counted blocks, as the KV map and the block managers
  use it. \<open>ok s X\<close> says that the pool \<open>s\<close> is consistent and that the multiset \<open>X\<close> of pairs
  of a pool index and a block holds one element for every reference in existence. A block
  may be retained or freed only by someone who owns a reference; then it never fails.
\<close>

locale ref_pool =
  fixes ok :: "'s \<Rightarrow> ('g \<times> 'b) multiset \<Rightarrow> bool"
    and avail :: "'s \<Rightarrow> 'g \<Rightarrow> nat"
    and rest :: "'s \<Rightarrow> 'r"
    and alloc :: "'g \<Rightarrow> ('s, 'b) pym"
    and retain :: "'g \<Rightarrow> 'b \<Rightarrow> ('s, unit) pym"
    and free :: "'g \<Rightarrow> 'b \<Rightarrow> ('s, unit) pym"
  assumes alloc_some: "ok s X \<Longrightarrow> 0 < avail s g \<Longrightarrow>
      wp (alloc g) (\<lambda>b t. ok t (add_mset (g, b) X) \<and> (g, b) \<notin># X \<and> rest t = rest s \<and>
          avail t = (avail s)(g := avail s g - 1)) (\<lambda>_ _. False) s"
    and alloc_none: "ok s X \<Longrightarrow> avail s g = 0 \<Longrightarrow> wp (alloc g) (\<lambda>_ _. False) (\<lambda>_ t. t = s) s"
    and retain_owned: "ok s X \<Longrightarrow> (g, b) \<in># X \<Longrightarrow>
      wp (retain g b) (\<lambda>_ t. ok t (add_mset (g, b) X) \<and> rest t = rest s \<and> avail t = avail s)
        (\<lambda>_ _. False) s"
    and free_owned: "ok s X \<Longrightarrow> (g, b) \<in># X \<Longrightarrow>
      wp (free g b) (\<lambda>_ t. ok t (X - {#(g, b)#}) \<and> rest t = rest s \<and>
          avail t = (avail s)(g := avail s g + (if count X (g, b) = 1 then 1 else 0)))
        (\<lambda>_ _. False) s"
begin

text \<open>A single allocation, whether or not a block is left.\<close>

lemma alloc_cases:
  assumes "ok s X"
  shows "wp (alloc g)
    (\<lambda>b t. ok t (add_mset (g, b) X) \<and> (g, b) \<notin># X \<and> rest t = rest s \<and> 0 < avail s g \<and>
       avail t = (avail s)(g := avail s g - 1))
    (\<lambda>_ t. avail s g = 0 \<and> t = s) s"
proof (cases "avail s g")
  case 0
  with alloc_none [OF assms 0] show ?thesis by (auto elim: wp_mono)
next
  case (Suc n)
  then have "0 < avail s g" by simp
  from alloc_some [OF assms this] this show ?thesis by (auto elim: wp_mono)
qed

text \<open>Giving back a list of owned references always succeeds and returns exactly those.\<close>

lemma free_many:
  assumes "ok s (X + mset bs)"
  shows "wp (for_each bs (\<lambda>(g, b). free g b))
    (\<lambda>_ t. ok t X \<and> rest t = rest s \<and> (\<forall>g. avail s g \<le> avail t g)) (\<lambda>_ _. False) s"
proof (rule wp_for_each [where
      I = "\<lambda>ys t. ok t (X + mset ys) \<and> rest t = rest s \<and> (\<forall>g. avail s g \<le> avail t g)"])
  show "ok s (X + mset bs) \<and> rest s = rest s \<and> (\<forall>g. avail s g \<le> avail s g)"
    using assms by simp
next
  fix x ys t
  assume I: "ok t (X + mset (x # ys)) \<and> rest t = rest s \<and> (\<forall>g. avail s g \<le> avail t g)"
  obtain g b where x: "x = (g, b)" by (cases x)
  have "wp (free g b) (\<lambda>_ u. ok u (X + mset (x # ys) - {#(g, b)#}) \<and> rest u = rest t \<and>
      avail u = (avail t)(g := avail t g +
        (if count (X + mset (x # ys)) (g, b) = 1 then 1 else 0))) (\<lambda>_ _. False) t"
    by (rule free_owned) (use I x in auto)
  then show "wp (case x of (g, b) \<Rightarrow> free g b)
      (\<lambda>_ u. ok u (X + mset ys) \<and> rest u = rest s \<and> (\<forall>g. avail s g \<le> avail u g))
      (\<lambda>_ _. False) t"
    unfolding x prod.case
    by (rule wp_mono) (use I x in \<open>auto intro: le_SucI\<close>)
qed simp

text \<open>Owned references can be duplicated in any number.\<close>

lemma retain_many:
  assumes "ok s X" "set bs \<subseteq> set_mset X"
  shows "wp (for_each bs (\<lambda>(g, b). retain g b))
    (\<lambda>_ t. ok t (X + mset bs) \<and> rest t = rest s \<and> avail t = avail s) (\<lambda>_ _. False) s"
proof (rule wp_for_each [where I = "\<lambda>ys t. \<exists>zs. bs = zs @ ys \<and> ok t (X + mset zs) \<and>
    rest t = rest s \<and> avail t = avail s"])
  show "\<exists>zs. bs = zs @ bs \<and> ok s (X + mset zs) \<and> rest s = rest s \<and> avail s = avail s"
    using assms(1) by simp
next
  fix x ys t
  assume "\<exists>zs. bs = zs @ x # ys \<and> ok t (X + mset zs) \<and> rest t = rest s \<and> avail t = avail s"
  then obtain zs where zs: "bs = zs @ x # ys" "ok t (X + mset zs)" "rest t = rest s" "avail t = avail s"
    by blast
  obtain g b where x: "x = (g, b)" by (cases x)
  have "(g, b) \<in># X + mset zs" using assms(2) zs(1) x by auto
  from retain_owned [OF zs(2) this]
  show "wp (case x of (g, b) \<Rightarrow> retain g b) (\<lambda>_ t. \<exists>zs. bs = zs @ ys \<and> ok t (X + mset zs) \<and>
      rest t = rest s \<and> avail t = avail s) (\<lambda>_ _. False) t"
    unfolding x prod.case
    by (rule wp_mono) (use zs x in \<open>auto intro!: exI [where x = "zs @ [(g, b)]"]\<close>)
qed auto

text \<open>
  An allocated block is nobody else's, so freeing it at once gives back the same references
  and the same number of free blocks.
\<close>

lemma alloc_free:
  assumes "ok s X" "0 < avail s g"
  shows "wp (bnd (alloc g) (free g))
    (\<lambda>_ t. ok t X \<and> rest t = rest s \<and> avail t = avail s) (\<lambda>_ _. False) s"
  unfolding wp_bnd
proof (rule wp_mono [OF alloc_some [OF assms]])
  fix b t
  assume a: "ok t (add_mset (g, b) X) \<and> (g, b) \<notin># X \<and> rest t = rest s \<and>
    avail t = (avail s)(g := avail s g - 1)"
  then have "count (add_mset (g, b) X) (g, b) = 1"
    by (simp add: not_in_iff)
  with free_owned [of t "add_mset (g, b) X" g b] a assms(2)
  show "wp (free g b) (\<lambda>_ t. ok t X \<and> rest t = rest s \<and> avail t = avail s) (\<lambda>_ _. False) t"
    by (auto elim!: wp_mono)
qed simp

end

end
