(* ===== verification/Ellm_Cache_Pool.thy ===== *)
theory Ellm_Cache_Pool
  imports Ellm_Cache Ref_Pool
begin

text \<open>
  The physical pools of the KV map satisfy the contract of \<open>Ref_Pool\<close>: \<open>pool_ok m X\<close> ties the
  free queues and the reference counts to the multiset \<open>X\<close> of references.
\<close>

definition pool_ok :: "kv_map \<Rightarrow> (nat \<times> nat) multiset \<Rightarrow> bool" where
  "pool_ok m X \<longleftrightarrow>
     length (kv_free_blocks m) = kv_num_layer_groups m \<and>
     length (kv_block_ref_counts m) = kv_num_layer_groups m \<and>
     (\<forall>g < kv_num_layer_groups m.
        length (kv_block_ref_counts m ! g) = kv_num_physical_blocks m \<and>
        distinct (kv_free_blocks m ! g) \<and>
        (\<forall>b. b \<in> set (kv_free_blocks m ! g) \<longleftrightarrow>
             b < kv_num_physical_blocks m \<and> count X (g, b) = 0) \<and>
        (\<forall>b < kv_num_physical_blocks m. kv_block_ref_counts m ! g ! b = count X (g, b))) \<and>
     (\<forall>(g, b) \<in># X. g < kv_num_layer_groups m \<and> b < kv_num_physical_blocks m)"

definition kv_avail :: "kv_map \<Rightarrow> nat \<Rightarrow> nat" where
  "kv_avail m g = (if g < length (kv_free_blocks m) then length (kv_free_blocks m ! g) else 0)"

text \<open>Everything but the pools.\<close>

definition kv_rest :: "kv_map \<Rightarrow> kv_map" where
  "kv_rest m = m\<lparr>kv_free_blocks := [], kv_block_ref_counts := []\<rparr>"

lemma kv_rest_eq:
  "kv_rest s = kv_rest t \<longleftrightarrow>
     kv_num_layers s = kv_num_layers t \<and> kv_block_size s = kv_block_size t \<and>
     kv_num_physical_blocks s = kv_num_physical_blocks t \<and>
     kv_layer_group_size s = kv_layer_group_size t \<and>
     kv_num_layer_groups s = kv_num_layer_groups t \<and>
     kv_entries s = kv_entries t \<and> kv_temporary_entries s = kv_temporary_entries t \<and>
     kv_sequence_lengths s = kv_sequence_lengths t \<and>
     kv_evicted_prefix_blocks s = kv_evicted_prefix_blocks t"
  by (cases s; cases t) (auto simp: kv_rest_def)

lemma pool_okD:
  assumes "pool_ok m X"
  shows "length (kv_free_blocks m) = kv_num_layer_groups m"
    and "length (kv_block_ref_counts m) = kv_num_layer_groups m"
    and "g < kv_num_layer_groups m \<Longrightarrow>
      length (kv_block_ref_counts m ! g) = kv_num_physical_blocks m"
    and "g < kv_num_layer_groups m \<Longrightarrow> distinct (kv_free_blocks m ! g)"
    and "g < kv_num_layer_groups m \<Longrightarrow> b \<in> set (kv_free_blocks m ! g) \<longleftrightarrow>
      b < kv_num_physical_blocks m \<and> count X (g, b) = 0"
    and "g < kv_num_layer_groups m \<Longrightarrow> b < kv_num_physical_blocks m \<Longrightarrow>
      kv_block_ref_counts m ! g ! b = count X (g, b)"
    and "(g, b) \<in># X \<Longrightarrow> g < kv_num_layer_groups m \<and> b < kv_num_physical_blocks m"
  using assms by (auto simp: pool_ok_def)

lemma get_block_ref_count_ok:
  assumes "pool_ok m X" "g < kv_num_layer_groups m" "b < kv_num_physical_blocks m"
  shows "wp (get_block_ref_count g b) Q E m = Q (count X (g, b)) m"
  using pool_okD [OF assms(1)] assms(2,3)
  by (simp add: get_block_ref_count_def wp_simps)

lemma allocate_block_some:
  assumes ok: "pool_ok m X" and av: "0 < kv_avail m g"
  shows "wp (allocate_block g)
    (\<lambda>b t. pool_ok t (add_mset (g, b) X) \<and> (g, b) \<notin># X \<and> kv_rest t = kv_rest m \<and>
       kv_avail t = (kv_avail m)(g := kv_avail m g - 1)) (\<lambda>_ _. False) m"
proof -
  note D = pool_okD [OF ok]
  from av D(1) have g: "g < kv_num_layer_groups m" and "kv_free_blocks m ! g \<noteq> []"
    by (auto simp: kv_avail_def split: if_splits)
  then obtain b bs where f: "kv_free_blocks m ! g = b # bs"
    by (cases "kv_free_blocks m ! g") auto
  with D(5) [OF g] have b: "b < kv_num_physical_blocks m" "count X (g, b) = 0"
    by auto
  let ?t = "m\<lparr>kv_free_blocks := (kv_free_blocks m)[g := bs],
    kv_block_ref_counts := (kv_block_ref_counts m)[g := (kv_block_ref_counts m ! g)[b := 1]]\<rparr>"
  have "allocate_block g m = (Inr b, ?t)"
    using D(1-3,6) g b f
    by (simp add: allocate_block_def pop_free_def set_free_def set_ref_def bnd_def sq_def ret_def
        gets_def modify_def get_block_ref_count_def lift_err_def ensure_def)
  moreover have "distinct bs" "b \<notin> set bs"
    and "\<And>c. c \<in> set bs \<longleftrightarrow> c \<noteq> b \<and> c < kv_num_physical_blocks m \<and> count X (g, c) = 0"
    using D(4,5) [OF g] f by auto
  then have "pool_ok ?t (add_mset (g, b) X)"
    using D(1-3,7) D(4-6) g b unfolding pool_ok_def by (auto simp: nth_list_update)
  moreover have "kv_avail ?t = (kv_avail m)(g := kv_avail m g - 1)"
    using D(1) g f by (auto simp: kv_avail_def fun_eq_iff)
  ultimately show ?thesis
    using b by (simp add: wp_def kv_rest_eq not_in_iff)
qed

lemma allocate_block_none:
  assumes "kv_avail m g = 0"
  shows "allocate_block g m = (Inl (RuntimeError ''No free KV blocks in layer group''), m)"
  using assms
  by (auto simp: allocate_block_def pop_free_def bnd_def gets_def kv_avail_def throw_def
      split: if_splits)

lemma retain_block_owned:
  assumes ok: "pool_ok m X" and own: "(g, b) \<in># X"
  shows "wp (retain_block g b)
    (\<lambda>_ t. pool_ok t (add_mset (g, b) X) \<and> kv_rest t = kv_rest m \<and> kv_avail t = kv_avail m)
    (\<lambda>_ _. False) m"
proof -
  note D = pool_okD [OF ok]
  from D(7) [OF own] have g: "g < kv_num_layer_groups m" and b: "b < kv_num_physical_blocks m"
    by auto
  let ?t = "m\<lparr>kv_block_ref_counts :=
    (kv_block_ref_counts m)[g := (kv_block_ref_counts m ! g)[b := count X (g, b) + 1]]\<rparr>"
  have "pool_ok ?t (add_mset (g, b) X)"
    using D g b own unfolding pool_ok_def by (auto simp: nth_list_update)
  moreover have "kv_avail ?t = kv_avail m"
    by (simp add: kv_avail_def fun_eq_iff)
  ultimately show ?thesis
    using own by (simp add: retain_block_def set_ref_def wp_simps get_block_ref_count_ok [OF ok g b]
        kv_rest_eq not_in_iff)
qed

lemma free_block_owned:
  assumes ok: "pool_ok m X" and own: "(g, b) \<in># X"
  shows "wp (free_block g b)
    (\<lambda>_ t. pool_ok t (X - {#(g, b)#}) \<and> kv_rest t = kv_rest m \<and>
       kv_avail t = (kv_avail m)(g := kv_avail m g + (if count X (g, b) = 1 then 1 else 0)))
    (\<lambda>_ _. False) m"
proof -
  note D = pool_okD [OF ok]
  from D(7) [OF own] have g: "g < kv_num_layer_groups m" and b: "b < kv_num_physical_blocks m"
    by auto
  let ?r = "m\<lparr>kv_block_ref_counts :=
    (kv_block_ref_counts m)[g := (kv_block_ref_counts m ! g)[b := count X (g, b) - 1]]\<rparr>"
  let ?t = "?r\<lparr>kv_free_blocks := (kv_free_blocks m)[g := kv_free_blocks m ! g @ [b]]\<rparr>"
  have pos: "0 < count X (g, b)" using own by simp
  show ?thesis
  proof (cases "count X (g, b) = 1")
    case True
    have "pool_ok ?t (X - {#(g, b)#})"
      using D g b own True unfolding pool_ok_def
      by (auto simp: nth_list_update dest: in_diffD split: if_splits)
    moreover have "kv_avail ?t = (kv_avail m)(g := kv_avail m g + 1)"
      using D(1) g by (auto simp: kv_avail_def fun_eq_iff)
    ultimately show ?thesis
      using True g D(1)
      by (simp add: free_block_def set_ref_def set_free_def wp_simps
          get_block_ref_count_ok [OF ok g b] kv_rest_eq)
  next
    case False
    have "pool_ok ?r (X - {#(g, b)#})"
      using D g b own False pos unfolding pool_ok_def
      by (auto simp: nth_list_update dest: in_diffD split: if_splits)
    moreover have "kv_avail ?r = kv_avail m"
      by (simp add: kv_avail_def fun_eq_iff)
    moreover obtain n where "count X (g, b) = Suc (Suc n)"
      using False pos by (metis One_nat_def not0_implies_Suc not_gr_zero)
    ultimately show ?thesis
      by (simp add: free_block_def set_ref_def wp_simps get_block_ref_count_ok [OF ok g b]
          kv_rest_eq)
  qed
qed

interpretation kvp: ref_pool pool_ok kv_avail kv_rest allocate_block retain_block free_block
proof unfold_locales
  fix s :: kv_map and X and g :: nat
  assume "kv_avail s g = 0"
  then show "wp (allocate_block g) (\<lambda>_ _. False) (\<lambda>_ t. t = s) s"
    by (simp add: wp_def allocate_block_none)
qed (fact allocate_block_some retain_block_owned free_block_owned)+

end
