(* ===== verification/Ellm_Cache_Inv.thy ===== *)
theory Ellm_Cache_Inv
  imports Ellm_Cache_Pool
begin

text \<open>
  The invariant of the KV map and the reusable steps of its methods: storing a fresh entry,
  popping and freeing an entry, and the allocate-or-roll-back loop that three methods share.
\<close>

section \<open>References held by the entries\<close>

definition owned :: "(kv_key, KVMapEntry) pydict \<Rightarrow> (nat \<times> nat) multiset" where
  "owned d = image_mset (\<lambda>(k, e). (key_group k, ke_physical_block_id e)) (mset d)"

definition held :: "kv_map \<Rightarrow> (nat \<times> nat) multiset" where
  "held m = owned (kv_entries m) + owned (kv_temporary_entries m)"

text \<open>
  \<open>X\<close> holds the references that are held by a local variable of a running method and are not
  recorded in an entry yet.
\<close>

definition kv_ok :: "kv_map \<Rightarrow> (nat \<times> nat) multiset \<Rightarrow> bool" where
  "kv_ok m X \<longleftrightarrow> pool_ok m (held m + X) \<and>
     distinct (dkeys (kv_entries m)) \<and> distinct (dkeys (kv_temporary_entries m))"

lemma owned_Nil [simp]: "owned [] = {#}"
  by (simp add: owned_def)

lemma owned_append [simp]: "owned (d @ d') = owned d + owned d'"
  by (simp add: owned_def)

lemma owned_Cons [simp]:
  "owned ((k, e) # d) = add_mset (key_group k, ke_physical_block_id e) (owned d)"
  by (simp add: owned_def)

lemma owned_mem: "map_of d k = Some e \<Longrightarrow> (key_group k, ke_physical_block_id e) \<in># owned d"
  by (induction d) (auto split: if_splits)

lemma owned_ddel:
  "distinct (dkeys d) \<Longrightarrow> map_of d k = Some e \<Longrightarrow>
     owned (ddel k d) = owned d - {#(key_group k, ke_physical_block_id e)#}"
proof (induction d)
  case (Cons p d)
  obtain k' e' where p: "p = (k', e')" by (cases p)
  show ?case
  proof (cases "k' = k")
    case True
    with Cons.prems p show ?thesis by (simp add: ddel_fresh)
  next
    case False
    with Cons p have "owned (ddel k d) = owned d - {#(key_group k, ke_physical_block_id e)#}"
      and "(key_group k, ke_physical_block_id e) \<in># owned d"
      by (auto intro: owned_mem)
    then show ?thesis using False p by (simp add: multi_drop_mem_not_eq diff_union_swap2)
  qed
qed simp

lemma kv_dict_simps [simp]:
  "kv_dict False m = kv_entries m" "kv_dict True m = kv_temporary_entries m"
  "kv_dict_update False f m = m\<lparr>kv_entries := f (kv_entries m)\<rparr>"
  "kv_dict_update True f m = m\<lparr>kv_temporary_entries := f (kv_temporary_entries m)\<rparr>"
  by (simp_all add: kv_dict_def kv_dict_update_def)

lemma kv_dict_get_update [simp]: "kv_dict tmp (kv_dict_update tmp f m) = f (kv_dict tmp m)"
  by (cases tmp) simp_all

lemma kv_dict_rest: "kv_rest s = kv_rest t \<Longrightarrow> kv_dict tmp s = kv_dict tmp t"
  by (cases tmp) (simp_all add: kv_rest_eq)

lemma kv_rest_dict_update:
  "kv_rest s = kv_rest t \<Longrightarrow> kv_rest (kv_dict_update tmp f s) = kv_rest (kv_dict_update tmp f t)"
  by (cases tmp) (simp_all add: kv_rest_eq)

lemma kv_dict_update_update [simp]:
  "kv_dict_update tmp f (kv_dict_update tmp g m) = kv_dict_update tmp (\<lambda>d. f (g d)) m"
  by (cases tmp) simp_all

lemma kv_dict_update_id [simp]: "kv_dict_update tmp (\<lambda>d. d) m = m"
  by (cases tmp) simp_all

lemma pool_ok_dict_update [simp]: "pool_ok (kv_dict_update tmp f m) X = pool_ok m X"
  by (cases tmp) (simp_all add: pool_ok_def)

lemma kv_avail_dict_update [simp]: "kv_avail (kv_dict_update tmp f m) = kv_avail m"
  by (cases tmp) (simp_all add: kv_avail_def fun_eq_iff)

lemma held_rest: "kv_rest s = kv_rest t \<Longrightarrow> held s = held t"
  by (simp add: kv_rest_eq held_def)

lemma kv_ok_pool: "kv_ok m X \<Longrightarrow> pool_ok m (held m + X)"
  by (simp add: kv_ok_def)

lemma kv_ok_distinct: "kv_ok m X \<Longrightarrow> distinct (dkeys (kv_dict tmp m))"
  by (cases tmp) (simp_all add: kv_ok_def)

lemma kv_ok_transfer:
  "kv_ok s Y \<Longrightarrow> kv_rest t = kv_rest s \<Longrightarrow> pool_ok t (held s + X) \<Longrightarrow> kv_ok t X"
  by (simp add: kv_ok_def kv_rest_eq held_def)

text \<open>The free queues have as many elements as there are blocks nobody refers to.\<close>

lemma kv_avail_unique:
  assumes "pool_ok s X" "pool_ok t X"
    and "kv_num_layer_groups s = kv_num_layer_groups t"
    and "kv_num_physical_blocks s = kv_num_physical_blocks t"
  shows "kv_avail s = kv_avail t"
proof
  fix g
  show "kv_avail s g = kv_avail t g"
  proof (cases "g < kv_num_layer_groups t")
    case True
    have "set (kv_free_blocks s ! g) = set (kv_free_blocks t ! g)"
      using pool_okD(5) [OF assms(1)] pool_okD(5) [OF assms(2)] True assms(3,4) by auto
    then have "length (kv_free_blocks s ! g) = length (kv_free_blocks t ! g)"
      using pool_okD(4) [OF assms(1)] pool_okD(4) [OF assms(2)] True assms(3)
      by (metis distinct_card)
    then show ?thesis
      using pool_okD(1) [OF assms(1)] pool_okD(1) [OF assms(2)] True assms(3)
      by (simp add: kv_avail_def)
  next
    case False
    then show ?thesis
      using pool_okD(1) [OF assms(1)] pool_okD(1) [OF assms(2)] assms(3)
      by (simp add: kv_avail_def)
  qed
qed

lemma kv_ok_avail:
  "kv_ok s X \<Longrightarrow> kv_ok t X \<Longrightarrow> kv_rest s = kv_rest t \<Longrightarrow> kv_avail s = kv_avail t"
  by (rule kv_avail_unique) (auto simp: kv_ok_def kv_rest_eq held_def)

section \<open>Steps\<close>

lemma put_entry_fresh:
  assumes ok: "kv_ok m (add_mset (key_group k, ke_physical_block_id e) X)"
    and k: "k \<notin> set (dkeys (kv_dict tmp m))"
  shows "wp (put_entry tmp k e)
    (\<lambda>_ t. kv_ok t X \<and> t = kv_dict_update tmp (\<lambda>d. d @ [(k, e)]) m) E m"
proof -
  have "kv_dict_update tmp (dset k e) m = kv_dict_update tmp (\<lambda>d. d @ [(k, e)]) m"
    using k by (cases tmp) (simp_all add: dset_fresh)
  moreover have "kv_ok (kv_dict_update tmp (\<lambda>d. d @ [(k, e)]) m) X"
    using ok k by (cases tmp) (auto simp: kv_ok_def held_def pool_ok_def)
  ultimately show ?thesis by (simp add: put_entry_def wp_simps)
qed

lemma pop_and_free_ok:
  assumes ok: "kv_ok m X" and k: "map_of (kv_dict tmp m) k = Some e"
  shows "wp (pop_and_free tmp k)
    (\<lambda>_ t. kv_ok t X \<and> kv_rest t = kv_rest (kv_dict_update tmp (ddel k) m) \<and>
       kv_avail t = (kv_avail m)(key_group k := kv_avail m (key_group k) +
         (if count (held m + X) (key_group k, ke_physical_block_id e) = 1 then 1 else 0)))
    (\<lambda>_ _. False) m"
proof -
  let ?x = "(key_group k, ke_physical_block_id e)"
  let ?m = "kv_dict_update tmp (ddel k) m"
  have mem: "?x \<in># held m"
    using owned_mem [OF k] by (cases tmp) (simp_all add: held_def)
  have held: "held ?m = held m - {#?x#}"
    using owned_ddel [OF kv_ok_distinct [OF ok] k] owned_mem [OF k]
    by (cases tmp) (simp_all add: held_def)
  have "kv_ok ?m (add_mset ?x X)"
    using ok mem held by (cases tmp) (simp_all add: kv_ok_def pool_ok_def)
  moreover have "wp (free_block (key_group k) (ke_physical_block_id e))
    (\<lambda>_ t. pool_ok t (held m + X - {#?x#}) \<and> kv_rest t = kv_rest ?m \<and>
       kv_avail t = (kv_avail ?m)(key_group k := kv_avail ?m (key_group k) +
         (if count (held m + X) ?x = 1 then 1 else 0))) (\<lambda>_ _. False) ?m"
    by (rule kvp.free_owned) (use kv_ok_pool [OF ok] mem in simp_all)
  ultimately show ?thesis
    using k held mem
    by (auto simp: pop_and_free_def pop_entry_def get_entry_def wp_simps
        elim!: wp_mono intro: kv_ok_transfer)
qed

lemma ddel_filter: "ddel k d = filter (\<lambda>p. fst p \<noteq> k) d"
  by (induction d) auto

text \<open>Popping a list of present keys removes exactly them and frees what they held.\<close>

lemma pop_many_ok:
  assumes ok: "kv_ok m X" and d: "distinct ks" and sub: "set ks \<subseteq> set (dkeys (kv_dict tmp m))"
  shows "wp (for_each ks (pop_and_free tmp))
    (\<lambda>_ t. kv_ok t X \<and>
       kv_rest t = kv_rest (kv_dict_update tmp (filter (\<lambda>p. fst p \<notin> set ks)) m) \<and>
       (\<forall>g. kv_avail m g \<le> kv_avail t g))
    (\<lambda>_ _. False) m"
proof (rule wp_for_each [where
      I = "\<lambda>ys t. kv_ok t X \<and> (\<exists>zs. ks = zs @ ys \<and>
        kv_rest t = kv_rest (kv_dict_update tmp (filter (\<lambda>p. fst p \<notin> set zs)) m)) \<and>
        (\<forall>g. kv_avail m g \<le> kv_avail t g)"])
  show "kv_ok m X \<and> (\<exists>zs. ks = zs @ ks \<and>
      kv_rest m = kv_rest (kv_dict_update tmp (filter (\<lambda>p. fst p \<notin> set zs)) m)) \<and>
      (\<forall>g. kv_avail m g \<le> kv_avail m g)"
    using ok by (cases tmp) simp_all
next
  fix k ys t
  assume I: "kv_ok t X \<and> (\<exists>zs. ks = zs @ k # ys \<and>
      kv_rest t = kv_rest (kv_dict_update tmp (filter (\<lambda>p. fst p \<notin> set zs)) m)) \<and>
      (\<forall>g. kv_avail m g \<le> kv_avail t g)"
  then obtain zs where zs: "ks = zs @ k # ys"
    and r: "kv_rest t = kv_rest (kv_dict_update tmp (filter (\<lambda>p. fst p \<notin> set zs)) m)"
    by blast
  have dict: "kv_dict tmp t = filter (\<lambda>p. fst p \<notin> set zs) (kv_dict tmp m)"
    using kv_dict_rest [OF r, of tmp] by simp
  have "k \<in> set (dkeys (kv_dict tmp t))"
    using sub d zs unfolding dict by auto
  then obtain e where e: "map_of (kv_dict tmp t) k = Some e"
    by (meson dkeys_iff not_Some_eq)
  have "kv_rest (kv_dict_update tmp (ddel k) t) =
      kv_rest (kv_dict_update tmp (filter (\<lambda>p. fst p \<notin> set (zs @ [k]))) m)"
    using kv_rest_dict_update [OF r, of tmp "ddel k"] by (simp add: ddel_filter conj_commute)
  with pop_and_free_ok [OF _ e, of X] I zs
  show "wp (pop_and_free tmp k)
      (\<lambda>_ u. kv_ok u X \<and> (\<exists>zs. ks = zs @ ys \<and>
        kv_rest u = kv_rest (kv_dict_update tmp (filter (\<lambda>p. fst p \<notin> set zs)) m)) \<and>
        (\<forall>g. kv_avail m g \<le> kv_avail u g))
      (\<lambda>_ _. False) t"
    by (auto elim!: wp_mono intro!: exI [where x = "zs @ [k]"] simp: le_SucI)
qed auto

text \<open>
  The loop of the methods that fill a list of keys with fresh blocks. It records every block
  at once, so an exception finds all of them in the entries, and the roll-back returns the map
  to what it was. It fails exactly when some group has fewer free blocks than it needs.
\<close>

definition key_need :: "kv_key list \<Rightarrow> nat \<Rightarrow> nat" where
  "key_need ks g = length (filter (\<lambda>k. key_group k = g) ks)"

lemma key_need_simps [simp]:
  "key_need [] g = 0"
  "key_need (k # ks) g = (if key_group k = g then Suc (key_need ks g) else key_need ks g)"
  "key_need (ks @ ks') g = key_need ks g + key_need ks' g"
  by (simp_all add: key_need_def)

definition alloc_loop ::
  "bool \<Rightarrow> ('x \<Rightarrow> kv_key) \<Rightarrow> ('x \<Rightarrow> nat \<Rightarrow> KVMapEntry) \<Rightarrow> 'x list \<Rightarrow> kv_key list kv"
where
  "alloc_loop tmp key mk xs = fold_catch xs []
     (\<lambda>ks x. bnd (allocate_block (key_group (key x))) (\<lambda>b.
        sq (put_entry tmp (key x) (mk x b)) (ret (ks @ [key x]))))
     (rollback_keys tmp)"

lemma map_fst_map2:
  "length bs = length xs \<Longrightarrow> map fst (map2 (\<lambda>x b. (f x, h x b)) xs bs) = map f xs"
  by (induction bs xs rule: list_induct2) auto

lemma rollback_ok:
  assumes ok: "kv_ok t X" "kv_ok m X" and new: "map fst new = ks" "distinct ks"
    and fresh: "set ks \<inter> set (dkeys (kv_dict tmp m)) = {}"
    and r: "kv_rest t = kv_rest (kv_dict_update tmp (\<lambda>d. d @ new) m)"
  shows "wp (rollback_keys tmp ks e) Q
    (\<lambda>e' u. e' = e \<and> kv_ok u X \<and> kv_rest u = kv_rest m \<and> kv_avail u = kv_avail m) t"
proof -
  have dict: "kv_dict tmp t = kv_dict tmp m @ new"
    using kv_dict_rest [OF r, of tmp] by simp
  have "filter (\<lambda>p. fst p \<notin> set ks) (kv_dict tmp m @ new) = kv_dict tmp m"
    using fresh unfolding filter_append new(1) [symmetric]
    by (subst filter_True, force, subst filter_False, auto)
  then have undo: "kv_rest (kv_dict_update tmp (filter (\<lambda>p. fst p \<notin> set ks)) t) = kv_rest m"
    using r dict by (cases tmp) (simp_all add: kv_rest_eq)
  have sub: "set ks \<subseteq> set (dkeys (kv_dict tmp t))"
    using new(1) dict by auto
  show ?thesis
    unfolding rollback_keys_def wp_sq wp_throw
  proof (rule wp_mono [OF pop_many_ok [OF ok(1) new(2) sub]])
    fix x u
    assume u: "kv_ok u X \<and>
      kv_rest u = kv_rest (kv_dict_update tmp (filter (\<lambda>p. fst p \<notin> set ks)) t) \<and>
      (\<forall>g. kv_avail t g \<le> kv_avail u g)"
    with undo have "kv_rest u = kv_rest m" by simp
    with u show "e = e \<and> kv_ok u X \<and> kv_rest u = kv_rest m \<and> kv_avail u = kv_avail m"
      using kv_ok_avail [OF _ ok(2)] by blast
  qed simp
qed

text \<open>The blocks \<open>bs\<close> taken for the elements of \<open>xs\<close> are referenced once each.\<close>

definition sole :: "kv_map \<Rightarrow> (nat \<times> nat) multiset \<Rightarrow> ('x \<Rightarrow> kv_key) \<Rightarrow> 'x list \<Rightarrow> nat list \<Rightarrow> bool" where
  "sole t X key xs bs \<longleftrightarrow>
     (\<forall>(x, b) \<in> set (zip xs bs). count (held t + X) (key_group (key x), b) = 1)"

lemma sole_snoc:
  assumes "sole t X key xs bs" "length bs = length xs"
    and "held v = add_mset (key_group (key x), b) (held t)"
    and "(key_group (key x), b) \<notin># held t + X"
  shows "sole v X key (xs @ [x]) (bs @ [b])"
proof -
  have "count (held v + X) (key_group (key y), c) = 1" if "(y, c) \<in> set (zip xs bs)" for y c
  proof -
    from assms(1) that have one: "count (held t + X) (key_group (key y), c) = 1"
      by (auto simp: sole_def)
    then have "(key_group (key y), c) \<noteq> (key_group (key x), b)"
      using assms(4) by (metis not_in_iff zero_neq_one)
    with one show ?thesis unfolding assms(3) by auto
  qed
  moreover have "count (held v + X) (key_group (key x), b) = 1"
    using assms(3,4) by (simp add: not_in_iff)
  ultimately show ?thesis using assms(2) by (auto simp: sole_def)
qed

lemma held_put:
  "held (kv_dict_update tmp (\<lambda>d. d @ [(k, e)]) m) =
     add_mset (key_group k, ke_physical_block_id e) (held m)"
  by (cases tmp) (simp_all add: held_def)

lemma alloc_loop_ok:
  assumes ok: "kv_ok m X" and d: "distinct (map key xs)"
    and fresh: "set (map key xs) \<inter> set (dkeys (kv_dict tmp m)) = {}"
    and mk: "\<And>x b. ke_physical_block_id (mk x b) = b"
  shows "wp (alloc_loop tmp key mk xs)
    (\<lambda>_ t. kv_ok t X \<and> (\<exists>bs. length bs = length xs \<and> kv_rest t = kv_rest
        (kv_dict_update tmp (\<lambda>d. d @ map2 (\<lambda>x b. (key x, mk x b)) xs bs) m) \<and>
        sole t X key xs bs) \<and>
      (\<forall>g. kv_avail t g + key_need (map key xs) g = kv_avail m g))
    (\<lambda>e t. kv_ok t X \<and> kv_rest t = kv_rest m \<and> kv_avail t = kv_avail m \<and>
      (\<exists>g. kv_avail m g < key_need (map key xs) g)) m"
  unfolding alloc_loop_def
proof (rule wp_fold_catch [where I = "\<lambda>ys ks t. kv_ok t X \<and>
      (\<exists>zs bs. xs = zs @ ys \<and> ks = map key zs \<and> length bs = length zs \<and> kv_rest t = kv_rest
        (kv_dict_update tmp (\<lambda>d. d @ map2 (\<lambda>x b. (key x, mk x b)) zs bs) m) \<and>
        sole t X key zs bs) \<and>
      (\<forall>g. kv_avail t g + key_need ks g = kv_avail m g)"])
  show "kv_ok m X \<and> (\<exists>zs bs. xs = zs @ xs \<and> [] = map key zs \<and> length bs = length zs \<and>
      kv_rest m = kv_rest (kv_dict_update tmp (\<lambda>d. d @ map2 (\<lambda>x b. (key x, mk x b)) zs bs) m) \<and>
        sole m X key zs bs) \<and>
      (\<forall>g. kv_avail m g + key_need [] g = kv_avail m g)"
    using ok by (simp add: sole_def)
next
  fix x ys ks t
  let ?g = "key_group (key x)"
  let ?new = "\<lambda>zs bs. map2 (\<lambda>x b. (key x, mk x b)) zs bs"
  assume I: "kv_ok t X \<and>
      (\<exists>zs bs. xs = zs @ x # ys \<and> ks = map key zs \<and> length bs = length zs \<and> kv_rest t = kv_rest
        (kv_dict_update tmp (\<lambda>d. d @ ?new zs bs) m) \<and> sole t X key zs bs) \<and>
      (\<forall>g. kv_avail t g + key_need ks g = kv_avail m g)"
  then obtain zs bs where xs: "xs = zs @ x # ys" and ks: "ks = map key zs"
    and len: "length bs = length zs"
    and r: "kv_rest t = kv_rest (kv_dict_update tmp (\<lambda>d. d @ ?new zs bs) m)"
    and so: "sole t X key zs bs"
    and okt: "kv_ok t X" and av: "\<And>g. kv_avail t g + key_need ks g = kv_avail m g"
    by blast
  have keys: "map fst (?new zs bs) = ks"
    unfolding ks by (rule map_fst_map2 [OF len])
  have dict: "kv_dict tmp t = kv_dict tmp m @ ?new zs bs"
    using kv_dict_rest [OF r, of tmp] by simp
  have kx: "key x \<notin> set (dkeys (kv_dict tmp t))"
    using d fresh xs unfolding dict map_append keys ks by auto
  have roll: "wp (rollback_keys tmp ks e) Q (\<lambda>_ u. kv_ok u X \<and> kv_rest u = kv_rest m \<and>
      kv_avail u = kv_avail m \<and> (\<exists>g. kv_avail m g < key_need (map key xs) g)) t"
    if "kv_avail t ?g = 0" for e Q
  proof -
    have "kv_avail m ?g < key_need (map key xs) ?g"
      using av [of ?g] that ks xs by simp
    moreover have "distinct ks" "set ks \<inter> set (dkeys (kv_dict tmp m)) = {}"
      using d fresh xs ks by auto
    ultimately show ?thesis
      using rollback_ok [OF okt ok keys _ _ r, where e = e and Q = Q]
      by (auto elim!: wp_mono)
  qed
  have step: "wp (put_entry tmp (key x) (mk x b))
     (\<lambda>_ v. kv_ok v X \<and> kv_rest v = kv_rest (kv_dict_update tmp
          (\<lambda>d. d @ ?new (zs @ [x]) (bs @ [b])) m) \<and> kv_avail v = kv_avail u \<and>
          sole v X key (zs @ [x]) (bs @ [b])) E u"
    if u: "pool_ok u (add_mset (?g, b) (held t + X))" "kv_rest u = kv_rest t"
      and un: "(?g, b) \<notin># held t + X" for b u E
  proof -
    have "kv_ok u (add_mset (key_group (key x), ke_physical_block_id (mk x b)) X)"
      using kv_ok_transfer [OF okt u(2)] u(1) mk by simp
    moreover have "key x \<notin> set (dkeys (kv_dict tmp u))"
      using kx kv_dict_rest [OF u(2)] by simp
    ultimately show ?thesis
      using kv_rest_dict_update [of u "kv_dict_update tmp (\<lambda>d. d @ ?new zs bs) m" tmp
          "\<lambda>d. d @ [(key x, mk x b)]"] u(2) r len
        sole_snoc [OF so len _ un] held_rest [OF u(2)] mk
      by (auto intro!: wp_mono [OF put_entry_fresh] simp: held_put)
  qed
  show "wp (bnd (allocate_block ?g)
             (\<lambda>b. sq (put_entry tmp (key x) (mk x b)) (ret (ks @ [key x]))))
     (\<lambda>ks u. kv_ok u X \<and>
      (\<exists>zs bs. xs = zs @ ys \<and> ks = map key zs \<and> length bs = length zs \<and> kv_rest u = kv_rest
        (kv_dict_update tmp (\<lambda>d. d @ ?new zs bs) m) \<and> sole u X key zs bs) \<and>
      (\<forall>g. kv_avail u g + key_need ks g = kv_avail m g))
     (\<lambda>e. wp (rollback_keys tmp ks e)
       (\<lambda>_ t. kv_ok t X \<and> (\<exists>bs. length bs = length xs \<and> kv_rest t = kv_rest
          (kv_dict_update tmp (\<lambda>d. d @ ?new xs bs) m) \<and> sole t X key xs bs) \<and>
        (\<forall>g. kv_avail t g + key_need (map key xs) g = kv_avail m g))
       (\<lambda>e t. kv_ok t X \<and> kv_rest t = kv_rest m \<and> kv_avail t = kv_avail m \<and>
         (\<exists>g. kv_avail m g < key_need (map key xs) g))) t"
    unfolding wp_bnd wp_sq wp_ret
  proof (rule wp_mono [OF kvp.alloc_cases [OF kv_ok_pool [OF okt]]])
    fix b u
    assume a: "pool_ok u (add_mset (?g, b) (held t + X)) \<and> (?g, b) \<notin># held t + X \<and>
      kv_rest u = kv_rest t \<and> 0 < kv_avail t ?g \<and> kv_avail u = (kv_avail t)(?g := kv_avail t ?g - 1)"
    then have av': "kv_avail u g + key_need (ks @ [key x]) g = kv_avail m g" for g
      using av [of g] by auto
    show "wp (put_entry tmp (key x) (mk x b))
      (\<lambda>_ u. kv_ok u X \<and>
      (\<exists>zs bs. xs = zs @ ys \<and> ks @ [key x] = map key zs \<and> length bs = length zs \<and>
        kv_rest u = kv_rest (kv_dict_update tmp (\<lambda>d. d @ ?new zs bs) m) \<and> sole u X key zs bs) \<and>
      (\<forall>g. kv_avail u g + key_need (ks @ [key x]) g = kv_avail m g))
      (\<lambda>e. wp (rollback_keys tmp ks e)
       (\<lambda>_ t. kv_ok t X \<and> (\<exists>bs. length bs = length xs \<and> kv_rest t = kv_rest
          (kv_dict_update tmp (\<lambda>d. d @ ?new xs bs) m) \<and> sole t X key xs bs) \<and>
        (\<forall>g. kv_avail t g + key_need (map key xs) g = kv_avail m g))
       (\<lambda>e t. kv_ok t X \<and> kv_rest t = kv_rest m \<and> kv_avail t = kv_avail m \<and>
         (\<exists>g. kv_avail m g < key_need (map key xs) g))) u"
    proof (rule wp_mono [OF step])
      show "pool_ok u (add_mset (?g, b) (held t + X))" "kv_rest u = kv_rest t"
        "(?g, b) \<notin># held t + X"
        using a by auto
    next
      fix y v
      assume v: "kv_ok v X \<and> kv_rest v = kv_rest (kv_dict_update tmp
          (\<lambda>d. d @ ?new (zs @ [x]) (bs @ [b])) m) \<and> kv_avail v = kv_avail u \<and>
          sole v X key (zs @ [x]) (bs @ [b])"
      show "kv_ok v X \<and> (\<exists>zs bs. xs = zs @ ys \<and> ks @ [key x] = map key zs \<and>
        length bs = length zs \<and> kv_rest v = kv_rest (kv_dict_update tmp (\<lambda>d. d @ ?new zs bs) m) \<and>
        sole v X key zs bs) \<and>
        (\<forall>g. kv_avail v g + key_need (ks @ [key x]) g = kv_avail m g)"
        using v xs ks len av'
        by (intro conjI exI [where x = "zs @ [x]"] exI [where x = "bs @ [b]"]) auto
    qed auto
  next
    fix e u
    assume "kv_avail t ?g = 0 \<and> u = t"
    then show "wp (rollback_keys tmp ks e)
       (\<lambda>_ t. kv_ok t X \<and> (\<exists>bs. length bs = length xs \<and> kv_rest t = kv_rest
          (kv_dict_update tmp (\<lambda>d. d @ ?new xs bs) m) \<and> sole t X key xs bs) \<and>
        (\<forall>g. kv_avail t g + key_need (map key xs) g = kv_avail m g))
       (\<lambda>e t. kv_ok t X \<and> kv_rest t = kv_rest m \<and> kv_avail t = kv_avail m \<and>
         (\<exists>g. kv_avail m g < key_need (map key xs) g)) u"
      using roll by simp
  qed
qed auto

end
