(* ===== verification/Ellm_Cache_Ops.thy ===== *)
theory Ellm_Cache_Ops
  imports Ellm_Cache_Inv
begin

text \<open>
  The sequence level of the KV map: what a sequence's length, evicted prefix, retained and
  temporary entries must look like together, and the specification of every method against it.
\<close>

section \<open>The view of one sequence\<close>

definition kvL :: "kv_map \<Rightarrow> nat \<Rightarrow> nat option" where
  "kvL m s = map_of (kv_sequence_lengths m) s"

definition kvP :: "kv_map \<Rightarrow> nat \<Rightarrow> nat option" where
  "kvP m s = map_of (kv_evicted_prefix_blocks m) s"

definition kvE :: "bool \<Rightarrow> kv_map \<Rightarrow> nat \<Rightarrow> nat \<Rightarrow> nat \<Rightarrow> KVMapEntry option" where
  "kvE tmp m s l g = map_of (kv_dict tmp m) (s, l, g)"

definition mk_entry :: "nat \<Rightarrow> nat \<Rightarrow> nat \<Rightarrow> nat \<Rightarrow> nat \<Rightarrow> nat \<Rightarrow> nat \<Rightarrow> bool \<Rightarrow> KVMapEntry" where
  "mk_entry bs lgs s l g filled b tmp =
     \<lparr>ke_seq_id = s, ke_token_start = l * bs, ke_layer_start = g * lgs,
      ke_logical_block_id = l, ke_physical_block_id = b, ke_num_filled = filled,
      ke_temporary = tmp\<rparr>"

lemma mk_entry_phys [simp]:
  "ke_physical_block_id (mk_entry bs lgs s l g f b tmp) = b"
  "ke_logical_block_id (mk_entry bs lgs s l g f b tmp) = l"
  "ke_num_filled (mk_entry bs lgs s l g f b tmp) = f"
  by (simp_all add: mk_entry_def)

text \<open>
  A sequence of \<open>n\<close> tokens whose first \<open>p\<close> blocks are evicted retains the blocks
  \<open>p \<le> l < ceil (n / bs)\<close> in every layer group, and its temporary entries are none or the
  blocks \<open>l < p\<close> of exactly one group.
\<close>

definition view_ok ::
  "nat \<Rightarrow> nat \<Rightarrow> nat \<Rightarrow> nat \<Rightarrow> nat option \<Rightarrow> nat option \<Rightarrow>
   (nat \<Rightarrow> nat \<Rightarrow> KVMapEntry option) \<Rightarrow> (nat \<Rightarrow> nat \<Rightarrow> KVMapEntry option) \<Rightarrow> bool"
where
  "view_ok G bs lgs s L P En Tm \<longleftrightarrow>
     (case (L, P) of
        (None, None) \<Rightarrow> (\<forall>l g. En l g = None \<and> Tm l g = None)
      | (Some n, Some p) \<Rightarrow>
          0 < n \<and> p \<le> ceil_div n bs \<and>
          (\<forall>l g. En l g \<noteq> None \<longleftrightarrow> p \<le> l \<and> l < ceil_div n bs \<and> g < G) \<and>
          (\<forall>l g e. En l g = Some e \<longrightarrow>
             e = mk_entry bs lgs s l g (min bs (n - l * bs)) (ke_physical_block_id e) False) \<and>
          ((\<forall>l g. Tm l g = None) \<or> (\<exists>h < G. \<forall>l g. Tm l g \<noteq> None \<longleftrightarrow> g = h \<and> l < p)) \<and>
          (\<forall>l g e. Tm l g = Some e \<longrightarrow>
             e = mk_entry bs lgs s l g bs (ke_physical_block_id e) True)
      | _ \<Rightarrow> False)"

definition seqs_ok :: "kv_map \<Rightarrow> bool" where
  "seqs_ok m \<longleftrightarrow> 0 < kv_block_size m \<and> 0 < kv_layer_group_size m \<and> 0 < kv_num_layer_groups m \<and>
     (\<forall>s. view_ok (kv_num_layer_groups m) (kv_block_size m) (kv_layer_group_size m) s
        (kvL m s) (kvP m s) (kvE False m s) (kvE True m s))"

definition kv_inv :: "kv_map \<Rightarrow> bool" where
  "kv_inv m \<longleftrightarrow> kv_ok m {#} \<and> seqs_ok m"

definition kv_consts :: "kv_map \<Rightarrow> nat \<times> nat \<times> nat \<times> nat \<times> nat" where
  "kv_consts m = (kv_num_layers m, kv_block_size m, kv_num_physical_blocks m,
     kv_layer_group_size m, kv_num_layer_groups m)"

text \<open>Every sequence but \<open>s\<close> is untouched.\<close>

definition kv_frame :: "nat \<Rightarrow> kv_map \<Rightarrow> kv_map \<Rightarrow> bool" where
  "kv_frame s m t \<longleftrightarrow> kv_consts t = kv_consts m \<and>
     (\<forall>s'. s' \<noteq> s \<longrightarrow> kvL t s' = kvL m s' \<and> kvP t s' = kvP m s' \<and>
        kvE False t s' = kvE False m s' \<and> kvE True t s' = kvE True m s')"

lemma kv_consts_eq:
  "kv_consts t = kv_consts m \<longleftrightarrow> kv_num_layers t = kv_num_layers m \<and>
     kv_block_size t = kv_block_size m \<and> kv_num_physical_blocks t = kv_num_physical_blocks m \<and>
     kv_layer_group_size t = kv_layer_group_size m \<and>
     kv_num_layer_groups t = kv_num_layer_groups m"
  by (auto simp: kv_consts_def)

lemma rest_view:
  assumes "kv_rest t = kv_rest m"
  shows "kv_consts t = kv_consts m" "kvL t = kvL m" "kvP t = kvP m" "kvE tmp t = kvE tmp m"
    "kv_frame s m t"
  using assms
  by (auto simp: kv_rest_eq kv_consts_def kvL_def kvP_def kvE_def fun_eq_iff kv_dict_def
      kv_frame_def)

lemma seqs_ok_rest:
  assumes "kv_rest t = kv_rest m"
  shows "seqs_ok t = seqs_ok m"
  using rest_view(1) [OF assms]
  by (simp add: seqs_ok_def kv_consts_eq rest_view(2-4) [OF assms])

lemma kv_inv_rest: "kv_inv m \<Longrightarrow> kv_ok t {#} \<Longrightarrow> kv_rest t = kv_rest m \<Longrightarrow> kv_inv t"
  using seqs_ok_rest [of t m] by (simp add: kv_inv_def)

lemma seqs_okD:
  assumes "seqs_ok m"
  shows "0 < kv_block_size m" "0 < kv_layer_group_size m" "0 < kv_num_layer_groups m"
    and "view_ok (kv_num_layer_groups m) (kv_block_size m) (kv_layer_group_size m) s
        (kvL m s) (kvP m s) (kvE False m s) (kvE True m s)"
  using assms by (auto simp: seqs_ok_def)

lemma seqs_ok_frame:
  assumes "seqs_ok m" "kv_frame s m t"
    and "view_ok (kv_num_layer_groups m) (kv_block_size m) (kv_layer_group_size m) s
        (kvL t s) (kvP t s) (kvE False t s) (kvE True t s)"
  shows "seqs_ok t"
  using assms unfolding seqs_ok_def kv_frame_def kv_consts_eq by metis

lemma kv_frame_refl [simp]: "kv_frame s m m"
  by (simp add: kv_frame_def)

lemma kv_frame_trans: "kv_frame s m t \<Longrightarrow> kv_frame s t u \<Longrightarrow> kv_frame s m u"
  by (auto simp: kv_frame_def)

text \<open>What the view of a sequence says, in usable form.\<close>

lemma view_cases:
  assumes "seqs_ok m"
  obtains (absent) "kvL m s = None" "kvP m s = None" "\<And>tmp l g. kvE tmp m s l g = None"
  | (present) n p where "kvL m s = Some n" "kvP m s = Some p" "0 < n"
      "p \<le> ceil_div n (kv_block_size m)"
      "\<And>l g. kvE False m s l g \<noteq> None \<longleftrightarrow>
         p \<le> l \<and> l < ceil_div n (kv_block_size m) \<and> g < kv_num_layer_groups m"
      "\<And>l g e. kvE False m s l g = Some e \<Longrightarrow>
         e = mk_entry (kv_block_size m) (kv_layer_group_size m) s l g
           (min (kv_block_size m) (n - l * kv_block_size m)) (ke_physical_block_id e) False"
      "(\<forall>l g. kvE True m s l g = None) \<or>
         (\<exists>h < kv_num_layer_groups m. \<forall>l g. kvE True m s l g \<noteq> None \<longleftrightarrow> g = h \<and> l < p)"
      "\<And>l g e. kvE True m s l g = Some e \<Longrightarrow>
         e = mk_entry (kv_block_size m) (kv_layer_group_size m) s l g
           (kv_block_size m) (ke_physical_block_id e) True"
proof (cases "kvL m s")
  case None
  with seqs_okD(4) [OF assms, of s] have P: "kvP m s = None"
    and E: "\<forall>l g. kvE False m s l g = None \<and> kvE True m s l g = None"
    by (auto simp: view_ok_def split: option.splits)
  have "kvE tmp m s l g = None" for tmp l g
    using E by (cases tmp) auto
  with None P show ?thesis by (rule absent)
next
  case (Some n)
  with seqs_okD(4) [OF assms, of s] obtain p where "kvP m s = Some p"
    by (auto simp: view_ok_def split: option.splits)
  with Some seqs_okD(4) [OF assms, of s] show ?thesis
    by (intro present [of n p]) (auto simp: view_ok_def)
qed

lemma view_present:
  assumes "seqs_ok m" "kvL m s = Some n" "kvP m s = Some p"
  shows "0 < n" "p \<le> ceil_div n (kv_block_size m)"
    and "kvE False m s l g = None \<longleftrightarrow>
      \<not> (p \<le> l \<and> l < ceil_div n (kv_block_size m) \<and> g < kv_num_layer_groups m)"
    and "kvE False m s l g = Some e \<Longrightarrow>
      mk_entry (kv_block_size m) (kv_layer_group_size m) s l g
        (min (kv_block_size m) (n - l * kv_block_size m)) (ke_physical_block_id e) False = e"
    and "(\<forall>l g. kvE True m s l g = None) \<or>
      (\<exists>h < kv_num_layer_groups m. \<forall>l g. kvE True m s l g \<noteq> None \<longleftrightarrow> g = h \<and> l < p)"
    and "kvE True m s l g = Some e \<Longrightarrow>
      mk_entry (kv_block_size m) (kv_layer_group_size m) s l g (kv_block_size m)
        (ke_physical_block_id e) True = e"
proof -
  let ?bs = "kv_block_size m" and ?lgs = "kv_layer_group_size m" and ?G = "kv_num_layer_groups m"
  note V = seqs_okD(4) [OF assms(1), of s, unfolded view_ok_def assms(2,3) prod.case option.case]
  from V show "0 < n" by (elim conjE)
  from V show "p \<le> ceil_div n ?bs" by (elim conjE)
  from V have "\<forall>l g. kvE False m s l g \<noteq> None \<longleftrightarrow> p \<le> l \<and> l < ceil_div n ?bs \<and> g < ?G"
    by (elim conjE)
  then have "kvE False m s l g \<noteq> None \<longleftrightarrow> p \<le> l \<and> l < ceil_div n ?bs \<and> g < ?G"
    by (elim allE)
  then show "kvE False m s l g = None \<longleftrightarrow> \<not> (p \<le> l \<and> l < ceil_div n ?bs \<and> g < ?G)"
    by argo
  from V show "(\<forall>l g. kvE True m s l g = None) \<or>
      (\<exists>h < ?G. \<forall>l g. kvE True m s l g \<noteq> None \<longleftrightarrow> g = h \<and> l < p)"
    by (elim conjE)
  from V have "\<forall>l g e. kvE False m s l g = Some e \<longrightarrow>
      e = mk_entry ?bs ?lgs s l g (min ?bs (n - l * ?bs)) (ke_physical_block_id e) False"
    by (elim conjE)
  then show "mk_entry ?bs ?lgs s l g (min ?bs (n - l * ?bs)) (ke_physical_block_id e) False = e"
    if "kvE False m s l g = Some e" using that by fastforce
  from V have "\<forall>l g e. kvE True m s l g = Some e \<longrightarrow>
      e = mk_entry ?bs ?lgs s l g ?bs (ke_physical_block_id e) True"
    by (elim conjE)
  then show "mk_entry ?bs ?lgs s l g ?bs (ke_physical_block_id e) True = e"
    if "kvE True m s l g = Some e" using that by fastforce
qed

lemma view_okI:
  assumes "0 < n" "p \<le> ceil_div n bs"
    and E: "\<And>l g. En l g = None \<longleftrightarrow> \<not> (p \<le> l \<and> l < ceil_div n bs \<and> g < G)"
    and e: "\<And>l g e. En l g = Some e \<Longrightarrow>
      mk_entry bs lgs s l g (min bs (n - l * bs)) (ke_physical_block_id e) False = e"
    and T: "(\<forall>l g. Tm l g = None) \<or> (\<exists>h < G. \<forall>l g. Tm l g \<noteq> None \<longleftrightarrow> g = h \<and> l < p)"
    and t: "\<And>l g e. Tm l g = Some e \<Longrightarrow> mk_entry bs lgs s l g bs (ke_physical_block_id e) True = e"
  shows "view_ok G bs lgs s (Some n) (Some p) En Tm"
proof -
  have "\<forall>l g. En l g \<noteq> None \<longleftrightarrow> p \<le> l \<and> l < ceil_div n bs \<and> g < G"
    using E by metis
  moreover have "\<forall>l g e. En l g = Some e \<longrightarrow>
      e = mk_entry bs lgs s l g (min bs (n - l * bs)) (ke_physical_block_id e) False"
    using e by (metis (no_types))
  moreover have "\<forall>l g e. Tm l g = Some e \<longrightarrow>
      e = mk_entry bs lgs s l g bs (ke_physical_block_id e) True"
    using t by (metis (no_types))
  ultimately show ?thesis
    unfolding view_ok_def prod.case option.case using assms(1,2) T by (intro conjI) assumption+
qed

lemma kvL_None_iff: "seqs_ok m \<Longrightarrow> kvL m s = None \<longleftrightarrow> kvP m s = None"
  by (rule view_cases [of m s]) auto

section \<open>The constructor\<close>

lemma TokenLayerKVMap_init_inv:
  assumes "TokenLayerKVMap_init nl bs np lgs = Inr m"
  shows "kv_inv m"
proof -
  have pos: "0 < nl" "0 < bs" "0 < np" "0 < lgs"
    and m: "kv_block_size m = nat bs" "kv_layer_group_size m = nat lgs"
      "kv_num_physical_blocks m = nat np" "kv_entries m = []" "kv_temporary_entries m = []"
      "kv_sequence_lengths m = []" "kv_evicted_prefix_blocks m = []"
      "kv_num_layer_groups m = ceil_div (nat nl) (nat lgs)"
      "kv_free_blocks m = replicate (kv_num_layer_groups m) [0..<nat np]"
      "kv_block_ref_counts m = replicate (kv_num_layer_groups m) (replicate (nat np) 0)"
    using assms by (auto simp: TokenLayerKVMap_init_def Let_def split: if_splits)
  have "0 < kv_num_layer_groups m"
    using pos m by (simp add: ceil_div_pos)
  then have "seqs_ok m"
    using pos m by (simp add: seqs_ok_def view_ok_def kvL_def kvP_def kvE_def kv_dict_def)
  moreover have "kv_ok m {#}"
    using m by (auto simp: kv_ok_def held_def pool_ok_def)
  ultimately show ?thesis by (simp add: kv_inv_def)
qed

section \<open>Allocation\<close>

lemma kvE_dict_update:
  assumes "kv_rest t = kv_rest (kv_dict_update tmp f m)"
  shows "kv_consts t = kv_consts m" "kvL t = kvL m" "kvP t = kvP m"
    "kvE (\<not> tmp) t = kvE (\<not> tmp) m"
    "kvE tmp t s l g = map_of (f (kv_dict tmp m)) (s, l, g)"
  using assms
  by (cases tmp; simp add: kv_rest_eq kv_consts_def kvL_def kvP_def kvE_def fun_eq_iff)+

lemma kv_frameI:
  assumes "kv_consts t = kv_consts m" "kvL t = kvL m" "kvP t = kvP m"
    "kvE (\<not> tmp) t = kvE (\<not> tmp) m"
    "\<And>s' l g. s' \<noteq> s \<Longrightarrow> kvE tmp t s' l g = kvE tmp m s' l g"
  shows "kv_frame s m t"
  using assms by (cases tmp) (auto simp: kv_frame_def fun_eq_iff)

lemma map_of_map2:
  assumes "length bs = length xs" "distinct (map key xs)"
  shows "k \<notin> key ` set xs \<Longrightarrow> map_of (map2 (\<lambda>x b. (key x, mk x b)) xs bs) k = None"
    and "x \<in> set xs \<Longrightarrow> \<exists>b. (x, b) \<in> set (zip xs bs) \<and>
      map_of (map2 (\<lambda>x b. (key x, mk x b)) xs bs) (key x) = Some (mk x b)"
  using assms by (induction bs xs rule: list_induct2) (auto, metis imageI)

lemma alloc_loop_view:
  assumes inv: "kv_inv m" and key: "\<And>x. key x = (s, kl x, kg x)"
    and d: "distinct (map key xs)"
    and fresh: "\<And>x. x \<in> set xs \<Longrightarrow> kvE tmp m s (kl x) (kg x) = None"
    and mk: "\<And>x b. ke_physical_block_id (mk x b) = b"
  shows "wp (alloc_loop tmp key mk xs)
    (\<lambda>_ t. kv_ok t {#} \<and> kv_frame s m t \<and> kvL t = kvL m \<and> kvP t = kvP m \<and>
       kvE (\<not> tmp) t = kvE (\<not> tmp) m \<and>
       (\<forall>l g. (\<forall>x \<in> set xs. (l, g) \<noteq> (kl x, kg x)) \<longrightarrow> kvE tmp t s l g = kvE tmp m s l g) \<and>
       (\<forall>x \<in> set xs. \<exists>b. kvE tmp t s (kl x) (kg x) = Some (mk x b) \<and>
          count (held t) (kg x, b) = 1) \<and>
       (\<exists>new. map fst new = map key xs \<and>
          kv_rest t = kv_rest (kv_dict_update tmp (\<lambda>d. d @ new) m)) \<and>
       (\<forall>g. kv_avail t g + key_need (map key xs) g = kv_avail m g))
    (\<lambda>_ t. kv_inv t \<and> kv_rest t = kv_rest m \<and> kv_avail t = kv_avail m \<and>
       (\<exists>g. kv_avail m g < key_need (map key xs) g)) m"
proof -
  have ok: "kv_ok m {#}" using inv by (simp add: kv_inv_def)
  have disj: "set (map key xs) \<inter> set (dkeys (kv_dict tmp m)) = {}"
    using fresh key by (fastforce simp: kvE_def dkeys_image)
  show ?thesis
  proof (rule wp_mono [OF alloc_loop_ok [OF ok d disj mk]])
    fix ks t
    assume a: "kv_ok t {#} \<and> (\<exists>bs. length bs = length xs \<and> kv_rest t = kv_rest
        (kv_dict_update tmp (\<lambda>d. d @ map2 (\<lambda>x b. (key x, mk x b)) xs bs) m) \<and>
        sole t {#} key xs bs) \<and>
      (\<forall>g. kv_avail t g + key_need (map key xs) g = kv_avail m g)"
    then obtain bs where len: "length bs = length xs"
      and r: "kv_rest t = kv_rest
        (kv_dict_update tmp (\<lambda>d. d @ map2 (\<lambda>x b. (key x, mk x b)) xs bs) m)"
      and so: "sole t {#} key xs bs"
      by blast
    note V = kvE_dict_update [OF r]
    have out: "kvE tmp t s' l g = kvE tmp m s' l g" if "(s', l, g) \<notin> key ` set xs" for s' l g
      using map_of_map2(1) [OF len d that, of mk] V(5) [of s' l g]
      by (simp add: kvE_def map_add_def split: option.splits)
    have new: "\<exists>b. kvE tmp t s (kl x) (kg x) = Some (mk x b) \<and> count (held t) (kg x, b) = 1"
      if x: "x \<in> set xs" for x
    proof -
      from map_of_map2(2) [OF len d x] obtain b where b: "(x, b) \<in> set (zip xs bs)"
        "map_of (map2 (\<lambda>x b. (key x, mk x b)) xs bs) (key x) = Some (mk x b)" by blast
      then have "count (held t) (kg x, b) = 1" using so key [of x] by (auto simp: sole_def)
      with b(2) V(5) [of s "kl x" "kg x"] key [of x] fresh [OF x] show ?thesis
        by (auto simp: kvE_def map_add_def)
    qed
    have "kv_frame s m t"
      by (rule kv_frameI [OF V(1-4)]) (use out key in auto)
    moreover have "\<exists>new. map fst new = map key xs \<and>
        kv_rest t = kv_rest (kv_dict_update tmp (\<lambda>d. d @ new) m)"
      using r map_fst_map2 [OF len, of key mk] by blast
    ultimately show "kv_ok t {#} \<and> kv_frame s m t \<and> kvL t = kvL m \<and> kvP t = kvP m \<and>
       kvE (\<not> tmp) t = kvE (\<not> tmp) m \<and>
       (\<forall>l g. (\<forall>x \<in> set xs. (l, g) \<noteq> (kl x, kg x)) \<longrightarrow> kvE tmp t s l g = kvE tmp m s l g) \<and>
       (\<forall>x \<in> set xs. \<exists>b. kvE tmp t s (kl x) (kg x) = Some (mk x b) \<and>
          count (held t) (kg x, b) = 1) \<and>
       (\<exists>new. map fst new = map key xs \<and>
          kv_rest t = kv_rest (kv_dict_update tmp (\<lambda>d. d @ new) m)) \<and>
       (\<forall>g. kv_avail t g + key_need (map key xs) g = kv_avail m g)"
      using a V out new key by (simp add: image_iff)
  qed (use inv kv_inv_rest in blast)
qed

lemma count_list_upt: "count_list [a..<b] i = (if a \<le> i \<and> i < b then 1 else 0)"
  by (induction b) auto

lemma key_need_product:
  "key_need (map (\<lambda>(g, l). (s, l, g)) (List.product gs ls)) g = count_list gs g * length ls"
proof (induction gs)
  case (Cons h gs)
  have "key_need (map (\<lambda>(g, l). (s, l, g)) (map (Pair h) ls)) g = (if h = g then length ls else 0)"
    by (induction ls) auto
  with Cons show ?case by simp
qed simp

text \<open>Bookkeeping of \<^const>\<open>set_length\<close> and \<^const>\<open>set_prefix_blocks\<close>.\<close>

lemma set_LP_view [simp]:
  "kvL (m\<lparr>kv_sequence_lengths := dset s n (kv_sequence_lengths t)\<rparr>) = (kvL t)(s \<mapsto> n)"
  "kvL (m\<lparr>kv_sequence_lengths := ddel s (kv_sequence_lengths t)\<rparr>) = (kvL t)(s := None)"
  "kvP (m\<lparr>kv_sequence_lengths := d\<rparr>) = kvP m"
  "kvE tmp (m\<lparr>kv_sequence_lengths := d\<rparr>) = kvE tmp m"
  "kv_consts (m\<lparr>kv_sequence_lengths := d\<rparr>) = kv_consts m"
  "kv_avail (m\<lparr>kv_sequence_lengths := d\<rparr>) = kv_avail m"
  "kv_ok (m\<lparr>kv_sequence_lengths := d\<rparr>) X = kv_ok m X"
  "kvP (m\<lparr>kv_evicted_prefix_blocks := dset s n (kv_evicted_prefix_blocks t)\<rparr>) = (kvP t)(s \<mapsto> n)"
  "kvP (m\<lparr>kv_evicted_prefix_blocks := ddel s (kv_evicted_prefix_blocks t)\<rparr>) = (kvP t)(s := None)"
  "kvL (m\<lparr>kv_evicted_prefix_blocks := d\<rparr>) = kvL m"
  "kvE tmp (m\<lparr>kv_evicted_prefix_blocks := d\<rparr>) = kvE tmp m"
  "kv_consts (m\<lparr>kv_evicted_prefix_blocks := d\<rparr>) = kv_consts m"
  "kv_avail (m\<lparr>kv_evicted_prefix_blocks := d\<rparr>) = kv_avail m"
  "kv_ok (m\<lparr>kv_evicted_prefix_blocks := d\<rparr>) X = kv_ok m X"
  by (auto simp: kvL_def kvP_def kvE_def kv_dict_def kv_consts_def kv_avail_def kv_ok_def
      held_def pool_ok_def fun_eq_iff)

definition alloc_guards :: "kv_map \<Rightarrow> nat \<Rightarrow> int \<Rightarrow> int \<Rightarrow> bool" where
  "alloc_guards m s n e \<longleftrightarrow> kvL m s = None \<and> 0 < n \<and> 0 \<le> e \<and> e mod int (kv_block_size m) = 0 \<and>
     nat e div kv_block_size m \<le> ceil_div (nat n) (kv_block_size m)"

text \<open>Blocks a new sequence needs in every layer group.\<close>

definition alloc_need :: "kv_map \<Rightarrow> int \<Rightarrow> int \<Rightarrow> nat" where
  "alloc_need m n e = ceil_div (nat n) (kv_block_size m) - nat e div kv_block_size m"

lemma allocate_ok:
  assumes inv: "kv_inv m"
  shows "wp (allocate_sequence_with_evicted_prefix s n e)
    (\<lambda>_ t. kv_inv t \<and> kv_frame s m t \<and> alloc_guards m s n e \<and> kvL t s = Some (nat n) \<and>
       kvP t s = Some (nat e div kv_block_size m) \<and> (\<forall>l g. kvE True t s l g = None) \<and>
       (\<forall>g < kv_num_layer_groups m. kv_avail t g + alloc_need m n e = kv_avail m g))
    (\<lambda>_ t. kv_inv t \<and> kv_rest t = kv_rest m \<and> kv_avail t = kv_avail m \<and>
       (alloc_guards m s n e \<longrightarrow>
          (\<exists>g < kv_num_layer_groups m. kv_avail m g < alloc_need m n e))) m"
proof (cases "alloc_guards m s n e")
  case False
  then show ?thesis
    using inv
    by (auto simp: allocate_sequence_with_evicted_prefix_def wp_simps alloc_guards_def kvL_def
        dkeys_image num_logical_blocks_def Let_def)
next
  case True
  let ?bs = "kv_block_size m" and ?G = "kv_num_layer_groups m" and ?lgs = "kv_layer_group_size m"
  let ?p = "nat e div ?bs" and ?b = "ceil_div (nat n) ?bs"
  let ?key = "\<lambda>(g, l). (s, l, g) :: kv_key"
  let ?mk = "\<lambda>x b. mk_entry ?bs ?lgs s (snd x) (fst x) (min ?bs (nat n - snd x * ?bs)) b False"
  let ?xs = "List.product [0..<?G] [?p..<?b]"
  have seqs: "seqs_ok m" using inv by (simp add: kv_inv_def)
  have absent: "kvE tmp m s l g = None" for tmp l g
    using True by (cases rule: view_cases [OF seqs, of s]) (auto simp: alloc_guards_def)
  have need: "key_need (map ?key ?xs) g = (if g < ?G then alloc_need m n e else 0)" for g
    using key_need_product [of s "[0..<?G]" "[?p..<?b]" g]
    by (simp add: count_list_upt alloc_need_def)
  have eq: "run_eq m (allocate_sequence_with_evicted_prefix s n e)
    (bnd (alloc_loop False ?key ?mk ?xs) (\<lambda>_.
     sq (set_length s (nat n)) (set_prefix_blocks s ?p)))"
    using True
    by (simp add: run_eq_def allocate_sequence_with_evicted_prefix_def run_simps alloc_guards_def kvL_def
        dkeys_image num_logical_blocks_def Let_def alloc_loop_def mk_entry_def num_filled_def
        case_prod_unfold)
  have "inj_on ?key (set ?xs)" by (auto simp: inj_on_def)
  then have d: "distinct (map ?key ?xs)"
    by (simp add: distinct_map distinct_product)
  show ?thesis
    unfolding wp_run_eq [OF eq] wp_simps set_length_def set_prefix_blocks_def
  proof (rule wp_mono [OF alloc_loop_view [OF inv, where kl = snd and kg = fst]])
    fix ks t
    assume a: "kv_ok t {#} \<and> kv_frame s m t \<and> kvL t = kvL m \<and> kvP t = kvP m \<and>
       kvE (\<not> False) t = kvE (\<not> False) m \<and>
       (\<forall>l g. (\<forall>x \<in> set ?xs. (l, g) \<noteq> (snd x, fst x)) \<longrightarrow> kvE False t s l g = kvE False m s l g) \<and>
       (\<forall>x \<in> set ?xs. \<exists>b. kvE False t s (snd x) (fst x) = Some (?mk x b) \<and>
          count (held t) (fst x, b) = 1) \<and>
       (\<exists>new. map fst new = map ?key ?xs \<and>
          kv_rest t = kv_rest (kv_dict_update False (\<lambda>d. d @ new) m)) \<and>
       (\<forall>g. kv_avail t g + key_need (map ?key ?xs) g = kv_avail m g)"
    let ?u = "t\<lparr>kv_sequence_lengths := dset s (nat n) (kv_sequence_lengths t)\<rparr>"
    let ?v = "?u\<lparr>kv_evicted_prefix_blocks := dset s ?p (kv_evicted_prefix_blocks ?u)\<rparr>"
    have av: "kv_avail t g + alloc_need m n e = kv_avail m g" if "g < ?G" for g
    proof -
      from a have "kv_avail t g + key_need (map ?key ?xs) g = kv_avail m g" by (elim conjE allE)
      with need [of g] that show ?thesis by simp
    qed
    have fr: "kv_frame s m ?v"
      using a by (simp add: kv_frame_def)
    have E: "(kvE False t s l g \<noteq> None \<longleftrightarrow> ?p \<le> l \<and> l < ?b \<and> g < ?G) \<and>
      (\<forall>x. kvE False t s l g = Some x \<longrightarrow>
        x = mk_entry ?bs ?lgs s l g (min ?bs (nat n - l * ?bs)) (ke_physical_block_id x) False)"
      for l g
    proof (cases "(g, l) \<in> set ?xs")
      case True
      with a obtain b where "kvE False t s l g = Some (?mk (g, l) b)" by fastforce
      with True show ?thesis by auto
    next
      case False
      then have "\<forall>x \<in> set ?xs. (l, g) \<noteq> (snd x, fst x)" by auto
      with a absent have "kvE False t s l g = None" by metis
      with False show ?thesis by auto
    qed
    have "view_ok ?G ?bs ?lgs s (kvL ?v s) (kvP ?v s) (kvE False ?v s) (kvE True ?v s)"
      unfolding view_ok_def using E True a absent by (simp add: alloc_guards_def)
    then have "seqs_ok ?v" by (rule seqs_ok_frame [OF seqs fr])
    then show "kv_inv ?v \<and> kv_frame s m ?v \<and> alloc_guards m s n e \<and> kvL ?v s = Some (nat n) \<and>
       kvP ?v s = Some ?p \<and> (\<forall>l g. kvE True ?v s l g = None) \<and>
       (\<forall>g < ?G. kv_avail ?v g + alloc_need m n e = kv_avail m g)"
      using a fr True absent av by (simp add: kv_inv_def)
  next
    fix er t
    assume "kv_inv t \<and> kv_rest t = kv_rest m \<and> kv_avail t = kv_avail m \<and>
       (\<exists>g. kv_avail m g < key_need (map ?key ?xs) g)"
    then show "kv_inv t \<and> kv_rest t = kv_rest m \<and> kv_avail t = kv_avail m \<and>
       (alloc_guards m s n e \<longrightarrow> (\<exists>g < ?G. kv_avail m g < alloc_need m n e))"
      using need by (auto split: if_splits)
  qed (use d absent in \<open>auto simp: case_prod_unfold\<close>)
qed

end
