(* ===== verification/Ellm_Cache_Append.thy ===== *)
theory Ellm_Cache_Append
  imports Ellm_Cache_Ops
begin

text \<open>
  Appending a token: the opening of a new logical block, and the copy-on-write of a shared
  tail block. Afterwards the block that receives the token is referenced once in every group.
\<close>

section \<open>A new logical block\<close>

lemma min_full: "l < n div bs \<Longrightarrow> min bs (Suc n - l * bs) = bs \<and> min bs (n - l * bs) = (bs::nat)"
proof -
  assume "l < n div bs"
  then have "Suc l * bs \<le> n div bs * bs" by (intro mult_le_mono1) simp
  also have "\<dots> \<le> n" by simp
  finally have "bs + l * bs \<le> n" by simp
  then show ?thesis by linarith
qed

lemma append_new_block_ok:
  assumes inv: "kv_inv m" and L: "kvL m s = Some n" and P: "kvP m s = Some p"
    and full: "n mod kv_block_size m = 0"
  shows "wp (append_new_block s (n div kv_block_size m))
    (\<lambda>copies t. copies = [] \<and> kv_ok t {#} \<and> kv_frame s m t \<and> kvL t = kvL m \<and> kvP t = kvP m \<and>
       kvE True t = kvE True m \<and>
       (\<forall>l g. \<not> (l = n div kv_block_size m \<and> g < kv_num_layer_groups m) \<longrightarrow>
          kvE False t s l g = kvE False m s l g) \<and>
       (\<forall>g < kv_num_layer_groups m. \<exists>b. kvE False t s (n div kv_block_size m) g =
          Some (mk_entry (kv_block_size m) (kv_layer_group_size m) s (n div kv_block_size m) g 1 b
            False) \<and> count (held t) (g, b) = 1) \<and>
       (\<forall>g < kv_num_layer_groups m. kv_avail t g + 1 = kv_avail m g))
    (\<lambda>_ t. kv_inv t \<and> kv_rest t = kv_rest m \<and> kv_avail t = kv_avail m \<and>
       (\<exists>g < kv_num_layer_groups m. kv_avail m g = 0)) m"
proof -
  let ?bs = "kv_block_size m" and ?G = "kv_num_layer_groups m" and ?lgs = "kv_layer_group_size m"
  let ?l = "n div ?bs"
  let ?key = "\<lambda>g. (s, ?l, g) :: kv_key"
  let ?mk = "\<lambda>g b. mk_entry ?bs ?lgs s ?l g 1 b False"
  have seqs: "seqs_ok m" using inv by (simp add: kv_inv_def)
  have "ceil_div n ?bs = ?l"
    using full seqs_okD(1) [OF seqs] by (simp add: ceil_div_aligned)
  then have absent: "kvE False m s ?l g = None" for g
    using view_present(3) [OF seqs L P] by simp
  have need: "key_need (map ?key [0..<?G]) g = (if g < ?G then 1 else 0)" for g
  proof -
    have "key_need (map ?key gs) g = count_list gs g" for gs by (induction gs) auto
    then show ?thesis by (simp add: count_list_upt)
  qed
  have eq: "run_eq m (append_new_block s ?l) (sq (alloc_loop False ?key ?mk [0..<?G]) (ret []))"
    by (simp add: run_eq_def append_new_block_def run_simps alloc_loop_def mk_entry_def Let_def)
  have d: "distinct (map ?key [0..<?G])" by (simp add: distinct_map inj_on_def)
  show ?thesis
    unfolding wp_run_eq [OF eq] wp_simps
  proof (rule wp_mono [OF alloc_loop_view
        [where key = ?key and mk = ?mk and kl = "\<lambda>_. ?l" and kg = id, OF inv _ d]])
    fix ks t
    assume a: "kv_ok t {#} \<and> kv_frame s m t \<and> kvL t = kvL m \<and> kvP t = kvP m \<and>
       kvE (\<not> False) t = kvE (\<not> False) m \<and>
       (\<forall>l g. (\<forall>x \<in> set [0..<?G]. (l, g) \<noteq> (?l, id x)) \<longrightarrow> kvE False t s l g = kvE False m s l g) \<and>
       (\<forall>x \<in> set [0..<?G]. \<exists>b. kvE False t s ?l (id x) = Some (?mk x b) \<and>
          count (held t) (id x, b) = 1) \<and>
       (\<exists>new. map fst new = map ?key [0..<?G] \<and>
          kv_rest t = kv_rest (kv_dict_update False (\<lambda>d. d @ new) m)) \<and>
       (\<forall>g. kv_avail t g + key_need (map ?key [0..<?G]) g = kv_avail m g)"
    have av: "kv_avail t g + 1 = kv_avail m g" if "g < ?G" for g
    proof -
      from a have "kv_avail t g + key_need (map ?key [0..<?G]) g = kv_avail m g"
        by (elim conjE allE)
      with need [of g] that show ?thesis by simp
    qed
    have "kvE False t s ?l g = kvE False m s ?l g" if "\<not> g < ?G" for g
      using a that by auto
    moreover have "kvE False t s l g = kvE False m s l g" if "l \<noteq> ?l" for l g
      using a that by auto
    moreover have "\<forall>g < ?G. \<exists>b. kvE False t s ?l g = Some (?mk g b) \<and> count (held t) (g, b) = 1"
      using a by simp
    ultimately show "([] :: (nat \<times> nat \<times> nat) list) = [] \<and> kv_ok t {#} \<and> kv_frame s m t \<and> kvL t = kvL m \<and> kvP t = kvP m \<and>
       kvE True t = kvE True m \<and>
       (\<forall>l g. \<not> (l = ?l \<and> g < ?G) \<longrightarrow> kvE False t s l g = kvE False m s l g) \<and>
       (\<forall>g < ?G. \<exists>b. kvE False t s ?l g = Some (?mk g b) \<and> count (held t) (g, b) = 1) \<and>
       (\<forall>g < ?G. kv_avail t g + 1 = kv_avail m g)"
      using a av by (intro conjI) auto
  next
    fix e t
    assume "kv_inv t \<and> kv_rest t = kv_rest m \<and> kv_avail t = kv_avail m \<and>
       (\<exists>g. kv_avail m g < key_need (map ?key [0..<?G]) g)"
    then show "kv_inv t \<and> kv_rest t = kv_rest m \<and> kv_avail t = kv_avail m \<and>
       (\<exists>g < ?G. kv_avail m g = 0)"
      using need by (auto split: if_splits)
  qed (simp_all add: absent)
qed

section \<open>Copy-on-write of the tail block\<close>

text \<open>\<open>tail_old\<close>: the block the tail entry of group \<open>g\<close> points to.\<close>

definition tail_old :: "kv_map \<Rightarrow> nat \<Rightarrow> nat \<Rightarrow> nat \<Rightarrow> nat" where
  "tail_old m s l g = ke_physical_block_id (the (kvE False m s l g))"

definition tail_shared :: "kv_map \<Rightarrow> nat \<Rightarrow> nat \<Rightarrow> nat \<Rightarrow> bool" where
  "tail_shared m s l g \<longleftrightarrow> 1 < count (held m) (g, tail_old m s l g)"

lemma get_entry_ok:
  "wp (get_entry tmp (s, l, g)) Q E m =
     (case kvE tmp m s l g of None \<Rightarrow> E KeyError m | Some e \<Rightarrow> Q e m)"
  by (simp add: get_entry_def wp_simps kvE_def dget_def split: option.splits)

lemma held_range:
  assumes "kv_ok m X" "(g, b) \<in># held m + X"
  shows "g < kv_num_layer_groups m" "b < kv_num_physical_blocks m"
  using pool_okD(7) [OF kv_ok_pool [OF assms(1)] assms(2)] by auto

lemma kvE_held: "kvE tmp m s l g = Some e \<Longrightarrow> (g, ke_physical_block_id e) \<in># held m"
  using owned_mem [of "kv_dict tmp m" "(s, l, g)" e] by (cases tmp) (auto simp: kvE_def held_def)

lemma cow_loop_ok:
  assumes inv: "kv_inv m" and tail: "\<And>g. g < kv_num_layer_groups m \<Longrightarrow> kvE False m s l g \<noteq> None"
  shows "wp (append_cow_blocks s l)
    (\<lambda>cow t. kv_ok t (mset cow) \<and> kv_rest t = kv_rest m \<and>
       dkeys cow = filter (tail_shared m s l) [0..<kv_num_layer_groups m] \<and>
       (\<forall>(g, b) \<in> set cow. count (held m) (g, b) = 0) \<and>
       (\<forall>g. kv_avail t g + count_list (dkeys cow) g = kv_avail m g))
    (\<lambda>_ t. kv_inv t \<and> kv_rest t = kv_rest m \<and> kv_avail t = kv_avail m \<and>
       (\<exists>g < kv_num_layer_groups m. tail_shared m s l g \<and> kv_avail m g = 0)) m"
proof -
  let ?G = "kv_num_layer_groups m"
  have ok: "kv_ok m {#}" using inv by (simp add: kv_inv_def)
  let ?J = "\<lambda>i cow t. kv_ok t (mset cow) \<and> kv_rest t = kv_rest m \<and>
       dkeys cow = filter (tail_shared m s l) [0..<i] \<and>
       (\<forall>(g, b) \<in> set cow. count (held m) (g, b) = 0) \<and>
       (\<forall>g. kv_avail t g + count_list (dkeys cow) g = kv_avail m g)"
  have undo: "wp (sq (for_each cow (\<lambda>(g, b). free_block g b)) (throw e)) Q
       (\<lambda>_ t. kv_inv t \<and> kv_rest t = kv_rest m \<and> kv_avail t = kv_avail m \<and>
         (\<exists>g < ?G. tail_shared m s l g \<and> kv_avail m g = 0)) t"
    if J: "?J i cow t" and i: "i < ?G" "tail_shared m s l i" "kv_avail t i = 0"
    for i t cow e and Q :: "(nat, nat) pydict \<Rightarrow> kv_map \<Rightarrow> bool"
    unfolding wp_simps
  proof (rule wp_mono [OF kvp.free_many [where X = "held m"]])
    show "pool_ok t (held m + mset cow)"
      using J held_rest [of t m] by (simp add: kv_ok_def)
  next
    fix x u
    assume u: "pool_ok u (held m) \<and> kv_rest u = kv_rest t \<and> (\<forall>g. kv_avail t g \<le> kv_avail u g)"
    then have r: "kv_rest u = kv_rest m" using J by simp
    then have oku: "kv_ok u {#}" using kv_ok_transfer [OF ok] u by simp
    have "i \<notin> set (dkeys cow)" using J by auto
    then have "count_list (dkeys cow) i = 0" by (simp add: count_list_0_iff)
    with J i(3) have "kv_avail m i = 0" by (metis add_0)
    then show "kv_inv u \<and> kv_rest u = kv_rest m \<and> kv_avail u = kv_avail m \<and>
         (\<exists>g < ?G. tail_shared m s l g \<and> kv_avail m g = 0)"
      using kv_inv_rest [OF inv oku r] kv_ok_avail [OF oku ok r] r i by blast
  qed simp
  show ?thesis
    unfolding append_cow_blocks_def wp_simps
  proof (rule wp_fold_catch_range [where J = ?J])
    show "?J 0 [] m" using ok by simp
  next
    fix i cow t
    assume i: "0 \<le> i" "i < ?G" and J: "?J i cow t"
    from tail [OF i(2)] obtain e where e: "kvE False m s l i = Some e" by blast
    have et: "kvE False t s l i = Some e" using e rest_view(4) [of t m] J by simp
    have fresh: "i \<notin> set (dkeys cow)" using J by auto
    have held: "held t = held m" using J held_rest by blast
    have old: "tail_old m s l i = ke_physical_block_id e" using e by (simp add: tail_old_def)
    have cnt: "count (held t + mset cow) (i, ke_physical_block_id e) =
        count (held m) (i, tail_old m s l i)"
    proof -
      have "(i, ke_physical_block_id e) \<notin> set cow" using fresh by force
      then have "count (mset cow) (i, ke_physical_block_id e) = 0" by (simp add: count_mset_0_iff)
      then show ?thesis using held old by simp
    qed
    have okt: "kv_ok t (mset cow)" using J by blast
    have "(i, ke_physical_block_id e) \<in># held t + mset cow" using kvE_held [OF et] by simp
    note rng = held_range [OF okt this]
    have rc: "wp (get_block_ref_count i (ke_physical_block_id e)) Q E t =
        Q (count (held m) (i, tail_old m s l i)) t" for Q E
      unfolding get_block_ref_count_ok [OF kv_ok_pool [OF okt] rng] cnt ..
    have G: "kv_num_layer_groups t = ?G" using J by (simp add: kv_rest_eq)
    show "wp (bnd (get_entry False (s, l, i)) (\<lambda>entry.
          bnd (get_block_ref_count i (ke_physical_block_id entry)) (\<lambda>ref_count.
          if ref_count > 1 then
            bnd (allocate_block i) (\<lambda>b. ret (dset i b cow))
          else ret cow)))
       (?J (Suc i))
       (\<lambda>e. wp (sq (for_each cow (\<lambda>(g, b). free_block g b)) (throw e))
         (\<lambda>cow t. ?J ?G cow t)
         (\<lambda>_ t. kv_inv t \<and> kv_rest t = kv_rest m \<and> kv_avail t = kv_avail m \<and>
           (\<exists>g < ?G. tail_shared m s l g \<and> kv_avail m g = 0))) t"
    proof (cases "tail_shared m s l i")
      case False
      then have "\<not> 1 < count (held m) (i, tail_old m s l i)" by (simp add: tail_shared_def)
      then show ?thesis
        using J False
        by (auto simp: wp_bnd get_entry_ok et rc wp_ret)
    next
      case True
      then have sh: "1 < count (held m) (i, tail_old m s l i)" by (simp add: tail_shared_def)
      have new: "?J (Suc i) (dset i b cow) u"
        if a: "pool_ok u (add_mset (i, b) (held t + mset cow))" "(i, b) \<notin># held t + mset cow"
          "kv_rest u = kv_rest t" "0 < kv_avail t i"
          "kv_avail u = (kv_avail t)(i := kv_avail t i - 1)" for b u
      proof -
        have "kv_ok u (mset (cow @ [(i, b)]))"
          by (rule kv_ok_transfer [OF okt]) (use a in \<open>simp_all add: add.commute\<close>)
        moreover have "count (held m) (i, b) = 0" using a(2) held by (simp add: not_in_iff)
        moreover have zero: "count_list (dkeys cow) i = 0" using fresh by (simp add: count_list_0_iff)
        moreover have "kv_avail t i = kv_avail m i"
        proof -
          from J have "kv_avail t i + count_list (dkeys cow) i = kv_avail m i" by (elim conjE allE)
          with zero show ?thesis by simp
        qed
        ultimately show ?thesis
          using J True a fresh by (auto simp: dset_fresh)
      qed
      show ?thesis
        unfolding wp_bnd get_entry_ok et option.case rc if_P [OF sh] wp_ret
      proof (rule wp_mono [OF kvp.alloc_cases [OF kv_ok_pool [OF okt]]])
        fix b u
        assume "pool_ok u (add_mset (i, b) (held t + mset cow)) \<and> (i, b) \<notin># held t + mset cow \<and>
          kv_rest u = kv_rest t \<and> 0 < kv_avail t i \<and>
          kv_avail u = (kv_avail t)(i := kv_avail t i - 1)"
        then show "?J (Suc i) (dset i b cow) u" by (intro new) (elim conjE; assumption)+
      next
        fix e u
        assume "kv_avail t i = 0 \<and> u = t"
        with undo [OF J i(2) True]
        show "wp (sq (for_each cow (\<lambda>(g, b). free_block g b)) (throw e))
         (\<lambda>cow t. ?J ?G cow t)
         (\<lambda>_ t. kv_inv t \<and> kv_rest t = kv_rest m \<and> kv_avail t = kv_avail m \<and>
           (\<exists>g < ?G. tail_shared m s l g \<and> kv_avail m g = 0)) u"
          by (elim conjE) simp
      qed
    qed
  qed auto
qed

section \<open>Switching the tail entries over\<close>

lemma owned_dset:
  "distinct (dkeys d) \<Longrightarrow> map_of d k = Some e \<Longrightarrow>
     owned (dset k e' d) = owned d - {#(key_group k, ke_physical_block_id e)#} +
       {#(key_group k, ke_physical_block_id e')#}"
proof (induction d)
  case (Cons p d)
  obtain k' x where p: "p = (k', x)" by (cases p)
  show ?case
  proof (cases "k' = k")
    case False
    with Cons p have "owned (dset k e' d) = owned d - {#(key_group k, ke_physical_block_id e)#} +
        {#(key_group k, ke_physical_block_id e')#}"
      and "(key_group k, ke_physical_block_id e) \<in># owned d"
      by (auto intro: owned_mem)
    then show ?thesis using False p by (simp add: multi_drop_mem_not_eq diff_union_swap2)
  qed (use Cons.prems p in simp)
qed simp

lemma put_entry_replace:
  assumes ok: "kv_ok m Y" and r: "kv_rest u = kv_rest m" and k: "map_of (kv_dict tmp m) k = Some e"
    and pool: "pool_ok u (held m - {#(key_group k, ke_physical_block_id e)#} +
      {#(key_group k, ke_physical_block_id e')#} + X)"
  shows "wp (put_entry tmp k e')
    (\<lambda>_ v. kv_ok v X \<and> kv_rest v = kv_rest (kv_dict_update tmp (dset k e') m) \<and>
       kv_avail v = kv_avail u \<and>
       held v = held m - {#(key_group k, ke_physical_block_id e)#} +
         {#(key_group k, ke_physical_block_id e')#}) E u"
proof -
  let ?v = "kv_dict_update tmp (dset k e') u"
  have "held ?v = held m - {#(key_group k, ke_physical_block_id e)#} +
      {#(key_group k, ke_physical_block_id e')#}"
    using owned_dset [OF kv_ok_distinct [OF ok] k] owned_mem [OF k] r
    by (cases tmp) (simp_all add: held_def kv_rest_eq)
  moreover have "distinct (dkeys (kv_dict tmp' ?v))" for tmp'
    using kv_ok_distinct [OF ok, of tmp'] r by (cases tmp; cases tmp') (simp_all add: kv_rest_eq)
  from this [of False] this [of True] have "distinct (dkeys (kv_entries ?v))"
    "distinct (dkeys (kv_temporary_entries ?v))" by simp_all
  ultimately show ?thesis
    using pool kv_rest_dict_update [OF r, of tmp "dset k e'"]
    by (simp add: put_entry_def wp_simps kv_ok_def)
qed

lemma filter_from_Some:
  "distinct (dkeys d) \<Longrightarrow> map_of d i = Some b \<Longrightarrow>
    mset (filter (\<lambda>p. i \<le> fst p) d) = add_mset (i, b) (mset (filter (\<lambda>p. Suc i \<le> fst p) d))"
proof (induction d)
  case (Cons p d)
  show ?case
  proof (cases "fst p = i")
    case True
    with Cons.prems have "i \<notin> set (dkeys d)" by auto
    then have "filter (\<lambda>p. i \<le> fst p) d = filter (\<lambda>p. Suc i \<le> fst p) d"
      by (intro filter_cong) (auto simp: Suc_le_eq order_less_le)
    with True Cons.prems show ?thesis by (cases p) simp
  next
    case False
    with Cons show ?thesis by (cases p) auto
  qed
qed simp

lemma filter_from_None:
  "map_of d i = None \<Longrightarrow> filter (\<lambda>p. i \<le> fst p) d = filter (\<lambda>p. Suc i \<le> fst p) d"
  by (intro filter_cong) (auto simp: Suc_le_eq order_less_le map_of_eq_None_iff)

text \<open>The block of the tail of group \<open>g\<close> after the copies.\<close>

definition tail_new :: "kv_map \<Rightarrow> nat \<Rightarrow> nat \<Rightarrow> (nat, nat) pydict \<Rightarrow> nat \<Rightarrow> nat" where
  "tail_new m s l cow g = (case map_of cow g of Some b \<Rightarrow> b | None \<Rightarrow> tail_old m s l g)"

definition tail_entry :: "kv_map \<Rightarrow> nat \<Rightarrow> nat \<Rightarrow> (nat, nat) pydict \<Rightarrow> nat \<Rightarrow> KVMapEntry" where
  "tail_entry m s l cow g = (let e = the (kvE False m s l g) in
     e\<lparr>ke_physical_block_id := tail_new m s l cow g, ke_num_filled := ke_num_filled e + 1\<rparr>)"

lemma count_list_filter_upt: "count_list (filter P [0..<n]) g = (if g < n \<and> P g then 1 else 0)"
  by (induction n) auto

definition switch_inv ::
  "kv_map \<Rightarrow> nat \<Rightarrow> nat \<Rightarrow> (nat, nat) pydict \<Rightarrow> kv_map \<Rightarrow> nat \<Rightarrow> (nat \<times> nat \<times> nat) list \<Rightarrow> kv_map \<Rightarrow> bool"
where
  "switch_inv m s l cow t0 i copies t \<longleftrightarrow>
     kv_ok t (mset (filter (\<lambda>p. i \<le> fst p) cow)) \<and>
     kv_frame s m t \<and> kvL t = kvL m \<and> kvP t = kvP m \<and> kvE True t = kvE True m \<and>
     (\<forall>l' g. \<not> (l' = l \<and> g < i) \<longrightarrow> kvE False t s l' g = kvE False m s l' g) \<and>
     (\<forall>g < i. kvE False t s l g = Some (tail_entry m s l cow g)) \<and>
     (\<forall>g b. i \<le> g \<longrightarrow> count (held t) (g, b) = count (held m) (g, b)) \<and>
     (\<forall>g < i. count (held t) (g, tail_new m s l cow g) = 1) \<and>
     copies = map (\<lambda>g. (g, tail_old m s l g, tail_new m s l cow g))
       (filter (tail_shared m s l) [0..<i]) \<and>
     kv_avail t = kv_avail t0"

lemma switch_inv_step:
  assumes J: "switch_inv m s l cow t0 i copies t" and e: "kvE False m s l i = Some e"
    and r: "kv_rest v = kv_rest (kv_dict_update False (dset (s, l, i) (tail_entry m s l cow i)) t)"
    and ok: "kv_ok v (mset (filter (\<lambda>p. Suc i \<le> fst p) cow))" and av: "kv_avail v = kv_avail t"
    and held: "held v = held t - {#(i, tail_old m s l i)#} + {#(i, tail_new m s l cow i)#}"
    and one: "count (held v) (i, tail_new m s l cow i) = 1"
    and copies: "copies' = copies @
      (if tail_shared m s l i then [(i, tail_old m s l i, tail_new m s l cow i)] else [])"
  shows "switch_inv m s l cow t0 (Suc i) copies' v"
proof -
  note V = kvE_dict_update [OF r]
  have E: "kvE False v s' l' g' =
      (if (s', l', g') = (s, l, i) then Some (tail_entry m s l cow i) else kvE False t s' l' g')"
    for s' l' g'
    using V(5) [of s' l' g'] by (auto simp: kvE_def)
  have fr: "kv_frame s t v"
    by (rule kv_frameI [OF V(1-4)]) (use E in auto)
  from J have frt: "kv_frame s m t" by (simp add: switch_inv_def)
  have other: "count (held v) (g, b) = count (held t) (g, b)" if "g \<noteq> i" for g b
    using that held by simp
  from J have 1: "\<forall>l' g. \<not> (l' = l \<and> g < i) \<longrightarrow> kvE False t s l' g = kvE False m s l' g"
    and 2: "\<forall>g < i. kvE False t s l g = Some (tail_entry m s l cow g)"
    and 3: "\<forall>g b. i \<le> g \<longrightarrow> count (held t) (g, b) = count (held m) (g, b)"
    and 4: "\<forall>g < i. count (held t) (g, tail_new m s l cow g) = 1"
    and 5: "copies = map (\<lambda>g. (g, tail_old m s l g, tail_new m s l cow g))
       (filter (tail_shared m s l) [0..<i])"
    and 6: "kvL t = kvL m" "kvP t = kvP m" "kvE True t = kvE True m" "kv_avail t = kv_avail t0"
    unfolding switch_inv_def by - (elim conjE, assumption)+
  have "\<forall>l' g. \<not> (l' = l \<and> g < Suc i) \<longrightarrow> kvE False v s l' g = kvE False m s l' g"
    using 1 by (auto simp: E less_Suc_eq)
  moreover have "\<forall>g < Suc i. kvE False v s l g = Some (tail_entry m s l cow g)"
    using 2 by (auto simp: E less_Suc_eq)
  moreover have "\<forall>g b. Suc i \<le> g \<longrightarrow> count (held v) (g, b) = count (held m) (g, b)"
    using 3 other by auto
  moreover have "\<forall>g < Suc i. count (held v) (g, tail_new m s l cow g) = 1"
    using 4 other one by (auto simp: less_Suc_eq)
  moreover have "copies' = map (\<lambda>g. (g, tail_old m s l g, tail_new m s l cow g))
       (filter (tail_shared m s l) [0..<Suc i])"
    using 5 copies by simp
  ultimately show ?thesis
    unfolding switch_inv_def using ok V(2-4) 6 av kv_frame_trans [OF frt fr] by simp
qed

lemma append_in_tail_ok:
  assumes inv: "kv_inv m" and tail: "\<And>g. g < kv_num_layer_groups m \<Longrightarrow> kvE False m s l g \<noteq> None"
  shows "wp (append_in_tail s l)
    (\<lambda>copies t. \<exists>cow t0. switch_inv m s l cow t0 (kv_num_layer_groups m) copies t \<and>
       dkeys cow = filter (tail_shared m s l) [0..<kv_num_layer_groups m] \<and>
       kv_ok t {#} \<and> (\<forall>g < kv_num_layer_groups m.
         kv_avail t g + (if tail_shared m s l g then 1 else 0) = kv_avail m g))
    (\<lambda>_ t. kv_inv t \<and> kv_rest t = kv_rest m \<and> kv_avail t = kv_avail m \<and>
       (\<exists>g < kv_num_layer_groups m. tail_shared m s l g \<and> kv_avail m g = 0)) m"
proof -
  let ?G = "kv_num_layer_groups m"
  let ?E = "\<lambda>_ t. kv_inv t \<and> kv_rest t = kv_rest m \<and> kv_avail t = kv_avail m \<and>
       (\<exists>g < ?G. tail_shared m s l g \<and> kv_avail m g = 0)"
  let ?Q = "\<lambda>copies t. \<exists>cow t0. switch_inv m s l cow t0 ?G copies t \<and>
       dkeys cow = filter (tail_shared m s l) [0..<?G] \<and> kv_ok t {#} \<and>
       (\<forall>g < ?G. kv_avail t g + (if tail_shared m s l g then 1 else 0) = kv_avail m g)"
  have main: "wp (fold_each [0..<?G] []
       (\<lambda>copy_mappings layer_group.
          let key = (s, l, layer_group) in
          bnd (get_entry False key) (\<lambda>entry.
          case map_of cow layer_group of
            Some new_block_id \<Rightarrow>
              sq (free_block layer_group (ke_physical_block_id entry))
             (sq (put_entry False key
                   (entry\<lparr>ke_physical_block_id := new_block_id,
                          ke_num_filled := ke_num_filled entry + 1\<rparr>))
             (ret (copy_mappings @ [(layer_group, ke_physical_block_id entry, new_block_id)])))
          | None \<Rightarrow>
              sq (put_entry False key (entry\<lparr>ke_num_filled := ke_num_filled entry + 1\<rparr>))
             (ret copy_mappings)))) ?Q ?E t0"
    if ok0: "kv_ok t0 (mset cow)" and r0: "kv_rest t0 = kv_rest m"
      and dom: "dkeys cow = filter (tail_shared m s l) [0..<?G]"
      and fresh: "\<And>g b. (g, b) \<in> set cow \<Longrightarrow> count (held m) (g, b) = 0"
      and av0: "\<And>g. kv_avail t0 g + count_list (dkeys cow) g = kv_avail m g"
    for cow t0
  proof (rule wp_fold_range [where J = "switch_inv m s l cow t0"])
    have "filter (\<lambda>p. 0 \<le> fst p) cow = cow" by simp
    moreover have "held t0 = held m" by (rule held_rest [OF r0])
    ultimately show "switch_inv m s l cow t0 0 [] t0"
      using ok0 rest_view [OF r0] by (simp add: switch_inv_def)
  next
    fix i copies t
    assume i: "0 \<le> i" "i < ?G" and J: "switch_inv m s l cow t0 i copies t"
    from tail [OF i(2)] obtain e where e: "kvE False m s l i = Some e" by blast
    have ok: "kv_ok t (mset (filter (\<lambda>p. i \<le> fst p) cow))"
      and et: "kvE False t s l i = Some e"
      and cnt: "\<And>b. count (held t) (i, b) = count (held m) (i, b)"
      using J e by (auto simp: switch_inv_def)
    have old: "tail_old m s l i = ke_physical_block_id e" using e by (simp add: tail_old_def)
    have mem: "(i, ke_physical_block_id e) \<in># held t" by (rule kvE_held [OF et])
    have k: "map_of (kv_dict False t) (s, l, i) = Some e" using et by (simp add: kvE_def)
    have dist: "distinct (dkeys cow)" unfolding dom by simp
    show "wp (let key = (s, l, i) in
          bnd (get_entry False key) (\<lambda>entry.
          case map_of cow i of
            Some new_block_id \<Rightarrow>
              sq (free_block i (ke_physical_block_id entry))
             (sq (put_entry False key
                   (entry\<lparr>ke_physical_block_id := new_block_id,
                          ke_num_filled := ke_num_filled entry + 1\<rparr>))
             (ret (copies @ [(i, ke_physical_block_id entry, new_block_id)])))
          | None \<Rightarrow>
              sq (put_entry False key (entry\<lparr>ke_num_filled := ke_num_filled entry + 1\<rparr>))
             (ret copies)))
       (switch_inv m s l cow t0 (Suc i)) ?E t"
    proof (cases "map_of cow i")
      case None
      then have "i \<notin> set (dkeys cow)" by (simp add: dkeys_iff del: set_map)
      then have sh: "\<not> tail_shared m s l i" unfolding dom using i by simp
      have new: "tail_new m s l cow i = ke_physical_block_id e"
        using None old by (simp add: tail_new_def)
      have te: "tail_entry m s l cow i = e\<lparr>ke_num_filled := ke_num_filled e + 1\<rparr>"
        using e new by (simp add: tail_entry_def)
      have "0 < count (held t) (i, ke_physical_block_id e)" using mem by simp
      moreover have "\<not> 1 < count (held t) (i, ke_physical_block_id e)"
        using sh cnt old by (simp add: tail_shared_def)
      ultimately have one: "count (held t) (i, ke_physical_block_id e) = 1" by linarith
      show ?thesis
        unfolding Let_def wp_bnd get_entry_ok et option.case None wp_sq wp_ret te [symmetric]
      proof (rule wp_mono [OF put_entry_replace [OF ok refl k]])
        show "pool_ok t (held t - {#(key_group (s, l, i), ke_physical_block_id e)#} +
            {#(key_group (s, l, i), ke_physical_block_id (tail_entry m s l cow i))#} +
            mset (filter (\<lambda>p. Suc i \<le> fst p) cow))"
          using kv_ok_pool [OF ok] mem None te by (simp add: filter_from_None)
      next
        fix x v
        assume a: "kv_ok v (mset (filter (\<lambda>p. Suc i \<le> fst p) cow)) \<and>
          kv_rest v = kv_rest (kv_dict_update False (dset (s, l, i) (tail_entry m s l cow i)) t) \<and>
          kv_avail v = kv_avail t \<and>
          held v = held t - {#(key_group (s, l, i), ke_physical_block_id e)#} +
            {#(key_group (s, l, i), ke_physical_block_id (tail_entry m s l cow i))#}"
        show "switch_inv m s l cow t0 (Suc i) copies v"
          by (rule switch_inv_step [OF J e]) (use a te mem new old one sh in auto)
      qed auto
    next
      case (Some b)
      then have ib: "(i, b) \<in> set cow" by (rule map_of_SomeD)
      then have "i \<in> set (dkeys cow)" by force
      then have sh: "tail_shared m s l i" unfolding dom by simp
      have new: "tail_new m s l cow i = b" using Some by (simp add: tail_new_def)
      have te: "tail_entry m s l cow i =
          e\<lparr>ke_physical_block_id := b, ke_num_filled := ke_num_filled e + 1\<rparr>"
        using e new by (simp add: tail_entry_def)
      have two: "1 < count (held t) (i, ke_physical_block_id e)"
        using sh cnt old by (simp add: tail_shared_def)
      have zero: "count (held t) (i, b) = 0" using fresh [OF ib] cnt by simp
      have X: "mset (filter (\<lambda>p. i \<le> fst p) cow) =
          add_mset (i, b) (mset (filter (\<lambda>p. Suc i \<le> fst p) cow))"
        by (rule filter_from_Some [OF dist Some])
      have own: "(i, ke_physical_block_id e) \<in># held t + mset (filter (\<lambda>p. i \<le> fst p) cow)"
        using mem by simp
      have "kv_avail t i + (if count (held t + mset (filter (\<lambda>p. i \<le> fst p) cow))
          (i, ke_physical_block_id e) = 1 then 1 else 0) = kv_avail t i"
        using two by simp
      then have keep: "(kv_avail t)(i := kv_avail t i + (if count (held t +
          mset (filter (\<lambda>p. i \<le> fst p) cow)) (i, ke_physical_block_id e) = 1 then 1 else 0)) = kv_avail t"
        by (simp add: fun_eq_iff)
      show ?thesis
        unfolding Let_def wp_bnd get_entry_ok et option.case Some wp_sq wp_ret te [symmetric]
      proof (rule wp_mono [OF kvp.free_owned [OF kv_ok_pool [OF ok] own, unfolded keep]])
        fix x u
        assume u: "pool_ok u (held t + mset (filter (\<lambda>p. i \<le> fst p) cow) -
            {#(i, ke_physical_block_id e)#}) \<and> kv_rest u = kv_rest t \<and> kv_avail u = kv_avail t"
        have ru: "kv_rest u = kv_rest t" using u by simp
        show "wp (put_entry False (s, l, i) (tail_entry m s l cow i))
          (\<lambda>_. switch_inv m s l cow t0 (Suc i) (copies @ [(i, ke_physical_block_id e, b)])) ?E u"
        proof (rule wp_mono [OF put_entry_replace [OF ok ru k]])
          show "pool_ok u (held t - {#(key_group (s, l, i), ke_physical_block_id e)#} +
              {#(key_group (s, l, i), ke_physical_block_id (tail_entry m s l cow i))#} +
              mset (filter (\<lambda>p. Suc i \<le> fst p) cow))"
            using u mem te unfolding X by simp
        next
          fix y v
          assume a: "kv_ok v (mset (filter (\<lambda>p. Suc i \<le> fst p) cow)) \<and>
            kv_rest v = kv_rest (kv_dict_update False (dset (s, l, i) (tail_entry m s l cow i)) t) \<and>
            kv_avail v = kv_avail u \<and>
            held v = held t - {#(key_group (s, l, i), ke_physical_block_id e)#} +
              {#(key_group (s, l, i), ke_physical_block_id (tail_entry m s l cow i))#}"
          have "(i, ke_physical_block_id e) \<noteq> (i, b)" using two zero by auto
          then have "count (held v) (i, b) = 1" using a te zero by simp
          then show "switch_inv m s l cow t0 (Suc i) (copies @ [(i, ke_physical_block_id e, b)]) v"
            by (intro switch_inv_step [OF J e]) (use a u te new old sh in auto)
        qed auto
      qed auto
    qed
  next
    fix copies t
    assume J: "switch_inv m s l cow t0 ?G copies t"
    have "filter (\<lambda>p. ?G \<le> fst p) cow = []"
    proof -
      have "fst p < ?G" if "p \<in> set cow" for p
      proof -
        from that have "fst p \<in> set (dkeys cow)" by simp
        then show ?thesis unfolding dom by simp
      qed
      then show ?thesis by (auto simp: filter_empty_conv not_le)
    qed
    then have "kv_ok t {#}" using J by (simp add: switch_inv_def)
    moreover have "kv_avail t = kv_avail t0" using J by (simp add: switch_inv_def)
    moreover have "count_list (dkeys cow) g = (if tail_shared m s l g then 1 else 0)"
      if "g < ?G" for g
      unfolding dom using that by (simp add: count_list_filter_upt)
    ultimately have "kv_avail t g + (if tail_shared m s l g then 1 else 0) = kv_avail m g"
      if "g < ?G" for g
      using av0 [of g] that by (simp del: list.map)
    with J dom \<open>kv_ok t {#}\<close> show "?Q copies t" by blast
  qed auto
  show ?thesis
    unfolding append_in_tail_def wp_bnd [of "append_cow_blocks s l"]
  proof (rule wp_mono [OF cow_loop_ok [OF inv tail]])
    fix cow t0
    assume a: "kv_ok t0 (mset cow) \<and> kv_rest t0 = kv_rest m \<and>
       dkeys cow = filter (tail_shared m s l) [0..<?G] \<and>
       (\<forall>(g, b) \<in> set cow. count (held m) (g, b) = 0) \<and>
       (\<forall>g. kv_avail t0 g + count_list (dkeys cow) g = kv_avail m g)"
    then have G: "kv_num_layer_groups t0 = ?G" by (simp add: kv_rest_eq)
    show "wp (bnd (gets kv_num_layer_groups) (\<lambda>groups. fold_each [0..<groups] []
       (\<lambda>copy_mappings layer_group.
          let key = (s, l, layer_group) in
          bnd (get_entry False key) (\<lambda>entry.
          case map_of cow layer_group of
            Some new_block_id \<Rightarrow>
              sq (free_block layer_group (ke_physical_block_id entry))
             (sq (put_entry False key
                   (entry\<lparr>ke_physical_block_id := new_block_id,
                          ke_num_filled := ke_num_filled entry + 1\<rparr>))
             (ret (copy_mappings @ [(layer_group, ke_physical_block_id entry, new_block_id)])))
          | None \<Rightarrow>
              sq (put_entry False key (entry\<lparr>ke_num_filled := ke_num_filled entry + 1\<rparr>))
             (ret copy_mappings))))) ?Q ?E t0"
      unfolding wp_bnd wp_gets G using a
      by (elim conjE) (rule main [unfolded wp_bnd]; (assumption | blast | simp))
  qed auto
qed

section \<open>\<open>append_token\<close>\<close>

lemma tail_filled:
  assumes "0 < bs"
  shows "min bs (n - n div bs * bs) = n mod (bs :: nat)"
    "min bs (Suc n - n div bs * bs) = Suc (n mod bs)"
proof -
  have "n - n div bs * bs = n mod bs" by (simp add: minus_div_mult_eq_mod)
  moreover have "Suc n - n div bs * bs = Suc (n mod bs)"
    using div_mult_mod_eq [of n bs] by linarith
  moreover have "n mod bs < bs" using assms by simp
  ultimately show "min bs (n - n div bs * bs) = n mod bs"
    "min bs (Suc n - n div bs * bs) = Suc (n mod bs)" by simp_all
qed

lemma append_view:
  assumes seqs: "seqs_ok m" and L: "kvL m s = Some n" and P: "kvP m s = Some p"
    and p: "p \<le> n div kv_block_size m"
    and tmp: "kvE True t s = kvE True m s"
    and same: "\<And>l g. \<not> (l = n div kv_block_size m \<and> g < kv_num_layer_groups m) \<Longrightarrow>
      kvE False t s l g = kvE False m s l g"
    and tail: "\<And>g. g < kv_num_layer_groups m \<Longrightarrow> \<exists>b. kvE False t s (n div kv_block_size m) g =
      Some (mk_entry (kv_block_size m) (kv_layer_group_size m) s (n div kv_block_size m) g
        (Suc (n mod kv_block_size m)) b False)"
  shows "view_ok (kv_num_layer_groups m) (kv_block_size m) (kv_layer_group_size m) s
    (Some (Suc n)) (Some p) (kvE False t s) (kvE True t s)"
proof -
  let ?bs = "kv_block_size m" and ?G = "kv_num_layer_groups m" and ?lgs = "kv_layer_group_size m"
  let ?l = "n div ?bs"
  have bs: "0 < ?bs" by (rule seqs_okD(1) [OF seqs])
  note V = view_present [OF seqs L P]
  have new: "ceil_div (Suc n) ?bs = Suc ?l" using bs by (simp add: ceil_div_Suc)
  have old: "ceil_div n ?bs \<le> Suc ?l" "?l \<le> ceil_div n ?bs"
    using div_le_ceil_div [OF bs, of n] ceil_div_step [OF bs, of n] new by (auto split: if_splits)
  have E: "(kvE False t s l g \<noteq> None \<longleftrightarrow> p \<le> l \<and> l < Suc ?l \<and> g < ?G) \<and>
    (\<forall>x. kvE False t s l g = Some x \<longrightarrow>
       x = mk_entry ?bs ?lgs s l g (min ?bs (Suc n - l * ?bs)) (ke_physical_block_id x) False)" for l g
  proof (cases "l = ?l \<and> g < ?G")
    case True
    with tail [of g] p tail_filled(2) [OF bs, of n] show ?thesis by auto
  next
    case False
    note s = same [OF this]
    have "l \<noteq> ?l" if "g < ?G" using False that by simp
    then have dom: "kvE False m s l g = None \<longleftrightarrow> \<not> (p \<le> l \<and> l < Suc ?l \<and> g < ?G)"
      using V(3) [of l g] old by (auto simp: less_Suc_eq)
    have "x = mk_entry ?bs ?lgs s l g (min ?bs (Suc n - l * ?bs)) (ke_physical_block_id x) False"
      if x: "kvE False m s l g = Some x" for x
    proof -
      from x dom have "l < Suc ?l" "g < ?G" by auto
      with False have "l < ?l" by auto
      from V(4) [OF x] min_full [OF this] show ?thesis by simp
    qed
    then show ?thesis unfolding s
      by (intro conjI allI impI) (use dom in argo, assumption)
  qed
  have "\<forall>l g. kvE False t s l g \<noteq> None \<longleftrightarrow> p \<le> l \<and> l < Suc ?l \<and> g < ?G" using E by blast
  moreover have "\<forall>l g x. kvE False t s l g = Some x \<longrightarrow>
       x = mk_entry ?bs ?lgs s l g (min ?bs (Suc n - l * ?bs)) (ke_physical_block_id x) False"
    using E by blast
  moreover have "\<forall>l g e. kvE True m s l g = Some e \<longrightarrow>
       e = mk_entry ?bs ?lgs s l g ?bs (ke_physical_block_id e) True"
    using V(6) by force
  ultimately show ?thesis
    unfolding view_ok_def prod.case option.case new tmp using V(5) p by simp
qed

text \<open>
  The copies \<open>append_token\<close> reports: for a token that goes into a tail block, one for each
  group whose tail was shared, from the block the tail had to the block it has now.
\<close>

definition append_copies :: "kv_map \<Rightarrow> nat \<Rightarrow> nat \<Rightarrow> kv_map \<Rightarrow> (nat \<times> nat \<times> nat) list" where
  "append_copies m s n t = (let l = n div kv_block_size m in
     if n mod kv_block_size m = 0 then []
     else map (\<lambda>g. (g, tail_old m s l g, tail_old t s l g))
            (filter (tail_shared m s l) [0..<kv_num_layer_groups m]))"

text \<open>A token needs a fresh block in group \<open>g\<close> when it opens a block or its tail is shared.\<close>

definition append_needs :: "kv_map \<Rightarrow> nat \<Rightarrow> nat \<Rightarrow> nat \<Rightarrow> bool" where
  "append_needs m s n g \<longleftrightarrow>
     n mod kv_block_size m = 0 \<or> tail_shared m s (n div kv_block_size m) g"

definition append_post :: "kv_map \<Rightarrow> nat \<Rightarrow> nat \<Rightarrow> (nat \<times> nat \<times> nat) list \<Rightarrow> kv_map \<Rightarrow> bool" where
  "append_post m s n copies t \<longleftrightarrow>
     kv_inv t \<and> kv_frame s m t \<and> kvL t = (kvL m)(s \<mapsto> Suc n) \<and> kvP t = kvP m \<and>
     kvE True t = kvE True m \<and>
     (\<forall>l g. l \<noteq> n div kv_block_size m \<longrightarrow> kvE False t s l g = kvE False m s l g) \<and>
     (\<forall>g < kv_num_layer_groups m.
        kvE False t s (n div kv_block_size m) g \<noteq> None \<and>
        count (held t) (g, tail_old t s (n div kv_block_size m) g) = 1 \<and>
        (\<not> append_needs m s n g \<longrightarrow>
           tail_old t s (n div kv_block_size m) g = tail_old m s (n div kv_block_size m) g) \<and>
        kv_avail t g + (if append_needs m s n g then 1 else 0) = kv_avail m g) \<and>
     copies = append_copies m s n t"

lemma append_new_post:
  assumes inv: "kv_inv m" and L: "kvL m s = Some n" and P: "kvP m s = Some p"
    and full: "n mod kv_block_size m = 0"
    and a: "copies = [] \<and> kv_ok t {#} \<and> kv_frame s m t \<and> kvL t = kvL m \<and> kvP t = kvP m \<and>
       kvE True t = kvE True m \<and>
       (\<forall>l g. \<not> (l = n div kv_block_size m \<and> g < kv_num_layer_groups m) \<longrightarrow>
          kvE False t s l g = kvE False m s l g) \<and>
       (\<forall>g < kv_num_layer_groups m. \<exists>b. kvE False t s (n div kv_block_size m) g =
          Some (mk_entry (kv_block_size m) (kv_layer_group_size m) s (n div kv_block_size m) g 1 b
            False) \<and> count (held t) (g, b) = 1) \<and>
       (\<forall>g < kv_num_layer_groups m. kv_avail t g + 1 = kv_avail m g)"
  shows "append_post m s n copies (t\<lparr>kv_sequence_lengths := dset s (Suc n) (kv_sequence_lengths t)\<rparr>)"
proof -
  let ?l = "n div kv_block_size m"
  let ?u = "t\<lparr>kv_sequence_lengths := dset s (Suc n) (kv_sequence_lengths t)\<rparr>"
  have seqs: "seqs_ok m" using inv by (simp add: kv_inv_def)
  have p: "p \<le> ?l"
    using view_present(2) [OF seqs L P] ceil_div_aligned [OF seqs_okD(1) [OF seqs] full] by simp
  have E: "kvE tmp ?u = kvE tmp t" for tmp by simp
  have hd: "held ?u = held t" by (simp add: held_def)
  have fr: "kv_frame s m ?u" using a by (simp add: kv_frame_def)
  have "view_ok (kv_num_layer_groups m) (kv_block_size m) (kv_layer_group_size m) s
      (Some (Suc n)) (Some p) (kvE False t s) (kvE True t s)"
    by (rule append_view [OF seqs L P p]) (use a full in auto)
  then have "seqs_ok ?u"
    by (intro seqs_ok_frame [OF seqs fr]) (use a P in simp)
  then have "kv_inv ?u" using a by (simp add: kv_inv_def)
  moreover have "kvE False ?u s ?l g \<noteq> None \<and> count (held ?u) (g, tail_old ?u s ?l g) = 1"
    if g: "g < kv_num_layer_groups m" for g
  proof -
    from a g obtain b where b: "kvE False t s ?l g = Some (mk_entry (kv_block_size m)
      (kv_layer_group_size m) s ?l g 1 b False)" "count (held t) (g, b) = 1" by blast
    then show ?thesis by (simp add: tail_old_def hd)
  qed
  ultimately show ?thesis
    unfolding append_post_def append_copies_def append_needs_def
    using a fr full by simp
qed

lemma append_tail_post:
  assumes inv: "kv_inv m" and L: "kvL m s = Some n" and P: "kvP m s = Some p"
    and part: "n mod kv_block_size m \<noteq> 0" and p: "p \<le> n div kv_block_size m"
    and sw: "switch_inv m s (n div kv_block_size m) cow t0 (kv_num_layer_groups m) copies t"
    and ok: "kv_ok t {#}"
    and av: "\<And>g. g < kv_num_layer_groups m \<Longrightarrow> kv_avail t g +
      (if tail_shared m s (n div kv_block_size m) g then 1 else 0) = kv_avail m g"
    and cow: "dkeys cow = filter (tail_shared m s (n div kv_block_size m)) [0..<kv_num_layer_groups m]"
  shows "append_post m s n copies (t\<lparr>kv_sequence_lengths := dset s (Suc n) (kv_sequence_lengths t)\<rparr>)"
proof -
  let ?bs = "kv_block_size m" and ?G = "kv_num_layer_groups m" and ?lgs = "kv_layer_group_size m"
  let ?l = "n div ?bs"
  let ?u = "t\<lparr>kv_sequence_lengths := dset s (Suc n) (kv_sequence_lengths t)\<rparr>"
  have seqs: "seqs_ok m" using inv by (simp add: kv_inv_def)
  have bs: "0 < ?bs" by (rule seqs_okD(1) [OF seqs])
  have hd: "held ?u = held t" by (simp add: held_def)
  from sw have views: "kvL t = kvL m" "kvP t = kvP m" "kvE True t = kvE True m"
    and frt: "kv_frame s m t"
    and same: "\<forall>l' g. \<not> (l' = ?l \<and> g < ?G) \<longrightarrow> kvE False t s l' g = kvE False m s l' g"
    and sole: "\<forall>g < ?G. count (held t) (g, tail_new m s ?l cow g) = 1"
    and cps: "copies = map (\<lambda>g. (g, tail_old m s ?l g, tail_new m s ?l cow g))
       (filter (tail_shared m s ?l) [0..<?G])"
    and ent: "\<forall>g < ?G. kvE False t s ?l g = Some (tail_entry m s ?l cow g)"
    unfolding switch_inv_def by - (elim conjE, assumption)+
  have E: "\<exists>b. kvE False t s ?l g = Some (mk_entry ?bs ?lgs s ?l g (Suc (n mod ?bs)) b False)"
    if g: "g < ?G" for g
  proof -
    have "kvE False m s ?l g \<noteq> None"
      using view_present(3) [OF seqs L P, of ?l g] p g ceil_div_unaligned [OF bs part] by simp
    then obtain e where e: "kvE False m s ?l g = Some e" by blast
    from view_present(4) [OF seqs L P e]
    obtain b where "e = mk_entry ?bs ?lgs s ?l g (n mod ?bs) b False"
      unfolding tail_filled(1) [OF bs] by (metis (no_types))
    then show ?thesis
      using ent g e by (simp add: tail_entry_def mk_entry_def)
  qed
  have tn: "tail_old ?u s ?l g = tail_new m s ?l cow g" if "g < ?G" for g
    using ent that by (simp add: tail_old_def tail_entry_def Let_def)
  have keep: "tail_new m s ?l cow g = tail_old m s ?l g" if "\<not> tail_shared m s ?l g" for g
  proof -
    have "g \<notin> set (dkeys cow)" unfolding cow using that by simp
    then have "map_of cow g = None" by (simp add: map_of_eq_None_iff)
    then show ?thesis by (simp add: tail_new_def)
  qed
  have fr: "kv_frame s m ?u" using frt by (simp add: kv_frame_def)
  have "view_ok ?G ?bs ?lgs s (Some (Suc n)) (Some p) (kvE False t s) (kvE True t s)"
    by (rule append_view [OF seqs L P p]) (use views same E in auto)
  then have "seqs_ok ?u"
    by (intro seqs_ok_frame [OF seqs fr]) (use views P in simp)
  then have "kv_inv ?u" using ok by (simp add: kv_inv_def)
  moreover have "copies = append_copies m s n ?u"
    unfolding append_copies_def cps Let_def using part tn by (simp cong: map_cong)
  ultimately show ?thesis
    unfolding append_post_def append_needs_def hd
    using views fr same sole ent tn keep part av by simp
qed

lemma append_overevicted:
  assumes seqs: "seqs_ok m" and miss: "kvE False m s l 0 = None"
  shows "wp (append_in_tail s l) Q (\<lambda>e t. e = KeyError \<and> t = m) m"
proof -
  have "0 < kv_num_layer_groups m" by (rule seqs_okD(3) [OF seqs])
  then have "append_cow_blocks s l m = (Inl KeyError, m)"
    using miss
    by (simp add: append_cow_blocks_def run_simps upt_conv_Cons get_entry_def dget_def kvE_def
        for_each_def sq_def throw_def bnd_def ret_def lift_err_def gets_def)
  then show ?thesis by (simp add: append_in_tail_def wp_bnd) (simp add: wp_def)
qed

text \<open>When \<open>append_token\<close> fails.\<close>

definition append_fails :: "kv_map \<Rightarrow> nat \<Rightarrow> py_error \<Rightarrow> bool" where
  "append_fails m s e \<longleftrightarrow>
     (case (kvL m s, kvP m s) of
        (Some n, Some p) \<Rightarrow>
          (\<exists>g < kv_num_layer_groups m. append_needs m s n g \<and> kv_avail m g = 0) \<or>
          (e = KeyError \<and> n mod kv_block_size m \<noteq> 0 \<and> n div kv_block_size m < p)
      | _ \<Rightarrow> e = KeyError)"

lemma append_token_ok:
  assumes inv: "kv_inv m"
  shows "wp (append_token s)
    (\<lambda>copies t. \<exists>n. kvL m s = Some n \<and> append_post m s n copies t)
    (\<lambda>e t. kv_inv t \<and> kv_rest t = kv_rest m \<and> kv_avail t = kv_avail m \<and> append_fails m s e) m"
proof (cases "kvL m s")
  case None
  with inv show ?thesis
    by (simp add: append_token_def wp_simps get_length_def dget_def kvL_def append_fails_def
        split: option.splits)
next
  case (Some n)
  let ?bs = "kv_block_size m" and ?G = "kv_num_layer_groups m"
  let ?l = "n div ?bs"
  have seqs: "seqs_ok m" using inv by (simp add: kv_inv_def)
  have bs: "0 < ?bs" by (rule seqs_okD(1) [OF seqs])
  from Some kvL_None_iff [OF seqs, of s] obtain p where P: "kvP m s = Some p" by auto
  have len: "dget (kv_sequence_lengths m) s = Inr n" using Some by (simp add: kvL_def)
  have new: "ceil_div (Suc n) ?bs = Suc ?l" using bs by (simp add: ceil_div_Suc)
  show ?thesis
  proof (cases "n mod ?bs = 0")
    case True
    then have cl: "ceil_div n ?bs = ?l" using bs by (simp add: ceil_div_aligned)
    have eq: "run_eq m (append_token s) (bnd (append_new_block s ?l) (\<lambda>copies.
        sq (set_length s (Suc n)) (ret copies)))"
      using len by (simp add: run_eq_def append_token_def get_length_def run_simps
          num_logical_blocks_def Let_def new cl)
    show ?thesis
      unfolding wp_run_eq [OF eq] wp_simps set_length_def
    proof (rule wp_mono [OF append_new_block_ok [OF inv Some P True]])
      fix e t
      assume "kv_inv t \<and> kv_rest t = kv_rest m \<and> kv_avail t = kv_avail m \<and>
        (\<exists>g < ?G. kv_avail m g = 0)"
      then show "kv_inv t \<and> kv_rest t = kv_rest m \<and> kv_avail t = kv_avail m \<and> append_fails m s e"
        using Some P True by (auto simp: append_fails_def append_needs_def)
    qed (use append_new_post [OF inv Some P True] Some in blast)
  next
    case False
    then have cl: "ceil_div n ?bs = Suc ?l" using bs by (simp add: ceil_div_unaligned)
    have eq: "run_eq m (append_token s) (bnd (append_in_tail s ?l) (\<lambda>copies.
        sq (set_length s (Suc n)) (ret copies)))"
      using len by (simp add: run_eq_def append_token_def get_length_def run_simps
          num_logical_blocks_def Let_def new cl)
    show ?thesis
    proof (cases "p \<le> ?l")
      case p: True
      then have tail: "kvE False m s ?l g \<noteq> None" if "g < ?G" for g
        using view_present(3) [OF seqs Some P, of ?l g] that cl by simp
      show ?thesis
        unfolding wp_run_eq [OF eq] wp_simps set_length_def
      proof (rule wp_mono [OF append_in_tail_ok [OF inv tail]])
        fix copies t
        assume "\<exists>cow t0. switch_inv m s ?l cow t0 ?G copies t \<and>
          dkeys cow = filter (tail_shared m s ?l) [0..<?G] \<and> kv_ok t {#} \<and>
          (\<forall>g < ?G. kv_avail t g + (if tail_shared m s ?l g then 1 else 0) = kv_avail m g)"
        then obtain cow t0 where "switch_inv m s ?l cow t0 ?G copies t"
          "dkeys cow = filter (tail_shared m s ?l) [0..<?G]" "kv_ok t {#}"
          "\<And>g. g < ?G \<Longrightarrow> kv_avail t g + (if tail_shared m s ?l g then 1 else 0) = kv_avail m g"
          by blast
        from append_tail_post [OF inv Some P False p this(1,3,4,2)] Some
        show "\<exists>k. kvL m s = Some k \<and> append_post m s k copies
          (t\<lparr>kv_sequence_lengths := dset s (Suc n) (kv_sequence_lengths t)\<rparr>)" by blast
      next
        fix e t
        assume "kv_inv t \<and> kv_rest t = kv_rest m \<and> kv_avail t = kv_avail m \<and>
          (\<exists>g < ?G. tail_shared m s ?l g \<and> kv_avail m g = 0)"
        then show "kv_inv t \<and> kv_rest t = kv_rest m \<and> kv_avail t = kv_avail m \<and> append_fails m s e"
          using Some P by (auto simp: append_fails_def append_needs_def)
      qed
    next
      case p: False
      then have "kvE False m s ?l 0 = None"
        using view_present(3) [OF seqs Some P, of ?l 0] by simp
      then have "wp (append_in_tail s ?l) (\<lambda>_ _. False) (\<lambda>e t. e = KeyError \<and> t = m) m"
        by (rule append_overevicted [OF seqs])
      then show ?thesis
        unfolding wp_run_eq [OF eq] wp_simps
        by (rule wp_mono) (use inv Some P False p in \<open>auto simp: append_fails_def\<close>)
    qed
  qed
qed

end
