(* ===== verification/Ellm_Cache_Seq.thy ===== *)
theory Ellm_Cache_Seq
  imports Ellm_Cache_Ops
begin

text \<open>
  Evicting a prefix, freeing a sequence and forking one. Freeing a fork gives back exactly the
  map the fork started from.
\<close>

section \<open>Removing entries\<close>

lemma map_of_filter_notin:
  "map_of (filter (\<lambda>p. fst p \<notin> S) d) k = (if k \<in> S then None else map_of d k)"
  by (induction d) auto

lemma kvE_filter:
  assumes "kv_rest t = kv_rest (kv_dict_update tmp (filter (\<lambda>p. fst p \<notin> S)) m)"
  shows "kvE tmp t s l g = (if (s, l, g) \<in> S then None else kvE tmp m s l g)"
  using kvE_dict_update(5) [OF assms] by (simp add: map_of_filter_notin kvE_def)

lemma wp_for_each_two:
  "wp (for_each [a, b] f) Q E s = wp (f a) (\<lambda>_. wp (f b) (\<lambda>_. Q ()) E) E s"
  by (simp add: for_each_def wp_simps)

text \<open>The map with nothing left of the sequence \<open>s\<close>.\<close>

definition drop_seq :: "nat \<Rightarrow> kv_map \<Rightarrow> kv_map" where
  "drop_seq s m = m\<lparr>
     kv_entries := filter (\<lambda>p. fst (fst p) \<noteq> s) (kv_entries m),
     kv_temporary_entries := filter (\<lambda>p. fst (fst p) \<noteq> s) (kv_temporary_entries m),
     kv_sequence_lengths := ddel s (kv_sequence_lengths m),
     kv_evicted_prefix_blocks := ddel s (kv_evicted_prefix_blocks m)\<rparr>"

lemma map_of_filter_seq:
  "map_of (filter (\<lambda>p. fst (fst p) \<noteq> s) d) (s', l, g) = (if s' = s then None else map_of d (s', l, g))"
  by (induction d) auto

lemma drop_seq_view [simp]:
  "kv_consts (drop_seq s m) = kv_consts m"
  "kvL (drop_seq s m) = (kvL m)(s := None)"
  "kvP (drop_seq s m) = (kvP m)(s := None)"
  "kvE tmp (drop_seq s m) s' l g = (if s' = s then None else kvE tmp m s' l g)"
  by (cases tmp; auto simp: drop_seq_def kv_consts_def kvL_def kvP_def kvE_def fun_eq_iff map_of_filter_seq)+

lemma free_keys_ok:
  assumes ok: "kv_ok m {#}"
  shows "wp (bnd (gets (\<lambda>m. filter (\<lambda>key. fst key = s) (dkeys (kv_dict tmp m))))
      (\<lambda>keys. for_each keys (pop_and_free tmp)))
    (\<lambda>_ t. kv_ok t {#} \<and> (\<forall>g. kv_avail m g \<le> kv_avail t g) \<and>
       kv_rest t = kv_rest (kv_dict_update tmp (filter (\<lambda>p. fst (fst p) \<noteq> s)) m))
    (\<lambda>_ _. False) m"
proof -
  let ?ks = "filter (\<lambda>key. fst key = s) (dkeys (kv_dict tmp m))"
  have eq: "filter (\<lambda>p. fst p \<notin> set ?ks) (kv_dict tmp m) = filter (\<lambda>p. fst (fst p) \<noteq> s) (kv_dict tmp m)"
    by (rule filter_cong) auto
  then have upd: "kv_dict_update tmp (filter (\<lambda>p. fst p \<notin> set ?ks)) m =
      kv_dict_update tmp (filter (\<lambda>p. fst (fst p) \<noteq> s)) m"
    by (cases tmp) simp_all
  have "distinct ?ks" "set ?ks \<subseteq> set (dkeys (kv_dict tmp m))"
    using kv_ok_distinct [OF ok, of tmp] by auto
  from pop_many_ok [OF ok this] show ?thesis
    unfolding wp_bnd wp_gets upd by (auto elim: wp_mono)
qed

lemma free_sequence_ok:
  assumes inv: "kv_inv m"
  shows "wp (free_sequence s)
    (\<lambda>_ t. kv_inv t \<and> kv_rest t = kv_rest (drop_seq s m) \<and> (\<forall>g. kv_avail m g \<le> kv_avail t g))
    (\<lambda>_ _. False) m"
proof -
  have ok: "kv_ok m {#}" and seqs: "seqs_ok m" using inv by (simp_all add: kv_inv_def)
  let ?del = "\<lambda>u. u\<lparr>kv_sequence_lengths := ddel s (kv_sequence_lengths u),
      kv_evicted_prefix_blocks := ddel s (kv_evicted_prefix_blocks u)\<rparr>"
  have fin: "kv_inv (?del u) \<and> kv_rest (?del u) = kv_rest (drop_seq s m) \<and>
      (\<forall>g. kv_avail m g \<le> kv_avail (?del u) g)"
    if t: "kv_rest t = kv_rest (kv_dict_update False (filter (\<lambda>p. fst (fst p) \<noteq> s)) m)"
      "\<forall>g. kv_avail m g \<le> kv_avail t g"
      and u: "kv_ok u {#}" "kv_rest u = kv_rest (kv_dict_update True (filter (\<lambda>p. fst (fst p) \<noteq> s)) t)"
      "\<forall>g. kv_avail t g \<le> kv_avail u g" for t u
  proof -
    let ?v = "?del u"
    have r: "kv_rest ?v = kv_rest (drop_seq s m)"
      using t(1) u(2) by (simp add: drop_seq_def kv_rest_eq)
    note V = rest_view [OF r]
    have E: "kvE tmp ?v s' l g = (if s' = s then None else kvE tmp m s' l g)" for tmp s' l g
      unfolding V(4) by simp
    have fr: "kv_frame s m ?v"
      unfolding kv_frame_def V(1-3) using E by (auto simp: fun_eq_iff)
    have "view_ok (kv_num_layer_groups m) (kv_block_size m) (kv_layer_group_size m) s
        (kvL ?v s) (kvP ?v s) (kvE False ?v s) (kvE True ?v s)"
      using V(2,3) E by (simp add: view_ok_def)
    then have "seqs_ok ?v" by (rule seqs_ok_frame [OF seqs fr])
    moreover have "kv_ok ?v {#}" using u(1) by (simp only: set_LP_view)
    moreover have "\<forall>g. kv_avail m g \<le> kv_avail ?v g"
      using t(2) u(3) by (simp only: set_LP_view) (meson order_trans)
    ultimately show ?thesis using r by (simp add: kv_inv_def)
  qed
  show ?thesis
    unfolding free_sequence_def wp_sq wp_for_each_two wp_modify
  proof (rule wp_mono [OF free_keys_ok [OF ok, of s False]])
    fix x t
    assume t: "kv_ok t {#} \<and> (\<forall>g. kv_avail m g \<le> kv_avail t g) \<and>
       kv_rest t = kv_rest (kv_dict_update False (filter (\<lambda>p. fst (fst p) \<noteq> s)) m)"
    then have okt: "kv_ok t {#}" by blast
    show "wp (bnd (gets (\<lambda>m. filter (\<lambda>key. fst key = s) (dkeys (kv_dict True m))))
        (\<lambda>keys. for_each keys (pop_and_free True)))
      (\<lambda>_ t. kv_inv (?del t) \<and> kv_rest (?del t) = kv_rest (drop_seq s m) \<and>
         (\<forall>g. kv_avail m g \<le> kv_avail (?del t) g)) (\<lambda>_ _. False) t"
      by (rule wp_mono [OF free_keys_ok [OF okt, of s True]]) (use t fin in blast)+
  qed simp
qed

section \<open>\<open>evict_prefix\<close>\<close>

text \<open>The number of whole blocks among the first \<open>k\<close> tokens that the sequence has.\<close>

definition evict_target :: "kv_map \<Rightarrow> nat \<Rightarrow> int \<Rightarrow> nat" where
  "evict_target m n k = min (nat (max k 0)) n div kv_block_size m"

lemma evict_prefix_ok:
  assumes inv: "kv_inv m"
  shows "wp (evict_prefix s k)
    (\<lambda>r t. \<exists>n p. kvL m s = Some n \<and> kvP m s = Some p \<and> p \<le> evict_target m n k \<and>
       kv_temporary_entries m = [] \<and>
       r = evict_target m n k * kv_block_size m \<and> kv_inv t \<and> kv_frame s m t \<and> kvL t = kvL m \<and>
       kvP t = (kvP m)(s \<mapsto> evict_target m n k) \<and> kv_temporary_entries t = [] \<and>
       (\<forall>l g. kvE False t s l g = (if l < evict_target m n k then None else kvE False m s l g)) \<and>
       (\<forall>g. kv_avail m g \<le> kv_avail t g))
    (\<lambda>e t. t = m \<and>
       (case (kvL m s, kvP m s) of
          (Some n, Some p) \<Rightarrow> kv_temporary_entries m \<noteq> [] \<or> evict_target m n k < p
        | _ \<Rightarrow> True)) m"
proof (cases "kv_temporary_entries m = [] \<and> kvL m s \<noteq> None")
  case False
  then show ?thesis
    using inv
    by (auto simp: evict_prefix_def wp_simps get_length_def dget_def kvL_def split: option.splits)
next
  case True
  have ok: "kv_ok m {#}" and seqs: "seqs_ok m" using inv by (simp_all add: kv_inv_def)
  from True kvL_None_iff [OF seqs, of s] obtain n p where L: "kvL m s = Some n" and P: "kvP m s = Some p"
    by auto
  let ?bs = "kv_block_size m" and ?G = "kv_num_layer_groups m"
  let ?q = "evict_target m n k"
  let ?key = "\<lambda>(l, g). (s, l, g) :: kv_key"
  let ?ks = "map ?key (List.product [p..<?q] [0..<?G])"
  have bs: "0 < ?bs" by (rule seqs_okD(1) [OF seqs])
  have dL: "dget (kv_sequence_lengths m) s = Inr n" and dP: "dget (kv_evicted_prefix_blocks m) s = Inr p"
    using L P by (simp_all add: kvL_def kvP_def)
  show ?thesis
  proof (cases "p \<le> ?q")
    case False
    have "run_eq m (evict_prefix s k) (throw (ValueError ''Growing the cached prefix is not supported''))"
      using True dL dP False
      by (simp add: run_eq_def evict_prefix_def run_simps get_length_def get_prefix_blocks_def Let_def
          evict_target_def)
    then show ?thesis
      using L P False by (simp add: wp_run_eq [of m "evict_prefix s k"] wp_throw)
  next
    case le: True
    have eq: "run_eq m (evict_prefix s k)
      (sq (for_each ?ks (pop_and_free False))
         (sq (set_prefix_blocks s ?q) (ret (?q * ?bs))))"
    proof -
      have "(\<lambda>(l, g). pop_and_free False (s, l, g)) = (\<lambda>x. pop_and_free False (?key x))"
        by (simp add: fun_eq_iff)
      then show ?thesis
        using True dL dP le
        by (simp add: run_eq_def evict_prefix_def run_simps get_length_def get_prefix_blocks_def Let_def
            evict_target_def for_each_map)
    qed
    have "?q \<le> n div ?bs" by (simp add: evict_target_def div_le_mono)
    then have q: "?q \<le> ceil_div n ?bs" using div_le_ceil_div [OF bs, of n] by simp
    have "inj_on ?key (set (List.product [p..<?q] [0..<?G]))" by (auto simp: inj_on_def)
    then have d: "distinct ?ks" by (simp add: distinct_map distinct_product)
    have "kvE False m s l g \<noteq> None" if "p \<le> l" "l < ?q" "g < ?G" for l g
      using view_present(3) [OF seqs L P, of l g] that q by auto
    then have sub: "set ?ks \<subseteq> set (dkeys (kv_dict False m))"
      by (auto simp: dkeys_image kvE_def)
    have mem: "(s', l, g) \<in> set ?ks \<longleftrightarrow> s' = s \<and> p \<le> l \<and> l < ?q \<and> g < ?G" for s' l g
      by auto
    show ?thesis
      unfolding wp_run_eq [OF eq] wp_simps set_prefix_blocks_def
    proof (rule wp_mono [OF pop_many_ok [OF ok d sub]])
      fix x t
      assume t: "kv_ok t {#} \<and>
        kv_rest t = kv_rest (kv_dict_update False (filter (\<lambda>p. fst p \<notin> set ?ks)) m) \<and>
        (\<forall>g. kv_avail m g \<le> kv_avail t g)"
      then have r: "kv_rest t = kv_rest (kv_dict_update False (filter (\<lambda>p. fst p \<notin> set ?ks)) m)"
        by blast
      let ?u = "t\<lparr>kv_evicted_prefix_blocks := dset s ?q (kv_evicted_prefix_blocks t)\<rparr>"
      note V = kvE_dict_update(1-4) [OF r]
      have E: "kvE False t s' l g =
          (if s' = s \<and> p \<le> l \<and> l < ?q \<and> g < ?G then None else kvE False m s' l g)" for s' l g
        unfolding kvE_filter [OF r] mem ..
      have new: "kvE False t s l g = (if l < ?q then None else kvE False m s l g)" for l g
        using view_present(3) [OF seqs L P, of l g] by (auto simp: E)
      have "kv_frame s m t" by (rule kv_frameI [OF V]) (simp add: E)
      then have fr: "kv_frame s m ?u" by (simp add: kv_frame_def)
      have tmp: "kvE True t = kvE True m" using V(4) by simp
      have none: "kvE True m s l g = None" for l g using True by (simp add: kvE_def)
      note W = view_present(1,2,3,4) [OF seqs L P]
      have "kvE False t s l g \<noteq> None \<longleftrightarrow> ?q \<le> l \<and> l < ceil_div n ?bs \<and> g < ?G" for l g
        unfolding new using W(3) [of l g] le by (cases "kvE False m s l g") auto
      then have "\<forall>l g. kvE False t s l g \<noteq> None \<longleftrightarrow> ?q \<le> l \<and> l < ceil_div n ?bs \<and> g < ?G"
        by blast
      moreover have "\<forall>l g e. kvE False t s l g = Some e \<longrightarrow> e = mk_entry ?bs (kv_layer_group_size m) s l g
          (min ?bs (n - l * ?bs)) (ke_physical_block_id e) False"
        unfolding new using W(4) by (auto split: if_splits)
      ultimately have "view_ok ?G ?bs (kv_layer_group_size m) s (Some n) (Some ?q)
          (kvE False t s) (kvE True t s)"
        unfolding view_ok_def prod.case option.case tmp using W(1) q none by simp
      then have "seqs_ok ?u"
        by (intro seqs_ok_frame [OF seqs fr]) (use V L in simp)
      moreover have "kv_temporary_entries t = []" using r True by (simp add: kv_rest_eq)
      ultimately show "\<exists>n p. kvL m s = Some n \<and> kvP m s = Some p \<and> p \<le> evict_target m n k \<and>
       kv_temporary_entries m = [] \<and>
       ?q * ?bs = evict_target m n k * ?bs \<and> kv_inv ?u \<and> kv_frame s m ?u \<and> kvL ?u = kvL m \<and>
       kvP ?u = (kvP m)(s \<mapsto> evict_target m n k) \<and> kv_temporary_entries ?u = [] \<and>
       (\<forall>l g. kvE False ?u s l g = (if l < evict_target m n k then None else kvE False m s l g)) \<and>
       (\<forall>g. kv_avail m g \<le> kv_avail ?u g)"
        using L P True t fr V new le
        by (intro exI [where x = n] exI [where x = p]) (simp add: kv_inv_def)
    qed simp
  qed
qed

section \<open>\<open>fork_sequence\<close>\<close>

definition child_of :: "nat \<Rightarrow> kv_key \<times> KVMapEntry \<Rightarrow> kv_key \<times> KVMapEntry" where
  "child_of c = (\<lambda>(key, e). ((c, snd key), e\<lparr>ke_seq_id := c\<rparr>))"

definition entries_of :: "nat \<Rightarrow> (kv_key, KVMapEntry) pydict \<Rightarrow> (kv_key, KVMapEntry) pydict" where
  "entries_of p d = filter (\<lambda>(key, e). fst key = p) d"

lemma entries_of_mem: "z \<in> set (entries_of p d) \<Longrightarrow> fst (fst z) = p \<and> z \<in> set d"
  by (cases z) (simp add: entries_of_def)

lemma entries_of_absent:
  assumes "\<And>l g. map_of d (p, l, g) = None"
  shows "entries_of p d = []"
proof -
  have "fst (fst z) \<noteq> p" if "z \<in> set d" for z
    using that assms [of "fst (snd (fst z))" "snd (snd (fst z))"]
    by (auto simp: map_of_eq_None_iff)
  then show ?thesis using entries_of_mem by (metis list.set_intros(1) neq_Nil_conv)
qed

lemma map_of_child:
  "map_of (map (child_of c) (entries_of p d)) (s, l, g) =
     (if s = c then map_option (\<lambda>e. e\<lparr>ke_seq_id := c\<rparr>) (map_of d (p, l, g)) else None)"
  by (induction d) (auto simp: child_of_def entries_of_def)

lemma fork_loop_ok:
  assumes ok: "kv_ok m {#}" and absent: "\<And>l g. map_of (kv_entries m) (c, l, g) = None"
  shows "wp (for_each (entries_of p (kv_entries m)) (\<lambda>(key, entry).
      sq (retain_block (key_group key) (ke_physical_block_id entry))
         (put_entry False (c, fst (snd key), key_group key) (entry\<lparr>ke_seq_id := c\<rparr>))))
    (\<lambda>_ t. kv_ok t {#} \<and> kv_avail t = kv_avail m \<and>
       kv_rest t = kv_rest (kv_dict_update False
         (\<lambda>d. d @ map (child_of c) (entries_of p (kv_entries m))) m))
    (\<lambda>_ _. False) m"
proof -
  let ?pe = "entries_of p (kv_entries m)"
  let ?J = "\<lambda>zs t. kv_ok t {#} \<and> kv_avail t = kv_avail m \<and>
       kv_rest t = kv_rest (kv_dict_update False (\<lambda>d. d @ map (child_of c) zs) m)"
  show ?thesis
  proof (rule wp_for_each [where I = "\<lambda>ys t. \<exists>zs. ?pe = zs @ ys \<and> ?J zs t"])
    show "\<exists>zs. ?pe = zs @ ?pe \<and> ?J zs m" using ok by simp
  next
    fix x ys t
    assume "\<exists>zs. ?pe = zs @ x # ys \<and> ?J zs t"
    then obtain zs where pe: "?pe = zs @ x # ys" and J: "?J zs t" by blast
    obtain l g e where x: "x = ((p, l, g), e)"
    proof -
      have "x \<in> set ?pe" unfolding pe by simp
      then have "fst (fst x) = p" using entries_of_mem by blast
      then show thesis using that by (cases x) auto
    qed
    have okt: "kv_ok t {#}" and r: "kv_rest t = kv_rest (kv_dict_update False
        (\<lambda>d. d @ map (child_of c) zs) m)" using J by blast+
    have dict: "kv_entries t = kv_entries m @ map (child_of c) zs"
      using kv_dict_rest [OF r, of False] by simp
    have "x \<in> set ?pe" unfolding pe by simp
    then have "((p, l, g), e) \<in> set (kv_entries t)"
      using x dict by (simp add: entries_of_def)
    then have "map_of (kv_dict False t) (p, l, g) = Some e"
      using kv_ok_distinct [OF okt, of False] by simp
    then have own: "(g, ke_physical_block_id e) \<in># held t + {#}"
      using owned_mem [of "kv_entries t" "(p, l, g)" e] by (simp add: held_def)
    have "distinct (dkeys (zs @ x # ys))"
      unfolding pe [symmetric] entries_of_def
      by (rule distinct_map_filter) (use kv_ok_distinct [OF ok, of False] in simp)
    then have "(p, l, g) \<notin> set (dkeys zs)" using x by simp
    moreover have "fst (fst z) = p" if "z \<in> set zs" for z
    proof -
      have "z \<in> set ?pe" unfolding pe using that by simp
      then show ?thesis using entries_of_mem by blast
    qed
    ultimately have "(c, l, g) \<notin> set (dkeys (map (child_of c) zs))"
      by (force simp: child_of_def)
    then have fresh: "(c, l, g) \<notin> set (dkeys (kv_entries t))"
      using absent [of l g] unfolding dict by (simp add: map_of_eq_None_iff)
    show "wp (case x of (key, entry) \<Rightarrow>
        sq (retain_block (key_group key) (ke_physical_block_id entry))
           (put_entry False (c, fst (snd key), key_group key) (entry\<lparr>ke_seq_id := c\<rparr>)))
      (\<lambda>_ t. \<exists>zs. ?pe = zs @ ys \<and> ?J zs t) (\<lambda>_ _. False) t"
      unfolding x prod.case fst_conv snd_conv wp_sq
    proof (rule wp_mono [OF kvp.retain_owned [OF kv_ok_pool [OF okt] own]])
      fix y u
      assume u: "pool_ok u (add_mset (g, ke_physical_block_id e) (held t + {#})) \<and>
        kv_rest u = kv_rest t \<and> kv_avail u = kv_avail t"
      then have ru: "kv_rest u = kv_rest t" by blast
      have oku: "kv_ok u (add_mset (key_group (c, l, g), ke_physical_block_id (e\<lparr>ke_seq_id := c\<rparr>)) {#})"
        by (rule kv_ok_transfer [OF okt ru]) (use u in simp)
      have fr: "(c, l, g) \<notin> set (dkeys (kv_dict False u))"
        using fresh kv_dict_rest [OF ru, of False] by simp
      show "wp (put_entry False (c, l, g) (e\<lparr>ke_seq_id := c\<rparr>))
        (\<lambda>_ t. \<exists>zs. ?pe = zs @ ys \<and> ?J zs t) (\<lambda>_ _. False) u"
      proof (rule wp_mono [OF put_entry_fresh [OF oku fr]])
        fix z v
        assume v: "kv_ok v {#} \<and>
          v = kv_dict_update False (\<lambda>d. d @ [((c, l, g), e\<lparr>ke_seq_id := c\<rparr>)]) u"
        have "kv_avail v = kv_avail m"
          using v u J by (simp only: kv_avail_dict_update)
        moreover have "kv_rest v = kv_rest (kv_dict_update False (\<lambda>d. d @ map (child_of c) (zs @ [x])) m)"
          using v x kv_rest_dict_update [OF trans [OF ru r], of False
              "\<lambda>d. d @ [((c, l, g), e\<lparr>ke_seq_id := c\<rparr>)]"] by (simp add: child_of_def)
        ultimately have "?J (zs @ [x]) v" using v by blast
        then show "\<exists>zs. ?pe = zs @ ys \<and> ?J zs v" using pe by (intro exI [where x = "zs @ [x]"]) simp
      qed simp
    qed simp
  qed auto
qed

lemma fork_sequence_ok:
  assumes inv: "kv_inv m"
  shows "wp (fork_sequence p c)
    (\<lambda>_ t. \<exists>n q. kvL m c = None \<and> kvL m p = Some n \<and> kvP m p = Some q \<and>
       (\<forall>l g. kvE True m p l g = None) \<and>
       kv_inv t \<and> kv_frame c m t \<and> kvL t = (kvL m)(c \<mapsto> n) \<and> kvP t = (kvP m)(c \<mapsto> q) \<and>
       (\<forall>l g. kvE False t c l g = map_option (\<lambda>e. e\<lparr>ke_seq_id := c\<rparr>) (kvE False m p l g)) \<and>
       (\<forall>l g. kvE True t c l g = None) \<and>
       kv_avail t = kv_avail m \<and> kv_rest (drop_seq c t) = kv_rest m)
    (\<lambda>e t. t = m \<and> (kvL m c \<noteq> None \<or> kvL m p = None \<or> (\<exists>l g. kvE True m p l g \<noteq> None))) m"
proof -
  have ok: "kv_ok m {#}" and seqs: "seqs_ok m" using inv by (simp_all add: kv_inv_def)
  have tmps: "(\<forall>key \<in> set (dkeys (kv_temporary_entries m)). fst key \<noteq> p) \<longleftrightarrow>
      (\<forall>l g. kvE True m p l g = None)"
  proof -
    have "kvE True m p l g = None \<longleftrightarrow> (p, l, g) \<notin> set (dkeys (kv_temporary_entries m))" for l g
      by (simp add: kvE_def map_of_eq_None_iff)
    then show ?thesis by (metis prod.collapse fst_conv)
  qed
  let ?G = "kvL m c = None \<and> (\<forall>l g. kvE True m p l g = None)"
  let ?body = "\<lambda>(key, entry). sq (retain_block (key_group key) (ke_physical_block_id entry))
         (put_entry False (c, fst (snd key), key_group key) (entry\<lparr>ke_seq_id := c\<rparr>))"
  show ?thesis
  proof (cases "?G \<and> kvL m p \<noteq> None")
    case False
    show ?thesis
    proof (cases ?G)
      case G: True
      with False have n: "kvL m p = None" by blast
      then have "kvE False m p l g = None" for l g
        by (cases rule: view_cases [OF seqs, of p]) auto
      then have "entries_of p (kv_entries m) = []"
        by (intro entries_of_absent) (simp add: kvE_def)
      with G n tmps show ?thesis
        by (simp add: fork_sequence_def wp_simps entries_of_def [symmetric] for_each_def kvL_def
            dkeys_image get_length_def dget_def Let_def)
    qed (use tmps in \<open>auto simp: fork_sequence_def wp_simps kvL_def dkeys_image\<close>)
  next
    case True
    then obtain n where L: "kvL m p = Some n" by blast
    with kvL_None_iff [OF seqs, of p] obtain q where P: "kvP m p = Some q" by auto
    have Lc: "kvL m c = None" using True by blast
    then have absent: "kvE tmp m c l g = None" for tmp l g
      by (cases rule: view_cases [OF seqs, of c]) auto
    then have abs: "map_of (kv_entries m) (c, l, g) = None" for l g
      by (metis kvE_def kv_dict_simps(1))
    have eq: "run_eq m (fork_sequence p c) (sq (for_each (entries_of p (kv_entries m)) ?body)
      (bnd (get_length p) (\<lambda>n. sq (set_length c n)
        (bnd (get_prefix_blocks p) (\<lambda>q. set_prefix_blocks c q)))))"
      using True tmps
      by (simp add: run_eq_def fork_sequence_def run_simps entries_of_def kvL_def dkeys_image Let_def)
    show ?thesis
      unfolding wp_run_eq [OF eq] wp_sq
    proof (rule wp_mono [OF fork_loop_ok [OF ok abs]])
      fix x t
      assume t: "kv_ok t {#} \<and> kv_avail t = kv_avail m \<and> kv_rest t = kv_rest (kv_dict_update False
         (\<lambda>d. d @ map (child_of c) (entries_of p (kv_entries m))) m)"
      then have r: "kv_rest t = kv_rest (kv_dict_update False
         (\<lambda>d. d @ map (child_of c) (entries_of p (kv_entries m))) m)" by blast
      let ?u = "t\<lparr>kv_sequence_lengths := dset c n (kv_sequence_lengths t)\<rparr>"
      let ?v = "?u\<lparr>kv_evicted_prefix_blocks := dset c q (kv_evicted_prefix_blocks ?u)\<rparr>"
      note V = kvE_dict_update(1-4) [OF r]
      have dict: "kv_entries t = kv_entries m @ map (child_of c) (entries_of p (kv_entries m))"
        using kv_dict_rest [OF r, of False] by simp
      have E: "kvE False t s l g = (if s = c then map_option (\<lambda>e. e\<lparr>ke_seq_id := c\<rparr>) (kvE False m p l g)
          else kvE False m s l g)" for s l g
        using kvE_dict_update(5) [OF r, of s l g] abs [of l g]
        by (auto simp: map_of_child kvE_def map_add_def split: option.splits)
      have "kv_frame c m t" by (rule kv_frameI [OF V]) (simp add: E)
      then have fr: "kv_frame c m ?v" by (simp add: kv_frame_def)
      have tmp: "kvE True ?v c l g = None" for l g using V(4) absent by simp
      note W = view_present [OF seqs L P]
      have "kvE False ?v c l g = None \<longleftrightarrow> kvE False m p l g = None" for l g
        by (simp add: E)
      then have "\<forall>l g. kvE False ?v c l g \<noteq> None \<longleftrightarrow>
          q \<le> l \<and> l < ceil_div n (kv_block_size m) \<and> g < kv_num_layer_groups m"
        using W(3) by metis
      moreover have "\<forall>l g e. kvE False ?v c l g = Some e \<longrightarrow> e = mk_entry (kv_block_size m)
          (kv_layer_group_size m) c l g (min (kv_block_size m) (n - l * kv_block_size m))
          (ke_physical_block_id e) False"
      proof (intro allI impI)
        fix l g e
        assume "kvE False ?v c l g = Some e"
        then obtain e' where "kvE False m p l g = Some e'" "e = e'\<lparr>ke_seq_id := c\<rparr>"
          by (auto simp: E)
        with W(4) [OF this(1)] obtain b where "e' = mk_entry (kv_block_size m)
          (kv_layer_group_size m) p l g (min (kv_block_size m) (n - l * kv_block_size m)) b False"
          by metis
        with \<open>e = _\<close> show "e = mk_entry (kv_block_size m) (kv_layer_group_size m) c l g
          (min (kv_block_size m) (n - l * kv_block_size m)) (ke_physical_block_id e) False"
          by (simp add: mk_entry_def)
      qed
      ultimately have "view_ok (kv_num_layer_groups m) (kv_block_size m) (kv_layer_group_size m) c
          (kvL ?v c) (kvP ?v c) (kvE False ?v c) (kvE True ?v c)"
        unfolding view_ok_def using W(1,2) tmp V by simp
      then have "seqs_ok ?v" by (rule seqs_ok_frame [OF seqs fr])
      then have inv': "kv_inv ?v" using t by (simp add: kv_inv_def)
      have drop: "kv_rest (drop_seq c ?v) = kv_rest m"
      proof -
        have "c \<notin> set (dkeys (kv_sequence_lengths m))" "c \<notin> set (dkeys (kv_evicted_prefix_blocks m))"
          using Lc kvL_None_iff [OF seqs, of c] by (simp_all add: kvL_def kvP_def map_of_eq_None_iff)
        moreover have "filter (\<lambda>p. fst (fst p) \<noteq> c) (kv_entries t) = kv_entries m"
        proof -
          have "filter (\<lambda>p. fst (fst p) \<noteq> c) (kv_entries m) = kv_entries m"
            using abs by (intro filter_True) (force simp: map_of_eq_None_iff)
          then show ?thesis
            unfolding dict by (auto simp: filter_empty_conv child_of_def)
        qed
        moreover have "filter (\<lambda>p. fst (fst p) \<noteq> c) (kv_temporary_entries m) = kv_temporary_entries m"
          using absent [of True] by (intro filter_True) (force simp: kvE_def map_of_eq_None_iff)
        ultimately show ?thesis
          using r by (simp add: kv_rest_eq drop_seq_def ddel_fresh del: list.map)
      qed
      have "dget (kv_sequence_lengths t) p = Inr n" "dget (kv_evicted_prefix_blocks ?u) p = Inr q"
        using L P r by (simp_all add: kv_rest_eq kvL_def kvP_def)
      moreover have "\<exists>n q. kvL m c = None \<and> kvL m p = Some n \<and> kvP m p = Some q \<and>
       (\<forall>l g. kvE True m p l g = None) \<and>
       kv_inv ?v \<and> kv_frame c m ?v \<and> kvL ?v = (kvL m)(c \<mapsto> n) \<and> kvP ?v = (kvP m)(c \<mapsto> q) \<and>
       (\<forall>l g. kvE False ?v c l g = map_option (\<lambda>e. e\<lparr>ke_seq_id := c\<rparr>) (kvE False m p l g)) \<and>
       (\<forall>l g. kvE True ?v c l g = None) \<and>
       kv_avail ?v = kv_avail m \<and> kv_rest (drop_seq c ?v) = kv_rest m"
        using L P Lc True V E fr inv' drop tmp t by auto
      ultimately show "wp (bnd (get_length p) (\<lambda>n. sq (set_length c n)
        (bnd (get_prefix_blocks p) (set_prefix_blocks c))))
        (\<lambda>_ t. \<exists>n q. kvL m c = None \<and> kvL m p = Some n \<and> kvP m p = Some q \<and>
       (\<forall>l g. kvE True m p l g = None) \<and>
       kv_inv t \<and> kv_frame c m t \<and> kvL t = (kvL m)(c \<mapsto> n) \<and> kvP t = (kvP m)(c \<mapsto> q) \<and>
       (\<forall>l g. kvE False t c l g = map_option (\<lambda>e. e\<lparr>ke_seq_id := c\<rparr>) (kvE False m p l g)) \<and>
       (\<forall>l g. kvE True t c l g = None) \<and>
       kv_avail t = kv_avail m \<and> kv_rest (drop_seq c t) = kv_rest m)
        (\<lambda>e t. t = m \<and> (kvL m c \<noteq> None \<or> kvL m p = None \<or> (\<exists>l g. kvE True m p l g \<noteq> None))) t"
        by (simp only: wp_simps get_length_def get_prefix_blocks_def set_length_def
            set_prefix_blocks_def sum.case)
    qed simp
  qed
qed

text \<open>A fork that is freed again leaves no trace: every reference it took is given back.\<close>

lemma drop_seq_rest: "kv_rest s = kv_rest t \<Longrightarrow> kv_rest (drop_seq c s) = kv_rest (drop_seq c t)"
  by (simp add: kv_rest_eq drop_seq_def)

lemma fork_free_ok:
  assumes inv: "kv_inv m"
  shows "wp (sq (fork_sequence p c) (free_sequence c))
    (\<lambda>_ t. kv_inv t \<and> kv_rest t = kv_rest m \<and> kv_avail t = kv_avail m)
    (\<lambda>_ t. t = m) m"
  unfolding wp_sq
proof (rule wp_mono [OF fork_sequence_ok [OF inv]])
  fix x t
  assume "\<exists>n q. kvL m c = None \<and> kvL m p = Some n \<and> kvP m p = Some q \<and>
       (\<forall>l g. kvE True m p l g = None) \<and>
       kv_inv t \<and> kv_frame c m t \<and> kvL t = (kvL m)(c \<mapsto> n) \<and> kvP t = (kvP m)(c \<mapsto> q) \<and>
       (\<forall>l g. kvE False t c l g = map_option (\<lambda>e. e\<lparr>ke_seq_id := c\<rparr>) (kvE False m p l g)) \<and>
       (\<forall>l g. kvE True t c l g = None) \<and>
       kv_avail t = kv_avail m \<and> kv_rest (drop_seq c t) = kv_rest m"
  then have t: "kv_inv t" "kv_rest (drop_seq c t) = kv_rest m" by blast+
  show "wp (free_sequence c)
      (\<lambda>_ t. kv_inv t \<and> kv_rest t = kv_rest m \<and> kv_avail t = kv_avail m) (\<lambda>_ t. t = m) t"
  proof (rule wp_mono [OF free_sequence_ok [OF t(1)]])
    fix y u
    assume u: "kv_inv u \<and> kv_rest u = kv_rest (drop_seq c t) \<and> (\<forall>g. kv_avail t g \<le> kv_avail u g)"
    then have r: "kv_rest u = kv_rest m" using t(2) by simp
    have "kv_ok u {#}" "kv_ok m {#}" using u inv by (simp_all add: kv_inv_def)
    from kv_ok_avail [OF this r] u r
    show "kv_inv u \<and> kv_rest u = kv_rest m \<and> kv_avail u = kv_avail m" by blast
  qed simp
qed simp

end
