(* ===== verification/Ellm_Cache_Plan.thy ===== *)
theory Ellm_Cache_Plan
  imports Ellm_Cache_Append Ellm_Cache_Seq
begin

text \<open>
  Block tables, the temporary blocks of a recompute, and the per-layer-group plans. A plan that
  is built and released leaves the map as it was, also when building it fails half way, and
  the recompute slots of a plan are pairwise different.
\<close>

section \<open>Block tables\<close>

text \<open>The block of the logical block \<open>l\<close>: the temporary one, or else the retained one.\<close>

definition decode_block :: "kv_map \<Rightarrow> nat \<Rightarrow> nat \<Rightarrow> nat \<Rightarrow> nat option" where
  "decode_block m s g l = map_option ke_physical_block_id
     (case kvE True m s l g of Some e \<Rightarrow> Some e | None \<Rightarrow> kvE False m s l g)"

lemma map_of_rev: "distinct (dkeys d) \<Longrightarrow> map_of (rev d) = map_of d"
proof (induction d)
  case (Cons p d)
  then have "map_of d (fst p) = None" by (simp add: map_of_eq_None_iff)
  with Cons show ?case by (cases p) (auto simp: fun_eq_iff map_add_def split: option.splits)
qed simp

lemma fold_table_ok:
  assumes "\<And>l e. ((s, l, g), e) \<in> set d \<Longrightarrow> ke_logical_block_id e = l \<and> l < length table"
  shows "wp (fold_each d table (\<lambda>table (key, entry).
      if fst key = s \<and> key_group key = g then table_put table entry else ret table))
    (\<lambda>r t. t = m \<and> length r = length table \<and> (\<forall>l < length table. r ! l =
       (case map_of (rev d) (s, l, g) of
          Some e \<Rightarrow> Some (ke_physical_block_id e) | None \<Rightarrow> table ! l)))
    (\<lambda>_ _. False) m"
  using assms
proof (induction d arbitrary: table)
  case Nil
  then show ?case by (simp add: wp_ret)
next
  case (Cons x d)
  obtain s' l g' e where x: "x = ((s', l, g'), e)" by (cases x) auto
  show ?case
  proof (cases "s' = s \<and> g' = g")
    case True
    with Cons.prems [of l e] x have l: "ke_logical_block_id e = l" "l < length table" by auto
    have "wp (fold_each d (table[l := Some (ke_physical_block_id e)]) (\<lambda>table (key, entry).
      if fst key = s \<and> key_group key = g then table_put table entry else ret table))
    (\<lambda>r t. t = m \<and> length r = length table \<and> (\<forall>i < length table. r ! i =
       (case map_of (rev d) (s, i, g) of
          Some e \<Rightarrow> Some (ke_physical_block_id e)
        | None \<Rightarrow> table[l := Some (ke_physical_block_id e)] ! i)))
    (\<lambda>_ _. False) m"
      using Cons.IH [of "table[l := Some (ke_physical_block_id e)]"] Cons.prems by auto
    then show ?thesis
      using l True unfolding x
      by (simp add: wp_simps table_put_def)
        (erule wp_mono, auto simp: nth_list_update map_add_def split: option.splits)
  next
    case False
    have "wp (fold_each d table (\<lambda>table (key, entry).
      if fst key = s \<and> key_group key = g then table_put table entry else ret table))
    (\<lambda>r t. t = m \<and> length r = length table \<and> (\<forall>i < length table. r ! i =
       (case map_of (rev d) (s, i, g) of
          Some e \<Rightarrow> Some (ke_physical_block_id e) | None \<Rightarrow> table ! i)))
    (\<lambda>_ _. False) m"
      using Cons.IH [of table] Cons.prems by auto
    then show ?thesis
      using False unfolding x
      by (simp add: wp_simps del: de_Morgan_conj)
        (erule wp_mono, auto simp: map_add_def split: option.splits)
  qed
qed

lemma get_decode_block_table_ok:
  assumes inv: "kv_inv m" and L: "kvL m s = Some n" and P: "kvP m s = Some p"
  shows "wp (get_decode_block_table s g)
    (\<lambda>r t. t = m \<and> (\<forall>l < ceil_div n (kv_block_size m). decode_block m s g l \<noteq> None) \<and>
       r = map (\<lambda>l. the (decode_block m s g l)) [0..<ceil_div n (kv_block_size m)])
    (\<lambda>_ t. t = m \<and> (\<exists>l < ceil_div n (kv_block_size m). decode_block m s g l = None)) m"
proof -
  have ok: "kv_ok m {#}" and seqs: "seqs_ok m" using inv by (simp_all add: kv_inv_def)
  note V = view_present [OF seqs L P]
  let ?N = "ceil_div n (kv_block_size m)" and ?d = "kv_entries m @ kv_temporary_entries m"
  have dist: "distinct (dkeys (kv_entries m))" "distinct (dkeys (kv_temporary_entries m))"
    using kv_ok_distinct [OF ok, of False] kv_ok_distinct [OF ok, of True] by simp_all
  have logical: "ke_logical_block_id e = l \<and> l < length (replicate ?N None)"
    if e: "((s, l, g), e) \<in> set ?d" for l e
  proof -
    from e consider "kvE False m s l g = Some e" | "kvE True m s l g = Some e"
      using dist by (auto simp: kvE_def)
    then show ?thesis
    proof cases
      case 1
      with V(3) [of l g] V(4) [OF 1] show ?thesis
        by (metis length_replicate mk_entry_phys(2) option.distinct(1))
    next
      case 2
      then have "l < p" using V(5) by (metis option.distinct(1))
      with V(2) V(6) [OF 2] show ?thesis by (metis length_replicate mk_entry_phys(2) order_less_le_trans)
    qed
  qed
  have look: "(case map_of (rev ?d) (s, l, g) of
      Some e \<Rightarrow> Some (ke_physical_block_id e) | None \<Rightarrow> None) = decode_block m s g l" for l
    using map_of_rev [OF dist(1)] map_of_rev [OF dist(2)]
    by (auto simp: decode_block_def kvE_def map_add_def split: option.splits)
  have len: "dget (kv_sequence_lengths m) s = Inr n" using L by (simp add: kvL_def)
  show ?thesis
    unfolding get_decode_block_table_def get_length_def wp_bnd wp_lift_err wp_gets len sum.case
      num_logical_blocks_def id_apply
  proof (rule wp_mono [OF fold_table_ok [OF logical]])
    fix r t
    assume a: "t = m \<and> length r = length (replicate ?N (None :: nat option)) \<and>
      (\<forall>l < length (replicate ?N None :: nat option list). r ! l = (case map_of (rev ?d) (s, l, g) of
          Some e \<Rightarrow> Some (ke_physical_block_id e) | None \<Rightarrow> replicate ?N None ! l))"
    have "r ! l = decode_block m s g l" if "l < ?N" for l
      using a that look [of l] by (auto split: option.splits)
    then have r: "r = map (decode_block m s g) [0..<?N]"
      using a by (intro nth_equalityI) simp_all
    show "wp (sq (ensure (None \<notin> set r) (RuntimeError ''Decode block table has an uncached gap''))
        (ret (map the r)))
      (\<lambda>r t. t = m \<and> (\<forall>l < ?N. decode_block m s g l \<noteq> None) \<and>
         r = map (\<lambda>l. the (decode_block m s g l)) [0..<?N])
      (\<lambda>_ t. t = m \<and> (\<exists>l < ?N. decode_block m s g l = None)) t"
    proof -
      have "t = m" using a by blast
      then show ?thesis unfolding r
        by (simp add: wp_simps image_iff del: not_None_eq) (metis atLeastLessThan_iff le0)
    qed
  qed simp_all
qed

lemma sorted_key_upt:
  fixes f :: "'a \<Rightarrow> nat"
  assumes "distinct (map f xs)" "f ` set xs = {a..<b}"
  shows "map f (sort_key f xs) = [a..<b]"
proof (rule sorted_distinct_set_unique)
  have "mset (map f (sort_key f xs)) = mset (map f xs)" by simp
  then show "distinct (map f (sort_key f xs))"
    using assms(1) by (metis mset_eq_imp_distinct_iff)
  show "set (map f (sort_key f xs)) = set [a..<b]" using assms(2) by simp
qed simp_all

lemma get_retained_block_table_ok:
  assumes inv: "kv_inv m" and L: "kvL m s = Some n" and P: "kvP m s = Some p"
    and g: "g < kv_num_layer_groups m"
  shows "get_retained_block_table s g m =
    (Inr (map (\<lambda>l. ke_physical_block_id (the (kvE False m s l g))) [p..<ceil_div n (kv_block_size m)]), m)"
proof -
  have ok: "kv_ok m {#}" and seqs: "seqs_ok m" using inv by (simp_all add: kv_inv_def)
  note V = view_present [OF seqs L P]
  let ?d = "filter (\<lambda>(key, entry). fst key = s \<and> key_group key = g) (kv_entries m)"
  let ?N = "ceil_div n (kv_block_size m)"
  have dist: "distinct (dkeys (kv_entries m))" using kv_ok_distinct [OF ok, of False] by simp
  have mem: "(k, e) \<in> set ?d \<Longrightarrow> k = (s, ke_logical_block_id e, g) \<and>
      kvE False m s (ke_logical_block_id e) g = Some e" for k e
  proof -
    assume a: "(k, e) \<in> set ?d"
    then obtain l where k: "k = (s, l, g)" by (cases k) auto
    with a dist have E: "kvE False m s l g = Some e" by (auto simp: kvE_def)
    from V(4) [OF this] have "ke_logical_block_id e = l" by (metis mk_entry_phys(2))
    with k E show ?thesis by simp
  qed
  have keys: "map ke_logical_block_id (map snd ?d) = map (\<lambda>k. fst (snd k)) (dkeys ?d)"
    using mem by (auto simp: map_eq_conv)
  have "inj_on (\<lambda>k. fst (snd k)) (set (dkeys ?d))"
    by (rule inj_onI) (use mem in auto)
  moreover have "distinct (dkeys ?d)" by (rule distinct_map_filter [OF dist])
  ultimately have 1: "distinct (map ke_logical_block_id (map snd ?d))"
    unfolding keys distinct_map [of "\<lambda>k. fst (snd k)"] by (rule conjI [rotated])
  have 2: "ke_logical_block_id ` set (map snd ?d) = {p..<?N}"
  proof (rule set_eqI)
    fix l
    show "l \<in> ke_logical_block_id ` set (map snd ?d) \<longleftrightarrow> l \<in> {p..<?N}"
    proof
      assume "l \<in> ke_logical_block_id ` set (map snd ?d)"
      then obtain k e where "(k, e) \<in> set ?d" "l = ke_logical_block_id e" by auto
      with mem [of k e] have "kvE False m s l g \<noteq> None" by simp
      then show "l \<in> {p..<?N}" using V(3) [of l g] by simp
    next
      assume "l \<in> {p..<?N}"
      then have "kvE False m s l g \<noteq> None" using V(3) [of l g] g by simp
      then obtain e where e: "kvE False m s l g = Some e" by blast
      then have "((s, l, g), e) \<in> set ?d" by (auto simp: kvE_def dest: map_of_SomeD)
      moreover from V(4) [OF e] have "ke_logical_block_id e = l" by (metis mk_entry_phys(2))
      ultimately show "l \<in> ke_logical_block_id ` set (map snd ?d)" by force
    qed
  qed
  let ?es = "sort_key ke_logical_block_id (map snd ?d)"
  have up: "map ke_logical_block_id ?es = [p..<?N]" by (rule sorted_key_upt [OF 1 2])
  have "e = the (kvE False m s (ke_logical_block_id e) g)" if "e \<in> set ?es" for e
    using that mem by fastforce
  then have "map ke_physical_block_id ?es =
      map (\<lambda>e. ke_physical_block_id (the (kvE False m s (ke_logical_block_id e) g))) ?es"
    by (intro map_cong) auto
  also have "\<dots> = map (\<lambda>l. ke_physical_block_id (the (kvE False m s l g))) [p..<?N]"
    unfolding up [symmetric] by simp
  finally show ?thesis by (simp add: get_retained_block_table_def gets_def)
qed

section \<open>Beginning and ending a recompute\<close>

definition recompute_entry :: "kv_map \<Rightarrow> nat \<Rightarrow> nat \<Rightarrow> nat \<Rightarrow> nat \<Rightarrow> KVMapEntry" where
  "recompute_entry m s g l b =
     mk_entry (kv_block_size m) (kv_layer_group_size m) s l g (kv_block_size m) b True"

definition begin_post ::
  "kv_map \<Rightarrow> nat \<Rightarrow> nat \<Rightarrow> nat list \<Rightarrow> kv_map \<Rightarrow> bool"
where
  "begin_post m s g r t \<longleftrightarrow> (\<exists>n p. kvL m s = Some n \<and> kvP m s = Some p \<and>
     g < kv_num_layer_groups m \<and> p \<le> kv_avail m g \<and>
     (\<forall>l g. kvE True m s l g = None) \<and>
     kv_inv t \<and> kv_frame s m t \<and> kvL t = kvL m \<and> kvP t = kvP m \<and> kvE False t = kvE False m \<and>
     (\<forall>l h. kvE True t s l h \<noteq> None \<longleftrightarrow> h = g \<and> l < p) \<and>
     (\<forall>l < p. \<exists>b. kvE True t s l g = Some (recompute_entry m s g l b) \<and>
        count (held t) (g, b) = 1) \<and>
     (\<exists>new. map fst new = map (\<lambda>l. (s, l, g)) [0..<p] \<and>
        kv_rest t = kv_rest (kv_dict_update True (\<lambda>d. d @ new) m)) \<and>
     (\<forall>l < ceil_div n (kv_block_size m). decode_block t s g l \<noteq> None) \<and>
     r = map (\<lambda>l. the (decode_block t s g l)) [0..<ceil_div n (kv_block_size m)] \<and>
     kv_avail t g + p = kv_avail m g \<and> (\<forall>h. h \<noteq> g \<longrightarrow> kv_avail t h = kv_avail m h))"

definition begin_fails :: "kv_map \<Rightarrow> nat \<Rightarrow> int \<Rightarrow> bool" where
  "begin_fails m s g \<longleftrightarrow> g < 0 \<or> int (kv_num_layer_groups m) \<le> g \<or>
     (case kvP m s of
        None \<Rightarrow> True
      | Some p \<Rightarrow> (\<exists>l h. kvE True m s l h \<noteq> None) \<or> kv_avail m (nat g) < p)"

lemma key_need_group:
  "key_need (map (\<lambda>l. (s, l, g)) ls) h = (if h = g then length ls else 0)"
  by (induction ls) auto

lemma begin_recompute_ok:
  assumes inv: "kv_inv m"
  shows "wp (begin_recompute s g0) (\<lambda>r t. 0 \<le> g0 \<and> begin_post m s (nat g0) r t)
    (\<lambda>_ t. kv_inv t \<and> kv_rest t = kv_rest m \<and> kv_avail t = kv_avail m \<and> begin_fails m s g0) m"
proof (cases "0 \<le> g0 \<and> g0 < int (kv_num_layer_groups m) \<and> kvP m s \<noteq> None")
  case False
  then show ?thesis
    using inv by (auto simp: begin_recompute_def wp_simps begin_fails_def get_prefix_blocks_def kvP_def
        Let_def dget_def split: option.splits)
next
  case True
  have ok: "kv_ok m {#}" and seqs: "seqs_ok m" using inv by (simp_all add: kv_inv_def)
  from True kvL_None_iff [OF seqs, of s] obtain n p where L: "kvL m s = Some n" and P: "kvP m s = Some p"
    by auto
  define g where "g = nat g0"
  have g: "g < kv_num_layer_groups m" "int g = g0" using True by (auto simp: g_def)
  note V = view_present [OF seqs L P]
  have dP: "dget (kv_evicted_prefix_blocks m) s = Inr p" using P by (simp add: kvP_def)
  have tmps: "(\<forall>key \<in> set (dkeys (kv_temporary_entries m)). fst key \<noteq> s) \<longleftrightarrow>
      (\<forall>l h. kvE True m s l h = None)"
  proof -
    have "kvE True m s l h = None \<longleftrightarrow> (s, l, h) \<notin> set (dkeys (kv_temporary_entries m))" for l h
      by (simp add: kvE_def map_of_eq_None_iff)
    then show ?thesis by (metis prod.collapse fst_conv)
  qed
  show ?thesis
  proof (cases "p = 0")
    case p: True
    have none: "kvE True m s l h = None" for l h using V(5) p by (metis not_less_zero)
    have all: "kvE False m s l g \<noteq> None" if "l < ceil_div n (kv_block_size m)" for l
      using V(3) [of l g] that p g by simp
    have db: "decode_block m s g l = map_option ke_physical_block_id (kvE False m s l g)" for l
      using none by (simp add: decode_block_def)
    have eq: "run_eq m (begin_recompute s g0) (get_retained_block_table s g)"
      using True dP p by (simp add: run_eq_def begin_recompute_def run_simps get_prefix_blocks_def Let_def g_def)
    have "begin_post m s g (map (\<lambda>l. ke_physical_block_id (the (kvE False m s l g)))
        [p..<ceil_div n (kv_block_size m)]) m"
      unfolding begin_post_def using L P p g none inv all db
      by - (rule exI [where x = n], rule exI [where x = p],
        auto intro!: map_cong exI [where x = "[]"] simp: option.map_sel)
    then show ?thesis
      using get_retained_block_table_ok [OF inv L P g(1)] True
      unfolding wp_run_eq [OF eq] by (simp add: wp_def g_def)
  next
    case p: False
    show ?thesis
    proof (cases "\<forall>l h. kvE True m s l h = None")
      case False
      then have "begin_fails m s g0" using P by (auto simp: begin_fails_def)
      moreover have "\<not> (\<forall>key \<in> set (dkeys (kv_temporary_entries m)). fst key \<noteq> s)"
        using tmps False by blast
      ultimately show ?thesis
        using True dP p inv
        by (auto simp: begin_recompute_def wp_simps get_prefix_blocks_def Let_def)
    next
      case none: True
      let ?key = "\<lambda>l. (s, l, g) :: kv_key"
      let ?mk = "\<lambda>l b. recompute_entry m s g l b"
      have eq: "run_eq m (begin_recompute s g0)
        (sq (alloc_loop True ?key ?mk [0..<p]) (get_decode_block_table s g))"
        using True dP p none tmps
        by (simp add: run_eq_def begin_recompute_def run_simps get_prefix_blocks_def Let_def
            alloc_loop_def recompute_entry_def mk_entry_def g_def)
      have d: "distinct (map ?key [0..<p])" by (simp add: distinct_map inj_on_def)
      show ?thesis
        unfolding wp_run_eq [OF eq] wp_sq
      proof (rule wp_mono [OF alloc_loop_view
            [where key = ?key and mk = ?mk and kl = id and kg = "\<lambda>_. g", OF inv _ d]])
        fix ks t
        assume a: "kv_ok t {#} \<and> kv_frame s m t \<and> kvL t = kvL m \<and> kvP t = kvP m \<and>
          kvE (\<not> True) t = kvE (\<not> True) m \<and>
          (\<forall>l h. (\<forall>x \<in> set [0..<p]. (l, h) \<noteq> (id x, g)) \<longrightarrow> kvE True t s l h = kvE True m s l h) \<and>
          (\<forall>x \<in> set [0..<p]. \<exists>b. kvE True t s (id x) g = Some (?mk x b) \<and>
             count (held t) (g, b) = 1) \<and>
          (\<exists>new. map fst new = map ?key [0..<p] \<and>
             kv_rest t = kv_rest (kv_dict_update True (\<lambda>d. d @ new) m)) \<and>
          (\<forall>h. kv_avail t h + key_need (map ?key [0..<p]) h = kv_avail m h)"
        then have views: "kvL t = kvL m" "kvP t = kvP m" "kvE False t = kvE False m"
          and okt: "kv_ok t {#}" and fr: "kv_frame s m t"
          and new: "\<exists>new. map fst new = map ?key [0..<p] \<and>
             kv_rest t = kv_rest (kv_dict_update True (\<lambda>d. d @ new) m)"
          and av: "\<forall>h. kv_avail t h + key_need (map ?key [0..<p]) h = kv_avail m h"
          and ent: "\<forall>l < p. \<exists>b. kvE True t s l g = Some (?mk l b) \<and> count (held t) (g, b) = 1"
          and old: "\<And>l h. \<not> (h = g \<and> l < p) \<Longrightarrow> kvE True t s l h = None"
          using none by auto
        have dom: "kvE True t s l h \<noteq> None \<longleftrightarrow> h = g \<and> l < p" for l h
          using ent old [of h l] by (cases "h = g \<and> l < p") auto
        have "mk_entry (kv_block_size m) (kv_layer_group_size m) s l h (kv_block_size m)
            (ke_physical_block_id e) True = e" if e: "kvE True t s l h = Some e" for l h e
        proof -
          from e dom [of l h] have "h = g" "l < p" by auto
          with ent e obtain b where "e = ?mk l b" by force
          with \<open>h = g\<close> show ?thesis by (simp add: recompute_entry_def)
        qed
        moreover have "\<exists>h < kv_num_layer_groups m. \<forall>l h'. kvE True t s l h' \<noteq> None \<longleftrightarrow> h' = h \<and> l < p"
          using g(1) dom by blast
        ultimately have "view_ok (kv_num_layer_groups m) (kv_block_size m) (kv_layer_group_size m) s
            (kvL t s) (kvP t s) (kvE False t s) (kvE True t s)"
          unfolding views L P
          by (intro view_okI [OF V(1,2) V(3) V(4)] disjI2)
        then have invt: "kv_inv t"
          using seqs_ok_frame [OF seqs fr] okt by (simp add: kv_inv_def)
        have bs: "kv_block_size t = kv_block_size m" using fr by (simp add: kv_frame_def kv_consts_eq)
        have full: "decode_block t s g l \<noteq> None" if "l < ceil_div n (kv_block_size m)" for l
          using dom [of l g] V(3) [of l g] g that views
          by (cases "l < p") (auto simp: decode_block_def split: option.splits)
        have avs: "kv_avail t g + p = kv_avail m g \<and> (\<forall>h. h \<noteq> g \<longrightarrow> kv_avail t h = kv_avail m h)"
        proof (intro conjI allI impI)
          show "kv_avail t g + p = kv_avail m g"
            using av [rule_format, of g] by (simp add: key_need_group)
          show "kv_avail t h = kv_avail m h" if "h \<noteq> g" for h
            using av [rule_format, of h] that by (simp add: key_need_group)
        qed
        show "wp (get_decode_block_table s g) (\<lambda>r t. 0 \<le> g0 \<and> begin_post m s (nat g0) r t)
          (\<lambda>_ t. kv_inv t \<and> kv_rest t = kv_rest m \<and> kv_avail t = kv_avail m \<and> begin_fails m s g0) t"
        proof (rule wp_mono [OF get_decode_block_table_ok
              [OF invt L [folded views] P [folded views], of g]])
          fix r u
          assume r: "u = t \<and> (\<forall>l < ceil_div n (kv_block_size t). decode_block t s g l \<noteq> None) \<and>
            r = map (\<lambda>l. the (decode_block t s g l)) [0..<ceil_div n (kv_block_size t)]"
          have "p \<le> kv_avail m g" using avs by linarith
          then have "begin_post m s g r u"
            unfolding begin_post_def using L P g none views dom ent new avs full invt fr r bs
            by - (rule exI [where x = n], rule exI [where x = p], simp only: simp_thms, blast)
          then show "0 \<le> g0 \<and> begin_post m s (nat g0) r u" using True by (simp add: g_def)
        qed (use full [folded bs] in blast)
      next
        fix e t
        assume a: "kv_inv t \<and> kv_rest t = kv_rest m \<and> kv_avail t = kv_avail m \<and>
          (\<exists>h. kv_avail m h < key_need (map ?key [0..<p]) h)"
        then have "kv_avail m g < p"
          by (auto simp: key_need_group split: if_splits)
        with a P show "kv_inv t \<and> kv_rest t = kv_rest m \<and> kv_avail t = kv_avail m \<and> begin_fails m s g0"
          by (simp add: begin_fails_def g_def)
      qed (simp_all add: none recompute_entry_def)
    qed
  qed
qed

lemma map_of_filter_key:
  "map_of (filter (\<lambda>p. Q (fst p)) d) k = (if Q k then map_of d k else None)"
  by (induction d) auto

definition ended :: "nat \<Rightarrow> nat \<Rightarrow> kv_key \<times> KVMapEntry \<Rightarrow> bool" where
  "ended s g p \<longleftrightarrow> fst (fst p) = s \<and> key_group (fst p) = g"

lemma end_recompute_ok:
  assumes inv: "kv_inv m"
  shows "wp (end_recompute s g)
    (\<lambda>_ t. kv_inv t \<and> kv_rest t = kv_rest (kv_dict_update True (filter (\<lambda>p. \<not> ended s g p)) m) \<and>
       (\<forall>h. kv_avail m h \<le> kv_avail t h))
    (\<lambda>_ _. False) m"
proof -
  have ok: "kv_ok m {#}" and seqs: "seqs_ok m" using inv by (simp_all add: kv_inv_def)
  let ?ks = "filter (\<lambda>key. fst key = s \<and> key_group key = g) (dkeys (kv_temporary_entries m))"
  have eq: "filter (\<lambda>p. fst p \<notin> set ?ks) (kv_temporary_entries m) =
      filter (\<lambda>p. \<not> ended s g p) (kv_temporary_entries m)"
    by (rule filter_cong) (auto simp: ended_def)
  then have upd: "kv_dict_update True (filter (\<lambda>p. fst p \<notin> set ?ks)) m =
      kv_dict_update True (filter (\<lambda>p. \<not> ended s g p)) m" by simp
  have "distinct ?ks" "set ?ks \<subseteq> set (dkeys (kv_dict True m))"
    using kv_ok_distinct [OF ok, of True] by auto
  note pop = pop_many_ok [OF ok this, unfolded upd]
  show ?thesis
    unfolding end_recompute_def wp_bnd wp_gets
  proof (rule wp_mono [OF pop])
    fix x t
    assume t: "kv_ok t {#} \<and> kv_rest t = kv_rest (kv_dict_update True (filter (\<lambda>p. \<not> ended s g p)) m) \<and>
      (\<forall>h. kv_avail m h \<le> kv_avail t h)"
    then have r: "kv_rest t = kv_rest (kv_dict_update True (filter (\<lambda>p. \<not> ended s g p)) m)" by blast
    note V = kvE_dict_update(1-4) [OF r]
    have E: "kvE True t s' l h = (if s' = s \<and> h = g then None else kvE True m s' l h)" for s' l h
      using kvE_dict_update(5) [OF r, of s' l h]
        map_of_filter_key [of "\<lambda>k. \<not> (fst k = s \<and> key_group k = g)" "kv_temporary_entries m" "(s', l, h)"]
      by (auto simp: ended_def kvE_def)
    have fr: "kv_frame s m t" by (rule kv_frameI [OF V]) (simp add: E)
    have "view_ok (kv_num_layer_groups m) (kv_block_size m) (kv_layer_group_size m) s
        (kvL t s) (kvP t s) (kvE False t s) (kvE True t s)"
    proof (cases "kvL m s")
      case None
      then have "kvE tmp m s l h = None" "kvP m s = None" for tmp l h
        by (cases rule: view_cases [OF seqs, of s]; simp)+
      with None V E show ?thesis by (simp add: view_ok_def)
    next
      case (Some n)
      with kvL_None_iff [OF seqs, of s] obtain p where P: "kvP m s = Some p" by auto
      note W = view_present [OF seqs Some P]
      have F: "kvE False t s = kvE False m s" using V(4) by simp
      from W(5) have "(\<forall>l h. kvE True t s l h = None) \<or>
          (\<exists>k < kv_num_layer_groups m. \<forall>l h. kvE True t s l h \<noteq> None \<longleftrightarrow> h = k \<and> l < p)"
      proof
        assume "\<exists>k < kv_num_layer_groups m. \<forall>l h. kvE True m s l h \<noteq> None \<longleftrightarrow> h = k \<and> l < p"
        then obtain k where k: "k < kv_num_layer_groups m"
          "\<And>l h. kvE True m s l h \<noteq> None \<longleftrightarrow> h = k \<and> l < p" by blast
        show ?thesis
        proof (cases "k = g")
          case True
          have "kvE True t s l h = None" for l h using k(2) [of l h] True by (auto simp: E)
          then show ?thesis by blast
        next
          case False
          have "kvE True t s l h = kvE True m s l h" for l h
            using k(2) [of l h] False by (auto simp: E)
          with k show ?thesis by metis
        qed
      qed (simp add: E)
      then show ?thesis
        unfolding V(2,3) Some P F
        by (intro view_okI [OF W(1,2) W(3) W(4)]) (auto simp: E W(6) split: if_splits)
    qed
    from seqs_ok_frame [OF seqs fr this] t
    show "kv_inv t \<and> kv_rest t = kv_rest (kv_dict_update True (filter (\<lambda>p. \<not> ended s g p)) m) \<and>
      (\<forall>h. kv_avail m h \<le> kv_avail t h)" by (simp add: kv_inv_def)
  qed simp
qed

section \<open>Plans\<close>

definition block_slots :: "nat \<Rightarrow> nat \<Rightarrow> nat list" where
  "block_slots bs b = [b * bs..<b * bs + bs]"

lemma distinct_block_slots: "distinct xs \<Longrightarrow> distinct (concat (map (block_slots bs) xs))"
proof (induction xs)
  case (Cons b xs)
  have div: "i div bs = c" if "i \<in> set (block_slots bs c)" for i c
    using that by (auto simp: block_slots_def mult.commute intro!: div_nat_eqI)
  have "set (block_slots bs b) \<inter> set (concat (map (block_slots bs) xs)) = {}"
  proof (rule ccontr)
    assume "set (block_slots bs b) \<inter> set (concat (map (block_slots bs) xs)) \<noteq> {}"
    then obtain i c where "i \<in> set (block_slots bs b)" "c \<in> set xs" "i \<in> set (block_slots bs c)" by auto
    with div have "b = c" by metis
    with \<open>c \<in> set xs\<close> Cons.prems show False by simp
  qed
  with Cons show ?case by (simp add: block_slots_def)
qed simp

lemma get_recompute_slot_mapping_ok:
  assumes P: "kvP m s = Some p"
  shows "wp (get_recompute_slot_mapping s g)
    (\<lambda>r t. t = m \<and> (\<forall>l < p. kvE True m s l g \<noteq> None) \<and>
       r = concat (map (\<lambda>l. block_slots (kv_block_size m)
         (ke_physical_block_id (the (kvE True m s l g)))) [0..<p]))
    (\<lambda>_ t. t = m \<and> (\<exists>l < p. kvE True m s l g = None)) m"
proof -
  have dP: "dget (kv_evicted_prefix_blocks m) s = Inr p" using P by (simp add: kvP_def)
  show ?thesis
    unfolding get_recompute_slot_mapping_def get_prefix_blocks_def wp_bnd wp_lift_err dP sum.case
      wp_gets id_apply
  proof (rule wp_fold_range [where J = "\<lambda>i r t. t = m \<and> (\<forall>l < i. kvE True m s l g \<noteq> None) \<and>
       r = concat (map (\<lambda>l. block_slots (kv_block_size m)
         (ke_physical_block_id (the (kvE True m s l g)))) [0..<i])"])
    fix i slots t
    assume i: "0 \<le> i" "i < p" and J: "t = m \<and> (\<forall>l < i. kvE True m s l g \<noteq> None) \<and>
       slots = concat (map (\<lambda>l. block_slots (kv_block_size m)
         (ke_physical_block_id (the (kvE True m s l g)))) [0..<i])"
    have look: "map_of (kv_temporary_entries m) (s, i, g) = kvE True m s i g"
      by (simp add: kvE_def)
    show "wp (case map_of (kv_temporary_entries m) (s, i, g) of
        None \<Rightarrow> throw (RuntimeError ''Recompute blocks are not active'')
      | Some entry \<Rightarrow> let block_start = ke_physical_block_id entry * kv_block_size m
          in ret (slots @ [block_start..<block_start + kv_block_size m]))
     (\<lambda>r t. t = m \<and> (\<forall>l < Suc i. kvE True m s l g \<noteq> None) \<and>
       r = concat (map (\<lambda>l. block_slots (kv_block_size m)
         (ke_physical_block_id (the (kvE True m s l g)))) [0..<Suc i]))
     (\<lambda>_ t. t = m \<and> (\<exists>l < p. kvE True m s l g = None)) t"
      unfolding look using i J
      by (auto simp: wp_simps block_slots_def Let_def less_Suc_eq split: option.splits)
  qed auto
qed

lemma get_decode_slot_ok:
  assumes inv: "kv_inv m" and L: "kvL m s = Some n" and P: "kvP m s = Some p"
  shows "wp (get_decode_slot s g)
    (\<lambda>r t. t = m \<and> kvE False m s ((n - 1) div kv_block_size m) g \<noteq> None \<and>
       r = the (decode_block m s g ((n - 1) div kv_block_size m)) * kv_block_size m +
         (n - 1) mod kv_block_size m)
    (\<lambda>_ t. t = m \<and> kvE False m s ((n - 1) div kv_block_size m) g = None) m"
proof -
  have seqs: "seqs_ok m" using inv by (simp add: kv_inv_def)
  have dL: "dget (kv_sequence_lengths m) s = Inr n" using L by (simp add: kvL_def)
  have "the (decode_block m s g l) = ke_physical_block_id e" if e: "kvE False m s l g = Some e" for l e
  proof -
    have "p \<le> l" using view_present(3) [OF seqs L P, of l g] e by simp
    then have "kvE True m s l g = None"
      using view_present(5) [OF seqs L P] by (metis not_less)
    with e show ?thesis by (simp add: decode_block_def)
  qed
  then show ?thesis
    unfolding get_decode_slot_def get_length_def wp_bnd wp_lift_err dL sum.case wp_gets get_entry_ok wp_ret
    by (auto split: option.splits)
qed

text \<open>
  \<open>plan_inv m g A rs t\<close>: from \<open>m\<close>, the recomputes of the sequences \<open>A\<close> in group \<open>g\<close> have
  added the entries \<open>new\<close> behind the temporary entries of \<open>m\<close>; nobody else refers to their
  blocks, and \<open>rs\<close> lists the slots of these blocks.
\<close>

definition plan_new ::
  "kv_map \<Rightarrow> nat \<Rightarrow> nat list \<Rightarrow> (kv_key, KVMapEntry) pydict \<Rightarrow> kv_map \<Rightarrow> bool"
where
  "plan_new m g A new t \<longleftrightarrow>
     kv_rest t = kv_rest (kv_dict_update True (\<lambda>d. d @ new) m) \<and>
     (\<forall>p \<in> set new. fst (fst p) \<in> set A \<and> key_group (fst p) = g \<and>
        count (held t) (g, ke_physical_block_id (snd p)) = 1) \<and>
     (\<forall>p \<in> set (kv_temporary_entries m). \<not> (fst (fst p) \<in> set A \<and> key_group (fst p) = g))"

definition plan_inv :: "kv_map \<Rightarrow> nat \<Rightarrow> nat list \<Rightarrow> nat list \<Rightarrow> kv_map \<Rightarrow> bool" where
  "plan_inv m g A rs t \<longleftrightarrow> kv_inv t \<and> (\<exists>new. plan_new m g A new t \<and>
     rs = concat (map (\<lambda>p. block_slots (kv_block_size m) (ke_physical_block_id (snd p))) new))"

text \<open>The per-request part of a plan, request by request.\<close>

definition plan_rows :: "kv_map \<Rightarrow> nat \<Rightarrow> nat list \<Rightarrow> nat list \<Rightarrow> nat list list \<Rightarrow> bool" where
  "plan_rows t g A ds ts \<longleftrightarrow> length ds = length A \<and> length ts = length A \<and>
     (\<forall>i < length A. \<exists>n. kvL t (A ! i) = Some n \<and>
        (\<forall>l < ceil_div n (kv_block_size t). decode_block t (A ! i) g l \<noteq> None) \<and>
        ts ! i = map (\<lambda>l. the (decode_block t (A ! i) g l)) [0..<ceil_div n (kv_block_size t)] \<and>
        ds ! i = the (decode_block t (A ! i) g ((n - 1) div kv_block_size t)) * kv_block_size t +
          (n - 1) mod kv_block_size t)"

lemma plan_slots_distinct:
  assumes "plan_inv m g A rs t"
  shows "distinct rs"
proof -
  from assms obtain new where new: "plan_new m g A new t"
    and rs: "rs = concat (map (\<lambda>p. block_slots (kv_block_size m) (ke_physical_block_id (snd p))) new)"
    by (auto simp: plan_inv_def)
  let ?f = "\<lambda>p. (key_group (fst p), ke_physical_block_id (snd p)) :: nat \<times> nat"
  have "held t = held m + owned new"
    using held_rest [of t "kv_dict_update True (\<lambda>d. d @ new) m"] new
    by (simp add: plan_new_def held_def)
  moreover have "owned new = mset (map ?f new)"
    by (simp add: owned_def case_prod_unfold)
  ultimately have sub: "count (mset (map ?f new)) x \<le> count (held t) x" for x by simp
  have one: "count (held t) (?f p) = 1" if "p \<in> set new" for p
    using new that by (auto simp: plan_new_def)
  have "count (mset (map ?f new)) x = (if x \<in> set (map ?f new) then 1 else 0)" for x
  proof (cases "x \<in> set (map ?f new)")
    case True
    then obtain p where "p \<in> set new" "x = ?f p" by auto
    with one sub [of x] have "count (mset (map ?f new)) x \<le> 1" by simp
    moreover have "0 < count (mset (map ?f new)) x"
      using True by (simp only: count_greater_zero_iff set_mset_mset)
    ultimately have "count (mset (map ?f new)) x = 1" by linarith
    with True show ?thesis by (simp only: if_True)
  next
    case False
    then have "x \<notin># mset (map ?f new)" by (simp only: set_mset_mset not_False_eq_True)
    then have "count (mset (map ?f new)) x = 0" by (rule not_in_iff [THEN iffD1])
    with False show ?thesis by (simp only: if_False)
  qed
  then have "distinct (map ?f new)" by (simp add: distinct_count_atmost_1)
  moreover have "map ?f new = map (Pair g) (map (\<lambda>p. ke_physical_block_id (snd p)) new)"
    using new by (simp add: plan_new_def)
  ultimately have "distinct (map (\<lambda>p. ke_physical_block_id (snd p)) new)"
    by (metis distinct_map)
  from distinct_block_slots [OF this, of "kv_block_size m"] rs show ?thesis
    by (simp add: comp_def)
qed

lemma plan_inv_begin:
  assumes J: "plan_inv m g A rs t" and b: "begin_post t s g r u" and P: "kvP t s = Some p"
  shows "plan_inv m g (A @ [s]) (rs @ concat (map (\<lambda>l. block_slots (kv_block_size u)
         (ke_physical_block_id (the (kvE True u s l g)))) [0..<p])) u"
proof -
  from J obtain new where new: "plan_new m g A new t"
    and rs: "rs = concat (map (\<lambda>p. block_slots (kv_block_size m) (ke_physical_block_id (snd p))) new)"
    by (auto simp: plan_inv_def)
  from b P obtain add where inv: "kv_inv u" and none: "\<forall>l g. kvE True t s l g = None"
    and keys: "map fst add = map (\<lambda>l. (s, l, g)) [0..<p]"
    and r: "kv_rest u = kv_rest (kv_dict_update True (\<lambda>d. d @ add) t)"
    and ent: "\<forall>l < p. \<exists>b. kvE True u s l g = Some (recompute_entry t s g l b) \<and>
        count (held u) (g, b) = 1"
    by (auto simp: begin_post_def)
  have rt: "kv_rest t = kv_rest (kv_dict_update True (\<lambda>d. d @ new) m)"
    using new by (simp add: plan_new_def)
  have ru: "kv_rest u = kv_rest (kv_dict_update True (\<lambda>d. d @ (new @ add)) m)"
    using r kv_rest_dict_update [OF rt, of True "\<lambda>d. d @ add"] by simp
  have bs: "kv_block_size u = kv_block_size m" using ru by (simp add: kv_rest_eq)
  have tu: "kv_temporary_entries u = kv_temporary_entries t @ add" using r by (simp add: kv_rest_eq)
  have dist: "distinct (dkeys (kv_temporary_entries u))"
    using inv kv_ok_distinct [of u "{#}" True] by (simp add: kv_inv_def)
  have len: "length add = p" using keys by (metis length_map length_upt minus_nat.diff_0)
  have row: "add ! l = ((s, l, g), the (kvE True u s l g))" if "l < p" for l
  proof -
    have "map fst add ! l = (s, l, g)" unfolding keys using that by simp
    then have "fst (add ! l) = (s, l, g)" using len that by simp
    moreover have "add ! l \<in> set (kv_temporary_entries u)" using tu len that by simp
    ultimately have "map_of (kv_temporary_entries u) (s, l, g) = Some (snd (add ! l))"
      using dist by (metis map_of_eq_Some_iff prod.collapse)
    then show ?thesis using \<open>fst (add ! l) = _\<close> by (simp add: kvE_def prod_eq_iff)
  qed
  have held: "held u = held t + owned add"
    using held_rest [OF r] by (simp add: held_def)
  have one: "count (held u) (g, ke_physical_block_id (snd q)) = 1" if "q \<in> set add" for q
  proof -
    from that len obtain l where "l < p" "q = add ! l" by (metis in_set_conv_nth)
    with row ent show ?thesis by (force simp: recompute_entry_def)
  qed
  have ks: "fst (fst q) = s \<and> key_group (fst q) = g" if "q \<in> set add" for q
  proof -
    from that len obtain l where "l < p" "q = add ! l" by (metis in_set_conv_nth)
    with row show ?thesis by simp
  qed
  have old: "count (held u) (g, ke_physical_block_id (snd q)) = 1" if q: "q \<in> set new" for q
  proof (rule ccontr)
    let ?x = "(g, ke_physical_block_id (snd q))"
    assume ne: "count (held u) ?x \<noteq> 1"
    have "count (held t) ?x = 1" using new q by (simp add: plan_new_def)
    with ne held have "?x \<in># owned add" by (metis add.right_neutral count_union not_in_iff)
    then obtain y where "y \<in> set add" "ke_physical_block_id (snd y) = ke_physical_block_id (snd q)"
      by (auto simp: owned_def)
    with one ne show False by metis
  qed
  have "plan_new m g (A @ [s]) (new @ add) u"
  proof -
    have "\<not> (fst (fst q) = s \<and> key_group (fst q) = g)" if q: "q \<in> set (kv_temporary_entries m)" for q
    proof
      assume a: "fst (fst q) = s \<and> key_group (fst q) = g"
      have "q \<in> set (kv_temporary_entries t)" using rt q by (simp add: kv_rest_eq)
      then have "fst q \<in> set (dkeys (kv_temporary_entries t))" by simp
      then have "map_of (kv_temporary_entries t) (fst q) \<noteq> None" by (simp only: dkeys_iff simp_thms)
      with none a show False by (metis kvE_def kv_dict_simps(2) prod.collapse)
    qed
    then show ?thesis
      using new one old ks ru unfolding plan_new_def by auto
  qed
  moreover have "concat (map (\<lambda>p. block_slots (kv_block_size m) (ke_physical_block_id (snd p))) add) =
      concat (map (\<lambda>l. block_slots (kv_block_size u) (ke_physical_block_id (the (kvE True u s l g)))) [0..<p])"
  proof -
    have snds: "map snd add = map (\<lambda>l. the (kvE True u s l g)) [0..<p]"
      using row len by (intro nth_equalityI) simp_all
    have "map (\<lambda>p. block_slots (kv_block_size m) (ke_physical_block_id (snd p))) add =
        map (\<lambda>e. block_slots (kv_block_size m) (ke_physical_block_id e)) (map snd add)" by simp
    also have "\<dots> = map (\<lambda>l. block_slots (kv_block_size u) (ke_physical_block_id (the (kvE True u s l g)))) [0..<p]"
      unfolding snds bs by simp
    finally show ?thesis by simp
  qed
  ultimately show ?thesis
    using inv rs unfolding plan_inv_def by (intro conjI exI [where x = "new @ add"]) simp_all
qed

lemma plan_rows_begin:
  assumes rows: "plan_rows t g A ds ts" and inv: "kv_inv t" and b: "begin_post t s g r u"
    and L: "kvL t s = Some n"
    and d: "d = the (decode_block u s g ((n - 1) div kv_block_size u)) * kv_block_size u +
         (n - 1) mod kv_block_size u"
    and dup: "s \<in> set A \<Longrightarrow> kvE True u s = kvE True t s"
  shows "plan_rows u g (A @ [s]) (ds @ [d]) (ts @ [r])"
proof -
  from b have fr: "kv_frame s t u" and L': "kvL u = kvL t" and F: "kvE False u = kvE False t"
    and r: "r = map (\<lambda>l. the (decode_block u s g l)) [0..<ceil_div n (kv_block_size t)]"
    and full: "\<forall>l < ceil_div n (kv_block_size t). decode_block u s g l \<noteq> None"
    using L by (auto simp: begin_post_def)
  have bs: "kv_block_size u = kv_block_size t" using fr by (simp add: kv_frame_def kv_consts_eq)
  have same: "decode_block u a h l = decode_block t a h l" if "a \<in> set A" for a h l
  proof (cases "a = s")
    case True
    with dup that F show ?thesis by (simp add: decode_block_def split: option.split)
  next
    case False
    with fr F show ?thesis by (simp add: decode_block_def kv_frame_def split: option.split)
  qed
  show ?thesis
    unfolding plan_rows_def length_append_singleton
  proof (intro conjI allI impI)
    fix i
    assume "i < Suc (length A)"
    show "\<exists>n. kvL u ((A @ [s]) ! i) = Some n \<and>
        (\<forall>l < ceil_div n (kv_block_size u). decode_block u ((A @ [s]) ! i) g l \<noteq> None) \<and>
        (ts @ [r]) ! i = map (\<lambda>l. the (decode_block u ((A @ [s]) ! i) g l)) [0..<ceil_div n (kv_block_size u)] \<and>
        (ds @ [d]) ! i = the (decode_block u ((A @ [s]) ! i) g ((n - 1) div kv_block_size u)) *
          kv_block_size u + (n - 1) mod kv_block_size u"
    proof (cases "i < length A")
      case True
      with rows same L' bs show ?thesis by (simp add: plan_rows_def nth_append)
    next
      case False
      with \<open>i < Suc (length A)\<close> have "i = length A" by simp
      with rows L L' r d bs full show ?thesis by (simp add: plan_rows_def nth_append)
    qed
  qed (use rows in \<open>simp_all add: plan_rows_def\<close>)
qed

lemma cleanup_ok:
  assumes inv: "kv_inv m" and J: "plan_inv m g A rs t"
  shows "wp (for_each A (\<lambda>s. end_recompute s g))
    (\<lambda>_ u. kv_inv u \<and> kv_rest u = kv_rest m \<and> kv_avail u = kv_avail m) (\<lambda>_ _. False) t"
proof -
  let ?I = "\<lambda>ys u. kv_inv u \<and> set ys \<subseteq> set A \<and> (\<exists>new. kv_rest u = kv_rest (kv_dict_update True (\<lambda>d. d @ new) m) \<and>
      (\<forall>p \<in> set new. fst (fst p) \<in> set ys \<and> key_group (fst p) = g))"
  from J have old: "\<forall>p \<in> set (kv_temporary_entries m). \<not> (fst (fst p) \<in> set A \<and> key_group (fst p) = g)"
    by (auto simp: plan_inv_def plan_new_def)
  show ?thesis
  proof (rule wp_for_each [where I = ?I])
    show "?I A t" using J by (auto simp: plan_inv_def plan_new_def)
  next
    fix s ys u
    assume I: "?I (s # ys) u"
    then obtain new where r: "kv_rest u = kv_rest (kv_dict_update True (\<lambda>d. d @ new) m)"
      and new: "\<forall>p \<in> set new. fst (fst p) \<in> set (s # ys) \<and> key_group (fst p) = g" by blast
    from I have invu: "kv_inv u" and sub: "s \<in> set A" "set ys \<subseteq> set A" by auto
    let ?keep = "filter (\<lambda>p. \<not> ended s g p)"
    have "?keep (kv_temporary_entries m) = kv_temporary_entries m"
      using old sub by (intro filter_True) (auto simp: ended_def)
    then have "kv_rest (kv_dict_update True ?keep u) = kv_rest (kv_dict_update True (\<lambda>d. d @ ?keep new) m)"
      using kv_rest_dict_update [OF r, of True ?keep] by simp
    moreover have "\<forall>p \<in> set (?keep new). fst (fst p) \<in> set ys \<and> key_group (fst p) = g"
      using new by (auto simp: ended_def)
    ultimately have "?I ys v" if "kv_inv v" "kv_rest v = kv_rest (kv_dict_update True ?keep u)" for v
      using that sub by (intro conjI exI [where x = "?keep new"]) simp_all
    then show "wp (end_recompute s g) (\<lambda>_. ?I ys) (\<lambda>_ _. False) u"
      by (intro wp_mono [OF end_recompute_ok [OF invu]]) blast+
  next
    fix u
    assume "?I [] u"
    then obtain new where "kv_inv u" and r: "kv_rest u = kv_rest (kv_dict_update True (\<lambda>d. d @ new) m)"
      and "\<forall>p \<in> set new. False" by auto
    then have "new = []" by (meson last_in_set)
    with r have "kv_rest u = kv_rest m" by simp
    with \<open>kv_inv u\<close> have u: "kv_inv u" "kv_rest u = kv_rest m" by simp_all
    have "kv_ok u {#}" "kv_ok m {#}" using u inv by (simp_all add: kv_inv_def)
    from kv_ok_avail [OF this u(2)] u
    show "kv_inv u \<and> kv_rest u = kv_rest m \<and> kv_avail u = kv_avail m" by blast
  qed
qed

lemma undo_throw:
  "wp m (\<lambda>_. R) (\<lambda>_ _. False) t \<Longrightarrow> wp (sq m (throw e)) Q (\<lambda>_. R) t"
  unfolding wp_sq by (erule wp_mono) (simp_all add: wp_throw)

lemma plan_inv_rest:
  assumes "plan_inv m g A rs t" "kv_inv u" "kv_rest u = kv_rest t"
  shows "plan_inv m g A rs u"
  using assms held_rest [OF assms(3)] by (auto simp: plan_inv_def plan_new_def)

lemma begin_dup:
  assumes inv: "kv_inv t" and b: "begin_post t s g r u" and rows: "plan_rows t g A ds ts"
    and s: "s \<in> set A"
  shows "kvE True u s = kvE True t s"
proof -
  have seqs: "seqs_ok t" using inv by (simp add: kv_inv_def)
  from b obtain n p where L: "kvL t s = Some n" and P: "kvP t s = Some p"
    and none: "\<forall>l g. kvE True t s l g = None"
    and dom: "\<forall>l h. kvE True u s l h \<noteq> None \<longleftrightarrow> h = g \<and> l < p"
    unfolding begin_post_def by blast
  note V = view_present [OF seqs L P]
  have "p = 0"
  proof (rule ccontr)
    assume p: "p \<noteq> 0"
    then have "0 < ceil_div n (kv_block_size t)" using V(2) by linarith
    moreover from s obtain i where "i < length A" "A ! i = s" by (metis in_set_conv_nth)
    with rows L have "\<forall>l < ceil_div n (kv_block_size t). decode_block t s g l \<noteq> None"
      by (auto simp: plan_rows_def)
    ultimately have "decode_block t s g 0 \<noteq> None" by blast
    moreover have "kvE False t s 0 g = None" using V(3) [of 0 g] p by simp
    ultimately show False using none by (simp add: decode_block_def)
  qed
  then have "kvE True u s l h = None" for l h using dom by (metis not_less_zero)
  with none show ?thesis by (simp add: fun_eq_iff)
qed

lemma plan_loop_ok:
  assumes inv: "kv_inv m" and J: "plan_inv m g A rs t" and rows: "plan_rows t g A ds ts"
    and clean: "\<And>A rs t. plan_inv m g A rs t \<Longrightarrow> wp (cleanup A)
      (\<lambda>_ u. kv_inv u \<and> kv_rest u = kv_rest m \<and> kv_avail u = kv_avail m) (\<lambda>_ _. False) t"
  shows "wp (plan_loop g ss (rs, ds, ts, A) cleanup)
    (\<lambda>(rs, ds, ts, A') u. A' = A @ ss \<and> plan_inv m g A' rs u \<and> plan_rows u g A' ds ts)
    (\<lambda>_ u. kv_inv u \<and> kv_rest u = kv_rest m \<and> kv_avail u = kv_avail m) t"
  using J rows
proof (induction ss arbitrary: A rs ds ts t)
  case Nil
  then show ?case by (simp add: wp_ret)
next
  case (Cons s ss)
  have invt: "kv_inv t" using Cons.prems(1) by (simp add: plan_inv_def)
  let ?E = "\<lambda>_ u. kv_inv u \<and> kv_rest u = kv_rest m \<and> kv_avail u = kv_avail m"
  have clean0: "wp (sq (cleanup A) (throw e)) Q ?E u"
    if "kv_inv u \<and> kv_rest u = kv_rest t" for u e and Q :: "nat list \<Rightarrow> kv_map \<Rightarrow> bool"
    using that by (intro undo_throw [OF clean [OF plan_inv_rest [OF Cons.prems(1)]]]) blast+
  show ?case
    unfolding plan_loop.simps wp_bnd wp_try_except
  proof (rule wp_mono [OF begin_recompute_ok [OF invt]])
    fix table u
    assume "0 \<le> int g \<and> begin_post t s (nat (int g)) table u"
    then have b: "begin_post t s g table u" by simp
    then obtain n p where L: "kvL t s = Some n" and P: "kvP t s = Some p" and invu: "kv_inv u"
      and LP: "kvL u = kvL t" "kvP u = kvP t"
      unfolding begin_post_def by blast
    let ?new = "concat (map (\<lambda>l. block_slots (kv_block_size u)
         (ke_physical_block_id (the (kvE True u s l g)))) [0..<p])"
    note J' = plan_inv_begin [OF Cons.prems(1) b P]
    have clean': "wp (sq (cleanup (A @ [s])) (throw e)) Q ?E v"
      if "v = u" for v e and Q :: "(nat list \<times> nat) \<Rightarrow> kv_map \<Rightarrow> bool"
      unfolding that by (rule undo_throw [OF clean [OF J']])
    show "wp (get_recompute_slot_mapping s g)
      (\<lambda>rs'. wp (get_decode_slot s g) (\<lambda>d. wp (ret (rs', d))
        (\<lambda>x. wp (case x of (rs', d) \<Rightarrow> plan_loop g ss
            (rs @ rs', ds @ [d], ts @ [table], A @ [s]) cleanup)
          (\<lambda>(rs, ds, ts, A') u. A' = A @ s # ss \<and> plan_inv m g A' rs u \<and> plan_rows u g A' ds ts) ?E)
        (\<lambda>e. wp (sq (cleanup (A @ [s])) (throw e)) (\<lambda>x. wp (case x of (rs', d) \<Rightarrow> plan_loop g ss
            (rs @ rs', ds @ [d], ts @ [table], A @ [s]) cleanup)
          (\<lambda>(rs, ds, ts, A') u. A' = A @ s # ss \<and> plan_inv m g A' rs u \<and> plan_rows u g A' ds ts) ?E) ?E))
        (\<lambda>e. wp (sq (cleanup (A @ [s])) (throw e)) (\<lambda>x. wp (case x of (rs', d) \<Rightarrow> plan_loop g ss
            (rs @ rs', ds @ [d], ts @ [table], A @ [s]) cleanup)
          (\<lambda>(rs, ds, ts, A') u. A' = A @ s # ss \<and> plan_inv m g A' rs u \<and> plan_rows u g A' ds ts) ?E) ?E))
      (\<lambda>e. wp (sq (cleanup (A @ [s])) (throw e)) (\<lambda>x. wp (case x of (rs', d) \<Rightarrow> plan_loop g ss
            (rs @ rs', ds @ [d], ts @ [table], A @ [s]) cleanup)
          (\<lambda>(rs, ds, ts, A') u. A' = A @ s # ss \<and> plan_inv m g A' rs u \<and> plan_rows u g A' ds ts) ?E) ?E) u"
    proof (rule wp_mono [OF get_recompute_slot_mapping_ok [OF P [folded LP(2)]]])
      fix r v
      assume r: "v = u \<and> (\<forall>l < p. kvE True u s l g \<noteq> None) \<and> r = ?new"
      then have v: "v = u" by blast
      show "wp (get_decode_slot s g) (\<lambda>d. wp (ret (r, d))
        (\<lambda>x. wp (case x of (rs', d) \<Rightarrow> plan_loop g ss
            (rs @ rs', ds @ [d], ts @ [table], A @ [s]) cleanup)
          (\<lambda>(rs, ds, ts, A') u. A' = A @ s # ss \<and> plan_inv m g A' rs u \<and> plan_rows u g A' ds ts) ?E)
        (\<lambda>e. wp (sq (cleanup (A @ [s])) (throw e)) (\<lambda>x. wp (case x of (rs', d) \<Rightarrow> plan_loop g ss
            (rs @ rs', ds @ [d], ts @ [table], A @ [s]) cleanup)
          (\<lambda>(rs, ds, ts, A') u. A' = A @ s # ss \<and> plan_inv m g A' rs u \<and> plan_rows u g A' ds ts) ?E) ?E))
        (\<lambda>e. wp (sq (cleanup (A @ [s])) (throw e)) (\<lambda>x. wp (case x of (rs', d) \<Rightarrow> plan_loop g ss
            (rs @ rs', ds @ [d], ts @ [table], A @ [s]) cleanup)
          (\<lambda>(rs, ds, ts, A') u. A' = A @ s # ss \<and> plan_inv m g A' rs u \<and> plan_rows u g A' ds ts) ?E) ?E) v"
        unfolding v
      proof (rule wp_mono [OF get_decode_slot_ok [OF invu L [folded LP(1)] P [folded LP(2)]]])
        fix d w
        assume d: "w = u \<and> kvE False u s ((n - 1) div kv_block_size u) g \<noteq> None \<and>
          d = the (decode_block u s g ((n - 1) div kv_block_size u)) * kv_block_size u +
            (n - 1) mod kv_block_size u"
        then have w: "w = u" by blast
        have rows': "plan_rows u g (A @ [s]) (ds @ [d]) (ts @ [table])"
          by (rule plan_rows_begin [OF Cons.prems(2) invt b L])
            (use d begin_dup [OF invt b Cons.prems(2)] in blast)+
        have "plan_inv m g (A @ [s]) (rs @ r) u" using J' r by simp
        from Cons.IH [OF this rows']
        show "wp (ret (r, d))
          (\<lambda>x. wp (case x of (rs', d) \<Rightarrow> plan_loop g ss
            (rs @ rs', ds @ [d], ts @ [table], A @ [s]) cleanup)
          (\<lambda>(rs, ds, ts, A') u. A' = A @ s # ss \<and> plan_inv m g A' rs u \<and> plan_rows u g A' ds ts) ?E)
          (\<lambda>e. wp (sq (cleanup (A @ [s])) (throw e)) (\<lambda>x. wp (case x of (rs', d) \<Rightarrow> plan_loop g ss
            (rs @ rs', ds @ [d], ts @ [table], A @ [s]) cleanup)
          (\<lambda>(rs, ds, ts, A') u. A' = A @ s # ss \<and> plan_inv m g A' rs u \<and> plan_rows u g A' ds ts) ?E) ?E) w"
          unfolding wp_ret w prod.case append_assoc append.simps .
      qed (rule clean', blast)
    qed (rule clean', blast)
  qed (rule clean0, blast)
qed

text \<open>What a plan in force looks like, and that building, leasing or failing leaves no trace.\<close>

definition plan_in_force :: "kv_map \<Rightarrow> nat list \<Rightarrow> nat \<Rightarrow> LayerGroupBlockPlan \<Rightarrow> kv_map \<Rightarrow> bool" where
  "plan_in_force m ss g pl t \<longleftrightarrow>
     plan_inv m g ss (recompute_slot_mapping pl) t \<and>
     plan_rows t g ss (decode_slot_mapping pl) (decode_block_tables pl)"

lemma plan_start:
  "kv_inv m \<Longrightarrow> plan_inv m g [] [] m"
  "plan_rows m g [] [] []"
  by (auto simp: plan_inv_def plan_new_def plan_rows_def intro!: exI [where x = "[]"])

lemma acquire_ok:
  assumes inv: "kv_inv m"
  shows "wp (acquire_layer_group_plan ss g) (\<lambda>pl t. plan_in_force m ss g pl t)
    (\<lambda>_ u. kv_inv u \<and> kv_rest u = kv_rest m \<and> kv_avail u = kv_avail m) m"
  unfolding acquire_layer_group_plan_def wp_bnd
proof (rule wp_mono [OF plan_loop_ok [OF inv plan_start(1) [OF inv] plan_start(2)]])
  fix x u
  assume "(case x of (rs, ds, ts, A') \<Rightarrow> \<lambda>u. A' = [] @ ss \<and> plan_inv m g A' rs u \<and>
    plan_rows u g A' ds ts) u"
  then show "wp (ret (mk_plan x)) (plan_in_force m ss g)
    (\<lambda>_ u. kv_inv u \<and> kv_rest u = kv_rest m \<and> kv_avail u = kv_avail m) u"
    by (auto simp: wp_ret mk_plan_def plan_in_force_def split: prod.splits)
qed (simp_all add: release_layer_group_plan_def cleanup_ok [OF inv])

lemma build_ok:
  assumes inv: "kv_inv m"
  shows "wp (build_layer_group_plan ss g)
    (\<lambda>pl u. (\<exists>t. plan_in_force m ss g pl t) \<and>
       kv_inv u \<and> kv_rest u = kv_rest m \<and> kv_avail u = kv_avail m)
    (\<lambda>_ u. kv_inv u \<and> kv_rest u = kv_rest m \<and> kv_avail u = kv_avail m) m"
  unfolding build_layer_group_plan_def wp_bnd wp_sq
proof (rule wp_mono [OF plan_loop_ok [OF inv plan_start(1) [OF inv] plan_start(2)]])
  fix x u
  assume "(case x of (rs, ds, ts, A') \<Rightarrow> \<lambda>u. A' = [] @ ss \<and> plan_inv m g A' rs u \<and>
    plan_rows u g A' ds ts) u"
  then obtain rs ds ts where x: "x = (rs, ds, ts, ss)" and J: "plan_inv m g ss rs u"
    and rows: "plan_rows u g ss ds ts" by (auto split: prod.splits)
  have "plan_in_force m ss g (mk_plan x) u"
    using J rows x by (simp add: plan_in_force_def mk_plan_def)
  then show "wp (for_each (snd (snd (snd x))) (\<lambda>seq_id. end_recompute seq_id g))
     (\<lambda>_. wp (ret (mk_plan x))
        (\<lambda>pl u. (\<exists>t. plan_in_force m ss g pl t) \<and>
           kv_inv u \<and> kv_rest u = kv_rest m \<and> kv_avail u = kv_avail m)
        (\<lambda>_ u. kv_inv u \<and> kv_rest u = kv_rest m \<and> kv_avail u = kv_avail m))
     (\<lambda>_ u. kv_inv u \<and> kv_rest u = kv_rest m \<and> kv_avail u = kv_avail m) u"
    unfolding x snd_conv
    by (intro wp_mono [OF cleanup_ok [OF inv J]]) (auto simp: wp_ret x)
qed (simp_all add: cleanup_ok [OF inv])

text \<open>A leased body may read the map, and may raise; it must not change it.\<close>

lemma lease_ok:
  assumes inv: "kv_inv m" and body: "\<And>pl t. snd (body pl t) = t"
  shows "wp (lease_layer_group_plan ss g body)
    (\<lambda>r u. kv_inv u \<and> kv_rest u = kv_rest m \<and> kv_avail u = kv_avail m \<and>
       (\<exists>pl t. plan_in_force m ss g pl t \<and> body pl t = (Inr r, t)))
    (\<lambda>_ u. kv_inv u \<and> kv_rest u = kv_rest m \<and> kv_avail u = kv_avail m) m"
  unfolding lease_layer_group_plan_def wp_bnd
proof (rule wp_mono [OF acquire_ok [OF inv]])
  fix pl t
  assume force: "plan_in_force m ss g pl t"
  then have J: "plan_inv m g ss (recompute_slot_mapping pl) t" by (simp add: plan_in_force_def)
  have b: "wp (body pl) (\<lambda>r u. u = t \<and> body pl t = (Inr r, t)) (\<lambda>_ u. u = t) t"
    using body [of pl t] by (auto simp: wp_def split: prod.splits sum.splits)
  show "wp (try_finally (body pl) (release_layer_group_plan ss g))
    (\<lambda>r u. kv_inv u \<and> kv_rest u = kv_rest m \<and> kv_avail u = kv_avail m \<and>
       (\<exists>pl t. plan_in_force m ss g pl t \<and> body pl t = (Inr r, t)))
    (\<lambda>_ u. kv_inv u \<and> kv_rest u = kv_rest m \<and> kv_avail u = kv_avail m) t"
    unfolding wp_try_finally release_layer_group_plan_def
  proof (rule wp_mono [OF b])
    fix r u
    assume u: "u = t \<and> body pl t = (Inr r, t)"
    then have "u = t" by blast
    show "wp (for_each ss (\<lambda>seq_id. end_recompute seq_id g))
      (\<lambda>_ u. kv_inv u \<and> kv_rest u = kv_rest m \<and> kv_avail u = kv_avail m \<and>
         (\<exists>pl t. plan_in_force m ss g pl t \<and> body pl t = (Inr r, t)))
      (\<lambda>_ u. kv_inv u \<and> kv_rest u = kv_rest m \<and> kv_avail u = kv_avail m) u"
      unfolding \<open>u = t\<close> by (rule wp_mono [OF cleanup_ok [OF inv J]]) (use force u in auto)
  next
    fix e :: py_error and u
    assume "u = t"
    show "wp (for_each ss (\<lambda>seq_id. end_recompute seq_id g))
      (\<lambda>_ u. kv_inv u \<and> kv_rest u = kv_rest m \<and> kv_avail u = kv_avail m)
      (\<lambda>_ u. kv_inv u \<and> kv_rest u = kv_rest m \<and> kv_avail u = kv_avail m) u"
      unfolding \<open>u = t\<close> by (rule wp_mono [OF cleanup_ok [OF inv J]]) auto
  qed
qed simp

text \<open>The plans of all groups, one after the other.\<close>

lemma build_all_ok:
  assumes inv: "kv_inv m"
  shows "wp (build_layer_group_plans ss)
    (\<lambda>pls u. length pls = kv_num_layer_groups m \<and>
       kv_inv u \<and> kv_rest u = kv_rest m \<and> kv_avail u = kv_avail m)
    (\<lambda>_ u. kv_inv u \<and> kv_rest u = kv_rest m \<and> kv_avail u = kv_avail m) m"
  unfolding build_layer_group_plans_def wp_bnd wp_gets
  by (rule wp_fold_range [where J = "\<lambda>i pls u. length pls = i \<and>
       kv_inv u \<and> kv_rest u = kv_rest m \<and> kv_avail u = kv_avail m"])
    (use inv in \<open>auto simp: wp_bnd wp_ret intro!: wp_mono [OF build_ok]\<close>)

text \<open>Beginning a recompute and ending it again.\<close>

lemma begin_end_ok:
  assumes inv: "kv_inv m" and g: "0 \<le> g"
  shows "wp (sq (begin_recompute s g) (end_recompute s (nat g)))
    (\<lambda>_ u. kv_inv u \<and> kv_rest u = kv_rest m \<and> kv_avail u = kv_avail m)
    (\<lambda>_ u. kv_inv u \<and> kv_rest u = kv_rest m \<and> kv_avail u = kv_avail m) m"
  unfolding wp_sq
proof (rule wp_mono [OF begin_recompute_ok [OF inv]])
  fix r t
  assume "0 \<le> g \<and> begin_post m s (nat g) r t"
  then have b: "begin_post m s (nat g) r t" by blast
  then obtain p where P: "kvP m s = Some p" by (auto simp: begin_post_def)
  from plan_inv_begin [OF plan_start(1) [OF inv] b P] cleanup_ok [OF inv, of "nat g" "[s]"]
  have "wp (for_each [s] (\<lambda>s. end_recompute s (nat g)))
    (\<lambda>_ u. kv_inv u \<and> kv_rest u = kv_rest m \<and> kv_avail u = kv_avail m) (\<lambda>_ _. False) t" by simp
  then show "wp (end_recompute s (nat g))
    (\<lambda>_ u. kv_inv u \<and> kv_rest u = kv_rest m \<and> kv_avail u = kv_avail m)
    (\<lambda>_ u. kv_inv u \<and> kv_rest u = kv_rest m \<and> kv_avail u = kv_avail m) t"
    by (simp add: for_each_def wp_bnd wp_ret) (erule wp_mono, auto)
qed simp

end
