(* ===== verification/Ellm_Cache_Run.thy ===== *)
theory Ellm_Cache_Run
  imports Ellm_Cache_Plan
begin

text \<open>
  Every run of the KV map: the maps reachable from a constructor by any sequence of method
  calls, whether they return or raise. The properties of the component are stated for all of
  them.
\<close>

section \<open>Runs\<close>

datatype kv_op =
    AllocateEvicted nat int int
  | AppendToken nat
  | Fork nat nat
  | EvictPrefix nat int
  | FreeSequence nat
  | BeginRecompute nat int
  | EndRecompute nat nat
  | BuildPlans "nat list"

fun kv_exec :: "kv_op \<Rightarrow> unit kv" where
  "kv_exec (AllocateEvicted s n e) = allocate_sequence_with_evicted_prefix s n e"
| "kv_exec (AppendToken s) = bnd (append_token s) (\<lambda>_. ret ())"
| "kv_exec (Fork p c) = fork_sequence p c"
| "kv_exec (EvictPrefix s n) = bnd (evict_prefix s n) (\<lambda>_. ret ())"
| "kv_exec (FreeSequence s) = free_sequence s"
| "kv_exec (BeginRecompute s g) = bnd (begin_recompute s g) (\<lambda>_. ret ())"
| "kv_exec (EndRecompute s g) = end_recompute s g"
| "kv_exec (BuildPlans ss) = bnd (build_layer_group_plans ss) (\<lambda>_. ret ())"

inductive kv_reach :: "kv_map \<Rightarrow> bool" where
  init: "TokenLayerKVMap_init nl bs np lgs = Inr m \<Longrightarrow> kv_reach m"
| step: "kv_reach m \<Longrightarrow> kv_reach (snd (kv_exec op m))"

lemma wp_unit: "wp m (\<lambda>_. P) (\<lambda>_. P) s \<Longrightarrow> wp (bnd m (\<lambda>_. ret ())) (\<lambda>_. P) (\<lambda>_. P) s"
  unfolding wp_bnd wp_ret .

lemma kv_exec_inv:
  assumes inv: "kv_inv m"
  shows "kv_inv (snd (kv_exec op m))"
proof -
  have "wp (kv_exec op) (\<lambda>_. kv_inv) (\<lambda>_. kv_inv) m"
  proof (cases op)
    case (AllocateEvicted s n e)
    then show ?thesis using wp_mono [OF allocate_ok [OF inv]] by simp
  next
    case (AppendToken s)
    have "wp (append_token s) (\<lambda>_. kv_inv) (\<lambda>_. kv_inv) m"
      by (rule wp_mono [OF append_token_ok [OF inv]]) (auto simp: append_post_def)
    then show ?thesis using AppendToken wp_unit by simp
  next
    case (Fork p c)
    have "wp (fork_sequence p c) (\<lambda>_. kv_inv) (\<lambda>_. kv_inv) m"
      by (rule wp_mono [OF fork_sequence_ok [OF inv]]) (use inv in auto)
    then show ?thesis using Fork by simp
  next
    case (EvictPrefix s n)
    have "wp (evict_prefix s n) (\<lambda>_. kv_inv) (\<lambda>_. kv_inv) m"
      by (rule wp_mono [OF evict_prefix_ok [OF inv]]) (use inv in auto)
    then show ?thesis using EvictPrefix wp_unit by simp
  next
    case (FreeSequence s)
    then show ?thesis using wp_mono [OF free_sequence_ok [OF inv]] by simp
  next
    case (BeginRecompute s g)
    have "wp (begin_recompute s g) (\<lambda>_. kv_inv) (\<lambda>_. kv_inv) m"
      by (rule wp_mono [OF begin_recompute_ok [OF inv]]) (auto simp: begin_post_def)
    then show ?thesis using BeginRecompute wp_unit by simp
  next
    case (EndRecompute s g)
    then show ?thesis using wp_mono [OF end_recompute_ok [OF inv]] by simp
  next
    case (BuildPlans ss)
    have "wp (build_layer_group_plans ss) (\<lambda>_. kv_inv) (\<lambda>_. kv_inv) m"
      by (rule wp_mono [OF build_all_ok [OF inv]]) auto
    then show ?thesis using BuildPlans wp_unit by simp
  qed
  then show ?thesis by (rule wp_snd)
qed

lemma kv_reach_inv: "kv_reach m \<Longrightarrow> kv_inv m"
  by (induction rule: kv_reach.induct) (auto intro: TokenLayerKVMap_init_inv kv_exec_inv)

text \<open>Running a list of calls, whatever each of them returns.\<close>

fun kv_run :: "kv_op list \<Rightarrow> kv_map \<Rightarrow> kv_map" where
  "kv_run [] m = m"
| "kv_run (op # ops) m = kv_run ops (snd (kv_exec op m))"

lemma kv_reach_run: "kv_reach m \<Longrightarrow> kv_reach (kv_run ops m)"
  by (induction ops arbitrary: m) (auto intro: kv_reach.step)

text \<open>
  A map of 2 layer groups with 6 blocks of 2 tokens each, on which the properties are
  instantiated: sequence 0 has 5 tokens, 1 is its fork, and 2 has an evicted prefix.
\<close>

definition demo_init :: kv_map where
  "demo_init = \<lparr>kv_num_layers = 8, kv_block_size = 2, kv_num_physical_blocks = 8,
     kv_layer_group_size = 4, kv_num_layer_groups = 2,
     kv_free_blocks = [[0..<8], [0..<8]], kv_block_ref_counts = [replicate 8 0, replicate 8 0],
     kv_entries = [], kv_temporary_entries = [], kv_sequence_lengths = [],
     kv_evicted_prefix_blocks = []\<rparr>"

definition demo_map :: kv_map where
  "demo_map = kv_run [AllocateEvicted 0 5 0, Fork 0 1, AllocateEvicted 2 5 2] demo_init"

lemma demo_reach: "kv_reach demo_map"
proof -
  have "TokenLayerKVMap_init 8 2 8 4 = Inr demo_init"
    by (simp add: TokenLayerKVMap_init_def demo_init_def ceil_div_def Let_def numeral_2_eq_2)
  then show ?thesis unfolding demo_map_def by (intro kv_reach_run kv_reach.init)
qed

section \<open>Properties\<close>

text \<open>C1: In every reachable KV map the reference count of a physical block is the number of
  retained and temporary entries that point to it, and the free queue of a layer group holds,
  once each, exactly the blocks with no reference: no block is leaked, freed twice or handed
  out while in use.\<close>

theorem kv_refcounts_exact:
  assumes "kv_reach m" and "g < kv_num_layer_groups m"
  shows "distinct (kv_free_blocks m ! g) \<and>
    (\<forall>b. b \<in> set (kv_free_blocks m ! g) \<longleftrightarrow>
       b < kv_num_physical_blocks m \<and> kv_block_ref_counts m ! g ! b = 0) \<and>
    (\<forall>b < kv_num_physical_blocks m. kv_block_ref_counts m ! g ! b =
       length (filter (\<lambda>(k, e). key_group k = g \<and> ke_physical_block_id e = b)
         (kv_entries m @ kv_temporary_entries m)))"
proof -
  have pool: "pool_ok m (held m)"
    using kv_ok_pool [of m "{#}"] kv_reach_inv [OF assms(1)] by (simp add: kv_inv_def)
  have "count (owned d) (g, b) =
      length (filter (\<lambda>(k, e). key_group k = g \<and> ke_physical_block_id e = b) d)" for d b
  proof (induction d)
    case (Cons x d)
    obtain k e where x: "x = (k, e)" by (cases x)
    from Cons show ?case unfolding x by (cases "key_group k = g \<and> ke_physical_block_id e = b") auto
  qed simp
  then have "count (held m) (g, b) = length (filter (\<lambda>(k, e). key_group k = g \<and>
      ke_physical_block_id e = b) (kv_entries m @ kv_temporary_entries m))" for b
    by (simp add: held_def)
  with pool_okD(4-6) [OF pool, of g] assms(2) show ?thesis by auto
qed

theorem kv_refcounts_exact_witness:
  "kv_reach demo_map \<and> 0 < kv_num_layer_groups demo_map \<and>
   distinct (kv_free_blocks demo_map ! 0)"
proof -
  have "0 < kv_num_layer_groups demo_map" by code_simp
  with kv_refcounts_exact [OF demo_reach this] demo_reach show ?thesis by simp
qed

text \<open>C2: \<^verbatim>\<open>allocate_sequence_with_evicted_prefix\<close> is all or nothing. It succeeds exactly when its
  arguments are valid and every layer group has a free block for every retained logical block;
  then it retains exactly the blocks behind the evicted prefix in every group. When it raises, the
  map, with its pools, holds what it held before.\<close>

theorem allocate_all_or_nothing:
  assumes "kv_reach m"
  shows "wp (allocate_sequence_with_evicted_prefix s n e)
    (\<lambda>_ t. alloc_guards m s n e \<and> kv_frame s m t \<and>
       (\<forall>g < kv_num_layer_groups m. kv_avail t g + alloc_need m n e = kv_avail m g) \<and>
       (\<forall>l g. kvE False t s l g \<noteq> None \<longleftrightarrow> nat e div kv_block_size m \<le> l \<and>
          l < ceil_div (nat n) (kv_block_size m) \<and> g < kv_num_layer_groups m))
    (\<lambda>_ t. kv_rest t = kv_rest m \<and> kv_avail t = kv_avail m \<and>
       (alloc_guards m s n e \<longrightarrow>
          (\<exists>g < kv_num_layer_groups m. kv_avail m g < alloc_need m n e))) m"
proof (rule wp_mono [OF allocate_ok [OF kv_reach_inv [OF assms]]])
  fix x t
  assume a: "kv_inv t \<and> kv_frame s m t \<and> alloc_guards m s n e \<and> kvL t s = Some (nat n) \<and>
       kvP t s = Some (nat e div kv_block_size m) \<and> (\<forall>l g. kvE True t s l g = None) \<and>
       (\<forall>g < kv_num_layer_groups m. kv_avail t g + alloc_need m n e = kv_avail m g)"
  then have seqs: "seqs_ok t" and L: "kvL t s = Some (nat n)"
    and P: "kvP t s = Some (nat e div kv_block_size m)"
    and c: "kv_block_size t = kv_block_size m" "kv_num_layer_groups t = kv_num_layer_groups m"
    by (auto simp: kv_inv_def kv_frame_def kv_consts_eq)
  have "kvE False t s l g \<noteq> None \<longleftrightarrow> nat e div kv_block_size m \<le> l \<and>
      l < ceil_div (nat n) (kv_block_size m) \<and> g < kv_num_layer_groups m" for l g
    using view_present(3) [OF seqs L P, of l g] unfolding c by argo
  with a show "alloc_guards m s n e \<and> kv_frame s m t \<and>
       (\<forall>g < kv_num_layer_groups m. kv_avail t g + alloc_need m n e = kv_avail m g) \<and>
       (\<forall>l g. kvE False t s l g \<noteq> None \<longleftrightarrow> nat e div kv_block_size m \<le> l \<and>
          l < ceil_div (nat n) (kv_block_size m) \<and> g < kv_num_layer_groups m)" by blast
qed blast

theorem allocate_all_or_nothing_witness:
  "fst (allocate_sequence_with_evicted_prefix 3 20 0 demo_map) =
     Inl (RuntimeError ''No free KV blocks in layer group'') \<and>
   kv_rest (snd (allocate_sequence_with_evicted_prefix 3 20 0 demo_map)) = kv_rest demo_map"
proof -
  have e: "fst (allocate_sequence_with_evicted_prefix 3 20 0 demo_map) =
     Inl (RuntimeError ''No free KV blocks in layer group'')" by code_simp
  then show ?thesis
    using allocate_all_or_nothing [OF demo_reach, of 3 20 0]
    by (cases "allocate_sequence_with_evicted_prefix 3 20 0 demo_map") (simp add: wp_def)
qed

text \<open>C3: \<^verbatim>\<open>append_token\<close> never writes into a block that another sequence can see. When it returns,
  the sequence has one token more, the logical block of that token is present in every layer
  group and its physical block has reference count 1; the tail was moved to a new block exactly
  in the groups where it was shared, the reported copies are these moves, in group order, and
  each group gave up one free block exactly when it needed one. No other sequence changes. When
  it raises, nothing has changed, and a block was missing (or the sequence is unknown, or its
  tail block had been evicted).\<close>

theorem append_token_copy_on_write:
  assumes "kv_reach m"
  shows "wp (append_token s)
    (\<lambda>copies t. \<exists>n. kvL m s = Some n \<and> kvL t = (kvL m)(s \<mapsto> n + 1) \<and> kv_frame s m t \<and>
       (let l = n div kv_block_size m in
        (\<forall>g < kv_num_layer_groups m.
           kvE False t s l g \<noteq> None \<and> count (held t) (g, tail_old t s l g) = 1 \<and>
           (\<not> append_needs m s n g \<longrightarrow> tail_old t s l g = tail_old m s l g) \<and>
           kv_avail t g + (if append_needs m s n g then 1 else 0) = kv_avail m g) \<and>
        (\<forall>l' g. l' \<noteq> l \<longrightarrow> kvE False t s l' g = kvE False m s l' g)) \<and>
       copies = append_copies m s n t)
    (\<lambda>e t. kv_rest t = kv_rest m \<and> kv_avail t = kv_avail m \<and> append_fails m s e) m"
  by (rule wp_mono [OF append_token_ok [OF kv_reach_inv [OF assms]]])
    (simp only: append_post_def Let_def Suc_eq_plus1, blast, blast)

theorem append_token_copy_on_write_witness:
  "append_copies demo_map 0 5 (snd (append_token 0 demo_map)) = [(0, 2, 5), (1, 2, 5)] \<and>
   kvL (snd (append_token 0 demo_map)) 0 = Some 6 \<and>
   count (held (snd (append_token 0 demo_map))) (1, 5) = 1"
proof -
  have e: "fst (append_token 0 demo_map) = Inr [(0, 2, 5), (1, 2, 5)]" by code_simp
  have n: "kvL demo_map 0 = Some 5" "kv_num_layer_groups demo_map = 2" "kv_block_size demo_map = 2"
    by code_simp+
  have t: "tail_old (snd (append_token 0 demo_map)) 0 2 1 = 5" by code_simp
  from append_token_copy_on_write [OF demo_reach, of 0] e n t show ?thesis
    by (cases "append_token 0 demo_map") (auto simp: wp_def Let_def dest!: spec [of _ 1])
qed

text \<open>C4: Freeing a fork right after making it restores the map: the entries, lengths and
  prefixes are what they were, and every layer group has as many free blocks as before. A fork
  that is refused changes nothing.\<close>

theorem fork_then_free:
  assumes "kv_reach m"
  shows "wp (sq (fork_sequence p c) (free_sequence c))
    (\<lambda>_ t. kv_rest t = kv_rest m \<and> kv_avail t = kv_avail m) (\<lambda>_ t. t = m) m"
  by (rule wp_mono [OF fork_free_ok [OF kv_reach_inv [OF assms]]]) auto

theorem fork_then_free_witness:
  "fst (sq (fork_sequence 0 3) (free_sequence 3) demo_map) = Inr () \<and>
   kv_rest (snd (sq (fork_sequence 0 3) (free_sequence 3) demo_map)) = kv_rest demo_map"
proof -
  have e: "fst (sq (fork_sequence 0 3) (free_sequence 3) demo_map) = Inr ()" by code_simp
  with fork_then_free [OF demo_reach, of 0 3] show ?thesis
    by (cases "sq (fork_sequence 0 3) (free_sequence 3) demo_map") (simp add: wp_def)
qed

text \<open>C5: \<^verbatim>\<open>evict_prefix\<close> drops the whole blocks of the requested prefix, cut at the length of
  the sequence, in every layer group and no other entry; it returns the number of tokens
  dropped. It refuses, changing nothing, exactly when the sequence is unknown, a recompute is
  active, or the prefix would shrink.\<close>

theorem evict_prefix_exact:
  assumes "kv_reach m"
  shows "wp (evict_prefix s k)
    (\<lambda>r t. \<exists>n p. kvL m s = Some n \<and> kvP m s = Some p \<and> p \<le> evict_target m n k \<and>
       kv_temporary_entries m = [] \<and> r = evict_target m n k * kv_block_size m \<and>
       kv_frame s m t \<and> kvL t = kvL m \<and> kvP t = (kvP m)(s \<mapsto> evict_target m n k) \<and>
       (\<forall>l g. kvE False t s l g = (if l < evict_target m n k then None else kvE False m s l g)))
    (\<lambda>e t. t = m \<and>
       (case (kvL m s, kvP m s) of
          (Some n, Some p) \<Rightarrow> kv_temporary_entries m \<noteq> [] \<or> evict_target m n k < p
        | _ \<Rightarrow> True)) m"
  by (rule wp_mono [OF evict_prefix_ok [OF kv_reach_inv [OF assms]]]) blast+

theorem evict_prefix_exact_witness:
  "fst (evict_prefix 0 3 demo_map) = Inr 2 \<and> kvE False (snd (evict_prefix 0 3 demo_map)) 0 0 1 = None"
proof -
  have e: "fst (evict_prefix 0 3 demo_map) = Inr 2" by code_simp
  have n: "kvL demo_map 0 = Some 5" "kv_block_size demo_map = 2" by code_simp+
  from evict_prefix_exact [OF demo_reach, of 0 3] e n show ?thesis
    by (cases "evict_prefix 0 3 demo_map") (auto simp: wp_def evict_target_def)
qed

text \<open>C6: A recompute makes the block table of its layer group complete. When
  \<^verbatim>\<open>begin_recompute\<close> returns, the table lists the block of every logical block of the sequence,
  the evicted prefix stands in fresh blocks nobody else refers to, and no retained entry has
  changed; it takes one free block per evicted block. When it raises, nothing has changed, and
  the group is out of range, the sequence unknown or already in a recompute, or blocks are
  missing.\<close>

theorem begin_recompute_completes_table:
  assumes "kv_reach m"
  shows "wp (begin_recompute s g)
    (\<lambda>table t. \<exists>n p. kvL m s = Some n \<and> kvP m s = Some p \<and> kvE False t = kvE False m \<and>
       length table = ceil_div n (kv_block_size m) \<and>
       (\<forall>l < length table. decode_block t s (nat g) l = Some (table ! l)) \<and>
       (\<forall>l < p. count (held t) (nat g, table ! l) = 1) \<and>
       kv_avail t (nat g) + p = kv_avail m (nat g))
    (\<lambda>_ t. kv_rest t = kv_rest m \<and> kv_avail t = kv_avail m \<and> begin_fails m s g) m"
proof (rule wp_mono [OF begin_recompute_ok [OF kv_reach_inv [OF assms]]])
  fix table t
  assume "0 \<le> g \<and> begin_post m s (nat g) table t"
  then obtain n p where L: "kvL m s = Some n" and P: "kvP m s = Some p"
    and F: "kvE False t = kvE False m"
    and ent: "\<forall>l < p. \<exists>b. kvE True t s l (nat g) = Some (recompute_entry m s (nat g) l b) \<and>
        count (held t) (nat g, b) = 1"
    and full: "\<forall>l < ceil_div n (kv_block_size m). decode_block t s (nat g) l \<noteq> None"
    and r: "table = map (\<lambda>l. the (decode_block t s (nat g) l)) [0..<ceil_div n (kv_block_size m)]"
    and av: "kv_avail t (nat g) + p = kv_avail m (nat g)"
    unfolding begin_post_def by blast
  have le: "p \<le> ceil_div n (kv_block_size m)"
    using view_present(2) [OF _ L P] kv_reach_inv [OF assms] by (simp add: kv_inv_def)
  have tab: "\<forall>l < length table. decode_block t s (nat g) l = Some (table ! l)"
    using full r by auto
  have "count (held t) (nat g, table ! l) = 1" if l: "l < p" for l
  proof -
    from ent l obtain b where b: "kvE True t s l (nat g) = Some (recompute_entry m s (nat g) l b)"
      "count (held t) (nat g, b) = 1" by blast
    then have "decode_block t s (nat g) l = Some b"
      by (simp add: decode_block_def recompute_entry_def)
    with tab l le r b show ?thesis by simp
  qed
  then show "\<exists>n p. kvL m s = Some n \<and> kvP m s = Some p \<and> kvE False t = kvE False m \<and>
       length table = ceil_div n (kv_block_size m) \<and>
       (\<forall>l < length table. decode_block t s (nat g) l = Some (table ! l)) \<and>
       (\<forall>l < p. count (held t) (nat g, table ! l) = 1) \<and>
       kv_avail t (nat g) + p = kv_avail m (nat g)"
    using L P F tab r av by auto
qed blast

theorem begin_recompute_completes_table_witness:
  "fst (begin_recompute 2 1 demo_map) = Inr [5, 3, 4] \<and>
   count (held (snd (begin_recompute 2 1 demo_map))) (1, 5) = 1"
proof -
  have e: "fst (begin_recompute 2 1 demo_map) = Inr [5, 3, 4]" by code_simp
  have n: "kvP demo_map 2 = Some 1" by code_simp
  from begin_recompute_completes_table [OF demo_reach, of 2 1] e n show ?thesis
    by (cases "begin_recompute 2 1 demo_map") (auto simp: wp_def)
qed

text \<open>C7: A leased plan leaves no trace. Around any body that does not change the map itself,
  whether the body, the building of the plan or nothing raises, the map ends with the entries
  it had and every layer group with the free blocks it had; and the plan that the body sees has
  one row per request, complete block tables, the decode slot of the last token of each
  request, and pairwise different recompute slots.\<close>

theorem lease_leaves_no_trace:
  assumes "kv_reach m" and "\<And>pl t. snd (body pl t) = t"
  shows "wp (lease_layer_group_plan ss g body)
    (\<lambda>r u. kv_rest u = kv_rest m \<and> kv_avail u = kv_avail m \<and>
       (\<exists>pl t. body pl t = (Inr r, t) \<and> distinct (recompute_slot_mapping pl) \<and>
          plan_rows t g ss (decode_slot_mapping pl) (decode_block_tables pl)))
    (\<lambda>_ u. kv_rest u = kv_rest m \<and> kv_avail u = kv_avail m) m"
  by (rule wp_mono [OF lease_ok [OF kv_reach_inv [OF assms(1)] assms(2)]])
    (auto simp: plan_in_force_def dest: plan_slots_distinct)

theorem lease_leaves_no_trace_witness:
  "fst (lease_layer_group_plan [2, 0] 1 (\<lambda>pl. ret (recompute_slot_mapping pl)) demo_map) = Inr [10, 11] \<and>
   kv_rest (snd (lease_layer_group_plan [2, 0] 1 (\<lambda>pl. ret (recompute_slot_mapping pl)) demo_map)) =
     kv_rest demo_map"
proof -
  have e: "fst (lease_layer_group_plan [2, 0] 1 (\<lambda>pl. ret (recompute_slot_mapping pl)) demo_map) =
    Inr [10, 11]" by code_simp
  from lease_leaves_no_trace [OF demo_reach, of "\<lambda>pl. ret (recompute_slot_mapping pl)" "[2, 0]" 1] e
  have "case lease_layer_group_plan [2, 0] 1 (\<lambda>pl. ret (recompute_slot_mapping pl)) demo_map of
      (Inr x, t) \<Rightarrow> kv_rest t = kv_rest demo_map | (Inl e, t) \<Rightarrow> False"
    by (auto simp: wp_def ret_def split: prod.splits sum.splits)
  then show ?thesis using e
    by (cases "lease_layer_group_plan [2, 0] 1 (\<lambda>pl. ret (recompute_slot_mapping pl)) demo_map")
      simp
qed

end
