(* ===== verification/Block_Interface.thy ===== *)
theory Block_Interface
  imports Seq_Group
begin

text \<open>
  \<^verbatim>\<open>vllm/core/interfaces.py\<close>: the interface between the scheduler and the block managers.
  The abstract class is a record of operations on the state \<open>'b\<close> of a manager; the scheduler is
  modelled for every such record. \<open>'p\<close> is the type of the recompute plans. The operations
  that only the eLLM manager has, which the scheduler looks up with \<^verbatim>\<open>getattr(.., None)\<close>, are
  optional fields.
\<close>

text \<open>\<^verbatim>\<open>int(x)\<close> of a float drops the fraction.\<close>

definition int_of_rat :: "rat \<Rightarrow> int" where
  "int_of_rat x = (if 0 \<le> x then \<lfloor>x\<rfloor> else \<lceil>x\<rceil>)"

datatype AllocStatus = OK | LATER | NEVER

datatype manager_class =
    BlockSpaceManagerV1
  | BlockSpaceManagerV2
  | ELLMBlockSpaceManager
  | EmbeddingModelBlockSpaceManager

text \<open>\<^verbatim>\<open>str.lower\<close> on the letters A to Z; the names compared with are ASCII.\<close>

definition char_lower :: "char \<Rightarrow> char" where
  "char_lower c = (let n = of_char c :: nat in if 65 \<le> n \<and> n \<le> 90 then char_of (n + 32) else c)"

definition get_block_space_manager_class :: "string \<Rightarrow> py_error + manager_class" where
  "get_block_space_manager_class version0 =
     (let version = map char_lower version0 in
      if version = ''v1'' then Inr BlockSpaceManagerV1
      else if version = ''v2'' then Inr BlockSpaceManagerV2
      else if version = ''ellm'' then Inr ELLMBlockSpaceManager
      else if version = ''embedding'' then Inr EmbeddingModelBlockSpaceManager
      else Inl (ValueError ''Unknown version''))"

text \<open>
  A block copy or transfer: the tuple \<^verbatim>\<open>(source, destination)\<close>, or
  \<^verbatim>\<open>(layer_group, source, destination)\<close> from the eLLM manager.
\<close>

type_synonym block_mapping = "nat list"

record ('b, 'p) block_manager =
  bm_can_allocate :: "SequenceGroup \<Rightarrow> ('b, AllocStatus) pym"
  bm_allocate :: "SequenceGroup \<Rightarrow> ('b, unit) pym"
  bm_can_append_slots :: "SequenceGroup \<Rightarrow> nat \<Rightarrow> ('b, bool) pym"
  bm_append_slots :: "Sequence \<Rightarrow> nat \<Rightarrow> ('b, block_mapping list) pym"
  bm_fork :: "Sequence \<Rightarrow> Sequence \<Rightarrow> ('b, unit) pym"
  bm_can_swap_in :: "SequenceGroup \<Rightarrow> ('b, AllocStatus) pym"
  bm_swap_in :: "SequenceGroup \<Rightarrow> ('b, block_mapping list) pym"
  bm_can_swap_out :: "SequenceGroup \<Rightarrow> ('b, bool) pym"
  bm_swap_out :: "SequenceGroup \<Rightarrow> ('b, block_mapping list) pym"
  bm_free :: "Sequence \<Rightarrow> ('b, unit) pym"
  bm_get_block_table :: "Sequence \<Rightarrow> ('b, nat list) pym"
  bm_get_seq_used_block_id :: "SequenceGroup \<Rightarrow> ('b, nat list) pym"
  bm_access_all_blocks_in_seq :: "Sequence \<Rightarrow> rat \<Rightarrow> ('b, unit) pym"
  bm_get_common_computed_block_ids :: "Sequence list \<Rightarrow> ('b, nat list) pym"
  bm_mark_blocks_as_computed :: "SequenceGroup \<Rightarrow> ('b, unit) pym"
  bm_evict_to_cached_layer_ratio :: "(Sequence \<Rightarrow> int \<Rightarrow> ('b, nat) pym) option"
  bm_get_layer_group_block_tables :: "(Sequence \<Rightarrow> ('b, nat list list) pym) option"
  bm_build_partial_recompute_plans :: "(nat list \<Rightarrow> ('b, 'p list) pym) option"
  bm_get_num_evicted_tokens :: "(nat \<Rightarrow> ('b, nat) pym) option"

end
