(* ===== verification/Ellm_Block_Manager.thy ===== *)
theory Ellm_Block_Manager
  imports Ellm_Cache_Run Block_Interface Complex_Main
begin

text \<open>
  \<^verbatim>\<open>vllm/core/ellm_block_manager.py\<close>: the block manager on top of the token/layer map. It owns
  the map, the free CPU blocks of every layer group and the swapped-out sequences. One
  definition per method; the proofs are in the theory \<^verbatim>\<open>Ellm_Block_Facts\<close>.
\<close>

record ellm_manager =
  em_block_size :: nat
  em_num_total_gpu_blocks :: nat
  em_num_total_cpu_blocks :: int
  em_num_layers :: nat
  em_layer_group_size :: nat
  em_flatten_layers :: int
  em_watermark_blocks :: int
  em_cache_map :: kv_map
  em_free_cpu_blocks :: "nat list list"
  em_swapped_sequences :: "(nat, nat \<times> nat \<times> nat list list) pydict"

type_synonym 'a em = "(ellm_manager, 'a) pym"

definition ELLMBlockSpaceManager_init ::
  "int \<Rightarrow> int \<Rightarrow> int \<Rightarrow> int \<Rightarrow> int \<Rightarrow> rat \<Rightarrow> int option \<Rightarrow> bool \<Rightarrow> int \<Rightarrow> py_error + ellm_manager"
where
  "ELLMBlockSpaceManager_init block_size num_gpu_blocks num_cpu_blocks num_layers layer_group_size
     watermark sliding_window enable_caching flatten_layers =
     (if sliding_window \<noteq> None then
        Inl (NotImplementedError ''eLLM does not support sliding window'')
      else if enable_caching then
        Inl (NotImplementedError ''eLLM prefix sharing is not implemented'')
      else
        (case TokenLayerKVMap_init num_layers block_size num_gpu_blocks layer_group_size of
           Inl e \<Rightarrow> Inl e
         | Inr m \<Rightarrow> Inr
             \<lparr>em_block_size = nat block_size, em_num_total_gpu_blocks = nat num_gpu_blocks,
              em_num_total_cpu_blocks = num_cpu_blocks, em_num_layers = nat num_layers,
              em_layer_group_size = nat layer_group_size, em_flatten_layers = flatten_layers,
              em_watermark_blocks = int_of_rat (watermark * of_int num_gpu_blocks),
              em_cache_map = m,
              em_free_cpu_blocks = replicate (kv_num_layer_groups m) [0..<nat num_cpu_blocks],
              em_swapped_sequences = []\<rparr>))"

text \<open>A call of a method of the map.\<close>

definition on_map :: "'a kv \<Rightarrow> 'a em" where
  "on_map f = (\<lambda>b. case f (em_cache_map b) of (r, m) \<Rightarrow> (r, b\<lparr>em_cache_map := m\<rparr>))"

definition layer_groups :: "ellm_manager \<Rightarrow> nat list" where
  "layer_groups b = [0..<kv_num_layer_groups (em_cache_map b)]"

definition required_blocks :: "ellm_manager \<Rightarrow> Sequence \<Rightarrow> nat" where
  "required_blocks b s = ceil_div (seq_get_len s) (em_block_size b)"

text \<open>\<^verbatim>\<open>min(xs)\<close>, a \<^verbatim>\<open>ValueError\<close> on the empty sequence\<close>

definition py_min :: "nat list \<Rightarrow> py_error + nat" where
  "py_min xs = (case xs of
     [] \<Rightarrow> Inl (ValueError ''min() arg is an empty sequence'') | x # ys \<Rightarrow> Inr (foldr min ys x))"

definition em_get_num_free_gpu_blocks :: "nat em" where
  "em_get_num_free_gpu_blocks =
     bnd (gets layer_groups) (\<lambda>groups.
     bnd (collect groups (\<lambda>g. on_map (get_num_free_blocks (Some g)))) (\<lambda>free.
     lift_err (\<lambda>_. py_min free)))"

definition em_get_num_free_cpu_blocks :: "nat em" where
  "em_get_num_free_cpu_blocks = lift_err (\<lambda>b. py_min (map length (em_free_cpu_blocks b)))"

definition em_can_allocate :: "SequenceGroup \<Rightarrow> AllocStatus em" where
  "em_can_allocate seq_group =
     bnd (gets id) (\<lambda>b.
     let required = int (sum_list (map (required_blocks b) (get_seqs (Some WAITING) seq_group))) in
     if required + em_watermark_blocks b > int (em_num_total_gpu_blocks b) then ret NEVER
     else bnd em_get_num_free_gpu_blocks (\<lambda>min_free.
       if required + em_watermark_blocks b \<le> int min_free then ret OK else ret LATER))"

definition em_allocate :: "SequenceGroup \<Rightarrow> unit em" where
  "em_allocate seq_group =
     bnd (fold_catch (get_seqs (Some WAITING) seq_group) []
       (\<lambda>allocated s.
          sq (on_map (allocate_sequence (seq_id s) (int (seq_get_len s))))
         (ret (allocated @ [seq_id s])))
       (\<lambda>allocated e.
          sq (for_each allocated (\<lambda>sid. on_map (free_sequence sid)))
         (throw e))) (\<lambda>_. ret ())"

text \<open>The blocks each group needs for the pending tokens of the running sequences.\<close>

definition em_needs_by_group :: "SequenceGroup \<Rightarrow> nat list em" where
  "em_needs_by_group seq_group =
     bnd (gets id) (\<lambda>b.
     fold_each (get_seqs (Some RUNNING) seq_group) (map (\<lambda>_. 0) (layer_groups b))
       (\<lambda>needs s.
          bnd (on_map (get_sequence_length (seq_id s))) (\<lambda>old_length.
          if seq_get_len s \<le> old_length then ret needs
          else if seq_get_len s mod em_block_size b = 1 then ret (map Suc needs)
          else fold_each (layer_groups b) needs (\<lambda>needs g.
            bnd (on_map (sequence_needs_cow (seq_id s) g)) (\<lambda>cow.
            ret (if cow then needs[g := Suc (needs ! g)] else needs))))))"

definition em_can_append_slots :: "SequenceGroup \<Rightarrow> nat \<Rightarrow> bool em" where
  "em_can_append_slots seq_group num_lookahead_slots =
     (if num_lookahead_slots \<noteq> 0 then ret False
      else
        bnd (em_needs_by_group seq_group) (\<lambda>needs.
        bnd (gets layer_groups) (\<lambda>groups.
        all_each groups (\<lambda>g. bnd (on_map (get_num_free_blocks (Some g))) (\<lambda>n.
          ret (needs ! g \<le> n))))))"

text \<open>
  The loop appends one token per round, so it runs at most \<open>seq_get_len s\<close> times; the fuel is
  one more.
\<close>

fun em_append_loop ::
  "nat \<Rightarrow> Sequence \<Rightarrow> (nat \<times> nat \<times> nat) list \<Rightarrow> (nat \<times> nat \<times> nat) list em"
where
  "em_append_loop 0 s copy_mappings = throw NonTermination"
| "em_append_loop (Suc fuel) s copy_mappings =
     bnd (on_map (get_sequence_length (seq_id s))) (\<lambda>n.
     if n < seq_get_len s then
       bnd (on_map (append_token (seq_id s))) (\<lambda>cows.
       em_append_loop fuel s (copy_mappings @ cows))
     else ret copy_mappings)"

definition em_append_slots :: "Sequence \<Rightarrow> nat \<Rightarrow> (nat \<times> nat \<times> nat) list em" where
  "em_append_slots s num_lookahead_slots =
     (if num_lookahead_slots \<noteq> 0 then throw (NotImplementedError ''eLLM lookahead is not implemented'')
      else em_append_loop (Suc (seq_get_len s)) s [])"

definition em_get_layer_group_block_tables :: "Sequence \<Rightarrow> nat list list em" where
  "em_get_layer_group_block_tables s =
     bnd (gets layer_groups) (\<lambda>groups.
     collect groups (\<lambda>g. on_map (get_retained_block_table (seq_id s) g)))"

definition em_evict_to_cached_layer_ratio :: "Sequence \<Rightarrow> int \<Rightarrow> nat em" where
  "em_evict_to_cached_layer_ratio s cached_layers0 =
     bnd (gets id) (\<lambda>b.
     let cached_layers = nat (min (max cached_layers0 0) (int (em_num_layers b)));
         num_blocks = ceil_div (seq_get_len s) (em_block_size b);
         retained_blocks = max 1 (ceil_div (num_blocks * cached_layers) (em_num_layers b));
         evicted_blocks = num_blocks - retained_blocks in
     on_map (evict_prefix (seq_id s) (int (evicted_blocks * em_block_size b))))"

definition em_build_partial_recompute_plans :: "nat list \<Rightarrow> LayerGroupBlockPlan list em" where
  "em_build_partial_recompute_plans seq_ids = on_map (build_layer_group_plans seq_ids)"

definition em_get_num_evicted_tokens :: "nat \<Rightarrow> nat em" where
  "em_get_num_evicted_tokens sid = on_map (get_num_evicted_tokens sid)"

definition em_get_block_table :: "Sequence \<Rightarrow> nat list em" where
  "em_get_block_table s =
     bnd (em_get_layer_group_block_tables s) (\<lambda>tables. lift_err (\<lambda>_. nth_py tables 0))"

definition em_get_seq_used_block_id :: "SequenceGroup \<Rightarrow> nat list em" where
  "em_get_seq_used_block_id seq_group =
     fold_each (get_seqs (Some RUNNING) seq_group) [] (\<lambda>block_ids s.
       bnd (em_get_layer_group_block_tables s) (\<lambda>tables. ret (block_ids @ concat tables)))"

definition em_free :: "Sequence \<Rightarrow> unit em" where
  "em_free s = on_map (free_sequence (seq_id s))"

definition em_fork :: "Sequence \<Rightarrow> Sequence \<Rightarrow> unit em" where
  "em_fork parent child = on_map (fork_sequence (seq_id parent) (seq_id child))"

section \<open>Swapping\<close>

text \<open>\<^verbatim>\<open>for group, table in enumerate(tables): required[group] += len(table)\<close>\<close>

definition add_table_lens :: "nat list \<Rightarrow> nat list list \<Rightarrow> py_error + nat list" where
  "add_table_lens required tables =
     (if length tables \<le> length required then
        Inr (map (\<lambda>g. required ! g + (if g < length tables then length (tables ! g) else 0))
              [0..<length required])
      else Inl IndexError)"

text \<open>The value \<^const>\<open>None\<close> is the early return of \<^const>\<open>NEVER\<close>.\<close>

fun em_swap_in_needs :: "Sequence list \<Rightarrow> nat list \<Rightarrow> nat list option em" where
  "em_swap_in_needs [] required = ret (Some required)"
| "em_swap_in_needs (s # ss) required =
     bnd (gets em_swapped_sequences) (\<lambda>swapped.
     case map_of swapped (seq_id s) of
       None \<Rightarrow> ret None
     | Some (_, _, cpu_tables) \<Rightarrow>
         bnd (lift_err (\<lambda>_. add_table_lens required cpu_tables)) (em_swap_in_needs ss))"

definition em_can_swap_in :: "SequenceGroup \<Rightarrow> nat \<Rightarrow> AllocStatus em" where
  "em_can_swap_in seq_group num_lookahead_slots =
     (if num_lookahead_slots \<noteq> 0 then ret NEVER
      else
        bnd (gets layer_groups) (\<lambda>groups.
        bnd (em_swap_in_needs (get_seqs (Some SWAPPED) seq_group) (map (\<lambda>_. 0) groups)) (\<lambda>needs.
        case needs of
          None \<Rightarrow> ret NEVER
        | Some required \<Rightarrow>
            bnd (all_each groups (\<lambda>g. bnd (on_map (get_num_free_blocks (Some g))) (\<lambda>n.
              ret (required ! g \<le> n)))) (\<lambda>feasible.
            ret (if feasible then OK else LATER)))))"

text \<open>\<^verbatim>\<open>self._free_cpu_blocks[group].extend(blocks)\<close> and \<^verbatim>\<open>.popleft()\<close>\<close>

definition cpu_extend :: "nat \<Rightarrow> nat list \<Rightarrow> unit em" where
  "cpu_extend g blocks =
     bnd (lift_err (\<lambda>b. nth_py (em_free_cpu_blocks b) g)) (\<lambda>free.
     modify (\<lambda>b. b\<lparr>em_free_cpu_blocks := (em_free_cpu_blocks b)[g := free @ blocks]\<rparr>))"

definition cpu_popleft :: "nat \<Rightarrow> nat em" where
  "cpu_popleft g =
     bnd (lift_err (\<lambda>b. nth_py (em_free_cpu_blocks b) g)) (\<lambda>free.
     case free of
       [] \<Rightarrow> throw IndexError
     | c # cs \<Rightarrow>
         sq (modify (\<lambda>b. b\<lparr>em_free_cpu_blocks := (em_free_cpu_blocks b)[g := cs]\<rparr>)) (ret c))"

definition swap_triples :: "nat list list \<Rightarrow> nat list list \<Rightarrow> (nat \<times> nat \<times> nat) list" where
  "swap_triples srcs dsts =
     concat (map (\<lambda>(g, src, dst). map (\<lambda>(s, d). (g, s, d)) (zip src dst))
       (zip [0..<min (length srcs) (length dsts)] (zip srcs dsts)))"

definition em_swap_in :: "SequenceGroup \<Rightarrow> nat \<Rightarrow> (nat \<times> nat \<times> nat) list em" where
  "em_swap_in seq_group num_lookahead_slots =
     (if num_lookahead_slots \<noteq> 0 then throw (NotImplementedError ''eLLM lookahead is not implemented'')
      else
        try_local ([], [])
          (for_each (get_seqs (Some SWAPPED) seq_group) (\<lambda>s.
             bnd (on_fst (lift_err (\<lambda>b. dget (em_swapped_sequences b) (seq_id s))))
               (\<lambda>(n, evicted_tokens, cpu_tables).
             sq (on_fst (on_map (allocate_sequence_with_evicted_prefix (seq_id s) (int n)
                   (int evicted_tokens))))
            (sq (on_snd (modify (\<lambda>(mappings, restored). (mappings, restored @ [seq_id s]))))
            (bnd (on_fst (em_get_layer_group_block_tables s)) (\<lambda>gpu_tables.
             on_snd (modify (\<lambda>(mappings, restored).
               (mappings @ swap_triples cpu_tables gpu_tables, restored)))))))))
          (\<lambda>(mappings, restored) e.
             sq (for_each restored (\<lambda>sid. on_map (free_sequence sid))) (throw e))
          (\<lambda>(mappings, restored) _.
             sq (for_each (get_seqs (Some SWAPPED) seq_group) (\<lambda>s.
               bnd (lift_err (\<lambda>b. dget (em_swapped_sequences b) (seq_id s))) (\<lambda>(_, _, cpu_tables).
               sq (modify (\<lambda>b. b\<lparr>em_swapped_sequences := ddel (seq_id s) (em_swapped_sequences b)\<rparr>))
              (for_each (zip [0..<length cpu_tables] cpu_tables) (\<lambda>(g, table). cpu_extend g table)))))
            (ret mappings)))"

definition em_can_swap_out :: "SequenceGroup \<Rightarrow> bool em" where
  "em_can_swap_out seq_group =
     bnd (gets layer_groups) (\<lambda>groups.
     bnd (fold_each (get_seqs (Some RUNNING) seq_group) (map (\<lambda>_. 0) groups) (\<lambda>required s.
            bnd (em_get_layer_group_block_tables s) (\<lambda>tables.
            lift_err (\<lambda>_. add_table_lens required tables)))) (\<lambda>required.
     all_each groups (\<lambda>g. bnd (lift_err (\<lambda>b. nth_py (em_free_cpu_blocks b) g)) (\<lambda>free.
       ret (required ! g \<le> length free)))))"

text \<open>
  The local objects of \<open>swap_out\<close>: the mappings, the CPU blocks taken so far and the states to
  record. The blocks of one GPU table are moved one by one.
\<close>

record swap_out_locals =
  so_mappings :: "(nat \<times> nat \<times> nat) list"
  so_allocated :: "(nat \<times> nat) list"
  so_states :: "(nat, nat \<times> nat \<times> nat list list) pydict"

definition swap_out_block :: "nat \<Rightarrow> nat list \<Rightarrow> nat \<Rightarrow> (ellm_manager \<times> swap_out_locals, nat list) pym" where
  "swap_out_block g cpu_table gpu_id =
     bnd (on_fst (cpu_popleft g)) (\<lambda>cpu_id.
     sq (on_snd (modify (\<lambda>l. l\<lparr>so_allocated := so_allocated l @ [(g, cpu_id)],
                               so_mappings := so_mappings l @ [(g, gpu_id, cpu_id)]\<rparr>)))
    (ret (cpu_table @ [cpu_id])))"

definition swap_out_seq :: "Sequence \<Rightarrow> (ellm_manager \<times> swap_out_locals, unit) pym" where
  "swap_out_seq s =
     bnd (on_fst (em_get_layer_group_block_tables s)) (\<lambda>gpu_tables.
     bnd (collect (zip [0..<length gpu_tables] gpu_tables) (\<lambda>(g, gpu_table).
            fold_each gpu_table [] (swap_out_block g))) (\<lambda>cpu_tables.
     bnd (on_fst (on_map (get_sequence_length (seq_id s)))) (\<lambda>n.
     bnd (on_fst (on_map (get_num_evicted_tokens (seq_id s)))) (\<lambda>evicted.
     on_snd (modify (\<lambda>l. l\<lparr>so_states := dset (seq_id s) (n, evicted, cpu_tables) (so_states l)\<rparr>))))))"

definition em_swap_out :: "SequenceGroup \<Rightarrow> (nat \<times> nat \<times> nat) list em" where
  "em_swap_out seq_group =
     bnd (em_can_swap_out seq_group) (\<lambda>ok.
     sq (ensure ok (RuntimeError ''No free CPU blocks for eLLM swap-out''))
    (try_local \<lparr>so_mappings = [], so_allocated = [], so_states = []\<rparr>
       (for_each (get_seqs (Some RUNNING) seq_group) swap_out_seq)
       (\<lambda>l e. sq (for_each (so_allocated l) (\<lambda>(g, cpu_id). cpu_extend g [cpu_id])) (throw e))
       (\<lambda>l _.
          sq (for_each (get_seqs (Some RUNNING) seq_group) (\<lambda>s.
            bnd (lift_err (\<lambda>_. dget (so_states l) (seq_id s))) (\<lambda>st.
            sq (modify (\<lambda>b. b\<lparr>em_swapped_sequences := dset (seq_id s) st (em_swapped_sequences b)\<rparr>))
           (on_map (free_sequence (seq_id s))))))
         (ret (so_mappings l)))))"

section \<open>The manager behind the interface\<close>

definition triple_mapping :: "nat \<times> nat \<times> nat \<Rightarrow> block_mapping" where
  "triple_mapping = (\<lambda>(g, a, b). [g, a, b])"

definition ellm_block_manager :: "(ellm_manager, LayerGroupBlockPlan) block_manager" where
  "ellm_block_manager =
     \<lparr>bm_can_allocate = em_can_allocate,
      bm_allocate = em_allocate,
      bm_can_append_slots = em_can_append_slots,
      bm_append_slots = (\<lambda>s k. bnd (em_append_slots s k) (\<lambda>ms. ret (map triple_mapping ms))),
      bm_fork = em_fork,
      bm_can_swap_in = (\<lambda>g. em_can_swap_in g 0),
      bm_swap_in = (\<lambda>g. bnd (em_swap_in g 0) (\<lambda>ms. ret (map triple_mapping ms))),
      bm_can_swap_out = em_can_swap_out,
      bm_swap_out = (\<lambda>g. bnd (em_swap_out g) (\<lambda>ms. ret (map triple_mapping ms))),
      bm_free = em_free,
      bm_get_block_table = em_get_block_table,
      bm_get_seq_used_block_id = em_get_seq_used_block_id,
      bm_access_all_blocks_in_seq = (\<lambda>_ _. ret ()),
      bm_get_common_computed_block_ids = (\<lambda>_. ret []),
      bm_mark_blocks_as_computed = (\<lambda>_. ret ()),
      bm_evict_to_cached_layer_ratio = Some em_evict_to_cached_layer_ratio,
      bm_get_layer_group_block_tables = Some em_get_layer_group_block_tables,
      bm_build_partial_recompute_plans = Some em_build_partial_recompute_plans,
      bm_get_num_evicted_tokens = Some em_get_num_evicted_tokens\<rparr>"

end
