(* ===== verification/Ellm_Block_Facts.thy ===== *)
theory Ellm_Block_Facts
  imports Ellm_Block_Manager
begin

text \<open>
  Correctness of the eLLM block manager's admission and allocation. The invariant says that the
  map is well formed and that the manager's own fields agree with it.
\<close>

section \<open>The same map up to the order of free blocks\<close>

definition kv_same :: "kv_map \<Rightarrow> kv_map \<Rightarrow> bool" where
  "kv_same m t \<longleftrightarrow> kv_consts t = kv_consts m \<and> kvL t = kvL m \<and> kvP t = kvP m \<and>
     kvE False t = kvE False m \<and> kvE True t = kvE True m"

lemma kv_same_refl [simp]: "kv_same m m"
  by (simp add: kv_same_def)

lemma kv_same_rest:
  assumes "kv_rest t = kv_rest m"
  shows "kv_same m t"
  by (simp add: kv_same_def rest_view [OF assms])

lemma kv_same_trans: "kv_same m t \<Longrightarrow> kv_same t u \<Longrightarrow> kv_same m u"
  by (simp add: kv_same_def)

lemma mset_eq_map_of:
  assumes "distinct (dkeys d)" "distinct (dkeys e)" "map_of d = map_of e"
  shows "mset d = mset e"
proof -
  have "set d = set e"
  proof (intro set_eqI)
    fix p :: "'a \<times> 'b"
    show "p \<in> set d \<longleftrightarrow> p \<in> set e"
      using assms by (cases p) (metis map_of_eq_Some_iff)
  qed
  moreover have "distinct d" "distinct e"
    using assms(1,2) by (auto simp: distinct_map)
  ultimately show ?thesis by (simp add: set_eq_iff_mset_eq_distinct)
qed

lemma kv_same_held:
  assumes "kv_ok m X" "kv_ok t Y" "kv_same m t"
  shows "held t = held m"
proof -
  have "map_of (kv_dict tmp t) = map_of (kv_dict tmp m)" for tmp
    using assms(3) by (cases tmp) (auto simp: kv_same_def kvE_def fun_eq_iff)
  then have "mset (kv_dict tmp t) = mset (kv_dict tmp m)" for tmp
    using kv_ok_distinct [OF assms(1)] kv_ok_distinct [OF assms(2)] by (intro mset_eq_map_of)
  from this [of False] this [of True] show ?thesis
    by (simp add: held_def owned_def)
qed

lemma kv_same_avail:
  assumes "kv_inv m" "kv_inv t" "kv_same m t"
  shows "kv_avail t = kv_avail m"
proof -
  have ok: "kv_ok m {#}" "kv_ok t {#}" using assms by (simp_all add: kv_inv_def)
  have "held t = held m" by (rule kv_same_held [OF ok assms(3)])
  then show ?thesis
    using kv_ok_pool [OF ok(1)] kv_ok_pool [OF ok(2)] assms(3)
    by (intro kv_avail_unique [of t "held m"]) (auto simp: kv_same_def kv_consts_eq)
qed

section \<open>The invariant\<close>

abbreviation em_groups :: "ellm_manager \<Rightarrow> nat" where
  "em_groups b \<equiv> kv_num_layer_groups (em_cache_map b)"

definition em_ok :: "ellm_manager \<Rightarrow> bool" where
  "em_ok b \<longleftrightarrow> kv_inv (em_cache_map b) \<and>
     em_block_size b = kv_block_size (em_cache_map b) \<and>
     em_num_total_gpu_blocks b = kv_num_physical_blocks (em_cache_map b) \<and>
     em_num_layers b = kv_num_layers (em_cache_map b) \<and> 0 < em_num_layers b \<and>
     length (em_free_cpu_blocks b) = em_groups b"

text \<open>Everything but the map.\<close>

definition em_rest :: "ellm_manager \<Rightarrow> ellm_manager \<Rightarrow> bool" where
  "em_rest b t \<longleftrightarrow> (\<exists>m. t = b\<lparr>em_cache_map := m\<rparr> \<and> kv_consts m = kv_consts (em_cache_map b))"

lemma em_rest_refl [simp]: "em_rest b b"
  unfolding em_rest_def by (rule exI [where x = "em_cache_map b"]) simp

lemma em_rest_trans: "em_rest b t \<Longrightarrow> em_rest t u \<Longrightarrow> em_rest b u"
  by (auto simp: em_rest_def)

lemma em_rest_map:
  "em_rest b t \<Longrightarrow> kv_consts m = kv_consts (em_cache_map t) \<Longrightarrow> em_rest b (t\<lparr>em_cache_map := m\<rparr>)"
  by (auto simp: em_rest_def)

lemma em_restD:
  assumes "em_rest b t"
  shows "em_block_size t = em_block_size b" "em_groups t = em_groups b"
    "em_watermark_blocks t = em_watermark_blocks b" "em_num_layers t = em_num_layers b"
    "em_free_cpu_blocks t = em_free_cpu_blocks b" "em_swapped_sequences t = em_swapped_sequences b"
    "em_num_total_gpu_blocks t = em_num_total_gpu_blocks b"
    "kv_consts (em_cache_map t) = kv_consts (em_cache_map b)"
  using assms by (auto simp: em_rest_def kv_consts_eq)

lemma em_ok_rest: "em_ok b \<Longrightarrow> em_rest b t \<Longrightarrow> kv_inv (em_cache_map t) \<Longrightarrow> em_ok t"
  by (auto simp: em_ok_def em_rest_def kv_consts_eq)

lemma em_okD:
  assumes "em_ok b"
  shows "kv_inv (em_cache_map b)" "kv_block_size (em_cache_map b) = em_block_size b"
    "0 < em_block_size b" "0 < em_groups b" "length (em_free_cpu_blocks b) = em_groups b"
    "0 < em_num_layers b"
  using assms seqs_okD by (auto simp: em_ok_def kv_inv_def)

lemma wp_on_map [wp_simps]:
  "wp (on_map f) Q E b =
     wp f (\<lambda>x m. Q x (b\<lparr>em_cache_map := m\<rparr>)) (\<lambda>e m. E e (b\<lparr>em_cache_map := m\<rparr>)) (em_cache_map b)"
  by (simp add: wp_def on_map_def split: prod.splits sum.splits)

lemma ELLMBlockSpaceManager_init_ok:
  assumes "ELLMBlockSpaceManager_init bs gpu cpu nl lgs wm sw caching fl = Inr b"
  shows "em_ok b"
proof -
  from assms obtain m where m: "TokenLayerKVMap_init nl bs gpu lgs = Inr m"
    and b: "b = \<lparr>em_block_size = nat bs, em_num_total_gpu_blocks = nat gpu,
              em_num_total_cpu_blocks = cpu, em_num_layers = nat nl,
              em_layer_group_size = nat lgs, em_flatten_layers = fl,
              em_watermark_blocks = int_of_rat (wm * of_int gpu),
              em_cache_map = m,
              em_free_cpu_blocks = replicate (kv_num_layer_groups m) [0..<nat cpu],
              em_swapped_sequences = []\<rparr>"
    by (auto simp: ELLMBlockSpaceManager_init_def split: if_splits sum.splits)
  moreover have "kv_inv m" using m by (rule TokenLayerKVMap_init_inv)
  moreover have "kv_block_size m = nat bs" "kv_num_physical_blocks m = nat gpu"
    "kv_num_layers m = nat nl" "0 < nat nl"
    using m by (auto simp: TokenLayerKVMap_init_def Let_def split: if_splits)
  ultimately show ?thesis by (simp add: em_ok_def)
qed

section \<open>Free blocks\<close>

lemma free_blocks_query:
  assumes "em_ok b" "g < em_groups b"
  shows "on_map (get_num_free_blocks (Some g)) b = (Inr (kv_avail (em_cache_map b) g), b)"
proof -
  have "length (kv_free_blocks (em_cache_map b)) = em_groups b"
    using assms(1) by (auto simp: em_ok_def kv_inv_def kv_ok_def pool_ok_def)
  then show ?thesis
    using assms(2) by (simp add: on_map_def get_num_free_blocks_def bnd_def lift_err_def ret_def kv_avail_def)
qed

lemma py_min_Inr: "xs \<noteq> [] \<Longrightarrow> py_min xs = Inr (Min (set xs))"
proof (cases xs)
  case (Cons x ys)
  have "foldr min ys x = Min (insert x (set ys))"
    by (induction ys) (auto simp: insert_commute [of x] Min_insert min.left_commute)
  then show ?thesis by (simp add: py_min_def Cons)
qed simp

definition em_min_free :: "ellm_manager \<Rightarrow> nat" where
  "em_min_free b = Min (kv_avail (em_cache_map b) ` {..<em_groups b})"

lemma em_min_free_le:
  assumes "em_ok b"
  shows "k \<le> em_min_free b \<longleftrightarrow> (\<forall>g < em_groups b. k \<le> kv_avail (em_cache_map b) g)"
proof -
  have "kv_avail (em_cache_map b) ` {..<em_groups b} \<noteq> {}" using em_okD(4) [OF assms] by auto
  then show ?thesis unfolding em_min_free_def by (subst Min_ge_iff) auto
qed

lemma em_get_num_free_gpu_blocks_ok:
  assumes "em_ok b"
  shows "em_get_num_free_gpu_blocks b = (Inr (em_min_free b), b)"
proof -
  have "collect (layer_groups b) (\<lambda>g. on_map (get_num_free_blocks (Some g))) b =
      (Inr (map (kv_avail (em_cache_map b)) (layer_groups b)), b)"
    by (rule collect_pure) (simp add: free_blocks_query [OF assms] layer_groups_def)
  moreover have "py_min (map (kv_avail (em_cache_map b)) (layer_groups b)) = Inr (em_min_free b)"
    using em_okD(4) [OF assms]
    by (subst py_min_Inr) (simp_all add: layer_groups_def em_min_free_def lessThan_atLeast0 atLeast_upt)
  ultimately show ?thesis
    by (simp add: em_get_num_free_gpu_blocks_def bnd_def gets_def lift_err_def)
qed

section \<open>Admission\<close>

definition group_need :: "ellm_manager \<Rightarrow> SequenceGroup \<Rightarrow> nat" where
  "group_need b seq_group = sum_list (map (required_blocks b) (get_seqs (Some WAITING) seq_group))"

lemma em_can_allocate_ok:
  assumes "em_ok b"
  shows "em_can_allocate seq_group b =
    (Inr (if int (em_num_total_gpu_blocks b) < int (group_need b seq_group) + em_watermark_blocks b then NEVER
          else if int (group_need b seq_group) + em_watermark_blocks b \<le> int (em_min_free b) then OK
          else LATER), b)"
  by (simp add: em_can_allocate_def run_simps Let_def group_need_def ret_def
      bnd_def [of em_get_num_free_gpu_blocks] em_get_num_free_gpu_blocks_ok [OF assms])

text \<open>The sequences to allocate: not yet in the map, not empty, no two with one id.\<close>

definition allocatable :: "ellm_manager \<Rightarrow> SequenceGroup \<Rightarrow> bool" where
  "allocatable b seq_group \<longleftrightarrow>
     distinct (map seq_id (get_seqs (Some WAITING) seq_group)) \<and>
     (\<forall>s \<in> set (get_seqs (Some WAITING) seq_group).
        kvL (em_cache_map b) (seq_id s) = None \<and> 0 < seq_get_len s)"

definition allocated_map :: "kv_map \<Rightarrow> Sequence list \<Rightarrow> kv_map \<Rightarrow> bool" where
  "allocated_map m ss t \<longleftrightarrow> kv_inv t \<and> kv_consts t = kv_consts m \<and>
     (\<forall>s \<in> set ss. kvL t (seq_id s) = Some (seq_get_len s) \<and> kvP t (seq_id s) = Some 0 \<and>
        (\<forall>l g. kvE True t (seq_id s) l g = None)) \<and>
     (\<forall>i. i \<notin> seq_id ` set ss \<longrightarrow> kvL t i = kvL m i \<and> kvP t i = kvP m i \<and>
        kvE False t i = kvE False m i \<and> kvE True t i = kvE True m i) \<and>
     (\<forall>g < kv_num_layer_groups m. kv_avail t g +
        sum_list (map (\<lambda>s. ceil_div (seq_get_len s) (kv_block_size m)) ss) = kv_avail m g)"

lemma allocated_map_snoc:
  assumes J: "allocated_map m ss t" and s: "seq_id s \<notin> seq_id ` set ss"
    and t: "kv_inv u" "kv_frame (seq_id s) t u" "kvL u (seq_id s) = Some (seq_get_len s)"
      "kvP u (seq_id s) = Some 0" "\<forall>l g. kvE True u (seq_id s) l g = None"
      "\<forall>g < kv_num_layer_groups t. kv_avail u g + ceil_div (seq_get_len s) (kv_block_size t) = kv_avail t g"
  shows "allocated_map m (ss @ [s]) u"
proof -
  have c: "kv_consts t = kv_consts m" using J by (simp add: allocated_map_def)
  then have cc: "kv_num_layer_groups t = kv_num_layer_groups m" "kv_block_size t = kv_block_size m"
    by (simp_all add: kv_consts_eq)
  have fr: "kvL u i = kvL t i" "kvP u i = kvP t i" "kvE False u i = kvE False t i"
    "kvE True u i = kvE True t i" if "i \<noteq> seq_id s" for i
    using t(2) that by (auto simp: kv_frame_def)
  have "kv_avail u g + sum_list (map (\<lambda>s. ceil_div (seq_get_len s) (kv_block_size m)) (ss @ [s])) =
      kv_avail m g" if "g < kv_num_layer_groups m" for g
  proof -
    have "kv_avail u g + ceil_div (seq_get_len s) (kv_block_size m) = kv_avail t g"
      using t(6) that unfolding cc by blast
    moreover have "kv_avail t g + sum_list (map (\<lambda>s. ceil_div (seq_get_len s) (kv_block_size m)) ss) =
        kv_avail m g"
      using J that unfolding allocated_map_def by blast
    ultimately show ?thesis by simp
  qed
  moreover have "kv_consts u = kv_consts m" using t(2) c by (simp add: kv_frame_def)
  ultimately show ?thesis
    using J s t(1,3-5) fr unfolding allocated_map_def by (auto simp: image_iff)
qed

lemma free_sequence_view:
  assumes "kv_inv m"
  shows "wp (free_sequence s)
    (\<lambda>_ t. kv_inv t \<and> kv_consts t = kv_consts m \<and> kvL t = (kvL m)(s := None) \<and>
       kvP t = (kvP m)(s := None) \<and>
       (\<forall>tmp i l g. kvE tmp t i l g = (if i = s then None else kvE tmp m i l g)) \<and>
       (\<forall>g. kv_avail m g \<le> kv_avail t g))
    (\<lambda>_ _. False) m"
proof (rule wp_mono [OF free_sequence_ok [OF assms]])
  fix r t
  assume t: "kv_inv t \<and> kv_rest t = kv_rest (drop_seq s m) \<and> (\<forall>g. kv_avail m g \<le> kv_avail t g)"
  then have r: "kv_rest t = kv_rest (drop_seq s m)" by blast
  show "kv_inv t \<and> kv_consts t = kv_consts m \<and> kvL t = (kvL m)(s := None) \<and>
       kvP t = (kvP m)(s := None) \<and>
       (\<forall>tmp i l g. kvE tmp t i l g = (if i = s then None else kvE tmp m i l g)) \<and>
       (\<forall>g. kv_avail m g \<le> kv_avail t g)"
    using t rest_view(1-3) [OF r] rest_view(4) [OF r] by simp
qed simp

text \<open>Freeing what was just allocated restores the map.\<close>

lemma free_allocated:
  assumes inv: "kv_inv m" and J: "allocated_map m ss t"
    and new: "\<And>s. s \<in> set ss \<Longrightarrow> kvL m (seq_id s) = None"
  shows "wp (for_each (map seq_id ss) free_sequence)
    (\<lambda>_ u. kv_inv u \<and> kv_same m u \<and> kv_avail u = kv_avail m) (\<lambda>_ _. False) t"
proof (rule wp_for_each [where I = "\<lambda>ids u. kv_inv u \<and> kv_consts u = kv_consts m \<and>
    (\<forall>i \<in> set ids. kvL m i = None) \<and>
    (\<forall>i. i \<notin> set ids \<longrightarrow> kvL u i = kvL m i \<and> kvP u i = kvP m i \<and>
        kvE False u i = kvE False m i \<and> kvE True u i = kvE True m i)"])
  show "kv_inv t \<and> kv_consts t = kv_consts m \<and>
    (\<forall>i \<in> set (map seq_id ss). kvL m i = None) \<and>
    (\<forall>i. i \<notin> set (map seq_id ss) \<longrightarrow> kvL t i = kvL m i \<and> kvP t i = kvP m i \<and>
        kvE False t i = kvE False m i \<and> kvE True t i = kvE True m i)"
    using J new by (simp add: allocated_map_def)
next
  fix x ys u
  assume u: "kv_inv u \<and> kv_consts u = kv_consts m \<and>
    (\<forall>i \<in> set (x # ys). kvL m i = None) \<and>
    (\<forall>i. i \<notin> set (x # ys) \<longrightarrow> kvL u i = kvL m i \<and> kvP u i = kvP m i \<and>
        kvE False u i = kvE False m i \<and> kvE True u i = kvE True m i)"
  show "wp (free_sequence x)
     (\<lambda>_ u. kv_inv u \<and> kv_consts u = kv_consts m \<and>
    (\<forall>i \<in> set ys. kvL m i = None) \<and>
    (\<forall>i. i \<notin> set ys \<longrightarrow> kvL u i = kvL m i \<and> kvP u i = kvP m i \<and>
        kvE False u i = kvE False m i \<and> kvE True u i = kvE True m i)) (\<lambda>_ _. False) u"
  proof (rule wp_mono [OF free_sequence_view])
    show "kv_inv u" using u by blast
  next
    fix r v
    assume v: "kv_inv v \<and> kv_consts v = kv_consts u \<and> kvL v = (kvL u)(x := None) \<and>
       kvP v = (kvP u)(x := None) \<and>
       (\<forall>tmp i l g. kvE tmp v i l g = (if i = x then None else kvE tmp u i l g)) \<and>
       (\<forall>g. kv_avail u g \<le> kv_avail v g)"
    have seqs: "seqs_ok m" using inv by (simp add: kv_inv_def)
    have "kvL v i = kvL m i \<and> kvP v i = kvP m i \<and> kvE False v i = kvE False m i \<and>
        kvE True v i = kvE True m i" if i: "i \<notin> set ys" for i
    proof (cases "i = x")
      case True
      have "kvL m x = None" using u by simp
      then have "kvP m x = None" "\<And>tmp l g. kvE tmp m x l g = None"
        by (cases rule: view_cases [OF seqs, of x]; simp)+
      then show ?thesis using True v \<open>kvL m x = None\<close> by (auto simp: fun_eq_iff)
    next
      case False
      then show ?thesis using u v i by (auto simp: fun_eq_iff)
    qed
    then show "kv_inv v \<and> kv_consts v = kv_consts m \<and> (\<forall>i \<in> set ys. kvL m i = None) \<and>
      (\<forall>i. i \<notin> set ys \<longrightarrow> kvL v i = kvL m i \<and> kvP v i = kvP m i \<and>
        kvE False v i = kvE False m i \<and> kvE True v i = kvE True m i)"
      using u v by simp
  qed simp
next
  fix u
  assume "kv_inv u \<and> kv_consts u = kv_consts m \<and>
    (\<forall>i \<in> set []. kvL m i = None) \<and>
    (\<forall>i. i \<notin> set [] \<longrightarrow> kvL u i = kvL m i \<and> kvP u i = kvP m i \<and>
        kvE False u i = kvE False m i \<and> kvE True u i = kvE True m i)"
  then have "kv_inv u" "kv_same m u" by (auto simp: kv_same_def fun_eq_iff)
  then show "kv_inv u \<and> kv_same m u \<and> kv_avail u = kv_avail m"
    using kv_same_avail [OF inv] by blast
qed

section \<open>Allocation of a group\<close>

lemma allocated_map_Nil: "kv_inv m \<Longrightarrow> allocated_map m [] m"
  by (simp add: allocated_map_def)

lemma on_map_for_each:
  "wp (for_each xs f) (\<lambda>x m. Q x (b\<lparr>em_cache_map := m\<rparr>)) (\<lambda>e m. E e (b\<lparr>em_cache_map := m\<rparr>)) (em_cache_map b)
   \<Longrightarrow> wp (for_each xs (\<lambda>x. on_map (f x))) Q E b"
proof (induction xs arbitrary: b)
  case Nil
  then show ?case by (simp add: for_each_def wp_simps)
next
  case (Cons x xs)
  have step: "wp (for_each (x # xs) g) Q E s = wp (g x) (\<lambda>_. wp (for_each xs g) Q E) E s"
    for g :: "'a \<Rightarrow> ('c, unit) pym" and Q E s
    by (simp add: for_each_def wp_simps)
  show ?case
    unfolding step wp_on_map
    by (rule wp_mono [OF Cons.prems [unfolded step]]) (auto intro: Cons.IH)
qed

lemma em_allocate_ok:
  assumes ok: "em_ok b" and al: "allocatable b seq_group"
  shows "wp (em_allocate seq_group)
    (\<lambda>_ t. em_rest b t \<and>
       allocated_map (em_cache_map b) (get_seqs (Some WAITING) seq_group) (em_cache_map t))
    (\<lambda>_ t. em_rest b t \<and> kv_inv (em_cache_map t) \<and> kv_same (em_cache_map b) (em_cache_map t) \<and>
       kv_avail (em_cache_map t) = kv_avail (em_cache_map b) \<and>
       (\<exists>g < em_groups b. kv_avail (em_cache_map b) g < group_need b seq_group)) b"
proof -
  let ?m = "em_cache_map b" and ?ss = "get_seqs (Some WAITING) seq_group"
  have inv: "kv_inv ?m" using ok by (rule em_okD)
  let ?I = "\<lambda>ys acc t. \<exists>done. ?ss = done @ ys \<and> acc = map seq_id done \<and> em_rest b t \<and>
      allocated_map ?m done (em_cache_map t)"
  show ?thesis
    unfolding em_allocate_def wp_bnd wp_ret
  proof (rule wp_fold_catch [where I = ?I])
    show "?I ?ss [] b" using inv by (simp add: allocated_map_Nil)
  next
    fix s ys acc t
    assume "?I (s # ys) acc t"
    then obtain d where d: "?ss = d @ s # ys" "acc = map seq_id d" "em_rest b t"
      "allocated_map ?m d (em_cache_map t)" by blast
    let ?t = "em_cache_map t"
    have it: "kv_inv ?t" and ct: "kv_consts ?t = kv_consts ?m"
      and av: "\<And>g. g < em_groups b \<Longrightarrow> kv_avail ?t g +
        sum_list (map (\<lambda>s. ceil_div (seq_get_len s) (kv_block_size ?m)) d) = kv_avail ?m g"
      using d(4) by (simp_all add: allocated_map_def)
    have ct': "kv_block_size ?t = kv_block_size ?m" "em_groups t = em_groups b"
      using ct by (simp_all add: kv_consts_eq)
    have new: "kvL ?m (seq_id s) = None" "0 < seq_get_len s" "seq_id s \<notin> seq_id ` set d"
      using al d(1) by (auto simp: allocatable_def)
    have newd: "\<And>s. s \<in> set d \<Longrightarrow> kvL ?m (seq_id s) = None"
      using al d(1) by (auto simp: allocatable_def)
    have L: "kvL ?t (seq_id s) = None" using d(4) new by (simp add: allocated_map_def)
    have need: "alloc_need ?t (int (seq_get_len s)) 0 = ceil_div (seq_get_len s) (kv_block_size ?m)"
      by (simp add: alloc_need_def ct')
    have guards: "alloc_guards ?t (seq_id s) (int (seq_get_len s)) 0"
      using L new by (simp add: alloc_guards_def)
    show "wp (sq (on_map (allocate_sequence (seq_id s) (int (seq_get_len s)))) (ret (acc @ [seq_id s])))
       (?I ys)
       (\<lambda>e. wp (sq (for_each acc (\<lambda>sid. on_map (free_sequence sid))) (throw e))
         (\<lambda>_ t. em_rest b t \<and> allocated_map ?m ?ss (em_cache_map t))
         (\<lambda>_ t. em_rest b t \<and> kv_inv (em_cache_map t) \<and> kv_same ?m (em_cache_map t) \<and>
            kv_avail (em_cache_map t) = kv_avail ?m \<and>
            (\<exists>g < em_groups b. kv_avail ?m g < group_need b seq_group))) t"
      unfolding allocate_sequence_def wp_sq wp_on_map wp_ret wp_throw
    proof (rule wp_mono [OF allocate_ok [OF it]])
      fix x u
      assume u: "kv_inv u \<and> kv_frame (seq_id s) ?t u \<and> alloc_guards ?t (seq_id s) (int (seq_get_len s)) 0 \<and>
        kvL u (seq_id s) = Some (nat (int (seq_get_len s))) \<and>
        kvP u (seq_id s) = Some (nat 0 div kv_block_size ?t) \<and> (\<forall>l g. kvE True u (seq_id s) l g = None) \<and>
        (\<forall>g < em_groups t. kv_avail u g + alloc_need ?t (int (seq_get_len s)) 0 = kv_avail ?t g)"
      then have fr: "kv_frame (seq_id s) ?t u" by blast
      have "allocated_map ?m (d @ [s]) u"
        by (rule allocated_map_snoc [OF d(4) new(3)]) (use u need ct' in auto)
      moreover have "em_rest b (t\<lparr>em_cache_map := u\<rparr>)"
        using d(3) fr by (intro em_rest_map) (simp_all add: kv_frame_def)
      ultimately show "?I ys (acc @ [seq_id s]) (t\<lparr>em_cache_map := u\<rparr>)"
        using d by (intro exI [where x = "d @ [s]"]) simp
    next
      fix e u
      assume u: "kv_inv u \<and> kv_rest u = kv_rest ?t \<and> kv_avail u = kv_avail ?t \<and>
        (alloc_guards ?t (seq_id s) (int (seq_get_len s)) 0 \<longrightarrow>
          (\<exists>g < em_groups t. kv_avail ?t g < alloc_need ?t (int (seq_get_len s)) 0))"
      then have iu: "kv_inv u" and ru: "kv_rest u = kv_rest ?t" by blast+
      from u guards obtain g where g: "g < em_groups b"
        "kv_avail ?t g < ceil_div (seq_get_len s) (kv_block_size ?m)"
        unfolding need ct' by blast
      have "group_need b seq_group = sum_list (map (\<lambda>s. ceil_div (seq_get_len s) (kv_block_size ?m)) ?ss)"
        using em_okD(2) [OF ok] by (simp add: group_need_def required_blocks_def [abs_def])
      then have short: "kv_avail ?m g < group_need b seq_group"
        using g(2) av [OF g(1)] d(1) by simp
      have "allocated_map ?m d u"
        using d(4) iu u rest_view [OF ru] ct' unfolding allocated_map_def by simp
      note freed = free_allocated [OF inv this newd]
      have er: "em_rest b (t\<lparr>em_cache_map := u\<rparr>)"
        using d(3) rest_view(1) [OF ru] by (intro em_rest_map) auto
      show "wp (for_each acc (\<lambda>sid. on_map (free_sequence sid)))
         (\<lambda>_ t. em_rest b t \<and> kv_inv (em_cache_map t) \<and> kv_same ?m (em_cache_map t) \<and>
            kv_avail (em_cache_map t) = kv_avail ?m \<and>
            (\<exists>g < em_groups b. kv_avail ?m g < group_need b seq_group))
         (\<lambda>_ t. em_rest b t \<and> kv_inv (em_cache_map t) \<and> kv_same ?m (em_cache_map t) \<and>
            kv_avail (em_cache_map t) = kv_avail ?m \<and>
            (\<exists>g < em_groups b. kv_avail ?m g < group_need b seq_group)) (t\<lparr>em_cache_map := u\<rparr>)"
        unfolding d(2)
      proof (rule on_map_for_each, simp, rule wp_mono [OF freed])
        fix r v
        assume v: "kv_inv v \<and> kv_same ?m v \<and> kv_avail v = kv_avail ?m"
        then have "em_rest b (t\<lparr>em_cache_map := v\<rparr>)"
          using d(3) ct by (intro em_rest_map) (simp_all add: kv_same_def)
        with v g(1) short show "em_rest b (t\<lparr>em_cache_map := v\<rparr>) \<and> kv_inv v \<and> kv_same ?m v \<and>
            kv_avail v = kv_avail ?m \<and> (\<exists>g < em_groups b. kv_avail ?m g < group_need b seq_group)"
          by blast
      qed auto
    qed
  next
    fix acc t
    assume "?I [] acc t"
    then show "em_rest b t \<and> allocated_map ?m ?ss (em_cache_map t)" by auto
  qed
qed

text \<open>
  C10: the verdict of \<^verbatim>\<open>can_allocate\<close> can be relied on. It leaves the manager alone; \<^const>\<open>OK\<close> means
  that \<^verbatim>\<open>allocate\<close> succeeds, gives every waiting sequence its blocks in every layer group and
  leaves the watermark free in each of them; \<^const>\<open>NEVER\<close> means that the group's blocks and the
  watermark exceed the whole cache, so no later state of the manager answers otherwise.
\<close>

theorem em_can_allocate_sound:
  assumes "em_ok b" "allocatable b seq_group" "0 \<le> em_watermark_blocks b"
  shows "snd (em_can_allocate seq_group b) = b \<and>
    (fst (em_can_allocate seq_group b) = Inr OK \<longrightarrow>
       wp (em_allocate seq_group)
         (\<lambda>_ t. em_ok t \<and>
            (\<forall>s \<in> set (get_seqs (Some WAITING) seq_group).
               kvL (em_cache_map t) (seq_id s) = Some (seq_get_len s)) \<and>
            (\<forall>g < em_groups b. em_watermark_blocks b \<le> int (kv_avail (em_cache_map t) g)))
         (\<lambda>_ _. False) b) \<and>
    (fst (em_can_allocate seq_group b) = Inr NEVER \<longrightarrow>
       (\<forall>t. em_ok t \<and> em_rest b t \<longrightarrow> fst (em_can_allocate seq_group t) = Inr NEVER))"
proof (intro conjI impI allI)
  show "snd (em_can_allocate seq_group b) = b"
    by (simp add: em_can_allocate_ok [OF assms(1)])
next
  assume "fst (em_can_allocate seq_group b) = Inr OK"
  then have fit: "int (group_need b seq_group) + em_watermark_blocks b \<le> int (em_min_free b)"
    by (auto simp: em_can_allocate_ok [OF assms(1)] split: if_splits)
  have av: "int (group_need b seq_group) + em_watermark_blocks b \<le> int (kv_avail (em_cache_map b) g)"
    if "g < em_groups b" for g
    using fit em_min_free_le [OF assms(1), of "em_min_free b"] that by force
  have need: "group_need b seq_group =
      sum_list (map (\<lambda>s. ceil_div (seq_get_len s) (kv_block_size (em_cache_map b)))
        (get_seqs (Some WAITING) seq_group))"
    using em_okD(2) [OF assms(1)] by (simp add: group_need_def required_blocks_def [abs_def])
  show "wp (em_allocate seq_group)
         (\<lambda>_ t. em_ok t \<and>
            (\<forall>s \<in> set (get_seqs (Some WAITING) seq_group).
               kvL (em_cache_map t) (seq_id s) = Some (seq_get_len s)) \<and>
            (\<forall>g < em_groups b. em_watermark_blocks b \<le> int (kv_avail (em_cache_map t) g)))
         (\<lambda>_ _. False) b"
  proof (rule wp_mono [OF em_allocate_ok [OF assms(1,2)]])
    fix x t
    assume t: "em_rest b t \<and>
       allocated_map (em_cache_map b) (get_seqs (Some WAITING) seq_group) (em_cache_map t)"
    have "em_watermark_blocks b \<le> int (kv_avail (em_cache_map t) g)" if g: "g < em_groups b" for g
    proof -
      have "kv_avail (em_cache_map t) g + group_need b seq_group = kv_avail (em_cache_map b) g"
        using t g need by (simp add: allocated_map_def)
      with av [OF g] show ?thesis by simp
    qed
    with t show "em_ok t \<and> (\<forall>s \<in> set (get_seqs (Some WAITING) seq_group).
               kvL (em_cache_map t) (seq_id s) = Some (seq_get_len s)) \<and>
            (\<forall>g < em_groups b. em_watermark_blocks b \<le> int (kv_avail (em_cache_map t) g))"
      using em_ok_rest [OF assms(1)] by (simp add: allocated_map_def)
  next
    fix e t
    assume "em_rest b t \<and> kv_inv (em_cache_map t) \<and> kv_same (em_cache_map b) (em_cache_map t) \<and>
       kv_avail (em_cache_map t) = kv_avail (em_cache_map b) \<and>
       (\<exists>g < em_groups b. kv_avail (em_cache_map b) g < group_need b seq_group)"
    then obtain g where g: "g < em_groups b" "kv_avail (em_cache_map b) g < group_need b seq_group"
      by blast
    with av [OF g(1)] assms(3) show False by simp
  qed
next
  fix t
  assume never: "fst (em_can_allocate seq_group b) = Inr NEVER" and t: "em_ok t \<and> em_rest b t"
  have "group_need t seq_group = group_need b seq_group"
    using em_restD(1) [of b t] t by (simp add: group_need_def required_blocks_def [abs_def])
  with never t em_restD [of b t] show "fst (em_can_allocate seq_group t) = Inr NEVER"
    by (auto simp: em_can_allocate_ok [OF assms(1)] em_can_allocate_ok split: if_splits)
qed

text \<open>A manager with eight blocks in each of two layer groups, two of them the watermark.\<close>

definition demo_em :: ellm_manager where
  "demo_em = projr (ELLMBlockSpaceManager_init 2 8 4 8 4 (1 / 4) None False 0)"

definition demo_waiting :: SequenceGroup where
  "demo_waiting = demo_group ''a'' 0 [demo_seq 0 5 WAITING]"

lemma demo_em_init:
  "ELLMBlockSpaceManager_init 2 8 4 8 4 (1 / 4) None False 0 = Inr demo_em"
  by (simp add: demo_em_def ELLMBlockSpaceManager_init_def TokenLayerKVMap_init_def ceil_div_def Let_def)

lemma demo_em_ok: "em_ok demo_em"
  by (rule ELLMBlockSpaceManager_init_ok [OF demo_em_init])

lemma demo_em_facts:
  "em_watermark_blocks demo_em = 2" "em_num_total_gpu_blocks demo_em = 8" "em_block_size demo_em = 2"
  "em_groups demo_em = 2" "em_min_free demo_em = 8" "kvL (em_cache_map demo_em) i = None"
  "kv_block_size (em_cache_map demo_em) = 2"
  "g < 2 \<Longrightarrow> kv_avail (em_cache_map demo_em) g = 8"
  by (simp_all add: image_constant_conv lessThan_empty_iff demo_em_def ELLMBlockSpaceManager_init_def TokenLayerKVMap_init_def ceil_div_def
      Let_def int_of_rat_def em_min_free_def kv_avail_def kvL_def)

lemma demo_waiting_facts:
  "get_seqs (Some WAITING) demo_waiting = [demo_seq 0 5 WAITING]" "group_need demo_em demo_waiting = 3"
  "allocatable demo_em demo_waiting"
  by (simp_all add: demo_waiting_def get_seqs_def group_need_def required_blocks_def demo_em_facts
      ceil_div_def allocatable_def)

theorem em_can_allocate_sound_witness:
  "fst (em_can_allocate demo_waiting demo_em) = Inr OK \<and>
   kvL (em_cache_map (snd (em_allocate demo_waiting demo_em))) 0 = Some 5"
proof -
  have ok: "fst (em_can_allocate demo_waiting demo_em) = Inr OK"
    by (simp add: em_can_allocate_ok [OF demo_em_ok] demo_em_facts demo_waiting_facts)
  with em_can_allocate_sound [OF demo_em_ok demo_waiting_facts(3)] show ?thesis
    by (cases "em_allocate demo_waiting demo_em")
      (auto simp: demo_em_facts demo_waiting_facts wp_def split: sum.splits)
qed

end
