(* ===== verification/Ellm_Append_Facts.thy ===== *)
theory Ellm_Append_Facts
  imports Ellm_Block_Facts
begin

text \<open>
  The block manager's \<^verbatim>\<open>can_append_slots\<close> and \<^verbatim>\<open>append_slots\<close>: when the check passes for a group
  whose running sequences have at most one pending token each, appending to all of them in turn
  succeeds. The point is that sharing only goes down while the sequences are served: a
  copy-on-write of one sequence never makes another one need more blocks.
\<close>

section \<open>Sharing only goes down\<close>

definition holders :: "(kv_key, KVMapEntry) pydict \<Rightarrow> nat \<Rightarrow> nat \<Rightarrow> kv_key set" where
  "holders d g p = {k. \<exists>e. map_of d k = Some e \<and> key_group k = g \<and> ke_physical_block_id e = p}"

lemma holders_finite [simp]: "finite (holders d g p)"
  by (rule finite_subset [OF _ finite_dom_map_of [of d]]) (auto simp: holders_def)

lemma count_owned: "distinct (dkeys d) \<Longrightarrow> count (owned d) (g, p) = card (holders d g p)"
proof (induction d)
  case Nil
  then show ?case by (simp add: holders_def)
next
  case (Cons a d)
  obtain k e where a: "a = (k, e)" by (cases a)
  have fresh: "map_of d k = None" using Cons.prems a by (simp add: map_of_eq_None_iff)
  have "holders (a # d) g p =
      (if key_group k = g \<and> ke_physical_block_id e = p then insert k (holders d g p) else holders d g p)"
    using fresh by (auto simp: a holders_def)
  moreover have "k \<notin> holders d g p" using fresh by (simp add: holders_def)
  ultimately show ?case using Cons by (auto simp: a)
qed

lemma count_held:
  assumes "kv_ok m X"
  shows "count (held m) (g, p) = card (holders (kv_entries m) g p) + card (holders (kv_temporary_entries m) g p)"
  using kv_ok_distinct [OF assms, of False] kv_ok_distinct [OF assms, of True]
  by (simp add: held_def count_owned)

lemma holders_kvE:
  "(s, l, h) \<in> holders (kv_dict tmp m) g p \<longleftrightarrow>
     h = g \<and> (\<exists>e. kvE tmp m s l h = Some e \<and> ke_physical_block_id e = p)"
  by (auto simp: holders_def kvE_def)

lemma sharing_decreases:
  assumes inv: "kv_inv m" and post: "append_post m s n copies t" and g: "g < kv_num_layer_groups m"
    and s': "s' \<noteq> s" "kvE False m s' l' g \<noteq> None" and shared: "tail_shared t s' l' g"
  shows "tail_shared m s' l' g"
proof -
  let ?l = "n div kv_block_size m"
  have okm: "kv_ok m {#}" using inv by (simp add: kv_inv_def)
  have okt: "kv_ok t {#}" using post by (simp add: append_post_def kv_inv_def)
  have same: "kvE False t s' = kvE False m s'" "kvE True t = kvE True m"
    "\<And>l g. l \<noteq> ?l \<Longrightarrow> kvE False t s l g = kvE False m s l g"
    "\<And>i. i \<noteq> s \<Longrightarrow> kvE False t i = kvE False m i"
    using post s'(1) by (simp_all add: append_post_def kv_frame_def)
  let ?p = "tail_old m s' l' g"
  have p: "tail_old t s' l' g = ?p" using same(1) by (simp add: tail_old_def)
  have tail: "kvE False t s ?l g \<noteq> None" "count (held t) (g, tail_old t s ?l g) = 1"
    using post g by (auto simp: append_post_def)
  have mem: "(s', l', g) \<in> holders (kv_entries t) g ?p"
    using s'(2) same(1) holders_kvE [of s' l' g False t g ?p] by (auto simp: tail_old_def)
  have sub: "holders (kv_entries t) g ?p \<subseteq> holders (kv_entries m) g ?p"
  proof
    fix k
    assume k: "k \<in> holders (kv_entries t) g ?p"
    obtain i l h where ki: "k = (i, l, h)" using prod_cases3 by blast
    have hg: "h = g" using k ki by (auto simp: holders_def)
    show "k \<in> holders (kv_entries m) g ?p"
    proof (cases "i = s \<and> l = ?l")
      case True
      have "tail_old t s ?l g = ?p"
        using k True ki hg holders_kvE [of s ?l g False t g ?p] by (auto simp: tail_old_def)
      then have "card (holders (kv_entries t) g ?p) \<le> 1"
        using tail(2) count_held [OF okt, of g ?p] by simp
      moreover have "card {k, (s', l', g)} \<le> card (holders (kv_entries t) g ?p)"
        using k mem by (intro card_mono) auto
      moreover have "card {k, (s', l', g)} = 2" using True ki s'(1) by simp
      ultimately show ?thesis by simp
    next
      case False
      then have "kvE False t i l h = kvE False m i l h" using same(3,4) by (cases "i = s") simp_all
      then show ?thesis
        using k holders_kvE [of i l g False t g ?p] holders_kvE [of i l g False m g ?p]
        unfolding ki hg by simp
    qed
  qed
  have "holders (kv_temporary_entries t) g ?p = holders (kv_temporary_entries m) g ?p"
  proof (rule set_eqI)
    fix k
    show "k \<in> holders (kv_temporary_entries t) g ?p \<longleftrightarrow> k \<in> holders (kv_temporary_entries m) g ?p"
      using holders_kvE [of "fst k" "fst (snd k)" "snd (snd k)" True t g ?p]
        holders_kvE [of "fst k" "fst (snd k)" "snd (snd k)" True m g ?p] same(2) by simp
  qed
  moreover have "card (holders (kv_entries t) g ?p) \<le> card (holders (kv_entries m) g ?p)"
    using sub by (intro card_mono) simp_all
  ultimately have "count (held t) (g, ?p) \<le> count (held m) (g, ?p)"
    by (simp add: count_held [OF okm] count_held [OF okt])
  then show ?thesis using shared p by (simp add: tail_shared_def)
qed

section \<open>What each sequence wants\<close>

text \<open>
  A sequence with at most one token that the map does not know yet, whose tail block has not
  been evicted; and the block it wants in a layer group.
\<close>

definition append_ready :: "kv_map \<Rightarrow> Sequence \<Rightarrow> bool" where
  "append_ready m s \<longleftrightarrow> (case (kvL m (seq_id s), kvP m (seq_id s)) of
     (Some n, Some p) \<Rightarrow> seq_get_len s \<le> Suc n \<and> (n mod kv_block_size m \<noteq> 0 \<longrightarrow> p \<le> n div kv_block_size m)
   | _ \<Rightarrow> False)"

definition append_wants :: "kv_map \<Rightarrow> nat \<Rightarrow> Sequence \<Rightarrow> nat" where
  "append_wants m g s = (case kvL m (seq_id s) of
     Some n \<Rightarrow> (if n < seq_get_len s \<and> append_needs m (seq_id s) n g then 1 else 0)
   | None \<Rightarrow> 0)"

lemma append_readyE:
  assumes "append_ready m s"
  obtains n p where "kvL m (seq_id s) = Some n" "kvP m (seq_id s) = Some p" "seq_get_len s \<le> Suc n"
    "n mod kv_block_size m \<noteq> 0 \<longrightarrow> p \<le> n div kv_block_size m"
  using assms by (auto simp: append_ready_def split: option.splits)

lemma ceil_div_tail: "0 < bs \<Longrightarrow> n mod bs \<noteq> 0 \<Longrightarrow> n div bs < ceil_div n (bs :: nat)"
  by (simp add: ceil_div_unaligned)

lemma tail_present:
  assumes "kv_inv m" "kvL m s = Some n" "kvP m s = Some p" "n mod kv_block_size m \<noteq> 0"
    and "p \<le> n div kv_block_size m" "g < kv_num_layer_groups m"
  shows "kvE False m s (n div kv_block_size m) g \<noteq> None"
proof -
  have seqs: "seqs_ok m" using assms(1) by (simp add: kv_inv_def)
  have "n div kv_block_size m < ceil_div n (kv_block_size m)"
    using seqs_okD(1) [OF seqs] assms(4) by (rule ceil_div_tail)
  then show ?thesis
    using assms(5,6) unfolding view_present(3) [OF seqs assms(2,3), of "n div kv_block_size m" g] by blast
qed

lemma sequence_needs_cow_ok:
  assumes inv: "kv_inv m" and r: "append_ready m s" and L: "kvL m (seq_id s) = Some n"
    and g: "g < kv_num_layer_groups m"
  shows "sequence_needs_cow (seq_id s) g m =
    (Inr (n mod kv_block_size m \<noteq> 0 \<and> tail_shared m (seq_id s) (n div kv_block_size m) g), m)"
proof (cases "n mod kv_block_size m = 0")
  case True
  then show ?thesis
    using L by (simp add: sequence_needs_cow_def get_length_def kvL_def bnd_def gets_def
        lift_err_def ret_def)
next
  case False
  let ?l = "n div kv_block_size m"
  obtain p where p: "kvP m (seq_id s) = Some p" "p \<le> ?l"
    using r L False by (elim append_readyE) auto
  obtain e where e: "kvE False m (seq_id s) ?l g = Some e"
    using tail_present [OF inv L p(1) False p(2) g] by blast
  have pred: "(n - 1) div kv_block_size m = ?l"
  proof -
    have "0 < n" using False by (cases n) auto
    then show ?thesis using False by (metis Suc_pred' div_Suc)
  qed
  have ok: "kv_ok m {#}" using inv by (simp add: kv_inv_def)
  have pool: "pool_ok m (held m)" using kv_ok_pool [OF ok] by simp
  have "(g, ke_physical_block_id e) \<in># held m"
    using owned_mem [of "kv_entries m" "(seq_id s, ?l, g)" e] e by (auto simp: held_def kvE_def)
  then have "ke_physical_block_id e < kv_num_physical_blocks m"
    using pool_okD(7) [OF pool] by blast
  then have rc: "get_block_ref_count g (ke_physical_block_id e) m =
      (Inr (count (held m) (g, ke_physical_block_id e)), m)"
    using pool_okD [OF pool] g by (simp add: get_block_ref_count_def lift_err_def)
  have ge: "get_entry False (seq_id s, (n - 1) div kv_block_size m, g) m = (Inr e, m)"
    using e pred by (simp add: get_entry_def lift_err_def kvE_def)
  show ?thesis
    using L False e
    by (simp add: sequence_needs_cow_def get_length_def kvL_def bnd_def gets_def lift_err_def
        ge rc ret_def tail_shared_def tail_old_def del: One_nat_def)
qed

text \<open>The needs computed by the loop are the sums of the wants.\<close>

lemma foldl_add: "foldl (\<lambda>acc x. acc + f x) a xs = a + sum_list (map f xs)" for a :: nat
  by (induction xs arbitrary: a) simp_all

lemma foldl_bump:
  "distinct gs \<Longrightarrow> set gs \<subseteq> {..<length needs} \<Longrightarrow>
   foldl (\<lambda>needs g. if P g then needs[g := Suc (needs ! g)] else needs) needs gs =
   map (\<lambda>g. needs ! g + (if g \<in> set gs \<and> P g then 1 else 0)) [0..<length needs]"
proof (induction gs arbitrary: needs)
  case Nil
  then show ?case by (simp add: map_nth)
next
  case (Cons g gs)
  let ?n = "if P g then needs[g := Suc (needs ! g)] else needs"
  have "foldl (\<lambda>needs g. if P g then needs[g := Suc (needs ! g)] else needs) ?n gs =
      map (\<lambda>h. ?n ! h + (if h \<in> set gs \<and> P h then 1 else 0)) [0..<length ?n]"
    using Cons.prems by (intro Cons.IH) auto
  also have "\<dots> = map (\<lambda>h. needs ! h + (if h \<in> set (g # gs) \<and> P h then 1 else 0)) [0..<length needs]"
    using Cons.prems by (intro map_cong) (auto simp: nth_list_update)
  finally show ?case by simp
qed

lemma Suc_mod_eq_1: "1 < bs \<Longrightarrow> Suc n mod bs = 1 \<longleftrightarrow> n mod bs = 0" for bs :: nat
  by (auto simp: mod_Suc split: if_splits)

lemma needs_step:
  assumes ok: "em_ok b" and bs: "1 < em_block_size b" and r: "append_ready (em_cache_map b) s"
    and len: "length needs = em_groups b"
  shows "(bnd (on_map (get_sequence_length (seq_id s))) (\<lambda>old_length.
          if seq_get_len s \<le> old_length then ret needs
          else if seq_get_len s mod em_block_size b = 1 then ret (map Suc needs)
          else fold_each (layer_groups b) needs (\<lambda>needs g.
            bnd (on_map (sequence_needs_cow (seq_id s) g)) (\<lambda>cow.
            ret (if cow then needs[g := Suc (needs ! g)] else needs))))) b =
    (Inr (map (\<lambda>g. needs ! g + append_wants (em_cache_map b) g s) [0..<em_groups b]), b)"
proof -
  let ?m = "em_cache_map b" and ?G = "em_groups b"
  have inv: "kv_inv ?m" and bseq: "kv_block_size ?m = em_block_size b" using em_okD [OF ok] by blast+
  obtain n where L: "kvL ?m (seq_id s) = Some n" and n: "seq_get_len s \<le> Suc n"
    using r by (rule append_readyE)
  have len_q: "on_map (get_sequence_length (seq_id s)) b = (Inr n, b)"
    using L by (simp add: on_map_def get_sequence_length_def get_length_def lift_err_def kvL_def)
  have run: "bnd (on_map (get_sequence_length (seq_id s))) k b = k n b" for k :: "nat \<Rightarrow> 'b em"
    by (simp add: bnd_def len_q)
  have idm: "map (\<lambda>g. needs ! g) [0..<?G] = needs" using len by (metis map_nth)
  consider (old) "seq_get_len s \<le> n" | (fresh) "seq_get_len s = Suc n" "n mod em_block_size b = 0"
    | (tail) "seq_get_len s = Suc n" "n mod em_block_size b \<noteq> 0"
    using n by linarith
  then show ?thesis
  proof cases
    case old
    then show ?thesis by (simp add: run ret_def append_wants_def L idm)
  next
    case fresh
    have "map Suc needs = map (\<lambda>g. needs ! g + 1) [0..<?G]"
      using idm by (metis (no_types, lifting) Suc_eq_plus1 list.map_comp map_eq_conv o_apply)
    moreover have "append_wants ?m g s = 1" for g
      using fresh by (simp add: append_wants_def L append_needs_def bseq)
    ultimately show ?thesis
      using fresh Suc_mod_eq_1 [OF bs, of n] by (simp add: run ret_def)
  next
    case tail
    let ?P = "tail_shared ?m (seq_id s) (n div kv_block_size ?m)"
    have cow: "on_map (sequence_needs_cow (seq_id s) g) b = (Inr (?P g), b)" if "g < ?G" for g
      using sequence_needs_cow_ok [OF inv r L that] tail(2) by (simp add: on_map_def bseq)
    have "fold_each (layer_groups b) needs (\<lambda>needs g.
            bnd (on_map (sequence_needs_cow (seq_id s) g)) (\<lambda>cow.
            ret (if cow then needs[g := Suc (needs ! g)] else needs))) b =
        (Inr (foldl (\<lambda>needs g. if ?P g then needs[g := Suc (needs ! g)] else needs) needs
           (layer_groups b)), b)"
      by (rule fold_each_pure) (simp add: layer_groups_def bnd_def cow ret_def)
    moreover have "foldl (\<lambda>needs g. if ?P g then needs[g := Suc (needs ! g)] else needs) needs
           (layer_groups b) = map (\<lambda>g. needs ! g + append_wants ?m g s) [0..<?G]"
      using tail len by (subst foldl_bump)
        (auto simp: layer_groups_def append_wants_def L append_needs_def bseq)
    ultimately show ?thesis
      using tail Suc_mod_eq_1 [OF bs, of n] by (simp add: run)
  qed
qed

definition ready_group :: "ellm_manager \<Rightarrow> SequenceGroup \<Rightarrow> bool" where
  "ready_group b seq_group \<longleftrightarrow>
     distinct (map seq_id (get_seqs (Some RUNNING) seq_group)) \<and>
     (\<forall>s \<in> set (get_seqs (Some RUNNING) seq_group). append_ready (em_cache_map b) s)"

lemma em_can_append_slots_ok:
  assumes ok: "em_ok b" and bs: "1 < em_block_size b" and r: "ready_group b seq_group"
  shows "em_can_append_slots seq_group 0 b =
    (Inr (\<forall>g < em_groups b. sum_list (map (append_wants (em_cache_map b) g)
        (get_seqs (Some RUNNING) seq_group)) \<le> kv_avail (em_cache_map b) g), b)"
proof -
  let ?ss = "get_seqs (Some RUNNING) seq_group" and ?m = "em_cache_map b" and ?G = "em_groups b"
  have loop: "wp (fold_each ?ss (map (\<lambda>_. 0) (layer_groups b))
       (\<lambda>needs s.
          bnd (on_map (get_sequence_length (seq_id s))) (\<lambda>old_length.
          if seq_get_len s \<le> old_length then ret needs
          else if seq_get_len s mod em_block_size b = 1 then ret (map Suc needs)
          else fold_each (layer_groups b) needs (\<lambda>needs g.
            bnd (on_map (sequence_needs_cow (seq_id s) g)) (\<lambda>cow.
            ret (if cow then needs[g := Suc (needs ! g)] else needs))))))
     (\<lambda>needs t. t = b \<and> needs = map (\<lambda>g. sum_list (map (append_wants ?m g) ?ss)) [0..<?G])
     (\<lambda>_ _. False) b"
  proof (rule wp_fold_each [where I = "\<lambda>ys needs t. t = b \<and> (\<exists>d. ?ss = d @ ys \<and>
      needs = map (\<lambda>g. sum_list (map (append_wants ?m g) d)) [0..<?G])"])
    show "b = b \<and> (\<exists>d. ?ss = d @ ?ss \<and>
        map (\<lambda>_. 0) (layer_groups b) = map (\<lambda>g. sum_list (map (append_wants ?m g) d)) [0..<?G])"
      by (simp add: layer_groups_def)
  next
    fix s ys needs t
    assume "t = b \<and> (\<exists>d. ?ss = d @ s # ys \<and>
        needs = map (\<lambda>g. sum_list (map (append_wants ?m g) d)) [0..<?G])"
    then obtain d where t: "t = b" and d: "?ss = d @ s # ys"
      "needs = map (\<lambda>g. sum_list (map (append_wants ?m g) d)) [0..<?G]" by blast
    have rs: "append_ready ?m s" using r d(1) by (simp add: ready_group_def)
    have len: "length needs = ?G" using d(2) by simp
    have "map (\<lambda>g. needs ! g + append_wants ?m g s) [0..<?G] =
        map (\<lambda>g. sum_list (map (append_wants ?m g) (d @ [s]))) [0..<?G]"
      using d(2) by simp
    with needs_step [OF ok bs rs len] d(1) t
    show "wp (bnd (on_map (get_sequence_length (seq_id s))) (\<lambda>old_length.
          if seq_get_len s \<le> old_length then ret needs
          else if seq_get_len s mod em_block_size b = 1 then ret (map Suc needs)
          else fold_each (layer_groups b) needs (\<lambda>needs g.
            bnd (on_map (sequence_needs_cow (seq_id s) g)) (\<lambda>cow.
            ret (if cow then needs[g := Suc (needs ! g)] else needs)))))
        (\<lambda>needs t. t = b \<and> (\<exists>d. ?ss = d @ ys \<and>
           needs = map (\<lambda>g. sum_list (map (append_wants ?m g) d)) [0..<?G])) (\<lambda>_ _. False) t"
      unfolding wp_def by (auto intro!: exI [where x = "d @ [s]"])
  qed auto
  then have needs: "em_needs_by_group seq_group b =
      (Inr (map (\<lambda>g. sum_list (map (append_wants ?m g) ?ss)) [0..<?G]), b)"
    unfolding em_needs_by_group_def run_basic id_apply by (auto dest: wp_ok_result)
  have "all_each (layer_groups b) (\<lambda>g. bnd (on_map (get_num_free_blocks (Some g))) (\<lambda>n.
          ret (map (\<lambda>g. sum_list (map (append_wants ?m g) ?ss)) [0..<?G] ! g \<le> n))) b =
      (Inr (\<forall>g \<in> set (layer_groups b). sum_list (map (append_wants ?m g) ?ss) \<le> kv_avail ?m g), b)"
    by (rule all_each_pure)
      (simp add: layer_groups_def bnd_def free_blocks_query [OF ok] ret_def)
  then show ?thesis
    unfolding em_can_append_slots_def
    by (simp add: bnd_def needs gets_def) (simp add: layer_groups_def atLeast0LessThan lessThan_def)
qed

section \<open>Appending\<close>

lemma em_append_slots_ok:
  assumes inv: "kv_inv (em_cache_map b)" and L: "kvL (em_cache_map b) (seq_id s) = Some n"
    and n: "seq_get_len s \<le> Suc n"
  shows "wp (em_append_slots s 0)
    (\<lambda>copies t. if seq_get_len s \<le> n then t = b \<and> copies = []
       else em_rest b t \<and> append_post (em_cache_map b) (seq_id s) n copies (em_cache_map t))
    (\<lambda>e t. n < seq_get_len s \<and> em_rest b t \<and> kv_rest (em_cache_map t) = kv_rest (em_cache_map b) \<and>
       kv_avail (em_cache_map t) = kv_avail (em_cache_map b) \<and>
       append_fails (em_cache_map b) (seq_id s) e) b"
proof (cases "seq_get_len s \<le> n")
  case True
  have "wp (em_append_loop (Suc k) s []) Q E b = Q [] b" for k Q E
    using L True by (simp add: wp_simps get_sequence_length_def get_length_def kvL_def)
  then show ?thesis using True by (simp add: em_append_slots_def)
next
  case False
  then have sn: "seq_get_len s = Suc n" using n by simp
  have step: "wp (em_append_loop (Suc k) s acc) Q E t =
      (if n' < seq_get_len s then wp (on_map (append_token (seq_id s)))
         (\<lambda>cows. wp (em_append_loop k s (acc @ cows)) Q E) E t else Q acc t)"
    if "kvL (em_cache_map t) (seq_id s) = Some n'" for k acc Q E t n'
    using that by (simp add: wp_simps get_sequence_length_def get_length_def kvL_def)
  have eq: "em_append_slots s 0 = em_append_loop (Suc (Suc n)) s []"
    by (simp only: em_append_slots_def sn simp_thms if_False)
  have ge: "\<not> seq_get_len s \<le> n" "n < seq_get_len s" using sn by simp_all
  show ?thesis
    unfolding eq step [OF L] if_P [OF ge(2)] wp_on_map if_not_P [OF ge(1)]
  proof (rule wp_mono [OF append_token_ok [OF inv]])
    fix cows t
    assume "\<exists>n. kvL (em_cache_map b) (seq_id s) = Some n \<and>
      append_post (em_cache_map b) (seq_id s) n cows t"
    then have t: "append_post (em_cache_map b) (seq_id s) n cows t" using L by simp
    then have L': "kvL (em_cache_map (b\<lparr>em_cache_map := t\<rparr>)) (seq_id s) = Some (Suc n)"
      by (simp add: append_post_def)
    have "em_rest b (b\<lparr>em_cache_map := t\<rparr>)"
      using t by (intro em_rest_map) (simp_all add: append_post_def kv_frame_def)
    with t show "wp (em_append_loop (Suc n) s ([] @ cows))
        (\<lambda>copies t. em_rest b t \<and> append_post (em_cache_map b) (seq_id s) n copies (em_cache_map t))
        (\<lambda>e t. n < seq_get_len s \<and> em_rest b t \<and> kv_rest (em_cache_map t) = kv_rest (em_cache_map b) \<and>
           kv_avail (em_cache_map t) = kv_avail (em_cache_map b) \<and>
           append_fails (em_cache_map b) (seq_id s) e) (b\<lparr>em_cache_map := t\<rparr>)"
      unfolding step [OF L'] by (simp add: sn)
  next
    fix e t
    assume t: "kv_inv t \<and> kv_rest t = kv_rest (em_cache_map b) \<and>
      kv_avail t = kv_avail (em_cache_map b) \<and> append_fails (em_cache_map b) (seq_id s) e"
    then have r: "kv_rest t = kv_rest (em_cache_map b)" by blast
    have "em_rest b (b\<lparr>em_cache_map := t\<rparr>)"
      using rest_view(1) [OF r] by (intro em_rest_map) simp_all
    with t ge show "n < seq_get_len s \<and> em_rest b (b\<lparr>em_cache_map := t\<rparr>) \<and>
        kv_rest (em_cache_map (b\<lparr>em_cache_map := t\<rparr>)) = kv_rest (em_cache_map b) \<and>
        kv_avail (em_cache_map (b\<lparr>em_cache_map := t\<rparr>)) = kv_avail (em_cache_map b) \<and>
        append_fails (em_cache_map b) (seq_id s) e" by simp
  qed
qed

lemma wants_decrease:
  assumes inv: "kv_inv m" and post: "append_post m i n copies t" and g: "g < kv_num_layer_groups m"
    and r: "append_ready m s" and i: "seq_id s \<noteq> i"
  shows "append_wants t g s \<le> append_wants m g s" "append_ready t s"
proof -
  have c: "kv_block_size t = kv_block_size m" and L: "kvL t (seq_id s) = kvL m (seq_id s)"
    and P: "kvP t (seq_id s) = kvP m (seq_id s)"
    using post i by (auto simp: append_post_def kv_frame_def kv_consts_eq)
  then show "append_ready t s" using r by (simp add: append_ready_def split: option.splits)
  obtain k p where k: "kvL m (seq_id s) = Some k" "kvP m (seq_id s) = Some p"
    "k mod kv_block_size m \<noteq> 0 \<longrightarrow> p \<le> k div kv_block_size m"
    using r by (rule append_readyE)
  have "append_needs m (seq_id s) k g" if "append_needs t (seq_id s) k g"
  proof (cases "k mod kv_block_size m = 0")
    case False
    then have "tail_shared t (seq_id s) (k div kv_block_size m) g"
      using that c by (simp add: append_needs_def)
    then have "tail_shared m (seq_id s) (k div kv_block_size m) g"
      using sharing_decreases [OF inv post g i tail_present [OF inv k(1,2) False mp [OF k(3) False] g]]
      by blast
    then show ?thesis by (simp add: append_needs_def)
  qed (simp add: append_needs_def)
  then show "append_wants t g s \<le> append_wants m g s"
    using k(1) L by (simp add: append_wants_def)
qed

definition append_all_inv :: "ellm_manager \<Rightarrow> Sequence list \<Rightarrow> Sequence list \<Rightarrow> ellm_manager \<Rightarrow> bool" where
  "append_all_inv b d ys t \<longleftrightarrow> em_rest b t \<and> kv_inv (em_cache_map t) \<and>
     distinct (map seq_id (d @ ys)) \<and>
     (\<forall>s \<in> set ys. append_ready (em_cache_map t) s) \<and>
     (\<forall>s \<in> set d. \<exists>n. kvL (em_cache_map t) (seq_id s) = Some n \<and> seq_get_len s \<le> n) \<and>
     (\<forall>g < em_groups b. sum_list (map (append_wants (em_cache_map t) g) ys) \<le> kv_avail (em_cache_map t) g)"

lemma append_all_step:
  assumes J: "append_all_inv b d (s # ys) t"
  shows "wp (em_append_slots s 0) (\<lambda>_. append_all_inv b (d @ [s]) ys) (\<lambda>_ _. False) t"
proof -
  let ?m = "em_cache_map t"
  have inv: "kv_inv ?m" and r: "append_ready ?m s" and er: "em_rest b t"
    and d: "distinct (map seq_id (d @ s # ys))"
    and sum: "\<And>g. g < em_groups b \<Longrightarrow>
      append_wants ?m g s + sum_list (map (append_wants ?m g) ys) \<le> kv_avail ?m g"
    using J by (auto simp: append_all_inv_def)
  have G: "em_groups t = em_groups b" using er by (rule em_restD)
  obtain n p where n: "kvL ?m (seq_id s) = Some n" "kvP ?m (seq_id s) = Some p" "seq_get_len s \<le> Suc n"
    "n mod kv_block_size ?m \<noteq> 0 \<longrightarrow> p \<le> n div kv_block_size ?m"
    using r by (rule append_readyE)
  show ?thesis
  proof (rule wp_mono [OF em_append_slots_ok [OF inv n(1,3)]])
    fix copies u
    assume u: "if seq_get_len s \<le> n then u = t \<and> copies = []
       else em_rest t u \<and> append_post ?m (seq_id s) n copies (em_cache_map u)"
    show "append_all_inv b (d @ [s]) ys u"
    proof (cases "seq_get_len s \<le> n")
      case True
      then have "u = t" using u by simp
      moreover have "sum_list (map (append_wants ?m g) ys) \<le> kv_avail ?m g" if "g < em_groups b" for g
        using sum [OF that] by simp
      ultimately show ?thesis using J True n(1) by (auto simp: append_all_inv_def)
    next
      case False
      then have post: "append_post ?m (seq_id s) n copies (em_cache_map u)" and eu: "em_rest t u"
        using u by simp_all
      have "seq_id s \<notin> seq_id ` set ys" using d by simp
      then have other: "seq_id s' \<noteq> seq_id s" "append_ready ?m s'" if "s' \<in> set ys" for s'
        using J that imageI [OF that, of seq_id] by (metis, simp add: append_all_inv_def)
      have Lu: "kvL (em_cache_map u) = (kvL ?m)(seq_id s \<mapsto> Suc n)"
        using post by (simp add: append_post_def)
      have "sum_list (map (append_wants (em_cache_map u) g) ys) \<le> kv_avail (em_cache_map u) g"
        if g: "g < em_groups b" for g
      proof -
        have gt: "g < em_groups t" using g G by simp
        have "sum_list (map (append_wants (em_cache_map u) g) ys) \<le> sum_list (map (append_wants ?m g) ys)"
          by (rule sum_list_mono) (use wants_decrease(1) [OF inv post gt] other in blast)
        moreover have "kv_avail (em_cache_map u) g + append_wants ?m g s = kv_avail ?m g"
          using post gt False n(1) by (simp add: append_post_def append_wants_def split: if_splits)
        ultimately show ?thesis using sum [OF g] by linarith
      qed
      moreover have "0 < em_groups t" using inv by (simp add: kv_inv_def seqs_ok_def)
      then have "append_ready (em_cache_map u) s'" if "s' \<in> set ys" for s'
        using wants_decrease(2) [OF inv post] other [OF that] by blast
      moreover have "kv_inv (em_cache_map u)" using post by (simp add: append_post_def)
      moreover have "\<exists>n. kvL (em_cache_map u) (seq_id s') = Some n \<and> seq_get_len s' \<le> n"
        if s': "s' \<in> set (d @ [s])" for s'
      proof (cases "s' \<in> set d")
        case True
        have "seq_id s \<notin> seq_id ` set d" using d by auto
        then have "seq_id s' \<noteq> seq_id s" using imageI [OF True, of seq_id] by metis
        then show ?thesis using True J Lu by (simp add: append_all_inv_def)
      next
        case False
        then show ?thesis using s' n(3) Lu by simp
      qed
      ultimately show ?thesis
        using em_rest_trans [OF er eu] d by (simp add: append_all_inv_def)
    qed
  next
    fix e u
    assume f: "n < seq_get_len s \<and> em_rest t u \<and> kv_rest (em_cache_map u) = kv_rest ?m \<and>
       kv_avail (em_cache_map u) = kv_avail ?m \<and> append_fails ?m (seq_id s) e"
    then have "\<exists>g < em_groups t. append_needs ?m (seq_id s) n g \<and> kv_avail ?m g = 0"
      using n by (auto simp: append_fails_def)
    then obtain g where g: "g < em_groups b" "append_needs ?m (seq_id s) n g" "kv_avail ?m g = 0"
      using G by auto
    then show False using sum [OF g(1)] n(1) f by (simp add: append_wants_def)
  qed
qed

text \<open>
  C11: the verdict of \<^verbatim>\<open>can_append_slots\<close> can be relied on, for blocks of more than one token and
  sequences with at most one pending token whose tail is not evicted: the check changes nothing,
  and when it answers yes, appending to every running sequence of the group, one after the
  other, succeeds and leaves no token without a slot.
\<close>

theorem em_can_append_slots_sound:
  assumes "em_ok b" "1 < em_block_size b" "ready_group b seq_group"
  shows "snd (em_can_append_slots seq_group 0 b) = b \<and>
    (fst (em_can_append_slots seq_group 0 b) = Inr True \<longrightarrow>
       wp (for_each (get_seqs (Some RUNNING) seq_group) (\<lambda>s. bnd (em_append_slots s 0) (\<lambda>_. ret ())))
         (\<lambda>_ t. em_ok t \<and> (\<forall>s \<in> set (get_seqs (Some RUNNING) seq_group).
            \<exists>n. kvL (em_cache_map t) (seq_id s) = Some n \<and> seq_get_len s \<le> n))
         (\<lambda>_ _. False) b)"
proof (intro conjI impI)
  let ?ss = "get_seqs (Some RUNNING) seq_group"
  show "snd (em_can_append_slots seq_group 0 b) = b"
    by (simp only: em_can_append_slots_ok [OF assms] snd_conv)
  assume "fst (em_can_append_slots seq_group 0 b) = Inr True"
  then have "\<forall>g < em_groups b. sum_list (map (append_wants (em_cache_map b) g) ?ss) \<le>
      kv_avail (em_cache_map b) g"
    by (simp only: em_can_append_slots_ok [OF assms] fst_conv sum.inject simp_thms)
  then have start: "append_all_inv b [] ?ss b"
    using assms em_okD(1) [OF assms(1)] by (simp add: append_all_inv_def ready_group_def)
  show "wp (for_each ?ss (\<lambda>s. bnd (em_append_slots s 0) (\<lambda>_. ret ())))
     (\<lambda>_ t. em_ok t \<and> (\<forall>s \<in> set ?ss. \<exists>n. kvL (em_cache_map t) (seq_id s) = Some n \<and> seq_get_len s \<le> n))
     (\<lambda>_ _. False) b"
  proof (rule wp_for_each [where I = "\<lambda>ys t. \<exists>d. ?ss = d @ ys \<and> append_all_inv b d ys t"])
    show "\<exists>d. ?ss = d @ ?ss \<and> append_all_inv b d ?ss b" using start by simp
  next
    fix s ys t
    assume "\<exists>d. ?ss = d @ s # ys \<and> append_all_inv b d (s # ys) t"
    then obtain d where d: "?ss = d @ s # ys" "append_all_inv b d (s # ys) t" by blast
    show "wp (bnd (em_append_slots s 0) (\<lambda>_. ret ()))
        (\<lambda>_ t. \<exists>d. ?ss = d @ ys \<and> append_all_inv b d ys t) (\<lambda>_ _. False) t"
      unfolding wp_bnd wp_ret
      by (rule wp_mono [OF append_all_step [OF d(2)]]) (use d(1) in \<open>auto intro!: exI [where x = "d @ [s]"]\<close>)
  next
    fix t
    assume "\<exists>d. ?ss = d @ [] \<and> append_all_inv b d [] t"
    then have "append_all_inv b ?ss [] t" by auto
    then show "em_ok t \<and> (\<forall>s \<in> set ?ss. \<exists>n. kvL (em_cache_map t) (seq_id s) = Some n \<and> seq_get_len s \<le> n)"
      using em_ok_rest [OF assms(1)] by (simp add: append_all_inv_def)
  qed
qed

text \<open>The sequence of the last example has produced one token.\<close>

definition demo_running :: SequenceGroup where
  "demo_running = demo_group ''a'' 0 [demo_seq 0 6 RUNNING]"

definition demo_em1 :: ellm_manager where
  "demo_em1 = snd (em_allocate demo_waiting demo_em)"

lemma demo_em1_facts:
  "em_rest demo_em demo_em1"
  "allocated_map (em_cache_map demo_em) [demo_seq 0 5 WAITING] (em_cache_map demo_em1)"
proof -
  let ?P = "\<lambda>t. em_rest demo_em t \<and>
    allocated_map (em_cache_map demo_em) [demo_seq 0 5 WAITING] (em_cache_map t)"
  have "wp (em_allocate demo_waiting) (\<lambda>_. ?P) (\<lambda>_ _. False) demo_em"
    by (rule wp_mono [OF em_allocate_ok [OF demo_em_ok demo_waiting_facts(3)]])
      (auto simp: demo_waiting_facts demo_em_facts)
  then have "?P demo_em1"
    unfolding demo_em1_def by (auto simp: wp_def split: prod.splits sum.splits)
  then show "em_rest demo_em demo_em1"
    "allocated_map (em_cache_map demo_em) [demo_seq 0 5 WAITING] (em_cache_map demo_em1)"
    by simp_all
qed

lemma demo_em1_ready:
  "em_ok demo_em1" "1 < em_block_size demo_em1" "ready_group demo_em1 demo_running"
  "em_groups demo_em1 = 2" "g < 2 \<Longrightarrow> kv_avail (em_cache_map demo_em1) g = 5"
proof -
  note f = demo_em1_facts(2) [unfolded allocated_map_def]
  show ok: "em_ok demo_em1"
    using em_ok_rest [OF demo_em_ok demo_em1_facts(1)] f by simp
  have c: "kv_block_size (em_cache_map demo_em1) = 2" "em_groups demo_em1 = 2"
    using f demo_em_facts by (simp_all add: kv_consts_def)
  then show "1 < em_block_size demo_em1" "em_groups demo_em1 = 2"
    using em_okD(2) [OF ok] by simp_all
  show "ready_group demo_em1 demo_running"
    using f c by (simp add: ready_group_def demo_running_def get_seqs_def append_ready_def)
  show "g < 2 \<Longrightarrow> kv_avail (em_cache_map demo_em1) g = 5"
    using f demo_em_facts by (force simp: ceil_div_def)
qed

theorem em_can_append_slots_sound_witness:
  "fst (em_can_append_slots demo_running 0 demo_em1) = Inr True \<and>
   (\<exists>n \<ge> 6. kvL (em_cache_map (snd (for_each (get_seqs (Some RUNNING) demo_running)
      (\<lambda>s. bnd (em_append_slots s 0) (\<lambda>_. ret ())) demo_em1))) 0 = Some n)"
proof -
  have r: "get_seqs (Some RUNNING) demo_running = [demo_seq 0 6 RUNNING]"
    by (simp add: demo_running_def get_seqs_def)
  have ok: "fst (em_can_append_slots demo_running 0 demo_em1) = Inr True"
    using demo_em1_ready(4,5)
    by (simp add: em_can_append_slots_ok [OF demo_em1_ready(1-3)] r append_wants_def split: option.split)
  with em_can_append_slots_sound [OF demo_em1_ready(1-3)] show ?thesis
    by (auto simp: r wp_def split: prod.splits sum.splits)
qed

end
