(* ===== verification/Ellm_Policy.thy ===== *)
theory Ellm_Policy
  imports Seq_Group "HOL-Library.Product_Lexorder"
begin

text \<open>
  \<^verbatim>\<open>vllm/core/ellm_policy.py\<close>, the choice of batch size and cache ratio, and
  \<^verbatim>\<open>vllm/core/policy.py\<close>, the order of the scheduler's queues. The floating-point values are
  exact rationals: the ranking is the one of exact arithmetic.
\<close>

section \<open>The cache-ratio policy\<close>

record ELLMPolicyDecision =
  pd_batch_size :: nat
  pd_cached_layers :: nat
  pd_recompute_layers :: nat
  pd_resident_token_layers :: nat
  pd_temporary_token_layers :: nat
  pd_estimated_work :: rat

definition round_tokens :: "nat \<Rightarrow> nat \<Rightarrow> nat" where
  "round_tokens num_tokens block_size = ceil_div num_tokens block_size * block_size"

text \<open>\<^verbatim>\<open>list(range(start, stop, step))\<close> for a positive step\<close>

definition py_range :: "nat \<Rightarrow> nat \<Rightarrow> nat \<Rightarrow> nat list" where
  "py_range start stop step = map (\<lambda>i. start + i * step) [0..<ceil_div (stop - start) step]"

definition layer_choices :: "nat \<Rightarrow> nat \<Rightarrow> nat list" where
  "layer_choices num_layers group_size =
     (let choices = py_range group_size (num_layers + 1) group_size in
      if last choices \<noteq> num_layers then choices @ [num_layers] else choices)"

type_synonym ranked = "(rat \<times> nat \<times> nat) \<times> ELLMPolicyDecision"

text \<open>The body of the two loops: \<^const>\<open>None\<close> is the \<^verbatim>\<open>continue\<close> of an infeasible point.\<close>

definition policy_point ::
  "nat list \<Rightarrow> nat \<Rightarrow> nat \<Rightarrow> nat \<Rightarrow> nat \<Rightarrow> nat \<times> nat \<Rightarrow> ranked option"
where
  "policy_point request_lengths num_layers block_size group_size capacity = (\<lambda>(batch_size, cached_layers).
     let lengths = take batch_size request_lengths;
         padded_tokens = sum_list (map (\<lambda>n. round_tokens n block_size) lengths);
         recompute_layers = num_layers - cached_layers;
         resident = padded_tokens * cached_layers;
         temporary = padded_tokens * min group_size recompute_layers in
     if resident + temporary > capacity then None
     else
       let work = sum_list (map (\<lambda>n. recompute_layers * n * n + cached_layers * n) lengths);
           throughput = of_nat batch_size / max (of_nat work) 1 in
       Some ((throughput, batch_size, cached_layers),
             \<lparr>pd_batch_size = batch_size, pd_cached_layers = cached_layers,
              pd_recompute_layers = recompute_layers, pd_resident_token_layers = resident,
              pd_temporary_token_layers = temporary, pd_estimated_work = of_nat work\<rparr>))"

definition keep_best :: "ranked option \<Rightarrow> ranked option \<Rightarrow> ranked option" where
  "keep_best point best = (case point of
     None \<Rightarrow> best
   | Some p \<Rightarrow>
       (case best of
          None \<Rightarrow> Some p
        | Some b \<Rightarrow> if fst p > fst b then Some p else Some b))"

definition select_ellm_policy ::
  "int list \<Rightarrow> int \<Rightarrow> int \<Rightarrow> int \<Rightarrow> int \<Rightarrow> int \<Rightarrow> py_error + ELLMPolicyDecision"
where
  "select_ellm_policy request_lengths max_batch_size num_layers num_gpu_blocks block_size
     layer_group_size =
   (if request_lengths = [] then Inl (ValueError ''request_lengths must not be empty'')
    else if \<exists>n \<in> set request_lengths. n \<le> 0 then
      Inl (ValueError ''request lengths must be positive'')
    else if max_batch_size \<le> 0 \<or> num_layers \<le> 0 then
      Inl (ValueError ''batch size and number of layers must be positive'')
    else if num_gpu_blocks \<le> 0 \<or> block_size \<le> 0 then
      Inl (ValueError ''cache dimensions must be positive'')
    else if layer_group_size \<le> 0 then Inl (ValueError ''layer_group_size must be positive'')
    else
      let lens = map nat request_lengths;
          layers = nat num_layers;
          bs = nat block_size;
          group_size = min (nat layer_group_size) layers;
          choices = layer_choices layers group_size;
          capacity = nat num_gpu_blocks * bs * layers;
          max_batch = min (nat max_batch_size) (length lens);
          best = fold (\<lambda>bc best. keep_best (policy_point lens layers bs group_size capacity bc) best)
                   (List.product [1..<max_batch + 1] choices) None in
      case best of
        None \<Rightarrow> Inl (RuntimeError ''No feasible eLLM cache policy'')
      | Some b \<Rightarrow> Inr (snd b))"

subsection \<open>The layer choices: the multiples of the group size, and all layers\<close>

lemma py_range_set:
  assumes "0 < step"
  shows "set (py_range start stop step) = {k. start \<le> k \<and> k < stop \<and> step dvd (k - start)}"
proof
  show "set (py_range start stop step) \<subseteq> {k. start \<le> k \<and> k < stop \<and> step dvd (k - start)}"
    using assms by (auto simp: py_range_def less_ceil_div_iff)
next
  show "{k. start \<le> k \<and> k < stop \<and> step dvd (k - start)} \<subseteq> set (py_range start stop step)"
  proof
    fix k
    assume "k \<in> {k. start \<le> k \<and> k < stop \<and> step dvd (k - start)}"
    then obtain i where k: "start \<le> k" "k < stop" "k - start = i * step"
      by (auto simp: dvd_def mult.commute)
    then have "k = start + i * step" "i < ceil_div (stop - start) step"
      using assms by (auto simp: less_ceil_div_iff)
    then show "k \<in> set (py_range start stop step)" by (auto simp: py_range_def)
  qed
qed

lemma insert_last: "c \<noteq> [] \<Longrightarrow> set (if last c \<noteq> n then c @ [n] else c) = insert n (set c)"
  by auto

lemma layer_choices_set:
  assumes "0 < g" "g \<le> n"
  shows "set (layer_choices n g) = insert n {k. 0 < k \<and> k \<le> n \<and> g dvd k}"
proof -
  have "g dvd k - g \<longleftrightarrow> g dvd k" if "g \<le> k" for k
    using that by (metis dvd_diffD dvd_diff_nat dvd_refl)
  then have range: "set (py_range g (n + 1) g) = {k. 0 < k \<and> k \<le> n \<and> g dvd k}"
    using assms by (auto simp: py_range_set dvd_imp_le)
  have "g \<in> set (py_range g (n + 1) g)" unfolding range using assms by simp
  then have "py_range g (n + 1) g \<noteq> []" by auto
  then have "set (layer_choices n g) = insert n (set (py_range g (n + 1) g))"
    unfolding layer_choices_def Let_def by (rule insert_last)
  then show ?thesis unfolding range .
qed

subsection \<open>The fold keeps a maximum of the ranks\<close>

lemma keep_best_simps [simp]:
  "keep_best None best = best"
  "keep_best (Some p) None = Some p"
  "keep_best (Some p) (Some b) = (if fst p > fst b then Some p else Some b)"
  by (simp_all add: keep_best_def)

lemma keep_best_fold_Some:
  "\<exists>c. fold (\<lambda>x. keep_best (f x)) xs (Some b) = Some c \<and> fst b \<le> fst c \<and>
     (c = b \<or> (\<exists>x \<in> set xs. f x = Some c)) \<and>
     (\<forall>x \<in> set xs. \<forall>p. f x = Some p \<longrightarrow> fst p \<le> fst c)"
proof (induction xs arbitrary: b)
  case (Cons x xs)
  show ?case
  proof (cases "f x")
    case None
    with Cons.IH [of b] show ?thesis by auto
  next
    case (Some p)
    show ?thesis
    proof (cases "fst b < fst p")
      case True
      obtain c where c: "fold (\<lambda>x. keep_best (f x)) xs (Some p) = Some c" "fst p \<le> fst c"
        "c = p \<or> (\<exists>x \<in> set xs. f x = Some c)" "\<forall>x \<in> set xs. \<forall>p. f x = Some p \<longrightarrow> fst p \<le> fst c"
        using Cons.IH [of p] by blast
      have bc: "fst b \<le> fst c" using True c(2) by (rule order_trans [OF less_imp_le])
      moreover have "\<forall>y \<in> set (x # xs). \<forall>q. f y = Some q \<longrightarrow> fst q \<le> fst c"
        using c(2,4) Some by (simp del: split_paired_All)
      ultimately show ?thesis using c(1,3) True Some bc by (intro exI [where x = c]) auto
    next
      case False
      then have pb: "fst p \<le> fst b" by simp
      obtain c where c: "fold (\<lambda>x. keep_best (f x)) xs (Some b) = Some c" "fst b \<le> fst c"
        "c = b \<or> (\<exists>x \<in> set xs. f x = Some c)" "\<forall>x \<in> set xs. \<forall>p. f x = Some p \<longrightarrow> fst p \<le> fst c"
        using Cons.IH [of b] by blast
      have pc: "fst p \<le> fst c" using pb c(2) by (rule order_trans)
      then have "\<forall>y \<in> set (x # xs). \<forall>q. f y = Some q \<longrightarrow> fst q \<le> fst c"
        using c(4) pc Some by (simp del: split_paired_All)
      moreover have "c = b \<or> (\<exists>y \<in> set (x # xs). f y = Some c)" using c(3) by auto
      ultimately show ?thesis using c(1,2) False Some by (intro exI [where x = c]) simp
    qed
  qed
qed simp

lemma keep_best_fold:
  "(case fold (\<lambda>x. keep_best (f x)) xs None of
      None \<Rightarrow> \<forall>x \<in> set xs. f x = None
    | Some c \<Rightarrow> (\<exists>x \<in> set xs. f x = Some c) \<and> (\<forall>x \<in> set xs. \<forall>p. f x = Some p \<longrightarrow> fst p \<le> fst c))"
proof (induction xs)
  case (Cons x xs)
  show ?case
  proof (cases "f x")
    case None
    with Cons.IH show ?thesis by (auto split: option.splits)
  next
    case (Some p)
    with keep_best_fold_Some [of f xs p] show ?thesis by auto
  qed
qed simp

subsection \<open>What the selected point is\<close>

text \<open>
  The abstract specification: a point is feasible when its resident slots and the temporary
  slots of one layer group fit the capacity, and the selected one has the highest rank.
\<close>

definition padded :: "nat list \<Rightarrow> nat \<Rightarrow> nat \<Rightarrow> nat" where
  "padded lens bs b = sum_list (map (\<lambda>n. round_tokens n bs) (take b lens))"

definition feasible :: "nat list \<Rightarrow> nat \<Rightarrow> nat \<Rightarrow> nat \<Rightarrow> nat \<Rightarrow> nat \<times> nat \<Rightarrow> bool" where
  "feasible lens layers bs g capacity = (\<lambda>(b, c).
     padded lens bs b * (c + min g (layers - c)) \<le> capacity)"

definition point_work :: "nat list \<Rightarrow> nat \<Rightarrow> nat \<times> nat \<Rightarrow> nat" where
  "point_work lens layers = (\<lambda>(b, c).
     sum_list (map (\<lambda>n. (layers - c) * n * n + c * n) (take b lens)))"

definition point_rank :: "nat list \<Rightarrow> nat \<Rightarrow> nat \<times> nat \<Rightarrow> rat \<times> nat \<times> nat" where
  "point_rank lens layers = (\<lambda>(b, c).
     (of_nat b / max (of_nat (point_work lens layers (b, c))) 1, b, c))"

definition point_decision :: "nat list \<Rightarrow> nat \<Rightarrow> nat \<Rightarrow> nat \<Rightarrow> nat \<times> nat \<Rightarrow> ELLMPolicyDecision" where
  "point_decision lens layers bs g = (\<lambda>(b, c).
     \<lparr>pd_batch_size = b, pd_cached_layers = c, pd_recompute_layers = layers - c,
      pd_resident_token_layers = padded lens bs b * c,
      pd_temporary_token_layers = padded lens bs b * min g (layers - c),
      pd_estimated_work = of_nat (point_work lens layers (b, c))\<rparr>)"

lemma policy_point_eq:
  "policy_point lens layers bs g capacity bc =
     (if feasible lens layers bs g capacity bc
      then Some (point_rank lens layers bc, point_decision lens layers bs g bc) else None)"
  by (cases bc)
    (simp add: policy_point_def feasible_def point_rank_def point_decision_def point_work_def
      padded_def Let_def distrib_left not_le)

lemma point_decision_point:
  "(pd_batch_size (point_decision lens layers bs g p), pd_cached_layers (point_decision lens layers bs g p)) = p"
  by (cases p) (simp add: point_decision_def)

lemma point_decision_fits:
  "feasible lens layers bs g capacity p \<Longrightarrow>
     pd_resident_token_layers (point_decision lens layers bs g p) +
     pd_temporary_token_layers (point_decision lens layers bs g p) \<le> capacity"
  by (cases p) (simp add: point_decision_def feasible_def distrib_left)

definition policy_points :: "int list \<Rightarrow> int \<Rightarrow> int \<Rightarrow> int \<Rightarrow> (nat \<times> nat) list" where
  "policy_points lens max_batch_size layers layer_group_size =
     List.product [1..<min (nat max_batch_size) (length lens) + 1]
       (layer_choices (nat layers) (min (nat layer_group_size) (nat layers)))"

definition policy_args_ok :: "int list \<Rightarrow> int \<Rightarrow> int \<Rightarrow> int \<Rightarrow> int \<Rightarrow> int \<Rightarrow> bool" where
  "policy_args_ok lens mb layers gpu bs lgs \<longleftrightarrow>
     lens \<noteq> [] \<and> (\<forall>n \<in> set lens. 0 < n) \<and> 0 < mb \<and> 0 < layers \<and> 0 < gpu \<and> 0 < bs \<and> 0 < lgs"

lemma select_ellm_policy_args:
  assumes "policy_args_ok lens mb layers gpu bs lgs"
  shows "select_ellm_policy lens mb layers gpu bs lgs =
    (case fold (\<lambda>bc. keep_best (policy_point (map nat lens) (nat layers) (nat bs)
             (min (nat lgs) (nat layers)) (nat gpu * nat bs * nat layers) bc))
           (policy_points lens mb layers lgs) None of
       None \<Rightarrow> Inl (RuntimeError ''No feasible eLLM cache policy'')
     | Some b \<Rightarrow> Inr (snd b))"
proof -
  have "\<not> (\<exists>n \<in> set lens. n \<le> 0)" using assms by (auto simp: policy_args_ok_def)
  moreover have "lens \<noteq> []" "\<not> (mb \<le> 0 \<or> layers \<le> 0)" "\<not> (gpu \<le> 0 \<or> bs \<le> 0)" "\<not> lgs \<le> 0"
    using assms by (auto simp: policy_args_ok_def)
  ultimately show ?thesis
    by (simp only: select_ellm_policy_def if_False Let_def policy_points_def length_map)
qed

lemma select_ellm_policy_bad_args:
  assumes "\<not> policy_args_ok lens mb layers gpu bs lgs"
  shows "\<exists>m. select_ellm_policy lens mb layers gpu bs lgs = Inl (ValueError m)"
proof -
  have "lens = [] \<or> (\<exists>n \<in> set lens. n \<le> 0) \<or> mb \<le> 0 \<or> layers \<le> 0 \<or> gpu \<le> 0 \<or> bs \<le> 0 \<or> lgs \<le> 0"
    using assms by (auto simp: policy_args_ok_def not_less)
  then show ?thesis by (auto simp: select_ellm_policy_def)
qed

text \<open>
  C8: for every argument list, valid or not, the policy raises exactly when an argument is invalid
  (no request, a length, a limit, a cache dimension or a group size that is not positive: a
  \<^verbatim>\<open>ValueError\<close>) or no point of its grid is feasible (the \<^verbatim>\<open>RuntimeError\<close>); otherwise the
  decision is the one of a feasible point of the grid, and no feasible point ranks higher
  (throughput, then batch size, then cached layers). In particular the resident and temporary
  slots of the decision fit the cache.
\<close>

theorem select_ellm_policy_optimal:
  fixes lens :: "int list" and mb layers gpu bs lgs :: int
  defines "g \<equiv> min (nat lgs) (nat layers)"
    and "fits \<equiv> feasible (map nat lens) (nat layers) (nat bs) (min (nat lgs) (nat layers))
      (nat gpu * nat bs * nat layers)"
  shows "case select_ellm_policy lens mb layers gpu bs lgs of
      Inl e \<Rightarrow>
        (if policy_args_ok lens mb layers gpu bs lgs
         then e = RuntimeError ''No feasible eLLM cache policy'' \<and>
           (\<forall>p \<in> set (policy_points lens mb layers lgs). \<not> fits p)
         else \<exists>m. e = ValueError m)
    | Inr d \<Rightarrow>
        policy_args_ok lens mb layers gpu bs lgs \<and>
        (let p = (pd_batch_size d, pd_cached_layers d) in
         p \<in> set (policy_points lens mb layers lgs) \<and> fits p \<and>
         d = point_decision (map nat lens) (nat layers) (nat bs) g p \<and>
         pd_resident_token_layers d + pd_temporary_token_layers d \<le> nat gpu * nat bs * nat layers \<and>
         (\<forall>q \<in> set (policy_points lens mb layers lgs). fits q \<longrightarrow>
            point_rank (map nat lens) (nat layers) q \<le> point_rank (map nat lens) (nat layers) p))"
proof (cases "policy_args_ok lens mb layers gpu bs lgs")
  case False
  with select_ellm_policy_bad_args [OF False] show ?thesis by auto
next
  case True
  let ?f = "policy_point (map nat lens) (nat layers) (nat bs) g (nat gpu * nat bs * nat layers)"
  let ?pts = "policy_points lens mb layers lgs"
  have f: "?f p = (if fits p then Some (point_rank (map nat lens) (nat layers) p,
      point_decision (map nat lens) (nat layers) (nat bs) g p) else None)" for p
    unfolding fits_def g_def by (rule policy_point_eq)
  have sel: "select_ellm_policy lens mb layers gpu bs lgs =
      (case fold (\<lambda>bc. keep_best (?f bc)) ?pts None of
         None \<Rightarrow> Inl (RuntimeError ''No feasible eLLM cache policy'') | Some b \<Rightarrow> Inr (snd b))"
    unfolding g_def by (rule select_ellm_policy_args [OF True])
  show ?thesis
  proof (cases "fold (\<lambda>bc. keep_best (?f bc)) ?pts None")
    case None
    with keep_best_fold [where f = ?f and xs = ?pts] show ?thesis by (simp add: sel f True split: if_splits)
  next
    case (Some r)
    with keep_best_fold [where f = ?f and xs = ?pts] obtain p where p: "p \<in> set ?pts" "?f p = Some r"
      and best: "\<forall>q \<in> set ?pts. \<forall>x. ?f q = Some x \<longrightarrow> fst x \<le> fst r" by auto
    let ?d = "point_decision (map nat lens) (nat layers) (nat bs) g p"
    have r: "fits p" "fst r = point_rank (map nat lens) (nat layers) p" "snd r = ?d"
      using p(2) by (auto simp: f split: if_splits)
    have best': "fits q \<longrightarrow> point_rank (map nat lens) (nat layers) q \<le> point_rank (map nat lens) (nat layers) p"
      if "q \<in> set ?pts" for q
      using best [rule_format, OF that, of "(point_rank (map nat lens) (nat layers) q,
          point_decision (map nat lens) (nat layers) (nat bs) g q)"] r(2) by (simp add: f)
    have "select_ellm_policy lens mb layers gpu bs lgs = Inr ?d"
      using Some r(3) by (simp add: sel)
    moreover have "pd_resident_token_layers ?d + pd_temporary_token_layers ?d \<le>
        nat gpu * nat bs * nat layers"
      using r(1) unfolding fits_def g_def by (rule point_decision_fits)
    ultimately show ?thesis
      using p(1) r(1) best' True by (simp only: sum.case Let_def point_decision_point) blast
  qed
qed

theorem select_ellm_policy_optimal_witness:
  "select_ellm_policy [40, 20] 2 4 4 16 2 =
     Inr \<lparr>pd_batch_size = 1, pd_cached_layers = 4, pd_recompute_layers = 0,
          pd_resident_token_layers = 192, pd_temporary_token_layers = 0, pd_estimated_work = 160\<rparr> \<and>
   feasible [40, 20] 4 16 2 256 (1, 4)"
proof -
  note opt = select_ellm_policy_optimal [where lens = "[40, 20]" and mb = 2 and layers = 4 and gpu = 4
    and bs = 16 and lgs = 2]
  have sel: "select_ellm_policy [40, 20] 2 4 4 16 2 =
     Inr \<lparr>pd_batch_size = 1, pd_cached_layers = 4, pd_recompute_layers = 0,
          pd_resident_token_layers = 192, pd_temporary_token_layers = 0, pd_estimated_work = 160\<rparr>"
    by (simp add: select_ellm_policy_def layer_choices_def py_range_def ceil_div_def upt_rec Let_def
        policy_point_def round_tokens_def)
  from opt have "feasible [40, 20] 4 16 2 256 (1, 4)"
    by (simp add: sel Let_def)
  with sel show ?thesis by simp
qed

section \<open>The scheduling order: first come first served, and the weighted policy\<close>

datatype Policy = FCFS | DLLM

definition get_priority :: "Policy \<Rightarrow> rat \<Rightarrow> rat \<Rightarrow> SequenceGroup \<Rightarrow> py_error + rat" where
  "get_priority policy now wt_weight seq_group =
     (let waiting_time = now - arrival_time (sg_metrics seq_group) in
      case policy of
        FCFS \<Rightarrow> Inr waiting_time
      | DLLM \<Rightarrow>
          (case get_seqs None seq_group of
             [] \<Rightarrow> Inl IndexError
           | s # _ \<Rightarrow>
               Inr ((wt_weight * waiting_time) * (1 - wt_weight) * of_nat (seq_get_prompt_len s))))"

text \<open>
  \<^verbatim>\<open>sorted(..., reverse=True)\<close> is stable: equal priorities keep their order, as they do when
  the negated priority is sorted upwards. All keys are computed first. The queue holds
  references; \<open>grp\<close> looks them up.
\<close>

definition sort_by_priority ::
  "Policy \<Rightarrow> rat \<Rightarrow> ('r \<Rightarrow> SequenceGroup) \<Rightarrow> 'r list \<Rightarrow> rat \<Rightarrow> py_error + 'r list"
where
  "sort_by_priority policy now grp seq_groups wt_weight =
     (let keys = map (\<lambda>r. get_priority policy now wt_weight (grp r)) seq_groups in
      case find (\<lambda>k. isl k) keys of
        Some (Inl e) \<Rightarrow> Inl e
      | _ \<Rightarrow> Inr (sort_key (\<lambda>r. - projr (get_priority policy now wt_weight (grp r))) seq_groups))"

definition get_policy :: "string \<Rightarrow> py_error + Policy" where
  "get_policy policy_name = dget [(''fcfs'', FCFS), (''dllm'', DLLM)] policy_name"

lemma sort_by_priority_mset:
  "sort_by_priority p now grp q wt = Inr q' \<Longrightarrow> mset q' = mset q"
  by (auto simp: sort_by_priority_def Let_def split: option.splits sum.splits)

lemma find_isl_Inr: "find isl (map (\<lambda>r. Inr (f r)) q) = None"
  by (simp add: find_None_iff)

lemma insort_key_order_cong:
  fixes f :: "'r \<Rightarrow> rat"
  assumes "\<And>y. y \<in> set xs \<Longrightarrow> f x \<le> f y \<longleftrightarrow> g x \<le> (g y :: rat)"
  shows "insort_key f x xs = insort_key g x xs"
  using assms by (induction xs) simp_all

text \<open>Two keys that order the elements alike sort alike.\<close>

lemma sort_key_order_cong:
  fixes f :: "'r \<Rightarrow> rat"
  assumes "\<And>x y. x \<in> set xs \<Longrightarrow> y \<in> set xs \<Longrightarrow> f x \<le> f y \<longleftrightarrow> g x \<le> (g y :: rat)"
  shows "sort_key f xs = sort_key g xs"
  using assms
proof (induction xs)
  case (Cons x xs)
  then have "sort_key f xs = sort_key g xs" by simp
  moreover have "insort_key f x (sort_key g xs) = insort_key g x (sort_key g xs)"
    by (rule insort_key_order_cong) (use Cons.prems in simp)
  ultimately show ?case by simp
qed simp

lemma sort_by_priority_FCFS:
  "sort_by_priority FCFS now grp q wt = Inr (sort_key (\<lambda>r. arrival_time (sg_metrics (grp r))) q)"
proof -
  have "sort_key (\<lambda>r. - (now - arrival_time (sg_metrics (grp r)))) q =
      sort_key (\<lambda>r. arrival_time (sg_metrics (grp r))) q"
    by (rule sort_key_order_cong) simp
  then show ?thesis
    by (simp add: sort_by_priority_def get_priority_def Let_def find_isl_Inr)
qed

text \<open>The score that DLLM orders by, whatever the weight.\<close>

definition wait_times_prompt :: "rat \<Rightarrow> SequenceGroup \<Rightarrow> rat" where
  "wait_times_prompt now g =
     (now - arrival_time (sg_metrics g)) * of_nat (seq_get_prompt_len (hd (get_seqs None g)))"

lemma get_priority_DLLM:
  "sg_seqs_dict g \<noteq> [] \<Longrightarrow>
     get_priority DLLM now wt g = Inr ((wt * (1 - wt)) * wait_times_prompt now g)"
  by (cases "sg_seqs_dict g")
    (auto simp: get_priority_def get_seqs_def wait_times_prompt_def Let_def)

lemma sort_by_priority_DLLM:
  assumes "\<forall>r \<in> set q. sg_seqs_dict (grp r) \<noteq> []"
  shows "sort_by_priority DLLM now grp q wt =
    Inr (sort_key (\<lambda>r. - (wt * (1 - wt) * wait_times_prompt now (grp r))) q)"
proof -
  have keys: "map (\<lambda>r. get_priority DLLM now wt (grp r)) q =
      map (\<lambda>r. Inr (wt * (1 - wt) * wait_times_prompt now (grp r))) q"
    using assms by (simp add: get_priority_DLLM)
  have "sort_key (\<lambda>r. - projr (get_priority DLLM now wt (grp r))) q =
      sort_key (\<lambda>r. - (wt * (1 - wt) * wait_times_prompt now (grp r))) q"
    by (rule sort_key_order_cong) (use assms in \<open>simp add: get_priority_DLLM\<close>)
  then show ?thesis
    unfolding sort_by_priority_def Let_def keys find_isl_Inr by simp
qed

text \<open>
  C9: with FCFS the queue is sorted by arrival time, and equal arrivals keep their order; with
  DLLM and a weight strictly between 0 and 1 the order is the same for every weight: it is the
  stable order of decreasing (waiting time times prompt length). With weight 0 or 1 the queue
  is left as it is.
\<close>

theorem queue_order:
  assumes "\<forall>r \<in> set q. sg_seqs_dict (grp r) \<noteq> []"
  shows "sort_by_priority FCFS now grp q wt =
      Inr (sort_key (\<lambda>r. arrival_time (sg_metrics (grp r))) q) \<and>
    (0 < wt \<and> wt < 1 \<longrightarrow> sort_by_priority DLLM now grp q wt =
      Inr (sort_key (\<lambda>r. - wait_times_prompt now (grp r)) q)) \<and>
    (wt = 0 \<or> wt = 1 \<longrightarrow> sort_by_priority DLLM now grp q wt = Inr q)"
proof (intro conjI impI)
  assume wt: "0 < wt \<and> wt < 1"
  then have "0 < wt * (1 - wt)" by simp
  then have "sort_key (\<lambda>r. - (wt * (1 - wt) * wait_times_prompt now (grp r))) q =
      sort_key (\<lambda>r. - wait_times_prompt now (grp r)) q"
    by (intro sort_key_order_cong) (simp only: neg_le_iff_le mult_le_cancel_left_pos)
  then show "sort_by_priority DLLM now grp q wt =
      Inr (sort_key (\<lambda>r. - wait_times_prompt now (grp r)) q)"
    by (simp only: sort_by_priority_DLLM [OF assms])
next
  assume "wt = 0 \<or> wt = 1"
  then have "wt * (1 - wt) = 0" by auto
  then show "sort_by_priority DLLM now grp q wt = Inr q"
    by (simp only: sort_by_priority_DLLM [OF assms] mult_zero_left minus_zero sort_key_const)
qed (rule sort_by_priority_FCFS)

text \<open>The longer prompt came later: FCFS serves it last, DLLM first.\<close>

definition demo_two :: "nat \<Rightarrow> SequenceGroup" where
  "demo_two r = (if r = 0 then demo_group ''a'' 5 [demo_seq 0 3 WAITING]
                 else demo_group ''b'' 4 [demo_seq 1 1 WAITING])"

theorem queue_order_witness:
  "sort_by_priority FCFS 10 demo_two [0, 1] (1 / 2) = Inr [1, 0] \<and>
   sort_by_priority DLLM 10 demo_two [0, 1] (1 / 2) = Inr [0, 1]"
proof -
  have "\<forall>r \<in> set [0, 1]. sg_seqs_dict (demo_two r) \<noteq> []"
    by (simp add: demo_two_def)
  note queue_order [OF this, of 10 "1 / 2"]
  moreover have "wait_times_prompt 10 (demo_two 0) = 15" "wait_times_prompt 10 (demo_two 1) = 6"
    by (simp_all add: wait_times_prompt_def demo_two_def get_seqs_def)
  ultimately show ?thesis by (simp add: demo_two_def [abs_def])
qed

end
