(* ===== verification/Scheduler_State.thy ===== *)
theory Scheduler_State
  imports Block_Interface Ellm_Policy "HOL-Library.List_Lexorder"
begin

text \<open>
  The state of \<^verbatim>\<open>vllm/core/scheduler.py\<close>: the configuration (\<^verbatim>\<open>vllm/config.py\<close>), the budget of one
  scheduling step, the outputs, and the scheduler object itself. A sequence group is an object
  that queues, outputs and the engine share; the scheduler's state holds a heap of groups and
  the queues hold references into it. \<open>'b\<close> is the state of the block manager behind the
  interface. The clock and the random numbers are streams that the code reads in order.
\<close>

section \<open>Configuration\<close>

record SchedulerConfig =
  cfg_max_num_batched_tokens :: int
  cfg_max_num_seqs :: int
  cfg_max_model_len :: int
  cfg_use_v2_block_manager :: bool
  cfg_num_lookahead_slots :: int
  cfg_delay_factor :: rat
  cfg_chunked_prefill_enabled :: bool
  cfg_embedding_mode :: bool
  cfg_preemption_mode :: "string option"
  cfg_scheduling_policy :: string
  cfg_wt_weight :: rat

definition EMBEDDING_MODEL_MAX_NUM_BATCHED_TOKENS :: int where
  "EMBEDDING_MODEL_MAX_NUM_BATCHED_TOKENS = 32768"

definition SchedulerConfig_verify_args :: "SchedulerConfig \<Rightarrow> py_error + unit" where
  "SchedulerConfig_verify_args c =
     (if cfg_max_num_batched_tokens c < cfg_max_model_len c \<and> \<not> cfg_chunked_prefill_enabled c then
        Inl (ValueError ''max_num_batched_tokens is smaller than max_model_len'')
      else if cfg_max_num_batched_tokens c < cfg_max_num_seqs c then
        Inl (ValueError ''max_num_batched_tokens must be at least max_num_seqs'')
      else if cfg_num_lookahead_slots c < 0 then
        Inl (ValueError ''num_lookahead_slots must be at least 0'')
      else Inr ())"

definition SchedulerConfig_init ::
  "int option \<Rightarrow> int \<Rightarrow> int \<Rightarrow> bool \<Rightarrow> int \<Rightarrow> rat \<Rightarrow> bool \<Rightarrow> bool \<Rightarrow> string option \<Rightarrow> string \<Rightarrow> rat \<Rightarrow>
   py_error + SchedulerConfig"
where
  "SchedulerConfig_init max_tokens max_seqs model_len v2 lookahead delay chunked embedding preemption
     policy wt =
     (let c = \<lparr>cfg_max_num_batched_tokens =
                 (case max_tokens of
                    Some n \<Rightarrow> n
                  | None \<Rightarrow>
                      if chunked then 512
                      else if embedding then max model_len EMBEDDING_MODEL_MAX_NUM_BATCHED_TOKENS
                      else max model_len 2048),
               cfg_max_num_seqs = max_seqs, cfg_max_model_len = model_len,
               cfg_use_v2_block_manager = v2, cfg_num_lookahead_slots = lookahead,
               cfg_delay_factor = delay, cfg_chunked_prefill_enabled = chunked,
               cfg_embedding_mode = embedding, cfg_preemption_mode = preemption,
               cfg_scheduling_policy = policy, cfg_wt_weight = wt\<rparr> in
      case SchedulerConfig_verify_args c of Inl e \<Rightarrow> Inl e | Inr _ \<Rightarrow> Inr c)"

text \<open>The fields of the cache configuration that the scheduler reads, after profiling.\<close>

record CacheConfig =
  cc_block_size :: int
  cc_num_gpu_blocks :: int
  cc_num_cpu_blocks :: int
  cc_sliding_window :: "int option"
  cc_enable_prefix_caching :: bool
  cc_num_layers :: int
  cc_store_cache_layers :: rat
  cc_flatten_layers :: int

section \<open>The budget of a step\<close>

record SchedulingBudget =
  sb_token_budget :: int
  sb_max_num_seqs :: int
  sb_request_ids_num_batched_tokens :: "string set"
  sb_request_ids_num_curr_seqs :: "string set"
  sb_num_batched_tokens :: int
  sb_num_curr_seqs :: int

definition SchedulingBudget_new :: "int \<Rightarrow> int \<Rightarrow> SchedulingBudget" where
  "SchedulingBudget_new token_budget max_seqs =
     \<lparr>sb_token_budget = token_budget, sb_max_num_seqs = max_seqs,
      sb_request_ids_num_batched_tokens = {}, sb_request_ids_num_curr_seqs = {},
      sb_num_batched_tokens = 0, sb_num_curr_seqs = 0\<rparr>"

definition can_schedule :: "int \<Rightarrow> int \<Rightarrow> SchedulingBudget \<Rightarrow> py_error + bool" where
  "can_schedule num_new_tokens num_new_seqs b =
     (if num_new_tokens = 0 then Inl AssertionError
      else if num_new_seqs = 0 then Inl AssertionError
      else Inr (sb_num_batched_tokens b + num_new_tokens \<le> sb_token_budget b \<and>
                sb_num_curr_seqs b + num_new_seqs \<le> sb_max_num_seqs b))"

definition remaining_token_budget :: "SchedulingBudget \<Rightarrow> int" where
  "remaining_token_budget b = sb_token_budget b - sb_num_batched_tokens b"

definition add_num_batched_tokens :: "string \<Rightarrow> int \<Rightarrow> SchedulingBudget \<Rightarrow> SchedulingBudget" where
  "add_num_batched_tokens req_id n b =
     (if req_id \<in> sb_request_ids_num_batched_tokens b then b
      else b\<lparr>sb_request_ids_num_batched_tokens := insert req_id (sb_request_ids_num_batched_tokens b),
             sb_num_batched_tokens := sb_num_batched_tokens b + n\<rparr>)"

definition subtract_num_batched_tokens :: "string \<Rightarrow> int \<Rightarrow> SchedulingBudget \<Rightarrow> SchedulingBudget" where
  "subtract_num_batched_tokens req_id n b =
     (if req_id \<in> sb_request_ids_num_batched_tokens b then
        b\<lparr>sb_request_ids_num_batched_tokens := sb_request_ids_num_batched_tokens b - {req_id},
          sb_num_batched_tokens := sb_num_batched_tokens b - n\<rparr>
      else b)"

definition add_num_seqs :: "string \<Rightarrow> int \<Rightarrow> SchedulingBudget \<Rightarrow> SchedulingBudget" where
  "add_num_seqs req_id n b =
     (if req_id \<in> sb_request_ids_num_curr_seqs b then b
      else b\<lparr>sb_request_ids_num_curr_seqs := insert req_id (sb_request_ids_num_curr_seqs b),
             sb_num_curr_seqs := sb_num_curr_seqs b + n\<rparr>)"

definition subtract_num_seqs :: "string \<Rightarrow> int \<Rightarrow> SchedulingBudget \<Rightarrow> SchedulingBudget" where
  "subtract_num_seqs req_id n b =
     (if req_id \<in> sb_request_ids_num_curr_seqs b then
        b\<lparr>sb_request_ids_num_curr_seqs := sb_request_ids_num_curr_seqs b - {req_id},
          sb_num_curr_seqs := sb_num_curr_seqs b - n\<rparr>
      else b)"

section \<open>The scheduler object\<close>

type_synonym group_ref = nat

datatype PreemptionMode = SWAP | RECOMPUTE

record 'b scheduler =
  sc_config :: SchedulerConfig
  sc_cache_config :: CacheConfig
  sc_max_loras :: "int option"
  sc_block_manager :: 'b
  sc_waiting :: "group_ref list"
  sc_running :: "group_ref list"
  sc_swapped :: "group_ref list"
  sc_groups :: "group_ref \<Rightarrow> SequenceGroup"
  sc_prev_time :: rat
  sc_prev_prompt :: bool
  sc_last_prompt_latency :: rat
  sc_enable_artificial_preemption :: bool
  sc_artificial_preempt_cnt :: nat
  sc_num_cumulative_preemption :: nat
  sc_batch_sizes_arr :: "int list"
  sc_cache_layers_arr :: "int list"
  sc_cache_layers :: "int option"
  sc_request_lengths :: "nat list"
  sc_time :: "nat \<Rightarrow> rat"
  sc_time_reads :: nat
  sc_random :: "nat \<Rightarrow> rat"
  sc_random_reads :: nat

type_synonym ('b, 'a) sched = "('b scheduler, 'a) pym"

definition ARTIFICIAL_PREEMPTION_PROB :: rat where
  "ARTIFICIAL_PREEMPTION_PROB = 1 / 2"

definition ARTIFICIAL_PREEMPTION_MAX_CNT :: nat where
  "ARTIFICIAL_PREEMPTION_MAX_CNT = 500"

text \<open>The choice of the block manager in the constructor.\<close>

definition scheduler_version :: "SchedulerConfig \<Rightarrow> CacheConfig \<Rightarrow> string" where
  "scheduler_version c cc =
     (if \<not> cfg_embedding_mode c \<and> cc_store_cache_layers cc < 1 then ''ellm''
      else if cfg_embedding_mode c then ''embedding''
      else if cfg_use_v2_block_manager c then ''v2''
      else ''v1'')"

definition Scheduler_init ::
  "SchedulerConfig \<Rightarrow> CacheConfig \<Rightarrow> int option \<Rightarrow> 'b \<Rightarrow> bool \<Rightarrow> (group_ref \<Rightarrow> SequenceGroup) \<Rightarrow>
   (nat \<Rightarrow> rat) \<Rightarrow> (nat \<Rightarrow> rat) \<Rightarrow> 'b scheduler"
where
  "Scheduler_init config cache_config max_loras manager artificial heap time random =
     \<lparr>sc_config = config, sc_cache_config = cache_config, sc_max_loras = max_loras,
      sc_block_manager = manager, sc_waiting = [], sc_running = [], sc_swapped = [],
      sc_groups = heap, sc_prev_time = 0, sc_prev_prompt = False, sc_last_prompt_latency = 0,
      sc_enable_artificial_preemption = artificial,
      sc_artificial_preempt_cnt = (if artificial then ARTIFICIAL_PREEMPTION_MAX_CNT else 0),
      sc_num_cumulative_preemption = 0, sc_batch_sizes_arr = [], sc_cache_layers_arr = [],
      sc_cache_layers = None, sc_request_lengths = [],
      sc_time = time, sc_time_reads = 0, sc_random = random, sc_random_reads = 0\<rparr>"

text \<open>A call of the block manager, a statement on a group, the clock, the random numbers.\<close>

definition on_bm :: "('b, 'a) pym \<Rightarrow> ('b, 'a) sched" where
  "on_bm m = (\<lambda>s. case m (sc_block_manager s) of (r, b) \<Rightarrow> (r, s\<lparr>sc_block_manager := b\<rparr>))"

definition on_group :: "group_ref \<Rightarrow> (SequenceGroup, 'a) pym \<Rightarrow> ('b, 'a) sched" where
  "on_group r m = (\<lambda>s. case m (sc_groups s r) of
     (x, g) \<Rightarrow> (x, s\<lparr>sc_groups := (sc_groups s)(r := g)\<rparr>))"

definition group :: "group_ref \<Rightarrow> ('b, SequenceGroup) sched" where
  "group r = gets (\<lambda>s. sc_groups s r)"

definition read_time :: "('b, rat) sched" where
  "read_time = (\<lambda>s. (Inr (sc_time s (sc_time_reads s)), s\<lparr>sc_time_reads := Suc (sc_time_reads s)\<rparr>))"

definition read_random :: "('b, rat) sched" where
  "read_random = (\<lambda>s.
     (Inr (sc_random s (sc_random_reads s)), s\<lparr>sc_random_reads := Suc (sc_random_reads s)\<rparr>))"

text \<open>\<^verbatim>\<open>for seq in seqs: seq.status = st\<close>, for the sequences of a group that satisfy \<open>P\<close>\<close>

definition set_status_where :: "(Sequence \<Rightarrow> bool) \<Rightarrow> SequenceStatus \<Rightarrow> SequenceGroup \<Rightarrow> SequenceGroup" where
  "set_status_where P st g = g\<lparr>sg_seqs_dict :=
     map (\<lambda>(k, s). (k, if P s then s\<lparr>seq_status := st\<rparr> else s)) (sg_seqs_dict g)\<rparr>"

text \<open>\<^verbatim>\<open>deque.extendleft(xs)\<close> puts the elements in front one by one, the last one first.\<close>

definition extendleft :: "'a list \<Rightarrow> 'a list \<Rightarrow> 'a list" where
  "extendleft q xs = rev xs @ q"

definition lora_enabled :: "'b scheduler \<Rightarrow> bool" where
  "lora_enabled s \<longleftrightarrow> sc_max_loras s \<noteq> None"

definition num_decoding_tokens_per_seq :: nat where
  "num_decoding_tokens_per_seq = 1"

definition add_seq_group :: "group_ref \<Rightarrow> ('b, unit) sched" where
  "add_seq_group r = modify (\<lambda>s. s\<lparr>sc_waiting := sc_waiting s @ [r]\<rparr>)"

definition has_unfinished_seqs :: "'b scheduler \<Rightarrow> bool" where
  "has_unfinished_seqs s \<longleftrightarrow> sc_waiting s \<noteq> [] \<or> sc_running s \<noteq> [] \<or> sc_swapped s \<noteq> []"

definition get_num_unfinished_seq_groups :: "'b scheduler \<Rightarrow> nat" where
  "get_num_unfinished_seq_groups s =
     length (sc_waiting s) + length (sc_running s) + length (sc_swapped s)"

section \<open>Outputs\<close>

record ScheduledSequenceGroup =
  ssg_seq_group :: group_ref
  ssg_token_chunk_size :: int

record SchedulerRunningOutputs =
  ro_decode_seq_groups :: "ScheduledSequenceGroup list"
  ro_prefill_seq_groups :: "ScheduledSequenceGroup list"
  ro_preempted :: "group_ref list"
  ro_swapped_out :: "group_ref list"
  ro_blocks_to_swap_out :: "block_mapping list"
  ro_blocks_to_copy :: "block_mapping list"
  ro_total_block_ids :: "nat list"
  ro_num_lookahead_slots :: int

definition SchedulerRunningOutputs_empty :: SchedulerRunningOutputs where
  "SchedulerRunningOutputs_empty =
     \<lparr>ro_decode_seq_groups = [], ro_prefill_seq_groups = [], ro_preempted = [], ro_swapped_out = [],
      ro_blocks_to_swap_out = [], ro_blocks_to_copy = [], ro_total_block_ids = [],
      ro_num_lookahead_slots = 0\<rparr>"

record SchedulerSwappedInOutputs =
  io_decode_seq_groups :: "ScheduledSequenceGroup list"
  io_prefill_seq_groups :: "ScheduledSequenceGroup list"
  io_blocks_to_swap_in :: "block_mapping list"
  io_blocks_to_copy :: "block_mapping list"
  io_total_block_ids :: "nat list"
  io_num_lookahead_slots :: int
  io_infeasible_seq_groups :: "group_ref list"

definition SchedulerSwappedInOutputs_empty :: SchedulerSwappedInOutputs where
  "SchedulerSwappedInOutputs_empty =
     \<lparr>io_decode_seq_groups = [], io_prefill_seq_groups = [], io_blocks_to_swap_in = [],
      io_blocks_to_copy = [], io_total_block_ids = [], io_num_lookahead_slots = 0,
      io_infeasible_seq_groups = []\<rparr>"

record SchedulerPrefillOutputs =
  po_seq_groups :: "ScheduledSequenceGroup list"
  po_total_block_ids :: "nat list"
  po_ignored_seq_groups :: "group_ref list"
  po_num_lookahead_slots :: int

definition SchedulerPrefillOutputs_empty :: SchedulerPrefillOutputs where
  "SchedulerPrefillOutputs_empty =
     \<lparr>po_seq_groups = [], po_total_block_ids = [], po_ignored_seq_groups = [],
      po_num_lookahead_slots = 0\<rparr>"

record SchedulerOutputs =
  out_scheduled_seq_groups :: "ScheduledSequenceGroup list"
  out_num_prefill_groups :: nat
  out_num_batched_tokens :: int
  out_blocks_to_swap_in :: "block_mapping list"
  out_blocks_to_swap_out :: "block_mapping list"
  out_blocks_to_copy :: "block_mapping list"
  out_total_block_ids :: "nat list"
  out_ignored_seq_groups :: "group_ref list"
  out_num_lookahead_slots :: int
  out_running_queue_size :: nat
  out_preempted :: nat
  out_num_loras :: nat

definition out_is_empty :: "SchedulerOutputs \<Rightarrow> bool" where
  "out_is_empty o' \<longleftrightarrow> out_scheduled_seq_groups o' = [] \<and> out_blocks_to_swap_in o' = [] \<and>
     out_blocks_to_swap_out o' = [] \<and> out_blocks_to_copy o' = []"

text \<open>
  The set of LoRA requests: two requests with one id are equal. The group's order key compares
  ids first and then the characters of the request id.
\<close>

definition lora_requests :: "(group_ref \<Rightarrow> SequenceGroup) \<Rightarrow> ScheduledSequenceGroup list \<Rightarrow> int list" where
  "lora_requests grp gs = remdups
     (concat (map (\<lambda>g. case sg_lora_request (grp (ssg_seq_group g)) of
        None \<Rightarrow> [] | Some r \<Rightarrow> [lora_int_id r]) gs))"

definition sort_by_lora_ids ::
  "(group_ref \<Rightarrow> SequenceGroup) \<Rightarrow> ScheduledSequenceGroup list \<Rightarrow> ScheduledSequenceGroup list"
where
  "sort_by_lora_ids grp gs = sort_key (\<lambda>g.
     (sg_lora_int_id (grp (ssg_seq_group g)),
      map (\<lambda>c. of_char c :: nat) (sg_request_id (grp (ssg_seq_group g))))) gs"

definition SchedulerOutputs_post_init :: "SchedulerOutputs \<Rightarrow> ('b, SchedulerOutputs) sched" where
  "SchedulerOutputs_post_init o' =
     sq (ensure (\<not> (out_blocks_to_swap_in o' \<noteq> [] \<and> out_blocks_to_swap_out o' \<noteq> [])) AssertionError)
    (bnd (gets sc_groups) (\<lambda>grp.
     let n = length (lora_requests grp (out_scheduled_seq_groups o'));
         o1 = o'\<lparr>out_num_loras := n\<rparr> in
     ret (if n > 0 then o1\<lparr>out_scheduled_seq_groups :=
                              sort_by_lora_ids grp (out_scheduled_seq_groups o1)\<rparr>
          else o1)))"

end
