(* ===== verification/Scheduler.thy ===== *)
theory Scheduler
  imports Scheduler_State
begin

text \<open>
  \<^verbatim>\<open>vllm/core/scheduler.py\<close>, the scheduling methods. Each is translated statement by statement
  for an arbitrary block manager \<open>bm\<close>. The budget and the set of LoRA ids are objects that the
  code passes down and mutates; here they are among the local variables a loop returns.
\<close>

section \<open>Counting tokens, limits and delays\<close>

definition sched_get_num_lookahead_slots :: "bool \<Rightarrow> 'b scheduler \<Rightarrow> int" where
  "sched_get_num_lookahead_slots is_prefill s =
     (if is_prefill then 0 else cfg_num_lookahead_slots (sc_config s))"

definition sched_get_num_new_tokens ::
  "group_ref \<Rightarrow> SequenceStatus \<Rightarrow> bool \<Rightarrow> SchedulingBudget \<Rightarrow> ('b, int) sched"
where
  "sched_get_num_new_tokens r status enable_chunking budget =
     bnd (group r) (\<lambda>g.
     let seqs = get_seqs (Some status) g;
         num_new_tokens = sum_list (map seq_get_num_new_tokens seqs) in
     sq (ensure (num_new_tokens > 0) AssertionError)
    (ret (if enable_chunking \<and> length seqs = 1 then min num_new_tokens (remaining_token_budget budget)
          else num_new_tokens)))"

text \<open>A \<^verbatim>\<open>long_lora_max_len\<close> of 0 is false for Python, like \<^verbatim>\<open>None\<close>.\<close>

definition get_prompt_limit :: "group_ref \<Rightarrow> ('b, int) sched" where
  "get_prompt_limit r =
     bnd (gets id) (\<lambda>s.
     let cfg = sc_config s;
         prompt_limit = (if cfg_chunked_prefill_enabled cfg then cfg_max_model_len cfg
                         else min (cfg_max_model_len cfg) (cfg_max_num_batched_tokens cfg)) in
     case Option.bind (sg_lora_request (sc_groups s r)) long_lora_max_len of
       Some n \<Rightarrow>
         if n \<noteq> 0 then sq (ensure (prompt_limit \<le> int n) AssertionError) (ret (int n))
         else ret prompt_limit
     | None \<Rightarrow> ret prompt_limit)"

definition passed_delay :: "rat \<Rightarrow> ('b, bool) sched" where
  "passed_delay now =
     sq (modify (\<lambda>s. if sc_prev_prompt s then s\<lparr>sc_last_prompt_latency := now - sc_prev_time s\<rparr> else s))
    (sq (modify (\<lambda>s. s\<lparr>sc_prev_time := now, sc_prev_prompt := False\<rparr>))
    (gets (\<lambda>s.
       if cfg_delay_factor (sc_config s) > 0 \<and> sc_waiting s \<noteq> [] then
         let arrivals = map (\<lambda>r. arrival_time (sg_metrics (sc_groups s r))) (sc_waiting s);
             earliest_arrival_time = foldr min (tl arrivals) (hd arrivals) in
         now - earliest_arrival_time > cfg_delay_factor (sc_config s) * sc_last_prompt_latency s \<or>
         sc_running s = []
       else True)))"

section \<open>Slots, preemption, swapping\<close>

definition sched_can_append_slots ::
  "('b, 'p) block_manager \<Rightarrow> group_ref \<Rightarrow> ('b, bool) sched"
where
  "sched_can_append_slots bm r =
     bnd (gets id) (\<lambda>s.
     bnd (if sc_enable_artificial_preemption s then
            bnd read_random (\<lambda>x. ret (x < ARTIFICIAL_PREEMPTION_PROB \<and> sc_artificial_preempt_cnt s > 0))
          else ret False) (\<lambda>artificial.
     if artificial then
       sq (modify (\<lambda>s. s\<lparr>sc_artificial_preempt_cnt := sc_artificial_preempt_cnt s - 1\<rparr>)) (ret False)
     else
       on_bm (bm_can_append_slots bm (sc_groups s r) (nat (sched_get_num_lookahead_slots False s)))))"

definition sched_append_slots ::
  "('b, 'p) block_manager \<Rightarrow> group_ref \<Rightarrow> block_mapping list \<Rightarrow> ('b, block_mapping list) sched"
where
  "sched_append_slots bm r blocks_to_copy =
     bnd (gets id) (\<lambda>s.
     fold_each (get_seqs (Some RUNNING) (sc_groups s r)) blocks_to_copy (\<lambda>copies sq'.
       bnd (on_bm (bm_append_slots bm sq' (nat (sched_get_num_lookahead_slots False s)))) (\<lambda>cows.
       ret (copies @ cows))))"

definition sched_free_seq :: "('b, 'p) block_manager \<Rightarrow> Sequence \<Rightarrow> ('b, unit) sched" where
  "sched_free_seq bm s = on_bm (bm_free bm s)"

definition sched_fork_seq :: "('b, 'p) block_manager \<Rightarrow> Sequence \<Rightarrow> Sequence \<Rightarrow> ('b, unit) sched" where
  "sched_fork_seq bm parent child = on_bm (bm_fork bm parent child)"

text \<open>\<^verbatim>\<open>seq.status = st\<close> for the sequence with dictionary key \<open>k\<close>\<close>

definition set_seq_status :: "group_ref \<Rightarrow> nat \<Rightarrow> SequenceStatus \<Rightarrow> ('b, unit) sched" where
  "set_seq_status r k st = on_group r (on_seq k (modify (\<lambda>s. s\<lparr>seq_status := st\<rparr>)))"

definition set_status_all :: "group_ref \<Rightarrow> (Sequence \<Rightarrow> bool) \<Rightarrow> SequenceStatus \<Rightarrow> ('b, unit) sched" where
  "set_status_all r P st = on_group r (modify (set_status_where P st))"

definition allocate_and_set_running :: "('b, 'p) block_manager \<Rightarrow> group_ref \<Rightarrow> ('b, unit) sched" where
  "allocate_and_set_running bm r =
     bnd (group r) (\<lambda>g.
     sq (on_bm (bm_allocate bm g))
    (set_status_all r (\<lambda>s. seq_status s = WAITING) RUNNING))"

definition preempt_by_recompute :: "('b, 'p) block_manager \<Rightarrow> group_ref \<Rightarrow> ('b, unit) sched" where
  "preempt_by_recompute bm r =
     bnd (group r) (\<lambda>g.
     let seqs = filter (\<lambda>(k, s). seq_status s = RUNNING) (sg_seqs_dict g) in
     sq (ensure (length seqs = 1) AssertionError)
    (for_each seqs (\<lambda>(k, s).
       sq (set_seq_status r k WAITING)
      (sq (sched_free_seq bm (s\<lparr>seq_status := WAITING\<rparr>))
      (on_group r (on_seq k (modify seq_reset_state_for_recompute)))))))"

definition sched_swap_out ::
  "('b, 'p) block_manager \<Rightarrow> group_ref \<Rightarrow> block_mapping list \<Rightarrow> ('b, block_mapping list) sched"
where
  "sched_swap_out bm r blocks_to_swap_out =
     bnd (group r) (\<lambda>g.
     bnd (on_bm (bm_can_swap_out bm g)) (\<lambda>ok.
     sq (ensure ok (RuntimeError ''Aborted due to the lack of CPU swap space.''))
    (bnd (on_bm (bm_swap_out bm g)) (\<lambda>mapping.
     sq (set_status_all r (\<lambda>s. seq_status s = RUNNING) SWAPPED)
    (ret (blocks_to_swap_out @ mapping))))))"

text \<open>\<^verbatim>\<open>mapping_entry[-1]\<close> of a non-empty tuple is its last component.\<close>

definition sched_swap_in ::
  "('b, 'p) block_manager \<Rightarrow> group_ref \<Rightarrow> block_mapping list \<Rightarrow> nat list \<Rightarrow>
   ('b, block_mapping list \<times> nat list) sched"
where
  "sched_swap_in bm r blocks_to_swap_in total_block_ids =
     bnd (group r) (\<lambda>g.
     bnd (on_bm (bm_swap_in bm g)) (\<lambda>mapping.
     bnd (lift_err (\<lambda>_. if [] \<in> set mapping then Inl IndexError else Inr (map last mapping))) (\<lambda>ids.
     sq (set_status_all r (\<lambda>s. seq_status s = SWAPPED) RUNNING)
    (ret (blocks_to_swap_in @ mapping, total_block_ids @ ids)))))"

definition preempt ::
  "('b, 'p) block_manager \<Rightarrow> group_ref \<Rightarrow> block_mapping list \<Rightarrow> string option \<Rightarrow>
   ('b, PreemptionMode \<times> block_mapping list) sched"
where
  "preempt bm r blocks_to_swap_out preemption_mode =
     bnd (group r) (\<lambda>g.
     bnd (case preemption_mode of
            None \<Rightarrow> ret (if get_max_num_running_seqs g = 1 then RECOMPUTE else SWAP)
          | Some m \<Rightarrow>
              if m = ''recompute'' then ret RECOMPUTE
              else if m = ''swap'' then ret SWAP
              else throw AssertionError) (\<lambda>mode.
     sq (modify (\<lambda>s. s\<lparr>sc_num_cumulative_preemption := sc_num_cumulative_preemption s + 1\<rparr>))
    (case mode of
       RECOMPUTE \<Rightarrow> sq (preempt_by_recompute bm r) (ret (mode, blocks_to_swap_out))
     | SWAP \<Rightarrow> bnd (sched_swap_out bm r blocks_to_swap_out) (\<lambda>out. ret (mode, out)))))"

section \<open>Running groups\<close>

text \<open>The local variables of \<^verbatim>\<open>_schedule_running\<close>; a \<^verbatim>\<open>curr_loras\<close> of \<^verbatim>\<open>None\<close> means no LoRA.\<close>

record running_locals =
  rl_queue :: "group_ref list"
  rl_budget :: SchedulingBudget
  rl_loras :: "int set option"
  rl_swap_out :: "block_mapping list"
  rl_copy :: "block_mapping list"
  rl_decode :: "ScheduledSequenceGroup list"
  rl_prefill :: "ScheduledSequenceGroup list"
  rl_preempted :: "group_ref list"
  rl_swapped_out :: "group_ref list"

text \<open>\<^verbatim>\<open>set.remove\<close> raises on an absent element.\<close>

definition remove_lora :: "int \<Rightarrow> int set option \<Rightarrow> py_error + int set option" where
  "remove_lora i loras = (case loras of
     Some L \<Rightarrow> (if i > 0 then (if i \<in> L then Inr (Some (L - {i})) else Inl KeyError) else Inr loras)
   | None \<Rightarrow> Inr None)"

definition add_lora :: "int \<Rightarrow> int set option \<Rightarrow> int set option" where
  "add_lora i loras = (case loras of
     Some L \<Rightarrow> (if i > 0 then Some (insert i L) else loras) | None \<Rightarrow> None)"

definition record_preempted :: "PreemptionMode \<Rightarrow> group_ref \<Rightarrow> running_locals \<Rightarrow> running_locals" where
  "record_preempted mode r l = (case mode of
     RECOMPUTE \<Rightarrow> l\<lparr>rl_preempted := rl_preempted l @ [r]\<rparr>
   | SWAP \<Rightarrow> l\<lparr>rl_swapped_out := rl_swapped_out l @ [r]\<rparr>)"

text \<open>
  The inner \<^verbatim>\<open>while not self._can_append_slots(...)\<close>: the value \<^const>\<open>True\<close> is the \<^verbatim>\<open>else\<close> branch of
  the loop, \<^const>\<open>False\<close> its \<^verbatim>\<open>break\<close> after the group itself was preempted.
\<close>

function make_room ::
  "('b, 'p) block_manager \<Rightarrow> group_ref \<Rightarrow> int \<Rightarrow> running_locals \<Rightarrow> ('b, bool \<times> running_locals) sched"
where
  "make_room bm r num_running_tokens l =
     bnd (sched_can_append_slots bm r) (\<lambda>ok.
     if ok then ret (True, l)
     else
       bnd (group r) (\<lambda>g.
       bnd (lift_err (\<lambda>_. remove_lora (sg_lora_int_id g) (rl_loras l))) (\<lambda>loras.
       bnd (gets (\<lambda>s. cfg_preemption_mode (sc_config s))) (\<lambda>pm.
       let budget = subtract_num_seqs (sg_request_id g) (get_max_num_running_seqs g)
             (subtract_num_batched_tokens (sg_request_id g) num_running_tokens (rl_budget l)) in
       if rl_queue l \<noteq> [] then
         bnd (preempt bm (last (rl_queue l)) (rl_swap_out l) pm) (\<lambda>(mode, out).
         make_room bm r num_running_tokens (record_preempted mode (last (rl_queue l))
           (l\<lparr>rl_queue := butlast (rl_queue l), rl_budget := budget, rl_loras := loras,
              rl_swap_out := out\<rparr>)))
       else
         bnd (preempt bm r (rl_swap_out l) pm) (\<lambda>(mode, out).
         ret (False, record_preempted mode r
           (l\<lparr>rl_budget := budget, rl_loras := loras, rl_swap_out := out\<rparr>)))))))"
  by pat_completeness auto

lemma rl_queue_record_preempted [simp]: "rl_queue (record_preempted mode r l) = rl_queue l"
  by (cases mode) (simp_all add: record_preempted_def)

termination make_room
  by (relation "measure (\<lambda>(bm, r, n, l). length (rl_queue l))") auto

text \<open>The group's slots exist: append, and put the group among the scheduled ones.\<close>

definition schedule_group_running ::
  "('b, 'p) block_manager \<Rightarrow> bool \<Rightarrow> group_ref \<Rightarrow> int \<Rightarrow> running_locals \<Rightarrow> ('b, running_locals) sched"
where
  "schedule_group_running bm enable_chunking r num_running_tokens l =
     bnd (sched_append_slots bm r (rl_copy l)) (\<lambda>copies.
     bnd (group r) (\<lambda>g.
     bnd (lift_err (\<lambda>_. sg_is_prefill g)) (\<lambda>is_prefill.
     let l1 = l\<lparr>rl_copy := copies\<rparr>;
         l2 = (if is_prefill
               then l1\<lparr>rl_prefill := rl_prefill l1 @
                      [\<lparr>ssg_seq_group = r, ssg_token_chunk_size = num_running_tokens\<rparr>]\<rparr>
               else l1\<lparr>rl_decode := rl_decode l1 @
                      [\<lparr>ssg_seq_group = r, ssg_token_chunk_size = 1\<rparr>]\<rparr>);
         b1 = add_num_batched_tokens (sg_request_id g) num_running_tokens (rl_budget l2);
         b2 = (if enable_chunking then add_num_seqs (sg_request_id g) (get_max_num_running_seqs g) b1
               else b1) in
     ret (l2\<lparr>rl_budget := b2, rl_loras := add_lora (sg_lora_int_id g) (rl_loras l2)\<rparr>))))"

text \<open>Every round takes at least one group from the queue; the fuel is the queue's length.\<close>

fun running_loop ::
  "('b, 'p) block_manager \<Rightarrow> bool \<Rightarrow> nat \<Rightarrow> running_locals \<Rightarrow> ('b, running_locals) sched"
where
  "running_loop bm enable_chunking fuel l =
     (case rl_queue l of
        [] \<Rightarrow> ret l
      | r # queue \<Rightarrow>
          (case fuel of
             0 \<Rightarrow> throw NonTermination
           | Suc fuel' \<Rightarrow>
               bnd (sched_get_num_new_tokens r RUNNING enable_chunking (rl_budget l)) (\<lambda>num_running_tokens.
               if num_running_tokens = 0 then ret l
               else
                 bnd (make_room bm r num_running_tokens (l\<lparr>rl_queue := queue\<rparr>)) (\<lambda>(room, l1).
                 if room then
                   bnd (schedule_group_running bm enable_chunking r num_running_tokens l1) (\<lambda>l2.
                   running_loop bm enable_chunking fuel' l2)
                 else running_loop bm enable_chunking fuel' l1))))"

definition used_block_ids ::
  "('b, 'p) block_manager \<Rightarrow> ScheduledSequenceGroup list \<Rightarrow> nat list \<Rightarrow> ('b, nat list) sched"
where
  "used_block_ids bm gs ids = fold_each gs ids (\<lambda>ids g.
     bnd (group (ssg_seq_group g)) (\<lambda>grp.
     bnd (on_bm (bm_get_seq_used_block_id bm grp)) (\<lambda>more. ret (ids @ more))))"

definition sort_queue :: "Policy \<Rightarrow> rat \<Rightarrow> group_ref list \<Rightarrow> rat \<Rightarrow> ('b, group_ref list) sched" where
  "sort_queue policy now queue wt = lift_err (\<lambda>s. sort_by_priority policy now (sc_groups s) queue wt)"

text \<open>
  The results of the three methods: the remaining queue, the outputs, and the budget and LoRA
  set as they leave them.
\<close>

definition schedule_running ::
  "('b, 'p) block_manager \<Rightarrow> group_ref list \<Rightarrow> SchedulingBudget \<Rightarrow> int set option \<Rightarrow> Policy \<Rightarrow> bool \<Rightarrow>
   ('b, group_ref list \<times> SchedulerRunningOutputs \<times> SchedulingBudget \<times> int set option) sched"
where
  "schedule_running bm running_queue budget curr_loras policy enable_chunking =
     bnd read_time (\<lambda>now.
     bnd (sort_queue policy now running_queue (1 / 2)) (\<lambda>queue.
     bnd (running_loop bm enable_chunking (length queue)
            \<lparr>rl_queue = queue, rl_budget = budget, rl_loras = curr_loras, rl_swap_out = [],
             rl_copy = [], rl_decode = [], rl_prefill = [], rl_preempted = [],
             rl_swapped_out = []\<rparr>) (\<lambda>l.
     bnd (used_block_ids bm (rl_decode l) []) (\<lambda>ids1.
     bnd (used_block_ids bm (rl_prefill l) ids1) (\<lambda>ids2.
     bnd (gets (sched_get_num_lookahead_slots False)) (\<lambda>k.
     ret (rl_queue l,
          \<lparr>ro_decode_seq_groups = rl_decode l, ro_prefill_seq_groups = rl_prefill l,
           ro_preempted = rl_preempted l, ro_swapped_out = rl_swapped_out l,
           ro_blocks_to_swap_out = rl_swap_out l, ro_blocks_to_copy = rl_copy l,
           ro_total_block_ids = ids2, ro_num_lookahead_slots = k\<rparr>,
          rl_budget l, rl_loras l)))))))"

section \<open>Swapped groups\<close>

record swapped_locals =
  wl_budget :: SchedulingBudget
  wl_loras :: "int set option"
  wl_leftover :: "group_ref list"
  wl_swap_in :: "block_mapping list"
  wl_copy :: "block_mapping list"
  wl_ids :: "nat list"
  wl_decode :: "ScheduledSequenceGroup list"
  wl_prefill :: "ScheduledSequenceGroup list"
  wl_infeasible :: "group_ref list"

text \<open>
  The test that puts a group aside because its LoRA does not fit the batch. \<^verbatim>\<open>curr_loras\<close> must
  be a set when LoRA is enabled.
\<close>

definition no_lora_space :: "group_ref \<Rightarrow> int set option \<Rightarrow> ('b, int \<times> bool) sched" where
  "no_lora_space r curr_loras =
     bnd (gets id) (\<lambda>s.
     case sc_max_loras s of
       None \<Rightarrow> ret (0, False)
     | Some max_loras \<Rightarrow>
         (case curr_loras of
            None \<Rightarrow> throw AssertionError
          | Some L \<Rightarrow>
              let i = sg_lora_int_id (sc_groups s r) in
              ret (i, i > 0 \<and> i \<notin> L \<and> int (card L) \<ge> max_loras)))"

text \<open>A group that is going to be swapped in.\<close>

definition schedule_group_swapped ::
  "('b, 'p) block_manager \<Rightarrow> group_ref \<Rightarrow> int \<Rightarrow> int \<Rightarrow> int \<Rightarrow> swapped_locals \<Rightarrow> ('b, swapped_locals) sched"
where
  "schedule_group_swapped bm r lora num_new_tokens num_new_seqs l =
     bnd (sched_swap_in bm r (wl_swap_in l) (wl_ids l)) (\<lambda>(swap_in, ids).
     bnd (sched_append_slots bm r (wl_copy l)) (\<lambda>copies.
     bnd (group r) (\<lambda>g.
     bnd (lift_err (\<lambda>_. sg_is_prefill g)) (\<lambda>is_prefill.
     let l1 = l\<lparr>wl_loras := add_lora lora (wl_loras l), wl_swap_in := swap_in, wl_ids := ids,
                wl_copy := copies\<rparr>;
         l2 = (if is_prefill
               then l1\<lparr>wl_prefill := wl_prefill l1 @
                      [\<lparr>ssg_seq_group = r, ssg_token_chunk_size = num_new_tokens\<rparr>]\<rparr>
               else l1\<lparr>wl_decode := wl_decode l1 @
                      [\<lparr>ssg_seq_group = r, ssg_token_chunk_size = 1\<rparr>]\<rparr>) in
     ret (l2\<lparr>wl_budget := add_num_seqs (sg_request_id g) num_new_seqs
            (add_num_batched_tokens (sg_request_id g) num_new_tokens (wl_budget l2))\<rparr>)))))"

fun swapped_loop ::
  "('b, 'p) block_manager \<Rightarrow> bool \<Rightarrow> group_ref list \<Rightarrow> swapped_locals \<Rightarrow>
   ('b, group_ref list \<times> swapped_locals) sched"
where
  "swapped_loop bm enable_chunking [] l = ret ([], l)"
| "swapped_loop bm enable_chunking (r # queue) l =
     bnd (group r) (\<lambda>g.
     bnd (on_bm (bm_can_swap_in bm g)) (\<lambda>alloc_status.
     case alloc_status of
       LATER \<Rightarrow> ret (r # queue, l)
     | NEVER \<Rightarrow>
         sq (set_status_all r (\<lambda>_. True) FINISHED_IGNORED)
        (swapped_loop bm enable_chunking queue (l\<lparr>wl_infeasible := wl_infeasible l @ [r]\<rparr>))
     | OK \<Rightarrow>
         bnd (no_lora_space r (wl_loras l)) (\<lambda>(lora, full).
         if full then
           swapped_loop bm enable_chunking queue (l\<lparr>wl_leftover := r # wl_leftover l\<rparr>)
         else
           let num_new_seqs = get_max_num_running_seqs g in
           bnd (sched_get_num_new_tokens r SWAPPED enable_chunking (wl_budget l)) (\<lambda>num_new_tokens.
           bnd (if num_new_tokens = 0 then ret False
                else lift_err (\<lambda>_. can_schedule num_new_tokens num_new_seqs (wl_budget l))) (\<lambda>fits.
           if \<not> fits then ret (r # queue, l)
           else
             bnd (schedule_group_swapped bm r lora num_new_tokens num_new_seqs l)
               (swapped_loop bm enable_chunking queue))))))"

definition schedule_swapped ::
  "('b, 'p) block_manager \<Rightarrow> group_ref list \<Rightarrow> SchedulingBudget \<Rightarrow> int set option \<Rightarrow> Policy \<Rightarrow> bool \<Rightarrow>
   ('b, group_ref list \<times> SchedulerSwappedInOutputs \<times> SchedulingBudget \<times> int set option) sched"
where
  "schedule_swapped bm swapped_queue budget curr_loras policy enable_chunking =
     bnd read_time (\<lambda>now.
     bnd (sort_queue policy now swapped_queue (1 / 2)) (\<lambda>queue.
     bnd (swapped_loop bm enable_chunking queue
            \<lparr>wl_budget = budget, wl_loras = curr_loras, wl_leftover = [], wl_swap_in = [],
             wl_copy = [], wl_ids = [], wl_decode = [], wl_prefill = [], wl_infeasible = []\<rparr>)
       (\<lambda>(rest, l).
     bnd (gets (sched_get_num_lookahead_slots False)) (\<lambda>k.
     ret (extendleft rest (wl_leftover l),
          \<lparr>io_decode_seq_groups = wl_decode l, io_prefill_seq_groups = wl_prefill l,
           io_blocks_to_swap_in = wl_swap_in l, io_blocks_to_copy = wl_copy l,
           io_total_block_ids = wl_ids l, io_num_lookahead_slots = k,
           io_infeasible_seq_groups = wl_infeasible l\<rparr>,
          wl_budget l, wl_loras l)))))"

section \<open>Prefills\<close>

record prefill_locals =
  pl_budget :: SchedulingBudget
  pl_loras :: "int set option"
  pl_leftover :: "group_ref list"
  pl_seq_groups :: "ScheduledSequenceGroup list"
  pl_ignored :: "group_ref list"

definition schedule_group_prefill ::
  "('b, 'p) block_manager \<Rightarrow> group_ref \<Rightarrow> int \<Rightarrow> int \<Rightarrow> int \<Rightarrow> prefill_locals \<Rightarrow> ('b, prefill_locals) sched"
where
  "schedule_group_prefill bm r lora num_new_tokens num_new_seqs l =
     sq (allocate_and_set_running bm r)
    (bnd (group r) (\<lambda>g.
     ret (l\<lparr>pl_loras := add_lora lora (pl_loras l),
            pl_seq_groups := pl_seq_groups l @
              [\<lparr>ssg_seq_group = r, ssg_token_chunk_size = num_new_tokens\<rparr>],
            pl_budget := add_num_seqs (sg_request_id g) num_new_seqs
              (add_num_batched_tokens (sg_request_id g) num_new_tokens (pl_budget l))\<rparr>)))"

text \<open>Mark the waiting sequences of a group as ignored and drop the group from the queue.\<close>

definition ignore_group :: "group_ref \<Rightarrow> prefill_locals \<Rightarrow> ('b, prefill_locals) sched" where
  "ignore_group r l =
     sq (set_status_all r (\<lambda>s. seq_status s = WAITING) FINISHED_IGNORED)
    (ret (l\<lparr>pl_ignored := pl_ignored l @ [r]\<rparr>))"

text \<open>The tests at the head of the loop: the new tokens and the prompt limit.\<close>

definition prefill_size :: "bool \<Rightarrow> group_ref \<Rightarrow> prefill_locals \<Rightarrow> ('b, int \<times> int) sched" where
  "prefill_size enable_chunking r l =
     bnd (group r) (\<lambda>g.
     let waiting_seqs = get_seqs (Some WAITING) g in
     sq (ensure (length waiting_seqs = 1) AssertionError)
    (bnd (sched_get_num_new_tokens r WAITING enable_chunking (pl_budget l)) (\<lambda>num_new_tokens.
     sq (ensure (enable_chunking \<or> num_new_tokens = int (seq_get_len (hd waiting_seqs))) AssertionError)
    (bnd (get_prompt_limit r) (\<lambda>prompt_limit.
     ret (num_new_tokens, prompt_limit))))))"

fun prefill_loop ::
  "('b, 'p) block_manager \<Rightarrow> bool \<Rightarrow> group_ref list \<Rightarrow> prefill_locals \<Rightarrow>
   ('b, group_ref list \<times> prefill_locals) sched"
where
  "prefill_loop bm enable_chunking [] l =
     bnd read_time (\<lambda>now. bnd (passed_delay now) (\<lambda>_. ret ([], l)))"
| "prefill_loop bm enable_chunking (r # queue) l =
     bnd read_time (\<lambda>now.
     bnd (passed_delay now) (\<lambda>passed.
     if \<not> passed then ret (r # queue, l)
     else
       bnd (prefill_size enable_chunking r l) (\<lambda>(num_new_tokens, prompt_limit).
       if num_new_tokens > prompt_limit then
         bnd (ignore_group r l) (prefill_loop bm enable_chunking queue)
       else
         bnd (group r) (\<lambda>g.
         bnd (on_bm (bm_can_allocate bm g)) (\<lambda>can_allocate.
         case can_allocate of
           LATER \<Rightarrow> ret (r # queue, l)
         | NEVER \<Rightarrow> bnd (ignore_group r l) (prefill_loop bm enable_chunking queue)
         | OK \<Rightarrow>
             bnd (no_lora_space r (pl_loras l)) (\<lambda>(lora, full).
             if full then
               prefill_loop bm enable_chunking queue (l\<lparr>pl_leftover := r # pl_leftover l\<rparr>)
             else
               let num_new_seqs = get_max_num_running_seqs g in
               bnd (if num_new_tokens = 0 then ret False
                    else lift_err (\<lambda>_. can_schedule num_new_tokens num_new_seqs (pl_budget l)))
                 (\<lambda>fits.
               if \<not> fits then ret (r # queue, l)
               else
                 bnd (schedule_group_prefill bm r lora num_new_tokens num_new_seqs l)
                   (prefill_loop bm enable_chunking queue))))))))"

definition schedule_prefills ::
  "('b, 'p) block_manager \<Rightarrow> group_ref list \<Rightarrow> SchedulingBudget \<Rightarrow> int set option \<Rightarrow> bool \<Rightarrow>
   ('b, group_ref list \<times> SchedulerPrefillOutputs \<times> SchedulingBudget \<times> int set option) sched"
where
  "schedule_prefills bm waiting_queue budget curr_loras enable_chunking =
     bnd (prefill_loop bm enable_chunking waiting_queue
            \<lparr>pl_budget = budget, pl_loras = curr_loras, pl_leftover = [], pl_seq_groups = [],
             pl_ignored = []\<rparr>) (\<lambda>(rest, l).
     sq (if pl_seq_groups l \<noteq> [] then modify (\<lambda>s. s\<lparr>sc_prev_prompt := True\<rparr>) else ret ())
    (bnd (used_block_ids bm (pl_seq_groups l) []) (\<lambda>ids.
     bnd (gets (sched_get_num_lookahead_slots True)) (\<lambda>k.
     ret (extendleft rest (pl_leftover l),
          \<lparr>po_seq_groups = pl_seq_groups l, po_total_block_ids = ids,
           po_ignored_seq_groups = pl_ignored l, po_num_lookahead_slots = k\<rparr>,
          pl_budget l, pl_loras l)))))"

section \<open>One scheduling step\<close>

text \<open>
  \<^verbatim>\<open>get_opt_bs_and_layers\<close>, and the choice of the batch size and the cached layers at the head of
  \<^verbatim>\<open>_schedule_default\<close>; any exception of the policy falls back to half of the layers.
\<close>

definition get_opt_bs_and_layers :: "'b scheduler \<Rightarrow> py_error + int list \<times> int list" where
  "get_opt_bs_and_layers s =
     (case select_ellm_policy (map int (sc_request_lengths s)) (cfg_max_num_seqs (sc_config s))
             (cc_num_layers (sc_cache_config s)) (cc_num_gpu_blocks (sc_cache_config s))
             (cc_block_size (sc_cache_config s)) 4 of
        Inl e \<Rightarrow> Inl e
      | Inr d \<Rightarrow> Inr ([int (pd_batch_size d)], [int (pd_cached_layers d)]))"

definition int_half :: "int \<Rightarrow> int" where
  "int_half n = int_of_rat (of_int n / 2)"

definition prompt_lengths :: "('b, nat list) sched" where
  "prompt_lengths =
     bnd (gets id) (\<lambda>s.
     collect (sc_running s @ sc_waiting s) (\<lambda>r.
       bnd (lift_err (\<lambda>_. sg_prompt (sc_groups s r))) (\<lambda>p. ret (length p))))"

definition choose_batch :: "('b, unit) sched" where
  "choose_batch =
     bnd prompt_lengths (\<lambda>lens.
     sq (modify (\<lambda>s. s\<lparr>sc_request_lengths := lens\<rparr>))
    (modify (\<lambda>s.
       let cfg = sc_config s; cc = sc_cache_config s;
           fallback = s\<lparr>sc_batch_sizes_arr := [cfg_max_num_seqs cfg],
                         sc_cache_layers_arr := [int_half (cc_num_layers cc)]\<rparr> in
       if cc_store_cache_layers cc \<ge> 1 then
         s\<lparr>sc_batch_sizes_arr := [cfg_max_num_seqs cfg], sc_cache_layers_arr := [cc_num_layers cc]\<rparr>
       else if length (sc_running s) + length (sc_waiting s) \<le> 1 then fallback
       else if sc_batch_sizes_arr s = [] \<or> sc_cache_layers_arr s = [] then
         (case get_opt_bs_and_layers s of
            Inl _ \<Rightarrow> fallback
          | Inr (bss, lss) \<Rightarrow> s\<lparr>sc_batch_sizes_arr := bss, sc_cache_layers_arr := lss\<rparr>)
       else s)))"

text \<open>\<^verbatim>\<open>max_num_seqs = self.batch_sizes_arr.popleft(); self.cache_layers = ...popleft()\<close>\<close>

definition pop_batch :: "('b, int) sched" where
  "pop_batch =
     bnd (gets id) (\<lambda>s.
     case sc_batch_sizes_arr s of
       [] \<Rightarrow> throw IndexError
     | max_seqs # bss \<Rightarrow>
         sq (modify (\<lambda>s. s\<lparr>sc_batch_sizes_arr := bss\<rparr>))
        (case sc_cache_layers_arr s of
           [] \<Rightarrow> throw IndexError
         | layers # lss \<Rightarrow>
             sq (modify (\<lambda>s. s\<lparr>sc_cache_layers_arr := lss, sc_cache_layers := Some layers\<rparr>))
            (ret max_seqs)))"

definition running_budget :: "int \<Rightarrow> 'b scheduler \<Rightarrow> SchedulingBudget" where
  "running_budget max_seqs s =
     foldl (\<lambda>b r. add_num_seqs (sg_request_id (sc_groups s r))
                    (get_max_num_running_seqs (sc_groups s r)) b)
       (SchedulingBudget_new (cfg_max_num_batched_tokens (sc_config s)) max_seqs) (sc_running s)"

definition running_loras :: "'b scheduler \<Rightarrow> int set option" where
  "running_loras s =
     (if lora_enabled s
      then Some (set (filter (\<lambda>i. i > 0) (map (\<lambda>r. sg_lora_int_id (sc_groups s r)) (sc_running s))))
      else None)"

definition ssg_groups :: "ScheduledSequenceGroup list \<Rightarrow> group_ref list" where
  "ssg_groups gs = map ssg_seq_group gs"

definition sort_waiting :: "('b, Policy) sched" where
  "sort_waiting =
     bnd (gets sc_config) (\<lambda>cfg.
     bnd (lift_err (\<lambda>_. get_policy (cfg_scheduling_policy cfg))) (\<lambda>policy.
     bnd read_time (\<lambda>now.
     bnd (gets sc_waiting) (\<lambda>waiting.
     bnd (sort_queue policy now waiting (cfg_wt_weight cfg)) (\<lambda>sorted.
     sq (modify (\<lambda>s. s\<lparr>sc_waiting := sorted\<rparr>)) (ret policy))))))"

definition check_budget :: "SchedulingBudget \<Rightarrow> ('b, unit) sched" where
  "check_budget budget =
     bnd (gets sc_config) (\<lambda>cfg.
     sq (ensure (sb_num_batched_tokens budget \<le> cfg_max_num_batched_tokens cfg) AssertionError)
    (ensure (sb_num_curr_seqs budget \<le> cfg_max_num_seqs cfg) AssertionError))"

text \<open>Prefills are only scheduled when nothing is swapped out.\<close>

definition prefill_phase ::
  "('b, 'p) block_manager \<Rightarrow> SchedulingBudget \<Rightarrow> int set option \<Rightarrow>
   ('b, group_ref list \<times> SchedulerPrefillOutputs \<times> SchedulingBudget \<times> int set option) sched"
where
  "prefill_phase bm budget loras =
     bnd (gets id) (\<lambda>s.
     if sc_swapped s = [] then schedule_prefills bm (sc_waiting s) budget loras False
     else ret (sc_waiting s, SchedulerPrefillOutputs_empty, budget, loras))"

text \<open>Decodes are only scheduled without prefills, and nothing comes back after a preemption.\<close>

definition swap_in_phase ::
  "('b, 'p) block_manager \<Rightarrow> Policy \<Rightarrow> SchedulerRunningOutputs \<Rightarrow> SchedulingBudget \<Rightarrow> int set option \<Rightarrow>
   ('b, group_ref list \<times> SchedulerSwappedInOutputs \<times> SchedulingBudget \<times> int set option) sched"
where
  "swap_in_phase bm policy ro budget loras =
     bnd (gets sc_swapped) (\<lambda>swapped.
     if length (ro_preempted ro) + length (ro_swapped_out ro) = 0
     then schedule_swapped bm swapped budget loras policy False
     else ret (swapped, SchedulerSwappedInOutputs_empty, budget, loras))"

definition decode_phase ::
  "('b, 'p) block_manager \<Rightarrow> Policy \<Rightarrow> SchedulerPrefillOutputs \<Rightarrow> SchedulingBudget \<Rightarrow> int set option \<Rightarrow>
   ('b, group_ref list \<times> SchedulerRunningOutputs \<times> group_ref list \<times> SchedulerSwappedInOutputs \<times>
        SchedulingBudget) sched"
where
  "decode_phase bm policy prefills budget loras =
     (if po_seq_groups prefills = [] then
        bnd (gets sc_running) (\<lambda>running.
        bnd (schedule_running bm running budget loras policy False) (\<lambda>(remaining_running, ro, budget1, loras1).
        bnd (swap_in_phase bm policy ro budget1 loras1) (\<lambda>(remaining_swapped, io, budget2, _).
        ret (remaining_running, ro, remaining_swapped, io, budget2))))
      else
        bnd (gets id) (\<lambda>s. ret (sc_running s, SchedulerRunningOutputs_empty, sc_swapped s,
          SchedulerSwappedInOutputs_empty, budget)))"

text \<open>The outputs of a step; \<open>scheduled\<close> and \<open>n_prefill\<close> depend on the mode.\<close>

definition step_outputs ::
  "ScheduledSequenceGroup list \<Rightarrow> nat \<Rightarrow> group_ref list \<Rightarrow> SchedulingBudget \<Rightarrow> SchedulerPrefillOutputs \<Rightarrow>
   SchedulerRunningOutputs \<Rightarrow> SchedulerSwappedInOutputs \<Rightarrow> nat \<Rightarrow> SchedulerOutputs"
where
  "step_outputs scheduled n_prefill ignored budget prefills ro io queue_size =
     \<lparr>out_scheduled_seq_groups = scheduled,
      out_num_prefill_groups = n_prefill,
      out_num_batched_tokens = sb_num_batched_tokens budget,
      out_blocks_to_swap_in = io_blocks_to_swap_in io,
      out_blocks_to_swap_out = ro_blocks_to_swap_out ro,
      out_blocks_to_copy = ro_blocks_to_copy ro @ io_blocks_to_copy io,
      out_total_block_ids = ro_total_block_ids ro @ io_total_block_ids io @ po_total_block_ids prefills,
      out_ignored_seq_groups = ignored,
      out_num_lookahead_slots = ro_num_lookahead_slots ro,
      out_running_queue_size = queue_size,
      out_preempted = length (ro_preempted ro) + length (ro_swapped_out ro),
      out_num_loras = 0\<rparr>"

text \<open>The end of the two steps: check the budget, rebuild the queues, make the outputs.\<close>

definition default_finish ::
  "group_ref list \<Rightarrow> SchedulerPrefillOutputs \<Rightarrow> group_ref list \<Rightarrow> SchedulerRunningOutputs \<Rightarrow>
   group_ref list \<Rightarrow> SchedulerSwappedInOutputs \<Rightarrow> SchedulingBudget \<Rightarrow> ('b, SchedulerOutputs) sched"
where
  "default_finish remaining_waiting prefills remaining_running ro remaining_swapped io budget =
     sq (check_budget budget)
    (sq (modify (\<lambda>s. s\<lparr>
           sc_waiting := extendleft remaining_waiting (ro_preempted ro),
           sc_running := remaining_running @ ssg_groups (po_seq_groups prefills) @
             ssg_groups (ro_decode_seq_groups ro) @ ssg_groups (io_decode_seq_groups io),
           sc_swapped := remaining_swapped @ ro_swapped_out ro\<rparr>))
    (sq (ensure (ro_prefill_seq_groups ro = []) AssertionError)
    (sq (ensure (io_prefill_seq_groups io = []) AssertionError)
    (bnd (gets (\<lambda>s. length (sc_running s))) (\<lambda>n.
     SchedulerOutputs_post_init
       (step_outputs
          (po_seq_groups prefills @ ro_decode_seq_groups ro @ io_decode_seq_groups io)
          (length (po_seq_groups prefills))
          (po_ignored_seq_groups prefills @ io_infeasible_seq_groups io)
          budget prefills ro io n))))))"

definition schedule_default :: "('b, 'p) block_manager \<Rightarrow> ('b, SchedulerOutputs) sched" where
  "schedule_default bm =
     sq choose_batch
    (bnd pop_batch (\<lambda>max_seqs.
     bnd (gets (running_budget max_seqs)) (\<lambda>budget0.
     bnd (gets running_loras) (\<lambda>loras0.
     bnd (prefill_phase bm budget0 loras0) (\<lambda>(remaining_waiting, prefills, budget1, loras1).
     bnd sort_waiting (\<lambda>policy.
     bnd (decode_phase bm policy prefills budget1 loras1)
       (\<lambda>(remaining_running, ro, remaining_swapped, io, budget).
     default_finish remaining_waiting prefills remaining_running ro remaining_swapped io budget)))))))"

definition chunked_finish ::
  "group_ref list \<Rightarrow> SchedulerPrefillOutputs \<Rightarrow> group_ref list \<Rightarrow> SchedulerRunningOutputs \<Rightarrow>
   group_ref list \<Rightarrow> SchedulerSwappedInOutputs \<Rightarrow> SchedulingBudget \<Rightarrow> ('b, SchedulerOutputs) sched"
where
  "chunked_finish remaining_waiting prefills remaining_running ro remaining_swapped io budget =
     sq (check_budget budget)
    (sq (modify (\<lambda>s. s\<lparr>
           sc_waiting := extendleft remaining_waiting (ro_preempted ro),
           sc_running := remaining_running @ ssg_groups (po_seq_groups prefills) @
             ssg_groups (ro_decode_seq_groups ro) @ ssg_groups (ro_prefill_seq_groups ro) @
             ssg_groups (io_decode_seq_groups io) @ ssg_groups (io_prefill_seq_groups io),
           sc_swapped := remaining_swapped @ ro_swapped_out ro\<rparr>))
    (bnd (gets (\<lambda>s. length (sc_running s))) (\<lambda>n.
     SchedulerOutputs_post_init
       (step_outputs
          (po_seq_groups prefills @ ro_prefill_seq_groups ro @ io_prefill_seq_groups io @
           ro_decode_seq_groups ro @ io_decode_seq_groups io)
          (length (po_seq_groups prefills) + length (io_prefill_seq_groups io) +
           length (ro_prefill_seq_groups ro))
          (po_ignored_seq_groups prefills)
          budget prefills ro io n))))"

definition schedule_chunked_prefill :: "('b, 'p) block_manager \<Rightarrow> ('b, SchedulerOutputs) sched" where
  "schedule_chunked_prefill bm =
     bnd (gets sc_config) (\<lambda>cfg.
     let budget0 = SchedulingBudget_new (cfg_max_num_batched_tokens cfg) (cfg_max_num_seqs cfg) in
     bnd sort_waiting (\<lambda>policy.
     bnd (gets sc_running) (\<lambda>running.
     bnd (schedule_running bm running budget0 (Some {}) policy True) (\<lambda>(remaining_running, ro, budget1, loras1).
     bnd (swap_in_phase bm policy ro budget1 loras1) (\<lambda>(remaining_swapped, io, budget2, loras2).
     bnd (gets sc_waiting) (\<lambda>waiting.
     bnd (schedule_prefills bm waiting budget2 loras2 True) (\<lambda>(remaining_waiting, prefills, budget, _).
     chunked_finish remaining_waiting prefills remaining_running ro remaining_swapped io budget)))))))"

definition schedule_step :: "('b, 'p) block_manager \<Rightarrow> ('b, SchedulerOutputs) sched" where
  "schedule_step bm =
     bnd (gets (\<lambda>s. cfg_chunked_prefill_enabled (sc_config s))) (\<lambda>chunked.
     if chunked then schedule_chunked_prefill bm else schedule_default bm)"

section \<open>The metadata of a step\<close>

text \<open>\<^verbatim>\<open>self.cache_layers\<close> is an attribute that only \<^verbatim>\<open>_schedule_default\<close> sets.\<close>

definition cache_layers_attr :: "('b, int) sched" where
  "cache_layers_attr = lift_err (\<lambda>s. case sc_cache_layers s of None \<Rightarrow> Inl AttributeError | Some n \<Rightarrow> Inr n)"

type_synonym seq_tables =
  "(nat, SequenceData) pydict \<times> (nat, nat list) pydict \<times> (nat, nat list list) pydict"

definition seq_metadata ::
  "('b, 'p) block_manager \<Rightarrow> group_ref \<Rightarrow> rat \<Rightarrow> seq_tables \<Rightarrow> Sequence \<Rightarrow> ('b, seq_tables) sched"
where
  "seq_metadata bm r now = (\<lambda>(seq_data', block_tables, group_tables) s.
     bnd (group r) (\<lambda>g.
     bnd (lift_err (\<lambda>_. sg_is_prefill g)) (\<lambda>is_prefill.
     sq (if is_prefill then ret ()
         else
           (case bm_evict_to_cached_layer_ratio bm of
              None \<Rightarrow> ret ()
            | Some evict_prefix \<Rightarrow>
                bnd cache_layers_attr (\<lambda>layers.
                bnd (on_bm (evict_prefix s layers)) (\<lambda>_. ret ()))))
    (bnd (on_bm (bm_get_block_table bm s)) (\<lambda>table.
     bnd (case bm_get_layer_group_block_tables bm of
            None \<Rightarrow> ret group_tables
          | Some get_layer_tables \<Rightarrow>
              bnd (on_bm (get_layer_tables s)) (\<lambda>ts. ret (dset (seq_id s) ts group_tables)))
       (\<lambda>group_tables'.
     sq (on_bm (bm_access_all_blocks_in_seq bm s now))
    (ret (dset (seq_id s) (seq_data s) seq_data', dset (seq_id s) table block_tables,
          group_tables'))))))))"

definition decide_do_sample :: "group_ref \<Rightarrow> int \<Rightarrow> ('b, bool) sched" where
  "decide_do_sample r chunk =
     bnd (group r) (\<lambda>g.
     bnd (lift_err (\<lambda>_. sg_is_prefill g)) (\<lambda>is_prefill.
     if is_prefill then
       let seqs = get_seqs None g in
       sq (ensure (length seqs = 1) AssertionError)
      (let d = seq_data (hd seqs) in
       ret (\<not> (chunk + sd_num_computed_tokens d < int (sd_get_len d))))
     else ret True))"

definition group_metadata ::
  "('b, 'p) block_manager \<Rightarrow> rat \<Rightarrow> nat \<Rightarrow> ScheduledSequenceGroup \<Rightarrow> ('b, 'p SequenceGroupMetadata) sched"
where
  "group_metadata bm now num_prefill_groups sg =
     (let r = ssg_seq_group sg; chunk = ssg_token_chunk_size sg in
      sq (on_group r (modify (maybe_set_first_scheduled_time now)))
     (bnd (group r) (\<lambda>g.
      bnd (fold_each (get_seqs (Some RUNNING) g) ([], [], []) (seq_metadata bm r now))
        (\<lambda>(seq_data', block_tables, group_tables).
      bnd (on_bm (bm_get_common_computed_block_ids bm (get_seqs (Some RUNNING) g))) (\<lambda>computed.
      bnd (decide_do_sample r chunk) (\<lambda>do_sample.
      bnd (lift_err (\<lambda>_. sg_is_prefill g)) (\<lambda>is_prompt.
      bnd cache_layers_attr (\<lambda>layers.
      bnd (lift_err (\<lambda>_. SequenceGroupMetadata_init (sg_request_id g) is_prompt seq_data'
             (sg_sampling_params g) block_tables do_sample (sg_pooling_params g) (Some chunk)
             (sg_lora_request g) (Some computed) (Some (sg_state g))
             (if num_prefill_groups > 0 then sg_multi_modal_data g else None) layers
             (if group_tables \<noteq> [] then Some group_tables else None))) (\<lambda>metadata.
      sq (on_group r (modify (sg_update_cache_layers layers)))
     (ret (md_update_cache_layers layers metadata)))))))))))"

text \<open>The recompute plans of the decode batch; all its metadata get the same plans.\<close>

definition attach_plans ::
  "('b, 'p) block_manager \<Rightarrow> 'p SequenceGroupMetadata list \<Rightarrow> ('b, 'p SequenceGroupMetadata list) sched"
where
  "attach_plans bm mds =
     (let decode_metadata = filter (\<lambda>m. \<not> md_is_prompt m) mds in
      case (bm_build_partial_recompute_plans bm, bm_get_num_evicted_tokens bm) of
        (Some build_partial_plans, Some get_num_evicted) \<Rightarrow>
          if decode_metadata = [] then ret mds
          else
            let decode_seq_ids = concat (map (\<lambda>m. dkeys (md_seq_data m)) decode_metadata) in
            bnd (collect decode_seq_ids (\<lambda>i. on_bm (get_num_evicted i))) (\<lambda>lens.
            if (\<exists>n \<in> set lens. n \<noteq> 0) then
              bnd (on_bm (build_partial_plans decode_seq_ids)) (\<lambda>plans.
              ret (map (\<lambda>m. if md_is_prompt m then m
                 else m\<lparr>md_ellm_layer_group_plans := Some plans,
                        md_ellm_recompute_seq_lens := Some lens\<rparr>) mds))
            else ret mds)
      | _ \<Rightarrow> ret mds)"

definition schedule ::
  "('b, 'p) block_manager \<Rightarrow> ('b, 'p SequenceGroupMetadata list \<times> SchedulerOutputs) sched"
where
  "schedule bm =
     bnd (schedule_step bm) (\<lambda>outs.
     bnd read_time (\<lambda>now.
     bnd (collect (out_scheduled_seq_groups outs) (group_metadata bm now (out_num_prefill_groups outs)))
       (\<lambda>mds.
     bnd (attach_plans bm mds) (\<lambda>mds'.
     sq (for_each (out_scheduled_seq_groups outs) (\<lambda>sg.
          bnd (group (ssg_seq_group sg)) (\<lambda>g. on_bm (bm_mark_blocks_as_computed bm g))))
    (ret (mds', outs))))))"

section \<open>Leaving the scheduler\<close>

definition free_finished_seq_groups :: "('b, unit) sched" where
  "free_finished_seq_groups = modify (\<lambda>s. s\<lparr>sc_running :=
     filter (\<lambda>r. \<not> sg_is_finished (sc_groups s r)) (sc_running s)\<rparr>)"

text \<open>
  One pass over a queue: the groups to abort, and the ids still to be found. An id is used up
  by the first group that has it.
\<close>

fun pick_aborted ::
  "(group_ref \<Rightarrow> SequenceGroup) \<Rightarrow> group_ref list \<Rightarrow> string set \<Rightarrow> group_ref list \<times> string set"
where
  "pick_aborted grp [] ids = ([], ids)"
| "pick_aborted grp (r # queue) ids =
     (if ids = {} then ([], ids)
      else if sg_request_id (grp r) \<in> ids then
        (case pick_aborted grp queue (ids - {sg_request_id (grp r)}) of (rs, ids') \<Rightarrow> (r # rs, ids'))
      else pick_aborted grp queue ids)"

datatype queue_name = Waiting | Running | Swapped

definition get_queue :: "queue_name \<Rightarrow> 'b scheduler \<Rightarrow> group_ref list" where
  "get_queue q s = (case q of Waiting \<Rightarrow> sc_waiting s | Running \<Rightarrow> sc_running s | Swapped \<Rightarrow> sc_swapped s)"

definition set_queue :: "queue_name \<Rightarrow> group_ref list \<Rightarrow> 'b scheduler \<Rightarrow> 'b scheduler" where
  "set_queue q rs s = (case q of
     Waiting \<Rightarrow> s\<lparr>sc_waiting := rs\<rparr> | Running \<Rightarrow> s\<lparr>sc_running := rs\<rparr> | Swapped \<Rightarrow> s\<lparr>sc_swapped := rs\<rparr>)"

definition abort_one :: "('b, 'p) block_manager \<Rightarrow> queue_name \<Rightarrow> group_ref \<Rightarrow> ('b, unit) sched" where
  "abort_one bm q r =
     sq (modify (\<lambda>s. set_queue q (remove1 r (get_queue q s)) s))
    (bnd (group r) (\<lambda>g.
     for_each (sg_seqs_dict g) (\<lambda>(k, s).
       if seq_is_finished s then ret ()
       else sq (set_seq_status r k FINISHED_ABORTED)
              (sched_free_seq bm (s\<lparr>seq_status := FINISHED_ABORTED\<rparr>)))))"

definition abort_seq_group :: "('b, 'p) block_manager \<Rightarrow> string set \<Rightarrow> ('b, unit) sched" where
  "abort_seq_group bm request_ids =
     bnd (fold_each [Waiting, Running, Swapped] request_ids (\<lambda>ids q.
       bnd (gets (\<lambda>s. pick_aborted (sc_groups s) (get_queue q s) ids)) (\<lambda>(rs, ids').
       sq (for_each rs (abort_one bm q)) (ret ids')))) (\<lambda>_. ret ())"

end
