(* ===== verification/Scheduler_Facts.thy ===== *)
theory Scheduler_Facts
  imports Scheduler "HOL-Library.Sublist"
begin

text \<open>
  What the three scheduling methods do with their queues and the budget, for every block
  manager, whatever it answers or raises: no sequence group is lost or duplicated, the order of
  what remains is kept, the budget is respected, and the loops end.
\<close>

section \<open>The frame: queues, configuration and request ids\<close>

definition sched_frame :: "'b scheduler \<Rightarrow> 'b scheduler \<Rightarrow> bool" where
  "sched_frame s t \<longleftrightarrow> sc_config t = sc_config s \<and> sc_cache_config t = sc_cache_config s \<and>
     sc_max_loras t = sc_max_loras s \<and> sc_waiting t = sc_waiting s \<and> sc_running t = sc_running s \<and>
     sc_swapped t = sc_swapped s \<and> sc_cache_layers t = sc_cache_layers s \<and>
     (\<forall>r. sg_request_id (sc_groups t r) = sg_request_id (sc_groups s r))"

lemma sched_frame_refl [simp]: "sched_frame s s"
  by (simp add: sched_frame_def)

lemma sched_frame_trans: "sched_frame s t \<Longrightarrow> sched_frame t u \<Longrightarrow> sched_frame s u"
  by (simp add: sched_frame_def)

text \<open>A method that keeps the frame on every outcome, and how such methods compose.\<close>

definition frames :: "('b, 'a) sched \<Rightarrow> bool" where
  "frames m \<longleftrightarrow> (\<forall>s. sched_frame s (snd (m s)))"

named_theorems frame_intros \<open>methods that keep the frame\<close>

lemma framesI: "(\<And>s. sched_frame s (snd (m s))) \<Longrightarrow> frames m"
  by (simp add: frames_def)

lemma frames_wp: "frames m \<Longrightarrow> sched_frame s t \<Longrightarrow> wp m (\<lambda>_. sched_frame s) (\<lambda>_. sched_frame s) t"
  by (auto simp: frames_def wp_def split: prod.splits sum.splits)
    (metis sched_frame_trans snd_conv)+

lemma frames_bnd [frame_intros]:
  assumes "frames m" "\<And>x. frames (k x)"
  shows "frames (bnd m k)"
proof (rule framesI)
  fix s
  have m: "sched_frame s (snd (m s))" using assms(1) by (simp add: frames_def)
  have k: "sched_frame t (snd (k x t))" for x t using assms(2) by (simp add: frames_def)
  show "sched_frame s (snd (bnd m k s))"
    using m k by (auto simp: bnd_def split: prod.splits sum.splits intro: sched_frame_trans)
qed

lemma frames_sq [frame_intros]: "frames m \<Longrightarrow> frames k \<Longrightarrow> frames (sq m k)"
  unfolding sq_def by (rule frames_bnd)

lemma frames_basic [frame_intros]:
  "frames (ret x)" "frames (throw e)" "frames (gets f)" "frames (lift_err h)" "frames (ensure b e)"
  "frames (on_bm m)" "frames (group r)" "frames read_time" "frames read_random"
  by (auto simp: frames_def ret_def throw_def gets_def lift_err_def ensure_def on_bm_def group_def
      read_time_def read_random_def sched_frame_def split: prod.splits)

lemma wp_read_time:
  "wp read_time Q E s = Q (sc_time s (sc_time_reads s)) (s\<lparr>sc_time_reads := Suc (sc_time_reads s)\<rparr>)"
  by (simp add: wp_def read_time_def)

lemma frames_modify: "(\<And>s. sched_frame s (f s)) \<Longrightarrow> frames (modify f)"
  by (simp add: frames_def modify_def)

lemma frames_if [frame_intros]: "frames m \<Longrightarrow> frames k \<Longrightarrow> frames (if b then m else k)"
  by simp

lemma frames_Let [frame_intros]: "(\<And>x. frames (f x)) \<Longrightarrow> frames (Let x f)"
  by simp

lemma frames_case_option [frame_intros]:
  "frames m \<Longrightarrow> (\<And>x. frames (k x)) \<Longrightarrow> frames (case z of None \<Rightarrow> m | Some x \<Rightarrow> k x)"
  by (cases z) simp_all

lemma frames_case_prod [frame_intros]:
  "(\<And>x y. frames (k x y)) \<Longrightarrow> frames (case z of (x, y) \<Rightarrow> k x y)"
  by (cases z) simp

lemma frames_case_status [frame_intros]:
  "frames a \<Longrightarrow> frames b \<Longrightarrow> frames c \<Longrightarrow>
     frames (case z of OK \<Rightarrow> a | LATER \<Rightarrow> b | NEVER \<Rightarrow> c)"
  by (cases z) simp_all

lemma frames_case_mode [frame_intros]:
  "frames a \<Longrightarrow> frames b \<Longrightarrow> frames (case z of SWAP \<Rightarrow> a | RECOMPUTE \<Rightarrow> b)"
  by (cases z) simp_all

lemma frames_fold_each [frame_intros]: "(\<And>a x. frames (body a x)) \<Longrightarrow> frames (fold_each xs a body)"
proof (induction xs arbitrary: a)
  case (Cons x xs)
  then show ?case unfolding fold_each.simps by (intro frames_bnd) auto
qed (simp add: frame_intros)

lemma frames_for_each [frame_intros]: "(\<And>x. frames (body x)) \<Longrightarrow> frames (for_each xs body)"
  unfolding for_each_def by (rule frames_fold_each)

lemma frames_collect [frame_intros]: "(\<And>x. frames (f x)) \<Longrightarrow> frames (collect xs f)"
proof (induction xs)
  case (Cons x xs)
  then show ?case unfolding collect.simps by (intro frame_intros) auto
qed (simp add: frame_intros)

text \<open>Statements on a group that keep its request id.\<close>

lemma frames_on_group:
  "(\<And>g. sg_request_id (snd (m g)) = sg_request_id g) \<Longrightarrow> frames (on_group r m)"
  by (auto simp: frames_def on_group_def sched_frame_def split: prod.splits) (metis snd_conv)

lemma request_id_on_seq [simp]: "sg_request_id (snd (on_seq k m g)) = sg_request_id g"
  by (simp add: on_seq_def split: option.splits prod.splits)

lemma request_id_set_status [simp]: "sg_request_id (set_status_where P st g) = sg_request_id g"
  by (simp add: set_status_where_def)

lemma frames_group_ops [frame_intros]:
  "frames (set_seq_status r k st)" "frames (set_status_all r P st)"
  "frames (on_group r (on_seq k m))"
  "frames (on_group r (modify (maybe_set_first_scheduled_time now)))"
  "frames (on_group r (modify (sg_update_cache_layers n)))"
  unfolding set_seq_status_def set_status_all_def
  by (rule frames_on_group; simp add: modify_def maybe_set_first_scheduled_time_def
      sg_update_cache_layers_def)+

lemma frames_counter [frame_intros]:
  "frames (modify (\<lambda>s. s\<lparr>sc_num_cumulative_preemption := f s\<rparr>))"
  "frames (modify (\<lambda>s. s\<lparr>sc_artificial_preempt_cnt := f' s\<rparr>))"
  "frames (modify (\<lambda>s. s\<lparr>sc_prev_prompt := f'' s\<rparr>))"
  by (rule frames_modify; simp add: sched_frame_def)+

lemma frames_ops [frame_intros]:
  "frames (sched_get_num_new_tokens r st ch b)"
  "frames (get_prompt_limit r)"
  "frames (sched_can_append_slots bm r)"
  "frames (sched_append_slots bm r cs)"
  "frames (sched_free_seq bm sq1)"
  "frames (allocate_and_set_running bm r)"
  "frames (sched_swap_out bm r out)"
  "frames (sched_swap_in bm r i ids)"
  "frames (no_lora_space r L)"
  "frames (used_block_ids bm gs ids)"
  "frames (sort_queue p now q wt)"
  "frames (ignore_group r l)"
  unfolding sched_get_num_new_tokens_def get_prompt_limit_def sched_can_append_slots_def
    sched_append_slots_def sched_free_seq_def allocate_and_set_running_def sched_swap_out_def
    sched_swap_in_def no_lora_space_def used_block_ids_def sort_queue_def ignore_group_def
  by (intro frame_intros)+

lemma frames_preempt_by_recompute [frame_intros]: "frames (preempt_by_recompute bm r)"
  unfolding preempt_by_recompute_def by (intro frame_intros)

lemma frames_preempt [frame_intros]: "frames (preempt bm r out pm)"
  unfolding preempt_def by (intro frame_intros)

lemma frames_schedule_group [frame_intros]:
  "frames (schedule_group_running bm ch r n l)"
  "frames (schedule_group_swapped bm r lora n k l2)"
  "frames (schedule_group_prefill bm r lora n k l3)"
  "frames (prefill_size ch r l3)"
  unfolding schedule_group_running_def schedule_group_swapped_def schedule_group_prefill_def
    prefill_size_def by (intro frame_intros)+

lemma frames_passed_delay [frame_intros]: "frames (passed_delay now)"
  unfolding passed_delay_def
  by (intro frame_intros frames_modify) (auto simp: sched_frame_def)

text \<open>Using a frame in a verification condition: any result, any state within the frame.\<close>

lemma wp_frames:
  assumes "frames m" "sched_frame s t"
    and "\<And>x u. sched_frame s u \<Longrightarrow> Q x u" and "\<And>e u. sched_frame s u \<Longrightarrow> E e u"
  shows "wp m Q E t"
  by (rule wp_mono [OF frames_wp [OF assms(1,2)]]) (use assms(3,4) in auto)

section \<open>The budget\<close>

definition budget_ok :: "SchedulingBudget \<Rightarrow> bool" where
  "budget_ok b \<longleftrightarrow> sb_num_batched_tokens b \<le> sb_token_budget b \<and> sb_num_curr_seqs b \<le> sb_max_num_seqs b"

definition budget_limits :: "SchedulingBudget \<Rightarrow> int \<times> int" where
  "budget_limits b = (sb_token_budget b, sb_max_num_seqs b)"

lemma budget_add_ok:
  assumes "budget_ok b" "can_schedule n k b = Inr True"
  shows "budget_ok (add_num_seqs r k (add_num_batched_tokens r n b))"
    "budget_limits (add_num_seqs r k (add_num_batched_tokens r n b)) = budget_limits b"
  using assms by (auto simp: budget_ok_def budget_limits_def can_schedule_def add_num_seqs_def
      add_num_batched_tokens_def split: if_splits)

text \<open>Adding and then subtracting a request's share is the identity, and each counts once.\<close>

lemma budget_add_subtract:
  assumes "r \<notin> sb_request_ids_num_batched_tokens b" "r \<notin> sb_request_ids_num_curr_seqs b"
  shows "subtract_num_batched_tokens r n (add_num_batched_tokens r n b) = b"
    "subtract_num_seqs r k (add_num_seqs r k b) = b"
  using assms by (simp_all add: subtract_num_batched_tokens_def add_num_batched_tokens_def
      subtract_num_seqs_def add_num_seqs_def insert_absorb)

lemma budget_add_idem [simp]:
  "add_num_batched_tokens r m (add_num_batched_tokens r n b) = add_num_batched_tokens r n b"
  "add_num_seqs r j (add_num_seqs r k b) = add_num_seqs r k b"
  by (simp_all add: add_num_batched_tokens_def add_num_seqs_def)

section \<open>Verification conditions over the frame\<close>

text \<open>One step of a verification condition: run a framed method, forget what it did.\<close>

lemma wp_bnd_frames:
  assumes "frames m" "sched_frame s t"
    and "\<And>x u. sched_frame s u \<Longrightarrow> wp (k x) Q (\<lambda>_. sched_frame s) u"
  shows "wp (bnd m k) Q (\<lambda>_. sched_frame s) t"
  unfolding wp_bnd by (rule wp_frames [OF assms(1,2)]) (use assms(3) in auto)

lemma wp_sq_frames:
  assumes "frames m" "sched_frame s t" "\<And>u. sched_frame s u \<Longrightarrow> wp k Q (\<lambda>_. sched_frame s) u"
  shows "wp (sq m k) Q (\<lambda>_. sched_frame s) t"
  unfolding sq_def by (rule wp_bnd_frames [OF assms(1,2)]) (rule assms(3))

text \<open>Case splits of a verification condition, one rule per construct of the code.\<close>

lemma wp_split_if: "(b \<Longrightarrow> wp m Q E s) \<Longrightarrow> (\<not> b \<Longrightarrow> wp n Q E s) \<Longrightarrow> wp (if b then m else n) Q E s"
  by simp

lemma wp_split_Let: "wp (f x) Q E s \<Longrightarrow> wp (Let x f) Q E s"
  by simp

lemma wp_split_prod: "(\<And>x y. wp (k x y) Q E s) \<Longrightarrow> wp (case z of (x, y) \<Rightarrow> k x y) Q E s"
  by (cases z) simp

lemma wp_split_option:
  "wp m Q E s \<Longrightarrow> (\<And>x. wp (k x) Q E s) \<Longrightarrow> wp (case z of None \<Rightarrow> m | Some x \<Rightarrow> k x) Q E s"
  by (cases z) simp_all

lemma wp_split_status:
  "wp a Q E s \<Longrightarrow> wp b Q E s \<Longrightarrow> wp c Q E s \<Longrightarrow>
     wp (case z of OK \<Rightarrow> a | LATER \<Rightarrow> b | NEVER \<Rightarrow> c) Q E s"
  by (cases z) simp_all

lemma wp_split_known:
  "wp m Q E s \<Longrightarrow> wp (if True then m else n) Q E s" "wp n Q E s \<Longrightarrow> wp (if False then m else n) Q E s"
  by simp_all

lemmas wp_splits = wp_split_known wp_split_if wp_split_Let wp_split_prod wp_split_option wp_split_status

text \<open>The two methods that first read the clock and sort their queue.\<close>

lemma wp_sorted_queue:
  assumes "\<And>e t. sched_frame s t \<Longrightarrow> E e t"
    and "\<And>sorted t. sort_by_priority policy (sc_time s (sc_time_reads s)) (sc_groups s) q wt = Inr sorted \<Longrightarrow>
      mset sorted = mset q \<Longrightarrow> sched_frame s t \<Longrightarrow> wp (k sorted) Q E t"
  shows "wp (bnd read_time (\<lambda>now. bnd (sort_queue policy now q wt) k)) Q E s"
proof -
  let ?t = "s\<lparr>sc_time_reads := Suc (sc_time_reads s)\<rparr>"
  have t: "sched_frame s ?t" by (simp add: sched_frame_def)
  have r: "read_time s = (Inr (sc_time s (sc_time_reads s)), ?t)" by (simp add: read_time_def)
  show ?thesis
    using assms(1) [OF t] assms(2) [OF _ sort_by_priority_mset t]
    by (auto simp: wp_bnd wp_def [of read_time] r sort_queue_def wp_lift_err split: sum.splits)
qed

section \<open>LoRA adapters in a batch\<close>

text \<open>The distinct adapters of the batch fit the configured maximum.\<close>

definition lora_fits :: "int option \<Rightarrow> int set option \<Rightarrow> bool" where
  "lora_fits m L \<longleftrightarrow> (case (m, L) of (Some k, Some A) \<Rightarrow> finite A \<and> int (card A) \<le> k | _ \<Rightarrow> True)"

lemma no_lora_space_ok:
  assumes "sched_frame s t"
  shows "wp (no_lora_space r L) (\<lambda>(i, full) u. sched_frame s u \<and>
      (\<not> full \<longrightarrow> lora_fits (sc_max_loras s) L \<longrightarrow> lora_fits (sc_max_loras s) (add_lora i L)))
    (\<lambda>_. sched_frame s) t"
proof -
  have m: "sc_max_loras t = sc_max_loras s" using assms by (simp add: sched_frame_def)
  show ?thesis
    using assms
    by (cases "sc_max_loras s"; cases L)
      (auto simp: no_lora_space_def wp_simps m lora_fits_def add_lora_def Let_def card_insert_if)
qed

lemma wp_bnd_no_lora:
  assumes "sched_frame s t"
    and "\<And>i u. sched_frame s u \<Longrightarrow> wp (k i True) Q (\<lambda>_. sched_frame s) u"
    and "\<And>i u. sched_frame s u \<Longrightarrow>
      lora_fits (sc_max_loras s) L \<longrightarrow> lora_fits (sc_max_loras s) (add_lora i L) \<Longrightarrow>
      wp (k i False) Q (\<lambda>_. sched_frame s) u"
  shows "wp (bnd (no_lora_space r L) (\<lambda>(i, full). k i full)) Q (\<lambda>_. sched_frame s) t"
  unfolding wp_bnd
proof (rule wp_mono [OF no_lora_space_ok [OF assms(1)]], goal_cases)
  case (1 x u)
  then show ?case using assms(2,3) by (cases x; cases "snd x") auto
qed

end
