(* ===== verification/Scheduler_Demo.thy ===== *)
theory Scheduler_Demo
  imports Scheduler Ellm_Append_Facts
begin

text \<open>
  A small scheduler in front of the eLLM manager of the examples: a budget of 16 tokens and four
  sequences, blocks of two tokens, eight layers in two groups.
\<close>

definition demo_config :: SchedulerConfig where
  "demo_config = projr (SchedulerConfig_init (Some 16) 4 16 False 0 0 False False None ''fcfs'' (1 / 2))"

definition demo_cache :: CacheConfig where
  "demo_cache = \<lparr>cc_block_size = 2, cc_num_gpu_blocks = 8, cc_num_cpu_blocks = 4,
     cc_sliding_window = None, cc_enable_prefix_caching = False, cc_num_layers = 8,
     cc_store_cache_layers = 1 / 2, cc_flatten_layers = 0\<rparr>"

text \<open>Three waiting requests; the prompt of the third exceeds the limit.\<close>

definition demo_heap :: "group_ref \<Rightarrow> SequenceGroup" where
  "demo_heap r =
     (if r = 0 then demo_group ''a'' 0 [demo_seq 0 3 WAITING]
      else if r = 1 then demo_group ''b'' 0 [demo_seq 1 1 WAITING]
      else demo_group ''c'' 0 [demo_seq 2 20 WAITING])"

definition demo_sched :: "ellm_manager scheduler" where
  "demo_sched = snd (sq (add_seq_group 0) (sq (add_seq_group 1) (add_seq_group 2))
     (Scheduler_init demo_config demo_cache None demo_em False demo_heap (\<lambda>_. 0) (\<lambda>_. 0)))"

definition demo_budget :: SchedulingBudget where
  "demo_budget = SchedulingBudget_new 16 4"

text \<open>Sequences that decode, and a manager with such a sequence of five tokens swapped out.\<close>

definition demo_decode :: "nat \<Rightarrow> nat \<Rightarrow> SequenceStatus \<Rightarrow> Sequence" where
  "demo_decode sid n st =
     (let s = demo_seq sid n st in s\<lparr>seq_data := (seq_data s)\<lparr>sd_stage := DECODE\<rparr>\<rparr>)"

definition demo_em_swapped :: ellm_manager where
  "demo_em_swapped = snd (em_swap_out (demo_group ''a'' 0 [demo_decode 0 5 RUNNING]) demo_em1)"

definition demo_swapped :: "ellm_manager scheduler" where
  "demo_swapped = demo_sched\<lparr>sc_waiting := [], sc_swapped := [0, 1],
     sc_block_manager := demo_em_swapped,
     sc_groups := (\<lambda>r. if r = 0 then demo_group ''a'' 0 [demo_decode 0 5 SWAPPED]
                        else demo_group ''b'' 0 [demo_decode 1 3 SWAPPED])\<rparr>"

end
