(* ===== verification/Scheduler_Prefill.thy ===== *)
theory Scheduler_Prefill
  imports Scheduler_Facts Scheduler_Demo
begin

text \<open>
  \<^verbatim>\<open>_schedule_prefills\<close>: the relation between the local variables at two points of its loop, the
  steps that keep it, and what the method as a whole does.
\<close>

definition prefill_total :: "prefill_locals \<Rightarrow> group_ref multiset" where
  "prefill_total l = mset (ssg_groups (pl_seq_groups l)) + mset (pl_leftover l) + mset (pl_ignored l)"

definition chunk_sum :: "ScheduledSequenceGroup list \<Rightarrow> int" where
  "chunk_sum gs = sum_list (map ssg_token_chunk_size gs)"

lemma chunk_sum_append [simp]: "chunk_sum (xs @ ys) = chunk_sum xs + chunk_sum ys"
  by (simp add: chunk_sum_def)

text \<open>
  The relation between the local variables at two points of the loop, with the queue at each of
  them. The last conjunct accounts for the tokens, when the request ids are pairwise different.
\<close>

definition prefill_step ::
  "'b scheduler \<Rightarrow> group_ref list \<Rightarrow> prefill_locals \<Rightarrow> group_ref list \<Rightarrow> prefill_locals \<Rightarrow> bool"
where
  "prefill_step s q l q' l' \<longleftrightarrow>
     mset q' + prefill_total l' = mset q + prefill_total l \<and>
     subseq (rev (pl_leftover l') @ q') (rev (pl_leftover l) @ q) \<and>
     budget_limits (pl_budget l') = budget_limits (pl_budget l) \<and>
     (budget_ok (pl_budget l) \<longrightarrow> budget_ok (pl_budget l')) \<and>
     (lora_fits (sc_max_loras s) (pl_loras l) \<longrightarrow> lora_fits (sc_max_loras s) (pl_loras l')) \<and>
     (\<exists>gs. pl_seq_groups l' = pl_seq_groups l @ gs \<and> subseq (ssg_groups gs) q \<and>
        sb_request_ids_num_batched_tokens (pl_budget l') =
          sb_request_ids_num_batched_tokens (pl_budget l) \<union>
            (\<lambda>r. sg_request_id (sc_groups s r)) ` set (ssg_groups gs) \<and>
        (distinct (map (\<lambda>r. sg_request_id (sc_groups s r)) q) \<and>
         (\<forall>r \<in> set q. sg_request_id (sc_groups s r) \<notin> sb_request_ids_num_batched_tokens (pl_budget l)) \<longrightarrow>
         sb_num_batched_tokens (pl_budget l') = sb_num_batched_tokens (pl_budget l) + chunk_sum gs))"

lemma prefill_step_refl: "prefill_step s q l q l"
  by (simp add: prefill_step_def ssg_groups_def chunk_sum_def)

lemma prefill_step_ignore:
  assumes "prefill_step s q (l\<lparr>pl_ignored := pl_ignored l @ [r]\<rparr>) q' l'"
  shows "prefill_step s (r # q) l q' l'"
  using assms unfolding prefill_step_def prefill_total_def
  by (auto intro: subseq_order.order_trans [OF _ list_emb_append_mono [OF subseq_order.order_refl]])

lemma prefill_step_leftover:
  assumes "prefill_step s q (l\<lparr>pl_leftover := r # pl_leftover l\<rparr>) q' l'"
  shows "prefill_step s (r # q) l q' l'"
  using assms unfolding prefill_step_def prefill_total_def by auto

lemma prefill_step_schedule:
  assumes st: "prefill_step s q (l\<lparr>pl_loras := L,
       pl_seq_groups := pl_seq_groups l @ [\<lparr>ssg_seq_group = r, ssg_token_chunk_size = n\<rparr>],
       pl_budget := add_num_seqs i k (add_num_batched_tokens i n (pl_budget l))\<rparr>) q' l'"
    and i: "i = sg_request_id (sc_groups s r)" and fits: "can_schedule n k (pl_budget l) = Inr True"
    and lora: "lora_fits (sc_max_loras s) (pl_loras l) \<longrightarrow> lora_fits (sc_max_loras s) L"
  shows "prefill_step s (r # q) l q' l'"
proof -
  let ?b = "add_num_seqs i k (add_num_batched_tokens i n (pl_budget l))"
  let ?id = "\<lambda>r. sg_request_id (sc_groups s r)"
  have ids: "sb_request_ids_num_batched_tokens ?b = insert i (sb_request_ids_num_batched_tokens (pl_budget l))"
    by (auto simp: add_num_seqs_def add_num_batched_tokens_def)
  have num: "i \<notin> sb_request_ids_num_batched_tokens (pl_budget l) \<Longrightarrow>
      sb_num_batched_tokens ?b = sb_num_batched_tokens (pl_budget l) + n"
    by (simp add: add_num_seqs_def add_num_batched_tokens_def)
  obtain gs where gs: "pl_seq_groups l' = (pl_seq_groups l @ [\<lparr>ssg_seq_group = r, ssg_token_chunk_size = n\<rparr>]) @ gs"
    "subseq (ssg_groups gs) q"
    "sb_request_ids_num_batched_tokens (pl_budget l') = sb_request_ids_num_batched_tokens ?b \<union> ?id ` set (ssg_groups gs)"
    "distinct (map ?id q) \<and> (\<forall>r \<in> set q. ?id r \<notin> sb_request_ids_num_batched_tokens ?b) \<longrightarrow>
      sb_num_batched_tokens (pl_budget l') = sb_num_batched_tokens ?b + chunk_sum gs"
    using st unfolding prefill_step_def by auto
  let ?gs = "\<lparr>ssg_seq_group = r, ssg_token_chunk_size = n\<rparr> # gs"
  have "pl_seq_groups l' = pl_seq_groups l @ ?gs" "subseq (ssg_groups ?gs) (r # q)"
    "sb_request_ids_num_batched_tokens (pl_budget l') =
       sb_request_ids_num_batched_tokens (pl_budget l) \<union> ?id ` set (ssg_groups ?gs)"
    using gs(1-3) ids i by (auto simp: ssg_groups_def)
  moreover have "sb_num_batched_tokens (pl_budget l') = sb_num_batched_tokens (pl_budget l) + chunk_sum ?gs"
    if "distinct (map ?id (r # q))"
      "\<forall>r \<in> set (r # q). ?id r \<notin> sb_request_ids_num_batched_tokens (pl_budget l)"
  proof -
    have "?id x \<noteq> i" if "x \<in> set q" for x
      using \<open>distinct (map ?id (r # q))\<close> imageI [OF that, of ?id] i by auto
    then show ?thesis using that gs(4) num ids i by (simp add: chunk_sum_def)
  qed
  moreover have "mset q' + prefill_total l' = mset (r # q) + prefill_total l"
    using st unfolding prefill_step_def prefill_total_def by (simp add: ssg_groups_def)
  moreover have "subseq (rev (pl_leftover l') @ q') (rev (pl_leftover l) @ r # q)"
  proof -
    have "subseq (rev (pl_leftover l') @ q') (rev (pl_leftover l) @ q)"
      using st by (simp add: prefill_step_def)
    moreover have "subseq (rev (pl_leftover l) @ q) (rev (pl_leftover l) @ r # q)"
      by (intro list_emb_append_mono subseq_order.order_refl) auto
    ultimately show ?thesis by (rule subseq_order.order_trans)
  qed
  moreover have "budget_limits (pl_budget l') = budget_limits (pl_budget l)"
    "budget_ok (pl_budget l) \<longrightarrow> budget_ok (pl_budget l')"
    using st budget_add_ok(1) [OF _ fits] fits unfolding prefill_step_def
    by (auto simp: budget_limits_def add_num_seqs_def add_num_batched_tokens_def)
  moreover have "lora_fits (sc_max_loras s) (pl_loras l) \<longrightarrow> lora_fits (sc_max_loras s) (pl_loras l')"
    using st lora unfolding prefill_step_def by simp
  ultimately show ?thesis unfolding prefill_step_def by blast
qed

lemma prefill_step_id:
  "sched_frame s t \<Longrightarrow> prefill_step t q l q' l' = prefill_step s q l q' l'"
  by (simp add: prefill_step_def sched_frame_def)

lemma ignore_group_ok:
  assumes "sched_frame s t"
  shows "wp (ignore_group r l)
    (\<lambda>l' u. sched_frame s u \<and> l' = l\<lparr>pl_ignored := pl_ignored l @ [r]\<rparr>) (\<lambda>_. sched_frame s) t"
  unfolding ignore_group_def
  by (rule wp_sq_frames [OF _ assms]) (auto simp: wp_ret intro: frame_intros)

lemma schedule_group_prefill_ok:
  assumes "sched_frame s t"
  shows "wp (schedule_group_prefill bm r lora n k l)
    (\<lambda>l' u. sched_frame s u \<and> l' = l\<lparr>pl_loras := add_lora lora (pl_loras l),
       pl_seq_groups := pl_seq_groups l @ [\<lparr>ssg_seq_group = r, ssg_token_chunk_size = n\<rparr>],
       pl_budget := add_num_seqs (sg_request_id (sc_groups s r)) k
         (add_num_batched_tokens (sg_request_id (sc_groups s r)) n (pl_budget l))\<rparr>)
    (\<lambda>_. sched_frame s) t"
  unfolding schedule_group_prefill_def
  by (rule wp_sq_frames [OF _ assms])
    (auto simp: wp_simps group_def sched_frame_def intro: frame_intros)

lemma prefill_loop_ok:
  "sched_frame s t \<Longrightarrow>
   wp (prefill_loop bm ch q l) (\<lambda>(q', l') u. sched_frame s u \<and> prefill_step s q l q' l')
     (\<lambda>_. sched_frame s) t"
proof (induction q arbitrary: l t)
  case Nil
  then show ?case
    unfolding prefill_loop.simps
    by (intro wp_bnd_frames frame_intros) (simp_all add: wp_ret prefill_step_refl)
next
  case (Cons r q)
  have stop: "wp (ret (r # q, l)) (\<lambda>(q', l') u. sched_frame s u \<and> prefill_step s (r # q) l q' l')
      (\<lambda>_. sched_frame s) u" if "sched_frame s u" for u
    using that by (simp add: wp_ret prefill_step_refl)
  have ignore: "wp (bnd (ignore_group r l) (prefill_loop bm ch q))
      (\<lambda>(q', l') u. sched_frame s u \<and> prefill_step s (r # q) l q' l') (\<lambda>_. sched_frame s) u"
    if "sched_frame s u" for u
    unfolding wp_bnd
    by (rule wp_mono [OF ignore_group_ok [OF that]])
      (auto intro!: wp_mono [OF Cons.IH] intro: prefill_step_ignore)
  have leftover: "wp (prefill_loop bm ch q (l\<lparr>pl_leftover := r # pl_leftover l\<rparr>))
      (\<lambda>(q', l') u. sched_frame s u \<and> prefill_step s (r # q) l q' l') (\<lambda>_. sched_frame s) u"
    if "sched_frame s u" for u
    by (rule wp_mono [OF Cons.IH [OF that]]) (auto intro: prefill_step_leftover)
  have sched: "wp (bnd (if n = 0 then ret False else lift_err (\<lambda>_. can_schedule n k (pl_budget l)))
        (\<lambda>fits. if \<not> fits then ret (r # q, l)
           else bnd (schedule_group_prefill bm r lora n k l) (prefill_loop bm ch q)))
      (\<lambda>(q', l') u. sched_frame s u \<and> prefill_step s (r # q) l q' l') (\<lambda>_. sched_frame s) u"
    if u: "sched_frame s u" and
      lora: "lora_fits (sc_max_loras s) (pl_loras l) \<longrightarrow> lora_fits (sc_max_loras s) (add_lora lora (pl_loras l))"
    for u n k lora
  proof -
    have go: "wp (bnd (schedule_group_prefill bm r lora n k l) (prefill_loop bm ch q))
        (\<lambda>(q', l') u. sched_frame s u \<and> prefill_step s (r # q) l q' l') (\<lambda>_. sched_frame s) u"
      if "can_schedule n k (pl_budget l) = Inr True"
      unfolding wp_bnd
      by (rule wp_mono [OF schedule_group_prefill_ok [OF u]])
        (use that lora in \<open>auto intro!: wp_mono [OF Cons.IH] intro: prefill_step_schedule\<close>)
    show ?thesis
      using go stop [OF u] u by (auto simp: wp_bnd wp_ret wp_lift_err wp_if split: sum.splits)
  qed
  show ?case
    unfolding prefill_loop.simps
    by (assumption | rule Cons.prems stop ignore leftover sched wp_bnd_no_lora wp_splits
        | rule wp_bnd_frames
        | rule frame_intros)+
qed

text \<open>The result of the method: remaining queue, outputs, budget, adapters.\<close>

definition prefills_spec ::
  "'b scheduler \<Rightarrow> group_ref list \<Rightarrow> SchedulingBudget \<Rightarrow> int set option \<Rightarrow>
   group_ref list \<times> SchedulerPrefillOutputs \<times> SchedulingBudget \<times> int set option \<Rightarrow> bool"
where
  "prefills_spec s q b L = (\<lambda>(rest, po, b', L').
     mset rest + mset (ssg_groups (po_seq_groups po)) + mset (po_ignored_seq_groups po) = mset q \<and>
     subseq rest q \<and> subseq (ssg_groups (po_seq_groups po)) q \<and>
     budget_limits b' = budget_limits b \<and> (budget_ok b \<longrightarrow> budget_ok b') \<and>
     (lora_fits (sc_max_loras s) L \<longrightarrow> lora_fits (sc_max_loras s) L') \<and>
     (distinct (map (\<lambda>r. sg_request_id (sc_groups s r)) q) \<and>
      (\<forall>r \<in> set q. sg_request_id (sc_groups s r) \<notin> sb_request_ids_num_batched_tokens b) \<longrightarrow>
      sb_num_batched_tokens b' = sb_num_batched_tokens b + chunk_sum (po_seq_groups po)))"

lemma schedule_prefills_ok:
  "wp (schedule_prefills bm q b L ch) (\<lambda>x t. sched_frame s t \<and> prefills_spec s q b L x)
     (\<lambda>_ t. sched_frame s t) s"
  unfolding schedule_prefills_def wp_bnd
proof (rule wp_mono [OF prefill_loop_ok [OF sched_frame_refl]], goal_cases)
  case (1 x t)
  obtain q' l' where x: "x = (q', l')" by (cases x)
  with 1 have t: "sched_frame s t" and st: "prefill_step s q
     \<lparr>pl_budget = b, pl_loras = L, pl_leftover = [], pl_seq_groups = [], pl_ignored = []\<rparr> q' l'"
    by simp_all
  show ?case
    unfolding x prod.case
    by (assumption | rule t wp_splits wp_sq_frames wp_bnd_frames | rule frame_intros)+
      (use st in \<open>auto simp: wp_ret prefills_spec_def prefill_step_def prefill_total_def extendleft_def ssg_groups_def
        add_ac\<close>)
qed

text \<open>
  C12: whatever the block manager does, \<^verbatim>\<open>_schedule_prefills\<close> loses or duplicates no request: the
  remaining queue, the scheduled and the ignored groups together are the waiting queue, and the
  remaining ones keep their order. The budget and the number of LoRA adapters stay within their
  limits, and when the request ids are new and pairwise different, the batched tokens grow by
  exactly the scheduled chunks. An exception leaves the three queues and the configuration alone.
\<close>

theorem schedule_prefills_conserves:
  "wp (schedule_prefills bm q b L ch)
     (\<lambda>(rest, po, b', L') t. sched_frame s t \<and>
        mset rest + mset (ssg_groups (po_seq_groups po)) + mset (po_ignored_seq_groups po) = mset q \<and>
        subseq rest q \<and> subseq (ssg_groups (po_seq_groups po)) q \<and>
        budget_limits b' = budget_limits b \<and> (budget_ok b \<longrightarrow> budget_ok b') \<and>
        (lora_fits (sc_max_loras s) L \<longrightarrow> lora_fits (sc_max_loras s) L') \<and>
        (distinct (map (\<lambda>r. sg_request_id (sc_groups s r)) q) \<and>
         (\<forall>r \<in> set q. sg_request_id (sc_groups s r) \<notin> sb_request_ids_num_batched_tokens b) \<longrightarrow>
         sb_num_batched_tokens b' = sb_num_batched_tokens b + chunk_sum (po_seq_groups po)))
     (\<lambda>_ t. sched_frame s t) s"
  by (rule wp_mono [OF schedule_prefills_ok]) (auto simp: prefills_spec_def split: prod.splits)

theorem schedule_prefills_conserves_witness:
  "(case fst (schedule_prefills ellm_block_manager [0, 1, 2] demo_budget None False demo_sched) of
      Inl _ \<Rightarrow> False
    | Inr (rest, po, b, _) \<Rightarrow> rest = [] \<and> ssg_groups (po_seq_groups po) = [0, 1] \<and>
        po_ignored_seq_groups po = [2] \<and>
        sb_num_batched_tokens b = sb_num_batched_tokens demo_budget + 4)"
proof -
  let ?m = "schedule_prefills ellm_block_manager [0, 1, 2] demo_budget None False"
  have e: "(case fst (?m demo_sched) of Inl _ \<Rightarrow> False | Inr (rest, po, _) \<Rightarrow> rest = [] \<and>
      ssg_groups (po_seq_groups po) = [0, 1] \<and> po_ignored_seq_groups po = [2] \<and>
      chunk_sum (po_seq_groups po) = 4)"
    by code_simp
  have d: "distinct (map (\<lambda>r. sg_request_id (sc_groups demo_sched r)) [0, 1, 2])"
    "\<forall>r \<in> set [0, 1, 2]. sg_request_id (sc_groups demo_sched r) \<notin> sb_request_ids_num_batched_tokens demo_budget"
    by code_simp+
  from schedule_prefills_conserves
    [where bm = ellm_block_manager and q = "[0, 1, 2]" and b = demo_budget and L = None and ch = False
      and s = demo_sched] e d
  show ?thesis
    by (cases "?m demo_sched") (auto simp: wp_def split: sum.splits)
qed

end
