(* ===== verification/Scheduler_Swapped.thy ===== *)
theory Scheduler_Swapped
  imports Scheduler_Facts Scheduler_Demo
begin

text \<open>
  \<^verbatim>\<open>_schedule_swapped\<close>: the relation between the local variables at two points of its loop, and
  what the method does with the queue, the budget and the adapters.
\<close>

definition swapped_total :: "swapped_locals \<Rightarrow> group_ref multiset" where
  "swapped_total l = mset (ssg_groups (wl_decode l)) + mset (ssg_groups (wl_prefill l)) +
     mset (wl_leftover l) + mset (wl_infeasible l)"

definition swapped_step ::
  "'b scheduler \<Rightarrow> group_ref list \<Rightarrow> swapped_locals \<Rightarrow> group_ref list \<Rightarrow> swapped_locals \<Rightarrow> bool"
where
  "swapped_step s q l q' l' \<longleftrightarrow>
     mset q' + swapped_total l' = mset q + swapped_total l \<and>
     subseq (rev (wl_leftover l') @ q') (rev (wl_leftover l) @ q) \<and>
     budget_limits (wl_budget l') = budget_limits (wl_budget l) \<and>
     (budget_ok (wl_budget l) \<longrightarrow> budget_ok (wl_budget l')) \<and>
     (lora_fits (sc_max_loras s) (wl_loras l) \<longrightarrow> lora_fits (sc_max_loras s) (wl_loras l'))"

lemma swapped_step_refl: "swapped_step s q l q l"
  by (simp add: swapped_step_def)

text \<open>The step that takes the head of the queue anywhere but to the leftovers.\<close>

lemma swapped_step_take:
  assumes st: "swapped_step s q l1 q' l'"
    and l1: "swapped_total l1 = add_mset r (swapped_total l)" "wl_leftover l1 = wl_leftover l"
      "budget_limits (wl_budget l1) = budget_limits (wl_budget l)"
      "budget_ok (wl_budget l) \<longrightarrow> budget_ok (wl_budget l1)"
      "lora_fits (sc_max_loras s) (wl_loras l) \<longrightarrow> lora_fits (sc_max_loras s) (wl_loras l1)"
  shows "swapped_step s (r # q) l q' l'"
proof -
  have "subseq (rev (wl_leftover l) @ q) (rev (wl_leftover l) @ r # q)"
    by (intro list_emb_append_mono subseq_order.order_refl) auto
  then have "subseq (rev (wl_leftover l') @ q') (rev (wl_leftover l) @ r # q)"
    using st l1(2) by (auto simp: swapped_step_def intro: subseq_order.order_trans)
  then show ?thesis using st l1 unfolding swapped_step_def by simp
qed

lemma swapped_step_leftover:
  assumes "swapped_step s q (l\<lparr>wl_leftover := r # wl_leftover l\<rparr>) q' l'"
  shows "swapped_step s (r # q) l q' l'"
  using assms unfolding swapped_step_def swapped_total_def by auto

lemma schedule_group_swapped_ok:
  assumes u: "sched_frame s u" and fits: "can_schedule n k (wl_budget l) = Inr True"
    and lora: "lora_fits (sc_max_loras s) (wl_loras l) \<longrightarrow>
      lora_fits (sc_max_loras s) (add_lora lora (wl_loras l))"
  shows "wp (schedule_group_swapped bm r lora n k l)
    (\<lambda>l1 t. sched_frame s t \<and> swapped_total l1 = add_mset r (swapped_total l) \<and>
       wl_leftover l1 = wl_leftover l \<and> budget_limits (wl_budget l1) = budget_limits (wl_budget l) \<and>
       (budget_ok (wl_budget l) \<longrightarrow> budget_ok (wl_budget l1)) \<and>
       (lora_fits (sc_max_loras s) (wl_loras l) \<longrightarrow> lora_fits (sc_max_loras s) (wl_loras l1)))
    (\<lambda>_. sched_frame s) u"
proof -
  have lim: "budget_limits (add_num_seqs i k (add_num_batched_tokens i n b)) = budget_limits b" for i b
    by (simp add: budget_limits_def add_num_seqs_def add_num_batched_tokens_def)
  show ?thesis
    unfolding schedule_group_swapped_def
    by (assumption | rule u wp_split_prod wp_split_Let wp_bnd_frames | rule frame_intros)+
      (use lora budget_add_ok(1) [OF _ fits] in \<open>auto simp: wp_ret swapped_total_def ssg_groups_def lim\<close>)
qed

lemma swapped_loop_ok:
  "sched_frame s t \<Longrightarrow>
   wp (swapped_loop bm ch q l) (\<lambda>(q', l') u. sched_frame s u \<and> swapped_step s q l q' l')
     (\<lambda>_. sched_frame s) t"
proof (induction q arbitrary: l t)
  case Nil
  then show ?case by (simp add: wp_ret swapped_step_refl)
next
  case (Cons r q)
  let ?Q = "\<lambda>(q', l') u. sched_frame s u \<and> swapped_step s (r # q) l q' l'"
  have stop: "wp (ret (r # q, l)) ?Q (\<lambda>_. sched_frame s) u" if "sched_frame s u" for u
    using that by (simp add: wp_ret swapped_step_refl)
  have infeasible: "wp (swapped_loop bm ch q (l\<lparr>wl_infeasible := wl_infeasible l @ [r]\<rparr>))
      ?Q (\<lambda>_. sched_frame s) u" if "sched_frame s u" for u
    by (rule wp_mono [OF Cons.IH [OF that]]) (auto intro!: swapped_step_take simp: swapped_total_def)
  have leftover: "wp (swapped_loop bm ch q (l\<lparr>wl_leftover := r # wl_leftover l\<rparr>))
      ?Q (\<lambda>_. sched_frame s) u" if "sched_frame s u" for u
    by (rule wp_mono [OF Cons.IH [OF that]]) (auto intro: swapped_step_leftover)
  have sched: "wp (bnd (if n = 0 then ret False else lift_err (\<lambda>_. can_schedule n k (wl_budget l)))
        (\<lambda>fits. if \<not> fits then ret (r # q, l)
           else bnd (schedule_group_swapped bm r lora n k l) (swapped_loop bm ch q)))
      ?Q (\<lambda>_. sched_frame s) u"
    if u: "sched_frame s u" and
      lora: "lora_fits (sc_max_loras s) (wl_loras l) \<longrightarrow> lora_fits (sc_max_loras s) (add_lora lora (wl_loras l))"
    for u n k lora
  proof -
    have go: "wp (bnd (schedule_group_swapped bm r lora n k l) (swapped_loop bm ch q))
        ?Q (\<lambda>_. sched_frame s) u"
      if "can_schedule n k (wl_budget l) = Inr True"
      unfolding wp_bnd
      by (rule wp_mono [OF schedule_group_swapped_ok [OF u that lora]])
        (auto intro!: wp_mono [OF Cons.IH] intro: swapped_step_take)
    show ?thesis
      using go stop [OF u] u by (auto simp: wp_bnd wp_ret wp_lift_err wp_if split: sum.splits)
  qed
  show ?case
    unfolding swapped_loop.simps
    by (assumption | rule Cons.prems stop infeasible leftover sched wp_bnd_no_lora wp_splits wp_sq_frames
        | rule wp_bnd_frames | rule frame_intros)+
qed

definition swapped_spec ::
  "'b scheduler \<Rightarrow> group_ref list \<Rightarrow> SchedulingBudget \<Rightarrow> int set option \<Rightarrow> Policy \<Rightarrow>
   group_ref list \<times> SchedulerSwappedInOutputs \<times> SchedulingBudget \<times> int set option \<Rightarrow> bool"
where
  "swapped_spec s q b L policy = (\<lambda>(rest, io, b', L').
     mset rest + mset (ssg_groups (io_decode_seq_groups io)) +
       mset (ssg_groups (io_prefill_seq_groups io)) + mset (io_infeasible_seq_groups io) = mset q \<and>
     (\<exists>q0. sort_by_priority policy (sc_time s (sc_time_reads s)) (sc_groups s) q (1 / 2) = Inr q0 \<and>
        subseq rest q0) \<and>
     budget_limits b' = budget_limits b \<and> (budget_ok b \<longrightarrow> budget_ok b') \<and>
     (lora_fits (sc_max_loras s) L \<longrightarrow> lora_fits (sc_max_loras s) L'))"

lemma schedule_swapped_ok:
  "wp (schedule_swapped bm q b L policy ch) (\<lambda>x t. sched_frame s t \<and> swapped_spec s q b L policy x)
     (\<lambda>_ t. sched_frame s t) s"
  unfolding schedule_swapped_def
proof (rule wp_sorted_queue, goal_cases)
  case (2 sorted t)
  show ?case
    unfolding wp_bnd
  proof (rule wp_mono [OF swapped_loop_ok [OF 2(3)]], goal_cases)
    case (1 x u)
    obtain q' l' where x: "x = (q', l')" by (cases x)
    with 1 have u: "sched_frame s u" and st: "swapped_step s sorted
       \<lparr>wl_budget = b, wl_loras = L, wl_leftover = [], wl_swap_in = [], wl_copy = [], wl_ids = [],
        wl_decode = [], wl_prefill = [], wl_infeasible = []\<rparr> q' l'"
      by simp_all
    then have "mset (rev (wl_leftover l') @ q') + mset (ssg_groups (wl_decode l')) +
        mset (ssg_groups (wl_prefill l')) + mset (wl_infeasible l') = mset q"
      using 2(2) by (simp add: swapped_step_def swapped_total_def ssg_groups_def add_ac)
    with u st 2(1) show ?case
      by (auto simp: x swapped_spec_def wp_simps swapped_step_def extendleft_def)
  qed
qed

text \<open>
  C13: \<^verbatim>\<open>_schedule_swapped\<close> loses or duplicates no request, whatever the block manager does: the
  remaining queue, the groups swapped in and the infeasible ones together are the swapped queue,
  the remaining ones in the order of the policy. The budget and the number of LoRA adapters stay
  within their limits. An exception leaves the queues and the configuration alone.
\<close>

theorem schedule_swapped_conserves:
  "wp (schedule_swapped bm q b L policy ch)
     (\<lambda>(rest, io, b', L') t. sched_frame s t \<and>
        mset rest + mset (ssg_groups (io_decode_seq_groups io)) +
          mset (ssg_groups (io_prefill_seq_groups io)) + mset (io_infeasible_seq_groups io) = mset q \<and>
        (\<exists>q0. sort_by_priority policy (sc_time s (sc_time_reads s)) (sc_groups s) q (1 / 2) = Inr q0 \<and>
           subseq rest q0) \<and>
        budget_limits b' = budget_limits b \<and> (budget_ok b \<longrightarrow> budget_ok b') \<and>
        (lora_fits (sc_max_loras s) L \<longrightarrow> lora_fits (sc_max_loras s) L'))
     (\<lambda>_ t. sched_frame s t) s"
  by (rule wp_mono [OF schedule_swapped_ok]) (auto simp: swapped_spec_def split: prod.splits)

text \<open>The first group comes back; the manager does not know the second, which is failed.\<close>

theorem schedule_swapped_conserves_witness:
  "(case fst (schedule_swapped ellm_block_manager [0, 1] demo_budget None FCFS False demo_swapped) of
      Inl _ \<Rightarrow> False
    | Inr (rest, io, b, _) \<Rightarrow> rest = [] \<and> ssg_groups (io_decode_seq_groups io) = [0] \<and>
        io_infeasible_seq_groups io = [1] \<and> budget_ok b)"
proof -
  let ?m = "schedule_swapped ellm_block_manager [0, 1] demo_budget None FCFS False"
  have e: "(case fst (?m demo_swapped) of Inl _ \<Rightarrow> False | Inr (rest, io, _) \<Rightarrow> rest = [] \<and>
      ssg_groups (io_decode_seq_groups io) = [0] \<and> io_infeasible_seq_groups io = [1])"
    by code_simp
  have "budget_ok demo_budget" by code_simp
  with schedule_swapped_conserves
    [where bm = ellm_block_manager and q = "[0, 1]" and b = demo_budget and L = None and ch = False
      and policy = FCFS and s = demo_swapped] e
  show ?thesis
    by (cases "?m demo_swapped") (auto simp: wp_def split: sum.splits)
qed

end
