(* ===== verification/Ellm_Quiet.thy ===== *)
theory Ellm_Quiet
  imports Ellm_Block_Manager
begin

text \<open>
  The loops of the eLLM manager end: no operation of the map or of the manager uses up its fuel,
  in any state, well-formed or not.
\<close>

lemma not_NonTermination_lookup [simp]:
  "dget d k \<noteq> Inl NonTermination" "nth_py xs i \<noteq> Inl NonTermination"
  "add_table_lens ns tables \<noteq> Inl NonTermination" "py_min ns \<noteq> Inl NonTermination"
  by (auto simp: dget_def nth_py_def add_table_lens_def py_min_def split: option.split list.split)

lemma quiet_on_map [quiet_intros]: "quiet m \<Longrightarrow> quiet (on_map m)"
  by (auto simp: quiet_def on_map_def wp_def split: prod.splits sum.splits)

lemma quiet_pool [quiet_intros]:
  "quiet (get_block_ref_count g b)" "quiet (set_ref g b n)" "quiet (set_free g bs)"
  unfolding get_block_ref_count_def set_ref_def set_free_def
  by (intro quiet_intros; auto split: sum.split simp: nth_py_def)+

lemma quiet_allocate_block [quiet_intros]: "quiet (allocate_block g)"
  unfolding allocate_block_def pop_free_def by (intro quiet_intros) simp_all

lemma quiet_free_block [quiet_intros]: "quiet (free_block g b)"
  unfolding free_block_def by (intro quiet_intros) simp_all

lemma quiet_entries [quiet_intros]:
  "quiet (put_entry tmp k entry)" "quiet (get_entry tmp k)" "quiet (pop_entry tmp k)"
  "quiet (pop_and_free tmp k)" "e \<noteq> NonTermination \<Longrightarrow> quiet (rollback_keys tmp ks e)"
  "quiet (get_length i)" "quiet (get_prefix_blocks i)" "quiet (set_length i n)"
  unfolding put_entry_def get_entry_def pop_entry_def pop_and_free_def rollback_keys_def
    get_length_def get_prefix_blocks_def set_length_def
  by (intro quiet_intros; simp)+

lemma quiet_append_token [quiet_intros]: "quiet (append_token i)"
  unfolding append_token_def append_new_block_def append_in_tail_def append_cow_blocks_def
  by (assumption | rule quiet_intros | simp)+

lemma quiet_queries [quiet_intros]:
  "quiet (get_sequence_length i)" "quiet (sequence_needs_cow i g)" "quiet (get_num_free_blocks (Some g))"
  "quiet (get_num_evicted_tokens i)" "quiet (get_retained_block_table i g)"
  unfolding get_sequence_length_def sequence_needs_cow_def get_num_free_blocks_def
    get_num_evicted_tokens_def get_retained_block_table_def option.case
  by (intro quiet_intros; simp)+

lemma quiet_free_sequence [quiet_intros]: "quiet (free_sequence i)"
  unfolding free_sequence_def by (intro quiet_intros)

section \<open>The append loop\<close>

text \<open>An append that succeeds makes the sequence one token longer.\<close>

lemma append_token_length:
  "wp (append_token i) (\<lambda>_ t. \<exists>n. kvL m i = Some n \<and> kvL t i = Some (Suc n)) (\<lambda>e _. e \<noteq> NonTermination) m"
proof (cases "kvL m i")
  case None
  then show ?thesis
    by (simp add: append_token_def wp_bnd get_length_def wp_lift_err kvL_def)
next
  case (Some n)
  have body: "wp (if b then append_new_block i k else append_in_tail i k)
      (\<lambda>_ t. True) (\<lambda>e _. e \<noteq> NonTermination) m" for b k
    by (rule quietD)
      (unfold append_new_block_def append_in_tail_def append_cow_blocks_def, (assumption | rule quiet_intros | simp)+)
  have eq: "run_eq m (append_token i)
      (bnd (if num_logical_blocks m n < num_logical_blocks m (n + 1)
            then append_new_block i (num_logical_blocks m (n + 1) - 1)
            else append_in_tail i (num_logical_blocks m (n + 1) - 1)) (\<lambda>cs. sq (set_length i (n + 1)) (ret cs)))"
    using Some by (simp add: run_eq_def append_token_def get_length_def run_simps Let_def kvL_def)
  show ?thesis
    unfolding wp_run_eq [OF eq] wp_bnd
    by (rule wp_mono [OF body]) (use Some in \<open>auto simp: wp_simps set_length_def kvL_def\<close>)
qed

lemma em_append_loop_quiet:
  "(\<forall>n. kvL (em_cache_map b) (seq_id s) = Some n \<longrightarrow> seq_get_len s - n < fuel) \<Longrightarrow> 0 < fuel \<Longrightarrow>
     wp (em_append_loop fuel s ms) (\<lambda>_ _. True) (\<lambda>e _. e \<noteq> NonTermination) b"
proof (induction fuel arbitrary: ms b)
  case (Suc fuel)
  have step: "wp (on_map (append_token (seq_id s))) (\<lambda>_ t. \<exists>n. kvL (em_cache_map b) (seq_id s) = Some n \<and>
      kvL (em_cache_map t) (seq_id s) = Some (Suc n)) (\<lambda>e _. e \<noteq> NonTermination) b"
    using append_token_length [of "seq_id s" "em_cache_map b"]
    by (auto simp: wp_def on_map_def split: prod.splits sum.splits)
  have len: "on_map (get_sequence_length (seq_id s)) b =
      (case kvL (em_cache_map b) (seq_id s) of None \<Rightarrow> (Inl KeyError, b) | Some n \<Rightarrow> (Inr n, b))"
    by (simp add: on_map_def get_sequence_length_def get_length_def lift_err_def kvL_def dget_def
        split: option.split)
  show ?case
  proof (cases "kvL (em_cache_map b) (seq_id s)")
    case None
    then show ?thesis by (simp add: wp_bnd wp_def [of "on_map (get_sequence_length (seq_id s))"] len)
  next
    case (Some n)
    have "wp (bnd (on_map (append_token (seq_id s))) (\<lambda>cows. em_append_loop fuel s (ms @ cows)))
        (\<lambda>_ _. True) (\<lambda>e _. e \<noteq> NonTermination) b" if "n < seq_get_len s"
      unfolding wp_bnd
      by (rule wp_mono [OF step]) (use that Some Suc.prems in \<open>auto intro!: Suc.IH\<close>)
    then show ?thesis
      using Some by (simp add: wp_bnd [of "on_map (get_sequence_length (seq_id s))"] wp_ret
          wp_def [of "on_map (get_sequence_length (seq_id s))"] len)
  qed
qed simp

lemma em_append_slots_quiet [quiet_intros]: "quiet (em_append_slots s k)"
proof -
  have "quiet (em_append_loop (Suc (seq_get_len s)) s [])"
    unfolding quiet_def by (intro allI em_append_loop_quiet) auto
  then show ?thesis unfolding em_append_slots_def by (intro quiet_intros) simp_all
qed

section \<open>The other operations\<close>

lemma em_quiet [quiet_intros]:
  "quiet (em_get_layer_group_block_tables s)" "quiet (em_can_append_slots g k)" "quiet (em_can_swap_out g)"
  "quiet (em_free s)" "quiet (cpu_extend l bs)" "quiet (cpu_popleft l)"
  unfolding em_get_layer_group_block_tables_def em_can_append_slots_def em_needs_by_group_def
    em_can_swap_out_def em_free_def cpu_extend_def cpu_popleft_def
  by (intro quiet_intros; simp)+

lemma em_swap_out_quiet [quiet_intros]: "quiet (em_swap_out g)"
  unfolding em_swap_out_def swap_out_seq_def swap_out_block_def
  by (assumption | rule quiet_intros | simp)+

end
