(* ===== verification/Scheduler_Running.thy ===== *)
theory Scheduler_Running
  imports Scheduler_Facts Scheduler_Demo Ellm_Quiet
begin

text \<open>
  \<^verbatim>\<open>_schedule_running\<close>: its loops end, and the running queue is split into the scheduled groups,
  the rest of the queue and the preempted groups, which come from the back.
\<close>

section \<open>Merging two lists\<close>

text \<open>\<open>zs\<close> consists of \<open>xs\<close> and \<open>ys\<close>, each in its order.\<close>

definition merge_of :: "'a list \<Rightarrow> 'a list \<Rightarrow> 'a list \<Rightarrow> bool" where
  "merge_of xs ys zs \<longleftrightarrow> subseq xs zs \<and> subseq ys zs \<and> mset zs = mset xs + mset ys"

lemma merge_of_Nil [simp]: "merge_of [] [] []"
  by (simp add: merge_of_def)

lemma merge_of_single [simp]: "merge_of [x] [] [x]" "merge_of [] [x] [x]"
  by (simp_all add: merge_of_def)

lemma merge_of_append:
  "merge_of xs ys zs \<Longrightarrow> merge_of xs' ys' zs' \<Longrightarrow> merge_of (xs @ xs') (ys @ ys') (zs @ zs')"
  by (simp add: merge_of_def list_emb_append_mono)

section \<open>Making room\<close>

text \<open>
  What the inner loop does for the group \<open>r\<close>: it preempts a suffix \<open>rev vic\<close> of the queue, from
  the back, and when that was not enough, the whole queue and \<open>r\<close> itself.
\<close>

definition room_made :: "group_ref \<Rightarrow> running_locals \<Rightarrow> bool \<Rightarrow> running_locals \<Rightarrow> bool" where
  "room_made r l room l' \<longleftrightarrow>
     budget_limits (rl_budget l') = budget_limits (rl_budget l) \<and>
     rl_decode l' = rl_decode l \<and> rl_prefill l' = rl_prefill l \<and> (\<not> room \<longrightarrow> rl_queue l' = []) \<and>
     (\<exists>vic ps ws. rl_queue l = rl_queue l' @ rev vic \<and>
        rl_preempted l' = rl_preempted l @ ps \<and> rl_swapped_out l' = rl_swapped_out l @ ws \<and>
        merge_of ps ws (vic @ (if room then [] else [r])))"

lemma room_made_refl: "room_made r l True l"
  by (simp add: room_made_def)

lemma budget_limits_subtract [simp]:
  "budget_limits (subtract_num_seqs i k b) = budget_limits b"
  "budget_limits (subtract_num_batched_tokens i n b) = budget_limits b"
  by (simp_all add: budget_limits_def subtract_num_seqs_def subtract_num_batched_tokens_def)

lemma record_preempted_merge:
  obtains ps ws where "rl_preempted (record_preempted mode v l) = rl_preempted l @ ps"
    "rl_swapped_out (record_preempted mode v l) = rl_swapped_out l @ ws" "merge_of ps ws [v]"
  by (cases mode) (auto simp: record_preempted_def intro: that [of "[v]" "[]"] that [of "[]" "[v]"])

lemma record_preempted_rest [simp]:
  "rl_budget (record_preempted mode v l) = rl_budget l"
  "rl_decode (record_preempted mode v l) = rl_decode l"
  "rl_prefill (record_preempted mode v l) = rl_prefill l"
  by (cases mode; simp add: record_preempted_def)+

lemma room_made_victim:
  assumes "rl_queue l \<noteq> []" "budget_limits b = budget_limits (rl_budget l)"
    and "room_made r (record_preempted mode (last (rl_queue l))
      (l\<lparr>rl_queue := butlast (rl_queue l), rl_budget := b, rl_loras := L, rl_swap_out := out\<rparr>)) room l'"
  shows "room_made r l room l'"
proof -
  let ?v = "last (rl_queue l)"
  let ?l1 = "l\<lparr>rl_queue := butlast (rl_queue l), rl_budget := b, rl_loras := L, rl_swap_out := out\<rparr>"
  obtain p w where pw: "rl_preempted (record_preempted mode ?v ?l1) = rl_preempted l @ p"
    "rl_swapped_out (record_preempted mode ?v ?l1) = rl_swapped_out l @ w" "merge_of p w [?v]"
    using record_preempted_merge [of mode ?v ?l1] by auto
  obtain vic ps ws where v: "butlast (rl_queue l) = rl_queue l' @ rev vic"
    "rl_preempted l' = (rl_preempted l @ p) @ ps" "rl_swapped_out l' = (rl_swapped_out l @ w) @ ws"
    "merge_of ps ws (vic @ (if room then [] else [r]))"
    using assms(3) pw(1,2) unfolding room_made_def by auto
  have "rl_queue l = rl_queue l' @ rev (?v # vic)"
    using append_butlast_last_id [OF assms(1)] v(1) by simp
  moreover have "merge_of (p @ ps) (w @ ws) ((?v # vic) @ (if room then [] else [r]))"
    using merge_of_append [OF pw(3) v(4)] by simp
  moreover have "budget_limits (rl_budget l') = budget_limits (rl_budget l)"
    "rl_decode l' = rl_decode l" "rl_prefill l' = rl_prefill l" "\<not> room \<longrightarrow> rl_queue l' = []"
    using assms(2,3) unfolding room_made_def by simp_all
  ultimately show ?thesis
    unfolding room_made_def using v(2,3) by (metis append.assoc)
qed

lemma room_made_self:
  assumes "rl_queue l = []" "budget_limits b = budget_limits (rl_budget l)"
  shows "room_made r l False (record_preempted mode r (l\<lparr>rl_budget := b, rl_loras := L, rl_swap_out := out\<rparr>))"
  using assms record_preempted_merge [of mode r "l\<lparr>rl_budget := b, rl_loras := L, rl_swap_out := out\<rparr>"]
  unfolding room_made_def by fastforce

declare make_room.simps [simp del]

lemma make_room_ok:
  "sched_frame s t \<Longrightarrow>
   wp (make_room bm r n l) (\<lambda>(room, l') u. sched_frame s u \<and> room_made r l room l') (\<lambda>_. sched_frame s) t"
proof (induction "length (rl_queue l)" arbitrary: l t rule: less_induct)
  case less
  let ?Q = "\<lambda>(room, l') u. sched_frame s u \<and> room_made r l room l'"
  have stop: "wp (ret (True, l)) ?Q (\<lambda>_. sched_frame s) u" if "sched_frame s u" for u
    using that by (simp add: wp_ret room_made_refl)
  have victim: "wp (make_room bm r n (record_preempted mode (last (rl_queue l))
      (l\<lparr>rl_queue := butlast (rl_queue l), rl_budget := subtract_num_seqs i k
           (subtract_num_batched_tokens i n (rl_budget l)), rl_loras := L, rl_swap_out := out\<rparr>)))
      ?Q (\<lambda>_. sched_frame s) u"
    if "rl_queue l \<noteq> []" "sched_frame s u" for mode i k L out u
    by (rule wp_mono [OF less.hyps [OF _ that(2)]])
      (use that(1) in \<open>auto intro: room_made_victim [OF that(1), rotated]\<close>)
  have self: "wp (ret (False, record_preempted mode r (l\<lparr>rl_budget := subtract_num_seqs i k
        (subtract_num_batched_tokens i n (rl_budget l)), rl_loras := L, rl_swap_out := out\<rparr>)))
      ?Q (\<lambda>_. sched_frame s) u"
    if "\<not> rl_queue l \<noteq> []" "sched_frame s u" for mode i k L out u
    using that by (auto simp: wp_ret intro: room_made_self)
  show ?case
    by (subst make_room.simps)
      (assumption | rule less.prems stop victim self wp_splits | rule wp_bnd_frames | rule frame_intros)+
qed

section \<open>The running loop\<close>

text \<open>
  The sorted queue at any point of the loop: the groups scheduled so far, in their order, the
  queue, and the victims so far, the last one first.
\<close>

definition running_split :: "group_ref list \<Rightarrow> running_locals \<Rightarrow> bool" where
  "running_split q0 l \<longleftrightarrow> (\<exists>sch vic. q0 = sch @ rl_queue l @ rev vic \<and>
     merge_of (ssg_groups (rl_decode l)) (ssg_groups (rl_prefill l)) sch \<and>
     merge_of (rl_preempted l) (rl_swapped_out l) vic)"

definition running_step :: "group_ref list \<Rightarrow> SchedulingBudget \<Rightarrow> running_locals \<Rightarrow> bool" where
  "running_step q0 b l \<longleftrightarrow> running_split q0 l \<and> budget_limits (rl_budget l) = budget_limits b"

text \<open>One round: \<open>r\<close> leaves the head of the queue and is preempted, or scheduled.\<close>

lemma running_step_preempted:
  assumes "running_step q0 b l" "rl_queue l = r # queue"
    and "room_made r (l\<lparr>rl_queue := queue\<rparr>) False l'"
  shows "running_step q0 b l'"
proof -
  obtain sch vic where 1: "q0 = sch @ (r # queue) @ rev vic"
    "merge_of (ssg_groups (rl_decode l)) (ssg_groups (rl_prefill l)) sch"
    "merge_of (rl_preempted l) (rl_swapped_out l) vic"
    using assms(1,2) by (auto simp: running_step_def running_split_def)
  obtain v ps ws where 2: "queue = rev v" "rl_preempted l' = rl_preempted l @ ps"
    "rl_swapped_out l' = rl_swapped_out l @ ws" "merge_of ps ws (v @ [r])"
    using assms(3) by (auto simp: room_made_def)
  have "q0 = sch @ rl_queue l' @ rev (vic @ v @ [r])"
    using assms(3) 1(1) 2(1) by (simp add: room_made_def)
  moreover have "rl_decode l' = rl_decode l" "rl_prefill l' = rl_prefill l"
    "budget_limits (rl_budget l') = budget_limits (rl_budget l)"
    using assms(3) by (simp_all add: room_made_def)
  ultimately show ?thesis
    using assms(1) 1(2) 2(2,3) merge_of_append [OF 1(3) 2(4)]
    unfolding running_step_def running_split_def by metis
qed

lemma running_step_scheduled:
  assumes "running_step q0 b l" "rl_queue l = r # queue"
    and "room_made r (l\<lparr>rl_queue := queue\<rparr>) True l1"
    and l2: "rl_queue l2 = rl_queue l1" "rl_preempted l2 = rl_preempted l1"
      "rl_swapped_out l2 = rl_swapped_out l1" "budget_limits (rl_budget l2) = budget_limits (rl_budget l1)"
      "ssg_groups (rl_decode l2) = ssg_groups (rl_decode l1) @ d"
      "ssg_groups (rl_prefill l2) = ssg_groups (rl_prefill l1) @ p" "merge_of d p [r]"
  shows "running_step q0 b l2"
proof -
  obtain sch vic where 1: "q0 = sch @ (r # queue) @ rev vic"
    "merge_of (ssg_groups (rl_decode l)) (ssg_groups (rl_prefill l)) sch"
    "merge_of (rl_preempted l) (rl_swapped_out l) vic"
    using assms(1,2) by (auto simp: running_step_def running_split_def)
  obtain v ps ws where 2: "queue = rl_queue l1 @ rev v" "rl_preempted l1 = rl_preempted l @ ps"
    "rl_swapped_out l1 = rl_swapped_out l @ ws" "merge_of ps ws v"
    using assms(3) by (auto simp: room_made_def)
  have "q0 = (sch @ [r]) @ rl_queue l2 @ rev (vic @ v)"
    using 1(1) 2(1) l2(1) by simp
  moreover have "rl_decode l1 = rl_decode l" "rl_prefill l1 = rl_prefill l"
    "budget_limits (rl_budget l1) = budget_limits (rl_budget l)"
    using assms(3) by (simp_all add: room_made_def)
  ultimately show ?thesis
    using assms(1) l2 2(2,3) merge_of_append [OF 1(2) l2(7)] merge_of_append [OF 1(3) 2(4)]
    unfolding running_step_def running_split_def by metis
qed

lemma schedule_group_running_ok:
  assumes "sched_frame s t"
  shows "wp (schedule_group_running bm ch r n l)
    (\<lambda>l2 u. sched_frame s u \<and> rl_queue l2 = rl_queue l \<and> rl_preempted l2 = rl_preempted l \<and>
       rl_swapped_out l2 = rl_swapped_out l \<and> budget_limits (rl_budget l2) = budget_limits (rl_budget l) \<and>
       (\<exists>d p. ssg_groups (rl_decode l2) = ssg_groups (rl_decode l) @ d \<and>
          ssg_groups (rl_prefill l2) = ssg_groups (rl_prefill l) @ p \<and> merge_of d p [r]))
    (\<lambda>_. sched_frame s) t"
proof -
  have lim: "budget_limits (add_num_seqs i k b) = budget_limits b"
    "budget_limits (add_num_batched_tokens i m b) = budget_limits b" for i k m b
    by (simp_all add: budget_limits_def add_num_seqs_def add_num_batched_tokens_def)
  show ?thesis
    unfolding schedule_group_running_def
    by (assumption | rule assms wp_split_Let wp_bnd_frames | rule frame_intros)+
      (auto simp: wp_ret lim ssg_groups_def)
qed

text \<open>Without chunking the tokens of a running group are never 0, so the loop empties the queue.\<close>

lemma num_new_tokens_pos:
  assumes "sched_frame s t"
  shows "wp (sched_get_num_new_tokens r st ch b) (\<lambda>n u. sched_frame s u \<and> (\<not> ch \<longrightarrow> 0 < n)) (\<lambda>_. sched_frame s) t"
  using assms by (auto simp: sched_get_num_new_tokens_def group_def wp_simps Let_def)

declare running_loop.simps [simp del]

lemma running_loop_ok:
  assumes "sched_frame s t" "running_step q0 b l"
  shows "wp (running_loop bm ch fuel l)
    (\<lambda>l' u. sched_frame s u \<and> running_step q0 b l' \<and> (\<not> ch \<longrightarrow> rl_queue l' = [])) (\<lambda>_. sched_frame s) t"
  using assms
proof (induction fuel arbitrary: l t)
  case 0
  then show ?case by (simp add: running_loop.simps wp_simps split: list.split)
next
  case (Suc fuel)
  let ?Q = "\<lambda>l' u. sched_frame s u \<and> running_step q0 b l' \<and> (\<not> ch \<longrightarrow> rl_queue l' = [])"
  show ?case
  proof (cases "rl_queue l")
    case Nil
    then show ?thesis using Suc.prems by (simp add: running_loop.simps wp_ret)
  next
    case (Cons r queue)
    have sched: "wp (bnd (schedule_group_running bm ch r n l1) (running_loop bm ch fuel)) ?Q (\<lambda>_. sched_frame s) u"
      if "sched_frame s u" "room_made r (l\<lparr>rl_queue := queue\<rparr>) True l1" for n l1 u
      unfolding wp_bnd
      by (rule wp_mono [OF schedule_group_running_ok [OF that(1)]])
        (auto intro!: Suc.IH running_step_scheduled [OF Suc.prems(2) Cons that(2)])
    have preempted: "wp (running_loop bm ch fuel l1) ?Q (\<lambda>_. sched_frame s) u"
      if "sched_frame s u" "room_made r (l\<lparr>rl_queue := queue\<rparr>) False l1" for l1 u
      by (rule Suc.IH [OF that(1) running_step_preempted [OF Suc.prems(2) Cons that(2)]])
    have round: "wp (bnd (make_room bm r n (l\<lparr>rl_queue := queue\<rparr>)) (\<lambda>(room, l1).
        if room then bnd (schedule_group_running bm ch r n l1) (running_loop bm ch fuel)
        else running_loop bm ch fuel l1)) ?Q (\<lambda>_. sched_frame s) u"
      if "sched_frame s u" for n u
      unfolding wp_bnd
    proof (rule wp_mono [OF make_room_ok [OF that]], goal_cases)
      case (1 x t)
      then show ?case using sched preempted by (cases x; cases "fst x") simp_all
    qed
    show ?thesis
      unfolding running_loop.simps [of _ _ _ l] Cons list.case nat.case
        wp_bnd [of "sched_get_num_new_tokens r RUNNING ch b'" for b']
      by (rule wp_mono [OF num_new_tokens_pos [OF Suc.prems(1)]])
        (use Suc.prems(2) round in \<open>auto simp: wp_ret\<close>)
  qed
qed

section \<open>Termination\<close>

lemma quiet_on_bm [quiet_intros]: "quiet m \<Longrightarrow> quiet (on_bm m)"
  by (auto simp: quiet_def on_bm_def wp_def split: prod.splits sum.splits)

lemma quiet_on_group [quiet_intros]: "quiet m \<Longrightarrow> quiet (on_group r m)"
  by (auto simp: quiet_def on_group_def wp_def split: prod.splits sum.splits)

text \<open>The operations of the manager that the running pass calls end.\<close>

definition quiet_bm :: "('b, 'p) block_manager \<Rightarrow> bool" where
  "quiet_bm bm \<longleftrightarrow> (\<forall>g k. quiet (bm_can_append_slots bm g k)) \<and> (\<forall>s k. quiet (bm_append_slots bm s k)) \<and>
     (\<forall>g. quiet (bm_can_swap_out bm g)) \<and> (\<forall>g. quiet (bm_swap_out bm g)) \<and> (\<forall>s. quiet (bm_free bm s))"

lemma quiet_on_seq [quiet_intros]: "quiet m \<Longrightarrow> quiet (on_seq k m)"
  by (auto simp: quiet_def on_seq_def wp_def split: prod.splits sum.splits option.splits)

lemma quiet_reads [quiet_intros]: "quiet (group r)" "quiet read_time" "quiet read_random"
  unfolding group_def
  by (auto simp: quiet_def wp_def read_time_def read_random_def gets_def)

lemma quiet_num_new_tokens [quiet_intros]: "quiet (sched_get_num_new_tokens r st ch b)"
  unfolding sched_get_num_new_tokens_def by (intro quiet_intros) simp

lemma quiet_set_status [quiet_intros]: "quiet (set_seq_status r k st)" "quiet (set_status_all r P st)"
  unfolding set_seq_status_def set_status_all_def by (intro quiet_intros)+

lemma not_NonTermination [simp]:
  "remove_lora i L \<noteq> Inl NonTermination" "sg_is_prefill g \<noteq> Inl NonTermination"
  by (auto simp: remove_lora_def sg_is_prefill_def split: option.split list.split)

lemma quiet_mode [quiet_intros]: "quiet a \<Longrightarrow> quiet b \<Longrightarrow> quiet (case z of SWAP \<Rightarrow> a | RECOMPUTE \<Rightarrow> b)"
  by (cases z) simp_all

lemma quiet_preempt:
  assumes "quiet_bm bm"
  shows "quiet (preempt bm r out pm)"
  unfolding preempt_def preempt_by_recompute_def sched_free_seq_def sched_swap_out_def
  by (intro quiet_intros) (use assms in \<open>auto simp: quiet_bm_def\<close>)

lemma quiet_can_append:
  assumes "quiet_bm bm"
  shows "quiet (sched_can_append_slots bm r)"
  unfolding sched_can_append_slots_def
  by (intro quiet_intros) (use assms in \<open>auto simp: quiet_bm_def\<close>)

lemma quiet_make_room:
  assumes "quiet_bm bm"
  shows "quiet (make_room bm r n l)"
proof (induction "length (rl_queue l)" arbitrary: l rule: less_induct)
  case less
  have victim: "quiet (make_room bm r n (record_preempted mode v (l\<lparr>rl_queue := butlast (rl_queue l),
      rl_budget := b, rl_loras := L, rl_swap_out := out\<rparr>)))" if "rl_queue l \<noteq> []" for mode v b L out
    by (rule less) (use that in simp)
  show ?case
    by (subst make_room.simps)
      (assumption | rule victim quiet_can_append quiet_preempt assms | rule quiet_intros
       | simp (no_asm_use))+
qed

lemma quiet_schedule_group_running:
  assumes "quiet_bm bm"
  shows "quiet (schedule_group_running bm ch r n l)"
  unfolding schedule_group_running_def sched_append_slots_def
  by (intro quiet_intros) (use assms in \<open>auto simp: quiet_bm_def\<close>)

text \<open>A round leaves a shorter queue.\<close>

lemma room_made_shorter: "room_made r (l\<lparr>rl_queue := queue\<rparr>) room l1 \<Longrightarrow> length (rl_queue l1) \<le> length queue"
  by (auto simp: room_made_def)

lemma running_round:
  assumes "quiet_bm bm"
    and "\<And>l1 t. length (rl_queue l1) \<le> length queue \<Longrightarrow> wp (k l1) Q (\<lambda>e _. e \<noteq> NonTermination) t"
  shows "wp (bnd (make_room bm r n (l\<lparr>rl_queue := queue\<rparr>)) (\<lambda>(room, l1).
      if room then bnd (schedule_group_running bm ch r n l1) k else k l1)) Q (\<lambda>e _. e \<noteq> NonTermination) s"
  unfolding wp_bnd
proof (rule wp_mono [OF wp_conj [OF make_room_ok [OF sched_frame_refl] quietD [OF quiet_make_room [OF assms(1)]]]],
    goal_cases)
  case (1 x t)
  obtain room l1 where x: "x = (room, l1)" by (cases x)
  have l1: "length (rl_queue l1) \<le> length queue"
    using 1 x by (auto dest: room_made_shorter)
  have "wp (schedule_group_running bm ch r n l1) (\<lambda>x. wp (k x) Q (\<lambda>e _. e \<noteq> NonTermination))
      (\<lambda>e _. e \<noteq> NonTermination) t"
    by (rule wp_mono [OF wp_conj [OF schedule_group_running_ok [OF sched_frame_refl]
          quietD [OF quiet_schedule_group_running [OF assms(1)]]]]) (use l1 assms(2) in auto)
  then show ?case using assms(2) l1 by (simp add: x wp_bnd)
qed simp

lemma running_loop_quiet:
  assumes "quiet_bm bm" "length (rl_queue l) \<le> fuel"
  shows "wp (running_loop bm ch fuel l) (\<lambda>_ _. True) (\<lambda>e _. e \<noteq> NonTermination) s"
  using assms(2)
proof (induction fuel arbitrary: l s)
  case (Suc fuel)
  show ?case
  proof (cases "rl_queue l")
    case (Cons r queue)
    with Suc.prems have "length queue \<le> fuel" by simp
    then show ?thesis
      unfolding running_loop.simps [of _ _ _ l] Cons list.case nat.case
      by (subst wp_bnd, intro wp_mono [OF quietD [OF quiet_num_new_tokens]])
        (auto intro!: running_round [OF assms(1)] Suc.IH simp: wp_ret)
  qed (simp add: running_loop.simps wp_ret)
qed (simp add: running_loop.simps wp_ret)

lemma running_loop_more_fuel:
  "length (rl_queue l) \<le> n \<Longrightarrow> length (rl_queue l) \<le> m \<Longrightarrow> running_loop bm ch n l s = running_loop bm ch m l s"
proof (induction n arbitrary: m l s)
  case 0
  then show ?case by (simp add: running_loop.simps)
next
  case (Suc n)
  show ?case
  proof (cases "rl_queue l")
    case Nil
    then show ?thesis by (simp add: running_loop.simps)
  next
    case (Cons r queue)
    then obtain m' where m: "m = Suc m'" "length queue \<le> m'" "length queue \<le> n"
      using Suc.prems by (cases m) auto
    have sched: "bnd (schedule_group_running bm ch r k l1) (running_loop bm ch n) t =
        bnd (schedule_group_running bm ch r k l1) (running_loop bm ch m') t"
      if "length (rl_queue l1) \<le> length queue" for l1 k t
      by (rule bnd_cong_wp, rule wp_mono [OF schedule_group_running_ok [OF sched_frame_refl]])
        (use that m in \<open>auto intro: Suc.IH\<close>)
    have round: "bnd (make_room bm r k (l\<lparr>rl_queue := queue\<rparr>)) (\<lambda>(room, l1).
          if room then bnd (schedule_group_running bm ch r k l1) (running_loop bm ch n)
          else running_loop bm ch n l1) t =
        bnd (make_room bm r k (l\<lparr>rl_queue := queue\<rparr>)) (\<lambda>(room, l1).
          if room then bnd (schedule_group_running bm ch r k l1) (running_loop bm ch m')
          else running_loop bm ch m' l1) t" for k t
    proof (rule bnd_cong_wp, rule wp_mono [OF make_room_ok [OF sched_frame_refl]], goal_cases)
      case (1 x u)
      obtain room l1 where x: "x = (room, l1)" by (cases x)
      with 1 have "length (rl_queue l1) \<le> length queue" by (auto dest: room_made_shorter)
      then show ?case using sched [of l1] m by (auto simp: x intro: Suc.IH)
    qed simp
    show ?thesis
      unfolding running_loop.simps [of _ _ _ l] Cons m(1) list.case nat.case
      by (rule bnd_cong_wp, rule wp_mono [OF quietD [OF quiet_num_new_tokens]]) (use round in auto)
  qed
qed

lemma quiet_ellm: "quiet_bm ellm_block_manager"
  unfolding quiet_bm_def ellm_block_manager_def by (simp, intro conjI allI quiet_intros)

text \<open>
  C14: \<^verbatim>\<open>while running_queue\<close> ends after at most as many rounds as the queue has groups, whichever
  groups the rounds preempt: with a fuel of the queue's length the loop never runs out of it,
  for every manager whose own operations end, and more fuel gives the same run.
\<close>

theorem running_loop_terminates:
  assumes "quiet_bm bm" "length (rl_queue l) \<le> n"
  shows "fst (running_loop bm ch n l s) \<noteq> Inl NonTermination \<and>
    running_loop bm ch n l s = running_loop bm ch (length (rl_queue l)) l s"
proof
  show "fst (running_loop bm ch n l s) \<noteq> Inl NonTermination"
    using running_loop_quiet [OF assms, of ch s]
    by (auto simp: wp_def split: prod.splits sum.splits)
qed (use assms(2) in \<open>auto intro: running_loop_more_fuel\<close>)

text \<open>Two decoding groups that fill the cache and both need one more block.\<close>

definition demo_running_sched :: "ellm_manager scheduler" where
  "demo_running_sched = demo_sched\<lparr>sc_waiting := [], sc_running := [0, 1],
     sc_block_manager := snd (sq (em_allocate (demo_group ''a'' 0 [demo_seq 0 8 WAITING]))
       (em_allocate (demo_group ''b'' 0 [demo_seq 1 8 WAITING])) demo_em),
     sc_groups := (\<lambda>r. if r = 0 then demo_group ''a'' 0 [demo_decode 0 9 RUNNING]
                        else demo_group ''b'' 0 [demo_decode 1 9 RUNNING])\<rparr>"

definition demo_running_locals :: running_locals where
  "demo_running_locals = \<lparr>rl_queue = [0, 1], rl_budget = demo_budget, rl_loras = None, rl_swap_out = [],
     rl_copy = [], rl_decode = [], rl_prefill = [], rl_preempted = [], rl_swapped_out = []\<rparr>"

theorem running_loop_terminates_witness:
  "fst (running_loop ellm_block_manager False 7 demo_running_locals demo_running_sched) \<noteq> Inl NonTermination \<and>
   running_loop ellm_block_manager False 7 demo_running_locals demo_running_sched =
     running_loop ellm_block_manager False 2 demo_running_locals demo_running_sched"
proof -
  have n: "length (rl_queue demo_running_locals) = 2" by (simp add: demo_running_locals_def)
  then have "length (rl_queue demo_running_locals) \<le> 7" by simp
  from running_loop_terminates [OF quiet_ellm this, of False demo_running_sched]
  show ?thesis unfolding n .
qed

section \<open>The method\<close>

definition running_spec ::
  "'b scheduler \<Rightarrow> group_ref list \<Rightarrow> SchedulingBudget \<Rightarrow> Policy \<Rightarrow> bool \<Rightarrow>
   group_ref list \<times> SchedulerRunningOutputs \<times> SchedulingBudget \<times> int set option \<Rightarrow> bool"
where
  "running_spec s q b policy ch = (\<lambda>(rest, ro, b', L').
     (\<not> ch \<longrightarrow> rest = []) \<and> budget_limits b' = budget_limits b \<and>
     (\<exists>q0 sch vic. sort_by_priority policy (sc_time s (sc_time_reads s)) (sc_groups s) q (1 / 2) = Inr q0 \<and>
        q0 = sch @ rest @ rev vic \<and>
        merge_of (ssg_groups (ro_decode_seq_groups ro)) (ssg_groups (ro_prefill_seq_groups ro)) sch \<and>
        merge_of (ro_preempted ro) (ro_swapped_out ro) vic))"

lemma schedule_running_ok:
  "wp (schedule_running bm q b L policy ch) (\<lambda>x t. sched_frame s t \<and> running_spec s q b policy ch x)
     (\<lambda>_ t. sched_frame s t) s"
  unfolding schedule_running_def
proof (rule wp_sorted_queue, goal_cases)
  case (2 q0 t)
  have start: "running_step q0 b \<lparr>rl_queue = q0, rl_budget = b, rl_loras = L, rl_swap_out = [],
      rl_copy = [], rl_decode = [], rl_prefill = [], rl_preempted = [], rl_swapped_out = []\<rparr>"
    unfolding running_step_def running_split_def
    by (auto simp: ssg_groups_def intro!: exI [where x = "[]"])
  show ?case
    unfolding wp_bnd [of "running_loop bm' ch' n l" for bm' ch' n l]
  proof (rule wp_mono [OF running_loop_ok [OF 2(3) start]], goal_cases)
    case (1 l u)
    then have u: "sched_frame s u" and st: "running_step q0 b l" "\<not> ch \<longrightarrow> rl_queue l = []" by auto
    show ?case
      by (assumption | rule u wp_bnd_frames | rule frame_intros)+
        (use st 2(1) in \<open>auto simp: running_spec_def wp_ret running_step_def running_split_def\<close>)
  qed
qed

text \<open>
  C15: \<^verbatim>\<open>_schedule_running\<close> splits the queue, sorted by the policy, into scheduled groups, a rest and
  the preempted groups: no group is lost or duplicated, and the victims are the groups at the
  end, so none has a higher priority than a scheduled one. Without chunking nothing is left.
  An exception leaves the queues and the configuration of the scheduler alone.
\<close>

theorem schedule_running_splits:
  "wp (schedule_running bm q b L policy ch)
     (\<lambda>(rest, ro, b', L') t. sched_frame s t \<and> (\<not> ch \<longrightarrow> rest = []) \<and> budget_limits b' = budget_limits b \<and>
        (\<exists>q0 sch vic. sort_by_priority policy (sc_time s (sc_time_reads s)) (sc_groups s) q (1 / 2) = Inr q0 \<and>
           q0 = sch @ rest @ rev vic \<and>
           merge_of (ssg_groups (ro_decode_seq_groups ro)) (ssg_groups (ro_prefill_seq_groups ro)) sch \<and>
           merge_of (ro_preempted ro) (ro_swapped_out ro) vic))
     (\<lambda>_ t. sched_frame s t) s"
  by (rule wp_mono [OF schedule_running_ok]) (auto simp: running_spec_def split: prod.splits)

text \<open>The second group makes room for the first.\<close>

theorem schedule_running_splits_witness:
  "(case fst (schedule_running ellm_block_manager [0, 1] demo_budget None FCFS False demo_running_sched) of
      Inl _ \<Rightarrow> False
    | Inr (rest, ro, b, _) \<Rightarrow> rest = [] \<and> ssg_groups (ro_decode_seq_groups ro) = [0] \<and>
        ro_preempted ro = [1] \<and> budget_limits b = budget_limits demo_budget)"
proof -
  let ?m = "schedule_running ellm_block_manager [0, 1] demo_budget None FCFS False"
  have e: "(case fst (?m demo_running_sched) of Inl _ \<Rightarrow> False | Inr (rest, ro, _) \<Rightarrow>
      ssg_groups (ro_decode_seq_groups ro) = [0] \<and> ro_preempted ro = [1])"
    by code_simp
  from schedule_running_splits
    [where bm = ellm_block_manager and q = "[0, 1]" and b = demo_budget and L = None and ch = False
      and policy = FCFS and s = demo_running_sched] e
  show ?thesis
    by (cases "?m demo_running_sched") (auto simp: wp_def split: sum.splits)
qed

end
