(* ===== verification/Ellm_Cache_Consts.thy ===== *)
theory Ellm_Cache_Consts
  imports Ellm_Cache_Run
begin

text \<open>
  What no method of the KV map changes: its dimensions. \<open>keeps f m\<close> says that the method \<open>m\<close>
  leaves the value \<open>f\<close> of the state alone, whether it returns or raises.
\<close>

definition keeps :: "('s \<Rightarrow> 'v) \<Rightarrow> ('s, 'a) pym \<Rightarrow> bool" where
  "keeps f m \<longleftrightarrow> (\<forall>s r t. m s = (r, t) \<longrightarrow> f t = f s)"

named_theorems keeps_intros \<open>methods that leave a value alone\<close>

lemma keepsI: "(\<And>s r t. m s = (r, t) \<Longrightarrow> f t = f s) \<Longrightarrow> keeps f m"
  by (auto simp: keeps_def)

lemma keepsD: "keeps f m \<Longrightarrow> m s = (r, t) \<Longrightarrow> f t = f s"
  by (simp add: keeps_def)

lemma keeps_wp: "keeps f m \<Longrightarrow> wp m (\<lambda>_ t. f t = f s) (\<lambda>_ t. f t = f s) s"
  by (auto simp: wp_def dest: keepsD split: prod.split sum.split)

lemma keeps_snd: "keeps f m \<Longrightarrow> f (snd (m s)) = f s"
  by (metis keepsD prod.collapse)

lemma keeps_basic [keeps_intros]:
  "keeps f (ret x)" "keeps f (gets h)" "keeps f (throw e)" "keeps f (lift_err r)"
  "(\<And>s. f (g s) = f s) \<Longrightarrow> keeps f (modify g)"
  by (auto intro!: keepsI simp: ret_def gets_def throw_def lift_err_def modify_def)

lemma keeps_ensure [keeps_intros]: "keeps f (ensure b e)"
  by (simp add: ensure_def keeps_intros)

lemma keeps_bnd [keeps_intros]:
  assumes "keeps f m" "\<And>x. keeps f (k x)"
  shows "keeps f (bnd m k)"
  by (rule keepsI)
    (auto simp: bnd_def split: prod.splits sum.splits dest: keepsD [OF assms(1)] dest!: keepsD [OF assms(2)])

lemma keeps_sq [keeps_intros]: "keeps f m \<Longrightarrow> keeps f k \<Longrightarrow> keeps f (sq m k)"
  unfolding sq_def by (rule keeps_bnd)

lemma keeps_split [keeps_intros]:
  "(b \<Longrightarrow> keeps f m) \<Longrightarrow> (\<not> b \<Longrightarrow> keeps f n) \<Longrightarrow> keeps f (if b then m else n)"
  "keeps f (h y) \<Longrightarrow> keeps f (Let y h)"
  "keeps f m \<Longrightarrow> (\<And>x. keeps f (k x)) \<Longrightarrow> keeps f (case z of None \<Rightarrow> m | Some x \<Rightarrow> k x)"
  "keeps f m \<Longrightarrow> (\<And>x ys. keeps f (k' x ys)) \<Longrightarrow> keeps f (case xs of [] \<Rightarrow> m | x # ys \<Rightarrow> k' x ys)"
  by (simp_all split: option.split list.split)

lemma keeps_case_prod [keeps_intros]: "(\<And>x y. keeps f (k x y)) \<Longrightarrow> keeps f (case p of (x, y) \<Rightarrow> k x y)"
  by (cases p) simp

lemma keeps_fold_each [keeps_intros]: "(\<And>a x. keeps f (body a x)) \<Longrightarrow> keeps f (fold_each xs a body)"
proof (induction xs arbitrary: a)
  case (Cons x xs)
  then show ?case unfolding fold_each.simps by (intro keeps_bnd) auto
qed (simp add: keeps_intros)

lemma keeps_for_each [keeps_intros]: "(\<And>x. keeps f (body x)) \<Longrightarrow> keeps f (for_each xs body)"
  unfolding for_each_def by (rule keeps_fold_each)

lemma keeps_try_except [keeps_intros]:
  assumes "keeps f m" "\<And>e. keeps f (h e)"
  shows "keeps f (try_except m h)"
  by (rule keepsI)
    (auto simp: try_except_def split: prod.splits sum.splits dest: keepsD [OF assms(1)] dest!: keepsD [OF assms(2)])

lemma keeps_fold_catch [keeps_intros]:
  assumes body: "\<And>a x. keeps f (body a x)" and h: "\<And>a e. keeps f (h a e)"
  shows "keeps f (fold_catch xs acc body h)"
proof (induction xs arbitrary: acc)
  case (Cons x xs)
  show ?case
    by (rule keepsI)
      (auto split: prod.splits sum.splits dest: keepsD [OF body] dest!: keepsD [OF h] keepsD [OF Cons.IH])
qed (simp add: keeps_intros)

section \<open>The dimensions of the map\<close>

lemma keeps_pool [keeps_intros]:
  "keeps kv_consts (get_block_ref_count g b)" "keeps kv_consts (set_ref g b n)"
  "keeps kv_consts (set_free g bs)"
  unfolding get_block_ref_count_def set_ref_def set_free_def
  by (intro keeps_intros; simp add: kv_consts_def)+

lemma keeps_blocks [keeps_intros]:
  "keeps kv_consts (allocate_block g)" "keeps kv_consts (retain_block g b)" "keeps kv_consts (free_block g b)"
  unfolding allocate_block_def pop_free_def retain_block_def free_block_def
  by (intro keeps_intros)+

lemma keeps_entries [keeps_intros]:
  "keeps kv_consts (put_entry tmp k entry)" "keeps kv_consts (get_entry tmp k)"
  "keeps kv_consts (pop_entry tmp k)" "keeps kv_consts (pop_and_free tmp k)"
  "keeps kv_consts (rollback_keys tmp ks e)" "keeps kv_consts (get_length i)"
  "keeps kv_consts (get_prefix_blocks i)" "keeps kv_consts (set_length i n)"
  "keeps kv_consts (set_prefix_blocks i n)"
  unfolding put_entry_def get_entry_def pop_entry_def pop_and_free_def rollback_keys_def
    get_length_def get_prefix_blocks_def set_length_def set_prefix_blocks_def
  by (intro keeps_intros; simp add: kv_consts_def kv_dict_update_def)+

lemma keeps_sequences [keeps_intros]:
  "keeps kv_consts (allocate_sequence_with_evicted_prefix s n e)" "keeps kv_consts (fork_sequence p c)"
  "keeps kv_consts (evict_prefix s n)" "keeps kv_consts (free_sequence s)"
  "keeps kv_consts (begin_recompute s g)" "keeps kv_consts (end_recompute s h)"
  unfolding allocate_sequence_with_evicted_prefix_def fork_sequence_def evict_prefix_def
    free_sequence_def begin_recompute_def end_recompute_def get_retained_block_table_def
    get_decode_block_table_def table_put_def
  by (intro keeps_intros; simp add: kv_consts_def)+

lemma keeps_append_token [keeps_intros]: "keeps kv_consts (append_token i)"
  unfolding append_token_def append_new_block_def append_in_tail_def append_cow_blocks_def
  by (intro keeps_intros)

lemma keeps_plans [keeps_intros]:
  "(\<And>a. keeps kv_consts (c a)) \<Longrightarrow> keeps kv_consts (plan_loop g ss acc c)"
  by (induction g ss acc c rule: plan_loop.induct)
    (unfold plan_loop.simps get_recompute_slot_mapping_def get_decode_slot_def,
     (assumption | rule keeps_intros | simp)+)

lemma kv_exec_consts: "keeps kv_consts (kv_exec op)"
  by (cases op)
    (simp_all add: build_layer_group_plans_def build_layer_group_plan_def,
     (assumption | rule keeps_intros)+)

theorem kv_reach_groups:
  "kv_reach m \<Longrightarrow> kv_num_layer_groups m = ceil_div (kv_num_layers m) (kv_layer_group_size m)"
proof (induction rule: kv_reach.induct)
  case (init nl bs np lgs m)
  then show ?case by (auto simp: TokenLayerKVMap_init_def Let_def split: if_splits)
next
  case (step m op)
  then show ?case using keeps_snd [OF kv_exec_consts, of op m] by (simp add: kv_consts_def)
qed

end
