(* ===== verification/Scheduler_Refused.thy ===== *)
theory Scheduler_Refused
  imports Scheduler_Prefill Scheduler_Swapped Ellm_Cache_Consts
begin

text \<open>
  Which groups \<^verbatim>\<open>_schedule_swapped\<close> gives up: exactly those for which the block manager, asked at the
  group's turn in the loop, answers that its blocks can never come back. Their sequences are marked
  as ignored, and the rest of a scheduling step does not touch them any more.
\<close>

section \<open>The groups that a method does not touch\<close>

abbreviation keeps_group :: "group_ref \<Rightarrow> ('b, 'a) sched \<Rightarrow> bool" where
  "keeps_group x m \<equiv> keeps (\<lambda>s. sc_groups s x) m"

lemma keeps_group_basic [keeps_intros]:
  "keeps_group x (on_bm m)" "keeps_group x (group r)" "keeps_group x read_time" "keeps_group x read_random"
  "keeps_group x (sort_queue p now q wt)" "keeps_group x (get_prompt_limit r)"
  "keeps_group x (sched_get_num_new_tokens r st ch b)" "keeps_group x (no_lora_space r L)"
  "keeps_group x (passed_delay now)"
  unfolding sort_queue_def group_def
  by (auto intro!: keepsI split: prod.splits option.splits sum.splits if_splits
      simp: on_bm_def read_time_def read_random_def get_prompt_limit_def
        sched_get_num_new_tokens_def no_lora_space_def passed_delay_def bnd_def sq_def gets_def ret_def throw_def
        ensure_def modify_def lift_err_def Let_def group_def)

lemma keeps_case_status [keeps_intros]:
  "keeps f a \<Longrightarrow> keeps f b \<Longrightarrow> keeps f c \<Longrightarrow> keeps f (case z of OK \<Rightarrow> a | LATER \<Rightarrow> b | NEVER \<Rightarrow> c)"
  by (cases z) simp_all

lemma keeps_other_group [keeps_intros]:
  "r \<noteq> x \<Longrightarrow> keeps_group x (on_group r m)" "r \<noteq> x \<Longrightarrow> keeps_group x (set_status_all r P st)"
  by (auto intro!: keepsI simp: on_group_def set_status_all_def split: prod.splits)

lemma keeps_group_ops [keeps_intros]:
  "keeps_group x (sched_append_slots bm r cs)" "keeps_group x (used_block_ids bm gs ids)"
  "r \<noteq> x \<Longrightarrow> keeps_group x (sched_swap_in bm r i ids)"
  "r \<noteq> x \<Longrightarrow> keeps_group x (allocate_and_set_running bm r)"
  "r \<noteq> x \<Longrightarrow> keeps_group x (ignore_group r pl)"
  "keeps_group x (prefill_size ch r pl)"
  unfolding sched_append_slots_def used_block_ids_def sched_swap_in_def allocate_and_set_running_def
    ignore_group_def prefill_size_def
  by (intro keeps_intros; assumption)+

lemma keeps_group_schedule [keeps_intros]:
  "r \<noteq> x \<Longrightarrow> keeps_group x (schedule_group_swapped bm r lora n k l)"
  "r \<noteq> x \<Longrightarrow> keeps_group x (schedule_group_prefill bm r lora n k pl)"
  unfolding schedule_group_swapped_def schedule_group_prefill_def
  by (intro keeps_intros; assumption)+

lemma keeps_swapped_loop: "x \<notin> set q \<Longrightarrow> keeps_group x (swapped_loop bm ch q l)"
proof (induction q arbitrary: l)
  case (Cons r q)
  then have r: "r \<noteq> x" and IH: "keeps_group x (swapped_loop bm ch q l)" for l by auto
  show ?case unfolding swapped_loop.simps by (intro keeps_intros IH r)
qed (simp add: keeps_intros)

lemma keeps_prefill_loop: "x \<notin> set q \<Longrightarrow> keeps_group x (prefill_loop bm ch q l)"
proof (induction q arbitrary: l)
  case Nil
  show ?case unfolding prefill_loop.simps by (intro keeps_intros)
next
  case (Cons r q)
  then have r: "r \<noteq> x" and IH: "keeps_group x (prefill_loop bm ch q l)" for l by auto
  show ?case unfolding prefill_loop.simps by (intro keeps_intros IH r)
qed

lemma keeps_schedule_prefills: "x \<notin> set q \<Longrightarrow> keeps_group x (schedule_prefills bm q b L ch)"
  unfolding schedule_prefills_def by (intro keeps_intros keeps_prefill_loop) simp_all

section \<open>The groups that are given up\<close>

text \<open>The manager's answer about the group \<open>r\<close> in the state \<open>t\<close> is that it can never come back.\<close>

definition answers_never :: "('b, 'p) block_manager \<Rightarrow> 'b scheduler \<Rightarrow> group_ref \<Rightarrow> bool" where
  "answers_never bm t r \<longleftrightarrow>
     fst (bm_can_swap_in bm (sc_groups t r) (sc_block_manager t)) = Inr NEVER"

text \<open>
  The loop, run on the queue \<open>q\<close>, comes to the group \<open>r\<close> (it goes through all groups before it and
  ends in the state \<open>u\<close>), and there the answer is NEVER.
\<close>

definition refused_by ::
  "('b, 'p) block_manager \<Rightarrow> bool \<Rightarrow> group_ref list \<Rightarrow> swapped_locals \<Rightarrow> 'b scheduler \<Rightarrow> group_ref \<Rightarrow> bool"
where
  "refused_by bm ch q l t r \<longleftrightarrow>
     (\<exists>pre post l1 u. q = pre @ r # post \<and> swapped_loop bm ch pre l t = (Inr ([], l1), u) \<and> answers_never bm u r)"

definition all_ignored :: "'b scheduler \<Rightarrow> group_ref \<Rightarrow> bool" where
  "all_ignored t r \<longleftrightarrow> (\<forall>x \<in> set (get_seqs None (sc_groups t r)). seq_status x = FINISHED_IGNORED)"

lemma set_status_all_ignored:
  "set_status_all r (\<lambda>_. True) FINISHED_IGNORED t = (x, u) \<Longrightarrow> x = Inr () \<and> all_ignored u r"
  by (auto simp: set_status_all_def on_group_def modify_def all_ignored_def get_seqs_def set_status_where_def)

lemma schedule_group_swapped_infeasible:
  "schedule_group_swapped bm r lora n k l t = (Inr l1, u) \<Longrightarrow> wl_infeasible l1 = wl_infeasible l"
  by (auto simp: schedule_group_swapped_def bnd_def ret_def Let_def split: prod.splits sum.splits if_splits)

text \<open>
  What the loop does with the head \<open>r\<close> of its queue, whatever the rest \<open>q\<close> of the queue is: a program
  \<open>F q\<close>, run in \<open>t\<close>, raises, stops, goes on with \<open>q\<close>, or goes on with \<open>q\<close> after \<open>r\<close> was refused.
\<close>

inductive head_outcome ::
  "('b, 'p) block_manager \<Rightarrow> bool \<Rightarrow> group_ref \<Rightarrow> swapped_locals \<Rightarrow> bool \<Rightarrow>
   (group_ref list \<Rightarrow> ('b, group_ref list \<times> swapped_locals) sched) \<Rightarrow> 'b scheduler \<Rightarrow> bool"
  for bm ch r l never
where
  raise: "\<not> never \<Longrightarrow> \<forall>q. F q t = (Inl e, u) \<Longrightarrow> head_outcome bm ch r l never F t"
| stop: "\<not> never \<Longrightarrow> \<forall>q. F q t = (Inr (r # q, l), u) \<Longrightarrow> head_outcome bm ch r l never F t"
| go: "\<not> never \<Longrightarrow> \<forall>q. F q t = swapped_loop bm ch q l' u \<Longrightarrow> wl_infeasible l' = wl_infeasible l \<Longrightarrow>
    head_outcome bm ch r l never F t"
| refuse: "never \<Longrightarrow> \<forall>q. F q t = swapped_loop bm ch q l' u \<Longrightarrow> wl_infeasible l' = wl_infeasible l @ [r] \<Longrightarrow>
    all_ignored u r \<Longrightarrow> head_outcome bm ch r l never F t"

lemma outcome_eq:
  assumes "head_outcome bm ch r l never G u" "\<And>q. F q t = G q u"
  shows "head_outcome bm ch r l never F t"
  using assms(1) by cases (auto simp: assms(2) [symmetric] intro: head_outcome.intros)

lemma outcome_bnd:
  assumes "\<not> never" "\<And>x u. m t = (Inr x, u) \<Longrightarrow> head_outcome bm ch r l never (\<lambda>q. k q x) u"
  shows "head_outcome bm ch r l never (\<lambda>q. bnd m (k q)) t"
proof (cases "m t")
  case (Pair a u)
  show ?thesis
  proof (cases a)
    case (Inl e)
    with Pair assms(1) show ?thesis by (intro raise) (simp_all add: bnd_def)
  next
    case (Inr x)
    with Pair have eq: "bnd m (k q) t = k q x u" for q by (simp add: bnd_def)
    show ?thesis by (rule outcome_eq [OF assms(2) [OF Pair [unfolded Inr]]]) (rule eq)
  qed
qed

lemma outcome_stop: "\<not> never \<Longrightarrow> head_outcome bm ch r l never (\<lambda>q. ret (r # q, l)) t"
  by (rule stop) (simp_all add: ret_def)

lemma outcome_go:
  "\<not> never \<Longrightarrow> wl_infeasible l' = wl_infeasible l \<Longrightarrow>
     head_outcome bm ch r l never (\<lambda>q. swapped_loop bm ch q l') t"
  by (rule go [where l' = l' and u = t]) simp_all

lemma outcome_prod:
  "(\<And>x y. z = (x, y) \<Longrightarrow> head_outcome bm ch r l never (\<lambda>q. k q x y) t) \<Longrightarrow>
     head_outcome bm ch r l never (\<lambda>q. case z of (x, y) \<Rightarrow> k q x y) t"
  by (cases z) simp

lemma outcome_if:
  "(b \<Longrightarrow> head_outcome bm ch r l never F t) \<Longrightarrow> (\<not> b \<Longrightarrow> head_outcome bm ch r l never G t) \<Longrightarrow>
     head_outcome bm ch r l never (\<lambda>q. if b then F q else G q) t"
  by (cases b) simp_all

text \<open>The part of the loop's body after the manager's answer.\<close>

definition after_answer ::
  "('b, 'p) block_manager \<Rightarrow> bool \<Rightarrow> group_ref \<Rightarrow> swapped_locals \<Rightarrow> SequenceGroup \<Rightarrow> AllocStatus \<Rightarrow>
   group_ref list \<Rightarrow> ('b, group_ref list \<times> swapped_locals) sched"
where
  "after_answer bm ch r l g answer queue = (case answer of
       LATER \<Rightarrow> ret (r # queue, l)
     | NEVER \<Rightarrow>
         sq (set_status_all r (\<lambda>_. True) FINISHED_IGNORED)
        (swapped_loop bm ch queue (l\<lparr>wl_infeasible := wl_infeasible l @ [r]\<rparr>))
     | OK \<Rightarrow>
         bnd (no_lora_space r (wl_loras l)) (\<lambda>(lora, full).
         if full then
           swapped_loop bm ch queue (l\<lparr>wl_leftover := r # wl_leftover l\<rparr>)
         else
           let num_new_seqs = get_max_num_running_seqs g in
           bnd (sched_get_num_new_tokens r SWAPPED ch (wl_budget l)) (\<lambda>num_new_tokens.
           bnd (if num_new_tokens = 0 then ret False
                else lift_err (\<lambda>_. can_schedule num_new_tokens num_new_seqs (wl_budget l))) (\<lambda>fits.
           if \<not> fits then ret (r # queue, l)
           else
             bnd (schedule_group_swapped bm r lora num_new_tokens num_new_seqs l)
               (swapped_loop bm ch queue)))))"

lemma swapped_loop_answer:
  "swapped_loop bm ch (r # queue) l = bnd (group r) (\<lambda>g. bnd (on_bm (bm_can_swap_in bm g)) (\<lambda>answer.
     after_answer bm ch r l g answer queue))"
  unfolding swapped_loop.simps after_answer_def ..

lemma outcome_answer:
  assumes never: "never \<longleftrightarrow> answer = NEVER"
  shows "head_outcome bm ch r l never (after_answer bm ch r l g answer) t"
proof (cases answer)
  case LATER
  have "after_answer bm ch r l g LATER = (\<lambda>q. ret (r # q, l))" by (simp add: after_answer_def fun_eq_iff)
  with never show ?thesis unfolding LATER by (auto intro: outcome_stop)
next
  case NEVER
  obtain x u where x: "set_status_all r (\<lambda>_. True) FINISHED_IGNORED t = (x, u)" by fastforce
  note ig = set_status_all_ignored [OF x]
  have "after_answer bm ch r l g NEVER q t =
      swapped_loop bm ch q (l\<lparr>wl_infeasible := wl_infeasible l @ [r]\<rparr>) u" for q
    using x ig by (simp add: after_answer_def sq_def bnd_def)
  with NEVER never ig show ?thesis
    by (intro refuse [where l' = "l\<lparr>wl_infeasible := wl_infeasible l @ [r]\<rparr>" and u = u]) simp_all
next
  case OK
  with never have nn: "\<not> never" by simp
  show ?thesis
    unfolding OK after_answer_def [abs_def] AllocStatus.case Let_def
    by (intro outcome_bnd outcome_prod outcome_if outcome_stop outcome_go nn)
      (auto dest: schedule_group_swapped_infeasible)
qed

lemma head_outcomes:
  "head_outcome bm ch r l (answers_never bm t r) (\<lambda>q. swapped_loop bm ch (r # q) l) t"
proof -
  obtain a b where ask: "bm_can_swap_in bm (sc_groups t r) (sc_block_manager t) = (a, b)" by fastforce
  let ?t = "t\<lparr>sc_block_manager := b\<rparr>"
  show ?thesis
  proof (cases a)
    case (Inl e)
    with ask show ?thesis
      by (intro raise [where e = e and u = ?t])
        (simp_all add: answers_never_def swapped_loop_answer bnd_def group_def gets_def on_bm_def)
  next
    case (Inr answer)
    have never: "answers_never bm t r \<longleftrightarrow> answer = NEVER" by (simp add: answers_never_def ask Inr)
    have eq: "swapped_loop bm ch (r # q) l t = after_answer bm ch r l (sc_groups t r) answer q ?t" for q
      unfolding swapped_loop_answer by (simp add: bnd_def group_def gets_def on_bm_def ask Inr)
    show ?thesis by (rule outcome_eq [OF outcome_answer [OF never]]) (rule eq)
  qed
qed

section \<open>The loop\<close>

lemma refused_by_Nil [simp]: "\<not> refused_by bm ch [] l t x"
  by (simp add: refused_by_def)

lemma refused_by_stop:
  assumes "\<not> answers_never bm t r"
    "\<forall>q l1 u. swapped_loop bm ch (r # q) l t \<noteq> (Inr ([], l1), u)"
  shows "\<not> refused_by bm ch (r # q) l t x"
proof
  assume "refused_by bm ch (r # q) l t x"
  then obtain pre post l1 u where *: "r # q = pre @ x # post" "swapped_loop bm ch pre l t = (Inr ([], l1), u)"
    "answers_never bm u x" by (auto simp: refused_by_def)
  then show False using assms by (cases pre) (auto simp: ret_def)
qed

lemma refused_by_go:
  assumes "\<forall>q. swapped_loop bm ch (r # q) l t = swapped_loop bm ch q l1 u"
  shows "refused_by bm ch (r # q) l t x \<longleftrightarrow> (x = r \<and> answers_never bm t r) \<or> refused_by bm ch q l1 u x"
proof
  assume "refused_by bm ch (r # q) l t x"
  then obtain pre post l2 v where *: "r # q = pre @ x # post" "swapped_loop bm ch pre l t = (Inr ([], l2), v)"
    "answers_never bm v x" by (auto simp: refused_by_def)
  then show "(x = r \<and> answers_never bm t r) \<or> refused_by bm ch q l1 u x"
    using assms by (cases pre) (auto simp: ret_def refused_by_def simp del: swapped_loop.simps(2))
next
  assume "(x = r \<and> answers_never bm t r) \<or> refused_by bm ch q l1 u x"
  then show "refused_by bm ch (r # q) l t x"
  proof
    assume "x = r \<and> answers_never bm t r"
    then show ?thesis unfolding refused_by_def by (intro exI [where x = "[]"] exI [where x = q]) (simp add: ret_def)
  next
    assume "refused_by bm ch q l1 u x"
    then obtain pre post l2 v where "q = pre @ x # post" "swapped_loop bm ch pre l1 u = (Inr ([], l2), v)"
      "answers_never bm v x" by (auto simp: refused_by_def)
    then show ?thesis using assms unfolding refused_by_def
      by (intro exI [where x = "r # pre"] exI [where x = post] exI [where x = l2] exI [where x = v])
        (simp del: swapped_loop.simps(2))
  qed
qed

lemma swapped_loop_refused:
  "swapped_loop bm ch q l t = (Inr (q', l'), t') \<Longrightarrow>
     set (wl_infeasible l') = set (wl_infeasible l) \<union> {x. refused_by bm ch q l t x} \<and>
     (distinct q \<longrightarrow> (\<forall>x. refused_by bm ch q l t x \<longrightarrow> all_ignored t' x))"
proof (induction q arbitrary: l t)
  case Nil
  then show ?case by (simp add: ret_def)
next
  case (Cons r q)
  from head_outcomes [of bm ch r l t] show ?case
  proof cases
    case (raise e u)
    with Cons.prems show ?thesis by simp
  next
    case (stop u)
    then have "\<not> refused_by bm ch (r # q) l t x" for x by (intro refused_by_stop) auto
    with stop Cons.prems show ?thesis by simp
  next
    case (go l1 u)
    then have "swapped_loop bm ch q l1 u = (Inr (q', l'), t')" using Cons.prems by simp
    from Cons.IH [OF this] go refused_by_go [OF go(2)] show ?thesis by auto
  next
    case (refuse l1 u)
    then have run: "swapped_loop bm ch q l1 u = (Inr (q', l'), t')" using Cons.prems by simp
    have "all_ignored t' r" if "r \<notin> set q"
      using refuse(4) keepsD [OF keeps_swapped_loop [OF that] run] by (simp add: all_ignored_def)
    with Cons.IH [OF run] refuse refused_by_go [OF refuse(2)] show ?thesis by auto
  qed
qed

section \<open>The pass and the chunked step\<close>

definition swapped_start :: "SchedulingBudget \<Rightarrow> int set option \<Rightarrow> swapped_locals" where
  "swapped_start b L = \<lparr>wl_budget = b, wl_loras = L, wl_leftover = [], wl_swap_in = [], wl_copy = [],
     wl_ids = [], wl_decode = [], wl_prefill = [], wl_infeasible = []\<rparr>"

lemma schedule_swapped_refused:
  assumes "schedule_swapped bm q b L policy ch t = (Inr (rest, io, b', L'), u)"
  shows "\<exists>queue. sort_by_priority policy (sc_time t (sc_time_reads t)) (sc_groups t) q (1 / 2) = Inr queue \<and>
     set (io_infeasible_seq_groups io) =
       {r. refused_by bm ch queue (swapped_start b L) (t\<lparr>sc_time_reads := Suc (sc_time_reads t)\<rparr>) r} \<and>
     (distinct q \<longrightarrow> (\<forall>r \<in> set (io_infeasible_seq_groups io). all_ignored u r))"
proof -
  let ?t = "t\<lparr>sc_time_reads := Suc (sc_time_reads t)\<rparr>"
  obtain queue where queue: "sort_by_priority policy (sc_time t (sc_time_reads t)) (sc_groups t) q (1 / 2) = Inr queue"
    using assms
    by (auto simp: schedule_swapped_def bnd_def read_time_def sort_queue_def lift_err_def split: sum.splits)
  obtain q' l' where loop: "swapped_loop bm ch queue (swapped_start b L) ?t = (Inr (q', l'), u)"
    and io: "io_infeasible_seq_groups io = wl_infeasible l'"
    using assms queue
    by (auto simp: schedule_swapped_def bnd_def read_time_def sort_queue_def lift_err_def swapped_start_def
        gets_def ret_def split: sum.splits prod.splits)
  have "distinct q \<Longrightarrow> distinct queue"
    using mset_eq_imp_distinct_iff [OF sort_by_priority_mset [OF queue]] by simp
  with swapped_loop_refused [OF loop] queue io show ?thesis by (auto simp: swapped_start_def)
qed

text \<open>
  A swapped group is refused in a chunked step when, after the waiting queue was sorted and the
  running pass has preempted nothing, the loop over the sorted swapped queue comes to it and the
  block manager answers that it can never be swapped in.
\<close>

definition refused_in_step :: "('b, 'p) block_manager \<Rightarrow> 'b scheduler \<Rightarrow> group_ref \<Rightarrow> bool" where
  "refused_in_step bm s r \<longleftrightarrow>
     (\<exists>policy t1 rr ro b L t2 queue.
        sort_waiting s = (Inr policy, t1) \<and>
        schedule_running bm (sc_running t1)
          (SchedulingBudget_new (cfg_max_num_batched_tokens (sc_config s)) (cfg_max_num_seqs (sc_config s)))
          (Some {}) policy True t1 = (Inr (rr, ro, b, L), t2) \<and>
        ro_preempted ro = [] \<and> ro_swapped_out ro = [] \<and>
        sort_by_priority policy (sc_time t2 (sc_time_reads t2)) (sc_groups t2) (sc_swapped t2) (1 / 2) = Inr queue \<and>
        refused_by bm False queue (swapped_start b L) (t2\<lparr>sc_time_reads := Suc (sc_time_reads t2)\<rparr>) r)"

lemma swap_in_phase_refused:
  assumes sorted: "sort_waiting s = (Inr policy, t1)"
    and run: "schedule_running bm (sc_running t1)
          (SchedulingBudget_new (cfg_max_num_batched_tokens (sc_config s)) (cfg_max_num_seqs (sc_config s)))
          (Some {}) policy True t1 = (Inr (rr, ro, b, L), t2)"
    and swap: "swap_in_phase bm policy ro b L t2 = (Inr (rest, io, b', L'), u)"
  shows "set (io_infeasible_seq_groups io) = {r. refused_in_step bm s r}"
    "distinct (sc_swapped t2) \<Longrightarrow> r \<in> set (io_infeasible_seq_groups io) \<Longrightarrow> all_ignored u r"
proof -
  have only: "refused_in_step bm s r \<longleftrightarrow> ro_preempted ro = [] \<and> ro_swapped_out ro = [] \<and>
      (\<exists>queue. sort_by_priority policy (sc_time t2 (sc_time_reads t2)) (sc_groups t2) (sc_swapped t2) (1 / 2) = Inr queue \<and>
        refused_by bm False queue (swapped_start b L) (t2\<lparr>sc_time_reads := Suc (sc_time_reads t2)\<rparr>) r)" for r
    unfolding refused_in_step_def by (simp add: sorted run)
  have "set (io_infeasible_seq_groups io) = {r. refused_in_step bm s r} \<and>
    (distinct (sc_swapped t2) \<longrightarrow> (\<forall>r \<in> set (io_infeasible_seq_groups io). all_ignored u r))"
  proof (cases "ro_preempted ro = [] \<and> ro_swapped_out ro = []")
    case True
    with swap have "schedule_swapped bm (sc_swapped t2) b L policy False t2 = (Inr (rest, io, b', L'), u)"
      by (simp add: swap_in_phase_def bnd_def gets_def)
    from schedule_swapped_refused [OF this] True show ?thesis unfolding only by fastforce
  next
    case False
    with swap have "io = SchedulerSwappedInOutputs_empty"
      by (auto simp: swap_in_phase_def bnd_def gets_def ret_def)
    with False show ?thesis unfolding only by (auto simp: SchedulerSwappedInOutputs_empty_def)
  qed
  then show "set (io_infeasible_seq_groups io) = {r. refused_in_step bm s r}"
    "distinct (sc_swapped t2) \<Longrightarrow> r \<in> set (io_infeasible_seq_groups io) \<Longrightarrow> all_ignored u r" by auto
qed

end
