(* ===== verification/Scheduler_Steps.thy ===== *)
theory Scheduler_Steps
  imports Scheduler_Prefill Scheduler_Swapped Scheduler_Running Scheduler_Refused
begin

text \<open>
  A whole scheduling step: the passes composed, the queues rebuilt. No request is lost or
  duplicated between the three queues and the ignored ones.
\<close>

section \<open>The framed parts\<close>

text \<open>The rules for a framed prefix, with any postcondition for the exceptions.\<close>

lemma wp_bnd_framed:
  assumes "frames m" "sched_frame s t" "\<And>e u. sched_frame s u \<Longrightarrow> E e u"
    and "\<And>x u. sched_frame s u \<Longrightarrow> wp (k x) Q E u"
  shows "wp (bnd m k) Q E t"
  unfolding wp_bnd by (rule wp_frames [OF assms(1,2)]) (use assms(3,4) in auto)

lemma wp_sq_framed:
  assumes "frames m" "sched_frame s t" "\<And>e u. sched_frame s u \<Longrightarrow> E e u"
    and "\<And>u. sched_frame s u \<Longrightarrow> wp k Q E u"
  shows "wp (sq m k) Q E t"
  unfolding sq_def by (rule wp_bnd_framed [OF assms(1-3)]) (use assms(4) in auto)

lemma frames_prompt_lengths [frame_intros]: "frames prompt_lengths"
  unfolding prompt_lengths_def by (intro frame_intros)

lemma frames_choose_batch [frame_intros]: "frames choose_batch"
  unfolding choose_batch_def
  by (intro frame_intros frames_modify) (auto simp: sched_frame_def Let_def split: sum.split)

text \<open>Taking the batch size sets the number of cached layers, and nothing else of the frame.\<close>

lemma pop_batch_ok:
  assumes "sched_frame s t"
  shows "wp pop_batch (\<lambda>_ u. sched_frame (s\<lparr>sc_cache_layers := sc_cache_layers u\<rparr>) u)
    (\<lambda>_ u. sched_frame (s\<lparr>sc_cache_layers := sc_cache_layers u\<rparr>) u) t"
  using assms by (auto simp: pop_batch_def wp_simps sched_frame_def split: list.split)

lemma frames_check_budget [frame_intros]: "frames (check_budget b)"
  unfolding check_budget_def by (intro frame_intros)

text \<open>Sorting the waiting queue keeps its elements; \<open>s\<close> with the queue that is there now:\<close>

definition sorted_frame :: "'b scheduler \<Rightarrow> 'b scheduler \<Rightarrow> bool" where
  "sorted_frame s t \<longleftrightarrow> sched_frame (s\<lparr>sc_waiting := sc_waiting t\<rparr>) t \<and> mset (sc_waiting t) = mset (sc_waiting s)"

lemma sched_sorted_frame: "sched_frame s t \<Longrightarrow> sorted_frame s t"
  by (simp add: sorted_frame_def sched_frame_def)

lemma sorted_frame_trans: "sorted_frame s t \<Longrightarrow> sched_frame t u \<Longrightarrow> sorted_frame s u"
  by (simp add: sorted_frame_def sched_frame_def)

lemma sorted_frameD:
  "sorted_frame s t \<Longrightarrow> mset (sc_waiting t) = mset (sc_waiting s)"
  "sorted_frame s t \<Longrightarrow> sc_running t = sc_running s" "sorted_frame s t \<Longrightarrow> sc_swapped t = sc_swapped s"
  "sorted_frame s t \<Longrightarrow> sc_cache_layers t = sc_cache_layers s"
  by (simp_all add: sorted_frame_def sched_frame_def)

lemma sort_waiting_ok:
  assumes "sched_frame s t"
  shows "wp sort_waiting (\<lambda>_. sorted_frame s) (\<lambda>_. sorted_frame s) t"
  unfolding sort_waiting_def
  using assms
  by (auto simp: wp_simps sort_queue_def wp_read_time
      sched_frame_def sorted_frame_def dest: sort_by_priority_mset split: sum.split)

section \<open>The phases of the default step\<close>

definition groups_of :: "'b scheduler \<Rightarrow> group_ref multiset" where
  "groups_of s = mset (sc_waiting s) + mset (sc_running s) + mset (sc_swapped s)"

definition prefilled :: "'b scheduler \<Rightarrow> group_ref list \<Rightarrow> SchedulerPrefillOutputs \<Rightarrow> bool" where
  "prefilled s rest po \<longleftrightarrow>
     mset rest + mset (ssg_groups (po_seq_groups po)) + mset (po_ignored_seq_groups po) = mset (sc_waiting s) \<and>
     (po_seq_groups po \<noteq> [] \<longrightarrow> sc_swapped s = [])"

lemma prefill_phase_ok:
  assumes "sched_frame s t"
  shows "wp (prefill_phase bm b L) (\<lambda>(rest, po, _) u. sched_frame s u \<and> prefilled s rest po) (\<lambda>_. sched_frame s) t"
proof -
  have q: "sc_waiting t = sc_waiting s" "sc_swapped t = sc_swapped s"
    using assms by (simp_all add: sched_frame_def)
  show ?thesis
    unfolding prefill_phase_def
    using assms wp_mono [OF schedule_prefills_ok [of bm "sc_waiting t" b L False t]]
    by (auto simp: wp_bnd wp_gets wp_ret q prefilled_def prefills_spec_def SchedulerPrefillOutputs_empty_def
        ssg_groups_def intro!: wp_mono [OF schedule_prefills_ok] intro: sched_frame_trans)
qed

definition swapped_back :: "'b scheduler \<Rightarrow> SchedulerRunningOutputs \<Rightarrow> group_ref list \<Rightarrow> SchedulerSwappedInOutputs \<Rightarrow> bool" where
  "swapped_back s ro rest io \<longleftrightarrow>
     mset rest + mset (ssg_groups (io_decode_seq_groups io)) + mset (ssg_groups (io_prefill_seq_groups io)) +
       mset (io_infeasible_seq_groups io) = mset (sc_swapped s) \<and>
     (ro_preempted ro @ ro_swapped_out ro \<noteq> [] \<longrightarrow> io = SchedulerSwappedInOutputs_empty)"

lemma swap_in_phase_ok:
  assumes "sorted_frame s t"
  shows "wp (swap_in_phase bm policy ro b L)
    (\<lambda>(rest, io, b', _) u. sorted_frame s u \<and> swapped_back s ro rest io) (\<lambda>_. sorted_frame s) t"
proof -
  have q: "sc_swapped t = sc_swapped s"
    using assms by (simp add: sorted_frame_def sched_frame_def)
  show ?thesis
    unfolding swap_in_phase_def
    using assms
    by (auto simp: wp_bnd wp_gets wp_ret q swapped_back_def swapped_spec_def
        SchedulerSwappedInOutputs_empty_def ssg_groups_def
        intro!: wp_mono [OF schedule_swapped_ok] intro: sorted_frame_trans)
qed

definition ran :: "'b scheduler \<Rightarrow> group_ref list \<Rightarrow> SchedulerRunningOutputs \<Rightarrow> bool" where
  "ran s rest ro \<longleftrightarrow>
     mset rest + mset (ssg_groups (ro_decode_seq_groups ro)) + mset (ssg_groups (ro_prefill_seq_groups ro)) +
       mset (ro_preempted ro) + mset (ro_swapped_out ro) = mset (sc_running s)"

lemma running_phase_ok:
  assumes "sorted_frame s t" "q = sc_running s"
  shows "wp (schedule_running bm q b L policy ch)
    (\<lambda>(rest, ro, b', _) u. sorted_frame s u \<and> ran s rest ro) (\<lambda>_. sorted_frame s) t"
proof (rule wp_mono [OF schedule_running_ok], goal_cases)
  case (1 x u)
  obtain rest ro b' L' where x: "x = (rest, ro, b', L')" by (cases x)
  from 1 x obtain q0 sch vic where q0: "sort_by_priority policy (sc_time t (sc_time_reads t)) (sc_groups t) q (1 / 2) = Inr q0"
    "q0 = sch @ rest @ rev vic"
    "merge_of (ssg_groups (ro_decode_seq_groups ro)) (ssg_groups (ro_prefill_seq_groups ro)) sch"
    "merge_of (ro_preempted ro) (ro_swapped_out ro) vic"
    by (auto simp: running_spec_def)
  have "mset q = mset sch + mset rest + mset vic"
    using sort_by_priority_mset [OF q0(1)] q0(2) by (simp add: add_ac)
  then have "ran s rest ro"
    using q0(3,4) assms(2) by (simp add: ran_def merge_of_def)
  then show ?case using 1 x assms(1) by (auto intro: sorted_frame_trans)
qed (use assms in \<open>auto intro: sorted_frame_trans\<close>)

lemma decode_phase_ok:
  assumes "sorted_frame s t"
  shows "wp (decode_phase bm policy po b L)
    (\<lambda>(rr, ro, rs, io, _) u. sorted_frame s u \<and> ran s rr ro \<and> swapped_back s ro rs io \<and>
       (po_seq_groups po \<noteq> [] \<longrightarrow> ro = SchedulerRunningOutputs_empty \<and> io = SchedulerSwappedInOutputs_empty))
    (\<lambda>_. sorted_frame s) t"
proof (cases "po_seq_groups po = []")
  case True
  have q: "sc_running t = sc_running s" using assms by (simp add: sorted_frame_def sched_frame_def)
  have swap: "wp (bnd (swap_in_phase bm policy ro b1 L1) (\<lambda>(rs, io, b2, _). ret (rr, ro, rs, io, b2)))
      (\<lambda>(rr, ro, rs, io, _) u. sorted_frame s u \<and> ran s rr ro \<and> swapped_back s ro rs io)
      (\<lambda>_. sorted_frame s) u" if "sorted_frame s u" "ran s rr ro" for rr ro b1 L1 u
    unfolding wp_bnd by (rule wp_mono [OF swap_in_phase_ok [OF that(1)]]) (use that(2) in \<open>auto simp: wp_ret\<close>)
  show ?thesis
    unfolding decode_phase_def if_P [OF True] wp_bnd [of "gets f" for f] wp_gets
      wp_bnd [of "schedule_running bm' q' b' L' p' ch'" for bm' q' b' L' p' ch']
    by (rule wp_mono [OF running_phase_ok [OF assms q]]) (auto intro!: wp_mono [OF swap] simp: True)
next
  case False
  have q: "sc_running t = sc_running s" "sc_swapped t = sc_swapped s"
    using assms by (simp_all add: sorted_frame_def sched_frame_def)
  show ?thesis
    using assms False
    by (simp add: decode_phase_def wp_bnd wp_gets wp_ret q ran_def swapped_back_def ssg_groups_def
        SchedulerRunningOutputs_empty_def SchedulerSwappedInOutputs_empty_def)
qed

section \<open>The outputs\<close>

lemma sort_by_lora_ids_same [simp]:
  "mset (sort_by_lora_ids grp gs) = mset gs" "length (sort_by_lora_ids grp gs) = length gs"
  by (simp_all add: sort_by_lora_ids_def)

lemma post_init_ok:
  "wp (SchedulerOutputs_post_init o')
     (\<lambda>out t. t = s \<and> \<not> (out_blocks_to_swap_in out \<noteq> [] \<and> out_blocks_to_swap_out out \<noteq> []) \<and>
        mset (out_scheduled_seq_groups out) = mset (out_scheduled_seq_groups o') \<and>
        out_num_prefill_groups out = out_num_prefill_groups o' \<and>
        out_num_batched_tokens out = out_num_batched_tokens o' \<and>
        out_ignored_seq_groups out = out_ignored_seq_groups o' \<and>
        out_running_queue_size out = out_running_queue_size o' \<and> out_preempted out = out_preempted o')
     (\<lambda>_ t. t = s) s"
  by (auto simp: SchedulerOutputs_post_init_def wp_simps Let_def)

lemma mset_ssg_groups: "mset (ssg_groups gs) = image_mset ssg_seq_group (mset gs)"
  by (simp add: ssg_groups_def)

text \<open>What a default step promises.\<close>

definition default_post :: "'b scheduler \<Rightarrow> SchedulerOutputs \<Rightarrow> 'b scheduler \<Rightarrow> bool" where
  "default_post s out t \<longleftrightarrow>
     groups_of t + mset (out_ignored_seq_groups out) = groups_of s \<and>
     mset (ssg_groups (out_scheduled_seq_groups out)) \<subseteq># mset (sc_running t) \<and>
     out_num_batched_tokens out \<le> cfg_max_num_batched_tokens (sc_config s) \<and>
     (0 < out_num_prefill_groups out \<longrightarrow>
        out_num_prefill_groups out = length (out_scheduled_seq_groups out) \<and>
        sc_swapped t = [] \<and> out_preempted out = 0) \<and>
     out_running_queue_size out = length (sc_running t) \<and>
     \<not> (out_blocks_to_swap_in out \<noteq> [] \<and> out_blocks_to_swap_out out \<noteq> [])"

lemma check_budget_ok:
  assumes "sorted_frame s t"
  shows "wp (check_budget b) (\<lambda>_ u. u = t \<and> sb_num_batched_tokens b \<le> cfg_max_num_batched_tokens (sc_config s))
    (\<lambda>_ u. u = t) t"
  using assms by (auto simp: check_budget_def wp_simps sorted_frame_def sched_frame_def)

lemma sorted_frame_groups: "sorted_frame s t \<Longrightarrow> groups_of t = groups_of s"
  by (simp add: sorted_frame_def sched_frame_def groups_of_def)

lemma default_finish_ok:
  assumes t: "sorted_frame s t"
    and pre: "prefilled s rest po" "ran s rr ro" "swapped_back s ro rs io"
    and excl: "po_seq_groups po \<noteq> [] \<longrightarrow>
      ro = SchedulerRunningOutputs_empty \<and> io = SchedulerSwappedInOutputs_empty"
  shows "wp (default_finish rest po rr ro rs io b) (default_post s) (\<lambda>_ t. groups_of t \<subseteq># groups_of s) t"
proof -
  let ?t = "t\<lparr>
           sc_waiting := extendleft rest (ro_preempted ro),
           sc_running := rr @ ssg_groups (po_seq_groups po) @
             ssg_groups (ro_decode_seq_groups ro) @ ssg_groups (io_decode_seq_groups io),
           sc_swapped := rs @ ro_swapped_out ro\<rparr>"
  have total: "groups_of ?t + mset (po_ignored_seq_groups po) + mset (io_infeasible_seq_groups io) +
      mset (ssg_groups (ro_prefill_seq_groups ro)) + mset (ssg_groups (io_prefill_seq_groups io)) = groups_of s"
  proof -
    have eqs: "mset (sc_waiting s) = mset rest + mset (ssg_groups (po_seq_groups po)) + mset (po_ignored_seq_groups po)"
      "mset (sc_running s) = mset rr + mset (ssg_groups (ro_decode_seq_groups ro)) +
         mset (ssg_groups (ro_prefill_seq_groups ro)) + mset (ro_preempted ro) + mset (ro_swapped_out ro)"
      "mset (sc_swapped s) = mset rs + mset (ssg_groups (io_decode_seq_groups io)) +
         mset (ssg_groups (io_prefill_seq_groups io)) + mset (io_infeasible_seq_groups io)"
      using pre by (simp_all add: prefilled_def ran_def swapped_back_def)
    show ?thesis by (simp add: groups_of_def eqs extendleft_def add_ac)
  qed
  then have sub: "groups_of ?t \<subseteq># groups_of s"
    by (simp only: total [symmetric] add.assoc mset_subset_eq_add_left)
  have empty: "0 < length (po_seq_groups po) \<Longrightarrow> ro = SchedulerRunningOutputs_empty \<and>
      io = SchedulerSwappedInOutputs_empty \<and> rs = []"
    using excl pre(1,3) by (auto simp: prefilled_def swapped_back_def SchedulerSwappedInOutputs_empty_def ssg_groups_def)
  have fin: "wp (SchedulerOutputs_post_init
       (step_outputs
          (po_seq_groups po @ ro_decode_seq_groups ro @ io_decode_seq_groups io)
          (length (po_seq_groups po))
          (po_ignored_seq_groups po @ io_infeasible_seq_groups io)
          b po ro io (length (sc_running ?t)))) (default_post s) (\<lambda>_ t. groups_of t \<subseteq># groups_of s) ?t"
    if lim: "sb_num_batched_tokens b \<le> cfg_max_num_batched_tokens (sc_config s)" and "ro_prefill_seq_groups ro = []" "io_prefill_seq_groups io = []"
  proof (rule wp_mono [OF post_init_ok], goal_cases)
    case (1 out u)
    then have m: "mset (out_scheduled_seq_groups out) =
        mset (po_seq_groups po @ ro_decode_seq_groups ro @ io_decode_seq_groups io)"
      by (simp add: step_outputs_def)
    then have "mset (ssg_groups (out_scheduled_seq_groups out)) \<subseteq># mset (sc_running u)"
      using 1 by (simp add: mset_ssg_groups)
    moreover have "length (out_scheduled_seq_groups out) =
        length (po_seq_groups po) + length (ro_decode_seq_groups ro) + length (io_decode_seq_groups io)"
      using mset_eq_length [OF m] by simp
    ultimately show ?case
      using 1 total lim empty that
      by (auto simp: default_post_def step_outputs_def ssg_groups_def SchedulerRunningOutputs_empty_def
          SchedulerSwappedInOutputs_empty_def add_ac)
  qed (use sub in simp)
  show ?thesis
    unfolding default_finish_def wp_sq [of "check_budget b"]
    by (rule wp_mono [OF check_budget_ok [OF t]])
      (use fin sub sorted_frame_groups [OF t] in \<open>auto simp: wp_sq wp_modify wp_ensure wp_bnd wp_gets\<close>)
qed

lemma default_phases_ok:
  assumes "sched_frame s t"
  shows "wp (bnd (gets (running_budget n)) (\<lambda>b. bnd (gets running_loras) (\<lambda>L.
      bnd (prefill_phase bm b L) (\<lambda>(rest, po, b1, L1). bnd sort_waiting (\<lambda>policy.
      bnd (decode_phase bm policy po b1 L1) (\<lambda>(rr, ro, rs, io, b2).
      default_finish rest po rr ro rs io b2))))))
    (default_post s) (\<lambda>_ t. groups_of t \<subseteq># groups_of s) t"
proof -
  let ?E = "\<lambda>_ t. groups_of t \<subseteq># groups_of s"
  have stop: "sorted_frame s t \<Longrightarrow> groups_of t \<subseteq># groups_of s"
    "sched_frame s t \<Longrightarrow> groups_of t \<subseteq># groups_of s" for t
    using sorted_frame_groups sched_sorted_frame by fastforce+
  have decode: "wp (bnd (decode_phase bm policy po b1 L1) (\<lambda>(rr, ro, rs, io, b). default_finish rest po rr ro rs io b))
      (default_post s) ?E t" if "sorted_frame s t" "prefilled s rest po" for rest po policy b1 L1 t
    unfolding wp_bnd
    by (rule wp_mono [OF decode_phase_ok [OF that(1)]]) (use that(2) stop in \<open>auto intro!: default_finish_ok\<close>)
  have sort: "wp (bnd sort_waiting (\<lambda>policy. bnd (decode_phase bm policy po b1 L1) (\<lambda>(rr, ro, rs, io, b).
      default_finish rest po rr ro rs io b))) (default_post s) ?E t"
    if "sched_frame s t" "prefilled s rest po" for rest po b1 L1 t
    unfolding wp_bnd [of sort_waiting]
    by (rule wp_mono [OF sort_waiting_ok [OF that(1)]]) (use that(2) stop decode in auto)
  have prefill: "wp (bnd (prefill_phase bm b L) (\<lambda>(rest, po, b1, L1).
      bnd sort_waiting (\<lambda>policy. bnd (decode_phase bm policy po b1 L1) (\<lambda>(rr, ro, rs, io, b).
      default_finish rest po rr ro rs io b)))) (default_post s) ?E t" if "sched_frame s t" for b L t
    unfolding wp_bnd [of "prefill_phase bm b L"]
    by (rule wp_mono [OF prefill_phase_ok [OF that]]) (use stop sort in auto)
  show ?thesis
    unfolding wp_bnd [of "gets f" for f] wp_gets using prefill [OF assms] by simp
qed

lemma schedule_default_ok:
  "wp (schedule_default bm) (default_post s) (\<lambda>_ t. groups_of t \<subseteq># groups_of s) s"
proof -
  let ?E = "\<lambda>_ t. groups_of t \<subseteq># groups_of s"
  let ?s = "\<lambda>x. s\<lparr>sc_cache_layers := x\<rparr>"
  have same: "default_post (?s x) = default_post s" "groups_of (?s x) = groups_of s" for x
    by (simp_all add: default_post_def [abs_def] groups_of_def)
  have stop: "sched_frame (?s x) u \<Longrightarrow> groups_of u \<subseteq># groups_of s" for x u
    using sorted_frame_groups [OF sched_sorted_frame, of "?s x" u] by (simp add: same)
  have pop: "wp (bnd pop_batch k) (default_post s) ?E t"
    if "sched_frame s t" "\<And>n x u. sched_frame (?s x) u \<Longrightarrow> wp (k n) (default_post s) ?E u" for k t
    unfolding wp_bnd by (rule wp_mono [OF pop_batch_ok [OF that(1)]]) (auto intro: that(2) stop)
  show ?thesis
    unfolding schedule_default_def
    by (rule wp_sq_framed [OF frames_choose_batch sched_frame_refl])
      (use stop [of "sc_cache_layers s"] in simp, intro pop default_phases_ok [of "?s x" for x, unfolded same])
qed

text \<open>
  C16: a default scheduling step keeps every request: the three queues afterwards and the ignored
  requests together are the three queues before. The scheduled groups are among the running
  ones, the batch stays within the token limit, prefills are not mixed with decodes, preemption
  or swapping, and blocks never move in both directions. Whatever is raised on the way, no
  request is duplicated.
\<close>

theorem schedule_default_conserves:
  "wp (schedule_default bm)
     (\<lambda>out t. groups_of t + mset (out_ignored_seq_groups out) = groups_of s \<and>
        mset (ssg_groups (out_scheduled_seq_groups out)) \<subseteq># mset (sc_running t) \<and>
        out_num_batched_tokens out \<le> cfg_max_num_batched_tokens (sc_config s) \<and>
        (0 < out_num_prefill_groups out \<longrightarrow>
           out_num_prefill_groups out = length (out_scheduled_seq_groups out) \<and>
           sc_swapped t = [] \<and> out_preempted out = 0) \<and>
        out_running_queue_size out = length (sc_running t) \<and>
        \<not> (out_blocks_to_swap_in out \<noteq> [] \<and> out_blocks_to_swap_out out \<noteq> []))
     (\<lambda>_ t. groups_of t \<subseteq># groups_of s) s"
  by (rule wp_mono [OF schedule_default_ok]) (auto simp: default_post_def)

theorem schedule_default_conserves_witness:
  "(case schedule_default ellm_block_manager demo_sched of
      (Inl _, _) \<Rightarrow> False
    | (Inr out, t) \<Rightarrow> groups_of t + {#2#} = {#0, 1, 2#} \<and> sc_swapped t = [] \<and>
        length (out_scheduled_seq_groups out) = 2)"
proof -
  let ?m = "schedule_default ellm_block_manager"
  have e: "(case fst (?m demo_sched) of Inl _ \<Rightarrow> False | Inr out \<Rightarrow>
      out_ignored_seq_groups out = [2] \<and> out_num_prefill_groups out = 2)"
    by code_simp
  have "sc_waiting demo_sched = [0, 1, 2] \<and> sc_running demo_sched = [] \<and> sc_swapped demo_sched = []"
    by code_simp
  then have g: "groups_of demo_sched = {#0, 1, 2#}" by (simp add: groups_of_def)
  from schedule_default_conserves [where bm = ellm_block_manager and s = demo_sched] e g
  show ?thesis
    by (cases "?m demo_sched") (auto simp: wp_def split: sum.splits)
qed

section \<open>The chunked step\<close>

lemma chunked_finish_ok:
  assumes t: "sorted_frame s t0"
    and pre: "mset rest + mset (ssg_groups (po_seq_groups po)) + mset (po_ignored_seq_groups po) = mset (sc_waiting s)"
      "ran s rr ro" "swapped_back s ro rs io"
  shows "wp (chunked_finish rest po rr ro rs io b)
    (\<lambda>out t. groups_of t + mset (out_ignored_seq_groups out) + mset (io_infeasible_seq_groups io) = groups_of s \<and>
       out_num_batched_tokens out \<le> cfg_max_num_batched_tokens (sc_config s) \<and>
       mset (ssg_groups (out_scheduled_seq_groups out)) \<subseteq># mset (sc_running t) \<and>
       sc_cache_layers t = sc_cache_layers s \<and> sc_groups t = sc_groups t0)
    (\<lambda>_ t. groups_of t \<subseteq># groups_of s) t0"
proof -
  let ?t = "t0\<lparr>
           sc_waiting := extendleft rest (ro_preempted ro),
           sc_running := rr @ ssg_groups (po_seq_groups po) @
             ssg_groups (ro_decode_seq_groups ro) @ ssg_groups (ro_prefill_seq_groups ro) @
             ssg_groups (io_decode_seq_groups io) @ ssg_groups (io_prefill_seq_groups io),
           sc_swapped := rs @ ro_swapped_out ro\<rparr>"
  have total: "groups_of ?t + mset (po_ignored_seq_groups po) + mset (io_infeasible_seq_groups io) = groups_of s"
  proof -
    have eqs: "mset (sc_waiting s) = mset rest + mset (ssg_groups (po_seq_groups po)) + mset (po_ignored_seq_groups po)"
      "mset (sc_running s) = mset rr + mset (ssg_groups (ro_decode_seq_groups ro)) +
         mset (ssg_groups (ro_prefill_seq_groups ro)) + mset (ro_preempted ro) + mset (ro_swapped_out ro)"
      "mset (sc_swapped s) = mset rs + mset (ssg_groups (io_decode_seq_groups io)) +
         mset (ssg_groups (io_prefill_seq_groups io)) + mset (io_infeasible_seq_groups io)"
      using pre by (simp_all add: ran_def swapped_back_def)
    show ?thesis by (simp add: groups_of_def eqs extendleft_def add_ac)
  qed
  then have sub: "groups_of ?t \<subseteq># groups_of s"
    by (simp only: total [symmetric] add.assoc mset_subset_eq_add_left)
  have fin: "wp (SchedulerOutputs_post_init (step_outputs
          (po_seq_groups po @ ro_prefill_seq_groups ro @ io_prefill_seq_groups io @
           ro_decode_seq_groups ro @ io_decode_seq_groups io) n (po_ignored_seq_groups po) b po ro io
          (length (sc_running ?t))))
      (\<lambda>out t. groups_of t + mset (out_ignored_seq_groups out) + mset (io_infeasible_seq_groups io) = groups_of s \<and>
       out_num_batched_tokens out \<le> cfg_max_num_batched_tokens (sc_config s) \<and>
       mset (ssg_groups (out_scheduled_seq_groups out)) \<subseteq># mset (sc_running t) \<and>
       sc_cache_layers t = sc_cache_layers s \<and> sc_groups t = sc_groups t0)
      (\<lambda>_ t. groups_of t \<subseteq># groups_of s) ?t"
    if lim: "sb_num_batched_tokens b \<le> cfg_max_num_batched_tokens (sc_config s)" for n
  proof (rule wp_mono [OF post_init_ok], goal_cases)
    case (1 out u)
    then show ?case using total lim sorted_frameD(4) [OF t] by (simp add: mset_ssg_groups step_outputs_def ac_simps)
  qed (use sub in simp)
  show ?thesis
    unfolding chunked_finish_def wp_sq [of "check_budget b"]
    by (rule wp_mono [OF check_budget_ok [OF t]])
      (use fin sub sorted_frame_groups [OF t] in \<open>auto simp: wp_sq wp_modify wp_bnd wp_gets\<close>)
qed

text \<open>The groups that a chunked step gives up, and what it makes of them.\<close>

definition given_up :: "('b, 'p) block_manager \<Rightarrow> 'b scheduler \<Rightarrow> group_ref list \<Rightarrow> 'b scheduler \<Rightarrow> bool" where
  "given_up bm s infeasible t \<longleftrightarrow>
     set infeasible = {r. refused_in_step bm s r} \<and>
     (distinct (sc_swapped s) \<longrightarrow> (\<forall>r \<in> set infeasible. r \<notin> set (sc_waiting s) \<longrightarrow> all_ignored t r))"

lemma given_up_same:
  assumes "given_up bm s infeasible t"
    and "\<And>r. r \<notin> set (sc_waiting s) \<Longrightarrow> sc_groups u r = sc_groups t r"
  shows "given_up bm s infeasible u"
  using assms by (simp add: given_up_def all_ignored_def)

lemma wp_run: "wp m Q E s \<Longrightarrow> wp m (\<lambda>x t. Q x t \<and> m s = (Inr x, t)) E s"
  by (auto simp: wp_def split: prod.splits sum.splits)

lemma chunked_ok:
  "wp (schedule_chunked_prefill bm)
    (\<lambda>out t. \<exists>infeasible. mset infeasible \<subseteq># mset (sc_swapped s) \<and>
       groups_of t + mset (out_ignored_seq_groups out) + mset infeasible = groups_of s \<and>
       out_num_batched_tokens out \<le> cfg_max_num_batched_tokens (sc_config s) \<and>
       mset (ssg_groups (out_scheduled_seq_groups out)) \<subseteq># mset (sc_running t) \<and>
       sc_cache_layers t = sc_cache_layers s \<and> given_up bm s infeasible t)
    (\<lambda>_ t. groups_of t \<subseteq># groups_of s) s"
proof -
  let ?E = "\<lambda>_ t. groups_of t \<subseteq># groups_of s"
  let ?Q = "\<lambda>out t. \<exists>infeasible. mset infeasible \<subseteq># mset (sc_swapped s) \<and>
       groups_of t + mset (out_ignored_seq_groups out) + mset infeasible = groups_of s \<and>
       out_num_batched_tokens out \<le> cfg_max_num_batched_tokens (sc_config s) \<and>
       mset (ssg_groups (out_scheduled_seq_groups out)) \<subseteq># mset (sc_running t) \<and>
       sc_cache_layers t = sc_cache_layers s \<and> given_up bm s infeasible t"
  let ?b = "SchedulingBudget_new (cfg_max_num_batched_tokens (sc_config s)) (cfg_max_num_seqs (sc_config s))"
  have stop: "sorted_frame s t \<Longrightarrow> groups_of t \<subseteq># groups_of s" for t
    using sorted_frame_groups by fastforce
  have finish: "wp (chunked_finish rest po rr ro rs io b) ?Q ?E t"
    if "sorted_frame s t" "mset rest + mset (ssg_groups (po_seq_groups po)) + mset (po_ignored_seq_groups po) = mset (sc_waiting s)"
      "ran s rr ro" "swapped_back s ro rs io" "given_up bm s (io_infeasible_seq_groups io) t" for rest po rr ro rs io b t
  proof -
    have "mset (io_infeasible_seq_groups io) \<subseteq># mset (sc_swapped s)"
      using that(4) mset_subset_eq_add_right unfolding swapped_back_def by metis
    then show ?thesis
      by (intro wp_mono [OF chunked_finish_ok [OF that(1-4)]]) (use given_up_same [OF that(5)] in auto)
  qed
  have prefill: "wp (bnd (gets sc_waiting) (\<lambda>w. bnd (schedule_prefills bm w b L True)
      (\<lambda>(rest, po, b', _). chunked_finish rest po rr ro rs io b'))) ?Q ?E t"
    if "sorted_frame s t" "ran s rr ro" "swapped_back s ro rs io" "given_up bm s (io_infeasible_seq_groups io) t"
    for rr ro rs io b L t
  proof -
    have w: "set (sc_waiting t) = set (sc_waiting s)" using sorted_frameD(1) [OF that(1)] by (rule mset_eq_setD)
    have kept: "given_up bm s (io_infeasible_seq_groups io) u"
      if "schedule_prefills bm (sc_waiting t) b L True t = (Inr x, u)" for x u
      using that keepsD [OF keeps_schedule_prefills [of _ "sc_waiting t"]]
      by (intro given_up_same [OF \<open>given_up bm s (io_infeasible_seq_groups io) t\<close>]) (simp add: w)
    show ?thesis
      unfolding wp_bnd wp_gets
      by (rule wp_mono [OF wp_run [OF schedule_prefills_ok]])
        (use that stop kept in \<open>auto intro!: finish intro: sorted_frame_trans simp: prefills_spec_def sorted_frameD(1)\<close>)
  qed
  have swap: "wp (bnd (swap_in_phase bm policy ro b L) (\<lambda>(rs, io, b2, L2).
      bnd (gets sc_waiting) (\<lambda>w. bnd (schedule_prefills bm w b2 L2 True)
      (\<lambda>(rest, po, b', _). chunked_finish rest po rr ro rs io b')))) ?Q ?E t"
    if t: "sorted_frame s t" "ran s rr ro" and t1: "sort_waiting s = (Inr policy, t1)"
      "schedule_running bm (sc_running t1) ?b (Some {}) policy True t1 = (Inr (rr, ro, b, L), t)"
    for rr ro b L policy t t1
  proof -
    have up: "given_up bm s (io_infeasible_seq_groups io) u"
      if "swap_in_phase bm policy ro b L t = (Inr (rs, io, b2, L2), u)" for rs io b2 L2 u
      using swap_in_phase_refused [OF t1 that] sorted_frameD(3) [OF t(1)] by (simp add: given_up_def)
    show ?thesis
      unfolding wp_bnd [of "swap_in_phase bm policy ro b L"]
      by (rule wp_mono [OF wp_run [OF swap_in_phase_ok [OF t(1)]]]) (use t(2) stop up in \<open>auto intro!: prefill\<close>)
  qed
  have running: "wp (bnd (gets sc_running) (\<lambda>running. bnd (schedule_running bm running ?b (Some {}) policy True)
      (\<lambda>(rr, ro, b1, L1). bnd (swap_in_phase bm policy ro b1 L1) (\<lambda>(rs, io, b2, L2).
      bnd (gets sc_waiting) (\<lambda>w. bnd (schedule_prefills bm w b2 L2 True)
      (\<lambda>(rest, po, b', _). chunked_finish rest po rr ro rs io b')))))) ?Q ?E t"
    if "sorted_frame s t" "sort_waiting s = (Inr policy, t)" for policy t
    unfolding wp_bnd [of "gets sc_running"] wp_gets
      wp_bnd [of "schedule_running bm' q' b' L' p' ch'" for bm' q' b' L' p' ch']
    by (rule wp_mono [OF wp_run [OF running_phase_ok [OF that(1)]]])
      (use that stop in \<open>auto intro!: swap simp: sorted_frameD(2)\<close>)
  show ?thesis
    unfolding schedule_chunked_prefill_def Let_def wp_bnd [of "gets sc_config"] wp_gets wp_bnd [of sort_waiting]
    by (rule wp_mono [OF wp_run [OF sort_waiting_ok [OF sched_frame_refl]]]) (use stop running in auto)
qed

text \<open>
  C17: a chunked step never duplicates a request, but it loses some: the swapped groups that it
  refuses, which leave the swapped queue and are neither in another queue nor among the ignored
  groups of the outputs, as they are in a default step. A group is refused exactly when the loop over
  the swapped queue comes to it and the block manager then answers that its blocks can never come
  back (\<open>refused_in_step\<close>); a group that only lacks a LoRA slot, blocks or budget is not. All
  sequences of a refused group are marked as ignored when the step ends (when no group stands in the
  queues twice), so nothing else is lost, and what is lost is over.
\<close>

theorem schedule_chunked_loses_only_infeasible:
  "wp (schedule_chunked_prefill bm)
    (\<lambda>out t. \<exists>infeasible. mset infeasible \<subseteq># mset (sc_swapped s) \<and>
       groups_of t + mset (out_ignored_seq_groups out) + mset infeasible = groups_of s \<and>
       set infeasible = {r. refused_in_step bm s r} \<and>
       (distinct (sc_swapped s) \<longrightarrow>
          (\<forall>r \<in> set infeasible. r \<notin> set (sc_waiting s) \<longrightarrow> all_ignored t r)) \<and>
       out_num_batched_tokens out \<le> cfg_max_num_batched_tokens (sc_config s) \<and>
       mset (ssg_groups (out_scheduled_seq_groups out)) \<subseteq># mset (sc_running t))
    (\<lambda>_ t. groups_of t \<subseteq># groups_of s) s"
  by (rule wp_mono [OF chunked_ok]) (auto simp: given_up_def)

text \<open>
  The step on a scheduler with the swapped groups 0 and 1, of which the manager holds only the first:
  0 runs again, 1 is lost, refused, and its sequences are ignored.
\<close>

theorem schedule_chunked_loses_only_infeasible_witness:
  "(case schedule_chunked_prefill ellm_block_manager demo_swapped of
      (Inr out, t) \<Rightarrow> groups_of t = {#0#} \<and> out_ignored_seq_groups out = [] \<and>
        {r. refused_in_step ellm_block_manager demo_swapped r} = {1} \<and> all_ignored t 1
    | _ \<Rightarrow> False)"
proof -
  let ?m = "schedule_chunked_prefill ellm_block_manager"
  obtain out t where run: "?m demo_swapped = (Inr out, t)" and
    q: "sc_waiting t = []" "sc_running t = [0]" "sc_swapped t = []" "out_ignored_seq_groups out = []"
  proof -
    have "(case ?m demo_swapped of
      (Inr out, t) \<Rightarrow> sc_waiting t = [] \<and> sc_running t = [0] \<and> sc_swapped t = [] \<and>
        out_ignored_seq_groups out = []
    | _ \<Rightarrow> False)" by code_simp
    then show ?thesis using that by (auto split: prod.splits sum.splits)
  qed
  have s: "sc_waiting demo_swapped = [] \<and> sc_running demo_swapped = [] \<and> sc_swapped demo_swapped = [0, 1]"
    by code_simp
  from schedule_chunked_loses_only_infeasible [where bm = ellm_block_manager and s = demo_swapped] run
  obtain infeasible where inf: "groups_of t + mset (out_ignored_seq_groups out) + mset infeasible = groups_of demo_swapped"
    "set infeasible = {r. refused_in_step ellm_block_manager demo_swapped r}"
    "\<forall>r \<in> set infeasible. all_ignored t r"
    using s by (auto simp: wp_def)
  have "{#0#} + mset infeasible = {#0, 1#}"
    using inf(1) q s by (simp add: groups_of_def)
  then have "mset infeasible = {#1#}" by (simp add: add_mset_commute)
  then have one: "set infeasible = {1}" by (metis set_mset_mset set_mset_add_mset_insert set_mset_empty)
  then have "all_ignored t 1" using inf(3) by simp
  moreover have "{r. refused_in_step ellm_block_manager demo_swapped r} = {1}" using inf(2) one by simp
  ultimately show ?thesis using q by (simp add: run groups_of_def)
qed

text \<open>The same scheduler state in both modes: the group 1 is ignored by one and lost by the other.\<close>

theorem chunked_step_drops_a_group:
  "(case schedule_default ellm_block_manager demo_swapped of
      (Inr out, t) \<Rightarrow> sc_waiting t = [] \<and> sc_running t = [0] \<and> sc_swapped t = [] \<and>
        out_ignored_seq_groups out = [1]
    | _ \<Rightarrow> False) \<and>
   (case schedule_chunked_prefill ellm_block_manager demo_swapped of
      (Inr out, t) \<Rightarrow> sc_waiting t = [] \<and> sc_running t = [0] \<and> sc_swapped t = [] \<and>
        out_ignored_seq_groups out = []
    | _ \<Rightarrow> False)"
  by code_simp

section \<open>The cached layers in chunked mode\<close>

text \<open>The metadata of a step needs the number of cached layers.\<close>

lemma frames_cache_layers [frame_intros]: "frames cache_layers_attr"
  unfolding cache_layers_attr_def by (intro frame_intros)

lemma frames_decide_do_sample [frame_intros]: "frames (decide_do_sample r chunk)"
  unfolding decide_do_sample_def by (intro frame_intros)

lemma frames_seq_metadata [frame_intros]: "frames (seq_metadata bm r now ts s)"
  by (cases ts) (simp only: seq_metadata_def prod.case, intro frame_intros)

lemma group_metadata_needs_layers:
  assumes "sched_frame s t" "sc_cache_layers s = None"
  shows "wp (group_metadata bm now n sg) (\<lambda>_ _. False) (\<lambda>_ _. True) t"
proof -
  have stop: "wp (bnd cache_layers_attr k) (\<lambda>_ _. False) (\<lambda>_ _. True) u" if "sched_frame s u" for k u
    using that assms(2) by (simp add: cache_layers_attr_def wp_simps sched_frame_def)
  show ?thesis
    unfolding group_metadata_def
    by (assumption | rule assms(1) stop TrueI wp_splits | rule wp_sq_framed [where s = s] wp_bnd_framed [where s = s]
        | rule frame_intros)+
qed

text \<open>
  C18: with chunked prefill the number of cached layers is never set, so \<^verbatim>\<open>schedule\<close> raises on every
  step that would schedule something: it only ever returns an empty batch.
\<close>

theorem chunked_schedule_returns_only_empty:
  assumes "cfg_chunked_prefill_enabled (sc_config s)" "sc_cache_layers s = None"
  shows "wp (schedule bm) (\<lambda>(mds, out) t. out_scheduled_seq_groups out = [] \<and> sc_cache_layers t = None)
    (\<lambda>_ _. True) s"
proof -
  let ?Q = "\<lambda>(mds, out) t. out_scheduled_seq_groups out = [] \<and> sc_cache_layers t = None"
  have none: "attach_plans bm [] = ret []"
    by (simp add: attach_plans_def fun_eq_iff split: option.split)
  have rest: "wp (bnd read_time (\<lambda>now. bnd (collect (out_scheduled_seq_groups out)
        (group_metadata bm now (out_num_prefill_groups out))) (\<lambda>mds. bnd (attach_plans bm mds) (\<lambda>mds'.
        sq (for_each (out_scheduled_seq_groups out) (\<lambda>sg.
              bnd (group (ssg_seq_group sg)) (\<lambda>g. on_bm (bm_mark_blocks_as_computed bm g))))
        (ret (mds', out)))))) ?Q (\<lambda>_ _. True) t"
    if t: "sc_cache_layers t = None" for out t
  proof (cases "out_scheduled_seq_groups out")
    case Nil
    then show ?thesis using t by (simp add: wp_simps wp_read_time none for_each_def)
  next
    case (Cons g gs)
    show ?thesis
      unfolding wp_bnd Cons collect.simps wp_read_time
      by (rule wp_mono [OF group_metadata_needs_layers [OF sched_frame_refl]]) (use t in auto)
  qed
  have step: "wp (schedule_step bm) (\<lambda>_ t. sc_cache_layers t = None) (\<lambda>_ _. True) s"
    using assms by (auto simp: schedule_step_def wp_bnd wp_gets intro: wp_mono [OF chunked_ok])
  show ?thesis
    unfolding schedule_def wp_bnd [of "schedule_step bm"] by (rule wp_mono [OF step]) (use rest in auto)
qed

text \<open>The demo scheduler with chunked prefill has work to do, and raises.\<close>

definition demo_chunked :: "ellm_manager scheduler" where
  "demo_chunked = demo_sched\<lparr>sc_config := demo_config\<lparr>cfg_chunked_prefill_enabled := True\<rparr>\<rparr>"

theorem chunked_schedule_returns_only_empty_witness:
  "fst (schedule ellm_block_manager demo_chunked) = Inl AttributeError \<and>
   wp (schedule ellm_block_manager) (\<lambda>(mds, out) t. out_scheduled_seq_groups out = [] \<and>
     sc_cache_layers t = None) (\<lambda>_ _. True) demo_chunked"
proof -
  have c: "cfg_chunked_prefill_enabled (sc_config demo_chunked)" "sc_cache_layers demo_chunked = None"
    by code_simp+
  have "fst (schedule ellm_block_manager demo_chunked) = Inl AttributeError" by code_simp
  with chunked_schedule_returns_only_empty [OF c, of ellm_block_manager] show ?thesis by simp
qed

end
