(* ===== verification/Scheduler_Abort.thy ===== *)
theory Scheduler_Abort
  imports Scheduler_Facts Scheduler_Demo
begin

text \<open>\<^verbatim>\<open>abort_seq_group\<close>: the aborted requests leave their queue, finished, and nothing else changes.\<close>

abbreviation rid :: "'b scheduler \<Rightarrow> group_ref \<Rightarrow> string" where
  "rid s r \<equiv> sg_request_id (sc_groups s r)"

section \<open>Picking\<close>

lemma pick_aborted_ok:
  "distinct (map (\<lambda>r. sg_request_id (grp r)) q) \<Longrightarrow>
   pick_aborted grp q ids =
     (filter (\<lambda>r. sg_request_id (grp r) \<in> ids) q, ids - (\<lambda>r. sg_request_id (grp r)) ` set q)"
proof (induction q arbitrary: ids)
  case (Cons r q)
  let ?id = "\<lambda>r. sg_request_id (grp r)"
  have d: "distinct (map ?id q)" "?id r \<notin> ?id ` set q" using Cons.prems by auto
  show ?case
  proof (cases "?id r \<in> ids")
    case True
    have "filter (\<lambda>x. ?id x \<in> ids - {?id r}) q = filter (\<lambda>x. ?id x \<in> ids) q"
      using d(2) by (intro filter_cong refl) (metis DiffE DiffI imageI singletonD)
    moreover have "ids - {?id r} - ?id ` set q = ids - ?id ` set (r # q)" by auto
    ultimately show ?thesis
      using True Cons.IH [OF d(1), of "ids - {?id r}"] by auto
  next
    case False
    then have "ids - ?id ` set (r # q) = ids - ?id ` set q" by auto
    then show ?thesis using False Cons.IH [OF d(1), of ids] by simp
  qed
qed simp

section \<open>One group\<close>

definition aborted :: "SequenceGroup \<Rightarrow> SequenceGroup" where
  "aborted g = set_status_where (\<lambda>s. \<not> seq_is_finished s) FINISHED_ABORTED g"

lemma aborted_facts [simp]: "sg_request_id (aborted g) = sg_request_id g" "sg_is_finished (aborted g)"
  by (auto simp: aborted_def set_status_where_def sg_is_finished_def get_seqs_def seq_is_finished_def
      status_is_finished_def)

lemma dset_middle: "k \<notin> set (dkeys xs) \<Longrightarrow> dset k v (xs @ (k, w) # ys) = xs @ (k, v) # ys"
  by (induction xs) auto

text \<open>Everything of the scheduler but the block manager, with the group \<open>r\<close> replaced.\<close>

definition with_group :: "'b scheduler \<Rightarrow> group_ref \<Rightarrow> SequenceGroup \<Rightarrow> 'b scheduler \<Rightarrow> bool" where
  "with_group s r g t \<longleftrightarrow> (\<exists>b. t = s\<lparr>sc_groups := (sc_groups s)(r := g), sc_block_manager := b\<rparr>)"

lemma abort_seqs_ok:
  assumes "distinct (dkeys (sg_seqs_dict (sc_groups s r)))"
  shows "wp (for_each (sg_seqs_dict (sc_groups s r)) (\<lambda>(k, sq1).
       if seq_is_finished sq1 then ret ()
       else sq (set_seq_status r k FINISHED_ABORTED)
              (sched_free_seq bm (sq1\<lparr>seq_status := FINISHED_ABORTED\<rparr>))))
     (\<lambda>_. with_group s r (aborted (sc_groups s r))) (\<lambda>_ t. \<exists>g. with_group s r g t) s"
proof -
  let ?g = "sc_groups s r"
  let ?f = "\<lambda>(k, sq1). (k, if \<not> seq_is_finished sq1 then sq1\<lparr>seq_status := FINISHED_ABORTED\<rparr> else sq1)"
  let ?I = "\<lambda>ys t. \<exists>xs. sg_seqs_dict ?g = xs @ ys \<and> with_group s r (?g\<lparr>sg_seqs_dict := map ?f xs @ ys\<rparr>) t"
  show ?thesis
  proof (rule wp_for_each [where I = ?I])
    show "?I (sg_seqs_dict ?g) s"
      by (auto simp: with_group_def intro: exI [where x = "sc_block_manager s"])
  next
    fix x ys t
    assume "?I (x # ys) t"
    then obtain xs k sq1 where x: "x = (k, sq1)" and d: "sg_seqs_dict ?g = xs @ (k, sq1) # ys"
      and t: "with_group s r (?g\<lparr>sg_seqs_dict := map ?f xs @ (k, sq1) # ys\<rparr>) t"
      by (cases x) auto
    have k: "k \<notin> fst ` set xs" using assms d by auto
    then have k': "k \<notin> set (dkeys (map ?f xs))" by (auto simp: image_iff split: prod.splits)
    then have lookup: "map_of (map ?f xs @ (k, sq1) # ys) k = Some sq1"
      using map_of_eq_None_iff [of "map ?f xs" k] by (simp only: map_of_append map_add_def set_map) simp
    have upd: "dset k v (map ?f xs @ (k, sq1) # ys) = map ?f xs @ (k, v) # ys" for v
      by (rule dset_middle [OF k'])
    have grp: "sc_groups t r = ?g\<lparr>sg_seqs_dict := map ?f xs @ (k, sq1) # ys\<rparr>"
      using t by (auto simp: with_group_def)
    have next_I: "?I ys u" if "with_group s r (?g\<lparr>sg_seqs_dict := map ?f xs @ ?f (k, sq1) # ys\<rparr>) u" for u
      using that d by (intro exI [where x = "xs @ [(k, sq1)]"]) simp
    show "wp (case x of (k, sq1) \<Rightarrow> if seq_is_finished sq1 then ret ()
        else sq (set_seq_status r k FINISHED_ABORTED) (sched_free_seq bm (sq1\<lparr>seq_status := FINISHED_ABORTED\<rparr>)))
        (\<lambda>_. ?I ys) (\<lambda>_ t. \<exists>g. with_group s r g t) t"
    proof (cases "seq_is_finished sq1")
      case True
      then show ?thesis using t by (simp add: x wp_ret next_I)
    next
      case False
      let ?g1 = "?g\<lparr>sg_seqs_dict := map ?f xs @ (k, sq1\<lparr>seq_status := FINISHED_ABORTED\<rparr>) # ys\<rparr>"
      have set: "wp (set_seq_status r k FINISHED_ABORTED) (\<lambda>_. with_group s r ?g1) (\<lambda>_ _. False) t"
        unfolding set_seq_status_def wp_def on_group_def on_seq_def grp
        using t upd lookup
        by (auto simp: modify_def with_group_def intro!: exI [where x = "sc_block_manager t"] scheduler.equality
            split: option.split)
      have free: "wp (sched_free_seq bm v) (\<lambda>_. with_group s r g1) (\<lambda>_. with_group s r g1) u"
        if "with_group s r g1 u" for v g1 u
        using that by (auto simp: sched_free_seq_def on_bm_def wp_def with_group_def split: prod.splits sum.splits)
      show ?thesis
        using False unfolding x prod.case if_not_P [OF False] wp_sq
        by (intro wp_mono [OF set]) (auto intro!: wp_mono [OF free] next_I)
    qed
  next
    fix t
    assume "?I [] t"
    then show "with_group s r (aborted ?g) t"
      by (auto simp: aborted_def set_status_where_def)
  qed
qed

section \<open>The queues\<close>

text \<open>The groups in \<open>A\<close> have left their queues.\<close>

definition without :: "'b scheduler \<Rightarrow> group_ref set \<Rightarrow> 'b scheduler \<Rightarrow> bool" where
  "without s A t \<longleftrightarrow> (\<forall>q. get_queue q t = filter (\<lambda>r. r \<notin> A) (get_queue q s))"

definition abort_state :: "'b scheduler \<Rightarrow> group_ref set \<Rightarrow> 'b scheduler \<Rightarrow> bool" where
  "abort_state s A t \<longleftrightarrow> without s A t \<and>
     sc_groups t = (\<lambda>r. if r \<in> A then aborted (sc_groups s r) else sc_groups s r)"

lemma abort_state_refl: "abort_state s {} s"
  by (simp add: abort_state_def without_def)

definition all_groups :: "'b scheduler \<Rightarrow> group_ref list" where
  "all_groups s = sc_waiting s @ sc_running s @ sc_swapped s"

lemma queues_distinct:
  assumes "distinct (map (rid s) (all_groups s))"
  shows "distinct (map (rid s) (get_queue q s))" "distinct (get_queue q s)"
    "r \<in> set (get_queue q s) \<Longrightarrow> r' \<in> set (get_queue q' s) \<Longrightarrow> rid s r = rid s r' \<Longrightarrow> q = q' \<and> r = r'"
proof -
  show d: "distinct (map (rid s) (get_queue q s))"
    using assms by (cases q) (auto simp: all_groups_def get_queue_def)
  then show "distinct (get_queue q s)" by (simp add: distinct_map)
  assume r: "r \<in> set (get_queue q s)" "r' \<in> set (get_queue q' s)" "rid s r = rid s r'"
  then have "q = q'"
    using assms by (cases q; cases q') (force simp: all_groups_def get_queue_def)+
  with d r show "q = q' \<and> r = r'" by (auto simp: distinct_map dest: inj_onD)
qed

lemma queue_set_queue: "get_queue q' (set_queue q rs s) = (if q' = q then rs else get_queue q' s)"
  by (cases q; cases q') (simp_all add: get_queue_def set_queue_def)

lemma queue_other [simp]: "get_queue q (s\<lparr>sc_groups := gs, sc_block_manager := b\<rparr>) = get_queue q s"
  by (cases q) (simp_all add: get_queue_def)

lemma groups_set_queue [simp]: "sc_groups (set_queue q rs s) = sc_groups s"
  by (cases q) (simp_all add: set_queue_def)

lemma abort_one_ok:
  assumes d: "distinct (map (rid s) (all_groups s))" and r: "r \<in> set (get_queue q s)" "r \<notin> A"
    and keys: "distinct (dkeys (sg_seqs_dict (sc_groups s r)))" and t: "abort_state s A t"
  shows "wp (abort_one bm q r) (\<lambda>_. abort_state s (insert r A)) (\<lambda>_ u. \<exists>A. without s A u) t"
proof -
  let ?t = "set_queue q (remove1 r (get_queue q t)) t"
  have g: "sc_groups ?t r = sc_groups s r"
    using t r(2) by (simp add: abort_state_def)
  have "remove1 r (get_queue q t) = filter (\<lambda>x. x \<notin> insert r A) (get_queue q s)"
    using t queues_distinct(2) [OF d, of q] by (auto simp: abort_state_def without_def distinct_remove1_removeAll
        removeAll_filter_not_eq intro!: filter_cong)
  moreover have "filter (\<lambda>x. x \<notin> insert r A) (get_queue q' s) = filter (\<lambda>x. x \<notin> A) (get_queue q' s)"
    if "q' \<noteq> q" for q'
    using queues_distinct(3) [OF d r(1), of r q'] that by (intro filter_cong) auto
  ultimately have w: "without s (insert r A) ?t"
    using t by (simp add: without_def abort_state_def queue_set_queue)
  have fin: "abort_state s (insert r A) u" if "with_group ?t r (aborted (sc_groups ?t r)) u" for u
    using that w t g by (auto simp: with_group_def abort_state_def without_def)
  have err: "\<exists>A. without s A u" if "\<exists>h. with_group ?t r h u" for u
    using that w by (auto simp: with_group_def without_def intro!: exI [where x = "insert r A"])
  show ?thesis
    unfolding abort_one_def wp_sq wp_modify wp_bnd group_def wp_gets
    by (rule wp_mono [OF abort_seqs_ok [of ?t r]]) (use keys g fin err in auto)
qed

lemma abort_list_ok:
  assumes d: "distinct (map (rid s) (all_groups s))"
    and keys: "\<forall>r \<in> set (all_groups s). distinct (dkeys (sg_seqs_dict (sc_groups s r)))"
  shows "distinct rs \<Longrightarrow> set rs \<subseteq> set (get_queue q s) \<Longrightarrow> set rs \<inter> A = {} \<Longrightarrow> abort_state s A t \<Longrightarrow>
    wp (for_each rs (abort_one bm q)) (\<lambda>_. abort_state s (A \<union> set rs)) (\<lambda>_ u. \<exists>A. without s A u) t"
proof (induction rs arbitrary: A t)
  case Nil
  then show ?case by (simp add: for_each_def wp_ret)
next
  case (Cons r rs)
  have k: "distinct (dkeys (sg_seqs_dict (sc_groups s r)))"
    using keys Cons.prems(2) by (cases q) (auto simp: all_groups_def get_queue_def)
  have "wp (for_each rs (abort_one bm q)) (\<lambda>_. abort_state s (A \<union> set (r # rs))) (\<lambda>_ u. \<exists>A. without s A u) u"
    if "abort_state s (insert r A) u" for u
    using Cons.IH [of "insert r A" u] Cons.prems that by auto
  then show ?case
    unfolding for_each_def fold_each.simps wp_bnd
    by (intro wp_mono [OF abort_one_ok [OF d _ _ k Cons.prems(4)]]) (use Cons.prems in auto)
qed

section \<open>The method\<close>

lemma abort_state_same:
  assumes "abort_state s A t" "set (get_queue q s) \<inter> A = {}"
  shows "get_queue q t = get_queue q s" "rid t = rid s"
proof -
  show "get_queue q t = get_queue q s"
    using assms by (auto simp: abort_state_def without_def intro!: filter_True)
  show "rid t = rid s" using assms(1) by (auto simp: abort_state_def)
qed

text \<open>One queue: the ids that are left are those of no group seen so far.\<close>

lemma abort_queue_ok:
  assumes d: "distinct (map (rid s) (all_groups s))"
    and keys: "\<forall>r \<in> set (all_groups s). distinct (dkeys (sg_seqs_dict (sc_groups s r)))"
    and t: "abort_state s A t" "set (get_queue q s) \<inter> A = {}"
    and ids: "\<forall>r \<in> set (get_queue q s). rid s r \<in> ids' \<longleftrightarrow> rid s r \<in> ids"
  shows "wp (bnd (gets (\<lambda>s. pick_aborted (sc_groups s) (get_queue q s) ids')) (\<lambda>(rs, ids''). sq (for_each rs (abort_one bm q)) (ret ids'')))
    (\<lambda>ids'' u. ids'' = ids' - rid s ` set (get_queue q s) \<and>
       abort_state s (A \<union> {r \<in> set (get_queue q s). rid s r \<in> ids}) u) (\<lambda>_ u. \<exists>A. without s A u) t"
proof -
  let ?rs = "filter (\<lambda>r. rid s r \<in> ids') (get_queue q s)"
  note same = abort_state_same [OF t]
  have pick: "pick_aborted (sc_groups t) (get_queue q t) ids' = (?rs, ids' - rid s ` set (get_queue q s))"
    using pick_aborted_ok [of "sc_groups t" "get_queue q t" ids'] queues_distinct(1) [OF d, of q]
      fun_cong [OF same(2)] same(1) by simp
  have rs: "set ?rs = {r \<in> set (get_queue q s). rid s r \<in> ids}" using ids by auto
  have "wp (for_each ?rs (abort_one bm q)) (\<lambda>_. abort_state s (A \<union> set ?rs)) (\<lambda>_ u. \<exists>A. without s A u) t"
    by (rule abort_list_ok [OF d keys]) (use queues_distinct(2) [OF d, of q] t in auto)
  then show ?thesis
    unfolding wp_bnd wp_gets pick prod.case wp_sq rs by (rule wp_mono) (auto simp: wp_ret)
qed

lemma abort_seq_group_ok:
  assumes d: "distinct (map (rid s) (all_groups s))"
    and keys: "\<forall>r \<in> set (all_groups s). distinct (dkeys (sg_seqs_dict (sc_groups s r)))"
  shows "wp (abort_seq_group bm ids) (\<lambda>_. abort_state s {r \<in> set (all_groups s). rid s r \<in> ids})
    (\<lambda>_ u. \<exists>A. without s A u) s"
proof -
  let ?step = "\<lambda>ids' q. bnd (gets (\<lambda>s. pick_aborted (sc_groups s) (get_queue q s) ids'))
    (\<lambda>(rs, ids''). sq (for_each rs (abort_one bm q)) (ret ids''))"
  let ?seen = "\<lambda>done. \<Union>q \<in> set done. set (get_queue q s)"
  let ?I = "\<lambda>ys ids' t. \<exists>done. [Waiting, Running, Swapped] = done @ ys \<and>
    ids' = ids - rid s ` ?seen done \<and> abort_state s {r \<in> ?seen done. rid s r \<in> ids} t"
  have all: "set (all_groups s) = ?seen [Waiting, Running, Swapped]"
    by (auto simp: all_groups_def get_queue_def)
  show ?thesis
    unfolding abort_seq_group_def wp_bnd [of "fold_each xs a f" for xs a f] wp_ret
  proof (rule wp_fold_each [where I = ?I])
    show "?I [Waiting, Running, Swapped] ids s" by (simp add: abort_state_refl)
  next
    fix q ys ids' t
    assume "?I (q # ys) ids' t"
    then obtain dn where dn: "[Waiting, Running, Swapped] = dn @ q # ys" "ids' = ids - rid s ` ?seen dn"
      "abort_state s {r \<in> ?seen dn. rid s r \<in> ids} t" by blast
    have q: "q \<notin> set dn"
      using dn(1) by (metis disjoint_insert(1) distinct_append distinct_length_2_or_more distinct_singleton
          list.set(2) queue_name.distinct(1,3,5))
    have apart: "rid s r \<notin> rid s ` ?seen dn" "r \<notin> ?seen dn" if "r \<in> set (get_queue q s)" for r
      using q queues_distinct(3) [OF d that] by auto
    show "wp (?step ids' q) (?I ys) (\<lambda>_ u. \<exists>A. without s A u) t"
    proof (rule wp_mono [OF abort_queue_ok [OF d keys dn(3), of q ids' ids]], goal_cases)
      case (3 ids'' u)
      then show ?case
        using dn(1,2) by (intro exI [where x = "dn @ [q]"]) (auto simp: abort_state_def Collect_disj_eq
            conj_disj_distribR Un_commute image_Un intro: back_subst [of "\<lambda>A. without s A u"])
    qed (use apart dn(2) in auto)
  next
    fix ids' t
    assume "?I [] ids' t"
    then show "abort_state s {r \<in> set (all_groups s). rid s r \<in> ids} t" unfolding all by auto
  qed
qed

text \<open>
  C19: aborting requests takes exactly the groups with these ids out of the three queues, in
  place, and marks their unfinished sequences as aborted; every other group and its place in its
  queue are untouched. If the block manager raises on the way, groups have only been removed.
\<close>

theorem abort_seq_group_exact:
  assumes "distinct (map (rid s) (all_groups s))"
    and "\<forall>r \<in> set (all_groups s). distinct (dkeys (sg_seqs_dict (sc_groups s r)))"
  shows "wp (abort_seq_group bm ids)
    (\<lambda>_ t. sc_waiting t = filter (\<lambda>r. rid s r \<notin> ids) (sc_waiting s) \<and>
       sc_running t = filter (\<lambda>r. rid s r \<notin> ids) (sc_running s) \<and>
       sc_swapped t = filter (\<lambda>r. rid s r \<notin> ids) (sc_swapped s) \<and>
       (\<forall>r. sc_groups t r = (if r \<in> set (all_groups s) \<and> rid s r \<in> ids then aborted (sc_groups s r)
          else sc_groups s r)) \<and>
       (\<forall>r \<in> set (all_groups s). rid s r \<in> ids \<longrightarrow> sg_is_finished (sc_groups t r)))
    (\<lambda>_ t. subseq (sc_waiting t) (sc_waiting s) \<and> subseq (sc_running t) (sc_running s) \<and>
       subseq (sc_swapped t) (sc_swapped s)) s"
proof (rule wp_mono [OF abort_seq_group_ok [OF assms]], goal_cases)
  case (1 x t)
  let ?A = "{r \<in> set (all_groups s). rid s r \<in> ids}"
  have q: "get_queue q t = filter (\<lambda>r. rid s r \<notin> ids) (get_queue q s)" for q
  proof -
    have "get_queue q t = filter (\<lambda>r. r \<notin> ?A) (get_queue q s)"
      using 1 unfolding abort_state_def without_def by blast
    moreover have "set (get_queue q s) \<subseteq> set (all_groups s)"
      by (cases q) (auto simp: get_queue_def all_groups_def)
    ultimately show ?thesis by (auto intro!: filter_cong)
  qed
  from q [of Waiting] q [of Running] q [of Swapped] 1 show ?case
    by (auto simp: get_queue_def abort_state_def)
next
  case (2 e t)
  then obtain A where "\<forall>q. get_queue q t = filter (\<lambda>r. r \<notin> A) (get_queue q s)" by (auto simp: without_def)
  from this [THEN spec, of Waiting] this [THEN spec, of Running] this [THEN spec, of Swapped]
  show ?case by (simp add: get_queue_def subseq_filter_left)
qed

theorem abort_seq_group_exact_witness:
  "(case abort_seq_group ellm_block_manager {''b'', ''x''} demo_sched of (r, t) \<Rightarrow>
      r = Inr () \<and> sc_waiting t = [0, 2] \<and> sg_is_finished (sc_groups t 1) \<and> sc_groups t 0 = sc_groups demo_sched 0)"
proof -
  let ?m = "abort_seq_group ellm_block_manager {''b'', ''x''}"
  have h: "distinct (map (rid demo_sched) (all_groups demo_sched))"
    "\<forall>r \<in> set (all_groups demo_sched). distinct (dkeys (sg_seqs_dict (sc_groups demo_sched r)))"
    by code_simp+
  have e: "fst (?m demo_sched) = Inr ()" by code_simp
  have g: "all_groups demo_sched = [0, 1, 2] \<and> sc_waiting demo_sched = [0, 1, 2] \<and>
      rid demo_sched 0 = ''a'' \<and> rid demo_sched 1 = ''b'' \<and> rid demo_sched 2 = ''c''"
    by code_simp
  from abort_seq_group_exact [OF h, of ellm_block_manager "{''b'', ''x''}"] e g show ?thesis
    by (cases "?m demo_sched") (auto simp: wp_def)
qed

end
