(* ===== verification/Block_Evictor.thy ===== *)
theory Block_Evictor
  imports Py_Prelude Complex_Main
begin

text \<open>
  The physical token blocks of \<^verbatim>\<open>vllm/block.py\<close> and the two least-recently-used evictors
  (\<^verbatim>\<open>vllm/core/evictor_v1.py\<close>, \<^verbatim>\<open>vllm/core/evictor_v2.py\<close>). A physical block is an object that
  block tables, free queues and evictors share, so it lives in a heap and is handled by reference.
\<close>

section \<open>Physical token blocks\<close>

datatype Device = GPU | CPU

record PhysicalTokenBlock =
  pb_device :: Device
  pb_block_number :: nat
  pb_block_size :: nat
  pb_block_hash :: int
  pb_num_hashed_tokens :: nat
  pb_ref_count :: nat
  pb_last_accessed :: rat
  pb_computed :: bool

definition DEFAULT_LAST_ACCESSED_TIME :: rat where
  "DEFAULT_LAST_ACCESSED_TIME = -1"

definition PhysicalTokenBlock_init :: "Device \<Rightarrow> nat \<Rightarrow> nat \<Rightarrow> int \<Rightarrow> nat \<Rightarrow> PhysicalTokenBlock" where
  "PhysicalTokenBlock_init device block_number block_size block_hash num_hashed_tokens =
     \<lparr>pb_device = device, pb_block_number = block_number, pb_block_size = block_size,
      pb_block_hash = block_hash, pb_num_hashed_tokens = num_hashed_tokens,
      pb_ref_count = 0, pb_last_accessed = DEFAULT_LAST_ACCESSED_TIME, pb_computed = False\<rparr>"

type_synonym block_ref = nat

record block_heap =
  bh_obj :: "block_ref \<Rightarrow> PhysicalTokenBlock"
  bh_next :: block_ref

definition heap_new :: "PhysicalTokenBlock \<Rightarrow> block_heap \<Rightarrow> block_ref \<times> block_heap" where
  "heap_new b h = (bh_next h, h\<lparr>bh_obj := (bh_obj h)(bh_next h := b), bh_next := Suc (bh_next h)\<rparr>)"

definition heap_set :: "block_ref \<Rightarrow> (PhysicalTokenBlock \<Rightarrow> PhysicalTokenBlock) \<Rightarrow> block_heap \<Rightarrow> block_heap" where
  "heap_set r f h = h\<lparr>bh_obj := (bh_obj h)(r := f (bh_obj h r))\<rparr>"

lemma heap_set_simps [simp]:
  "bh_obj (heap_set r f h) = (bh_obj h)(r := f (bh_obj h r))" "bh_next (heap_set r f h) = bh_next h"
  by (simp_all add: heap_set_def)

section \<open>The evictor of the first block manager\<close>

datatype EvictionPolicy = LRU

text \<open>
  The free table maps the hash of a freed block to the block. \<open>evict\<close> starts from its first block
  and walks on while the time stamp is not later, keeping the block with most hashed tokens.
\<close>

type_synonym lru_evictor = "(int, block_ref) pydict"

definition make_evictor :: "EvictionPolicy \<Rightarrow> lru_evictor" where
  "make_evictor eviction_policy = (case eviction_policy of LRU \<Rightarrow> [])"

definition evictor_contains :: "int \<Rightarrow> lru_evictor \<Rightarrow> bool" where
  "evictor_contains block_hash ev \<longleftrightarrow> block_hash \<in> set (dkeys ev)"

fun evict_scan :: "(block_ref \<Rightarrow> PhysicalTokenBlock) \<Rightarrow> block_ref \<Rightarrow> block_ref list \<Rightarrow> block_ref" where
  "evict_scan obj evicted [] = evicted"
| "evict_scan obj evicted (r # rs) =
     (if pb_last_accessed (obj evicted) < pb_last_accessed (obj r) then evicted
      else if pb_num_hashed_tokens (obj evicted) < pb_num_hashed_tokens (obj r) then evict_scan obj r rs
      else evict_scan obj evicted rs)"

definition evictor_evict :: "(lru_evictor \<times> block_heap, block_ref) pym" where
  "evictor_evict =
     bnd (gets id) (\<lambda>(ev, h).
     case map snd ev of
       [] \<Rightarrow> throw (ValueError ''No usable cache memory left'')
     | r # rs \<Rightarrow>
         let evicted = evict_scan (bh_obj h) r (r # rs);
             key = pb_block_hash (bh_obj h evicted) in
         sq (ensure (key \<in> set (dkeys ev)) KeyError)
        (sq (modify (\<lambda>(ev, h). (ddel key ev, heap_set evicted (\<lambda>b. b\<lparr>pb_computed := False\<rparr>) h)))
        (ret evicted)))"

definition evictor_add :: "block_ref \<Rightarrow> (lru_evictor \<times> block_heap, unit) pym" where
  "evictor_add r = modify (\<lambda>(ev, h). (dset (pb_block_hash (bh_obj h r)) r ev, h))"

definition evictor_remove :: "int \<Rightarrow> (lru_evictor \<times> block_heap, block_ref) pym" where
  "evictor_remove block_hash =
     bnd (gets id) (\<lambda>(ev, h).
     case map_of ev block_hash of
       None \<Rightarrow> throw (ValueError ''Attempting to remove a block not in the evictor'')
     | Some r \<Rightarrow> sq (modify (\<lambda>(ev, h). (ddel block_hash ev, h))) (ret r))"

definition evictor_num_blocks :: "lru_evictor \<Rightarrow> nat" where
  "evictor_num_blocks ev = length ev"

section \<open>The evictor of the second block manager\<close>

text \<open>It is keyed by block id and holds the meta data itself; its scan visits the whole table.\<close>

record BlockMetaData =
  bd_content_hash :: int
  bd_num_hashed_tokens :: nat
  bd_last_accessed :: rat

type_synonym lru_evictor2 = "(nat, BlockMetaData) pydict"

fun evict2_scan :: "nat \<times> BlockMetaData \<Rightarrow> (nat \<times> BlockMetaData) list \<Rightarrow> nat \<times> BlockMetaData" where
  "evict2_scan evicted [] = evicted"
| "evict2_scan evicted (b # bs) =
     (if bd_last_accessed (snd evicted) > bd_last_accessed (snd b) \<or>
         (bd_last_accessed (snd evicted) = bd_last_accessed (snd b) \<and>
          bd_num_hashed_tokens (snd evicted) < bd_num_hashed_tokens (snd b))
      then evict2_scan b bs else evict2_scan evicted bs)"

definition evictor2_evict :: "(lru_evictor2, nat \<times> int) pym" where
  "evictor2_evict =
     bnd (gets id) (\<lambda>ev.
     case ev of
       [] \<Rightarrow> throw (ValueError ''No usable cache memory left'')
     | b # bs \<Rightarrow>
         (case evict2_scan b (b # bs) of (block_id, meta) \<Rightarrow>
            sq (modify (ddel block_id)) (ret (block_id, bd_content_hash meta))))"

definition evictor2_add :: "nat \<Rightarrow> int \<Rightarrow> nat \<Rightarrow> rat \<Rightarrow> lru_evictor2 \<Rightarrow> lru_evictor2" where
  "evictor2_add block_id content_hash num_hashed_tokens last_accessed ev =
     dset block_id \<lparr>bd_content_hash = content_hash, bd_num_hashed_tokens = num_hashed_tokens,
       bd_last_accessed = last_accessed\<rparr> ev"

definition evictor2_update :: "nat \<Rightarrow> rat \<Rightarrow> (lru_evictor2, unit) pym" where
  "evictor2_update block_id last_accessed =
     bnd (lift_err (\<lambda>ev. dget ev block_id)) (\<lambda>meta.
     modify (dset block_id (meta\<lparr>bd_last_accessed := last_accessed\<rparr>)))"

definition evictor2_remove :: "nat \<Rightarrow> (lru_evictor2, unit) pym" where
  "evictor2_remove block_id =
     bnd (gets id) (\<lambda>ev.
     sq (ensure (block_id \<in> set (dkeys ev))
          (ValueError ''Attempting to remove a block not in the evictor''))
    (modify (ddel block_id)))"

section \<open>Eviction order\<close>

text \<open>
  The reference: a block to evict is one with the earliest time stamp, among these with the most
  hashed tokens, and among these the first of the table.
\<close>

definition evict_before :: "rat \<times> nat \<Rightarrow> rat \<times> nat \<Rightarrow> bool" where
  "evict_before a b \<longleftrightarrow> fst a < fst b \<or> (fst a = fst b \<and> snd a > snd b)"

definition lru_choice :: "('k \<Rightarrow> rat \<times> nat) \<Rightarrow> 'k list \<Rightarrow> 'k \<Rightarrow> bool" where
  "lru_choice prio ks k \<longleftrightarrow>
     (\<exists>xs ys. ks = xs @ k # ys \<and> (\<forall>x \<in> set xs. evict_before (prio k) (prio x)) \<and>
        (\<forall>y \<in> set ys. \<not> evict_before (prio y) (prio k)))"

lemma evict_before_trans: "evict_before a b \<Longrightarrow> evict_before b c \<Longrightarrow> evict_before a c"
  by (auto simp: evict_before_def)

lemma evict_before_total: "\<not> evict_before a b \<Longrightarrow> evict_before c b \<Longrightarrow> evict_before c a"
  by (auto simp: evict_before_def)

lemma lru_choice_unique: "lru_choice prio ks k \<Longrightarrow> lru_choice prio ks k' \<Longrightarrow> k = k'"
proof -
  have aux: "k = k'" if "xs @ k # ys = xs' @ k' # ys'" "length xs \<le> length xs'"
    "\<forall>x \<in> set xs'. evict_before (prio k') (prio x)" "\<forall>y \<in> set ys. \<not> evict_before (prio y) (prio k)"
    for xs ys xs' ys' and k k' :: 'a
  proof (cases "length xs = length xs'")
    case False
    with that(1,2) obtain zs where "xs' = xs @ k # zs" "ys = zs @ k' # ys'"
      by (auto simp: append_eq_append_conv2 Cons_eq_append_conv)
    with that(3,4) show ?thesis by auto
  qed (use that(1) in auto)
  assume "lru_choice prio ks k" "lru_choice prio ks k'"
  then obtain xs ys xs' ys' where
    k: "ks = xs @ k # ys" "\<forall>x \<in> set xs. evict_before (prio k) (prio x)"
      "\<forall>y \<in> set ys. \<not> evict_before (prio y) (prio k)" and
    k': "ks = xs' @ k' # ys'" "\<forall>x \<in> set xs'. evict_before (prio k') (prio x)"
      "\<forall>y \<in> set ys'. \<not> evict_before (prio y) (prio k')"
    unfolding lru_choice_def by blast
  show "k = k'"
    by (cases "length xs \<le> length xs'")
      (use aux [of xs k ys xs' k' ys'] aux [of xs' k' ys' xs k ys] k k' in auto)
qed

text \<open>A scan of the whole table from its first element finds the reference choice.\<close>

lemma lru_choice_scan:
  assumes "\<And>e. scan e [] = e"
    and "\<And>e b bs. scan e (b # bs) = (if evict_before (prio b) (prio e) then scan b bs else scan e bs)"
  shows "lru_choice prio (x # xs) (scan x xs)"
proof -
  have "lru_choice prio (zs @ e # ws @ xs) (scan e xs)"
    if "\<forall>z \<in> set zs. evict_before (prio e) (prio z)" "\<forall>w \<in> set ws. \<not> evict_before (prio w) (prio e)"
    for zs e ws
    using that
  proof (induction xs arbitrary: zs e ws)
    case Nil
    then show ?case by (auto simp: assms lru_choice_def)
  next
    case (Cons b bs)
    show ?case
    proof (cases "evict_before (prio b) (prio e)")
      case True
      have "\<forall>z \<in> set (zs @ e # ws). evict_before (prio b) (prio z)"
        using Cons.prems True by (auto intro: evict_before_trans evict_before_total)
      from Cons.IH [OF this, of "[]"] show ?thesis by (simp add: assms True)
    next
      case False
      from Cons.IH [of zs e "ws @ [b]"] Cons.prems False show ?thesis by (simp add: assms False)
    qed
  qed
  from this [of "[]" x "[]"] show ?thesis by simp
qed

definition pb_prio :: "(block_ref \<Rightarrow> PhysicalTokenBlock) \<Rightarrow> block_ref \<Rightarrow> rat \<times> nat" where
  "pb_prio obj r = (pb_last_accessed (obj r), pb_num_hashed_tokens (obj r))"

definition bd_prio :: "nat \<times> BlockMetaData \<Rightarrow> rat \<times> nat" where
  "bd_prio e = (bd_last_accessed (snd e), bd_num_hashed_tokens (snd e))"

lemma evict2_scan_choice: "lru_choice bd_prio (b # bs) (evict2_scan b (b # bs))"
proof -
  have "lru_choice bd_prio (b # bs) (evict2_scan b bs)"
    by (rule lru_choice_scan) (auto simp: evict_before_def bd_prio_def)
  then show ?thesis by (simp add: evict_before_def)
qed

text \<open>The first evictor stops early, which is right on tables in the order of their time stamps.\<close>

lemma evict_scan_choice:
  assumes "sorted_wrt (\<lambda>a b. pb_last_accessed (obj a) \<le> pb_last_accessed (obj b)) (r # rs)"
  shows "lru_choice (pb_prio obj) (r # rs) (evict_scan obj r (r # rs))"
proof -
  let ?scan = "\<lambda>e bs. fold (\<lambda>b e. if evict_before (pb_prio obj b) (pb_prio obj e) then b else e) bs e"
  have late: "?scan e bs = e" if "\<forall>b \<in> set bs. pb_last_accessed (obj e) < pb_last_accessed (obj b)" for e bs
    using that by (induction bs) (auto simp: evict_before_def pb_prio_def)
  have "evict_scan obj e bs = ?scan e bs"
    if "\<forall>b \<in> set bs. pb_last_accessed (obj e) \<le> pb_last_accessed (obj b)"
      "sorted_wrt (\<lambda>a b. pb_last_accessed (obj a) \<le> pb_last_accessed (obj b)) bs" for e bs
    using that
  proof (induction bs arbitrary: e)
    case (Cons b bs)
    have "?scan e (b # bs) = e" if "pb_last_accessed (obj e) < pb_last_accessed (obj b)"
      by (rule late) (use Cons.prems that in fastforce)
    with Cons show ?case by (auto simp: evict_before_def pb_prio_def)
  qed simp
  moreover have "lru_choice (pb_prio obj) (r # rs) (?scan r rs)"
    by (rule lru_choice_scan) auto
  ultimately show ?thesis using assms by simp
qed

text \<open>The table of the second evictor with the same blocks.\<close>

definition as_table2 :: "block_heap \<Rightarrow> lru_evictor \<Rightarrow> lru_evictor2" where
  "as_table2 h ev = map (\<lambda>(k, r). (r, \<lparr>bd_content_hash = pb_block_hash (bh_obj h r),
     bd_num_hashed_tokens = pb_num_hashed_tokens (bh_obj h r),
     bd_last_accessed = pb_last_accessed (bh_obj h r)\<rparr>)) ev"

lemma lru_choice_mem: "lru_choice prio ks k \<Longrightarrow> k \<in> set ks"
  by (auto simp: lru_choice_def)

lemma lru_choice_map:
  assumes "\<And>x. x \<in> set ks \<Longrightarrow> prio' (f x) = prio x" "lru_choice prio ks k"
  shows "lru_choice prio' (map f ks) (f k)"
proof -
  from assms(2) obtain xs ys where "ks = xs @ k # ys" "\<forall>x \<in> set xs. evict_before (prio k) (prio x)"
    "\<forall>y \<in> set ys. \<not> evict_before (prio y) (prio k)"
    by (auto simp: lru_choice_def)
  with assms(1) show ?thesis
    unfolding lru_choice_def by (intro exI [where x = "map f xs"] exI [where x = "map f ys"]) auto
qed

lemma ddel_as_table2:
  assumes "distinct (dkeys ev)" "distinct (map snd ev)" "(k, r) \<in> set ev"
  shows "ddel r (as_table2 h ev) = as_table2 h (ddel k ev)"
  using assms
proof (induction ev)
  case (Cons e ev)
  obtain k' r' where e: "e = (k', r')" by (cases e)
  have fresh: "ddel r (as_table2 h ev) = as_table2 h ev" if "r \<notin> set (map snd ev)"
    using that by (intro ddel_fresh) (force simp: as_table2_def)
  show ?case
  proof (cases "k' = k")
    case True
    with Cons.prems e have "r' = r" "r \<notin> set (map snd ev)" "k \<notin> set (dkeys ev)" by force+
    with fresh True e show ?thesis by (simp add: as_table2_def ddel_fresh)
  next
    case False
    with Cons.prems e have "(k, r) \<in> set ev" "r' \<noteq> r" by force+
    with Cons e False show ?thesis by (simp add: as_table2_def)
  qed
qed simp

text \<open>
  C24. On a free table in the order of its time stamps, keyed by the hashes of its blocks, the
  evictor of the first block manager evicts the reference choice (earliest time stamp, then most
  hashed tokens, then first in the table), and the evictor of the second block manager on the same
  blocks evicts the same block and is left with the same table; both raise exactly when the table
  is empty.
\<close>

theorem evictors_agree:
  assumes "sorted_wrt (\<lambda>a b. pb_last_accessed (bh_obj h a) \<le> pb_last_accessed (bh_obj h b)) (map snd ev)"
    and keys: "\<forall>(k, r) \<in> set ev. pb_block_hash (bh_obj h r) = k"
    and dist: "distinct (dkeys ev)" "distinct (map snd ev)"
  shows "case evictor_evict (ev, h) of
      (Inr r, (ev', h')) \<Rightarrow>
        lru_choice (pb_prio (bh_obj h)) (map snd ev) r \<and>
        evictor2_evict (as_table2 h ev) = (Inr (r, pb_block_hash (bh_obj h r)), as_table2 h' ev')
    | (Inl e, _) \<Rightarrow> ev = [] \<and> fst (evictor2_evict (as_table2 h ev)) = Inl e"
proof (cases ev)
  case Nil
  then show ?thesis
    by (simp add: evictor_evict_def evictor2_evict_def as_table2_def bnd_def gets_def throw_def)
next
  case (Cons e es)
  obtain r0 rs where rs: "map snd ev = r0 # rs" using Cons by simp
  let ?r = "evict_scan (bh_obj h) r0 (r0 # rs)" and ?row = "\<lambda>r. (r, \<lparr>bd_content_hash = pb_block_hash (bh_obj h r),
     bd_num_hashed_tokens = pb_num_hashed_tokens (bh_obj h r), bd_last_accessed = pb_last_accessed (bh_obj h r)\<rparr>)"
  let ?h = "heap_set ?r (\<lambda>b. b\<lparr>pb_computed := False\<rparr>) h" and ?k = "pb_block_hash (bh_obj h ?r)"
  have choice: "lru_choice (pb_prio (bh_obj h)) (map snd ev) ?r"
    unfolding rs by (rule evict_scan_choice) (use assms(1) rs in simp)
  from lru_choice_mem [OF this] keys have kr: "(?k, ?r) \<in> set ev" by auto
  have run1: "evictor_evict (ev, h) = (Inr ?r, (ddel ?k ev, ?h))"
    using kr rs by (force simp: evictor_evict_def bnd_def sq_def gets_def modify_def ret_def ensure_def Let_def)
  have table: "as_table2 h ev = map ?row (map snd ev)" by (simp add: as_table2_def split_def)
  then have table': "as_table2 h ev = ?row r0 # map ?row rs" by (simp add: rs)
  have "lru_choice bd_prio (map ?row (map snd ev)) (?row ?r)"
    by (rule lru_choice_map [OF _ choice]) (simp add: bd_prio_def pb_prio_def)
  moreover have "lru_choice bd_prio (map ?row (map snd ev)) (evict2_scan (?row r0) (as_table2 h ev))"
    unfolding table [symmetric] table' by (rule evict2_scan_choice)
  ultimately have scan: "evict2_scan (?row r0) (as_table2 h ev) = ?row ?r" by (rule lru_choice_unique [symmetric])
  have same: "as_table2 ?h (ddel ?k ev) = as_table2 h (ddel ?k ev)"
    by (auto simp: as_table2_def)
  have "evictor2_evict (as_table2 h ev) = (Inr (?r, ?k), ddel ?r (as_table2 h ev))"
    using scan by (simp add: evictor2_evict_def bnd_def sq_def gets_def modify_def ret_def table')
  with run1 choice same ddel_as_table2 [OF dist kr, of h] show ?thesis by simp
qed

text \<open>Two blocks with the same time stamp, the second with more hashed tokens, and a later one.\<close>

definition demo_free_heap :: block_heap where
  "demo_free_heap = \<lparr>bh_obj = (\<lambda>r. (PhysicalTokenBlock_init GPU r 2 (int r) (2 * (r + 1)))
     \<lparr>pb_last_accessed := if r < 2 then 1 else 5\<rparr>), bh_next = 3\<rparr>"

theorem evictors_agree_witness:
  "case evictor_evict ([(0, 0), (1, 1), (2, 2)], demo_free_heap) of
     (Inr r, (ev', h')) \<Rightarrow> r = 1 \<and> map fst ev' = [0, 2] \<and>
       fst (evictor2_evict (as_table2 demo_free_heap [(0, 0), (1, 1), (2, 2)])) = Inr (1, 1)
   | (Inl e, _) \<Rightarrow> False"
proof -
  let ?ev = "[(0, 0), (1, 1), (2, 2)] :: lru_evictor"
  have hyps: "sorted_wrt (\<lambda>a b. pb_last_accessed (bh_obj demo_free_heap a) \<le> pb_last_accessed (bh_obj demo_free_heap b))
      (map snd ?ev)" "\<forall>(k, r) \<in> set ?ev. pb_block_hash (bh_obj demo_free_heap r) = k"
    "distinct (dkeys ?ev)" "distinct (map snd ?ev)"
    by code_simp+
  have "case evictor_evict (?ev, demo_free_heap) of
      (Inr r, (ev', h')) \<Rightarrow> r = 1 \<and> map fst ev' = [0, 2] \<and> pb_block_hash (bh_obj demo_free_heap r) = 1
    | (Inl e, _) \<Rightarrow> False"
    by code_simp
  with evictors_agree [OF hyps] show ?thesis by (auto split: prod.splits sum.splits)
qed

text \<open>
  Out of that order the first evictor can miss the least recently used block: it stops at the
  second block, although the third was used before both.
\<close>

theorem lru_evict_misses_older_block:
  "(let h = demo_free_heap\<lparr>bh_obj := (bh_obj demo_free_heap)(2 := (bh_obj demo_free_heap 2)\<lparr>pb_last_accessed := 0\<rparr>,
        1 := (bh_obj demo_free_heap 1)\<lparr>pb_last_accessed := 7\<rparr>)\<rparr> in
    fst (evictor_evict ([(0, 0), (1, 1), (2, 2)], h)) = Inr 0 \<and>
    fst (evictor2_evict (as_table2 h [(0, 0), (1, 1), (2, 2)])) = Inr (2, 2))"
  by code_simp

end
