(* ===== verification/Block_V1.thy ===== *)
theory Block_V1
  imports Block_Evictor Block_Interface
begin

text \<open>
  \<^verbatim>\<open>vllm/core/block_manager_v1.py\<close>: the block allocators with and without caching and the block
  manager on top of them. A manager owns a heap of physical blocks, one allocator per device and
  the block tables of the sequences, which are lists of references into the heap. Two things are
  arguments: \<open>hash\<close>, Python's built-in hash, and \<open>order\<close>, which gives for the elements of a
  set of blocks the order in which Python iterates over that set.
\<close>

section \<open>Allocators\<close>

record uncached_allocator =
  ua_device :: Device
  ua_block_size :: nat
  ua_num_blocks :: nat
  ua_free_blocks :: "block_ref list"

record cached_allocator =
  ca_device :: Device
  ca_block_size :: nat
  ca_num_blocks :: nat
  ca_current_num_blocks :: nat
  ca_cached_blocks :: "(int, block_ref) pydict"
  ca_flatten_layers :: int
  ca_evictor :: lru_evictor
  ca_default_hash_ctr :: nat

fun init_free_blocks :: "Device \<Rightarrow> nat \<Rightarrow> nat list \<Rightarrow> block_heap \<Rightarrow> block_ref list \<times> block_heap" where
  "init_free_blocks device block_size [] h = ([], h)"
| "init_free_blocks device block_size (i # is) h =
     (case heap_new (PhysicalTokenBlock_init device i block_size (-1) 0) h of
        (r, h1) \<Rightarrow> (case init_free_blocks device block_size is h1 of (rs, h2) \<Rightarrow> (r # rs, h2)))"

definition UncachedBlockAllocator_init ::
  "Device \<Rightarrow> nat \<Rightarrow> nat \<Rightarrow> block_heap \<Rightarrow> uncached_allocator \<times> block_heap"
where
  "UncachedBlockAllocator_init device block_size num_blocks h =
     (case init_free_blocks device block_size [0..<num_blocks] h of
        (rs, h') \<Rightarrow> (\<lparr>ua_device = device, ua_block_size = block_size, ua_num_blocks = num_blocks,
                     ua_free_blocks = rs\<rparr>, h'))"

definition CachedBlockAllocator_init ::
  "Device \<Rightarrow> nat \<Rightarrow> nat \<Rightarrow> int \<Rightarrow> EvictionPolicy \<Rightarrow> cached_allocator"
where
  "CachedBlockAllocator_init device block_size num_blocks flatten_layers eviction_policy =
     \<lparr>ca_device = device, ca_block_size = block_size, ca_num_blocks = num_blocks,
      ca_current_num_blocks = 0, ca_cached_blocks = [], ca_flatten_layers = flatten_layers,
      ca_evictor = make_evictor eviction_policy, ca_default_hash_ctr = 0\<rparr>"

subsection \<open>Without caching\<close>

definition ua_allocate :: "(uncached_allocator \<times> block_heap, block_ref) pym" where
  "ua_allocate =
     bnd (gets (\<lambda>(a, h). ua_free_blocks a)) (\<lambda>free_blocks.
     case free_blocks of
       [] \<Rightarrow> throw (ValueError ''Out of memory! No free blocks are available.'')
     | r # rs \<Rightarrow>
         sq (modify (\<lambda>(a, h). (a\<lparr>ua_free_blocks := rs\<rparr>, heap_set r (\<lambda>b. b\<lparr>pb_ref_count := 1\<rparr>) h)))
        (ret r))"

definition ua_free :: "block_ref \<Rightarrow> (uncached_allocator \<times> block_heap, unit) pym" where
  "ua_free r =
     bnd (gets (\<lambda>(a, h). pb_ref_count (bh_obj h r))) (\<lambda>n.
     sq (ensure (n \<noteq> 0) (ValueError ''Double free!''))
    (sq (modify (\<lambda>(a, h). (a, heap_set r (\<lambda>b. b\<lparr>pb_ref_count := n - 1\<rparr>) h)))
    (if n - 1 = 0 then modify (\<lambda>(a, h). (a\<lparr>ua_free_blocks := ua_free_blocks a @ [r]\<rparr>, h))
     else ret ())))"

definition ua_get_num_free_blocks :: "uncached_allocator \<Rightarrow> int" where
  "ua_get_num_free_blocks a = int (length (ua_free_blocks a))"

subsection \<open>With caching\<close>

text \<open>A call of a method of the evictor.\<close>

definition on_evictor :: "(lru_evictor \<times> block_heap, 'a) pym \<Rightarrow> (cached_allocator \<times> block_heap, 'a) pym" where
  "on_evictor m = (\<lambda>(a, h). case m (ca_evictor a, h) of
     (r, (ev, h')) \<Rightarrow> (r, (a\<lparr>ca_evictor := ev\<rparr>, h')))"

definition ca_allocate_block :: "int \<Rightarrow> nat \<Rightarrow> (cached_allocator \<times> block_heap, block_ref) pym" where
  "ca_allocate_block block_hash num_hashed_tokens =
     bnd (gets fst) (\<lambda>a.
     if ca_current_num_blocks a = ca_num_blocks a then
       bnd (on_evictor evictor_evict) (\<lambda>r.
       sq (modify (\<lambda>(a, h). (a, heap_set r (\<lambda>b. b\<lparr>pb_block_hash := block_hash,
                                             pb_num_hashed_tokens := num_hashed_tokens\<rparr>) h)))
      (ret r))
     else
       bnd (\<lambda>(a, h). case heap_new (PhysicalTokenBlock_init (ca_device a) (ca_current_num_blocks a)
                                    (ca_block_size a) block_hash num_hashed_tokens) h of
              (r, h') \<Rightarrow> (Inr r, (a, h'))) (\<lambda>r.
       sq (modify (\<lambda>(a, h). (a\<lparr>ca_current_num_blocks := ca_current_num_blocks a + 1\<rparr>, h)))
      (ret r)))"

definition ca_retain :: "block_ref \<Rightarrow> (cached_allocator \<times> block_heap, unit) pym" where
  "ca_retain r = modify (\<lambda>(a, h). (a, heap_set r (\<lambda>b. b\<lparr>pb_ref_count := pb_ref_count b + 1\<rparr>) h))"

definition ca_cache :: "int \<Rightarrow> block_ref \<Rightarrow> (cached_allocator \<times> block_heap, unit) pym" where
  "ca_cache block_hash r =
     modify (\<lambda>(a, h). (a\<lparr>ca_cached_blocks := dset block_hash r (ca_cached_blocks a)\<rparr>, h))"

definition ca_allocate :: "int option \<Rightarrow> nat \<Rightarrow> (cached_allocator \<times> block_heap, block_ref) pym" where
  "ca_allocate block_hash0 num_hashed_tokens =
     bnd (case block_hash0 of
            Some k \<Rightarrow> ret k
          | None \<Rightarrow>
              bnd (gets (\<lambda>(a, h). int (ca_default_hash_ctr a))) (\<lambda>k.
              sq (modify (\<lambda>(a, h). (a\<lparr>ca_default_hash_ctr := Suc (ca_default_hash_ctr a)\<rparr>, h)))
             (ret k))) (\<lambda>block_hash.
     bnd (gets fst) (\<lambda>a.
     if evictor_contains block_hash (ca_evictor a) then
       sq (ensure (block_hash \<notin> set (dkeys (ca_cached_blocks a))) AssertionError)
      (bnd (on_evictor (evictor_remove block_hash)) (\<lambda>r.
       bnd (gets (\<lambda>(a, h). bh_obj h r)) (\<lambda>b.
       sq (ensure (pb_ref_count b = 0) AssertionError)
      (sq (ca_cache block_hash r)
      (sq (ca_retain r)
      (sq (ensure (pb_block_hash b = block_hash) AssertionError)
      (ret r)))))))
     else
       sq (if block_hash \<notin> set (dkeys (ca_cached_blocks a)) then
             bnd (ca_allocate_block block_hash num_hashed_tokens) (ca_cache block_hash)
           else ret ())
      (bnd (lift_err (\<lambda>(a, h). dget (ca_cached_blocks a) block_hash)) (\<lambda>r.
       bnd (gets (\<lambda>(a, h). bh_obj h r)) (\<lambda>b.
       sq (ensure (pb_block_hash b = block_hash) AssertionError)
      (sq (ca_retain r)
      (ret r)))))))"

definition ca_free :: "block_ref \<Rightarrow> (cached_allocator \<times> block_heap, unit) pym" where
  "ca_free r =
     bnd (gets (\<lambda>(a, h). bh_obj h r)) (\<lambda>b.
     sq (ensure (pb_ref_count b \<noteq> 0) (ValueError ''Double free!''))
    (sq (modify (\<lambda>(a, h). (a, heap_set r (\<lambda>b. b\<lparr>pb_ref_count := pb_ref_count b - 1\<rparr>) h)))
    (if pb_ref_count b - 1 = 0 then
       bnd (gets fst) (\<lambda>a.
       sq (ensure (\<not> evictor_contains (pb_block_hash b) (ca_evictor a)) AssertionError)
      (sq (on_evictor (evictor_add r))
      (sq (ensure (pb_block_hash b \<in> set (dkeys (ca_cached_blocks a))) KeyError)
      (modify (\<lambda>(a, h). (a\<lparr>ca_cached_blocks := ddel (pb_block_hash b) (ca_cached_blocks a)\<rparr>, h))))))
     else ret ())))"

definition ca_get_num_free_blocks :: "cached_allocator \<Rightarrow> int" where
  "ca_get_num_free_blocks a =
     int (ca_num_blocks a) - int (ca_current_num_blocks a) + int (evictor_num_blocks (ca_evictor a))"

definition ca_contains_block :: "int \<Rightarrow> cached_allocator \<Rightarrow> bool" where
  "ca_contains_block block_hash a \<longleftrightarrow>
     block_hash \<in> set (dkeys (ca_cached_blocks a)) \<or> evictor_contains block_hash (ca_evictor a)"

definition ca_update_hash :: "int \<Rightarrow> block_ref \<Rightarrow> (cached_allocator \<times> block_heap, unit) pym" where
  "ca_update_hash block_hash r =
     bnd (gets id) (\<lambda>(a, h).
     sq (ensure (\<not> ca_contains_block block_hash a) AssertionError)
    (let old_hash = pb_block_hash (bh_obj h r) in
     sq (modify (\<lambda>(a, h). (a, heap_set r (\<lambda>b. b\<lparr>pb_block_hash := block_hash\<rparr>) h)))
    (sq (ensure (old_hash \<in> set (dkeys (ca_cached_blocks a))) KeyError)
    (sq (modify (\<lambda>(a, h). (a\<lparr>ca_cached_blocks := ddel old_hash (ca_cached_blocks a)\<rparr>, h)))
    (ca_cache block_hash r)))))"

subsection \<open>The common base class\<close>

datatype block_allocator = Uncached uncached_allocator | Cached cached_allocator

text \<open>A method of the allocator, chosen by its class.\<close>

definition by_class ::
  "(uncached_allocator \<times> block_heap, 'a) pym \<Rightarrow> (cached_allocator \<times> block_heap, 'a) pym \<Rightarrow>
   (block_allocator \<times> block_heap, 'a) pym"
where
  "by_class mu mc = (\<lambda>(al, h). case al of
     Uncached a \<Rightarrow> (case mu (a, h) of (r, (a', h')) \<Rightarrow> (r, (Uncached a', h')))
   | Cached a \<Rightarrow> (case mc (a, h) of (r, (a', h')) \<Rightarrow> (r, (Cached a', h'))))"

definition ba_allocate :: "int option \<Rightarrow> nat \<Rightarrow> (block_allocator \<times> block_heap, block_ref) pym" where
  "ba_allocate block_hash num_hashed_tokens = by_class ua_allocate (ca_allocate block_hash num_hashed_tokens)"

definition ba_free :: "block_ref \<Rightarrow> (block_allocator \<times> block_heap, unit) pym" where
  "ba_free r = by_class (ua_free r) (ca_free r)"

definition ba_get_num_free_blocks :: "block_allocator \<Rightarrow> int" where
  "ba_get_num_free_blocks al = (case al of
     Uncached a \<Rightarrow> ua_get_num_free_blocks a | Cached a \<Rightarrow> ca_get_num_free_blocks a)"

definition ba_get_num_total_blocks :: "block_allocator \<Rightarrow> nat" where
  "ba_get_num_total_blocks al = (case al of Uncached a \<Rightarrow> ua_num_blocks a | Cached a \<Rightarrow> ca_num_blocks a)"

definition ba_contains_block :: "int \<Rightarrow> (block_allocator \<times> block_heap, bool) pym" where
  "ba_contains_block block_hash =
     by_class (throw (NotImplementedError ''Invalid codepath for uncached block allocator.''))
       (gets (\<lambda>(a, h). ca_contains_block block_hash a))"

definition ba_update_hash :: "int \<Rightarrow> block_ref \<Rightarrow> (block_allocator \<times> block_heap, unit) pym" where
  "ba_update_hash block_hash r =
     by_class (throw (NotImplementedError ''Invalid codepath for uncached block allocator.''))
       (ca_update_hash block_hash r)"

section \<open>The block manager\<close>

type_synonym block_table = "block_ref list"

record v1_manager =
  vm_block_size :: nat
  vm_num_total_gpu_blocks :: nat
  vm_num_total_cpu_blocks :: nat
  vm_flatten_layers :: int
  vm_block_sliding_window :: "nat option"
  vm_watermark :: rat
  vm_enable_caching :: bool
  vm_watermark_blocks :: int
  vm_heap :: block_heap
  vm_gpu_allocator :: block_allocator
  vm_cpu_allocator :: block_allocator
  vm_block_tables :: "(nat, block_table) pydict"

type_synonym 'a v1 = "(v1_manager, 'a) pym"

definition empty_heap :: block_heap where
  "empty_heap = \<lparr>bh_obj = (\<lambda>_. PhysicalTokenBlock_init GPU 0 0 0 0), bh_next = 0\<rparr>"

text \<open>
  The constructor of the caching allocator has a parameter \<^verbatim>\<open>flatten_layers\<close> without default,
  which the block manager does not pass: the call is a \<^const>\<open>TypeError\<close>.
\<close>

definition BlockSpaceManagerV1_init ::
  "nat \<Rightarrow> nat \<Rightarrow> nat \<Rightarrow> rat \<Rightarrow> nat option \<Rightarrow> bool \<Rightarrow> int \<Rightarrow> py_error + v1_manager"
where
  "BlockSpaceManagerV1_init block_size num_gpu_blocks num_cpu_blocks watermark sliding_window
     enable_caching flatten_layers =
     (if enable_caching \<and> sliding_window \<noteq> None then
        Inl (NotImplementedError ''Sliding window is not allowed with prefix caching enabled!'')
      else if sliding_window \<noteq> None \<and> block_size = 0 then Inl ZeroDivisionError
      else if watermark < 0 then Inl AssertionError
      else if enable_caching then Inl TypeError
      else
        (case UncachedBlockAllocator_init GPU block_size num_gpu_blocks empty_heap of (gpu, h1) \<Rightarrow>
        (case UncachedBlockAllocator_init CPU block_size num_cpu_blocks h1 of (cpu, h2) \<Rightarrow>
           Inr \<lparr>vm_block_size = block_size, vm_num_total_gpu_blocks = num_gpu_blocks,
                vm_num_total_cpu_blocks = num_cpu_blocks, vm_flatten_layers = flatten_layers,
                vm_block_sliding_window = map_option (\<lambda>w. ceil_div w block_size) sliding_window,
                vm_watermark = watermark, vm_enable_caching = enable_caching,
                vm_watermark_blocks = int_of_rat (watermark * of_nat num_gpu_blocks),
                vm_heap = h2, vm_gpu_allocator = Uncached gpu, vm_cpu_allocator = Uncached cpu,
                vm_block_tables = []\<rparr>)))"

text \<open>A call of a method of the allocator of a device.\<close>

definition allocator_of :: "Device \<Rightarrow> v1_manager \<Rightarrow> block_allocator" where
  "allocator_of device m = (case device of GPU \<Rightarrow> vm_gpu_allocator m | CPU \<Rightarrow> vm_cpu_allocator m)"

definition set_allocator :: "Device \<Rightarrow> block_allocator \<Rightarrow> v1_manager \<Rightarrow> v1_manager" where
  "set_allocator device al m = (case device of
     GPU \<Rightarrow> m\<lparr>vm_gpu_allocator := al\<rparr> | CPU \<Rightarrow> m\<lparr>vm_cpu_allocator := al\<rparr>)"

definition on_alloc :: "Device \<Rightarrow> (block_allocator \<times> block_heap, 'a) pym \<Rightarrow> 'a v1" where
  "on_alloc device f = (\<lambda>m. case f (allocator_of device m, vm_heap m) of
     (r, (al, h)) \<Rightarrow> (r, (set_allocator device al m)\<lparr>vm_heap := h\<rparr>))"

definition block_of :: "block_ref \<Rightarrow> PhysicalTokenBlock v1" where
  "block_of r = gets (\<lambda>m. bh_obj (vm_heap m) r)"

definition set_block :: "block_ref \<Rightarrow> (PhysicalTokenBlock \<Rightarrow> PhysicalTokenBlock) \<Rightarrow> unit v1" where
  "set_block r f = modify (\<lambda>m. m\<lparr>vm_heap := heap_set r f (vm_heap m)\<rparr>)"

definition get_table :: "Sequence \<Rightarrow> block_table v1" where
  "get_table s = lift_err (\<lambda>m. dget (vm_block_tables m) (seq_id s))"

definition set_table :: "Sequence \<Rightarrow> block_table \<Rightarrow> unit v1" where
  "set_table s table = modify (\<lambda>m. m\<lparr>vm_block_tables := dset (seq_id s) table (vm_block_tables m)\<rparr>)"

definition first_waiting :: "SequenceGroup \<Rightarrow> py_error + Sequence" where
  "first_waiting g = nth_py (get_seqs (Some WAITING) g) 0"

definition v1_can_allocate :: "SequenceGroup \<Rightarrow> AllocStatus v1" where
  "v1_can_allocate g =
     bnd (lift_err (\<lambda>_. first_waiting g)) (\<lambda>s.
     bnd (gets id) (\<lambda>m.
     sq (ensure (vm_flatten_layers m \<noteq> 0) ZeroDivisionError)
    (let n = int_of_rat (of_int (sg_cache_layers g) / of_int (vm_flatten_layers m)) *
             int (length (seq_logical_token_blocks s));
         num_required_blocks = (case vm_block_sliding_window m of None \<Rightarrow> n | Some w \<Rightarrow> min n (int w));
         num_free_gpu_blocks = ba_get_num_free_blocks (vm_gpu_allocator m) in
     if int (vm_num_total_gpu_blocks m) - num_required_blocks < vm_watermark_blocks m then ret NEVER
     else if num_free_gpu_blocks - num_required_blocks \<ge> vm_watermark_blocks m then ret OK
     else ret LATER)))"

text \<open>\<^verbatim>\<open>self.block_sliding_window is not None and n >= self.block_sliding_window\<close>\<close>

definition beyond_window :: "nat \<Rightarrow> v1_manager \<Rightarrow> bool" where
  "beyond_window n m = (case vm_block_sliding_window m of None \<Rightarrow> False | Some w \<Rightarrow> w \<le> n)"

text \<open>\<^verbatim>\<open>table[n % self.block_sliding_window]\<close>\<close>

definition window_block :: "block_table \<Rightarrow> nat \<Rightarrow> block_ref v1" where
  "window_block table n =
     bnd (gets vm_block_sliding_window) (\<lambda>window.
     case window of
       None \<Rightarrow> throw TypeError
     | Some w \<Rightarrow>
         if w = 0 then throw ZeroDivisionError else lift_err (\<lambda>_. nth_py table (n mod w)))"

definition v1_allocate_block ::
  "((int list \<times> int list option) \<times> int \<Rightarrow> int) \<Rightarrow> SequenceGroup \<Rightarrow> Sequence \<Rightarrow> block_table \<Rightarrow> nat \<Rightarrow>
   block_table v1"
where
  "v1_allocate_block hash g s table logical_idx =
     bnd (gets id) (\<lambda>m.
     bnd (if beyond_window logical_idx m then
            bnd (window_block table logical_idx) (\<lambda>r.
            sq (set_block r (\<lambda>b. b\<lparr>pb_ref_count := num_seqs None g\<rparr>))
           (ret r))
          else if vm_enable_caching m then
            on_alloc GPU (ba_allocate (Some (hash_of_block hash logical_idx s))
              (num_hashed_tokens_of_block logical_idx s))
          else
            bnd (on_alloc GPU (ba_allocate None 0)) (\<lambda>r.
            sq (set_block r (\<lambda>b. b\<lparr>pb_ref_count := num_seqs None g\<rparr>))
           (ret r)))
       (\<lambda>r. ret (table @ [r])))"

definition v1_allocate ::
  "((int list \<times> int list option) \<times> int \<Rightarrow> int) \<Rightarrow> SequenceGroup \<Rightarrow> unit v1"
where
  "v1_allocate hash g =
     bnd (lift_err (\<lambda>_. first_waiting g)) (\<lambda>s.
     bnd (fold_each [0..<length (seq_logical_token_blocks s)] [] (v1_allocate_block hash g s)) (\<lambda>table.
     for_each (get_seqs (Some WAITING) g) (\<lambda>s. set_table s table)))"

subsection \<open>Appending\<close>

definition v1_can_append_slots :: "SequenceGroup \<Rightarrow> nat \<Rightarrow> bool v1" where
  "v1_can_append_slots g num_lookahead_slots =
     sq (ensure (num_lookahead_slots = 0) AssertionError)
    (gets (\<lambda>m. int (num_seqs (Some RUNNING) g) \<le> ba_get_num_free_blocks (vm_gpu_allocator m)))"

text \<open>
  \<^verbatim>\<open>seq.hash_of_block(len(seq.logical_token_blocks) - 1)\<close>: with no logical block the index is -1
  and the slice of hashed tokens is empty.
\<close>

definition hash_of_last_block ::
  "((int list \<times> int list option) \<times> int \<Rightarrow> int) \<Rightarrow> Sequence \<Rightarrow> int"
where
  "hash_of_last_block hash s =
     (case length (seq_logical_token_blocks s) of
        0 \<Rightarrow> hash (sd_get_prefix_token_ids 0 (seq_data s), seq_lora_int_id s)
      | Suc n \<Rightarrow> hash_of_block hash n s)"

definition num_hashed_tokens_of_last_block :: "Sequence \<Rightarrow> nat" where
  "num_hashed_tokens_of_last_block s =
     (case length (seq_logical_token_blocks s) of 0 \<Rightarrow> 0 | Suc n \<Rightarrow> num_hashed_tokens_of_block n s)"

definition is_last_block_full :: "Sequence \<Rightarrow> py_error + bool" where
  "is_last_block_full s =
     (let token_ids_len = sd_get_len (seq_data s) in
      if token_ids_len = 0 then Inr False
      else if seq_block_size s = 0 then Inl ZeroDivisionError
      else Inr (token_ids_len mod seq_block_size s = 0))"

definition promote_last_block ::
  "((int list \<times> int list option) \<times> int \<Rightarrow> int) \<Rightarrow> Sequence \<Rightarrow> block_ref \<Rightarrow> block_ref v1"
where
  "promote_last_block hash s last_block =
     bnd (gets vm_enable_caching) (\<lambda>caching.
     sq (ensure caching AssertionError)
    (let new_hash = hash_of_last_block hash s in
     bnd (on_alloc GPU (ba_contains_block new_hash)) (\<lambda>present.
     if present then
       sq (on_alloc GPU (ba_free last_block)) (on_alloc GPU (ba_allocate (Some new_hash) 0))
     else
       sq (on_alloc GPU (ba_update_hash new_hash last_block)) (ret last_block))))"

definition maybe_promote_last_block ::
  "((int list \<times> int list option) \<times> int \<Rightarrow> int) \<Rightarrow> Sequence \<Rightarrow> block_ref \<Rightarrow> block_ref v1"
where
  "maybe_promote_last_block hash s last_block =
     bnd (lift_err (\<lambda>_. is_last_block_full s)) (\<lambda>full.
     if full then promote_last_block hash s last_block else ret last_block)"

definition allocate_last_physical_block ::
  "((int list \<times> int list option) \<times> int \<Rightarrow> int) \<Rightarrow> Sequence \<Rightarrow> block_ref v1"
where
  "allocate_last_physical_block hash s =
     bnd (gets vm_enable_caching) (\<lambda>caching.
     if \<not> caching then on_alloc GPU (ba_allocate None 0)
     else
       bnd (lift_err (\<lambda>_. is_last_block_full s)) (\<lambda>full.
       let block_hash = (if full then Some (hash_of_last_block hash s) else None) in
       bnd (on_alloc GPU (ba_allocate block_hash (num_hashed_tokens_of_last_block s))) (\<lambda>r.
       bnd (block_of r) (\<lambda>b.
       sq (ensure (block_hash \<noteq> None \<or> pb_ref_count b = 1) AssertionError)
      (ret r)))))"

text \<open>The second half of \<^verbatim>\<open>append_slots\<close>: the token goes to the last physical block.\<close>

definition append_to_last_block ::
  "((int list \<times> int list option) \<times> int \<Rightarrow> int) \<Rightarrow> Sequence \<Rightarrow> block_table \<Rightarrow> (nat \<times> nat) list v1"
where
  "append_to_last_block hash s table =
     bnd (lift_err (\<lambda>_. last_py table)) (\<lambda>last_block.
     bnd (block_of last_block) (\<lambda>b.
     sq (ensure (pb_device b = GPU) AssertionError)
    (if pb_ref_count b = 1 then
       bnd (gets vm_enable_caching) (\<lambda>caching.
       sq (if caching then
             bnd (maybe_promote_last_block hash s last_block) (\<lambda>maybe_new_block.
             set_table s (butlast table @ [maybe_new_block]))
           else ret ())
      (ret []))
     else
       bnd (allocate_last_physical_block hash s) (\<lambda>new_block.
       sq (set_table s (butlast table @ [new_block]))
      (sq (on_alloc GPU (ba_free last_block))
      (bnd (block_of last_block) (\<lambda>b.
       bnd (block_of new_block) (\<lambda>c.
       ret [(pb_block_number b, pb_block_number c)]))))))))"

definition v1_append_slots ::
  "((int list \<times> int list option) \<times> int \<Rightarrow> int) \<Rightarrow> Sequence \<Rightarrow> nat \<Rightarrow> (nat \<times> nat) list v1"
where
  "v1_append_slots hash s num_lookahead_slots =
     bnd (get_table s) (\<lambda>table.
     if length table < length (seq_logical_token_blocks s) then
       sq (ensure (length table = length (seq_logical_token_blocks s) - 1) AssertionError)
      (bnd (gets id) (\<lambda>m.
       if vm_block_sliding_window m \<noteq> Some 0 \<and> beyond_window (length table) m then
         bnd (window_block table (length table)) (\<lambda>r.
         sq (set_table s (table @ [r]))
        (append_to_last_block hash s (table @ [r])))
       else
         bnd (allocate_last_physical_block hash s) (\<lambda>new_block.
         sq (set_table s (table @ [new_block]))
        (ret []))))
     else append_to_last_block hash s table)"

subsection \<open>Forking and freeing\<close>

definition v1_fork :: "(block_ref list \<Rightarrow> block_ref list) \<Rightarrow> Sequence \<Rightarrow> Sequence \<Rightarrow> unit v1" where
  "v1_fork order parent_seq child_seq =
     bnd (get_table parent_seq) (\<lambda>src_block_table.
     sq (set_table child_seq src_block_table)
    (for_each (order src_block_table) (\<lambda>r. set_block r (\<lambda>b. b\<lparr>pb_ref_count := pb_ref_count b + 1\<rparr>))))"

text \<open>\<^verbatim>\<open>block_table[-w:]\<close>, the whole table for \<open>w = 0\<close>\<close>

definition last_blocks :: "nat \<Rightarrow> block_table \<Rightarrow> block_table" where
  "last_blocks w table = (if w = 0 then table else drop (length table - w) table)"

definition free_block_table :: "(block_ref list \<Rightarrow> block_ref list) \<Rightarrow> block_table \<Rightarrow> unit v1" where
  "free_block_table order table =
     bnd (gets vm_block_sliding_window) (\<lambda>window.
     let blocks_to_free = (case window of Some w \<Rightarrow> last_blocks w table | None \<Rightarrow> table) in
     for_each (order blocks_to_free) (\<lambda>r.
       bnd (block_of r) (\<lambda>b.
       on_alloc (pb_device b) (ba_free r))))"

definition v1_free :: "(block_ref list \<Rightarrow> block_ref list) \<Rightarrow> Sequence \<Rightarrow> unit v1" where
  "v1_free order s =
     bnd (gets vm_block_tables) (\<lambda>tables.
     case map_of tables (seq_id s) of
       None \<Rightarrow> ret ()
     | Some table \<Rightarrow>
         sq (free_block_table order table)
        (modify (\<lambda>m. m\<lparr>vm_block_tables := ddel (seq_id s) (vm_block_tables m)\<rparr>)))"

definition v1_reset :: "(block_ref list \<Rightarrow> block_ref list) \<Rightarrow> unit v1" where
  "v1_reset order =
     bnd (gets vm_block_tables) (\<lambda>tables.
     sq (for_each (map snd tables) (free_block_table order))
    (modify (\<lambda>m. m\<lparr>vm_block_tables := []\<rparr>)))"

subsection \<open>Swapping\<close>

text \<open>The number of elements of the set of blocks of the unfinished sequences is all that is read.\<close>

definition get_physical_blocks :: "SequenceGroup \<Rightarrow> block_ref list v1" where
  "get_physical_blocks g =
     fold_each (filter (\<lambda>s. \<not> seq_is_finished s) (get_seqs None g)) [] (\<lambda>blocks s.
       bnd (get_table s) (\<lambda>table. ret (remdups (blocks @ table))))"

definition v1_can_swap_in :: "SequenceGroup \<Rightarrow> nat \<Rightarrow> AllocStatus v1" where
  "v1_can_swap_in g num_lookahead_slots =
     sq (ensure (num_lookahead_slots = 0) AssertionError)
    (bnd (get_physical_blocks g) (\<lambda>blocks.
     bnd (gets id) (\<lambda>m.
     let num_required_blocks = length blocks + num_seqs (Some SWAPPED) g in
     if ba_get_num_total_blocks (vm_gpu_allocator m) < num_required_blocks then ret NEVER
     else if ba_get_num_free_blocks (vm_gpu_allocator m) - int num_required_blocks \<ge>
         vm_watermark_blocks m then ret OK
     else ret LATER)))"

definition v1_can_swap_out :: "SequenceGroup \<Rightarrow> bool v1" where
  "v1_can_swap_out g =
     bnd (get_physical_blocks g) (\<lambda>blocks.
     gets (\<lambda>m. int (length blocks) \<le> ba_get_num_free_blocks (vm_cpu_allocator m)))"

text \<open>
  \<open>swap_in\<close> and \<open>swap_out\<close> have the same body, up to the status of the sequences and the two
  devices: each block is moved once, the first time it is met, and freed once for each table.
\<close>

definition move_block ::
  "Device \<Rightarrow> Device \<Rightarrow> (block_ref, block_ref) pydict \<times> block_table \<Rightarrow> block_ref \<Rightarrow>
   ((block_ref, block_ref) pydict \<times> block_table) v1"
where
  "move_block src dst = (\<lambda>(mapping, new_table) r.
     bnd (case map_of mapping r of
            Some r' \<Rightarrow>
              sq (set_block r' (\<lambda>b. b\<lparr>pb_ref_count := pb_ref_count b + 1\<rparr>)) (ret (r', mapping))
          | None \<Rightarrow>
              bnd (block_of r) (\<lambda>b.
              bnd (on_alloc dst (ba_allocate (Some (pb_block_hash b)) (pb_num_hashed_tokens b))) (\<lambda>r'.
              ret (r', dset r r' mapping)))) (\<lambda>(r', mapping').
     sq (on_alloc src (ba_free r))
    (ret (mapping', new_table @ [r']))))"

definition move_table ::
  "Device \<Rightarrow> Device \<Rightarrow> (block_ref, block_ref) pydict \<Rightarrow> Sequence \<Rightarrow> (block_ref, block_ref) pydict v1"
where
  "move_table src dst mapping s =
     bnd (get_table s) (\<lambda>table.
     bnd (fold_each table (mapping, []) (move_block src dst)) (\<lambda>(mapping', new_table).
     sq (set_table s new_table)
    (ret mapping')))"

definition block_number_mapping ::
  "(block_ref, block_ref) pydict \<Rightarrow> v1_manager \<Rightarrow> (nat, nat) pydict"
where
  "block_number_mapping mapping m =
     fold (\<lambda>(r, r'). dset (pb_block_number (bh_obj (vm_heap m) r)) (pb_block_number (bh_obj (vm_heap m) r')))
       mapping []"

definition v1_swap_in :: "SequenceGroup \<Rightarrow> nat \<Rightarrow> (nat \<times> nat) list v1" where
  "v1_swap_in g num_lookahead_slots =
     sq (ensure (num_lookahead_slots = 0) AssertionError)
    (bnd (fold_each (get_seqs (Some SWAPPED) g) [] (move_table CPU GPU)) (\<lambda>mapping.
     gets (block_number_mapping mapping)))"

definition v1_swap_out :: "SequenceGroup \<Rightarrow> (nat \<times> nat) list v1" where
  "v1_swap_out g =
     bnd (fold_each (get_seqs (Some RUNNING) g) [] (move_table GPU CPU)) (\<lambda>mapping.
     gets (block_number_mapping mapping))"

subsection \<open>Queries and the computed prefix\<close>

definition block_numbers :: "block_table \<Rightarrow> v1_manager \<Rightarrow> nat list" where
  "block_numbers table m = map (\<lambda>r. pb_block_number (bh_obj (vm_heap m) r)) table"

definition v1_get_seq_used_block_id :: "SequenceGroup \<Rightarrow> nat list v1" where
  "v1_get_seq_used_block_id g =
     fold_each (get_seqs (Some RUNNING) g) [] (\<lambda>ids s.
       bnd (get_table s) (\<lambda>table. gets (\<lambda>m. ids @ block_numbers table m)))"

definition v1_get_block_table :: "Sequence \<Rightarrow> nat list v1" where
  "v1_get_block_table s = bnd (get_table s) (\<lambda>table. gets (block_numbers table))"

definition v1_get_num_free_gpu_blocks :: "int v1" where
  "v1_get_num_free_gpu_blocks = gets (\<lambda>m. ba_get_num_free_blocks (vm_gpu_allocator m))"

definition v1_get_num_free_cpu_blocks :: "int v1" where
  "v1_get_num_free_cpu_blocks = gets (\<lambda>m. ba_get_num_free_blocks (vm_cpu_allocator m))"

definition v1_access_all_blocks_in_seq :: "Sequence \<Rightarrow> rat \<Rightarrow> unit v1" where
  "v1_access_all_blocks_in_seq s access_time =
     bnd (gets vm_enable_caching) (\<lambda>caching.
     if caching then
       bnd (get_table s) (\<lambda>table.
       for_each table (\<lambda>r. set_block r (\<lambda>b. b\<lparr>pb_last_accessed := access_time\<rparr>)))
     else ret ())"

fun mark_computed :: "block_table \<Rightarrow> nat list \<Rightarrow> unit v1" where
  "mark_computed table [] = ret ()"
| "mark_computed table (i # is) =
     bnd (lift_err (\<lambda>_. nth_py table i)) (\<lambda>r.
     bnd (block_of r) (\<lambda>b.
     if pb_computed b then ret ()
     else sq (set_block r (\<lambda>b. b\<lparr>pb_computed := True\<rparr>)) (mark_computed table is)))"

text \<open>\<open>max_full_block\<close> is -1 when no block is full; \<^verbatim>\<open>reversed(range(max_full_block))\<close>\<close>

definition compute_full_blocks_in_seq :: "Sequence \<Rightarrow> unit v1" where
  "compute_full_blocks_in_seq s =
     bnd (gets id) (\<lambda>m.
     if seq_id s \<notin> set (dkeys (vm_block_tables m)) then ret ()
     else if vm_block_size m = 0 then throw ZeroDivisionError
     else
       let full_blocks = seq_get_len s div vm_block_size m in
       bnd (get_table s) (\<lambda>table.
       if full_blocks = 0 then ret () else mark_computed table (rev [0..<full_blocks - 1])))"

definition get_all_computed_blocks :: "Sequence \<Rightarrow> v1_manager \<Rightarrow> nat list" where
  "get_all_computed_blocks s m =
     (case map_of (vm_block_tables m) (seq_id s) of
        None \<Rightarrow> []
      | Some table \<Rightarrow>
          block_numbers (takeWhile (\<lambda>r. pb_computed (bh_obj (vm_heap m) r)) (butlast table)) m)"

text \<open>\<^verbatim>\<open>os.path.commonprefix\<close> of lists\<close>

fun common_prefix2 :: "'a list \<Rightarrow> 'a list \<Rightarrow> 'a list" where
  "common_prefix2 (x # xs) (y # ys) = (if x = y then x # common_prefix2 xs ys else [])"
| "common_prefix2 _ _ = []"

definition commonprefix :: "'a list list \<Rightarrow> 'a list" where
  "commonprefix ls = (case ls of [] \<Rightarrow> [] | l # ls' \<Rightarrow> foldl common_prefix2 l ls')"

definition v1_get_common_computed_block_ids :: "Sequence list \<Rightarrow> nat list v1" where
  "v1_get_common_computed_block_ids seqs =
     gets (\<lambda>m. if vm_enable_caching m then
         commonprefix (filter (\<lambda>ids. ids \<noteq> []) (map (\<lambda>s. get_all_computed_blocks s m) seqs))
       else [])"

definition v1_mark_blocks_as_computed :: "SequenceGroup \<Rightarrow> unit v1" where
  "v1_mark_blocks_as_computed g =
     bnd (gets vm_enable_caching) (\<lambda>caching.
     if caching then for_each (get_seqs None g) compute_full_blocks_in_seq else ret ())"

section \<open>The manager behind the interface\<close>

definition pair_mapping :: "nat \<times> nat \<Rightarrow> block_mapping" where
  "pair_mapping = (\<lambda>(a, b). [a, b])"

definition v1_block_manager ::
  "((int list \<times> int list option) \<times> int \<Rightarrow> int) \<Rightarrow> (block_ref list \<Rightarrow> block_ref list) \<Rightarrow>
   (v1_manager, 'p) block_manager"
where
  "v1_block_manager hash order =
     \<lparr>bm_can_allocate = v1_can_allocate,
      bm_allocate = v1_allocate hash,
      bm_can_append_slots = v1_can_append_slots,
      bm_append_slots = (\<lambda>s k. bnd (v1_append_slots hash s k) (\<lambda>ms. ret (map pair_mapping ms))),
      bm_fork = v1_fork order,
      bm_can_swap_in = (\<lambda>g. v1_can_swap_in g 0),
      bm_swap_in = (\<lambda>g. bnd (v1_swap_in g 0) (\<lambda>ms. ret (map pair_mapping ms))),
      bm_can_swap_out = v1_can_swap_out,
      bm_swap_out = (\<lambda>g. bnd (v1_swap_out g) (\<lambda>ms. ret (map pair_mapping ms))),
      bm_free = v1_free order,
      bm_get_block_table = v1_get_block_table,
      bm_get_seq_used_block_id = v1_get_seq_used_block_id,
      bm_access_all_blocks_in_seq = v1_access_all_blocks_in_seq,
      bm_get_common_computed_block_ids = v1_get_common_computed_block_ids,
      bm_mark_blocks_as_computed = v1_mark_blocks_as_computed,
      bm_evict_to_cached_layer_ratio = None,
      bm_get_layer_group_block_tables = None,
      bm_build_partial_recompute_plans = None,
      bm_get_num_evicted_tokens = None\<rparr>"

end
