(* ===== verification/Block_V1_Facts.thy ===== *)
theory Block_V1_Facts
  imports Block_V1 Ref_Pool
begin

text \<open>
  The first block manager without caching and without sliding window: its two pools satisfy the
  contract of \<open>Ref_Pool\<close>, with a device as pool index, and every operation of the manager that
  returns keeps each reference count equal to the number of block tables that hold the block.
\<close>

text \<open>Weakest preconditions as functions of the state, for use below a binder.\<close>

lemma wp_fun:
  "wp (ret x) Q E = Q x"
  "wp (bnd m k) Q E = wp m (\<lambda>x. wp (k x) Q E) E"
  "wp (sq m m') Q E = wp m (\<lambda>_. wp m' Q E) E"
  by (simp_all add: fun_eq_iff wp_simps)

section \<open>The pools\<close>

definition free_blocks :: "Device \<Rightarrow> v1_manager \<Rightarrow> block_ref list" where
  "free_blocks d m = (case allocator_of d m of Uncached a \<Rightarrow> ua_free_blocks a | Cached a \<Rightarrow> [])"

definition is_uncached :: "block_allocator \<Rightarrow> bool" where
  "is_uncached al = (case al of Uncached a \<Rightarrow> True | Cached a \<Rightarrow> False)"

abbreviation v1_obj :: "v1_manager \<Rightarrow> block_ref \<Rightarrow> PhysicalTokenBlock" where
  "v1_obj m \<equiv> bh_obj (vm_heap m)"

definition v1_pool_ok :: "v1_manager \<Rightarrow> (Device \<times> block_ref) multiset \<Rightarrow> bool" where
  "v1_pool_ok m X \<longleftrightarrow>
     (\<forall>d. is_uncached (allocator_of d m) \<and> distinct (free_blocks d m) \<and>
        (\<forall>r. r \<in> set (free_blocks d m) \<longleftrightarrow>
           r < bh_next (vm_heap m) \<and> pb_device (v1_obj m r) = d \<and> count X (d, r) = 0)) \<and>
     (\<forall>r < bh_next (vm_heap m). pb_ref_count (v1_obj m r) = count X (pb_device (v1_obj m r), r)) \<and>
     (\<forall>(d, r) \<in># X. r < bh_next (vm_heap m) \<and> pb_device (v1_obj m r) = d)"

definition v1_avail :: "v1_manager \<Rightarrow> Device \<Rightarrow> nat" where
  "v1_avail m d = length (free_blocks d m)"

text \<open>Everything but the free queues and the reference counts.\<close>

definition no_free :: "block_allocator \<Rightarrow> block_allocator" where
  "no_free al = (case al of Uncached a \<Rightarrow> Uncached (a\<lparr>ua_free_blocks := []\<rparr>) | Cached a \<Rightarrow> Cached a)"

definition v1_rest :: "v1_manager \<Rightarrow> v1_manager" where
  "v1_rest m = m\<lparr>vm_gpu_allocator := no_free (vm_gpu_allocator m),
     vm_cpu_allocator := no_free (vm_cpu_allocator m),
     vm_heap := (vm_heap m)\<lparr>bh_obj := (\<lambda>r. (v1_obj m r)\<lparr>pb_ref_count := 0\<rparr>)\<rparr>\<rparr>"

lemma is_uncached_simps [simp]: "is_uncached (Uncached a)" "\<not> is_uncached (Cached c)"
  by (simp_all add: is_uncached_def)

lemma allocator_simps [simp]:
  "allocator_of d (set_allocator d' al m) = (if d = d' then al else allocator_of d m)"
  "allocator_of d (m\<lparr>vm_heap := h\<rparr>) = allocator_of d m"
  "allocator_of d (m\<lparr>vm_block_tables := ts\<rparr>) = allocator_of d m"
  "vm_heap (set_allocator d al m) = vm_heap m"
  "vm_block_tables (set_allocator d al m) = vm_block_tables m"
  "vm_block_sliding_window (set_allocator d al m) = vm_block_sliding_window m"
  "vm_enable_caching (set_allocator d al m) = vm_enable_caching m"
  by (cases d; cases d'; simp add: allocator_of_def set_allocator_def)+

lemma v1_rest_alloc:
  "no_free al = no_free (allocator_of d m) \<Longrightarrow>
   v1_rest ((set_allocator d al m)\<lparr>vm_heap := heap_set r (\<lambda>b. b\<lparr>pb_ref_count := n\<rparr>) (vm_heap m)\<rparr>) = v1_rest m"
  by (cases d) (auto simp: v1_rest_def set_allocator_def allocator_of_def heap_set_def fun_eq_iff)

lemma v1_rest_set [simp]:
  "v1_rest (m\<lparr>vm_heap := heap_set r (\<lambda>b. b\<lparr>pb_ref_count := f b\<rparr>) (vm_heap m)\<rparr>) = v1_rest m"
  by (auto simp: v1_rest_def heap_set_def fun_eq_iff)

lemma v1_restD:
  assumes "v1_rest s = v1_rest t"
  shows "vm_block_tables s = vm_block_tables t" "vm_enable_caching s = vm_enable_caching t"
    "vm_block_sliding_window s = vm_block_sliding_window t" "bh_next (vm_heap s) = bh_next (vm_heap t)"
    "pb_device (v1_obj s r) = pb_device (v1_obj t r)"
    "pb_block_number (v1_obj s r) = pb_block_number (v1_obj t r)"
    "vm_watermark_blocks s = vm_watermark_blocks t"
proof -
  note eq = arg_cong [OF assms]
  show "vm_block_tables s = vm_block_tables t" "vm_enable_caching s = vm_enable_caching t"
    "vm_block_sliding_window s = vm_block_sliding_window t" "bh_next (vm_heap s) = bh_next (vm_heap t)"
    "pb_device (v1_obj s r) = pb_device (v1_obj t r)"
    "pb_block_number (v1_obj s r) = pb_block_number (v1_obj t r)"
    "vm_watermark_blocks s = vm_watermark_blocks t"
    using eq [of vm_block_tables] eq [of vm_enable_caching] eq [of vm_block_sliding_window]
      eq [of "\<lambda>m. bh_next (vm_heap m)"] eq [of "\<lambda>m. pb_device (v1_obj m r)"]
      eq [of "\<lambda>m. pb_block_number (v1_obj m r)"] eq [of vm_watermark_blocks]
    by (simp_all add: v1_rest_def)
qed

lemma v1_pool_okD:
  assumes "v1_pool_ok m X"
  shows "is_uncached (allocator_of d m)" "distinct (free_blocks d m)"
    and "r \<in> set (free_blocks d m) \<longleftrightarrow>
      r < bh_next (vm_heap m) \<and> pb_device (v1_obj m r) = d \<and> count X (d, r) = 0"
    and "r < bh_next (vm_heap m) \<Longrightarrow> pb_ref_count (v1_obj m r) = count X (pb_device (v1_obj m r), r)"
    and "(d, r) \<in># X \<Longrightarrow> r < bh_next (vm_heap m)" "(d, r) \<in># X \<Longrightarrow> pb_device (v1_obj m r) = d"
  using assms by (auto simp: v1_pool_ok_def)

definition v1_alloc :: "Device \<Rightarrow> block_ref v1" where
  "v1_alloc d = on_alloc d (ba_allocate None 0)"

definition v1_retain :: "Device \<Rightarrow> block_ref \<Rightarrow> unit v1" where
  "v1_retain d r = set_block r (\<lambda>b. b\<lparr>pb_ref_count := pb_ref_count b + 1\<rparr>)"

definition v1_free_block :: "Device \<Rightarrow> block_ref \<Rightarrow> unit v1" where
  "v1_free_block d r = on_alloc d (ba_free r)"

lemma uncachedE:
  assumes "is_uncached (allocator_of d m)"
  obtains a where "allocator_of d m = Uncached a" "free_blocks d m = ua_free_blocks a"
  using assms by (cases "allocator_of d m") (auto simp: is_uncached_def free_blocks_def)

lemma v1_alloc_some:
  assumes ok: "v1_pool_ok m X" and av: "0 < v1_avail m d"
  shows "wp (v1_alloc d) (\<lambda>r t. v1_pool_ok t (add_mset (d, r) X) \<and> (d, r) \<notin># X \<and>
      v1_rest t = v1_rest m \<and> v1_avail t = (v1_avail m)(d := v1_avail m d - 1)) (\<lambda>_ _. False) m"
proof -
  note D = v1_pool_okD [OF ok]
  obtain a where a: "allocator_of d m = Uncached a" "free_blocks d m = ua_free_blocks a"
    by (rule uncachedE [OF D(1)])
  from av obtain r rs where f: "ua_free_blocks a = r # rs"
    unfolding v1_avail_def a(2) by (cases "ua_free_blocks a") auto
  have r: "r < bh_next (vm_heap m)" "pb_device (v1_obj m r) = d" "count X (d, r) = 0"
    using D(3) [of r d] by (auto simp: a f)
  let ?t = "(set_allocator d (Uncached (a\<lparr>ua_free_blocks := rs\<rparr>)) m)
    \<lparr>vm_heap := heap_set r (\<lambda>b. b\<lparr>pb_ref_count := 1\<rparr>) (vm_heap m)\<rparr>"
  have run: "v1_alloc d m = (Inr r, ?t)"
    by (simp add: v1_alloc_def on_alloc_def ba_allocate_def by_class_def a f ua_allocate_def
        bnd_def sq_def gets_def modify_def ret_def)
  have fb: "free_blocks e ?t = (if e = d then rs else free_blocks e m)" for e
    by (simp add: free_blocks_def)
  have rs: "distinct rs" "r \<notin> set rs" "\<And>c. c \<in> set rs \<longleftrightarrow> c \<noteq> r \<and> c \<in> set (free_blocks d m)"
    using D(2) [of d] by (auto simp: a f)
  have "v1_pool_ok ?t (add_mset (d, r) X)"
    unfolding v1_pool_ok_def fb using D r rs
    by (auto simp: is_uncached_def split: if_splits)
  moreover have "v1_rest ?t = v1_rest m"
    by (rule v1_rest_alloc) (simp add: a no_free_def)
  moreover have "v1_avail ?t = (v1_avail m)(d := v1_avail m d - 1)"
    unfolding v1_avail_def fb by (simp add: fun_eq_iff a f)
  ultimately show ?thesis
    using r by (simp add: wp_def run not_in_iff)
qed

lemma v1_alloc_none:
  assumes ok: "v1_pool_ok m X" and av: "v1_avail m d = 0"
  shows "wp (v1_alloc d) (\<lambda>_ _. False) (\<lambda>_ t. t = m) m"
proof -
  obtain a where a: "allocator_of d m = Uncached a" "free_blocks d m = ua_free_blocks a"
    by (rule uncachedE [OF v1_pool_okD(1) [OF ok]])
  have "(set_allocator d (Uncached a) m)\<lparr>vm_heap := vm_heap m\<rparr> = m"
    using a(1) by (cases d) (simp_all add: set_allocator_def allocator_of_def)
  then show ?thesis
    using av by (simp add: v1_alloc_def on_alloc_def ba_allocate_def by_class_def a ua_allocate_def
        bnd_def gets_def throw_def v1_avail_def wp_def)
qed

lemma v1_set_count_ok:
  assumes ok: "v1_pool_ok m X" and own: "(d, r) \<in># X"
    and Y: "\<And>x. x \<noteq> (d, r) \<Longrightarrow> count Y x = count X x" "count Y (d, r) = n" "0 < n"
    and f: "f (v1_obj m r) = n"
  shows "wp (set_block r (\<lambda>b. b\<lparr>pb_ref_count := f b\<rparr>))
    (\<lambda>_ t. v1_pool_ok t Y \<and> v1_rest t = v1_rest m \<and> v1_avail t = v1_avail m) (\<lambda>_ _. False) m"
proof -
  note D = v1_pool_okD [OF ok]
  let ?t = "m\<lparr>vm_heap := heap_set r (\<lambda>b. b\<lparr>pb_ref_count := f b\<rparr>) (vm_heap m)\<rparr>"
  have fb: "free_blocks e ?t = free_blocks e m" for e by (simp add: free_blocks_def)
  have mem: "x \<in># Y \<longleftrightarrow> x \<in># X" for x
    using Y own by (cases "x = (d, r)") (auto simp flip: count_greater_zero_iff)
  then have sets: "set_mset Y = set_mset X" by auto
  have zero: "count Y x = 0 \<longleftrightarrow> count X x = 0" for x
    using mem [of x] by (simp add: not_in_iff [symmetric])
  have "v1_pool_ok ?t Y"
    unfolding v1_pool_ok_def fb sets zero using D Y f D(6) [OF own] by (auto split: if_splits)
  moreover have "v1_avail ?t = v1_avail m" by (simp add: v1_avail_def fb fun_eq_iff)
  ultimately show ?thesis by (simp add: set_block_def wp_simps)
qed

lemma v1_retain_owned:
  assumes ok: "v1_pool_ok m X" and own: "(d, r) \<in># X"
  shows "wp (v1_retain d r) (\<lambda>_ t. v1_pool_ok t (add_mset (d, r) X) \<and> v1_rest t = v1_rest m \<and>
      v1_avail t = v1_avail m) (\<lambda>_ _. False) m"
  unfolding v1_retain_def
  by (rule v1_set_count_ok [OF ok own, where n = "count X (d, r) + 1"])
    (use v1_pool_okD(4-6) [OF ok] own in auto)

lemma v1_free_owned:
  assumes ok: "v1_pool_ok m X" and own: "(d, r) \<in># X"
  shows "wp (v1_free_block d r) (\<lambda>_ t. v1_pool_ok t (X - {#(d, r)#}) \<and> v1_rest t = v1_rest m \<and>
      v1_avail t = (v1_avail m)(d := v1_avail m d + (if count X (d, r) = 1 then 1 else 0)))
    (\<lambda>_ _. False) m"
proof -
  note D = v1_pool_okD [OF ok]
  obtain a where a: "allocator_of d m = Uncached a" "free_blocks d m = ua_free_blocks a"
    by (rule uncachedE [OF D(1)])
  have r: "r < bh_next (vm_heap m)" "pb_device (v1_obj m r) = d" using D(5,6) own by auto
  then have rc: "pb_ref_count (v1_obj m r) = count X (d, r)" using D(4) by simp
  have pos: "0 < count X (d, r)" using own by simp
  let ?a = "if count X (d, r) = 1 then a\<lparr>ua_free_blocks := ua_free_blocks a @ [r]\<rparr> else a"
  let ?t = "(set_allocator d (Uncached ?a) m)
    \<lparr>vm_heap := heap_set r (\<lambda>b. b\<lparr>pb_ref_count := count X (d, r) - 1\<rparr>) (vm_heap m)\<rparr>"
  have one: "count X (d, r) \<le> Suc 0 \<longleftrightarrow> count X (d, r) = Suc 0" using pos by linarith
  have run: "v1_free_block d r m = (Inr (), ?t)"
    using pos by (simp add: v1_free_block_def on_alloc_def ba_free_def by_class_def a ua_free_def
        bnd_def sq_def gets_def modify_def ret_def ensure_def rc one not_le)
  have fb: "free_blocks e ?t = (if e = d \<and> count X (d, r) = 1 then free_blocks d m @ [r]
      else free_blocks e m)" for e
    by (simp add: free_blocks_def a)
  have "r \<notin> set (free_blocks d m)" using D(3) [of r d] pos by auto
  moreover have "e = d" if "(e, r) \<in># X - {#(d, r)#}" for e
    using D(6) [OF in_diffD [OF that]] r(2) by simp
  ultimately have "v1_pool_ok ?t (X - {#(d, r)#})"
    unfolding v1_pool_ok_def fb using D r pos
    by (auto dest: in_diffD split: if_splits)
  moreover have "v1_rest ?t = v1_rest m"
    by (rule v1_rest_alloc) (simp add: a no_free_def)
  moreover have "v1_avail ?t = (v1_avail m)(d := v1_avail m d + (if count X (d, r) = 1 then 1 else 0))"
    unfolding v1_avail_def fb by (simp add: fun_eq_iff a)
  ultimately show ?thesis by (simp add: wp_def run)
qed

interpretation v1p: ref_pool v1_pool_ok v1_avail v1_rest v1_alloc v1_retain v1_free_block
  by unfold_locales (fact v1_alloc_some v1_alloc_none v1_retain_owned v1_free_owned)+


section \<open>The invariant of the manager\<close>

definition tag :: "v1_manager \<Rightarrow> block_ref \<Rightarrow> Device \<times> block_ref" where
  "tag m r = (pb_device (v1_obj m r), r)"

definition refs_of :: "v1_manager \<Rightarrow> (nat, block_table) pydict \<Rightarrow> (Device \<times> block_ref) multiset" where
  "refs_of m tables = mset (map (tag m) (concat (map snd tables)))"

text \<open>A block number names a block of its device.\<close>

definition numbered :: "v1_manager \<Rightarrow> bool" where
  "numbered m \<longleftrightarrow>
     inj_on (\<lambda>r. (pb_device (v1_obj m r), pb_block_number (v1_obj m r))) {..<bh_next (vm_heap m)}"

definition tables_ok :: "(nat, block_table) pydict \<Rightarrow> bool" where
  "tables_ok ts \<longleftrightarrow> distinct (dkeys ts) \<and> (\<forall>k table. map_of ts k = Some table \<longrightarrow> distinct table)"

lemma tables_ok_simps [simp, intro]:
  "tables_ok []" "tables_ok ts \<Longrightarrow> tables_ok (ddel k ts)"
  "tables_ok ts \<Longrightarrow> distinct table \<Longrightarrow> tables_ok (dset k table ts)"
  by (auto simp: tables_ok_def)

definition v1_inv :: "v1_manager \<Rightarrow> bool" where
  "v1_inv m \<longleftrightarrow>
     v1_pool_ok m (refs_of m (vm_block_tables m)) \<and> tables_ok (vm_block_tables m) \<and> numbered m \<and>
     vm_block_sliding_window m = None \<and> \<not> vm_enable_caching m \<and> 0 \<le> vm_watermark_blocks m"

definition set_iteration :: "('a list \<Rightarrow> 'a list) \<Rightarrow> bool" where
  "set_iteration order \<longleftrightarrow> (\<forall>xs. distinct (order xs) \<and> set (order xs) = set xs)"

lemma set_iteration_mset: "set_iteration order \<Longrightarrow> distinct xs \<Longrightarrow> mset (order xs) = mset xs"
  by (simp add: set_iteration_def set_eq_iff_mset_eq_distinct [symmetric])

lemma set_iteration_remdups: "set_iteration remdups"
  by (simp add: set_iteration_def)

lemma tag_rest: "v1_rest s = v1_rest t \<Longrightarrow> tag s = tag t"
  by (auto simp: tag_def fun_eq_iff dest: v1_restD(5))

lemma refs_rest: "v1_rest s = v1_rest t \<Longrightarrow> refs_of s = refs_of t"
  by (drule tag_rest) (simp add: refs_of_def [abs_def])

lemma numbered_rest: "v1_rest s = v1_rest t \<Longrightarrow> numbered s = numbered t"
  using v1_restD [of s t] by (simp add: numbered_def)

lemma refs_simps [simp]:
  "refs_of m [] = {#}"
  "refs_of m ((k, table) # tables) = mset (map (tag m) table) + refs_of m tables"
  "refs_of m (tables @ tables') = refs_of m tables + refs_of m tables'"
  by (simp_all add: refs_of_def)

lemma refs_split:
  assumes "distinct (dkeys tables)" "map_of tables k = Some table"
  shows "refs_of m tables = mset (map (tag m) table) + refs_of m (ddel k tables)"
  using assms
proof (induction tables)
  case (Cons a tables)
  obtain k' t' where a: "a = (k', t')" by (cases a)
  show ?case
  proof (cases "k' = k")
    case True
    then have "ddel k (a # tables) = tables"
      using Cons.prems(1) by (simp add: a ddel_fresh)
    then show ?thesis using Cons.prems True by (simp add: a)
  qed (use Cons a in auto)
qed simp

lemma refs_dset:
  assumes "distinct (dkeys tables)"
  shows "refs_of m (dset k table tables) = mset (map (tag m) table) + refs_of m (ddel k tables)"
  using refs_split [of "dset k table tables" k table m] assms by simp

text \<open>Block tables do not matter to the pools.\<close>

lemma v1_pool_ok_tables [simp]: "v1_pool_ok (m\<lparr>vm_block_tables := ts\<rparr>) X = v1_pool_ok m X"
  by (simp add: v1_pool_ok_def free_blocks_def)

lemma tag_tables [simp]: "tag (m\<lparr>vm_block_tables := ts\<rparr>) = tag m"
  by (simp add: tag_def fun_eq_iff)

lemma tables_simps [simp]:
  "refs_of (m\<lparr>vm_block_tables := ts\<rparr>) = refs_of m"
  "numbered (m\<lparr>vm_block_tables := ts\<rparr>) = numbered m" "v1_avail (m\<lparr>vm_block_tables := ts\<rparr>) = v1_avail m"
  by (simp_all add: refs_of_def numbered_def v1_avail_def free_blocks_def fun_eq_iff)

lemma v1_rest_tables:
  "v1_rest s = v1_rest t \<Longrightarrow> v1_rest (s\<lparr>vm_block_tables := ts\<rparr>) = v1_rest (t\<lparr>vm_block_tables := ts\<rparr>)"
  by (cases s; cases t) (simp add: v1_rest_def)

lemma v1_invD:
  assumes "v1_inv m"
  shows "v1_pool_ok m (refs_of m (vm_block_tables m))" "distinct (dkeys (vm_block_tables m))"
    "numbered m" "vm_block_sliding_window m = None" "\<not> vm_enable_caching m"
    "map_of (vm_block_tables m) k = Some table \<Longrightarrow> distinct table" "0 \<le> vm_watermark_blocks m"
  using assms by (auto simp: v1_inv_def tables_ok_def)

text \<open>A new set of tables over the same heap.\<close>

lemma v1_inv_rest:
  assumes "v1_inv m" "v1_rest t = v1_rest (m\<lparr>vm_block_tables := ts\<rparr>)"
    "v1_pool_ok t (refs_of m ts)" "tables_ok ts"
  shows "v1_inv t"
proof -
  have "vm_block_tables t = ts" "vm_block_sliding_window t = None" "\<not> vm_enable_caching t"
    "0 \<le> vm_watermark_blocks t"
    using v1_restD(1-3,7) [OF assms(2)] assms(1) by (simp_all add: v1_inv_def)
  moreover have "refs_of t = refs_of m" "numbered t"
    using refs_rest [OF assms(2)] numbered_rest [OF assms(2)] assms(1) by (simp_all add: v1_inv_def)
  ultimately show ?thesis using assms(3,4) by (simp add: v1_inv_def)
qed

text \<open>Without caching \<open>allocate_last_physical_block\<close> is a plain allocation.\<close>

lemma run_on_alloc_fold:
  "on_alloc d (ba_allocate h n) m = v1_alloc d m" if "is_uncached (allocator_of d m)"
  using that by (cases "allocator_of d m")
    (auto simp: v1_alloc_def on_alloc_def ba_allocate_def by_class_def)

lemma wp_on_alloc_fold:
  "is_uncached (allocator_of d m) \<Longrightarrow> wp (on_alloc d (ba_allocate h n)) Q E m = wp (v1_alloc d) Q E m"
  by (simp add: wp_def run_on_alloc_fold)

section \<open>The operations keep the invariant\<close>

lemma free_block_table_ok:
  assumes ok: "v1_pool_ok m (X + mset (map (tag m) table))" and dist: "distinct table"
    and ord: "set_iteration order" and win: "vm_block_sliding_window m = None"
  shows "wp (free_block_table order table) (\<lambda>_ t. v1_pool_ok t X \<and> v1_rest t = v1_rest m \<and>
      (\<forall>d. v1_avail m d \<le> v1_avail t d)) (\<lambda>_ _. False) m"
proof -
  have "wp (for_each (order table) (\<lambda>r. bnd (block_of r) (\<lambda>b. on_alloc (pb_device b) (ba_free r))))
    (\<lambda>_ t. v1_pool_ok t X \<and> v1_rest t = v1_rest m \<and> (\<forall>d. v1_avail m d \<le> v1_avail t d))
    (\<lambda>_ _. False) m"
  proof (rule wp_for_each [where I = "\<lambda>ys t. v1_pool_ok t (X + mset (map (tag m) ys)) \<and>
      v1_rest t = v1_rest m \<and> (\<forall>d. v1_avail m d \<le> v1_avail t d)"])
    have "mset (map (tag m) (order table)) = mset (map (tag m) table)"
      by (simp only: mset_map set_iteration_mset [OF ord dist])
    then show "v1_pool_ok m (X + mset (map (tag m) (order table))) \<and> v1_rest m = v1_rest m \<and>
        (\<forall>d. v1_avail m d \<le> v1_avail m d)"
      using ok by simp
  next
    fix r ys t
    assume I: "v1_pool_ok t (X + mset (map (tag m) (r # ys))) \<and> v1_rest t = v1_rest m \<and>
      (\<forall>d. v1_avail m d \<le> v1_avail t d)"
    let ?d = "pb_device (v1_obj t r)"
    have d: "tag m r = (?d, r)" using tag_rest [of t m] I by (simp add: tag_def fun_eq_iff)
    have "wp (v1_free_block ?d r) (\<lambda>_ u. v1_pool_ok u (X + mset (map (tag m) (r # ys)) - {#(?d, r)#}) \<and>
        v1_rest u = v1_rest t \<and> v1_avail u = (v1_avail t)(?d := v1_avail t ?d +
          (if count (X + mset (map (tag m) (r # ys))) (?d, r) = 1 then 1 else 0))) (\<lambda>_ _. False) t"
      by (rule v1_free_owned) (use I d in auto)
    then show "wp (bnd (block_of r) (\<lambda>b. on_alloc (pb_device b) (ba_free r)))
        (\<lambda>_ t. v1_pool_ok t (X + mset (map (tag m) ys)) \<and> v1_rest t = v1_rest m \<and>
           (\<forall>d. v1_avail m d \<le> v1_avail t d)) (\<lambda>_ _. False) t"
      unfolding wp_bnd block_of_def wp_gets v1_free_block_def
      by (rule wp_mono) (use I d in \<open>auto intro: le_SucI\<close>)
  qed simp
  then show ?thesis
    by (simp add: free_block_table_def wp_bnd wp_gets win Let_def)
qed

lemma v1_free_ok:
  assumes inv: "v1_inv m" and ord: "set_iteration order"
  shows "wp (v1_free order s) (\<lambda>_ t. v1_inv t \<and>
      v1_rest t = v1_rest (m\<lparr>vm_block_tables := ddel (seq_id s) (vm_block_tables m)\<rparr>)) (\<lambda>_ _. False) m"
proof (cases "map_of (vm_block_tables m) (seq_id s)")
  case None
  then have "ddel (seq_id s) (vm_block_tables m) = vm_block_tables m"
    by (intro ddel_fresh) (simp add: map_of_eq_None_iff)
  then show ?thesis using None inv by (simp add: v1_free_def wp_simps)
next
  case (Some table)
  note D = v1_invD [OF inv]
  let ?ts = "ddel (seq_id s) (vm_block_tables m)"
  have "wp (free_block_table order table) (\<lambda>_ t. v1_pool_ok t (refs_of m ?ts) \<and> v1_rest t = v1_rest m \<and>
      (\<forall>d. v1_avail m d \<le> v1_avail t d)) (\<lambda>_ _. False) m"
    by (rule free_block_table_ok [OF _ D(6) [OF Some] ord D(4)])
      (use D(1) refs_split [OF D(2) Some, of m] in \<open>simp add: union_commute\<close>)
  then show ?thesis
    unfolding v1_free_def wp_bnd wp_gets Some option.case wp_sq
  proof (rule wp_mono)
    fix x t
    assume t: "v1_pool_ok t (refs_of m ?ts) \<and> v1_rest t = v1_rest m \<and> (\<forall>d. v1_avail m d \<le> v1_avail t d)"
    let ?t = "t\<lparr>vm_block_tables := ?ts\<rparr>"
    have r: "v1_rest ?t = v1_rest (m\<lparr>vm_block_tables := ?ts\<rparr>)" using t by (auto intro: v1_rest_tables)
    have "v1_inv ?t"
      using t inv by (intro v1_inv_rest [OF inv r]) (simp_all add: v1_inv_def)
    then show "wp (modify (\<lambda>m. m\<lparr>vm_block_tables := ddel (seq_id s) (vm_block_tables m)\<rparr>))
      (\<lambda>_ t. v1_inv t \<and> v1_rest t = v1_rest (m\<lparr>vm_block_tables := ?ts\<rparr>)) (\<lambda>_ _. False) t"
      using r v1_restD(1) [of t m] t by (simp add: wp_simps)
  qed simp
qed

end
