(* ===== verification/Block_V1_Ops.thy ===== *)
theory Block_V1_Ops
  imports Block_V1_Facts
begin

text \<open>
  The remaining operations of the first block manager keep its invariant: fork, append with
  copy-on-write, allocation and reset.
\<close>

section \<open>Fork\<close>

lemma v1_retain_loop:
  assumes ok: "v1_pool_ok m X" and own: "\<And>r. r \<in> set table \<Longrightarrow> tag m r \<in># X"
  shows "wp (for_each table (\<lambda>r. set_block r (\<lambda>b. b\<lparr>pb_ref_count := pb_ref_count b + 1\<rparr>)))
    (\<lambda>_ t. v1_pool_ok t (X + mset (map (tag m) table)) \<and> v1_rest t = v1_rest m \<and> v1_avail t = v1_avail m)
    (\<lambda>_ _. False) m"
proof -
  have "(\<lambda>r. set_block r (\<lambda>b. b\<lparr>pb_ref_count := pb_ref_count b + 1\<rparr>)) =
      (\<lambda>r. case tag m r of (d, r) \<Rightarrow> v1_retain d r)"
    by (simp add: tag_def v1_retain_def)
  with v1p.retain_many [OF ok, of "map (tag m) table"] own show ?thesis
    by (simp only: for_each_map [where f = "\<lambda>(d, r). v1_retain d r" and h = "tag m"]) auto
qed

lemma v1_fork_ok:
  assumes inv: "v1_inv m" and ord: "set_iteration order"
    and fresh: "map_of (vm_block_tables m) (seq_id c) = None"
  shows "wp (v1_fork order p c)
    (\<lambda>_ t. v1_inv t \<and> v1_avail t = v1_avail m \<and> (\<exists>table. map_of (vm_block_tables m) (seq_id p) = Some table \<and>
       v1_rest t = v1_rest (m\<lparr>vm_block_tables := dset (seq_id c) table (vm_block_tables m)\<rparr>)))
    (\<lambda>e t. t = m \<and> map_of (vm_block_tables m) (seq_id p) = None) m"
proof (cases "map_of (vm_block_tables m) (seq_id p)")
  case None
  then show ?thesis by (simp add: v1_fork_def get_table_def wp_simps)
next
  case (Some table)
  note D = v1_invD [OF inv]
  let ?ts = "dset (seq_id c) table (vm_block_tables m)"
  let ?m = "m\<lparr>vm_block_tables := ?ts\<rparr>"
  have fr: "ddel (seq_id c) (vm_block_tables m) = vm_block_tables m"
    using fresh by (intro ddel_fresh) (simp add: map_of_eq_None_iff)
  have ms: "mset (map (tag ?m) (order table)) = mset (map (tag m) table)"
    using set_iteration_mset [OF ord D(6) [OF Some]] by (simp only: mset_map tag_tables)
  have "wp (for_each (order table) (\<lambda>r. set_block r (\<lambda>b. b\<lparr>pb_ref_count := pb_ref_count b + 1\<rparr>)))
      (\<lambda>_ t. v1_pool_ok t (refs_of m (vm_block_tables m) + mset (map (tag ?m) (order table))) \<and>
         v1_rest t = v1_rest ?m \<and> v1_avail t = v1_avail ?m) (\<lambda>_ _. False) ?m"
  proof (rule v1_retain_loop)
    show "v1_pool_ok ?m (refs_of m (vm_block_tables m))" using D(1) by simp
    fix r assume "r \<in> set (order table)"
    then show "tag ?m r \<in># refs_of m (vm_block_tables m)"
      using ord refs_split [OF D(2) Some, of m] by (auto simp: set_iteration_def)
  qed
  then show ?thesis
    unfolding v1_fork_def get_table_def set_table_def wp_bnd wp_sq wp_lift_err wp_modify
      dget_Inr [OF Some] sum.case
  proof (rule wp_mono)
    fix x t
    assume t: "v1_pool_ok t (refs_of m (vm_block_tables m) + mset (map (tag ?m) (order table))) \<and>
      v1_rest t = v1_rest ?m \<and> v1_avail t = v1_avail ?m"
    have "v1_pool_ok t (refs_of m ?ts)"
      using t refs_dset [OF D(2), of m "seq_id c" table] by (simp only: ms fr union_commute)
    then have "v1_inv t"
      using t inv D(6) [OF Some] by (intro v1_inv_rest [OF inv, of t ?ts]) (simp_all add: v1_inv_def)
    then show "v1_inv t \<and> v1_avail t = v1_avail m \<and> (\<exists>table. map_of (vm_block_tables m) (seq_id p) = Some table \<and>
       v1_rest t = v1_rest (m\<lparr>vm_block_tables := dset (seq_id c) table (vm_block_tables m)\<rparr>))"
      using t Some by simp
  qed simp
qed

section \<open>Append\<close>

text \<open>One block of a table is replaced, or a block is added to it.\<close>

lemma v1_inv_set_table:
  assumes inv: "v1_inv m" and t: "v1_rest t = v1_rest m"
    and ok: "v1_pool_ok t (mset (map (tag m) table) + refs_of m (ddel k (vm_block_tables m)))"
    and dist: "distinct table"
  shows "v1_inv (t\<lparr>vm_block_tables := dset k table (vm_block_tables t)\<rparr>)"
proof -
  note D = v1_invD [OF inv]
  have "vm_block_tables t = vm_block_tables m" using v1_restD(1) [OF t] .
  then show ?thesis
    using ok dist inv refs_dset [OF D(2), of m k table]
    by (intro v1_inv_rest [OF inv v1_rest_tables [OF t]]) (simp_all add: v1_inv_def)
qed

lemma allocate_last_ok:
  assumes inv: "v1_inv m"
  shows "wp (allocate_last_physical_block hash s)
    (\<lambda>r t. v1_pool_ok t (add_mset (GPU, r) (refs_of m (vm_block_tables m))) \<and>
       (GPU, r) \<notin># refs_of m (vm_block_tables m) \<and> v1_rest t = v1_rest m \<and> 0 < v1_avail m GPU \<and>
       v1_avail t = (v1_avail m)(GPU := v1_avail m GPU - 1))
    (\<lambda>_ t. t = m \<and> v1_avail m GPU = 0) m"
proof -
  note D = v1_invD [OF inv]
  have "wp (v1_alloc GPU)
    (\<lambda>r t. v1_pool_ok t (add_mset (GPU, r) (refs_of m (vm_block_tables m))) \<and>
       (GPU, r) \<notin># refs_of m (vm_block_tables m) \<and> v1_rest t = v1_rest m \<and> 0 < v1_avail m GPU \<and>
       v1_avail t = (v1_avail m)(GPU := v1_avail m GPU - 1))
    (\<lambda>_ t. v1_avail m GPU = 0 \<and> t = m) m"
    by (rule v1p.alloc_cases [OF D(1)])
  then show ?thesis
    unfolding allocate_last_physical_block_def wp_bnd wp_gets if_P [OF D(5)]
      wp_on_alloc_fold [OF v1_pool_okD(1) [OF D(1)]]
    by (rule wp_mono) auto
qed

text \<open>The table of \<open>k\<close> becomes \<open>table\<close>, which ends in a block that nobody had.\<close>

definition fresh_tail :: "v1_manager \<Rightarrow> nat \<Rightarrow> block_table \<Rightarrow> block_ref \<Rightarrow> v1_manager \<Rightarrow> bool" where
  "fresh_tail m k pre r t \<longleftrightarrow>
     v1_inv t \<and> v1_rest t = v1_rest (m\<lparr>vm_block_tables := dset k (pre @ [r]) (vm_block_tables m)\<rparr>) \<and>
     pb_device (v1_obj t r) = GPU \<and> pb_ref_count (v1_obj t r) = 1 \<and> pb_ref_count (v1_obj m r) = 0"

lemma fresh_tailI:
  assumes inv: "v1_inv m" and k: "map_of (vm_block_tables m) k = Some table" and t: "v1_rest t = v1_rest m"
    and pre: "set pre \<subseteq> set table" "distinct pre"
    and ok: "v1_pool_ok t (add_mset (GPU, r) (mset (map (tag m) pre) + refs_of m (ddel k (vm_block_tables m))))"
    and new: "(GPU, r) \<notin># refs_of m (vm_block_tables m)"
  shows "fresh_tail m k pre r (t\<lparr>vm_block_tables := dset k (pre @ [r]) (vm_block_tables t)\<rparr>)"
proof -
  note D = v1_invD [OF inv]
  let ?R = "mset (map (tag m) pre) + refs_of m (ddel k (vm_block_tables m))"
  have tabs: "vm_block_tables t = vm_block_tables m" using v1_restD(1) [OF t] .
  have sub: "x \<in># refs_of m (vm_block_tables m)" if "x \<in># ?R" for x
    using that pre(1) refs_split [OF D(2) k, of m] by auto
  have r: "r < bh_next (vm_heap t)" "pb_device (v1_obj t r) = GPU"
    using v1_pool_okD(5,6) [OF ok, of GPU r] by simp_all
  have tag: "tag m r = (GPU, r)" using r(2) v1_restD(5) [OF t, of r] by (simp add: tag_def)
  have cnt: "count ?R (GPU, r) = 0" using new sub by (meson not_in_iff)
  have "pb_ref_count (v1_obj t r) = count (add_mset (GPU, r) ?R) (GPU, r)"
    using v1_pool_okD(4) [OF ok r(1)] r(2) by simp
  then have "pb_ref_count (v1_obj t r) = 1" using cnt by simp
  moreover have "pb_ref_count (v1_obj m r) = 0"
    using v1_pool_okD(4) [OF D(1), of r] r v1_restD(4,5) [OF t] new by (simp add: not_in_iff)
  moreover have "tag m r \<in># ?R" if "r \<in> set pre" using that by simp
  then have "r \<notin> set pre" using sub [of "tag m r"] new tag by auto
  then have "v1_inv (t\<lparr>vm_block_tables := dset k (pre @ [r]) (vm_block_tables t)\<rparr>)"
    using ok pre(2) tag by (intro v1_inv_set_table [OF inv t]) simp_all
  moreover have "v1_rest (t\<lparr>vm_block_tables := dset k (pre @ [r]) (vm_block_tables t)\<rparr>) =
      v1_rest (m\<lparr>vm_block_tables := dset k (pre @ [r]) (vm_block_tables m)\<rparr>)"
    using v1_rest_tables [OF t] tabs by simp
  ultimately show ?thesis using r by (simp add: fresh_tail_def)
qed

text \<open>The result of an append: the block that takes the token has no other owner.\<close>

definition append_post ::
  "v1_manager \<Rightarrow> nat \<Rightarrow> block_table \<Rightarrow> (nat \<times> nat) list \<Rightarrow> v1_manager \<Rightarrow> bool"
where
  "append_post m k table copies t \<longleftrightarrow>
     (t = m \<and> copies = [] \<and> table \<noteq> [] \<and> pb_device (v1_obj m (last table)) = GPU \<and>
        pb_ref_count (v1_obj m (last table)) = 1) \<or>
     (\<exists>r. fresh_tail m k table r t \<and> copies = []) \<or>
     (\<exists>r. table \<noteq> [] \<and> fresh_tail m k (butlast table) r t \<and> pb_ref_count (v1_obj m (last table)) \<ge> 2 \<and>
        copies = [(pb_block_number (v1_obj m (last table)), pb_block_number (v1_obj t r))])"

lemma append_to_last_block_ok:
  assumes inv: "v1_inv m" and k: "map_of (vm_block_tables m) (seq_id s) = Some table"
  shows "wp (append_to_last_block hash s table) (append_post m (seq_id s) table) (\<lambda>_ t. t = m) m"
proof (cases "table = []")
  case True
  then show ?thesis by (simp add: append_to_last_block_def wp_simps last_py_def)
next
  case False
  note D = v1_invD [OF inv]
  let ?k = "seq_id s" and ?old = "last table"
  let ?R = "mset (map (tag m) (butlast table)) + refs_of m (ddel ?k (vm_block_tables m))"
  have table: "table = butlast table @ [?old]" using False by simp
  have refs: "refs_of m (vm_block_tables m) = add_mset (tag m ?old) ?R"
    using refs_split [OF D(2) k, of m] by (subst (asm) table) simp
  have old: "?old < bh_next (vm_heap m)" using v1_pool_okD(5) [OF D(1)] refs by (auto simp: tag_def)
  have rc: "pb_ref_count (v1_obj m ?old) = Suc (count ?R (tag m ?old))"
    using v1_pool_okD(4) [OF D(1) old] refs by (simp add: tag_def)
  have cow: "wp (allocate_last_physical_block hash s) (\<lambda>r. wp (sq (set_table s (butlast table @ [r]))
      (sq (on_alloc GPU (ba_free ?old)) (bnd (block_of ?old) (\<lambda>b. bnd (block_of r) (\<lambda>c.
       ret [(pb_block_number b, pb_block_number c)])))))
      (append_post m ?k table) (\<lambda>_ t. t = m)) (\<lambda>_ t. t = m) m"
    if gpu: "pb_device (v1_obj m ?old) = GPU" and shared: "pb_ref_count (v1_obj m ?old) \<noteq> 1"
  proof (rule wp_mono [OF allocate_last_ok [OF inv]])
    fix r t
    assume t: "v1_pool_ok t (add_mset (GPU, r) (refs_of m (vm_block_tables m))) \<and>
       (GPU, r) \<notin># refs_of m (vm_block_tables m) \<and> v1_rest t = v1_rest m \<and> 0 < v1_avail m GPU \<and>
       v1_avail t = (v1_avail m)(GPU := v1_avail m GPU - 1)"
    let ?t = "t\<lparr>vm_block_tables := dset ?k (butlast table @ [r]) (vm_block_tables t)\<rparr>"
    have g: "tag m ?old = (GPU, ?old)" using gpu by (simp add: tag_def)
    have two: "2 \<le> pb_ref_count (v1_obj m ?old)" using shared rc by linarith
    have free: "wp (v1_free_block GPU ?old) (\<lambda>_ u. v1_pool_ok u (add_mset (GPU, r) ?R) \<and> v1_rest u = v1_rest ?t)
        (\<lambda>_ _. False) ?t"
      by (rule wp_mono [OF v1_free_owned [where X = "add_mset (GPU, r) (add_mset (GPU, ?old) ?R)"]])
        (use t refs g in auto)
    show "wp (sq (set_table s (butlast table @ [r])) (sq (on_alloc GPU (ba_free ?old))
        (bnd (block_of ?old) (\<lambda>b. bnd (block_of r) (\<lambda>c. ret [(pb_block_number b, pb_block_number c)])))))
        (append_post m ?k table) (\<lambda>_ t. t = m) t"
      unfolding set_table_def wp_sq wp_modify v1_free_block_def [symmetric] block_of_def wp_bnd wp_gets wp_ret
    proof (rule wp_mono [OF free])
      fix x u
      assume u: "v1_pool_ok u (add_mset (GPU, r) ?R) \<and> v1_rest u = v1_rest ?t"
      have ut: "vm_block_tables u = vm_block_tables ?t" using u by (intro v1_restD(1)) simp
      have um: "v1_rest (u\<lparr>vm_block_tables := vm_block_tables m\<rparr>) = v1_rest m"
        using u t v1_restD(1) [of t m]
          v1_rest_tables [of u ?t "vm_block_tables m"] v1_rest_tables [of t m "vm_block_tables m"] by simp
      have "fresh_tail m ?k (butlast table) r (u\<lparr>vm_block_tables := vm_block_tables m,
          vm_block_tables := dset ?k (butlast table @ [r]) (vm_block_tables m)\<rparr>)"
        using fresh_tailI [OF inv k um, of "butlast table" r] u t D(6) [OF k]
        by (auto dest: in_set_butlastD simp: distinct_butlast)
      moreover have "u\<lparr>vm_block_tables := vm_block_tables m,
          vm_block_tables := dset ?k (butlast table @ [r]) (vm_block_tables m)\<rparr> = u"
        using ut v1_restD(1) [of t m] t by simp
      ultimately show "append_post m ?k table
          [(pb_block_number (v1_obj u ?old), pb_block_number (v1_obj u r))] u"
        using False two v1_restD(6) [OF um, of ?old] unfolding append_post_def by auto
    qed simp
  qed auto
  note run = append_to_last_block_def wp_bnd wp_lift_err last_py_def if_not_P [OF False] sum.case
    block_of_def wp_gets wp_sq wp_ensure
  consider (cpu) "pb_device (v1_obj m ?old) \<noteq> GPU"
    | (own) "pb_device (v1_obj m ?old) = GPU" "pb_ref_count (v1_obj m ?old) = 1"
    | (shared) "pb_device (v1_obj m ?old) = GPU" "pb_ref_count (v1_obj m ?old) \<noteq> 1"
    by blast
  then show ?thesis
  proof cases
    case shared
    show ?thesis
      unfolding run if_P [OF shared(1)] if_not_P [OF shared(2)]
      using cow [OF shared, unfolded run] .
  qed (use False D(5) in \<open>simp_all add: run wp_ret append_post_def\<close>)
qed

lemma v1_append_slots_ok:
  assumes inv: "v1_inv m"
  shows "wp (v1_append_slots hash s n)
    (\<lambda>copies t. \<exists>table. map_of (vm_block_tables m) (seq_id s) = Some table \<and>
       append_post m (seq_id s) table copies t) (\<lambda>_ t. t = m) m"
proof (cases "map_of (vm_block_tables m) (seq_id s)")
  case None
  then show ?thesis by (simp add: v1_append_slots_def get_table_def wp_simps)
next
  case (Some table)
  note D = v1_invD [OF inv]
  have grow: "wp (allocate_last_physical_block hash s) (\<lambda>r. wp (sq (set_table s (table @ [r])) (ret []))
      (append_post m (seq_id s) table) (\<lambda>_ t. t = m)) (\<lambda>_ t. t = m) m"
  proof (rule wp_mono [OF allocate_last_ok [OF inv]])
    fix r t
    assume t: "v1_pool_ok t (add_mset (GPU, r) (refs_of m (vm_block_tables m))) \<and>
       (GPU, r) \<notin># refs_of m (vm_block_tables m) \<and> v1_rest t = v1_rest m \<and> 0 < v1_avail m GPU \<and>
       v1_avail t = (v1_avail m)(GPU := v1_avail m GPU - 1)"
    have "fresh_tail m (seq_id s) table r
        (t\<lparr>vm_block_tables := dset (seq_id s) (table @ [r]) (vm_block_tables t)\<rparr>)"
      using t D(6) [OF Some] refs_split [OF D(2) Some, of m] by (intro fresh_tailI [OF inv Some]) auto
    then show "wp (sq (set_table s (table @ [r])) (ret [])) (append_post m (seq_id s) table) (\<lambda>_ t. t = m) t"
      by (auto simp: set_table_def wp_simps append_post_def)
  qed auto
  show ?thesis
    unfolding v1_append_slots_def wp_bnd get_table_def wp_lift_err dget_Inr [OF Some] sum.case
    using append_to_last_block_ok [OF inv Some, of hash] grow
    by (auto simp: wp_simps D(4) beyond_window_def Some elim: wp_mono)
qed

section \<open>Allocation\<close>

lemma v1_allocate_block_ok:
  assumes ok: "v1_pool_ok t X" and cfg: "vm_block_sliding_window t = None" "\<not> vm_enable_caching t"
    and n: "0 < num_seqs None g"
  shows "wp (v1_allocate_block hash g s table i)
    (\<lambda>table' u. \<exists>r. table' = table @ [r] \<and> (GPU, r) \<notin># X \<and> v1_rest u = v1_rest t \<and> 0 < v1_avail t GPU \<and>
       v1_pool_ok u (X + replicate_mset (num_seqs None g) (GPU, r)) \<and>
       v1_avail u = (v1_avail t)(GPU := v1_avail t GPU - 1))
    (\<lambda>_ u. v1_avail t GPU = 0 \<and> u = t) t"
proof -
  let ?Q = "\<lambda>table' u. \<exists>r. table' = table @ [r] \<and> (GPU, r) \<notin># X \<and> v1_rest u = v1_rest t \<and> 0 < v1_avail t GPU \<and>
    v1_pool_ok u (X + replicate_mset (num_seqs None g) (GPU, r)) \<and>
    v1_avail u = (v1_avail t)(GPU := v1_avail t GPU - 1)"
  have nb: "\<not> beyond_window i t" using cfg(1) by (simp add: beyond_window_def)
  show ?thesis
    unfolding v1_allocate_block_def wp_bnd wp_gets id_apply if_not_P [OF nb] if_not_P [OF cfg(2)]
      wp_on_alloc_fold [OF v1_pool_okD(1) [OF ok]]
  proof (rule wp_mono [OF v1p.alloc_cases [OF ok]])
    fix r u
    assume u: "v1_pool_ok u (add_mset (GPU, r) X) \<and> (GPU, r) \<notin># X \<and> v1_rest u = v1_rest t \<and>
      0 < v1_avail t GPU \<and> v1_avail u = (v1_avail t)(GPU := v1_avail t GPU - 1)"
    have "wp (set_block r (\<lambda>b. b\<lparr>pb_ref_count := num_seqs None g\<rparr>))
      (\<lambda>_ v. v1_pool_ok v (X + replicate_mset (num_seqs None g) (GPU, r)) \<and> v1_rest v = v1_rest u \<and>
         v1_avail v = v1_avail u) (\<lambda>_ _. False) u"
      by (rule v1_set_count_ok [where X = "add_mset (GPU, r) X" and d = GPU and n = "num_seqs None g"])
        (use u n in \<open>auto simp: not_in_iff\<close>)
    then show "wp (sq (set_block r (\<lambda>b. b\<lparr>pb_ref_count := num_seqs None g\<rparr>)) (ret r))
      (\<lambda>r. wp (ret (table @ [r])) ?Q (\<lambda>_ u. v1_avail t GPU = 0 \<and> u = t))
      (\<lambda>_ u. v1_avail t GPU = 0 \<and> u = t) u"
      unfolding wp_sq wp_ret by (rule wp_mono) (use u in auto)
  qed auto
qed

lemma in_repeat_mset: "x \<in># repeat_mset n M \<longleftrightarrow> 0 < n \<and> x \<in># M"
  by (simp flip: count_greater_zero_iff)

definition assign_tables :: "Sequence list \<Rightarrow> block_table \<Rightarrow> (nat, block_table) pydict \<Rightarrow> (nat, block_table) pydict" where
  "assign_tables seqs table ts = fold (\<lambda>s. dset (seq_id s) table) seqs ts"

lemma assign_tables_ok:
  assumes "tables_ok ts" "distinct table" "distinct (map seq_id seqs)"
    "\<And>s. s \<in> set seqs \<Longrightarrow> map_of ts (seq_id s) = None"
  shows "tables_ok (assign_tables seqs table ts) \<and>
    refs_of m (assign_tables seqs table ts) =
      refs_of m ts + repeat_mset (length seqs) (mset (map (tag m) table))"
  using assms
proof (induction seqs arbitrary: ts)
  case (Cons s seqs)
  have "ddel (seq_id s) ts = ts"
    using Cons.prems(4) by (intro ddel_fresh) (simp add: map_of_eq_None_iff)
  then have "refs_of m (dset (seq_id s) table ts) = mset (map (tag m) table) + refs_of m ts"
    using refs_dset [of ts m "seq_id s" table] Cons.prems(1) by (simp add: tables_ok_def)
  moreover have "map_of (dset (seq_id s) table ts) (seq_id x) = None" if "x \<in> set seqs" for x
    using that Cons.prems(3,4) by (auto simp: image_iff)
  ultimately show ?case
    using Cons.IH [of "dset (seq_id s) table ts"] Cons.prems by (simp add: assign_tables_def)
qed (simp add: assign_tables_def)

text \<open>The group is new to the manager, and all its sequences wait.\<close>

definition new_group :: "v1_manager \<Rightarrow> SequenceGroup \<Rightarrow> bool" where
  "new_group m g \<longleftrightarrow>
     num_seqs None g = length (get_seqs (Some WAITING) g) \<and>
     distinct (map seq_id (get_seqs (Some WAITING) g)) \<and>
     (\<forall>s \<in> set (get_seqs (Some WAITING) g). map_of (vm_block_tables m) (seq_id s) = None)"

definition prompt_blocks :: "SequenceGroup \<Rightarrow> nat" where
  "prompt_blocks g = length (seq_logical_token_blocks (hd (get_seqs (Some WAITING) g)))"

lemma set_tables_run:
  "for_each seqs (\<lambda>s. set_table s table) m =
     (Inr (), m\<lparr>vm_block_tables := assign_tables seqs table (vm_block_tables m)\<rparr>)"
proof -
  have "fold_each seqs () (\<lambda>_ s. set_table s table) m =
      (Inr (), m\<lparr>vm_block_tables := assign_tables seqs table (vm_block_tables m)\<rparr>)"
    by (induction seqs arbitrary: m)
      (simp_all add: ret_def bnd_def set_table_def modify_def assign_tables_def)
  then show ?thesis by (simp add: for_each_def)
qed

lemma v1_allocate_ok:
  assumes inv: "v1_inv m" and g: "new_group m g" and some: "get_seqs (Some WAITING) g \<noteq> []"
  shows "wp (v1_allocate hash g)
    (\<lambda>_ t. v1_inv t \<and> prompt_blocks g \<le> v1_avail m GPU \<and>
       v1_avail t = (v1_avail m)(GPU := v1_avail m GPU - prompt_blocks g) \<and>
       (\<exists>table. length table = prompt_blocks g \<and> (\<forall>r \<in> set table. (GPU, r) \<notin># refs_of m (vm_block_tables m)) \<and>
          v1_rest t = v1_rest (m\<lparr>vm_block_tables :=
            assign_tables (get_seqs (Some WAITING) g) table (vm_block_tables m)\<rparr>)))
    (\<lambda>_ _. v1_avail m GPU < prompt_blocks g) m"
proof -
  note D = v1_invD [OF inv]
  let ?ws = "get_seqs (Some WAITING) g" and ?X = "refs_of m (vm_block_tables m)" and ?n = "num_seqs None g"
  have n: "0 < ?n" "?n = length ?ws" using g some by (auto simp: new_group_def)
  have first: "first_waiting g = Inr (hd ?ws)"
    using some by (cases ?ws) (simp_all add: first_waiting_def nth_py_def)
  let ?J = "\<lambda>i table t. v1_pool_ok t (?X + repeat_mset ?n (mset (map (Pair GPU) table))) \<and> v1_rest t = v1_rest m \<and>
      distinct table \<and> (\<forall>r \<in> set table. (GPU, r) \<notin># ?X) \<and> length table = i \<and> i \<le> v1_avail m GPU \<and>
      v1_avail t = (v1_avail m)(GPU := v1_avail m GPU - i)"
  have loop: "wp (fold_each [0..<prompt_blocks g] [] (v1_allocate_block hash g (hd ?ws)))
    (?J (prompt_blocks g)) (\<lambda>_ _. v1_avail m GPU < prompt_blocks g) m"
  proof (rule wp_fold_range [where J = ?J])
    fix i table t
    assume i: "i < prompt_blocks g" and J: "?J i table t"
    have cfg: "vm_block_sliding_window t = None" "\<not> vm_enable_caching t"
      using v1_restD(2,3) [of t m] J D(4,5) by simp_all
    show "wp (v1_allocate_block hash g (hd ?ws) table i) (?J (Suc i)) (\<lambda>_ _. v1_avail m GPU < prompt_blocks g) t"
      by (rule wp_mono [OF v1_allocate_block_ok [OF _ cfg n(1)]]) (use J i n(1) in \<open>auto simp: in_repeat_mset ac_simps\<close>)
  qed (use D(1) in simp_all)
  show ?thesis
    unfolding v1_allocate_def wp_bnd wp_lift_err first sum.case prompt_blocks_def [symmetric]
  proof (rule wp_mono [OF loop])
    fix table t
    assume J: "?J (prompt_blocks g) table t"
    have tabs: "vm_block_tables t = vm_block_tables m" using v1_restD(1) J by blast
    have dev: "pb_device (v1_obj m r) = GPU" if "r \<in> set table" for r
      using v1_pool_okD(6) [of t "?X + repeat_mset ?n (mset (map (Pair GPU) table))" GPU r]
        v1_restD(5) [of t m r] J that n(1) by (auto simp: in_repeat_mset)
    have tag: "map (tag m) table = map (Pair GPU) table"
      using dev by (auto simp: tag_def)
    let ?ts = "assign_tables ?ws table (vm_block_tables m)"
    have A: "tables_ok ?ts" "refs_of m ?ts = ?X + repeat_mset ?n (mset (map (tag m) table))"
      using assign_tables_ok [of "vm_block_tables m" table ?ws m] g inv J n(2)
      by (auto simp: new_group_def v1_inv_def)
    have r: "v1_rest (t\<lparr>vm_block_tables := ?ts\<rparr>) = v1_rest (m\<lparr>vm_block_tables := ?ts\<rparr>)"
      using J by (auto intro: v1_rest_tables)
    have "v1_inv (t\<lparr>vm_block_tables := ?ts\<rparr>)"
      by (rule v1_inv_rest [OF inv r]) (use J A tag in simp_all)
    then show "wp (for_each ?ws (\<lambda>s. set_table s table))
      (\<lambda>_ t. v1_inv t \<and> prompt_blocks g \<le> v1_avail m GPU \<and>
       v1_avail t = (v1_avail m)(GPU := v1_avail m GPU - prompt_blocks g) \<and>
       (\<exists>table. length table = prompt_blocks g \<and> (\<forall>r \<in> set table. (GPU, r) \<notin># ?X) \<and>
          v1_rest t = v1_rest (m\<lparr>vm_block_tables := assign_tables ?ws table (vm_block_tables m)\<rparr>)))
      (\<lambda>_ _. v1_avail m GPU < prompt_blocks g) t"
      using r J tabs by (auto simp: wp_def set_tables_run)
  qed
qed

section \<open>Reset\<close>

lemma v1_reset_ok:
  assumes inv: "v1_inv m" and ord: "set_iteration order"
  shows "wp (v1_reset order) (\<lambda>_ t. v1_inv t \<and> v1_rest t = v1_rest (m\<lparr>vm_block_tables := []\<rparr>)) (\<lambda>_ _. False) m"
proof -
  note D = v1_invD [OF inv]
  have dist: "\<forall>table \<in> set (map snd (vm_block_tables m)). distinct table"
  proof
    fix table assume "table \<in> set (map snd (vm_block_tables m))"
    then obtain k where "(k, table) \<in> set (vm_block_tables m)" by auto
    from D(6) [OF map_of_is_SomeI [OF D(2) this]] show "distinct table" .
  qed
  have "wp (for_each (map snd (vm_block_tables m)) (free_block_table order))
    (\<lambda>_ t. v1_pool_ok t {#} \<and> v1_rest t = v1_rest m) (\<lambda>_ _. False) m"
  proof (rule wp_for_each [where I = "\<lambda>ys t. v1_pool_ok t (mset (map (tag m) (concat ys))) \<and>
      v1_rest t = v1_rest m \<and> (\<forall>table \<in> set ys. distinct table)"])
    show "v1_pool_ok m (mset (map (tag m) (concat (map snd (vm_block_tables m))))) \<and> v1_rest m = v1_rest m \<and>
      (\<forall>table \<in> set (map snd (vm_block_tables m)). distinct table)"
      using D(1) dist by (simp add: refs_of_def)
  next
    fix table ys t
    assume I: "v1_pool_ok t (mset (map (tag m) (concat (table # ys)))) \<and> v1_rest t = v1_rest m \<and>
      (\<forall>table \<in> set (table # ys). distinct table)"
    have "tag t = tag m" "vm_block_sliding_window t = None"
      using tag_rest [of t m] v1_restD(3) [of t m] I D(4) by simp_all
    then show "wp (free_block_table order table) (\<lambda>_ t. v1_pool_ok t (mset (map (tag m) (concat ys))) \<and>
      v1_rest t = v1_rest m \<and> (\<forall>table \<in> set ys. distinct table)) (\<lambda>_ _. False) t"
      using I by (intro wp_mono [OF free_block_table_ok [where X = "mset (map (tag m) (concat ys))", OF _ _ ord]])
        (auto simp: union_commute)
  qed simp
  then show ?thesis
    unfolding v1_reset_def wp_bnd wp_gets wp_sq wp_modify
  proof (rule wp_mono)
    fix x t
    assume t: "v1_pool_ok t {#} \<and> v1_rest t = v1_rest m"
    have r: "v1_rest (t\<lparr>vm_block_tables := []\<rparr>) = v1_rest (m\<lparr>vm_block_tables := []\<rparr>)"
      using t by (auto intro: v1_rest_tables)
    then show "v1_inv (t\<lparr>vm_block_tables := []\<rparr>) \<and>
      v1_rest (t\<lparr>vm_block_tables := []\<rparr>) = v1_rest (m\<lparr>vm_block_tables := []\<rparr>)"
      using t by (simp add: v1_inv_rest [OF inv r])
  qed simp
qed

end
