(* ===== verification/Block_V1_Swap.thy ===== *)
theory Block_V1_Swap
  imports Block_V1_Ops
begin

text \<open>
  Swapping in the first block manager. A block that several tables share is moved once and stays
  shared: the new tables are the images of the old ones under one injective map from the blocks of
  the source device to blocks of the destination.
\<close>

definition image_of :: "(block_ref, block_ref) pydict \<Rightarrow> block_table \<Rightarrow> block_table" where
  "image_of mp table = map (\<lambda>r. the (map_of mp r)) table"

lemma image_of_mono: "map_of mp \<subseteq>\<^sub>m map_of mp' \<Longrightarrow> set table \<subseteq> set (dkeys mp) \<Longrightarrow> image_of mp' table = image_of mp table"
  unfolding image_of_def
proof (rule map_cong [OF refl])
  fix r assume "map_of mp \<subseteq>\<^sub>m map_of mp'" "set table \<subseteq> set (dkeys mp)" "r \<in> set table"
  then have "r \<in> dom (map_of mp)" by (auto simp: dom_map_of_conv_image_fst)
  with \<open>map_of mp \<subseteq>\<^sub>m map_of mp'\<close> show "the (map_of mp' r) = the (map_of mp r)" by (simp add: map_le_def)
qed

definition mapping_ok :: "(block_ref, block_ref) pydict \<Rightarrow> bool" where
  "mapping_ok mp \<longleftrightarrow> distinct (dkeys mp) \<and> distinct (map snd mp)"

lemma distinct_image:
  assumes mp: "mapping_ok mp" and "distinct table" "set table \<subseteq> set (dkeys mp)"
  shows "distinct (image_of mp table)"
proof -
  have "inj_on (\<lambda>r. the (map_of mp r)) (set table)"
  proof (rule inj_onI)
    fix a b assume ab: "a \<in> set table" "b \<in> set table" "the (map_of mp a) = the (map_of mp b)"
    from ab(1,2) assms(3) obtain x y where "(a, x) \<in> set mp" "(b, y) \<in> set mp" by fastforce
    with ab(3) mp show "a = b"
      unfolding mapping_ok_def by (metis distinct_map inj_onD map_of_is_SomeI option.sel prod.inject snd_conv)
  qed
  then show ?thesis using assms(2) by (simp add: image_of_def distinct_map)
qed

text \<open>Between two blocks of a table: \<open>R\<close> are the references of the other tables.\<close>

definition moving ::
  "v1_manager \<Rightarrow> Device \<Rightarrow> Device \<Rightarrow> (Device \<times> block_ref) multiset \<Rightarrow> (block_ref, block_ref) pydict \<Rightarrow> block_table \<Rightarrow>
   block_table \<Rightarrow> (block_ref, block_ref) pydict \<times> block_table \<Rightarrow> v1_manager \<Rightarrow> bool"
where
  "moving m src dst R mp0 table rest = (\<lambda>(mp, new) t.
     (\<exists>moved. table = moved @ rest \<and> new = image_of mp moved \<and> set moved \<subseteq> set (dkeys mp) \<and>
        set (dkeys mp) = set (dkeys mp0) \<union> set moved) \<and>
     mapping_ok mp \<and> map_of mp0 \<subseteq>\<^sub>m map_of mp \<and> v1_rest t = v1_rest m \<and>
     v1_pool_ok t (R + mset (map (Pair src) rest) + mset (map (Pair dst) new)) \<and>
     (\<forall>r \<in> set (map snd mp). (dst, r) \<in># R + mset (map (Pair dst) new)) \<and>
     length mp \<le> length mp0 + v1_avail m dst \<and> length mp0 \<le> length mp \<and>
     v1_avail t dst = v1_avail m dst - (length mp - length mp0))"

lemma image_of_extend:
  "map_of mp r = None \<Longrightarrow> set table \<subseteq> set (dkeys mp) \<Longrightarrow> image_of (mp @ [(r, x)]) table = image_of mp table"
  by (rule image_of_mono) (auto simp: map_le_def map_add_def split: option.split)

lemma image_of_simps [simp]:
  "image_of mp [] = []" "image_of mp (xs @ ys) = image_of mp xs @ image_of mp ys"
  "image_of mp (r # rs) = the (map_of mp r) # image_of mp rs"
  by (simp_all add: image_of_def)

lemma wp_move_block:
  "wp (move_block src dst (mp, new) r) Q E t =
     (case map_of mp r of
        Some r' \<Rightarrow> wp (v1_retain dst r') (\<lambda>_. wp (v1_free_block src r) (\<lambda>_. Q (mp, new @ [r'])) E) E t
      | None \<Rightarrow>
          wp (on_alloc dst (ba_allocate (Some (pb_block_hash (v1_obj t r))) (pb_num_hashed_tokens (v1_obj t r))))
            (\<lambda>r'. wp (v1_free_block src r) (\<lambda>_. Q (mp @ [(r, r')], new @ [r'])) E) E t)"
  by (simp add: move_block_def v1_retain_def v1_free_block_def wp_fun wp_gets block_of_def dset_fresh
      dkeys_image split: option.split)

lemma move_block_ok:
  assumes M: "moving m src dst R mp0 table (r # rest) acc t" and dev: "src \<noteq> dst" and dist: "distinct table"
  shows "wp (move_block src dst acc r) (moving m src dst R mp0 table rest)
    (\<lambda>_ _. v1_avail m dst < card (set table - set (dkeys mp0))) t"
proof -
  obtain mp new where acc: "acc = (mp, new)" by (cases acc)
  from M [unfolded moving_def acc prod.case] obtain moved where
    tab: "table = moved @ r # rest" and new: "new = image_of mp moved" and
    moved: "set moved \<subseteq> set (dkeys mp)" and keys: "set (dkeys mp) = set (dkeys mp0) \<union> set moved" and
    mp: "mapping_ok mp" "map_of mp0 \<subseteq>\<^sub>m map_of mp" and t: "v1_rest t = v1_rest m" and
    ok: "v1_pool_ok t (R + mset (map (Pair src) (r # rest)) + mset (map (Pair dst) new))" and
    own: "\<forall>r \<in> set (map snd mp). (dst, r) \<in># R + mset (map (Pair dst) new)" and
    len: "length mp \<le> length mp0 + v1_avail m dst" "length mp0 \<le> length mp" and
    av: "v1_avail t dst = v1_avail m dst - (length mp - length mp0)"
    by blast
  let ?Y = "R + mset (map (Pair src) rest) + mset (map (Pair dst) new)"
  have free: "wp (v1_free_block src r) (\<lambda>_ w. v1_pool_ok w (add_mset (dst, r') ?Y) \<and> v1_rest w = v1_rest u \<and>
      v1_avail w dst = v1_avail u dst) (\<lambda>_ _. False) u"
    if "v1_pool_ok u (add_mset (dst, r') (add_mset (src, r) ?Y))" for u r'
    by (rule wp_mono [OF v1_free_owned [OF that]]) (use dev in \<open>auto simp: add_mset_commute\<close>)
  show ?thesis
  proof (cases "map_of mp r")
    case (Some r')
    have r': "r' \<in> set (map snd mp)" using map_of_SomeD [OF Some] by force
    have ret: "wp (v1_retain dst r') (\<lambda>_ u. v1_pool_ok u (add_mset (dst, r') (add_mset (src, r) ?Y)) \<and>
        v1_rest u = v1_rest t \<and> v1_avail u = v1_avail t) (\<lambda>_ _. False) t"
      by (rule wp_mono [OF v1_retain_owned [OF ok]]) (use own r' in auto)
    have "r \<in> set (dkeys mp)" using Some by (simp add: dkeys_image)
    then have fin: "moving m src dst R mp0 table rest (mp, new @ [r']) w"
      if "v1_pool_ok w (add_mset (dst, r') ?Y)" "v1_rest w = v1_rest m" "v1_avail w dst = v1_avail t dst" for w
      unfolding moving_def prod.case
      using that tab new moved keys mp own len av Some
      by (intro conjI exI [where x = "moved @ [r]"]) auto
    show ?thesis
      unfolding acc wp_move_block Some option.case
      by (rule wp_mono [OF ret]) (auto intro!: wp_mono [OF free] fin simp: t)
  next
    case None
    have fresh: "r \<notin> set (dkeys mp)" using None by (simp add: dkeys_image)
    have al: "wp (v1_alloc dst) (\<lambda>r' u. v1_pool_ok u (add_mset (dst, r') (add_mset (src, r) ?Y)) \<and>
        (dst, r') \<notin># R + mset (map (Pair dst) new) \<and> v1_rest u = v1_rest t \<and> 0 < v1_avail t dst \<and>
        v1_avail u dst = v1_avail t dst - 1)
      (\<lambda>_ _. v1_avail t dst = 0) t"
      by (rule wp_mono [OF v1p.alloc_cases [OF ok]]) auto
    have fin: "moving m src dst R mp0 table rest (mp @ [(r, r')], new @ [r']) w"
      if "v1_pool_ok w (add_mset (dst, r') ?Y)" "v1_rest w = v1_rest m" "v1_avail w dst = v1_avail t dst - 1"
        "(dst, r') \<notin># R + mset (map (Pair dst) new)" "0 < v1_avail t dst" for w r'
    proof -
      have "r' \<notin> set (map snd mp)" using own that(4) by auto
      then have "mapping_ok (mp @ [(r, r')])" using mp(1) fresh by (simp add: mapping_ok_def)
      moreover have "map_of mp0 \<subseteq>\<^sub>m map_of (mp @ [(r, r')])"
        by (rule map_le_trans [OF mp(2)]) (use None in \<open>auto simp: map_le_def map_add_def split: option.split\<close>)
      moreover have "new @ [r'] = image_of (mp @ [(r, r')]) (moved @ [r])"
        using new image_of_extend [OF None moved, of r'] None by (simp add: map_add_def)
      ultimately show ?thesis
        unfolding moving_def prod.case
        using that tab moved keys own len av
        by (intro conjI exI [where x = "moved @ [r]"]) auto
    qed
    have few: "v1_avail m dst < card (set table - set (dkeys mp0))" if "v1_avail t dst = 0"
    proof -
      let ?A = "set (dkeys mp)" and ?B = "set (dkeys mp0)"
      have "length mp = card ?A"
        using mp(1) distinct_card [of "dkeys mp"] by (simp add: mapping_ok_def)
      also have "\<dots> \<le> card (?B \<union> (?A - ?B))" by (rule card_mono) auto
      also have "\<dots> \<le> card ?B + card (?A - ?B)" by (rule card_Un_le)
      also have "\<dots> \<le> length mp0 + card (?A - ?B)" using card_length [of "dkeys mp0"] by simp
      finally have "v1_avail m dst \<le> card (?A - ?B)" using that av len by linarith
      also have "\<dots> < card (set table - ?B)"
        using tab keys fresh by (intro psubset_card_mono) auto
      finally show ?thesis .
    qed
    show ?thesis
      unfolding acc wp_move_block None option.case wp_on_alloc_fold [OF v1_pool_okD(1) [OF ok]]
      by (rule wp_mono [OF al]) (use few in \<open>auto intro!: wp_mono [OF free] fin simp: t\<close>)
  qed
qed

section \<open>Moving the tables of a group\<close>

definition on_device :: "v1_manager \<Rightarrow> Device \<Rightarrow> Sequence \<Rightarrow> block_table \<Rightarrow> bool" where
  "on_device m d s table \<longleftrightarrow> map_of (vm_block_tables m) (seq_id s) = Some table \<and>
     (\<forall>r \<in> set table. pb_device (v1_obj m r) = d)"

text \<open>The sequences \<open>ss\<close> are moved, with the mapping \<open>mp\<close>.\<close>

definition moved_to ::
  "v1_manager \<Rightarrow> Device \<Rightarrow> (nat \<Rightarrow> block_table) \<Rightarrow> nat set \<Rightarrow> (block_ref, block_ref) pydict \<Rightarrow> v1_manager \<Rightarrow> bool"
where
  "moved_to m dst tab ks mp t \<longleftrightarrow>
     v1_inv t \<and> mapping_ok mp \<and> set (dkeys mp) = (\<Union>k \<in> ks. set (tab k)) \<and>
     (\<forall>k. map_of (vm_block_tables t) k =
        (if k \<in> ks then Some (image_of mp (tab k)) else map_of (vm_block_tables m) k)) \<and>
     (\<forall>r \<in> set (map snd mp). (dst, r) \<in># refs_of t (vm_block_tables t)) \<and>
     v1_rest (t\<lparr>vm_block_tables := vm_block_tables m\<rparr>) = v1_rest m \<and>
     length mp \<le> v1_avail m dst \<and> v1_avail t dst = v1_avail m dst - length mp"

lemma move_table_ok:
  assumes M: "moved_to m dst tab ks mp t" and dev: "src \<noteq> dst" and k: "seq_id s \<notin> ks"
    and s: "on_device m src s (tab (seq_id s))"
  shows "wp (move_table src dst mp s) (moved_to m dst tab (insert (seq_id s) ks))
    (\<lambda>_ _. v1_avail m dst < card (\<Union>k \<in> insert (seq_id s) ks. set (tab k))) t"
proof -
  let ?k = "seq_id s" and ?tab = "tab (seq_id s)"
  let ?R = "refs_of t (ddel ?k (vm_block_tables t))"
  from M have inv: "v1_inv t" and mp: "mapping_ok mp" and keys: "set (dkeys mp) = (\<Union>k \<in> ks. set (tab k))"
    and tabs: "\<And>k. map_of (vm_block_tables t) k =
      (if k \<in> ks then Some (image_of mp (tab k)) else map_of (vm_block_tables m) k)"
    and own: "\<forall>r \<in> set (map snd mp). (dst, r) \<in># refs_of t (vm_block_tables t)"
    and rest: "v1_rest (t\<lparr>vm_block_tables := vm_block_tables m\<rparr>) = v1_rest m"
    and len: "length mp \<le> v1_avail m dst" and av: "v1_avail t dst = v1_avail m dst - length mp"
    by (auto simp: moved_to_def)
  note D = v1_invD [OF inv]
  have tk: "map_of (vm_block_tables t) ?k = Some ?tab" using s k tabs by (simp add: on_device_def)
  have devs: "pb_device (v1_obj t r) = src" if "r \<in> set ?tab" for r
    using that s v1_restD(5) [OF rest, of r] by (simp add: on_device_def)
  have tagk: "map (tag t) ?tab = map (Pair src) ?tab" using devs by (auto simp: tag_def)
  have refs: "refs_of t (vm_block_tables t) = mset (map (Pair src) ?tab) + ?R"
    using refs_split [OF D(2) tk, of t] tagk by simp
  have start: "moving t src dst ?R mp ?tab ?tab (mp, []) t"
    unfolding moving_def prod.case
    using mp D(1) refs own dev by (intro conjI exI [where x = "[]"]) (auto simp: union_commute)
  have loop: "wp (fold_each ?tab (mp, []) (move_block src dst)) (moving t src dst ?R mp ?tab [])
      (\<lambda>_ _. v1_avail t dst < card (set ?tab - set (dkeys mp))) t"
  proof (rule wp_fold_each [where I = "moving t src dst ?R mp ?tab"])
    fix r ys acc u
    assume "moving t src dst ?R mp ?tab (r # ys) acc u"
    then show "wp (move_block src dst acc r) (moving t src dst ?R mp ?tab ys)
        (\<lambda>_ _. v1_avail t dst < card (set ?tab - set (dkeys mp))) u"
      by (rule move_block_ok [OF _ dev D(6) [OF tk]])
  qed (fact start, simp)
  show ?thesis
    unfolding move_table_def get_table_def wp_bnd wp_lift_err dget_Inr [OF tk] sum.case
  proof (rule wp_mono [OF loop])
    fix acc u
    assume Mv: "moving t src dst ?R mp ?tab [] acc u"
    obtain mp' new where acc: "acc = (mp', new)" by (cases acc)
    from Mv [unfolded moving_def acc prod.case] have
      new: "new = image_of mp' ?tab" and sub: "set ?tab \<subseteq> set (dkeys mp')" and
      keys': "set (dkeys mp') = set (dkeys mp) \<union> set ?tab" and
      mp': "mapping_ok mp'" "map_of mp \<subseteq>\<^sub>m map_of mp'" and u: "v1_rest u = v1_rest t" and
      ok: "v1_pool_ok u (?R + mset (map (Pair dst) new))" and
      own': "\<forall>r \<in> set (map snd mp'). (dst, r) \<in># ?R + mset (map (Pair dst) new)" and
      len': "length mp' \<le> length mp + v1_avail t dst" "length mp \<le> length mp'" and
      av': "v1_avail u dst = v1_avail t dst - (length mp' - length mp)"
      by auto
    let ?u = "u\<lparr>vm_block_tables := dset ?k new (vm_block_tables u)\<rparr>"
    have ut: "vm_block_tables u = vm_block_tables t" using v1_restD(1) [OF u] .
    have dist: "distinct new" unfolding new by (rule distinct_image [OF mp'(1) D(6) [OF tk] sub])
    have dn: "pb_device (v1_obj u r) = dst" if "r \<in> set new" for r
      using v1_pool_okD(6) [OF ok, of dst r] that by simp
    have tagn: "map (tag t) new = map (Pair dst) new"
      using dn tag_rest [OF u] by (auto simp: tag_def fun_eq_iff)
    have invu: "v1_inv ?u"
      by (rule v1_inv_set_table [OF inv u _ dist]) (use ok in \<open>simp only: tagn union_commute\<close>)
    have refsu: "refs_of ?u (vm_block_tables ?u) = mset (map (Pair dst) new) + ?R"
      using refs_dset [OF D(2), of t ?k new] refs_rest [OF u] tagn ut by simp
    have img: "image_of mp' (tab k) = image_of mp (tab k)" if "k \<in> ks" for k
      by (rule image_of_mono [OF mp'(2)]) (use keys that in auto)
    have "moved_to m dst tab (insert ?k ks) mp' ?u"
      unfolding moved_to_def
    proof (intro conjI allI)
      show "map_of (vm_block_tables ?u) k = (if k \<in> insert ?k ks then Some (image_of mp' (tab k))
          else map_of (vm_block_tables m) k)" for k
        using tabs [of k] img ut new by simp
      show "v1_rest (?u\<lparr>vm_block_tables := vm_block_tables m\<rparr>) = v1_rest m"
        using v1_rest_tables [OF u, of "vm_block_tables m"] rest by simp
      show "\<forall>r \<in> set (map snd mp'). (dst, r) \<in># refs_of ?u (vm_block_tables ?u)"
        using own' unfolding refsu by auto
    qed (use invu mp'(1) keys keys' len len' av av' in auto)
    then show "wp (case acc of (mapping', new_table) \<Rightarrow> sq (set_table s new_table) (ret mapping'))
        (moved_to m dst tab (insert ?k ks))
        (\<lambda>_ _. v1_avail m dst < card (\<Union>k \<in> insert ?k ks. set (tab k))) u"
      by (simp add: acc set_table_def wp_simps)
  next
    have "card (set (dkeys mp)) = length mp"
      using mp distinct_card [of "dkeys mp"] by (simp add: mapping_ok_def)
    moreover have "card (\<Union>k \<in> insert ?k ks. set (tab k)) =
        card (set ?tab - set (dkeys mp)) + card (set (dkeys mp))"
    proof -
      have "card ((set ?tab - set (dkeys mp)) \<union> set (dkeys mp)) =
          card (set ?tab - set (dkeys mp)) + card (set (dkeys mp))"
        by (rule card_Un_disjoint) auto
      moreover have "(\<Union>k \<in> insert ?k ks. set (tab k)) = (set ?tab - set (dkeys mp)) \<union> set (dkeys mp)"
        using keys by auto
      ultimately show ?thesis by simp
    qed
    ultimately show "v1_avail m dst < card (\<Union>k \<in> insert ?k ks. set (tab k))"
      if "v1_avail t dst < card (set ?tab - set (dkeys mp))" for e :: py_error and u :: v1_manager
      using that av len by linarith
  qed
qed

lemma move_tables_ok:
  assumes inv: "v1_inv m" and dev: "src \<noteq> dst" and ids: "distinct (map seq_id ss)"
    and ss: "\<And>s. s \<in> set ss \<Longrightarrow> on_device m src s (tab (seq_id s))"
  shows "wp (fold_each ss [] (move_table src dst)) (moved_to m dst tab (seq_id ` set ss))
    (\<lambda>_ _. v1_avail m dst < card (\<Union>s \<in> set ss. set (tab (seq_id s)))) m"
proof (rule wp_fold_each [where I = "\<lambda>ys mp t. \<exists>xs. ss = xs @ ys \<and> moved_to m dst tab (seq_id ` set xs) mp t"])
  show "\<exists>xs. ss = xs @ ss \<and> moved_to m dst tab (seq_id ` set xs) [] m"
    using inv by (intro exI [where x = "[]"]) (auto simp: moved_to_def mapping_ok_def)
next
  fix s ys mp t
  assume "\<exists>xs. ss = xs @ s # ys \<and> moved_to m dst tab (seq_id ` set xs) mp t"
  then obtain xs where xs: "ss = xs @ s # ys" "moved_to m dst tab (seq_id ` set xs) mp t" by blast
  have k: "seq_id s \<notin> seq_id ` set xs" using ids xs(1) by auto
  have s: "on_device m src s (tab (seq_id s))" by (rule ss) (simp add: xs(1))
  have sub: "(\<Union>k \<in> insert (seq_id s) (seq_id ` set xs). set (tab k)) \<subseteq> (\<Union>s \<in> set ss. set (tab (seq_id s)))"
    using xs(1) by auto
  have le: "card (\<Union>k \<in> insert (seq_id s) (seq_id ` set xs). set (tab k)) \<le>
      card (\<Union>s \<in> set ss. set (tab (seq_id s)))"
    by (rule card_mono [OF _ sub]) simp
  show "wp (move_table src dst mp s) (\<lambda>mp t. \<exists>xs. ss = xs @ ys \<and> moved_to m dst tab (seq_id ` set xs) mp t)
    (\<lambda>_ _. v1_avail m dst < card (\<Union>s \<in> set ss. set (tab (seq_id s)))) t"
    by (rule wp_mono [OF move_table_ok [OF xs(2) dev k s]])
      (use le xs(1) in \<open>auto intro!: exI [where x = "xs @ [s]"]\<close>)
qed auto

end
