(* ===== verification/Block_V1_Run.thy ===== *)
theory Block_V1_Run
  imports Block_V1_Swap
begin

text \<open>
  The first block manager in operation: the states that its operations reach from the constructor,
  and the properties that hold in all of them.
\<close>

section \<open>Reachable states\<close>

text \<open>
  \<open>v1_reach hash order m\<close>: \<open>m\<close> is reached without sliding window. The premises are what the
  scheduler keeps to: only new groups are allocated, a child of a fork is new, and a group that is
  swapped has its blocks on one device. Allocation and swapping must have returned; the other
  operations may also have raised.
\<close>

inductive v1_reach ::
  "((int list \<times> int list option) \<times> int \<Rightarrow> int) \<Rightarrow> (block_ref list \<Rightarrow> block_ref list) \<Rightarrow> v1_manager \<Rightarrow> bool"
  for hash order
where
  reach_init: "BlockSpaceManagerV1_init bs ng nc wm None caching fl = Inr m \<Longrightarrow> v1_reach hash order m"
| reach_allocate: "v1_reach hash order m \<Longrightarrow> new_group m g \<Longrightarrow> v1_allocate hash g m = (Inr (), t) \<Longrightarrow>
    v1_reach hash order t"
| reach_append: "v1_reach hash order m \<Longrightarrow> v1_reach hash order (snd (v1_append_slots hash s n m))"
| reach_fork: "v1_reach hash order m \<Longrightarrow> map_of (vm_block_tables m) (seq_id c) = None \<Longrightarrow>
    v1_reach hash order (snd (v1_fork order p c m))"
| reach_free: "v1_reach hash order m \<Longrightarrow> v1_reach hash order (snd (v1_free order s m))"
| reach_reset: "v1_reach hash order m \<Longrightarrow> v1_reach hash order (snd (v1_reset order m))"
| reach_swap_out: "v1_reach hash order m \<Longrightarrow> distinct (map seq_id (get_seqs (Some RUNNING) g)) \<Longrightarrow>
    \<forall>s \<in> set (get_seqs (Some RUNNING) g). \<exists>table. on_device m GPU s table \<Longrightarrow>
    v1_swap_out g m = (Inr ms, t) \<Longrightarrow> v1_reach hash order t"
| reach_swap_in: "v1_reach hash order m \<Longrightarrow> distinct (map seq_id (get_seqs (Some SWAPPED) g)) \<Longrightarrow>
    \<forall>s \<in> set (get_seqs (Some SWAPPED) g). \<exists>table. on_device m CPU s table \<Longrightarrow>
    v1_swap_in g n m = (Inr ms, t) \<Longrightarrow> v1_reach hash order t"

text \<open>The constructor numbers the blocks of each device from 0.\<close>

lemma init_free_blocks_eq:
  "init_free_blocks d bs is h =
     ([bh_next h..<bh_next h + length is],
      \<lparr>bh_obj = (\<lambda>r. if bh_next h \<le> r \<and> r < bh_next h + length is
                    then PhysicalTokenBlock_init d (is ! (r - bh_next h)) bs (-1) 0 else bh_obj h r),
       bh_next = bh_next h + length is\<rparr>)"
proof (induction "is" arbitrary: h)
  case Nil
  then show ?case by (cases h) (auto simp: fun_eq_iff)
next
  case (Cons i "is")
  have "r - bh_next h = Suc (r - Suc (bh_next h))" if "Suc (bh_next h) \<le> r" for r
    using that by simp
  then show ?case
    by (auto simp: heap_new_def Cons.IH fun_eq_iff upt_rec [of "bh_next h"] nth_Cons' Suc_le_eq le_less)
      (metis One_nat_def Suc_lessI length_greater_0_conv)
qed

lemma v1_init_inv:
  assumes "BlockSpaceManagerV1_init bs ng nc wm None caching fl = Inr m"
  shows "v1_inv m"
proof -
  have m: "\<not> caching" "m = \<lparr>vm_block_size = bs, vm_num_total_gpu_blocks = ng, vm_num_total_cpu_blocks = nc,
      vm_flatten_layers = fl, vm_block_sliding_window = None, vm_watermark = wm, vm_enable_caching = caching,
      vm_watermark_blocks = int_of_rat (wm * of_nat ng),
      vm_heap = \<lparr>bh_obj = (\<lambda>r. if ng \<le> r \<and> r < ng + nc then PhysicalTokenBlock_init CPU (r - ng) bs (-1) 0
         else if r < ng then PhysicalTokenBlock_init GPU r bs (-1) 0 else PhysicalTokenBlock_init GPU 0 0 0 0),
         bh_next = ng + nc\<rparr>,
      vm_gpu_allocator = Uncached \<lparr>ua_device = GPU, ua_block_size = bs, ua_num_blocks = ng, ua_free_blocks = [0..<ng]\<rparr>,
      vm_cpu_allocator = Uncached \<lparr>ua_device = CPU, ua_block_size = bs, ua_num_blocks = nc,
        ua_free_blocks = [ng..<ng + nc]\<rparr>,
      vm_block_tables = []\<rparr>"
    using assms
    by (auto simp: BlockSpaceManagerV1_init_def UncachedBlockAllocator_init_def init_free_blocks_eq empty_heap_def
        fun_eq_iff nth_upt split: if_splits)
  have fb: "free_blocks d m = (case d of GPU \<Rightarrow> [0..<ng] | CPU \<Rightarrow> [ng..<ng + nc])" for d
    by (cases d) (simp_all add: m free_blocks_def allocator_of_def)
  have "v1_pool_ok m {#}"
    unfolding v1_pool_ok_def fb
    by (auto simp: m allocator_of_def PhysicalTokenBlock_init_def split: Device.splits)
  moreover have "numbered m"
    by (auto simp: numbered_def m inj_on_def PhysicalTokenBlock_init_def split: if_splits)
  moreover have "0 \<le> wm" using assms by (auto simp: BlockSpaceManagerV1_init_def split: if_splits)
  then have "0 \<le> int_of_rat (wm * of_nat ng)" by (simp add: int_of_rat_def)
  ultimately show ?thesis using m by (simp add: v1_inv_def)
qed

lemma swap_tables_ok:
  assumes inv: "v1_inv m" and dev: "src \<noteq> dst" and ids: "distinct (map seq_id ss)"
    and ss: "\<forall>s \<in> set ss. \<exists>table. on_device m src s table"
    and run: "fold_each ss [] (move_table src dst) m = (Inr mp, t)"
  shows "v1_inv t"
proof -
  let ?tab = "\<lambda>k. the (map_of (vm_block_tables m) k)"
  have "on_device m src s (?tab (seq_id s))" if "s \<in> set ss" for s
    using ss that by (auto simp: on_device_def)
  from wp_Inr [OF move_tables_ok [OF inv dev ids this] run]
  show ?thesis by (simp add: moved_to_def)
qed

lemma v1_reach_inv:
  assumes "v1_reach hash order m" and ord: "set_iteration order"
  shows "v1_inv m"
  using assms(1)
proof (induction rule: v1_reach.induct)
  case (reach_init bs ng nc wm caching fl m)
  then show ?case by (rule v1_init_inv)
next
  case (reach_allocate m g t)
  have "get_seqs (Some WAITING) g \<noteq> []"
    using reach_allocate.hyps(3) by (auto simp: v1_allocate_def first_waiting_def nth_py_def bnd_def lift_err_def)
  from wp_Inr [OF v1_allocate_ok [OF reach_allocate.IH reach_allocate.hyps(2) this] reach_allocate.hyps(3)]
  show ?case by simp
next
  case (reach_append m s n)
  show ?case
    by (rule wp_snd, rule wp_mono [OF v1_append_slots_ok [OF reach_append.IH]])
      (use reach_append.IH in \<open>auto simp: append_post_def fresh_tail_def\<close>)
next
  case (reach_fork m c p)
  show ?case
    by (rule wp_snd, rule wp_mono [OF v1_fork_ok [OF reach_fork.IH ord reach_fork.hyps(2)]])
      (use reach_fork.IH in auto)
next
  case (reach_free m s)
  show ?case by (rule wp_snd, rule wp_mono [OF v1_free_ok [OF reach_free.IH ord]]) auto
next
  case (reach_reset m)
  show ?case by (rule wp_snd, rule wp_mono [OF v1_reset_ok [OF reach_reset.IH ord]]) auto
next
  case (reach_swap_out m g ms t)
  then obtain mp where "fold_each (get_seqs (Some RUNNING) g) [] (move_table GPU CPU) m = (Inr mp, t)"
    by (auto simp: v1_swap_out_def bnd_def gets_def split: prod.splits sum.splits)
  then show ?case
    by (rule swap_tables_ok [OF reach_swap_out.IH _ reach_swap_out.hyps(2,3), rotated]) simp
next
  case (reach_swap_in m g n ms t)
  then obtain mp where "fold_each (get_seqs (Some SWAPPED) g) [] (move_table CPU GPU) m = (Inr mp, t)"
    by (auto simp: v1_swap_in_def bnd_def sq_def gets_def ensure_def throw_def ret_def
        split: prod.splits sum.splits if_splits)
  then show ?case
    by (rule swap_tables_ok [OF reach_swap_in.IH _ reach_swap_in.hyps(2,3), rotated]) simp
qed

section \<open>Reference counts\<close>

definition holders :: "block_ref \<Rightarrow> v1_manager \<Rightarrow> nat" where
  "holders r m = length (filter (\<lambda>(k, table). r \<in> set table) (vm_block_tables m))"

lemma count_refs:
  assumes "\<forall>(k, table) \<in> set ts. distinct table"
  shows "count (refs_of m ts) (tag m r) = length (filter (\<lambda>(k, table). r \<in> set table) ts)"
  using assms
proof (induction ts)
  case (Cons a ts)
  obtain k table where a: "a = (k, table)" by (cases a)
  have "count (mset (map (tag m) table)) (tag m r) = count (mset table) r"
    by (induction table) (simp_all add: tag_def)
  moreover have "count (mset table) r = (if r \<in> set table then 1 else 0)"
    using Cons.prems a by (simp add: distinct_count_atmost_1)
  ultimately show ?case using Cons a by simp
qed simp

lemma v1_inv_ref_count:
  assumes inv: "v1_inv m" and r: "r < bh_next (vm_heap m)"
  shows "pb_ref_count (v1_obj m r) = holders r m"
proof -
  note D = v1_invD [OF inv]
  have "\<forall>(k, table) \<in> set (vm_block_tables m). distinct table"
    using D(6) map_of_is_SomeI [OF D(2)] by blast
  from count_refs [OF this, of m r] v1_pool_okD(4) [OF D(1) r] show ?thesis
    by (simp add: tag_def holders_def)
qed

lemma v1_inv_table_bound:
  assumes inv: "v1_inv m" and k: "map_of (vm_block_tables m) k = Some table" and r: "r \<in> set table"
  shows "r < bh_next (vm_heap m)"
proof -
  note D = v1_invD [OF inv]
  have "tag m r \<in># refs_of m (vm_block_tables m)" using refs_split [OF D(2) k, of m] r by simp
  then show ?thesis using v1_pool_okD(5) [OF D(1)] by (simp add: tag_def)
qed

text \<open>
  C20. In every reachable state of the first block manager (no caching, no sliding window) the
  reference count of a physical block is the number of block tables that contain it, no table
  contains a block twice, and the free queue of a device holds exactly the blocks of that device
  that no table contains, once each.
\<close>

theorem v1_refcounts_exact:
  assumes "v1_reach hash order m" "set_iteration order"
  shows "(\<forall>r < bh_next (vm_heap m). pb_ref_count (v1_obj m r) = holders r m) \<and>
    (\<forall>(k, table) \<in> set (vm_block_tables m). distinct table) \<and>
    (\<forall>d. distinct (free_blocks d m) \<and>
       set (free_blocks d m) = {r. r < bh_next (vm_heap m) \<and> pb_device (v1_obj m r) = d \<and> holders r m = 0})"
proof -
  have inv: "v1_inv m" using assms by (rule v1_reach_inv)
  note D = v1_invD [OF inv]
  have dist: "\<forall>(k, table) \<in> set (vm_block_tables m). distinct table"
    using D(6) map_of_is_SomeI [OF D(2)] by blast
  have "count (refs_of m (vm_block_tables m)) (pb_device (v1_obj m r), r) = holders r m" for r
    using count_refs [OF dist, of m r] by (simp add: tag_def holders_def)
  with v1_pool_okD [OF D(1)] dist show ?thesis by auto
qed

text \<open>
  A small manager: two GPU blocks and one CPU block of two tokens; a prompt of one token is
  allocated, forked, and the parent appends, which copies the shared tail.
\<close>

definition demo_hash :: "(int list \<times> int list option) \<times> int \<Rightarrow> int" where
  "demo_hash = (\<lambda>_. 0)"

definition demo_v1_0 :: v1_manager where
  "demo_v1_0 = projr (BlockSpaceManagerV1_init 2 2 1 0 None False 1)"

definition demo_v1_group :: SequenceGroup where
  "demo_v1_group = demo_group ''a'' 0 [demo_seq 1 1 WAITING]"

definition demo_v1_1 :: v1_manager where
  "demo_v1_1 = snd (v1_allocate demo_hash demo_v1_group demo_v1_0)"

definition demo_v1_2 :: v1_manager where
  "demo_v1_2 = snd (v1_fork remdups (demo_seq 1 1 RUNNING) (demo_seq 2 1 RUNNING) demo_v1_1)"

definition demo_v1_3 :: v1_manager where
  "demo_v1_3 = snd (v1_append_slots demo_hash (demo_seq 1 1 RUNNING) 0 demo_v1_2)"

lemma demo_v1_reach: "v1_reach demo_hash remdups demo_v1_3" "v1_reach demo_hash remdups demo_v1_2"
  "v1_reach demo_hash remdups demo_v1_1" "v1_reach demo_hash remdups demo_v1_0"
proof -
  show r0: "v1_reach demo_hash remdups demo_v1_0"
    by (rule reach_init [where bs = 2 and ng = 2 and nc = 1 and wm = 0 and caching = False and fl = 1])
      (simp add: demo_v1_0_def BlockSpaceManagerV1_init_def split: prod.split)
  have "new_group demo_v1_0 demo_v1_group" by code_simp
  moreover have "fst (v1_allocate demo_hash demo_v1_group demo_v1_0) = Inr ()" by code_simp
  ultimately show r1: "v1_reach demo_hash remdups demo_v1_1"
    by (intro reach_allocate [OF r0, where g = demo_v1_group]) (simp_all add: demo_v1_1_def prod_eq_iff)
  have "map_of (vm_block_tables demo_v1_1) (seq_id (demo_seq 2 1 RUNNING)) = None" by code_simp
  then show r2: "v1_reach demo_hash remdups demo_v1_2"
    unfolding demo_v1_2_def by (rule reach_fork [OF r1])
  then show "v1_reach demo_hash remdups demo_v1_3"
    unfolding demo_v1_3_def by (rule reach_append)
qed

theorem v1_refcounts_exact_witness:
  "map (\<lambda>r. pb_ref_count (v1_obj demo_v1_3 r)) [0, 1, 2] = map (\<lambda>r. holders r demo_v1_3) [0, 1, 2] \<and>
   set (free_blocks GPU demo_v1_3) = {r. r < 3 \<and> pb_device (v1_obj demo_v1_3 r) = GPU \<and> holders r demo_v1_3 = 0} \<and>
   vm_block_tables demo_v1_3 = [(1, [1]), (2, [0])]"
proof -
  have "vm_block_tables demo_v1_3 = [(1, [1]), (2, [0])]" "bh_next (vm_heap demo_v1_3) = 3" by code_simp+
  with v1_refcounts_exact [OF demo_v1_reach(1) set_iteration_remdups] show ?thesis by simp
qed

section \<open>Copy on write\<close>

text \<open>
  C21. Appending a token in the first block manager never writes into a shared block: when it
  returns, the last block of the sequence's table is on the GPU and has no other owner; the table
  is unchanged, extended by a block that was free, or its last block, which was shared, is replaced
  by a block that was free, and then exactly this copy is reported. No other table changes. When it
  raises, nothing has changed.
\<close>

theorem v1_append_slots_copies_shared:
  assumes "v1_reach hash order m" "set_iteration order" "map_of (vm_block_tables m) (seq_id s) = Some table"
  shows "wp (v1_append_slots hash s n)
    (\<lambda>copies t. \<exists>pre r.
       map_of (vm_block_tables t) = (map_of (vm_block_tables m))(seq_id s \<mapsto> pre @ [r]) \<and>
       pb_device (v1_obj t r) = GPU \<and> holders r t = 1 \<and>
       (table = pre @ [r] \<and> copies = [] \<and> t = m \<or>
        table = pre \<and> holders r m = 0 \<and> copies = [] \<or>
        (\<exists>shared. table = pre @ [shared] \<and> holders r m = 0 \<and> 2 \<le> holders shared m \<and>
           copies = [(pb_block_number (v1_obj m shared), pb_block_number (v1_obj t r))])))
    (\<lambda>_ t. t = m) m"
proof (rule wp_mono [OF v1_append_slots_ok [OF v1_reach_inv [OF assms(1,2)]]])
  fix copies t
  assume "\<exists>table. map_of (vm_block_tables m) (seq_id s) = Some table \<and> append_post m (seq_id s) table copies t"
  then have post: "append_post m (seq_id s) table copies t" using assms(3) by simp
  have inv: "v1_inv m" using assms(1,2) by (rule v1_reach_inv)
  have rc: "pb_ref_count (v1_obj u r) = holders r u" if "v1_inv u" "r < bh_next (vm_heap u)" for u r
    by (rule v1_inv_ref_count [OF that])
  have own: "r < bh_next (vm_heap m)" if "r \<in> set table" for r
    by (rule v1_inv_table_bound [OF inv assms(3) that])
  have fresh: "map_of (vm_block_tables t) = (map_of (vm_block_tables m))(seq_id s \<mapsto> pre @ [r]) \<and>
      pb_device (v1_obj t r) = GPU \<and> holders r t = 1 \<and> holders r m = 0"
    if "fresh_tail m (seq_id s) pre r t" for pre r
  proof -
    have t: "v1_inv t" "v1_rest t = v1_rest (m\<lparr>vm_block_tables := dset (seq_id s) (pre @ [r]) (vm_block_tables m)\<rparr>)"
      "pb_device (v1_obj t r) = GPU" "pb_ref_count (v1_obj t r) = 1" "pb_ref_count (v1_obj m r) = 0"
      using that by (simp_all add: fresh_tail_def)
    have tabs: "vm_block_tables t = dset (seq_id s) (pre @ [r]) (vm_block_tables m)"
      and bound: "bh_next (vm_heap t) = bh_next (vm_heap m)"
      using v1_restD(1,4) [OF t(2)] by simp_all
    have "r < bh_next (vm_heap t)"
      by (rule v1_inv_table_bound [OF t(1), of "seq_id s" "pre @ [r]"]) (simp_all add: tabs)
    with rc [OF t(1)] rc [OF inv] t(3-5) tabs bound show ?thesis by simp
  qed
  have last: "last table \<in> set table \<and> table = butlast table @ [last table]" if "table \<noteq> []"
    using that by simp
  show "\<exists>pre r. map_of (vm_block_tables t) = (map_of (vm_block_tables m))(seq_id s \<mapsto> pre @ [r]) \<and>
       pb_device (v1_obj t r) = GPU \<and> holders r t = 1 \<and>
       (table = pre @ [r] \<and> copies = [] \<and> t = m \<or>
        table = pre \<and> holders r m = 0 \<and> copies = [] \<or>
        (\<exists>shared. table = pre @ [shared] \<and> holders r m = 0 \<and> 2 \<le> holders shared m \<and>
           copies = [(pb_block_number (v1_obj m shared), pb_block_number (v1_obj t r))]))"
    using post unfolding append_post_def
  proof (elim disjE exE conjE)
    assume a: "t = m" "copies = []" "table \<noteq> []" "pb_device (v1_obj m (last table)) = GPU"
      "pb_ref_count (v1_obj m (last table)) = 1"
    then show ?thesis
      using last [OF a(3)] rc [OF inv own] assms(3)
      by (intro exI [where x = "butlast table"] exI [where x = "last table"]) auto
  next
    fix r assume a: "fresh_tail m (seq_id s) table r t" "copies = []"
    then show ?thesis using fresh [OF a(1)] by blast
  next
    fix r assume a: "table \<noteq> []" "fresh_tail m (seq_id s) (butlast table) r t"
      "2 \<le> pb_ref_count (v1_obj m (last table))"
      "copies = [(pb_block_number (v1_obj m (last table)), pb_block_number (v1_obj t r))]"
    then show ?thesis
      using fresh [OF a(2)] last [OF a(1)] rc [OF inv own] by metis
  qed
qed

theorem v1_append_slots_copies_shared_witness:
  "wp (v1_append_slots demo_hash (demo_seq 1 1 RUNNING) 0)
    (\<lambda>copies t. \<exists>pre r.
       map_of (vm_block_tables t) = (map_of (vm_block_tables demo_v1_2))(1 \<mapsto> pre @ [r]) \<and>
       pb_device (v1_obj t r) = GPU \<and> holders r t = 1)
    (\<lambda>_ t. t = demo_v1_2) demo_v1_2 \<and>
   fst (v1_append_slots demo_hash (demo_seq 1 1 RUNNING) 0 demo_v1_2) = Inr [(0, 1)]"
proof -
  have t: "map_of (vm_block_tables demo_v1_2) (seq_id (demo_seq 1 1 RUNNING)) = Some [0]" by code_simp
  have r: "fst (v1_append_slots demo_hash (demo_seq 1 1 RUNNING) 0 demo_v1_2) = Inr [(0, 1)]" by code_simp
  have "wp (v1_append_slots demo_hash (demo_seq 1 1 RUNNING) 0)
    (\<lambda>copies t. \<exists>pre r.
       map_of (vm_block_tables t) = (map_of (vm_block_tables demo_v1_2))(1 \<mapsto> pre @ [r]) \<and>
       pb_device (v1_obj t r) = GPU \<and> holders r t = 1)
    (\<lambda>_ t. t = demo_v1_2) demo_v1_2"
    by (rule wp_mono [OF v1_append_slots_copies_shared [OF demo_v1_reach(2) set_iteration_remdups t]]) auto
  with r show ?thesis by blast
qed

section \<open>Swapping\<close>

lemma get_physical_blocks_ok:
  assumes "\<forall>s \<in> set (filter (\<lambda>s. \<not> seq_is_finished s) (get_seqs None g)).
      map_of (vm_block_tables m) (seq_id s) = Some (table (seq_id s))"
  shows "\<exists>bs. get_physical_blocks g m = (Inr bs, m) \<and> distinct bs \<and>
    set bs = (\<Union>s \<in> set (filter (\<lambda>s. \<not> seq_is_finished s) (get_seqs None g)). set (table (seq_id s)))"
proof -
  have "\<exists>bs. fold_each ss acc (\<lambda>blocks s. bnd (get_table s) (\<lambda>table. ret (remdups (blocks @ table)))) m =
      (Inr bs, m) \<and> distinct bs \<and> set bs = set acc \<union> (\<Union>s \<in> set ss. set (table (seq_id s)))"
    if "\<forall>s \<in> set ss. map_of (vm_block_tables m) (seq_id s) = Some (table (seq_id s))" "distinct acc" for ss acc
    using that
  proof (induction ss arbitrary: acc)
    case (Cons s ss)
    from Cons.IH [of "remdups (acc @ table (seq_id s))"] Cons.prems show ?case
      by (auto simp: get_table_def lift_err_def bnd_def ret_def simp del: remdups.simps)
  qed (simp add: ret_def)
  from this [OF assms, of "[]"] show ?thesis by (simp add: get_physical_blocks_def)
qed

lemma fold_dset_map:
  "distinct (map fst xs) \<Longrightarrow> set (map fst xs) \<inter> set (dkeys d) = {} \<Longrightarrow> fold (\<lambda>(k, v). dset k v) xs d = d @ xs"
proof (induction xs arbitrary: d)
  case (Cons x xs)
  obtain k v where x: "x = (k, v)" by (cases x)
  with Cons have "dset k v d = d @ [(k, v)]" by (intro dset_fresh) auto
  moreover have "fold (\<lambda>(k, v). dset k v) xs (d @ [(k, v)]) = (d @ [(k, v)]) @ xs"
    using Cons.prems x by (intro Cons.IH) auto
  ultimately show ?case using x by simp
qed simp

lemma block_number_mapping_eq:
  assumes "distinct (map (\<lambda>(r, r'). pb_block_number (v1_obj m r)) mp)"
  shows "block_number_mapping mp m =
    map (\<lambda>(r, r'). (pb_block_number (v1_obj m r), pb_block_number (v1_obj m r'))) mp"
proof -
  have "block_number_mapping mp m = fold (\<lambda>(k, v). dset k v)
      (map (\<lambda>(r, r'). (pb_block_number (v1_obj m r), pb_block_number (v1_obj m r'))) mp) []"
    by (simp add: block_number_mapping_def fold_map comp_def split_def)
  then show ?thesis
    using assms by (subst (asm) fold_dset_map) (simp_all add: comp_def split_def)
qed

lemma v1_num_free: "v1_inv m \<Longrightarrow> ba_get_num_free_blocks (allocator_of d m) = int (v1_avail m d)"
  using uncachedE [OF v1_pool_okD(1) [OF v1_invD(1)], of m d]
  by (metis ba_get_num_free_blocks_def block_allocator.simps(5) ua_get_num_free_blocks_def v1_avail_def)

definition blocks_of_seqs :: "(nat \<Rightarrow> block_table) \<Rightarrow> Sequence list \<Rightarrow> block_ref set" where
  "blocks_of_seqs table ss = (\<Union>s \<in> set ss. set (table (seq_id s)))"

text \<open>
  What a swap of the sequences \<open>ss\<close> to the device \<open>dst\<close> does: the tables are renamed by one
  injective map, so sharing within the group is kept, every block is copied once and to the place
  where the new tables refer to it, and the tables of the other sequences stay.
\<close>

definition swapped_to ::
  "v1_manager \<Rightarrow> Device \<Rightarrow> (nat \<Rightarrow> block_table) \<Rightarrow> Sequence list \<Rightarrow> (nat \<times> nat) list \<Rightarrow> v1_manager \<Rightarrow> bool"
where
  "swapped_to m dst table ss copies t \<longleftrightarrow>
     (\<exists>f. inj_on f (blocks_of_seqs table ss) \<and>
        (\<forall>r \<in> blocks_of_seqs table ss. pb_device (v1_obj t (f r)) = dst \<and>
           (pb_block_number (v1_obj m r), pb_block_number (v1_obj t (f r))) \<in> set copies) \<and>
        length copies = card (blocks_of_seqs table ss) \<and>
        (\<forall>s \<in> set ss. map_of (vm_block_tables t) (seq_id s) = Some (map f (table (seq_id s)))) \<and>
        (\<forall>k. k \<notin> seq_id ` set ss \<longrightarrow> map_of (vm_block_tables t) k = map_of (vm_block_tables m) k)) \<and>
     v1_avail t dst + card (blocks_of_seqs table ss) = v1_avail m dst"

lemma moved_to_swapped:
  assumes inv: "v1_inv m" and M: "moved_to m dst table (seq_id ` set ss) mp t"
    and ss: "\<forall>s \<in> set ss. on_device m src s (table (seq_id s))"
  shows "swapped_to m dst table ss (block_number_mapping mp t) t"
proof -
  let ?f = "\<lambda>r. the (map_of mp r)" and ?B = "blocks_of_seqs table ss"
  note D = v1_invD [OF inv]
  from M have mp: "mapping_ok mp" and keys: "set (dkeys mp) = ?B" and inv': "v1_inv t"
    and tabs: "\<And>k. map_of (vm_block_tables t) k =
      (if k \<in> seq_id ` set ss then Some (image_of mp (table k)) else map_of (vm_block_tables m) k)"
    and own: "\<forall>r \<in> set (map snd mp). (dst, r) \<in># refs_of t (vm_block_tables t)"
    and rest: "v1_rest (t\<lparr>vm_block_tables := vm_block_tables m\<rparr>) = v1_rest m"
    and len: "length mp \<le> v1_avail m dst" "v1_avail t dst = v1_avail m dst - length mp"
    by (auto simp: moved_to_def blocks_of_seqs_def)
  have num: "pb_block_number (v1_obj t r) = pb_block_number (v1_obj m r)" for r
    using v1_restD(6) [OF rest, of r] by simp
  have B: "r < bh_next (vm_heap m) \<and> pb_device (v1_obj m r) = src" if "r \<in> ?B" for r
    using that ss v1_inv_table_bound [OF inv] by (auto simp: blocks_of_seqs_def on_device_def)
  then have "inj_on (\<lambda>r. pb_block_number (v1_obj m r)) ?B"
    using D(3) by (auto simp: numbered_def inj_on_def)
  then have "distinct (map (\<lambda>r. pb_block_number (v1_obj m r)) (dkeys mp))"
    using mp keys unfolding mapping_ok_def by (metis distinct_map)
  then have copies: "block_number_mapping mp t =
      map (\<lambda>(r, r'). (pb_block_number (v1_obj m r), pb_block_number (v1_obj t r'))) mp"
    using block_number_mapping_eq [of t mp] by (simp add: num comp_def split_def)
  have pair: "(r, ?f r) \<in> set mp" if "r \<in> ?B" for r
    using that keys by (metis (no_types) dkeys_iff map_of_SomeD option.collapse)
  have len_mp: "length mp = card ?B"
    using mp keys distinct_card [of "dkeys mp"] by (simp add: mapping_ok_def)
  have inj: "inj_on ?f ?B"
  proof (rule inj_onI)
    fix a b assume "a \<in> ?B" "b \<in> ?B" "?f a = ?f b"
    with pair [of a] pair [of b] mp show "a = b"
      unfolding mapping_ok_def by (metis distinct_map inj_onD prod.inject snd_conv)
  qed
  have dev: "pb_device (v1_obj t (?f r)) = dst" if "r \<in> ?B" for r
    using own pair [OF that] v1_pool_okD(6) [OF v1_invD(1) [OF inv'], of dst "?f r"] by force
  show ?thesis
    unfolding swapped_to_def
  proof (intro conjI exI [where x = ?f] ballI allI impI)
    fix r assume r: "r \<in> ?B"
    show "pb_device (v1_obj t (?f r)) = dst" using r by (rule dev)
    show "(pb_block_number (v1_obj m r), pb_block_number (v1_obj t (?f r))) \<in> set (block_number_mapping mp t)"
      unfolding copies using pair [OF r] by force
  next
    fix s assume "s \<in> set ss"
    then show "map_of (vm_block_tables t) (seq_id s) = Some (map ?f (table (seq_id s)))"
      using tabs [of "seq_id s"] by (simp add: image_of_def)
  qed (use inj copies len_mp len tabs in auto)
qed

text \<open>
  C22. When the first block manager answers that a group can be swapped out, and the unfinished
  sequences of the group are running and hold their blocks on the GPU, then swapping out succeeds:
  their tables are renamed by one injective map into CPU blocks, each block is copied exactly once,
  to the CPU block that replaces it in every table, and no other table changes.
\<close>

theorem v1_can_swap_out_sound:
  assumes reach: "v1_reach hash order m" "set_iteration order"
    and run: "\<forall>s \<in> set (get_seqs None g). seq_is_finished s \<longleftrightarrow> seq_status s \<noteq> RUNNING"
    and ids: "distinct (map seq_id (get_seqs (Some RUNNING) g))"
    and gpu: "\<forall>s \<in> set (get_seqs (Some RUNNING) g). on_device m GPU s (table (seq_id s))"
    and can: "fst (v1_can_swap_out g m) = Inr True"
  shows "wp (v1_swap_out g) (swapped_to m CPU table (get_seqs (Some RUNNING) g)) (\<lambda>_ _. False) m"
proof -
  let ?ss = "get_seqs (Some RUNNING) g"
  have inv: "v1_inv m" using reach by (rule v1_reach_inv)
  have ss: "filter (\<lambda>s. \<not> seq_is_finished s) (get_seqs None g) = ?ss"
    using run by (auto simp: get_seqs_def intro!: filter_cong)
  have tabs: "\<forall>s \<in> set ?ss. map_of (vm_block_tables m) (seq_id s) = Some (table (seq_id s))"
    using gpu by (simp add: on_device_def)
  obtain bs where bs: "get_physical_blocks g m = (Inr bs, m)" "distinct bs"
      "set bs = (\<Union>s \<in> set ?ss. set (table (seq_id s)))"
    using get_physical_blocks_ok [of g m table] tabs by (auto simp: ss)
  have "length bs \<le> v1_avail m CPU"
    using can bs(1) v1_num_free [OF inv, of CPU]
    by (simp add: v1_can_swap_out_def bnd_def gets_def allocator_of_def)
  then have enough: "\<not> v1_avail m CPU < card (\<Union>s \<in> set ?ss. set (table (seq_id s)))"
    using distinct_card [OF bs(2)] bs(3) by simp
  have "wp (fold_each ?ss [] (move_table GPU CPU)) (moved_to m CPU table (seq_id ` set ?ss))
      (\<lambda>_ _. v1_avail m CPU < card (\<Union>s \<in> set ?ss. set (table (seq_id s)))) m"
    by (rule move_tables_ok [OF inv _ ids]) (use gpu in auto)
  then show ?thesis
    unfolding v1_swap_out_def wp_bnd
    by (rule wp_mono) (use enough moved_to_swapped [OF inv _ gpu] in \<open>simp_all add: wp_gets\<close>)
qed

theorem v1_can_swap_out_sound_witness:
  "fst (v1_can_swap_out (demo_group ''a'' 0 [demo_seq 1 1 RUNNING]) demo_v1_1) = Inr True \<and>
   wp (v1_swap_out (demo_group ''a'' 0 [demo_seq 1 1 RUNNING]))
     (swapped_to demo_v1_1 CPU (\<lambda>_. [0]) [demo_seq 1 1 RUNNING]) (\<lambda>_ _. False) demo_v1_1"
proof -
  let ?g = "demo_group ''a'' 0 [demo_seq 1 1 RUNNING]"
  have can: "fst (v1_can_swap_out ?g demo_v1_1) = Inr True" by code_simp
  have run: "get_seqs (Some RUNNING) ?g = [demo_seq 1 1 RUNNING]" "get_seqs None ?g = [demo_seq 1 1 RUNNING]"
    by (simp_all add: get_seqs_def)
  have "\<not> seq_is_finished (demo_seq 1 1 RUNNING)" by (simp add: seq_is_finished_def status_is_finished_def)
  moreover have "map_of (vm_block_tables demo_v1_1) 1 = Some [0]" "pb_device (v1_obj demo_v1_1 0) = GPU"
    by code_simp+
  ultimately show ?thesis
    using v1_can_swap_out_sound [OF demo_v1_reach(3) set_iteration_remdups, of ?g "\<lambda>_. [0]"] can
    by (simp add: run on_device_def del: One_nat_def)
qed

section \<open>Admission\<close>

text \<open>
  C23. \<open>can_allocate\<close> of the first block manager changes nothing and scales the demand of a group
  by \<open>int(cache_layers / flatten_layers)\<close>. When that factor is at least one, \<open>OK\<close> means that
  \<open>allocate\<close> succeeds and leaves the watermark free. When it is zero, as for a new group whenever
  fewer layers are cached than flattened, the answer does not depend on the prompt at all, so \<open>OK\<close>
  promises nothing.
\<close>

theorem v1_can_allocate_sound:
  assumes reach: "v1_reach hash order m" "set_iteration order"
    and g: "new_group m g" "get_seqs (Some WAITING) g \<noteq> []"
    and fl: "0 < vm_flatten_layers m" "0 \<le> sg_cache_layers g"
  shows "wp (v1_can_allocate g)
    (\<lambda>answer t. t = m \<and>
       (if vm_flatten_layers m \<le> sg_cache_layers g
        then answer = OK \<longrightarrow> wp (v1_allocate hash g) (\<lambda>_ t. vm_watermark_blocks m \<le> int (v1_avail t GPU)) (\<lambda>_ _. False) m
        else answer = (if int (vm_num_total_gpu_blocks m) < vm_watermark_blocks m then NEVER
                       else if vm_watermark_blocks m \<le> int (v1_avail m GPU) then OK else LATER)))
    (\<lambda>_ _. False) m"
proof -
  have inv: "v1_inv m" using reach by (rule v1_reach_inv)
  let ?x = "int_of_rat (of_int (sg_cache_layers g) / of_int (vm_flatten_layers m))"
  let ?s = "hd (get_seqs (Some WAITING) g)"
  have first: "first_waiting g = Inr ?s"
    using g(2) by (cases "get_seqs (Some WAITING) g") (simp_all add: first_waiting_def nth_py_def)
  have x: "?x = sg_cache_layers g div vm_flatten_layers m"
    using fl by (simp add: int_of_rat_def floor_divide_of_int_eq)
  have free: "ba_get_num_free_blocks (vm_gpu_allocator m) = int (v1_avail m GPU)"
    using v1_num_free [OF inv, of GPU] by (simp add: allocator_of_def)
  have win: "vm_block_sliding_window m = None" using v1_invD(4) [OF inv] .
  have alloc: "wp (v1_allocate hash g) (\<lambda>_ t. vm_watermark_blocks m \<le> int (v1_avail t GPU)) (\<lambda>_ _. False) m"
    if "vm_flatten_layers m \<le> sg_cache_layers g"
      "vm_watermark_blocks m \<le> int (v1_avail m GPU) - ?x * int (prompt_blocks g)"
      "0 \<le> vm_watermark_blocks m"
  proof -
    have "1 \<le> ?x" unfolding x using fl that(1) by (simp add: int_one_le_iff_zero_less pos_imp_zdiv_pos_iff)
    then have "int (prompt_blocks g) \<le> ?x * int (prompt_blocks g)"
      by (simp add: mult_le_cancel_right1)
    then have le: "vm_watermark_blocks m + int (prompt_blocks g) \<le> int (v1_avail m GPU)" using that(2) by linarith
    show ?thesis
      by (rule wp_mono [OF v1_allocate_ok [OF inv g]]) (use le that(3) in auto)
  qed
  show ?thesis
    using win alloc fl v1_invD(7) [OF inv]
    by (simp add: v1_can_allocate_def wp_simps first free Let_def x prompt_blocks_def)
qed

text \<open>Four blocks are needed and two exist, but the group counts for nothing.\<close>

definition demo_v1_big :: SequenceGroup where
  "demo_v1_big = demo_group ''b'' 0 [demo_seq 3 8 WAITING]"

theorem v1_can_allocate_sound_witness:
  "wp (v1_can_allocate demo_v1_big) (\<lambda>answer t. t = demo_v1_0 \<and> answer = OK) (\<lambda>_ _. False) demo_v1_0 \<and>
   fst (v1_allocate demo_hash demo_v1_big demo_v1_0) =
     Inl (ValueError ''Out of memory! No free blocks are available.'')"
proof -
  have g: "new_group demo_v1_0 demo_v1_big" "get_seqs (Some WAITING) demo_v1_big \<noteq> []"
    "0 < vm_flatten_layers demo_v1_0" "0 \<le> sg_cache_layers demo_v1_big"
    by code_simp+
  have v: "\<not> vm_flatten_layers demo_v1_0 \<le> sg_cache_layers demo_v1_big"
    "\<not> int (vm_num_total_gpu_blocks demo_v1_0) < vm_watermark_blocks demo_v1_0"
    "vm_watermark_blocks demo_v1_0 \<le> int (v1_avail demo_v1_0 GPU)"
    by code_simp+
  have "fst (v1_allocate demo_hash demo_v1_big demo_v1_0) =
     Inl (ValueError ''Out of memory! No free blocks are available.'')" by code_simp
  with wp_mono [OF v1_can_allocate_sound [OF demo_v1_reach(4) set_iteration_remdups g]] v
  show ?thesis by simp
qed

end
