(* ===== verification/Ellm_Metadata.thy ===== *)
theory Ellm_Metadata
  imports Seq_Group Ellm_Cache
begin

text \<open>
  \<^verbatim>\<open>vllm/worker/ellm_metadata.py\<close>: what the workers make of the layer-group block tables and plans.
  With it the metadata record of \<^verbatim>\<open>vllm/attention/backends/xformers.py\<close> and the preparation of the
  recompute inputs in \<^verbatim>\<open>vllm/worker/model_runner.py\<close>.

  A tensor of integers is the list of its values with its device and element type; a two-dimensional
  one is the list of its rows with their common width. A value that does not fit the element type is
  refused when the tensor is made from Python numbers, and a sum computed in the element type wraps.
  The device is an opaque value of type \<open>'d\<close>.
\<close>

section \<open>Tensors of integers\<close>

datatype dtype = Int32 | Int64

primrec dtype_bits :: "dtype \<Rightarrow> nat" where
  "dtype_bits Int32 = 32"
| "dtype_bits Int64 = 64"

definition fits :: "dtype \<Rightarrow> int \<Rightarrow> bool" where
  "fits ty x \<longleftrightarrow> - (2 ^ (dtype_bits ty - 1)) \<le> x \<and> x < 2 ^ (dtype_bits ty - 1)"

record 'd tensor1 =
  t1_device :: 'd
  t1_dtype :: dtype
  t1_elems :: "int list"

record 'd tensor2 =
  t2_device :: 'd
  t2_dtype :: dtype
  t2_width :: nat
  t2_rows :: "int list list"

text \<open>\<^verbatim>\<open>torch.tensor(xs, dtype=ty, device=dev)\<close>\<close>

definition torch_tensor :: "dtype \<Rightarrow> 'd \<Rightarrow> int list \<Rightarrow> ('s, 'd tensor1) pym" where
  "torch_tensor ty dev xs =
     sq (ensure (list_all (fits ty) xs) (RuntimeError ''value cannot be converted without overflow''))
    (ret \<lparr>t1_device = dev, t1_dtype = ty, t1_elems = xs\<rparr>)"

text \<open>\<^verbatim>\<open>torch.cat((a, b), dim=0)\<close>: the wider element type, on a common device.\<close>

definition torch_cat :: "'d tensor1 \<Rightarrow> 'd tensor1 \<Rightarrow> ('s, 'd tensor1) pym" where
  "torch_cat a b =
     sq (ensure (t1_device a = t1_device b) (RuntimeError ''expected all tensors on the same device''))
    (ret \<lparr>t1_device = t1_device a, t1_dtype = (if t1_dtype a = Int64 then Int64 else t1_dtype b),
          t1_elems = t1_elems a @ t1_elems b\<rparr>)"

text \<open>The rows assigned to \<open>n\<close> rows of a tensor of the same width; a single row is broadcast.\<close>

definition assign_rows :: "nat \<Rightarrow> 'd tensor2 \<Rightarrow> ('s, int list list) pym" where
  "assign_rows n t =
     (if length (t2_rows t) = n then ret (t2_rows t)
      else case t2_rows t of [row] \<Rightarrow> ret (replicate n row)
      | _ \<Rightarrow> throw (RuntimeError ''shape mismatch''))"

text \<open>\<^verbatim>\<open>torch.cumsum\<close> into an int32 tensor.\<close>

fun cumsum_i32 :: "int \<Rightarrow> int list \<Rightarrow> int list" where
  "cumsum_i32 acc [] = []"
| "cumsum_i32 acc (x # xs) = (let y = signed_take_bit 31 (acc + x) in y # cumsum_i32 y xs)"

text \<open>\<^verbatim>\<open>max(xs, default=0)\<close> of lengths\<close>

definition max_default :: "nat list \<Rightarrow> nat" where
  "max_default xs = fold max xs 0"

section \<open>XFormersMetadata\<close>

text \<open>
  The dataclass with the two cached views (an object refers to at most two others). The field
  \<^verbatim>\<open>attn_bias\<close>, which only the attention kernels fill in, is left out.
\<close>

datatype 'd XFormersMetadata = XFormersMetadata
  (xm_num_prefills: nat) (xm_num_prefill_tokens: nat) (xm_num_decode_tokens: nat)
  (xm_total_seq_len: int) (xm_slot_mapping: "'d tensor1") (xm_seq_lens: "nat list option")
  (xm_seq_lens_tensor: "'d tensor1 option") (xm_max_query_len: "nat option")
  (xm_max_prefill_seq_len: nat) (xm_max_decode_seq_len: nat)
  (xm_query_start_loc: "'d tensor1 option") (xm_seq_start_loc: "'d tensor1 option")
  (xm_context_lens_tensor: "'d tensor1 option") (xm_block_tables: "'d tensor2 option")
  (xm_use_cuda_graph: bool)
  (xm_cached_prefill: "'d XFormersMetadata option") (xm_cached_decode: "'d XFormersMetadata option")

primrec xm_set_cached ::
  "'d XFormersMetadata option \<Rightarrow> 'd XFormersMetadata option \<Rightarrow> 'd XFormersMetadata \<Rightarrow> 'd XFormersMetadata"
where
  "xm_set_cached cp cd (XFormersMetadata a b c d e f g h i j k l m n o' _ _) =
     XFormersMetadata a b c d e f g h i j k l m n o' cp cd"

primrec xm_set_seq_lens :: "nat list option \<Rightarrow> 'd XFormersMetadata \<Rightarrow> 'd XFormersMetadata" where
  "xm_set_seq_lens sl (XFormersMetadata a b c d e _ g h i j k l m n o' p q) =
     XFormersMetadata a b c d e sl g h i j k l m n o' p q"

definition t1_take :: "nat \<Rightarrow> 'd tensor1 \<Rightarrow> 'd tensor1" where
  "t1_take k t = t\<lparr>t1_elems := take k (t1_elems t)\<rparr>"

definition t1_drop :: "nat \<Rightarrow> 'd tensor1 \<Rightarrow> 'd tensor1" where
  "t1_drop k t = t\<lparr>t1_elems := drop k (t1_elems t)\<rparr>"

definition t2_take :: "nat \<Rightarrow> 'd tensor2 \<Rightarrow> 'd tensor2" where
  "t2_take k t = t\<lparr>t2_rows := take k (t2_rows t)\<rparr>"

definition t2_drop :: "nat \<Rightarrow> 'd tensor2 \<Rightarrow> 'd tensor2" where
  "t2_drop k t = t\<lparr>t2_rows := drop k (t2_rows t)\<rparr>"

text \<open>The property \<^verbatim>\<open>prefill_metadata\<close>: the view is built at the first use and kept.\<close>

definition prefill_metadata :: "('d XFormersMetadata, 'd XFormersMetadata option) pym" where
  "prefill_metadata = bnd (gets id) (\<lambda>self.
     if xm_num_prefills self = 0 then ret None
     else case xm_cached_prefill self of
       Some view \<Rightarrow> ret (Some view)
     | None \<Rightarrow>
         (case (xm_seq_lens self, xm_seq_lens_tensor self, xm_query_start_loc self,
                xm_context_lens_tensor self, xm_block_tables self) of
            (Some sl, Some slt, Some qsl, Some clt, Some bt) \<Rightarrow>
              let np = xm_num_prefills self;
                  view = XFormersMetadata np (xm_num_prefill_tokens self) 0 0
                    (t1_take (xm_num_prefill_tokens self) (xm_slot_mapping self))
                    (Some (take np sl)) (Some (t1_take np slt)) (xm_max_query_len self)
                    (xm_max_prefill_seq_len self) 0 (Some (t1_take (np + 1) qsl)) None
                    (Some (t1_take np clt)) (Some (t2_take np bt)) False None None
              in sq (modify (xm_set_cached (Some view) (xm_cached_decode self))) (ret (Some view))
          | _ \<Rightarrow> throw AssertionError))"

text \<open>
  The property \<^verbatim>\<open>decode_metadata\<close>. A cached view gets the sequence lengths of the whole batch.
\<close>

definition decode_metadata :: "('d XFormersMetadata, 'd XFormersMetadata option) pym" where
  "decode_metadata = bnd (gets id) (\<lambda>self.
     if xm_num_decode_tokens self = 0 then ret None
     else case xm_cached_decode self of
       Some view \<Rightarrow>
         let view = xm_set_seq_lens (xm_seq_lens self) view in
         sq (modify (xm_set_cached (xm_cached_prefill self) (Some view))) (ret (Some view))
     | None \<Rightarrow>
         (case (xm_block_tables self, xm_seq_lens_tensor self) of
            (Some bt, Some slt) \<Rightarrow>
              let view = XFormersMetadata 0 0 (xm_num_decode_tokens self) 0
                    (t1_drop (xm_num_prefill_tokens self) (xm_slot_mapping self))
                    None (Some (t1_drop (xm_num_prefills self) slt)) None 0
                    (xm_max_decode_seq_len self) None None None
                    (Some (t2_drop (xm_num_prefills self) bt)) (xm_use_cuda_graph self) None None
              in sq (modify (xm_set_cached (xm_cached_prefill self) (Some view))) (ret (Some view))
          | _ \<Rightarrow> throw AssertionError))"

section \<open>Metadata of a partial recompute\<close>

definition cumulative_lengths :: "nat list \<Rightarrow> 'd \<Rightarrow> ('s, 'd tensor1) pym" where
  "cumulative_lengths lengths dev =
     (if lengths = [] then ret \<lparr>t1_device = dev, t1_dtype = Int32, t1_elems = [0]\<rparr>
      else bnd (torch_tensor Int32 dev (map int lengths)) (\<lambda>lengths_tensor.
        ret \<lparr>t1_device = dev, t1_dtype = Int32, t1_elems = 0 # cumsum_i32 0 (t1_elems lengths_tensor)\<rparr>))"

definition make_block_tables :: "nat list list \<Rightarrow> 'd \<Rightarrow> ('s, 'd tensor2) pym" where
  "make_block_tables block_tables dev =
     (let max_num_blocks = max_default (map length block_tables) in
      bnd (collect block_tables (\<lambda>table.
        if table = [] then ret (replicate max_num_blocks 0)
        else bnd (torch_tensor Int32 dev (map int table)) (\<lambda>t.
          ret (t1_elems t @ replicate (max_num_blocks - length table) 0)))) (\<lambda>rows.
      ret \<lparr>t2_device = dev, t2_dtype = Int32, t2_width = max_num_blocks, t2_rows = rows\<rparr>))"

definition get_block_table_logical_start :: "nat \<Rightarrow> nat list \<Rightarrow> nat \<Rightarrow> ('s, nat) pym" where
  "get_block_table_logical_start num_tokens block_table block_size =
     sq (ensure (block_size \<noteq> 0) ZeroDivisionError)
    (let num_logical_blocks = (num_tokens + block_size - 1) div block_size in
     sq (ensure (length block_table \<le> num_logical_blocks)
          (ValueError ''block table is longer than the sequence''))
    (ret (num_logical_blocks - length block_table)))"

definition combine_partial_recompute_metadata ::
  "'d XFormersMetadata \<Rightarrow> 'd XFormersMetadata \<Rightarrow> ('s, 'd XFormersMetadata) pym"
where
  "combine_partial_recompute_metadata rec dec =
     sq (ensure (xm_num_decode_tokens rec = 0) (ValueError ''recompute metadata must be prefill-only''))
    (sq (ensure (xm_num_prefills dec = 0) (ValueError ''decode metadata must be decode-only''))
    (sq (ensure (t1_device (xm_slot_mapping rec) = t1_device (xm_slot_mapping dec))
          (ValueError ''recompute and decode metadata must share a device''))
    (case (xm_seq_lens_tensor rec, xm_seq_lens_tensor dec, xm_block_tables dec) of
       (None, _, _) \<Rightarrow> throw (ValueError ''recompute sequence lengths are required'')
     | (_, None, _) \<Rightarrow> throw (ValueError ''decode sequence lengths are required'')
     | (_, _, None) \<Rightarrow> throw (ValueError ''decode block tables are required'')
     | (Some rlens, Some dlens, Some tables) \<Rightarrow>
         let num_prefills = xm_num_prefills rec in
         bnd (assign_rows (xm_num_decode_tokens dec) tables) (\<lambda>rows.
         bnd (torch_cat rlens dlens) (\<lambda>seq_lens_tensor.
         bnd (torch_cat (xm_slot_mapping rec) (xm_slot_mapping dec)) (\<lambda>slot_mapping.
         ret (XFormersMetadata num_prefills (xm_num_prefill_tokens rec) (xm_num_decode_tokens dec)
           (xm_total_seq_len rec + xm_total_seq_len dec) slot_mapping (xm_seq_lens rec)
           (Some seq_lens_tensor)
           (xm_max_query_len rec) (xm_max_prefill_seq_len rec) (xm_max_decode_seq_len dec)
           (xm_query_start_loc rec) (xm_seq_start_loc rec) (xm_context_lens_tensor rec)
           (Some (tables\<lparr>t2_rows := replicate num_prefills (replicate (t2_width tables) 0) @ rows\<rparr>))
           False (Some rec) (Some dec))))))))"

text \<open>The metadata of one layer: its plan checked against the batch, and the two objects.\<close>

definition layer_recompute_metadata ::
  "LayerGroupBlockPlan \<Rightarrow> nat list \<Rightarrow> nat list \<Rightarrow> 'd tensor1 \<Rightarrow> 'd \<Rightarrow> ('s, 'd XFormersMetadata) pym"
where
  "layer_recompute_metadata plan recompute_seq_lens active start_loc dev =
     bnd (torch_tensor Int64 dev (map int (recompute_slot_mapping plan))) (\<lambda>slots.
     bnd (torch_tensor Int32 dev (map int active)) (\<lambda>lens.
     ret (XFormersMetadata (length active) (sum_list recompute_seq_lens) 0
       (int (sum_list recompute_seq_lens)) slots (Some active) (Some lens)
       (Some (max_default active)) (max_default active) 0 (Some start_loc) (Some start_loc)
       (Some \<lparr>t1_device = dev, t1_dtype = Int32, t1_elems = replicate (length active) 0\<rparr>)
       (Some \<lparr>t2_device = dev, t2_dtype = Int32, t2_width = 0, t2_rows = replicate (length active) []\<rparr>)
       False None None)))"

definition layer_decode_metadata ::
  "LayerGroupBlockPlan \<Rightarrow> nat list \<Rightarrow> 'd tensor1 \<Rightarrow> 'd \<Rightarrow> ('s, 'd XFormersMetadata) pym"
where
  "layer_decode_metadata plan decode_seq_lens lens_tensor dev =
     bnd (torch_tensor Int64 dev (map int (decode_slot_mapping plan))) (\<lambda>slots.
     bnd (make_block_tables (decode_block_tables plan) dev) (\<lambda>tables.
     ret (XFormersMetadata 0 0 (length decode_seq_lens) (int (sum_list decode_seq_lens)) slots None
       (Some lens_tensor) None 0 (max_default decode_seq_lens) None None None (Some tables)
       False None None)))"

definition build_layerwise_partial_recompute_metadata ::
  "LayerGroupBlockPlan list \<Rightarrow> nat list \<Rightarrow> nat list \<Rightarrow> nat \<Rightarrow> nat \<Rightarrow> 'd \<Rightarrow>
   ('s, 'd XFormersMetadata list \<times> 'd XFormersMetadata list) pym"
where
  "build_layerwise_partial_recompute_metadata plans recompute_seq_lens decode_seq_lens num_layers
     layer_group_size dev =
     sq (ensure (length recompute_seq_lens = length decode_seq_lens)
          (ValueError ''recompute and decode batches must have equal size''))
    (sq (ensure (layer_group_size \<noteq> 0) ZeroDivisionError)
    (sq (ensure (length plans = (num_layers + layer_group_size - 1) div layer_group_size)
          (ValueError ''layer group plans do not cover the model''))
    (let num_seqs = length decode_seq_lens;
         active = filter (\<lambda>n. n \<noteq> 0) recompute_seq_lens;
         num_recompute_tokens = sum_list recompute_seq_lens in
     bnd (cumulative_lengths active dev) (\<lambda>start_loc.
     bnd (torch_tensor Int32 dev (map int decode_seq_lens)) (\<lambda>lens_tensor.
     fold_each [0..<num_layers] ([], []) (\<lambda>(recs, decs) layer_idx.
       bnd (lift_err (\<lambda>_. nth_py plans (layer_idx div layer_group_size))) (\<lambda>plan.
       sq (ensure (length (recompute_slot_mapping plan) = num_recompute_tokens)
            (ValueError ''recompute slot mapping has the wrong size''))
      (sq (ensure (length (decode_slot_mapping plan) = num_seqs)
            (ValueError ''decode slot mapping has the wrong size''))
      (sq (ensure (length (decode_block_tables plan) = num_seqs)
            (ValueError ''decode block tables have the wrong size''))
      (bnd (layer_recompute_metadata plan recompute_seq_lens active start_loc dev) (\<lambda>r.
       bnd (layer_decode_metadata plan decode_seq_lens lens_tensor dev) (\<lambda>d.
       ret (recs @ [r], decs @ [d])))))))))))))"

section \<open>The planner\<close>

record 'd LayerGroupMetadataPlanner =
  mp_seq_ids :: "nat list"
  mp_recompute_seq_lens :: "nat list"
  mp_decode_seq_lens :: "nat list"
  mp_device :: 'd

definition LayerGroupMetadataPlanner_init ::
  "nat list \<Rightarrow> nat list \<Rightarrow> nat list \<Rightarrow> 'd \<Rightarrow> py_error + 'd LayerGroupMetadataPlanner"
where
  "LayerGroupMetadataPlanner_init seq_ids recompute_seq_lens decode_seq_lens dev =
     (if length seq_ids \<noteq> length recompute_seq_lens then
        Inl (ValueError ''sequence IDs and recompute lengths must match'')
      else if length seq_ids \<noteq> length decode_seq_lens then
        Inl (ValueError ''sequence IDs and decode lengths must match'')
      else Inr \<lparr>mp_seq_ids = seq_ids, mp_recompute_seq_lens = recompute_seq_lens,
                mp_decode_seq_lens = decode_seq_lens, mp_device = dev\<rparr>)"

text \<open>
  \<^verbatim>\<open>with planner.metadata_for_layer_group(g) as (recompute, decode): body\<close>; the planner's KV map is
  the state.
\<close>

definition metadata_for_layer_group ::
  "'d LayerGroupMetadataPlanner \<Rightarrow> nat \<Rightarrow> ('d XFormersMetadata \<times> 'd XFormersMetadata \<Rightarrow> 'a kv) \<Rightarrow> 'a kv"
where
  "metadata_for_layer_group self layer_group body =
     lease_layer_group_plan (mp_seq_ids self) layer_group (\<lambda>plan.
       bnd (build_layerwise_partial_recompute_metadata [plan] (mp_recompute_seq_lens self)
              (mp_decode_seq_lens self) 1 1 (mp_device self)) (\<lambda>(recs, decs).
       bnd (lift_err (\<lambda>_. nth_py recs 0)) (\<lambda>r.
       bnd (lift_err (\<lambda>_. nth_py decs 0)) (\<lambda>d. body (r, d)))))"

section \<open>Metadata of a conventional batch\<close>

text \<open>Python's \<^verbatim>\<open>xs[i]\<close>, where a negative index counts from the end.\<close>

definition index_py :: "'a list \<Rightarrow> int \<Rightarrow> py_error + 'a" where
  "index_py xs i =
     (if 0 \<le> i \<and> i < int (length xs) then Inr (xs ! nat i)
      else if i < 0 \<and> - int (length xs) \<le> i then Inr (xs ! nat (int (length xs) + i))
      else Inl IndexError)"

text \<open>A row of the batch: layer tables, context length, sequence length, total length, is_prompt.\<close>

type_synonym attn_row = "nat list list \<times> int \<times> int \<times> nat \<times> bool"

definition attention_rows ::
  "'p SequenceGroupMetadata list \<Rightarrow> ('s, attn_row list) pym"
where
  "attention_rows mds =
     fold_each mds [] (\<lambda>rows md.
       case md_layer_group_block_tables md of
         None \<Rightarrow> throw (ValueError ''layer-group block tables are required'')
       | Some layer_tables \<Rightarrow>
           fold_each (md_seq_data md) rows (\<lambda>rows (seq_id, data).
             let context_len = (if md_is_prompt md then sd_num_computed_tokens data
                                else int (sd_get_len data) - 1) in
             bnd (lift_err (\<lambda>_. token_chunk_size md)) (\<lambda>chunk.
             let seq_len = min (int (sd_get_len data)) (context_len + chunk) in
             bnd (lift_err (\<lambda>_. dget layer_tables seq_id)) (\<lambda>tables.
             ret (rows @ [(tables, context_len, seq_len, sd_get_len data, md_is_prompt md)])))))"

definition row_slots :: "nat \<Rightarrow> nat \<Rightarrow> attn_row \<Rightarrow> ('s, int list) pym" where
  "row_slots block_size layer_group row = (case row of (tables, context_len, seq_len, total_len, is_prompt) \<Rightarrow>
     bnd (lift_err (\<lambda>_. nth_py tables layer_group)) (\<lambda>table.
     bnd (get_block_table_logical_start total_len table block_size) (\<lambda>logical_start.
     collect [context_len..seq_len - 1] (\<lambda>position.
       let logical_block = position div int block_size in
       bnd (lift_err (\<lambda>_. index_py table (logical_block - int logical_start))) (\<lambda>block_id.
       ret (int block_id * int block_size + position mod int block_size))))))"

definition build_layerwise_attention_metadata ::
  "'d XFormersMetadata \<Rightarrow> 'p SequenceGroupMetadata list \<Rightarrow> nat \<Rightarrow> int \<Rightarrow> nat \<Rightarrow> 'd \<Rightarrow>
   ('s, 'd XFormersMetadata list) pym"
where
  "build_layerwise_attention_metadata base mds num_layers group_size block_size dev =
     sq (ensure (0 < group_size) (ValueError ''layer_group_size must be positive''))
    (bnd (attention_rows mds) (\<lambda>rows.
     let layer_group_size = nat group_size;
         expected_groups = (num_layers + layer_group_size - 1) div layer_group_size in
     sq (ensure (list_all (\<lambda>(tables, _). length tables = expected_groups) rows)
          (ValueError ''layer-group block tables do not cover the model''))
    (fold_each [0..<num_layers] [] (\<lambda>result layer_idx.
       let layer_group = layer_idx div layer_group_size in
       bnd (fold_each rows ([], []) (\<lambda>(slots, block_tables) row.
              case row of (tables, context_len, seq_len, total_len, is_prompt) \<Rightarrow>
              bnd (row_slots block_size layer_group row) (\<lambda>more.
              ret (slots @ more, block_tables @ [if is_prompt then [] else tables ! layer_group]))))
         (\<lambda>(slots, block_tables).
       bnd (torch_tensor Int64 dev slots) (\<lambda>slot_tensor.
       bnd (make_block_tables block_tables dev) (\<lambda>tables_tensor.
       ret (result @ [XFormersMetadata (xm_num_prefills base) (xm_num_prefill_tokens base)
         (xm_num_decode_tokens base) (xm_total_seq_len base) slot_tensor (xm_seq_lens base)
         (xm_seq_lens_tensor base) (xm_max_query_len base) (xm_max_prefill_seq_len base)
         (xm_max_decode_seq_len base) (xm_query_start_loc base) (xm_seq_start_loc base)
         (xm_context_lens_tensor base) (Some tables_tensor) False None None]))))))))"

section \<open>Inputs of the recompute\<close>

text \<open>\<^verbatim>\<open>ModelRunner._prepare_ellm_partial_data\<close>\<close>

record 'p ellm_partial_data =
  pd_plans :: "'p list"
  pd_recompute_seq_lens :: "nat list"
  pd_recompute_token_ids :: "int list"
  pd_recompute_positions :: "nat list"
  pd_decode_seq_lens :: "nat list"

definition prepare_ellm_partial_data ::
  "'p SequenceGroupMetadata list \<Rightarrow> ('s, 'p ellm_partial_data option) pym"
where
  "prepare_ellm_partial_data mds = (case mds of
     [] \<Rightarrow> throw IndexError
   | first_metadata # _ \<Rightarrow>
       (case md_ellm_layer_group_plans first_metadata of
          None \<Rightarrow> ret None
        | Some plans \<Rightarrow>
            (case md_ellm_recompute_seq_lens first_metadata of
               None \<Rightarrow> throw AssertionError
             | Some recompute_seq_lens \<Rightarrow>
                 bnd (fold_each mds ([], [], [], 0) (\<lambda>acc md.
                   sq (ensure (\<not> md_is_prompt md)
                        (RuntimeError ''eLLM partial recompute cannot share a prefill batch''))
                  (fold_each (map snd (md_seq_data md)) acc (\<lambda>(toks, poss, lens, seq_index) data.
                     bnd (lift_err (\<lambda>_. nth_py recompute_seq_lens seq_index)) (\<lambda>num_recompute.
                     ret (toks @ take num_recompute (sd_get_token_ids data), poss @ [0..<num_recompute],
                          lens @ [sd_get_len data], seq_index + 1)))))) (\<lambda>(toks, poss, lens, _).
                 ret (Some \<lparr>pd_plans = plans, pd_recompute_seq_lens = recompute_seq_lens,
                            pd_recompute_token_ids = toks, pd_recompute_positions = poss,
                            pd_decode_seq_lens = lens\<rparr>)))))"

end
