(* ===== verification/Ellm_Metadata_Facts.thy ===== *)
theory Ellm_Metadata_Facts
  imports Ellm_Metadata Ellm_Cache_Consts
begin

text \<open>
  The metadata that the workers build addresses the blocks of the KV map: the slots of a decode
  step are the map's decode slots, the plans of a partial recompute always have the size the
  metadata needs, and the metadata of a plan lays the recomputed tokens out one sequence after the
  other.
\<close>

section \<open>Tensors\<close>

lemma bnd_Inr: "m s = (Inr x, t) \<Longrightarrow> bnd m k s = k x t"
  by (simp add: bnd_def)

lemma ret_apply: "ret x s = (Inr x, s)"
  by (simp add: ret_def)

lemma torch_tensor_ok:
  "list_all (fits ty) xs \<Longrightarrow>
     torch_tensor ty dev xs s = (Inr \<lparr>t1_device = dev, t1_dtype = ty, t1_elems = xs\<rparr>, s)"
  by (simp add: torch_tensor_def run_simps ret_def)

lemma wp_torch_tensor [wp_simps]:
  "wp (torch_tensor ty dev xs) Q E s \<longleftrightarrow>
     (if list_all (fits ty) xs then Q \<lparr>t1_device = dev, t1_dtype = ty, t1_elems = xs\<rparr> s
      else E (RuntimeError ''value cannot be converted without overflow'') s)"
  by (simp add: torch_tensor_def wp_simps)

lemma fits_nat: "k \<le> 2 ^ (dtype_bits ty - 1) \<Longrightarrow> n < k \<Longrightarrow> fits ty (int n)"
proof -
  assume "k \<le> 2 ^ (dtype_bits ty - 1)" "n < k"
  then have "int n < int (2 ^ (dtype_bits ty - 1))" by linarith
  moreover have "- (2 ^ (dtype_bits ty - 1)) \<le> int n"
    by (rule order_trans [of _ 0]) simp_all
  ultimately show ?thesis by (simp add: fits_def)
qed

definition pad_row :: "nat \<Rightarrow> nat list \<Rightarrow> int list" where
  "pad_row w table = map int table @ replicate (w - length table) 0"

definition table_tensor :: "'d \<Rightarrow> nat list list \<Rightarrow> 'd tensor2" where
  "table_tensor dev tables =
     (let w = max_default (map length tables) in
      \<lparr>t2_device = dev, t2_dtype = Int32, t2_width = w, t2_rows = map (pad_row w) tables\<rparr>)"

lemma make_block_tables_ok:
  assumes "\<forall>table \<in> set tables. list_all (\<lambda>b. fits Int32 (int b)) table"
  shows "make_block_tables tables dev s = (Inr (table_tensor dev tables), s)"
proof -
  let ?w = "max_default (map length tables)"
  have "collect tables (\<lambda>table.
      if table = [] then ret (replicate ?w 0)
      else bnd (torch_tensor Int32 dev (map int table)) (\<lambda>t.
        ret (t1_elems t @ replicate (?w - length table) 0))) s = (Inr (map (pad_row ?w) tables), s)"
    using assms by (intro collect_pure)
      (auto simp: pad_row_def list.pred_map comp_def ret_def
        intro!: trans [OF bnd_Inr [OF torch_tensor_ok]])
  then show ?thesis
    by (simp add: make_block_tables_def Let_def table_tensor_def bnd_Inr ret_def)
qed

lemma bnd_tensor:
  "list_all (fits ty) xs \<Longrightarrow> bnd (torch_tensor ty dev xs) k s = k \<lparr>t1_device = dev, t1_dtype = ty, t1_elems = xs\<rparr> s"
  by (rule bnd_Inr) (rule torch_tensor_ok)

lemma bnd_tables:
  "\<forall>table \<in> set tables. list_all (\<lambda>b. fits Int32 (int b)) table \<Longrightarrow>
     bnd (make_block_tables tables dev) k s = k (table_tensor dev tables) s"
  by (rule bnd_Inr) (rule make_block_tables_ok)

section \<open>Addresses of a decode step\<close>

text \<open>The retained tables of a sequence in all layer groups, as the block manager reports them.\<close>

definition retained_tables :: "nat \<Rightarrow> kv_map \<Rightarrow> nat list list" where
  "retained_tables s m = map (\<lambda>g. case fst (get_retained_block_table s g m) of Inr t \<Rightarrow> t | Inl _ \<Rightarrow> [])
     [0..<kv_num_layer_groups m]"

lemma length_retained_tables [simp]: "length (retained_tables s m) = kv_num_layer_groups m"
  by (simp add: retained_tables_def)

definition slot_of :: "kv_map \<Rightarrow> nat \<Rightarrow> nat \<Rightarrow> nat" where
  "slot_of m g s = (case fst (get_decode_slot s g m) of Inr slot \<Rightarrow> slot | Inl _ \<Rightarrow> 0)"

lemma retained_tables_nth:
  assumes inv: "kv_inv m" and L: "kvL m s = Some n" and P: "kvP m s = Some p"
    and g: "g < kv_num_layer_groups m"
  shows "retained_tables s m ! g =
    map (\<lambda>l. ke_physical_block_id (the (kvE False m s l g))) [p..<ceil_div n (kv_block_size m)]"
  using g get_retained_block_table_ok [OF inv L P g] by (simp add: retained_tables_def)

lemma index_py_nat: "i < length xs \<Longrightarrow> index_py xs (int i) = Inr (xs ! i)"
  by (simp add: index_py_def)

lemma entry_bound:
  assumes inv: "kv_inv m" and e: "kvE False m s l g = Some e"
  shows "ke_physical_block_id e < kv_num_physical_blocks m"
proof -
  have "pool_ok m (held m)" using inv kv_ok_pool [of m "{#}"] by (simp add: kv_inv_def)
  moreover have "(g, ke_physical_block_id e) \<in># held m"
    using owned_mem [of "kv_entries m" "(s, l, g)" e] e by (simp add: held_def kvE_def)
  ultimately show ?thesis using pool_okD(7) by blast
qed

lemma decode_row_slots:
  assumes inv: "kv_inv m" and L: "kvL m s = Some n" and P: "kvP m s = Some p"
    and g: "g < kv_num_layer_groups m" and p: "p * kv_block_size m < n"
  shows "row_slots (kv_block_size m) g (retained_tables s m, int n - 1, int n, n, False) u =
      (Inr [int (slot_of m g s)], u)"
    and "get_decode_slot s g m = (Inr (slot_of m g s), m)"
    and "slot_of m g s < kv_num_physical_blocks m * kv_block_size m"
    and "\<forall>b \<in> set (retained_tables s m ! g). b < kv_num_physical_blocks m"
proof -
  let ?bs = "kv_block_size m" and ?l = "(n - 1) div kv_block_size m"
  have seqs: "seqs_ok m" using inv by (simp add: kv_inv_def)
  note bs = seqs_okD(1) [OF seqs]
  note V = view_present [OF seqs L P]
  let ?N = "ceil_div n ?bs"
  have N: "?N = Suc ?l" using ceil_div_pos [OF bs V(1)] by simp
  have l: "p \<le> ?l" using p bs by (simp add: less_eq_div_iff_mult_less_eq)
  obtain e where e: "kvE False m s ?l g = Some e" using V(3) [of ?l g] l g N by auto
  have slot: "get_decode_slot s g m = (Inr (ke_physical_block_id e * ?bs + (n - 1) mod ?bs), m)"
    using L e by (simp add: get_decode_slot_def get_length_def kvL_def kvE_def get_entry_def
        bnd_def gets_def ret_def lift_err_def dget_def)
  then have slot_of: "slot_of m g s = ke_physical_block_id e * ?bs + (n - 1) mod ?bs"
    by (simp add: slot_of_def)
  show "get_decode_slot s g m = (Inr (slot_of m g s), m)" unfolding slot_of by (rule slot)
  note tab = retained_tables_nth [OF inv L P g]
  have len: "length (retained_tables s m ! g) = ?N - p" unfolding tab by simp
  have nth: "[p..<Suc ?l] ! (?l - p) = ?l" using l nth_upt [of p "?l - p" "Suc ?l"] by (simp del: upt_Suc)
  have last: "retained_tables s m ! g ! (?l - p) = ke_physical_block_id e"
    unfolding tab using l N e nth by (simp del: upt_Suc One_nat_def)
  have start: "bnd (get_block_table_logical_start n (retained_tables s m ! g) ?bs) k v = k p v" for k :: "nat \<Rightarrow> ('v, 'w) pym" and v
    using bs len l N by (simp add: get_block_table_logical_start_def bnd_def sq_def ensure_def ret_def ceil_div_def)
  have pos: "[int n - 1..int n - 1] = [int n - 1]" by simp
  have idx: "(int n - 1) div int ?bs - int p = int (?l - p)"
    using V(1) l by (simp add: of_nat_diff zdiv_int)
  have modn: "(int n - 1) mod int ?bs = int ((n - 1) mod ?bs)"
    using V(1) by (simp add: of_nat_diff zmod_int)
  have "?l - p < length (retained_tables s m ! g)" using l unfolding len N by (simp add: Suc_diff_le)
  then have "index_py (retained_tables s m ! g) (int (?l - p)) = Inr (ke_physical_block_id e)"
    using index_py_nat last by metis
  then show "row_slots ?bs g (retained_tables s m, int n - 1, int n, n, False) u =
      (Inr [int (slot_of m g s)], u)"
    using g by (simp add: row_slots_def start run_lift_Inr pos idx modn slot_of Let_def)
      (simp add: ret_def bnd_def lift_err_def)
  have "Suc (ke_physical_block_id e) * ?bs \<le> kv_num_physical_blocks m * ?bs"
    by (intro mult_le_mono1 Suc_leI entry_bound [OF inv e])
  then show "slot_of m g s < kv_num_physical_blocks m * ?bs"
    unfolding slot_of mult_Suc using mod_less_divisor [OF bs, of "n - 1"] by linarith
  show "\<forall>b \<in> set (retained_tables s m ! g). b < kv_num_physical_blocks m"
  proof
    fix b assume "b \<in> set (retained_tables s m ! g)"
    then obtain i where i: "p \<le> i" "i < ?N" "b = ke_physical_block_id (the (kvE False m s i g))"
      unfolding tab by auto
    then obtain e' where "kvE False m s i g = Some e'" using V(3) [of i g] g by auto
    then show "b < kv_num_physical_blocks m" using entry_bound [OF inv] i(3) by simp
  qed
qed

text \<open>
  A decode batch made for the state \<open>m\<close> of the map: every group has its layer tables, one token is to
  be computed per sequence, the map holds all tokens of the sequence, the last one not evicted.
\<close>

definition decode_batch :: "kv_map \<Rightarrow> 'p SequenceGroupMetadata list \<Rightarrow> bool" where
  "decode_batch m mds \<longleftrightarrow> (\<forall>md \<in> set mds. \<not> md_is_prompt md \<and> md_token_chunk_size md = Some 1 \<and>
     (\<exists>tabs. md_layer_group_block_tables md = Some tabs \<and>
       (\<forall>(s, d) \<in> set (md_seq_data md). map_of tabs s = Some (retained_tables s m) \<and>
          map_of (kv_sequence_lengths m) s = Some (sd_get_len d) \<and>
          (\<exists>p. map_of (kv_evicted_prefix_blocks m) s = Some p \<and> p * kv_block_size m < sd_get_len d))))"

definition batch_seqs :: "'p SequenceGroupMetadata list \<Rightarrow> (nat \<times> SequenceData) list" where
  "batch_seqs mds = concat (map md_seq_data mds)"

definition decode_row :: "kv_map \<Rightarrow> nat \<times> SequenceData \<Rightarrow> attn_row" where
  "decode_row m = (\<lambda>(s, d). (retained_tables s m, int (sd_get_len d) - 1, int (sd_get_len d), sd_get_len d, False))"

lemma foldl_snoc: "foldl (\<lambda>acc x. acc @ [f x]) ys xs = ys @ map f xs"
  by (induction xs arbitrary: ys) simp_all

lemma foldl_concat: "foldl (\<lambda>acc x. acc @ f x) ys xs = ys @ concat (map f xs)"
  by (induction xs arbitrary: ys) simp_all

lemma attention_rows_ok:
  assumes "decode_batch m mds"
  shows "attention_rows mds u = (Inr (map (decode_row m) (batch_seqs mds)), u)"
proof -
  have row: "(case md_layer_group_block_tables md of
         None \<Rightarrow> throw (ValueError ''layer-group block tables are required'')
       | Some layer_tables \<Rightarrow>
           fold_each (md_seq_data md) rows (\<lambda>rows (seq_id, data).
             let context_len = (if md_is_prompt md then sd_num_computed_tokens data
                                else int (sd_get_len data) - 1) in
             bnd (lift_err (\<lambda>_. token_chunk_size md)) (\<lambda>chunk.
             let seq_len = min (int (sd_get_len data)) (context_len + chunk) in
             bnd (lift_err (\<lambda>_. dget layer_tables seq_id)) (\<lambda>tables.
             ret (rows @ [(tables, context_len, seq_len, sd_get_len data, md_is_prompt md)]))))) u =
      (Inr (rows @ map (decode_row m) (md_seq_data md)), u)" if md: "md \<in> set mds" for md rows
  proof -
    from assms md obtain tabs where tabs: "md_layer_group_block_tables md = Some tabs"
      and md': "\<not> md_is_prompt md" "md_token_chunk_size md = Some 1"
      and look: "\<forall>(s, d) \<in> set (md_seq_data md). map_of tabs s = Some (retained_tables s m)"
      by (force simp: decode_batch_def)
    show ?thesis
      unfolding tabs option.case foldl_snoc [symmetric]
      by (rule fold_each_pure)
        (use md' look in \<open>auto simp: run_lift_Inr token_chunk_size_def Let_def ret_def decode_row_def\<close>)
  qed
  have "fold_each mds [] (\<lambda>rows md. case md_layer_group_block_tables md of
         None \<Rightarrow> throw (ValueError ''layer-group block tables are required'')
       | Some layer_tables \<Rightarrow>
           fold_each (md_seq_data md) rows (\<lambda>rows (seq_id, data).
             let context_len = (if md_is_prompt md then sd_num_computed_tokens data
                                else int (sd_get_len data) - 1) in
             bnd (lift_err (\<lambda>_. token_chunk_size md)) (\<lambda>chunk.
             let seq_len = min (int (sd_get_len data)) (context_len + chunk) in
             bnd (lift_err (\<lambda>_. dget layer_tables seq_id)) (\<lambda>tables.
             ret (rows @ [(tables, context_len, seq_len, sd_get_len data, md_is_prompt md)]))))) u =
    (Inr (foldl (\<lambda>rows md. rows @ map (decode_row m) (md_seq_data md)) [] mds), u)"
    by (rule fold_each_pure) (rule row)
  then show ?thesis by (simp add: attention_rows_def foldl_concat batch_seqs_def map_concat comp_def)
qed

text \<open>One layer: its slots and its block tables.\<close>

lemma decode_batchD:
  assumes "kv_reach m" "decode_batch m mds" "(s, d) \<in> set (batch_seqs mds)" "g < kv_num_layer_groups m"
  shows "row_slots (kv_block_size m) g (decode_row m (s, d)) u = (Inr [int (slot_of m g s)], u)"
    and "get_decode_slot s g m = (Inr (slot_of m g s), m)"
    and "slot_of m g s < kv_num_physical_blocks m * kv_block_size m"
    and "\<forall>b \<in> set (retained_tables s m ! g). b < kv_num_physical_blocks m"
proof -
  from assms(2,3) obtain p where "kvL m s = Some (sd_get_len d)" "kvP m s = Some p"
    "p * kv_block_size m < sd_get_len d"
    by (fastforce simp: decode_batch_def batch_seqs_def kvL_def kvP_def)
  from decode_row_slots [OF kv_reach_inv [OF assms(1)] this(1,2) assms(4) this(3)]
  show "row_slots (kv_block_size m) g (decode_row m (s, d)) u = (Inr [int (slot_of m g s)], u)"
    and "get_decode_slot s g m = (Inr (slot_of m g s), m)"
    and "slot_of m g s < kv_num_physical_blocks m * kv_block_size m"
    and "\<forall>b \<in> set (retained_tables s m ! g). b < kv_num_physical_blocks m"
    by (simp_all add: decode_row_def)
qed

lemma foldl_pair:
  "foldl (\<lambda>(a, b) x. (a @ [f x], b @ [g x])) (ys, zs) xs = (ys @ map f xs, zs @ map g xs)"
  by (induction xs arbitrary: ys zs) simp_all

lemma layer_rows_ok:
  fixes u :: 'u
  assumes "kv_reach m" "decode_batch m mds" "g < kv_num_layer_groups m"
  shows "fold_each (map (decode_row m) (batch_seqs mds)) ([], []) (\<lambda>(slots, block_tables) row.
      case row of (tables, context_len, seq_len, total_len, is_prompt) \<Rightarrow>
      bnd (row_slots (kv_block_size m) g row) (\<lambda>more.
      ret (slots @ more, block_tables @ [if is_prompt then [] else tables ! g]))) u =
    (Inr (map (\<lambda>(s, _). int (slot_of m g s)) (batch_seqs mds),
          map (\<lambda>(s, _). retained_tables s m ! g) (batch_seqs mds)), u)"
proof -
  have "fold_each xs (a, b) (\<lambda>(slots, block_tables) row.
      case row of (tables, context_len, seq_len, total_len, is_prompt) \<Rightarrow>
      bnd (row_slots (kv_block_size m) g row) (\<lambda>more.
      ret (slots @ more, block_tables @ [if is_prompt then [] else tables ! g]))) u =
    (Inr (a @ map (\<lambda>(s, _). int (slot_of m g s)) ys, b @ map (\<lambda>(s, _). retained_tables s m ! g) ys), u)"
    if "set ys \<subseteq> set (batch_seqs mds)" "xs = map (decode_row m) ys" for xs ys a b
    using that
  proof (induction ys arbitrary: xs a b)
    case (Cons y ys)
    obtain s d where y: "y = (s, d)" by (cases y)
    with Cons.prems have mem: "(s, d) \<in> set (batch_seqs mds)" by simp
    have b: "bnd (row_slots (kv_block_size m) g (decode_row m (s, d))) k u = k [int (slot_of m g s)] u"
      for k :: "int list \<Rightarrow> ('u, int list \<times> nat list list) pym"
      by (rule bnd_Inr) (rule decode_batchD(1) [OF assms(1,2) mem assms(3)])
    then show ?case
      using Cons y by (simp add: decode_row_def bnd_Inr ret_def)
  qed (simp add: ret_def)
  from this [of "batch_seqs mds" _ "[]" "[]"] show ?thesis by simp
qed

definition decode_layer ::
  "kv_map \<Rightarrow> 'd XFormersMetadata \<Rightarrow> 'p SequenceGroupMetadata list \<Rightarrow> 'd \<Rightarrow> nat \<Rightarrow> 'd XFormersMetadata"
where
  "decode_layer m base mds dev g =
     XFormersMetadata (xm_num_prefills base) (xm_num_prefill_tokens base)
       (xm_num_decode_tokens base) (xm_total_seq_len base)
       \<lparr>t1_device = dev, t1_dtype = Int64, t1_elems = map (\<lambda>(s, _). int (slot_of m g s)) (batch_seqs mds)\<rparr>
       (xm_seq_lens base) (xm_seq_lens_tensor base) (xm_max_query_len base)
       (xm_max_prefill_seq_len base) (xm_max_decode_seq_len base) (xm_query_start_loc base)
       (xm_seq_start_loc base) (xm_context_lens_tensor base)
       (Some (table_tensor dev (map (\<lambda>(s, _). retained_tables s m ! g) (batch_seqs mds)))) False None None"

lemma layer_group_bound:
  assumes "kv_reach m" "l < kv_num_layers m"
  shows "l div kv_layer_group_size m < kv_num_layer_groups m"
proof -
  have "0 < kv_layer_group_size m"
    using kv_reach_inv [OF assms(1)] by (simp add: kv_inv_def seqs_ok_def)
  then show ?thesis
    using less_ceil_div_iff kv_reach_groups [OF assms(1)]
      le_less_trans [OF div_times_less_eq_dividend assms(2)] by simp
qed

lemma build_decode_ok:
  fixes u :: 'u
  assumes "kv_reach m" "decode_batch m mds"
    and "kv_num_physical_blocks m \<le> 2 ^ 31" "kv_num_physical_blocks m * kv_block_size m \<le> 2 ^ 63"
  shows "build_layerwise_attention_metadata base mds (kv_num_layers m) (int (kv_layer_group_size m))
      (kv_block_size m) dev u =
    (Inr (map (\<lambda>l. decode_layer m base mds dev (l div kv_layer_group_size m)) [0..<kv_num_layers m]), u)"
proof -
  let ?lgs = "kv_layer_group_size m" and ?rows = "map (decode_row m) (batch_seqs mds)"
  have seqs: "seqs_ok m" using kv_reach_inv [OF assms(1)] by (simp add: kv_inv_def)
  note lgs = seqs_okD(2) [OF seqs]
  have groups: "kv_num_layer_groups m = (kv_num_layers m + ?lgs - 1) div ?lgs"
    using kv_reach_groups [OF assms(1)] by (simp add: ceil_div_def)
  have cover: "list_all (\<lambda>(tables, _). length tables = (kv_num_layers m + ?lgs - 1) div ?lgs) ?rows"
    by (auto simp: list_all_iff decode_row_def groups)
  note g = layer_group_bound [OF assms(1)]
  have layer: "bnd (fold_each ?rows ([], []) (\<lambda>(slots, block_tables) row.
        case row of (tables, context_len, seq_len, total_len, is_prompt) \<Rightarrow>
        bnd (row_slots (kv_block_size m) (l div ?lgs) row) (\<lambda>more.
        ret (slots @ more, block_tables @ [if is_prompt then [] else tables ! (l div ?lgs)])))) k u =
      k (map (\<lambda>(s, _). int (slot_of m (l div ?lgs) s)) (batch_seqs mds),
         map (\<lambda>(s, _). retained_tables s m ! (l div ?lgs)) (batch_seqs mds)) u"
    if "l < kv_num_layers m" for l and k :: "int list \<times> nat list list \<Rightarrow> ('u, 'd XFormersMetadata list) pym"
    by (rule bnd_Inr) (rule layer_rows_ok [OF assms(1,2) g [OF that]])
  have slots: "list_all (fits Int64) (map (\<lambda>(s, _). int (slot_of m (l div ?lgs) s)) (batch_seqs mds))"
    if "l < kv_num_layers m" for l
    using decode_batchD(3) [OF assms(1,2) _ g [OF that]] assms(4)
    by (auto simp: list_all_iff intro: fits_nat)
  have tabs: "\<forall>table \<in> set (map (\<lambda>(s, _). retained_tables s m ! (l div ?lgs)) (batch_seqs mds)).
      list_all (\<lambda>b. fits Int32 (int b)) table" if "l < kv_num_layers m" for l
    using decode_batchD(4) [OF assms(1,2) _ g [OF that]] assms(3)
    by (auto simp: list_all_iff intro: fits_nat)
  have rows: "bnd (attention_rows mds) k u = k ?rows u"
    for k :: "attn_row list \<Rightarrow> ('u, 'd XFormersMetadata list) pym"
    by (rule bnd_Inr) (rule attention_rows_ok [OF assms(2)])
  have loop: "fold_each [0..<kv_num_layers m] [] (\<lambda>result layer_idx.
       let layer_group = layer_idx div ?lgs in
       bnd (fold_each ?rows ([], []) (\<lambda>(slots, block_tables) row.
              case row of (tables, context_len, seq_len, total_len, is_prompt) \<Rightarrow>
              bnd (row_slots (kv_block_size m) layer_group row) (\<lambda>more.
              ret (slots @ more, block_tables @ [if is_prompt then [] else tables ! layer_group]))))
         (\<lambda>(slots, block_tables).
       bnd (torch_tensor Int64 dev slots) (\<lambda>slot_tensor.
       bnd (make_block_tables block_tables dev) (\<lambda>tables_tensor.
       ret (result @ [XFormersMetadata (xm_num_prefills base) (xm_num_prefill_tokens base)
         (xm_num_decode_tokens base) (xm_total_seq_len base) slot_tensor (xm_seq_lens base)
         (xm_seq_lens_tensor base) (xm_max_query_len base) (xm_max_prefill_seq_len base)
         (xm_max_decode_seq_len base) (xm_query_start_loc base) (xm_seq_start_loc base)
         (xm_context_lens_tensor base) (Some tables_tensor) False None None]))))) u =
    (Inr (foldl (\<lambda>acc l. acc @ [decode_layer m base mds dev (l div ?lgs)]) [] [0..<kv_num_layers m]), u)"
    by (rule fold_each_pure)
      (use slots tabs in \<open>simp add: Let_def layer bnd_tensor bnd_tables decode_layer_def ret_apply\<close>)
  show ?thesis
    unfolding build_layerwise_attention_metadata_def
    using lgs cover loop by (simp add: run_simps rows Let_def foldl_snoc)
qed

text \<open>
  C27. The addresses of a decode step. For a decode batch made from the block tables of any reachable
  KV map, the metadata is built without an exception, one object per model layer; the slots of a
  layer are the slots that the map itself names for the last token of each sequence in the layer's
  group, although the tables omit the evicted prefix, and the block tables are the retained tables,
  padded to one width.
\<close>

theorem decode_addresses_agree:
  assumes "kv_reach m" "decode_batch m mds"
    and "kv_num_physical_blocks m \<le> 2 ^ 31" "kv_num_physical_blocks m * kv_block_size m \<le> 2 ^ 63"
  shows "wp (build_layerwise_attention_metadata base mds (kv_num_layers m) (int (kv_layer_group_size m))
      (kv_block_size m) dev)
    (\<lambda>xs t. t = u \<and> length xs = kv_num_layers m \<and>
       (\<forall>l < kv_num_layers m. let g = l div kv_layer_group_size m in
          list_all2 (\<lambda>slot (s, _). \<exists>b. get_decode_slot s g m = (Inr b, m) \<and> slot = int b)
            (t1_elems (xm_slot_mapping (xs ! l))) (batch_seqs mds) \<and>
          xm_block_tables (xs ! l) =
            Some (table_tensor dev (map (\<lambda>(s, _). retained_tables s m ! g) (batch_seqs mds)))))
    (\<lambda>_ _. False) u"
proof -
  have g: "l div kv_layer_group_size m < kv_num_layer_groups m" if "l < kv_num_layers m" for l
    using layer_group_bound [OF assms(1) that] .
  have "list_all2 (\<lambda>slot (s, _). \<exists>b. get_decode_slot s g m = (Inr b, m) \<and> slot = int b)
      (map (\<lambda>(s, _). int (slot_of m g s)) (batch_seqs mds)) (batch_seqs mds)"
    if "g < kv_num_layer_groups m" for g
    using decode_batchD(2) [OF assms(1,2) _ that] by (auto simp: list_all2_conv_all_nth split: prod.split)
      (metis nth_mem)
  with g show ?thesis
    using build_decode_ok [OF assms, of base dev u] by (simp add: wp_def decode_layer_def Let_def)
qed

definition demo_base :: "unit XFormersMetadata" where
  "demo_base = XFormersMetadata 0 0 2 10 \<lparr>t1_device = (), t1_dtype = Int64, t1_elems = []\<rparr> None None None 0 5
     None None None None False None None"

definition demo_decode_md :: "unit SequenceGroupMetadata" where
  "demo_decode_md = projr (SequenceGroupMetadata_init ''a'' False
     [(0, SequenceData_init (replicate 5 7) None), (2, SequenceData_init (replicate 5 7) None)] None [] True
     None None None None None None 0
     (Some [(0, retained_tables 0 demo_map), (2, retained_tables 2 demo_map)]))"

theorem decode_addresses_agree_witness:
  "\<exists>xs. build_layerwise_attention_metadata demo_base [demo_decode_md] 8 4 2 () () = (Inr xs, ()) \<and>
     length xs = 8 \<and> t1_elems (xm_slot_mapping (xs ! 7)) = [4, 8]"
proof -
  have "map_of (kv_sequence_lengths demo_map) 0 = Some 5" "map_of (kv_sequence_lengths demo_map) 2 = Some 5"
    "map_of (kv_evicted_prefix_blocks demo_map) 0 = Some 0" "map_of (kv_evicted_prefix_blocks demo_map) 2 = Some 1"
    "kv_block_size demo_map = 2" by code_simp+
  then have batch: "decode_batch demo_map [demo_decode_md]"
    by (simp add: decode_batch_def demo_decode_md_def SequenceGroupMetadata_init_def SequenceData_init_def sd_get_len_def)
  have dims: "kv_num_layers demo_map = 8" "kv_layer_group_size demo_map = 4" "kv_block_size demo_map = 2"
    "kv_num_physical_blocks demo_map = 8" by code_simp+
  have seqs: "batch_seqs [demo_decode_md] =
      [(0, SequenceData_init (replicate 5 7) None), (2, SequenceData_init (replicate 5 7) None)]"
    by (simp add: batch_seqs_def demo_decode_md_def SequenceGroupMetadata_init_def)
  have slots: "fst (get_decode_slot 0 1 demo_map) = Inr 4" "fst (get_decode_slot 2 1 demo_map) = Inr 8" by code_simp+
  let ?b = "build_layerwise_attention_metadata demo_base [demo_decode_md] 8 4 2 () ()"
  have "wp (\<lambda>_. ?b) (\<lambda>xs t. length xs = 8 \<and> t1_elems (xm_slot_mapping (xs ! 7)) = [4, 8]) (\<lambda>_ _. False) ()"
    using decode_addresses_agree [OF demo_reach batch, of demo_base "()" "()"] slots
    by (auto simp: dims seqs wp_def Let_def list_all2_Cons2 split: prod.splits sum.splits
        dest!: spec [where x = 7])
  then show ?thesis by (auto simp: wp_def split: prod.splits sum.splits)
qed

end
