(* ===== verification/Ellm_Recompute_Facts.thy ===== *)
theory Ellm_Recompute_Facts
  imports Ellm_Metadata_Facts
begin

text \<open>
  The metadata of a partial recompute: the plans of the KV map always have the shape the builder
  demands, the metadata lays the recomputed tokens out one sequence after the other, a leased plan
  leaves no trace, and the combined metadata of recompute and decode shows each side its own view.
\<close>

section \<open>The shape of a plan\<close>

definition evicted :: "kv_map \<Rightarrow> nat \<Rightarrow> nat" where
  "evicted m s = (case kvP m s of None \<Rightarrow> 0 | Some p \<Rightarrow> p * kv_block_size m)"

definition plan_fits :: "kv_map \<Rightarrow> nat list \<Rightarrow> LayerGroupBlockPlan \<Rightarrow> bool" where
  "plan_fits m ss pl \<longleftrightarrow>
     length (recompute_slot_mapping pl) = sum_list (map (evicted m) ss) \<and>
     length (decode_slot_mapping pl) = length ss \<and> length (decode_block_tables pl) = length ss \<and>
     (\<forall>x \<in> set (recompute_slot_mapping pl) \<union> set (decode_slot_mapping pl).
        x < kv_num_physical_blocks m * kv_block_size m) \<and>
     (\<forall>table \<in> set (decode_block_tables pl). \<forall>b \<in> set table. b < kv_num_physical_blocks m)"

lemma wp_True: "wp m (\<lambda>_ _. True) (\<lambda>_ _. True) s"
  by (simp add: wp_def split: prod.split sum.split)

lemma wp_undo: "wp (sq c (throw e)) Q (\<lambda>_ _. True) s"
  unfolding wp_sq by (rule wp_mono [OF wp_True]) (simp_all add: wp_throw)

text \<open>A handler that undoes and raises again does not matter for what holds of the returns.\<close>

lemma wp_try_undo:
  "wp (try_except m (\<lambda>e. sq (c e) (throw e))) Q (\<lambda>_ _. True) s = wp m Q (\<lambda>_ _. True) s"
proof -
  have "(\<lambda>e. wp (sq (c e) (throw e)) Q (\<lambda>_ _. True)) = (\<lambda>_ _. True)"
    by (intro ext) (simp add: wp_undo)
  then show ?thesis by (simp only: wp_try_except)
qed

lemma sum_block_slots: "length (concat (map (\<lambda>l. block_slots bs (f l)) xs)) = length xs * bs"
  by (induction xs) (simp_all add: block_slots_def)

lemma plan_loop_length:
  assumes "kv_inv t" "kvP t = kvP m" "kv_block_size t = kv_block_size m"
  shows "wp (plan_loop g ss (rs, ds, ts, A) cleanup)
    (\<lambda>(rs', _) _. length rs' = length rs + sum_list (map (evicted m) ss)) (\<lambda>_ _. True) t"
  using assms
proof (induction ss arbitrary: rs ds ts A t)
  case Nil
  then show ?case by (simp add: wp_ret)
next
  case (Cons s ss)
  show ?case
    unfolding plan_loop.simps wp_bnd wp_try_undo wp_ret prod.case
  proof (rule wp_mono [OF begin_recompute_ok [OF Cons.prems(1)]])
    fix table u
    assume "0 \<le> int g \<and> begin_post t s (nat (int g)) table u"
    then obtain p where P: "kvP t s = Some p" and u: "kv_inv u" "kvP u = kvP t" "kv_block_size u = kv_block_size t"
      by (auto simp: begin_post_def kv_frame_def kv_consts_def)
    have Pu: "kvP u s = Some p" using P u(2) by simp
    have ev: "evicted m s = p * kv_block_size u" using P u(3) Cons.prems(2,3) by (simp add: evicted_def)
    show "wp (get_recompute_slot_mapping s g) (\<lambda>r. wp (get_decode_slot s g) (\<lambda>d.
        wp (plan_loop g ss (rs @ r, ds @ [d], ts @ [table], A @ [s]) cleanup)
          (\<lambda>(rs', _) _. length rs' = length rs + sum_list (map (evicted m) (s # ss))) (\<lambda>_ _. True))
        (\<lambda>_ _. True)) (\<lambda>_ _. True) u"
    proof (rule wp_mono [OF get_recompute_slot_mapping_ok [OF Pu]])
      fix r v
      assume "v = u \<and> (\<forall>l < p. kvE True u s l g \<noteq> None) \<and>
        r = concat (map (\<lambda>l. block_slots (kv_block_size u) (ke_physical_block_id (the (kvE True u s l g)))) [0..<p])"
      then have v: "v = u" and len: "length r = p * kv_block_size u" by (simp_all add: sum_block_slots)
      have "wp (get_decode_slot s g) (\<lambda>_ w. w = u) (\<lambda>_ w. w = u) u"
        unfolding get_decode_slot_def get_length_def get_entry_def
        by (simp add: wp_simps split: sum.split)
      then show "wp (get_decode_slot s g) (\<lambda>d.
          wp (plan_loop g ss (rs @ r, ds @ [d], ts @ [table], A @ [s]) cleanup)
            (\<lambda>(rs', _) _. length rs' = length rs + sum_list (map (evicted m) (s # ss))) (\<lambda>_ _. True))
          (\<lambda>_ _. True) v"
        unfolding v
      proof (rule wp_mono)
        fix d w assume "w = u"
        then show "wp (plan_loop g ss (rs @ r, ds @ [d], ts @ [table], A @ [s]) cleanup)
            (\<lambda>(rs', _) _. length rs' = length rs + sum_list (map (evicted m) (s # ss))) (\<lambda>_ _. True) w"
          by (intro wp_mono [OF Cons.IH [of w]]) (use u Cons.prems len in \<open>auto simp: ev\<close>)
      qed simp
    qed simp
  qed simp
qed

lemma plan_in_force_fits:
  assumes "plan_in_force m ss g pl t" and len: "length (recompute_slot_mapping pl) = sum_list (map (evicted m) ss)"
  shows "plan_fits m ss pl"
proof -
  have J: "plan_inv m g ss (recompute_slot_mapping pl) t"
    and rows: "plan_rows t g ss (decode_slot_mapping pl) (decode_block_tables pl)"
    using assms(1) by (simp_all add: plan_in_force_def)
  have inv: "kv_inv t" using J by (simp add: plan_inv_def)
  have pool: "pool_ok t (held t)" using inv kv_ok_pool [of t "{#}"] by (simp add: kv_inv_def)
  obtain new where new: "plan_new m g ss new t"
    and rs: "recompute_slot_mapping pl =
      concat (map (\<lambda>p. block_slots (kv_block_size m) (ke_physical_block_id (snd p))) new)"
    using J by (auto simp: plan_inv_def)
  have same: "kv_block_size t = kv_block_size m" "kv_num_physical_blocks t = kv_num_physical_blocks m"
    using new by (simp_all add: plan_new_def kv_rest_eq)
  have bs: "0 < kv_block_size m" using inv same by (simp add: kv_inv_def seqs_ok_def)
  have dec: "the (decode_block t s g l) < kv_num_physical_blocks m" if "decode_block t s g l \<noteq> None" for s l
  proof -
    from that obtain tmp e where e: "kvE tmp t s l g = Some e" "decode_block t s g l = Some (ke_physical_block_id e)"
      by (auto simp: decode_block_def split: option.splits)
    have "(g, ke_physical_block_id e) \<in># held t"
      using owned_mem [of "kv_dict tmp t" "(s, l, g)" e] e(1)
      by (cases tmp) (auto simp: held_def kvE_def)
    then show ?thesis using pool_okD(7) [OF pool] e(2) same by auto
  qed
  have "x < kv_num_physical_blocks m * kv_block_size m" if "x \<in> set (recompute_slot_mapping pl)" for x
  proof -
    from that rs obtain p where p: "p \<in> set new" "x \<in> set (block_slots (kv_block_size m) (ke_physical_block_id (snd p)))"
      by auto
    with new have "(g, ke_physical_block_id (snd p)) \<in># held t"
      by (auto simp: plan_new_def intro: count_inI)
    then have "Suc (ke_physical_block_id (snd p)) \<le> kv_num_physical_blocks m"
      using pool_okD(7) [OF pool] same(2) by (intro Suc_leI) auto
    from mult_le_mono1 [OF this, of "kv_block_size m"] p(2) show ?thesis by (simp add: block_slots_def)
  qed
  moreover have "x < kv_num_physical_blocks m * kv_block_size m" if "x \<in> set (decode_slot_mapping pl)" for x
  proof -
    from that obtain i where i: "i < length ss" "x = decode_slot_mapping pl ! i"
      using rows by (auto simp: in_set_conv_nth plan_rows_def)
    with rows obtain n where n: "kvL t (ss ! i) = Some n"
      "\<forall>l < ceil_div n (kv_block_size t). decode_block t (ss ! i) g l \<noteq> None"
      "x = the (decode_block t (ss ! i) g ((n - 1) div kv_block_size t)) * kv_block_size t + (n - 1) mod kv_block_size t"
      by (auto simp: plan_rows_def)
    have "seqs_ok t" using inv by (simp add: kv_inv_def)
    then have "0 < n" by (rule view_cases [of t "ss ! i"]) (use n(1) in auto)
    then have "(n - 1) div kv_block_size t < ceil_div n (kv_block_size t)"
      using ceil_div_pos [of "kv_block_size t" n] bs same by simp
    with n(2) have "Suc (the (decode_block t (ss ! i) g ((n - 1) div kv_block_size t))) \<le> kv_num_physical_blocks m"
      by (intro Suc_leI dec) blast
    from mult_le_mono1 [OF this, of "kv_block_size m"] mod_less_divisor [OF bs, of "n - 1"]
    show ?thesis unfolding n(3) same mult_Suc by linarith
  qed
  moreover have "b < kv_num_physical_blocks m" if "table \<in> set (decode_block_tables pl)" "b \<in> set table" for table b
  proof -
    from that(1) obtain i where i: "i < length ss" "table = decode_block_tables pl ! i"
      using rows by (auto simp: in_set_conv_nth plan_rows_def)
    with rows that(2) dec show ?thesis by (fastforce simp: plan_rows_def)
  qed
  ultimately show ?thesis using rows len by (auto simp: plan_fits_def plan_rows_def)
qed

lemma build_plan_fits:
  assumes inv: "kv_inv m"
  shows "wp (build_layer_group_plan ss g)
    (\<lambda>pl u. plan_fits m ss pl \<and> kv_inv u \<and> kv_rest u = kv_rest m \<and> kv_avail u = kv_avail m) (\<lambda>_ _. True) m"
proof -
  have "wp (build_layer_group_plan ss g)
      (\<lambda>pl _. length (recompute_slot_mapping pl) = sum_list (map (evicted m) ss)) (\<lambda>_ _. True) m"
    unfolding build_layer_group_plan_def wp_bnd wp_sq
  proof (rule wp_mono [OF plan_loop_length [OF inv refl refl]])
    fix x :: plan_acc and u :: kv_map assume "(case x of (rs', _) \<Rightarrow> \<lambda>_. length rs' = length [] + sum_list (map (evicted m) ss)) u"
    then show "wp (for_each (snd (snd (snd x))) (\<lambda>seq_id. end_recompute seq_id g))
      (\<lambda>_. wp (ret (mk_plan x)) (\<lambda>pl _. length (recompute_slot_mapping pl) = sum_list (map (evicted m) ss)) (\<lambda>_ _. True))
      (\<lambda>_ _. True) u"
      by - (rule wp_mono [OF wp_True], auto simp: wp_ret mk_plan_def split: prod.splits)
  qed simp
  from wp_conj [OF this build_ok [OF inv]] show ?thesis
    by (rule wp_mono) (auto intro: plan_in_force_fits)
qed

lemma build_plans_fit:
  assumes inv: "kv_inv m"
  shows "wp (build_layer_group_plans ss)
    (\<lambda>pls u. length pls = kv_num_layer_groups m \<and> (\<forall>pl \<in> set pls. plan_fits m ss pl) \<and>
       kv_rest u = kv_rest m \<and> kv_avail u = kv_avail m) (\<lambda>_ _. True) m"
  unfolding build_layer_group_plans_def wp_bnd wp_gets
proof (rule wp_fold_range [where J = "\<lambda>i pls u. length pls = i \<and> (\<forall>pl \<in> set pls. plan_fits m ss pl) \<and>
       kv_inv u \<and> kv_rest u = kv_rest m \<and> kv_avail u = kv_avail m"])
  fix i pls t
  assume J: "length pls = i \<and> (\<forall>pl \<in> set pls. plan_fits m ss pl) \<and>
    kv_inv t \<and> kv_rest t = kv_rest m \<and> kv_avail t = kv_avail m"
  then have "evicted t = evicted m" by (auto simp: evicted_def kv_rest_eq kvP_def fun_eq_iff split: option.split)
  then have "plan_fits t ss = plan_fits m ss"
    by (intro ext) (use J in \<open>simp add: plan_fits_def kv_rest_eq\<close>)
  then show "wp (bnd (build_layer_group_plan ss i) (\<lambda>plan. ret (pls @ [plan])))
    (\<lambda>pls u. length pls = Suc i \<and> (\<forall>pl \<in> set pls. plan_fits m ss pl) \<and>
       kv_inv u \<and> kv_rest u = kv_rest m \<and> kv_avail u = kv_avail m) (\<lambda>_ _. True) t"
    unfolding wp_bnd using J by (intro wp_mono [OF build_plan_fits]) (auto simp: wp_ret)
qed (use inv in auto)

section \<open>The layout of the recompute metadata\<close>

text \<open>The start of each recomputed sequence in the batch, and the metadata of one layer.\<close>

definition starts :: "nat list \<Rightarrow> int list" where
  "starts lens = map (\<lambda>i. int (sum_list (take i lens))) [0..<Suc (length lens)]"

lemma fits_le: "fits ty (int n) \<Longrightarrow> k \<le> n \<Longrightarrow> fits ty (int k)"
  by (auto simp: fits_def intro: order_trans [of _ 0])

lemma cumsum_i32_ok:
  "fits Int32 (int (a + sum_list lens)) \<Longrightarrow>
     cumsum_i32 (int a) (map int lens) = map (\<lambda>i. int (a + sum_list (take (Suc i) lens))) [0..<length lens]"
proof (induction lens arbitrary: a)
  case (Cons x lens)
  have "signed_take_bit 31 (int a + int x) = int (a + x)"
    using fits_le [OF Cons.prems, of "a + x"]
    by (simp add: fits_def signed_take_bit_int_eq_self_iff)
  moreover have "cumsum_i32 (int (a + x)) (map int lens) =
      map (\<lambda>i. int (a + x + sum_list (take (Suc i) lens))) [0..<length lens]"
    by (rule Cons.IH) (use Cons.prems in \<open>simp add: add.assoc\<close>)
  ultimately show ?case
    by (simp add: Let_def upt_conv_Cons map_Suc_upt [symmetric] comp_def add.assoc del: upt_Suc)
qed simp

lemma cumulative_lengths_ok:
  assumes "fits Int32 (int (sum_list lens))"
  shows "cumulative_lengths lens dev s = (Inr \<lparr>t1_device = dev, t1_dtype = Int32, t1_elems = starts lens\<rparr>, s)"
proof (cases "lens = []")
  case False
  have "list_all (fits Int32) (map int lens)"
    using fits_le [OF assms] by (auto simp: list_all_iff intro!: member_le_sum_list)
  moreover have "starts lens = 0 # cumsum_i32 0 (map int lens)"
    using cumsum_i32_ok [of 0 lens] assms
    by (simp add: starts_def upt_conv_Cons map_Suc_upt [symmetric] comp_def del: upt_Suc)
  ultimately show ?thesis
    using False by (simp add: cumulative_lengths_def bnd_tensor ret_def)
qed (simp add: cumulative_lengths_def starts_def ret_def)

definition recompute_view :: "LayerGroupBlockPlan \<Rightarrow> nat list \<Rightarrow> 'd \<Rightarrow> 'd XFormersMetadata" where
  "recompute_view pl recs dev =
     (let active = filter (\<lambda>n. n \<noteq> 0) recs;
          loc = Some \<lparr>t1_device = dev, t1_dtype = Int32, t1_elems = starts active\<rparr> in
      XFormersMetadata (length active) (sum_list recs) 0 (int (sum_list recs))
        \<lparr>t1_device = dev, t1_dtype = Int64, t1_elems = map int (recompute_slot_mapping pl)\<rparr> (Some active)
        (Some \<lparr>t1_device = dev, t1_dtype = Int32, t1_elems = map int active\<rparr>)
        (Some (max_default active)) (max_default active) 0 loc loc
        (Some \<lparr>t1_device = dev, t1_dtype = Int32, t1_elems = replicate (length active) 0\<rparr>)
        (Some \<lparr>t2_device = dev, t2_dtype = Int32, t2_width = 0, t2_rows = replicate (length active) []\<rparr>)
        False None None)"

definition decode_view :: "LayerGroupBlockPlan \<Rightarrow> nat list \<Rightarrow> 'd \<Rightarrow> 'd XFormersMetadata" where
  "decode_view pl decs dev =
     XFormersMetadata 0 0 (length decs) (int (sum_list decs))
       \<lparr>t1_device = dev, t1_dtype = Int64, t1_elems = map int (decode_slot_mapping pl)\<rparr> None
       (Some \<lparr>t1_device = dev, t1_dtype = Int32, t1_elems = map int decs\<rparr>) None 0 (max_default decs)
       None None None (Some (table_tensor dev (decode_block_tables pl))) False None None"

lemma sum_filter_zero: "sum_list (filter (\<lambda>n. n \<noteq> 0) xs) = sum_list (xs :: nat list)"
  by (induction xs) simp_all

lemma bnd_cumulative:
  "fits Int32 (int (sum_list lens)) \<Longrightarrow>
     bnd (cumulative_lengths lens dev) k s = k \<lparr>t1_device = dev, t1_dtype = Int32, t1_elems = starts lens\<rparr> s"
  by (rule bnd_Inr) (rule cumulative_lengths_ok)

definition slots_fit :: "LayerGroupBlockPlan \<Rightarrow> bool" where
  "slots_fit pl \<longleftrightarrow> list_all (\<lambda>x. fits Int64 (int x)) (recompute_slot_mapping pl) \<and>
     list_all (\<lambda>x. fits Int64 (int x)) (decode_slot_mapping pl) \<and>
     (\<forall>table \<in> set (decode_block_tables pl). list_all (\<lambda>b. fits Int32 (int b)) table)"

lemma bnd_layer_views:
  assumes "slots_fit pl" "fits Int32 (int (sum_list recs))"
  shows "bnd (layer_recompute_metadata pl recs (filter (\<lambda>n. n \<noteq> 0) recs)
      \<lparr>t1_device = dev, t1_dtype = Int32, t1_elems = starts (filter (\<lambda>n. n \<noteq> 0) recs)\<rparr> dev) k s =
    k (recompute_view pl recs dev) s"
    and "bnd (layer_decode_metadata pl decs \<lparr>t1_device = dev, t1_dtype = Int32, t1_elems = map int decs\<rparr> dev) h s =
    h (decode_view pl decs dev) s"
proof -
  have "list_all (\<lambda>d. fits Int32 (int d)) (filter (\<lambda>n. n \<noteq> 0) recs)"
    using fits_le [OF assms(2)] by (auto simp: list_all_iff intro!: member_le_sum_list)
  then have "layer_recompute_metadata pl recs (filter (\<lambda>n. n \<noteq> 0) recs)
      \<lparr>t1_device = dev, t1_dtype = Int32, t1_elems = starts (filter (\<lambda>n. n \<noteq> 0) recs)\<rparr> dev s =
    (Inr (recompute_view pl recs dev), s)"
    using assms(1)
    by (simp add: layer_recompute_metadata_def slots_fit_def bnd_tensor ret_apply recompute_view_def Let_def
        list.pred_map comp_def)
  then show "bnd (layer_recompute_metadata pl recs (filter (\<lambda>n. n \<noteq> 0) recs)
      \<lparr>t1_device = dev, t1_dtype = Int32, t1_elems = starts (filter (\<lambda>n. n \<noteq> 0) recs)\<rparr> dev) k s =
    k (recompute_view pl recs dev) s" by (rule bnd_Inr)
  have "layer_decode_metadata pl decs \<lparr>t1_device = dev, t1_dtype = Int32, t1_elems = map int decs\<rparr> dev s =
    (Inr (decode_view pl decs dev), s)"
    using assms(1)
    by (simp add: layer_decode_metadata_def slots_fit_def bnd_tensor bnd_tables ret_apply decode_view_def
        list.pred_map comp_def)
  then show "bnd (layer_decode_metadata pl decs \<lparr>t1_device = dev, t1_dtype = Int32, t1_elems = map int decs\<rparr> dev) h s =
    h (decode_view pl decs dev) s" by (rule bnd_Inr)
qed

lemma build_recompute_ok:
  assumes "length recs = length decs" "0 < lgs" "length plans = ceil_div nl lgs"
    and sizes: "\<forall>pl \<in> set plans. length (recompute_slot_mapping pl) = sum_list recs \<and>
      length (decode_slot_mapping pl) = length decs \<and> length (decode_block_tables pl) = length decs"
    and slots: "\<forall>pl \<in> set plans. slots_fit pl"
    and small: "fits Int32 (int (sum_list recs))" "list_all (\<lambda>d. fits Int32 (int d)) decs"
  shows "build_layerwise_partial_recompute_metadata plans recs decs nl lgs dev u =
    (Inr (map (\<lambda>l. recompute_view (plans ! (l div lgs)) recs dev) [0..<nl],
          map (\<lambda>l. decode_view (plans ! (l div lgs)) decs dev) [0..<nl]), u)"
proof -
  let ?active = "filter (\<lambda>n. n \<noteq> 0) recs"
  let ?loc = "\<lparr>t1_device = dev, t1_dtype = Int32, t1_elems = starts ?active\<rparr>"
  let ?lens = "\<lparr>t1_device = dev, t1_dtype = Int32, t1_elems = map int decs\<rparr>"
  have mem: "plans ! (l div lgs) \<in> set plans" "l div lgs < length plans" if "l < nl" for l
  proof -
    show "l div lgs < length plans"
      using less_ceil_div_iff [OF assms(2)] le_less_trans [OF div_times_less_eq_dividend that] assms(3) by simp
    then show "plans ! (l div lgs) \<in> set plans" by simp
  qed
  have "fold_each [0..<nl] ([], []) (\<lambda>(recs', decs') layer_idx.
       bnd (lift_err (\<lambda>_. nth_py plans (layer_idx div lgs))) (\<lambda>plan.
       sq (ensure (length (recompute_slot_mapping plan) = sum_list recs)
            (ValueError ''recompute slot mapping has the wrong size''))
      (sq (ensure (length (decode_slot_mapping plan) = length decs)
            (ValueError ''decode slot mapping has the wrong size''))
      (sq (ensure (length (decode_block_tables plan) = length decs)
            (ValueError ''decode block tables have the wrong size''))
      (bnd (layer_recompute_metadata plan recs ?active ?loc dev) (\<lambda>r.
       bnd (layer_decode_metadata plan decs ?lens dev) (\<lambda>d.
       ret (recs' @ [r], decs' @ [d])))))))) u =
    (Inr (foldl (\<lambda>(a, b) l. (a @ [recompute_view (plans ! (l div lgs)) recs dev],
        b @ [decode_view (plans ! (l div lgs)) decs dev])) ([], []) [0..<nl]), u)"
    by (rule fold_each_pure)
      (use mem sizes slots small(1) in \<open>auto simp: run_simps ret_apply bnd_layer_views simp del: neq0_conv\<close>)
  moreover have "fits Int32 (int (sum_list ?active))" using small(1) by (simp only: sum_filter_zero)
  ultimately show ?thesis
    using assms(1-3) small(2)
    by (simp add: build_layerwise_partial_recompute_metadata_def run_simps Let_def bnd_cumulative bnd_tensor
        list.pred_map comp_def ceil_div_def foldl_pair del: neq0_conv)
qed

section \<open>Properties\<close>

text \<open>
  C28. What the scheduler attaches to a decode batch is always accepted by the worker. Building the
  plans of any reachable map for any sequences either raises or returns, leaving the map's entries
  and free blocks as they were; when it returns, then with the evicted prefix lengths as recompute
  lengths the layer metadata is built without an exception: in every layer the slots and tables are
  those of the layer's plan, and the start locations are the exact prefix sums of the recomputed
  lengths, also in 32 bits.
\<close>

theorem recompute_metadata_complete:
  assumes "kv_reach m" "length decs = length ss" "\<forall>d \<in> set decs. d < 2 ^ 31"
    and "kv_num_physical_blocks m * kv_block_size m \<le> 2 ^ 31" "sum_list (map (evicted m) ss) < 2 ^ 31"
  shows "wp (build_layer_group_plans ss)
    (\<lambda>pls t. kv_rest t = kv_rest m \<and> kv_avail t = kv_avail m \<and>
       wp (build_layerwise_partial_recompute_metadata pls (map (evicted m) ss) decs (kv_num_layers m)
            (kv_layer_group_size m) dev)
         (\<lambda>(rs, ds) u'. u' = u \<and> length rs = kv_num_layers m \<and> length ds = kv_num_layers m \<and>
            (\<forall>l < kv_num_layers m. let pl = pls ! (l div kv_layer_group_size m) in
               t1_elems (xm_slot_mapping (rs ! l)) = map int (recompute_slot_mapping pl) \<and>
               map_option t1_elems (xm_query_start_loc (rs ! l)) =
                 Some (starts (filter (\<lambda>n. n \<noteq> 0) (map (evicted m) ss))) \<and>
               t1_elems (xm_slot_mapping (ds ! l)) = map int (decode_slot_mapping pl) \<and>
               xm_block_tables (ds ! l) = Some (table_tensor dev (decode_block_tables pl))))
         (\<lambda>_ _. False) u)
    (\<lambda>_ t. kv_rest t = kv_rest m \<and> kv_avail t = kv_avail m) m"
proof -
  have inv: "kv_inv m" using assms(1) by (rule kv_reach_inv)
  have lgs: "0 < kv_layer_group_size m" "0 < kv_block_size m"
    using inv by (simp_all add: kv_inv_def seqs_ok_def)
  have blocks: "kv_num_physical_blocks m \<le> 2 ^ 31"
    by (rule order_trans [OF _ assms(4)]) (use lgs in simp)
  have slots: "slots_fit pl" if "plan_fits m ss pl" for pl
    using that fits_nat [of "kv_num_physical_blocks m" Int32] blocks
      fits_nat [of "kv_num_physical_blocks m * kv_block_size m" Int64] assms(4)
    by (auto simp: plan_fits_def slots_fit_def list_all_iff)
  have sums: "fits Int32 (int (sum_list (map (evicted m) ss)))" "list_all (\<lambda>d. fits Int32 (int d)) decs"
    using assms(3,5) fits_nat [of "2 ^ 31" Int32] by (auto simp: list_all_iff)
  from wp_conj [OF build_plans_fit [OF inv, of ss] build_all_ok [OF inv, of ss]]
  show ?thesis
  proof (rule wp_mono)
    fix pls t
    assume P: "(length pls = kv_num_layer_groups m \<and> (\<forall>pl \<in> set pls. plan_fits m ss pl) \<and>
        kv_rest t = kv_rest m \<and> kv_avail t = kv_avail m) \<and>
      length pls = kv_num_layer_groups m \<and> kv_inv t \<and> kv_rest t = kv_rest m \<and> kv_avail t = kv_avail m"
    then have "build_layerwise_partial_recompute_metadata pls (map (evicted m) ss) decs (kv_num_layers m)
        (kv_layer_group_size m) dev u =
      (Inr (map (\<lambda>l. recompute_view (pls ! (l div kv_layer_group_size m)) (map (evicted m) ss) dev) [0..<kv_num_layers m],
            map (\<lambda>l. decode_view (pls ! (l div kv_layer_group_size m)) decs dev) [0..<kv_num_layers m]), u)"
      by (intro build_recompute_ok sums)
        (use assms(2) lgs slots kv_reach_groups [OF assms(1)] in \<open>auto simp: plan_fits_def\<close>)
    with P show "kv_rest t = kv_rest m \<and> kv_avail t = kv_avail m \<and>
       wp (build_layerwise_partial_recompute_metadata pls (map (evicted m) ss) decs (kv_num_layers m)
            (kv_layer_group_size m) dev)
         (\<lambda>(rs, ds) u'. u' = u \<and> length rs = kv_num_layers m \<and> length ds = kv_num_layers m \<and>
            (\<forall>l < kv_num_layers m. let pl = pls ! (l div kv_layer_group_size m) in
               t1_elems (xm_slot_mapping (rs ! l)) = map int (recompute_slot_mapping pl) \<and>
               map_option t1_elems (xm_query_start_loc (rs ! l)) =
                 Some (starts (filter (\<lambda>n. n \<noteq> 0) (map (evicted m) ss))) \<and>
               t1_elems (xm_slot_mapping (ds ! l)) = map int (decode_slot_mapping pl) \<and>
               xm_block_tables (ds ! l) = Some (table_tensor dev (decode_block_tables pl))))
         (\<lambda>_ _. False) u"
      by (simp add: wp_def recompute_view_def decode_view_def Let_def del: neq0_conv)
  qed blast
qed

theorem recompute_metadata_complete_witness:
  "\<exists>pls rs ds. fst (build_layer_group_plans [2, 0] demo_map) = Inr pls \<and>
     fst (build_layerwise_partial_recompute_metadata pls [2, 0] [5, 5] 8 4 () ()) = Inr (rs, ds) \<and>
     map_option t1_elems (xm_query_start_loc (rs ! 7)) = Some [0, 2]"
proof -
  have dims: "kv_num_layers demo_map = 8" "kv_layer_group_size demo_map = 4" "kv_block_size demo_map = 2"
    "kv_num_physical_blocks demo_map = 8" by code_simp+
  have ev: "evicted demo_map 2 = 2" "evicted demo_map 0 = 0" by code_simp+
  have ok: "\<exists>pls. fst (build_layer_group_plans [2, 0] demo_map) = Inr pls"
  proof -
    have "(case fst (build_layer_group_plans [2, 0] demo_map) of Inr pls \<Rightarrow> True | Inl e \<Rightarrow> False)" by code_simp
    then show ?thesis by (auto split: sum.splits)
  qed
  have st: "starts [2] = [0, 2]" by code_simp
  from ok obtain pls where pls: "fst (build_layer_group_plans [2, 0] demo_map) = Inr pls" by blast
  from recompute_metadata_complete [OF demo_reach, of "[5, 5]" "[2, 0]" "()" "()"] pls
  have "wp (build_layerwise_partial_recompute_metadata pls [2, 0] [5, 5] 8 4 ())
      (\<lambda>(rs, ds) _. map_option t1_elems (xm_query_start_loc (rs ! 7)) = Some [0, 2]) (\<lambda>_ _. False) ()"
    by (cases "build_layer_group_plans [2, 0] demo_map")
      (auto simp: wp_def [of "build_layer_group_plans [2, 0]"] dims ev st Let_def elim!: wp_mono)
  then show ?thesis using pls by (auto simp: wp_def split: prod.splits sum.splits)
qed

lemma keeps_collect [keeps_intros]: "(\<And>x. keeps f (h x)) \<Longrightarrow> keeps f (collect xs h)"
proof (induction xs)
  case (Cons x xs)
  then show ?case unfolding collect.simps by (intro keeps_intros) auto
qed (simp add: keeps_intros)

lemma keeps_case_prod_app [keeps_intros]:
  "(\<And>x y. keeps f (k x y z)) \<Longrightarrow> keeps f ((case p of (x, y) \<Rightarrow> k x y) z)"
  by (cases p) simp

lemma keeps_build: "keeps (\<lambda>s. s) (build_layerwise_partial_recompute_metadata plans recs decs nl lgs dev)"
  unfolding build_layerwise_partial_recompute_metadata_def cumulative_lengths_def torch_tensor_def
    layer_recompute_metadata_def layer_decode_metadata_def make_block_tables_def
  by (intro keeps_intros)

text \<open>What the metadata of one plan looks like when it is built.\<close>

lemma wp_layer_views:
  "wp (layer_recompute_metadata pl recs active loc dev)
     (\<lambda>r _. t1_elems (xm_slot_mapping r) = map int (recompute_slot_mapping pl)) (\<lambda>_ _. True) s"
  "wp (layer_decode_metadata pl decs lens dev)
     (\<lambda>d _. t1_elems (xm_slot_mapping d) = map int (decode_slot_mapping pl)) (\<lambda>_ _. True) s"
  unfolding layer_recompute_metadata_def layer_decode_metadata_def wp_bnd wp_torch_tensor
  by (auto simp: wp_ret intro: wp_mono [OF wp_True])

lemma if_bool: "(b \<Longrightarrow> x) \<Longrightarrow> (\<not> b \<Longrightarrow> y) \<Longrightarrow> (if b then x else y)"
  by simp

lemma build_one_plan:
  "wp (build_layerwise_partial_recompute_metadata [pl] recs decs 1 1 dev)
    (\<lambda>(rs, ds) _. \<exists>r d. rs = [r] \<and> ds = [d] \<and>
       length (recompute_slot_mapping pl) = sum_list recs \<and>
       t1_elems (xm_slot_mapping r) = map int (recompute_slot_mapping pl) \<and>
       t1_elems (xm_slot_mapping d) = map int (decode_slot_mapping pl)) (\<lambda>_ _. True) s"
  (is "wp _ ?Q ?E s")
proof -
  let ?active = "filter (\<lambda>n. n \<noteq> 0) recs"
  have views: "wp (bnd (layer_recompute_metadata pl recs ?active loc dev) (\<lambda>r.
      bnd (layer_decode_metadata pl decs lens dev) (\<lambda>d. ret ([r], [d])))) ?Q ?E t"
    if "length (recompute_slot_mapping pl) = sum_list recs" for loc lens t
    unfolding wp_bnd
    by (rule wp_mono [OF wp_layer_views(1)], rule wp_mono [OF wp_layer_views(2)])
      (use that in \<open>simp_all add: wp_ret\<close>)
  have body: "wp (fold_each [0..<1] ([], []) (\<lambda>(recs', decs') layer_idx.
       bnd (lift_err (\<lambda>_. nth_py [pl] (layer_idx div 1))) (\<lambda>plan.
       sq (ensure (length (recompute_slot_mapping plan) = sum_list recs)
            (ValueError ''recompute slot mapping has the wrong size''))
      (sq (ensure (length (decode_slot_mapping plan) = length decs)
            (ValueError ''decode slot mapping has the wrong size''))
      (sq (ensure (length (decode_block_tables plan) = length decs)
            (ValueError ''decode block tables have the wrong size''))
      (bnd (layer_recompute_metadata plan recs ?active loc dev) (\<lambda>r.
       bnd (layer_decode_metadata plan decs lens dev) (\<lambda>d.
       ret (recs' @ [r], decs' @ [d]))))))))) ?Q ?E t" for loc lens t
    using views by (simp add: wp_simps)
  show ?thesis
    unfolding build_layerwise_partial_recompute_metadata_def wp_sq wp_ensure Let_def wp_bnd
    by (rule if_bool | rule TrueI | rule body | rule wp_mono [OF wp_True])+
qed

text \<open>
  C29. The planner lends the temporary blocks of a layer group only while the body runs. Around any
  body that does not change the map itself, whether the plan cannot be made, the metadata is refused,
  the body raises or returns, the map ends with the entries and the free blocks it had; and a body
  that returns has run on metadata with one decode slot per sequence and pairwise different recompute
  slots, as many as the recompute lengths given to the planner add up to.
\<close>

theorem planner_leaves_no_trace:
  fixes dev :: 'd
  assumes "kv_reach m" "\<And>x t. snd (body x t) = t"
    and "LayerGroupMetadataPlanner_init ss recs decs dev = Inr planner"
  shows "wp (metadata_for_layer_group planner g body)
    (\<lambda>a t. kv_rest t = kv_rest m \<and> kv_avail t = kv_avail m \<and>
       (\<exists>r d u. body (r, d) u = (Inr a, u) \<and> distinct (t1_elems (xm_slot_mapping r)) \<and>
          length (t1_elems (xm_slot_mapping r)) = sum_list recs \<and>
          length (t1_elems (xm_slot_mapping d)) = length ss))
    (\<lambda>_ t. kv_rest t = kv_rest m \<and> kv_avail t = kv_avail m) m"
proof -
  have pl: "mp_seq_ids planner = ss" "mp_recompute_seq_lens planner = recs"
    "mp_decode_seq_lens planner = decs" "mp_device planner = dev"
    using assms(3) by (auto simp: LayerGroupMetadataPlanner_init_def split: if_splits)
  let ?body = "\<lambda>plan. bnd (build_layerwise_partial_recompute_metadata [plan] recs decs 1 1 dev) (\<lambda>(rs, ds).
       bnd (lift_err (\<lambda>_. nth_py rs 0)) (\<lambda>r. bnd (lift_err (\<lambda>_. nth_py ds 0)) (\<lambda>d. body (r, d))))"
  have kb: "keeps (\<lambda>s. s) (body x)" for x
    using assms(2) by (metis keepsI snd_conv)
  have keep: "keeps (\<lambda>s. s) (?body plan)" for plan
    by (intro keeps_intros keeps_build kb)
  have ran: "\<exists>r d u. body (r, d) u = (Inr a, u) \<and> distinct (t1_elems (xm_slot_mapping r)) \<and>
      length (t1_elems (xm_slot_mapping r)) = sum_list recs \<and> length (t1_elems (xm_slot_mapping d)) = length ss"
    if force: "plan_in_force m ss g plan t" and b: "?body plan t = (Inr a, t)" for plan t a
  proof -
    have "wp (?body plan) (\<lambda>a _. \<exists>r d. fst (body (r, d) t) = Inr a \<and>
        length (recompute_slot_mapping plan) = sum_list recs \<and>
        t1_elems (xm_slot_mapping r) = map int (recompute_slot_mapping plan) \<and>
        t1_elems (xm_slot_mapping d) = map int (decode_slot_mapping plan)) (\<lambda>_ _. True) t"
      unfolding wp_bnd
    proof (rule wp_mono [OF wp_conj [OF build_one_plan keeps_wp [OF keeps_build]]])
      fix x :: "'d XFormersMetadata list \<times> 'd XFormersMetadata list" and u :: kv_map
      assume "(case x of (rs, ds) \<Rightarrow> \<lambda>_. \<exists>r d. rs = [r] \<and> ds = [d] \<and>
         length (recompute_slot_mapping plan) = sum_list recs \<and>
         t1_elems (xm_slot_mapping r) = map int (recompute_slot_mapping plan) \<and>
         t1_elems (xm_slot_mapping d) = map int (decode_slot_mapping plan)) u \<and> u = t"
      then show "wp (case x of (rs, ds) \<Rightarrow>
          bnd (lift_err (\<lambda>_. nth_py rs 0)) (\<lambda>r. bnd (lift_err (\<lambda>_. nth_py ds 0)) (\<lambda>d. body (r, d))))
        (\<lambda>a _. \<exists>r d. fst (body (r, d) t) = Inr a \<and>
          length (recompute_slot_mapping plan) = sum_list recs \<and>
          t1_elems (xm_slot_mapping r) = map int (recompute_slot_mapping plan) \<and>
          t1_elems (xm_slot_mapping d) = map int (decode_slot_mapping plan)) (\<lambda>_ _. True) u"
        by (auto simp: wp_bnd wp_lift_err nth_py_def) (auto simp: wp_def split: prod.splits sum.splits, metis fst_conv)
    qed simp
    from wp_Inr [OF this b] obtain r d where rd: "fst (body (r, d) t) = Inr a"
      "length (recompute_slot_mapping plan) = sum_list recs"
      "t1_elems (xm_slot_mapping r) = map int (recompute_slot_mapping plan)"
      "t1_elems (xm_slot_mapping d) = map int (decode_slot_mapping plan)" by blast
    moreover have "body (r, d) t = (Inr a, t)" using rd(1) assms(2) [of "(r, d)" t] by (metis prod.collapse)
    moreover have "distinct (recompute_slot_mapping plan)" "length (decode_slot_mapping plan) = length ss"
      using force by (auto simp: plan_in_force_def plan_rows_def dest: plan_slots_distinct)
    ultimately show ?thesis by (intro exI [where x = r] exI [where x = d]) (auto simp: distinct_map)
  qed
  have lease: "metadata_for_layer_group planner g body = lease_layer_group_plan ss g ?body"
    by (simp add: metadata_for_layer_group_def pl)
  show ?thesis
    unfolding lease
    by (rule wp_mono [OF lease_ok [OF kv_reach_inv [OF assms(1)]]])
      (use keeps_snd [OF keep] ran in blast)+
qed

definition demo_planner :: "unit LayerGroupMetadataPlanner" where
  "demo_planner = \<lparr>mp_seq_ids = [2, 0], mp_recompute_seq_lens = [2, 0], mp_decode_seq_lens = [5, 5], mp_device = ()\<rparr>"

theorem planner_leaves_no_trace_witness:
  "case metadata_for_layer_group demo_planner 1 (\<lambda>(r, d). ret (t1_elems (xm_slot_mapping r))) demo_map of
     (a, t) \<Rightarrow> a = Inr [10, 11] \<and> kv_rest t = kv_rest demo_map \<and> kv_avail t = kv_avail demo_map"
proof -
  let ?run = "metadata_for_layer_group demo_planner 1 (\<lambda>(r, d). ret (t1_elems (xm_slot_mapping r))) demo_map"
  have a: "fst ?run = Inr [10, 11]" by code_simp
  have "LayerGroupMetadataPlanner_init [2, 0] [2, 0] [5, 5] () = Inr demo_planner"
    by (simp add: LayerGroupMetadataPlanner_init_def demo_planner_def)
  from planner_leaves_no_trace [OF demo_reach _ this, of "\<lambda>(r, d). ret (t1_elems (xm_slot_mapping r))" 1] a
  show ?thesis by (auto simp: wp_def ret_def split: prod.splits sum.splits)
qed

text \<open>
  C30. One attention call for recompute and decode. The combined metadata hands the prefill kernels
  the recompute metadata itself and the decode kernels the decode metadata, in which only the list of
  sequence lengths is replaced by the recompute side's. The cached views are needed: cutting the
  views out of the combined tensors would give the same slots and lengths on both sides, and the
  decode side its block tables, but the prefill view would have block tables of the decode width.
\<close>

theorem combined_views:
  assumes "combine_partial_recompute_metadata rec dec s = (Inr c, s')"
    and "0 < xm_num_prefills rec" "0 < xm_num_decode_tokens dec"
    and "length (t1_elems (xm_slot_mapping rec)) = xm_num_prefill_tokens rec"
    and "map_option (length \<circ> t1_elems) (xm_seq_lens_tensor rec) = Some (xm_num_prefills rec)"
    and "map_option (length \<circ> t2_rows) (xm_block_tables dec) = Some (xm_num_decode_tokens dec)"
  shows "s' = s \<and> fst (prefill_metadata c) = Inr (Some rec) \<and>
    fst (decode_metadata c) = Inr (Some (xm_set_seq_lens (xm_seq_lens rec) dec)) \<and>
    (\<exists>v. fst (decode_metadata (xm_set_cached None None c)) = Inr (Some v) \<and>
       t1_elems (xm_slot_mapping v) = t1_elems (xm_slot_mapping dec) \<and>
       map_option t1_elems (xm_seq_lens_tensor v) = map_option t1_elems (xm_seq_lens_tensor dec) \<and>
       map_option t2_rows (xm_block_tables v) = map_option t2_rows (xm_block_tables dec)) \<and>
    (\<forall>v. fst (prefill_metadata (xm_set_cached None None c)) = Inr (Some v) \<longrightarrow>
       t1_elems (xm_slot_mapping v) = t1_elems (xm_slot_mapping rec) \<and>
       map_option t1_elems (xm_seq_lens_tensor v) = map_option t1_elems (xm_seq_lens_tensor rec) \<and>
       map_option t2_width (xm_block_tables v) = map_option t2_width (xm_block_tables dec))"
proof -
  obtain rl dl tb where some: "xm_seq_lens_tensor rec = Some rl" "xm_seq_lens_tensor dec = Some dl"
    "xm_block_tables dec = Some tb" and len: "length (t1_elems rl) = xm_num_prefills rec"
    "length (t2_rows tb) = xm_num_decode_tokens dec"
    using assms(1,5,6)
    by (auto simp: combine_partial_recompute_metadata_def sq_def bnd_def ensure_def ret_def throw_def
        split: option.splits if_splits)
  have "\<exists>slots lens. s' = s \<and> t1_elems slots = t1_elems (xm_slot_mapping rec) @ t1_elems (xm_slot_mapping dec) \<and>
    t1_elems lens = t1_elems rl @ t1_elems dl \<and>
    c = XFormersMetadata (xm_num_prefills rec) (xm_num_prefill_tokens rec) (xm_num_decode_tokens dec)
      (xm_total_seq_len rec + xm_total_seq_len dec) slots (xm_seq_lens rec) (Some lens)
      (xm_max_query_len rec) (xm_max_prefill_seq_len rec) (xm_max_decode_seq_len dec)
      (xm_query_start_loc rec) (xm_seq_start_loc rec) (xm_context_lens_tensor rec)
      (Some (tb\<lparr>t2_rows := replicate (xm_num_prefills rec) (replicate (t2_width tb) 0) @ t2_rows tb\<rparr>))
      False (Some rec) (Some dec)"
    using assms(1) len(2)
    by (auto simp: combine_partial_recompute_metadata_def some sq_def bnd_def ensure_def ret_def throw_def
        assign_rows_def torch_cat_def Let_def split: if_splits)
  then obtain slots lens where st: "s' = s"
    and cat: "t1_elems slots = t1_elems (xm_slot_mapping rec) @ t1_elems (xm_slot_mapping dec)"
      "t1_elems lens = t1_elems rl @ t1_elems dl"
    and c: "c = XFormersMetadata (xm_num_prefills rec) (xm_num_prefill_tokens rec) (xm_num_decode_tokens dec)
      (xm_total_seq_len rec + xm_total_seq_len dec) slots (xm_seq_lens rec) (Some lens)
      (xm_max_query_len rec) (xm_max_prefill_seq_len rec) (xm_max_decode_seq_len dec)
      (xm_query_start_loc rec) (xm_seq_start_loc rec) (xm_context_lens_tensor rec)
      (Some (tb\<lparr>t2_rows := replicate (xm_num_prefills rec) (replicate (t2_width tb) 0) @ t2_rows tb\<rparr>))
      False (Some rec) (Some dec)"
    by blast
  show ?thesis
    unfolding c
    using assms(2-4) len cat some st
    by (auto simp: prefill_metadata_def decode_metadata_def bnd_def gets_def ret_def sq_def modify_def throw_def
        Let_def t1_take_def t1_drop_def t2_take_def t2_drop_def split: option.splits)
qed

definition demo_plan :: LayerGroupBlockPlan where
  "demo_plan = \<lparr>recompute_slot_mapping = [10, 11], decode_slot_mapping = [8, 4], decode_block_tables = [[5, 3, 4], [0, 1, 2]]\<rparr>"

theorem combined_views_witness:
  "case combine_partial_recompute_metadata (recompute_view demo_plan [2, 0] ()) (decode_view demo_plan [5, 5] ()) () of
     (Inr c, _) \<Rightarrow> fst (prefill_metadata c) = Inr (Some (recompute_view demo_plan [2, 0] ())) \<and>
       t1_elems (xm_slot_mapping c) = [10, 11, 8, 4]
   | (Inl e, _) \<Rightarrow> False"
proof -
  let ?c = "combine_partial_recompute_metadata (recompute_view demo_plan [2, 0] ()) (decode_view demo_plan [5, 5] ()) ()"
  have "case fst ?c of Inr c \<Rightarrow> t1_elems (xm_slot_mapping c) = [10, 11, 8, 4] | Inl e \<Rightarrow> False" by code_simp
  then obtain c where c: "?c = (Inr c, ())" "t1_elems (xm_slot_mapping c) = [10, 11, 8, 4]"
    by (cases ?c) (auto split: sum.splits)
  from combined_views [OF c(1)] c show ?thesis
    by (simp add: recompute_view_def decode_view_def demo_plan_def Let_def table_tensor_def)
qed

end
