(* ===== verification/Ellm_Swap_Facts.thy ===== *)
theory Ellm_Swap_Facts
  imports Ellm_Append_Facts Ellm_Recompute_Facts
begin

text \<open>
  Eviction by cache ratio and swapping in the eLLM block manager: how many blocks an eviction keeps,
  what a swap-out moves and records, and that a swap-in brings it back.
\<close>

section \<open>Evicting to a cache ratio\<close>

definition blocks_kept :: "nat \<Rightarrow> nat \<Rightarrow> int \<Rightarrow> nat" where
  "blocks_kept num_blocks num_layers cached_layers =
     max 1 (ceil_div (num_blocks * nat (min (max cached_layers 0) (int num_layers))) num_layers)"

lemma blocks_kept_le:
  assumes "0 < num_blocks" "0 < num_layers"
  shows "blocks_kept num_blocks num_layers c \<le> num_blocks"
proof -
  let ?c = "nat (min (max c 0) (int num_layers))"
  have "?c \<le> num_layers" by linarith
  then have "num_blocks * ?c \<le> num_blocks * num_layers" by simp
  then have "ceil_div (num_blocks * ?c) num_layers \<le> num_blocks"
    using ceil_div_le_iff [OF assms(2)] by simp
  then show ?thesis using assms(1) by (simp add: blocks_kept_def)
qed

lemma evict_ratio_ok:
  fixes c :: int
  assumes ok: "em_ok b" and L: "kvL (em_cache_map b) (seq_id s) = Some (seq_get_len s)"
    and P: "kvP (em_cache_map b) (seq_id s) = Some p" and tmp: "kv_temporary_entries (em_cache_map b) = []"
  defines "num \<equiv> required_blocks b s"
  defines "kept \<equiv> blocks_kept num (em_num_layers b) c"
  shows "wp (em_evict_to_cached_layer_ratio s c)
    (\<lambda>k t. em_rest b t \<and> em_ok t \<and> p \<le> num - kept \<and> k = (num - kept) * em_block_size b \<and>
       kvL (em_cache_map t) = kvL (em_cache_map b) \<and>
       kvP (em_cache_map t) = (kvP (em_cache_map b))(seq_id s \<mapsto> num - kept) \<and>
       (\<forall>g < em_groups b. length (retained_tables (seq_id s) (em_cache_map t) ! g) = kept))
    (\<lambda>e t. t = b \<and> num - kept < p) b"
proof -
  note D = em_okD [OF ok]
  let ?m = "em_cache_map b" and ?n = "seq_get_len s"
  have seqs: "seqs_ok ?m" using D(1) by (simp add: kv_inv_def)
  have n: "0 < ?n" by (rule view_present(1) [OF seqs L P])
  have num: "num = ceil_div ?n (em_block_size b)" by (simp add: num_def required_blocks_def)
  have pos: "0 < num" using less_ceil_div_iff [OF D(3), of 0 ?n] n by (simp add: num)
  have kept: "kept \<le> num" "1 \<le> kept"
    unfolding kept_def using blocks_kept_le [OF pos D(6)] by (simp_all add: blocks_kept_def)
  have "(num - kept) * em_block_size b \<le> (num - 1) * em_block_size b" using kept(2) by (simp add: mult_le_mono1 diff_le_mono2)
  also have "\<dots> < ?n" using less_ceil_div_iff [OF D(3), of "num - 1" ?n] pos by (simp add: num)
  finally have target: "evict_target ?m ?n (int ((num - kept) * em_block_size b)) = num - kept"
    using D(2,3) by (simp add: evict_target_def max_absorb1 min_absorb1 del: of_nat_mult)
  have eq: "em_evict_to_cached_layer_ratio s c b =
      on_map (evict_prefix (seq_id s) (int ((num - kept) * em_block_size b))) b"
    by (simp add: em_evict_to_cached_layer_ratio_def run_simps Let_def kept_def blocks_kept_def num)
  have "wp (on_map (evict_prefix (seq_id s) (int ((num - kept) * em_block_size b))))
    (\<lambda>k t. em_rest b t \<and> em_ok t \<and> p \<le> num - kept \<and> k = (num - kept) * em_block_size b \<and>
       kvL (em_cache_map t) = kvL ?m \<and> kvP (em_cache_map t) = (kvP ?m)(seq_id s \<mapsto> num - kept) \<and>
       (\<forall>g < em_groups b. length (retained_tables (seq_id s) (em_cache_map t) ! g) = kept))
    (\<lambda>e t. t = b \<and> num - kept < p) b"
    unfolding wp_on_map
  proof (rule wp_mono [OF evict_prefix_ok [OF D(1)]])
    fix k t
    assume "\<exists>n p. kvL ?m (seq_id s) = Some n \<and> kvP ?m (seq_id s) = Some p \<and>
      p \<le> evict_target ?m n (int ((num - kept) * em_block_size b)) \<and> kv_temporary_entries ?m = [] \<and>
      k = evict_target ?m n (int ((num - kept) * em_block_size b)) * kv_block_size ?m \<and>
      kv_inv t \<and> kv_frame (seq_id s) ?m t \<and> kvL t = kvL ?m \<and>
      kvP t = (kvP ?m)(seq_id s \<mapsto> evict_target ?m n (int ((num - kept) * em_block_size b))) \<and>
      kv_temporary_entries t = [] \<and>
      (\<forall>l g. kvE False t (seq_id s) l g =
         (if l < evict_target ?m n (int ((num - kept) * em_block_size b)) then None else kvE False ?m (seq_id s) l g)) \<and>
      (\<forall>g. kv_avail ?m g \<le> kv_avail t g)"
    then have t: "p \<le> num - kept" "k = (num - kept) * em_block_size b" "kv_inv t" "kv_consts t = kv_consts ?m"
      "kvL t = kvL ?m" "kvP t = (kvP ?m)(seq_id s \<mapsto> num - kept)"
      using L P target D(2) by (auto simp: kv_frame_def)
    have "length (retained_tables (seq_id s) t ! g) = kept" if "g < em_groups b" for g
      using retained_tables_nth [OF t(3), of "seq_id s" ?n "num - kept" g] that t(4-6) L kept D(2)
      by (simp add: kv_consts_eq num)
    moreover have "em_rest b (b\<lparr>em_cache_map := t\<rparr>)" using t(4) by (auto simp: em_rest_def)
    ultimately show "em_rest b (b\<lparr>em_cache_map := t\<rparr>) \<and> em_ok (b\<lparr>em_cache_map := t\<rparr>) \<and> p \<le> num - kept \<and>
      k = (num - kept) * em_block_size b \<and> kvL (em_cache_map (b\<lparr>em_cache_map := t\<rparr>)) = kvL ?m \<and>
      kvP (em_cache_map (b\<lparr>em_cache_map := t\<rparr>)) = (kvP ?m)(seq_id s \<mapsto> num - kept) \<and>
      (\<forall>g < em_groups b. length (retained_tables (seq_id s) (em_cache_map (b\<lparr>em_cache_map := t\<rparr>)) ! g) = kept)"
      using t em_ok_rest [OF ok] by simp
  next
    fix e t
    assume "t = ?m \<and> (case (kvL ?m (seq_id s), kvP ?m (seq_id s)) of
        (Some n, Some p) \<Rightarrow> kv_temporary_entries ?m \<noteq> [] \<or>
          evict_target ?m n (int ((num - kept) * em_block_size b)) < p
      | _ \<Rightarrow> True)"
    then show "b\<lparr>em_cache_map := t\<rparr> = b \<and> num - kept < p" using L P tmp target by simp
  qed
  then show ?thesis by (simp add: wp_def eq)
qed

text \<open>
  C31. Evicting to a ratio of cached layers. For a sequence of \<open>num\<close> blocks the manager keeps exactly
  \<open>kept\<close> blocks in every layer group: at least one, never more than \<open>num\<close>, and, if more than one, the
  least number whose share of the blocks is at least the share of the cached layers. It returns the
  number of evicted tokens. The prefix can only grow: when fewer layers were cached before than now
  the call raises, which the scheduler does not catch, and nothing changes.
\<close>

theorem evict_keeps_ratio:
  fixes cached :: int
  assumes "em_ok b" "kvL (em_cache_map b) (seq_id s) = Some (seq_get_len s)"
    and "kvP (em_cache_map b) (seq_id s) = Some p" "kv_temporary_entries (em_cache_map b) = []"
    and "num = required_blocks b s" "layers = em_num_layers b" "0 \<le> cached" "cached \<le> int layers"
  shows "\<exists>kept \<ge> 1. kept \<le> num \<and> num * nat cached \<le> kept * layers \<and>
    (kept = 1 \<or> (kept - 1) * layers < num * nat cached) \<and>
    wp (em_evict_to_cached_layer_ratio s cached)
      (\<lambda>k t. em_ok t \<and> em_rest b t \<and> p \<le> num - kept \<and> k = (num - kept) * em_block_size b \<and>
         kvP (em_cache_map t) = (kvP (em_cache_map b))(seq_id s \<mapsto> num - kept) \<and>
         (\<forall>g < em_groups b. length (retained_tables (seq_id s) (em_cache_map t) ! g) = kept))
      (\<lambda>e t. t = b \<and> num - kept < p) b"
proof (intro exI conjI)
  let ?kept = "blocks_kept num layers cached"
  note D = em_okD [OF assms(1)]
  have L: "0 < layers" using D(6) assms(6) by simp
  have "0 < seq_get_len s"
    using view_present(1) [OF _ assms(2,3)] D(1) by (simp add: kv_inv_def)
  then have num: "0 < num"
    using less_ceil_div_iff [OF D(3), of 0] by (simp add: assms(5) required_blocks_def)
  have c: "nat (min (max cached 0) (int layers)) = nat cached" using assms(7,8) by simp
  have kept: "?kept = max 1 (ceil_div (num * nat cached) layers)" by (simp add: blocks_kept_def c)
  show "1 \<le> ?kept" by (simp add: blocks_kept_def)
  show "?kept \<le> num" by (rule blocks_kept_le [OF num L])
  show "num * nat cached \<le> ?kept * layers"
    using ceil_div_le_iff [OF L, of "num * nat cached" ?kept] by (simp add: blocks_kept_def c)
  show "?kept = 1 \<or> (?kept - 1) * layers < num * nat cached"
    using less_ceil_div_iff [OF L, of "?kept - 1" "num * nat cached"]
    by (auto simp: kept max_def)
  show "wp (em_evict_to_cached_layer_ratio s cached)
      (\<lambda>k t. em_ok t \<and> em_rest b t \<and> p \<le> num - ?kept \<and> k = (num - ?kept) * em_block_size b \<and>
         kvP (em_cache_map t) = (kvP (em_cache_map b))(seq_id s \<mapsto> num - ?kept) \<and>
         (\<forall>g < em_groups b. length (retained_tables (seq_id s) (em_cache_map t) ! g) = ?kept))
      (\<lambda>e t. t = b \<and> num - ?kept < p) b"
    unfolding assms(5,6) by (rule wp_mono [OF evict_ratio_ok [OF assms(1-4)]]) auto
qed

theorem evict_keeps_ratio_witness:
  "\<exists>kept. 1 \<le> kept \<and> kept \<le> 3 \<and> 3 * 4 \<le> kept * 8 \<and>
     fst (em_evict_to_cached_layer_ratio (demo_seq 0 5 RUNNING) 4 demo_em1) = Inr ((3 - kept) * 2)"
proof -
  let ?s = "demo_seq 0 5 RUNNING"
  have m: "kvL (em_cache_map demo_em1) (seq_id ?s) = Some (seq_get_len ?s)"
    "kvP (em_cache_map demo_em1) (seq_id ?s) = Some 0"
    "kv_temporary_entries (em_cache_map demo_em1) = []" "3 = required_blocks demo_em1 ?s" "8 = em_num_layers demo_em1"
    and bs: "em_block_size demo_em1 = 2"
    by code_simp+
  from evict_keeps_ratio [OF demo_em1_ready(1) m(1-5), of 4] obtain kept
    where k: "1 \<le> kept" "kept \<le> 3" "3 * nat 4 \<le> kept * 8"
    and w: "wp (em_evict_to_cached_layer_ratio ?s 4)
      (\<lambda>k t. em_ok t \<and> em_rest demo_em1 t \<and> 0 \<le> 3 - kept \<and> k = (3 - kept) * em_block_size demo_em1 \<and>
         kvP (em_cache_map t) = (kvP (em_cache_map demo_em1))(seq_id ?s \<mapsto> 3 - kept) \<and>
         (\<forall>g < em_groups demo_em1. length (retained_tables (seq_id ?s) (em_cache_map t) ! g) = kept))
      (\<lambda>e t. t = demo_em1 \<and> 3 - kept < 0) demo_em1" by auto
  have "wp (em_evict_to_cached_layer_ratio ?s 4) (\<lambda>k _. k = (3 - kept) * 2) (\<lambda>_ _. False) demo_em1"
    using w by (rule wp_mono) (simp_all add: bs)
  then have "fst (em_evict_to_cached_layer_ratio ?s 4 demo_em1) = Inr ((3 - kept) * 2)"
    by (auto simp: wp_def split: prod.splits sum.splits)
  with k show ?thesis by (intro exI [where x = kept]) simp
qed

section \<open>Swapping out\<close>

text \<open>The block tables of a known sequence are a query, and so is the check for CPU blocks.\<close>

abbreviation tables_of :: "ellm_manager \<Rightarrow> Sequence \<Rightarrow> nat list list" where
  "tables_of b s \<equiv> retained_tables (seq_id s) (em_cache_map b)"

lemma tables_query:
  assumes ok: "em_ok b" and L: "kvL (em_cache_map b) (seq_id s) \<noteq> None"
  shows "em_get_layer_group_block_tables s b = (Inr (tables_of b s), b)"
proof -
  have inv: "kv_inv (em_cache_map b)" using em_okD(1) [OF ok] .
  from L obtain n where n: "kvL (em_cache_map b) (seq_id s) = Some n" by blast
  moreover from n obtain p where p: "kvP (em_cache_map b) (seq_id s) = Some p"
    using kvL_None_iff [of "em_cache_map b" "seq_id s"] inv by (auto simp: kv_inv_def)
  ultimately have "on_map (get_retained_block_table (seq_id s) g) b =
      (Inr (case fst (get_retained_block_table (seq_id s) g (em_cache_map b)) of Inr t \<Rightarrow> t | Inl _ \<Rightarrow> []), b)"
    if "g < em_groups b" for g
    using get_retained_block_table_ok [OF inv n p that] by (simp add: on_map_def)
  then have "collect [0..<em_groups b] (\<lambda>g. on_map (get_retained_block_table (seq_id s) g)) b = (Inr (tables_of b s), b)"
    unfolding retained_tables_def by (intro collect_pure) simp
  then show ?thesis
    by (simp add: em_get_layer_group_block_tables_def layer_groups_def bnd_def gets_def)
qed

definition group_tables :: "ellm_manager \<Rightarrow> Sequence list \<Rightarrow> nat \<Rightarrow> nat" where
  "group_tables b ss g = sum_list (map (\<lambda>s. length (tables_of b s ! g)) ss)"

lemma swap_needs:
  assumes ok: "em_ok b" and known: "\<forall>s \<in> set ss. kvL (em_cache_map b) (seq_id s) \<noteq> None"
    and "length required = em_groups b"
  shows "fold_each ss required (\<lambda>required s.
      bnd (em_get_layer_group_block_tables s) (\<lambda>tables. lift_err (\<lambda>_. add_table_lens required tables))) b =
    (Inr (map (\<lambda>g. required ! g + group_tables b ss g) [0..<em_groups b]), b)"
  using assms(2,3)
proof (induction ss arbitrary: required)
  case Nil
  then show ?case using map_nth [of required] by (simp add: group_tables_def ret_def)
next
  case (Cons s ss)
  let ?r = "map (\<lambda>g. required ! g + length (tables_of b s ! g)) [0..<em_groups b]"
  have "bnd (em_get_layer_group_block_tables s) (\<lambda>tables. lift_err (\<lambda>_. add_table_lens required tables)) b = (Inr ?r, b)"
    using tables_query [OF ok, of s] Cons.prems
    by (simp add: bnd_def lift_err_def add_table_lens_def)
  moreover have "fold_each ss ?r (\<lambda>required s.
      bnd (em_get_layer_group_block_tables s) (\<lambda>tables. lift_err (\<lambda>_. add_table_lens required tables))) b =
    (Inr (map (\<lambda>g. ?r ! g + group_tables b ss g) [0..<em_groups b]), b)"
    by (rule Cons.IH) (use Cons.prems in auto)
  ultimately show ?case by (simp add: bnd_def group_tables_def add.assoc)
qed

definition cpu_room :: "ellm_manager \<Rightarrow> Sequence list \<Rightarrow> bool" where
  "cpu_room b ss \<longleftrightarrow> (\<forall>g < em_groups b. group_tables b ss g \<le> length (em_free_cpu_blocks b ! g))"

lemma em_can_swap_out_ok:
  assumes ok: "em_ok b" and known: "\<forall>s \<in> set (get_seqs (Some RUNNING) grp). kvL (em_cache_map b) (seq_id s) \<noteq> None"
  shows "em_can_swap_out grp b = (Inr (cpu_room b (get_seqs (Some RUNNING) grp)), b)"
proof -
  let ?ss = "get_seqs (Some RUNNING) grp" and ?G = "em_groups b"
  have "fold_each ?ss (map (\<lambda>_. 0) [0..<?G]) (\<lambda>required s.
      bnd (em_get_layer_group_block_tables s) (\<lambda>tables. lift_err (\<lambda>_. add_table_lens required tables))) b =
    (Inr (map (group_tables b ?ss) [0..<?G]), b)"
    using swap_needs [OF ok known, of "map (\<lambda>_. 0) [0..<?G]"]
    by (simp cong: map_cong)
  moreover have "all_each [0..<?G] (\<lambda>g. bnd (lift_err (\<lambda>b. nth_py (em_free_cpu_blocks b) g)) (\<lambda>free.
      ret (map (group_tables b ?ss) [0..<?G] ! g \<le> length free))) b =
    (Inr (\<forall>g \<in> set [0..<?G]. group_tables b ?ss g \<le> length (em_free_cpu_blocks b ! g)), b)"
    using em_okD(5) [OF ok] by (intro all_each_pure) (simp add: run_lift_Inr ret_def)
  ultimately show ?thesis
    by (simp add: em_can_swap_out_def run_simps layer_groups_def bnd_def cpu_room_def gets_def Ball_def)
qed

text \<open>One table, all tables of a sequence, all sequences: CPU blocks come off the queues' fronts.\<close>

lemma swap_out_table:
  assumes "g < length (em_free_cpu_blocks b)" "length table \<le> length (em_free_cpu_blocks b ! g)"
  shows "\<exists>al. fold_each table acc (swap_out_block g) (b, l) =
    (Inr (acc @ take (length table) (em_free_cpu_blocks b ! g)),
     (b\<lparr>em_free_cpu_blocks := (em_free_cpu_blocks b)[g := drop (length table) (em_free_cpu_blocks b ! g)]\<rparr>,
      l\<lparr>so_allocated := al, so_mappings := so_mappings l @
         map (\<lambda>(x, y). (g, x, y)) (zip table (take (length table) (em_free_cpu_blocks b ! g)))\<rparr>))"
  using assms
proof (induction table arbitrary: acc b l)
  case Nil
  then show ?case by (intro exI [where x = "so_allocated l"]) (simp add: ret_def)
next
  case (Cons x table)
  obtain c cs where free: "em_free_cpu_blocks b ! g = c # cs"
    using Cons.prems by (cases "em_free_cpu_blocks b ! g") auto
  let ?b = "b\<lparr>em_free_cpu_blocks := (em_free_cpu_blocks b)[g := cs]\<rparr>"
  let ?l = "l\<lparr>so_allocated := so_allocated l @ [(g, c)], so_mappings := so_mappings l @ [(g, x, c)]\<rparr>"
  have "swap_out_block g acc x (b, l) = (Inr (acc @ [c]), (?b, ?l))"
    using Cons.prems free
    by (simp add: swap_out_block_def cpu_popleft_def on_fst_def on_snd_def bnd_def lift_err_def sq_def
        modify_def ret_def)
  moreover from Cons.IH [of ?b "acc @ [c]" ?l] Cons.prems free
  obtain al where "fold_each table (acc @ [c]) (swap_out_block g) (?b, ?l) =
    (Inr ((acc @ [c]) @ take (length table) cs),
     (?b\<lparr>em_free_cpu_blocks := (em_free_cpu_blocks ?b)[g := drop (length table) cs]\<rparr>,
      ?l\<lparr>so_allocated := al, so_mappings := so_mappings ?l @
         map (\<lambda>(x, y). (g, x, y)) (zip table (take (length table) cs))\<rparr>))" by auto
  ultimately show ?case using free by (intro exI [where x = al]) (simp add: bnd_def)
qed

definition cpu_take :: "nat list list \<Rightarrow> nat list list \<Rightarrow> nat list list" where
  "cpu_take tables free = map2 (\<lambda>table cs. take (length table) cs) tables free"

definition cpu_drop :: "nat list list \<Rightarrow> nat list list \<Rightarrow> nat list list" where
  "cpu_drop tables free = map2 (\<lambda>table cs. drop (length table) cs) tables free"

definition triples_from :: "nat \<Rightarrow> nat list list \<Rightarrow> nat list list \<Rightarrow> (nat \<times> nat \<times> nat) list" where
  "triples_from j srcs dsts = concat (map (\<lambda>(g, src, dst). map (\<lambda>(x, y). (g, x, y)) (zip src dst))
     (zip [j..<j + min (length srcs) (length dsts)] (zip srcs dsts)))"

lemma triples_from_Cons:
  "triples_from j (src # srcs) (dst # dsts) =
     map (\<lambda>(x, y). (j, x, y)) (zip src dst) @ triples_from (Suc j) srcs dsts"
  by (simp add: triples_from_def upt_conv_Cons del: upt_Suc)

lemma swap_triples_from: "swap_triples = triples_from 0"
  by (simp add: fun_eq_iff swap_triples_def triples_from_def)

lemma swap_out_tables:
  assumes "free = em_free_cpu_blocks b" "j + length ts \<le> length free"
    and "\<forall>i < length ts. length (ts ! i) \<le> length (free ! (j + i))"
  shows "\<exists>al. collect (zip [j..<j + length ts] ts) (\<lambda>(g, table). fold_each table [] (swap_out_block g)) (b, l) =
    (Inr (cpu_take ts (drop j free)),
     (b\<lparr>em_free_cpu_blocks := take j free @ cpu_drop ts (drop j free) @ drop (j + length ts) free\<rparr>,
      l\<lparr>so_allocated := al, so_mappings := so_mappings l @ triples_from j ts (cpu_take ts (drop j free))\<rparr>))"
  using assms
proof (induction ts arbitrary: j b l free)
  case Nil
  then show ?case
    by (intro exI [where x = "so_allocated l"]) (simp add: ret_def cpu_take_def cpu_drop_def triples_from_def)
next
  case (Cons t ts)
  let ?F = "free ! j"
  let ?free = "free[j := drop (length t) ?F]"
  let ?b = "b\<lparr>em_free_cpu_blocks := ?free\<rparr>"
  have j: "j < length free" using Cons.prems by simp
  have dropj: "drop j free = ?F # drop (Suc j) free" using j by (simp add: Cons_nth_drop_Suc)
  have takej: "take (Suc j) ?free = take j free @ [drop (length t) ?F]" using j by (simp add: take_Suc_conv_app_nth)
  have lt: "length t \<le> length ?F" using Cons.prems(3) by (elim allE [of _ 0]) simp
  from swap_out_table [of j b t "[]" l] j lt Cons.prems(1)
  obtain al where head: "fold_each t [] (swap_out_block j) (b, l) = (Inr (take (length t) ?F), (?b,
      l\<lparr>so_allocated := al, so_mappings := so_mappings l @ map (\<lambda>(x, y). (j, x, y)) (zip t (take (length t) ?F))\<rparr>))"
    (is "_ = (_, (_, ?l))") by auto
  have sub: "\<forall>i < length ts. length (ts ! i) \<le> length (?free ! (Suc j + i))"
    using Cons.prems(3) by (auto simp: nth_list_update split: if_splits)
  from Cons.IH [of ?free ?b "Suc j" ?l] Cons.prems(2) sub
  obtain al' where "collect (zip [Suc j..<Suc j + length ts] ts) (\<lambda>(g, table). fold_each table [] (swap_out_block g)) (?b, ?l) =
    (Inr (cpu_take ts (drop (Suc j) ?free)),
     (?b\<lparr>em_free_cpu_blocks := take (Suc j) ?free @ cpu_drop ts (drop (Suc j) ?free) @ drop (Suc j + length ts) ?free\<rparr>,
      ?l\<lparr>so_allocated := al', so_mappings := so_mappings ?l @ triples_from (Suc j) ts (cpu_take ts (drop (Suc j) ?free))\<rparr>))"
    by auto
  then show ?case
    using head takej
    by (intro exI [where x = al'])
      (simp add: upt_conv_Cons dropj cpu_take_def cpu_drop_def triples_from_Cons bnd_def ret_def del: upt_Suc)
qed

lemma length_cpu [simp]:
  "length (cpu_take ts free) = min (length ts) (length free)"
  "length (cpu_drop ts free) = min (length ts) (length free)"
  by (simp_all add: cpu_take_def cpu_drop_def)

lemma nth_cpu [simp]:
  "g < length ts \<Longrightarrow> g < length free \<Longrightarrow> cpu_take ts free ! g = take (length (ts ! g)) (free ! g)"
  "g < length ts \<Longrightarrow> g < length free \<Longrightarrow> cpu_drop ts free ! g = drop (length (ts ! g)) (free ! g)"
  by (simp_all add: cpu_take_def cpu_drop_def)

definition swap_state :: "ellm_manager \<Rightarrow> Sequence \<Rightarrow> nat list list \<Rightarrow> nat \<times> nat \<times> nat list list" where
  "swap_state b s cpu = (the (kvL (em_cache_map b) (seq_id s)), evicted (em_cache_map b) (seq_id s), cpu)"

lemma swap_out_seq_ok:
  assumes ok: "em_ok b" and L: "kvL (em_cache_map b) (seq_id s) \<noteq> None"
    and room: "\<forall>g < em_groups b. length (tables_of b s ! g) \<le> length (em_free_cpu_blocks b ! g)"
  defines "free \<equiv> em_free_cpu_blocks b" and "ts \<equiv> tables_of b s"
  shows "\<exists>al. swap_out_seq s (b, l) =
    (Inr (), (b\<lparr>em_free_cpu_blocks := cpu_drop ts free\<rparr>,
      l\<lparr>so_allocated := al, so_mappings := so_mappings l @ swap_triples ts (cpu_take ts free),
        so_states := dset (seq_id s) (swap_state b s (cpu_take ts free)) (so_states l)\<rparr>))"
proof -
  from L obtain n where n: "kvL (em_cache_map b) (seq_id s) = Some n" by blast
  then obtain p where p: "kvP (em_cache_map b) (seq_id s) = Some p"
    using kvL_None_iff [of "em_cache_map b" "seq_id s"] em_okD(1) [OF ok] by (auto simp: kv_inv_def)
  have len: "length ts = em_groups b" "length free = em_groups b"
    using em_okD(5) [OF ok] by (simp_all add: ts_def free_def)
  have tabs: "on_fst (em_get_layer_group_block_tables s) (b, l) = (Inr ts, (b, l))"
    using tables_query [OF ok L] by (simp add: on_fst_def ts_def)
  have "\<forall>i < length ts. length (ts ! i) \<le> length (free ! (0 + i))"
    using room len by (simp add: ts_def free_def)
  from swap_out_tables [of free b 0 ts l, OF _ _ this] len
  obtain al where cpu: "collect (zip [0..<length ts] ts) (\<lambda>(g, table). fold_each table [] (swap_out_block g)) (b, l) =
    (Inr (cpu_take ts free), (b\<lparr>em_free_cpu_blocks := cpu_drop ts free\<rparr>,
      l\<lparr>so_allocated := al, so_mappings := so_mappings l @ swap_triples ts (cpu_take ts free)\<rparr>))"
    by (auto simp: free_def swap_triples_from)
  let ?b = "b\<lparr>em_free_cpu_blocks := cpu_drop ts free\<rparr>"
  let ?l = "l\<lparr>so_allocated := al, so_mappings := so_mappings l @ swap_triples ts (cpu_take ts free)\<rparr>"
  have reads: "on_fst (on_map (get_sequence_length (seq_id s))) (?b, ?l) = (Inr n, (?b, ?l))"
    "on_fst (on_map (get_num_evicted_tokens (seq_id s))) (?b, ?l) = (Inr (evicted (em_cache_map b) (seq_id s)), (?b, ?l))"
    using n p
    by (simp_all add: on_fst_def on_map_def get_sequence_length_def get_length_def get_num_evicted_tokens_def
        get_prefix_blocks_def bnd_def lift_err_def gets_def ret_def evicted_def kvL_def kvP_def)
  have "swap_out_seq s (b, l) = on_snd (modify (\<lambda>l. l\<lparr>so_states :=
      dset (seq_id s) (n, evicted (em_cache_map b) (seq_id s), cpu_take ts free) (so_states l)\<rparr>)) (?b, ?l)"
    unfolding swap_out_seq_def
    by (rule trans, rule bnd_Inr, rule tabs, rule trans, rule bnd_Inr, rule cpu,
        rule trans, rule bnd_Inr, rule reads(1), rule bnd_Inr, rule reads(2))
  then show ?thesis
    using n by (intro exI [where x = al]) (simp add: on_snd_def modify_def swap_state_def)
qed

text \<open>
  The plan of a swap-out as a function: the mappings, what is recorded for each sequence, and the
  CPU blocks that stay free.
\<close>

type_synonym swap_record = "nat \<times> nat \<times> nat \<times> nat list list"

fun out_plan ::
  "ellm_manager \<Rightarrow> Sequence list \<Rightarrow> nat list list \<Rightarrow>
   (nat \<times> nat \<times> nat) list \<times> swap_record list \<times> nat list list"
where
  "out_plan b [] free = ([], [], free)"
| "out_plan b (s # ss) free =
     (let ts = tables_of b s; cpu = cpu_take ts free; (ms, recs, rest) = out_plan b ss (cpu_drop ts free) in
      (swap_triples ts cpu @ ms, (seq_id s, swap_state b s cpu) # recs, rest))"

lemma out_plan_indep:
  "out_plan (b\<lparr>em_free_cpu_blocks := f\<rparr>) ss free = out_plan b ss free"
  by (induction ss arbitrary: free) (simp_all add: swap_state_def Let_def)

lemma swap_out_loop_ok:
  assumes "em_ok b" "\<forall>s \<in> set ss. kvL (em_cache_map b) (seq_id s) \<noteq> None" "cpu_room b ss"
    and "out_plan b ss (em_free_cpu_blocks b) = (ms, recs, rest)"
  shows "\<exists>al. for_each ss swap_out_seq (b, l) =
    (Inr (), (b\<lparr>em_free_cpu_blocks := rest\<rparr>,
      l\<lparr>so_allocated := al, so_mappings := so_mappings l @ ms,
        so_states := fold (\<lambda>(i, st). dset i st) recs (so_states l)\<rparr>))"
  using assms
proof (induction ss arbitrary: b l ms recs)
  case Nil
  then show ?case by (intro exI [where x = "so_allocated l"]) (simp add: for_each_def ret_def)
next
  case (Cons s ss)
  let ?free = "em_free_cpu_blocks b" and ?ts = "tables_of b s"
  let ?b = "b\<lparr>em_free_cpu_blocks := cpu_drop ?ts ?free\<rparr>"
  have len: "length ?free = em_groups b" using em_okD(5) [OF Cons.prems(1)] .
  have room: "length (?ts ! g) \<le> length (?free ! g)"
    "group_tables b ss g \<le> length (cpu_drop ?ts ?free ! g)" if "g < em_groups b" for g
    using Cons.prems(3) that len by (auto simp: cpu_room_def group_tables_def dest!: spec [of _ g])
  from swap_out_seq_ok [OF Cons.prems(1), of s l] Cons.prems(2) room(1)
  obtain al where head: "swap_out_seq s (b, l) = (Inr (), (?b,
      l\<lparr>so_allocated := al, so_mappings := so_mappings l @ swap_triples ?ts (cpu_take ?ts ?free),
        so_states := dset (seq_id s) (swap_state b s (cpu_take ?ts ?free)) (so_states l)\<rparr>))"
    (is "_ = (_, (_, ?l))") by auto
  obtain ms' recs' where plan: "out_plan b ss (cpu_drop ?ts ?free) = (ms', recs', rest)"
    and eq: "ms = swap_triples ?ts (cpu_take ?ts ?free) @ ms'"
      "recs = (seq_id s, swap_state b s (cpu_take ?ts ?free)) # recs'"
    using Cons.prems(4) by (auto simp: Let_def split: prod.splits)
  have "em_ok ?b" using Cons.prems(1) len by (simp add: em_ok_def)
  moreover have "cpu_room ?b ss" using room(2) by (simp add: cpu_room_def group_tables_def)
  ultimately obtain al' where "for_each ss swap_out_seq (?b, ?l) = (Inr (), (?b\<lparr>em_free_cpu_blocks := rest\<rparr>,
      ?l\<lparr>so_allocated := al', so_mappings := so_mappings ?l @ ms',
        so_states := fold (\<lambda>(i, st). dset i st) recs' (so_states ?l)\<rparr>))"
    using Cons.IH [of ?b ms' recs' ?l] Cons.prems(2) plan by (auto simp: out_plan_indep)
  then show ?case
    using head eq by (intro exI [where x = al']) (simp add: for_each_def bnd_def)
qed

lemma out_plan_ids: "out_plan b ss free = (ms, recs, rest) \<Longrightarrow> map fst recs = map seq_id ss"
  by (induction ss arbitrary: free ms recs) (auto simp: Let_def split: prod.splits)

lemma length_out_plan:
  "out_plan b ss free = (ms, recs, rest) \<Longrightarrow> length free = em_groups b \<Longrightarrow> length rest = em_groups b"
  by (induction ss arbitrary: free ms recs) (auto simp: Let_def split: prod.splits)

lemma map_of_fold_dset:
  "distinct (map fst recs) \<Longrightarrow> map_of (fold (\<lambda>(i, st). dset i st) recs d) = map_of d ++ map_of recs"
proof (induction recs arbitrary: d)
  case (Cons r recs)
  obtain i st where r: "r = (i, st)" by (cases r)
  then have "map_of recs i = None" using Cons.prems by (simp add: map_of_eq_None_iff)
  moreover have "map_of (fold (\<lambda>(i, st). dset i st) (r # recs) d) = map_of (dset i st d) ++ map_of recs"
    using Cons.IH [of "dset i st d"] Cons.prems by (simp add: r fun_upd_def)
  ultimately show ?case by (auto simp: r fun_eq_iff map_add_def split: option.split)
qed simp

definition dropped :: "nat set \<Rightarrow> kv_map \<Rightarrow> kv_map \<Rightarrow> bool" where
  "dropped ids m t \<longleftrightarrow> kv_inv t \<and> kv_consts t = kv_consts m \<and>
     (\<forall>i. kvL t i = (if i \<in> ids then None else kvL m i) \<and> kvP t i = (if i \<in> ids then None else kvP m i) \<and>
        (\<forall>tmp l g. kvE tmp t i l g = (if i \<in> ids then None else kvE tmp m i l g))) \<and>
     (\<forall>g. kv_avail m g \<le> kv_avail t g)"

text \<open>Everything but the map, the free CPU blocks and the records.\<close>

definition em_frame :: "ellm_manager \<Rightarrow> ellm_manager \<Rightarrow> bool" where
  "em_frame b t \<longleftrightarrow> em_block_size t = em_block_size b \<and> em_num_total_gpu_blocks t = em_num_total_gpu_blocks b \<and>
     em_num_total_cpu_blocks t = em_num_total_cpu_blocks b \<and> em_num_layers t = em_num_layers b \<and>
     em_layer_group_size t = em_layer_group_size b \<and> em_flatten_layers t = em_flatten_layers b \<and>
     em_watermark_blocks t = em_watermark_blocks b"

definition swapped_out :: "ellm_manager \<Rightarrow> nat set \<Rightarrow> (nat \<rightharpoonup> nat \<times> nat \<times> nat list list) \<Rightarrow> nat list list \<Rightarrow> ellm_manager \<Rightarrow> bool"
where
  "swapped_out b ids recs rest t \<longleftrightarrow> em_ok t \<and> dropped ids (em_cache_map b) (em_cache_map t) \<and>
     em_free_cpu_blocks t = rest \<and> map_of (em_swapped_sequences t) = map_of (em_swapped_sequences b) ++ recs |` ids \<and>
     em_frame b t"

lemma swap_out_record_ok:
  assumes J: "swapped_out b ids recs rest t" and r: "recs (seq_id s) = Some st"
  shows "wp (sq (modify (\<lambda>b. b\<lparr>em_swapped_sequences := dset (seq_id s) st (em_swapped_sequences b)\<rparr>))
      (on_map (free_sequence (seq_id s))))
    (\<lambda>_. swapped_out b (insert (seq_id s) ids) recs rest) (\<lambda>_ _. False) t"
proof -
  have ok: "em_ok t" using J by (simp add: swapped_out_def)
  let ?t = "t\<lparr>em_swapped_sequences := dset (seq_id s) st (em_swapped_sequences t)\<rparr>"
  have m: "kv_inv (em_cache_map ?t)" using em_okD(1) [OF ok] by simp
  show ?thesis
    unfolding wp_sq wp_modify wp_on_map
  proof (rule wp_mono [OF free_sequence_view [OF m]])
    fix x u
    assume "kv_inv u \<and> kv_consts u = kv_consts (em_cache_map ?t) \<and>
       kvL u = (kvL (em_cache_map ?t))(seq_id s := None) \<and> kvP u = (kvP (em_cache_map ?t))(seq_id s := None) \<and>
       (\<forall>tmp i l g. kvE tmp u i l g = (if i = seq_id s then None else kvE tmp (em_cache_map ?t) i l g)) \<and>
       (\<forall>g. kv_avail (em_cache_map ?t) g \<le> kv_avail u g)"
    then have u: "kv_inv u" "kv_consts u = kv_consts (em_cache_map t)" "kvL u = (kvL (em_cache_map t))(seq_id s := None)"
      "kvP u = (kvP (em_cache_map t))(seq_id s := None)"
      "\<forall>tmp i l g. kvE tmp u i l g = (if i = seq_id s then None else kvE tmp (em_cache_map t) i l g)"
      "\<forall>g. kv_avail (em_cache_map t) g \<le> kv_avail u g" by simp_all
    have "dropped ids (em_cache_map b) (em_cache_map t)" using J by (simp add: swapped_out_def)
    then have "dropped (insert (seq_id s) ids) (em_cache_map b) u"
      using u by (auto simp: dropped_def intro: order_trans)
    moreover have "map_of (dset (seq_id s) st (em_swapped_sequences t)) =
        map_of (em_swapped_sequences b) ++ recs |` insert (seq_id s) ids"
      using J r by (auto simp: swapped_out_def fun_eq_iff map_add_def restrict_map_def split: option.splits)
    moreover have "em_ok (?t\<lparr>em_cache_map := u\<rparr>)"
      using ok u(1,2) by (simp add: em_ok_def kv_consts_eq)
    ultimately show "swapped_out b (insert (seq_id s) ids) recs rest (?t\<lparr>em_cache_map := u\<rparr>)"
      using J by (simp add: swapped_out_def em_frame_def)
  qed simp
qed

lemma em_swap_out_ok:
  assumes ok: "em_ok b" and known: "\<forall>s \<in> set (get_seqs (Some RUNNING) grp). kvL (em_cache_map b) (seq_id s) \<noteq> None"
    and dist: "distinct (map seq_id (get_seqs (Some RUNNING) grp))"
    and plan: "out_plan b (get_seqs (Some RUNNING) grp) (em_free_cpu_blocks b) = (ms, recs, rest)"
  shows "wp (em_swap_out grp)
    (\<lambda>r t. r = ms \<and> cpu_room b (get_seqs (Some RUNNING) grp) \<and>
       swapped_out b (seq_id ` set (get_seqs (Some RUNNING) grp)) (map_of recs) rest t)
    (\<lambda>e t. t = b \<and> \<not> cpu_room b (get_seqs (Some RUNNING) grp)) b"
proof (cases "cpu_room b (get_seqs (Some RUNNING) grp)")
  case False
  then show ?thesis
    by (simp add: em_swap_out_def wp_def bnd_def [of "em_can_swap_out grp"] em_can_swap_out_ok [OF ok known]
        sq_def ensure_def throw_def bnd_def)
next
  case True
  let ?ss = "get_seqs (Some RUNNING) grp"
  from swap_out_loop_ok [OF ok known True plan, of "\<lparr>so_mappings = [], so_allocated = [], so_states = []\<rparr>"]
  obtain al where loop: "for_each ?ss swap_out_seq (b, \<lparr>so_mappings = [], so_allocated = [], so_states = []\<rparr>) =
    (Inr (), (b\<lparr>em_free_cpu_blocks := rest\<rparr>,
      \<lparr>so_mappings = ms, so_allocated = al, so_states = fold (\<lambda>(i, st). dset i st) recs []\<rparr>))" by auto
  let ?states = "fold (\<lambda>(i, st). dset i st) recs []"
  have ids: "map fst recs = map seq_id ?ss" by (rule out_plan_ids [OF plan])
  have st: "map_of ?states = map_of recs" using dist by (simp add: map_of_fold_dset ids)
  have all: "map_of recs (seq_id s) \<noteq> None" if "s \<in> set ?ss" for s
    using that ids by (metis image_eqI list.set_map map_of_eq_None_iff)
  let ?b = "b\<lparr>em_free_cpu_blocks := rest\<rparr>"
  have start: "swapped_out b {} (map_of recs) rest ?b"
    using ok length_out_plan [OF plan em_okD(5) [OF ok]]
    by (auto simp: swapped_out_def dropped_def em_ok_def em_frame_def)
  have "wp (for_each ?ss (\<lambda>s. bnd (lift_err (\<lambda>_. dget ?states (seq_id s))) (\<lambda>st.
      sq (modify (\<lambda>b. b\<lparr>em_swapped_sequences := dset (seq_id s) st (em_swapped_sequences b)\<rparr>))
        (on_map (free_sequence (seq_id s))))))
    (\<lambda>_. swapped_out b (seq_id ` set ?ss) (map_of recs) rest) (\<lambda>_ _. False) ?b"
  proof (rule wp_for_each [where I = "\<lambda>ys t. \<exists>xs. ?ss = xs @ ys \<and> swapped_out b (seq_id ` set xs) (map_of recs) rest t"])
    fix s ys t
    assume "\<exists>xs. ?ss = xs @ s # ys \<and> swapped_out b (seq_id ` set xs) (map_of recs) rest t"
    then obtain xs where xs: "?ss = xs @ s # ys" "swapped_out b (seq_id ` set xs) (map_of recs) rest t" by blast
    then have "s \<in> set ?ss" by simp
    then obtain r where r: "map_of recs (seq_id s) = Some r" using all by blast
    show "wp (bnd (lift_err (\<lambda>_. dget ?states (seq_id s))) (\<lambda>st.
        sq (modify (\<lambda>b. b\<lparr>em_swapped_sequences := dset (seq_id s) st (em_swapped_sequences b)\<rparr>))
          (on_map (free_sequence (seq_id s)))))
      (\<lambda>_ t. \<exists>xs. ?ss = xs @ ys \<and> swapped_out b (seq_id ` set xs) (map_of recs) rest t) (\<lambda>_ _. False) t"
      unfolding wp_bnd wp_lift_err using r st xs(1)
      by (simp del: image_insert) (rule wp_mono [OF swap_out_record_ok [OF xs(2) r]],
          auto intro!: exI [where x = "xs @ [s]"])
  qed (use start in auto)
  then show ?thesis
    using True
    by (simp add: em_swap_out_def wp_def bnd_def [of "em_can_swap_out grp"] em_can_swap_out_ok [OF ok known]
        sq_def ensure_def ret_def try_local_def loop bnd_def split: prod.splits sum.splits)
qed

end
