(* ===== verification/Ellm_Swap_Round.thy ===== *)
theory Ellm_Swap_Round
  imports Ellm_Swap_Facts
begin

text \<open>
  Swapping in the eLLM block manager, and the round trip: what \<^verbatim>\<open>swap_out\<close> moved to the CPU
  \<^verbatim>\<open>swap_in\<close> moves back.
\<close>

section \<open>Swapping in\<close>

definition swap_rec :: "ellm_manager \<Rightarrow> Sequence \<Rightarrow> nat \<times> nat \<times> nat list list" where
  "swap_rec b s = the (map_of (em_swapped_sequences b) (seq_id s))"

abbreviation rec_cpu :: "ellm_manager \<Rightarrow> Sequence \<Rightarrow> nat list list" where
  "rec_cpu b s \<equiv> snd (snd (swap_rec b s))"

definition rec_ok :: "ellm_manager \<Rightarrow> nat \<times> nat \<times> nat list list \<Rightarrow> bool" where
  "rec_ok b r \<longleftrightarrow> (case r of (n, ev, cpu) \<Rightarrow> 0 < n \<and> ev mod em_block_size b = 0 \<and>
     ev div em_block_size b \<le> ceil_div n (em_block_size b) \<and> length cpu = em_groups b \<and>
     (\<forall>g < em_groups b. length (cpu ! g) = ceil_div n (em_block_size b) - ev div em_block_size b))"

definition swap_ready :: "ellm_manager \<Rightarrow> Sequence list \<Rightarrow> bool" where
  "swap_ready b ss \<longleftrightarrow> distinct (map seq_id ss) \<and>
     (\<forall>s \<in> set ss. kvL (em_cache_map b) (seq_id s) = None \<and>
        map_of (em_swapped_sequences b) (seq_id s) \<noteq> None \<and> rec_ok b (swap_rec b s))"

text \<open>The state between two sequences, and the mappings collected so far.\<close>

definition in_mid :: "ellm_manager \<Rightarrow> Sequence list \<Rightarrow> ellm_manager \<Rightarrow> bool" where
  "in_mid b xs t \<longleftrightarrow> em_rest b t \<and> kv_inv (em_cache_map t) \<and>
     (\<forall>s \<in> set xs. kvL (em_cache_map t) (seq_id s) = Some (fst (swap_rec b s)) \<and>
        evicted (em_cache_map t) (seq_id s) = fst (snd (swap_rec b s)) \<and>
        (\<forall>l g. kvE True (em_cache_map t) (seq_id s) l g = None)) \<and>
     (\<forall>i. i \<notin> seq_id ` set xs \<longrightarrow> kvL (em_cache_map t) i = kvL (em_cache_map b) i \<and>
        kvP (em_cache_map t) i = kvP (em_cache_map b) i \<and>
        (\<forall>tmp l g. kvE tmp (em_cache_map t) i l g = kvE tmp (em_cache_map b) i l g)) \<and>
     (\<forall>g < em_groups b. kv_avail (em_cache_map t) g + sum_list (map (\<lambda>s. length (rec_cpu b s ! g)) xs) =
        kv_avail (em_cache_map b) g)"

definition in_mappings :: "ellm_manager \<Rightarrow> ellm_manager \<Rightarrow> Sequence list \<Rightarrow> (nat \<times> nat \<times> nat) list" where
  "in_mappings b t xs = concat (map (\<lambda>s. swap_triples (rec_cpu b s) (tables_of t s)) xs)"

lemma retained_tables_same:
  assumes "kv_inv m" "kv_inv t" "kv_consts t = kv_consts m" "kvL m i = Some n" "kvL t i = Some n"
    and "kvP t i = kvP m i" "\<And>l g. kvE False t i l g = kvE False m i l g"
  shows "retained_tables i t = retained_tables i m"
proof (rule nth_equalityI)
  show "length (retained_tables i t) = length (retained_tables i m)"
    using assms(3) by (simp add: kv_consts_eq)
  fix g assume g: "g < length (retained_tables i t)"
  obtain p where p: "kvP m i = Some p"
    using kvL_None_iff [of m i] assms(1,4) by (auto simp: kv_inv_def)
  show "retained_tables i t ! g = retained_tables i m ! g"
    using retained_tables_nth [OF assms(1,4) p, of g] retained_tables_nth [OF assms(2,5), of p g]
      g assms(3,6,7) p by (simp add: kv_consts_eq)
qed

lemma in_mid_step:
  assumes J: "in_mid b xs t" and s: "seq_id s \<notin> seq_id ` set xs" and ok: "em_ok b"
    and none: "kvL (em_cache_map b) (seq_id s) = None" and r: "rec_ok b (swap_rec b s)"
  shows "wp (on_map (allocate_sequence_with_evicted_prefix (seq_id s) (int (fst (swap_rec b s)))
        (int (fst (snd (swap_rec b s))))))
    (\<lambda>_ u. in_mid b (xs @ [s]) u \<and> in_mappings b u xs = in_mappings b t xs)
    (\<lambda>_ u. in_mid b xs u \<and> in_mappings b u xs = in_mappings b t xs \<and>
       (\<exists>g < em_groups b. kv_avail (em_cache_map t) g < length (rec_cpu b s ! g))) t"
proof -
  obtain n ev cpu where rec: "swap_rec b s = (n, ev, cpu)" by (cases "swap_rec b s")
  note D = em_okD [OF ok]
  let ?m = "em_cache_map t" and ?bs = "em_block_size b"
  have inv: "kv_inv ?m" and rest: "em_rest b t" using J by (simp_all add: in_mid_def)
  have c: "kv_block_size ?m = ?bs" "kv_num_layer_groups ?m = em_groups b"
    using em_restD(8) [OF rest] D(2) by (simp_all add: kv_consts_eq)
  have tL: "kvL ?m (seq_id s) = None" using J s none by (simp add: in_mid_def)
  have guards: "alloc_guards ?m (seq_id s) (int n) (int ev)"
    using r tL by (simp add: rec rec_ok_def alloc_guards_def c zmod_int [symmetric])
  have need: "alloc_need ?m (int n) (int ev) = length (cpu ! g)" if "g < em_groups b" for g
    using r that by (simp add: rec rec_ok_def alloc_need_def c)
  have same: "in_mappings b (t\<lparr>em_cache_map := u\<rparr>) xs = in_mappings b t xs"
    if u: "kv_inv u" "kv_consts u = kv_consts ?m"
      "\<forall>i. i \<noteq> seq_id s \<longrightarrow> kvL u i = kvL ?m i \<and> kvP u i = kvP ?m i \<and> kvE False u i = kvE False ?m i" for u
  proof -
    have "retained_tables (seq_id x) u = retained_tables (seq_id x) ?m" if "x \<in> set xs" for x
    proof -
      have "seq_id x \<noteq> seq_id s" using s that by (metis imageI)
      with u(3) J that show ?thesis
        by (intro retained_tables_same [OF inv u(1,2), of _ "fst (swap_rec b x)"]) (auto simp: in_mid_def)
    qed
    then show ?thesis by (simp add: in_mappings_def cong: map_cong)
  qed
  show ?thesis
    unfolding wp_on_map rec fst_conv snd_conv
  proof (rule wp_mono [OF allocate_ok [OF inv]])
    fix x u
    assume "kv_inv u \<and> kv_frame (seq_id s) ?m u \<and> alloc_guards ?m (seq_id s) (int n) (int ev) \<and>
      kvL u (seq_id s) = Some (nat (int n)) \<and> kvP u (seq_id s) = Some (nat (int ev) div kv_block_size ?m) \<and>
      (\<forall>l g. kvE True u (seq_id s) l g = None) \<and>
      (\<forall>g < kv_num_layer_groups ?m. kv_avail u g + alloc_need ?m (int n) (int ev) = kv_avail ?m g)"
    then have u: "kv_inv u" "kv_consts u = kv_consts ?m"
      "\<forall>i. i \<noteq> seq_id s \<longrightarrow> kvL u i = kvL ?m i \<and> kvP u i = kvP ?m i \<and> kvE False u i = kvE False ?m i \<and> kvE True u i = kvE True ?m i"
      "kvL u (seq_id s) = Some n" "kvP u (seq_id s) = Some (ev div ?bs)"
      "\<forall>g < em_groups b. kv_avail u g + alloc_need ?m (int n) (int ev) = kv_avail ?m g"
      "\<forall>l g. kvE True u (seq_id s) l g = None"
      using c by (simp_all add: kv_frame_def)
    have "evicted u (seq_id s) = ev"
      using r u(2,5) c by (simp add: rec rec_ok_def evicted_def kv_consts_eq) (metis mod_0_imp_dvd dvd_div_mult_self)
    moreover have "evicted u i = evicted ?m i" if "i \<noteq> seq_id s" for i
      using u(2,3) that by (auto simp: evicted_def kv_consts_eq split: option.split)
    moreover have "kvE tmp u i = kvE tmp ?m i" if "i \<noteq> seq_id s" for tmp i
      using u(3) that by (cases tmp) simp_all
    moreover have "kv_avail u g + sum_list (map (\<lambda>s. length (rec_cpu b s ! g)) (xs @ [s])) = kv_avail (em_cache_map b) g"
      if "g < em_groups b" for g
      using u(6) need [OF that] J that by (fastforce simp: in_mid_def rec)
    moreover have "em_rest b (t\<lparr>em_cache_map := u\<rparr>)"
      using rest u(2) by (rule em_rest_map)
    moreover have "seq_id x \<noteq> seq_id s" if "x \<in> set xs" for x using s that by (metis imageI)
    ultimately have "in_mid b (xs @ [s]) (t\<lparr>em_cache_map := u\<rparr>)"
      using J u s by (auto simp: in_mid_def rec)
    then show "in_mid b (xs @ [s]) (t\<lparr>em_cache_map := u\<rparr>) \<and> in_mappings b (t\<lparr>em_cache_map := u\<rparr>) xs = in_mappings b t xs"
      using same [OF u(1,2)] u(3) by blast
  next
    fix e u
    assume "kv_inv u \<and> kv_rest u = kv_rest ?m \<and> kv_avail u = kv_avail ?m \<and>
      (alloc_guards ?m (seq_id s) (int n) (int ev) \<longrightarrow>
         (\<exists>g < kv_num_layer_groups ?m. kv_avail ?m g < alloc_need ?m (int n) (int ev)))"
    then have u: "kv_inv u" "kv_rest u = kv_rest ?m" "kv_avail u = kv_avail ?m"
      and short: "\<exists>g < em_groups b. kv_avail ?m g < length (cpu ! g)" using guards need c by auto
    note V = rest_view [OF u(2)]
    have "kv_consts u = kv_consts ?m" using u(2) by (simp add: kv_rest_eq kv_consts_eq)
    moreover have "evicted u = evicted ?m"
      using V(3) u(2) by (auto simp: fun_eq_iff evicted_def kv_rest_eq split: option.split)
    ultimately have "in_mid b xs (t\<lparr>em_cache_map := u\<rparr>)"
      using J u(1,3) V em_rest_map [OF rest] by (simp add: in_mid_def)
    then show "in_mid b xs (t\<lparr>em_cache_map := u\<rparr>) \<and> in_mappings b (t\<lparr>em_cache_map := u\<rparr>) xs = in_mappings b t xs \<and>
      (\<exists>g < em_groups b. kv_avail (em_cache_map t) g < length (cpu ! g))"
      using same [OF u(1)] u(2) V short by (simp add: kv_rest_eq kv_consts_eq)
  qed
qed

text \<open>Freeing several sequences, and undoing a swap-in that stopped half-way.\<close>

lemma free_sequences_view:
  assumes "kv_inv m"
  shows "wp (for_each is free_sequence) (\<lambda>_. dropped (set is) m) (\<lambda>_ _. False) m"
proof (rule wp_for_each [where I = "\<lambda>ys t. \<exists>xs. is = xs @ ys \<and> dropped (set xs) m t"])
  show "\<exists>xs. is = xs @ is \<and> dropped (set xs) m m" using assms by (simp add: dropped_def)
next
  fix i ys t
  assume "\<exists>xs. is = xs @ i # ys \<and> dropped (set xs) m t"
  then obtain xs where xs: "is = xs @ i # ys" "dropped (set xs) m t" by blast
  show "wp (free_sequence i) (\<lambda>_ t. \<exists>xs. is = xs @ ys \<and> dropped (set xs) m t) (\<lambda>_ _. False) t"
  proof (rule wp_mono [OF free_sequence_view])
    show "kv_inv t" using xs(2) by (simp add: dropped_def)
  next
    fix x u
    assume "kv_inv u \<and> kv_consts u = kv_consts t \<and> kvL u = (kvL t)(i := None) \<and> kvP u = (kvP t)(i := None) \<and>
      (\<forall>tmp j l g. kvE tmp u j l g = (if j = i then None else kvE tmp t j l g)) \<and> (\<forall>g. kv_avail t g \<le> kv_avail u g)"
    then have "dropped (set (xs @ [i])) m u"
      using xs(2) by (auto simp: dropped_def intro: order_trans)
    then show "\<exists>xs. is = xs @ ys \<and> dropped (set xs) m u" using xs(1) by (intro exI [where x = "xs @ [i]"]) simp
  qed simp
qed auto

definition undone :: "ellm_manager \<Rightarrow> ellm_manager \<Rightarrow> bool" where
  "undone b t \<longleftrightarrow> em_rest b t \<and> em_ok t \<and> kv_same (em_cache_map b) (em_cache_map t) \<and>
     kv_avail (em_cache_map t) = kv_avail (em_cache_map b)"

lemma undo_swap_in:
  assumes ok: "em_ok b" and J: "in_mid b xs t" and none: "\<forall>s \<in> set xs. kvL (em_cache_map b) (seq_id s) = None"
  shows "wp (for_each (map seq_id xs) (\<lambda>sid. on_map (free_sequence sid))) (\<lambda>_. undone b) (\<lambda>_ _. False) t"
proof -
  let ?b = "em_cache_map b" and ?t = "em_cache_map t"
  have inv: "kv_inv ?t" "kv_inv ?b" and rest: "em_rest b t"
    using J em_okD(1) [OF ok] by (simp_all add: in_mid_def)
  have absent: "kvP ?b i = None" "kvE tmp ?b i l g = None" if "i \<in> seq_id ` set xs" for i tmp l g
  proof -
    have seqs: "seqs_ok ?b" and L: "kvL ?b i = None" using inv(2) none that by (auto simp: kv_inv_def)
    show "kvP ?b i = None" using kvL_None_iff [OF seqs] L by simp
    show "kvE tmp ?b i l g = None" by (rule view_cases [OF seqs, of i]) (use L in auto)
  qed
  have "wp (for_each (map seq_id xs) free_sequence) (\<lambda>_ m. undone b (t\<lparr>em_cache_map := m\<rparr>)) (\<lambda>_ _. False) ?t"
  proof (rule wp_mono [OF free_sequences_view [OF inv(1)]])
    fix x m
    assume d: "dropped (set (map seq_id xs)) ?t m"
    have c: "kv_consts m = kv_consts ?b" using d em_restD(8) [OF rest] by (simp add: dropped_def)
    have "kvL m = kvL ?b" "kvP m = kvP ?b" "kvE tmp m = kvE tmp ?b" for tmp
      using d J none absent by (auto simp: dropped_def in_mid_def fun_eq_iff)
    then have same: "kv_same ?b m" using c by (simp add: kv_same_def)
    moreover have "kv_inv m" using d by (simp add: dropped_def)
    ultimately show "undone b (t\<lparr>em_cache_map := m\<rparr>)"
      using kv_same_avail [OF inv(2) _ same] em_ok_rest [OF ok] em_rest_map [OF rest] c em_restD(8) [OF rest]
      by (simp add: undone_def)
  qed simp
  from on_map_for_each [OF this] show ?thesis by (simp cong: conj_cong)
qed

text \<open>The loop over the swapped sequences.\<close>

lemma wp_first:
  "wp A (\<lambda>_ u. wp K Q E (u, l)) (\<lambda>e u. E e (u, l)) t \<Longrightarrow> wp (sq (on_fst A) K) Q E (t, l)"
  by (simp add: wp_sq wp_on_fst)

lemma swap_in_loop_ok:
  assumes ok: "em_ok b" and ready: "swap_ready b ss"
  shows "wp (for_each ss (\<lambda>s.
       bnd (on_fst (lift_err (\<lambda>b. dget (em_swapped_sequences b) (seq_id s)))) (\<lambda>(n, evicted_tokens, cpu_tables).
       sq (on_fst (on_map (allocate_sequence_with_evicted_prefix (seq_id s) (int n) (int evicted_tokens))))
      (sq (on_snd (modify (\<lambda>(mappings, restored). (mappings, restored @ [seq_id s]))))
      (bnd (on_fst (em_get_layer_group_block_tables s)) (\<lambda>gpu_tables.
       on_snd (modify (\<lambda>(mappings, restored).
         (mappings @ swap_triples cpu_tables gpu_tables, restored)))))))))
    (\<lambda>_ (t, l). in_mid b ss t \<and> fst l = in_mappings b t ss)
    (\<lambda>_ (t, l). \<exists>xs ys. ss = xs @ ys \<and> in_mid b xs t \<and> snd l = map seq_id xs \<and>
       (\<exists>g < em_groups b. kv_avail (em_cache_map b) g < sum_list (map (\<lambda>s. length (rec_cpu b s ! g)) ss)))
    (b, ([], []))"
proof (rule wp_for_each [where I = "\<lambda>ys (t, l). \<exists>xs. ss = xs @ ys \<and> in_mid b xs t \<and>
    fst l = in_mappings b t xs \<and> snd l = map seq_id xs"])
  show "case (b, ([], [])) of (t, l) \<Rightarrow> \<exists>xs. ss = xs @ ss \<and> in_mid b xs t \<and>
      fst l = in_mappings b t xs \<and> snd l = map seq_id xs"
    using em_okD(1) [OF ok] by (simp add: in_mid_def in_mappings_def)
next
  fix s ys tl
  assume "case tl of (t, l) \<Rightarrow> \<exists>xs. ss = xs @ s # ys \<and> in_mid b xs t \<and>
    fst l = in_mappings b t xs \<and> snd l = map seq_id xs"
  then obtain t l xs where tl: "tl = (t, l)" and xs: "ss = xs @ s # ys" "in_mid b xs t"
    "fst l = in_mappings b t xs" "snd l = map seq_id xs" by (cases tl) auto
  have s: "seq_id s \<notin> seq_id ` set xs" "kvL (em_cache_map b) (seq_id s) = None" "rec_ok b (swap_rec b s)"
    "map_of (em_swapped_sequences b) (seq_id s) = Some (swap_rec b s)"
    using ready xs(1) by (auto simp: swap_ready_def swap_rec_def)
  have rest: "em_rest b t" using xs(2) by (simp add: in_mid_def)
  obtain n ev cpu where rec: "swap_rec b s = (n, ev, cpu)" by (cases "swap_rec b s")
  have look: "dget (em_swapped_sequences t) (seq_id s) = Inr (n, ev, cpu)"
    using s(4) em_restD(6) [OF rest] rec by simp
  have short: "\<exists>g < em_groups b. kv_avail (em_cache_map b) g < sum_list (map (\<lambda>s. length (rec_cpu b s ! g)) ss)"
    if "\<exists>g < em_groups b. kv_avail (em_cache_map t) g < length (rec_cpu b s ! g)"
  proof -
    from that obtain g where g: "g < em_groups b" "kv_avail (em_cache_map t) g < length (rec_cpu b s ! g)" by blast
    then have "kv_avail (em_cache_map t) g + sum_list (map (\<lambda>s. length (rec_cpu b s ! g)) xs) = kv_avail (em_cache_map b) g"
      using xs(2) by (simp add: in_mid_def)
    with g show ?thesis by (intro exI [where x = g]) (simp add: xs(1))
  qed
  show "wp (bnd (on_fst (lift_err (\<lambda>b. dget (em_swapped_sequences b) (seq_id s)))) (\<lambda>(n, evicted_tokens, cpu_tables).
       sq (on_fst (on_map (allocate_sequence_with_evicted_prefix (seq_id s) (int n) (int evicted_tokens))))
      (sq (on_snd (modify (\<lambda>(mappings, restored). (mappings, restored @ [seq_id s]))))
      (bnd (on_fst (em_get_layer_group_block_tables s)) (\<lambda>gpu_tables.
       on_snd (modify (\<lambda>(mappings, restored).
         (mappings @ swap_triples cpu_tables gpu_tables, restored))))))))
    (\<lambda>_ (t, l). \<exists>xs. ss = xs @ ys \<and> in_mid b xs t \<and> fst l = in_mappings b t xs \<and> snd l = map seq_id xs)
    (\<lambda>_ (t, l). \<exists>xs ys. ss = xs @ ys \<and> in_mid b xs t \<and> snd l = map seq_id xs \<and>
       (\<exists>g < em_groups b. kv_avail (em_cache_map b) g < sum_list (map (\<lambda>s. length (rec_cpu b s ! g)) ss))) tl"
    unfolding tl wp_bnd [of "on_fst (lift_err (\<lambda>b. dget (em_swapped_sequences b) (seq_id s)))"]
      wp_on_fst [of "lift_err (\<lambda>b. dget (em_swapped_sequences b) (seq_id s))"] wp_lift_err fst_conv snd_conv
      look sum.case prod.case
  proof (rule wp_first, rule wp_mono [OF in_mid_step [OF xs(2) s(1) ok s(2,3), unfolded rec fst_conv snd_conv]])
    fix x :: unit and u
    assume u: "in_mid b (xs @ [s]) u \<and> in_mappings b u xs = in_mappings b t xs"
    then have uok: "em_ok u" "kvL (em_cache_map u) (seq_id s) \<noteq> None"
      using em_ok_rest [OF ok] by (auto simp: in_mid_def)
    have "in_mappings b t xs @ swap_triples cpu (tables_of u s) = in_mappings b u (xs @ [s])"
      using u rec by (simp add: in_mappings_def)
    then show "wp (sq (on_snd (modify (\<lambda>(mappings, restored). (mappings, restored @ [seq_id s]))))
        (bnd (on_fst (em_get_layer_group_block_tables s)) (\<lambda>gpu_tables.
         on_snd (modify (\<lambda>(mappings, restored). (mappings @ swap_triples cpu gpu_tables, restored))))))
      (\<lambda>_ (t, l). \<exists>xs. ss = xs @ ys \<and> in_mid b xs t \<and> fst l = in_mappings b t xs \<and> snd l = map seq_id xs)
      (\<lambda>_ (t, l). \<exists>xs ys. ss = xs @ ys \<and> in_mid b xs t \<and> snd l = map seq_id xs \<and>
         (\<exists>g < em_groups b. kv_avail (em_cache_map b) g < sum_list (map (\<lambda>s. length (rec_cpu b s ! g)) ss))) (u, l)"
      using u xs tables_query [OF uok]
      by (cases l) (auto simp: wp_def sq_def bnd_def on_snd_def on_fst_def modify_def intro!: exI [where x = "xs @ [s]"])
  next
    fix e and u
    assume "in_mid b xs u \<and> in_mappings b u xs = in_mappings b t xs \<and>
      (\<exists>g < em_groups b. kv_avail (em_cache_map t) g < length (cpu ! g))"
    then show "case (u, l) of (t, l) \<Rightarrow> \<exists>xs ys. ss = xs @ ys \<and> in_mid b xs t \<and> snd l = map seq_id xs \<and>
       (\<exists>g < em_groups b. kv_avail (em_cache_map b) g < sum_list (map (\<lambda>s. length (rec_cpu b s ! g)) ss))"
      using short xs rec by auto
  qed
qed auto

text \<open>Giving the CPU blocks back.\<close>

lemma cpu_extend_all:
  assumes "free = em_free_cpu_blocks b" "j + length ts \<le> length free"
  shows "for_each (zip [j..<j + length ts] ts) (\<lambda>(g, table). cpu_extend g table) b =
    (Inr (), b\<lparr>em_free_cpu_blocks := take j free @ map2 (@) (drop j free) ts @ drop (j + length ts) free\<rparr>)"
  using assms
proof (induction ts arbitrary: j b free)
  case Nil
  then show ?case by (simp add: for_each_def ret_def)
next
  case (Cons t ts)
  let ?free = "free[j := free ! j @ t]"
  have j: "j < length free" using Cons.prems by simp
  have dropj: "drop j free = free ! j # drop (Suc j) free" using j by (simp add: Cons_nth_drop_Suc)
  have takej: "take (Suc j) ?free = take j free @ [free ! j @ t]" using j by (simp add: take_Suc_conv_app_nth)
  have "cpu_extend j t b = (Inr (), b\<lparr>em_free_cpu_blocks := ?free\<rparr>)"
    using j Cons.prems(1) by (simp add: cpu_extend_def bnd_def lift_err_def modify_def)
  moreover have "for_each (zip [Suc j..<Suc j + length ts] ts) (\<lambda>(g, table). cpu_extend g table)
      (b\<lparr>em_free_cpu_blocks := ?free\<rparr>) =
    (Inr (), b\<lparr>em_free_cpu_blocks := take (Suc j) ?free @ map2 (@) (drop (Suc j) ?free) ts @ drop (Suc j + length ts) ?free\<rparr>)"
    using Cons.IH [of ?free "b\<lparr>em_free_cpu_blocks := ?free\<rparr>" "Suc j"] Cons.prems(2) by simp
  ultimately show ?case
    by (simp add: for_each_def upt_conv_Cons takej dropj bnd_def del: upt_Suc)
qed

definition given_back :: "ellm_manager \<Rightarrow> Sequence list \<Rightarrow> ellm_manager \<Rightarrow> ellm_manager \<Rightarrow> bool" where
  "given_back b xs t u \<longleftrightarrow> (\<exists>sw f. u = t\<lparr>em_swapped_sequences := sw, em_free_cpu_blocks := f\<rparr> \<and>
     map_of sw = map_of (em_swapped_sequences b) |` (- (seq_id ` set xs)) \<and> length f = em_groups b \<and>
     (\<forall>g < em_groups b. f ! g = em_free_cpu_blocks b ! g @ concat (map (\<lambda>s. rec_cpu b s ! g) xs)))"

lemma give_back_ok:
  assumes ok: "em_ok b" and ready: "swap_ready b ss" and rest: "em_rest b t"
  shows "wp (for_each ss (\<lambda>s.
      bnd (lift_err (\<lambda>b. dget (em_swapped_sequences b) (seq_id s))) (\<lambda>(_, _, cpu_tables).
      sq (modify (\<lambda>b. b\<lparr>em_swapped_sequences := ddel (seq_id s) (em_swapped_sequences b)\<rparr>))
     (for_each (zip [0..<length cpu_tables] cpu_tables) (\<lambda>(g, table). cpu_extend g table)))))
    (\<lambda>_. given_back b ss t) (\<lambda>_ _. False) t"
proof (rule wp_for_each [where I = "\<lambda>ys u. \<exists>xs. ss = xs @ ys \<and> given_back b xs t u"])
  have "t = t\<lparr>em_swapped_sequences := em_swapped_sequences b, em_free_cpu_blocks := em_free_cpu_blocks b\<rparr>"
    using em_restD(5,6) [OF rest] by (cases t) simp
  then show "\<exists>xs. ss = xs @ ss \<and> given_back b xs t t"
    unfolding given_back_def
    by (intro exI [where x = "[]"] conjI exI [where x = "em_swapped_sequences b"] exI [where x = "em_free_cpu_blocks b"])
      (use em_okD(5) [OF ok] in \<open>simp_all add: restrict_map_def\<close>)
next
  fix s ys u
  assume "\<exists>xs. ss = xs @ s # ys \<and> given_back b xs t u"
  then obtain xs sw f where xs: "ss = xs @ s # ys"
    and u: "u = t\<lparr>em_swapped_sequences := sw, em_free_cpu_blocks := f\<rparr>"
      "map_of sw = map_of (em_swapped_sequences b) |` (- (seq_id ` set xs))" "length f = em_groups b"
      "\<forall>g < em_groups b. f ! g = em_free_cpu_blocks b ! g @ concat (map (\<lambda>s. rec_cpu b s ! g) xs)"
    by (auto simp: given_back_def)
  obtain n ev cpu where rec: "swap_rec b s = (n, ev, cpu)" by (cases "swap_rec b s")
  have s: "seq_id s \<notin> seq_id ` set xs" "map_of (em_swapped_sequences b) (seq_id s) = Some (n, ev, cpu)"
    "length cpu = em_groups b"
    using ready xs rec by (auto simp: swap_ready_def swap_rec_def rec_ok_def)
  then have look: "map_of sw (seq_id s) = Some (n, ev, cpu)" using u(2) by simp
  let ?u = "t\<lparr>em_free_cpu_blocks := f, em_swapped_sequences := ddel (seq_id s) sw\<rparr>"
  have "for_each (zip [0..<length cpu] cpu) (\<lambda>(g, table). cpu_extend g table) ?u =
      (Inr (), ?u\<lparr>em_free_cpu_blocks := map2 (@) f cpu\<rparr>)"
    using cpu_extend_all [of f ?u 0 cpu] u(3) s(3) by simp
  moreover have order: "u = t\<lparr>em_free_cpu_blocks := f, em_swapped_sequences := sw\<rparr>"
    using u(1) by (cases t) simp
  moreover have "given_back b (xs @ [s]) t (?u\<lparr>em_free_cpu_blocks := map2 (@) f cpu\<rparr>)"
    unfolding given_back_def
    by (rule exI [where x = "ddel (seq_id s) sw"], rule exI [where x = "map2 (@) f cpu"])
      (use u s in \<open>cases t, auto simp: rec fun_eq_iff restrict_map_def\<close>)
  ultimately show "wp (bnd (lift_err (\<lambda>b. dget (em_swapped_sequences b) (seq_id s))) (\<lambda>(_, _, cpu_tables).
      sq (modify (\<lambda>b. b\<lparr>em_swapped_sequences := ddel (seq_id s) (em_swapped_sequences b)\<rparr>))
     (for_each (zip [0..<length cpu_tables] cpu_tables) (\<lambda>(g, table). cpu_extend g table))))
    (\<lambda>_ u. \<exists>xs. ss = xs @ ys \<and> given_back b xs t u) (\<lambda>_ _. False) u"
    using xs look by (auto simp: wp_def bnd_def lift_err_def sq_def modify_def intro!: exI [where x = "xs @ [s]"])
qed auto

definition swapped_in :: "ellm_manager \<Rightarrow> Sequence list \<Rightarrow> ellm_manager \<Rightarrow> bool" where
  "swapped_in b ss t \<longleftrightarrow> em_ok t \<and> em_frame b t \<and> kv_consts (em_cache_map t) = kv_consts (em_cache_map b) \<and>
     (\<forall>s \<in> set ss. kvL (em_cache_map t) (seq_id s) = Some (fst (swap_rec b s)) \<and>
        evicted (em_cache_map t) (seq_id s) = fst (snd (swap_rec b s)) \<and>
        (\<forall>l g. kvE True (em_cache_map t) (seq_id s) l g = None)) \<and>
     (\<forall>i. i \<notin> seq_id ` set ss \<longrightarrow> kvL (em_cache_map t) i = kvL (em_cache_map b) i \<and>
        kvP (em_cache_map t) i = kvP (em_cache_map b) i \<and>
        (\<forall>tmp l g. kvE tmp (em_cache_map t) i l g = kvE tmp (em_cache_map b) i l g)) \<and>
     map_of (em_swapped_sequences t) = map_of (em_swapped_sequences b) |` (- (seq_id ` set ss)) \<and>
     (\<forall>g < em_groups b. em_free_cpu_blocks t ! g =
        em_free_cpu_blocks b ! g @ concat (map (\<lambda>s. rec_cpu b s ! g) ss)) \<and>
     (\<forall>g < em_groups b. kv_avail (em_cache_map t) g + sum_list (map (\<lambda>s. length (rec_cpu b s ! g)) ss) =
        kv_avail (em_cache_map b) g)"

lemma em_swap_in_ok:
  assumes ok: "em_ok b" and ready: "swap_ready b (get_seqs (Some SWAPPED) grp)"
  shows "wp (em_swap_in grp 0)
    (\<lambda>ms t. ms = in_mappings b t (get_seqs (Some SWAPPED) grp) \<and> swapped_in b (get_seqs (Some SWAPPED) grp) t)
    (\<lambda>_ t. undone b t \<and> (\<exists>g < em_groups b. kv_avail (em_cache_map b) g <
       sum_list (map (\<lambda>s. length (rec_cpu b s ! g)) (get_seqs (Some SWAPPED) grp)))) b"
proof -
  let ?ss = "get_seqs (Some SWAPPED) grp"
  have eq: "em_swap_in grp 0 = try_local ([], [])
      (for_each ?ss (\<lambda>s.
         bnd (on_fst (lift_err (\<lambda>b. dget (em_swapped_sequences b) (seq_id s)))) (\<lambda>(n, evicted_tokens, cpu_tables).
         sq (on_fst (on_map (allocate_sequence_with_evicted_prefix (seq_id s) (int n) (int evicted_tokens))))
        (sq (on_snd (modify (\<lambda>(mappings, restored). (mappings, restored @ [seq_id s]))))
        (bnd (on_fst (em_get_layer_group_block_tables s)) (\<lambda>gpu_tables.
         on_snd (modify (\<lambda>(mappings, restored). (mappings @ swap_triples cpu_tables gpu_tables, restored)))))))))
      (\<lambda>(mappings, restored) e. sq (for_each restored (\<lambda>sid. on_map (free_sequence sid))) (throw e))
      (\<lambda>(mappings, restored) _.
         sq (for_each ?ss (\<lambda>s.
           bnd (lift_err (\<lambda>b. dget (em_swapped_sequences b) (seq_id s))) (\<lambda>(_, _, cpu_tables).
           sq (modify (\<lambda>b. b\<lparr>em_swapped_sequences := ddel (seq_id s) (em_swapped_sequences b)\<rparr>))
          (for_each (zip [0..<length cpu_tables] cpu_tables) (\<lambda>(g, table). cpu_extend g table)))))
        (ret mappings))"
    by (simp add: em_swap_in_def)
  show ?thesis
    unfolding eq wp_try_local
  proof (rule wp_mono [OF swap_in_loop_ok [OF ok ready]], goal_cases)
    case (1 x tl)
    then obtain t ms r where tl: "tl = (t, (ms, r))" "in_mid b ?ss t" "ms = in_mappings b t ?ss"
      by (cases tl) auto
    have rest: "em_rest b t" using tl(2) by (simp add: in_mid_def)
    have tok: "em_ok t" using em_ok_rest [OF ok rest] tl(2) by (simp add: in_mid_def)
    show ?case
      unfolding tl(1) prod.case wp_sq
    proof (rule wp_mono [OF give_back_ok [OF ok ready rest]])
      fix y u
      assume "given_back b ?ss t u"
      then have map: "em_cache_map u = em_cache_map t" and "swapped_in b ?ss u"
        using tl(2) tok em_restD [OF rest] rest
        by (auto simp: given_back_def swapped_in_def in_mid_def em_ok_def em_frame_def em_rest_def kv_consts_eq)
      then show "wp (ret ms) (\<lambda>ms t. ms = in_mappings b t ?ss \<and> swapped_in b ?ss t)
        (\<lambda>_ t. undone b t \<and> (\<exists>g < em_groups b. kv_avail (em_cache_map b) g <
           sum_list (map (\<lambda>s. length (rec_cpu b s ! g)) ?ss))) u"
        by (simp add: wp_ret tl(3) in_mappings_def)
    qed simp
  next
    case (2 e tl)
    obtain t ms r where eqs: "tl = (t, (ms, r))" by (metis prod.exhaust)
    from 2 [unfolded eqs prod.case snd_conv] obtain xs ys
      where tl: "tl = (t, (ms, map seq_id xs))" "in_mid b xs t" "?ss = xs @ ys"
      and short: "\<exists>g < em_groups b. kv_avail (em_cache_map b) g < sum_list (map (\<lambda>s. length (rec_cpu b s ! g)) ?ss)"
      using eqs by blast
    have none: "\<forall>s \<in> set xs. kvL (em_cache_map b) (seq_id s) = None"
      using ready tl(3) by (simp add: swap_ready_def)
    show ?case
      unfolding tl(1) prod.case wp_sq
      by (rule wp_mono [OF undo_swap_in [OF ok tl(2) none]]) (use short in \<open>simp_all add: wp_throw\<close>)
  qed
qed

end
