(* ===== verification/Ellm_Swap_Claims.thy ===== *)
theory Ellm_Swap_Claims
  imports Ellm_Swap_Round
begin

text \<open>
  The contract of swapping in the eLLM block manager: which block is copied where, what is recorded,
  and that swapping out and in again is the identity up to the names of the blocks.
\<close>

section \<open>The copies of one layer group\<close>

definition group_copies :: "nat \<Rightarrow> (nat \<times> nat \<times> nat) list \<Rightarrow> (nat \<times> nat) list" where
  "group_copies g ms = map snd (filter (\<lambda>x. fst x = g) ms)"

lemma group_copies_simps [simp]:
  "group_copies g [] = []"
  "group_copies g (xs @ ys) = group_copies g xs @ group_copies g ys"
  "group_copies g (map (Pair j) ps) = (if j = g then ps else [])"
  by (auto simp: group_copies_def filter_map comp_def split_def intro!: filter_False)

lemma group_copies_triples:
  assumes "length srcs = length dsts"
  shows "group_copies g (triples_from j srcs dsts) =
    (if j \<le> g \<and> g < j + length srcs then zip (srcs ! (g - j)) (dsts ! (g - j)) else [])"
  using assms
proof (induction srcs dsts arbitrary: j rule: list_induct2)
  case Nil
  then show ?case by (auto simp: triples_from_def)
next
  case (Cons src srcs dst dsts)
  then show ?case
    by (cases "j = g") (auto simp: triples_from_Cons Suc_diff_Suc [symmetric] nth_Cons')
qed

lemma group_copies_swap:
  "length srcs = length dsts \<Longrightarrow> g < length srcs \<Longrightarrow>
     group_copies g (swap_triples srcs dsts) = zip (srcs ! g) (dsts ! g)"
  by (simp add: swap_triples_from group_copies_triples)

text \<open>The blocks of several sequences in one layer group, one table after the other.\<close>

definition gpu_blocks :: "ellm_manager \<Rightarrow> Sequence list \<Rightarrow> nat \<Rightarrow> nat list" where
  "gpu_blocks b ss g = concat (map (\<lambda>s. tables_of b s ! g) ss)"

lemma length_gpu_blocks: "length (gpu_blocks b ss g) = group_tables b ss g"
  by (induction ss) (simp_all add: gpu_blocks_def group_tables_def)

definition recorded :: "(nat \<rightharpoonup> nat \<times> nat \<times> nat list list) \<Rightarrow> Sequence \<Rightarrow> nat \<times> nat \<times> nat list list" where
  "recorded recs s = the (recs (seq_id s))"

lemma out_plan_group:
  assumes "length free = em_groups b" "\<forall>g < em_groups b. group_tables b ss g \<le> length (free ! g)"
    and "out_plan b ss free = (ms, recs, rest)" "g < em_groups b"
  shows "group_copies g ms = zip (gpu_blocks b ss g) (free ! g) \<and> rest ! g = drop (group_tables b ss g) (free ! g)"
  using assms
proof (induction ss arbitrary: free ms recs)
  case Nil
  then show ?case by (simp add: gpu_blocks_def group_tables_def)
next
  case (Cons s ss)
  let ?ts = "tables_of b s"
  obtain ms' recs' where plan: "out_plan b ss (cpu_drop ?ts free) = (ms', recs', rest)"
    and eq: "ms = swap_triples ?ts (cpu_take ?ts free) @ ms'"
    using Cons.prems(3) by (auto simp: Let_def split: prod.splits)
  have room: "\<forall>g < em_groups b. group_tables b ss g \<le> length (cpu_drop ?ts free ! g)"
    using Cons.prems(1,2) by (auto simp: group_tables_def dest: spec [of _ g])
  have IH: "group_copies g ms' = zip (gpu_blocks b ss g) (drop (length (?ts ! g)) (free ! g))"
    "rest ! g = drop (group_tables b ss g) (drop (length (?ts ! g)) (free ! g))"
    using Cons.IH [OF _ room plan] Cons.prems(1,4) by simp_all
  have "length (?ts ! g) \<le> length (free ! g)"
    using Cons.prems(2,4) by (auto simp: group_tables_def)
  then have "zip (?ts ! g) (take (length (?ts ! g)) (free ! g)) @
      zip (gpu_blocks b ss g) (drop (length (?ts ! g)) (free ! g)) = zip (?ts ! g @ gpu_blocks b ss g) (free ! g)"
    by (simp add: zip_append1)
  then show ?case
    using IH Cons.prems(1,4) by (simp add: eq group_copies_swap gpu_blocks_def group_tables_def add.commute)
qed

lemma out_plan_records:
  assumes "length free = em_groups b" "\<forall>g < em_groups b. group_tables b ss g \<le> length (free ! g)"
    and "out_plan b ss free = (ms, recs, rest)" "distinct (map seq_id ss)"
  shows "(\<forall>s \<in> set ss. \<exists>cpu. map_of recs (seq_id s) = Some (swap_state b s cpu) \<and> length cpu = em_groups b \<and>
      (\<forall>g < em_groups b. length (cpu ! g) = length (tables_of b s ! g))) \<and>
    (\<forall>g < em_groups b. concat (map (\<lambda>s. snd (snd (recorded (map_of recs) s)) ! g) ss) =
      take (group_tables b ss g) (free ! g))"
  using assms
proof (induction ss arbitrary: free ms recs)
  case Nil
  then show ?case by (simp add: group_tables_def)
next
  case (Cons s ss)
  let ?ts = "tables_of b s" let ?cpu = "cpu_take ?ts free"
  obtain ms' recs' where plan: "out_plan b ss (cpu_drop ?ts free) = (ms', recs', rest)"
    and eq: "recs = (seq_id s, swap_state b s ?cpu) # recs'"
    using Cons.prems(3) by (auto simp: Let_def split: prod.splits)
  have room: "\<forall>g < em_groups b. group_tables b ss g \<le> length (cpu_drop ?ts free ! g)"
    using Cons.prems(1,2) by (auto simp: group_tables_def)
  have fits: "length (?ts ! g) \<le> length (free ! g)" if "g < em_groups b" for g
    using Cons.prems(2) that by (auto simp: group_tables_def)
  have other: "seq_id x \<noteq> seq_id s" if "x \<in> set ss" for x
    using Cons.prems(4) that by (metis distinct.simps(2) imageI list.set_map list.simps(9))
  have IH: "\<forall>s \<in> set ss. \<exists>cpu. map_of recs' (seq_id s) = Some (swap_state b s cpu) \<and> length cpu = em_groups b \<and>
      (\<forall>g < em_groups b. length (cpu ! g) = length (tables_of b s ! g))"
    "\<forall>g < em_groups b. concat (map (\<lambda>s. snd (snd (recorded (map_of recs') s)) ! g) ss) =
      take (group_tables b ss g) (cpu_drop ?ts free ! g)"
    using Cons.IH [OF _ room plan] Cons.prems(1,4) by simp_all
  have later: "map (\<lambda>s. snd (snd (recorded (map_of recs) s)) ! g) ss =
      map (\<lambda>s. snd (snd (recorded (map_of recs') s)) ! g) ss" for g
    using other by (auto simp: recorded_def eq)
  have head: "snd (snd (recorded (map_of recs) s)) = ?cpu" by (simp add: recorded_def swap_state_def eq)
  show ?case
  proof (intro conjI ballI allI impI)
    fix x assume "x \<in> set (s # ss)"
    then show "\<exists>cpu. map_of recs (seq_id x) = Some (swap_state b x cpu) \<and> length cpu = em_groups b \<and>
      (\<forall>g < em_groups b. length (cpu ! g) = length (tables_of b x ! g))"
    proof (cases "x \<in> set ss")
      case True
      then show ?thesis using IH(1) other [OF True] by (simp add: eq)
    next
      case False
      then have "x = s" using \<open>x \<in> set (s # ss)\<close> by simp
      then show ?thesis
        using Cons.prems(1) fits by (intro exI [where x = ?cpu]) (simp add: eq min_absorb2)
    qed
  next
    fix g assume g: "g < em_groups b"
    have "take (length (?ts ! g)) (free ! g) @ take (group_tables b ss g) (drop (length (?ts ! g)) (free ! g)) =
      take (length (?ts ! g) + group_tables b ss g) (free ! g)" by (simp add: take_add)
    then show "concat (map (\<lambda>s. snd (snd (recorded (map_of recs) s)) ! g) (s # ss)) =
      take (group_tables b (s # ss) g) (free ! g)"
      using IH(2) g Cons.prems(1) unfolding list.map concat.simps later head
      by (simp add: group_tables_def)
  qed
qed

section \<open>Asking for a swap-in\<close>

lemma swap_in_needs:
  assumes ok: "em_ok b" and ready: "\<forall>s \<in> set ss. map_of (em_swapped_sequences b) (seq_id s) \<noteq> None \<and> rec_ok b (swap_rec b s)"
    and "length required = em_groups b"
  shows "em_swap_in_needs ss required b =
    (Inr (Some (map (\<lambda>g. required ! g + sum_list (map (\<lambda>s. length (rec_cpu b s ! g)) ss)) [0..<em_groups b])), b)"
  using assms(2,3)
proof (induction ss arbitrary: required)
  case Nil
  then show ?case using map_nth [of required] by (simp add: ret_def)
next
  case (Cons s ss)
  obtain n ev cpu where rec: "swap_rec b s = (n, ev, cpu)" by (cases "swap_rec b s")
  then have look: "map_of (em_swapped_sequences b) (seq_id s) = Some (n, ev, cpu)" "length cpu = em_groups b"
    using Cons.prems(1) by (auto simp: swap_rec_def rec_ok_def)
  then have "add_table_lens required cpu = Inr (map (\<lambda>g. required ! g + length (cpu ! g)) [0..<em_groups b])"
    using Cons.prems(2) by (simp add: add_table_lens_def)
  then show ?case
    using Cons.IH [of "map (\<lambda>g. required ! g + length (cpu ! g)) [0..<em_groups b]"] Cons.prems look
    by (simp add: bnd_def gets_def lift_err_def rec add.assoc cong: map_cong)
qed

definition gpu_room :: "ellm_manager \<Rightarrow> Sequence list \<Rightarrow> bool" where
  "gpu_room b ss \<longleftrightarrow>
     (\<forall>g < em_groups b. sum_list (map (\<lambda>s. length (rec_cpu b s ! g)) ss) \<le> kv_avail (em_cache_map b) g)"

lemma em_can_swap_in_ok:
  assumes ok: "em_ok b" and ready: "swap_ready b (get_seqs (Some SWAPPED) grp)"
  shows "em_can_swap_in grp 0 b = (Inr (if gpu_room b (get_seqs (Some SWAPPED) grp) then OK else LATER), b)"
proof -
  let ?ss = "get_seqs (Some SWAPPED) grp" and ?G = "em_groups b"
  let ?need = "map (\<lambda>g. sum_list (map (\<lambda>s. length (rec_cpu b s ! g)) ?ss)) [0..<?G]"
  have "em_swap_in_needs ?ss (map (\<lambda>_. 0) [0..<?G]) b = (Inr (Some ?need), b)"
    using swap_in_needs [OF ok, of ?ss "map (\<lambda>_. 0) [0..<?G]"] ready by (simp add: swap_ready_def cong: map_cong)
  moreover have "all_each [0..<?G] (\<lambda>g. bnd (on_map (get_num_free_blocks (Some g))) (\<lambda>n. ret (?need ! g \<le> n))) b =
    (Inr (\<forall>g \<in> set [0..<?G]. sum_list (map (\<lambda>s. length (rec_cpu b s ! g)) ?ss) \<le> kv_avail (em_cache_map b) g), b)"
    by (intro all_each_pure) (simp add: bnd_def free_blocks_query [OF ok] ret_def)
  ultimately show ?thesis
    by (simp add: em_can_swap_in_def bnd_def gets_def layer_groups_def gpu_room_def Ball_def ret_def)
qed

text \<open>What a swap-out leaves is ready to be swapped in again.\<close>

lemma swapped_out_ready:
  assumes ok: "em_ok b" and known: "\<forall>s \<in> set ss. kvL (em_cache_map b) (seq_id s) \<noteq> None"
    and dist: "distinct (map seq_id ss)" and room: "cpu_room b ss"
    and plan: "out_plan b ss (em_free_cpu_blocks b) = (ms, recs, rest)"
    and t: "swapped_out b (seq_id ` set ss) (map_of recs) rest t"
    and ss': "map seq_id ss' = map seq_id ss"
  shows "swap_ready t ss'" "\<And>s s'. seq_id s' = seq_id s \<Longrightarrow> s \<in> set ss \<Longrightarrow> swap_rec t s' = recorded (map_of recs) s"
proof -
  have len: "length (em_free_cpu_blocks b) = em_groups b" using em_okD(5) [OF ok] .
  note R = out_plan_records [OF len room [unfolded cpu_room_def] plan dist]
  have c: "kv_consts (em_cache_map t) = kv_consts (em_cache_map b)" using t by (simp add: swapped_out_def dropped_def)
  have rec: "swap_rec t s' = recorded (map_of recs) s \<and> map_of (em_swapped_sequences t) (seq_id s') = map_of recs (seq_id s)"
    if "seq_id s' = seq_id s" "s \<in> set ss" for s s'
    using t that R by (fastforce simp: swap_rec_def recorded_def swapped_out_def map_add_def)
  then show "\<And>s s'. seq_id s' = seq_id s \<Longrightarrow> s \<in> set ss \<Longrightarrow> swap_rec t s' = recorded (map_of recs) s" by blast
  have "kvL (em_cache_map t) (seq_id s') = None \<and> map_of (em_swapped_sequences t) (seq_id s') \<noteq> None \<and> rec_ok t (swap_rec t s')"
    if "s' \<in> set ss'" for s'
  proof -
    have "seq_id s' \<in> seq_id ` set ss" using that ss' by (metis image_eqI list.set_map)
    then obtain s where s: "s \<in> set ss" "seq_id s' = seq_id s" by auto
    from R s(1) obtain cpu where cpu: "map_of recs (seq_id s) = Some (swap_state b s cpu)" "length cpu = em_groups b"
      "\<forall>g < em_groups b. length (cpu ! g) = length (tables_of b s ! g)" by blast
    from known s(1) obtain n where n: "kvL (em_cache_map b) (seq_id s) = Some n" by blast
    have inv: "kv_inv (em_cache_map b)" using em_okD(1) [OF ok] .
    then have seqs: "seqs_ok (em_cache_map b)" by (simp add: kv_inv_def)
    obtain p where p: "kvP (em_cache_map b) (seq_id s) = Some p"
      using kvL_None_iff [OF seqs, of "seq_id s"] n by auto
    note V = view_present [OF seqs n p]
    have bs: "em_block_size t = kv_block_size (em_cache_map b)" "em_groups t = em_groups b"
      using t c em_okD(2) [OF ok] by (simp_all add: swapped_out_def em_frame_def kv_consts_eq)
    have "0 < kv_block_size (em_cache_map b)" using em_okD(2,3) [OF ok] by simp
    then have "rec_ok t (swap_state b s cpu)"
      using V n p cpu(2,3) retained_tables_nth [OF inv n p] by (simp add: rec_ok_def swap_state_def bs evicted_def)
    moreover have "swap_rec t s' = swap_state b s cpu" using rec [OF s(2,1)] cpu(1) by (simp add: recorded_def)
    moreover have "kvL (em_cache_map t) (seq_id s') = None" using t s by (simp add: swapped_out_def dropped_def)
    ultimately show ?thesis using rec [OF s(2,1)] cpu(1) by simp
  qed
  then show "swap_ready t ss'" using dist ss' by (simp add: swap_ready_def)
qed

section \<open>The contract of a swap-out\<close>

text \<open>
  C32. A swap-out returns exactly if every layer group has enough free CPU blocks; otherwise it raises
  and nothing has changed. When it returns, the \<open>k\<close>-th block of the sequences' tables is copied to
  the \<open>k\<close>-th free CPU block of the layer group, those CPU blocks leave the queue, the sequences leave
  the map and every other sequence stays, and for each sequence its length, its evicted prefix and
  its CPU blocks are recorded, the CPU blocks of the sequences one after the other.
\<close>

theorem swap_out_copies:
  assumes ok: "em_ok b" and ss: "ss = get_seqs (Some RUNNING) grp"
    and known: "\<forall>s \<in> set ss. kvL (em_cache_map b) (seq_id s) \<noteq> None" and dist: "distinct (map seq_id ss)"
  shows "wp (em_swap_out grp)
    (\<lambda>ms t. cpu_room b ss \<and> em_ok t \<and> em_frame b t \<and> dropped (seq_id ` set ss) (em_cache_map b) (em_cache_map t) \<and>
       (\<forall>g < em_groups b. group_copies g ms = zip (gpu_blocks b ss g) (em_free_cpu_blocks b ! g) \<and>
          em_free_cpu_blocks t ! g = drop (group_tables b ss g) (em_free_cpu_blocks b ! g) \<and>
          concat (map (\<lambda>s. rec_cpu t s ! g) ss) = take (group_tables b ss g) (em_free_cpu_blocks b ! g)) \<and>
       (\<forall>s \<in> set ss. \<exists>n cpu. kvL (em_cache_map b) (seq_id s) = Some n \<and>
          map_of (em_swapped_sequences t) (seq_id s) = Some (n, evicted (em_cache_map b) (seq_id s), cpu) \<and>
          map length cpu = map length (tables_of b s)) \<and>
       (\<forall>i. i \<notin> seq_id ` set ss \<longrightarrow> map_of (em_swapped_sequences t) i = map_of (em_swapped_sequences b) i))
    (\<lambda>_ t. t = b \<and> \<not> cpu_room b ss) b"
proof -
  obtain ms recs rest where plan: "out_plan b ss (em_free_cpu_blocks b) = (ms, recs, rest)"
    by (metis prod.exhaust)
  show ?thesis
    unfolding ss
  proof (rule wp_mono [OF em_swap_out_ok [OF ok known [unfolded ss] dist [unfolded ss] plan [unfolded ss]]], goal_cases)
    case (1 r t)
    then have r: "r = ms" and room: "cpu_room b ss" and t: "swapped_out b (seq_id ` set ss) (map_of recs) rest t"
      by (simp_all add: ss)
    have len: "length (em_free_cpu_blocks b) = em_groups b" using em_okD(5) [OF ok] .
    note room' = room [unfolded cpu_room_def]
    note G = out_plan_group [OF len room' plan] and R = out_plan_records [OF len room' plan dist]
    have rec: "map_of (em_swapped_sequences t) (seq_id s) = map_of recs (seq_id s) \<and>
      swap_rec t s = recorded (map_of recs) s" if "s \<in> set ss" for s
      using t that R by (fastforce simp: swap_rec_def recorded_def swapped_out_def map_add_def)
    then have cpus: "map (\<lambda>s. rec_cpu t s ! g) ss = map (\<lambda>s. snd (snd (recorded (map_of recs) s)) ! g) ss" for g
      by simp
    have "\<exists>n cpu. kvL (em_cache_map b) (seq_id s) = Some n \<and>
        map_of (em_swapped_sequences t) (seq_id s) = Some (n, evicted (em_cache_map b) (seq_id s), cpu) \<and>
        map length cpu = map length (tables_of b s)" if s: "s \<in> set ss" for s
    proof -
      from known s obtain n where n: "kvL (em_cache_map b) (seq_id s) = Some n" by blast
      from R s obtain cpu where "map_of recs (seq_id s) = Some (swap_state b s cpu)" "length cpu = em_groups b"
        "\<forall>g < em_groups b. length (cpu ! g) = length (tables_of b s ! g)" by blast
      then show ?thesis using rec [OF s] n
        by (intro exI [where x = n] exI [where x = cpu]) (simp add: swap_state_def list_eq_iff_nth_eq)
    qed
    moreover have "map_of (em_swapped_sequences t) i = map_of (em_swapped_sequences b) i" if "i \<notin> seq_id ` set ss" for i
      using t that by (simp add: swapped_out_def map_add_def restrict_map_def)
    ultimately show ?case
      using t G R room by (simp add: ss [symmetric] r cpus swapped_out_def del: map_eq_conv)
  qed simp
qed

section \<open>The round trip\<close>

definition restored :: "ellm_manager \<Rightarrow> Sequence list \<Rightarrow> ellm_manager \<Rightarrow> bool" where
  "restored b ss u \<longleftrightarrow> em_ok u \<and> em_frame b u \<and> kvL (em_cache_map u) = kvL (em_cache_map b) \<and>
     kvP (em_cache_map u) = kvP (em_cache_map b) \<and>
     map_of (em_swapped_sequences u) = map_of (em_swapped_sequences b) \<and>
     (\<forall>g < em_groups b. mset (em_free_cpu_blocks u ! g) = mset (em_free_cpu_blocks b ! g))"

lemma copies_concat:
  assumes "\<forall>s \<in> set ss. length (r s) = em_groups b \<and> length (t s) = em_groups b \<and> length (r s ! g) = length (t s ! g)"
    and "g < em_groups b"
  shows "group_copies g (concat (map (\<lambda>s. swap_triples (r s) (t s)) ss)) =
    zip (concat (map (\<lambda>s. r s ! g) ss)) (concat (map (\<lambda>s. t s ! g) ss))"
  using assms(1) by (induction ss) (simp_all add: group_copies_swap assms(2))

lemma swapped_in_tables:
  assumes t: "swapped_in b ss u" and ready: "swap_ready b ss" and s: "s \<in> set ss" and g: "g < em_groups b"
  shows "length (rec_cpu b s) = em_groups b" "length (rec_cpu b s ! g) = length (tables_of u s ! g)"
    "em_groups u = em_groups b" "em_block_size u = em_block_size b"
proof -
  obtain n ev cpu where rec: "swap_rec b s = (n, ev, cpu)" by (cases "swap_rec b s")
  have uok: "em_ok u" using t by (simp add: swapped_in_def)
  have inv: "kv_inv (em_cache_map u)" using em_okD(1) [OF uok] .
  show bs: "em_block_size u = em_block_size b" using t by (simp add: swapped_in_def em_frame_def)
  show gs: "em_groups u = em_groups b" using t
    by (simp add: swapped_in_def kv_consts_eq)
  show "length (rec_cpu b s) = em_groups b" using ready s rec by (auto simp: swap_ready_def rec_ok_def)
  have L: "kvL (em_cache_map u) (seq_id s) = Some n" "evicted (em_cache_map u) (seq_id s) = ev"
    using t s rec by (auto simp: swapped_in_def)
  then obtain p where p: "kvP (em_cache_map u) (seq_id s) = Some p"
    using kvL_None_iff [of "em_cache_map u" "seq_id s"] inv by (auto simp: kv_inv_def)
  have "p = ev div em_block_size b"
    using L(2) p em_okD(2,3) [OF uok] bs by (auto simp: evicted_def)
  then show "length (rec_cpu b s ! g) = length (tables_of u s ! g)"
    using ready s g rec retained_tables_nth [OF inv L(1) p, of g] gs bs em_okD(2) [OF uok]
    by (auto simp: swap_ready_def rec_ok_def)
qed

text \<open>
  The blocks of the sequences swapped in are pairwise different: their number is the number of free
  blocks the pool has given up.
\<close>

definition used_blocks :: "kv_map \<Rightarrow> nat \<Rightarrow> nat set" where
  "used_blocks m g = {b. (g, b) \<in># held m}"

lemma used_blocks_view:
  "used_blocks m g = {ke_physical_block_id e |e tmp i l. kvE tmp m i l g = Some e}" if "kv_inv m"
proof -
  have d: "distinct (dkeys (kv_dict tmp m))" for tmp
    using that kv_ok_distinct [of m "{#}" tmp] unfolding kv_inv_def by blast
  have "(g, b) \<in># owned (kv_dict tmp m) \<longleftrightarrow> (\<exists>i l e. kvE tmp m i l g = Some e \<and> ke_physical_block_id e = b)" for tmp b
  proof -
    have "(g, b) \<in># owned (kv_dict tmp m) \<longleftrightarrow> (\<exists>k e. (k, e) \<in> set (kv_dict tmp m) \<and> key_group k = g \<and> ke_physical_block_id e = b)"
      by (force simp: owned_def)
    also have "\<dots> \<longleftrightarrow> (\<exists>i l e. map_of (kv_dict tmp m) (i, l, g) = Some e \<and> ke_physical_block_id e = b)"
      using d [of tmp] by (auto simp: map_of_eq_Some_iff)
    finally show ?thesis by (simp add: kvE_def)
  qed
  from this [where tmp = False] this [where tmp = True] show ?thesis
    unfolding used_blocks_def held_def by (auto, (metis (full_types))+)
qed

lemma used_blocks_card:
  assumes "kv_inv m" "g < kv_num_layer_groups m"
  shows "finite (used_blocks m g)" "card (used_blocks m g) + kv_avail m g = kv_num_physical_blocks m"
proof -
  have ok: "pool_ok m (held m)" using assms(1) by (simp add: kv_inv_def kv_ok_def)
  note D = pool_okD [OF ok]
  have sub: "used_blocks m g \<subseteq> {..<kv_num_physical_blocks m}" using D(7) by (auto simp: used_blocks_def)
  then show fin: "finite (used_blocks m g)" by (rule finite_subset) simp
  have free: "set (kv_free_blocks m ! g) = {..<kv_num_physical_blocks m} - used_blocks m g"
    by (rule set_eqI) (simp add: D(5) [OF assms(2)] used_blocks_def count_eq_zero_iff)
  have "kv_avail m g = card (set (kv_free_blocks m ! g))"
    using D(1) D(4) [OF assms(2)] assms(2) by (simp add: kv_avail_def distinct_card)
  also have "\<dots> = kv_num_physical_blocks m - card (used_blocks m g)"
    unfolding free using sub by (simp add: card_Diff_subset [OF fin])
  finally show "card (used_blocks m g) + kv_avail m g = kv_num_physical_blocks m"
    using card_mono [OF _ sub] by simp
qed

lemma swapped_in_distinct:
  assumes ok: "em_ok b" and t: "swapped_in b ss u" and ready: "swap_ready b ss" and g: "g < em_groups b"
  shows "distinct (gpu_blocks u ss g)"
proof (rule card_distinct)
  let ?b = "em_cache_map b" and ?u = "em_cache_map u"
  have inv: "kv_inv ?b" "kv_inv ?u" using t em_okD(1) [OF ok] em_okD(1) by (auto simp: swapped_in_def)
  have c: "kv_consts ?u = kv_consts ?b" using t by (simp add: swapped_in_def)
  have "used_blocks ?u g \<subseteq> used_blocks ?b g \<union> set (gpu_blocks u ss g)"
  proof
    fix x assume "x \<in> used_blocks ?u g"
    then obtain e tmp i l where e: "kvE tmp ?u i l g = Some e" "x = ke_physical_block_id e"
      using used_blocks_view [OF inv(2)] by auto
    show "x \<in> used_blocks ?b g \<union> set (gpu_blocks u ss g)"
    proof (cases "i \<in> seq_id ` set ss")
      case False
      then have "kvE tmp ?b i l g = Some e" using t e(1) by (simp add: swapped_in_def)
      then show ?thesis using e(2) used_blocks_view [OF inv(1)] by blast
    next
      case True
      then obtain s where s: "s \<in> set ss" "i = seq_id s" by blast
      have tmp: "\<not> tmp" using t s e(1) by (cases tmp) (auto simp: swapped_in_def)
      obtain n where n: "kvL ?u i = Some n" using t s by (simp add: swapped_in_def)
      then obtain p where p: "kvP ?u i = Some p"
        using kvL_None_iff [of ?u i] inv(2) by (auto simp: kv_inv_def)
      have seqs: "seqs_ok ?u" using inv(2) by (simp add: kv_inv_def)
      have gu: "g < kv_num_layer_groups ?u" using g c by (simp add: kv_consts_eq)
      have "l \<in> {p..<ceil_div n (kv_block_size ?u)}"
        using view_present(3) [OF seqs n p, of l g] e(1) tmp by simp
      then have "x \<in> set (tables_of u s ! g)"
        using retained_tables_nth [OF inv(2) n p gu] e tmp s(2) by (force simp: image_iff)
      then show ?thesis using s(1) by (auto simp: gpu_blocks_def)
    qed
  qed
  then have "card (used_blocks ?u g) \<le> card (used_blocks ?b g) + card (set (gpu_blocks u ss g))"
    using used_blocks_card(1) [OF inv(1) g] card_mono [of "used_blocks ?b g \<union> set (gpu_blocks u ss g)" "used_blocks ?u g"]
      card_Un_le [of "used_blocks ?b g" "set (gpu_blocks u ss g)"] by simp
  moreover have "length (gpu_blocks u ss g) = sum_list (map (\<lambda>s. length (rec_cpu b s ! g)) ss)"
    using swapped_in_tables(2) [OF t ready _ g]
    by (simp add: length_gpu_blocks group_tables_def cong: map_cong)
  moreover have "kv_avail ?u g + sum_list (map (\<lambda>s. length (rec_cpu b s ! g)) ss) = kv_avail ?b g"
    using t g by (simp add: swapped_in_def)
  ultimately have "length (gpu_blocks u ss g) \<le> card (set (gpu_blocks u ss g))"
    using used_blocks_card(2) [OF inv(1), of g] used_blocks_card(2) [OF inv(2), of g] g c by (simp add: kv_consts_eq)
  then show "card (set (gpu_blocks u ss g)) = length (gpu_blocks u ss g)"
    using card_length [of "gpu_blocks u ss g"] by simp
qed

lemma zip_take_right: "zip xs (take (length xs) ys) = zip xs ys"
proof (induction xs arbitrary: ys)
  case (Cons x xs)
  then show ?case by (cases ys) simp_all
qed simp

text \<open>Tables and records depend on the sequence's id only.\<close>

lemma gpu_blocks_ids: "map seq_id ss = map seq_id ss' \<Longrightarrow> gpu_blocks b ss g = gpu_blocks b ss' g"
  unfolding gpu_blocks_def by (rule arg_cong [of _ _ concat]) (simp add: list_eq_iff_nth_eq)

lemma rec_cpu_ids:
  "map seq_id ss = map seq_id ss' \<Longrightarrow> map (\<lambda>s. rec_cpu b s ! g) ss = map (\<lambda>s. rec_cpu b s ! g) ss'"
  by (simp add: swap_rec_def list_eq_iff_nth_eq)

lemma restored_map:
  assumes ok: "em_ok b" and t: "swapped_out b ids recs rest t" and u: "swapped_in t ss u"
    and ids: "ids = seq_id ` set ss" and recs: "\<forall>s \<in> set ss. \<exists>cpu. recs (seq_id s) = Some (swap_state b s cpu)"
    and known: "\<forall>i \<in> ids. kvL (em_cache_map b) i \<noteq> None"
  shows "kvL (em_cache_map u) = kvL (em_cache_map b)" "kvP (em_cache_map u) = kvP (em_cache_map b)"
proof -
  have uok: "em_ok u" using u by (simp add: swapped_in_def)
  have c: "kv_block_size (em_cache_map u) = kv_block_size (em_cache_map b)"
    using t u by (simp add: swapped_in_def swapped_out_def dropped_def kv_consts_eq)
  have pos: "0 < kv_block_size (em_cache_map b)" using em_okD(2,3) [OF ok] by simp
  have "kvL (em_cache_map u) i = kvL (em_cache_map b) i \<and> kvP (em_cache_map u) i = kvP (em_cache_map b) i" for i
  proof (cases "i \<in> ids")
    case False
    then show ?thesis using t u ids by (simp add: swapped_out_def swapped_in_def dropped_def)
  next
    case True
    then obtain s where s: "s \<in> set ss" "i = seq_id s" using ids by blast
    from recs s obtain cpu where "recs i = Some (swap_state b s cpu)" by blast
    then have rec: "swap_rec t s = swap_state b s cpu"
      using t True s by (simp add: swap_rec_def swapped_out_def map_add_def)
    from known True obtain n where n: "kvL (em_cache_map b) i = Some n" by blast
    have new: "kvL (em_cache_map u) i = Some n" "evicted (em_cache_map u) i = evicted (em_cache_map b) i"
      using u s rec n by (simp_all add: swapped_in_def swap_state_def)
    have "kvP (em_cache_map b) i \<noteq> None" "kvP (em_cache_map u) i \<noteq> None"
      using kvL_None_iff [of "em_cache_map b" i] kvL_None_iff [of "em_cache_map u" i] n new(1)
        em_okD(1) [OF ok] em_okD(1) [OF uok] by (auto simp: kv_inv_def)
    then show ?thesis using n new c pos by (auto simp: evicted_def)
  qed
  then show "kvL (em_cache_map u) = kvL (em_cache_map b)" "kvP (em_cache_map u) = kvP (em_cache_map b)" by auto
qed

lemma round_trip:
  assumes ok: "em_ok b" and ss: "ss = get_seqs (Some RUNNING) grp" "ss' = get_seqs (Some SWAPPED) grp'"
    and known: "\<forall>s \<in> set ss. kvL (em_cache_map b) (seq_id s) \<noteq> None" and dist: "distinct (map seq_id ss)"
    and new: "\<forall>s \<in> set ss. map_of (em_swapped_sequences b) (seq_id s) = None"
    and ids: "map seq_id ss' = map seq_id ss" and out: "em_swap_out grp b = (Inr ms, t)"
  shows "em_can_swap_in grp' 0 t = (Inr (if gpu_room t ss' then OK else LATER), t)"
    and "wp (em_swap_in grp' 0)
      (\<lambda>ms' u. gpu_room t ss' \<and> restored b ss u \<and> (\<forall>g < em_groups b. distinct (gpu_blocks u ss g) \<and> (\<exists>cpus.
          cpus = take (group_tables b ss g) (em_free_cpu_blocks b ! g) \<and>
          length cpus = length (gpu_blocks b ss g) \<and> length cpus = length (gpu_blocks u ss g) \<and>
          group_copies g ms = zip (gpu_blocks b ss g) cpus \<and> group_copies g ms' = zip cpus (gpu_blocks u ss g))))
      (\<lambda>_ u. \<not> gpu_room t ss' \<and> undone t u) t"
proof -
  obtain ms' recs rest where plan: "out_plan b ss (em_free_cpu_blocks b) = (ms', recs, rest)"
    by (metis prod.exhaust)
  from em_swap_out_ok [OF ok known [unfolded ss] dist [unfolded ss] plan [unfolded ss]] out
  have t: "ms' = ms" "cpu_room b ss" "swapped_out b (seq_id ` set ss) (map_of recs) rest t"
    by (simp_all add: wp_def ss)
  have len: "length (em_free_cpu_blocks b) = em_groups b" using em_okD(5) [OF ok] .
  have tok: "em_ok t" and c: "kv_consts (em_cache_map t) = kv_consts (em_cache_map b)" and fr: "em_frame b t"
    using t(3) by (simp_all add: swapped_out_def dropped_def)
  note room = t(2) [unfolded cpu_room_def]
  note G = out_plan_group [OF len room plan] and R = out_plan_records [OF len room plan dist]
  note ready = swapped_out_ready [OF ok known dist t(2) plan t(3) ids]
  show "em_can_swap_in grp' 0 t = (Inr (if gpu_room t ss' then OK else LATER), t)"
    unfolding ss by (rule em_can_swap_in_ok [OF tok]) (use ready(1) ss in simp)
  have "wp (em_swap_in grp' 0)
    (\<lambda>ms' u. ms' = in_mappings t u ss' \<and> swapped_in t ss' u)
    (\<lambda>_ u. undone t u \<and> (\<exists>g < em_groups t. kv_avail (em_cache_map t) g <
       sum_list (map (\<lambda>s. length (rec_cpu t s ! g)) ss'))) t"
    using em_swap_in_ok [OF tok, of grp'] ready(1) ss by simp
  then show "wp (em_swap_in grp' 0)
      (\<lambda>ms' u. gpu_room t ss' \<and> restored b ss u \<and> (\<forall>g < em_groups b. distinct (gpu_blocks u ss g) \<and> (\<exists>cpus.
          cpus = take (group_tables b ss g) (em_free_cpu_blocks b ! g) \<and>
          length cpus = length (gpu_blocks b ss g) \<and> length cpus = length (gpu_blocks u ss g) \<and>
          group_copies g ms = zip (gpu_blocks b ss g) cpus \<and> group_copies g ms' = zip cpus (gpu_blocks u ss g))))
      (\<lambda>_ u. \<not> gpu_room t ss' \<and> undone t u) t"
  proof (rule wp_mono)
    fix ms'' u
    assume u: "ms'' = in_mappings t u ss' \<and> swapped_in t ss' u"
    have gs: "em_groups t = em_groups b" using c by (simp add: kv_consts_eq)
    have room': "gpu_room t ss'"
      using u by (fastforce simp: gpu_room_def swapped_in_def)
    have set': "seq_id ` set ss' = seq_id ` set ss" using ids by (metis list.set_map)
    let ?cpus = "\<lambda>g. take (group_tables b ss g) (em_free_cpu_blocks b ! g)"
    have cpus: "concat (map (\<lambda>s. rec_cpu t s ! g) ss') = ?cpus g" if g: "g < em_groups b" for g
    proof -
      have "map (\<lambda>s. rec_cpu t s ! g) ss' = map (\<lambda>s. snd (snd (recorded (map_of recs) s)) ! g) ss"
        unfolding rec_cpu_ids [OF ids] using ready(2) by simp
      then show ?thesis using R g by simp
    qed
    have states: "\<forall>s \<in> set ss'. \<exists>cpu. map_of recs (seq_id s) = Some (swap_state b s cpu)"
    proof
      fix s' assume "s' \<in> set ss'"
      then have "seq_id s' \<in> seq_id ` set ss" using set' by blast
      then obtain s where "s \<in> set ss" "seq_id s = seq_id s'" by auto
      with R show "\<exists>cpu. map_of recs (seq_id s') = Some (swap_state b s' cpu)" by (fastforce simp: swap_state_def)
    qed
    have "kvL (em_cache_map u) = kvL (em_cache_map b)" "kvP (em_cache_map u) = kvP (em_cache_map b)"
      using restored_map [OF ok t(3) conjunct2 [OF u] set' [symmetric] states] known by auto
    moreover have "map_of (em_swapped_sequences u) = map_of (em_swapped_sequences b)"
      using u t(3) new set' by (auto simp: swapped_in_def swapped_out_def fun_eq_iff restrict_map_def map_add_def)
    moreover have "mset (em_free_cpu_blocks u ! g) = mset (em_free_cpu_blocks b ! g)" if g: "g < em_groups b" for g
    proof -
      have "em_free_cpu_blocks u ! g = drop (group_tables b ss g) (em_free_cpu_blocks b ! g) @ ?cpus g"
        using u t(3) G g gs cpus [OF g] by (simp add: swapped_in_def swapped_out_def)
      then show ?thesis by (metis append_take_drop_id mset_append union_commute)
    qed
    moreover have "em_ok u" "em_frame b u" using u fr by (simp_all add: swapped_in_def em_frame_def)
    ultimately have "restored b ss u" by (simp add: restored_def)
    note room' this
    moreover have "distinct (gpu_blocks u ss g)" if "g < em_groups b" for g
      using swapped_in_distinct [OF tok conjunct2 [OF u] ready(1), of g] that gs gpu_blocks_ids [OF ids] by simp
    moreover have "\<exists>cpus. cpus = ?cpus g \<and> length cpus = length (gpu_blocks b ss g) \<and> length cpus = length (gpu_blocks u ss g) \<and>
          group_copies g ms = zip (gpu_blocks b ss g) cpus \<and> group_copies g ms'' = zip cpus (gpu_blocks u ss g)"
      if g: "g < em_groups b" for g
    proof (intro exI [where x = "?cpus g"] conjI refl)
      have tabs: "length (rec_cpu t s) = em_groups b" "length (rec_cpu t s ! g) = length (tables_of u s ! g)"
        "length (tables_of u s) = em_groups b" if "s \<in> set ss'" for s
        using swapped_in_tables [OF conjunct2 [OF u] ready(1) that, of g] g gs by simp_all
      have same: "gpu_blocks u ss g = gpu_blocks u ss' g" by (rule gpu_blocks_ids [OF ids [symmetric]])
      have "group_tables b ss g \<le> length (em_free_cpu_blocks b ! g)" using room g by blast
      then show "length (?cpus g) = length (gpu_blocks b ss g)" by (simp add: length_gpu_blocks)
      have "length (?cpus g) = sum_list (map (\<lambda>s. length (rec_cpu t s ! g)) ss')"
        unfolding cpus [OF g, symmetric] by (simp add: length_concat comp_def)
      also have "\<dots> = length (gpu_blocks u ss' g)"
        using tabs(2) by (simp add: length_gpu_blocks group_tables_def cong: map_cong)
      finally show "length (?cpus g) = length (gpu_blocks u ss g)" by (simp only: same)
      show "group_copies g ms = zip (gpu_blocks b ss g) (?cpus g)"
        using G [OF g] t(1) by (simp add: length_gpu_blocks [symmetric] zip_take_right)
      show "group_copies g ms'' = zip (?cpus g) (gpu_blocks u ss g)"
        unfolding same unfolding gpu_blocks_def cpus [OF g, symmetric] conjunct1 [OF u] in_mappings_def
        by (rule copies_concat [of _ _ t]) (use tabs g gs in simp_all)
    qed
    ultimately show "gpu_room t ss' \<and> restored b ss u \<and> (\<forall>g < em_groups b. distinct (gpu_blocks u ss g) \<and> (\<exists>cpus.
          cpus = ?cpus g \<and> length cpus = length (gpu_blocks b ss g) \<and> length cpus = length (gpu_blocks u ss g) \<and>
          group_copies g ms = zip (gpu_blocks b ss g) cpus \<and> group_copies g ms'' = zip cpus (gpu_blocks u ss g)))"
      by blast
  qed (auto simp: gpu_room_def not_le)
qed

theorem swap_out_copies_witness:
  "\<exists>ms t. em_swap_out demo_running demo_em1 = (Inr ms, t) \<and> length (group_copies 1 ms) = 3 \<and>
     em_free_cpu_blocks t ! 1 = drop 3 (em_free_cpu_blocks demo_em1 ! 1) \<and> kvL (em_cache_map t) 0 = None"
proof -
  let ?ss = "get_seqs (Some RUNNING) demo_running"
  have ss: "?ss = [demo_seq 0 6 RUNNING]" by (simp add: demo_running_def get_seqs_def)
  have id: "seq_id (demo_seq 0 6 RUNNING) = 0" by code_simp
  have n: "kvL (em_cache_map demo_em1) 0 \<noteq> None" "group_tables demo_em1 [demo_seq 0 6 RUNNING] 1 = 3"
    "cpu_room demo_em1 [demo_seq 0 6 RUNNING]" "length (em_free_cpu_blocks demo_em1 ! 1) = 4"
    by code_simp+
  have "wp (em_swap_out demo_running)
    (\<lambda>ms t. length (group_copies 1 ms) = 3 \<and> em_free_cpu_blocks t ! 1 = drop 3 (em_free_cpu_blocks demo_em1 ! 1) \<and>
       kvL (em_cache_map t) 0 = None) (\<lambda>_ _. False) demo_em1"
  proof (rule wp_mono [OF swap_out_copies [OF demo_em1_ready(1) refl]], goal_cases)
    case (3 ms t)
    then show ?case using n demo_em1_ready(4) id
      by (auto simp: ss length_gpu_blocks dropped_def)
  qed (use n ss id in simp_all)
  then show ?thesis by (auto simp: wp_def split: prod.splits sum.splits)
qed

text \<open>
  C33. The round trip. After a swap-out that returned, the same sequences (under their new status)
  can be swapped in exactly if the GPU has room for them in every layer group: the check answers
  \<open>OK\<close> or \<open>LATER\<close> accordingly and changes nothing. If there is no room the swap-in raises and has undone
  its own allocations. Otherwise it returns; every sequence has its length and its evicted prefix
  back, no record and no CPU block is left behind, and the copies out and the copies in go through
  the same CPU blocks, so that the \<open>k\<close>-th block of a sequence's table holds again what the \<open>k\<close>-th
  block held before.
\<close>

theorem swap_round_trip:
  assumes "em_ok b" "ss = get_seqs (Some RUNNING) grp" "ss' = get_seqs (Some SWAPPED) grp'"
    and "\<forall>s \<in> set ss. kvL (em_cache_map b) (seq_id s) \<noteq> None" "distinct (map seq_id ss)"
    and "\<forall>s \<in> set ss. map_of (em_swapped_sequences b) (seq_id s) = None"
    and "map seq_id ss' = map seq_id ss" "em_swap_out grp b = (Inr ms, t)"
  shows "em_can_swap_in grp' 0 t = (Inr (if gpu_room t ss' then OK else LATER), t) \<and>
    wp (em_swap_in grp' 0)
      (\<lambda>ms' u. gpu_room t ss' \<and> restored b ss u \<and> (\<forall>g < em_groups b. \<exists>cpus.
          length cpus = length (gpu_blocks b ss g) \<and> length cpus = length (gpu_blocks u ss g) \<and>
          group_copies g ms = zip (gpu_blocks b ss g) cpus \<and> group_copies g ms' = zip cpus (gpu_blocks u ss g)))
      (\<lambda>_ u. \<not> gpu_room t ss' \<and> undone t u) t"
proof
  show "em_can_swap_in grp' 0 t = (Inr (if gpu_room t ss' then OK else LATER), t)" by (rule round_trip [OF assms])
  show "wp (em_swap_in grp' 0)
      (\<lambda>ms' u. gpu_room t ss' \<and> restored b ss u \<and> (\<forall>g < em_groups b. \<exists>cpus.
          length cpus = length (gpu_blocks b ss g) \<and> length cpus = length (gpu_blocks u ss g) \<and>
          group_copies g ms = zip (gpu_blocks b ss g) cpus \<and> group_copies g ms' = zip cpus (gpu_blocks u ss g)))
      (\<lambda>_ u. \<not> gpu_room t ss' \<and> undone t u) t"
    by (rule wp_mono [OF round_trip(2) [OF assms]]) blast+
qed

theorem swap_round_trip_witness:
  "\<exists>ms t. em_swap_out demo_running demo_em1 = (Inr ms, t) \<and>
     (\<exists>ms' u. em_swap_in (demo_group ''a'' 0 [demo_seq 0 6 SWAPPED]) 0 t = (Inr ms', u) \<and>
        restored demo_em1 [demo_seq 0 6 RUNNING] u \<and> map fst (group_copies 1 ms') = map snd (group_copies 1 ms))"
proof -
  let ?grp' = "demo_group ''a'' 0 [demo_seq 0 6 SWAPPED]"
  let ?t = "snd (em_swap_out demo_running demo_em1)"
  have ss: "get_seqs (Some RUNNING) demo_running = [demo_seq 0 6 RUNNING]"
    "get_seqs (Some SWAPPED) ?grp' = [demo_seq 0 6 SWAPPED]" by (simp_all add: demo_running_def get_seqs_def demo_seq_def)
  have id: "seq_id (demo_seq 0 6 RUNNING) = 0" "seq_id (demo_seq 0 6 SWAPPED) = 0" by code_simp+
  have n: "kvL (em_cache_map demo_em1) 0 \<noteq> None" "map_of (em_swapped_sequences demo_em1) 0 = None"
    "\<not> isl (fst (em_swap_out demo_running demo_em1))"
    "list_all (\<lambda>g. sum_list (map (\<lambda>s. length (rec_cpu ?t s ! g)) [demo_seq 0 6 SWAPPED]) \<le> kv_avail (em_cache_map ?t) g)
       [0..<em_groups ?t]"
    by code_simp+
  have room: "gpu_room ?t [demo_seq 0 6 SWAPPED]" using n(4) by (simp add: gpu_room_def list_all_iff)
  from n(3) obtain ms where out: "em_swap_out demo_running demo_em1 = (Inr ms, ?t)"
    by (metis sum.collapse(2) prod.collapse)
  have "wp (em_swap_in ?grp' 0) (\<lambda>ms' u. restored demo_em1 [demo_seq 0 6 RUNNING] u \<and>
      map fst (group_copies 1 ms') = map snd (group_copies 1 ms)) (\<lambda>_ _. False) ?t"
  proof (rule wp_mono [OF conjunct2 [OF swap_round_trip [OF demo_em1_ready(1) refl refl _ _ _ _ out, of ?grp']]], goal_cases)
    case (5 ms' u)
    then have "restored demo_em1 [demo_seq 0 6 RUNNING] u" and "\<exists>cpus.
        length cpus = length (gpu_blocks demo_em1 [demo_seq 0 6 RUNNING] 1) \<and>
        length cpus = length (gpu_blocks u [demo_seq 0 6 RUNNING] 1) \<and>
        group_copies 1 ms = zip (gpu_blocks demo_em1 [demo_seq 0 6 RUNNING] 1) cpus \<and>
        group_copies 1 ms' = zip cpus (gpu_blocks u [demo_seq 0 6 RUNNING] 1)"
      using demo_em1_ready(4) by (simp_all add: ss)
    then show ?case by auto
  qed (use n room in \<open>simp_all add: ss id\<close>)
  then show ?thesis using out by (auto simp: wp_def split: prod.splits sum.splits)
qed

end
