(* ===== verification/Detokenizer.thy ===== *)
theory Detokenizer
  imports Seq_Group
begin

text \<open>
  \<^verbatim>\<open>vllm/transformers_utils/detokenizer.py\<close>: incremental detokenization. The tokenizer is a
  third-party object and a parameter; it is the record of what the code calls of it.
\<close>

text \<open>
  \<open>tk_convert_ids_to_tokens ids skip\<close> is called with a list of ids, for which it returns a list. The
  characters of a text are a \<^typ>\<open>char\<close> each; the replacement character U+FFFD that the code tests
  for is not among them and is a parameter, \<open>fffd\<close>.
\<close>

record tokenizer =
  tk_len :: int
  tk_convert_ids_to_tokens :: "int list \<Rightarrow> bool \<Rightarrow> string list"
  tk_convert_tokens_to_string :: "string list \<Rightarrow> string"
  tk_all_special_tokens :: "string list"
  tk_added_vocab :: "string list"
  tk_is_fast :: bool

definition INVALID_TOKEN_ID :: int where
  "INVALID_TOKEN_ID = -1"

section \<open>Tokens to text\<close>

text \<open>The loop body of \<^verbatim>\<open>_convert_tokens_to_string_with_added_encoders\<close> on the two local lists.\<close>

definition sub_text_step ::
  "tokenizer \<Rightarrow> bool \<Rightarrow> string list \<times> string list \<Rightarrow> string \<Rightarrow> string list \<times> string list"
where
  "sub_text_step tk skip_special_tokens st token = (case st of (sub_texts, current) \<Rightarrow>
     if skip_special_tokens \<and> token \<in> set (tk_all_special_tokens tk) then (sub_texts, current)
     else if token \<in> set (tk_added_vocab tk) then
       (if current \<noteq> [] then sub_texts @ [tk_convert_tokens_to_string tk current, token]
        else sub_texts @ [token], [])
     else (sub_texts, current @ [token]))"

fun join_texts :: "string \<Rightarrow> string list \<Rightarrow> string" where
  "join_texts sep [] = []"
| "join_texts sep [t] = t"
| "join_texts sep (t # ts) = t @ sep @ join_texts sep ts"

definition convert_tokens_to_string_with_added_encoders ::
  "tokenizer \<Rightarrow> string list \<Rightarrow> bool \<Rightarrow> bool \<Rightarrow> string"
where
  "convert_tokens_to_string_with_added_encoders tk output_tokens skip_special_tokens spaces =
     (case foldl (sub_text_step tk skip_special_tokens) ([], []) output_tokens of (sub_texts, current) \<Rightarrow>
        join_texts (if spaces then '' '' else [])
          (if current \<noteq> [] then sub_texts @ [tk_convert_tokens_to_string tk current] else sub_texts))"

definition INITIAL_INCREMENTAL_DETOKENIZATION_OFFSET :: nat where
  "INITIAL_INCREMENTAL_DETOKENIZATION_OFFSET = 5"

definition convert_prompt_ids_to_tokens ::
  "tokenizer \<Rightarrow> int list \<Rightarrow> bool \<Rightarrow> string list \<times> nat \<times> nat"
where
  "convert_prompt_ids_to_tokens tk prompt_ids skip_special_tokens =
     (let new_tokens = tk_convert_ids_to_tokens tk
            (drop (length prompt_ids - (INITIAL_INCREMENTAL_DETOKENIZATION_OFFSET + 2)) prompt_ids)
            skip_special_tokens;
          read_offset = length new_tokens in
      (new_tokens, read_offset - INITIAL_INCREMENTAL_DETOKENIZATION_OFFSET, read_offset))"

text \<open>The tokens of the new id, and the text of a list of tokens.\<close>

definition new_id_tokens :: "tokenizer \<Rightarrow> bool \<Rightarrow> int \<Rightarrow> string list" where
  "new_id_tokens tk skip_special_tokens new_token_id =
     (if new_token_id \<ge> tk_len tk then [[]]
      else tk_convert_ids_to_tokens tk [new_token_id] skip_special_tokens)"

definition tokens_text :: "tokenizer \<Rightarrow> bool \<Rightarrow> bool \<Rightarrow> string list \<Rightarrow> string" where
  "tokens_text tk skip_special_tokens spaces toks =
     (if tk_is_fast tk \<or> tk_added_vocab tk = [] then tk_convert_tokens_to_string tk toks
      else convert_tokens_to_string_with_added_encoders tk toks skip_special_tokens spaces)"

definition detokenize_incrementally ::
  "char \<Rightarrow> tokenizer \<Rightarrow> int list \<Rightarrow> string list option \<Rightarrow> nat \<Rightarrow> nat \<Rightarrow> bool \<Rightarrow> bool \<Rightarrow>
   py_error + string list \<times> string \<times> nat \<times> nat"
where
  "detokenize_incrementally fffd tk all_input_ids prev prefix_offset0 read_offset0 skip spaces =
     (case last_py all_input_ids of
        Inl e \<Rightarrow> Inl e
      | Inr new_token_id \<Rightarrow>
          let (prev_tokens, prefix_offset, read_offset) =
                (case prev of
                   None \<Rightarrow> convert_prompt_ids_to_tokens tk (butlast all_input_ids) skip
                 | Some ts \<Rightarrow> (ts, prefix_offset0, read_offset0));
              fresh = new_id_tokens tk skip new_token_id;
              output_tokens = prev_tokens @ fresh;
              new_tokens = (if prev = None then output_tokens else fresh);
              prefix_text = tokens_text tk skip spaces
                (take (read_offset - prefix_offset) (drop prefix_offset output_tokens));
              new_text = tokens_text tk skip spaces (drop prefix_offset output_tokens) in
          if length new_text \<le> length prefix_text \<or> last new_text = fffd then
            Inr (new_tokens, [], prefix_offset, read_offset)
          else Inr (new_tokens, drop (length prefix_text) new_text, read_offset, length output_tokens))"

section \<open>The detokenizer\<close>

text \<open>\<open>get_tokenizer\<close> is the tokenizer group's choice of the tokenizer for a LoRA request.\<close>

definition detok_for_logprob ::
  "char \<Rightarrow> tokenizer \<Rightarrow> SamplingParams \<Rightarrow> int list \<Rightarrow> string list option \<Rightarrow> nat \<Rightarrow> nat \<Rightarrow> Logprob \<Rightarrow>
   py_error + Logprob"
where
  "detok_for_logprob fffd tk prms ids prev p r lp =
     (case detokenize_incrementally fffd tk ids prev p r (sp_skip_special_tokens prms)
        (sp_spaces_between_special_tokens prms) of
        Inl e \<Rightarrow> Inl e
      | Inr (_, new_text, _, _) \<Rightarrow> Inr (lp\<lparr>lp_decoded_token := Some new_text\<rparr>))"

definition decode_logprob_item ::
  "char \<Rightarrow> tokenizer \<Rightarrow> SamplingParams \<Rightarrow> int list \<Rightarrow> int \<Rightarrow> string \<Rightarrow> Sequence \<Rightarrow> int \<times> Logprob \<Rightarrow>
   (Sequence, int \<times> Logprob) pym"
where
  "decode_logprob_item fffd tk prms previous_tokens this_token new_text s item = (case item of (token_id, lp) \<Rightarrow>
     if token_id = this_token then ret (token_id, lp\<lparr>lp_decoded_token := Some new_text\<rparr>)
     else if lp_decoded_token lp = None \<and> token_id \<noteq> INVALID_TOKEN_ID then
       bnd (lift_err (\<lambda>_. detok_for_logprob fffd tk prms (previous_tokens @ [token_id])
              (seq_tokens s) (seq_prefix_offset s) (seq_read_offset s) lp)) (\<lambda>lp'.
       ret (token_id, lp'))
     else ret (token_id, lp))"

definition decode_sequence_inplace ::
  "char \<Rightarrow> (LoRARequest option \<Rightarrow> tokenizer) \<Rightarrow> SamplingParams \<Rightarrow> (Sequence, nat) pym"
where
  "decode_sequence_inplace fffd get_tokenizer prms =
     bnd (gets seq_get_token_ids) (\<lambda>all_input_ids.
     bnd (lift_err (\<lambda>_. last_py all_input_ids)) (\<lambda>this_token.
     bnd (gets (\<lambda>s. get_tokenizer (seq_lora_request s))) (\<lambda>tk.
     sq (modify (\<lambda>s. if seq_tokens s = None then
            (case convert_prompt_ids_to_tokens tk (butlast all_input_ids) (sp_skip_special_tokens prms) of
               (toks, p, r) \<Rightarrow> s\<lparr>seq_tokens := Some toks, seq_prefix_offset := p, seq_read_offset := r\<rparr>)
          else s))
    (bnd (gets id) (\<lambda>s.
     bnd (lift_err (\<lambda>_. detokenize_incrementally fffd tk all_input_ids (seq_tokens s) (seq_prefix_offset s)
            (seq_read_offset s) (sp_skip_special_tokens prms) (sp_spaces_between_special_tokens prms)))
       (\<lambda>(new_tokens, new_text, prefix_offset, read_offset).
     bnd (lift_err (\<lambda>_. last_py (seq_output_logprobs s))) (\<lambda>lps.
     bnd (collect lps (decode_logprob_item fffd tk prms (butlast all_input_ids) this_token new_text s)) (\<lambda>lps'.
     sq (modify (\<lambda>s. s\<lparr>seq_output_logprobs := butlast (seq_output_logprobs s) @ [lps'],
            seq_tokens := map_option (\<lambda>ts. ts @ new_tokens) (seq_tokens s),
            seq_prefix_offset := prefix_offset, seq_read_offset := read_offset,
            seq_output_text := seq_output_text s @ new_text\<rparr>))
    (ret (length new_text))))))))))"

text \<open>
  The log probabilities of a prompt. After the first position the local lists \<open>prev_tokens\<close> and
  \<open>next_iter_tokens\<close> are one object until the latter is assigned again: \<open>dp_alias\<close>.
\<close>

record decode_prompt_locals =
  dp_prefix_offset :: nat
  dp_read_offset :: nat
  dp_next_prefix_offset :: nat
  dp_next_read_offset :: nat
  dp_next_tokens :: "string list"
  dp_prev_tokens :: "string list option"
  dp_alias :: bool

definition decode_prompt_item ::
  "char \<Rightarrow> tokenizer \<Rightarrow> SamplingParams \<Rightarrow> int list \<Rightarrow> nat \<Rightarrow> int \<times> Logprob \<Rightarrow>
   (decode_prompt_locals, int \<times> Logprob) pym"
where
  "decode_prompt_item fffd tk prms all_token_ids token_position item = (case item of (token_id, lp) \<Rightarrow>
     if lp_decoded_token lp = None \<and> token_id \<noteq> INVALID_TOKEN_ID then
       bnd (gets id) (\<lambda>l.
       bnd (lift_err (\<lambda>_. detokenize_incrementally fffd tk
              (take token_position (butlast all_token_ids) @ [token_id]) (dp_prev_tokens l)
              (dp_prefix_offset l) (dp_read_offset l) (sp_skip_special_tokens prms)
              (sp_spaces_between_special_tokens prms))) (\<lambda>(new_tokens, new_text, p, r).
       bnd (lift_err (\<lambda>_. nth_py all_token_ids token_position)) (\<lambda>real_token.
       sq (if token_id = real_token then
             modify (\<lambda>l. l\<lparr>dp_next_prefix_offset := p, dp_next_read_offset := r,
               dp_next_tokens := new_tokens, dp_alias := False\<rparr>)
           else ret ())
      (ret (token_id, lp\<lparr>lp_decoded_token := Some new_text\<rparr>)))))
     else ret (token_id, lp))"

definition decode_prompt_advance :: "decode_prompt_locals \<Rightarrow> decode_prompt_locals" where
  "decode_prompt_advance l =
     (let l' = l\<lparr>dp_prefix_offset := dp_next_prefix_offset l, dp_read_offset := dp_next_read_offset l\<rparr> in
      case dp_prev_tokens l of
        None \<Rightarrow> l'\<lparr>dp_prev_tokens := Some (dp_next_tokens l), dp_alias := True\<rparr>
      | Some ts \<Rightarrow>
          if dp_alias l then l'\<lparr>dp_prev_tokens := Some (ts @ ts), dp_next_tokens := ts @ ts\<rparr>
          else l'\<lparr>dp_prev_tokens := Some (ts @ dp_next_tokens l)\<rparr>)"

definition decode_prompt_position ::
  "char \<Rightarrow> tokenizer \<Rightarrow> SamplingParams \<Rightarrow> int list \<Rightarrow> nat \<times> logprobs option \<Rightarrow>
   (decode_prompt_locals, logprobs option) pym"
where
  "decode_prompt_position fffd tk prms all_token_ids pos = (case pos of (token_position, entry) \<Rightarrow>
     case entry of
       None \<Rightarrow> ret None
     | Some lps \<Rightarrow>
         if lps = [] then ret (Some lps)
         else bnd (collect lps (decode_prompt_item fffd tk prms all_token_ids token_position)) (\<lambda>lps'.
           sq (modify decode_prompt_advance) (ret (Some lps'))))"

definition decode_prompt_logprobs_inplace ::
  "char \<Rightarrow> (LoRARequest option \<Rightarrow> tokenizer) \<Rightarrow> logprobs option list \<Rightarrow> SequenceGroup \<Rightarrow>
   py_error + logprobs option list"
where
  "decode_prompt_logprobs_inplace fffd get_tokenizer prompt_logprobs g =
     (case (first_seq g, sg_sampling_params g) of
        (Inl e, _) \<Rightarrow> Inl e
      | (Inr s, None) \<Rightarrow> Inl AttributeError
      | (Inr s, Some prms) \<Rightarrow>
          fst (collect (zip [0..<length prompt_logprobs] prompt_logprobs)
            (decode_prompt_position fffd (get_tokenizer (seq_lora_request s)) prms (seq_get_token_ids s))
            \<lparr>dp_prefix_offset = 0, dp_read_offset = 0, dp_next_prefix_offset = 0, dp_next_read_offset = 0,
             dp_next_tokens = [], dp_prev_tokens = None, dp_alias = False\<rparr>))"

end
