(* ===== verification/Stop_Checker.thy ===== *)
theory Stop_Checker
  imports Detokenizer
begin

text \<open>
  \<^verbatim>\<open>vllm/engine/output_processor/stop_checker.py\<close>: when a sequence stops. The search for stop
  strings looks at the end of the text only; that this is enough is proved against a search of the
  whole text.
\<close>

section \<open>Searching a text\<close>

definition occurs_at :: "string \<Rightarrow> string \<Rightarrow> nat \<Rightarrow> bool" where
  "occurs_at sub text i \<longleftrightarrow> i + length sub \<le> length text \<and> take (length sub) (drop i text) = sub"

text \<open>\<^verbatim>\<open>text.find(sub, start)\<close>: a negative start counts from the end; \<^const>\<open>None\<close> is -1.\<close>

definition py_find :: "string \<Rightarrow> int \<Rightarrow> string \<Rightarrow> nat option" where
  "py_find sub start text =
     (let i0 = nat (if start < 0 then max 0 (int (length text) + start) else start) in
      List.find (occurs_at sub text) [i0..<Suc (length text)])"

definition contains :: "string \<Rightarrow> string \<Rightarrow> bool" where
  "contains sub text \<longleftrightarrow> py_find sub 0 text \<noteq> None"

section \<open>The checks\<close>

fun stop_string_loop :: "nat \<Rightarrow> bool \<Rightarrow> string list \<Rightarrow> (Sequence, string option) pym" where
  "stop_string_loop new_char_count incl [] = ret None"
| "stop_string_loop new_char_count incl (stop_str # stops) =
     bnd (gets seq_output_text) (\<lambda>text.
     case py_find stop_str (- int new_char_count - int (length stop_str)) text of
       None \<Rightarrow> stop_string_loop new_char_count incl stops
     | Some stop_index \<Rightarrow>
         let stop_index' = (if incl then stop_index + length stop_str else stop_index) in
         if incl \<and> stop_index' \<ge> length text then ret (Some stop_str)
         else sq (modify (\<lambda>s. s\<lparr>seq_output_text := take stop_index' text\<rparr>)) (ret (Some stop_str)))"

definition check_stop_strings :: "nat \<Rightarrow> SamplingParams \<Rightarrow> (Sequence, string option) pym" where
  "check_stop_strings new_char_count params =
     (if new_char_count = 0 then ret None
      else stop_string_loop new_char_count (sp_include_stop_str_in_output params) (sp_stop params))"

definition get_max_model_len :: "nat \<Rightarrow> LoRARequest option \<Rightarrow> nat" where
  "get_max_model_len max_model_len lora = (case lora of
     None \<Rightarrow> max_model_len
   | Some r \<Rightarrow> (case long_lora_max_len r of
       None \<Rightarrow> max_model_len | Some n \<Rightarrow> if n \<noteq> 0 then n else max_model_len))"

definition set_status :: "SequenceStatus \<Rightarrow> (Sequence, unit) pym" where
  "set_status st = modify (\<lambda>s. s\<lparr>seq_status := st\<rparr>)"

definition finish_with :: "stop_reason \<Rightarrow> (Sequence, unit) pym" where
  "finish_with r = sq (set_status FINISHED_STOPPED) (modify (\<lambda>s. s\<lparr>seq_stop_reason := Some r\<rparr>))"

definition maybe_stop_sequence ::
  "nat \<Rightarrow> nat \<Rightarrow> SamplingParams \<Rightarrow> LoRARequest option \<Rightarrow> (Sequence, unit) pym"
where
  "maybe_stop_sequence max_model_len new_char_count params lora =
     bnd (gets id) (\<lambda>s.
     if int (seq_get_output_len s) < sp_min_tokens params then ret ()
     else
       bnd (if sp_ignore_eos params then ret False
            else bnd (lift_err seq_get_last_token_id) (\<lambda>t. ret (Some t = seq_eos_token_id s))) (\<lambda>eos.
       if eos then set_status FINISHED_STOPPED
       else
         bnd (lift_err seq_get_last_token_id) (\<lambda>last_token_id.
         if last_token_id \<in> set (sp_stop_token_ids params) then
           sq (if new_char_count \<noteq> 0 \<and> \<not> sp_include_stop_str_in_output params then
                 modify (\<lambda>s. s\<lparr>seq_output_text := take (length (seq_output_text s) - new_char_count) (seq_output_text s)\<rparr>)
               else ret ())
             (finish_with (Stop_token last_token_id))
         else
           bnd (check_stop_strings new_char_count params) (\<lambda>stop_str.
           case stop_str of
             Some str \<Rightarrow> finish_with (Stop_string str)
           | None \<Rightarrow>
               bnd (gets id) (\<lambda>s.
               if seq_get_len s > get_max_model_len max_model_len lora then set_status FINISHED_LENGTH_CAPPED
               else if Some (int (seq_get_output_len s)) = sp_max_tokens params then
                 set_status FINISHED_LENGTH_CAPPED
               else ret ())))))"

section \<open>The search of the end of the text is enough\<close>

lemma find_append: "List.find P (xs @ ys) = (case List.find P xs of None \<Rightarrow> List.find P ys | r \<Rightarrow> r)"
  by (induction xs) auto

lemma find_skip: "i0 \<le> n \<Longrightarrow> \<forall>i < i0. \<not> P i \<Longrightarrow> List.find P [0..<n] = List.find P [i0..<n]"
proof -
  assume "i0 \<le> n" "\<forall>i < i0. \<not> P i"
  then have "List.find P [0..<i0] = None" "[0..<n] = [0..<i0] @ [i0..<n]"
    using upt_add_eq_append [of 0 i0 "n - i0"] by (auto simp: find_None_iff)
  then show ?thesis by (simp add: find_append)
qed

lemma find_SomeD: "List.find P xs = Some x \<Longrightarrow> x \<in> set xs \<and> P x"
  by (auto simp: find_Some_iff)

lemma contains_iff: "contains sub text \<longleftrightarrow> (\<exists>i. occurs_at sub text i)"
  by (auto simp: contains_def py_find_def find_None_iff occurs_at_def Let_def)

lemma occurs_at_prefix:
  "occurs_at sub text i \<Longrightarrow> i + length sub \<le> n \<Longrightarrow> occurs_at sub (take n text) i"
  by (auto simp: occurs_at_def drop_take min_def)

lemma py_find_window:
  assumes "sub \<noteq> []" "\<not> contains sub (take (length text - new) text)"
  shows "py_find sub (- int new - int (length sub)) text = py_find sub 0 text"
proof -
  let ?i0 = "nat (max 0 (int (length text) + (- int new - int (length sub))))"
  have "\<not> occurs_at sub text i" if "i < ?i0" for i
  proof
    assume o: "occurs_at sub text i"
    have "i + length sub \<le> length text - new" using that by linarith
    from occurs_at_prefix [OF o this] assms(2) show False by (auto simp: contains_iff)
  qed
  moreover have "?i0 \<le> Suc (length text)" by linarith
  ultimately have "List.find (occurs_at sub text) [0..<Suc (length text)] = List.find (occurs_at sub text) [?i0..<Suc (length text)]"
    by (intro find_skip) auto
  moreover have "- int new - int (length sub) < 0" using length_greater_0_conv [of sub] assms(1) by linarith
  ultimately show ?thesis by (simp add: py_find_def Let_def)
qed

text \<open>The reference: the first stop string in the order of the list that occurs anywhere.\<close>

definition stop_search :: "bool \<Rightarrow> string list \<Rightarrow> string \<Rightarrow> string option \<times> string" where
  "stop_search incl stops text = (case List.find (\<lambda>s. contains s text) stops of
     None \<Rightarrow> (None, text)
   | Some s \<Rightarrow> (Some s, take (the (py_find s 0 text) + (if incl then length s else 0)) text))"

lemma stop_string_loop_ok:
  assumes "\<forall>x \<in> set stops. x \<noteq> [] \<and> \<not> contains x (take (length (seq_output_text s) - new) (seq_output_text s))"
  shows "stop_string_loop new incl stops s =
    (case stop_search incl stops (seq_output_text s) of (r, text) \<Rightarrow> (Inr r, s\<lparr>seq_output_text := text\<rparr>))"
  using assms
proof (induction stops)
  case (Cons x stops)
  then show ?case
    using py_find_window [of x "seq_output_text s" new]
    by (auto simp: run_simps stop_search_def contains_def ret_def sq_def modify_def bnd_def gets_def Let_def
        split: option.splits)
qed (simp add: stop_search_def ret_def)

lemma occurs_at_take: "occurs_at s (take i text) j \<longleftrightarrow> j + length s \<le> i \<and> occurs_at s text j"
proof (cases "j + length s \<le> i")
  case True
  then show ?thesis by (auto simp: occurs_at_def drop_take min_def)
qed (simp add: occurs_at_def)

text \<open>What the search leaves: the text before the first occurrence of the string that was found.\<close>

lemma py_find_least:
  assumes "py_find s 0 text = Some i"
  shows "occurs_at s text i" "j < i \<Longrightarrow> \<not> occurs_at s text j"
proof -
  have i: "List.find (occurs_at s text) [0..<Suc (length text)] = Some i"
    using assms by (simp add: py_find_def)
  then obtain k where k: "k < Suc (length text)" "occurs_at s text ([0..<Suc (length text)] ! k)"
    "i = [0..<Suc (length text)] ! k" "\<forall>j < k. \<not> occurs_at s text ([0..<Suc (length text)] ! j)"
    by (auto simp: find_Some_iff simp del: upt_Suc)
  then have "i = k" by (simp del: upt_Suc)
  with k show "occurs_at s text i" "j < i \<Longrightarrow> \<not> occurs_at s text j" by (auto simp del: upt_Suc)
qed

lemma take_no_occurrence:
  assumes "py_find s 0 text = Some i" "s \<noteq> []"
  shows "\<not> contains s (take i text)"
proof
  assume "contains s (take i text)"
  then obtain j where j: "occurs_at s (take i text) j" by (auto simp: contains_iff)
  then have "j + length s \<le> i" "occurs_at s text j" by (simp_all add: occurs_at_take)
  then show False using py_find_least(2) [OF assms(1), of j] assms(2) by (cases s) auto
qed

text \<open>
  C34. The stop strings. If none of them occurs in the text before the new characters, the check of
  the end of the text gives the same answer as a search of the whole text: it finds a stop string
  exactly if one occurs, it answers with the first one in the order of the parameters, and it cuts
  the text at that string's first occurrence (behind it if it is to be included), so that without
  inclusion the string does not occur in the text that is left. Nothing else of the sequence changes.
\<close>

theorem stop_strings_found:
  assumes "0 < new" "[] \<notin> set (sp_stop params)"
    and "\<forall>x \<in> set (sp_stop params). \<not> contains x (take (length (seq_output_text s) - new) (seq_output_text s))"
  shows "check_stop_strings new params s =
      (case stop_search (sp_include_stop_str_in_output params) (sp_stop params) (seq_output_text s) of
         (r, text) \<Rightarrow> (Inr r, s\<lparr>seq_output_text := text\<rparr>)) \<and>
    (fst (check_stop_strings new params s) = Inr None \<longleftrightarrow> (\<forall>x \<in> set (sp_stop params). \<not> contains x (seq_output_text s))) \<and>
    (\<forall>x t. check_stop_strings new params s = (Inr (Some x), t) \<longrightarrow> x \<in> set (sp_stop params) \<and> contains x (seq_output_text s) \<and>
       (if sp_include_stop_str_in_output params then \<exists>pre. seq_output_text t = pre @ x
        else \<not> contains x (seq_output_text t)))"
proof -
  let ?text = "seq_output_text s" and ?incl = "sp_include_stop_str_in_output params"
  have run: "check_stop_strings new params s = (case stop_search ?incl (sp_stop params) ?text of
      (r, text) \<Rightarrow> (Inr r, s\<lparr>seq_output_text := text\<rparr>))"
    using assms stop_string_loop_ok [of "sp_stop params" s new ?incl] by (auto simp: check_stop_strings_def)
  show ?thesis
  proof (intro conjI allI impI)
    show "check_stop_strings new params s = (case stop_search ?incl (sp_stop params) ?text of
      (r, text) \<Rightarrow> (Inr r, s\<lparr>seq_output_text := text\<rparr>))" by (rule run)
    show "fst (check_stop_strings new params s) = Inr None \<longleftrightarrow> (\<forall>x \<in> set (sp_stop params). \<not> contains x ?text)"
      by (auto simp: run stop_search_def find_None_iff dest: find_SomeD split: option.splits)
  next
    fix x t assume "check_stop_strings new params s = (Inr (Some x), t)"
    then have x: "List.find (\<lambda>x. contains x ?text) (sp_stop params) = Some x"
      and t: "t = s\<lparr>seq_output_text := take (the (py_find x 0 ?text) + (if ?incl then length x else 0)) ?text\<rparr>"
      by (auto simp: run stop_search_def split: option.splits)
    show mem: "x \<in> set (sp_stop params)" and con: "contains x ?text"
      using x by (auto simp: find_Some_iff)
    from con obtain i where i: "py_find x 0 ?text = Some i" by (auto simp: contains_def)
    have o: "i + length x \<le> length ?text" "take (length x) (drop i ?text) = x"
      using py_find_least(1) [OF i] by (simp_all add: occurs_at_def)
    show "if ?incl then \<exists>pre. seq_output_text t = pre @ x else \<not> contains x (seq_output_text t)"
    proof (cases ?incl)
      case True
      then have "seq_output_text t = take i ?text @ x" using t i o(2) by (simp add: take_add)
      then show ?thesis using True by auto
    next
      case False
      then show ?thesis using t i take_no_occurrence [OF i] mem assms(2) by auto
    qed
  qed
qed

text \<open>
  A text that ends in two stop strings at once is cut at the first string of the list, wherever the
  other one occurs: the text that is left can contain a stop string.
\<close>

definition demo_params :: "string list \<Rightarrow> SamplingParams" where
  "demo_params stops =
     \<lparr>sp_n = 1, sp_best_of = 1, sp_presence_penalty = 0, sp_frequency_penalty = 0, sp_repetition_penalty = 1,
      sp_temperature = 1, sp_top_p = 1, sp_top_k = -1, sp_min_p = 0, sp_seed = None, sp_use_beam_search = False,
      sp_length_penalty = 1, sp_early_stopping = ES_bool False, sp_stop = stops, sp_stop_token_ids = [],
      sp_ignore_eos = False, sp_max_tokens = Some 16, sp_min_tokens = 0, sp_logprobs = None,
      sp_prompt_logprobs = None, sp_detokenize = True, sp_skip_special_tokens = True,
      sp_spaces_between_special_tokens = True, sp_logits_processors = None,
      sp_include_stop_str_in_output = False, sp_truncate_prompt_tokens = None,
      sp_output_text_buffer_length = 0, sp_all_stop_token_ids = {}\<rparr>"

theorem stop_strings_found_witness:
  "check_stop_strings 3 (demo_params [''zz'', ''lo''])
     ((demo_seq 0 4 RUNNING)\<lparr>seq_output_text := ''hello w''\<rparr>) =
   (Inr (Some ''lo''), (demo_seq 0 4 RUNNING)\<lparr>seq_output_text := ''hel''\<rparr>)"
proof -
  let ?s = "(demo_seq 0 4 RUNNING)\<lparr>seq_output_text := ''hello w''\<rparr>" and ?p = "demo_params [''zz'', ''lo'']"
  have old: "\<forall>x \<in> set (sp_stop ?p). \<not> contains x (take (length (seq_output_text ?s) - 3) (seq_output_text ?s))"
    by code_simp
  have ref: "stop_search False [''zz'', ''lo''] ''hello w'' = (Some ''lo'', ''hel'')" by code_simp
  have "check_stop_strings 3 ?p ?s =
      (case stop_search (sp_include_stop_str_in_output ?p) (sp_stop ?p) (seq_output_text ?s) of
         (r, text) \<Rightarrow> (Inr r, ?s\<lparr>seq_output_text := text\<rparr>))"
    using stop_strings_found [of 3 ?p ?s] old by (simp add: demo_params_def)
  then show ?thesis using ref by (simp add: demo_params_def)
qed

lemma stop_string_left_over:
  "check_stop_strings 2 (demo_params [''b'', ''a'']) ((demo_seq 0 4 RUNNING)\<lparr>seq_output_text := ''ab''\<rparr>) =
     (Inr (Some ''b''), (demo_seq 0 4 RUNNING)\<lparr>seq_output_text := ''a''\<rparr>)"
  by code_simp

end
