(* ===== verification/Detokenizer_Facts.thy ===== *)
theory Detokenizer_Facts
  imports Stop_Checker
begin

text \<open>
  What the detokenizer does to a sequence, and that the pieces it emits are the text of the tokens.
\<close>

section \<open>Running a method\<close>

lemma bnd_Inr': "m s = (Inr x, t) \<Longrightarrow> bnd m k s = k x t"
  by (simp add: bnd_def)

lemma bnd_lift: "c = Inr x \<Longrightarrow> bnd (lift_err (\<lambda>_. c)) k s = k x s"
  by (simp add: bnd_def lift_err_def)

lemma bnd_gets: "bnd (gets f) k s = k (f s) s"
  by (simp add: bnd_def gets_def)

lemma sq_modify: "sq (modify f) m s = m (f s)"
  by (simp add: sq_def bnd_def modify_def)

lemma run_ret: "sq (ret x) m = m"
  by (simp add: sq_def bnd_def ret_def)

lemma modify_apply: "modify f s = (Inr (), f s)"
  by (simp add: modify_def)

lemma ret_apply': "ret x s = (Inr x, s)"
  by (simp add: ret_def)

section \<open>One token\<close>

text \<open>What the detokenizer and the stop checker may change of a sequence.\<close>

definition same_content :: "Sequence \<Rightarrow> Sequence \<Rightarrow> bool" where
  "same_content s t \<longleftrightarrow> seq_data t = seq_data s \<and> seq_block_size t = seq_block_size s \<and>
     seq_logical_token_blocks t = seq_logical_token_blocks s \<and> seq_id t = seq_id s \<and>
     seq_eos_token_id t = seq_eos_token_id s \<and> seq_lora_request t = seq_lora_request s \<and>
     length (seq_output_logprobs t) = length (seq_output_logprobs s)"

lemma same_content_refl [simp]: "same_content s s"
  by (simp add: same_content_def)

lemma same_content_trans: "same_content s t \<Longrightarrow> same_content t u \<Longrightarrow> same_content s u"
  by (simp add: same_content_def)

lemma same_contentD:
  assumes "same_content s t"
  shows "seq_get_output_len t = seq_get_output_len s" "seq_get_len t = seq_get_len s"
    "seq_get_last_token_id t = seq_get_last_token_id s" "seq_get_token_ids t = seq_get_token_ids s"
    "seq_eos_token_id t = seq_eos_token_id s" "seq_ok t \<longleftrightarrow> seq_ok s" "seq_data t = seq_data s"
    "seq_lora_request t = seq_lora_request s" "seq_id t = seq_id s"
  using assms by (simp_all add: same_content_def seq_get_output_len_def seq_get_len_def
      seq_get_last_token_id_def seq_get_token_ids_def seq_ok_def)

lemma detokenize_total: "ids \<noteq> [] \<Longrightarrow> \<exists>x. detokenize_incrementally f tk ids prev p r sk sp = Inr x"
  by (auto simp: detokenize_incrementally_def last_py_def Let_def split: prod.splits)

lemma decode_logprob_item_ok:
  "\<exists>y. decode_logprob_item f tk prms prev tok w s x u = (Inr y, u)"
proof -
  obtain k lp where x: "x = (k, lp)" by (cases x)
  obtain a b c d where "detokenize_incrementally f tk (prev @ [k]) (seq_tokens s) (seq_prefix_offset s)
      (seq_read_offset s) (sp_skip_special_tokens prms) (sp_spaces_between_special_tokens prms) = Inr (a, b, c, d)"
    using detokenize_total [of "prev @ [k]"] by (metis Nil_is_append_conv not_Cons_self2 prod_cases4)
  then show ?thesis
    by (auto simp: x decode_logprob_item_def ret_def run_simps detok_for_logprob_def bnd_def lift_err_def)
qed

lemma decode_logprobs_ok:
  "\<exists>lps'. collect lps (decode_logprob_item f tk prms prev tok w s) u = (Inr lps', u)"
proof (induction lps)
  case (Cons x lps)
  then show ?case
    using decode_logprob_item_ok [of f tk prms prev tok w s x u] by (auto simp: bnd_def ret_def)
qed (simp add: ret_def)

text \<open>The prompt's last tokens are converted when the first output token is decoded.\<close>

definition with_tokens :: "tokenizer \<Rightarrow> SamplingParams \<Rightarrow> Sequence \<Rightarrow> Sequence" where
  "with_tokens tk prms s = (if seq_tokens s = None then
     (case convert_prompt_ids_to_tokens tk (butlast (seq_get_token_ids s)) (sp_skip_special_tokens prms) of
        (toks, p, r) \<Rightarrow> s\<lparr>seq_tokens := Some toks, seq_prefix_offset := p, seq_read_offset := r\<rparr>)
   else s)"

lemma with_tokens_simps [simp]:
  "same_content s (with_tokens tk prms s)" "seq_status (with_tokens tk prms s) = seq_status s"
  "seq_output_text (with_tokens tk prms s) = seq_output_text s"
  "seq_output_logprobs (with_tokens tk prms s) = seq_output_logprobs s"
  by (simp_all add: with_tokens_def same_content_def split: prod.split)

lemma decode_sequence_run:
  assumes "seq_get_token_ids s \<noteq> []" "seq_output_logprobs s \<noteq> []"
    and u: "u = with_tokens (get (seq_lora_request s)) prms s"
    and det: "detokenize_incrementally f (get (seq_lora_request s)) (seq_get_token_ids s) (seq_tokens u) (seq_prefix_offset u)
      (seq_read_offset u) (sp_skip_special_tokens prms) (sp_spaces_between_special_tokens prms) = Inr (toks, w, p, r)"
  shows "\<exists>lps. decode_sequence_inplace f get prms s = (Inr (length w),
    u\<lparr>seq_output_logprobs := butlast (seq_output_logprobs u) @ [lps],
      seq_tokens := map_option (\<lambda>ts. ts @ toks) (seq_tokens u),
      seq_prefix_offset := p, seq_read_offset := r, seq_output_text := seq_output_text u @ w\<rparr>)"
proof -
  let ?ids = "seq_get_token_ids s" and ?tk = "get (seq_lora_request s)"
  obtain lps' where lps: "collect (last (seq_output_logprobs s))
      (decode_logprob_item f ?tk prms (butlast ?ids) (last ?ids) w u) u = (Inr lps', u)"
    using decode_logprobs_ok by blast
  have last: "last_py ?ids = Inr (last ?ids)" "last_py (seq_output_logprobs u) = Inr (last (seq_output_logprobs s))"
    using assms by (simp_all add: last_py_def)
  show ?thesis
    unfolding decode_sequence_inplace_def
    by (rule exI [where x = lps'])
      (simp only: bnd_gets sq_modify bnd_lift [OF last(1)] with_tokens_def [symmetric] u [symmetric] id_apply
        bnd_lift [OF det] prod.case bnd_lift [OF last(2)] bnd_Inr' [of "collect _ _", OF lps], simp add: ret_def)
qed

lemma decode_sequence_ok:
  assumes "seq_get_token_ids s \<noteq> []" "seq_output_logprobs s \<noteq> []"
  shows "wp (decode_sequence_inplace f get prms)
    (\<lambda>n t. same_content s t \<and> seq_status t = seq_status s \<and> (\<exists>w. seq_output_text t = seq_output_text s @ w \<and> n = length w))
    (\<lambda>_ _. False) s"
proof -
  define u where "u = with_tokens (get (seq_lora_request s)) prms s"
  obtain toks w p r where "detokenize_incrementally f (get (seq_lora_request s)) (seq_get_token_ids s) (seq_tokens u)
      (seq_prefix_offset u) (seq_read_offset u) (sp_skip_special_tokens prms) (sp_spaces_between_special_tokens prms) =
      Inr (toks, w, p, r)"
    using detokenize_total [OF assms(1)] by (metis prod_cases4)
  from decode_sequence_run [of s u get prms f, OF assms u_def this] obtain lps where
    "decode_sequence_inplace f get prms s = (Inr (length w),
      u\<lparr>seq_output_logprobs := butlast (seq_output_logprobs u) @ [lps],
        seq_tokens := map_option (\<lambda>ts. ts @ toks) (seq_tokens u),
        seq_prefix_offset := p, seq_read_offset := r, seq_output_text := seq_output_text u @ w\<rparr>)" by blast
  moreover have "same_content s u" "seq_status u = seq_status s" "seq_output_text u = seq_output_text s"
    "seq_output_logprobs u = seq_output_logprobs s" by (simp_all add: u_def)
  ultimately show ?thesis using assms(2) by (simp add: wp_def same_content_def)
qed

section \<open>The text is emitted in pieces\<close>

text \<open>
  A byte-level tokenizer, as GPT-2's and its successors': every token stands for some bytes, and the
  text of a list of tokens is \<^verbatim>\<open>bytes.decode("utf-8", errors="replace")\<close> of all their bytes. A token may end
  in the middle of a character; the text then ends in the replacement character \<open>f\<close>. Of the decoding
  only this is used: when the text of some bytes does not end in the replacement character they end at
  a character boundary, so that the bytes behind them are decoded on their own.
\<close>

definition complete_text :: "char \<Rightarrow> string \<Rightarrow> bool" where
  "complete_text f w \<longleftrightarrow> w = [] \<or> last w \<noteq> f"

definition byte_level :: "char \<Rightarrow> tokenizer \<Rightarrow> (string \<Rightarrow> string) \<Rightarrow> (string \<Rightarrow> string) \<Rightarrow> bool" where
  "byte_level f tk bytes decode \<longleftrightarrow> (tk_is_fast tk \<or> tk_added_vocab tk = []) \<and>
     (\<forall>toks. tk_convert_tokens_to_string tk toks = decode (concat (map bytes toks))) \<and> decode [] = [] \<and>
     (\<forall>bs cs. complete_text f (decode bs) \<longrightarrow> decode (bs @ cs) = decode bs @ decode cs)"

definition held_back :: "char \<Rightarrow> string \<Rightarrow> bool" where
  "held_back f w \<longleftrightarrow> w = [] \<or> last w = f"

abbreviation text_of :: "tokenizer \<Rightarrow> string list \<Rightarrow> string" where
  "text_of \<equiv> tk_convert_tokens_to_string"

lemma byte_levelD:
  assumes "byte_level f tk bytes decode"
  shows "tokens_text tk sk sp toks = text_of tk toks" "text_of tk [] = []"
    "complete_text f (text_of tk xs) \<Longrightarrow> text_of tk (xs @ ys) = text_of tk xs @ text_of tk ys"
  using assms by (auto simp: byte_level_def tokens_text_def)

lemma complete_text_append:
  "complete_text f (v @ w) \<longleftrightarrow> (if w = [] then complete_text f v else complete_text f w)"
  by (simp add: complete_text_def)

lemma not_held_back: "\<not> held_back f w \<Longrightarrow> w \<noteq> [] \<and> complete_text f w"
  by (simp add: held_back_def complete_text_def)

lemma drop_length_append: "drop (length xs) (xs @ ys) = ys"
  by simp

text \<open>
  One token: the text from the prefix offset to the read offset is complete, so what is new is the
  text behind the read offset, and it is emitted unless it ends in an unfinished character.
\<close>

lemma detokenize_piece:
  assumes law: "byte_level f tk bytes decode" and r: "p \<le> r" "r \<le> length ts" and ids: "ids \<noteq> []"
    and window: "complete_text f (text_of tk (take (r - p) (drop p ts)))"
  shows "detokenize_incrementally f tk ids (Some ts) p r sk sp =
    (let fresh = new_id_tokens tk sk (last ids); pending = text_of tk (drop r (ts @ fresh)) in
     if held_back f pending then Inr (fresh, [], p, r) else Inr (fresh, pending, r, length (ts @ fresh)))"
proof -
  let ?fresh = "new_id_tokens tk sk (last ids)"
  let ?out = "ts @ ?fresh"
  let ?pre = "take (r - p) (drop p ?out)"
  have "drop p ?out = ?pre @ drop r ?out"
    using r by (metis append_take_drop_id drop_drop le_add_diff_inverse2)
  moreover have "?pre = take (r - p) (drop p ts)" using r by simp
  ultimately have "text_of tk (drop p ?out) = text_of tk ?pre @ text_of tk (drop r ?out)"
    using byte_levelD(3) [OF law window] by metis
  then show ?thesis
    using ids
    by (simp add: detokenize_incrementally_def last_py_def Let_def held_back_def last_append
        byte_levelD(1) [OF law] drop_length_append del: drop_append take_append)
qed

text \<open>
  The state between two tokens: \<open>words\<close> are the tokens of the ids decoded so far, behind the tokens
  \<open>start\<close> of the end of the prompt. The words before the read offset were emitted, the ones between the
  two offsets as the last piece; the text behind it is held back.
\<close>

definition last_piece :: "tokenizer \<Rightarrow> string \<Rightarrow> string list \<Rightarrow> string list \<Rightarrow> Sequence \<Rightarrow> bool" where
  "last_piece tk before start words t \<longleftrightarrow>
     (let p = seq_prefix_offset t - length start; r = seq_read_offset t - length start in
      length start \<le> seq_prefix_offset t \<and> p < r \<and>
      seq_output_text t = before @ text_of tk (take p words) @ text_of tk (take (r - p) (drop p words)))"

definition detok_state :: "char \<Rightarrow> tokenizer \<Rightarrow> string \<Rightarrow> string list \<Rightarrow> string list \<Rightarrow> Sequence \<Rightarrow> bool" where
  "detok_state f tk before start words t \<longleftrightarrow>
     (let n = length start; p = seq_prefix_offset t; r = seq_read_offset t; ts = start @ words in
      seq_tokens t = Some ts \<and> p \<le> r \<and> n \<le> r \<and> r \<le> length ts \<and>
      complete_text f (text_of tk (take (r - p) (drop p ts))) \<and>
      complete_text f (text_of tk (take (r - n) words)) \<and>
      seq_output_text t = before @ text_of tk (take (r - n) words) \<and>
      held_back f (text_of tk (drop (r - n) words)) \<and> (r = n \<or> last_piece tk before start words t))"

lemma detok_state_cong:
  assumes "seq_tokens t = seq_tokens u" "seq_prefix_offset t = seq_prefix_offset u"
    "seq_read_offset t = seq_read_offset u" "seq_output_text t = seq_output_text u"
  shows "detok_state f tk before start words t \<longleftrightarrow> detok_state f tk before start words u"
  by (simp only: detok_state_def last_piece_def assms)

lemma detok_state_start:
  assumes "seq_tokens t = None" "seq_output_text t = before"
    and "start = tk_convert_ids_to_tokens tk (drop (length prompt - 7) prompt) (sp_skip_special_tokens prms)"
    and "butlast (seq_get_token_ids t) = prompt" "text_of tk [] = []"
    and "complete_text f (text_of tk (drop (length start - 5) start))"
  shows "detok_state f tk before start [] (with_tokens tk prms t)"
  using assms
  by (simp add: detok_state_def with_tokens_def convert_prompt_ids_to_tokens_def Let_def held_back_def complete_text_def
      INITIAL_INCREMENTAL_DETOKENIZATION_OFFSET_def)

lemma detok_state_held:
  assumes "detok_state f tk before start words u" "held_back f (text_of tk (drop (seq_read_offset u - length start) (words @ fresh)))"
    and "seq_tokens t = Some (start @ words @ fresh)" "seq_prefix_offset t = seq_prefix_offset u"
    "seq_read_offset t = seq_read_offset u" "seq_output_text t = seq_output_text u"
  shows "detok_state f tk before start (words @ fresh) t"
proof -
  let ?n = "length start" and ?p = "seq_prefix_offset u" and ?r = "seq_read_offset u"
  have b: "?p \<le> ?r" "?n \<le> ?r" "?r \<le> length (start @ words)"
    using assms(1) by (simp_all add: detok_state_def Let_def)
  have w: "take (?r - ?p) (drop ?p (start @ words @ fresh)) = take (?r - ?p) (drop ?p (start @ words))"
    "take (?r - ?n) (words @ fresh) = take (?r - ?n) words"
    using b by simp_all
  have "last_piece tk before start (words @ fresh) t \<longleftrightarrow> last_piece tk before start words u"
  proof (cases "?n \<le> ?p")
    case True
    then have "take (?r - ?p) (drop (?p - ?n) (words @ fresh)) = take (?r - ?p) (drop (?p - ?n) words)"
      "take (?p - ?n) (words @ fresh) = take (?p - ?n) words" "(?r - ?n) - (?p - ?n) = ?r - ?p"
      using b by simp_all
    then show ?thesis using True by (simp add: last_piece_def assms(4-6) Let_def del: take_append drop_append)
  qed (simp add: last_piece_def assms(4) Let_def)
  then show ?thesis
    using assms(1) b unfolding detok_state_def Let_def assms(4-6) w
    by (simp add: assms(2,3) del: take_append drop_append)
qed

lemma detok_state_emit:
  assumes law: "byte_level f tk bytes decode" and u: "detok_state f tk before start words u"
    and pending: "pending = text_of tk (drop (seq_read_offset u - length start) (words @ fresh))" "\<not> held_back f pending"
    and t: "seq_tokens t = Some (start @ words @ fresh)" "seq_prefix_offset t = seq_read_offset u"
    "seq_read_offset t = length (start @ words @ fresh)" "seq_output_text t = seq_output_text u @ pending"
  shows "detok_state f tk before start (words @ fresh) t"
proof -
  let ?n = "length start" and ?r = "seq_read_offset u" and ?ws = "words @ fresh"
  have b: "?n \<le> ?r" "?r \<le> length (start @ words)" "complete_text f (text_of tk (take (?r - ?n) words))"
    "seq_output_text u = before @ text_of tk (take (?r - ?n) words)"
    using u by (simp_all add: detok_state_def Let_def)
  have tk: "take (?r - ?n) ?ws = take (?r - ?n) words" using b(2) by simp
  have whole: "text_of tk ?ws = text_of tk (take (?r - ?n) words) @ pending"
    using byte_levelD(3) [OF law b(3), of "drop (?r - ?n) ?ws"] unfolding pending(1)
    by (metis append_take_drop_id tk)
  have ne: "pending \<noteq> []" "complete_text f pending" using not_held_back [OF pending(2)] by simp_all
  have "drop (?r - ?n) ?ws \<noteq> []" using ne(1) pending(1) byte_levelD(2) [OF law] by auto
  then have less: "?r - ?n < length ?ws" by (meson drop_all not_less)
  have dr: "drop ?r (start @ ?ws) = drop (?r - ?n) ?ws" using b(1) by simp
  have "last_piece tk before start ?ws t"
    using b(1,4) less unfolding last_piece_def Let_def t(2-4) by (simp add: tk pending(1) del: take_append drop_append)
  moreover have "complete_text f (text_of tk ?ws)" using ne by (simp add: whole complete_text_append)
  ultimately show ?thesis
    using b less ne whole unfolding detok_state_def Let_def t dr
    by (simp add: pending(1) [symmetric] held_back_def byte_levelD(2) [OF law] del: take_append drop_append)
qed

lemma detok_state_step:
  assumes law: "byte_level f tk bytes decode" and tk: "get (seq_lora_request t) = tk"
    and ids: "seq_get_token_ids t \<noteq> []" "seq_output_logprobs t \<noteq> []"
    and st: "detok_state f tk before start words (with_tokens tk prms t)"
  shows "wp (decode_sequence_inplace f get prms)
    (\<lambda>_ u. detok_state f tk before start (words @ new_id_tokens tk (sp_skip_special_tokens prms) (last (seq_get_token_ids t))) u \<and>
       same_content t u \<and> seq_read_offset u \<in> {seq_read_offset (with_tokens tk prms t),
         length start + length (words @ new_id_tokens tk (sp_skip_special_tokens prms) (last (seq_get_token_ids t)))})
    (\<lambda>_ _. False) t"
proof -
  let ?fresh = "new_id_tokens tk (sp_skip_special_tokens prms) (last (seq_get_token_ids t))"
  define u where "u = with_tokens (get (seq_lora_request t)) prms t"
  let ?p = "seq_prefix_offset u" and ?r = "seq_read_offset u" and ?n = "length start"
  have stu: "detok_state f tk before start words u" using st by (simp add: u_def tk)
  have read: "seq_read_offset (with_tokens tk prms t) = ?r" by (simp add: u_def tk)
  from stu have u: "seq_tokens u = Some (start @ words)" "?p \<le> ?r" "?n \<le> ?r" "?r \<le> length (start @ words)"
    "complete_text f (text_of tk (take (?r - ?p) (drop ?p (start @ words))))"
    by (simp_all add: detok_state_def Let_def)
  have keep: "same_content t u" "seq_output_logprobs u = seq_output_logprobs t"
    by (simp_all add: u_def)
  let ?pending = "text_of tk (drop (?r - ?n) (words @ ?fresh))"
  have dr: "drop ?r ((start @ words) @ ?fresh) = drop (?r - ?n) (words @ ?fresh)" using u(3) by simp
  have det: "detokenize_incrementally f (get (seq_lora_request t)) (seq_get_token_ids t) (seq_tokens u) ?p ?r
      (sp_skip_special_tokens prms) (sp_spaces_between_special_tokens prms) =
    (if held_back f ?pending then Inr (?fresh, [], ?p, ?r)
     else Inr (?fresh, ?pending, ?r, length ((start @ words) @ ?fresh)))"
    unfolding tk u(1) detokenize_piece [OF law u(2,4) ids(1) u(5)] Let_def dr ..
  let ?t = "\<lambda>lps p r w. u\<lparr>seq_output_logprobs := butlast (seq_output_logprobs u) @ [lps],
        seq_tokens := map_option (\<lambda>ts. ts @ ?fresh) (seq_tokens u),
        seq_prefix_offset := p, seq_read_offset := r, seq_output_text := seq_output_text u @ w\<rparr>"
  have same: "same_content t (?t lps p r w)" for lps p r w
    using keep ids(2) by (simp add: same_content_def)
  show ?thesis
  proof (cases "held_back f ?pending")
    case True
    from decode_sequence_run [of t u get prms f, OF ids u_def det [unfolded if_P [OF True]]]
    obtain lps where "decode_sequence_inplace f get prms t = (Inr (length ([] :: string)), ?t lps ?p ?r [])" by blast
    moreover have "detok_state f tk before start (words @ ?fresh) (?t lps ?p ?r [])"
      by (rule detok_state_held [OF stu True]) (simp_all add: u(1))
    ultimately show ?thesis using same [where lps = lps and p = ?p and r = ?r and w = "[]"] by (simp add: wp_def read)
  next
    case False
    from decode_sequence_run [of t u get prms f, OF ids u_def det [unfolded if_not_P [OF False]]]
    obtain lps where "decode_sequence_inplace f get prms t =
      (Inr (length ?pending), ?t lps ?r (length ((start @ words) @ ?fresh)) ?pending)" by blast
    moreover have "detok_state f tk before start (words @ ?fresh) (?t lps ?r (length ((start @ words) @ ?fresh)) ?pending)"
      by (rule detok_state_emit [OF law stu refl False]) (simp_all add: u(1))
    ultimately show ?thesis
      using same [where lps = lps and p = ?r and r = "length ((start @ words) @ ?fresh)" and w = ?pending]
      by (simp add: wp_def)
  qed
qed

text \<open>The tokens of some generated ids.\<close>

definition words_of :: "tokenizer \<Rightarrow> SamplingParams \<Rightarrow> (int \<times> logprobs) list \<Rightarrow> string list" where
  "words_of tk prms gen = concat (map (\<lambda>(tok, _). new_id_tokens tk (sp_skip_special_tokens prms) tok) gen)"

lemma words_of_append [simp]: "words_of tk prms (xs @ ys) = words_of tk prms xs @ words_of tk prms ys"
  by (simp add: words_of_def)

lemma words_of_simps [simp]:
  "words_of tk prms [] = []" "words_of tk prms [(tok, l)] = new_id_tokens tk (sp_skip_special_tokens prms) tok"
  by (simp_all add: words_of_def)

text \<open>
  The state after the ids \<open>xs\<close>: the text of the first \<open>m\<close> of them was emitted; since then the text of
  the others was held back after every one of them.
\<close>

definition emitted_first ::
  "char \<Rightarrow> tokenizer \<Rightarrow> SamplingParams \<Rightarrow> string list \<Rightarrow> (int \<times> logprobs) list \<Rightarrow> nat \<Rightarrow> Sequence \<Rightarrow> bool" where
  "emitted_first f tk prms start xs m t \<longleftrightarrow> m \<le> length xs \<and>
     seq_read_offset t = length start + length (words_of tk prms (take m xs)) \<and>
     (\<forall>k. m < k \<and> k \<le> length xs \<longrightarrow> held_back f (text_of tk (words_of tk prms (drop m (take k xs)))))"

lemma emitted_first_step:
  assumes "emitted_first f tk prms start xs m u"
    and st: "detok_state f tk before start (words_of tk prms (xs @ [x])) t"
    and read: "seq_read_offset t \<in> {seq_read_offset u, length start + length (words_of tk prms (xs @ [x]))}"
  shows "\<exists>m. emitted_first f tk prms start (xs @ [x]) m t"
proof (cases "seq_read_offset t = length start + length (words_of tk prms (xs @ [x]))")
  case True
  then have "emitted_first f tk prms start (xs @ [x]) (Suc (length xs)) t" by (auto simp: emitted_first_def)
  then show ?thesis ..
next
  case False
  then have r: "seq_read_offset t = seq_read_offset u" using read by simp
  have m: "m \<le> length xs" "seq_read_offset u = length start + length (words_of tk prms (take m xs))"
    using assms(1) by (simp_all add: emitted_first_def)
  have "words_of tk prms (xs @ [x]) = words_of tk prms (take m xs) @ words_of tk prms (drop m xs @ [x])"
    by (metis append.assoc append_take_drop_id words_of_append)
  then have "drop (seq_read_offset t - length start) (words_of tk prms (xs @ [x])) = words_of tk prms (drop m xs @ [x])"
    using m(2) r by simp
  then have held: "held_back f (text_of tk (words_of tk prms (drop m xs @ [x])))"
    using st by (simp add: detok_state_def Let_def)
  have "emitted_first f tk prms start (xs @ [x]) m t"
    using assms(1) r m held unfolding emitted_first_def by (auto simp: le_Suc_eq)
  then show ?thesis ..
qed

text \<open>
  C37. Incremental detokenization with a byte-level tokenizer, whose tokens may end in the middle of a
  character (and which is fast or has no added tokens, so that its own decoding is used). When the end of the prompt is a complete text, decoding the output tokens one by one as
  they are appended emits the text of all of them in pieces: after any number of tokens the text of the
  first \<open>m\<close> was emitted, the text of the others is the rest of the text of all, and they are held back
  because after each of them it ended in the replacement character, an unfinished character. Nothing is
  lost, repeated, emitted too early (no emitted text ends in an unfinished character) or too late, and no
  step raises. Once something was emitted only the tokens of the last piece are decoded again: they stand
  between the two offsets, behind the prompt.
\<close>

theorem detokenizes_in_pieces:
  assumes "seq_ok s" "seq_tokens s = None" "seq_get_output_len s = 0" "prompt = seq_get_token_ids s"
    and "byte_level f (get (seq_lora_request s)) bytes decode" "get (seq_lora_request s) = tk"
    and "start = tk_convert_ids_to_tokens tk (drop (length prompt - 7) prompt) (sp_skip_special_tokens prms)"
    and "complete_text f (tk_convert_tokens_to_string tk (drop (length start - 5) start))"
    and "\<forall>(tok, lps) \<in> set gen. map_of lps tok \<noteq> None"
  shows "wp (for_each gen (\<lambda>(tok, lps). sq (seq_append_token_id tok lps)
      (bnd (decode_sequence_inplace f get prms) (\<lambda>_. ret ()))))
    (\<lambda>_ t. \<exists>m \<le> length gen.
       let emitted = tk_convert_tokens_to_string tk (words_of tk prms (take m gen)) in
       seq_output_text t = seq_output_text s @ emitted \<and> complete_text f emitted \<and>
       tk_convert_tokens_to_string tk (words_of tk prms gen) =
         emitted @ tk_convert_tokens_to_string tk (words_of tk prms (drop m gen)) \<and>
       (\<forall>k. m < k \<and> k \<le> length gen \<longrightarrow>
          held_back f (tk_convert_tokens_to_string tk (words_of tk prms (drop m (take k gen))))) \<and>
       (emitted \<noteq> [] \<longrightarrow> last_piece tk (seq_output_text s) start (words_of tk prms gen) t))
    (\<lambda>_ _. False) s"
proof -
  note law = assms(5) [unfolded assms(6)]
  let ?W = "words_of tk prms"
  let ?I = "\<lambda>xs t. seq_ok t \<and> seq_lora_request t = seq_lora_request s \<and>
    (if xs = [] then t = s else detok_state f tk (seq_output_text s) start (?W xs) t \<and>
       (\<exists>m. emitted_first f tk prms start xs m t))"
  show ?thesis
  proof (rule wp_for_each [where I = "\<lambda>ys t. \<exists>xs. gen = xs @ ys \<and> ?I xs t"])
    show "\<exists>xs. gen = xs @ gen \<and> ?I xs s" using assms(1) by simp
  next
    fix t assume "\<exists>xs. gen = xs @ [] \<and> ?I xs t"
    then have I: "?I gen t" by simp
    let ?Q = "\<lambda>m. let emitted = text_of tk (?W (take m gen)) in
       seq_output_text t = seq_output_text s @ emitted \<and> complete_text f emitted \<and>
       text_of tk (?W gen) = emitted @ text_of tk (?W (drop m gen)) \<and>
       (\<forall>k. m < k \<and> k \<le> length gen \<longrightarrow> held_back f (text_of tk (?W (drop m (take k gen))))) \<and>
       (emitted \<noteq> [] \<longrightarrow> last_piece tk (seq_output_text s) start (?W gen) t)"
    show "\<exists>m \<le> length gen. ?Q m"
    proof (cases "gen = []")
      case True
      then have "?Q 0" using I byte_levelD(2) [OF law] by (simp add: complete_text_def)
      then show ?thesis using True by blast
    next
      case False
      obtain m where m: "emitted_first f tk prms start gen m t" and d: "detok_state f tk (seq_output_text s) start (?W gen) t"
        using I False by auto
      have split: "?W gen = ?W (take m gen) @ ?W (drop m gen)" by (metis append_take_drop_id words_of_append)
      then have tk: "take (seq_read_offset t - length start) (?W gen) = ?W (take m gen)"
        using m by (simp add: emitted_first_def)
      have c: "complete_text f (text_of tk (?W (take m gen)))"
        "seq_output_text t = seq_output_text s @ text_of tk (?W (take m gen))"
        using d unfolding detok_state_def Let_def tk by simp_all
      have "seq_read_offset t = length start \<Longrightarrow> text_of tk (?W (take m gen)) = []"
        using m byte_levelD(2) [OF law] by (simp add: emitted_first_def)
      moreover have "text_of tk (?W gen) = text_of tk (?W (take m gen)) @ text_of tk (?W (drop m gen))"
        using byte_levelD(3) [OF law c(1)] split by simp
      ultimately have "?Q m"
        using m d c unfolding Let_def by (auto simp: emitted_first_def detok_state_def Let_def)
      then show ?thesis using m by (auto simp: emitted_first_def)
    qed
  next
    fix x ys t
    assume "\<exists>xs. gen = xs @ x # ys \<and> ?I xs t"
    then obtain xs where xs: "gen = xs @ x # ys" and I: "?I xs t" by blast
    obtain tok lps where x: "x = (tok, lps)" by (cases x)
    from assms(9) xs x obtain lp where lp: "map_of lps tok = Some lp" by fastforce
    have ok: "seq_ok t" using I by blast
    let ?t = "t\<lparr>seq_logical_token_blocks := logical_blocks (seq_block_size t) (seq_get_token_ids t @ [tok]),
       seq_output_logprobs := seq_output_logprobs t @ [lps],
       seq_data := sd_append_token_id tok (logprob lp) (seq_data t)\<rparr>"
    let ?u = "with_tokens tk prms ?t"
    have ids: "seq_get_token_ids ?t = seq_get_token_ids t @ [tok]" and tok: "seq_ok ?t"
      using ok by (auto simp: seq_ok_def seq_get_token_ids_def sd_get_token_ids_def sd_append_token_id_def
        seq_get_output_len_def sd_get_output_len_def)
    have st: "detok_state f tk (seq_output_text s) start (?W xs) ?u \<and> (\<exists>m. emitted_first f tk prms start xs m ?u)"
    proof (cases "xs = []")
      case True
      then have "t = s" using I by simp
      then have "detok_state f tk (seq_output_text s) start [] ?u"
        using assms(2,4,7,8) ids byte_levelD(2) [OF law]
        by (intro detok_state_start [where prompt = prompt]) simp_all
      moreover from this have "seq_read_offset ?u = length start" by (simp add: detok_state_def Let_def)
      ultimately show ?thesis using True by (auto simp: emitted_first_def)
    next
      case False
      then have d: "detok_state f tk (seq_output_text s) start (?W xs) t" "\<exists>m. emitted_first f tk prms start xs m t"
        using I by simp_all
      then have "?u = ?t" by (simp add: with_tokens_def detok_state_def Let_def)
      moreover have "detok_state f tk (seq_output_text s) start (?W xs) ?t"
        using d(1) by (subst detok_state_cong [where u = t]) simp_all
      ultimately show ?thesis using d(2) by (simp add: emitted_first_def)
    qed
    have "wp (decode_sequence_inplace f get prms)
      (\<lambda>_ u. detok_state f tk (seq_output_text s) start (?W (xs @ [x])) u \<and> same_content ?t u \<and>
         seq_read_offset u \<in> {seq_read_offset ?u, length start + length (?W (xs @ [x]))}) (\<lambda>_ _. False) ?t"
      using detok_state_step [OF law, where get = get and t = ?t and before = "seq_output_text s" and start = start
        and words = "?W xs" and prms = prms] st I assms(6) ids x by simp
    then have "wp (decode_sequence_inplace f get prms) (\<lambda>_ u. ?I (xs @ [x]) u) (\<lambda>_ _. False) ?t"
    proof (rule wp_mono)
      fix n u
      assume u: "detok_state f tk (seq_output_text s) start (?W (xs @ [x])) u \<and> same_content ?t u \<and>
         seq_read_offset u \<in> {seq_read_offset ?u, length start + length (?W (xs @ [x]))}"
      note C = same_contentD [OF conjunct1 [OF conjunct2 [OF u]]]
      have "seq_ok u" using tok C(6) by simp
      moreover have "seq_lora_request u = seq_lora_request s" using C(8) I by simp
      moreover have "\<exists>m. emitted_first f tk prms start (xs @ [x]) m u"
        using st u emitted_first_step by blast
      ultimately show "?I (xs @ [x]) u" using u by simp
    qed simp
    then show "wp (case x of (tok, lps) \<Rightarrow> sq (seq_append_token_id tok lps)
        (bnd (decode_sequence_inplace f get prms) (\<lambda>_. ret ())))
      (\<lambda>_ t. \<exists>xs. gen = xs @ ys \<and> ?I xs t) (\<lambda>_ _. False) t"
      unfolding x prod.case wp_sq wp_bnd wp_ret
      unfolding wp_def [of "seq_append_token_id _ _"] seq_append_token_id_run [OF ok lp] prod.case sum.case
      by (rule wp_mono) (use xs x in \<open>auto intro!: exI [where x = "xs @ [x]"]\<close>)
  qed
qed

section \<open>Examples\<close>

text \<open>A tokenizer with one word for every id.\<close>

definition demo_tokenizer :: tokenizer where
  "demo_tokenizer = \<lparr>tk_len = 100, tk_convert_ids_to_tokens = (\<lambda>ids _. map (\<lambda>i. if i = 5 then ''ab'' else ''c'') ids),
     tk_convert_tokens_to_string = concat, tk_all_special_tokens = [], tk_added_vocab = [], tk_is_fast = True\<rparr>"

lemma demo_seq_ok: "seq_ok (demo_seq sid n st)"
  by (simp add: demo_seq_def Sequence_init_eq seq_ok_def seq_get_token_ids_def sd_get_token_ids_def
      SequenceData_init_def seq_get_output_len_def sd_get_output_len_def)

text \<open>
  A byte-level tokenizer: a character \<^verbatim>\<open>E\<close> of the text is the two bytes \<^verbatim>\<open>1 2\<close>, each a token of its
  own (the ids 1 and 2); a byte \<^verbatim>\<open>1\<close> or \<^verbatim>\<open>2\<close> that is not part of a character becomes \<^verbatim>\<open>?\<close>, all others are
  characters.
\<close>

fun demo_decode :: "string \<Rightarrow> string" where
  "demo_decode [] = []"
| "demo_decode [b] = [if b = CHR ''1'' \<or> b = CHR ''2'' then CHR ''?'' else b]"
| "demo_decode (b # c # bs) =
     (if b = CHR ''1'' \<and> c = CHR ''2'' then CHR ''E'' # demo_decode bs
      else (if b = CHR ''1'' \<or> b = CHR ''2'' then CHR ''?'' else b) # demo_decode (c # bs))"

definition demo_bytes_tokenizer :: tokenizer where
  "demo_bytes_tokenizer = \<lparr>tk_len = 100,
     tk_convert_ids_to_tokens = (\<lambda>ids _. map (\<lambda>i. if i = 1 then ''1'' else if i = 2 then ''2'' else ''x'') ids),
     tk_convert_tokens_to_string = (\<lambda>toks. demo_decode (concat toks)), tk_all_special_tokens = [],
     tk_added_vocab = [], tk_is_fast = True\<rparr>"

lemma demo_decode_append:
  "complete_text CHR ''?'' (demo_decode bs) \<Longrightarrow> demo_decode (bs @ cs) = demo_decode bs @ demo_decode cs"
proof (induction bs rule: demo_decode.induct)
  case (2 b)
  then show ?case by (cases cs) (auto simp: complete_text_def split: if_splits)
next
  case (3 b c bs)
  have ne: "demo_decode (c # bs) \<noteq> []" by (cases bs) auto
  show ?case
  proof (cases "b = CHR ''1'' \<and> c = CHR ''2''")
    case True
    then have "complete_text CHR ''?'' (demo_decode bs)"
      using 3(3) by (auto simp: complete_text_def)
    with 3(1) [OF True] True show ?thesis by simp
  next
    case False
    then have "complete_text CHR ''?'' (demo_decode (c # bs))"
      using 3(3) ne by (auto simp: complete_text_def)
    with 3(2) [OF False] False show ?thesis by auto
  qed
qed simp

text \<open>
  The tokens \<^verbatim>\<open>x\<close>, \<^verbatim>\<open>1\<close>: the second is held back. With \<^verbatim>\<open>2\<close> behind it the character is complete, and
  emitted.
\<close>

theorem detokenizes_in_pieces_witness:
  "(\<exists>t. for_each (map (\<lambda>i. (i, [(i, \<lparr>logprob = -1, lp_rank = None, lp_decoded_token = None\<rparr>)])) [5, 1])
      (\<lambda>(tok, lps). sq (seq_append_token_id tok lps)
        (bnd (decode_sequence_inplace CHR ''?'' (\<lambda>_. demo_bytes_tokenizer) (demo_params [])) (\<lambda>_. ret ())))
      (demo_seq 0 4 RUNNING) = (Inr (), t) \<and> seq_output_text t = ''x'') \<and>
   (\<exists>t. for_each (map (\<lambda>i. (i, [(i, \<lparr>logprob = -1, lp_rank = None, lp_decoded_token = None\<rparr>)])) [5, 1, 2])
      (\<lambda>(tok, lps). sq (seq_append_token_id tok lps)
        (bnd (decode_sequence_inplace CHR ''?'' (\<lambda>_. demo_bytes_tokenizer) (demo_params [])) (\<lambda>_. ret ())))
      (demo_seq 0 4 RUNNING) = (Inr (), t) \<and> seq_output_text t = ''xE'')"
proof -
  let ?s = "demo_seq 0 4 RUNNING" and ?get = "\<lambda>_ :: LoRARequest option. demo_bytes_tokenizer"
  let ?gen = "\<lambda>ids. map (\<lambda>i :: int. (i, [(i, \<lparr>logprob = -1, lp_rank = None, lp_decoded_token = None\<rparr>)] :: logprobs)) ids"
  let ?run = "\<lambda>ids. for_each (?gen ids) (\<lambda>(tok, lps). sq (seq_append_token_id tok lps)
        (bnd (decode_sequence_inplace CHR ''?'' ?get (demo_params [])) (\<lambda>_. ret ()))) ?s"
  let ?T = "\<lambda>ids. tk_convert_tokens_to_string demo_bytes_tokenizer (words_of demo_bytes_tokenizer (demo_params []) (?gen ids))"
  have s: "seq_tokens ?s = None" "seq_get_output_len ?s = 0" "seq_get_token_ids ?s = replicate 4 7" "seq_output_text ?s = []"
    by (simp_all add: demo_seq_def Sequence_init_eq seq_get_output_len_def sd_get_output_len_def SequenceData_init_def
      seq_get_token_ids_def sd_get_token_ids_def)
  have law: "byte_level CHR ''?'' demo_bytes_tokenizer id demo_decode"
    by (simp add: byte_level_def demo_bytes_tokenizer_def demo_decode_append)
  have run: "\<exists>t m. ?run ids = (Inr (), t) \<and> m \<le> length ids \<and> seq_output_text t = ?T (take m ids) \<and>
      complete_text CHR ''?'' (?T (take m ids)) \<and>
      (\<forall>k. m < k \<and> k \<le> length ids \<longrightarrow> held_back CHR ''?'' (?T (drop m (take k ids))))" for ids
  proof -
    have "wp (for_each (?gen ids) (\<lambda>(tok, lps). sq (seq_append_token_id tok lps)
        (bnd (decode_sequence_inplace CHR ''?'' ?get (demo_params [])) (\<lambda>_. ret ()))))
      (\<lambda>_ t. \<exists>m \<le> length (?gen ids).
       let emitted = tk_convert_tokens_to_string demo_bytes_tokenizer (words_of demo_bytes_tokenizer (demo_params []) (take m (?gen ids))) in
       seq_output_text t = seq_output_text ?s @ emitted \<and> complete_text CHR ''?'' emitted \<and>
       ?T ids = emitted @ tk_convert_tokens_to_string demo_bytes_tokenizer
          (words_of demo_bytes_tokenizer (demo_params []) (drop m (?gen ids))) \<and>
       (\<forall>k. m < k \<and> k \<le> length (?gen ids) \<longrightarrow>
          held_back CHR ''?'' (tk_convert_tokens_to_string demo_bytes_tokenizer
            (words_of demo_bytes_tokenizer (demo_params []) (drop m (take k (?gen ids)))))) \<and>
       (emitted \<noteq> [] \<longrightarrow> last_piece demo_bytes_tokenizer (seq_output_text ?s) (replicate 4 ''x'')
          (words_of demo_bytes_tokenizer (demo_params []) (?gen ids)) t))
      (\<lambda>_ _. False) ?s"
      by (rule detokenizes_in_pieces [where prompt = "replicate 4 7" and bytes = id and decode = demo_decode])
        (use demo_seq_ok s law in \<open>auto simp: demo_bytes_tokenizer_def complete_text_def numeral_eq_Suc\<close>)
    from wp_ok_result [OF this] show ?thesis
      using s(4) by (auto simp: Let_def take_map drop_map)
  qed
  have T: "?T [] = []" "?T [5] = ''x''" "?T [5, 1] = ''x?''" "?T [1] = ''?''" "?T [1, 2] = ''E''" "?T [5, 1, 2] = ''xE''"
    by (simp_all add: words_of_def demo_bytes_tokenizer_def new_id_tokens_def)
  have "\<exists>t. ?run [5, 1] = (Inr (), t) \<and> seq_output_text t = ''x''"
  proof -
    from run [of "[5, 1]"] obtain t m where t: "?run [5, 1] = (Inr (), t)" "m \<le> 2" "seq_output_text t = ?T (take m [5, 1])"
      "complete_text CHR ''?'' (?T (take m [5, 1]))"
      "\<forall>k. m < k \<and> k \<le> 2 \<longrightarrow> held_back CHR ''?'' (?T (drop m (take k [5, 1])))" by (auto simp: numeral_eq_Suc)
    have "m \<noteq> 0" using t(5) [rule_format, of 1] T by (auto simp: held_back_def)
    moreover have "m \<noteq> 2" using t(4) T by (auto simp: complete_text_def)
    ultimately have "m = 1" using t(2) by linarith
    then show ?thesis using t(1,3) T by auto
  qed
  moreover have "\<exists>t. ?run [5, 1, 2] = (Inr (), t) \<and> seq_output_text t = ''xE''"
  proof -
    from run [of "[5, 1, 2]"] obtain t m where t: "?run [5, 1, 2] = (Inr (), t)" "m \<le> 3"
      "seq_output_text t = ?T (take m [5, 1, 2])" "complete_text CHR ''?'' (?T (take m [5, 1, 2]))"
      "\<forall>k. m < k \<and> k \<le> 3 \<longrightarrow> held_back CHR ''?'' (?T (drop m (take k [5, 1, 2])))" by (auto simp: numeral_eq_Suc)
    have "m \<noteq> 0" using t(5) [rule_format, of 1] T by (auto simp: held_back_def)
    moreover have "m \<noteq> 1" using t(5) [rule_format, of 3] T by (auto simp: held_back_def)
    moreover have "m \<noteq> 2" using t(4) T by (auto simp: complete_text_def)
    ultimately have "m = 3" using t(2) by linarith
    then show ?thesis using t(1,3) T by auto
  qed
  ultimately show ?thesis by blast
qed

end
