(* ===== verification/Multi_Step.thy ===== *)
theory Multi_Step
  imports Detokenizer_Facts Scheduler_Demo
begin

text \<open>
  \<^verbatim>\<open>vllm/engine/output_processor/multi_step.py\<close> and \<^verbatim>\<open>util.py\<close>: several new tokens of one
  sequence per step. They are appended one by one as if there was only one.
\<close>

section \<open>Outputs by group\<close>

text \<open>
  \<^verbatim>\<open>create_output_by_sequence_group\<close>: the outputs, ordered by step and group, are ordered by group
  and step. A step with more outputs than groups ends in an \<^const>\<open>IndexError\<close>.
\<close>

definition append_at :: "nat \<Rightarrow> 'a \<Rightarrow> 'a list list \<Rightarrow> py_error + 'a list list" where
  "append_at i x xss = (case nth_py xss i of Inl e \<Rightarrow> Inl e | Inr xs \<Rightarrow> Inr (xss[i := xs @ [x]]))"

definition create_output_by_sequence_group :: "'a list list \<Rightarrow> nat \<Rightarrow> py_error + 'a list list" where
  "create_output_by_sequence_group sampler_outputs num_seq_groups =
     foldl (\<lambda>acc step. foldl (\<lambda>acc (i, out). case acc of Inl e \<Rightarrow> Inl e | Inr xss \<Rightarrow> append_at i out xss)
         acc (zip [0..<length step] step))
       (Inr (replicate num_seq_groups [])) sampler_outputs"

text \<open>One step adds its \<open>i\<close>-th output to the \<open>i\<close>-th group.\<close>

lemma append_step:
  assumes "j + length step \<le> length xss"
  shows "foldl (\<lambda>acc (i, out). case acc of Inl e \<Rightarrow> Inl e | Inr xss \<Rightarrow> append_at i out xss) (Inr xss)
      (zip [j..<j + length step] step) =
    Inr (take j xss @ map2 (\<lambda>xs x. xs @ [x]) (drop j xss) step @ drop (j + length step) xss)"
  using assms
proof (induction step arbitrary: j xss)
  case (Cons x step)
  let ?xss = "xss[j := xss ! j @ [x]]"
  have j: "j < length xss" using Cons.prems by simp
  have "drop j xss = xss ! j # drop (Suc j) xss" using j by (simp add: Cons_nth_drop_Suc)
  moreover have "take (Suc j) ?xss = take j xss @ [xss ! j @ [x]]" using j by (simp add: take_Suc_conv_app_nth)
  ultimately show ?case
    using Cons.IH [of "Suc j" ?xss] Cons.prems j
    by (simp add: upt_conv_Cons append_at_def del: upt_Suc)
qed simp

text \<open>The output is the transposed input when every step has an output for every group.\<close>

lemma outputs_transposed:
  assumes "\<forall>step \<in> set steps. length step = n"
  shows "create_output_by_sequence_group steps n = Inr (map (\<lambda>i. map (\<lambda>step. step ! i) steps) [0..<n])"
  using assms
proof (induction steps rule: rev_induct)
  case Nil
  then show ?case by (simp add: create_output_by_sequence_group_def map_replicate_const)
next
  case (snoc step steps)
  let ?xss = "map (\<lambda>i. map (\<lambda>step. step ! i) steps) [0..<n]"
  have "map2 (\<lambda>xs x. xs @ [x]) ?xss step = map (\<lambda>i. map (\<lambda>step. step ! i) (steps @ [step])) [0..<n]"
    using snoc.prems by (intro nth_equalityI) simp_all
  then show ?case
    using snoc append_step [of 0 step ?xss] by (simp add: create_output_by_sequence_group_def)
qed

section \<open>Truncation\<close>

text \<open>\<^verbatim>\<open>xs[:-k]\<close> for \<open>k > 0\<close> is \<open>take (length xs - k) xs\<close>.\<close>

definition truncate_to_max :: "int \<Rightarrow> nat \<Rightarrow> int list \<Rightarrow> int list" where
  "truncate_to_max max_tokens output_len output_token_ids =
     (let remaining_tokens = max_tokens - int (output_len + length output_token_ids) in
      if remaining_tokens < 0 then take (length output_token_ids - nat (- remaining_tokens)) output_token_ids
      else output_token_ids)"

text \<open>The loop that cuts the tokens behind the first EOS token.\<close>

definition truncate_to_eos :: "int option \<Rightarrow> int list \<Rightarrow> int list" where
  "truncate_to_eos eos_token_id output_token_ids =
     (case List.find (\<lambda>i. Some (output_token_ids ! i) = eos_token_id) [0..<length output_token_ids] of
        None \<Rightarrow> output_token_ids | Some i \<Rightarrow> take (i + 1) output_token_ids)"

section \<open>Appending\<close>

text \<open>What the processor keeps: the detokenizer, the stop checker's length limit, the tokenizers.\<close>

record processor =
  pr_fffd :: char
  pr_get_tokenizer :: "LoRARequest option \<Rightarrow> tokenizer"
  pr_eos_token_id :: "Sequence \<Rightarrow> int option"
  pr_max_model_len :: nat
  pr_has_detokenizer :: bool

text \<open>The loop over the tokens, with its \<^verbatim>\<open>break\<close>.\<close>

fun append_outputs :: "processor \<Rightarrow> SamplingParams \<Rightarrow> (int \<times> logprobs) list \<Rightarrow> (Sequence, unit) pym" where
  "append_outputs pr params [] = ret ()"
| "append_outputs pr params ((token, lps) # rest) =
     sq (seq_append_token_id token lps)
    (bnd (if sp_detokenize params then decode_sequence_inplace (pr_fffd pr) (pr_get_tokenizer pr) params
          else ret 0) (\<lambda>new_char_count.
     sq (maybe_stop_sequence (pr_max_model_len pr) new_char_count params None)
    (bnd (gets seq_is_finished) (\<lambda>fin. if fin then ret () else append_outputs pr params rest))))"

definition tokens_to_append ::
  "processor \<Rightarrow> SamplingParams \<Rightarrow> SequenceOutput list \<Rightarrow> Sequence \<Rightarrow> py_error + (int \<times> logprobs) list"
where
  "tokens_to_append pr params valid_samples s =
     (case sp_max_tokens params of
        None \<Rightarrow> Inl TypeError
      | Some max_tokens \<Rightarrow>
          let ids = truncate_to_max max_tokens (seq_get_output_len s) (map so_output_token valid_samples);
              ids' = (if sp_ignore_eos params then ids else truncate_to_eos (pr_eos_token_id pr s) ids) in
          Inr (zip ids' (map so_logprobs valid_samples)))"

definition process_seq_outputs ::
  "processor \<Rightarrow> ('b, 'p) block_manager \<Rightarrow> group_ref \<Rightarrow> nat \<Rightarrow> SequenceOutput list \<Rightarrow> SamplingParams \<Rightarrow>
   ('b, unit) sched"
where
  "process_seq_outputs pr bm r k valid_samples params =
     sq (on_group r (on_seq k (bnd (lift_err (tokens_to_append pr params valid_samples)) (append_outputs pr params))))
    (bnd (group r) (\<lambda>g.
     bnd (lift_err (\<lambda>_. dget (sg_seqs_dict g) k)) (\<lambda>s.
     if seq_is_finished s then sched_free_seq bm s else ret ())))"

definition first_sample :: "CompletionSequenceGroupOutput \<Rightarrow> py_error + SequenceOutput" where
  "first_sample out = nth_py (cso_samples out) 0"

definition multi_process_outputs ::
  "processor \<Rightarrow> ('b, 'p) block_manager \<Rightarrow> group_ref \<Rightarrow> CompletionSequenceGroupOutput list \<Rightarrow> ('b, unit) sched"
where
  "multi_process_outputs pr bm r outputs =
     bnd (group r) (\<lambda>g.
     let seqs = filter (\<lambda>(k, s). seq_status s = RUNNING) (sg_seqs_dict g) in
     sq (ensure (seqs \<noteq> []) AssertionError)
    (sq (ensure (length seqs = 1) AssertionError)
    (bnd (collect outputs (\<lambda>out. lift_err (\<lambda>_. first_sample out))) (\<lambda>samples.
     let valid_samples = filter (\<lambda>smp. so_output_token smp \<noteq> -1) samples in
     sq (ensure (valid_samples \<noteq> []) AssertionError)
    (bnd (lift_err (\<lambda>_. case sg_sampling_params g of None \<Rightarrow> Inl AttributeError | Some params \<Rightarrow> Inr params)) (\<lambda>params.
     process_seq_outputs pr bm r (fst (hd seqs)) valid_samples params))))))"

section \<open>One token\<close>

text \<open>After a check that did not stop the sequence none of the stop conditions holds.\<close>

definition no_stop_text :: "SamplingParams \<Rightarrow> Sequence \<Rightarrow> bool" where
  "no_stop_text params s \<longleftrightarrow> (\<forall>x \<in> set (sp_stop params). \<not> contains x (seq_output_text s))"

text \<open>
  Nothing stops a sequence at its \<open>n\<close>-th output token, with which it has \<open>len\<close> tokens: it has fewer
  than \<open>min_tokens\<close>, or the token is no stop token and no EOS token that counts, and neither limit is reached.
\<close>

definition token_passes :: "nat \<Rightarrow> SamplingParams \<Rightarrow> int option \<Rightarrow> nat \<Rightarrow> nat \<Rightarrow> int \<Rightarrow> bool" where
  "token_passes max_len params eos n len token \<longleftrightarrow> int n < sp_min_tokens params \<or>
     Some (int n) \<noteq> sp_max_tokens params \<and> len \<le> max_len \<and> token \<notin> set (sp_stop_token_ids params) \<and>
     (sp_ignore_eos params \<or> Some token \<noteq> eos)"

definition goes_on :: "nat \<Rightarrow> SamplingParams \<Rightarrow> LoRARequest option \<Rightarrow> Sequence \<Rightarrow> bool" where
  "goes_on max_model_len params lora s \<longleftrightarrow> int (seq_get_output_len s) < sp_min_tokens params \<or>
     Some (int (seq_get_output_len s)) \<noteq> sp_max_tokens params \<and> seq_get_len s \<le> get_max_model_len max_model_len lora \<and>
     (\<exists>t. seq_get_last_token_id s = Inr t \<and> t \<notin> set (sp_stop_token_ids params) \<and>
        (sp_ignore_eos params \<or> Some t \<noteq> seq_eos_token_id s))"

lemma goes_on_token:
  "seq_get_last_token_id s = Inr token \<Longrightarrow> goes_on mml params None s \<longleftrightarrow>
     token_passes mml params (seq_eos_token_id s) (seq_get_output_len s) (seq_get_len s) token"
  by (auto simp: goes_on_def token_passes_def get_max_model_len_def)

text \<open>The check finished the sequence for a reason.\<close>

definition stopped_for :: "SamplingParams \<Rightarrow> bool \<Rightarrow> Sequence \<Rightarrow> bool" where
  "stopped_for params passes t \<longleftrightarrow> sp_min_tokens params \<le> int (seq_get_output_len t) \<and>
     (\<not> passes \<or> seq_status t = FINISHED_STOPPED \<and> (\<exists>x \<in> set (sp_stop params). seq_stop_reason t = Some (Stop_string x)))"

lemma stop_string_loop_frame:
  "\<exists>r w. stop_string_loop n incl stops s = (Inr r, s\<lparr>seq_output_text := w\<rparr>) \<and> (r = None \<longrightarrow> w = seq_output_text s) \<and>
     (\<forall>x. r = Some x \<longrightarrow> x \<in> set stops)"
proof (induction stops)
  case Nil
  then show ?case by (intro exI [where x = None] exI [where x = "seq_output_text s"]) (simp add: ret_def)
next
  case (Cons x stops)
  show ?case
  proof (cases "py_find x (- int n - int (length x)) (seq_output_text s)")
    case None
    then show ?thesis using Cons.IH by (auto simp: bnd_gets)
  next
    case (Some i)
    then have "stop_string_loop n incl (x # stops) s = (Inr (Some x), s) \<or>
      (\<exists>w. stop_string_loop n incl (x # stops) s = (Inr (Some x), s\<lparr>seq_output_text := w\<rparr>))"
      by (auto simp: bnd_gets Let_def sq_modify ret_def)
    then show ?thesis
    proof
      assume "stop_string_loop n incl (x # stops) s = (Inr (Some x), s)"
      then show ?thesis by (intro exI [where x = "Some x"] exI [where x = "seq_output_text s"]) simp
    qed auto
  qed
qed

lemma check_stop_strings_frame:
  "\<exists>r w. check_stop_strings n params s = (Inr r, s\<lparr>seq_output_text := w\<rparr>) \<and> (r = None \<longrightarrow> w = seq_output_text s) \<and>
     (\<forall>x. r = Some x \<longrightarrow> x \<in> set (sp_stop params))"
proof (cases "n = 0")
  case True
  then show ?thesis by (intro exI [where x = None] exI [where x = "seq_output_text s"]) (simp add: check_stop_strings_def ret_def)
next
  case False
  then show ?thesis using stop_string_loop_frame by (simp add: check_stop_strings_def)
qed

lemma check_None:
  assumes "check_stop_strings n params s = (Inr None, t)" "[] \<notin> set (sp_stop params)"
    and old: "no_stop_text params (s\<lparr>seq_output_text := take (length (seq_output_text s) - n) (seq_output_text s)\<rparr>)"
  shows "no_stop_text params s"
proof (cases "n = 0")
  case False
  have "stop_string_loop n (sp_include_stop_str_in_output params) (sp_stop params) s =
      (case stop_search (sp_include_stop_str_in_output params) (sp_stop params) (seq_output_text s) of
        (r, w) \<Rightarrow> (Inr r, s\<lparr>seq_output_text := w\<rparr>))"
    by (rule stop_string_loop_ok) (use assms(2) old in \<open>auto simp: no_stop_text_def\<close>)
  then show ?thesis
    using assms(1) False
    by (auto simp: check_stop_strings_def stop_search_def no_stop_text_def find_None_iff split: option.splits)
qed (use old in simp)

lemma maybe_stop_sequence_ok:
  assumes "seq_get_token_ids s \<noteq> []"
  shows "wp (maybe_stop_sequence mml n params lora)
    (\<lambda>_ t. same_content s t \<and> seq_status t \<in> {seq_status s, FINISHED_STOPPED, FINISHED_LENGTH_CAPPED} \<and>
       (\<not> seq_is_finished t \<longrightarrow> t = s \<and> goes_on mml params lora s \<and>
          (sp_min_tokens params \<le> int (seq_get_output_len s) \<longrightarrow> (\<exists>u. check_stop_strings n params s = (Inr None, u)))) \<and>
       (seq_is_finished t \<longrightarrow> seq_is_finished s \<or> stopped_for params (goes_on mml params lora s) t))
    (\<lambda>_ _. False) s"
proof -
  have "\<exists>t. seq_get_last_token_id s = Inr t"
    using assms by (auto simp: seq_get_last_token_id_def sd_get_last_token_id_def last_py_def
        seq_get_token_ids_def sd_get_token_ids_def)
  then obtain t where t: "seq_get_last_token_id s = Inr t" by blast
  obtain r w where r: "check_stop_strings n params s = (Inr r, s\<lparr>seq_output_text := w\<rparr>)" "r = None \<longrightarrow> w = seq_output_text s"
    "\<forall>x. r = Some x \<longrightarrow> x \<in> set (sp_stop params)"
    using check_stop_strings_frame by blast
  have fin: "seq_is_finished (u\<lparr>seq_status := FINISHED_STOPPED\<rparr>)" "seq_is_finished (u\<lparr>seq_status := FINISHED_LENGTH_CAPPED\<rparr>)"
    "seq_is_finished (u\<lparr>seq_status := FINISHED_STOPPED, seq_stop_reason := x\<rparr>)" for u x
    by (simp_all add: seq_is_finished_def status_is_finished_def)
  note simps = wp_def set_status_def finish_with_def sq_modify run_ret modify_apply ret_apply' fin same_content_def
    stopped_for_def
  have len: "seq_get_output_len (s\<lparr>seq_status := st\<rparr>) = seq_get_output_len s"
    "seq_get_output_len (s\<lparr>seq_output_text := w\<rparr>) = seq_get_output_len s"
    "seq_get_output_len (s\<lparr>seq_status := st, seq_stop_reason := x\<rparr>) = seq_get_output_len s"
    "seq_get_output_len (s\<lparr>seq_output_text := w, seq_status := st\<rparr>) = seq_get_output_len s"
    "seq_get_output_len (s\<lparr>seq_output_text := w, seq_status := st, seq_stop_reason := x\<rparr>) = seq_get_output_len s"
    for st w x by (simp_all add: seq_get_output_len_def)
  show ?thesis
  proof (cases "int (seq_get_output_len s) < sp_min_tokens params")
    case True
    then show ?thesis by (simp add: maybe_stop_sequence_def bnd_gets simps goes_on_def)
  next
    case low: False
    define e where "e \<longleftrightarrow> \<not> sp_ignore_eos params \<and> Some t = seq_eos_token_id s"
    have eos: "bnd (if sp_ignore_eos params then ret False
          else bnd (lift_err seq_get_last_token_id) (\<lambda>t. ret (Some t = seq_eos_token_id s))) k s = k e s"
      for k :: "bool \<Rightarrow> (Sequence, unit) pym"
      using t by (auto simp: bnd_def lift_err_def ret_def e_def)
    have last: "bnd (lift_err seq_get_last_token_id) k s = k t s" for k :: "int \<Rightarrow> (Sequence, unit) pym"
      by (simp add: bnd_def lift_err_def t)
    note run = maybe_stop_sequence_def bnd_gets id_apply low if_False eos
    show ?thesis
    proof (cases e)
      case True
      then have "maybe_stop_sequence mml n params lora s = set_status FINISHED_STOPPED s"
        by (simp only: run if_True)
      moreover have "\<not> goes_on mml params lora s" using True t low by (auto simp: goes_on_def e_def)
      ultimately show ?thesis using low by (simp add: simps len)
    next
      case noeos: False
      show ?thesis
      proof (cases "t \<in> set (sp_stop_token_ids params)")
        case True
        then have "maybe_stop_sequence mml n params lora s =
          sq (if n \<noteq> 0 \<and> \<not> sp_include_stop_str_in_output params then
                 modify (\<lambda>s. s\<lparr>seq_output_text := take (length (seq_output_text s) - n) (seq_output_text s)\<rparr>)
               else ret ())
             (finish_with (Stop_token t)) s"
          using noeos by (simp only: run last if_True)
        moreover have "\<not> goes_on mml params lora s" using True t low by (auto simp: goes_on_def)
        ultimately show ?thesis using low by (simp add: simps len)
      next
        case nostop: False
        have check: "bnd (check_stop_strings n params) k s = k r (s\<lparr>seq_output_text := w\<rparr>)"
          for k :: "string option \<Rightarrow> (Sequence, unit) pym" by (rule bnd_Inr', rule r(1))
        have go: "maybe_stop_sequence mml n params lora s = (case r of
             Some str \<Rightarrow> finish_with (Stop_string str)
           | None \<Rightarrow>
               bnd (gets id) (\<lambda>s.
               if seq_get_len s > get_max_model_len mml lora then set_status FINISHED_LENGTH_CAPPED
               else if Some (int (seq_get_output_len s)) = sp_max_tokens params then
                 set_status FINISHED_LENGTH_CAPPED
               else ret ())) (s\<lparr>seq_output_text := w\<rparr>)"
          using noeos nostop by (simp only: run last check)
        show ?thesis
        proof (cases r)
          case (Some x)
          then show ?thesis using low r(3) by (auto simp: go simps len)
        next
          case None
          have go_iff: "goes_on mml params lora s \<longleftrightarrow>
              Some (int (seq_get_output_len s)) \<noteq> sp_max_tokens params \<and> seq_get_len s \<le> get_max_model_len mml lora"
            using low noeos nostop t by (auto simp: goes_on_def e_def)
          show ?thesis using r noeos nostop t None low by (auto simp: go simps len bnd_gets go_iff)
        qed
      qed
    qed
  qed
qed

section \<open>The loop over the new tokens\<close>

abbreviation output_ids :: "Sequence \<Rightarrow> int list" where
  "output_ids s \<equiv> sd_output_token_ids (seq_data s)"

text \<open>
  What holds after some of the tokens \<open>xs\<close>: the first \<open>k\<close> of them were appended, at least one. Nothing
  stopped the sequence before the last of them; while it is not finished these are all tokens, and
  if it is finished there is a reason at the last one, and it has \<open>min_tokens\<close> tokens.
\<close>

definition passes_at :: "processor \<Rightarrow> SamplingParams \<Rightarrow> Sequence \<Rightarrow> int list \<Rightarrow> nat \<Rightarrow> bool" where
  "passes_at pr params s xs i \<longleftrightarrow> token_passes (pr_max_model_len pr) params (seq_eos_token_id s)
     (seq_get_output_len s + Suc i) (seq_get_len s + Suc i) (xs ! i)"

definition cut_at :: "processor \<Rightarrow> SamplingParams \<Rightarrow> Sequence \<Rightarrow> int list \<Rightarrow> nat \<Rightarrow> Sequence \<Rightarrow> bool" where
  "cut_at pr params s xs k t \<longleftrightarrow> k \<le> length xs \<and> output_ids t = output_ids s @ take k xs \<and> (xs \<noteq> [] \<longrightarrow> 0 < k) \<and>
     (\<not> seq_is_finished t \<longrightarrow> k = length xs) \<and>
     (\<forall>i < k. Suc i < k \<or> \<not> seq_is_finished t \<longrightarrow> passes_at pr params s xs i) \<and>
     (seq_is_finished t \<longrightarrow> xs \<noteq> [] \<longrightarrow> stopped_for params (passes_at pr params s xs (k - 1)) t)"

definition appended :: "processor \<Rightarrow> SamplingParams \<Rightarrow> Sequence \<Rightarrow> int list \<Rightarrow> Sequence \<Rightarrow> bool" where
  "appended pr params s xs t \<longleftrightarrow> seq_ok t \<and> seq_id t = seq_id s \<and> seq_eos_token_id t = seq_eos_token_id s \<and>
     sd_prompt_token_ids (seq_data t) = sd_prompt_token_ids (seq_data s) \<and>
     (\<exists>k. cut_at pr params s xs k t) \<and>
     (\<not> seq_is_finished t \<longrightarrow> no_stop_text params s \<longrightarrow> sp_min_tokens params \<le> int (Suc (seq_get_output_len s)) \<longrightarrow>
        no_stop_text params t)"

lemma append_one_ok:
  assumes ok: "seq_ok s" and lp: "map_of lps token \<noteq> None" and stops: "[] \<notin> set (sp_stop params)"
    and run: "\<not> seq_is_finished s"
  shows "wp (sq (seq_append_token_id token lps)
    (bnd (if sp_detokenize params then decode_sequence_inplace (pr_fffd pr) (pr_get_tokenizer pr) params
          else ret 0) (\<lambda>new_char_count.
     maybe_stop_sequence (pr_max_model_len pr) new_char_count params None)))
    (\<lambda>_ t. appended pr params s [token] t \<and> output_ids t = output_ids s @ [token]) (\<lambda>_ _. False) s"
proof -
  from lp obtain lp' where lp': "map_of lps token = Some lp'" by blast
  let ?s = "s\<lparr>seq_logical_token_blocks := logical_blocks (seq_block_size s) (seq_get_token_ids s @ [token]),
       seq_output_logprobs := seq_output_logprobs s @ [lps],
       seq_data := sd_append_token_id token (logprob lp') (seq_data s)\<rparr>"
  have sok: "seq_ok ?s" and ids: "seq_get_token_ids ?s \<noteq> []" "seq_output_logprobs ?s \<noteq> []"
    and same: "seq_output_text ?s = seq_output_text s" "seq_status ?s = seq_status s"
    and out: "output_ids ?s = output_ids s @ [token]"
    and last: "seq_get_last_token_id ?s = Inr token"
    and lens: "seq_get_output_len ?s = Suc (seq_get_output_len s)" "seq_get_len ?s = Suc (seq_get_len s)"
    using ok by (auto simp: seq_ok_def seq_get_token_ids_def sd_get_token_ids_def sd_append_token_id_def
      seq_get_output_len_def sd_get_output_len_def seq_get_len_def sd_get_len_def seq_get_last_token_id_def
      sd_get_last_token_id_def last_py_def)
  have dec: "wp (if sp_detokenize params then decode_sequence_inplace (pr_fffd pr) (pr_get_tokenizer pr) params else ret 0)
    (\<lambda>n t. same_content ?s t \<and> seq_status t = seq_status s \<and>
       take (length (seq_output_text t) - n) (seq_output_text t) = seq_output_text s) (\<lambda>_ _. False) ?s"
  proof (cases "sp_detokenize params")
    case True
    then show ?thesis
      unfolding if_P [OF True] by (intro wp_mono [OF decode_sequence_ok [OF ids]]) (use same in auto)
  qed (use same in \<open>simp add: wp_ret\<close>)
  show ?thesis
    unfolding wp_sq wp_bnd
    unfolding wp_def [of "seq_append_token_id _ _"] seq_append_token_id_run [OF ok lp'] prod.case sum.case
  proof (rule wp_mono [OF dec], goal_cases)
    case (1 n t)
    then have t: "same_content ?s t" "seq_status t = seq_status s"
      and old: "take (length (seq_output_text t) - n) (seq_output_text t) = seq_output_text s" by blast+
    note T = same_contentD [OF t(1)]
    have "seq_get_token_ids t \<noteq> []" using ids(1) T(4) by simp
    then show ?case
    proof (rule wp_mono [OF maybe_stop_sequence_ok])
      fix x u
      assume u: "same_content t u \<and> seq_status u \<in> {seq_status t, FINISHED_STOPPED, FINISHED_LENGTH_CAPPED} \<and>
        (\<not> seq_is_finished u \<longrightarrow> u = t \<and> goes_on (pr_max_model_len pr) params None t \<and>
          (sp_min_tokens params \<le> int (seq_get_output_len t) \<longrightarrow> (\<exists>v. check_stop_strings n params t = (Inr None, v)))) \<and>
        (seq_is_finished u \<longrightarrow> seq_is_finished t \<or> stopped_for params (goes_on (pr_max_model_len pr) params None t) u)"
      have go: "goes_on (pr_max_model_len pr) params None t \<longleftrightarrow> passes_at pr params s [token] 0"
        using goes_on_token [of t token] last lens T(1,2,3,5) by (simp add: passes_at_def)
      have "\<not> seq_is_finished t" using t(2) run by (simp add: seq_is_finished_def)
      then have stop: "seq_is_finished u \<longrightarrow> stopped_for params (passes_at pr params s [token] 0) u"
        "\<not> seq_is_finished u \<longrightarrow> passes_at pr params s [token] 0"
        using u by (auto simp: go)
      note U = same_contentD [OF same_content_trans [OF t(1) conjunct1 [OF u]]]
      have "no_stop_text params u" if going: "\<not> seq_is_finished u" and before: "no_stop_text params s"
        and min: "sp_min_tokens params \<le> int (Suc (seq_get_output_len s))"
      proof -
        have "seq_get_output_len t = Suc (seq_get_output_len s)"
          using T(1) by (simp add: seq_get_output_len_def sd_get_output_len_def sd_append_token_id_def)
        then obtain v where "check_stop_strings n params t = (Inr None, v)" "u = t" using u going min by auto
        moreover have "no_stop_text params (t\<lparr>seq_output_text := take (length (seq_output_text t) - n) (seq_output_text t)\<rparr>)"
          using before old by (simp add: no_stop_text_def)
        ultimately show ?thesis using check_None [OF _ stops] by blast
      qed
      moreover have "output_ids u = output_ids s @ [token]" using U(7) out by simp
      moreover have "seq_id u = seq_id s" "seq_eos_token_id u = seq_eos_token_id s" "seq_ok u"
        "sd_prompt_token_ids (seq_data u) = sd_prompt_token_ids (seq_data s)"
        using U(5,6,7,9) sok by (simp_all add: sd_append_token_id_def)
      moreover have "cut_at pr params s [token] 1 u" using U(7) out stop by (simp add: cut_at_def)
      ultimately show "appended pr params s [token] u \<and> output_ids u = output_ids s @ [token]"
        by (auto simp: appended_def)
    qed simp
  qed simp
qed

lemma appended_Cons:
  assumes a: "appended pr params s [x] t" "output_ids t = output_ids s @ [x]" "\<not> seq_is_finished t"
    and b: "appended pr params t xs u" and ne: "xs \<noteq> []"
  shows "appended pr params s (x # xs) u"
proof -
  from b obtain k where k: "cut_at pr params t xs k u" by (auto simp: appended_def)
  have len: "seq_get_output_len t = Suc (seq_get_output_len s)" "seq_get_len t = Suc (seq_get_len s)"
    "seq_eos_token_id t = seq_eos_token_id s"
    using a(1,2) by (simp_all add: appended_def seq_get_output_len_def sd_get_output_len_def seq_get_len_def sd_get_len_def)
  have later: "passes_at pr params s (x # xs) (Suc i) \<longleftrightarrow> passes_at pr params t xs i" for i
    by (simp add: passes_at_def len)
  have "passes_at pr params s [x] 0" using a(1,3) by (auto simp: appended_def cut_at_def)
  then have first: "passes_at pr params s (x # xs) 0" by (simp add: passes_at_def)
  have "passes_at pr params s (x # xs) i" if "i < Suc k" "Suc i < Suc k \<or> \<not> seq_is_finished u" for i
    using that first k later by (cases i) (auto simp: cut_at_def)
  moreover have "0 < k" using k ne by (simp add: cut_at_def)
  then have "passes_at pr params s (x # xs) (Suc k - 1) \<longleftrightarrow> passes_at pr params t xs (k - 1)"
    using later [of "k - 1"] by simp
  ultimately have "cut_at pr params s (x # xs) (Suc k) u"
    using k a(2) ne by (simp add: cut_at_def)
  moreover have "no_stop_text params u" if "\<not> seq_is_finished u" "no_stop_text params s"
    "sp_min_tokens params \<le> int (Suc (seq_get_output_len s))"
    using a(1,3) b that len by (simp add: appended_def)
  ultimately show ?thesis using a b ne by (auto simp: appended_def)
qed

lemma appended_stop:
  assumes "appended pr params s [x] t" "seq_is_finished t \<or> xs = []"
  shows "appended pr params s (x # xs) t"
proof (cases "seq_is_finished t")
  case True
  from assms(1) obtain k where "cut_at pr params s [x] k t" by (auto simp: appended_def)
  then have k: "k = 1" "output_ids t = output_ids s @ [x]" "stopped_for params (passes_at pr params s [x] 0) t"
    using True by (auto simp: cut_at_def le_Suc_eq)
  then have "cut_at pr params s (x # xs) 1 t" using True by (simp add: cut_at_def passes_at_def)
  then show ?thesis using assms(1) True by (auto simp: appended_def)
qed (use assms in simp)

lemma append_outputs_ok:
  assumes "seq_ok s" "\<forall>(t, l) \<in> set xs. map_of l t \<noteq> None" "[] \<notin> set (sp_stop params)" "\<not> seq_is_finished s"
  shows "wp (append_outputs pr params xs) (\<lambda>_. appended pr params s (map fst xs)) (\<lambda>_ _. False) s"
  using assms
proof (induction xs arbitrary: s)
  case Nil
  then have "cut_at pr params s [] 0 s" by (simp add: cut_at_def)
  with Nil show ?case by (auto simp: wp_ret appended_def)
next
  case (Cons x xs)
  obtain t l where x: "x = (t, l)" by (cases x)
  have reassoc: "append_outputs pr params (x # xs) =
    bnd (sq (seq_append_token_id t l)
      (bnd (if sp_detokenize params then decode_sequence_inplace (pr_fffd pr) (pr_get_tokenizer pr) params
          else ret 0) (\<lambda>n. maybe_stop_sequence (pr_max_model_len pr) n params None)))
      (\<lambda>_. bnd (gets seq_is_finished) (\<lambda>fin. if fin then ret () else append_outputs pr params xs))"
    by (auto simp: x fun_eq_iff sq_def bnd_def split: prod.splits sum.splits)
  have l: "map_of l t \<noteq> None" using Cons.prems(2) x by auto
  show ?case
    unfolding reassoc wp_bnd [of _ "\<lambda>_. bnd (gets seq_is_finished) _"]
  proof (rule wp_mono [OF append_one_ok [OF Cons.prems(1) l Cons.prems(3,4)]])
    fix y u
    assume u: "appended pr params s [t] u \<and> output_ids u = output_ids s @ [t]"
    show "wp (bnd (gets seq_is_finished) (\<lambda>fin. if fin then ret () else append_outputs pr params xs))
      (\<lambda>_. appended pr params s (map fst (x # xs))) (\<lambda>_ _. False) u"
    proof (cases "seq_is_finished u \<or> xs = []")
      case True
      have "appended pr params s (t # map fst xs) u"
        using u True by (auto intro: appended_stop)
      then show ?thesis using True by (auto simp: bnd_gets wp_def ret_def x)
    next
      case False
      have "wp (append_outputs pr params xs) (\<lambda>_. appended pr params u (map fst xs)) (\<lambda>_ _. False) u"
        by (rule Cons.IH) (use u Cons.prems False in \<open>auto simp: appended_def\<close>)
      then have "wp (append_outputs pr params xs) (\<lambda>_. appended pr params s (map fst (x # xs))) (\<lambda>_ _. False) u"
        by (rule wp_mono) (use u False appended_Cons in \<open>auto simp: x\<close>)
      then show ?thesis using False by (simp add: wp_def bnd_gets)
    qed
  qed simp
qed

section \<open>The tokens of a step\<close>

lemma truncate_to_max_prefix:
  "\<exists>k. truncate_to_max m n xs = take k xs \<and> k \<le> length xs \<and> (int n \<le> m \<longrightarrow> int (n + k) \<le> m) \<and>
     (int n < m \<longrightarrow> xs \<noteq> [] \<longrightarrow> 0 < k) \<and> (k = length xs \<or> int (n + k) = m \<or> m < int n)"
proof (cases "m - int (n + length xs) < 0")
  case True
  then show ?thesis
    by (intro exI [where x = "length xs - nat (int (n + length xs) - m)"]) (auto simp: truncate_to_max_def)
qed (auto simp: truncate_to_max_def intro!: exI [where x = "length xs"])

lemma truncate_to_eos_prefix:
  "\<exists>k \<le> length xs. truncate_to_eos eos xs = take k xs \<and> (xs \<noteq> [] \<longrightarrow> 0 < k) \<and>
     (\<forall>i. Suc i < k \<longrightarrow> Some (xs ! i) \<noteq> eos) \<and> (k = length xs \<or> Some (xs ! (k - 1)) = eos)"
proof (cases "List.find (\<lambda>i. Some (xs ! i) = eos) [0..<length xs]")
  case None
  then have "\<forall>i < length xs. Some (xs ! i) \<noteq> eos" by (auto simp: find_None_iff)
  then show ?thesis using None
    by (intro exI [where x = "length xs"]) (simp add: truncate_to_eos_def)
next
  case (Some i)
  then obtain k where "k < length xs" "i = k" "Some (xs ! k) = eos" "\<forall>j < k. Some (xs ! j) \<noteq> eos"
    by (auto simp: find_Some_iff)
  then show ?thesis using Some by (auto simp: truncate_to_eos_def intro!: exI [where x = "Suc i"])
qed

definition good_samples :: "SequenceOutput list \<Rightarrow> bool" where
  "good_samples samples \<longleftrightarrow> samples \<noteq> [] \<and>
     (\<forall>smp \<in> set samples. map_of (so_logprobs smp) (so_output_token smp) \<noteq> None)"

text \<open>
  How many of the valid tokens one step tries to append: as many as \<open>max_tokens\<close> leaves room for, and
  unless EOS tokens are ignored none behind the first EOS token of the processor's tokenizer, whether
  or not it ends the sequence.
\<close>

definition is_cut :: "processor \<Rightarrow> SamplingParams \<Rightarrow> nat \<Rightarrow> SequenceOutput list \<Rightarrow> Sequence \<Rightarrow> nat \<Rightarrow> bool" where
  "is_cut pr params m samples s n \<longleftrightarrow>
     (let room = min (length samples) (m - seq_get_output_len s);
          is_eos = (\<lambda>i. Some (so_output_token (samples ! i)) = pr_eos_token_id pr s) in
      0 < n \<and> n \<le> room \<and> (\<not> sp_ignore_eos params \<longrightarrow> (\<forall>i. Suc i < n \<longrightarrow> \<not> is_eos i)) \<and>
      (n = room \<or> \<not> sp_ignore_eos params \<and> is_eos (n - 1)))"

text \<open>What one step does to the sequence.\<close>

definition stepped :: "processor \<Rightarrow> SamplingParams \<Rightarrow> nat \<Rightarrow> SequenceOutput list \<Rightarrow> Sequence \<Rightarrow> Sequence \<Rightarrow> bool" where
  "stepped pr params m samples s t \<longleftrightarrow> seq_ok t \<and> seq_id t = seq_id s \<and>
     seq_get_output_len t \<le> m \<and> (\<not> seq_is_finished t \<longrightarrow> seq_get_output_len t < m) \<and>
     (\<exists>n k. is_cut pr params m samples s n \<and> cut_at pr params s (map so_output_token (take n samples)) k t) \<and>
     (\<not> seq_is_finished t \<longrightarrow> no_stop_text params s \<longrightarrow> sp_min_tokens params \<le> int (Suc (seq_get_output_len s)) \<longrightarrow>
        no_stop_text params t)"

lemma step_ok:
  assumes ok: "seq_ok s" and run: "\<not> seq_is_finished s" and stops: "[] \<notin> set (sp_stop params)"
    and m: "sp_max_tokens params = Some (int m)" "seq_get_output_len s < m" "sp_min_tokens params \<le> int m"
    and good: "good_samples samples"
  shows "wp (bnd (lift_err (tokens_to_append pr params samples)) (append_outputs pr params))
    (\<lambda>_. stepped pr params m samples s) (\<lambda>_ _. False) s"
proof -
  let ?toks = "map so_output_token samples" and ?n0 = "seq_get_output_len s" and ?eos = "pr_eos_token_id pr s"
  obtain j where j0: "truncate_to_max (int m) ?n0 ?toks = take j ?toks" "j \<le> length ?toks"
    "int ?n0 \<le> int m \<longrightarrow> int (?n0 + j) \<le> int m" "int ?n0 < int m \<longrightarrow> ?toks \<noteq> [] \<longrightarrow> 0 < j"
    "j = length ?toks \<or> int (?n0 + j) = int m \<or> int m < int ?n0"
    using truncate_to_max_prefix [of "int m" ?n0 ?toks] by blast
  have j: "truncate_to_max (int m) ?n0 ?toks = take j ?toks" "j \<le> length samples" "?n0 + j \<le> m" "0 < j"
    "j = length samples \<or> ?n0 + j = m"
    using j0 m(2) good unfolding good_samples_def by (simp_all, linarith)
  obtain e where e: "e \<le> j" "truncate_to_eos ?eos (take j ?toks) = take e ?toks" "0 < e"
    "\<forall>i. Suc i < e \<longrightarrow> Some (?toks ! i) \<noteq> ?eos" "e = j \<or> Some (?toks ! (e - 1)) = ?eos"
    using truncate_to_eos_prefix [of "take j ?toks" ?eos] j(2,4) by (auto simp: min_def split: if_splits)
  define n where "n = (if sp_ignore_eos params then j else e)"
  have n: "n \<le> j" "0 < n" "sp_ignore_eos params \<or> (\<forall>i. Suc i < n \<longrightarrow> Some (?toks ! i) \<noteq> ?eos)"
    "n = j \<or> \<not> sp_ignore_eos params \<and> Some (?toks ! (n - 1)) = ?eos"
    using e j(4) by (auto simp: n_def)
  let ?xs = "zip (take n ?toks) (map so_logprobs samples)"
  have xs: "tokens_to_append pr params samples s = Inr ?xs" "map fst ?xs = take n ?toks"
    using m(1) j(1,2) e(1,2) by (simp_all add: tokens_to_append_def Let_def n_def map_fst_zip_take min_absorb2)
  have "\<forall>(t, l) \<in> set ?xs. map_of l t \<noteq> None"
    using good by (auto simp: set_zip good_samples_def)
  then have "wp (append_outputs pr params ?xs) (\<lambda>_. appended pr params s (take n ?toks)) (\<lambda>_ _. False) s"
    using append_outputs_ok [OF ok _ stops run, of ?xs pr] xs(2) by simp
  then show ?thesis
    unfolding wp_bnd wp_lift_err xs(1) sum.case
  proof (rule wp_mono)
    fix x t
    assume a: "appended pr params s (take n ?toks) t"
    then obtain k where k: "cut_at pr params s (take n ?toks) k t" by (auto simp: appended_def)
    have ln: "length (take n ?toks) = n" "take n ?toks \<noteq> []" using n(1,2) j(2) by auto
    have kn: "k \<le> n" "0 < k" "output_ids t = output_ids s @ take k (take n ?toks)" "\<not> seq_is_finished t \<longrightarrow> k = n"
      using k ln unfolding cut_at_def by auto
    have len: "seq_get_output_len t = ?n0 + k"
      using kn ln(1) by (simp add: seq_get_output_len_def sd_get_output_len_def)
    have "passes_at pr params s (take n ?toks) (k - 1)" if "\<not> seq_is_finished t"
    proof -
      have "\<forall>i < k. passes_at pr params s (take n ?toks) i" using k that unfolding cut_at_def by blast
      then show ?thesis using kn(2) by simp
    qed
    then have less: "?n0 + k < m" if "\<not> seq_is_finished t"
      using that m(1,3) kn(1,2) n(1) j(3) by (auto simp: passes_at_def token_passes_def)
    have room: "min (length samples) (m - ?n0) = j" using j(2,3,5) m(2) by linarith
    have "is_cut pr params m samples s n"
      using n j(2) unfolding is_cut_def room Let_def by auto
    moreover have "cut_at pr params s (map so_output_token (take n samples)) k t" using k by (simp add: take_map)
    ultimately show "stepped pr params m samples s t"
      using a less len kn(1) n(1) j(3) by (auto simp: stepped_def appended_def)
  qed
qed

lemma stepped_longer:
  assumes "stepped pr params m samples s t"
  shows "seq_get_output_len s < seq_get_output_len t"
proof -
  from assms obtain n k where nk: "is_cut pr params m samples s n"
    "cut_at pr params s (map so_output_token (take n samples)) k t" by (auto simp: stepped_def)
  then have "map so_output_token (take n samples) \<noteq> []" by (auto simp: is_cut_def Let_def)
  then have "0 < k" "k \<le> length (map so_output_token (take n samples))"
    "output_ids t = output_ids s @ take k (map so_output_token (take n samples))"
    using nk(2) unfolding cut_at_def by blast+
  then show ?thesis by (simp add: seq_get_output_len_def sd_get_output_len_def)
qed

text \<open>
  C35. Several tokens in one step. For a running sequence below its limit and at least one valid
  sample the step returns. It takes as many of the valid tokens as \<open>max_tokens\<close> leaves room for, but
  unless EOS is ignored none behind the first EOS token: those are dropped even if \<open>min_tokens\<close> keeps the
  sequence running (\<open>is_cut\<close>). Of these it appends the first ones (\<open>cut_at\<close>), at least one: nothing stops the
  sequence before the last appended one, that is, every earlier one either leaves it below \<open>min_tokens\<close>
  or is no stop token, no EOS token that counts and reaches no limit. If the sequence is finished it has
  \<open>min_tokens\<close> tokens and a reason: the last token stops it, or a stop string was found. If it is not, all
  the taken tokens were appended, the last one does not stop it either, \<open>max_tokens\<close> is not reached, and
  the text contains no stop string (if it had none and the step started with \<open>min_tokens\<close> or one less). The
  blocks are freed exactly if the sequence is finished now.
\<close>

theorem multi_step_appends_prefix:
  assumes "map_of (sg_seqs_dict (sc_groups st r)) k = Some s" "seq_ok s" "seq_status s = RUNNING"
    and "[] \<notin> set (sp_stop params)" "sp_max_tokens params = Some (int m)" "sp_min_tokens params \<le> int m"
    and "seq_get_output_len s < m" "good_samples samples"
    and "\<And>t. fst (bm_free bm t (sc_block_manager st)) = Inr ()"
  shows "wp (process_seq_outputs pr bm r k samples params)
    (\<lambda>_ u. \<exists>t. map_of (sg_seqs_dict (sc_groups u r)) k = Some t \<and> stepped pr params m samples s t \<and>
       sc_block_manager u = (if seq_is_finished t then snd (bm_free bm t (sc_block_manager st)) else sc_block_manager st))
    (\<lambda>_ _. False) st"
proof -
  have "\<not> seq_is_finished s" using assms(3) by (simp add: seq_is_finished_def status_is_finished_def)
  from wp_ok_result [OF step_ok [OF assms(2) this assms(4,5,7,6,8)], of pr]
  obtain t where t: "bnd (lift_err (tokens_to_append pr params samples)) (append_outputs pr params) s = (Inr (), t)"
    "stepped pr params m samples s t" by auto
  let ?g = "sc_groups st r"
  let ?st = "st\<lparr>sc_groups := (sc_groups st)(r := ?g\<lparr>sg_seqs_dict := dset k t (sg_seqs_dict ?g)\<rparr>)\<rparr>"
  have "on_group r (on_seq k (bnd (lift_err (tokens_to_append pr params samples)) (append_outputs pr params))) st = (Inr (), ?st)"
    using assms(1) t(1) by (simp add: on_group_def on_seq_def)
  then have "process_seq_outputs pr bm r k samples params st =
      (if seq_is_finished t then sched_free_seq bm t else ret ()) ?st"
    by (simp add: process_seq_outputs_def sq_def bnd_Inr' bnd_gets group_def bnd_lift)
  moreover have "sched_free_seq bm t ?st = (Inr (), ?st\<lparr>sc_block_manager := snd (bm_free bm t (sc_block_manager st))\<rparr>)"
    using assms(9) [of t] by (cases "bm_free bm t (sc_block_manager st)") (simp add: sched_free_seq_def on_bm_def)
  ultimately show ?thesis using t(2) by (simp add: wp_def ret_def)
qed

section \<open>Generation ends\<close>

text \<open>The steps of a request, seen from its sequence: a finished sequence is not scheduled again.\<close>

definition generate :: "processor \<Rightarrow> SamplingParams \<Rightarrow> SequenceOutput list list \<Rightarrow> (Sequence, unit) pym" where
  "generate pr params steps = for_each steps (\<lambda>samples.
     bnd (gets seq_is_finished) (\<lambda>fin.
     if fin then ret ()
     else bnd (lift_err (tokens_to_append pr params samples)) (append_outputs pr params)))"

text \<open>
  C36. A request with a limit ends: after \<open>max_tokens\<close> steps that each bring at least one valid token
  the sequence is finished, whatever the tokens and the texts are, and it has at most \<open>max_tokens\<close>
  output tokens.
\<close>

theorem generation_ends:
  assumes "seq_ok s" "[] \<notin> set (sp_stop params)" "sp_max_tokens params = Some (int m)"
    and "sp_min_tokens params \<le> int m" "seq_get_output_len s < m"
    and "\<forall>samples \<in> set steps. good_samples samples" "m \<le> seq_get_output_len s + length steps"
  shows "wp (generate pr params steps) (\<lambda>_ t. seq_is_finished t \<and> (seq_is_finished s \<or> seq_get_output_len t \<le> m)) (\<lambda>_ _. False) s"
  unfolding generate_def
proof (rule wp_for_each [where I = "\<lambda>ys t. (\<forall>samples \<in> set ys. good_samples samples) \<and> seq_ok t \<and>
    (seq_is_finished t \<and> (seq_is_finished s \<or> seq_get_output_len t \<le> m) \<or>
     seq_get_output_len t < m \<and> m \<le> seq_get_output_len t + length ys)"])
  show "(\<forall>samples \<in> set steps. good_samples samples) \<and> seq_ok s \<and>
    (seq_is_finished s \<and> (seq_is_finished s \<or> seq_get_output_len s \<le> m) \<or>
     seq_get_output_len s < m \<and> m \<le> seq_get_output_len s + length steps)"
    using assms by simp
next
  fix samples ys t
  assume I: "(\<forall>samples \<in> set (samples # ys). good_samples samples) \<and> seq_ok t \<and>
    (seq_is_finished t \<and> (seq_is_finished s \<or> seq_get_output_len t \<le> m) \<or>
     seq_get_output_len t < m \<and> m \<le> seq_get_output_len t + length (samples # ys))"
  let ?J = "\<lambda>u. (\<forall>samples \<in> set ys. good_samples samples) \<and> seq_ok u \<and>
    (seq_is_finished u \<and> (seq_is_finished s \<or> seq_get_output_len u \<le> m) \<or>
     seq_get_output_len u < m \<and> m \<le> seq_get_output_len u + length ys)"
  show "wp (bnd (gets seq_is_finished) (\<lambda>fin.
     if fin then ret ()
     else bnd (lift_err (tokens_to_append pr params samples)) (append_outputs pr params))) (\<lambda>_. ?J) (\<lambda>_ _. False) t"
  proof (cases "seq_is_finished t")
    case True
    then show ?thesis using I by (auto simp: wp_bnd wp_gets wp_ret)
  next
    case False
    then have good: "good_samples samples" and t: "seq_ok t" "seq_get_output_len t < m" using I by auto
    show ?thesis
      unfolding wp_bnd [of "gets _"] wp_gets if_not_P [OF False]
    proof (rule wp_mono [OF step_ok [OF t(1) False assms(2,3) t(2) assms(4) good]])
      fix x u
      assume u: "stepped pr params m samples t u"
      then have "seq_get_output_len t < seq_get_output_len u" by (rule stepped_longer)
      then show "?J u" using u I False by (auto simp: stepped_def)
    qed simp
  qed
qed auto

section \<open>Examples\<close>

text \<open>
  A processor with the tokenizer of the examples, and samples without alternatives. In the first example
  the token 2 is the tokenizer's EOS, but the sequence has no EOS token: it runs on, and the token
  behind it is dropped.
\<close>

definition demo_processor :: processor where
  "demo_processor = \<lparr>pr_fffd = CHR ''?'', pr_get_tokenizer = (\<lambda>_. demo_tokenizer), pr_eos_token_id = (\<lambda>_. Some 2),
     pr_max_model_len = 64, pr_has_detokenizer = True\<rparr>"

definition demo_sample :: "nat \<Rightarrow> int \<Rightarrow> SequenceOutput" where
  "demo_sample parent token = \<lparr>so_parent_seq_id = parent, so_output_token = token,
     so_logprobs = [(token, \<lparr>logprob = -1, lp_rank = None, lp_decoded_token = None\<rparr>)]\<rparr>"

lemma demo_em_free: "fst (em_free t demo_em1) = Inr ()"
proof -
  have "wp (em_free t) (\<lambda>x _. x = ()) (\<lambda>_ _. False) demo_em1"
    unfolding em_free_def wp_on_map
    by (rule wp_mono [OF free_sequence_view [OF em_okD(1) [OF demo_em1_ready(1)]]]) simp_all
  then show ?thesis by (auto simp: wp_def split: prod.splits sum.splits)
qed

theorem multi_step_appends_prefix_witness:
  "\<exists>u t. process_seq_outputs demo_processor ellm_block_manager 0 0 [demo_sample 0 5, demo_sample 0 2, demo_sample 0 6] (demo_params [])
      (demo_sched\<lparr>sc_block_manager := demo_em1, sc_groups := (\<lambda>_. demo_group ''a'' 0 [demo_seq 0 4 RUNNING])\<rparr>) = (Inr (), u) \<and>
    map_of (sg_seqs_dict (sc_groups u 0)) 0 = Some t \<and> output_ids t = [5, 2] \<and> \<not> seq_is_finished t"
proof -
  let ?st = "demo_sched\<lparr>sc_block_manager := demo_em1, sc_groups := (\<lambda>_. demo_group ''a'' 0 [demo_seq 0 4 RUNNING])\<rparr>"
  let ?s = "demo_seq 0 4 RUNNING" and ?p = "demo_params []"
  let ?xs = "[demo_sample 0 5, demo_sample 0 2, demo_sample 0 6]"
  have "seq_get_output_len ?s = 0" by (simp add: seq_get_output_len_def sd_get_output_len_def SequenceData_init_def)
  moreover have "good_samples ?xs" by (simp add: good_samples_def demo_sample_def)
  ultimately have "wp (process_seq_outputs demo_processor ellm_block_manager 0 0 ?xs ?p)
    (\<lambda>_ u. \<exists>t. map_of (sg_seqs_dict (sc_groups u 0)) 0 = Some t \<and> stepped demo_processor ?p 16 ?xs ?s t \<and>
       sc_block_manager u = (if seq_is_finished t then snd (bm_free ellm_block_manager t (sc_block_manager ?st)) else sc_block_manager ?st))
    (\<lambda>_ _. False) ?st"
    by (intro multi_step_appends_prefix)
      (simp_all add: demo_seq_ok demo_params_def ellm_block_manager_def demo_em_free)
  from wp_ok_result [OF this] obtain u t where
    u: "process_seq_outputs demo_processor ellm_block_manager 0 0 ?xs ?p ?st = (Inr (), u)"
      "map_of (sg_seqs_dict (sc_groups u 0)) 0 = Some t" and t: "stepped demo_processor ?p 16 ?xs ?s t" by auto
  have c: "\<not> sp_ignore_eos ?p" "pr_eos_token_id demo_processor ?s = Some 2" "output_ids ?s = []"
    "seq_get_output_len ?s = 0" "seq_eos_token_id ?s = None" "sp_stop ?p = []"
    by (simp_all add: demo_params_def demo_processor_def demo_seq_def Sequence_init_eq SequenceData_init_def
        seq_get_output_len_def sd_get_output_len_def)
  from t obtain n k where nk: "is_cut demo_processor ?p 16 ?xs ?s n"
    "cut_at demo_processor ?p ?s (map so_output_token (take n ?xs)) k t" by (auto simp: stepped_def)
  have n: "0 < n" "n \<le> 3" "\<forall>i. Suc i < n \<longrightarrow> Some (so_output_token (?xs ! i)) \<noteq> Some 2"
    "n = 3 \<or> Some (so_output_token (?xs ! (n - 1))) = Some 2"
    using nk(1) c by (auto simp: is_cut_def Let_def)
  have "n \<noteq> 3" using n(3) [rule_format, of 1] by (auto simp: demo_sample_def)
  moreover have "n \<noteq> 1" using n(4) by (auto simp: demo_sample_def)
  ultimately have "n = 2" using n(1,2) by linarith
  then have cut: "cut_at demo_processor ?p ?s [5, 2] k t" using nk(2) by (simp add: demo_sample_def numeral_2_eq_2)
  have passes: "passes_at demo_processor ?p ?s [5, 2] i" if "i < 2" for i
    using that c by (auto simp: passes_at_def token_passes_def demo_params_def demo_processor_def)
  have k: "0 < k" "k \<le> 2" "\<not> seq_is_finished t \<longrightarrow> k = 2" "output_ids t = take k [5, 2]"
    "seq_is_finished t \<longrightarrow> stopped_for ?p (passes_at demo_processor ?p ?s [5, 2] (k - 1)) t"
    using cut c by (simp_all add: cut_at_def)
  have "\<not> seq_is_finished t"
    using k(1,2,5) passes [of "k - 1"] c(6) by (auto simp: stopped_for_def)
  then have "output_ids t = [5, 2] \<and> \<not> seq_is_finished t" using k(3,4) by simp
  with u show ?thesis by blast
qed

theorem generation_ends_witness:
  "\<exists>t. generate demo_processor (demo_params [''zz'']) (replicate 16 [demo_sample 0 5]) (demo_seq 0 4 RUNNING) = (Inr (), t) \<and>
     seq_is_finished t"
proof -
  have "wp (generate demo_processor (demo_params [''zz'']) (replicate 16 [demo_sample 0 5]))
    (\<lambda>_ t. seq_is_finished t \<and> (seq_is_finished (demo_seq 0 4 RUNNING) \<or> seq_get_output_len t \<le> 16)) (\<lambda>_ _. False)
    (demo_seq 0 4 RUNNING)"
    by (rule generation_ends)
      (simp_all add: demo_seq_ok demo_params_def good_samples_def demo_sample_def seq_get_output_len_def
        sd_get_output_len_def SequenceData_init_def)
  from wp_ok_result [OF this] show ?thesis by auto
qed

end
