(* ===== verification/Single_Step.thy ===== *)
theory Single_Step
  imports Multi_Step
begin

text \<open>
  \<^verbatim>\<open>vllm/engine/output_processor/single_step.py\<close>: one token per sequence and step, with forks for
  several samples of one parent and the selection of the beam search. A candidate is a reference to a
  sequence object: \<open>Own k\<close> is the object of the group with key \<open>k\<close> (a parent that is continued),
  \<open>Child i\<close> the \<open>i\<close>-th object forked in this step, which is not in the group yet. So the code's test
  \<^verbatim>\<open>seq is parent\<close> is the constructor.
\<close>

datatype cand = Own nat | Child nat

record 'b output_state =
  os_sched :: "'b scheduler"
  os_counter :: nat
  os_children :: "Sequence list"

type_synonym ('b, 'a) outp = "('b output_state, 'a) pym"

definition on_sched :: "('b, 'a) sched \<Rightarrow> ('b, 'a) outp" where
  "on_sched m = (\<lambda>st. case m (os_sched st) of (x, s) \<Rightarrow> (x, st\<lparr>os_sched := s\<rparr>))"

text \<open>\<^verbatim>\<open>next(self.seq_counter)\<close>\<close>

definition next_seq_id :: "('b, nat) outp" where
  "next_seq_id = (\<lambda>st. (Inr (os_counter st), st\<lparr>os_counter := os_counter st + 1\<rparr>))"

definition cand_seq :: "group_ref \<Rightarrow> 'b output_state \<Rightarrow> cand \<Rightarrow> Sequence" where
  "cand_seq r st c = (case c of
     Own k \<Rightarrow> the (map_of (sg_seqs_dict (sc_groups (os_sched st) r)) k)
   | Child i \<Rightarrow> os_children st ! i)"

definition on_cand :: "group_ref \<Rightarrow> cand \<Rightarrow> (Sequence, 'a) pym \<Rightarrow> ('b, 'a) outp" where
  "on_cand r c m = (case c of
     Own k \<Rightarrow> on_sched (on_group r (on_seq k m))
   | Child i \<Rightarrow> (\<lambda>st. case m (os_children st ! i) of
       (x, s) \<Rightarrow> (x, st\<lparr>os_children := (os_children st)[i := s]\<rparr>)))"

section \<open>Samples become candidates\<close>

text \<open>The dictionary from the ids of the parents to their samples.\<close>

definition samples_by_parent ::
  "nat list \<Rightarrow> SequenceOutput list \<Rightarrow> py_error + (nat, SequenceOutput list) pydict"
where
  "samples_by_parent parent_ids samples =
     foldl (\<lambda>acc smp. case acc of Inl e \<Rightarrow> Inl e | Inr d \<Rightarrow>
         (case dget d (so_parent_seq_id smp) of
            Inl e \<Rightarrow> Inl e | Inr xs \<Rightarrow> Inr (dset (so_parent_seq_id smp) (xs @ [smp]) d)))
       (Inr (fold (\<lambda>i. dset i []) parent_ids [])) samples"

type_synonym cands = "(cand \<times> nat) list"

definition fork_child :: "group_ref \<Rightarrow> nat \<Rightarrow> cands \<Rightarrow> SequenceOutput \<Rightarrow> ('b, cands) outp" where
  "fork_child r k child_seqs child_sample =
     bnd next_seq_id (\<lambda>new_child_seq_id.
     bnd (gets (\<lambda>st. seq_fork new_child_seq_id (cand_seq r st (Own k)))) (\<lambda>child.
     bnd (lift_err (\<lambda>_. case seq_append_token_id (so_output_token child_sample) (so_logprobs child_sample) child of
            (Inl e, _) \<Rightarrow> Inl e | (Inr _, child') \<Rightarrow> Inr child')) (\<lambda>child'.
     bnd (gets (\<lambda>st. length (os_children st))) (\<lambda>i.
     sq (modify (\<lambda>st. st\<lparr>os_children := os_children st @ [child']\<rparr>))
    (ret (child_seqs @ [(Child i, k)]))))))"

definition process_parent ::
  "('b, 'p) block_manager \<Rightarrow> group_ref \<Rightarrow> (nat, SequenceOutput list) pydict \<Rightarrow> cands \<Rightarrow> nat \<Rightarrow> ('b, cands) outp"
where
  "process_parent bm r parent_child_dict child_seqs k =
     bnd (gets (\<lambda>st. cand_seq r st (Own k))) (\<lambda>parent.
     bnd (lift_err (\<lambda>_. dget parent_child_dict (seq_id parent))) (\<lambda>child_samples.
     if child_samples = [] then
       sq (on_cand r (Own k) (set_status FINISHED_ABORTED))
      (bnd (gets (\<lambda>st. cand_seq r st (Own k))) (\<lambda>parent.
       sq (on_sched (on_group r (sg_remove (seq_id parent))))
      (sq (on_sched (sched_free_seq bm parent))
      (ret child_seqs))))
     else
       bnd (fold_each (butlast child_samples) child_seqs (fork_child r k)) (\<lambda>child_seqs.
       sq (on_cand r (Own k) (seq_append_token_id (so_output_token (last child_samples)) (so_logprobs (last child_samples))))
      (ret (child_seqs @ [(Own k, k)])))))"

text \<open>Detokenize and check for a stop.\<close>

definition check_cand :: "processor \<Rightarrow> group_ref \<Rightarrow> SamplingParams \<Rightarrow> LoRARequest option \<Rightarrow> cand \<Rightarrow> ('b, unit) outp" where
  "check_cand pr r params lora c =
     on_cand r c
       (bnd (if sp_detokenize params \<and> pr_has_detokenizer pr then
               decode_sequence_inplace (pr_fffd pr) (pr_get_tokenizer pr) params
             else ret 0) (\<lambda>new_char_count.
        maybe_stop_sequence (pr_max_model_len pr) new_char_count params lora))"

section \<open>The new sequences of the group\<close>

definition add_child :: "('b, 'p) block_manager \<Rightarrow> group_ref \<Rightarrow> cand \<times> nat \<Rightarrow> ('b, unit) outp" where
  "add_child bm r = (\<lambda>(c, p). case c of
     Own _ \<Rightarrow> ret ()
   | Child _ \<Rightarrow>
       bnd (gets (\<lambda>st. cand_seq r st c)) (\<lambda>s.
       sq (on_sched (on_group r (sg_add s)))
      (if seq_is_finished s then ret ()
       else
         bnd (gets (\<lambda>st. cand_seq r st (Own p))) (\<lambda>parent.
         on_sched (sched_fork_seq bm parent s)))))"

definition free_finished :: "('b, 'p) block_manager \<Rightarrow> group_ref \<Rightarrow> cand \<times> nat \<Rightarrow> ('b, unit) outp" where
  "free_finished bm r = (\<lambda>(c, p). case c of
     Child _ \<Rightarrow> ret ()
   | Own _ \<Rightarrow>
       bnd (gets (\<lambda>st. cand_seq r st c)) (\<lambda>s.
       if seq_is_finished s then on_sched (sched_free_seq bm s) else ret ()))"

definition drop_unselected :: "('b, 'p) block_manager \<Rightarrow> group_ref \<Rightarrow> cand \<times> nat \<Rightarrow> ('b, unit) outp" where
  "drop_unselected bm r = (\<lambda>(c, p). case c of
     Child _ \<Rightarrow> ret ()
   | Own _ \<Rightarrow>
       bnd (gets (\<lambda>st. cand_seq r st c)) (\<lambda>s.
       sq (on_sched (on_group r (sg_remove (seq_id s))))
      (on_sched (sched_free_seq bm s))))"

section \<open>Beam search\<close>

definition beam_score :: "SamplingParams \<Rightarrow> Sequence \<Rightarrow> py_error + real" where
  "beam_score params s = get_beam_search_score (sp_length_penalty params) None (seq_eos_token_id s) s"

text \<open>\<^verbatim>\<open>sort(key=score, reverse=True)\<close>: best first, candidates of equal score in their order.\<close>

definition rank ::
  "group_ref \<Rightarrow> SamplingParams \<Rightarrow> (cand \<times> 'x) list \<Rightarrow> ('b, (cand \<times> 'x) list) outp"
where
  "rank r params xs =
     bnd (collect xs (\<lambda>x. lift_err (\<lambda>st. beam_score params (cand_seq r st (fst x))))) (\<lambda>scores.
     ret (map snd (sort_key (\<lambda>y. - fst y) (zip scores xs))))"

definition check_beam_search_early_stopping ::
  "int \<Rightarrow> SamplingParams \<Rightarrow> Sequence \<Rightarrow> Sequence \<Rightarrow> py_error + bool"
where
  "check_beam_search_early_stopping max_model_len params best_running_seq current_worst_seq =
     (if \<not> sp_use_beam_search params then Inl AssertionError
      else if sp_early_stopping params = ES_bool True then Inr True
      else case beam_score params current_worst_seq of
        Inl e \<Rightarrow> Inl e
      | Inr current_worst_score \<Rightarrow>
          (case (if sp_early_stopping params = ES_bool False then beam_score params best_running_seq
                 else if sp_early_stopping params \<noteq> ES_str ''never'' then Inl AssertionError
                 else if sp_length_penalty params > 0 then
                   (case sp_max_tokens params of
                      None \<Rightarrow> Inl TypeError
                    | Some max_tokens \<Rightarrow>
                        get_beam_search_score (sp_length_penalty params)
                          (Some (nat (max (int (seq_get_prompt_len best_running_seq) + max_tokens) max_model_len)))
                          (seq_eos_token_id best_running_seq) best_running_seq)
                 else beam_score params best_running_seq) of
             Inl e \<Rightarrow> Inl e
           | Inr highest_attainable_score \<Rightarrow> Inr (highest_attainable_score \<le> current_worst_score)))"

definition is_finished_cand :: "group_ref \<Rightarrow> 'b output_state \<Rightarrow> cand \<times> 'x \<Rightarrow> bool" where
  "is_finished_cand r st c \<longleftrightarrow> seq_is_finished (cand_seq r st (fst c))"

text \<open>
  A finished candidate that is new carries its parent; the ones that were finished before have none.
  \<open>new_of\<close> are the new ones of a part of the ranking, with their parents.
\<close>

definition new_of :: "(cand \<times> nat option) list \<Rightarrow> cands" where
  "new_of xs = concat (map (\<lambda>(c, p). case p of Some k \<Rightarrow> [(c, k)] | None \<Rightarrow> []) xs)"

definition remove_old :: "group_ref \<Rightarrow> cand \<times> nat option \<Rightarrow> ('b, unit) outp" where
  "remove_old r = (\<lambda>(c, p). case p of
     Some _ \<Rightarrow> ret ()
   | None \<Rightarrow> bnd (gets (\<lambda>st. cand_seq r st c)) (\<lambda>s. on_sched (on_group r (sg_remove (seq_id s)))))"

definition stop_beam_search ::
  "group_ref \<Rightarrow> SamplingParams \<Rightarrow> cands \<Rightarrow> (cand \<times> nat option) list \<Rightarrow> ('b, bool) outp"
where
  "stop_beam_search r params running_child_seqs all_finished_seqs =
     (let beam_width = nat (sp_best_of params) in
      case running_child_seqs of
        [] \<Rightarrow> ret True
      | (best, _) # _ \<Rightarrow>
          if length all_finished_seqs < beam_width then ret False
          else
            bnd (lift_err (\<lambda>_. nth_py all_finished_seqs (beam_width - 1))) (\<lambda>worst.
            lift_err (\<lambda>st. check_beam_search_early_stopping (cfg_max_model_len (sc_config (os_sched st))) params
              (cand_seq r st best) (cand_seq r st (fst worst)))))"

definition beam_select ::
  "group_ref \<Rightarrow> SamplingParams \<Rightarrow> nat list \<Rightarrow> cands \<Rightarrow> ('b, cands \<times> cands) outp"
where
  "beam_select r params existing_finished child_seqs =
     (let beam_width = nat (sp_best_of params) in
     bnd (gets (\<lambda>st. filter (is_finished_cand r st) child_seqs)) (\<lambda>new_finished.
     bnd (rank r params (map (\<lambda>k. (Own k, None)) existing_finished @ map (\<lambda>(c, p). (c, Some p)) new_finished))
       (\<lambda>all_finished_seqs.
     let selected = new_of (take beam_width all_finished_seqs);
         unselected = new_of (drop beam_width all_finished_seqs) in
     sq (for_each (drop beam_width all_finished_seqs) (remove_old r))
    (bnd (gets (\<lambda>st. filter (\<lambda>c. \<not> is_finished_cand r st c) child_seqs)) (\<lambda>running.
     bnd (rank r params running) (\<lambda>running_child_seqs.
     bnd (stop_beam_search r params running_child_seqs all_finished_seqs) (\<lambda>stop.
     ret (if stop then (selected, unselected @ running_child_seqs)
          else (selected @ take beam_width running_child_seqs,
                unselected @ drop beam_width running_child_seqs)))))))))"

section \<open>The processor\<close>

definition single_process_group ::
  "processor \<Rightarrow> ('b, 'p) block_manager \<Rightarrow> group_ref \<Rightarrow> CompletionSequenceGroupOutput \<Rightarrow> ('b, unit) outp"
where
  "single_process_group pr bm r outputs =
     bnd (gets (\<lambda>st. sc_groups (os_sched st) r)) (\<lambda>g.
     let parents = filter (\<lambda>(k, s). seq_status s = RUNNING) (sg_seqs_dict g);
         existing_finished = map fst (filter (\<lambda>(k, s). seq_is_finished s) (sg_seqs_dict g)) in
     bnd (lift_err (\<lambda>_. samples_by_parent (map (\<lambda>(k, s). seq_id s) parents) (cso_samples outputs))) (\<lambda>parent_child_dict.
     sq (modify (\<lambda>st. st\<lparr>os_children := []\<rparr>))
    (bnd (fold_each (map fst parents) [] (process_parent bm r parent_child_dict)) (\<lambda>child_seqs.
     bnd (lift_err (\<lambda>_. case sg_sampling_params g of
            None \<Rightarrow> Inl AttributeError | Some p \<Rightarrow> Inr p)) (\<lambda>params.
     sq (for_each child_seqs (\<lambda>(c, _). check_cand pr r params (sg_lora_request g) c))
    (if \<not> sp_use_beam_search params then
       sq (for_each child_seqs (add_child bm r)) (for_each child_seqs (free_finished bm r))
     else
       bnd (beam_select r params existing_finished child_seqs) (\<lambda>(selected, unselected).
       sq (for_each selected (add_child bm r))
      (sq (for_each selected (free_finished bm r))
      (for_each unselected (drop_unselected bm r))))))))))"

definition single_process_outputs ::
  "processor \<Rightarrow> ('b, 'p) block_manager \<Rightarrow> group_ref \<Rightarrow> CompletionSequenceGroupOutput list \<Rightarrow> ('b, unit) outp"
where
  "single_process_outputs pr bm r outputs =
     sq (ensure (length outputs = 1) AssertionError)
    (bnd (lift_err (\<lambda>_. nth_py outputs 0)) (single_process_group pr bm r))"

definition single_process_prompt_logprob ::
  "processor \<Rightarrow> CompletionSequenceGroupOutput list \<Rightarrow> (SequenceGroup, unit) pym"
where
  "single_process_prompt_logprob pr outputs =
     sq (ensure (length outputs = 1) AssertionError)
    (bnd (lift_err (\<lambda>_. nth_py outputs 0)) (\<lambda>output.
     case cso_prompt_logprobs output of
       None \<Rightarrow> ret ()
     | Some prompt_logprobs \<Rightarrow>
         bnd (lift_err (\<lambda>g. case sg_sampling_params g of None \<Rightarrow> Inl AttributeError | Some p \<Rightarrow> Inr p)) (\<lambda>params.
         if sp_detokenize params \<and> pr_has_detokenizer pr then
           bnd (lift_err (decode_prompt_logprobs_inplace (pr_fffd pr) (pr_get_tokenizer pr) prompt_logprobs)) (\<lambda>decoded.
           sq (modify (\<lambda>g. if sg_prompt_logprobs g \<in> {None, Some []} then g\<lparr>sg_prompt_logprobs := Some [None]\<rparr> else g))
          (modify (\<lambda>g. g\<lparr>sg_prompt_logprobs := map_option (\<lambda>xs. xs @ decoded) (sg_prompt_logprobs g)\<rparr>)))
         else ret ())))"

section \<open>The choice of the processor\<close>

text \<open>\<^verbatim>\<open>interfaces.py\<close>: without lookahead slots outputs are processed by single steps.\<close>

datatype processor_class = SingleStepOutputProcessor | MultiStepOutputProcessor

definition create_output_processor :: "SchedulerConfig \<Rightarrow> processor_class" where
  "create_output_processor scheduler_config =
     (if cfg_num_lookahead_slots scheduler_config = 0 then SingleStepOutputProcessor else MultiStepOutputProcessor)"

end
