(* ===== verification/Outputs.thy ===== *)
theory Outputs
  imports Single_Step
begin

text \<open>
  \<^verbatim>\<open>vllm/outputs.py\<close>: what a request returns to the client after a step. The metrics object is shared
  with the group in Python; the output here has its value at the time of the call.
\<close>

record CompletionOutput =
  co_index :: nat
  co_text :: string
  co_token_ids :: "int list"
  co_cumulative_logprob :: rat
  co_logprobs :: "logprobs list option"
  co_finish_reason :: "string option"
  co_stop_reason :: "stop_reason option"
  co_lora_request :: "LoRARequest option"

definition co_finished :: "CompletionOutput \<Rightarrow> bool" where
  "co_finished c \<longleftrightarrow> co_finish_reason c \<noteq> None"

record RequestOutput =
  ro_request_id :: string
  ro_prompt :: string
  ro_prompt_token_ids :: "int list"
  ro_prompt_logprobs :: "logprobs option list option"
  ro_outputs :: "CompletionOutput list"
  ro_finished :: bool
  ro_metrics :: RequestMetrics
  ro_lora_request :: "LoRARequest option"

record EmbeddingRequestOutput =
  ero_request_id :: string
  ero_outputs :: "rat list"
  ero_prompt_token_ids :: "int list"
  ero_finished :: bool

text \<open>The key by which the sequences of a request are ordered, best first.\<close>

definition output_score :: "SamplingParams \<Rightarrow> Sequence \<Rightarrow> py_error + real" where
  "output_score params s =
     (if sp_use_beam_search params then get_beam_search_score (sp_length_penalty params) None None s
      else Inr (of_rat (seq_get_cumulative_logprob s)))"

fun scores_of :: "('x \<Rightarrow> py_error + real) \<Rightarrow> 'x list \<Rightarrow> py_error + real list" where
  "scores_of f [] = Inr []"
| "scores_of f (x # xs) = (case f x of Inl e \<Rightarrow> Inl e | Inr y \<Rightarrow>
     (case scores_of f xs of Inl e \<Rightarrow> Inl e | Inr ys \<Rightarrow> Inr (y # ys)))"

text \<open>The sequences with their indices in the group, of which the best \<open>n\<close> are returned.\<close>

definition top_n_seqs :: "SamplingParams \<Rightarrow> SequenceGroup \<Rightarrow> py_error + (nat \<times> Sequence) list" where
  "top_n_seqs params g =
     (let seqs = get_seqs None g; indexed = zip [0..<length seqs] seqs in
      if length seqs = 1 then Inr indexed
      else case scores_of (\<lambda>x. output_score params (snd x)) indexed of
        Inl e \<Rightarrow> Inl e
      | Inr scores \<Rightarrow> Inr (take (nat (sp_n params)) (map snd (sort_key (\<lambda>y. - fst y) (zip scores indexed)))))"

definition completion_output :: "SamplingParams \<Rightarrow> nat \<times> Sequence \<Rightarrow> CompletionOutput" where
  "completion_output params = (\<lambda>(i, s).
     \<lparr>co_index = i,
      co_text = get_output_text_to_return (nat (sp_output_text_buffer_length params)) s,
      co_token_ids = sd_output_token_ids (seq_data s),
      co_cumulative_logprob = seq_get_cumulative_logprob s,
      co_logprobs = (if sp_logprobs params \<noteq> None then Some (seq_output_logprobs s) else None),
      co_finish_reason = get_finished_reason (seq_status s),
      co_stop_reason = seq_stop_reason s,
      co_lora_request = None\<rparr>)"

definition RequestOutput_from_seq_group :: "group_ref \<Rightarrow> ('b, RequestOutput) sched" where
  "RequestOutput_from_seq_group r =
     bnd (group r) (\<lambda>g.
     case sg_sampling_params g of
       None \<Rightarrow> throw (ValueError ''Sampling parameters are missing for a CompletionRequest.'')
     | Some params \<Rightarrow>
         bnd (lift_err (\<lambda>_. top_n_seqs params g)) (\<lambda>top_n.
         bnd (lift_err (\<lambda>_. sg_prompt g)) (\<lambda>prompt.
         bnd (lift_err (\<lambda>_. sg_prompt_token_ids g)) (\<lambda>prompt_token_ids.
         let finished = sg_is_finished g in
         bnd (if finished then bnd read_time (\<lambda>t. ret (Some t)) else ret None) (\<lambda>finished_time.
         sq (on_group r (modify (set_finished_time finished_time)))
        (bnd (group r) (\<lambda>g.
         ret \<lparr>ro_request_id = sg_request_id g, ro_prompt = prompt, ro_prompt_token_ids = prompt_token_ids,
              ro_prompt_logprobs = sg_prompt_logprobs g, ro_outputs = map (completion_output params) top_n,
              ro_finished = finished, ro_metrics = sg_metrics g, ro_lora_request = sg_lora_request g\<rparr>)))))))"

definition EmbeddingRequestOutput_from_seq_group :: "SequenceGroup \<Rightarrow> py_error + EmbeddingRequestOutput" where
  "EmbeddingRequestOutput_from_seq_group g =
     (case sg_embeddings g of
        None \<Rightarrow> Inl (ValueError ''Embeddings are missing in seq_group for EmbeddingRequest.'')
      | Some embedding \<Rightarrow>
          (case sg_prompt_token_ids g of
             Inl e \<Rightarrow> Inl e
           | Inr ids \<Rightarrow> Inr \<lparr>ero_request_id = sg_request_id g, ero_outputs = embedding, ero_prompt_token_ids = ids,
                            ero_finished = sg_is_finished g\<rparr>))"

text \<open>\<^verbatim>\<open>RequestOutputFactory.create\<close>\<close>

datatype any_output = CompletionRequest RequestOutput | EmbeddingRequest EmbeddingRequestOutput

definition output_finished :: "any_output \<Rightarrow> bool" where
  "output_finished a = (case a of CompletionRequest ro \<Rightarrow> ro_finished ro | EmbeddingRequest ero \<Rightarrow> ero_finished ero)"

definition create_request_output :: "group_ref \<Rightarrow> ('b, any_output) sched" where
  "create_request_output r =
     bnd (group r) (\<lambda>g.
     if sg_embeddings g \<noteq> None then
       bnd (lift_err (\<lambda>_. EmbeddingRequestOutput_from_seq_group g)) (\<lambda>ero. ret (EmbeddingRequest ero))
     else bnd (RequestOutput_from_seq_group r) (\<lambda>ro. ret (CompletionRequest ro)))"

end
