(* ===== verification/Llm_Engine.thy ===== *)
theory Llm_Engine
  imports Outputs
begin

text \<open>
  \<^verbatim>\<open>vllm/engine/llm_engine.py\<close>: requests enter, steps are scheduled, executed and processed, outputs
  leave. The tokenizer and the model executor are calls into other libraries and devices: parameters.
  The prompt of a request is always a string here (with \<^verbatim>\<open>None\<close> and given token ids the
  scheduler's statistics fail on \<^verbatim>\<open>len(prompt)\<close>). Statistics are not collected
  (\<^verbatim>\<open>log_stats\<close> is off), and the request to the workers to stop waiting has no effect on the state.
\<close>

section \<open>The engine\<close>

text \<open>\<open>en_encode\<close> is \<^verbatim>\<open>tokenizer.encode\<close>, \<open>en_eos\<close> the EOS id of the request's tokenizer.\<close>

record ('b, 'p) engine =
  en_block_manager :: "('b, 'p) block_manager"
  en_processor :: processor
  en_encode :: "string \<Rightarrow> string \<Rightarrow> LoRARequest option \<Rightarrow> int list"
  en_eos :: "LoRARequest option \<Rightarrow> int option"
  en_lora_enabled :: bool
  en_embedding_mode :: bool
  en_max_logprobs :: int
  en_generation_config :: "eos_arg option"
  en_set_order :: "int set \<Rightarrow> int list"

text \<open>The state of the output processor with the scheduler in it, and the next unused group object.\<close>

record 'b engine_state =
  es_out :: "'b output_state"
  es_next_group :: group_ref

definition on_out :: "('b, 'a) outp \<Rightarrow> ('b engine_state, 'a) pym" where
  "on_out m = (\<lambda>s. case m (es_out s) of (x, t) \<Rightarrow> (x, s\<lparr>es_out := t\<rparr>))"

section \<open>Requests\<close>

definition encode_request ::
  "('b, 'p) engine \<Rightarrow> string \<Rightarrow> string \<Rightarrow> int list option \<Rightarrow> LoRARequest option \<Rightarrow> int list"
where
  "encode_request en request_id prompt prompt_token_ids lora_request =
     (case prompt_token_ids of None \<Rightarrow> en_encode en request_id prompt lora_request | Some ids \<Rightarrow> ids)"

text \<open>\<^verbatim>\<open>if x and x > max_logprobs\<close>\<close>

definition exceeds :: "int \<Rightarrow> int option \<Rightarrow> bool" where
  "exceeds m x \<longleftrightarrow> (case x of None \<Rightarrow> False | Some k \<Rightarrow> k \<noteq> 0 \<and> k > m)"

definition create_sequence_group_with_sampling ::
  "('b, 'p) engine \<Rightarrow> string \<Rightarrow> Sequence \<Rightarrow> SamplingParams \<Rightarrow> rat \<Rightarrow> LoRARequest option \<Rightarrow> obj_ref option \<Rightarrow>
   py_error + SequenceGroup"
where
  "create_sequence_group_with_sampling en request_id seq sampling_params arrival lora_request mm =
     (if exceeds (en_max_logprobs en) (sp_logprobs sampling_params) \<or>
         exceeds (en_max_logprobs en) (sp_prompt_logprobs sampling_params)
      then Inl (ValueError ''Cannot request more than max_logprobs logprobs.'')
      else
        let params = SamplingParams_clone sampling_params;
            params = (case seq_eos_token_id seq of
                None \<Rightarrow> params
              | Some eos \<Rightarrow> params\<lparr>sp_all_stop_token_ids := insert eos (sp_all_stop_token_ids params)\<rparr>);
            params = update_from_generation_config (en_set_order en) (en_generation_config en) params in
        Inr (SequenceGroup_init request_id [seq] arrival (Some params) lora_request mm None None 0))"

definition create_sequence_group_with_pooling ::
  "string \<Rightarrow> Sequence \<Rightarrow> obj_ref \<Rightarrow> rat \<Rightarrow> LoRARequest option \<Rightarrow> obj_ref option \<Rightarrow> SequenceGroup"
where
  "create_sequence_group_with_pooling request_id seq pooling_params arrival lora_request mm =
     SequenceGroup_init request_id [seq] arrival None lora_request mm None (Some pooling_params) 0"

datatype request_params = Sampling SamplingParams | Pooling obj_ref

definition add_request ::
  "('b, 'p) engine \<Rightarrow> string \<Rightarrow> string \<Rightarrow> request_params \<Rightarrow> int list option \<Rightarrow> rat option \<Rightarrow> LoRARequest option \<Rightarrow>
   obj_ref option \<Rightarrow> ('b engine_state, unit) pym"
where
  "add_request en request_id prompt params prompt_token_ids arrival lora_request mm =
     sq (ensure (lora_request = None \<or> en_lora_enabled en) (ValueError ''Got lora_request but LoRA is not enabled!''))
    (bnd (case arrival of None \<Rightarrow> on_out (on_sched read_time) | Some t \<Rightarrow> ret t) (\<lambda>arrival.
     let ids = encode_request en request_id prompt prompt_token_ids lora_request in
     bnd (on_out next_seq_id) (\<lambda>new_seq_id.
     bnd (lift_err (\<lambda>s. Sequence_init new_seq_id prompt ids
            (nat (cc_block_size (sc_cache_config (os_sched (es_out s))))) (en_eos en lora_request) lora_request)) (\<lambda>seq.
     bnd (lift_err (\<lambda>_. case params of
            Sampling sampling_params \<Rightarrow>
              create_sequence_group_with_sampling en request_id seq sampling_params arrival lora_request mm
          | Pooling pooling_params \<Rightarrow>
              Inr (create_sequence_group_with_pooling request_id seq pooling_params arrival lora_request mm)))
       (\<lambda>seq_group.
     bnd (gets es_next_group) (\<lambda>r.
     sq (modify (\<lambda>s. s\<lparr>es_next_group := Suc r\<rparr>))
    (sq (on_out (on_sched (modify (\<lambda>s. s\<lparr>sc_groups := (sc_groups s)(r := seq_group)\<rparr>))))
    (on_out (on_sched (add_seq_group r))))))))))"

definition abort_request :: "('b, 'p) engine \<Rightarrow> string set \<Rightarrow> ('b engine_state, unit) pym" where
  "abort_request en request_ids = on_out (on_sched (abort_seq_group (en_block_manager en) request_ids))"

definition get_num_unfinished_requests :: "'b engine_state \<Rightarrow> nat" where
  "get_num_unfinished_requests s = get_num_unfinished_seq_groups (os_sched (es_out s))"

definition has_unfinished_requests :: "'b engine_state \<Rightarrow> bool" where
  "has_unfinished_requests s = has_unfinished_seqs (os_sched (es_out s))"

section \<open>The outputs of a step\<close>

text \<open>One group's output of one step of the model: samples, or the embedding of a pooler.\<close>

datatype group_output = SampleOutput CompletionSequenceGroupOutput | EmbeddingOutput "rat list"

definition samples_out :: "group_output \<Rightarrow> py_error + CompletionSequenceGroupOutput" where
  "samples_out x = (case x of SampleOutput c \<Rightarrow> Inr c | EmbeddingOutput _ \<Rightarrow> Inl AttributeError)"

definition embedding_out :: "group_output \<Rightarrow> py_error + rat list" where
  "embedding_out x = (case x of SampleOutput _ \<Rightarrow> Inl AttributeError | EmbeddingOutput e \<Rightarrow> Inr e)"

definition process_embedding :: "group_ref \<Rightarrow> group_output list \<Rightarrow> ('b, unit) sched" where
  "process_embedding r outputs =
     bnd (lift_err (\<lambda>_. nth_py outputs 0)) (\<lambda>out.
     bnd (lift_err (\<lambda>_. embedding_out out)) (\<lambda>embedding.
     sq (on_group r (modify (\<lambda>g. g\<lparr>sg_embeddings := Some embedding\<rparr>)))
    (set_status_all r (\<lambda>_. True) FINISHED_STOPPED)))"

text \<open>
  \<^verbatim>\<open>self.output_processor\<close> by the class that was chosen; prompt log-probabilities are not supported
  by the multi-step processor, which only warns.
\<close>

definition processor_prompt_logprob ::
  "processor \<Rightarrow> group_ref \<Rightarrow> CompletionSequenceGroupOutput list \<Rightarrow> ('b, unit) outp"
where
  "processor_prompt_logprob pr r outputs =
     bnd (gets (\<lambda>st. create_output_processor (sc_config (os_sched st)))) (\<lambda>cls. case cls of
       SingleStepOutputProcessor \<Rightarrow> on_sched (on_group r (single_process_prompt_logprob pr outputs))
     | MultiStepOutputProcessor \<Rightarrow> ret ())"

definition processor_process_outputs ::
  "processor \<Rightarrow> ('b, 'p) block_manager \<Rightarrow> group_ref \<Rightarrow> CompletionSequenceGroupOutput list \<Rightarrow> ('b, unit) outp"
where
  "processor_process_outputs pr bm r outputs =
     bnd (gets (\<lambda>st. create_output_processor (sc_config (os_sched st)))) (\<lambda>cls. case cls of
       SingleStepOutputProcessor \<Rightarrow> single_process_outputs pr bm r outputs
     | MultiStepOutputProcessor \<Rightarrow> on_sched (multi_process_outputs pr bm r outputs))"

definition process_group ::
  "('b, 'p) engine \<Rightarrow> ScheduledSequenceGroup \<times> group_output list \<times> 'p SequenceGroupMetadata \<Rightarrow> ('b, unit) outp"
where
  "process_group en = (\<lambda>(sg, outputs, metadata).
     let r = ssg_seq_group sg in
     sq (on_sched (on_group r (update_num_computed_tokens (ssg_token_chunk_size sg))))
    (if en_embedding_mode en then on_sched (process_embedding r outputs)
     else
       bnd (collect outputs (\<lambda>x. lift_err (\<lambda>_. samples_out x))) (\<lambda>outs.
       sq (processor_prompt_logprob (en_processor en) r outs)
      (if md_do_sample metadata then processor_process_outputs (en_processor en) (en_block_manager en) r outs
       else ret ()))))"

definition process_model_outputs ::
  "('b, 'p) engine \<Rightarrow> group_output list list \<Rightarrow> ScheduledSequenceGroup list \<Rightarrow> group_ref list \<Rightarrow>
   'p SequenceGroupMetadata list \<Rightarrow> ('b, any_output list) outp"
where
  "process_model_outputs en output scheduled ignored metadata =
     bnd (on_sched read_time) (\<lambda>now.
     bnd (lift_err (\<lambda>_. create_output_by_sequence_group output (length scheduled))) (\<lambda>output_by_group.
     sq (for_each (zip scheduled (zip output_by_group metadata)) (process_group en))
    (sq (on_sched free_finished_seq_groups)
    (bnd (collect scheduled (\<lambda>sg.
        sq (on_sched (on_group (ssg_seq_group sg) (maybe_set_first_token_time now)))
       (on_sched (create_request_output (ssg_seq_group sg))))) (\<lambda>request_outputs.
     bnd (collect ignored (\<lambda>r. on_sched (create_request_output r))) (\<lambda>ignored_outputs.
     ret (request_outputs @ ignored_outputs)))))))"

section \<open>A step\<close>

definition execute_request ::
  "'p SequenceGroupMetadata list \<Rightarrow> SchedulerOutputs \<Rightarrow> 'p ExecuteModelRequest"
where
  "execute_request metadata out =
     \<lparr>emr_seq_group_metadata_list = metadata,
      emr_blocks_to_swap_in = out_blocks_to_swap_in out,
      emr_blocks_to_swap_out = out_blocks_to_swap_out out,
      emr_blocks_to_copy = out_blocks_to_copy out,
      emr_total_block_ids = out_total_block_ids out,
      emr_num_lookahead_slots = nat (out_num_lookahead_slots out),
      emr_running_queue_size = out_running_queue_size out\<rparr>"

definition engine_step ::
  "('b, 'p) engine \<Rightarrow> ('p ExecuteModelRequest \<Rightarrow> group_output list list) \<Rightarrow> ('b engine_state, any_output list) pym"
where
  "engine_step en execute_model =
     bnd (on_out (on_sched (schedule (en_block_manager en)))) (\<lambda>(metadata, out).
     let output = (if out_is_empty out then [] else execute_model (execute_request metadata out)) in
     on_out (process_model_outputs en output (out_scheduled_seq_groups out) (out_ignored_seq_groups out) metadata))"

end
