(* ===== verification/Single_Step_Facts.thy ===== *)
theory Single_Step_Facts
  imports Single_Step
begin

text \<open>
  The single-step processor against the block manager: which sequences have block tables after a
  step, and how many sequences the beam search keeps. The block manager enters through the contract
  \<open>table_contract\<close>: the set of the sequences that have a table, and what forking and freeing do to it.
\<close>

section \<open>The contract\<close>

locale table_contract =
  fixes bm :: "('b, 'p) block_manager" and okb :: "'b \<Rightarrow> bool" and tabled :: "'b \<Rightarrow> nat set"
  assumes fork_held: "okb b \<Longrightarrow> seq_id parent \<in> tabled b \<Longrightarrow> seq_id child \<notin> tabled b \<Longrightarrow>
      wp (bm_fork bm parent child) (\<lambda>_ t. okb t \<and> tabled t = insert (seq_id child) (tabled b)) (\<lambda>_ _. False) b"
    and free_held: "okb b \<Longrightarrow> wp (bm_free bm s) (\<lambda>_ t. okb t \<and> tabled t = tabled b - {seq_id s}) (\<lambda>_ _. False) b"

section \<open>Views of the state\<close>

abbreviation group_dict :: "group_ref \<Rightarrow> 'b output_state \<Rightarrow> (nat, Sequence) pydict" where
  "group_dict r st \<equiv> sg_seqs_dict (sc_groups (os_sched st) r)"

abbreviation gmap :: "group_ref \<Rightarrow> 'b output_state \<Rightarrow> nat \<Rightarrow> Sequence option" where
  "gmap r st \<equiv> map_of (group_dict r st)"

abbreviation manager :: "'b output_state \<Rightarrow> 'b" where
  "manager st \<equiv> sc_block_manager (os_sched st)"

definition owns :: "cands \<Rightarrow> nat set" where
  "owns acc = {k. Own k \<in> fst ` set acc}"

definition startable :: "Sequence \<Rightarrow> bool" where
  "startable s \<longleftrightarrow> seq_ok s \<and> sd_prompt_token_ids (seq_data s) \<noteq> []"

definition grown :: "Sequence \<Rightarrow> bool" where
  "grown s \<longleftrightarrow> startable s \<and> sd_output_token_ids (seq_data s) \<noteq> []"

text \<open>
  The state in the middle of a step: \<open>F\<close> the sequences that were finished before, \<open>ys\<close> the parents not
  handled yet, \<open>acc\<close> the candidates; ids from \<open>c0\<close> on are new, \<open>H\<close> are the other sequences with tables.
\<close>

definition cand_ok :: "group_ref \<Rightarrow> 'b output_state \<Rightarrow> nat set \<Rightarrow> cand \<times> nat \<Rightarrow> bool" where
  "cand_ok r st P x \<longleftrightarrow> grown (cand_seq r st (fst x)) \<and>
     (case fst x of Own k \<Rightarrow> snd x = k | Child i \<Rightarrow> i < length (os_children st) \<and> snd x \<in> P)"

definition fresh_children :: "nat \<Rightarrow> 'b output_state \<Rightarrow> bool" where
  "fresh_children c0 st \<longleftrightarrow> (\<forall>i < length (os_children st). seq_id (os_children st ! i) = c0 + i) \<and>
     os_counter st = c0 + length (os_children st)"

definition keyed :: "nat \<Rightarrow> (nat, Sequence) pydict \<Rightarrow> bool" where
  "keyed c0 d \<longleftrightarrow> distinct (dkeys d) \<and> (\<forall>k s. map_of d k = Some s \<longrightarrow> seq_id s = k \<and> k < c0)"

definition were_finished :: "(nat \<Rightarrow> Sequence option) \<Rightarrow> nat set \<Rightarrow> bool" where
  "were_finished m F \<longleftrightarrow> (\<forall>k \<in> F. \<exists>s. m k = Some s \<and> seq_is_finished s \<and> 1 < seq_get_len s)"

definition to_start :: "(nat \<Rightarrow> Sequence option) \<Rightarrow> nat set \<Rightarrow> bool" where
  "to_start m Y \<longleftrightarrow> (\<forall>k \<in> Y. \<exists>s. m k = Some s \<and> seq_status s = RUNNING \<and> startable s)"

definition stage ::
  "('b \<Rightarrow> bool) \<Rightarrow> ('b \<Rightarrow> nat set) \<Rightarrow> group_ref \<Rightarrow> nat \<Rightarrow> nat set \<Rightarrow> nat set \<Rightarrow> nat list \<Rightarrow> cands \<Rightarrow>
   'b output_state \<Rightarrow> bool"
where
  "stage okb tabled r c0 H F ys acc st \<longleftrightarrow>
     keyed c0 (group_dict r st) \<and> fresh_children c0 st \<and>
     dom (gmap r st) = F \<union> owns acc \<union> set ys \<and> F \<inter> owns acc = {} \<and> set ys \<inter> (F \<union> owns acc) = {} \<and> distinct ys \<and>
     were_finished (gmap r st) F \<and> to_start (gmap r st) (set ys) \<and>
     distinct (map fst acc) \<and> (\<forall>x \<in> set acc. cand_ok r st (owns acc \<union> set ys) x) \<and>
     okb (manager st) \<and> tabled (manager st) = H \<union> owns acc \<union> set ys \<and>
     H \<subseteq> {..<c0} \<and> H \<inter> (owns acc \<union> set ys) = {}"

lemma owns_simps [simp]:
  "owns [] = {}" "owns (xs @ ys) = owns xs \<union> owns ys" "owns ((Own k, p) # xs) = insert k (owns xs)"
  "owns ((Child i, p) # xs) = owns xs"
  by (auto simp: owns_def)

lemma stageD:
  assumes "stage okb tabled r c0 H F ys acc st"
  shows "keyed c0 (group_dict r st)" "fresh_children c0 st"
    "dom (gmap r st) = F \<union> owns acc \<union> set ys" "F \<inter> owns acc = {}" "set ys \<inter> (F \<union> owns acc) = {}" "distinct ys"
    "were_finished (gmap r st) F" "to_start (gmap r st) (set ys)" "distinct (map fst acc)"
    "\<forall>x \<in> set acc. cand_ok r st (owns acc \<union> set ys) x"
    "okb (manager st)" "tabled (manager st) = H \<union> owns acc \<union> set ys" "H \<subseteq> {..<c0}" "H \<inter> (owns acc \<union> set ys) = {}"
  using assms unfolding stage_def by auto

section \<open>Single operations\<close>

lemma wp_on_sched: "wp (on_sched m) Q E st =
    wp m (\<lambda>x s. Q x (st\<lparr>os_sched := s\<rparr>)) (\<lambda>e s. E e (st\<lparr>os_sched := s\<rparr>)) (os_sched st)"
  by (simp add: wp_def on_sched_def split: prod.splits sum.splits)

lemma wp_on_bm: "wp (on_bm m) Q E s =
    wp m (\<lambda>x b. Q x (s\<lparr>sc_block_manager := b\<rparr>)) (\<lambda>e b. E e (s\<lparr>sc_block_manager := b\<rparr>)) (sc_block_manager s)"
  by (simp add: wp_def on_bm_def split: prod.splits sum.splits)

lemma wp_on_group: "wp (on_group r m) Q E s =
    wp m (\<lambda>x g. Q x (s\<lparr>sc_groups := (sc_groups s)(r := g)\<rparr>)) (\<lambda>e g. E e (s\<lparr>sc_groups := (sc_groups s)(r := g)\<rparr>))
      (sc_groups s r)"
  by (simp add: wp_def on_group_def split: prod.splits sum.splits)

lemma wp_on_seq: "map_of (sg_seqs_dict g) k = Some s \<Longrightarrow> wp (on_seq k m) Q E g =
    wp m (\<lambda>x s'. Q x (g\<lparr>sg_seqs_dict := dset k s' (sg_seqs_dict g)\<rparr>))
      (\<lambda>e s'. E e (g\<lparr>sg_seqs_dict := dset k s' (sg_seqs_dict g)\<rparr>)) s"
  by (simp add: wp_def on_seq_def split: prod.splits sum.splits)

text \<open>The state with another dictionary of the group, another block manager.\<close>

definition with_dict :: "group_ref \<Rightarrow> (nat, Sequence) pydict \<Rightarrow> 'b output_state \<Rightarrow> 'b output_state" where
  "with_dict r d st = st\<lparr>os_sched := (os_sched st)\<lparr>sc_groups := (sc_groups (os_sched st))(r :=
     (sc_groups (os_sched st) r)\<lparr>sg_seqs_dict := d\<rparr>)\<rparr>\<rparr>"

definition with_manager :: "'b \<Rightarrow> 'b output_state \<Rightarrow> 'b output_state" where
  "with_manager b st = st\<lparr>os_sched := (os_sched st)\<lparr>sc_block_manager := b\<rparr>\<rparr>"

lemma with_simps [simp]:
  "group_dict r (with_dict r d st) = d" "manager (with_dict r d st) = manager st"
  "os_children (with_dict r d st) = os_children st" "os_counter (with_dict r d st) = os_counter st"
  "group_dict r (with_manager b st) = group_dict r st" "manager (with_manager b st) = b"
  "os_children (with_manager b st) = os_children st" "os_counter (with_manager b st) = os_counter st"
  "sc_config (os_sched (with_dict r d st)) = sc_config (os_sched st)"
  "sc_config (os_sched (with_manager b st)) = sc_config (os_sched st)"
  "cand_seq r (with_manager b st) = cand_seq r st"
  by (auto simp: with_dict_def with_manager_def cand_seq_def fun_eq_iff split: cand.splits)

lemma cand_seq_simps [simp]:
  "cand_seq r st (Own k) = the (gmap r st k)" "cand_seq r st (Child i) = os_children st ! i"
  by (simp_all add: cand_seq_def)

lemma wp_add:
  "seq_id s \<notin> dom (gmap r st) \<Longrightarrow>
     wp (on_sched (on_group r (sg_add s))) Q E st = Q () (with_dict r (dset (seq_id s) s (group_dict r st)) st)"
  by (simp add: wp_on_sched wp_on_group sg_add_def wp_simps with_dict_def dkeys_image domIff)

lemma wp_remove:
  "k \<in> dom (gmap r st) \<Longrightarrow>
     wp (on_sched (on_group r (sg_remove k))) Q E st = Q () (with_dict r (ddel k (group_dict r st)) st)"
  by (simp add: wp_on_sched wp_on_group sg_remove_def wp_simps with_dict_def dkeys_image domIff)

lemma wp_own:
  assumes "gmap r st k = Some s"
  shows "wp (on_cand r (Own k) m) Q E st =
    wp m (\<lambda>x s'. Q x (with_dict r (dset k s' (group_dict r st)) st))
      (\<lambda>e s'. E e (with_dict r (dset k s' (group_dict r st)) st)) s"
  by (simp add: on_cand_def wp_on_sched wp_on_group wp_on_seq [OF assms] with_dict_def)

lemma wp_child: "wp (on_cand r (Child i) m) Q E st =
    wp m (\<lambda>x s'. Q x (st\<lparr>os_children := (os_children st)[i := s']\<rparr>))
      (\<lambda>e s'. E e (st\<lparr>os_children := (os_children st)[i := s']\<rparr>)) (os_children st ! i)"
  by (simp add: on_cand_def wp_def split: prod.splits sum.splits)

context table_contract
begin

lemma wp_fork:
  assumes "okb (manager st)" "seq_id p \<in> tabled (manager st)" "seq_id c \<notin> tabled (manager st)"
  shows "wp (on_sched (sched_fork_seq bm p c))
    (\<lambda>_ t. \<exists>b. t = with_manager b st \<and> okb b \<and> tabled b = insert (seq_id c) (tabled (manager st))) (\<lambda>_ _. False) st"
  unfolding wp_on_sched sched_fork_seq_def wp_on_bm
  by (rule wp_mono [OF fork_held [OF assms]]) (auto simp: with_manager_def)

lemma wp_free:
  assumes "okb (manager st)"
  shows "wp (on_sched (sched_free_seq bm s))
    (\<lambda>_ t. \<exists>b. t = with_manager b st \<and> okb b \<and> tabled b = tabled (manager st) - {seq_id s}) (\<lambda>_ _. False) st"
  unfolding wp_on_sched sched_free_seq_def wp_on_bm
  by (rule wp_mono [OF free_held [OF assms]]) (auto simp: with_manager_def)

end

section \<open>Samples become candidates\<close>

lemma wp_next_seq_id: "wp next_seq_id Q E st = Q (os_counter st) (st\<lparr>os_counter := os_counter st + 1\<rparr>)"
  by (simp add: wp_def next_seq_id_def)

lemma append_grows:
  assumes "startable s" "map_of lps tok \<noteq> None"
  obtains s' where "seq_append_token_id tok lps s = (Inr (), s')" "grown s'" "seq_id s' = seq_id s"
    "seq_status s' = seq_status s"
proof -
  from assms obtain lp where lp: "map_of lps tok = Some lp" and ok: "seq_ok s" by (auto simp: startable_def)
  show thesis
    by (rule that [OF seq_append_token_id_run [OF ok lp]])
      (use assms(1) in \<open>auto simp: grown_def startable_def seq_ok_def seq_get_token_ids_def sd_get_token_ids_def
        sd_append_token_id_def seq_get_output_len_def sd_get_output_len_def\<close>)
qed

lemma startable_fork [simp]: "startable (seq_fork n s) = startable s" "seq_id (seq_fork n s) = n"
  by (simp_all add: startable_def seq_fork_def seq_ok_def seq_get_token_ids_def seq_get_output_len_def)

lemma cand_ok_cong:
  "cand_ok r st P x \<Longrightarrow> cand_seq r st' (fst x) = cand_seq r st (fst x) \<Longrightarrow>
   length (os_children st) \<le> length (os_children st') \<Longrightarrow> P \<subseteq> P' \<Longrightarrow> cand_ok r st' P' x"
  unfolding cand_ok_def by (auto split: cand.splits simp del: cand_seq_simps)

lemma cand_ok_with_manager [simp]: "cand_ok r (with_manager b st) = cand_ok r st"
  by (simp add: fun_eq_iff cand_ok_def split: cand.splits)

lemma fork_child_ok:
  assumes st: "stage okb tabled r c0 H F (k # ys) acc st"
    and smp: "map_of (so_logprobs smp) (so_output_token smp) \<noteq> None"
  shows "wp (fork_child r k acc smp)
    (\<lambda>acc' t. stage okb tabled r c0 H F (k # ys) acc' t \<and> snd ` set acc' \<subseteq> insert k (snd ` set acc)) (\<lambda>_ _. False) st"
proof -
  note D = stageD [OF st]
  let ?n = "length (os_children st)"
  obtain s where s: "gmap r st k = Some s" "startable s" using D(8) by (auto simp: to_start_def)
  have c: "os_counter st = c0 + ?n" using D(2) by (simp add: fresh_children_def)
  have "startable (seq_fork (c0 + ?n) s)" using s by simp
  then obtain child where child: "seq_append_token_id (so_output_token smp) (so_logprobs smp) (seq_fork (c0 + ?n) s) = (Inr (), child)"
    "grown child" "seq_id child = c0 + ?n"
    using append_grows smp by (metis startable_fork(2))
  let ?st = "st\<lparr>os_counter := c0 + ?n + 1, os_children := os_children st @ [child]\<rparr>"
  have old: "cand_seq r ?st x = cand_seq r st x \<and> (case x of Own k \<Rightarrow> True | Child i \<Rightarrow> i < ?n)" if "x \<in> fst ` set acc" for x
  proof -
    from that obtain p where "cand_ok r st (owns acc \<union> set (k # ys)) (x, p)" using D(10) by force
    then show ?thesis by (cases x) (auto simp: cand_ok_def nth_append)
  qed
  have "(Child ?n, k) \<notin> set acc" "Child ?n \<notin> fst ` set acc" using old [of "Child ?n"] by force+
  moreover have "cand_ok r ?st (owns acc \<union> set (k # ys)) x" if "x \<in> set acc" for x
    by (rule cand_ok_cong [OF bspec [OF D(10) that]]) (use old that in auto)
  ultimately have "stage okb tabled r c0 H F (k # ys) (acc @ [(Child ?n, k)]) ?st"
    using st child by (auto simp: stage_def cand_ok_def fresh_children_def nth_append less_Suc_eq)
  then show ?thesis
    by (simp add: fork_child_def wp_bnd wp_sq wp_next_seq_id wp_gets wp_lift_err wp_modify wp_ret cand_seq_def s c child)
qed

lemma wp_no_error: "wp m Q (\<lambda>_ _. False) s \<Longrightarrow> (\<And>x t. Q x t \<Longrightarrow> Q' x t) \<Longrightarrow> wp m Q' E s"
  by (erule wp_mono) simp_all

lemma fork_children_ok:
  assumes "stage okb tabled r c0 H F (k # ys) acc st"
    and "\<forall>smp \<in> set smps. map_of (so_logprobs smp) (so_output_token smp) \<noteq> None"
  shows "wp (fold_each smps acc (fork_child r k))
    (\<lambda>acc' t. stage okb tabled r c0 H F (k # ys) acc' t \<and> snd ` set acc' \<subseteq> insert k (snd ` set acc)) (\<lambda>_ _. False) st"
proof (rule wp_fold_each [where I = "\<lambda>smps acc' t. (stage okb tabled r c0 H F (k # ys) acc' t \<and>
      snd ` set acc' \<subseteq> insert k (snd ` set acc)) \<and>
      (\<forall>smp \<in> set smps. map_of (so_logprobs smp) (so_output_token smp) \<noteq> None)"], goal_cases)
  case (2 x ys' acc' t)
  then have "wp (fork_child r k acc' x)
    (\<lambda>acc'' t. stage okb tabled r c0 H F (k # ys) acc'' t \<and> snd ` set acc'' \<subseteq> insert k (snd ` set acc')) (\<lambda>_ _. False) t"
    by (intro fork_child_ok) auto
  then show ?case
    by (rule wp_no_error) (use 2 in \<open>metis (no_types, lifting) insert_absorb2 insert_mono order_trans list.set_intros(2)\<close>)
qed (use assms in auto)

text \<open>The parent of the samples is continued.\<close>

lemma keyed_dset:
  "keyed c0 d \<Longrightarrow> map_of d k = Some s \<Longrightarrow> seq_id s' = seq_id s \<Longrightarrow> keyed c0 (dset k s' d)"
  by (auto simp: keyed_def)

lemma continue_parent_ok:
  assumes st: "stage okb tabled r c0 H F (k # ys) acc st"
    and smp: "map_of (so_logprobs smp) (so_output_token smp) \<noteq> None"
  shows "wp (on_cand r (Own k) (seq_append_token_id (so_output_token smp) (so_logprobs smp)))
    (\<lambda>_. stage okb tabled r c0 H F ys (acc @ [(Own k, k)])) (\<lambda>_ _. False) st"
proof -
  note D = stageD [OF st]
  obtain s where s: "gmap r st k = Some s" "startable s" using D(8) by (auto simp: to_start_def)
  obtain s' where s': "seq_append_token_id (so_output_token smp) (so_logprobs smp) s = (Inr (), s')"
    "grown s'" "seq_id s' = seq_id s"
    using append_grows [OF s(2) smp] by blast
  let ?st = "with_dict r (dset k s' (group_dict r st)) st"
  have k: "k \<notin> F" "k \<notin> owns acc" "k \<notin> set ys" using D(5,6) by auto
  have "cand_seq r ?st x = cand_seq r st x" if "x \<in> fst ` set acc" for x
    using that k(2) by (cases x) (auto simp: owns_def image_iff)
  then have "cand_ok r ?st (insert k (owns acc \<union> set ys)) x" if "x \<in> set acc" for x
    using that by (intro cand_ok_cong [OF bspec [OF D(10) that]]) (simp_all del: cand_seq_simps)
  moreover have "(Own k, k) \<notin> set acc" "Own k \<notin> fst ` set acc" using k(2) by (force simp: owns_def)+
  moreover have "were_finished (gmap r ?st) F" "to_start (gmap r ?st) (set ys)"
    using D(7,8) k by (auto simp: were_finished_def to_start_def)
  moreover have "keyed c0 (group_dict r ?st)" using keyed_dset [OF D(1) s(1) s'(3)] by simp
  moreover have "dom (gmap r ?st) = F \<union> owns (acc @ [(Own k, k)]) \<union> set ys" using D(3) by auto
  ultimately have "stage okb tabled r c0 H F ys (acc @ [(Own k, k)]) ?st"
    using D s'(2) k by (auto simp: stage_def cand_ok_def fresh_children_def)
  then show ?thesis unfolding wp_own [OF s(1)] by (simp add: wp_def s'(1))
qed

text \<open>A parent without samples is removed and its table is freed.\<close>

context table_contract
begin

lemma drop_parent_ok:
  assumes st: "stage okb tabled r c0 H F (k # ys) acc st" and noch: "k \<notin> snd ` set acc"
  shows "wp (sq (on_cand r (Own k) (set_status FINISHED_ABORTED))
      (bnd (gets (\<lambda>st. cand_seq r st (Own k))) (\<lambda>parent.
       sq (on_sched (on_group r (sg_remove (seq_id parent))))
      (sq (on_sched (sched_free_seq bm parent))
      (ret acc))))) (\<lambda>acc' t. acc' = acc \<and> stage okb tabled r c0 H F ys acc t) (\<lambda>_ _. False) st"
proof -
  note D = stageD [OF st]
  obtain s where s: "gmap r st k = Some s" using D(8) by (auto simp: to_start_def)
  then have id: "seq_id s = k" using D(1) by (auto simp: keyed_def)
  let ?s = "s\<lparr>seq_status := FINISHED_ABORTED\<rparr>"
  let ?st = "with_dict r (dset k ?s (group_dict r st)) st"
  let ?st' = "with_dict r (ddel k (group_dict r st)) st"
  have k: "k \<notin> F" "k \<notin> owns acc" "k \<notin> set ys" "k \<notin> H" using D(5,6,14) by auto
  have w: "with_dict r (ddel k (group_dict r ?st)) ?st = ?st'" by (simp add: with_dict_def)
  have "cand_seq r ?st' x = cand_seq r st x" if "x \<in> fst ` set acc" for x
    using that k(2) by (cases x) (auto simp: owns_def image_iff)
  moreover have "snd x \<in> owns acc \<union> set ys" if "x \<in> set acc" for x
    using that noch bspec [OF D(10) that] by (cases "fst x") (force simp: cand_ok_def owns_def)+
  ultimately have "cand_ok r ?st' (owns acc \<union> set ys) x" if "x \<in> set acc" for x
    using that bspec [OF D(10) that] unfolding cand_ok_def
    by (auto split: cand.splits simp del: cand_seq_simps)
  moreover have "were_finished (gmap r ?st') F" "to_start (gmap r ?st') (set ys)"
    using D(7,8) k by (auto simp: were_finished_def to_start_def)
  moreover have "keyed c0 (group_dict r ?st')" using D(1) by (auto simp: keyed_def)
  moreover have "dom (gmap r ?st') = F \<union> owns acc \<union> set ys" using D(3) k by auto
  ultimately have *: "stage okb tabled r c0 H F ys acc (with_manager b ?st')"
    if "okb b" "tabled b = tabled (manager st) - {k}" for b
    using D that k unfolding stage_def fresh_children_def
    by auto
  have "wp (on_sched (sched_free_seq bm ?s)) (\<lambda>_. stage okb tabled r c0 H F ys acc) (\<lambda>_ _. False) ?st'"
    by (rule wp_no_error [OF wp_free]) (use * D(11) id in auto)
  moreover have "k \<in> dom (gmap r ?st)" "seq_id (cand_seq r ?st (Own k)) = k" "cand_seq r ?st (Own k) = ?s"
    using id by (simp_all add: dom_def)
  ultimately show ?thesis
    unfolding wp_sq wp_bnd wp_gets wp_own [OF s] set_status_def wp_modify wp_ret
    by (simp only: wp_remove w simp_thms)
qed

lemma process_parent_ok:
  assumes st: "stage okb tabled r c0 H F (k # ys) acc st" and noch: "snd ` set acc \<inter> set (k # ys) = {}"
    and smps: "dget d k = Inr smps" "\<forall>smp \<in> set smps. map_of (so_logprobs smp) (so_output_token smp) \<noteq> None"
  shows "wp (process_parent bm r d acc k)
    (\<lambda>acc' t. stage okb tabled r c0 H F ys acc' t \<and> snd ` set acc' \<subseteq> insert k (snd ` set acc) \<and>
       (acc' = [] \<longrightarrow> acc = [] \<and> smps = [])) (\<lambda>_ _. False) st"
proof -
  note D = stageD [OF st]
  obtain s where s: "gmap r st k = Some s" using D(8) by (auto simp: to_start_def)
  then have id: "seq_id (cand_seq r st (Own k)) = k" using D(1) by (auto simp: keyed_def)
  have k: "k \<notin> set ys" using D(6) by simp
  show ?thesis
  proof (cases "smps = []")
    case True
    have "k \<notin> snd ` set acc" using noch by simp
    then have "wp (sq (on_cand r (Own k) (set_status FINISHED_ABORTED))
      (bnd (gets (\<lambda>st. cand_seq r st (Own k))) (\<lambda>parent.
       sq (on_sched (on_group r (sg_remove (seq_id parent))))
      (sq (on_sched (sched_free_seq bm parent))
      (ret acc)))))
      (\<lambda>acc' t. stage okb tabled r c0 H F ys acc' t \<and> snd ` set acc' \<subseteq> insert k (snd ` set acc) \<and>
       (acc' = [] \<longrightarrow> acc = [] \<and> smps = [])) (\<lambda>_ _. False) st"
      by (rule wp_no_error [OF drop_parent_ok [OF st]]) (use noch True in auto)
    then show ?thesis
      unfolding process_parent_def wp_bnd wp_sq wp_gets wp_lift_err id smps(1) sum.case if_P [OF True] wp_ret .
  next
    case False
    then have l: "last smps \<in> set smps" "set (butlast smps) \<subseteq> set smps" by (auto dest: in_set_butlastD)
    have "wp (fold_each (butlast smps) acc (fork_child r k))
      (\<lambda>acc' t. stage okb tabled r c0 H F (k # ys) acc' t \<and> snd ` set acc' \<subseteq> insert k (snd ` set acc)) (\<lambda>_ _. False) st"
      by (rule fork_children_ok [OF st]) (use smps(2) l(2) in blast)
    then show ?thesis
      unfolding process_parent_def wp_bnd wp_sq wp_gets wp_lift_err id smps(1) sum.case if_not_P [OF False] wp_ret
    proof (rule wp_no_error, goal_cases)
      case (1 acc' t)
      have "wp (on_cand r (Own k) (seq_append_token_id (so_output_token (last smps)) (so_logprobs (last smps))))
        (\<lambda>_. stage okb tabled r c0 H F ys (acc' @ [(Own k, k)])) (\<lambda>_ _. False) t"
        by (rule continue_parent_ok) (use 1 smps(2) l(1) in auto)
      then show ?case by (rule wp_no_error) (use 1 noch k in auto)
    qed
  qed
qed

lemma parents_ok:
  assumes st: "stage okb tabled r c0 H F ys [] st"
    and smps: "\<forall>k \<in> set ys. \<exists>smps. dget d k = Inr smps \<and>
      (\<forall>smp \<in> set smps. map_of (so_logprobs smp) (so_output_token smp) \<noteq> None)"
  shows "wp (fold_each ys [] (process_parent bm r d))
    (\<lambda>acc t. stage okb tabled r c0 H F [] acc t \<and> snd ` set acc \<subseteq> set ys \<and>
       (acc = [] \<longrightarrow> (\<forall>k \<in> set ys. dget d k = Inr []))) (\<lambda>_ _. False) st"
proof (rule wp_fold_each [where I = "\<lambda>zs acc t. stage okb tabled r c0 H F zs acc t \<and> snd ` set acc \<inter> set zs = {} \<and>
    set zs \<subseteq> set ys \<and> snd ` set acc \<subseteq> set ys \<and> (acc = [] \<longrightarrow> (\<forall>k \<in> set ys - set zs. dget d k = Inr []))"])
  fix k zs acc t
  assume I: "stage okb tabled r c0 H F (k # zs) acc t \<and> snd ` set acc \<inter> set (k # zs) = {} \<and>
    set (k # zs) \<subseteq> set ys \<and> snd ` set acc \<subseteq> set ys \<and> (acc = [] \<longrightarrow> (\<forall>k \<in> set ys - set (k # zs). dget d k = Inr []))"
  then obtain ss where ss: "dget d k = Inr ss"
    "\<forall>smp \<in> set ss. map_of (so_logprobs smp) (so_output_token smp) \<noteq> None" using smps by auto
  have k: "k \<notin> set zs" using stageD(6) [OF conjunct1 [OF I]] by simp
  have "wp (process_parent bm r d acc k)
    (\<lambda>acc' t. stage okb tabled r c0 H F zs acc' t \<and> snd ` set acc' \<subseteq> insert k (snd ` set acc) \<and>
       (acc' = [] \<longrightarrow> acc = [] \<and> ss = [])) (\<lambda>_ _. False) t"
    using I ss by (intro process_parent_ok) auto
  then show "wp (process_parent bm r d acc k)
    (\<lambda>acc t. stage okb tabled r c0 H F zs acc t \<and> snd ` set acc \<inter> set zs = {} \<and> set zs \<subseteq> set ys \<and>
    snd ` set acc \<subseteq> set ys \<and> (acc = [] \<longrightarrow> (\<forall>k \<in> set ys - set zs. dget d k = Inr []))) (\<lambda>_ _. False) t"
  proof (rule wp_no_error, goal_cases)
    case (1 acc' u)
    then have sub: "snd ` set acc' \<subseteq> insert k (snd ` set acc)" by blast
    have d: "snd ` set acc \<inter> set (k # zs) = {}" "set (k # zs) \<subseteq> set ys" "snd ` set acc \<subseteq> set ys"
      using I by blast+
    have "snd ` set acc' \<inter> set zs = {}" using sub d(1) k by auto
    moreover have "snd ` set acc' \<subseteq> set ys" using sub d(2,3) by auto
    moreover have "\<forall>k \<in> set ys - set zs. dget d k = Inr []" if "acc' = []"
      using that 1 I ss(1) by (metis Diff_iff insert_iff list.simps(15))
    ultimately show ?case using 1 I by simp
  qed
qed (use st smps in auto)

end

section \<open>Checking the candidates\<close>

lemma grown_same: "same_content s t \<Longrightarrow> grown s \<Longrightarrow> grown t"
  using same_contentD [of s t] by (simp add: grown_def startable_def)

lemma grown_tokens: "grown s \<Longrightarrow> seq_get_token_ids s \<noteq> [] \<and> seq_output_logprobs s \<noteq> [] \<and> 1 < seq_get_len s"
  by (auto simp: grown_def startable_def seq_ok_def seq_get_token_ids_def sd_get_token_ids_def seq_get_output_len_def
      sd_get_output_len_def seq_get_len_def sd_get_len_def Suc_lessI simp flip: length_greater_0_conv)

lemma check_seq_ok:
  assumes "grown s"
  shows "wp (bnd (if b then decode_sequence_inplace f get params else ret 0)
        (\<lambda>n. maybe_stop_sequence mml n params lora)) (\<lambda>_. same_content s) (\<lambda>_ _. False) s"
proof -
  have "wp (if b then decode_sequence_inplace f get params else ret 0) (\<lambda>_. same_content s) (\<lambda>_ _. False) s"
    using decode_sequence_ok [of s f get params] grown_tokens [OF assms]
    by (cases b) (auto simp: wp_ret elim: wp_mono)
  then show ?thesis
    unfolding wp_bnd
  proof (rule wp_no_error, goal_cases)
    case (1 n t)
    then have "seq_get_token_ids t \<noteq> []" using grown_same [OF 1 assms] grown_tokens by blast
    then show ?case
      by (rule wp_no_error [OF maybe_stop_sequence_ok]) (use 1 same_content_trans in blast)
  qed
qed

lemma on_cand_keeps_stage:
  assumes st: "stage okb tabled r c0 H F [] acc st" and c: "c \<in> fst ` set acc"
    and m: "wp m (\<lambda>_. same_content (cand_seq r st c)) (\<lambda>_ _. False) (cand_seq r st c)"
  shows "wp (on_cand r c m) (\<lambda>_. stage okb tabled r c0 H F [] acc) (\<lambda>_ _. False) st"
proof -
  note D = stageD [OF st, simplified]
  obtain p where p: "(c, p) \<in> set acc" using c by auto
  then have g: "grown (cand_seq r st c)" using D(10) by (force simp: cand_ok_def simp del: cand_seq_simps)
  show ?thesis
  proof (cases c)
    case (Own k)
    then have k: "k \<in> owns acc" using p by (force simp: owns_def)
    then obtain s where s: "gmap r st k = Some s" using D(3) by (force simp: dom_def)
    have "wp m (\<lambda>_. same_content s) (\<lambda>_ _. False) s" using m s Own by simp
    then show ?thesis
      unfolding Own wp_own [OF s]
    proof (rule wp_no_error, goal_cases)
      case (1 x s')
      let ?st = "with_dict r (dset k s' (group_dict r st)) st"
      have "cand_seq r ?st d = cand_seq r st d" if "d \<noteq> Own k" for d
        using that by (cases d) auto
      moreover have "cand_ok r ?st (owns acc) y" if "fst y = Own k" "cand_ok r st (owns acc) y" for y
        using that grown_same [OF 1] g s Own by (simp add: cand_ok_def)
      ultimately have "\<forall>y \<in> set acc. cand_ok r ?st (owns acc) y"
        using D(10) cand_ok_cong [where st = st and st' = ?st]
        by (metis order_refl with_simps(3))
      moreover have "keyed c0 (group_dict r ?st)"
        using keyed_dset [OF D(1) s] 1 by (simp add: same_content_def)
      moreover have "k \<notin> F" using k D(4) by blast
      ultimately show ?case
        using D k unfolding stage_def by (auto simp: fresh_children_def were_finished_def to_start_def)
    qed
  next
    case (Child i)
    then have i: "i < length (os_children st)" using p D(10) by (force simp: cand_ok_def)
    have "wp m (\<lambda>_. same_content (os_children st ! i)) (\<lambda>_ _. False) (os_children st ! i)" using m Child by simp
    then show ?thesis
      unfolding Child wp_child
    proof (rule wp_no_error, goal_cases)
      case (1 x s')
      let ?st = "st\<lparr>os_children := (os_children st)[i := s']\<rparr>"
      have "cand_seq r ?st d = cand_seq r st d" if "d \<noteq> Child i" for d
        using that by (cases d) auto
      moreover have "cand_ok r ?st (owns acc) y" if "fst y = Child i" "cand_ok r st (owns acc) y" for y
        using that grown_same [OF 1] g i Child by (simp add: cand_ok_def)
      ultimately have "\<forall>y \<in> set acc. cand_ok r ?st (owns acc) y"
        using D(10) cand_ok_cong [where st = st and st' = ?st]
        by (metis (no_types, lifting) length_list_update order_refl output_state.select_convs(3)
            output_state.surjective output_state.update_convs(3))
      moreover have "fresh_children c0 ?st"
        using D(2) i 1 by (auto simp: fresh_children_def nth_list_update same_content_def)
      ultimately show ?case using D unfolding stage_def by auto
    qed
  qed
qed

lemma check_cands_ok:
  assumes st: "stage okb tabled r c0 H F [] acc st"
  shows "wp (for_each acc (\<lambda>(c, _). check_cand pr r params lora c)) (\<lambda>_. stage okb tabled r c0 H F [] acc) (\<lambda>_ _. False) st"
proof (rule wp_for_each [where I = "\<lambda>ys t. stage okb tabled r c0 H F [] acc t \<and> set ys \<subseteq> set acc"])
  fix x ys t
  assume I: "stage okb tabled r c0 H F [] acc t \<and> set (x # ys) \<subseteq> set acc"
  then have x: "fst x \<in> fst ` set acc" "x \<in> set acc" by auto
  then have "grown (cand_seq r t (fst x))"
    using stageD(10) [of okb tabled r c0 H F "[]" acc t] I by (force simp: cand_ok_def simp del: cand_seq_simps)
  then show "wp (case x of (c, _) \<Rightarrow> check_cand pr r params lora c)
      (\<lambda>_ t. stage okb tabled r c0 H F [] acc t \<and> set ys \<subseteq> set acc) (\<lambda>_ _. False) t"
    unfolding case_prod_beta check_cand_def
    by (intro wp_no_error [OF on_cand_keeps_stage [OF conjunct1 [OF I] x(1) check_seq_ok]]) (use I in auto)
qed (use st in auto)

end
