(* ===== verification/Single_Step_Beam.thy ===== *)
theory Single_Step_Beam
  imports Single_Step_Facts
begin

text \<open>
  The selection of the beam search: its scores exist, it keeps every candidate either among the
  selected or among the other ones, and it bounds how many finished and unfinished ones are kept.
\<close>

section \<open>Scores\<close>

definition scored :: "Sequence \<Rightarrow> bool" where
  "scored s \<longleftrightarrow> 1 < seq_get_len s"

lemma beam_score_total: "scored s \<Longrightarrow> \<exists>x. beam_score params s = Inr x"
  by (auto simp: scored_def beam_score_def get_beam_search_score_def score_quotient_def seq_get_last_token_id_def
      sd_get_last_token_id_def last_py_def seq_get_len_def sd_get_len_def split: option.split)

lemma rank_ok:
  assumes "\<forall>x \<in> set xs. scored (cand_seq r st (fst x))"
  shows "\<exists>ys. rank r params xs st = (Inr ys, st) \<and> mset ys = mset xs"
proof -
  define h where "h x = projr (beam_score params (cand_seq r st (fst x)))" for x :: "cand \<times> 'a"
  let ?ys = "map snd (sort_key (\<lambda>y. - fst y) (zip (map h xs) xs))"
  have "collect xs (\<lambda>x. lift_err (\<lambda>st. beam_score params (cand_seq r st (fst x)))) st = (Inr (map h xs), st)"
  proof (rule collect_pure)
    fix x assume "x \<in> set xs"
    then have "\<exists>y. beam_score params (cand_seq r st (fst x)) = Inr y" using assms beam_score_total by blast
    then show "lift_err (\<lambda>st. beam_score params (cand_seq r st (fst x))) st = (Inr (h x), st)"
      by (auto simp: lift_err_def h_def)
  qed
  then have "rank r params xs st = (Inr ?ys, st)" by (simp add: rank_def bnd_def ret_def)
  moreover have "mset ?ys = mset xs"
  proof -
    have "mset ?ys = image_mset snd (mset (zip (map h xs) xs))" by (simp only: mset_map mset_sort)
    then show ?thesis by (simp flip: mset_map)
  qed
  ultimately show ?thesis by blast
qed

definition beam_params :: "SamplingParams \<Rightarrow> bool" where
  "beam_params params \<longleftrightarrow> sp_use_beam_search params \<and> 1 \<le> sp_best_of params \<and>
     sp_early_stopping params \<in> {ES_bool True, ES_bool False, ES_str ''never''} \<and>
     (\<exists>m \<ge> 1. sp_max_tokens params = Some m)"

lemma early_stopping_total:
  assumes "beam_params params" "scored best" "scored worst"
  shows "\<exists>b. check_beam_search_early_stopping mml params best worst = Inr b"
proof -
  obtain x y where "beam_score params best = Inr x" "beam_score params worst = Inr y"
    using assms(2,3) beam_score_total by blast
  then show ?thesis
    using assms(1) by (auto simp: beam_params_def check_beam_search_early_stopping_def get_beam_search_score_def
        score_quotient_def split: if_splits)
qed

lemma stop_beam_search_total:
  assumes p: "beam_params params" and all: "\<forall>x \<in> set (take (nat (sp_best_of params)) all). scored (cand_seq r st (fst x))"
    and run: "\<forall>x \<in> set running. scored (cand_seq r st (fst x))"
  shows "\<exists>b. stop_beam_search r params running all st = (Inr b, st)"
proof (cases running)
  case (Cons x xs)
  let ?bw = "nat (sp_best_of params)"
  obtain best k where x: "x = (best, k)" by (cases x)
  show ?thesis
  proof (cases "length all < ?bw")
    case False
    have bw: "?bw - 1 < length all" "?bw - 1 < ?bw" using p False by (auto simp: beam_params_def)
    then have "all ! (?bw - 1) \<in> set (take ?bw all)" by (simp add: in_set_conv_nth) (metis nth_take)
    then obtain b where "check_beam_search_early_stopping (cfg_max_model_len (sc_config (os_sched st))) params
        (cand_seq r st best) (cand_seq r st (fst (all ! (?bw - 1)))) = Inr b"
      using early_stopping_total [OF p] all run Cons x by fastforce
    then show ?thesis
      using Cons x bw(1) False
      by (simp add: stop_beam_search_def Let_def nth_py_def bnd_def lift_err_def)
  qed (auto simp: stop_beam_search_def Cons x ret_def)
qed (auto simp: stop_beam_search_def ret_def)

lemma new_of_simps [simp]:
  "new_of [] = []" "new_of (xs @ ys) = new_of xs @ new_of ys"
  "new_of (map (\<lambda>k. (Own k, None)) ks) = []" "new_of (map (\<lambda>(c, p). (c, Some p)) zs) = zs"
  by (auto simp: new_of_def comp_def case_prod_beta map_idI)

lemma new_of_mset:
  assumes "mset xs = mset ys"
  shows "mset (new_of xs) = mset (new_of ys)"
proof -
  have "mset (new_of zs) = \<Sum>\<^sub># (image_mset (\<lambda>x. mset (new_of [x])) (mset zs))" for zs
    by (induction zs) (auto simp: new_of_def)
  with assms show ?thesis by metis
qed

definition olds :: "(cand \<times> nat option) list \<Rightarrow> nat set" where
  "olds xs = {k. (Own k, None) \<in> set xs}"

lemma olds_append [simp]: "olds (xs @ ys) = olds xs \<union> olds ys" "olds [] = {}"
  "olds ((Own k, None) # xs) = insert k (olds xs)" "olds ((c, Some p) # xs) = olds xs" "olds ((Child i, q) # xs) = olds xs"
  by (auto simp: olds_def)

lemma olds_new_length: "card (olds xs) + length (new_of xs) \<le> length xs"
proof (induction xs)
  case (Cons x xs)
  obtain c p where x: "x = (c, p)" by (cases x)
  have "finite (olds xs)" by (rule finite_subset [of _ "(\<lambda>x. case fst x of Own k \<Rightarrow> k | Child i \<Rightarrow> i) ` set xs"])
      (force simp: olds_def image_iff)+
  then show ?case
    using Cons x by (cases c; cases p) (auto simp: new_of_def card_insert_if)
qed simp

text \<open>An old sequence that is no longer among the best is removed.\<close>

abbreviation same_cands :: "group_ref \<Rightarrow> cands \<Rightarrow> 'b output_state \<Rightarrow> 'b output_state \<Rightarrow> bool" where
  "same_cands r acc st t \<equiv> \<forall>c \<in> fst ` set acc. cand_seq r t c = cand_seq r st c"

lemma remove_finished_ok:
  assumes st: "stage okb tabled r c0 H (insert k F) [] acc st" and k: "k \<notin> F"
  shows "wp (remove_old r (Own k, None))
    (\<lambda>_ t. stage okb tabled r c0 H F [] acc t \<and> same_cands r acc st t) (\<lambda>_ _. False) st"
proof -
  note D = stageD [OF st, simplified]
  obtain s where s: "gmap r st k = Some s" using D(7) by (auto simp: were_finished_def)
  then have id: "seq_id s = k" using D(1) by (auto simp: keyed_def)
  let ?st = "with_dict r (ddel k (group_dict r st)) st"
  have k': "k \<notin> owns acc" using D(4) by blast
  have same: "same_cands r acc st ?st"
  proof
    fix c assume "c \<in> fst ` set acc"
    then show "cand_seq r ?st c = cand_seq r st c"
      using k' by (cases c) (auto simp: owns_def image_iff)
  qed
  moreover have "\<forall>y \<in> set acc. cand_ok r ?st (owns acc) y"
  proof
    fix y assume y: "y \<in> set acc"
    show "cand_ok r ?st (owns acc) y"
      by (rule cand_ok_cong [OF bspec [OF D(10) y]]) (use same y in auto)
  qed
  moreover have "keyed c0 (group_dict r ?st)" using D(1) by (auto simp: keyed_def)
  ultimately have "stage okb tabled r c0 H F [] acc ?st \<and> same_cands r acc st ?st"
    using D k k' unfolding stage_def by (auto simp: fresh_children_def were_finished_def to_start_def)
  moreover have "k \<in> dom (gmap r st)" "cand_seq r st (Own k) = s" using s by auto
  ultimately show ?thesis
    unfolding remove_old_def prod.case option.case wp_bnd wp_gets by (simp only: id wp_remove) blast
qed

lemma remove_olds_ok:
  assumes st: "stage okb tabled r c0 H (F \<union> olds xs) [] acc st" and xs: "distinct xs" "olds xs \<inter> F = {}"
    "\<forall>x \<in> set xs. snd x = None \<longrightarrow> (\<exists>k. fst x = Own k)"
  shows "wp (for_each xs (remove_old r)) (\<lambda>_ t. stage okb tabled r c0 H F [] acc t \<and> same_cands r acc st t) (\<lambda>_ _. False) st"
proof (rule wp_for_each [where I = "\<lambda>ys t. stage okb tabled r c0 H (F \<union> olds ys) [] acc t \<and> same_cands r acc st t \<and>
    distinct ys \<and> olds ys \<inter> F = {} \<and> (\<forall>x \<in> set ys. snd x = None \<longrightarrow> (\<exists>k. fst x = Own k))"])
  fix x ys t
  assume I: "stage okb tabled r c0 H (F \<union> olds (x # ys)) [] acc t \<and> same_cands r acc st t \<and>
    distinct (x # ys) \<and> olds (x # ys) \<inter> F = {} \<and> (\<forall>x \<in> set (x # ys). snd x = None \<longrightarrow> (\<exists>k. fst x = Own k))"
  obtain c p where x: "x = (c, p)" by (cases x)
  show "wp (remove_old r x) (\<lambda>_ t. stage okb tabled r c0 H (F \<union> olds ys) [] acc t \<and> same_cands r acc st t \<and>
    distinct ys \<and> olds ys \<inter> F = {} \<and> (\<forall>x \<in> set ys. snd x = None \<longrightarrow> (\<exists>k. fst x = Own k))) (\<lambda>_ _. False) t"
  proof (cases p)
    case None
    then obtain k where k: "x = (Own k, None)" using I x by auto
    then have "k \<notin> F \<union> olds ys" using I by (auto simp: olds_def)
    then have "wp (remove_old r (Own k, None)) (\<lambda>_ u. stage okb tabled r c0 H (F \<union> olds ys) [] acc u \<and> same_cands r acc t u)
      (\<lambda>_ _. False) t"
      using I k by (intro remove_finished_ok) auto
    then show ?thesis unfolding k by (rule wp_no_error) (use I k in auto)
  qed (use I x in \<open>simp add: remove_old_def wp_ret\<close>)
qed (use st xs in auto)

lemma beam_select_ok:
  assumes st: "stage okb tabled r c0 H (set fs) [] acc st" and fs: "distinct fs" and p: "beam_params params"
  shows "wp (beam_select r params fs acc)
    (\<lambda>(sel, unsel) t. \<exists>F' \<subseteq> set fs. stage okb tabled r c0 H F' [] acc t \<and> mset (sel @ unsel) = mset acc \<and>
       card F' + length (filter (is_finished_cand r t) sel) \<le> nat (sp_best_of params) \<and>
       length (filter (\<lambda>x. \<not> is_finished_cand r t x) sel) \<le> nat (sp_best_of params) \<and>
       (acc \<noteq> [] \<longrightarrow> F' \<noteq> {} \<or> sel \<noteq> [])) (\<lambda>_ _. False) st"
proof -
  note D = stageD [OF st, simplified]
  let ?bw = "nat (sp_best_of params)"
  define nf where "nf = filter (is_finished_cand r st) acc"
  define rn where "rn = filter (\<lambda>x. \<not> is_finished_cand r st x) acc"
  define ol where "ol = map (\<lambda>k. (Own k, None :: nat option)) fs @ map (\<lambda>(c, p). (c, Some p)) nf"
  have grown: "scored (cand_seq r st (fst x))" if "x \<in> set acc" for x
    using bspec [OF D(10) that] grown_tokens by (simp add: cand_ok_def scored_def)
  have ol: "scored (cand_seq r st (fst x))" if "x \<in> set ol" for x
    using that D(7) grown by (force simp: ol_def nf_def were_finished_def scored_def)
  obtain al where al: "rank r params ol st = (Inr al, st)" "mset al = mset ol"
    using rank_ok ol by blast
  have set_al: "set al = set ol" using al(2) by (rule mset_eq_setD)
  have "distinct (map fst ol)"
    using fs D(4,9) by (force simp: ol_def nf_def distinct_map inj_on_def owns_def comp_def case_prod_beta)
  then have d: "distinct al"
    using al(2) by (metis distinct_map mset_eq_imp_distinct_iff)
  let ?sel = "take ?bw al" and ?rest = "drop ?bw al"
  have olds: "olds al = set fs" using set_al by (auto simp: olds_def ol_def)
  have parts: "olds ?sel \<union> olds ?rest = set fs" "olds ?rest \<inter> olds ?sel = {}"
    using olds d olds_append(1) [of ?sel ?rest] set_take_disj_set_drop_if_distinct [OF d, of ?bw ?bw]
    by (auto simp: olds_def)
  have new: "mset (new_of ?sel @ new_of ?rest) = mset nf"
    using new_of_mset [OF al(2)] new_of_simps(2) [of ?sel ?rest] by (simp add: ol_def)
  have "wp (for_each ?rest (remove_old r)) (\<lambda>_ t. stage okb tabled r c0 H (olds ?sel) [] acc t \<and> same_cands r acc st t)
    (\<lambda>_ _. False) st"
  proof (rule remove_olds_ok)
    show "\<forall>x \<in> set ?rest. snd x = None \<longrightarrow> (\<exists>k. fst x = Own k)"
      using set_al by (auto simp: ol_def dest!: in_set_dropD)
  qed (use st parts d in auto)
  then show ?thesis
    unfolding beam_select_def Let_def wp_bnd wp_sq wp_gets nf_def [symmetric] ol_def [symmetric] wp_def [of "rank _ _ ol"]
      al(1) prod.case sum.case
  proof (rule wp_no_error, goal_cases)
    case (1 x t)
    then have t: "stage okb tabled r c0 H (olds ?sel) [] acc t" and same: "same_cands r acc st t" by auto
    have fin: "is_finished_cand r t x = is_finished_cand r st x" if "x \<in> set acc" for x
      using same that by (simp add: is_finished_cand_def)
    have rn': "filter (\<lambda>c. \<not> is_finished_cand r t c) acc = rn" unfolding rn_def using fin by (auto intro: filter_cong)
    have tg: "scored (cand_seq r t (fst x))" if "x \<in> set acc" for x
      using grown [OF that] same that by simp
    have "\<forall>x \<in> set rn. scored (cand_seq r t (fst x))" using tg by (simp add: rn_def)
    from rank_ok [OF this, of params] obtain rs where rs: "rank r params rn t = (Inr rs, t)" "mset rs = mset rn"
      by blast
    have set_rs: "set rs = set rn" using rs(2) by (rule mset_eq_setD)
    have "scored (cand_seq r t (fst x))" if "x \<in> set ?sel" for x
    proof -
      from that have "x \<in> set ol" using set_al by (auto dest: in_set_takeD)
      show ?thesis
      proof (cases "snd x")
        case None
        then have "\<exists>k. fst x = Own k \<and> k \<in> olds ?sel" using that \<open>x \<in> set ol\<close> by (auto simp: ol_def olds_def)
        then show ?thesis using stageD(7) [OF t] by (auto simp: were_finished_def scored_def)
      next
        case (Some p)
        then have "(fst x, p) \<in> set acc" using \<open>x \<in> set ol\<close> by (auto simp: ol_def nf_def)
        then show ?thesis using tg by force
      qed
    qed
    moreover have "\<forall>x \<in> set rs. scored (cand_seq r t (fst x))" using tg set_rs by (auto simp: rn_def)
    ultimately obtain stop where stop: "stop_beam_search r params rs al t = (Inr stop, t)"
      using stop_beam_search_total [OF p, of al r t rs] by blast
    define sel where "sel = (if stop then new_of ?sel else new_of ?sel @ take ?bw rs)"
    define unsel where "unsel = (if stop then new_of ?rest @ rs else new_of ?rest @ drop ?bw rs)"
    have nfs: "set (new_of ?sel) \<subseteq> set nf" using new by (metis mset_eq_setD set_append sup.cobounded1)
    have rsm: "mset (take ?bw rs) + mset (drop ?bw rs) = mset rn"
      using rs(2) by (metis append_take_drop_id mset_append)
    have "mset (sel @ unsel) = mset nf + mset rn"
      using rs(2) unfolding new [symmetric] rsm [symmetric] by (cases stop) (simp_all add: sel_def unsel_def)
    also have "\<dots> = mset acc" unfolding nf_def rn_def by simp
    finally have ms: "mset (sel @ unsel) = mset acc" .
    have fins: "filter (is_finished_cand r t) (new_of ?sel) = new_of ?sel"
      using nfs fin by (auto simp: nf_def intro!: filter_True)
    moreover have "filter (is_finished_cand r t) (take ?bw rs) = []"
      using set_rs fin by (auto simp: rn_def filter_empty_conv dest!: in_set_takeD)
    ultimately have f1: "filter (is_finished_cand r t) sel = new_of ?sel" by (simp add: sel_def)
    have "filter (\<lambda>x. \<not> is_finished_cand r t x) (new_of ?sel) = []"
      using fins by (simp add: filter_empty_conv filter_id_conv)
    then have f2: "length (filter (\<lambda>x. \<not> is_finished_cand r t x) sel) \<le> ?bw"
      by (auto simp: sel_def intro: order_trans [OF length_filter_le])
    have bw: "0 < ?bw" using p by (simp add: beam_params_def)
    have ne: "olds ?sel \<noteq> {} \<or> sel \<noteq> []" if "acc \<noteq> []"
    proof (cases "al = []")
      case True
      then have "nf = []" using al(2) by (simp add: ol_def)
      then have "mset rn = mset acc" unfolding nf_def rn_def by (simp add: filter_empty_conv filter_True)
      then have "rs \<noteq> []" using rs(2) that by (metis mset_zero_iff)
      then obtain best k rest where "rs = (best, k) # rest" by (metis list.exhaust surj_pair)
      then have "take ?bw rs \<noteq> []" "\<not> stop"
        using stop True bw by (auto simp: stop_beam_search_def ret_def)
      then show ?thesis by (simp add: sel_def)
    next
      case False
      then obtain x xs where x: "?sel = x # xs" using bw by (cases ?sel) auto
      then have "x \<in> set ol" using set_al by (metis in_set_takeD list.set_intros(1))
      then have "olds ?sel \<noteq> {} \<or> new_of ?sel \<noteq> []" unfolding x by (auto simp: ol_def olds_def new_of_def)
      then show ?thesis by (auto simp: sel_def)
    qed
    have "card (olds ?sel) + length (new_of ?sel) \<le> ?bw"
      using olds_new_length [of ?sel] by simp
    then have Q: "\<exists>F' \<subseteq> set fs. stage okb tabled r c0 H F' [] acc t \<and> mset (sel @ unsel) = mset acc \<and>
       card F' + length (filter (is_finished_cand r t) sel) \<le> ?bw \<and>
       length (filter (\<lambda>x. \<not> is_finished_cand r t x) sel) \<le> ?bw \<and> (acc \<noteq> [] \<longrightarrow> F' \<noteq> {} \<or> sel \<noteq> [])"
      using t ms f1 f2 parts(1) ne by (intro exI [where x = "olds ?sel"]) auto
    show ?case
      unfolding rn' wp_def [of "rank _ _ rn"] rs(1) prod.case sum.case wp_def [of "stop_beam_search _ _ _ _"] stop wp_ret
      using Q unfolding sel_def unsel_def by (cases stop) (simp_all only: if_True if_False prod.case)
  qed
qed

end
