(* ===== verification/Single_Step_End.thy ===== *)
theory Single_Step_End
  imports Single_Step_Beam
begin

text \<open>
  The end of a step: selected children enter the group and get tables, finished and unselected
  sequences lose theirs; together with the parts before, the contract of a whole step of a group.
\<close>

section \<open>The new sequences and their tables\<close>

text \<open>The state by what matters here: the sequences of the group, the ids with tables, the new objects.\<close>

definition at_state ::
  "('b \<Rightarrow> bool) \<Rightarrow> ('b \<Rightarrow> nat set) \<Rightarrow> nat \<Rightarrow> group_ref \<Rightarrow> Sequence list \<Rightarrow> (nat \<Rightarrow> Sequence option) \<Rightarrow> nat set \<Rightarrow>
   'b output_state \<Rightarrow> bool"
where
  "at_state okb tabled n r cs m T t \<longleftrightarrow> okb (manager t) \<and> distinct (dkeys (group_dict r t)) \<and> gmap r t = m \<and>
     tabled (manager t) = T \<and> os_children t = cs \<and> os_counter t = n"

definition kids :: "nat \<Rightarrow> cands \<Rightarrow> nat set" where
  "kids c0 xs = {k. \<exists>i. k = c0 + i \<and> Child i \<in> fst ` set xs}"

definition with_kids :: "nat \<Rightarrow> Sequence list \<Rightarrow> cands \<Rightarrow> (nat \<Rightarrow> Sequence option) \<Rightarrow> nat \<Rightarrow> Sequence option" where
  "with_kids c0 cs xs m = (\<lambda>k. if k \<in> kids c0 xs then Some (cs ! (k - c0)) else m k)"

lemma kids_simps [simp]:
  "kids c0 [] = {}" "kids c0 (xs @ ys) = kids c0 xs \<union> kids c0 ys" "kids c0 [(Own k, p)] = {}" "kids c0 [(Child i, p)] = {c0 + i}"
  by (auto simp: kids_def)

text \<open>A loop whose invariant is indexed by the elements already handled.\<close>

lemma wp_for_each_done:
  assumes "J [] s" "\<And>x ys zs t. xs = zs @ x # ys \<Longrightarrow> J zs t \<Longrightarrow> wp (body x) (\<lambda>_. J (zs @ [x])) E t"
    and "\<And>t. J xs t \<Longrightarrow> Q () t"
  shows "wp (for_each xs body) Q E s"
proof (rule wp_for_each [where I = "\<lambda>ys t. \<exists>zs. xs = zs @ ys \<and> J zs t"])
  fix x ys t
  assume "\<exists>zs. xs = zs @ x # ys \<and> J zs t"
  then obtain zs where zs: "xs = zs @ x # ys" "J zs t" by blast
  show "wp (body x) (\<lambda>_ t. \<exists>zs. xs = zs @ ys \<and> J zs t) E t"
    by (rule wp_mono [OF assms(2) [OF zs]]) (use zs(1) in auto)
qed (use assms in auto)

context table_contract
begin

lemma add_child_ok:
  assumes t: "at_state okb tabled n r cs m T t" and id: "seq_id (cs ! i) = k" "m k = None" "k \<notin> T"
    and p: "m p = Some s" "seq_id s = p" "p \<in> T"
  shows "wp (add_child bm r (Child i, p))
    (\<lambda>_. at_state okb tabled n r cs (m(k \<mapsto> cs ! i)) (if seq_is_finished (cs ! i) then T else insert k T)) (\<lambda>_ _. False) t"
proof -
  note t' = t [unfolded at_state_def]
  let ?t = "with_dict r (dset k (cs ! i) (group_dict r t)) t"
  have ne: "p \<noteq> k" using p id by auto
  have c: "cand_seq r t (Child i) = cs ! i" using t' by simp
  have fresh: "seq_id (cs ! i) \<notin> dom (gmap r t)" using t' id by auto
  have par: "cand_seq r ?t (Own p) = s" using t' p ne by simp
  have at: "at_state okb tabled n r cs (m(k \<mapsto> cs ! i)) T' (with_manager b ?t)" if "okb b" "tabled b = T'" for b T'
    using t' that by (simp add: at_state_def)
  have fin: "at_state okb tabled n r cs (m(k \<mapsto> cs ! i)) T ?t" using t' by (simp add: at_state_def)
  show ?thesis
  proof (cases "seq_is_finished (cs ! i)")
    case True
    show ?thesis
      unfolding add_child_def prod.case cand.case wp_bnd wp_gets c wp_sq wp_add [OF fresh] if_P [OF True] wp_ret id(1)
      by (rule fin)
  next
    case False
    have "wp (on_sched (sched_fork_seq bm s (cs ! i)))
      (\<lambda>_. at_state okb tabled n r cs (m(k \<mapsto> cs ! i)) (insert k T)) (\<lambda>_ _. False) ?t"
      by (rule wp_no_error [OF wp_fork]) (use t' p id at in auto)
    then show ?thesis
      unfolding add_child_def prod.case cand.case wp_bnd wp_gets c wp_sq wp_add [OF fresh] if_not_P [OF False] id(1) par .
  qed
qed

lemma add_children_ok:
  assumes st: "stage okb tabled r c0 H F [] acc st" and xs: "set xs \<subseteq> set acc" "distinct (map fst xs)"
  shows "wp (for_each xs (add_child bm r))
    (\<lambda>_. at_state okb tabled (os_counter st) r (os_children st) (with_kids c0 (os_children st) xs (gmap r st))
      (H \<union> owns acc \<union> {k \<in> kids c0 xs. \<not> seq_is_finished (os_children st ! (k - c0))})) (\<lambda>_ _. False) st"
proof (rule wp_for_each_done [where J = "\<lambda>zs. at_state okb tabled (os_counter st) r (os_children st) (with_kids c0 (os_children st) zs (gmap r st))
      (H \<union> owns acc \<union> {k \<in> kids c0 zs. \<not> seq_is_finished (os_children st ! (k - c0))})"])
  note D = stageD [OF st, simplified]
  show "at_state okb tabled (os_counter st) r (os_children st) (with_kids c0 (os_children st) [] (gmap r st))
      (H \<union> owns acc \<union> {k \<in> kids c0 []. \<not> seq_is_finished (os_children st ! (k - c0))}) st"
    using D(1,11,12) by (simp add: at_state_def with_kids_def keyed_def)
  fix x ys zs t
  assume split: "xs = zs @ x # ys" and t: "at_state okb tabled (os_counter st) r (os_children st) (with_kids c0 (os_children st) zs (gmap r st))
      (H \<union> owns acc \<union> {k \<in> kids c0 zs. \<not> seq_is_finished (os_children st ! (k - c0))}) t"
  obtain c p where x: "x = (c, p)" by (cases x)
  let ?T = "\<lambda>zs. H \<union> owns acc \<union> {k \<in> kids c0 zs. \<not> seq_is_finished (os_children st ! (k - c0))}"
  show "wp (add_child bm r x) (\<lambda>_. at_state okb tabled (os_counter st) r (os_children st)
      (with_kids c0 (os_children st) (zs @ [x]) (gmap r st)) (?T (zs @ [x]))) (\<lambda>_ _. False) t"
  proof (cases c)
    case (Own k)
    then show ?thesis using t x by (simp add: add_child_def wp_ret with_kids_def)
  next
    case (Child i)
    have "cand_ok r st (owns acc) (Child i, p)" using D(10) xs(1) split x Child by auto
    then have i: "i < length (os_children st)" "p \<in> owns acc" by (simp_all add: cand_ok_def)
    have new: "c0 + i \<notin> kids c0 zs" using xs(2) split x Child by (auto simp: kids_def)
    have above: "k \<notin> dom (gmap r st) \<and> k \<notin> H \<union> owns acc" if "c0 \<le> k" for k
    proof -
      have "k' < c0" if "k' \<in> dom (gmap r st)" for k' using that D(1) by (auto simp: keyed_def)
      then show ?thesis using that D(3,13) by (metis UnCI UnE lessThan_iff not_less subsetD)
    qed
    have "seq_id (os_children st ! i) = c0 + i" using D(2) i(1) by (simp add: fresh_children_def)
    note id = this
    have none: "with_kids c0 (os_children st) zs (gmap r st) (c0 + i) = None" "c0 + i \<notin> ?T zs"
      using new above [of "c0 + i"] by (auto simp: with_kids_def)
    have "p \<notin> kids c0 zs" using above i(2) by (auto simp: kids_def)
    moreover obtain s where "gmap r st p = Some s" "seq_id s = p"
    proof -
      have "p \<in> dom (gmap r st)" using D(3) i(2) by blast
      then show thesis using that D(1) by (auto simp: keyed_def)
    qed
    ultimately have p: "with_kids c0 (os_children st) zs (gmap r st) p = Some s" "seq_id s = p"
      by (simp_all add: with_kids_def)
    have "p \<in> ?T zs" using i(2) by simp
    then have *: "wp (add_child bm r x) (\<lambda>_. at_state okb tabled (os_counter st) r (os_children st)
        ((with_kids c0 (os_children st) zs (gmap r st))(c0 + i \<mapsto> os_children st ! i))
        (if seq_is_finished (os_children st ! i) then ?T zs else insert (c0 + i) (?T zs))) (\<lambda>_ _. False) t"
      unfolding x Child by (rule add_child_ok [OF t id none p])
    have "(with_kids c0 (os_children st) zs (gmap r st))(c0 + i \<mapsto> os_children st ! i) =
        with_kids c0 (os_children st) (zs @ [x]) (gmap r st)"
      by (auto simp: with_kids_def x Child fun_eq_iff)
    moreover have "(if seq_is_finished (os_children st ! i) then ?T zs else insert (c0 + i) (?T zs)) = ?T (zs @ [x])"
      by (auto simp: x Child)
    ultimately show ?thesis using * by simp
  qed
qed

lemma free_finished_loop:
  assumes t: "at_state okb tabled n r cs m T t" and m: "\<forall>k \<in> owns xs. \<exists>s. m k = Some s \<and> seq_id s = k"
  shows "wp (for_each xs (free_finished bm r))
    (\<lambda>_. at_state okb tabled n r cs m (T - {k \<in> owns xs. seq_is_finished (the (m k))})) (\<lambda>_ _. False) t"
proof (rule wp_for_each_done [where J = "\<lambda>zs. at_state okb tabled n r cs m (T - {k \<in> owns zs. seq_is_finished (the (m k))})"])
  fix x ys zs u
  assume split: "xs = zs @ x # ys" and u: "at_state okb tabled n r cs m (T - {k \<in> owns zs. seq_is_finished (the (m k))}) u"
  note u' = u [unfolded at_state_def]
  obtain c p where x: "x = (c, p)" by (cases x)
  show "wp (free_finished bm r x)
    (\<lambda>_. at_state okb tabled n r cs m (T - {k \<in> owns (zs @ [x]). seq_is_finished (the (m k))})) (\<lambda>_ _. False) u"
  proof (cases c)
    case (Own k)
    then obtain s where s: "m k = Some s" "seq_id s = k" using m split x by auto
    then have c: "cand_seq r u (Own k) = s" using u' by simp
    show ?thesis
    proof (cases "seq_is_finished s")
      case True
      have set: "T - {k \<in> owns (zs @ [x]). seq_is_finished (the (m k))} =
          T - {k \<in> owns zs. seq_is_finished (the (m k))} - {k}"
        using s True unfolding x Own by auto
      have "wp (on_sched (sched_free_seq bm s))
        (\<lambda>_. at_state okb tabled n r cs m (T - {k \<in> owns (zs @ [x]). seq_is_finished (the (m k))})) (\<lambda>_ _. False) u"
        unfolding set
      proof (rule wp_no_error [OF wp_free [OF conjunct1 [OF u']]])
        fix y v
        assume "\<exists>b. v = with_manager b u \<and> okb b \<and> tabled b = tabled (manager u) - {seq_id s}"
        then show "at_state okb tabled n r cs m (T - {k \<in> owns zs. seq_is_finished (the (m k))} - {k}) v"
          using u' s(2) unfolding at_state_def by (elim exE conjE) (simp only: with_simps simp_thms)
      qed
      then show ?thesis
        unfolding x Own free_finished_def prod.case cand.case wp_bnd wp_gets c if_P [OF True] .
    next
      case False
      have "{k \<in> owns (zs @ [x]). seq_is_finished (the (m k))} = {k \<in> owns zs. seq_is_finished (the (m k))}"
        using False s x Own by auto
      then show ?thesis
        unfolding x Own free_finished_def prod.case cand.case wp_bnd wp_gets c if_not_P [OF False] wp_ret using u x Own by simp
    qed
  qed (use u x in \<open>simp add: free_finished_def wp_ret\<close>)
qed (use t in auto)

lemma drop_unselected_loop:
  assumes t: "at_state okb tabled n r cs m T t" and m: "\<forall>k \<in> owns xs. \<exists>s. m k = Some s \<and> seq_id s = k"
    and d: "distinct (map fst xs)"
  shows "wp (for_each xs (drop_unselected bm r))
    (\<lambda>_. at_state okb tabled n r cs (m |` (- owns xs)) (T - owns xs)) (\<lambda>_ _. False) t"
proof (rule wp_for_each_done [where J = "\<lambda>zs. at_state okb tabled n r cs (m |` (- owns zs)) (T - owns zs)"])
  fix x ys zs u
  assume split: "xs = zs @ x # ys" and u: "at_state okb tabled n r cs (m |` (- owns zs)) (T - owns zs) u"
  note u' = u [unfolded at_state_def]
  obtain c p where x: "x = (c, p)" by (cases x)
  show "wp (drop_unselected bm r x) (\<lambda>_. at_state okb tabled n r cs (m |` (- owns (zs @ [x]))) (T - owns (zs @ [x]))) (\<lambda>_ _. False) u"
  proof (cases c)
    case (Own k)
    then obtain s where s: "m k = Some s" "seq_id s = k" using m split x by auto
    have "k \<notin> owns zs" using d split x Own by (force simp: owns_def)
    then have g: "gmap r u k = Some s" using u' s by simp
    then have c: "cand_seq r u (Own k) = s" "k \<in> dom (gmap r u)" by auto
    have "wp (on_sched (sched_free_seq bm s)) (\<lambda>_. at_state okb tabled n r cs (m |` (- owns (zs @ [x]))) (T - owns (zs @ [x]))) (\<lambda>_ _. False)
      (with_dict r (ddel k (group_dict r u)) u)"
      by (rule wp_no_error [OF wp_free])
        (use u' s x Own in \<open>auto simp: at_state_def restrict_map_def fun_eq_iff\<close>)
    then show ?thesis
      unfolding x Own drop_unselected_def prod.case cand.case wp_bnd wp_sq wp_gets c(1) s(2) wp_remove [OF c(2)] .
  qed (use u x in \<open>simp add: drop_unselected_def wp_ret\<close>)
qed (use t in \<open>simp_all add: restrict_map_def\<close>)

end

section \<open>The result of a step\<close>

text \<open>The ids of the unfinished sequences of a dictionary.\<close>

definition live :: "(nat \<Rightarrow> Sequence option) \<Rightarrow> nat set" where
  "live m = {k. \<exists>s. m k = Some s \<and> \<not> seq_is_finished s}"

definition ended_seqs :: "(nat \<Rightarrow> Sequence option) \<Rightarrow> nat set" where
  "ended_seqs m = {k. \<exists>s. m k = Some s \<and> seq_is_finished s}"

lemma count_entries:
  assumes "distinct (dkeys d)"
  shows "length (filter P (map snd d)) = card {k. \<exists>s. map_of d k = Some s \<and> P s}"
proof -
  have "{k. \<exists>s. map_of d k = Some s \<and> P s} = set (map fst (filter (\<lambda>(k, s). P s) d))"
    using assms by (force simp: map_of_eq_Some_iff)
  moreover have "distinct (map fst (filter (\<lambda>(k, s). P s) d))"
    using assms by (simp add: distinct_map_filter)
  moreover have "length (filter P (map snd d)) = length (filter (\<lambda>(k, s). P s) d)"
    by (simp add: filter_map comp_def case_prod_beta')
  ultimately show ?thesis by (metis distinct_card length_map)
qed

definition id_of :: "nat \<Rightarrow> cand \<Rightarrow> nat" where
  "id_of c0 c = (case c of Own k \<Rightarrow> k | Child i \<Rightarrow> c0 + i)"

lemma owns_kids: "id_of c0 ` fst ` set xs = owns xs \<union> kids c0 xs"
  by (force simp: id_of_def owns_def kids_def image_iff split: cand.splits)

text \<open>The dictionary after the step: the old finished sequences and the selected candidates.\<close>

definition final_dict :: "nat \<Rightarrow> group_ref \<Rightarrow> cands \<Rightarrow> cands \<Rightarrow> 'b output_state \<Rightarrow> nat \<Rightarrow> Sequence option" where
  "final_dict c0 r sel unsel st = with_kids c0 (os_children st) sel (gmap r st) |` (- owns unsel)"

text \<open>The candidates are split into selected and other ones.\<close>

definition step_end ::
  "('b \<Rightarrow> bool) \<Rightarrow> ('b \<Rightarrow> nat set) \<Rightarrow> group_ref \<Rightarrow> nat \<Rightarrow> nat set \<Rightarrow> nat set \<Rightarrow> cands \<Rightarrow> cands \<Rightarrow> cands \<Rightarrow>
   'b output_state \<Rightarrow> bool"
where
  "step_end okb tabled r c0 H F acc sel unsel st \<longleftrightarrow>
     stage okb tabled r c0 H F [] acc st \<and> mset (sel @ unsel) = mset acc"

lemma step_endD:
  assumes "step_end okb tabled r c0 H F acc sel unsel st"
  shows "stage okb tabled r c0 H F [] acc st" "mset (sel @ unsel) = mset acc"
  using assms by (simp_all add: step_end_def)

lemma sel_split:
  assumes E: "step_end okb tabled r c0 H F acc sel unsel st"
  shows "set sel \<union> set unsel = set acc" "distinct (map fst sel)" "distinct (map fst unsel)"
  "fst ` set sel \<inter> fst ` set unsel = {}" "owns acc = owns sel \<union> owns unsel" "owns sel \<inter> owns unsel = {}"
proof -
  note st = step_endD(1) [OF E] and ms = step_endD(2) [OF E]
  have "mset (map fst (sel @ unsel)) = mset (map fst acc)" using ms by (metis mset_map)
  then have d: "distinct (map fst (sel @ unsel))"
    using stageD(9) [OF st] by (metis mset_eq_imp_distinct_iff)
  then show "distinct (map fst sel)" "distinct (map fst unsel)" "fst ` set sel \<inter> fst ` set unsel = {}" by auto
  then show "owns sel \<inter> owns unsel = {}" by (auto simp: owns_def)
  show "set sel \<union> set unsel = set acc" using mset_eq_setD [OF ms] by simp
  then show "owns acc = owns sel \<union> owns unsel" by (auto simp: owns_def)
qed

lemma below:
  assumes E: "step_end okb tabled r c0 H F acc sel unsel st" and k: "k \<in> F \<union> owns acc \<union> H"
  shows "k < c0"
proof -
  note D = stageD [OF step_endD(1) [OF E]]
  have "k \<in> dom (gmap r st) \<or> k \<in> H" using k D(3) by auto
  then show ?thesis using D(1,13) by (auto simp: keyed_def)
qed

lemma final_dict_old:
  assumes E: "step_end okb tabled r c0 H F acc sel unsel st" and k: "k \<in> F"
  shows "final_dict c0 r sel unsel st k = gmap r st k"
  using below [OF E, of k] stageD(4) [OF step_endD(1) [OF E]] sel_split(5) [OF E] k
  by (auto simp: final_dict_def with_kids_def kids_def restrict_map_def)

lemma final_dict_sel:
  assumes E: "step_end okb tabled r c0 H F acc sel unsel st" and c: "c \<in> fst ` set sel"
  shows "final_dict c0 r sel unsel st (id_of c0 c) = Some (cand_seq r st c)"
proof -
  note st = step_endD(1) [OF E] and sel_split = sel_split [OF E] and below = below [OF E]
  show ?thesis
  proof (cases c)
  case (Own k)
  then have k: "k \<in> owns sel" "k \<in> owns acc" using c sel_split(5) by (auto simp: owns_def)
  then have "k \<in> dom (gmap r st)" using stageD(3) [OF st] by blast
  moreover have "k \<notin> owns unsel" using k sel_split(6) by blast
  moreover have "k \<notin> kids c0 sel" using below [of k] k by (auto simp: kids_def)
  ultimately show ?thesis using Own by (auto simp: final_dict_def with_kids_def id_of_def)
next
  case (Child i)
  then have "c0 + i \<in> kids c0 sel" using c by (auto simp: kids_def)
  moreover have "c0 + i \<notin> owns unsel" using below [of "c0 + i"] sel_split(5) by auto
  ultimately show ?thesis using Child by (auto simp: final_dict_def with_kids_def id_of_def)
  qed
qed

lemma final_dict_dom:
  assumes E: "step_end okb tabled r c0 H F acc sel unsel st"
  shows "dom (final_dict c0 r sel unsel st) = F \<union> id_of c0 ` fst ` set sel"
proof -
  note st = step_endD(1) [OF E] and sel_split = sel_split [OF E] and below = below [OF E]
  have "dom (final_dict c0 r sel unsel st) = (F \<union> owns acc \<union> kids c0 sel) - owns unsel"
    using stageD(3) [OF st]
    by (auto simp: final_dict_def with_kids_def restrict_map_def dom_def set_eq_iff split: if_splits)
  moreover have "kids c0 sel \<inter> owns unsel = {}" using below sel_split(5) by (fastforce simp: kids_def)
  moreover have "F \<inter> owns unsel = {}" using stageD(4) [OF st] sel_split(5) by blast
  ultimately show ?thesis using sel_split(5,6) unfolding owns_kids by blast
qed

lemma final_dict_cases:
  assumes E: "step_end okb tabled r c0 H F acc sel unsel st" and "final_dict c0 r sel unsel st k = Some s"
  shows "(k \<in> F \<and> gmap r st k = Some s) \<or> (\<exists>c \<in> fst ` set sel. k = id_of c0 c \<and> s = cand_seq r st c)"
proof -
  have "k \<in> F \<union> id_of c0 ` fst ` set sel" using assms(2) final_dict_dom [OF E] by auto
  then show ?thesis
  proof
    assume "k \<in> F"
    then show ?thesis using assms(2) final_dict_old [OF E] by simp
  next
    assume "k \<in> id_of c0 ` fst ` set sel"
    then show ?thesis using assms(2) final_dict_sel [OF E] by fastforce
  qed
qed

lemma final_dict_id:
  assumes E: "step_end okb tabled r c0 H F acc sel unsel st" and s: "final_dict c0 r sel unsel st k = Some s"
  shows "seq_id s = k"
  using final_dict_cases [OF E s]
proof (elim disjE conjE bexE)
  show "seq_id s = k" if "gmap r st k = Some s" using that stageD(1) [OF step_endD(1) [OF E]] by (simp add: keyed_def)
next
  note st = step_endD(1) [OF E] and sel_split = sel_split [OF E]
  fix c
  assume c: "c \<in> fst ` set sel" "k = id_of c0 c" "s = cand_seq r st c"
  then obtain p where p: "(c, p) \<in> set acc" using sel_split(1) by force
  show "seq_id s = k"
  proof (cases c)
    case (Own j)
    then have "j \<in> owns acc" using p by (force simp: owns_def)
    then have "j \<in> dom (gmap r st)" using stageD(3) [OF st] by blast
    then show ?thesis using c Own stageD(1) [OF st] by (auto simp: keyed_def id_of_def)
  next
    case (Child i)
    then have "i < length (os_children st)" using p stageD(10) [OF st] by (force simp: cand_ok_def)
    then show ?thesis using c Child stageD(2) [OF st] by (simp add: fresh_children_def id_of_def)
  qed
qed

lemma final_live:
  assumes E: "step_end okb tabled r c0 H F acc sel unsel st"
  shows "live (final_dict c0 r sel unsel st) =
    id_of c0 ` fst ` set (filter (\<lambda>x. \<not> is_finished_cand r st x) sel)"
proof -
  note st = step_endD(1) [OF E]
  have "\<not> (k \<in> F \<and> gmap r st k = Some s \<and> \<not> seq_is_finished s)" for k s
    using stageD(7) [OF st] by (auto simp: were_finished_def)
  then show ?thesis
    using final_dict_cases [OF E] final_dict_sel [OF E]
    by (force simp: live_def is_finished_cand_def simp del: cand_seq_simps)
qed

lemma final_ended:
  assumes E: "step_end okb tabled r c0 H F acc sel unsel st"
  shows "ended_seqs (final_dict c0 r sel unsel st) \<subseteq> F \<union> id_of c0 ` fst ` set (filter (is_finished_cand r st) sel)"
  using final_dict_cases [OF E] by (force simp: ended_seqs_def is_finished_cand_def simp del: cand_seq_simps)

lemma final_tables:
  assumes E: "step_end okb tabled r c0 H F acc sel unsel st"
  shows "(H \<union> owns acc \<union> {k \<in> kids c0 sel. \<not> seq_is_finished (os_children st ! (k - c0))}) -
     {k \<in> owns sel. seq_is_finished (the (with_kids c0 (os_children st) sel (gmap r st) k))} - owns unsel =
   H \<union> live (final_dict c0 r sel unsel st)"
proof -
  note st = step_endD(1) [OF E] and sel_split = sel_split [OF E] and below = below [OF E]
  have "H \<inter> owns acc = {}" using stageD(14) [OF st] by simp
  moreover have "kids c0 sel \<inter> (owns acc \<union> H) = {}" using below by (fastforce simp: kids_def)
  moreover have "with_kids c0 (os_children st) sel (gmap r st) k = gmap r st k" if "k \<in> owns acc" for k
    using that below [of k] by (auto simp: with_kids_def kids_def)
  moreover have "live (final_dict c0 r sel unsel st) =
    {k \<in> owns sel. \<not> seq_is_finished (the (gmap r st k))} \<union> {k \<in> kids c0 sel. \<not> seq_is_finished (os_children st ! (k - c0))}"
    (is "_ = ?O \<union> ?K")
  proof (intro equalityI subsetI)
    fix k assume "k \<in> live (final_dict c0 r sel unsel st)"
    then obtain c where c: "c \<in> fst ` set sel" "k = id_of c0 c" "\<not> seq_is_finished (cand_seq r st c)"
      unfolding final_live [OF E] by (auto simp: is_finished_cand_def)
    then show "k \<in> ?O \<union> ?K" by (cases c) (auto simp: id_of_def owns_def kids_def)
  next
    fix k assume "k \<in> ?O \<union> ?K"
    then obtain c where c: "c \<in> fst ` set sel" "k = id_of c0 c" "\<not> seq_is_finished (cand_seq r st c)"
    proof
      assume "k \<in> ?O"
      then show thesis using that [of "Own k"] by (simp add: id_of_def owns_def)
    next
      assume "k \<in> ?K"
      then have "k \<in> kids c0 sel" "\<not> seq_is_finished (os_children st ! (k - c0))" by simp_all
      moreover from this(1) obtain i where "k = c0 + i" "Child i \<in> fst ` set sel" unfolding kids_def by blast
      ultimately show thesis using that [of "Child i"] by (simp add: id_of_def)
    qed
    then show "k \<in> live (final_dict c0 r sel unsel st)"
      unfolding final_live [OF E] by (force simp: is_finished_cand_def simp del: cand_seq_simps)
  qed
  ultimately show ?thesis using sel_split(5,6) by auto
qed

lemma card_candidates: "card (id_of c0 ` fst ` set xs) \<le> length xs"
  by (metis card_image_le card_length finite_imageI list.set_map list.set_map length_map order_trans finite_set)

context table_contract
begin

lemma finish_ok:
  assumes E: "step_end okb tabled r c0 H F acc sel unsel st"
  shows "wp (sq (for_each sel (add_child bm r)) (sq (for_each sel (free_finished bm r)) (for_each unsel (drop_unselected bm r))))
    (\<lambda>_. at_state okb tabled (os_counter st) r (os_children st) (final_dict c0 r sel unsel st) (H \<union> live (final_dict c0 r sel unsel st)))
    (\<lambda>_ _. False) st"
proof -
  note st = step_endD(1) [OF E] and split = sel_split [OF E]
  let ?m = "with_kids c0 (os_children st) sel (gmap r st)"
  have m: "\<exists>s. ?m k = Some s \<and> seq_id s = k" if "k \<in> owns acc" for k
  proof -
    have "k \<in> dom (gmap r st)" using that stageD(3) [OF st] by blast
    moreover have "k \<notin> kids c0 sel" using that below [OF E, of k] by (auto simp: kids_def)
    ultimately show ?thesis using stageD(1) [OF st] by (auto simp: with_kids_def keyed_def)
  qed
  let ?T = "H \<union> owns acc \<union> {k \<in> kids c0 sel. \<not> seq_is_finished (os_children st ! (k - c0))}"
  let ?T' = "?T - {k \<in> owns sel. seq_is_finished (the (?m k))}"
  have "wp (for_each sel (add_child bm r)) (\<lambda>_. at_state okb tabled (os_counter st) r (os_children st) ?m ?T) (\<lambda>_ _. False) st"
    using split(1,2) by (intro add_children_ok [OF st]) blast+
  then show ?thesis
    unfolding wp_sq
  proof (rule wp_no_error, goal_cases)
    case (1 x t)
    then have "wp (for_each sel (free_finished bm r)) (\<lambda>_. at_state okb tabled (os_counter st) r (os_children st) ?m ?T') (\<lambda>_ _. False) t"
      by (rule free_finished_loop) (use m split(5) in blast)
    then show ?case
    proof (rule wp_no_error, goal_cases)
      case (1 x t)
      then have "wp (for_each unsel (drop_unselected bm r))
        (\<lambda>_. at_state okb tabled (os_counter st) r (os_children st) (?m |` (- owns unsel)) (?T' - owns unsel)) (\<lambda>_ _. False) t"
        by (rule drop_unselected_loop) (use m split(3,5) in blast)+
      then show ?case unfolding final_dict_def [symmetric] final_tables [OF E] .
    qed
  qed
qed

end

text \<open>
  What the group and the block manager are after a step: \<open>old\<close> are the ids the group had, \<open>c0\<close> the first
  new one.
\<close>

definition settled ::
  "('b \<Rightarrow> bool) \<Rightarrow> ('b \<Rightarrow> nat set) \<Rightarrow> group_ref \<Rightarrow> nat set \<Rightarrow> nat set \<Rightarrow> nat \<Rightarrow> 'b output_state \<Rightarrow> bool"
where
  "settled okb tabled r H old c0 t \<longleftrightarrow> okb (manager t) \<and> c0 \<le> os_counter t \<and> keyed (os_counter t) (group_dict r t) \<and>
     dom (gmap r t) \<subseteq> old \<union> {c0..} \<and> (\<forall>s \<in> ran (gmap r t). 0 < seq_get_len s) \<and>
     tabled (manager t) = H \<union> live (gmap r t)"

lemma settled_final:
  assumes E: "step_end okb tabled r c0 H F acc sel unsel st"
    and t: "at_state okb tabled (os_counter st) r cs (final_dict c0 r sel unsel st) (H \<union> live (final_dict c0 r sel unsel st)) t"
    and old: "F \<union> owns acc \<subseteq> old"
  shows "settled okb tabled r H old c0 t"
proof -
  have ids: "id_of c0 c \<in> old \<union> {c0..} \<and> id_of c0 c < os_counter st" if "c \<in> fst ` set sel" for c
  proof (cases c)
    case (Own k)
    then have "k \<in> owns acc" using that sel_split(1) [OF E] by (force simp: owns_def)
    then show ?thesis
      using old below [OF E, of k] stageD(2) [OF step_endD(1) [OF E]] Own by (auto simp: id_of_def fresh_children_def)
  next
    case (Child i)
    then have "Child i \<in> fst ` set acc" using that sel_split(1) [OF E] by (metis Un_iff image_Un)
    then obtain p where "(Child i, p) \<in> set acc" by auto
    then have "cand_ok r st (owns acc) (Child i, p)" using stageD(10) [OF step_endD(1) [OF E]] by auto
    then show ?thesis
      using stageD(2) [OF step_endD(1) [OF E]] Child by (simp add: cand_ok_def id_of_def fresh_children_def)
  qed
  have F: "k \<in> old \<and> k < os_counter st" if "k \<in> F" for k
    using that old below [OF E, of k] stageD(2) [OF step_endD(1) [OF E]] by (auto simp: fresh_children_def)
  note t' = t [unfolded at_state_def]
  have "dom (gmap r t) = F \<union> id_of c0 ` fst ` set sel" using t' final_dict_dom [OF E] by simp
  then have dom: "k \<in> old \<union> {c0..} \<and> k < os_counter st" if "k \<in> dom (gmap r t)" for k
    using that F ids by auto
  then have "seq_id s = k \<and> k < os_counter st" if "gmap r t k = Some s" for k s
    using that t' final_dict_id [OF E] by (metis domI)
  then have "keyed (os_counter t) (group_dict r t)" using t' by (simp add: keyed_def)
  moreover have "c0 \<le> os_counter t" using t' stageD(2) [OF step_endD(1) [OF E]] by (simp add: fresh_children_def)
  moreover have "0 < seq_get_len s" if "final_dict c0 r sel unsel st k = Some s" for k s
    using final_dict_cases [OF E that]
  proof (elim disjE conjE bexE)
    show "0 < seq_get_len s" if "k \<in> F" "gmap r st k = Some s"
      using that stageD(7) [OF step_endD(1) [OF E]] by (auto simp: were_finished_def)
  next
    fix c assume c: "c \<in> fst ` set sel" "s = cand_seq r st c"
    then have "c \<in> fst ` set acc" using sel_split(1) [OF E] by (metis Un_iff image_Un)
    then obtain p where "(c, p) \<in> set acc" by auto
    then have "cand_ok r st (owns acc) (c, p)" using stageD(10) [OF step_endD(1) [OF E]] by auto
    then show "0 < seq_get_len s" using c(2) grown_tokens by (fastforce simp: cand_ok_def simp del: cand_seq_simps)
  qed
  then have "\<forall>s \<in> ran (gmap r t). 0 < seq_get_len s" using t' by (auto simp: ran_def)
  ultimately show ?thesis using t' dom by (auto simp: settled_def)
qed

lemma final_nonempty:
  assumes E: "step_end okb tabled r c0 H F acc sel unsel st"
    and t: "at_state okb tabled n r cs (final_dict c0 r sel unsel st) T t" and some: "F \<noteq> {} \<or> sel \<noteq> []"
  shows "group_dict r t \<noteq> []"
proof
  assume "group_dict r t = []"
  then have "final_dict c0 r sel unsel st = Map.empty" using t by (simp add: at_state_def)
  then have "dom (final_dict c0 r sel unsel st) = {}" by simp
  then show False using some final_dict_dom [OF E] by auto
qed

lemma counts_final:
  assumes E: "step_end okb tabled r c0 H F acc sel unsel st"
    and t: "at_state okb tabled n r cs (final_dict c0 r sel unsel st) T t"
  shows "num_finished_seqs (sc_groups (os_sched t) r) \<le> card F + length (filter (is_finished_cand r st) sel)"
    and "num_unfinished_seqs (sc_groups (os_sched t) r) \<le> length (filter (\<lambda>x. \<not> is_finished_cand r st x) sel)"
proof -
  note t' = t [unfolded at_state_def]
  have F: "finite F"
    using stageD(3) [OF step_endD(1) [OF E]] finite_dom_map_of [of "group_dict r st"] by (metis finite_Un)
  have "num_finished_seqs (sc_groups (os_sched t) r) = card (ended_seqs (final_dict c0 r sel unsel st))"
    using count_entries [of "group_dict r t" seq_is_finished] t'
    by (simp add: num_finished_seqs_def get_finished_seqs_def ended_seqs_def)
  also have "\<dots> \<le> card (F \<union> id_of c0 ` fst ` set (filter (is_finished_cand r st) sel))"
    by (intro card_mono final_ended [OF E] finite_UnI F finite_imageI finite_set)
  also have "\<dots> \<le> card F + card (id_of c0 ` fst ` set (filter (is_finished_cand r st) sel))"
    by (rule card_Un_le)
  finally show "num_finished_seqs (sc_groups (os_sched t) r) \<le> card F + length (filter (is_finished_cand r st) sel)"
    using card_candidates [of c0 "filter (is_finished_cand r st) sel"] by linarith
  have "num_unfinished_seqs (sc_groups (os_sched t) r) = card (live (final_dict c0 r sel unsel st))"
    using count_entries [of "group_dict r t" "\<lambda>s. \<not> seq_is_finished s"] t'
    by (simp add: num_unfinished_seqs_def get_unfinished_seqs_def live_def)
  then show "num_unfinished_seqs (sc_groups (os_sched t) r) \<le> length (filter (\<lambda>x. \<not> is_finished_cand r st x) sel)"
    unfolding final_live [OF E] using card_candidates by metis
qed

section \<open>One step of a group\<close>

lemma samples_by_parent_ok:
  assumes "so_parent_seq_id ` set samples \<subseteq> set ids"
  shows "\<exists>d. samples_by_parent ids samples = Inr d \<and>
    (\<forall>k \<in> set ids. dget d k = Inr (filter (\<lambda>smp. so_parent_seq_id smp = k) samples))"
proof -
  have start: "map_of (fold (\<lambda>i. dset i []) ids d) k = (if k \<in> set ids then Some [] else map_of d k)"
    for d :: "(nat, SequenceOutput list) pydict" and k
    by (induction ids arbitrary: d) auto
  have "\<exists>d'. foldl (\<lambda>acc smp. case acc of Inl e \<Rightarrow> Inl e | Inr d \<Rightarrow>
         (case dget d (so_parent_seq_id smp) of
            Inl e \<Rightarrow> Inl e | Inr xs \<Rightarrow> Inr (dset (so_parent_seq_id smp) (xs @ [smp]) d))) (Inr d) samples = Inr d' \<and>
      (\<forall>k \<in> set ids. map_of d' k = Some (f k @ filter (\<lambda>smp. so_parent_seq_id smp = k) samples))"
    if "\<forall>k \<in> set ids. map_of d k = Some (f k)" for d f
    using that assms
  proof (induction samples arbitrary: d f)
    case (Cons smp samples)
    let ?k = "so_parent_seq_id smp"
    have "dget d ?k = Inr (f ?k)" using Cons.prems by (simp add: dget_def)
    moreover obtain d' where "foldl (\<lambda>acc smp. case acc of Inl e \<Rightarrow> Inl e | Inr d \<Rightarrow>
         (case dget d (so_parent_seq_id smp) of
            Inl e \<Rightarrow> Inl e | Inr xs \<Rightarrow> Inr (dset (so_parent_seq_id smp) (xs @ [smp]) d)))
         (Inr (dset ?k (f ?k @ [smp]) d)) samples = Inr d'"
      "\<forall>k \<in> set ids. map_of d' k = Some ((f(?k := f ?k @ [smp])) k @ filter (\<lambda>smp. so_parent_seq_id smp = k) samples)"
      using Cons.IH [of "dset ?k (f ?k @ [smp]) d" "f(?k := f ?k @ [smp])"] Cons.prems by fastforce
    ultimately show ?case by auto
  qed simp
  from this [of "fold (\<lambda>i. dset i []) ids []" "\<lambda>_. []"] start
  obtain d where "samples_by_parent ids samples = Inr d"
    "\<forall>k \<in> set ids. map_of d k = Some (filter (\<lambda>smp. so_parent_seq_id smp = k) samples)"
    by (auto simp: samples_by_parent_def)
  then show ?thesis by (auto simp: dget_def)
qed

text \<open>
  A group before a step: its sequences are running, or finished with at least one token generated;
  every sample belongs to a running sequence and has the log-probability of its token; the parameters
  have passed their checks.
\<close>

definition runnable :: "Sequence \<Rightarrow> bool" where
  "runnable s \<longleftrightarrow> seq_status s = RUNNING \<and> startable s"

definition step_ready :: "nat \<Rightarrow> SequenceGroup \<Rightarrow> SamplingParams \<Rightarrow> CompletionSequenceGroupOutput \<Rightarrow> bool" where
  "step_ready c0 g params out \<longleftrightarrow> keyed c0 (sg_seqs_dict g) \<and>
     (\<forall>s \<in> snd ` set (sg_seqs_dict g). runnable s \<or> seq_is_finished s \<and> 1 < seq_get_len s) \<and>
     (\<forall>smp \<in> set (cso_samples out). map_of (so_logprobs smp) (so_output_token smp) \<noteq> None \<and>
        (\<exists>s. map_of (sg_seqs_dict g) (so_parent_seq_id smp) = Some s \<and> seq_status s = RUNNING)) \<and>
     sg_sampling_params g = Some params \<and>
     (sp_use_beam_search params \<longrightarrow>
        verify_args params = Inr () \<and> verify_beam_search params = Inr () \<and> sp_max_tokens params \<noteq> None)"

lemma step_readyD:
  assumes "step_ready c0 g params out"
  shows "keyed c0 (sg_seqs_dict g)" "(k, s) \<in> set (sg_seqs_dict g) \<Longrightarrow> runnable s \<or> seq_is_finished s \<and> 1 < seq_get_len s"
    "smp \<in> set (cso_samples out) \<Longrightarrow> map_of (so_logprobs smp) (so_output_token smp) \<noteq> None"
    "smp \<in> set (cso_samples out) \<Longrightarrow> \<exists>s. map_of (sg_seqs_dict g) (so_parent_seq_id smp) = Some s \<and> seq_status s = RUNNING"
    "sg_sampling_params g = Some params" "sp_use_beam_search params \<Longrightarrow> beam_params params"
proof -
  assume b: "sp_use_beam_search params"
  then have v: "verify_args params = Inr ()" "verify_beam_search params = Inr ()" "sp_max_tokens params \<noteq> None"
    using assms by (auto simp: step_ready_def)
  then obtain m where "sp_max_tokens params = Some m" "1 \<le> m" using verify_args_ok(10) [OF v(1)] by auto
  moreover have "sp_early_stopping params \<in> {ES_bool True, ES_bool False, ES_str ''never''}"
    using v(2) by (simp add: verify_beam_search_def split: if_splits)
  moreover have "1 \<le> sp_best_of params" using verify_args_ok(1,2) [OF v(1)] by linarith
  ultimately show "beam_params params" using b by (simp add: beam_params_def)
qed (use assms in \<open>force simp: step_ready_def\<close>)+

context table_contract
begin

theorem group_step:
  assumes ready: "step_ready (os_counter st) (sc_groups (os_sched st) r) params out"
    and bm: "okb (manager st)" "tabled (manager st) = H \<union> live (gmap r st)" "H \<inter> live (gmap r st) = {}"
      "H \<subseteq> {..<os_counter st}"
  shows "wp (single_process_group pr bm r out)
    (\<lambda>_ t. settled okb tabled r H (dom (gmap r st)) (os_counter st) t \<and>
       (cso_samples out \<noteq> [] \<longrightarrow> group_dict r t \<noteq> []) \<and> (sp_use_beam_search params \<longrightarrow>
       int (num_finished_seqs (sc_groups (os_sched t) r)) \<le> sp_best_of params \<and>
       int (num_unfinished_seqs (sc_groups (os_sched t) r)) \<le> sp_best_of params)) (\<lambda>_ _. False) st"
proof -
  note R = step_readyD [OF ready]
  let ?d = "group_dict r st" and ?g = "sc_groups (os_sched st) r" and ?c0 = "os_counter st"
  define ps where "ps = filter (\<lambda>(k, s). seq_status s = RUNNING) ?d"
  define fs where "fs = map fst (filter (\<lambda>(k, s). seq_is_finished s) ?d)"
  let ?ys = "map fst ps"
  have d: "distinct (dkeys ?d)" and ids: "\<And>k s. (k, s) \<in> set ?d \<Longrightarrow> seq_id s = k"
    using R(1) by (auto simp: keyed_def)
  have mem: "gmap r st k = Some s \<longleftrightarrow> (k, s) \<in> set ?d" for k s using d by simp
  have fin: "\<not> seq_is_finished s" if "seq_status s = RUNNING" for s
    using that by (simp add: seq_is_finished_def status_is_finished_def)
  have ys: "k \<in> set ?ys \<longleftrightarrow> (\<exists>s. gmap r st k = Some s \<and> seq_status s = RUNNING)" for k
    unfolding mem by (force simp: ps_def)
  have fs: "k \<in> set fs \<longleftrightarrow> (\<exists>s. gmap r st k = Some s \<and> seq_is_finished s)" for k
    unfolding mem by (force simp: fs_def)
  have dist: "distinct ?ys" "distinct fs" using d by (simp_all add: ps_def fs_def distinct_map_filter)
  have runs: "runnable s \<or> seq_is_finished s \<and> 1 < seq_get_len s" if "gmap r st k = Some s" for k s
    using R(2) that mem by blast
  have live: "live (gmap r st) = set ?ys"
    using ys runs fin unfolding live_def runnable_def by blast
  have "k \<notin> set fs" if "k \<in> set ?ys" for k using that ys fs fin by (metis option.inject)
  then have disj: "set ?ys \<inter> set fs = {}" by blast
  let ?st = "st\<lparr>os_children := []\<rparr>"
  have "stage okb tabled r ?c0 H (set fs) ?ys [] ?st"
    unfolding stage_def
  proof (intro conjI)
    show "dom (gmap r ?st) = set fs \<union> owns [] \<union> set ?ys"
    proof -
      have "k \<in> dom (gmap r st) \<longleftrightarrow> k \<in> set fs \<or> k \<in> set ?ys" for k
        unfolding dom_def mem_Collect_eq ys fs using runs [of k] unfolding runnable_def by blast
      then show ?thesis by auto
    qed
    show "were_finished (gmap r ?st) (set fs)"
    proof -
      have "\<exists>s. gmap r st k = Some s \<and> seq_is_finished s \<and> 1 < seq_get_len s" if "k \<in> set fs" for k
        using that fs runs fin unfolding runnable_def by blast
      then show ?thesis unfolding were_finished_def by simp
    qed
    show "to_start (gmap r ?st) (set ?ys)"
    proof -
      have "\<exists>s. gmap r st k = Some s \<and> seq_status s = RUNNING \<and> startable s" if "k \<in> set ?ys" for k
        using that ys runs fin unfolding runnable_def by blast
      then show ?thesis unfolding to_start_def by simp
    qed
  qed (use R(1) bm live disj dist in \<open>auto simp: fresh_children_def\<close>)
  moreover have "so_parent_seq_id ` set (cso_samples out) \<subseteq> set ?ys"
    using R(4) ys by auto
  then obtain dd where dd: "samples_by_parent ?ys (cso_samples out) = Inr dd"
    "\<forall>k \<in> set ?ys. dget dd k = Inr (filter (\<lambda>smp. so_parent_seq_id smp = k) (cso_samples out))"
    using samples_by_parent_ok by blast
  have psid: "map (\<lambda>(k, s). seq_id s) ps = ?ys" using ids by (auto simp: ps_def)
  ultimately have parents: "wp (fold_each ?ys [] (process_parent bm r dd))
    (\<lambda>acc t. stage okb tabled r ?c0 H (set fs) [] acc t \<and> snd ` set acc \<subseteq> set ?ys \<and>
       (acc = [] \<longrightarrow> (\<forall>k \<in> set ?ys. dget dd k = Inr []))) (\<lambda>_ _. False) ?st"
    by (intro parents_ok) (use dd(2) R(3) in auto)
  have old: "set fs \<union> set ?ys \<subseteq> dom (gmap r st)" using fs ys by blast
  let ?Q = "\<lambda>t. settled okb tabled r H (dom (gmap r st)) (os_counter st) t \<and>
       (cso_samples out \<noteq> [] \<longrightarrow> group_dict r t \<noteq> []) \<and> (sp_use_beam_search params \<longrightarrow>
       int (num_finished_seqs (sc_groups (os_sched t) r)) \<le> sp_best_of params \<and>
       int (num_unfinished_seqs (sc_groups (os_sched t) r)) \<le> sp_best_of params)"
  show ?thesis
    unfolding single_process_group_def Let_def wp_bnd wp_sq wp_gets wp_lift_err wp_modify ps_def [symmetric] fs_def [symmetric]
      psid dd(1) sum.case R(5) option.case
  proof (rule wp_no_error [OF parents], goal_cases)
    case (1 acc t)
    then have t: "stage okb tabled r ?c0 H (set fs) [] acc t" and par: "snd ` set acc \<subseteq> set ?ys"
      and none: "acc = [] \<longrightarrow> (\<forall>k \<in> set ?ys. dget dd k = Inr [])" by blast+
    have "k \<in> snd ` set acc" if "k \<in> owns acc" for k
      using that stageD(10) [OF t] by (force simp: owns_def cand_ok_def)
    then have own: "owns acc \<subseteq> dom (gmap r st)" using par old by blast
    have ne: "acc \<noteq> []" if smp: "cso_samples out \<noteq> []"
    proof
      assume "acc = []"
      obtain x where x: "x \<in> set (cso_samples out)" using smp by (meson last_in_set)
      then have "so_parent_seq_id x \<in> set ?ys" using \<open>so_parent_seq_id ` set (cso_samples out) \<subseteq> set ?ys\<close> by blast
      then have "filter (\<lambda>smp. so_parent_seq_id smp = so_parent_seq_id x) (cso_samples out) = []"
        using none \<open>acc = []\<close> dd(2) by fastforce
      then show False using x unfolding filter_empty_conv by blast
    qed
    show ?case
    proof (rule wp_no_error [OF check_cands_ok [OF t]], goal_cases)
      case (1 x u)
      then have u: "stage okb tabled r ?c0 H (set fs) [] acc u" .
      show ?case
      proof (cases "sp_use_beam_search params")
        case False
        have E: "step_end okb tabled r ?c0 H (set fs) acc acc [] u" using u by (simp add: step_end_def)
        have "for_each [] f = ret ()" for f :: "cand \<times> nat \<Rightarrow> ('b, unit) outp" by (simp add: for_each_def)
        then have "sq (for_each acc (add_child bm r)) (for_each acc (free_finished bm r)) =
          sq (for_each acc (add_child bm r)) (sq (for_each acc (free_finished bm r)) (for_each [] (drop_unselected bm r)))"
          by (simp add: sq_def)
        with finish_ok [OF E] have "wp (sq (for_each acc (add_child bm r)) (for_each acc (free_finished bm r)))
          (\<lambda>_. ?Q) (\<lambda>_ _. False) u"
        proof (simp only:, elim wp_no_error)
          fix x w
          assume w: "at_state okb tabled (os_counter u) r (os_children u) (final_dict ?c0 r acc [] u)
              (H \<union> live (final_dict ?c0 r acc [] u)) w"
          have "group_dict r w \<noteq> []" if "cso_samples out \<noteq> []"
            by (rule final_nonempty [OF E w]) (use ne [OF that] in simp)
          then show "?Q w" using settled_final [OF E w] own old False by blast
        qed
        then show ?thesis using False by (simp add: wp_sq)
      next
        case True
        have p: "beam_params params" by (rule R(6) [OF True])
        have "wp (bnd (beam_select r params fs acc) (\<lambda>(selected, unselected).
           sq (for_each selected (add_child bm r))
          (sq (for_each selected (free_finished bm r))
          (for_each unselected (drop_unselected bm r))))) (\<lambda>_. ?Q) (\<lambda>_ _. False) u"
          unfolding wp_bnd
        proof (rule wp_no_error [OF beam_select_ok [OF u dist(2) p]], goal_cases)
          case (1 x v)
          then obtain sel unsel F' where x: "x = (sel, unsel)" and E: "step_end okb tabled r ?c0 H F' acc sel unsel v"
            and n: "card F' + length (filter (is_finished_cand r v) sel) \<le> nat (sp_best_of params)"
              "length (filter (\<lambda>x. \<not> is_finished_cand r v x) sel) \<le> nat (sp_best_of params)"
            and sub: "F' \<subseteq> set fs" and some: "acc \<noteq> [] \<longrightarrow> F' \<noteq> {} \<or> sel \<noteq> []"
            by (auto simp: step_end_def)
          have "?Q w" if w: "at_state okb tabled (os_counter v) r (os_children v) (final_dict ?c0 r sel unsel v)
              (H \<union> live (final_dict ?c0 r sel unsel v)) w" for w
          proof -
            have "group_dict r w \<noteq> []" if "cso_samples out \<noteq> []"
              by (rule final_nonempty [OF E w]) (use ne [OF that] some in blast)
            moreover have "settled okb tabled r H (dom (gmap r st)) ?c0 w"
              by (rule settled_final [OF E w]) (use sub own old in blast)
            ultimately show ?thesis using counts_final [OF E w] n p by (auto simp: beam_params_def)
          qed
          then show ?case unfolding x prod.case by (rule wp_no_error [OF finish_ok [OF E]])
        qed
        then show ?thesis using True by (simp add: wp_bnd)
      qed
    qed
  qed
qed

end

end
