(* ===== verification/Single_Step_Claims.thy ===== *)
theory Single_Step_Claims
  imports Single_Step_End Block_V1_Run
begin

text \<open>
  The single-step processor on the two block managers of the program: the contract \<open>table_contract\<close> holds
  of the block manager V1 and of the eLLM block manager, which gives the tables and the beam width
  after a step.
\<close>

section \<open>The block managers keep the contract\<close>

lemma v1_tables_of:
  "v1_rest t = v1_rest (m\<lparr>vm_block_tables := ts\<rparr>) \<Longrightarrow> vm_block_tables t = ts"
  by (drule arg_cong [where f = vm_block_tables]) (simp add: v1_rest_def)

interpretation v1t: table_contract "v1_block_manager hash order" "\<lambda>m. v1_inv m \<and> set_iteration order"
  "\<lambda>m. dom (map_of (vm_block_tables m))"
proof
  fix m :: v1_manager and parent child :: Sequence
  assume m: "v1_inv m \<and> set_iteration order" and p: "seq_id parent \<in> dom (map_of (vm_block_tables m))"
    and c: "seq_id child \<notin> dom (map_of (vm_block_tables m))"
  have "map_of (vm_block_tables m) (seq_id child) = None" using c by auto
  from v1_fork_ok [OF conjunct1 [OF m] conjunct2 [OF m] this, of parent]
  show "wp (bm_fork (v1_block_manager hash order) parent child)
    (\<lambda>_ t. (v1_inv t \<and> set_iteration order) \<and>
       dom (map_of (vm_block_tables t)) = insert (seq_id child) (dom (map_of (vm_block_tables m)))) (\<lambda>_ _. False) m"
    by (simp add: v1_block_manager_def) (erule wp_mono, use m p in \<open>auto dest!: v1_tables_of\<close>)
next
  fix m :: v1_manager and s :: Sequence
  assume m: "v1_inv m \<and> set_iteration order"
  from v1_free_ok [OF conjunct1 [OF m] conjunct2 [OF m], of s]
  show "wp (bm_free (v1_block_manager hash order) s)
    (\<lambda>_ t. (v1_inv t \<and> set_iteration order) \<and>
       dom (map_of (vm_block_tables t)) = dom (map_of (vm_block_tables m)) - {seq_id s}) (\<lambda>_ _. False) m"
    by (simp add: v1_block_manager_def) (erule wp_mono, use m in \<open>auto dest!: v1_tables_of split: if_splits\<close>)
qed

text \<open>Between the steps no sequence of the eLLM map has temporary entries.\<close>

definition no_temporary :: "ellm_manager \<Rightarrow> bool" where
  "no_temporary b \<longleftrightarrow> (\<forall>s l g. kvE True (em_cache_map b) s l g = None)"

interpretation emt: table_contract ellm_block_manager "\<lambda>b. em_ok b \<and> no_temporary b" "\<lambda>b. dom (kvL (em_cache_map b))"
proof
  fix b :: ellm_manager and parent child :: Sequence
  assume b: "em_ok b \<and> no_temporary b" and p: "seq_id parent \<in> dom (kvL (em_cache_map b))"
    and c: "seq_id child \<notin> dom (kvL (em_cache_map b))"
  note inv = em_okD(1) [OF conjunct1 [OF b]]
  show "wp (bm_fork ellm_block_manager parent child)
    (\<lambda>_ t. (em_ok t \<and> no_temporary t) \<and>
       dom (kvL (em_cache_map t)) = insert (seq_id child) (dom (kvL (em_cache_map b)))) (\<lambda>_ _. False) b"
    unfolding ellm_block_manager_def block_manager.simps em_fork_def wp_on_map
  proof (rule wp_mono [OF fork_sequence_ok [OF inv]])
    fix x t
    assume "\<exists>n q. kvL (em_cache_map b) (seq_id child) = None \<and> kvL (em_cache_map b) (seq_id parent) = Some n \<and>
       kvP (em_cache_map b) (seq_id parent) = Some q \<and> (\<forall>l g. kvE True (em_cache_map b) (seq_id parent) l g = None) \<and>
       kv_inv t \<and> kv_frame (seq_id child) (em_cache_map b) t \<and> kvL t = (kvL (em_cache_map b))(seq_id child \<mapsto> n) \<and>
       kvP t = (kvP (em_cache_map b))(seq_id child \<mapsto> q) \<and>
       (\<forall>l g. kvE False t (seq_id child) l g = map_option (\<lambda>e. e\<lparr>ke_seq_id := seq_id child\<rparr>) (kvE False (em_cache_map b) (seq_id parent) l g)) \<and>
       (\<forall>l g. kvE True t (seq_id child) l g = None) \<and>
       kv_avail t = kv_avail (em_cache_map b) \<and> kv_rest (drop_seq (seq_id child) t) = kv_rest (em_cache_map b)"
    then have t: "kv_inv t" "kv_frame (seq_id child) (em_cache_map b) t" "\<forall>l g. kvE True t (seq_id child) l g = None"
      "\<exists>n. kvL t = (kvL (em_cache_map b))(seq_id child \<mapsto> n)" by blast+
    have "kvE True t i l g = None" for i l g
      using t(2,3) b by (cases "i = seq_id child") (auto simp: kv_frame_def no_temporary_def)
    then show "(em_ok (b\<lparr>em_cache_map := t\<rparr>) \<and> no_temporary (b\<lparr>em_cache_map := t\<rparr>)) \<and>
       dom (kvL (em_cache_map (b\<lparr>em_cache_map := t\<rparr>))) = insert (seq_id child) (dom (kvL (em_cache_map b)))"
      using t b by (auto simp: em_ok_def no_temporary_def kv_frame_def kv_consts_eq)
  qed (use b p c in \<open>auto simp: no_temporary_def\<close>)
next
  fix b :: ellm_manager and s :: Sequence
  assume b: "em_ok b \<and> no_temporary b"
  note inv = em_okD(1) [OF conjunct1 [OF b]]
  show "wp (bm_free ellm_block_manager s)
    (\<lambda>_ t. (em_ok t \<and> no_temporary t) \<and>
       dom (kvL (em_cache_map t)) = dom (kvL (em_cache_map b)) - {seq_id s}) (\<lambda>_ _. False) b"
    unfolding ellm_block_manager_def block_manager.simps em_free_def wp_on_map
    by (rule wp_mono [OF free_sequence_view [OF inv]])
      (use b in \<open>auto simp: em_ok_def no_temporary_def kv_consts_eq\<close>)
qed

section \<open>The tables after a step\<close>

text \<open>
  C38. One step of the processor on the block manager V1, whatever is sampled, forked, dropped or
  finished in it: it returns, the manager's invariant (exact reference counts) is kept, and exactly the
  sequences of the other groups and the unfinished ones of this group have block tables. So no table
  is leaked by a dropped or finished sequence and every sequence that goes on has one.
\<close>

theorem single_step_tables_exact:
  assumes "step_ready (os_counter st) (sc_groups (os_sched st) r) params out"
    and "v1_inv (sc_block_manager (os_sched st))" "set_iteration order"
    and "dom (map_of (vm_block_tables (sc_block_manager (os_sched st)))) =
      H \<union> live (map_of (sg_seqs_dict (sc_groups (os_sched st) r)))"
    and "H \<inter> live (map_of (sg_seqs_dict (sc_groups (os_sched st) r))) = {}" "H \<subseteq> {..<os_counter st}"
  shows "wp (single_process_group pr (v1_block_manager hash order) r out)
    (\<lambda>_ t. v1_inv (sc_block_manager (os_sched t)) \<and>
       dom (map_of (vm_block_tables (sc_block_manager (os_sched t)))) =
         H \<union> live (map_of (sg_seqs_dict (sc_groups (os_sched t) r)))) (\<lambda>_ _. False) st"
  by (rule wp_no_error [OF v1t.group_step [OF assms(1)]]) (use assms in \<open>auto simp: settled_def\<close>)

text \<open>
  C39. The beam search on the eLLM block manager. After a step of a request with beam search the group
  has at most \<open>best_of\<close> finished and at most \<open>best_of\<close> unfinished sequences, however many candidates
  the samples gave, and the KV map holds exactly the other sequences and the unfinished ones of the
  group. The step raises no error.
\<close>

theorem beam_width_kept:
  assumes "step_ready (os_counter st) (sc_groups (os_sched st) r) params out" "sp_use_beam_search params"
    and "em_ok (sc_block_manager (os_sched st))" "no_temporary (sc_block_manager (os_sched st))"
    and "dom (kvL (em_cache_map (sc_block_manager (os_sched st)))) =
      H \<union> live (map_of (sg_seqs_dict (sc_groups (os_sched st) r)))"
    and "H \<inter> live (map_of (sg_seqs_dict (sc_groups (os_sched st) r))) = {}" "H \<subseteq> {..<os_counter st}"
  shows "wp (single_process_group pr ellm_block_manager r out)
    (\<lambda>_ t. int (num_finished_seqs (sc_groups (os_sched t) r)) \<le> sp_best_of params \<and>
       int (num_unfinished_seqs (sc_groups (os_sched t) r)) \<le> sp_best_of params \<and>
       em_ok (sc_block_manager (os_sched t)) \<and>
       dom (kvL (em_cache_map (sc_block_manager (os_sched t)))) =
         H \<union> live (map_of (sg_seqs_dict (sc_groups (os_sched t) r)))) (\<lambda>_ _. False) st"
  by (rule wp_no_error [OF emt.group_step [OF assms(1)]]) (use assms in \<open>auto simp: settled_def\<close>)

section \<open>Examples\<close>

text \<open>One group with the given sequences, and a state of the processor around it.\<close>

definition demo_step_group :: "SamplingParams \<Rightarrow> Sequence list \<Rightarrow> SequenceGroup" where
  "demo_step_group params seqs = (demo_group ''a'' 0 seqs)\<lparr>sg_sampling_params := Some params\<rparr>"

definition demo_output :: "'b \<Rightarrow> SequenceGroup \<Rightarrow> nat \<Rightarrow> 'b output_state" where
  "demo_output b g counter =
     \<lparr>os_sched = Scheduler_init demo_config demo_cache None b False (\<lambda>_. g) (\<lambda>_. 0) (\<lambda>_. 0),
      os_counter = counter, os_children = []\<rparr>"

definition demo_beam_params :: SamplingParams where
  "demo_beam_params = (demo_params [])\<lparr>sp_best_of := 2, sp_use_beam_search := True, sp_temperature := 0\<rparr>"

lemma demo_output_simps [simp]:
  "sc_groups (os_sched (demo_output b g n)) r = g" "sc_block_manager (os_sched (demo_output b g n)) = b"
  "os_counter (demo_output b g n) = n"
  by (simp_all add: demo_output_def Scheduler_init_def)

lemma demo_step_group_dict [simp]:
  "sg_seqs_dict (demo_step_group p seqs) = sg_seqs_dict (demo_group ''a'' 0 seqs)"
  "sg_sampling_params (demo_step_group p seqs) = Some p"
  by (simp_all add: demo_step_group_def)

lemma demo_runnable: "0 < n \<Longrightarrow> runnable (demo_seq sid n RUNNING)"
  by (simp add: runnable_def startable_def demo_seq_ok)
    (simp add: demo_seq_def Sequence_init_eq SequenceData_init_def)

lemma demo_beam_verified:
  "verify_args demo_beam_params = Inr ()" "verify_beam_search demo_beam_params = Inr ()"
  by (simp_all add: demo_beam_params_def demo_params_def verify_args_def verify_beam_search_def SAMPLING_EPS_def)

text \<open>Two samples for the sequence 1 and none for the sequence 2: one is forked, one is dropped.\<close>

theorem single_step_tables_exact_witness:
  "\<exists>t. single_process_group demo_processor (v1_block_manager demo_hash remdups) 0
      \<lparr>cso_samples = [demo_sample 1 5, demo_sample 1 6], cso_prompt_logprobs = None\<rparr>
      (demo_output demo_v1_2 (demo_step_group (demo_params []) [demo_seq 1 1 RUNNING, demo_seq 2 1 RUNNING]) 3) = (Inr (), t) \<and>
    v1_inv (sc_block_manager (os_sched t)) \<and>
    dom (map_of (vm_block_tables (sc_block_manager (os_sched t)))) = live (map_of (sg_seqs_dict (sc_groups (os_sched t) 0)))"
proof -
  let ?g = "demo_step_group (demo_params []) [demo_seq 1 1 RUNNING, demo_seq 2 1 RUNNING]"
  let ?out = "\<lparr>cso_samples = [demo_sample 1 5, demo_sample 1 6], cso_prompt_logprobs = None\<rparr>"
  have d: "sg_seqs_dict ?g = [(1, demo_seq 1 1 RUNNING), (2, demo_seq 2 1 RUNNING)]"
    by (simp add: demo_group_def SequenceGroup_init_def)
  have l: "live (map_of (sg_seqs_dict ?g)) = {1, 2}"
    unfolding d by (auto simp: live_def seq_is_finished_def status_is_finished_def split: if_splits)
  have "step_ready 3 ?g (demo_params []) ?out"
    unfolding step_ready_def d using demo_runnable
    by (auto simp: keyed_def demo_sample_def demo_params_def)
  moreover have "v1_inv demo_v1_2" by (rule v1_reach_inv [OF demo_v1_reach(2) set_iteration_remdups])
  moreover have "dkeys (vm_block_tables demo_v1_2) = [1, 2]" by code_simp
  then have "dom (map_of (vm_block_tables demo_v1_2)) = {1, 2}" by (simp add: dom_map_of_conv_image_fst flip: set_map)
  ultimately have "wp (single_process_group demo_processor (v1_block_manager demo_hash remdups) 0 ?out)
    (\<lambda>_ t. v1_inv (sc_block_manager (os_sched t)) \<and>
       dom (map_of (vm_block_tables (sc_block_manager (os_sched t)))) =
         {} \<union> live (map_of (sg_seqs_dict (sc_groups (os_sched t) 0)))) (\<lambda>_ _. False) (demo_output demo_v1_2 ?g 3)"
    using l set_iteration_remdups by (intro single_step_tables_exact [where params = "demo_params []"]) simp_all
  from wp_ok_result [OF this] show ?thesis by auto
qed

lemma demo_em1_tables: "dom (kvL (em_cache_map demo_em1)) = {0}" "no_temporary demo_em1"
proof -
  note f = demo_em1_facts(2) [unfolded allocated_map_def, simplified]
  have "kvL (em_cache_map demo_em1) i = (if i = 0 then Some 5 else None)" for i
    using f demo_em_facts(6) by (cases "i = 0") auto
  then show "dom (kvL (em_cache_map demo_em1)) = {0}" by (auto simp: dom_def)
  have "kvE True (em_cache_map demo_em) i l g = None" for i l g
    by (simp add: kvE_def demo_em_def ELLMBlockSpaceManager_init_def TokenLayerKVMap_init_def ceil_div_def Let_def)
  then have "kvE True (em_cache_map demo_em1) i l g = None" for i l g
    using f by (cases "i = 0") auto
  then show "no_temporary demo_em1" by (simp add: no_temporary_def)
qed

definition demo_beam_group :: SequenceGroup where
  "demo_beam_group = demo_step_group demo_beam_params [demo_seq 0 5 RUNNING]"

lemma demo_beam_group_facts:
  "sg_seqs_dict demo_beam_group = [(0, demo_seq 0 5 RUNNING)]" "live (map_of (sg_seqs_dict demo_beam_group)) = {0}"
proof -
  show d: "sg_seqs_dict demo_beam_group = [(0, demo_seq 0 5 RUNNING)]"
    by (simp add: demo_beam_group_def demo_group_def SequenceGroup_init_def)
  show "live (map_of (sg_seqs_dict demo_beam_group)) = {0}"
    unfolding d by (auto simp: live_def seq_is_finished_def status_is_finished_def split: if_splits)
qed

lemma demo_beam_ready:
  assumes "set samples \<subseteq> range (demo_sample 0)"
  shows "step_ready 1 demo_beam_group demo_beam_params \<lparr>cso_samples = samples, cso_prompt_logprobs = None\<rparr>"
proof -
  have "sg_sampling_params demo_beam_group = Some demo_beam_params" by (simp add: demo_beam_group_def)
  moreover have "map_of (so_logprobs smp) (so_output_token smp) \<noteq> None \<and> so_parent_seq_id smp = 0"
    if "smp \<in> set samples" for smp
    using that assms by (auto simp: demo_sample_def)
  ultimately show ?thesis
    unfolding step_ready_def demo_beam_group_facts(1) using demo_runnable demo_beam_verified
    by (auto simp: keyed_def demo_beam_params_def demo_params_def)
qed

theorem beam_width_kept_witness:
  "\<exists>t. single_process_group demo_processor ellm_block_manager 0
      \<lparr>cso_samples = [demo_sample 0 5, demo_sample 0 6, demo_sample 0 2, demo_sample 0 8], cso_prompt_logprobs = None\<rparr>
      (demo_output demo_em1 demo_beam_group 1) = (Inr (), t) \<and>
    num_unfinished_seqs (sc_groups (os_sched t) 0) \<le> 2 \<and> num_finished_seqs (sc_groups (os_sched t) 0) \<le> 2"
proof -
  let ?out = "\<lparr>cso_samples = [demo_sample 0 5, demo_sample 0 6, demo_sample 0 2, demo_sample 0 8], cso_prompt_logprobs = None\<rparr>"
  have "step_ready 1 demo_beam_group demo_beam_params ?out" by (rule demo_beam_ready) auto
  moreover have p: "sp_use_beam_search demo_beam_params" "sp_best_of demo_beam_params = 2" by (simp_all add: demo_beam_params_def)
  ultimately have "wp (single_process_group demo_processor ellm_block_manager 0 ?out)
    (\<lambda>_ t. int (num_finished_seqs (sc_groups (os_sched t) 0)) \<le> sp_best_of demo_beam_params \<and>
       int (num_unfinished_seqs (sc_groups (os_sched t) 0)) \<le> sp_best_of demo_beam_params \<and>
       em_ok (sc_block_manager (os_sched t)) \<and>
       dom (kvL (em_cache_map (sc_block_manager (os_sched t)))) =
         {} \<union> live (map_of (sg_seqs_dict (sc_groups (os_sched t) 0)))) (\<lambda>_ _. False) (demo_output demo_em1 demo_beam_group 1)"
    using demo_beam_group_facts(2) demo_em1_tables demo_em1_ready(1) by (intro beam_width_kept) simp_all
  from wp_ok_result [OF this] obtain t where
    "single_process_group demo_processor ellm_block_manager 0 ?out (demo_output demo_em1 demo_beam_group 1) = (Inr (), t)"
    "int (num_finished_seqs (sc_groups (os_sched t) 0)) \<le> 2" "int (num_unfinished_seqs (sc_groups (os_sched t) 0)) \<le> 2"
    using p(2) by auto
  then show ?thesis by auto
qed

end
