(* ===== verification/Llm_Engine_Facts.thy ===== *)
theory Llm_Engine_Facts
  imports Llm_Engine Single_Step_Claims
begin

text \<open>
  The engine's processing of a step's outputs: each group is processed on its own, so the tables of
  the block manager stay exactly those of the unfinished sequences of all groups, and the requests that
  are reported as finished are those that leave the scheduler.
\<close>

section \<open>What the processing of a group touches\<close>

text \<open>Only the sequences of the group, the block manager, the counter and the new objects.\<close>

definition touched :: "group_ref \<Rightarrow> 'b output_state \<Rightarrow> 'b output_state \<Rightarrow> bool" where
  "touched r st t \<longleftrightarrow> (\<exists>d b. os_sched t = (os_sched st)\<lparr>sc_block_manager := b,
     sc_groups := (sc_groups (os_sched st))(r := (sc_groups (os_sched st) r)\<lparr>sg_seqs_dict := d\<rparr>)\<rparr>)"

definition touches :: "group_ref \<Rightarrow> ('b, 'a) outp \<Rightarrow> bool" where
  "touches r m \<longleftrightarrow> (\<forall>st. touched r st (snd (m st)))"

named_theorems touch_intros \<open>methods that touch one group\<close>

lemma touched_refl [simp]: "touched r st st"
proof -
  have "os_sched st = (os_sched st)\<lparr>sc_block_manager := sc_block_manager (os_sched st),
     sc_groups := (sc_groups (os_sched st))(r := (sc_groups (os_sched st) r)\<lparr>sg_seqs_dict := sg_seqs_dict (sc_groups (os_sched st) r)\<rparr>)\<rparr>"
    by simp
  then show ?thesis unfolding touched_def by blast
qed

lemma touched_trans: "touched r s t \<Longrightarrow> touched r t u \<Longrightarrow> touched r s u"
  unfolding touched_def by (elim exE) (simp, blast)

lemma touchesD: "touches r m \<Longrightarrow> touched r st (snd (m st))"
  by (simp add: touches_def)

lemma touches_basic [touch_intros]:
  "touches r (ret x)" "touches r (throw e)" "touches r (gets f)" "touches r (lift_err h)" "touches r (ensure b e)"
  by (auto simp: touches_def ret_def throw_def gets_def lift_err_def ensure_def)

lemma touches_bnd [touch_intros]: "touches r m \<Longrightarrow> (\<And>x. touches r (k x)) \<Longrightarrow> touches r (bnd m k)"
  unfolding touches_def bnd_def
proof (intro allI)
  fix st
  assume m: "\<forall>st. touched r st (snd (m st))" and k: "\<And>x. \<forall>st. touched r st (snd (k x st))"
  obtain y t where y: "m st = (y, t)" by (cases "m st")
  then have "touched r st t" using m by (metis snd_conv)
  then show "touched r st (snd (case m st of (Inl e, s') \<Rightarrow> (Inl e, s') | (Inr x, s') \<Rightarrow> k x s'))"
    using k y touched_trans [of r st t] by (cases y) simp_all
qed

lemma touches_sq [touch_intros]: "touches r m \<Longrightarrow> touches r k \<Longrightarrow> touches r (sq m k)"
  unfolding sq_def by (rule touches_bnd)

lemma touches_split [touch_intros]:
  "(b \<Longrightarrow> touches r m) \<Longrightarrow> (\<not> b \<Longrightarrow> touches r n) \<Longrightarrow> touches r (if b then m else n)"
  "touches r (f y) \<Longrightarrow> touches r (Let y f)"
  by simp_all

lemma touches_cases [touch_intros]:
  "touches r m \<Longrightarrow> (\<And>x. touches r (k x)) \<Longrightarrow> touches r (case z of None \<Rightarrow> m | Some x \<Rightarrow> k x)"
  "(\<And>x y. touches r (h x y)) \<Longrightarrow> touches r (case p of (x, y) \<Rightarrow> h x y)"
  "touches r m \<Longrightarrow> (\<And>x ys. touches r (g x ys)) \<Longrightarrow> touches r (case xs of [] \<Rightarrow> m | x # ys \<Rightarrow> g x ys)"
  "(\<And>i. touches r (a i)) \<Longrightarrow> (\<And>i. touches r (b i)) \<Longrightarrow> touches r (case c of Own i \<Rightarrow> a i | Child i \<Rightarrow> b i)"
  by (cases z, simp_all) (cases p, simp, cases xs, simp_all, cases c, simp_all)

lemma touches_fold_each [touch_intros]: "(\<And>a x. touches r (body a x)) \<Longrightarrow> touches r (fold_each xs a body)"
proof (induction xs arbitrary: a)
  case (Cons x xs)
  then show ?case unfolding fold_each.simps by (intro touches_bnd) auto
qed (simp add: touch_intros)

lemma touches_for_each [touch_intros]: "(\<And>x. touches r (body x)) \<Longrightarrow> touches r (for_each xs body)"
  unfolding for_each_def by (rule touches_fold_each)

lemma touches_collect [touch_intros]: "(\<And>x. touches r (f x)) \<Longrightarrow> touches r (collect xs f)"
proof (induction xs)
  case (Cons x xs)
  then show ?case unfolding collect.simps by (intro touches_bnd) (auto simp: touch_intros)
qed (simp add: touch_intros)

lemma touches_children [touch_intros]:
  "touches r (modify (\<lambda>st. st\<lparr>os_children := f st\<rparr>))" "touches r next_seq_id"
  by (auto simp: touches_def touched_def modify_def next_seq_id_def intro!: touched_refl [unfolded touched_def])

text \<open>A method of the group that only changes its sequences.\<close>

definition only_seqs :: "(SequenceGroup, 'a) pym \<Rightarrow> bool" where
  "only_seqs m \<longleftrightarrow> (\<forall>g. \<exists>d. snd (m g) = g\<lparr>sg_seqs_dict := d\<rparr>)"

lemma touches_on_group [touch_intros]:
  fixes m :: "(SequenceGroup, 'a) pym"
  assumes "only_seqs m"
  shows "touches r (on_sched (on_group r m) :: ('b, 'a) outp)"
  unfolding touches_def touched_def
proof
  fix st :: "'b output_state"
  obtain x g where m: "m (sc_groups (os_sched st) r) = (x, g)" by (cases "m (sc_groups (os_sched st) r)")
  then obtain d where "g = (sc_groups (os_sched st) r)\<lparr>sg_seqs_dict := d\<rparr>" using assms unfolding only_seqs_def by (metis snd_conv)
  then show "\<exists>d b. os_sched (snd (on_sched (on_group r m) st)) = (os_sched st)\<lparr>sc_block_manager := b,
     sc_groups := (sc_groups (os_sched st))(r := (sc_groups (os_sched st) r)\<lparr>sg_seqs_dict := d\<rparr>)\<rparr>"
    using m by (intro exI [where x = d] exI [where x = "sc_block_manager (os_sched st)"]) (simp add: on_sched_def on_group_def)
qed

lemma only_seqs_methods: "only_seqs (sg_add s)" "only_seqs (sg_remove k)" "only_seqs (on_seq k m)"
proof -
  have same: "\<exists>d. g = g\<lparr>sg_seqs_dict := d\<rparr>" for g :: SequenceGroup
    by (rule exI [where x = "sg_seqs_dict g"]) simp
  show "only_seqs (sg_add s)" "only_seqs (sg_remove k)" "only_seqs (on_seq k m)"
    using same by (auto simp: only_seqs_def sg_add_def sg_remove_def on_seq_def run_simps bnd_def gets_def sq_def ensure_def
        ret_def throw_def modify_def split: option.split prod.split)
qed

lemma touches_on_bm:
  fixes m :: "('b, 'a) pym"
  shows "touches r (on_sched (on_bm m) :: ('b, 'a) outp)"
  unfolding touches_def touched_def
proof
  fix st :: "'b output_state"
  show "\<exists>d b. os_sched (snd (on_sched (on_bm m) st)) = (os_sched st)\<lparr>sc_block_manager := b,
     sc_groups := (sc_groups (os_sched st))(r := (sc_groups (os_sched st) r)\<lparr>sg_seqs_dict := d\<rparr>)\<rparr>"
    by (intro exI [where x = "sg_seqs_dict (sc_groups (os_sched st) r)"] exI [where x = "snd (m (sc_block_manager (os_sched st)))"])
      (simp add: on_sched_def on_bm_def split: prod.split)
qed

lemma touches_on_cand [touch_intros]:
  fixes m :: "(Sequence, 'a) pym"
  shows "touches r (on_cand r c m :: ('b, 'a) outp)"
proof (cases c)
  case (Own k)
  then show ?thesis by (simp add: on_cand_def touches_on_group only_seqs_methods)
next
  case (Child i)
  have e: "on_cand r (Child i) m st = (fst (m (os_children st ! i)),
      st\<lparr>os_children := (os_children st)[i := snd (m (os_children st ! i))]\<rparr>)" for st :: "'b output_state"
    by (simp add: on_cand_def case_prod_beta)
  have same: "touched r st (st\<lparr>os_children := cs\<rparr>)" for st :: "'b output_state" and cs
  proof -
    have "os_sched (st\<lparr>os_children := cs\<rparr>) = os_sched st" by simp
    then show ?thesis using touched_refl [of r st] unfolding touched_def by metis
  qed
  show ?thesis unfolding Child touches_def e snd_conv by (intro allI same)
qed

lemmas touch_calls [touch_intros] =
  touches_on_group [OF only_seqs_methods(1)] touches_on_group [OF only_seqs_methods(2)]

lemma touches_tables [touch_intros]:
  "touches r (on_sched (sched_free_seq bm s))" "touches r (on_sched (sched_fork_seq bm p c))"
  by (simp_all add: sched_free_seq_def sched_fork_seq_def touches_on_bm)

lemma touches_rank [touch_intros]: "touches r (rank r params xs)"
  unfolding rank_def by (intro touch_intros)

lemma single_process_group_touches: "touches r (single_process_group pr bm r out)"
proof -
  have "touches r (stop_beam_search r params xs ys)" for params xs ys
    unfolding stop_beam_search_def Let_def by (intro touch_intros)
  moreover have "touches r (remove_old r x)" for x
    unfolding remove_old_def by (cases x) (auto intro!: touch_intros)
  ultimately have "touches r (beam_select r params fs xs)" for params fs xs
    unfolding beam_select_def Let_def by (intro touch_intros)
  moreover have "touches r (process_parent bm r d acc k)" for d acc k
    unfolding process_parent_def fork_child_def by (intro touch_intros)
  moreover have "touches r (add_child bm r x)" "touches r (free_finished bm r x)" "touches r (drop_unselected bm r x)" for x
    unfolding add_child_def free_finished_def drop_unselected_def by (intro touch_intros)+
  moreover have "touches r (check_cand pr r params lora c)" for params lora c
    unfolding check_cand_def by (intro touch_intros)
  ultimately show ?thesis
    unfolding single_process_group_def Let_def by (intro touch_intros)
qed

section \<open>The computed tokens\<close>

definition advance :: "int \<Rightarrow> Sequence \<Rightarrow> Sequence" where
  "advance n s = (if seq_is_finished s then s
     else let d = (seq_data s)\<lparr>sd_num_computed_tokens := sd_num_computed_tokens (seq_data s) + n\<rparr> in
       s\<lparr>seq_data := (if sd_get_num_uncomputed_tokens d = 0 then d\<lparr>sd_stage := DECODE\<rparr> else d)\<rparr>)"

lemma advance_simps [simp]:
  "seq_id (advance n s) = seq_id s" "seq_status (advance n s) = seq_status s" "seq_get_len (advance n s) = seq_get_len s"
  "seq_is_finished (advance n s) = seq_is_finished s" "runnable (advance n s) = runnable s"
  by (auto simp: advance_def Let_def seq_get_len_def sd_get_len_def seq_is_finished_def runnable_def startable_def seq_ok_def
      seq_get_token_ids_def sd_get_token_ids_def seq_get_output_len_def sd_get_output_len_def)

definition fits :: "int \<Rightarrow> Sequence \<Rightarrow> bool" where
  "fits n s \<longleftrightarrow> seq_is_finished s \<or> sd_num_computed_tokens (seq_data s) + n \<le> int (seq_get_len s)"

lemma on_data_update:
  "fits n s \<Longrightarrow> wp (bnd (gets seq_is_finished) (\<lambda>fin. if fin then ret () else on_data (sd_update_num_computed_tokens n)))
    (\<lambda>_ t. t = advance n s) (\<lambda>_ _. False) s"
  by (cases "seq_is_finished s")
    (simp_all add: wp_def bnd_def gets_def ret_def on_data_def sd_update_num_computed_tokens_def sq_def modify_def ensure_def
      advance_def fits_def Let_def seq_get_len_def sd_get_len_def)

lemma update_num_computed_tokens_ok:
  assumes d: "distinct (dkeys (sg_seqs_dict g))" and fit: "\<forall>s \<in> ran (map_of (sg_seqs_dict g)). fits n s"
  shows "wp (update_num_computed_tokens n)
    (\<lambda>_ g'. \<exists>d'. g' = g\<lparr>sg_seqs_dict := d'\<rparr> \<and> dkeys d' = dkeys (sg_seqs_dict g) \<and>
       map_of d' = map_option (advance n) \<circ> map_of (sg_seqs_dict g)) (\<lambda>_ _. False) g"
  unfolding update_num_computed_tokens_def wp_bnd [of "gets sg_seqs_dict"] wp_gets
proof (rule wp_for_each_done [where J = "\<lambda>zs g'. \<exists>d'. g' = g\<lparr>sg_seqs_dict := d'\<rparr> \<and> dkeys d' = dkeys (sg_seqs_dict g) \<and>
    map_of d' = (\<lambda>i. map_option (\<lambda>s. if i \<in> set zs then advance n s else s) (map_of (sg_seqs_dict g) i))"])
  show "\<exists>d'. g = g\<lparr>sg_seqs_dict := d'\<rparr> \<and> dkeys d' = dkeys (sg_seqs_dict g) \<and>
    map_of d' = (\<lambda>i. map_option (\<lambda>s. if i \<in> set [] then advance n s else s) (map_of (sg_seqs_dict g) i))"
    by (rule exI [where x = "sg_seqs_dict g"]) (simp add: option.map_ident)
next
  fix k ys zs g'
  assume split: "dkeys (sg_seqs_dict g) = zs @ k # ys"
    and "\<exists>d'. g' = g\<lparr>sg_seqs_dict := d'\<rparr> \<and> dkeys d' = dkeys (sg_seqs_dict g) \<and>
    map_of d' = (\<lambda>i. map_option (\<lambda>s. if i \<in> set zs then advance n s else s) (map_of (sg_seqs_dict g) i))"
  then obtain d' where d': "g' = g\<lparr>sg_seqs_dict := d'\<rparr>" "dkeys d' = dkeys (sg_seqs_dict g)"
    "map_of d' = (\<lambda>i. map_option (\<lambda>s. if i \<in> set zs then advance n s else s) (map_of (sg_seqs_dict g) i))" by blast
  have k: "k \<notin> set zs" using d split by simp
  have "k \<in> set (dkeys (sg_seqs_dict g))" using split by simp
  then obtain s where s: "map_of (sg_seqs_dict g) k = Some s" by (auto simp: dkeys_image)
  then have f: "fits n s" using fit by (auto simp: ran_def)
  have s': "map_of (sg_seqs_dict g') k = Some s" using d' s k by simp
  show "wp (on_seq k (bnd (gets seq_is_finished) (\<lambda>fin. if fin then ret () else on_data (sd_update_num_computed_tokens n))))
    (\<lambda>_ g'. \<exists>d'. g' = g\<lparr>sg_seqs_dict := d'\<rparr> \<and> dkeys d' = dkeys (sg_seqs_dict g) \<and>
    map_of d' = (\<lambda>i. map_option (\<lambda>s. if i \<in> set (zs @ [k]) then advance n s else s) (map_of (sg_seqs_dict g) i)))
    (\<lambda>_ _. False) g'"
    unfolding wp_on_seq [OF s']
  proof (rule wp_no_error [OF on_data_update [OF f]])
    fix x t assume t: "t = advance n s"
    have "dkeys (dset k t d') = dkeys (sg_seqs_dict g)" using d'(2) s by (simp add: update_keys dkeys_image)
    moreover have "map_of (dset k t d') = (\<lambda>i. map_option (\<lambda>s. if i \<in> set (zs @ [k]) then advance n s else s) (map_of (sg_seqs_dict g) i))"
      using d'(3) s t by (auto simp: fun_eq_iff)
    ultimately show "\<exists>d'. g'\<lparr>sg_seqs_dict := dset k t (sg_seqs_dict g')\<rparr> = g\<lparr>sg_seqs_dict := d'\<rparr> \<and>
      dkeys d' = dkeys (sg_seqs_dict g) \<and>
      map_of d' = (\<lambda>i. map_option (\<lambda>s. if i \<in> set (zs @ [k]) then advance n s else s) (map_of (sg_seqs_dict g) i))"
      using d'(1) by (intro exI [where x = "dset k t d'"]) simp
  qed
next
  fix g'
  assume "\<exists>d'. g' = g\<lparr>sg_seqs_dict := d'\<rparr> \<and> dkeys d' = dkeys (sg_seqs_dict g) \<and>
    map_of d' = (\<lambda>i. map_option (\<lambda>s. if i \<in> set (dkeys (sg_seqs_dict g)) then advance n s else s) (map_of (sg_seqs_dict g) i))"
  then obtain d' where d': "g' = g\<lparr>sg_seqs_dict := d'\<rparr>" "dkeys d' = dkeys (sg_seqs_dict g)"
    "map_of d' = (\<lambda>i. map_option (\<lambda>s. if i \<in> set (dkeys (sg_seqs_dict g)) then advance n s else s) (map_of (sg_seqs_dict g) i))" by blast
  have "map_of d' = map_option (advance n) \<circ> map_of (sg_seqs_dict g)"
  proof
    fix i
    show "map_of d' i = (map_option (advance n) \<circ> map_of (sg_seqs_dict g)) i"
      unfolding d'(3) by (cases "map_of (sg_seqs_dict g) i") (simp_all add: dkeys_image)
  qed
  then show "\<exists>d'. g' = g\<lparr>sg_seqs_dict := d'\<rparr> \<and> dkeys d' = dkeys (sg_seqs_dict g) \<and>
       map_of d' = map_option (advance n) \<circ> map_of (sg_seqs_dict g)" using d'(1,2) by blast
qed

section \<open>A batch\<close>

lemma wp_with_result: "wp m Q (\<lambda>_ _. False) s \<Longrightarrow> wp m (\<lambda>x t. Q x t \<and> m s = (Inr x, t)) (\<lambda>_ _. False) s"
  by (auto simp: wp_def split: prod.splits sum.splits)

text \<open>
  An item of the batch: the scheduled group with the samples of its step. It is ready if its group is,
  its scheduled tokens fit, and there are samples. Prompt log-probabilities are not requested.
\<close>

type_synonym item = "ScheduledSequenceGroup \<times> CompletionSequenceGroupOutput \<times> bool"

abbreviation item_ref :: "item \<Rightarrow> group_ref" where
  "item_ref x \<equiv> ssg_seq_group (fst x)"

definition item_ready :: "nat \<Rightarrow> SequenceGroup \<Rightarrow> item \<Rightarrow> bool" where
  "item_ready c0 g x \<longleftrightarrow> (\<exists>params. step_ready c0 g params (fst (snd x))) \<and>
     (\<forall>s \<in> ran (map_of (sg_seqs_dict g)). fits (ssg_token_chunk_size (fst x)) s) \<and>
     cso_samples (fst (snd x)) \<noteq> [] \<and> cso_prompt_logprobs (fst (snd x)) = None"

text \<open>The processing of an item as the engine's loop does it, without the packing of the outputs.\<close>

definition process_item :: "processor \<Rightarrow> ('b, 'p) block_manager \<Rightarrow> item \<Rightarrow> ('b, unit) outp" where
  "process_item pr bm x =
     sq (on_sched (on_group (item_ref x) (update_num_computed_tokens (ssg_token_chunk_size (fst x)))))
    (if snd (snd x) then single_process_group pr bm (item_ref x) (fst (snd x)) else ret ())"

text \<open>What is known of a group that has been processed.\<close>

definition sound_group :: "nat \<Rightarrow> (nat, Sequence) pydict \<Rightarrow> bool" where
  "sound_group n d \<longleftrightarrow> keyed n d \<and> d \<noteq> [] \<and> (\<forall>s \<in> ran (map_of d). 0 < seq_get_len s)"

lemma step_ready_dict:
  assumes "step_ready c0 g params out" "c0 \<le> c1" "dkeys d' = dkeys (sg_seqs_dict g)"
    "map_of d' = map_option (advance n) \<circ> map_of (sg_seqs_dict g)"
  shows "step_ready c1 (g\<lparr>sg_seqs_dict := d'\<rparr>) params out"
proof -
  note R = assms(1) [unfolded step_ready_def]
  have d: "distinct (dkeys (sg_seqs_dict g))" using R by (simp add: keyed_def)
  have d': "distinct (dkeys d')" using d assms(3) by simp
  have mem: "\<exists>t. map_of (sg_seqs_dict g) k = Some t \<and> s = advance n t" if "map_of d' k = Some s" for k s
    using that assms(4) by (auto simp: map_option_case split: option.splits)
  have "keyed c1 d'" using d' mem R assms(2) by (fastforce simp: keyed_def)
  moreover have "runnable s \<or> seq_is_finished s \<and> 1 < seq_get_len s" if s: "s \<in> snd ` set d'" for s
  proof -
    obtain k where "map_of d' k = Some s" using s d' by auto
    then obtain t where "map_of (sg_seqs_dict g) k = Some t" "s = advance n t" using mem by blast
    moreover from this(1) have "t \<in> snd ` set (sg_seqs_dict g)" by (force dest: map_of_SomeD)
    ultimately show ?thesis using R by auto
  qed
  moreover have "\<exists>s. map_of d' k = Some s \<and> seq_status s = RUNNING"
    if "\<exists>s. map_of (sg_seqs_dict g) k = Some s \<and> seq_status s = RUNNING" for k
    using that assms(4) by auto
  ultimately show ?thesis using R by (simp add: step_ready_def)
qed

lemma live_advance: "map_of d' = map_option (advance n) \<circ> m \<Longrightarrow> live (map_of d') = live m \<and> dom (map_of d') = dom m"
  by (auto simp: live_def dom_def)

context table_contract
begin

text \<open>One item: the group is sound afterwards, and its tables are those of its unfinished sequences.\<close>

lemma process_item_ok:
  assumes ready: "item_ready c0 (sc_groups (os_sched st) (item_ref x)) x" "c0 \<le> os_counter st"
    and bm: "okb (manager st)" "tabled (manager st) = H \<union> live (gmap (item_ref x) st)"
      "H \<inter> live (gmap (item_ref x) st) = {}" "H \<subseteq> {..<os_counter st}"
  shows "wp (process_item pr bm x)
    (\<lambda>_ t. touched (item_ref x) st t \<and> okb (manager t) \<and> os_counter st \<le> os_counter t \<and>
       sound_group (os_counter t) (group_dict (item_ref x) t) \<and>
       dom (gmap (item_ref x) t) \<subseteq> dom (gmap (item_ref x) st) \<union> {os_counter st..} \<and>
       tabled (manager t) = H \<union> live (gmap (item_ref x) t)) (\<lambda>_ _. False) st"
proof -
  let ?r = "item_ref x" and ?out = "fst (snd x)" and ?n = "ssg_token_chunk_size (fst x)"
  let ?g = "sc_groups (os_sched st) ?r"
  obtain params where R: "step_ready c0 ?g params ?out" using ready(1) by (auto simp: item_ready_def)
  have fit: "\<forall>s \<in> ran (gmap ?r st). fits ?n s" and some: "cso_samples ?out \<noteq> []"
    using ready(1) by (simp_all add: item_ready_def)
  have keyed: "keyed c0 (group_dict ?r st)" by (rule step_readyD(1) [OF R])
  then have dist: "distinct (dkeys (group_dict ?r st))" by (simp add: keyed_def)
  show ?thesis
    unfolding process_item_def wp_sq wp_on_sched wp_on_group
  proof (rule wp_no_error [OF update_num_computed_tokens_ok [OF dist fit]], goal_cases)
    case (1 y g')
    then obtain d' where d': "g' = ?g\<lparr>sg_seqs_dict := d'\<rparr>" "dkeys d' = dkeys (group_dict ?r st)"
      "map_of d' = map_option (advance ?n) \<circ> gmap ?r st" by blast
    let ?st = "st\<lparr>os_sched := (os_sched st)\<lparr>sc_groups := (sc_groups (os_sched st))(?r := g')\<rparr>\<rparr>"
    have t0: "touched ?r st ?st"
      unfolding touched_def d'(1)
      by (intro exI [where x = d'] exI [where x = "manager st"]) simp
    have R': "step_ready (os_counter ?st) (sc_groups (os_sched ?st) ?r) params ?out"
      using step_ready_dict [OF R ready(2) d'(2,3)] d'(1) by simp
    have lv: "live (gmap ?r ?st) = live (gmap ?r st)" "dom (gmap ?r ?st) = dom (gmap ?r st)"
      using live_advance [OF d'(3)] d'(1) by simp_all
    have bm': "okb (manager ?st)" "tabled (manager ?st) = H \<union> live (gmap ?r ?st)" "H \<inter> live (gmap ?r ?st) = {}"
      "H \<subseteq> {..<os_counter ?st}"
      using bm unfolding lv by simp_all
    show ?case
    proof (cases "snd (snd x)")
      case True
      have "wp (single_process_group pr bm ?r ?out) (\<lambda>_ t. touched ?r st t \<and> okb (manager t) \<and> os_counter st \<le> os_counter t \<and>
         sound_group (os_counter t) (group_dict ?r t) \<and> dom (gmap ?r t) \<subseteq> dom (gmap ?r st) \<union> {os_counter st..} \<and>
         tabled (manager t) = H \<union> live (gmap ?r t)) (\<lambda>_ _. False) ?st"
      proof (rule wp_no_error [OF wp_with_result [OF group_step [OF R' bm']]], goal_cases)
        case (1 z t)
        then have t: "settled okb tabled ?r H (dom (gmap ?r ?st)) (os_counter ?st) t" "group_dict ?r t \<noteq> []"
          and run: "single_process_group pr bm ?r ?out ?st = (Inr z, t)"
          using some by auto
        have "touched ?r ?st t" using touchesD [OF single_process_group_touches, of ?r ?st pr bm ?out] run by simp
        with t0 have "touched ?r st t" by (rule touched_trans)
        then show ?case using t unfolding settled_def sound_group_def lv(2) by auto
      qed
      then show ?thesis using True by simp
    next
      case False
      have "sound_group (os_counter st) d'"
      proof -
        note R'' = R' [unfolded step_ready_def]
        have "d' \<noteq> []"
        proof
          assume "d' = []"
          then have "gmap ?r ?st = Map.empty" using d'(1) by simp
          then show False using R'' some by (metis list.set_intros(1) neq_Nil_conv option.distinct(1))
        qed
        moreover have "0 < seq_get_len s" if s: "s \<in> ran (map_of d')" for s
        proof -
          have "s \<in> snd ` set d'" using s by (force simp: ran_def dest: map_of_SomeD)
          then have "runnable s \<or> 1 < seq_get_len s" using R'' d'(1) by auto
          then show ?thesis by (auto simp: runnable_def startable_def seq_get_len_def sd_get_len_def)
        qed
        ultimately show ?thesis using R'' d'(1) by (simp add: sound_group_def)
      qed
      then show ?thesis using False t0 bm' lv d'(1) by (simp add: wp_ret)
    qed
  qed
qed

end

text \<open>The groups \<open>R\<close> have been processed.\<close>

definition batch_touched :: "group_ref set \<Rightarrow> 'b output_state \<Rightarrow> 'b output_state \<Rightarrow> bool" where
  "batch_touched R st t \<longleftrightarrow> (\<exists>f b. os_sched t = (os_sched st)\<lparr>sc_block_manager := b,
     sc_groups := (\<lambda>r. if r \<in> R then (sc_groups (os_sched st) r)\<lparr>sg_seqs_dict := f r\<rparr> else sc_groups (os_sched st) r)\<rparr>)"

lemma batch_touched_step:
  assumes "batch_touched R st t" "touched r t u" "r \<notin> R"
  shows "batch_touched (insert r R) st u"
proof -
  obtain f b where t: "os_sched t = (os_sched st)\<lparr>sc_block_manager := b,
     sc_groups := (\<lambda>r. if r \<in> R then (sc_groups (os_sched st) r)\<lparr>sg_seqs_dict := f r\<rparr> else sc_groups (os_sched st) r)\<rparr>"
    using assms(1) by (auto simp: batch_touched_def)
  obtain d b' where u: "os_sched u = (os_sched t)\<lparr>sc_block_manager := b',
     sc_groups := (sc_groups (os_sched t))(r := (sc_groups (os_sched t) r)\<lparr>sg_seqs_dict := d\<rparr>)\<rparr>"
    using assms(2) by (auto simp: touched_def)
  have "(sc_groups (os_sched t))(r := (sc_groups (os_sched t) r)\<lparr>sg_seqs_dict := d\<rparr>) =
    (\<lambda>r'. if r' \<in> insert r R then (sc_groups (os_sched st) r')\<lparr>sg_seqs_dict := (f(r := d)) r'\<rparr> else sc_groups (os_sched st) r')"
    using assms(3) unfolding t by (auto simp: fun_eq_iff)
  then have "os_sched u = (os_sched st)\<lparr>sc_block_manager := b', sc_groups :=
    (\<lambda>r'. if r' \<in> insert r R then (sc_groups (os_sched st) r')\<lparr>sg_seqs_dict := (f(r := d)) r'\<rparr> else sc_groups (os_sched st) r')\<rparr>"
    unfolding u by (simp add: t)
  then show ?thesis unfolding batch_touched_def by blast
qed

lemma touched_other: "touched r t u \<Longrightarrow> r' \<noteq> r \<Longrightarrow> sc_groups (os_sched u) r' = sc_groups (os_sched t) r'"
  by (auto simp: touched_def)

lemma batch_touched_other: "batch_touched R t u \<Longrightarrow> r' \<notin> R \<Longrightarrow> sc_groups (os_sched u) r' = sc_groups (os_sched t) r'"
  by (auto simp: batch_touched_def)

text \<open>The ids of the groups \<open>R\<close> are apart from each other, from those in \<open>H\<close>, and below the counter.\<close>

definition apart :: "nat set \<Rightarrow> group_ref set \<Rightarrow> 'b output_state \<Rightarrow> bool" where
  "apart H R t \<longleftrightarrow> (\<forall>r \<in> R. dom (gmap r t) \<inter> H = {} \<and> dom (gmap r t) \<subseteq> {..<os_counter t}) \<and>
     (\<forall>r \<in> R. \<forall>r' \<in> R. r \<noteq> r' \<longrightarrow> dom (gmap r t) \<inter> dom (gmap r' t) = {}) \<and> H \<subseteq> {..<os_counter t}"

lemma live_dom: "live m \<subseteq> dom m"
  by (auto simp: live_def)

lemma apart_step:
  assumes t: "apart H R t" and u: "touched r t u" "os_counter t \<le> os_counter u" "r \<in> R"
    and d: "dom (gmap r u) \<subseteq> dom (gmap r t) \<union> {os_counter t..}" "dom (gmap r u) \<subseteq> {..<os_counter u}"
  shows "apart H R u"
  unfolding apart_def
proof (intro conjI ballI impI)
  have old: "gmap r' u = gmap r' t" if "r' \<noteq> r" for r' using touched_other [OF u(1) that] by simp
  have H: "H \<subseteq> {..<os_counter t}" using t by (simp add: apart_def)
  then show "H \<subseteq> {..<os_counter u}" using u(2) by auto
  fix r1 assume r1: "r1 \<in> R"
  show "dom (gmap r1 u) \<subseteq> {..<os_counter u}"
  proof (cases "r1 = r")
    case False
    have "dom (gmap r1 t) \<subseteq> {..<os_counter t}" using t r1 by (simp add: apart_def)
    then show ?thesis using old [OF False] u(2) by force
  qed (use d in simp)
  show "dom (gmap r1 u) \<inter> H = {}"
  proof (cases "r1 = r")
    case True
    have "dom (gmap r t) \<inter> H = {}" using t u(3) by (simp add: apart_def)
    then show ?thesis using True d(1) H by fastforce
  qed (use old t r1 in \<open>simp add: apart_def\<close>)
  fix r2 assume r2: "r2 \<in> R" "r1 \<noteq> r2"
  have new: "dom (gmap r u) \<inter> dom (gmap r' u) = {}" if r': "r' \<in> R" "r' \<noteq> r" for r'
  proof -
    have "dom (gmap r t) \<inter> dom (gmap r' t) = {}" "dom (gmap r' t) \<subseteq> {..<os_counter t}"
      using t u(3) r' by (auto simp: apart_def)
    then show ?thesis using d(1) unfolding old [OF r'(2)] by fastforce
  qed
  show "dom (gmap r1 u) \<inter> dom (gmap r2 u) = {}"
  proof (cases "r1 = r")
    case True
    then show ?thesis using new [OF r2(1)] r2(2) by simp
  next
    case False
    then show ?thesis
    proof (cases "r2 = r")
      case True
      then show ?thesis using new [OF r1 False] by (simp add: Int_commute)
    next
      case False
      then show ?thesis using old [OF False] old [OF \<open>r1 \<noteq> r\<close>] t r1 r2 by (simp add: apart_def)
    qed
  qed
qed

context table_contract
begin

lemma batch_ok:
  assumes xs: "distinct (map item_ref xs)" and R: "R = set (map item_ref xs)"
    and ready: "\<forall>x \<in> set xs. item_ready (os_counter st) (sc_groups (os_sched st) (item_ref x)) x"
    and st: "okb (manager st)" "tabled (manager st) = H \<union> (\<Union>r \<in> R. live (gmap r st))" "apart H R st"
  shows "wp (for_each xs (process_item pr bm))
    (\<lambda>_ t. batch_touched R st t \<and> okb (manager t) \<and> tabled (manager t) = H \<union> (\<Union>r \<in> R. live (gmap r t)) \<and>
       (\<forall>r \<in> R. sound_group (os_counter t) (group_dict r t))) (\<lambda>_ _. False) st"
proof (rule wp_for_each_done [where J = "\<lambda>zs t. batch_touched (set (map item_ref zs)) st t \<and> okb (manager t) \<and>
    os_counter st \<le> os_counter t \<and> tabled (manager t) = H \<union> (\<Union>r \<in> R. live (gmap r t)) \<and> apart H R t \<and>
    (\<forall>r \<in> set (map item_ref zs). sound_group (os_counter t) (group_dict r t))"])
  show "batch_touched (set (map item_ref [])) st st \<and> okb (manager st) \<and>
    os_counter st \<le> os_counter st \<and> tabled (manager st) = H \<union> (\<Union>r \<in> R. live (gmap r st)) \<and> apart H R st \<and>
    (\<forall>r \<in> set (map item_ref []). sound_group (os_counter st) (group_dict r st))"
    using st by (auto simp: batch_touched_def intro!: exI [where x = "manager st"])
next
  fix x ys zs t
  assume split: "xs = zs @ x # ys"
    and I: "batch_touched (set (map item_ref zs)) st t \<and> okb (manager t) \<and>
    os_counter st \<le> os_counter t \<and> tabled (manager t) = H \<union> (\<Union>r \<in> R. live (gmap r t)) \<and> apart H R t \<and>
    (\<forall>r \<in> set (map item_ref zs). sound_group (os_counter t) (group_dict r t))"
  let ?r = "item_ref x"
  let ?H = "H \<union> (\<Union>r \<in> R - {?r}. live (gmap r t))"
  have r: "?r \<in> R" "?r \<notin> set (map item_ref zs)" using split xs R by auto
  have ap: "apart H R t" using I by blast
  have same: "sc_groups (os_sched t) ?r = sc_groups (os_sched st) ?r"
    by (rule batch_touched_other [OF conjunct1 [OF I] r(2)])
  have "x \<in> set xs" using split by simp
  then have ready': "item_ready (os_counter st) (sc_groups (os_sched t) ?r) x" unfolding same by (rule bspec [OF ready])
  have "(\<Union>r \<in> R. live (gmap r t)) = (\<Union>r \<in> R - {?r}. live (gmap r t)) \<union> live (gmap ?r t)"
    using r(1) by auto
  then have "tabled (manager t) = ?H \<union> live (gmap ?r t)" using I by (simp add: Un_assoc)
  moreover have "?H \<inter> live (gmap ?r t) = {}"
  proof -
    have "live (gmap r' t) \<inter> live (gmap ?r t) = {}" if "r' \<in> R - {?r}" for r'
    proof -
      have "dom (gmap r' t) \<inter> dom (gmap ?r t) = {}" using ap that r(1) by (simp add: apart_def)
      then show ?thesis using live_dom [of "gmap r' t"] live_dom [of "gmap ?r t"] by blast
    qed
    moreover have "H \<inter> live (gmap ?r t) = {}"
    proof -
      have "dom (gmap ?r t) \<inter> H = {}" using ap r(1) by (simp add: apart_def)
      then show ?thesis using live_dom [of "gmap ?r t"] by blast
    qed
    ultimately show ?thesis by blast
  qed
  moreover have "?H \<subseteq> {..<os_counter t}"
  proof -
    have "live (gmap r' t) \<subseteq> {..<os_counter t}" if "r' \<in> R" for r'
      by (rule order_trans [OF live_dom]) (use ap that in \<open>simp add: apart_def\<close>)
    moreover have "H \<subseteq> {..<os_counter t}" using ap by (simp add: apart_def)
    ultimately show ?thesis by blast
  qed
  ultimately have "wp (process_item pr bm x)
    (\<lambda>_ u. touched ?r t u \<and> okb (manager u) \<and> os_counter t \<le> os_counter u \<and>
       sound_group (os_counter u) (group_dict ?r u) \<and>
       dom (gmap ?r u) \<subseteq> dom (gmap ?r t) \<union> {os_counter t..} \<and>
       tabled (manager u) = ?H \<union> live (gmap ?r u)) (\<lambda>_ _. False) t"
    using I by (intro process_item_ok [OF ready']) blast+
  then show "wp (process_item pr bm x) (\<lambda>_ u. batch_touched (set (map item_ref (zs @ [x]))) st u \<and> okb (manager u) \<and>
    os_counter st \<le> os_counter u \<and> tabled (manager u) = H \<union> (\<Union>r \<in> R. live (gmap r u)) \<and> apart H R u \<and>
    (\<forall>r \<in> set (map item_ref (zs @ [x])). sound_group (os_counter u) (group_dict r u))) (\<lambda>_ _. False) t"
  proof (rule wp_no_error, goal_cases)
    case (1 y u)
    then have u: "touched ?r t u" "os_counter t \<le> os_counter u" "sound_group (os_counter u) (group_dict ?r u)"
      "dom (gmap ?r u) \<subseteq> dom (gmap ?r t) \<union> {os_counter t..}" "tabled (manager u) = ?H \<union> live (gmap ?r u)" "okb (manager u)"
      by blast+
    have old: "group_dict r' u = group_dict r' t" if "r' \<noteq> ?r" for r' using touched_other [OF u(1) that] by simp
    have "dom (gmap ?r u) \<subseteq> {..<os_counter u}" using u(3) by (auto simp: sound_group_def keyed_def)
    then have "apart H R u" by (rule apart_step [OF ap u(1,2) r(1) u(4)])
    moreover have "tabled (manager u) = H \<union> (\<Union>r \<in> R. live (gmap r u))"
    proof -
      have "(\<Union>r \<in> R. live (gmap r u)) = (\<Union>r \<in> R - {?r}. live (gmap r t)) \<union> live (gmap ?r u)"
      proof -
        have "(\<Union>r \<in> R. live (gmap r u)) = (\<Union>r \<in> R - {?r}. live (gmap r u)) \<union> live (gmap ?r u)" using r(1) by auto
        moreover have "live (gmap r' u) = live (gmap r' t)" if "r' \<in> R - {?r}" for r' using old that by simp
        ultimately show ?thesis by simp
      qed
      then show ?thesis by (simp only: u(5) Un_assoc)
    qed
    moreover have "batch_touched (set (map item_ref (zs @ [x]))) st u"
      using batch_touched_step [OF conjunct1 [OF I] u(1) r(2)] by simp
    moreover have "sound_group (os_counter u) (group_dict r' u)" if "r' \<in> set (map item_ref zs)" for r'
    proof -
      have "r' \<noteq> ?r" using that r(2) by blast
      moreover have "sound_group (os_counter t) (group_dict r' t)" using I that by blast
      ultimately show ?thesis using old u(2) by (fastforce simp: sound_group_def keyed_def)
    qed
    ultimately show ?case using I u by auto
  qed
qed (use R in auto)

end

section \<open>The engine's loop\<close>

lemma only_seqs_intros:
  "only_seqs (ret x)" "only_seqs (gets f)" "only_seqs m \<Longrightarrow> (\<And>x. only_seqs (k x)) \<Longrightarrow> only_seqs (bnd m k)"
proof -
  have same: "\<exists>d. g = g\<lparr>sg_seqs_dict := d\<rparr>" for g :: SequenceGroup
    by (rule exI [where x = "sg_seqs_dict g"]) simp
  then show "only_seqs (ret x)" "only_seqs (gets f)" by (simp_all add: only_seqs_def ret_def gets_def)
  assume m: "only_seqs m" and k: "\<And>x. only_seqs (k x)"
  show "only_seqs (bnd m k)"
    unfolding only_seqs_def
  proof
    fix g
    obtain y g' where y: "m g = (y, g')" by (cases "m g")
    obtain d where d: "g' = g\<lparr>sg_seqs_dict := d\<rparr>" using m y unfolding only_seqs_def by (metis snd_conv)
    show "\<exists>d. snd (bnd m k g) = g\<lparr>sg_seqs_dict := d\<rparr>"
    proof (cases y)
      case (Inl e)
      then show ?thesis using y d by (auto simp: bnd_def)
    next
      case (Inr x)
      then obtain d' where "snd (k x g') = g'\<lparr>sg_seqs_dict := d'\<rparr>" using k unfolding only_seqs_def by blast
      then show ?thesis using y d Inr by (auto simp: bnd_def)
    qed
  qed
qed

lemma only_seqs_fold_each: "(\<And>a x. only_seqs (body a x)) \<Longrightarrow> only_seqs (fold_each xs a body)"
  by (induction xs arbitrary: a) (auto intro: only_seqs_intros)

lemma only_seqs_update: "only_seqs (update_num_computed_tokens n)"
  unfolding update_num_computed_tokens_def for_each_def
  by (intro only_seqs_intros only_seqs_fold_each only_seqs_methods)

lemma process_item_touches: "touches (item_ref x) (process_item pr bm x)"
  unfolding process_item_def
  by (intro touch_intros single_process_group_touches only_seqs_update)

lemma for_each_cong_inv:
  assumes "P s" "\<And>x t. x \<in> set xs \<Longrightarrow> P t \<Longrightarrow> f x t = g x t" "\<And>x t. x \<in> set xs \<Longrightarrow> P t \<Longrightarrow> P (snd (g x t))"
  shows "for_each xs f s = for_each xs g s"
proof -
  have "fold_each xs () (\<lambda>_. f) s = fold_each xs () (\<lambda>_. g) s"
    using assms
  proof (induction xs arbitrary: s)
    case (Cons x xs)
    obtain y t where y: "g x s = (y, t)" by (cases "g x s")
    have "f x s = g x s" "P t" using Cons.prems(1) Cons.prems(2,3) [of x s] y by simp_all
    moreover have "fold_each xs () (\<lambda>_. f) t = fold_each xs () (\<lambda>_. g) t"
      using \<open>P t\<close> Cons.prems by (intro Cons.IH) auto
    ultimately show ?case using y by (cases y) (simp_all add: bnd_def)
  qed simp
  then show ?thesis by (simp add: for_each_def)
qed

text \<open>A batch: scheduled groups with the samples and the metadata of the step.\<close>

type_synonym 'p batch = "(ScheduledSequenceGroup \<times> CompletionSequenceGroupOutput \<times> 'p SequenceGroupMetadata) list"

definition item_of :: "ScheduledSequenceGroup \<times> CompletionSequenceGroupOutput \<times> 'p SequenceGroupMetadata \<Rightarrow> item" where
  "item_of x = (fst x, fst (snd x), md_do_sample (snd (snd x)))"

lemma process_group_item:
  assumes "\<not> en_embedding_mode en" "cfg_num_lookahead_slots (sc_config (os_sched st)) = 0"
    and "cso_prompt_logprobs (fst (snd x)) = None"
  shows "process_group en (fst x, [SampleOutput (fst (snd x))], snd (snd x)) st =
    process_item (en_processor en) (en_block_manager en) (item_of x) st"
proof -
  let ?r = "ssg_seq_group (fst x)" and ?c = "fst (snd x)"
  let ?upd = "on_sched (on_group ?r (update_num_computed_tokens (ssg_token_chunk_size (fst x))))"
  have "touched ?r st (snd (?upd st))" by (intro touchesD touch_intros only_seqs_update)
  then have cfg: "cfg_num_lookahead_slots (sc_config (os_sched (snd (?upd st)))) = 0"
    using assms(2) by (auto simp: touched_def)
  have pl: "processor_prompt_logprob (en_processor en) ?r [?c] t = (Inr (), t)"
    if "cfg_num_lookahead_slots (sc_config (os_sched t)) = 0" for t :: "'a output_state"
    using that assms(3)
    by (simp add: processor_prompt_logprob_def create_output_processor_def bnd_gets single_process_prompt_logprob_def
        on_sched_def on_group_def ensure_def sq_def bnd_def gets_def lift_err_def ret_def nth_py_def)
  have sp: "processor_process_outputs (en_processor en) (en_block_manager en) ?r [?c] t =
      single_process_group (en_processor en) (en_block_manager en) ?r ?c t"
    if "cfg_num_lookahead_slots (sc_config (os_sched t)) = 0" for t
    using that
    by (simp add: processor_process_outputs_def create_output_processor_def bnd_gets single_process_outputs_def
        ensure_def sq_def bnd_def gets_def lift_err_def ret_def nth_py_def)
  obtain y t where u: "?upd st = (y, t)" by (cases "?upd st")
  then have cfg': "cfg_num_lookahead_slots (sc_config (os_sched t)) = 0" using cfg by simp
  show ?thesis
    using assms(1) u pl [OF cfg'] sp [OF cfg']
    by (cases y) (simp_all add: process_group_def process_item_def item_of_def Let_def sq_def bnd_def samples_out_def
        lift_err_def ret_def)
qed

lemma engine_loop:
  fixes en :: "('b, 'p) engine"
  assumes "\<not> en_embedding_mode en" "cfg_num_lookahead_slots (sc_config (os_sched st)) = 0"
    and "\<forall>x \<in> set batch. cso_prompt_logprobs (fst (snd x)) = None"
  shows "for_each (map (\<lambda>x. (fst x, [SampleOutput (fst (snd x))], snd (snd x))) batch) (process_group en) st =
    for_each (map item_of batch) (process_item (en_processor en) (en_block_manager en)) st"
  unfolding for_each_map [symmetric]
proof (rule for_each_cong_inv [where P = "\<lambda>t. cfg_num_lookahead_slots (sc_config (os_sched t)) = 0"])
  fix x and t :: "'b output_state"
  assume t: "cfg_num_lookahead_slots (sc_config (os_sched t)) = 0"
  have "touched (item_ref (item_of x)) t (snd (process_item (en_processor en) (en_block_manager en) (item_of x) t))"
    by (rule touchesD [OF process_item_touches])
  then show "cfg_num_lookahead_slots (sc_config (os_sched (snd
      (process_item (en_processor en) (en_block_manager en) (item_of x) t)))) = 0"
    using t by (auto simp: touched_def)
next
  fix x and t :: "'b output_state"
  assume x: "x \<in> set batch" and t: "cfg_num_lookahead_slots (sc_config (os_sched t)) = 0"
  show "process_group en (fst x, [SampleOutput (fst (snd x))], snd (snd x)) t =
    process_item (en_processor en) (en_block_manager en) (item_of x) t"
    by (rule process_group_item [OF assms(1) t bspec [OF assms(3) x]])
qed (rule assms(2))

end
