(* ===== verification/Llm_Engine_Claims.thy ===== *)
theory Llm_Engine_Claims
  imports Llm_Engine_Facts Scheduler_Facts
begin

text \<open>
  The outputs of a step: creating them changes only the metrics of the groups, and each says truly
  whether its request is finished.
\<close>

section \<open>Outputs\<close>

definition only_metrics :: "'b scheduler \<Rightarrow> 'b scheduler \<Rightarrow> bool" where
  "only_metrics s u \<longleftrightarrow> (\<exists>m k. u = s\<lparr>sc_groups := (\<lambda>r. (sc_groups s r)\<lparr>sg_metrics := m r\<rparr>), sc_time_reads := k\<rparr>)"

lemma only_metrics_refl [simp]: "only_metrics s s"
  unfolding only_metrics_def
  by (intro exI [where x = "\<lambda>r. sg_metrics (sc_groups s r)"] exI [where x = "sc_time_reads s"]) simp

lemma only_metrics_trans: "only_metrics s t \<Longrightarrow> only_metrics t u \<Longrightarrow> only_metrics s u"
  unfolding only_metrics_def by (elim exE) (simp, blast)

lemma only_metricsD:
  assumes "only_metrics s u"
  shows "sg_seqs_dict (sc_groups u r) = sg_seqs_dict (sc_groups s r)" "sg_is_finished (sc_groups u r) = sg_is_finished (sc_groups s r)"
    "sg_sampling_params (sc_groups u r) = sg_sampling_params (sc_groups s r)"
    "sg_embeddings (sc_groups u r) = sg_embeddings (sc_groups s r)" "sc_running u = sc_running s"
    "sc_block_manager u = sc_block_manager s"
  using assms by (auto simp: only_metrics_def sg_is_finished_def get_seqs_def)

lemma only_metrics_group: "only_metrics s (s\<lparr>sc_groups := (sc_groups s)(r := (sc_groups s r)\<lparr>sg_metrics := x\<rparr>), sc_time_reads := k\<rparr>)"
  unfolding only_metrics_def
  by (intro exI [where x = "\<lambda>r'. if r' = r then x else sg_metrics (sc_groups s r')"] exI [where x = k])
    (auto simp: fun_eq_iff)

lemma output_score_total: "0 < seq_get_len s \<Longrightarrow> \<exists>x. output_score params s = Inr x"
  by (auto simp: output_score_def get_beam_search_score_def score_quotient_def)

lemma scores_of_total: "(\<And>x. x \<in> set xs \<Longrightarrow> \<exists>y. f x = Inr y) \<Longrightarrow> \<exists>ys. scores_of f xs = Inr ys"
proof (induction xs)
  case (Cons x xs)
  then obtain y ys where "f x = Inr y" "scores_of f xs = Inr ys" by fastforce
  then show ?case by simp
qed simp

lemma top_n_total:
  assumes "\<forall>s \<in> set (get_seqs None g). 0 < seq_get_len s"
  shows "\<exists>x. top_n_seqs params g = Inr x"
proof -
  have "\<exists>y. output_score params (snd x) = Inr y" if "x \<in> set (zip [0..<length (get_seqs None g)] (get_seqs None g))" for x
    using that assms output_score_total by (metis prod.collapse set_zip_rightD)
  then have "\<exists>ys. scores_of (\<lambda>x. output_score params (snd x)) (zip [0..<length (get_seqs None g)] (get_seqs None g)) = Inr ys"
    by (rule scores_of_total)
  then show ?thesis by (auto simp: top_n_seqs_def Let_def)
qed

text \<open>A group whose output can be made: it has sequences of positive length and sampling parameters.\<close>

definition reportable :: "SequenceGroup \<Rightarrow> bool" where
  "reportable g \<longleftrightarrow> sg_seqs_dict g \<noteq> [] \<and> (\<forall>s \<in> set (get_seqs None g). 0 < seq_get_len s) \<and>
     sg_sampling_params g \<noteq> None \<and> sg_embeddings g = None"

lemma reportable_metrics: "only_metrics s u \<Longrightarrow> reportable (sc_groups u r) = reportable (sc_groups s r)"
  using only_metricsD(1,3,4) [of s u r] by (simp add: reportable_def get_seqs_def)

lemma first_token_time_ok:
  assumes "sg_seqs_dict (sc_groups s r) \<noteq> []"
  shows "wp (on_group r (maybe_set_first_token_time now)) (\<lambda>_. only_metrics s) (\<lambda>_ _. False) s"
proof -
  have "\<exists>x. maybe_set_first_token_time now (sc_groups s r) = (Inr (), (sc_groups s r)\<lparr>sg_metrics := x\<rparr>)"
  proof -
    obtain q qs where "get_seqs None (sc_groups s r) = q # qs"
      using assms by (cases "sg_seqs_dict (sc_groups s r)") (auto simp: get_seqs_def)
    then show ?thesis
      by (auto simp: maybe_set_first_token_time_def bnd_def gets_def modify_def ret_def
          intro: exI [where x = "sg_metrics (sc_groups s r)"])
  qed
  then obtain x where x: "maybe_set_first_token_time now (sc_groups s r) = (Inr (), (sc_groups s r)\<lparr>sg_metrics := x\<rparr>)" by blast
  show ?thesis
    using only_metrics_group [where s = s and r = r and x = x and k = "sc_time_reads s"] by (simp add: wp_def on_group_def x)
qed

lemma request_output_ok:
  assumes "reportable (sc_groups s r)"
  shows "wp (create_request_output r) (\<lambda>out u. only_metrics s u \<and>
    output_finished out = sg_is_finished (sc_groups s r)) (\<lambda>_ _. False) s"
proof -
  let ?g = "sc_groups s r"
  obtain params where p: "sg_sampling_params ?g = Some params" using assms by (auto simp: reportable_def)
  obtain tops where t: "top_n_seqs params ?g = Inr tops" using assms top_n_total by (fastforce simp: reportable_def)
  obtain k q rest where d: "sg_seqs_dict ?g = (k, q) # rest" using assms by (metis reportable_def neq_Nil_conv surj_pair)
  have f: "sg_prompt ?g = Inr (seq_prompt q)" "sg_prompt_token_ids ?g = Inr (sd_prompt_token_ids (seq_data q))"
    using d by (simp_all add: sg_prompt_def sg_prompt_token_ids_def first_seq_def)
  have comm: "s\<lparr>sc_time_reads := j, sc_groups := h\<rparr> = s\<lparr>sc_groups := h, sc_time_reads := j\<rparr>" for j h by simp
  have m: "only_metrics s (s\<lparr>sc_groups := (sc_groups s)(r := ?g\<lparr>sg_metrics := x\<rparr>)\<rparr>)"
    "only_metrics s (s\<lparr>sc_time_reads := j, sc_groups := (sc_groups s)(r := ?g\<lparr>sg_metrics := x\<rparr>)\<rparr>)" for x j
    using only_metrics_group [where s = s and r = r and x = x and k = "sc_time_reads s"]
      only_metrics_group [where s = s and r = r and x = x and k = j] unfolding comm by simp_all
  show ?thesis
    using assms p t f m
    by (simp add: create_request_output_def RequestOutput_from_seq_group_def group_def wp_simps wp_on_group
        wp_read_time set_finished_time_def reportable_def Let_def output_finished_def)
qed

text \<open>A comprehension whose calls keep an invariant and answer by a relation.\<close>

lemma wp_collect:
  assumes "J s" "\<And>x t. x \<in> set xs \<Longrightarrow> J t \<Longrightarrow> wp (f x) (\<lambda>y u. J u \<and> R x y) E t"
  shows "wp (collect xs f) (\<lambda>ys u. J u \<and> list_all2 R xs ys) E s"
  using assms
proof (induction xs arbitrary: s)
  case (Cons x xs)
  show ?case
    unfolding collect.simps wp_bnd wp_ret
  proof (rule wp_mono [OF Cons.prems(2) [OF _ Cons.prems(1)]], goal_cases)
    case (2 y t)
    then have "wp (collect xs f) (\<lambda>ys u. J u \<and> list_all2 R xs ys) E t"
      using Cons.prems(2) by (intro Cons.IH) auto
    then show ?case by (rule wp_mono) (use 2 in auto)
  qed simp_all
qed (simp add: wp_ret)

section \<open>The batch\<close>

lemma finished_live: "distinct (dkeys (sg_seqs_dict g)) \<Longrightarrow> sg_is_finished g \<longleftrightarrow> live (map_of (sg_seqs_dict g)) = {}"
proof -
  assume d: "distinct (dkeys (sg_seqs_dict g))"
  have "(\<exists>s \<in> snd ` set (sg_seqs_dict g). \<not> seq_is_finished s) \<longleftrightarrow> live (map_of (sg_seqs_dict g)) \<noteq> {}"
  proof
    assume "\<exists>s \<in> snd ` set (sg_seqs_dict g). \<not> seq_is_finished s"
    then obtain k s where "(k, s) \<in> set (sg_seqs_dict g)" "\<not> seq_is_finished s" by auto
    moreover from this(1) have "map_of (sg_seqs_dict g) k = Some s" using d by simp
    ultimately show "live (map_of (sg_seqs_dict g)) \<noteq> {}" by (auto simp: live_def)
  qed (force simp: live_def dest: map_of_SomeD)
  then show ?thesis by (auto simp: sg_is_finished_def get_seqs_def)
qed

text \<open>
  A batch the engine has scheduled, with one step of samples: different groups of which each is ready
  for its samples, on an engine with the single-step processor, for requests with sampling parameters.
\<close>

definition batch_ready :: "('b, 'p) engine \<Rightarrow> 'p batch \<Rightarrow> 'b output_state \<Rightarrow> bool" where
  "batch_ready en batch st \<longleftrightarrow> \<not> en_embedding_mode en \<and> cfg_num_lookahead_slots (sc_config (os_sched st)) = 0 \<and>
     distinct (map (\<lambda>x. ssg_seq_group (fst x)) batch) \<and>
     (\<forall>x \<in> set batch. item_ready (os_counter st) (sc_groups (os_sched st) (ssg_seq_group (fst x))) (item_of x) \<and>
        sg_embeddings (sc_groups (os_sched st) (ssg_seq_group (fst x))) = None)"

definition batch_refs :: "'p batch \<Rightarrow> group_ref set" where
  "batch_refs batch = (\<lambda>x. ssg_seq_group (fst x)) ` set batch"

lemma transposed_batch:
  "create_output_by_sequence_group [map (\<lambda>x. SampleOutput (fst (snd x))) batch] (length (map fst batch)) =
     Inr (map (\<lambda>x. [SampleOutput (fst (snd x))]) batch)"
proof -
  have "create_output_by_sequence_group [map (\<lambda>x. SampleOutput (fst (snd x))) batch] (length batch) =
    Inr (map (\<lambda>i. map (\<lambda>step. step ! i) [map (\<lambda>x. SampleOutput (fst (snd x))) batch]) [0..<length batch])"
    by (rule outputs_transposed) simp
  also have "map (\<lambda>i. map (\<lambda>step. step ! i) [map (\<lambda>x. SampleOutput (fst (snd x))) batch]) [0..<length batch] =
    map (\<lambda>x. [SampleOutput (fst (snd x))]) batch"
    by (rule nth_equalityI) simp_all
  finally show ?thesis by simp
qed

lemma zip3_map: "zip (map f xs) (zip (map g xs) (map h xs)) = map (\<lambda>x. (f x, g x, h x)) xs"
  by (induction xs) simp_all

context table_contract
begin

theorem engine_outputs:
  assumes ready: "batch_ready en batch st" and en: "en_block_manager en = bm"
    and st: "okb (manager st)" "tabled (manager st) = H \<union> (\<Union>r \<in> batch_refs batch. live (gmap r st))"
      "apart H (batch_refs batch) st"
  shows "wp (process_model_outputs en [map (\<lambda>x. SampleOutput (fst (snd x))) batch] (map fst batch) [] (map (\<lambda>x. snd (snd x)) batch))
    (\<lambda>outs t. okb (manager t) \<and> tabled (manager t) = H \<union> (\<Union>r \<in> batch_refs batch. live (gmap r t)) \<and>
       sc_running (os_sched t) = filter (\<lambda>r. \<not> sg_is_finished (sc_groups (os_sched t) r)) (sc_running (os_sched st)) \<and>
       list_all2 (\<lambda>x out. output_finished out = sg_is_finished (sc_groups (os_sched t) (ssg_seq_group (fst x)))) batch outs)
    (\<lambda>_ _. False) st"
proof -
  let ?xs = "map item_of batch" and ?R = "batch_refs batch"
  note R = ready [unfolded batch_ready_def]
  define st0 where "st0 = st\<lparr>os_sched := (os_sched st)\<lparr>sc_time_reads := Suc (sc_time_reads (os_sched st))\<rparr>\<rparr>"
  have time: "on_sched read_time st = (Inr (sc_time (os_sched st) (sc_time_reads (os_sched st))), st0)"
    by (simp add: on_sched_def read_time_def st0_def)
  have refs: "map item_ref ?xs = map (\<lambda>x. ssg_seq_group (fst x)) batch" "?R = set (map item_ref ?xs)"
    by (auto simp: item_of_def batch_refs_def)
  have g0: "sc_groups (os_sched st0) = sc_groups (os_sched st)" "manager st0 = manager st" "os_counter st0 = os_counter st"
    "sc_running (os_sched st0) = sc_running (os_sched st)" "sc_config (os_sched st0) = sc_config (os_sched st)"
    by (simp_all add: st0_def)
  have "wp (for_each ?xs (process_item (en_processor en) bm))
    (\<lambda>_ t. batch_touched ?R st0 t \<and> okb (manager t) \<and> tabled (manager t) = H \<union> (\<Union>r \<in> ?R. live (gmap r t)) \<and>
       (\<forall>r \<in> ?R. sound_group (os_counter t) (group_dict r t))) (\<lambda>_ _. False) st0"
  proof (rule batch_ok [OF _ refs(2)])
    show "distinct (map item_ref ?xs)" unfolding refs(1) using R by blast
    show "\<forall>x \<in> set ?xs. item_ready (os_counter st0) (sc_groups (os_sched st0) (item_ref x)) x"
      using R unfolding g0 by (auto simp: item_of_def)
    show "apart H ?R st0" using st(3) unfolding apart_def g0 .
  qed (use st in \<open>simp_all add: g0\<close>)
  moreover have "for_each (map (\<lambda>x. (fst x, [SampleOutput (fst (snd x))], snd (snd x))) batch) (process_group en) st0 =
      for_each ?xs (process_item (en_processor en) bm) st0"
    unfolding en [symmetric]
    by (rule engine_loop) (use R in \<open>auto simp: g0 item_ready_def item_of_def\<close>)
  ultimately have loop: "wp (for_each (map (\<lambda>x. (fst x, [SampleOutput (fst (snd x))], snd (snd x))) batch) (process_group en))
    (\<lambda>_ t. batch_touched ?R st0 t \<and> okb (manager t) \<and> tabled (manager t) = H \<union> (\<Union>r \<in> ?R. live (gmap r t)) \<and>
       (\<forall>r \<in> ?R. sound_group (os_counter t) (group_dict r t))) (\<lambda>_ _. False) st0"
    by (simp add: wp_def)
  show ?thesis
    unfolding process_model_outputs_def wp_bnd [of "on_sched read_time"] wp_def [of "on_sched read_time"] time prod.case sum.case
      wp_bnd [of "lift_err _"] wp_lift_err transposed_batch zip3_map wp_sq
  proof (rule wp_no_error [OF loop], goal_cases)
    case (1 x t)
    let ?fin = "\<lambda>r. sg_is_finished (sc_groups (os_sched t) r)"
    define u where "u = t\<lparr>os_sched := (os_sched t)\<lparr>sc_running := filter (\<lambda>r. \<not> ?fin r) (sc_running (os_sched t))\<rparr>\<rparr>"
    have free: "on_sched free_finished_seq_groups t = (Inr (), u)"
      by (simp add: on_sched_def free_finished_seq_groups_def modify_def u_def)
    have gu: "sc_groups (os_sched u) = sc_groups (os_sched t)" "manager u = manager t" by (simp_all add: u_def)
    have run: "sc_running (os_sched t) = sc_running (os_sched st)" using 1 g0(4) by (auto simp: batch_touched_def)
    have keep: "sg_sampling_params (sc_groups (os_sched t) r) = sg_sampling_params (sc_groups (os_sched st) r)"
      "sg_embeddings (sc_groups (os_sched t) r) = sg_embeddings (sc_groups (os_sched st) r)" for r
      using 1 g0(1) by (auto simp: batch_touched_def)
    have rep: "reportable (sc_groups (os_sched u) (ssg_seq_group sg))" if sg: "sg \<in> set (map fst batch)" for sg
    proof -
      obtain y where y: "y \<in> set batch" "sg = fst y" using sg by auto
      let ?r = "ssg_seq_group sg"
      have "sound_group (os_counter t) (group_dict ?r t)" using 1 y by (auto simp: batch_refs_def)
      then have d: "distinct (dkeys (group_dict ?r t))" "group_dict ?r t \<noteq> []" "\<forall>s \<in> ran (gmap ?r t). 0 < seq_get_len s"
        by (simp_all add: sound_group_def keyed_def)
      have "0 < seq_get_len s" if "s \<in> set (get_seqs None (sc_groups (os_sched t) ?r))" for s
      proof -
        have "s \<in> snd ` set (group_dict ?r t)" using that by (simp add: get_seqs_def)
        then obtain k where "(k, s) \<in> set (group_dict ?r t)" by force
        then have "gmap ?r t k = Some s" using d(1) by simp
        then show ?thesis using d(3) by (auto simp: ran_def)
      qed
      moreover have "sg_embeddings (sc_groups (os_sched st) ?r) = None"
        "\<exists>params. sg_sampling_params (sc_groups (os_sched st) ?r) = Some params"
        using R y step_readyD(5) by (auto simp: item_ready_def item_of_def)
      ultimately show ?thesis using d(2) by (simp add: reportable_def gu keep)
    qed
    let ?J = "\<lambda>v. only_metrics (os_sched u) (os_sched v)"
    have "wp (collect (map fst batch) (\<lambda>sg. sq (on_sched (on_group (ssg_seq_group sg)
          (maybe_set_first_token_time (sc_time (os_sched st) (sc_time_reads (os_sched st))))))
        (on_sched (create_request_output (ssg_seq_group sg)))))
      (\<lambda>outs v. ?J v \<and> list_all2 (\<lambda>sg out. output_finished out = ?fin (ssg_seq_group sg)) (map fst batch) outs)
      (\<lambda>_ _. False) u"
    proof (rule wp_collect)
      fix sg and v :: "'b output_state"
      assume sg: "sg \<in> set (map fst batch)" and v: "?J v"
      let ?r = "ssg_seq_group sg"
      have rep': "reportable (sc_groups (os_sched v) ?r)" using rep [OF sg] reportable_metrics [OF v] by simp
      then have "sg_seqs_dict (sc_groups (os_sched v) ?r) \<noteq> []" by (simp add: reportable_def)
      then show "wp (sq (on_sched (on_group ?r (maybe_set_first_token_time (sc_time (os_sched st) (sc_time_reads (os_sched st))))))
        (on_sched (create_request_output ?r))) (\<lambda>out w. ?J w \<and> output_finished out = ?fin ?r) (\<lambda>_ _. False) v"
        unfolding wp_sq wp_on_sched
      proof (rule wp_no_error [OF first_token_time_ok], goal_cases)
        case (1 z s)
        have rp: "reportable (sc_groups s ?r)" using rep' reportable_metrics [OF 1] by simp
        have fe: "sg_is_finished (sc_groups s ?r) = ?fin ?r"
          using only_metricsD(2) [OF 1, of ?r] only_metricsD(2) [OF v, of ?r] gu by simp
        have up: "os_sched (w\<lparr>os_sched := z\<rparr>) = z" for w :: "'b output_state" and z by simp
        have "wp (create_request_output ?r)
          (\<lambda>out w. only_metrics s w \<and> output_finished out = ?fin ?r) (\<lambda>_ _. False) s"
          using request_output_ok [OF rp] unfolding fe .
        then show ?case
          unfolding up
        proof (rule wp_no_error, goal_cases)
          case (1 out w)
          have "only_metrics (os_sched u) w"
            by (rule only_metrics_trans [OF only_metrics_trans [OF v \<open>only_metrics (os_sched v) s\<close>] conjunct1 [OF 1]])
          then show ?case using 1 by simp
        qed
      qed
    qed simp
    then show ?case
      unfolding wp_def [of "on_sched free_finished_seq_groups"] free prod.case sum.case wp_bnd collect.simps wp_ret append_Nil2
    proof (rule wp_no_error, goal_cases)
      case (1 outs v)
      note M = only_metricsD [OF conjunct1 [OF 1]]
      have g: "gmap r v = gmap r t" for r using M(1) gu by simp
      have f: "sg_is_finished (sc_groups (os_sched v) r) = ?fin r" for r using M(2) gu by simp
      have "okb (manager t)" "tabled (manager t) = H \<union> (\<Union>r \<in> ?R. live (gmap r t))" 
        using \<open>batch_touched ?R st0 t \<and> _\<close> by blast+
      then show ?case
        using 1 M(5,6) gu run unfolding g f by (simp add: u_def list_all2_map1)
    qed
  qed
qed

end

section \<open>The engine on the eLLM block manager\<close>

text \<open>
  C40. The engine processes the samples of a whole batch on the eLLM block manager. For different
  ready groups with ids of their own it raises no error; the KV map holds exactly the unfinished
  sequences of the groups (and those outside the batch, \<open>H\<close>); the requests reported as finished are
  exactly the finished ones, and exactly these leave the running queue.
\<close>

theorem engine_reports_and_frees:
  assumes "batch_ready en batch st" "en_block_manager en = ellm_block_manager"
    and "em_ok (sc_block_manager (os_sched st))" "no_temporary (sc_block_manager (os_sched st))"
    and "dom (kvL (em_cache_map (sc_block_manager (os_sched st)))) =
      H \<union> (\<Union>r \<in> batch_refs batch. live (map_of (sg_seqs_dict (sc_groups (os_sched st) r))))"
    and "apart H (batch_refs batch) st"
  shows "wp (process_model_outputs en [map (\<lambda>x. SampleOutput (fst (snd x))) batch] (map fst batch) [] (map (\<lambda>x. snd (snd x)) batch))
    (\<lambda>outs t. em_ok (sc_block_manager (os_sched t)) \<and>
       dom (kvL (em_cache_map (sc_block_manager (os_sched t)))) =
         H \<union> (\<Union>r \<in> batch_refs batch. live (map_of (sg_seqs_dict (sc_groups (os_sched t) r)))) \<and>
       sc_running (os_sched t) = filter (\<lambda>r. \<not> sg_is_finished (sc_groups (os_sched t) r)) (sc_running (os_sched st)) \<and>
       list_all2 (\<lambda>x out. output_finished out = sg_is_finished (sc_groups (os_sched t) (ssg_seq_group (fst x)))) batch outs)
    (\<lambda>_ _. False) st"
  by (rule wp_no_error [OF emt.engine_outputs [OF assms(1,2)]]) (use assms in auto)

definition demo_metadata :: "'p SequenceGroupMetadata" where
  "demo_metadata = projr (SequenceGroupMetadata_init ''a'' False [] None [] True None (Some 5) None None None None 0 None)"

theorem engine_reports_and_frees_witness:
  "\<exists>(en :: (ellm_manager, LayerGroupBlockPlan) engine) outs t. process_model_outputs en [[SampleOutput \<lparr>cso_samples = [demo_sample 0 5, demo_sample 0 6], cso_prompt_logprobs = None\<rparr>]]
      [\<lparr>ssg_seq_group = 0, ssg_token_chunk_size = 5\<rparr>] [] [demo_metadata]
      (demo_output demo_em1 demo_beam_group 1) = (Inr outs, t) \<and>
    length outs = 1 \<and> output_finished (hd outs) = sg_is_finished (sc_groups (os_sched t) 0)"
proof -
  let ?out = "\<lparr>cso_samples = [demo_sample 0 5, demo_sample 0 6], cso_prompt_logprobs = None\<rparr>"
  define batch :: "LayerGroupBlockPlan batch" where "batch = [(\<lparr>ssg_seq_group = 0, ssg_token_chunk_size = 5\<rparr>, ?out, demo_metadata)]"
  define en where "en = \<lparr>en_block_manager = ellm_block_manager, en_processor = demo_processor, en_encode = (\<lambda>_ _ _. []),
    en_eos = (\<lambda>_. None), en_lora_enabled = False, en_embedding_mode = False, en_max_logprobs = 5,
    en_generation_config = None, en_set_order = (\<lambda>_. [])\<rparr>"
  let ?st = "demo_output demo_em1 demo_beam_group 1"
  have en: "en_block_manager en = ellm_block_manager" "\<not> en_embedding_mode en" by (simp_all add: en_def)
  have "step_ready 1 demo_beam_group demo_beam_params ?out" by (rule demo_beam_ready) auto
  then have "item_ready 1 demo_beam_group (item_of (hd batch))"
    by (auto simp: batch_def item_ready_def item_of_def demo_beam_group_facts fits_def SequenceData_init_def)
  moreover have "sg_embeddings demo_beam_group = None"
    by (simp add: demo_beam_group_def demo_step_group_def demo_group_def SequenceGroup_init_def)
  moreover have "cfg_num_lookahead_slots (sc_config (os_sched ?st)) = 0"
    by (simp add: demo_output_def Scheduler_init_def demo_config_def SchedulerConfig_init_def SchedulerConfig_verify_args_def)
  ultimately have ready: "batch_ready en batch ?st" using en(2) by (simp add: batch_ready_def batch_def)
  have refs: "batch_refs batch = {0}" by (simp add: batch_refs_def batch_def)
  have apart: "apart {} (batch_refs batch) ?st" by (simp add: apart_def demo_beam_group_facts refs)
  have ok: "em_ok (sc_block_manager (os_sched ?st))" "no_temporary (sc_block_manager (os_sched ?st))"
    using demo_em1_tables demo_em1_ready(1) by simp_all
  have held: "dom (kvL (em_cache_map (sc_block_manager (os_sched ?st)))) =
    {} \<union> (\<Union>r \<in> batch_refs batch. live (map_of (sg_seqs_dict (sc_groups (os_sched ?st) r))))"
    using demo_em1_tables demo_beam_group_facts by (simp add: refs)
  have "wp (process_model_outputs en [map (\<lambda>x. SampleOutput (fst (snd x))) batch] (map fst batch) []
      (map (\<lambda>x. snd (snd x)) batch)) (\<lambda>outs t. list_all2 (\<lambda>x out. output_finished out =
      sg_is_finished (sc_groups (os_sched t) (ssg_seq_group (fst x)))) batch outs) (\<lambda>_ _. False) ?st"
    by (rule wp_mono [OF engine_reports_and_frees [OF ready en(1) ok held apart]]) simp_all
  from wp_ok_result [OF this] obtain outs t where
    run: "process_model_outputs en [[SampleOutput ?out]] [\<lparr>ssg_seq_group = 0, ssg_token_chunk_size = 5\<rparr>] [] [demo_metadata] ?st = (Inr outs, t)"
    and outs: "list_all2 (\<lambda>x out. output_finished out = sg_is_finished (sc_groups (os_sched t) (ssg_seq_group (fst x)))) batch outs"
    by (auto simp: batch_def)
  from outs obtain out where "outs = [out]" "output_finished out = sg_is_finished (sc_groups (os_sched t) 0)"
    by (auto simp: batch_def list_all2_Cons1)
  then show ?thesis using run by (intro exI [where x = en] exI [where x = outs] exI [where x = t] conjI) simp_all
qed

end
