(* ===== verification/Gpu_Streams.thy ===== *)
theory Gpu_Streams
  imports Py_Prelude
begin

text \<open>
  The CUDA streams the worker uses. A stream runs its operations in the order in which they were
  issued; operations of different streams interleave freely, except that \<^verbatim>\<open>stream.wait_event(e)\<close> holds
  a stream until \<open>e\<close>, recorded in another stream, has been reached there. This is the documented
  behaviour of \<^verbatim>\<open>torch.cuda.Stream\<close> and \<^verbatim>\<open>torch.cuda.Event\<close>, as a step relation. What an operation does
  to the memory, \<open>exec\<close>, is a parameter of the machine.

  The theorem of this theory: a program in which every pair of operations of different streams either
  commutes or is ordered by an event ends, whatever the interleaving, with the memory of the
  sequential run, and never gets stuck.
\<close>

section \<open>The machine\<close>

datatype cuda_stream = Swap_Out_Stream | Swap_In_Stream | Compute_Stream

type_synonym event = nat

datatype 'w cuda_op = Run 'w | Record event | WaitFor event

type_synonym 'w queues = "cuda_stream \<Rightarrow> 'w cuda_op list"

record ('w, 'm) gpu =
  gpu_queues :: "'w queues"
  gpu_reached :: "event set"
  gpu_memory :: 'm

inductive gpu_step :: "('w \<Rightarrow> 'm \<Rightarrow> 'm) \<Rightarrow> ('w, 'm) gpu \<Rightarrow> ('w, 'm) gpu \<Rightarrow> bool"
  for exec :: "'w \<Rightarrow> 'm \<Rightarrow> 'm"
where
  step_run: "gpu_queues g s = Run w # q \<Longrightarrow>
    gpu_step exec g (g\<lparr>gpu_queues := (gpu_queues g)(s := q), gpu_memory := exec w (gpu_memory g)\<rparr>)"
| step_record: "gpu_queues g s = Record e # q \<Longrightarrow>
    gpu_step exec g (g\<lparr>gpu_queues := (gpu_queues g)(s := q), gpu_reached := insert e (gpu_reached g)\<rparr>)"
| step_wait: "gpu_queues g s = WaitFor e # q \<Longrightarrow> e \<in> gpu_reached g \<Longrightarrow>
    gpu_step exec g (g\<lparr>gpu_queues := (gpu_queues g)(s := q)\<rparr>)"

abbreviation gpu_steps :: "('w \<Rightarrow> 'm \<Rightarrow> 'm) \<Rightarrow> ('w, 'm) gpu \<Rightarrow> ('w, 'm) gpu \<Rightarrow> bool" where
  "gpu_steps exec \<equiv> (gpu_step exec)\<^sup>*\<^sup>*"

text \<open>\<^verbatim>\<open>torch.cuda.synchronize\<close>: everything issued has run.\<close>

definition gpu_idle :: "('w, 'm) gpu \<Rightarrow> bool" where
  "gpu_idle g \<longleftrightarrow> (\<forall>s. gpu_queues g s = [])"

section \<open>Ordered programs\<close>

primrec works :: "'w cuda_op list \<Rightarrow> 'w list" where
  "works [] = []"
| "works (x # q) = (case x of Run w \<Rightarrow> w # works q | _ \<Rightarrow> works q)"

primrec records :: "'w cuda_op list \<Rightarrow> event list" where
  "records [] = []"
| "records (x # q) = (case x of Record e \<Rightarrow> e # records q | _ \<Rightarrow> records q)"

definition waits :: "'w cuda_op list \<Rightarrow> event set" where
  "waits q = {e. WaitFor e \<in> set q}"

text \<open>The sequential run: first what is left to swap out, then what is left to swap in, then the rest.\<close>

definition sequential :: "('w \<Rightarrow> 'm \<Rightarrow> 'm) \<Rightarrow> ('w, 'm) gpu \<Rightarrow> 'm" where
  "sequential exec g = fold exec (works (gpu_queues g Swap_Out_Stream) @ works (gpu_queues g Swap_In_Stream) @
     works (gpu_queues g Compute_Stream)) (gpu_memory g)"

definition commute :: "('w \<Rightarrow> 'm \<Rightarrow> 'm) \<Rightarrow> 'w \<Rightarrow> 'w \<Rightarrow> bool" where
  "commute exec x y \<longleftrightarrow> (\<forall>m. exec x (exec y m) = exec y (exec x m))"

text \<open>
  \<open>q\<close> waits for \<open>p\<close> where it has to: an operation of \<open>q\<close> and one of \<open>p\<close> commute, or the one in \<open>q\<close>
  stands behind a wait for an event that \<open>p\<close> records behind the other.
\<close>

definition waits_for :: "('w \<Rightarrow> 'm \<Rightarrow> 'm) \<Rightarrow> 'w cuda_op list \<Rightarrow> 'w cuda_op list \<Rightarrow> bool" where
  "waits_for exec p q \<longleftrightarrow> (\<forall>a y b c x d. p = a @ Run y # b \<longrightarrow> q = c @ Run x # d \<longrightarrow>
     commute exec x y \<or> (\<exists>e. WaitFor e \<in> set c \<and> Record e \<in> set b))"

definition well_ordered :: "('w \<Rightarrow> 'm \<Rightarrow> 'm) \<Rightarrow> event set \<Rightarrow> 'w queues \<Rightarrow> bool" where
  "well_ordered exec reached q \<longleftrightarrow>
     waits_for exec (q Swap_Out_Stream) (q Swap_In_Stream) \<and>
     waits_for exec (q Swap_Out_Stream) (q Compute_Stream) \<and>
     waits_for exec (q Swap_In_Stream) (q Compute_Stream) \<and>
     distinct (records (q Swap_Out_Stream) @ records (q Swap_In_Stream) @ records (q Compute_Stream)) \<and>
     reached \<inter> (\<Union>s. set (records (q s))) = {} \<and>
     waits (q Swap_Out_Stream) \<subseteq> reached \<and>
     waits (q Swap_In_Stream) \<subseteq> reached \<union> set (records (q Swap_Out_Stream)) \<and>
     waits (q Compute_Stream) \<subseteq> reached \<union> set (records (q Swap_Out_Stream)) \<union> set (records (q Swap_In_Stream))"

lemma works_append [simp]: "works (p @ q) = works p @ works q"
  by (induction p) (auto split: cuda_op.split)

lemma records_append [simp]: "records (p @ q) = records p @ records q"
  by (induction p) (auto split: cuda_op.split)

lemma set_works: "w \<in> set (works q) \<longleftrightarrow> Run w \<in> set q"
  by (induction q) (auto split: cuda_op.splits)

lemma set_records: "e \<in> set (records q) \<longleftrightarrow> Record e \<in> set q"
  by (induction q) (auto split: cuda_op.splits)

lemma waits_simps [simp]:
  "waits [] = {}" "waits (Run w # q) = waits q" "waits (Record e # q) = waits q"
  "waits (WaitFor e # q) = insert e (waits q)" "waits (p @ q) = waits p \<union> waits q"
  by (auto simp: waits_def)

lemma waits_forD:
  "waits_for exec p (Run x # d) \<Longrightarrow> Run y \<in> set p \<Longrightarrow> commute exec x y"
  unfolding waits_for_def by (fastforce dest: split_list)

lemma waits_for_pop_left: "waits_for exec (h # p) q \<Longrightarrow> waits_for exec p q"
  unfolding waits_for_def by (metis append_Cons)

lemma waits_for_pop_right:
  assumes "waits_for exec p (h # q)" "\<And>e. h = WaitFor e \<Longrightarrow> e \<notin> set (records p)"
  shows "waits_for exec p q"
  unfolding waits_for_def
proof (intro allI impI)
  fix a y b c x d
  assume s: "p = a @ Run y # b" "q = c @ Run x # d"
  then have "h # q = (h # c) @ Run x # d" by simp
  with assms(1) s(1) consider "commute exec x y" | e where "WaitFor e \<in> set (h # c)" "Record e \<in> set b"
    unfolding waits_for_def by blast
  then show "commute exec x y \<or> (\<exists>e. WaitFor e \<in> set c \<and> Record e \<in> set b)"
  proof cases
    case (2 e)
    then have "e \<in> set (records p)" by (simp add: s(1) set_records)
    with 2 assms(2) show ?thesis by auto
  qed simp
qed

section \<open>Every interleaving is the sequential run\<close>

lemma fold_commute:
  assumes "\<And>y. y \<in> set ys \<Longrightarrow> commute exec x y"
  shows "fold exec ys (exec x m) = exec x (fold exec ys m)"
  using assms
proof (induction ys arbitrary: m)
  case (Cons y ys)
  then have "exec y (exec x m) = exec x (exec y m)" by (simp add: commute_def)
  with Cons show ?case by simp
qed simp

lemma sequential_run:
  assumes "gpu_queues g s = Run w # q" "well_ordered exec (gpu_reached g) (gpu_queues g)"
  shows "sequential exec (g\<lparr>gpu_queues := (gpu_queues g)(s := q), gpu_memory := exec w (gpu_memory g)\<rparr>) =
    sequential exec g"
proof (cases s)
  case Swap_Out_Stream
  with assms(1) show ?thesis by (simp add: sequential_def)
next
  case Swap_In_Stream
  have "commute exec w y" if "y \<in> set (works (gpu_queues g Swap_Out_Stream))" for y
    using assms that Swap_In_Stream by (auto simp: well_ordered_def set_works dest: waits_forD)
  then show ?thesis using Swap_In_Stream assms(1) by (simp add: sequential_def fold_commute)
next
  case Compute_Stream
  have "commute exec w y" if "y \<in> set (works (gpu_queues g Swap_Out_Stream)) \<union> set (works (gpu_queues g Swap_In_Stream))" for y
    using assms that Compute_Stream by (auto simp: well_ordered_def set_works dest: waits_forD)
  then show ?thesis using Compute_Stream assms(1) by (simp add: sequential_def fold_commute)
qed

lemma sequential_skip:
  assumes "gpu_queues g s = x # q" "\<And>w. x \<noteq> Run w"
  shows "sequential exec (g\<lparr>gpu_queues := (gpu_queues g)(s := q)\<rparr>) = sequential exec g"
  using assms by (cases x; cases s) (auto simp: sequential_def)

lemma well_ordered_pop:
  assumes "q s = x # q'" "well_ordered exec reached q" "\<And>e. x = WaitFor e \<Longrightarrow> e \<in> reached"
  shows "well_ordered exec (case x of Record e \<Rightarrow> insert e reached | _ \<Rightarrow> reached) (q(s := q'))"
proof -
  have U: "(\<Union>t. set (records (p t))) = set (records (p Swap_Out_Stream)) \<union> set (records (p Swap_In_Stream)) \<union>
    set (records (p Compute_Stream))" for p :: "'a queues"
    by (auto, metis cuda_stream.exhaust)
  have no: "e \<notin> set (records (q t))" if "x = WaitFor e" for e t
    using assms(2) assms(3) [OF that] unfolding well_ordered_def by (simp add: disjoint_iff)
  show ?thesis
    using assms no
    by (cases s; cases x)
      (auto simp: well_ordered_def U elim: waits_for_pop_left waits_for_pop_right)
qed

lemma gpu_step_ordered:
  assumes "gpu_step exec g h" "well_ordered exec (gpu_reached g) (gpu_queues g)"
  shows "well_ordered exec (gpu_reached h) (gpu_queues h) \<and> sequential exec h = sequential exec g"
  using assms
proof cases
  case (step_run s w q)
  then show ?thesis using well_ordered_pop [OF step_run(2) assms(2)] sequential_run [OF step_run(2) assms(2)] by simp
next
  case (step_record s e q)
  then show ?thesis using well_ordered_pop [OF step_record(2) assms(2)]
      sequential_skip [OF step_record(2), of exec] by (simp add: sequential_def)
next
  case (step_wait s e q)
  then show ?thesis using well_ordered_pop [OF step_wait(2) assms(2)]
      sequential_skip [OF step_wait(2), of exec] by simp
qed

text \<open>The operations left, which bound the number of steps.\<close>

definition ops_left :: "('w, 'm) gpu \<Rightarrow> nat" where
  "ops_left g = length (gpu_queues g Swap_Out_Stream) + length (gpu_queues g Swap_In_Stream) +
     length (gpu_queues g Compute_Stream)"

lemma gpu_step_decreases: "gpu_step exec g h \<Longrightarrow> ops_left h < ops_left g"
  by (erule gpu_step.cases; case_tac s) (auto simp: ops_left_def)

lemma head_can_step:
  assumes "gpu_queues g s = x # q" "\<And>e. x = WaitFor e \<Longrightarrow> e \<in> gpu_reached g"
  shows "\<exists>h. gpu_step exec g h"
  using assms by (cases x) (blast intro: gpu_step.intros)+

text \<open>While something is left to do, some stream can go on.\<close>

lemma not_stuck:
  assumes "well_ordered exec (gpu_reached g) (gpu_queues g)" "\<not> gpu_idle g"
  shows "\<exists>h. gpu_step exec g h"
proof -
  note w = assms(1) [unfolded well_ordered_def]
  show ?thesis
  proof (cases "gpu_queues g Swap_Out_Stream")
    case (Cons x q)
    then show ?thesis using w by (intro head_can_step [OF Cons]) auto
  next
    case out: Nil
    show ?thesis
    proof (cases "gpu_queues g Swap_In_Stream")
      case (Cons x q)
      then show ?thesis using w out by (intro head_can_step [OF Cons]) auto
    next
      case inn: Nil
      obtain x q where "gpu_queues g Compute_Stream = x # q"
        using assms(2) out inn by (auto simp: gpu_idle_def) (metis cuda_stream.exhaust neq_Nil_conv)
      then show ?thesis using w out inn by (intro head_can_step) auto
    qed
  qed
qed

lemma gpu_steps_ordered:
  assumes "gpu_steps exec g h" "well_ordered exec (gpu_reached g) (gpu_queues g)"
  shows "well_ordered exec (gpu_reached h) (gpu_queues h) \<and> sequential exec h = sequential exec g \<and> ops_left h \<le> ops_left g"
  using assms(1)
proof (induction rule: rtranclp_induct)
  case (step h k)
  then show ?case using gpu_step_ordered [OF step(2)] gpu_step_decreases [OF step(2)] by fastforce
qed (simp add: assms(2))

text \<open>
  Every run can be continued to its end, and at the end the memory is that of the sequential run.
\<close>

lemma runs_end:
  assumes "well_ordered exec (gpu_reached g) (gpu_queues g)"
  shows "\<exists>h. gpu_steps exec g h \<and> gpu_idle h"
  using assms
proof (induction "ops_left g" arbitrary: g rule: less_induct)
  case less
  show ?case
  proof (cases "gpu_idle g")
    case False
    then obtain h where h: "gpu_step exec g h" using not_stuck [OF less.prems] by blast
    from less.hyps [OF gpu_step_decreases [OF h]] gpu_step_ordered [OF h less.prems]
    obtain k where "gpu_steps exec h k" "gpu_idle k" by blast
    then show ?thesis using h by (blast intro: converse_rtranclp_into_rtranclp)
  qed blast
qed

lemma idle_is_sequential:
  assumes "well_ordered exec (gpu_reached g) (gpu_queues g)" "gpu_steps exec g h"
  shows "(gpu_idle h \<longrightarrow> gpu_memory h = sequential exec g) \<and> (\<exists>k. gpu_steps exec h k \<and> gpu_idle k)"
proof -
  note o = gpu_steps_ordered [OF assms(2,1)]
  then have "gpu_idle h \<longrightarrow> sequential exec h = gpu_memory h" by (simp add: gpu_idle_def sequential_def)
  then show ?thesis using o runs_end [of exec h] by auto
qed

end
