(* ===== verification/Cache_Engine.thy ===== *)
theory Cache_Engine
  imports Gpu_Streams Block_Interface Ellm_Cache
begin

text \<open>
  \<^verbatim>\<open>vllm/worker/cache_engine.py\<close> and the part of \<^verbatim>\<open>vllm/worker/worker.py\<close> that moves cache blocks:
  the methods issue block copies on CUDA streams. The method state is what has been issued so far and
  the next unused event. A copy of a block stands for the copies of its keys and its values.
\<close>

section \<open>Blocks in memory\<close>

text \<open>The caches of both devices: layer, block number, contents; and what the model hands on between layers.\<close>

datatype device = Gpu | Cpu

record ('v, 'h) gpu_mem =
  mem_cache :: "device \<Rightarrow> nat \<Rightarrow> nat \<Rightarrow> 'v"
  mem_hidden :: 'h

text \<open>
  The work issued: \<open>Move\<close> copies one block of one layer (an asynchronous copy of
  \<^verbatim>\<open>swap_blocks\<close> or a pair of the kernel \<^verbatim>\<open>copy_blocks\<close>), \<open>Layer\<close> runs the kernels of a model layer.
\<close>

datatype cache_work = Move device device nat nat nat | Layer nat

type_synonym ('v, 'h) layer_kernels = "nat \<Rightarrow> 'h \<Rightarrow> (nat \<Rightarrow> 'v) \<Rightarrow> 'h \<times> (nat \<Rightarrow> 'v)"

definition write_block ::
  "device \<Rightarrow> nat \<Rightarrow> nat \<Rightarrow> 'v \<Rightarrow> (device \<Rightarrow> nat \<Rightarrow> nat \<Rightarrow> 'v) \<Rightarrow> device \<Rightarrow> nat \<Rightarrow> nat \<Rightarrow> 'v"
where
  "write_block dev layer b v c = c(dev := (c dev)(layer := (c dev layer)(b := v)))"

primrec do_work :: "('v, 'h) layer_kernels \<Rightarrow> cache_work \<Rightarrow> ('v, 'h) gpu_mem \<Rightarrow> ('v, 'h) gpu_mem" where
  "do_work kernels (Move src dst layer a b) m =
     m\<lparr>mem_cache := write_block dst layer b (mem_cache m src layer a) (mem_cache m)\<rparr>"
| "do_work kernels (Layer i) m =
     (case kernels i (mem_hidden m) (mem_cache m Gpu i) of (h, c) \<Rightarrow>
        m\<lparr>mem_cache := (mem_cache m)(Gpu := (mem_cache m Gpu)(i := c)), mem_hidden := h\<rparr>)"

section \<open>Issuing work\<close>

record issued =
  is_queues :: "cache_work queues"
  is_next_event :: event

type_synonym 'a cuda = "(issued, 'a) pym"

definition issue :: "cuda_stream \<Rightarrow> cache_work cuda_op \<Rightarrow> unit cuda" where
  "issue s op = modify (\<lambda>d. d\<lparr>is_queues := (is_queues d)(s := is_queues d s @ [op])\<rparr>)"

text \<open>\<^verbatim>\<open>event = torch.cuda.Event(); event.record(s)\<close>\<close>

definition record_event :: "cuda_stream \<Rightarrow> event cuda" where
  "record_event s =
     bnd (gets is_next_event) (\<lambda>e.
     sq (modify (\<lambda>d. d\<lparr>is_next_event := Suc e\<rparr>))
    (sq (issue s (Record e)) (ret e)))"

definition wait_event :: "cuda_stream \<Rightarrow> event \<Rightarrow> unit cuda" where
  "wait_event s e = issue s (WaitFor e)"

text \<open>
  A mapping: \<^verbatim>\<open>torch.tensor(rows, dtype=torch.int64).view(-1, width)\<close>, whose rows must have one length;
  the width of an empty one is 2.
\<close>

record mapping_tensor =
  mt_width :: nat
  mt_rows :: "block_mapping list"

definition mapping_of :: "block_mapping list \<Rightarrow> py_error + mapping_tensor" where
  "mapping_of rows =
     (let width = (case rows of [] \<Rightarrow> 2 | r # _ \<Rightarrow> length r) in
      if list_all (\<lambda>r. length r = width) rows then Inr \<lparr>mt_width = width, mt_rows = rows\<rparr>
      else Inl (ValueError ''expected sequence of length''))"

text \<open>\<^verbatim>\<open>xs.unique().tolist()\<close>\<close>

definition unique_sorted :: "nat list \<Rightarrow> nat list" where
  "unique_sorted xs = sort (remdups xs)"

section \<open>The cache engine\<close>

text \<open>
  \<^verbatim>\<open>swap_blocks\<close> of an attention backend on one layer: one asynchronous copy after the other.
\<close>

definition swap_blocks :: "cuda_stream \<Rightarrow> device \<Rightarrow> device \<Rightarrow> nat \<Rightarrow> block_mapping list \<Rightarrow> unit cuda" where
  "swap_blocks s src dst layer rows = for_each rows (\<lambda>row. issue s (Run (Move src dst layer (row ! 0) (row ! 1))))"

text \<open>\<^verbatim>\<open>copy_blocks\<close>: one kernel for all pairs of all the layers it is given.\<close>

definition copy_blocks :: "cuda_stream \<Rightarrow> nat list \<Rightarrow> block_mapping list \<Rightarrow> unit cuda" where
  "copy_blocks s layers rows =
     for_each layers (\<lambda>layer. for_each rows (\<lambda>row. issue s (Run (Move Gpu Gpu layer (row ! 0) (row ! 1)))))"

definition layer_range :: "nat \<Rightarrow> nat \<Rightarrow> nat list" where
  "layer_range num_layers layer_group =
     (let layer_start = layer_group * DEFAULT_LAYER_GROUP_SIZE;
          layer_end = min (layer_start + DEFAULT_LAYER_GROUP_SIZE) num_layers in [layer_start..<layer_end])"

definition swap_layer_groups :: "nat \<Rightarrow> cuda_stream \<Rightarrow> device \<Rightarrow> device \<Rightarrow> block_mapping list \<Rightarrow> unit cuda" where
  "swap_layer_groups num_layers s src dst mappings =
     for_each (unique_sorted (map hd mappings)) (\<lambda>layer_group.
       let group_mappings = map tl (filter (\<lambda>row. hd row = layer_group) mappings) in
       for_each (layer_range num_layers layer_group) (\<lambda>layer_idx.
         swap_blocks s src dst layer_idx group_mappings))"

definition engine_swap :: "nat \<Rightarrow> cuda_stream \<Rightarrow> device \<Rightarrow> device \<Rightarrow> mapping_tensor \<Rightarrow> unit cuda" where
  "engine_swap num_layers s src dst src_to_dst =
     (if mt_width src_to_dst = 3 then swap_layer_groups num_layers s src dst (mt_rows src_to_dst)
      else for_each [0..<num_layers] (\<lambda>i. swap_blocks s src dst i (mt_rows src_to_dst)))"

definition engine_swap_in :: "nat \<Rightarrow> cuda_stream \<Rightarrow> mapping_tensor \<Rightarrow> unit cuda" where
  "engine_swap_in num_layers s = engine_swap num_layers s Cpu Gpu"

definition engine_swap_out :: "nat \<Rightarrow> cuda_stream \<Rightarrow> mapping_tensor \<Rightarrow> unit cuda" where
  "engine_swap_out num_layers s = engine_swap num_layers s Gpu Cpu"

text \<open>The events by layer group; the key \<open>-1\<close> stands for all layers.\<close>

definition engine_swap_in_async :: "nat \<Rightarrow> mapping_tensor \<Rightarrow> (int, event) pydict cuda" where
  "engine_swap_in_async num_layers src_to_dst =
     (if mt_rows src_to_dst = [] then ret []
      else if mt_width src_to_dst = 3 then
        fold_each (unique_sorted (map hd (mt_rows src_to_dst))) [] (\<lambda>events layer_group.
          let group_rows = filter (\<lambda>row. hd row = layer_group) (mt_rows src_to_dst) in
          sq (swap_layer_groups num_layers Swap_In_Stream Cpu Gpu group_rows)
         (bnd (record_event Swap_In_Stream) (\<lambda>event. ret (dset (int layer_group) event events))))
      else
        sq (engine_swap_in num_layers Swap_In_Stream src_to_dst)
       (bnd (record_event Swap_In_Stream) (\<lambda>event. ret [(- 1, event)])))"

definition engine_swap_out_async :: "nat \<Rightarrow> mapping_tensor \<Rightarrow> event option cuda" where
  "engine_swap_out_async num_layers src_to_dst =
     (if mt_rows src_to_dst = [] then ret None
      else
        sq (engine_swap_out num_layers Swap_Out_Stream src_to_dst)
       (bnd (record_event Swap_Out_Stream) (\<lambda>event. ret (Some event))))"

definition engine_copy :: "nat \<Rightarrow> mapping_tensor \<Rightarrow> unit cuda" where
  "engine_copy num_layers src_to_dsts =
     (if mt_width src_to_dsts = 3 then
        for_each (unique_sorted (map hd (mt_rows src_to_dsts))) (\<lambda>layer_group.
          let group_rows = filter (\<lambda>row. hd row = layer_group) (mt_rows src_to_dsts) in
          copy_blocks Compute_Stream (layer_range num_layers layer_group) (map tl group_rows))
      else copy_blocks Compute_Stream [0..<num_layers] (mt_rows src_to_dsts))"

definition get_cache_block_size :: "nat \<Rightarrow> nat \<Rightarrow> nat \<Rightarrow> nat \<Rightarrow> nat \<Rightarrow> nat" where
  "get_cache_block_size block_size num_heads head_size num_layers dtype_size =
     (let key_cache_block = block_size * num_heads * head_size; value_cache_block = key_cache_block;
          total = num_layers * (key_cache_block + value_cache_block) in dtype_size * total)"

section \<open>The worker\<close>

definition cache_swap :: "nat \<Rightarrow> mapping_tensor \<Rightarrow> mapping_tensor \<Rightarrow> mapping_tensor \<Rightarrow> unit cuda" where
  "cache_swap num_layers blocks_to_swap_in blocks_to_swap_out blocks_to_copy =
     sq (if mt_rows blocks_to_swap_in \<noteq> [] then engine_swap_in num_layers Compute_Stream blocks_to_swap_in else ret ())
    (sq (if mt_rows blocks_to_swap_out \<noteq> [] then engine_swap_out num_layers Compute_Stream blocks_to_swap_out else ret ())
    (if mt_rows blocks_to_copy \<noteq> [] then engine_copy num_layers blocks_to_copy else ret ()))"

text \<open>The columns of a mapping that hold the blocks read and the blocks written.\<close>

definition source_column :: "mapping_tensor \<Rightarrow> nat list" where
  "source_column mt = map (\<lambda>row. row ! (if mt_width mt = 3 then 1 else 0)) (mt_rows mt)"

definition destination_column :: "mapping_tensor \<Rightarrow> nat list" where
  "destination_column mt = map (\<lambda>row. row ! (if mt_width mt = 3 then 2 else 1)) (mt_rows mt)"

text \<open>\<^verbatim>\<open>torch.isin(xs, ys).any().item()\<close>\<close>

definition any_in :: "nat list \<Rightarrow> nat list \<Rightarrow> bool" where
  "any_in xs ys \<longleftrightarrow> list_ex (\<lambda>x. x \<in> set ys) xs"

definition cache_swap_async ::
  "nat \<Rightarrow> mapping_tensor \<Rightarrow> mapping_tensor \<Rightarrow> mapping_tensor \<Rightarrow> nat list \<Rightarrow>
   ((int, event) pydict \<times> event option \<times> bool) cuda"
where
  "cache_swap_async num_layers blocks_to_swap_in blocks_to_swap_out blocks_to_copy current_block_ids =
     bnd (engine_swap_out_async num_layers blocks_to_swap_out) (\<lambda>swap_out_event.
     bnd (case swap_out_event of
            None \<Rightarrow> ret False
          | Some e \<Rightarrow>
              let swap_out_sources = source_column blocks_to_swap_out in
              sq (if mt_rows blocks_to_swap_in \<noteq> [] \<and>
                     any_in (destination_column blocks_to_swap_in) swap_out_sources
                  then wait_event Swap_In_Stream e else ret ())
             (ret (current_block_ids \<noteq> [] \<and> any_in current_block_ids swap_out_sources))) (\<lambda>wait_for_swap_out.
     bnd (engine_swap_in_async num_layers blocks_to_swap_in) (\<lambda>swap_in_events.
     if mt_rows blocks_to_copy \<noteq> [] then
       sq (for_each (map snd swap_in_events) (wait_event Compute_Stream))
      (sq (case swap_out_event of
            None \<Rightarrow> ret ()
          | Some e \<Rightarrow> if any_in (destination_column blocks_to_copy) (source_column blocks_to_swap_out)
                     then wait_event Compute_Stream e else ret ())
      (sq (engine_copy num_layers blocks_to_copy)
      (ret ([], swap_out_event, wait_for_swap_out))))
     else ret (swap_in_events, swap_out_event, wait_for_swap_out))))"

text \<open>
  The forward pass of \<^verbatim>\<open>DeepseekV2Model\<close>, the model that takes the events: before the first layer of a
  group it waits for the group's blocks.
\<close>

definition deepseek_forward :: "nat \<Rightarrow> (int, event) pydict option \<Rightarrow> unit cuda" where
  "deepseek_forward num_layers layer_group_events =
     for_each [0..<num_layers] (\<lambda>i.
       sq (case layer_group_events of
             None \<Rightarrow> ret ()
           | Some events \<Rightarrow>
               if i mod DEFAULT_LAYER_GROUP_SIZE = 0 then
                 (case map_of events (int (i div DEFAULT_LAYER_GROUP_SIZE)) of
                    None \<Rightarrow> ret () | Some e \<Rightarrow> wait_event Compute_Stream e)
               else ret ())
      (issue Compute_Stream (Run (Layer i))))"

text \<open>
  \<^verbatim>\<open>Worker.execute_model\<close> for a request that is there: the transfers, the waits and the model. The
  model runner passes the events on only if there are any. The host's wait for the swap-out at the
  end issues nothing.
\<close>

definition worker_execute ::
  "nat \<Rightarrow> 'p ExecuteModelRequest \<Rightarrow> unit cuda"
where
  "worker_execute num_layers req =
     bnd (lift_err (\<lambda>_. mapping_of (emr_blocks_to_swap_in req))) (\<lambda>blocks_to_swap_in.
     bnd (lift_err (\<lambda>_. mapping_of (emr_blocks_to_swap_out req))) (\<lambda>blocks_to_swap_out.
     bnd (lift_err (\<lambda>_. mapping_of (emr_blocks_to_copy req))) (\<lambda>blocks_to_copy.
     bnd (cache_swap_async num_layers blocks_to_swap_in blocks_to_swap_out blocks_to_copy (emr_total_block_ids req))
       (\<lambda>(swap_in_events, swap_out_event, wait_for_swap_out).
     sq (case map_of swap_in_events (- 1) of None \<Rightarrow> ret () | Some e \<Rightarrow> wait_event Compute_Stream e)
    (sq (case swap_out_event of
           None \<Rightarrow> ret () | Some e \<Rightarrow> if wait_for_swap_out then wait_event Compute_Stream e else ret ())
    (let swap_in_events = ddel (- 1) swap_in_events in
     if emr_seq_group_metadata_list req = [] then ret ()
     else deepseek_forward num_layers (if swap_in_events = [] then None else Some swap_in_events)))))))"

end
