(* ===== verification/Cache_Engine_Facts.thy ===== *)
theory Cache_Engine_Facts
  imports Cache_Engine
begin

text \<open>
  What the worker issues, and that its events order what has to be ordered: the queues after
  \<open>worker_execute\<close> are well ordered, so every interleaving of the streams ends as the reference
  does, which runs the transfers row by row and then the layers.
\<close>

section \<open>Reference\<close>

definition layers_of :: "nat \<Rightarrow> mapping_tensor \<Rightarrow> block_mapping \<Rightarrow> nat list" where
  "layers_of num_layers mt row = (if mt_width mt = 3 then layer_range num_layers (hd row) else [0..<num_layers])"

definition row_source :: "mapping_tensor \<Rightarrow> block_mapping \<Rightarrow> nat" where
  "row_source mt row = row ! (if mt_width mt = 3 then 1 else 0)"

definition row_destination :: "mapping_tensor \<Rightarrow> block_mapping \<Rightarrow> nat" where
  "row_destination mt row = row ! (if mt_width mt = 3 then 2 else 1)"

definition row_moves :: "nat \<Rightarrow> device \<Rightarrow> device \<Rightarrow> mapping_tensor \<Rightarrow> block_mapping \<Rightarrow> cache_work list" where
  "row_moves num_layers src dst mt row =
     map (\<lambda>l. Move src dst l (row_source mt row) (row_destination mt row)) (layers_of num_layers mt row)"

text \<open>A transfer, row by row in all the layers the row is about.\<close>

definition transfer ::
  "nat \<Rightarrow> device \<Rightarrow> device \<Rightarrow> mapping_tensor \<Rightarrow> ('v, 'h) layer_kernels \<Rightarrow> ('v, 'h) gpu_mem \<Rightarrow> ('v, 'h) gpu_mem"
where
  "transfer num_layers src dst mt kernels =
     fold (\<lambda>row. fold (do_work kernels) (row_moves num_layers src dst mt row)) (mt_rows mt)"

definition run_layers :: "nat \<Rightarrow> ('v, 'h) layer_kernels \<Rightarrow> ('v, 'h) gpu_mem \<Rightarrow> ('v, 'h) gpu_mem" where
  "run_layers num_layers kernels = fold (\<lambda>i. do_work kernels (Layer i)) [0..<num_layers]"

section \<open>What is issued\<close>

definition put :: "cuda_stream \<Rightarrow> cache_work cuda_op list \<Rightarrow> issued \<Rightarrow> issued" where
  "put s ops d = d\<lparr>is_queues := (is_queues d)(s := is_queues d s @ ops)\<rparr>"

definition bump :: "nat \<Rightarrow> issued \<Rightarrow> issued" where
  "bump n d = d\<lparr>is_next_event := is_next_event d + n\<rparr>"

lemma put_simps [simp]:
  "put s [] d = d" "put s b (put s a d) = put s (a @ b) d" "put s a (bump n d) = bump n (put s a d)"
  "bump n (bump k d) = bump (k + n) d" "bump 0 d = d"
  "is_next_event (put s a d) = is_next_event d" "is_next_event (bump n d) = is_next_event d + n"
  "is_queues (put s a d) = (is_queues d)(s := is_queues d s @ a)" "is_queues (bump n d) = is_queues d"
  by (simp_all add: put_def bump_def)

definition puts :: "cuda_stream \<Rightarrow> cache_work cuda_op list \<Rightarrow> unit cuda \<Rightarrow> bool" where
  "puts s ops m \<longleftrightarrow> (\<forall>d. m d = (Inr (), put s ops d))"

lemma puts_ret: "puts s [] (ret ())"
  by (simp add: puts_def ret_def)

lemma puts_issue: "puts s [op] (issue s op)"
  by (simp add: puts_def issue_def modify_def put_def)

lemma puts_wait: "puts s [WaitFor e] (wait_event s e)"
  by (simp add: wait_event_def puts_issue)

lemma puts_sq: "puts s a m \<Longrightarrow> puts s b n \<Longrightarrow> puts s (a @ b) (sq m n)"
  by (simp add: puts_def sq_def bnd_def)

lemma puts_if: "(P \<Longrightarrow> puts s a m) \<Longrightarrow> (\<not> P \<Longrightarrow> puts s b n) \<Longrightarrow> puts s (if P then a else b) (if P then m else n)"
  by simp

lemma puts_for_each: "(\<And>x. puts s (f x) (body x)) \<Longrightarrow> puts s (concat (map f xs)) (for_each xs body)"
  unfolding for_each_def
proof (induction xs)
  case Nil
  then show ?case by (simp add: puts_ret)
next
  case (Cons x xs)
  then have "puts s (f x) (body x)" "puts s (concat (map f xs)) (fold_each xs () (\<lambda>_. body))" by blast+
  then show ?case by (simp add: puts_def bnd_def)
qed

lemma puts_run: "puts s ops m \<Longrightarrow> sq m n d = n (put s ops d)"
  by (simp add: puts_def sq_def bnd_def)

definition layer_moves :: "device \<Rightarrow> device \<Rightarrow> block_mapping list \<Rightarrow> nat \<Rightarrow> cache_work list" where
  "layer_moves src dst rows layer = map (\<lambda>row. Move src dst layer (row ! 0) (row ! 1)) rows"

definition group_moves :: "nat \<Rightarrow> device \<Rightarrow> device \<Rightarrow> block_mapping list \<Rightarrow> nat \<Rightarrow> cache_work list" where
  "group_moves num_layers src dst rows g =
     concat (map (layer_moves src dst (map tl (filter (\<lambda>row. hd row = g) rows))) (layer_range num_layers g))"

definition engine_moves :: "nat \<Rightarrow> device \<Rightarrow> device \<Rightarrow> mapping_tensor \<Rightarrow> cache_work list" where
  "engine_moves num_layers src dst mt =
     (if mt_width mt = 3 then concat (map (group_moves num_layers src dst (mt_rows mt)) (unique_sorted (map hd (mt_rows mt))))
      else concat (map (layer_moves src dst (mt_rows mt)) [0..<num_layers]))"

lemma map_concat_map: "map f (concat (map g xs)) = concat (map (\<lambda>x. map f (g x)) xs)"
  by (simp add: map_concat comp_def)

lemma concat_single: "concat (map (\<lambda>x. [f x]) xs) = map f xs"
  by (induction xs) simp_all

lemma puts_swap_blocks: "puts s (map Run (layer_moves src dst rows layer)) (swap_blocks s src dst layer rows)"
proof -
  have "puts s (concat (map (\<lambda>row. [Run (Move src dst layer (row ! 0) (row ! 1))]) rows)) (swap_blocks s src dst layer rows)"
    unfolding swap_blocks_def by (rule puts_for_each) (rule puts_issue)
  then show ?thesis by (simp add: layer_moves_def concat_single comp_def)
qed

lemma puts_swap_layer_groups:
  "puts s (map Run (concat (map (group_moves num_layers src dst rows) (unique_sorted (map hd rows)))))
    (swap_layer_groups num_layers s src dst rows)"
  unfolding swap_layer_groups_def group_moves_def map_concat_map Let_def
  by (intro puts_for_each puts_swap_blocks)

lemma puts_engine_swap: "puts s (map Run (engine_moves num_layers src dst mt)) (engine_swap num_layers s src dst mt)"
  unfolding engine_swap_def engine_moves_def
  by (simp add: puts_swap_layer_groups) (simp add: map_concat_map puts_for_each puts_swap_blocks)

lemma puts_copy_blocks:
  "puts s (map Run (concat (map (layer_moves Gpu Gpu rows) layers))) (copy_blocks s layers rows)"
proof -
  have "puts s (concat (map (\<lambda>l. concat (map (\<lambda>row. [Run (Move Gpu Gpu l (row ! 0) (row ! 1))]) rows)) layers)) (copy_blocks s layers rows)"
    unfolding copy_blocks_def by (intro puts_for_each puts_issue)
  then show ?thesis by (simp add: map_concat_map layer_moves_def concat_single comp_def)
qed

lemma puts_engine_copy: "puts Compute_Stream (map Run (engine_moves num_layers Gpu Gpu mt)) (engine_copy num_layers mt)"
proof (cases "mt_width mt = 3")
  case True
  then show ?thesis
    unfolding engine_copy_def engine_moves_def group_moves_def Let_def
    by (simp add: map_concat_map) (intro puts_for_each, use puts_copy_blocks in \<open>simp add: map_concat_map\<close>)
next
  case False
  then show ?thesis using puts_copy_blocks by (simp add: engine_copy_def engine_moves_def)
qed

lemma unique_single: "rows \<noteq> [] \<Longrightarrow> (\<And>row. row \<in> set rows \<Longrightarrow> hd row = g) \<Longrightarrow> unique_sorted (map hd rows) = [g]"
proof -
  assume "rows \<noteq> []" "\<And>row. row \<in> set rows \<Longrightarrow> hd row = g"
  then have "set (map hd rows) = {g}" by (cases rows) auto
  then have "set (remdups (map hd rows)) = {g}" "distinct (remdups (map hd rows))" by auto
  then have "remdups (map hd rows) = [g]"
    by (metis distinct_length_2_or_more empty_iff empty_set insert_iff list.exhaust list.set_intros(1) list.set_intros(2))
  then show ?thesis by (simp add: unique_sorted_def)
qed

text \<open>The rows of one group alone.\<close>

lemma puts_one_group:
  assumes "g \<in> hd ` set rows"
  shows "puts s (map Run (group_moves num_layers src dst rows g))
    (swap_layer_groups num_layers s src dst (filter (\<lambda>row. hd row = g) rows))"
proof -
  let ?r = "filter (\<lambda>row. hd row = g) rows"
  have "unique_sorted (map hd ?r) = [g]" using assms by (intro unique_single) (auto simp: filter_empty_conv)
  then show ?thesis
    using puts_swap_layer_groups [where s = s and num_layers = num_layers and src = src and dst = dst and rows = ?r]
    by (simp add: group_moves_def)
qed

lemma record_event_run:
  "bnd (record_event s) k d = k (is_next_event d) (bump 1 (put s [Record (is_next_event d)] d))"
  by (cases d) (simp add: record_event_def issue_def put_def bump_def bnd_def sq_def gets_def modify_def ret_def)

text \<open>The swap-in: for every key of the events its moves, and behind them the event.\<close>

definition in_moves :: "nat \<Rightarrow> mapping_tensor \<Rightarrow> int \<Rightarrow> cache_work list" where
  "in_moves num_layers mt k =
     (if mt_width mt = 3 then group_moves num_layers Cpu Gpu (mt_rows mt) (nat k) else engine_moves num_layers Cpu Gpu mt)"

definition in_chunks :: "nat \<Rightarrow> mapping_tensor \<Rightarrow> (int, event) pydict \<Rightarrow> cache_work cuda_op list" where
  "in_chunks num_layers mt evs = concat (map (\<lambda>(k, e). map Run (in_moves num_layers mt k) @ [Record e]) evs)"

definition in_keys :: "mapping_tensor \<Rightarrow> int list" where
  "in_keys mt = (if mt_rows mt = [] then [] else if mt_width mt = 3 then map int (unique_sorted (map hd (mt_rows mt))) else [- 1])"

definition events_from :: "event \<Rightarrow> mapping_tensor \<Rightarrow> (int, event) pydict" where
  "events_from n mt = zip (in_keys mt) [n..<n + length (in_keys mt)]"

lemma swap_in_groups_run:
  assumes "distinct gs" "set gs \<subseteq> hd ` set (mt_rows mt)" "int ` set gs \<inter> fst ` set acc = {}" "mt_width mt = 3"
  shows "fold_each gs acc (\<lambda>events layer_group.
      let group_rows = filter (\<lambda>row. hd row = layer_group) (mt_rows mt) in
      sq (swap_layer_groups num_layers Swap_In_Stream Cpu Gpu group_rows)
     (bnd (record_event Swap_In_Stream) (\<lambda>event. ret (dset (int layer_group) event events)))) d =
    (let evs = zip (map int gs) [is_next_event d..<is_next_event d + length gs] in
     (Inr (acc @ evs), bump (length gs) (put Swap_In_Stream (in_chunks num_layers mt evs) d)))"
  using assms(1-3)
proof (induction gs arbitrary: acc d)
  case Nil
  then show ?case by (simp add: ret_def in_chunks_def)
next
  case (Cons g gs)
  have p: "puts Swap_In_Stream (map Run (group_moves num_layers Cpu Gpu (mt_rows mt) g))
      (swap_layer_groups num_layers Swap_In_Stream Cpu Gpu (filter (\<lambda>row. hd row = g) (mt_rows mt)))"
    using Cons.prems by (intro puts_one_group) auto
  have "int g \<notin> fst ` set acc" using Cons.prems by auto
  then have new: "dset (int g) e acc = acc @ [(int g, e)]" for e
    by (induction acc) auto
  have "fold_each (g # gs) acc (\<lambda>events layer_group.
      let group_rows = filter (\<lambda>row. hd row = layer_group) (mt_rows mt) in
      sq (swap_layer_groups num_layers Swap_In_Stream Cpu Gpu group_rows)
     (bnd (record_event Swap_In_Stream) (\<lambda>event. ret (dset (int layer_group) event events)))) d =
    fold_each gs (acc @ [(int g, is_next_event d)]) (\<lambda>events layer_group.
      let group_rows = filter (\<lambda>row. hd row = layer_group) (mt_rows mt) in
      sq (swap_layer_groups num_layers Swap_In_Stream Cpu Gpu group_rows)
     (bnd (record_event Swap_In_Stream) (\<lambda>event. ret (dset (int layer_group) event events))))
     (bump 1 (put Swap_In_Stream (in_chunks num_layers mt [(int g, is_next_event d)]) d))"
    by (simp add: bnd_def [of "sq _ _"] puts_run [OF p] record_event_run ret_def new in_chunks_def in_moves_def assms(4))
  also have "\<dots> = (let evs = zip (map int (g # gs)) [is_next_event d..<is_next_event d + length (g # gs)] in
     (Inr (acc @ evs), bump (length (g # gs)) (put Swap_In_Stream (in_chunks num_layers mt evs) d)))"
    using Cons.prems by (subst Cons.IH) (auto simp: Let_def in_chunks_def upt_conv_Cons simp del: upt_Suc)
  finally show ?case .
qed

lemma unique_sorted_simps [simp]: "distinct (unique_sorted xs)" "set (unique_sorted xs) = set xs"
  by (simp_all add: unique_sorted_def)

lemma swap_in_async_run:
  "engine_swap_in_async num_layers mt d =
     (let n = is_next_event d; evs = events_from n mt in
      (Inr evs, bump (length (in_keys mt)) (put Swap_In_Stream (in_chunks num_layers mt evs) d)))"
proof (cases "mt_rows mt \<noteq> [] \<and> mt_width mt = 3")
  case True
  then show ?thesis
    using swap_in_groups_run [where gs = "unique_sorted (map hd (mt_rows mt))" and acc = "[]" and mt = mt and
        num_layers = num_layers and d = d]
    by (simp add: engine_swap_in_async_def events_from_def in_keys_def Let_def)
next
  case False
  then show ?thesis
    by (auto simp: engine_swap_in_async_def engine_swap_in_def puts_run [OF puts_engine_swap] record_event_run ret_def
        events_from_def in_keys_def in_chunks_def in_moves_def Let_def)
qed


section \<open>The queues of a step\<close>

definition out_ops :: "event \<Rightarrow> nat \<Rightarrow> mapping_tensor \<Rightarrow> cache_work cuda_op list" where
  "out_ops e num_layers mo =
     (if mt_rows mo = [] then [] else map Run (engine_moves num_layers Gpu Cpu mo) @ [Record e])"

definition wait_if :: "bool \<Rightarrow> event \<Rightarrow> cache_work cuda_op list" where
  "wait_if b e = (if b then [WaitFor e] else [])"

definition in_waits :: "mapping_tensor \<Rightarrow> mapping_tensor \<Rightarrow> bool" where
  "in_waits mi mo \<longleftrightarrow> mt_rows mo \<noteq> [] \<and> mt_rows mi \<noteq> [] \<and> any_in (destination_column mi) (source_column mo)"

definition copy_waits :: "mapping_tensor \<Rightarrow> mapping_tensor \<Rightarrow> bool" where
  "copy_waits mc mo \<longleftrightarrow> mt_rows mo \<noteq> [] \<and> any_in (destination_column mc) (source_column mo)"

definition step_waits :: "nat list \<Rightarrow> mapping_tensor \<Rightarrow> bool" where
  "step_waits cur mo \<longleftrightarrow> mt_rows mo \<noteq> [] \<and> cur \<noteq> [] \<and> any_in cur (source_column mo)"

definition copy_ops ::
  "event \<Rightarrow> nat \<Rightarrow> mapping_tensor \<Rightarrow> mapping_tensor \<Rightarrow> (int, event) pydict \<Rightarrow> cache_work cuda_op list"
where
  "copy_ops e num_layers mc mo evs =
     (if mt_rows mc = [] then []
      else map WaitFor (map snd evs) @ wait_if (copy_waits mc mo) e @ map Run (engine_moves num_layers Gpu Gpu mc))"

definition layer_wait :: "(int, event) pydict \<Rightarrow> nat \<Rightarrow> cache_work cuda_op list" where
  "layer_wait evs i =
     (if i mod DEFAULT_LAYER_GROUP_SIZE = 0 then
        (case map_of evs (int (i div DEFAULT_LAYER_GROUP_SIZE)) of None \<Rightarrow> [] | Some e \<Rightarrow> [WaitFor e])
      else [])"

definition layer_ops :: "nat \<Rightarrow> (int, event) pydict \<Rightarrow> cache_work cuda_op list" where
  "layer_ops num_layers evs = concat (map (\<lambda>i. layer_wait evs i @ [Run (Layer i)]) [0..<num_layers])"

definition global_wait :: "(int, event) pydict \<Rightarrow> cache_work cuda_op list" where
  "global_wait evs = (case map_of evs (- 1) of None \<Rightarrow> [] | Some e \<Rightarrow> [WaitFor e])"

text \<open>The events of the swap-in, and those the model still waits for.\<close>

definition in_events :: "event \<Rightarrow> mapping_tensor \<Rightarrow> mapping_tensor \<Rightarrow> (int, event) pydict" where
  "in_events n mi mo = events_from (if mt_rows mo = [] then n else Suc n) mi"

definition open_events :: "event \<Rightarrow> mapping_tensor \<Rightarrow> mapping_tensor \<Rightarrow> mapping_tensor \<Rightarrow> (int, event) pydict" where
  "open_events n mi mo mc = (if mt_rows mc = [] then in_events n mi mo else [])"

definition compute_ops ::
  "event \<Rightarrow> nat \<Rightarrow> mapping_tensor \<Rightarrow> mapping_tensor \<Rightarrow> mapping_tensor \<Rightarrow> nat list \<Rightarrow> bool \<Rightarrow> cache_work cuda_op list"
where
  "compute_ops n num_layers mi mo mc cur model =
     copy_ops n num_layers mc mo (in_events n mi mo) @ global_wait (open_events n mi mo mc) @ wait_if (step_waits cur mo) n @
     (if model then layer_ops num_layers (ddel (- 1) (open_events n mi mo mc)) else [])"

lemma puts_wait_if: "puts s (wait_if b e) (if b then wait_event s e else ret ())"
  by (simp add: wait_if_def puts_wait puts_ret)

lemma swap_out_async_run:
  "engine_swap_out_async num_layers mo d =
     (let n = is_next_event d in
      (Inr (if mt_rows mo = [] then None else Some n),
       bump (if mt_rows mo = [] then 0 else 1) (put Swap_Out_Stream (out_ops n num_layers mo) d)))"
  by (simp add: engine_swap_out_async_def engine_swap_out_def puts_run [OF puts_engine_swap] record_event_run
      out_ops_def ret_def Let_def)

lemma wait_all: "puts s (map WaitFor es) (for_each es (wait_event s))"
proof -
  have "puts s (concat (map (\<lambda>e. [WaitFor e]) es)) (for_each es (wait_event s))"
    by (rule puts_for_each) (rule puts_wait)
  then show ?thesis by (simp add: concat_single)
qed

lemma puts_layers:
  "puts Compute_Stream (layer_ops num_layers (case oe of None \<Rightarrow> [] | Some evs \<Rightarrow> evs)) (deepseek_forward num_layers oe)"
  unfolding deepseek_forward_def layer_ops_def
  by (intro puts_for_each puts_sq puts_issue)
    (auto simp: layer_wait_def puts_ret puts_wait split: option.split)

lemma cache_swap_async_run:
  "cache_swap_async num_layers mi mo mc cur d =
     (let n = is_next_event d; evs = in_events n mi mo in
      (Inr (open_events n mi mo mc, if mt_rows mo = [] then None else Some n, step_waits cur mo),
       bump ((if mt_rows mo = [] then 0 else 1) + length (in_keys mi))
         (put Compute_Stream (copy_ops n num_layers mc mo evs)
         (put Swap_In_Stream (wait_if (in_waits mi mo) n @ in_chunks num_layers mi evs)
         (put Swap_Out_Stream (out_ops n num_layers mo) d)))))"
proof -
  note w = puts_run [OF puts_wait_if]
  have pair: "bnd (Pair (Inr x)) k s = k x s" "sq (Pair (Inr x)) m s = m s"
    for x :: 'x and k :: "'x \<Rightarrow> 'y cuda" and m :: "'y cuda" and s by (simp_all add: bnd_def sq_def)
  show ?thesis
    unfolding cache_swap_async_def
    by (cases "mt_rows mo = []"; cases "mt_rows mc = []")
      (simp_all add: bnd_def [of "engine_swap_out_async _ _"] bnd_def [of "engine_swap_in_async _ _"] bnd_def [of "sq _ _"]
        bnd_def [of "ret _"]
        swap_out_async_run swap_in_async_run Let_def in_events_def open_events_def step_waits_def copy_waits_def in_waits_def
        ret_def [of False] w ret_def pair puts_run [OF wait_all] puts_run [OF puts_engine_copy] copy_ops_def wait_if_def)
qed


definition worker_queues ::
  "event \<Rightarrow> nat \<Rightarrow> mapping_tensor \<Rightarrow> mapping_tensor \<Rightarrow> mapping_tensor \<Rightarrow> nat list \<Rightarrow> bool \<Rightarrow> cache_work queues"
where
  "worker_queues n num_layers mi mo mc cur model s =
     (case s of
        Swap_Out_Stream \<Rightarrow> out_ops n num_layers mo
      | Swap_In_Stream \<Rightarrow> wait_if (in_waits mi mo) n @ in_chunks num_layers mi (in_events n mi mo)
      | Compute_Stream \<Rightarrow> compute_ops n num_layers mi mo mc cur model)"

lemma puts_global_wait:
  "puts Compute_Stream (global_wait evs) (case map_of evs (- 1) of None \<Rightarrow> ret () | Some e \<Rightarrow> wait_event Compute_Stream e)"
  by (auto simp: global_wait_def puts_ret puts_wait split: option.split)

lemma worker_execute_run:
  assumes "mapping_of (emr_blocks_to_swap_in req) = Inr mi" "mapping_of (emr_blocks_to_swap_out req) = Inr mo"
    and "mapping_of (emr_blocks_to_copy req) = Inr mc" "\<And>s. is_queues d s = []"
  shows "\<exists>t. worker_execute num_layers req d = (Inr (), t) \<and> is_queues t =
    worker_queues (is_next_event d) num_layers mi mo mc (emr_total_block_ids req) (emr_seq_group_metadata_list req \<noteq> [])"
proof -
  let ?evs = "open_events (is_next_event d) mi mo mc"
  have out: "puts Compute_Stream (wait_if (step_waits (emr_total_block_ids req) mo) (is_next_event d))
      (case if mt_rows mo = [] then None else Some (is_next_event d) of None \<Rightarrow> ret ()
       | Some e \<Rightarrow> if step_waits (emr_total_block_ids req) mo then wait_event Compute_Stream e else ret ())"
    by (auto simp: step_waits_def wait_if_def puts_ret puts_wait)
  let ?rest = "ddel (- 1) ?evs"
  have layers: "puts Compute_Stream (if emr_seq_group_metadata_list req \<noteq> [] then layer_ops num_layers ?rest else [])
      (if emr_seq_group_metadata_list req = [] then ret ()
       else deepseek_forward num_layers (if ?rest = [] then None else Some ?rest))"
    using puts_layers [of num_layers "if ?rest = [] then None else Some ?rest"] by (auto simp: puts_ret)
  have queues: "(is_queues d)(Swap_Out_Stream := a, Swap_In_Stream := b, Compute_Stream := c) =
      (\<lambda>s. case s of Swap_Out_Stream \<Rightarrow> a | Swap_In_Stream \<Rightarrow> b | Compute_Stream \<Rightarrow> c)" for a b c
    by (rule ext) (auto split: cuda_stream.split)
  have lift: "x = Inr y \<Longrightarrow> bnd (lift_err (\<lambda>_. x)) k s = k y s" for x :: "py_error + mapping_tensor" and y and k :: "mapping_tensor \<Rightarrow> unit cuda" and s
    by (simp add: run_lift_Inr)
  let ?d = "put Compute_Stream (copy_ops (is_next_event d) num_layers mc mo (in_events (is_next_event d) mi mo))
    (put Swap_In_Stream (wait_if (in_waits mi mo) (is_next_event d) @ in_chunks num_layers mi (in_events (is_next_event d) mi mo))
    (put Swap_Out_Stream (out_ops (is_next_event d) num_layers mo) d))"
  have "worker_execute num_layers req d = (Inr (),
      put Compute_Stream (if emr_seq_group_metadata_list req \<noteq> [] then layer_ops num_layers ?rest else [])
     (put Compute_Stream (wait_if (step_waits (emr_total_block_ids req) mo) (is_next_event d))
     (put Compute_Stream (global_wait ?evs)
     (bump ((if mt_rows mo = [] then 0 else 1) + length (in_keys mi)) ?d))))"
    unfolding worker_execute_def
    by (subst lift [OF assms(1)], subst lift [OF assms(2)], subst lift [OF assms(3)], subst bnd_def, subst cache_swap_async_run)
      (simp only: Let_def prod.case sum.case puts_run [OF puts_global_wait] puts_run [OF out] layers [unfolded puts_def])
  then show ?thesis using assms(4)
    by (simp add: worker_queues_def [abs_def] queues compute_ops_def)
qed

end
