(* ===== verification/Cache_Engine_Order.thy ===== *)
theory Cache_Engine_Order
  imports Cache_Engine_Facts
begin

text \<open>
  The events the worker records and waits for order every pair of conflicting operations, given that no
  CPU block is swapped in from and swapped out to in one step.
\<close>

section \<open>Commuting work\<close>

lemma commute_moves:
  "l \<noteq> l' \<or> ((dst, b) \<noteq> (src', a') \<and> (dst', b') \<noteq> (src, a) \<and> (dst, b) \<noteq> (dst', b')) \<Longrightarrow>
   commute (do_work kernels) (Move src dst l a b) (Move src' dst' l' a' b')"
  by (auto simp: commute_def write_block_def fun_eq_iff intro!: gpu_mem.equality)

definition writes_only :: "nat set \<Rightarrow> ('v, 'h) layer_kernels \<Rightarrow> bool" where
  "writes_only B kernels \<longleftrightarrow> (\<forall>i h c b. b \<notin> B \<longrightarrow> snd (kernels i h c) b = c b)"

lemma commute_layer_in: "i \<noteq> l \<Longrightarrow> commute (do_work kernels) (Layer i) (Move src Gpu l a b)"
  unfolding commute_def
  by (auto simp: write_block_def fun_eq_iff split: prod.split intro!: gpu_mem.equality)

lemma commute_layer_out:
  fixes kernels :: "('a, 'b) layer_kernels"
  assumes "writes_only B kernels" "a \<notin> B"
  shows "commute (do_work kernels) (Layer i) (Move Gpu Cpu l a b)"
  unfolding commute_def
proof (intro allI)
  fix m :: "('a, 'b) gpu_mem"
  obtain h c where k: "kernels i (mem_hidden m) (mem_cache m Gpu i) = (h, c)" by (metis prod.exhaust)
  then have "c a = mem_cache m Gpu i a" using assms unfolding writes_only_def by (metis snd_conv)
  then show "do_work kernels (Layer i) (do_work kernels (Move Gpu Cpu l a b) m) =
      do_work kernels (Move Gpu Cpu l a b) (do_work kernels (Layer i) m)"
    using k by (auto simp: write_block_def fun_eq_iff intro!: gpu_mem.equality)
qed

section \<open>Moves and rows\<close>

definition mapping_ok :: "mapping_tensor \<Rightarrow> bool" where
  "mapping_ok mt \<longleftrightarrow> 2 \<le> mt_width mt \<and> (\<forall>row \<in> set (mt_rows mt). length row = mt_width mt)"

lemma mapping_of_ok:
  assumes "mapping_of rows = Inr mt" "\<forall>row \<in> set rows. length row \<in> {2, 3}"
  shows "mapping_ok mt" "mt_rows mt = rows"
proof -
  let ?w = "case rows of [] \<Rightarrow> 2 | r # _ \<Rightarrow> length r"
  from assms(1) have "list_all (\<lambda>r. length r = ?w) rows" "mt = \<lparr>mt_width = ?w, mt_rows = rows\<rparr>"
    by (simp_all add: mapping_of_def Let_def split: if_split_asm)
  moreover have "2 \<le> ?w" using assms(2) by (cases rows) auto
  ultimately show "mapping_ok mt" "mt_rows mt = rows" by (simp_all add: mapping_ok_def list_all_iff)
qed

lemma layer_range_iff: "l \<in> set (layer_range N g) \<longleftrightarrow> l < N \<and> l div DEFAULT_LAYER_GROUP_SIZE = g"
  by (auto simp: layer_range_def DEFAULT_LAYER_GROUP_SIZE_def Let_def)

lemma group_moves_row:
  assumes "mapping_ok mt" "mt_width mt = 3" "w \<in> set (group_moves N src dst (mt_rows mt) g)"
  obtains row l where "row \<in> set (mt_rows mt)" "l \<in> set (layers_of N mt row)" "l div DEFAULT_LAYER_GROUP_SIZE = g"
    "w = Move src dst l (row_source mt row) (row_destination mt row)"
proof -
  from assms(3) obtain row l where r: "row \<in> set (mt_rows mt)" "hd row = g" "l \<in> set (layer_range N g)"
    "w = Move src dst l (tl row ! 0) (tl row ! 1)" by (auto simp: group_moves_def layer_moves_def)
  moreover have "length row = 3" using assms r by (simp add: mapping_ok_def)
  then have "tl row ! 0 = row ! 1" "tl row ! 1 = row ! 2" by (simp_all add: nth_tl numeral_2_eq_2)
  ultimately show thesis using that assms(2)
    by (simp add: layers_of_def row_source_def row_destination_def layer_range_iff)
qed

lemma engine_moves_row:
  assumes "mapping_ok mt" "w \<in> set (engine_moves N src dst mt)"
  obtains row l where "row \<in> set (mt_rows mt)" "l \<in> set (layers_of N mt row)"
    "w = Move src dst l (row_source mt row) (row_destination mt row)"
proof (cases "mt_width mt = 3")
  case True
  then obtain g where "w \<in> set (group_moves N src dst (mt_rows mt) g)"
    using assms(2) by (auto simp: engine_moves_def)
  then show thesis using group_moves_row [OF assms(1) True] that by metis
next
  case False
  then show thesis using assms(2) that
    by (auto simp: engine_moves_def layer_moves_def layers_of_def row_source_def row_destination_def)
qed

lemma in_moves_row:
  assumes "mapping_ok mt" "w \<in> set (in_moves N mt k)"
  obtains row l where "row \<in> set (mt_rows mt)" "l \<in> set (layers_of N mt row)"
    "mt_width mt = 3 \<Longrightarrow> l div DEFAULT_LAYER_GROUP_SIZE = nat k"
    "w = Move Cpu Gpu l (row_source mt row) (row_destination mt row)"
proof (cases "mt_width mt = 3")
  case True
  then show thesis using assms that by (auto simp: in_moves_def elim: group_moves_row)
next
  case False
  then show thesis using assms that by (auto simp: in_moves_def elim: engine_moves_row)
qed

lemma columns [simp]:
  "set (source_column mt) = row_source mt ` set (mt_rows mt)"
  "set (destination_column mt) = row_destination mt ` set (mt_rows mt)"
  by (auto simp: source_column_def destination_column_def row_source_def row_destination_def)

lemma any_in_iff: "any_in xs ys \<longleftrightarrow> set xs \<inter> set ys \<noteq> {}"
  by (auto simp: any_in_def list_ex_iff)

section \<open>Order by events\<close>

lemma waits_for_append_left:
  assumes "waits_for exec p q" "waits_for exec p' q"
  shows "waits_for exec (p @ p') q"
  unfolding waits_for_def
proof (intro allI impI)
  fix a y b c x d
  assume s: "p @ p' = a @ Run y # b" "q = c @ Run x # d"
  from s(1) consider t where "p = a @ Run y # t" "b = t @ p'" | t where "a = p @ t" "p' = t @ Run y # b"
    by (auto simp: append_eq_append_conv2 append_eq_Cons_conv)
  then show "commute exec x y \<or> (\<exists>e. WaitFor e \<in> set c \<and> Record e \<in> set b)"
  proof cases
    case (1 t)
    then show ?thesis using assms(1) s(2) unfolding waits_for_def by (metis UnCI set_append)
  next
    case (2 t)
    then show ?thesis using assms(2) s(2) unfolding waits_for_def by blast
  qed
qed

lemma waits_for_no_work: "works p = [] \<Longrightarrow> waits_for exec p q"
  by (auto simp: waits_for_def)

definition behind :: "event \<Rightarrow> ('w \<Rightarrow> bool) \<Rightarrow> 'w cuda_op list \<Rightarrow> bool" where
  "behind e P q \<longleftrightarrow> (\<forall>c x d. q = c @ Run x # d \<longrightarrow> P x \<or> WaitFor e \<in> set c)"

lemma waits_for_chunk:
  assumes "behind e (\<lambda>x. \<forall>y \<in> set ys. commute exec x y) q"
  shows "waits_for exec (map Run ys @ [Record e]) q"
  unfolding waits_for_def
proof (intro allI impI)
  fix a y b c x d
  assume s: "map Run ys @ [Record e] = a @ Run y # b" "q = c @ Run x # d"
  have "Run y \<in> set (map Run ys @ [Record e])" unfolding s(1) by simp
  then have "y \<in> set ys" by auto
  moreover have "b \<noteq> [] \<and> last b = Record e"
    using arg_cong [OF s(1), of last] by (cases "b = []") auto
  then have "Record e \<in> set b" by (metis last_in_set)
  ultimately show "commute exec x y \<or> (\<exists>e. WaitFor e \<in> set c \<and> Record e \<in> set b)"
    using assms s(2) unfolding behind_def by blast
qed

lemma behind_append:
  assumes "behind e P p" "WaitFor e \<in> set p \<or> behind e P q"
  shows "behind e P (p @ q)"
  unfolding behind_def
proof (intro allI impI)
  fix c x d
  assume "p @ q = c @ Run x # d"
  then consider t where "p = c @ Run x # t" | t where "c = p @ t" "q = t @ Run x # d"
    by (auto simp: append_eq_append_conv2 append_eq_Cons_conv)
  then show "P x \<or> WaitFor e \<in> set c"
  proof cases
    case (1 t)
    then show ?thesis using assms(1) unfolding behind_def by blast
  next
    case (2 t)
    then show ?thesis using assms(2) unfolding behind_def by auto
  qed
qed

lemma behind_works: "(\<And>x. x \<in> set (works q) \<Longrightarrow> P x) \<Longrightarrow> behind e P q"
  by (auto simp: behind_def)

lemma behind_Nil [simp]: "behind e P []"
  by (simp add: behind_def)

lemma behind_layers:
  assumes "\<And>i. i < N \<Longrightarrow> P (Layer i) \<or> (\<exists>j \<le> i. WaitFor e \<in> set (layer_wait evs j))"
  shows "behind e P (layer_ops N evs)"
  using assms
proof (induction N)
  case 0
  then show ?case by (simp add: layer_ops_def)
next
  case (Suc N)
  have none: "works (layer_wait evs j) = []" for j by (simp add: layer_wait_def split: option.split)
  have "P (Layer N) \<or> WaitFor e \<in> set (layer_ops N evs) \<or> WaitFor e \<in> set (layer_wait evs N)"
    using Suc.prems [of N] by (auto simp: layer_ops_def le_less)
  moreover have "behind e P (layer_wait evs N)" by (rule behind_works) (simp add: none)
  moreover have "P (Layer N) \<Longrightarrow> behind e P [Run (Layer N)]" by (rule behind_works) simp
  ultimately have "WaitFor e \<in> set (layer_ops N evs) \<or> behind e P (layer_wait evs N @ [Run (Layer N)])"
    using behind_append by blast
  moreover have "behind e P (layer_ops N evs)" using Suc by simp
  ultimately have "behind e P (layer_ops N evs @ (layer_wait evs N @ [Run (Layer N)]))" by (intro behind_append)
  then show ?case by (simp add: layer_ops_def)
qed

section \<open>The worker's program is ordered\<close>

text \<open>In no layer is a CPU block read by a swap-in and written by a swap-out of the same step.\<close>

definition cpu_apart :: "nat \<Rightarrow> mapping_tensor \<Rightarrow> mapping_tensor \<Rightarrow> bool" where
  "cpu_apart N mi mo \<longleftrightarrow> (\<forall>r \<in> set (mt_rows mi). \<forall>r' \<in> set (mt_rows mo).
     set (layers_of N mi r) \<inter> set (layers_of N mo r') \<noteq> {} \<longrightarrow> row_source mi r \<noteq> row_destination mo r')"

lemma works_runs [simp]: "works (map Run ws) = ws"
  by (induction ws) simp_all

lemma works_waits [simp]: "works (map (\<lambda>x. WaitFor (f x)) xs) = []" "works (map WaitFor es) = []"
  by (induction xs, simp_all) (induction es, simp_all)

lemma works_none [simp]: "works (wait_if b e) = []" "works (global_wait evs) = []" "works (layer_wait evs i) = []"
  by (simp_all add: wait_if_def global_wait_def layer_wait_def split: option.split)

lemma works_concat: "works (concat qs) = concat (map works qs)"
  by (induction qs) simp_all

lemma works_in_chunks [simp]: "works (in_chunks N mi evs) = concat (map (in_moves N mi) (map fst evs))"
  by (simp add: in_chunks_def works_concat comp_def case_prod_unfold)

lemma works_layer_ops [simp]: "works (layer_ops N evs) = map Layer [0..<N]"
  by (simp add: layer_ops_def works_concat comp_def concat_single)

lemma works_copy_ops [simp]:
  "works (copy_ops e N mc mo evs) = (if mt_rows mc = [] then [] else engine_moves N Gpu Gpu mc)"
  by (simp add: copy_ops_def comp_def)

lemma wait_if_mem [simp]: "WaitFor e \<in> set (wait_if b e') \<longleftrightarrow> b \<and> e = e'"
  by (auto simp: wait_if_def)

lemma order_out:
  assumes "mt_rows mo \<noteq> [] \<Longrightarrow> behind e (\<lambda>x. \<forall>y \<in> set (engine_moves N Gpu Cpu mo). commute exec x y) q"
  shows "waits_for exec (out_ops e N mo) q"
proof (cases "mt_rows mo = []")
  case True
  then show ?thesis by (intro waits_for_no_work) (simp add: out_ops_def)
next
  case False
  then show ?thesis using assms by (simp add: out_ops_def waits_for_chunk)
qed

lemma order_out_in:
  assumes ok: "mapping_ok mi" "mapping_ok mo" and apart: "cpu_apart N mi mo"
  shows "waits_for (do_work kernels) (out_ops e N mo) (wait_if (in_waits mi mo) e @ in_chunks N mi evs)"
proof (intro order_out behind_append)
  assume out: "mt_rows mo \<noteq> []"
  show "WaitFor e \<in> set (wait_if (in_waits mi mo) e) \<or>
    behind e (\<lambda>x. \<forall>y \<in> set (engine_moves N Gpu Cpu mo). commute (do_work kernels) x y) (in_chunks N mi evs)"
  proof (cases "in_waits mi mo")
    case False
      have "commute (do_work kernels) x y"
        if x: "x \<in> set (works (in_chunks N mi evs))" and y: "y \<in> set (engine_moves N Gpu Cpu mo)" for x y
      proof -
        from x obtain k where "x \<in> set (in_moves N mi k)" by auto
        then obtain r l where r: "r \<in> set (mt_rows mi)" "l \<in> set (layers_of N mi r)"
          "x = Move Cpu Gpu l (row_source mi r) (row_destination mi r)" by (elim in_moves_row [OF ok(1)])
        from y obtain r' l' where r': "r' \<in> set (mt_rows mo)" "l' \<in> set (layers_of N mo r')"
          "y = Move Gpu Cpu l' (row_source mo r') (row_destination mo r')" by (elim engine_moves_row [OF ok(2)])
        have "row_destination mi r \<noteq> row_source mo r'" using False out r(1) r'(1) by (auto simp: in_waits_def any_in_iff)
        moreover have "l = l' \<Longrightarrow> row_source mi r \<noteq> row_destination mo r'"
          using apart r r' unfolding cpu_apart_def by blast
        ultimately show ?thesis unfolding r(3) r'(3) by (intro commute_moves) auto
      qed
      then show ?thesis by (auto intro: behind_works)
  qed simp
qed (rule behind_works, simp)

lemma behind_waits: "behind e P (map WaitFor es)" "behind e P (wait_if b e')" "behind e P (global_wait evs)"
  by (rule behind_works, simp)+

lemma behind_copies:
  assumes "mt_rows mc \<noteq> [] \<Longrightarrow> e \<in> snd ` set evs \<or> (copy_waits mc mo \<and> e = n) \<or> (\<forall>x \<in> set (engine_moves N Gpu Gpu mc). P x)"
  shows "behind e P (copy_ops n N mc mo evs)"
proof (cases "mt_rows mc = []")
  case False
  with assms have "WaitFor e \<in> set (map WaitFor (map snd evs)) \<or>
      behind e P (wait_if (copy_waits mc mo) n @ map Run (engine_moves N Gpu Gpu mc))"
    by (force intro: behind_append behind_waits behind_works)
  then show ?thesis unfolding copy_ops_def using False by (simp only: if_False) (intro behind_append behind_waits)
qed (simp add: copy_ops_def)

lemma order_out_compute:
  assumes ok: "mapping_ok mo" "mapping_ok mc" and local: "writes_only (set cur) kernels"
  shows "waits_for (do_work kernels) (out_ops n N mo) (compute_ops n N mi mo mc cur model)"
proof (rule order_out)
  assume out: "mt_rows mo \<noteq> []"
  let ?P = "\<lambda>x. \<forall>y \<in> set (engine_moves N Gpu Cpu mo). commute (do_work kernels) x y"
  have copies: "\<forall>x \<in> set (engine_moves N Gpu Gpu mc). ?P x" if no: "\<not> copy_waits mc mo"
  proof (intro ballI)
    fix x y
    assume x: "x \<in> set (engine_moves N Gpu Gpu mc)" and y: "y \<in> set (engine_moves N Gpu Cpu mo)"
    from x obtain r l where r: "r \<in> set (mt_rows mc)" "x = Move Gpu Gpu l (row_source mc r) (row_destination mc r)"
      by (elim engine_moves_row [OF ok(2)])
    from y obtain r' l' where r': "r' \<in> set (mt_rows mo)" "y = Move Gpu Cpu l' (row_source mo r') (row_destination mo r')"
      by (elim engine_moves_row [OF ok(1)])
    have "row_destination mc r \<noteq> row_source mo r'" using no out r(1) r'(1) by (auto simp: copy_waits_def any_in_iff)
    then show "commute (do_work kernels) x y" unfolding r(2) r'(2) by (intro commute_moves) auto
  qed
  have layers: "?P (Layer i)" if no: "\<not> step_waits cur mo" for i
  proof (intro ballI)
    fix y
    assume y: "y \<in> set (engine_moves N Gpu Cpu mo)"
    then obtain r' l' where r': "r' \<in> set (mt_rows mo)" "y = Move Gpu Cpu l' (row_source mo r') (row_destination mo r')"
      by (elim engine_moves_row [OF ok(1)])
    have "row_source mo r' \<notin> set cur" using no out r'(1) by (auto simp: step_waits_def any_in_iff)
    then show "commute (do_work kernels) (Layer i) y" unfolding r'(2) by (rule commute_layer_out [OF local])
  qed
  have "behind n ?P (layer_ops N evs)" if "\<not> step_waits cur mo" for evs
    by (rule behind_works) (use layers [OF that] in auto)
  then have last: "behind n ?P (wait_if (step_waits cur mo) n @
      (if model then layer_ops N (ddel (- 1) (open_events n mi mo mc)) else []))"
    by (intro behind_append behind_waits) auto
  show "behind n ?P (compute_ops n N mi mo mc cur model)"
    unfolding compute_ops_def
    by (rule behind_append [OF behind_copies], use copies in blast,
        rule disjI2, rule behind_append [OF behind_waits(3)], rule disjI2, rule last)
qed

lemma waits_for_concat:
  "(\<And>x. x \<in> set xs \<Longrightarrow> waits_for exec (f x) q) \<Longrightarrow> waits_for exec (concat (map f xs)) q"
  by (induction xs) (auto intro: waits_for_append_left waits_for_no_work)

lemma in_keys_distinct: "distinct (in_keys mi)"
  by (simp add: in_keys_def distinct_map)

lemma in_events_keys [simp]: "map fst (in_events n mi mo) = in_keys mi"
  by (simp add: in_events_def events_from_def)

lemma in_events_map_of: "(k, e) \<in> set (in_events n mi mo) \<Longrightarrow> map_of (in_events n mi mo) k = Some e"
  by (simp add: in_keys_distinct)

lemma order_in_compute:
  assumes ok: "mapping_ok mi"
  shows "waits_for (do_work kernels) (wait_if b n @ in_chunks N mi (in_events n mi mo)) (compute_ops n N mi mo mc cur model)"
proof (rule waits_for_append_left)
  let ?evs = "in_events n mi mo"
  show "waits_for (do_work kernels) (in_chunks N mi ?evs) (compute_ops n N mi mo mc cur model)"
    unfolding in_chunks_def
  proof (intro waits_for_concat, clarify)
    fix k e
    assume ke: "(k, e) \<in> set ?evs"
    let ?P = "\<lambda>x. \<forall>y \<in> set (in_moves N mi k). commute (do_work kernels) x y"
    show "waits_for (do_work kernels) (map Run (in_moves N mi k) @ [Record e]) (compute_ops n N mi mo mc cur model)"
    proof (rule waits_for_chunk, cases "mt_rows mc = []")
      case False
      then have "WaitFor e \<in> set (copy_ops n N mc mo ?evs)" using ke by (force simp: copy_ops_def)
      moreover have "behind e ?P (copy_ops n N mc mo ?evs)" using ke by (intro behind_copies) force
      ultimately show "behind e ?P (compute_ops n N mi mo mc cur model)"
        unfolding compute_ops_def by (intro behind_append disjI1)
    next
      case True
      then have opened: "open_events n mi mo mc = ?evs" "copy_ops n N mc mo ?evs = []"
        by (simp_all add: open_events_def copy_ops_def)
      have "k \<in> set (in_keys mi)" using ke by (metis in_events_keys fst_conv image_eqI set_map)
      then consider "k = - 1" | g where "mt_width mi = 3" "k = int g" by (auto simp: in_keys_def split: if_splits)
      then have "WaitFor e \<in> set (global_wait ?evs) \<or> behind e ?P (layer_ops N (ddel (- 1) ?evs))"
      proof cases
        case 1
        then show ?thesis using in_events_map_of [OF ke] by (simp add: global_wait_def)
      next
        case (2 g)
        have "?P (Layer i) \<or> (\<exists>j \<le> i. WaitFor e \<in> set (layer_wait (ddel (- 1) ?evs) j))" for i
        proof (cases "i div DEFAULT_LAYER_GROUP_SIZE = g")
          case True
          let ?j = "g * DEFAULT_LAYER_GROUP_SIZE"
          have "?j \<le> i" "?j mod DEFAULT_LAYER_GROUP_SIZE = 0" "?j div DEFAULT_LAYER_GROUP_SIZE = g"
            using True by (auto simp: DEFAULT_LAYER_GROUP_SIZE_def)
          moreover have "map_of (ddel (- 1) ?evs) (int g) = Some e" using in_events_map_of [OF ke] 2 by simp
          ultimately show ?thesis by (intro disjI2 exI [where x = ?j]) (simp add: layer_wait_def)
        next
          case False
          have "commute (do_work kernels) (Layer i) y" if "y \<in> set (in_moves N mi k)" for y
          proof -
            from that obtain r l where "l div DEFAULT_LAYER_GROUP_SIZE = nat k"
              "y = Move Cpu Gpu l (row_source mi r) (row_destination mi r)" using 2 by (elim in_moves_row [OF ok]) auto
            then show ?thesis using False 2 by (auto intro: commute_layer_in)
          qed
          then show ?thesis by blast
        qed
        then show ?thesis by (rule disjI2 [OF behind_layers])
      qed
      then have last: "WaitFor e \<in> set (global_wait ?evs) \<or> behind e ?P (wait_if (step_waits cur mo) n @
          (if model then layer_ops N (ddel (- 1) ?evs) else []))"
        by (auto intro!: behind_append behind_waits)
      show "behind e ?P (compute_ops n N mi mo mc cur model)"
        unfolding compute_ops_def opened append_Nil using last by (intro behind_append behind_waits)
    qed
  qed
qed (rule waits_for_no_work, simp)

section \<open>Well ordered\<close>

lemma records_simps [simp]:
  "records (map Run ws) = []" "records (wait_if b e) = []" "records (map (\<lambda>x. WaitFor (f x)) xs) = []"
  "records (global_wait evs) = []" "records (layer_wait evs i) = []"
proof -
  show "records (map Run ws) = []" by (induction ws) simp_all
  show "records (map (\<lambda>x. WaitFor (f x)) xs) = []" by (induction xs) simp_all
qed (simp_all add: wait_if_def global_wait_def layer_wait_def split: option.split)

lemma records_concat: "records (concat qs) = concat (map records qs)"
  by (induction qs) simp_all

lemma records_in_chunks: "records (in_chunks N mi evs) = map snd evs"
  by (simp add: in_chunks_def records_concat comp_def case_prod_unfold concat_single)

lemma records_compute: "records (compute_ops n N mi mo mc cur model) = []"
  by (auto simp: compute_ops_def copy_ops_def layer_ops_def records_concat comp_def)

lemma waits_of_parts [simp]:
  "waits (map Run ws) = {}" "waits (wait_if b e) = (if b then {e} else {})" "waits (map (\<lambda>x. WaitFor (f x)) xs) = f ` set xs"
  "waits (concat qs) = (\<Union>q \<in> set qs. waits q)"
  by (auto simp: waits_def wait_if_def)

lemma waits_in_chunks [simp]: "waits (in_chunks N mi evs) = {}"
  by (auto simp: in_chunks_def)

lemma waits_compute:
  "waits (compute_ops n N mi mo mc cur model) \<subseteq>
     (if mt_rows mo = [] then {} else {n}) \<union> snd ` set (in_events n mi mo)"
proof -
  have del: "set (ddel k evs) \<subseteq> set evs" for k :: int and evs :: "(int, event) pydict" by (auto simp: AList.delete_eq)
  have "waits (global_wait evs) \<subseteq> snd ` set evs" "waits (layer_wait evs i) \<subseteq> snd ` set evs" for evs i
    by (auto simp: global_wait_def layer_wait_def dest!: map_of_SomeD split: option.splits) force+
  moreover have "snd ` set (ddel (- 1) (open_events n mi mo mc)) \<subseteq> snd ` set (in_events n mi mo)"
    "snd ` set (open_events n mi mo mc) \<subseteq> snd ` set (in_events n mi mo)"
    using del [of "- 1" "in_events n mi mo"] by (auto simp: open_events_def)
  ultimately have "waits (global_wait (open_events n mi mo mc)) \<subseteq> snd ` set (in_events n mi mo)"
    "waits (layer_wait (ddel (- 1) (open_events n mi mo mc)) i) \<subseteq> snd ` set (in_events n mi mo)" for i
    by blast+
  moreover have "waits (copy_ops n N mc mo evs) \<subseteq> (if mt_rows mo = [] then {} else {n}) \<union> snd ` set evs" for evs
    by (auto simp: copy_ops_def copy_waits_def comp_def)
  ultimately show ?thesis
    by (auto simp: compute_ops_def layer_ops_def step_waits_def dest: subsetD)
qed

lemma in_events_values: "map snd (in_events n mi mo) =
   (let k = (if mt_rows mo = [] then n else Suc n) in [k..<k + length (in_keys mi)])"
  by (simp add: in_events_def events_from_def Let_def)

lemma worker_ordered:
  assumes ok: "mapping_ok mi" "mapping_ok mo" "mapping_ok mc" and "cpu_apart N mi mo" "writes_only (set cur) kernels"
  shows "well_ordered (do_work kernels) {} (worker_queues n N mi mo mc cur model)"
proof -
  have "snd ` set (in_events n mi mo) = set (map snd (in_events n mi mo))" by simp
  then have v: "snd ` set (in_events n mi mo) = set [(if mt_rows mo = [] then n else Suc n)..<
      (if mt_rows mo = [] then n else Suc n) + length (in_keys mi)]"
    unfolding in_events_values Let_def .
  show ?thesis
    unfolding well_ordered_def
    using order_out_in [OF ok(1,2) assms(4), of kernels n "in_events n mi mo"] order_out_compute [OF ok(2,3) assms(5)]
      order_in_compute [OF ok(1), of kernels] waits_compute [of n N mi mo mc cur model]
    by (cases "mt_rows mo = []") (simp_all add: worker_queues_def records_in_chunks records_compute in_events_values Let_def out_ops_def v in_waits_def Suc_le_eq)
qed

end
