(* ===== verification/Cache_Engine_Claims.thy ===== *)
theory Cache_Engine_Claims
  imports Cache_Engine_Order
begin

text \<open>
  What the worker's step does to the memory: whatever the interleaving of the streams, it ends as
  the transfers run row by row, one after the other, and then the layers.
\<close>

section \<open>Moves by layer\<close>

primrec move_layer :: "cache_work \<Rightarrow> nat option" where
  "move_layer (Move src dst l a b) = Some l"
| "move_layer (Layer i) = None"

definition on_layer :: "nat \<Rightarrow> cache_work list \<Rightarrow> cache_work list" where
  "on_layer l ws = filter (\<lambda>w. move_layer w = Some l) ws"

lemma on_layer_simps [simp]:
  "on_layer l [] = []" "on_layer l (ws @ ws') = on_layer l ws @ on_layer l ws'"
  "on_layer l (concat wss) = concat (map (on_layer l) wss)"
  by (simp_all add: on_layer_def [abs_def] filter_concat)

lemma moves_one_layer:
  assumes "\<forall>w \<in> set ws. move_layer w \<noteq> None" "\<forall>dev. mem_cache m dev l = mem_cache m' dev l"
  shows "mem_cache (fold (do_work kernels) ws m) dev l = mem_cache (fold (do_work kernels) (on_layer l ws) m') dev l"
  using assms
proof (induction ws arbitrary: m m')
  case (Cons w ws)
  then obtain src dst l' a b where w: "w = Move src dst l' a b" by (cases w) auto
  show ?case
  proof (cases "l' = l")
    case True
    have "\<forall>dev. mem_cache (do_work kernels w m) dev l = mem_cache (do_work kernels w m') dev l"
      using Cons.prems(2) w True by (simp add: write_block_def)
    then have "mem_cache (fold (do_work kernels) ws (do_work kernels w m)) dev l =
        mem_cache (fold (do_work kernels) (on_layer l ws) (do_work kernels w m')) dev l"
      using Cons.prems(1) by (intro Cons.IH) auto
    then show ?thesis using True w by (simp add: on_layer_def)
  next
    case False
    have "\<forall>dev. mem_cache (do_work kernels w m) dev l = mem_cache m' dev l"
      using Cons.prems(2) w False by (simp add: write_block_def)
    then have "mem_cache (fold (do_work kernels) ws (do_work kernels w m)) dev l =
        mem_cache (fold (do_work kernels) (on_layer l ws) m') dev l"
      using Cons.prems(1) by (intro Cons.IH) auto
    then show ?thesis using False w by (simp add: on_layer_def)
  qed
qed simp

lemma moves_hidden:
  "\<forall>w \<in> set ws. move_layer w \<noteq> None \<Longrightarrow> mem_hidden (fold (do_work kernels) ws m) = mem_hidden m"
proof (induction ws arbitrary: m)
  case (Cons w ws)
  then obtain src dst l' a b where "w = Move src dst l' a b" by (cases w) auto
  with Cons show ?case by simp
qed simp

lemma moves_eq:
  fixes m :: "('v, 'h) gpu_mem"
  assumes "\<And>l. on_layer l ws = on_layer l ws'" "\<forall>w \<in> set ws. move_layer w \<noteq> None" "\<forall>w \<in> set ws'. move_layer w \<noteq> None"
  shows "fold (do_work kernels) ws m = fold (do_work kernels) ws' m"
proof (rule gpu_mem.equality)
  show "mem_cache (fold (do_work kernels) ws m) = mem_cache (fold (do_work kernels) ws' m)"
    by (intro ext, subst moves_one_layer [OF assms(2), where m' = m], simp, subst moves_one_layer [OF assms(3), where m' = m])
      (simp_all add: assms(1))
qed (simp_all add: moves_hidden assms)

lemma fold_concat: "fold f (concat xss) = fold (fold f) xss"
  by (induction xss) (simp_all add: fun_eq_iff)

lemma concat_if_single:
  "distinct xs \<Longrightarrow> concat (map (\<lambda>x. if x = k then f x else []) xs) = (if k \<in> set xs then f k else [])"
  by (induction xs) auto

lemma on_layer_layer_moves [simp]:
  "on_layer l (layer_moves src dst rows l') = (if l = l' then layer_moves src dst rows l' else [])"
  by (auto simp: on_layer_def layer_moves_def filter_empty_conv)

lemma layer_range_distinct [simp]: "distinct (layer_range N g)"
  by (simp add: layer_range_def Let_def)

lemma on_layer_layers:
  "distinct ls \<Longrightarrow> on_layer l (concat (map (layer_moves src dst rows) ls)) =
     (if l \<in> set ls then layer_moves src dst rows l else [])"
  using concat_if_single [of ls l "layer_moves src dst rows"] by (simp add: comp_def eq_commute [of l])

definition row_move :: "device \<Rightarrow> device \<Rightarrow> mapping_tensor \<Rightarrow> nat \<Rightarrow> block_mapping \<Rightarrow> cache_work" where
  "row_move src dst mt l row = Move src dst l (row_source mt row) (row_destination mt row)"

lemma on_layer_engine:
  assumes ok: "mapping_ok mt"
  shows "on_layer l (engine_moves N src dst mt) =
    map (row_move src dst mt l) (filter (\<lambda>row. l \<in> set (layers_of N mt row)) (mt_rows mt))"
proof (cases "mt_width mt = 3")
  case True
  let ?k = "l div DEFAULT_LAYER_GROUP_SIZE" and ?gs = "unique_sorted (map hd (mt_rows mt))"
  let ?r = "\<lambda>g. map tl (filter (\<lambda>row. hd row = g) (mt_rows mt))"
  have tl: "tl row ! 0 = row ! 1" "tl row ! Suc 0 = row ! 2" if "row \<in> set (mt_rows mt)" for row
    using ok that True by (simp_all add: mapping_ok_def nth_tl numeral_2_eq_2)
  have one: "on_layer l (group_moves N src dst (mt_rows mt) g) =
      (if g = ?k then (if l < N then layer_moves src dst (?r g) l else []) else [])" for g
    unfolding group_moves_def by (subst on_layer_layers) (auto simp: layer_range_iff)
  have "on_layer l (engine_moves N src dst mt) =
      concat (map (\<lambda>g. if g = ?k then (if l < N then layer_moves src dst (?r g) l else []) else []) ?gs)"
    using True by (simp add: engine_moves_def comp_def one)
  also have "\<dots> = (if l < N then layer_moves src dst (?r ?k) l else [])"
  proof (cases "?k \<in> set ?gs")
    case False
    then have "filter (\<lambda>row. hd row = ?k) (mt_rows mt) = []" by (force simp: filter_empty_conv)
    then show ?thesis using False by (simp add: concat_if_single layer_moves_def)
  qed (simp add: concat_if_single)
  also have "\<dots> = map (row_move src dst mt l) (filter (\<lambda>row. l \<in> set (layers_of N mt row)) (mt_rows mt))"
    using True tl
    by (auto simp: layer_moves_def layers_of_def layer_range_iff row_move_def row_source_def row_destination_def eq_commute [of ?k])
  finally show ?thesis .
next
  case False
  have "on_layer l (concat (map (layer_moves src dst (mt_rows mt)) [0..<N])) =
      (if l < N then layer_moves src dst (mt_rows mt) l else [])" by (subst on_layer_layers) auto
  then show ?thesis using False
    by (simp add: engine_moves_def layers_of_def row_move_def [abs_def] row_source_def row_destination_def layer_moves_def
        del: on_layer_simps(3))
qed

lemma on_layer_rows:
  "on_layer l (concat (map (row_moves N src dst mt) rows)) =
     map (row_move src dst mt l) (filter (\<lambda>row. l \<in> set (layers_of N mt row)) rows)"
proof -
  have d: "distinct (layers_of N mt row)" for row by (simp add: layers_of_def)
  have "on_layer l (row_moves N src dst mt row) = (if l \<in> set (layers_of N mt row) then [row_move src dst mt l row] else [])" for row
  proof -
    have "on_layer l (map (\<lambda>l'. row_move src dst mt l' row) ls) = concat (map (\<lambda>l'. if l' = l then [row_move src dst mt l' row] else []) ls)" for ls
      by (induction ls) (auto simp: on_layer_def row_move_def)
    then have "on_layer l (row_moves N src dst mt row) = concat (map (\<lambda>l'. if l' = l then [row_move src dst mt l' row] else []) (layers_of N mt row))"
      by (simp add: row_moves_def row_move_def)
    then show ?thesis using concat_if_single [OF d [of row], of l "\<lambda>l'. [row_move src dst mt l' row]"] by simp
  qed
  then show ?thesis by (induction rows) auto
qed

text \<open>The engine's order, group by group and layer by layer, gives the same as the order of the rows.\<close>

lemma engine_moves_transfer:
  assumes "mapping_ok mt"
  shows "fold (do_work kernels) (engine_moves N src dst mt) m = transfer N src dst mt kernels m"
proof -
  have "fold (do_work kernels) (engine_moves N src dst mt) m =
      fold (do_work kernels) (concat (map (row_moves N src dst mt) (mt_rows mt))) m"
    by (rule moves_eq) (auto simp: on_layer_engine [OF assms] on_layer_rows row_moves_def simp del: on_layer_simps(3)
        elim!: engine_moves_row [OF assms])
  then show ?thesis by (simp add: transfer_def fold_concat fold_map comp_def)
qed

section \<open>The step\<close>

definition idle_cuda :: issued where
  "idle_cuda = \<lparr>is_queues = (\<lambda>_. []), is_next_event = 0\<rparr>"

definition start_gpu :: "issued \<Rightarrow> 'm \<Rightarrow> (cache_work, 'm) gpu" where
  "start_gpu d m = \<lparr>gpu_queues = is_queues d, gpu_reached = {}, gpu_memory = m\<rparr>"

text \<open>The reference: out, in, copies, then the layers if there is a batch.\<close>

definition worker_result ::
  "('v, 'h) layer_kernels \<Rightarrow> nat \<Rightarrow> mapping_tensor \<Rightarrow> mapping_tensor \<Rightarrow> mapping_tensor \<Rightarrow> bool \<Rightarrow>
   ('v, 'h) gpu_mem \<Rightarrow> ('v, 'h) gpu_mem"
where
  "worker_result kernels N mi mo mc model m =
     (let m = transfer N Gpu Cpu mo kernels m;
          m = transfer N Cpu Gpu mi kernels m;
          m = transfer N Gpu Gpu mc kernels m in
      if model then run_layers N kernels m else m)"

lemma in_chunks_moves: "concat (map (in_moves N mi) (in_keys mi)) = engine_moves N Cpu Gpu mi"
proof (cases "mt_rows mi = []")
  case True
  then have "engine_moves N Cpu Gpu mi = []"
    by (simp add: engine_moves_def layer_moves_def unique_sorted_def)
  then show ?thesis using True by (simp add: in_keys_def)
next
  case False
  then show ?thesis by (simp add: in_keys_def in_moves_def [abs_def] engine_moves_def comp_def)
qed

lemma no_moves: "mt_rows mt = [] \<Longrightarrow> transfer N src dst mt kernels m = m"
  by (simp add: transfer_def)

lemma worker_sequential:
  fixes m :: "('v, 'h) gpu_mem"
  assumes "mapping_ok mi" "mapping_ok mo" "mapping_ok mc"
  shows "sequential (do_work kernels) \<lparr>gpu_queues = worker_queues n N mi mo mc cur model, gpu_reached = {}, gpu_memory = m\<rparr> =
    worker_result kernels N mi mo mc model m"
proof -
  have out: "fold (do_work kernels) (works (out_ops n N mo)) m = transfer N Gpu Cpu mo kernels m" for m :: "('v, 'h) gpu_mem"
    by (simp add: out_ops_def no_moves engine_moves_transfer [OF assms(2)])
  have copies: "fold (do_work kernels) (works (copy_ops n N mc mo evs)) m = transfer N Gpu Gpu mc kernels m"
    for m :: "('v, 'h) gpu_mem" and evs
    by (simp add: no_moves engine_moves_transfer [OF assms(3)])
  show ?thesis
    unfolding sequential_def worker_result_def Let_def
    by (simp add: worker_queues_def compute_ops_def out copies in_chunks_moves engine_moves_transfer [OF assms(1)]
        run_layers_def fold_map comp_def del: works_copy_ops)
qed

text \<open>
  The worker's overlapped transfers are free of races. For mappings of two or three columns, with
  no CPU block swapped in from and out to in one step, and layer kernels that write only to the
  blocks the scheduler announced: \<open>worker_execute\<close> issues its work without an exception, and then
  no interleaving of the three CUDA streams gets stuck and each one that ends leaves exactly the memory
  of swapping out, swapping in, copying and running the layers one after the other.
\<close>

theorem worker_overlap_race_free:
  fixes m :: "('v, 'h) gpu_mem"
  assumes "\<forall>row \<in> set (emr_blocks_to_swap_in req) \<union> set (emr_blocks_to_swap_out req) \<union> set (emr_blocks_to_copy req).
      length row \<in> {2, 3}"
    and "mapping_of (emr_blocks_to_swap_in req) = Inr mi" "mapping_of (emr_blocks_to_swap_out req) = Inr mo"
    and "mapping_of (emr_blocks_to_copy req) = Inr mc"
    and "cpu_apart N mi mo" "writes_only (set (emr_total_block_ids req)) kernels"
  shows "\<exists>d. worker_execute N req idle_cuda = (Inr (), d) \<and>
    (\<forall>h. gpu_steps (do_work kernels) (start_gpu d m) h \<longrightarrow>
       (\<exists>k. gpu_steps (do_work kernels) h k \<and> gpu_idle k) \<and>
       (gpu_idle h \<longrightarrow> gpu_memory h = worker_result kernels N mi mo mc (emr_seq_group_metadata_list req \<noteq> []) m))"
proof -
  let ?q = "worker_queues 0 N mi mo mc (emr_total_block_ids req) (emr_seq_group_metadata_list req \<noteq> [])"
  have ok: "mapping_ok mi" "mapping_ok mo" "mapping_ok mc" using assms(1-4) by (auto intro: mapping_of_ok(1))
  obtain d where d: "worker_execute N req idle_cuda = (Inr (), d)" "is_queues d = ?q"
    using worker_execute_run [OF assms(2-4), of idle_cuda N] by (auto simp: idle_cuda_def)
  have "well_ordered (do_work kernels) (gpu_reached (start_gpu d m)) (gpu_queues (start_gpu d m))"
    using worker_ordered [OF ok assms(5,6)] by (simp add: start_gpu_def d(2))
  note run = idle_is_sequential [OF this]
  have "sequential (do_work kernels) (start_gpu d m) = worker_result kernels N mi mo mc (emr_seq_group_metadata_list req \<noteq> []) m"
    using worker_sequential [OF ok] by (simp add: start_gpu_def d(2))
  then show ?thesis using d(1) run by auto
qed

text \<open>
  A step that swaps block 1 of group 0 out, reuses it at once for a block swapped in, and copies
  block 1 of group 1; the model adds one to every announced block of every layer.
\<close>

definition demo_request :: "nat ExecuteModelRequest" where
  "demo_request = \<lparr>emr_seq_group_metadata_list =
       [projr (SequenceGroupMetadata_init ''a'' False [] None [] True None (Some 5) None None None None 0 None)],
     emr_blocks_to_swap_in = [[0, 6, 1], [1, 6, 3]], emr_blocks_to_swap_out = [[0, 1, 5]],
     emr_blocks_to_copy = [[1, 1, 2]], emr_total_block_ids = [1, 2, 3], emr_num_lookahead_slots = 0,
     emr_running_queue_size = 1\<rparr>"

definition demo_kernels :: "(int, int) layer_kernels" where
  "demo_kernels i h c = (h + 1, (\<lambda>b. if b \<in> {1, 2, 3} then c b + 1 else c b))"

definition demo_mem :: "(int, int) gpu_mem" where
  "demo_mem = \<lparr>mem_cache = (\<lambda>dev l b. (if dev = Gpu then 100 else 200) + 10 * int l + int b), mem_hidden = 0\<rparr>"

theorem worker_overlap_race_free_witness:
  "\<exists>d k. worker_execute 8 demo_request idle_cuda = (Inr (), d) \<and>
     gpu_steps (do_work demo_kernels) (start_gpu d demo_mem) k \<and> gpu_idle k \<and>
     mem_cache (gpu_memory k) Cpu 2 5 = 121 \<and> mem_cache (gpu_memory k) Gpu 2 1 = 227 \<and>
     mem_cache (gpu_memory k) Gpu 5 2 = 152"
proof -
  let ?mi = "\<lparr>mt_width = 3, mt_rows = [[0, 6, 1], [1, 6, 3]]\<rparr>" and ?mo = "\<lparr>mt_width = 3, mt_rows = [[0, 1, 5]]\<rparr>"
  let ?mc = "\<lparr>mt_width = 3, mt_rows = [[1, 1, 2]]\<rparr>"
  have "writes_only {1, 2, 3} demo_kernels" by (simp add: writes_only_def demo_kernels_def)
  then have w: "writes_only (set (emr_total_block_ids demo_request)) demo_kernels" by (simp add: demo_request_def)
  have a: "cpu_apart 8 ?mi ?mo" by (simp add: cpu_apart_def row_source_def row_destination_def)
  obtain d where d: "worker_execute 8 demo_request idle_cuda = (Inr (), d)"
    and run: "\<forall>h. gpu_steps (do_work demo_kernels) (start_gpu d demo_mem) h \<longrightarrow>
       (\<exists>k. gpu_steps (do_work demo_kernels) h k \<and> gpu_idle k) \<and>
       (gpu_idle h \<longrightarrow> gpu_memory h = worker_result demo_kernels 8 ?mi ?mo ?mc True demo_mem)"
    using worker_overlap_race_free [OF _ _ _ _ a w, of ?mc demo_mem]
    by (auto simp: demo_request_def mapping_of_def)
  then obtain k where k: "gpu_steps (do_work demo_kernels) (start_gpu d demo_mem) k" "gpu_idle k" by blast
  have "mem_cache (worker_result demo_kernels 8 ?mi ?mo ?mc True demo_mem) Cpu 2 5 = 121"
    "mem_cache (worker_result demo_kernels 8 ?mi ?mo ?mc True demo_mem) Gpu 2 1 = 227"
    "mem_cache (worker_result demo_kernels 8 ?mi ?mo ?mc True demo_mem) Gpu 5 2 = 152"
    by code_simp+
  then show ?thesis using d k run by (intro exI [where x = d] exI [where x = k]) simp
qed

end
