(* ===== verification/Spec2Isabelle.thy ===== *)
theory Spec2Isabelle
  imports Sequence_Claims Ellm_Append_Facts Scheduler_Steps Scheduler_Abort Block_V1_Run Ellm_Swap_Claims Multi_Step Llm_Engine_Claims Cache_Engine_Claims
begin

text \<open>
  A verification development of eLLM, a fork of the vLLM serving engine that keeps the KV cache of
  a request per group of model layers and may drop the cached prefix of some layers to fit more
  requests, recomputing it when it is needed. The development covers the part of the engine that
  decides which request runs and where its cache blocks live: \<^verbatim>\<open>vllm/core\<close>, the data it works on
  (\<^verbatim>\<open>vllm/sequence.py\<close>, \<^verbatim>\<open>vllm/sampling_params.py\<close>, \<^verbatim>\<open>vllm/block.py\<close>), what the workers make of
  its block tables, and what the engine does with the tokens that come back.

  \<^bold>\<open>How the parts interact.\<close> The engine hands every request to the scheduler as a \<open>SequenceGroup\<close>
  (theory \<open>Seq_Group\<close>). In each step \<open>schedule\<close> (theory \<open>Scheduler\<close>) moves groups between its three
  queues waiting, running and swapped within a token and sequence budget, asking the block manager
  whether and when blocks can be taken. The block manager is an interface of the code
  (\<^verbatim>\<open>core/interfaces.py\<close>): theory \<open>Block_Interface\<close> has it as the record \<open>block_manager\<close> of operations
  over a state type \<open>'b\<close>, and the scheduler is defined over an arbitrary one. Two implementations
  are modelled: eLLM's own (\<open>Ellm_Block_Manager\<close>, over the KV map of \<open>Ellm_Cache\<close>) and the first
  vLLM manager (\<open>Block_V1\<close>, over a heap of \<open>PhysicalTokenBlock\<close> objects). The scheduled groups go to
  the workers as \<open>SequenceGroupMetadata\<close>, whose block tables become slot addresses (\<open>Ellm_Metadata\<close>).
  The sampled tokens come back to the output processor, which appends them to the sequences,
  detokenizes them, checks the stop conditions and frees finished sequences.

  \<^bold>\<open>Conventions.\<close> A method that changes its object is a value of type \<open>('s, 'a) pym\<close> (theory
  \<open>Py_Prelude\<close>): it takes the state and returns a result or the exception, together with the state
  at that moment, so what an exception leaves behind is part of the model. \<open>wp m Q E s\<close> says that
  \<open>m\<close>, run in \<open>s\<close>, returns with \<open>Q\<close> or raises with \<open>E\<close>. Dictionaries are association lists in
  insertion order; the order of iteration over a Python set is a parameter \<open>order\<close>, hashing a
  parameter \<open>hash\<close>, and so is the clock. Times and rates are rationals. Objects the code only passes
  on are references (numbers).

  \<^bold>\<open>Theories and source.\<close>
  \<^item> \<open>Py_Prelude\<close>: the method type, loops, try/except/finally, dictionaries, lists, rounding up.
    \<open>Ref_Pool\<close>: the locale \<open>ref_pool\<close>, the contract of a reference-counted pool of blocks (allocate,
    retain, release), with the client lemmas on allocating and releasing many blocks; it is
    interpreted on the KV map's pools (\<open>Ellm_Cache_Pool\<close>) and on the V1 heap (\<open>Block_V1_Facts\<close>).
  \<^item> \<open>Ellm_Cache\<close> and its parts \<open>_Pool\<close>, \<open>_Inv\<close>, \<open>_Ops\<close>, \<open>_Append\<close>, \<open>_Seq\<close>, \<open>_Plan\<close>, \<open>_Run\<close>: all of
    \<^verbatim>\<open>core/ellm_cache.py\<close> (class \<^verbatim>\<open>TokenLayerKVMap\<close>). State: \<open>kv_map\<close>. The invariant \<open>kv_inv\<close> (reference
    counts, free queues, entries per group and position) is kept by every operation, also when it
    raises; \<open>kv_reach\<close> is the set of reachable maps. C1 to C7.
  \<^item> \<open>Sampling_Params\<close>: \<^verbatim>\<open>sampling_params.py\<close>. \<open>Vllm_Sequence\<close> and \<open>Seq_Group\<close>: \<^verbatim>\<open>sequence.py\<close> with
    \<^verbatim>\<open>block.py\<close>'s logical blocks and \<^verbatim>\<open>lora/request.py\<close>. \<open>Sequence_Claims\<close>: C25 and C26.
  \<^item> \<open>Ellm_Policy\<close>: \<^verbatim>\<open>core/ellm_policy.py\<close> and \<^verbatim>\<open>core/policy.py\<close>. C8, C9.
  \<^item> \<open>Block_Interface\<close>: \<^verbatim>\<open>core/interfaces.py\<close>. \<open>Ellm_Block_Manager\<close>: \<^verbatim>\<open>core/ellm_block_manager.py\<close>, every
    operation; \<open>Ellm_Block_Facts\<close> and \<open>Ellm_Append_Facts\<close> prove that admission and append checks are
    sound (C10, C11), \<open>Ellm_Quiet\<close> that its operations end.
  \<^item> \<open>Scheduler_State\<close>, \<open>Scheduler\<close>: \<^verbatim>\<open>core/scheduler.py\<close> with the cache and scheduler configuration of
    \<^verbatim>\<open>config.py\<close>. \<open>Scheduler_Facts\<close>, \<open>_Prefill\<close>, \<open>_Swapped\<close>, \<open>_Running\<close>, \<open>_Refused\<close>, \<open>_Steps\<close>, \<open>_Abort\<close> prove
    that no pass, default step or abort loses or duplicates a request, which ones a chunked step loses, and
    that budgets are respected (C12 to C19).
    \<open>Scheduler_Demo\<close> has the concrete scheduler of the examples.
  \<^item> \<open>Block_Evictor\<close>: \<^verbatim>\<open>core/evictor_v1.py\<close>, \<^verbatim>\<open>core/evictor_v2.py\<close> and the \<^verbatim>\<open>PhysicalTokenBlock\<close> of
    \<^verbatim>\<open>block.py\<close>; both evictors refine the reference least-recently-used choice (C24).
  \<^item> \<open>Block_V1\<close>: \<^verbatim>\<open>core/block_manager_v1.py\<close>; \<open>Block_V1_Facts\<close>, \<open>_Ops\<close>, \<open>_Swap\<close> keep its invariant
    \<open>v1_inv\<close>; \<open>Block_V1_Run\<close> has C20 to C23.
  \<^item> \<open>Ellm_Metadata\<close>: \<^verbatim>\<open>worker/ellm_metadata.py\<close> with the metadata class of
    \<^verbatim>\<open>attention/backends/xformers.py\<close> and the recompute inputs of \<^verbatim>\<open>worker/model_runner.py\<close>. A tensor is the
    list of its values with device and element type. \<open>Ellm_Metadata_Facts\<close>: the worker's slot addresses
    are those of the KV map (C27); \<open>Ellm_Recompute_Facts\<close>: the map's plans are accepted, and leave no
    trace (C28 to C30); \<open>Ellm_Cache_Consts\<close>: the map's dimensions never change.
  \<^item> \<open>Ellm_Swap_Facts\<close>, \<open>_Round\<close>, \<open>_Claims\<close>: eviction by cache ratio, swapping out and in, and the round
    trip (C31 to C33).
  \<^item> \<open>Detokenizer\<close>: \<^verbatim>\<open>transformers_utils/detokenizer.py\<close> over a record of the tokenizer's methods;
    \<open>Detokenizer_Facts\<close>: with a byte-level tokenizer the text comes out in pieces, complete (C37). \<open>Stop_Checker\<close>:
    \<^verbatim>\<open>engine/output_processor/stop_checker.py\<close> (C34). \<open>Multi_Step\<close>: \<^verbatim>\<open>multi_step.py\<close> and \<^verbatim>\<open>util.py\<close> beside it: what
    a step appends, and that generation ends (C35, C36). \<open>Single_Step\<close>: \<^verbatim>\<open>single_step.py\<close>, forks
    and beam search; \<open>Single_Step_Facts\<close>, \<open>Single_Step_Beam\<close>, \<open>Single_Step_End\<close>: a whole step against the contract
    \<open>table_contract\<close> of a block manager; \<open>Single_Step_Claims\<close>: the two block managers keep it (C38, C39).
  \<^item> \<open>Outputs\<close>: \<^verbatim>\<open>outputs.py\<close>. \<open>Llm_Engine\<close>: \<^verbatim>\<open>engine/llm_engine.py\<close>, requests in and out and a whole step, the
    tokenizer and the model executor being parameters; \<open>Llm_Engine_Facts\<close>, \<open>Llm_Engine_Claims\<close>: a batch of
    outputs is processed group by group against \<open>table_contract\<close>, and reported truly (C40).

  \<^item> \<open>Cache_Engine\<close>: \<^verbatim>\<open>worker/cache_engine.py\<close> and the transfers of \<^verbatim>\<open>worker/worker.py\<close>, over \<open>Gpu_Streams\<close>, the
    CUDA streams and events as a step relation. \<open>Cache_Engine_Facts\<close>, \<open>_Order\<close> and \<open>_Claims\<close>: every interleaving
    of the overlapped transfers and the model's layers leaves the memory of the sequential order.

  \<^bold>\<open>Loops and fuel.\<close> Loops over a list or dictionary are structural (\<open>fold_each\<close>, \<open>for_each\<close>). The
  loop of \<^verbatim>\<open>_schedule_running\<close> runs on fuel equal to the length of the queue it shortens, one unit for every
  group it takes; running out is the exception \<open>NonTermination\<close>, and C14 proves that it does not occur
  for a manager whose operations end, which \<open>Ellm_Quiet\<close> shows of eLLM's. The other loops of the scheduler
  recurse over their queue, and the inner one of \<^verbatim>\<open>_schedule_running\<close> on its length. The append loop of
  eLLM's manager has one unit of fuel more than the sequence has tokens, and \<open>Ellm_Quiet\<close> shows that it suffices.

  \<^bold>\<open>Not modelled.\<close> The tensor code (models, kernels, samplers, attention, LoRA layers; of the
  worker only the block transfers are modelled) and the
  processes around it (the asynchronous engine, HTTP entry points, executors, the tokenizers themselves): they are calls into
  torch, CUDA, Ray, FastAPI and other libraries. The scipy optimiser calls of the scheduler's unused
  \<^verbatim>\<open>get_opt_*\<close> variants, the engine's statistics, logging. PROJECT.json lists every component.
\<close>

end
